(* ===== verification/Ansa_Prelude.thy ===== *)
theory Ansa_Prelude
  imports Main "HOL-Library.Word" "HOL-Library.Monad_Syntax" "HOL-Library.Product_Lexorder"
begin

text \<open>
  The prelude of the development: the machine types of the C++ code (unsigned integers at
  their width, MAC and IP addresses as the words the classes hold), the simulation time, the
  checked and unchecked accesses to a \<open>std::vector\<close>, the recurring search loops over a
  vector (update, erase or find the first element that satisfies a condition), and the
  collections of facts (\<open>named_theorems\<close>) the component theories share.
\<close>

named_theorems wf_intros \<open>operations keep the well-formedness of their state\<close>
named_theorems frame_simps \<open>fields an operation leaves alone\<close>

section \<open>Machine types\<close>

type_synonym u8 = "8 word"
type_synonym u16 = "16 word"
type_synonym u32 = "32 word"
type_synonym u64 = "64 word"

lemma unat_of_nat_u32: "n < 2 ^ 32 \<Longrightarrow> unat (of_nat n :: u32) = n"
  by (simp add: unsigned_of_nat take_bit_nat_eq_self)

lemma unat_of_int_u32: "0 \<le> v \<Longrightarrow> v < 2 ^ 32 \<Longrightarrow> unat (word_of_int v :: u32) = nat v"
proof -
  assume "0 \<le> v" and "v < 2 ^ 32"
  then have "uint (word_of_int v :: u32) = v"
    by (simp add: uint_word_of_int_eq take_bit_int_eq_self)
  then show ?thesis by (metis nat_uint_eq)
qed

lemma unat_of_int_u64: "0 \<le> v \<Longrightarrow> v < 2 ^ 64 \<Longrightarrow> unat (word_of_int v :: u64) = nat v"
proof -
  assume "0 \<le> v" and "v < 2 ^ 64"
  then have "uint (word_of_int v :: u64) = v"
    by (simp add: uint_word_of_int_eq take_bit_int_eq_self)
  then show ?thesis by (metis nat_uint_eq)
qed

text \<open>\<open>MACAddress\<close> keeps 48 bits of a \<open>uint64\<close>, \<open>IPv4Address\<close> a \<open>uint32\<close>, \<open>IPv6Address\<close> four
  \<open>uint32\<close>, most significant first.\<close>

type_synonym mac_addr = "48 word"
type_synonym ipv4_addr = "32 word"
type_synonym ipv6_addr = "128 word"

text \<open>\<open>simtime_t\<close> is a 64-bit count of the simulation kernel's resolution, a picosecond by default.
  The model keeps the count as an integer; \<open>sec n\<close> is \<open>n\<close> seconds.\<close>

type_synonym simtime = int

definition sec :: "int \<Rightarrow> simtime" where
  "sec n = n * 1000000000000"

lemma sec_le_iff [simp]: "sec a \<le> sec b \<longleftrightarrow> a \<le> b"
  by (simp add: sec_def)

lemma sec_less_iff [simp]: "sec a < sec b \<longleftrightarrow> a < b"
  by (simp add: sec_def)

section \<open>Exceptions\<close>

text \<open>\<open>cComponent::error\<close> throws a \<open>cRuntimeError\<close> that ends the run; \<open>std::vector::at\<close> throws
  \<open>std::out_of_range\<close>; \<open>ASSERT\<close> throws when its condition fails. An operation whose only
  exception is an out-of-range access returns an option instead.\<close>

datatype exn = Runtime_Error string | Out_Of_Range | Assert_Failed

type_synonym 'a result = "exn + 'a"

section \<open>Vectors\<close>

text \<open>\<open>std::vector::at\<close>: \<open>None\<close> stands for the \<open>out_of_range\<close> exception.\<close>

definition vec_at :: "'a list \<Rightarrow> nat \<Rightarrow> 'a option" where
  "vec_at xs i = (if i < length xs then Some (xs ! i) else None)"

text \<open>An in-place change of one element.\<close>

definition vec_modify :: "nat \<Rightarrow> ('a \<Rightarrow> 'a) \<Rightarrow> 'a list \<Rightarrow> 'a list" where
  "vec_modify i f xs = xs[i := f (xs ! i)]"

lemma vec_at_Some [simp]: "i < length xs \<Longrightarrow> vec_at xs i = Some (xs ! i)"
  by (simp add: vec_at_def)

lemma vec_at_None [simp]: "length xs \<le> i \<Longrightarrow> vec_at xs i = None"
  by (simp add: vec_at_def)

lemma length_vec_modify [simp]: "length (vec_modify i f xs) = length xs"
  by (simp add: vec_modify_def)

lemma nth_vec_modify:
  "vec_modify i f xs ! j = (if i = j \<and> j < length xs then f (xs ! j) else xs ! j)"
  by (cases "i < length xs") (auto simp: vec_modify_def nth_list_update list_update_beyond)

lemma nth_vec_modify_eq [simp]: "i < length xs \<Longrightarrow> vec_modify i f xs ! i = f (xs ! i)"
  by (simp add: nth_vec_modify)

lemma nth_vec_modify_neq [simp]: "i \<noteq> j \<Longrightarrow> vec_modify i f xs ! j = xs ! j"
  by (simp add: nth_vec_modify)

section \<open>Search loops over a vector\<close>

text \<open>The code's search loops stop at the first element that satisfies a condition and change it
  in place (\<open>update_first\<close>), erase it (\<open>erase_first\<close>), or give its index, the vector's size when
  there is none (\<open>index_first\<close>).\<close>

fun update_first :: "('a \<Rightarrow> bool) \<Rightarrow> ('a \<Rightarrow> 'a) \<Rightarrow> 'a list \<Rightarrow> 'a list" where
  "update_first p f [] = []"
| "update_first p f (x # xs) = (if p x then f x # xs else x # update_first p f xs)"

fun erase_first :: "('a \<Rightarrow> bool) \<Rightarrow> 'a list \<Rightarrow> 'a list" where
  "erase_first p [] = []"
| "erase_first p (x # xs) = (if p x then xs else x # erase_first p xs)"

fun index_first :: "('a \<Rightarrow> bool) \<Rightarrow> 'a list \<Rightarrow> nat" where
  "index_first p [] = 0"
| "index_first p (x # xs) = (if p x then 0 else Suc (index_first p xs))"

lemma length_update_first [simp]: "length (update_first p f xs) = length xs"
  by (induction xs) auto

lemma map_update_first:
  "(\<And>x. p x \<Longrightarrow> g (f x) = g x) \<Longrightarrow> map g (update_first p f xs) = map g xs"
  by (induction xs) auto

lemma update_first_id: "\<forall>x\<in>set xs. \<not> p x \<Longrightarrow> update_first p f xs = xs"
  by (induction xs) auto

lemma set_update_first_subset: "set (update_first p f xs) \<subseteq> set xs \<union> f ` {x \<in> set xs. p x}"
  by (induction xs) auto

lemma erase_first_id: "\<forall>x\<in>set xs. \<not> p x \<Longrightarrow> erase_first p xs = xs"
  by (induction xs) auto

lemma set_erase_first_subset: "set (erase_first p xs) \<subseteq> set xs"
  by (induction xs) auto

lemma set_erase_first_ge: "{x \<in> set xs. \<not> p x} \<subseteq> set (erase_first p xs)"
  by (induction xs) auto

lemma distinct_map_erase_first:
  "distinct (map g xs) \<Longrightarrow> distinct (map g (erase_first p xs))"
  by (induction xs) (use set_erase_first_subset in fastforce)+

lemma erase_first_distinct:
  "distinct (map g xs) \<Longrightarrow> erase_first (\<lambda>x. g x = k) xs = filter (\<lambda>x. g x \<noteq> k) xs"
proof (induction xs)
  case (Cons a xs)
  then show ?case
    by (auto simp: image_iff intro!: filter_id_conv [THEN iffD2, symmetric])
qed simp

lemma length_erase_first:
  "length (erase_first p xs) = (if \<exists>x\<in>set xs. p x then length xs - 1 else length xs)"
proof (induction xs)
  case (Cons a xs)
  then show ?case by (cases xs) auto
qed simp

lemma index_first_less_iff [simp]: "index_first p xs < length xs \<longleftrightarrow> (\<exists>x\<in>set xs. p x)"
  by (induction xs) auto

lemma index_first_eq_length [simp]: "index_first p xs = length xs \<longleftrightarrow> (\<forall>x\<in>set xs. \<not> p x)"
  by (induction xs) auto

lemma index_first_le [simp]: "index_first p xs \<le> length xs"
  by (induction xs) auto

lemma index_first_nth: "\<exists>x\<in>set xs. p x \<Longrightarrow> p (xs ! index_first p xs)"
  by (induction xs) auto

lemma index_first_minimal: "i < index_first p xs \<Longrightarrow> \<not> p (xs ! i)"
  by (induction xs arbitrary: i) (auto simp: nth_Cons split: if_splits nat.splits)

lemma in_image_nth: "r \<in> f ` set xs \<longleftrightarrow> (\<exists>i<length xs. r = f (xs ! i))"
  by (metis (no_types) image_iff in_set_conv_nth)

lemma find_Some_in: "find p xs = Some x \<Longrightarrow> x \<in> set xs \<and> p x"
  by (induction xs) (auto split: if_splits)

lemma find_None_all: "find p xs = None \<longleftrightarrow> (\<forall>x\<in>set xs. \<not> p x)"
  by (induction xs) auto

lemma vec_at_index_first: "vec_at xs (index_first P xs) = find P xs"
  by (induction xs) (auto simp: vec_at_def split: if_splits)

lemma find_update_first: "(\<And>x. P (f x) = P x) \<Longrightarrow> find P (update_first P f xs) = map_option f (find P xs)"
  by (induction xs) auto

lemma fold_invariant:
  "(\<And>x s. x \<in> set xs \<Longrightarrow> P s \<Longrightarrow> P (f x s)) \<Longrightarrow> P s \<Longrightarrow> P (fold f xs s)"
  by (induction xs arbitrary: s) auto

lemma fold_invariant_upt:
  assumes "\<And>i s. i < n \<Longrightarrow> P s \<Longrightarrow> P (f i s)" and "P s"
  shows "P (fold f [0..<n] s)"
proof -
  have "\<forall>i\<in>set xs. i < n \<Longrightarrow> P s \<Longrightarrow> P (fold f xs s)" for xs s
    using assms(1) by (induction xs arbitrary: s) auto
  from this [of "[0..<n]"] show ?thesis using assms(2) by simp
qed

text \<open>What a search finds is the first element with the property.\<close>

lemma find_split:
  "find P xs = Some x \<Longrightarrow> \<exists>as bs. xs = as @ x # bs \<and> P x \<and> (\<forall>y\<in>set as. \<not> P y)"
proof (induction xs)
  case (Cons y ys)
  show ?case
  proof (cases "P y")
    case True
    then have "y # ys = [] @ x # ys \<and> P x \<and> (\<forall>y\<in>set []. \<not> P y)" using Cons.prems by simp
    then show ?thesis by blast
  next
    case False
    then obtain as bs where "ys = as @ x # bs" "P x" "\<forall>y\<in>set as. \<not> P y" using Cons by auto
    then have "y # ys = (y # as) @ x # bs \<and> P x \<and> (\<forall>y\<in>set (y # as). \<not> P y)" using False by simp
    then show ?thesis by blast
  qed
qed simp

lemma ex_Some_pairI: "P a b \<Longrightarrow> \<exists>x y. Some (a, b) = Some (x, y) \<and> P x y"
  by blast

section \<open>Runs that do not fail\<close>

text \<open>\<open>run_ok m Q\<close>: the computation \<open>m\<close> does not fail, and its result satisfies \<open>Q\<close>.\<close>

definition run_ok :: "'a option \<Rightarrow> ('a \<Rightarrow> bool) \<Rightarrow> bool" where
  "run_ok m Q \<longleftrightarrow> (case m of None \<Rightarrow> False | Some x \<Rightarrow> Q x)"

lemma run_ok_simps [simp]:
  "run_ok (Some x) Q = Q x" "run_ok None Q = False"
  "run_ok (Option.bind m f) Q = run_ok m (\<lambda>x. run_ok (f x) Q)"
  "run_ok (map_option h m) Q = run_ok m (\<lambda>x. Q (h x))"
  by (simp_all add: run_ok_def split: option.splits bind_splits)

lemma run_ok_mono: "run_ok m P \<Longrightarrow> (\<And>x. P x \<Longrightarrow> Q x) \<Longrightarrow> run_ok m Q"
  by (simp add: run_ok_def split: option.splits)

lemma run_ok_conj: "run_ok m P \<Longrightarrow> run_ok m Q \<Longrightarrow> run_ok m (\<lambda>x. P x \<and> Q x)"
  by (simp add: run_ok_def split: option.splits)

lemma run_okD: "run_ok m Q \<Longrightarrow> m = Some x \<Longrightarrow> Q x"
  by simp

lemma run_ok_ex: "run_ok m Q \<longleftrightarrow> (\<exists>x. m = Some x \<and> Q x)"
  by (cases m) simp_all

end
