(* ===== verification/Port_Table.thy ===== *)
theory Port_Table
  imports Ansa_Prelude
begin

text \<open>
  The table of port states, \<open>src/src/ansa/linklayer/switch/portTable.cc\<close>: every access checks
  the port number against \<open>portCount\<close> and ends the run when it is out of range.
\<close>

datatype pt_state = PT_OFF | PT_BLOCKING | PT_DISCARTING | PT_LEARNING | PT_FORWARDING

record pt_port =
  pt_port_state :: pt_state

record port_table =
  pt_portCount :: int
  pt_list :: "pt_port list"

definition pt_getPort :: "int \<Rightarrow> port_table \<Rightarrow> pt_port result" where
  "pt_getPort port t =
     (if port < 0 \<or> port \<ge> pt_portCount t
      then Inl (Runtime_Error ''PortTable: exceeded portTable limit in getPort() / getState()'')
      else (case vec_at (pt_list t) (nat port) of None \<Rightarrow> Inl Out_Of_Range | Some x \<Rightarrow> Inr x))"

definition pt_getState :: "int \<Rightarrow> port_table \<Rightarrow> pt_state result" where
  "pt_getState port t = map_sum id pt_port_state (pt_getPort port t)"

definition pt_setState :: "int \<Rightarrow> pt_state \<Rightarrow> port_table \<Rightarrow> port_table result" where
  "pt_setState port st t =
     (if port < 0 \<or> port \<ge> pt_portCount t
      then Inl (Runtime_Error ''PortTable: exceeded portTable limit in setState()'')
      else if nat port \<ge> length (pt_list t) then Inl Out_Of_Range
      else Inr (t\<lparr>pt_list := vec_modify (nat port) (\<lambda>x. x\<lparr>pt_port_state := st\<rparr>) (pt_list t)\<rparr>))"

fun pt_setStates :: "int list \<Rightarrow> pt_state \<Rightarrow> port_table \<Rightarrow> port_table result" where
  "pt_setStates [] st t = Inr t"
| "pt_setStates (p # ps) st t =
     (case pt_setState p st t of Inl e \<Rightarrow> Inl e | Inr t' \<Rightarrow> pt_setStates ps st t')"

definition pt_allState :: "pt_state \<Rightarrow> port_table \<Rightarrow> port_table result" where
  "pt_allState st t =
     pt_setStates (map int [0..<unat (word_of_int (pt_portCount t) :: u32)]) st t"

definition pt_allOff :: "port_table \<Rightarrow> port_table result" where
  "pt_allOff t = pt_allState PT_OFF t"

definition pt_off :: "int list \<Rightarrow> port_table \<Rightarrow> port_table result" where
  "pt_off ps t = pt_setStates ps PT_OFF t"

definition pt_forwarding :: "int list \<Rightarrow> port_table \<Rightarrow> port_table result" where
  "pt_forwarding ps t = pt_setStates ps PT_FORWARDING t"

definition pt_initDefault :: "port_table \<Rightarrow> port_table" where
  "pt_initDefault t =
     t\<lparr>pt_list := replicate (nat (pt_portCount t)) \<lparr>pt_port_state = PT_FORWARDING\<rparr> @ pt_list t\<rparr>"

definition pt_initialize :: "int \<Rightarrow> port_table" where
  "pt_initialize n = pt_initDefault \<lparr>pt_portCount = n, pt_list = []\<rparr>"

section \<open>The table has one state per port, and only out-of-range ports fail\<close>

definition pt_wf :: "port_table \<Rightarrow> bool" where
  "pt_wf t \<longleftrightarrow> 0 \<le> pt_portCount t \<and> pt_portCount t < 2 ^ 31 \<and> length (pt_list t) = nat (pt_portCount t)"

lemma pt_setState_ok:
  assumes "pt_wf t" and "0 \<le> p" and "p < pt_portCount t"
  shows "\<exists>t'. pt_setState p st t = Inr t' \<and> pt_wf t' \<and> pt_portCount t' = pt_portCount t \<and>
    (\<forall>q. pt_getState q t' = (if q = p then Inr st else pt_getState q t))"
  using assms
  by (auto simp: pt_setState_def pt_wf_def pt_getState_def pt_getPort_def nth_vec_modify vec_at_def)

lemma pt_setStates_ok:
  "pt_wf t \<Longrightarrow> \<forall>p\<in>set ps. 0 \<le> p \<and> p < pt_portCount t \<Longrightarrow>
   \<exists>t'. pt_setStates ps st t = Inr t' \<and> pt_wf t' \<and> pt_portCount t' = pt_portCount t \<and>
    (\<forall>q. pt_getState q t' = (if q \<in> set ps then Inr st else pt_getState q t))"
proof (induction ps arbitrary: t)
  case (Cons p ps)
  obtain t1 where t1: "pt_setState p st t = Inr t1" "pt_wf t1" "pt_portCount t1 = pt_portCount t"
    "\<forall>q. pt_getState q t1 = (if q = p then Inr st else pt_getState q t)"
    using pt_setState_ok [of t p st] Cons.prems by auto
  then show ?case using Cons.IH [of t1] Cons.prems by auto
qed simp

lemma pt_wf_initialize: "0 \<le> n \<Longrightarrow> n < 2 ^ 31 \<Longrightarrow> pt_wf (pt_initialize n)"
  by (simp add: pt_wf_def pt_initialize_def pt_initDefault_def)

lemma pt_portCount_unat: "pt_wf t \<Longrightarrow> unat (word_of_int (pt_portCount t) :: u32) = nat (pt_portCount t)"
  by (simp add: pt_wf_def unat_of_int_u32)

text \<open>setting the state of a list of ports succeeds when they all exist and changes the state of
  those ports and of no other; a port that does not exist ends the run with a message and is never
  looked up.\<close>

theorem port_states_set:
  assumes "pt_wf t" and "\<forall>p\<in>set ps. 0 \<le> p \<and> p < pt_portCount t"
  shows "(\<exists>t'. pt_setStates ps st t = Inr t' \<and> pt_wf t' \<and>
      (\<forall>q. pt_getState q t' = (if q \<in> set ps then Inr st else pt_getState q t))) \<and>
    (\<forall>q. q < 0 \<or> pt_portCount t \<le> q \<longrightarrow> (\<exists>m. pt_setState q st t = Inl (Runtime_Error m)))"
proof (intro conjI)
  show "\<exists>t'. pt_setStates ps st t = Inr t' \<and> pt_wf t' \<and>
      (\<forall>q. pt_getState q t' = (if q \<in> set ps then Inr st else pt_getState q t))"
    using pt_setStates_ok [OF assms, of st] by blast
qed (auto simp: pt_setState_def)

theorem port_states_set_witness:
  "\<exists>t'. pt_setStates [1, 0] PT_BLOCKING (pt_initialize 3) = Inr t' \<and> pt_getState 1 t' = Inr PT_BLOCKING"
  using port_states_set [OF pt_wf_initialize, of 3 "[1, 0]" PT_BLOCKING]
  by (auto simp: pt_initialize_def pt_initDefault_def)

end
