(* ===== verification/Std_Map.thy ===== *)
theory Std_Map
  imports Ansa_Prelude
begin

text \<open>
  \<open>std::map\<close> with a comparison on the keys: its entries in key order, the order an iterator
  visits them in (the table loops of the switch depend on it). The interface the tables use
  (find, insertion through \<open>operator[]\<close>, erase, size) is the locale \<open>ordered_map\<close>; the model's
  association lists are its interpretation \<open>std_map\<close>.
\<close>

type_synonym ('k, 'v) assoc = "('k \<times> 'v) list"

fun map_find :: "'k \<Rightarrow> ('k, 'v) assoc \<Rightarrow> 'v option" where
  "map_find k [] = None"
| "map_find k ((k', v) # m) = (if k = k' then Some v else map_find k m)"

text \<open>\<open>m[k] = v\<close>\<close>

fun map_put :: "'k::linorder \<Rightarrow> 'v \<Rightarrow> ('k, 'v) assoc \<Rightarrow> ('k, 'v) assoc" where
  "map_put k v [] = [(k, v)]"
| "map_put k v ((k', v') # m) =
     (if k < k' then (k, v) # (k', v') # m
      else if k = k' then (k, v) # m
      else (k', v') # map_put k v m)"

definition map_erase :: "'k \<Rightarrow> ('k, 'v) assoc \<Rightarrow> ('k, 'v) assoc" where
  "map_erase k m = filter (\<lambda>e. fst e \<noteq> k) m"

definition map_wf :: "('k::linorder, 'v) assoc \<Rightarrow> bool" where
  "map_wf m \<longleftrightarrow> sorted_wrt (<) (map fst m)"

lemma map_wf_Nil [simp]: "map_wf []"
  by (simp add: map_wf_def)

lemma map_wf_Cons:
  "map_wf (e # m) \<longleftrightarrow> (\<forall>k\<in>set (map fst m). fst e < k) \<and> map_wf m"
  by (simp add: map_wf_def)

lemma map_find_not_key: "k \<notin> set (map fst m) \<Longrightarrow> map_find k m = None"
  by (induction m) auto

lemma map_find_in: "map_find k m = Some v \<Longrightarrow> (k, v) \<in> set m"
  by (induction m) (auto split: if_splits)

lemma map_find_None_iff: "map_find k m = None \<longleftrightarrow> k \<notin> fst ` set m"
  by (induction m) (auto split: if_splits)

lemma map_find_of_in: "map_wf m \<Longrightarrow> (k, v) \<in> set m \<Longrightarrow> map_find k m = Some v"
  by (induction m) (auto simp: map_wf_Cons)

lemma keys_map_put: "fst ` set (map_put k v m) = insert k (fst ` set m)"
proof (induction m)
  case (Cons e m)
  obtain k' v' where "e = (k', v')" by fastforce
  with Cons show ?case by (cases "k < k'"; cases "k = k'") (auto simp: insert_commute)
qed simp

lemma map_wf_put: "map_wf m \<Longrightarrow> map_wf (map_put k v m)"
proof (induction m)
  case (Cons e m)
  then show ?case
    using keys_map_put [of k v m] by (cases e) (auto simp: map_wf_Cons)
qed (simp add: map_wf_def)

lemma map_find_put: "map_find k (map_put k' v m) = (if k = k' then Some v else map_find k m)"
  by (induction m) auto

lemma map_wf_filter: "map_wf m \<Longrightarrow> map_wf (filter p m)"
  by (induction m) (auto simp: map_wf_Cons)

lemma map_wf_erase: "map_wf m \<Longrightarrow> map_wf (map_erase k m)"
  by (simp add: map_erase_def map_wf_filter)

lemma map_find_erase: "map_find k (map_erase k' m) = (if k = k' then None else map_find k m)"
  by (induction m) (auto simp: map_erase_def)

lemma map_find_filter:
  "map_wf m \<Longrightarrow> map_find k (filter p m) =
     (case map_find k m of None \<Rightarrow> None | Some v \<Rightarrow> if p (k, v) then Some v else None)"
proof (induction m)
  case (Cons e m)
  have "k = fst e \<Longrightarrow> map_find k m = None"
    using Cons.prems by (intro map_find_not_key) (auto simp: map_wf_Cons)
  then show ?case using Cons by (cases e) (auto simp: map_wf_Cons)
qed simp

lemma length_map_put:
  "map_wf m \<Longrightarrow> length (map_put k v m) = (if map_find k m = None then Suc (length m) else length m)"
proof (induction m)
  case (Cons e m)
  have "k < fst e \<Longrightarrow> map_find k m = None"
    using Cons.prems by (intro map_find_not_key) (force simp: map_wf_Cons)
  then show ?case using Cons by (cases e) (auto simp: map_wf_Cons)
qed simp

lemma length_map_erase:
  "map_wf m \<Longrightarrow> length (map_erase k m) = (if map_find k m = None then length m else length m - 1)"
proof (induction m)
  case (Cons e m)
  have same: "k = fst e \<Longrightarrow> map_erase k m = m"
    using Cons.prems by (auto simp: map_erase_def map_wf_Cons filter_id_conv)
  have pos: "map_find k m \<noteq> None \<Longrightarrow> 0 < length m"
    by (cases m) auto
  show ?case using Cons same pos by (cases e) (auto simp: map_erase_def map_wf_Cons)
qed (simp add: map_erase_def)

lemma in_map_put:
  "map_wf m \<Longrightarrow> (k', v') \<in> set (map_put k v m) \<longleftrightarrow>
     (if k' = k then v' = v else (k', v') \<in> set m)"
  by (metis map_find_in map_find_of_in map_find_put map_wf_put option.inject)

lemma map_put_put: "map_put k v (map_put k w m) = map_put k v m"
  by (induction m) auto

section \<open>The interface\<close>

locale ordered_map =
  fixes find_op :: "'k \<Rightarrow> 'm \<Rightarrow> 'v option"
    and put_op :: "'k \<Rightarrow> 'v \<Rightarrow> 'm \<Rightarrow> 'm"
    and erase_op :: "'k \<Rightarrow> 'm \<Rightarrow> 'm"
    and size_op :: "'m \<Rightarrow> nat"
    and wf_op :: "'m \<Rightarrow> bool"
  assumes find_put: "find_op k (put_op k' v m) = (if k = k' then Some v else find_op k m)"
    and find_erase: "find_op k (erase_op k' m) = (if k = k' then None else find_op k m)"
    and size_put: "wf_op m \<Longrightarrow>
      size_op (put_op k v m) = (if find_op k m = None then Suc (size_op m) else size_op m)"
    and size_erase: "wf_op m \<Longrightarrow>
      size_op (erase_op k m) = (if find_op k m = None then size_op m else size_op m - 1)"
    and wf_put: "wf_op m \<Longrightarrow> wf_op (put_op k v m)"
    and wf_erase: "wf_op m \<Longrightarrow> wf_op (erase_op k m)"
begin

text \<open>An insertion of a new key after throwing one entry out keeps the table's size; the bounded
  tables of the switch rely on it.\<close>

lemma replace_size:
  assumes "wf_op m" and "find_op old m \<noteq> None" and "find_op k m = None" and "0 < size_op m"
  shows "size_op (put_op k v (erase_op old m)) = size_op m"
  using assms by (simp add: size_put size_erase wf_erase find_erase)

lemma put_other: "k \<noteq> k' \<Longrightarrow> find_op k (put_op k' v m) = find_op k m"
  by (simp add: find_put)

lemma replace_lookup:
  "k \<noteq> old \<Longrightarrow> find_op k' (put_op k v (erase_op old m)) =
     (if k' = k then Some v else if k' = old then None else find_op k' m)"
  by (simp add: find_put find_erase)

end

interpretation std_map: ordered_map map_find map_put map_erase length map_wf
  by unfold_locales
    (simp_all add: map_find_put map_find_erase length_map_put length_map_erase map_wf_put map_wf_erase)

end
