(* ===== verification/Mac_Table.thy ===== *)
theory Mac_Table
  imports Std_Map
begin

text \<open>
  The switch's MAC address table, \<open>src/src/ansa/linklayer/switch/macTable.cc\<close>: entries with the
  time they were inserted or refreshed, static entries that never age, lookups that throw an aged
  entry out, and the two aging times the spanning tree switches between.
\<close>

section \<open>Data\<close>

datatype mac_type = STATIC | DYNAMIC | GROUP

datatype mac_spec = NO_SPEC | STP_SPEC

record mac_record =
  r_addr :: mac_addr
  r_insert_time :: simtime
  r_portList :: "int list"
  r_type :: mac_type
  r_spec :: mac_spec

record mac_table =
  mt_table :: "(mac_addr, mac_record) assoc"
  mt_size :: int
  mt_agingTime :: simtime
  mt_uAgingTime :: u32
  mt_fasterAging :: simtime

section \<open>Operations\<close>

definition mac_initDefaults :: "mac_table \<Rightarrow> mac_table" where
  "mac_initDefaults t =
     t\<lparr>mt_size := 1024, mt_fasterAging := sec 5, mt_uAgingTime := 300, mt_agingTime := sec 300\<rparr>"

definition mac_new_sized :: "int \<Rightarrow> mac_table \<Rightarrow> mac_table" where
  "mac_new_sized n t = (mac_initDefaults t)\<lparr>mt_size := (if n < 0 then 0 else n)\<rparr>"

definition mac_enableFasterAging :: "mac_table \<Rightarrow> mac_table" where
  "mac_enableFasterAging t = t\<lparr>mt_agingTime := mt_fasterAging t\<rparr>"

definition mac_resetAging :: "mac_table \<Rightarrow> mac_table" where
  "mac_resetAging t = t\<lparr>mt_agingTime := sec (uint (mt_uAgingTime t))\<rparr>"

definition mac_flushAged :: "simtime \<Rightarrow> mac_table \<Rightarrow> mac_table" where
  "mac_flushAged now t =
     t\<lparr>mt_table := filter (\<lambda>(_, e). \<not> (r_type e = DYNAMIC \<and> r_insert_time e + mt_agingTime t \<le> now))
                    (mt_table t)\<rparr>"

definition mac_flush :: "mac_table \<Rightarrow> mac_table" where
  "mac_flush t = t\<lparr>mt_table := filter (\<lambda>(_, e). r_type e \<noteq> DYNAMIC) (mt_table t)\<rparr>"

text \<open>The loop of \<open>removeOldest\<close>: the candidate so far and its insertion time.\<close>

fun mac_oldest :: "mac_addr option \<Rightarrow> simtime \<Rightarrow> (mac_addr, mac_record) assoc \<Rightarrow> mac_addr option" where
  "mac_oldest oldest oldestInsertTime [] = oldest"
| "mac_oldest oldest oldestInsertTime ((k, e) # m) =
     (if r_type e \<noteq> DYNAMIC \<and> r_insert_time e < oldestInsertTime
      then mac_oldest (Some k) (r_insert_time e) m
      else mac_oldest oldest oldestInsertTime m)"

definition mac_removeOldest :: "simtime \<Rightarrow> mac_table \<Rightarrow> mac_table" where
  "mac_removeOldest now t =
     (case mac_oldest None (now + sec 1) (mt_table t) of
        None \<Rightarrow> t
      | Some k \<Rightarrow> t\<lparr>mt_table := map_erase k (mt_table t)\<rparr>)"

definition mac_full :: "mac_table \<Rightarrow> bool" where
  "mac_full t \<longleftrightarrow> mt_size t \<noteq> 0 \<and> length (mt_table t) = unat (word_of_int (mt_size t) :: u32)"

definition mac_make_room :: "simtime \<Rightarrow> mac_table \<Rightarrow> mac_table" where
  "mac_make_room now t = (if mac_full t then mac_removeOldest now t else t)"

text \<open>\<open>update\<close> (learning). \<open>None\<close>: \<open>portList.at(0)\<close> on an empty list throws.\<close>

definition mac_update :: "simtime \<Rightarrow> mac_addr \<Rightarrow> int \<Rightarrow> mac_table \<Rightarrow> mac_table option" where
  "mac_update now addr port t0 =
     (let t = mac_flushAged now t0 in
      case map_find addr (mt_table t) of
        None \<Rightarrow>
          (let t1 = mac_make_room now t;
               entry = \<lparr>r_addr = addr, r_insert_time = now, r_portList = [port],
                        r_type = DYNAMIC, r_spec = NO_SPEC\<rparr>
           in Some (t1\<lparr>mt_table := map_put addr entry (mt_table t1)\<rparr>))
      | Some entry \<Rightarrow>
          (if r_type entry = DYNAMIC then
             (case vec_at (r_portList entry) 0 of
                None \<Rightarrow> None
              | Some p0 \<Rightarrow>
                  (let entry1 = entry\<lparr>r_insert_time := now\<rparr>;
                       entry2 = (if p0 \<noteq> port then entry1\<lparr>r_portList := [port]\<rparr> else entry1)
                   in Some (t\<lparr>mt_table := map_put addr entry2 (mt_table t)\<rparr>)))
           else Some t))"

definition mac_aged :: "simtime \<Rightarrow> mac_table \<Rightarrow> mac_record \<Rightarrow> bool" where
  "mac_aged now t e \<longleftrightarrow> r_type e \<noteq> STATIC \<and> r_insert_time e + mt_agingTime t \<le> now"

definition mac_getSpec :: "simtime \<Rightarrow> mac_addr \<Rightarrow> mac_table \<Rightarrow> mac_spec \<times> mac_table" where
  "mac_getSpec now addr t =
     (case map_find addr (mt_table t) of
        None \<Rightarrow> (NO_SPEC, t)
      | Some e \<Rightarrow>
          if mac_aged now t e then (NO_SPEC, t\<lparr>mt_table := map_erase addr (mt_table t)\<rparr>)
          else (r_spec e, t))"

definition mac_getPorts :: "simtime \<Rightarrow> mac_addr \<Rightarrow> mac_table \<Rightarrow> int list \<times> mac_table" where
  "mac_getPorts now addr t =
     (case map_find addr (mt_table t) of
        None \<Rightarrow> ([], t)
      | Some e \<Rightarrow>
          if mac_aged now t e then ([], t\<lparr>mt_table := map_erase addr (mt_table t)\<rparr>)
          else (r_portList e, t))"

definition mac_add :: "simtime \<Rightarrow> mac_addr \<Rightarrow> int \<Rightarrow> mac_type \<Rightarrow> mac_spec \<Rightarrow> mac_table \<Rightarrow> mac_table" where
  "mac_add now addr port ty sp t =
     (case map_find addr (mt_table t) of
        None \<Rightarrow>
          (let t1 = mac_make_room now t;
               entry = \<lparr>r_addr = addr, r_insert_time = now, r_portList = [port],
                        r_type = ty, r_spec = sp\<rparr>
           in t1\<lparr>mt_table := map_put addr entry (mt_table t1)\<rparr>)
      | Some entry \<Rightarrow>
          (let entry1 = entry\<lparr>r_insert_time := now\<rparr>;
               i = index_first (\<lambda>p. p = port) (r_portList entry1);
               entry2 = (if i < length (r_portList entry1) then entry1\<lparr>r_portList := [port]\<rparr> else entry1)
           in t\<lparr>mt_table := map_put addr entry2 (mt_table t)\<rparr>))"

definition mac_remove :: "mac_addr \<Rightarrow> mac_table \<Rightarrow> mac_table" where
  "mac_remove addr t =
     (case map_find addr (mt_table t) of
        None \<Rightarrow> t
      | Some _ \<Rightarrow> t\<lparr>mt_table := map_erase addr (mt_table t)\<rparr>)"

definition mac_removePort :: "mac_addr \<Rightarrow> int \<Rightarrow> mac_table \<Rightarrow> mac_table" where
  "mac_removePort addr port t =
     (case map_find addr (mt_table t) of
        None \<Rightarrow> t
      | Some e \<Rightarrow>
          t\<lparr>mt_table := map_put addr (e\<lparr>r_portList := erase_first (\<lambda>p. p = port) (r_portList e)\<rparr>)
                          (mt_table t)\<rparr>)"

text \<open>The nested loops of \<open>addStatic\<close> on an existing entry: each port not yet in the list is appended.\<close>

fun add_missing_ports :: "int list \<Rightarrow> int list \<Rightarrow> int list" where
  "add_missing_ports current [] = current"
| "add_missing_ports current (p # ps) =
     (if index_first (\<lambda>q. q = p) current = length current
      then add_missing_ports (current @ [p]) ps
      else add_missing_ports current ps)"

definition mac_addStatic :: "simtime \<Rightarrow> mac_addr \<Rightarrow> int list \<Rightarrow> mac_table \<Rightarrow> mac_table" where
  "mac_addStatic now addr ports t =
     (case map_find addr (mt_table t) of
        None \<Rightarrow>
          (let t1 = mac_make_room now t;
               entry = \<lparr>r_addr = addr, r_insert_time = now, r_portList = ports,
                        r_type = STATIC, r_spec = NO_SPEC\<rparr>
           in t1\<lparr>mt_table := map_put addr entry (mt_table t1)\<rparr>)
      | Some entry \<Rightarrow>
          t\<lparr>mt_table :=
             map_put addr (entry\<lparr>r_insert_time := now,
                                 r_portList := add_missing_ports (r_portList entry) ports\<rparr>)
               (mt_table t)\<rparr>)"

text \<open>The table a \<open>MACTable\<close> starts from.\<close>

definition mac_empty :: mac_table where
  "mac_empty = mac_initDefaults
     \<lparr>mt_table = [], mt_size = 0, mt_agingTime = 0, mt_uAgingTime = 0, mt_fasterAging = 0\<rparr>"

definition bridge_group_address :: mac_addr where
  "bridge_group_address = 0x0180C2000000"

definition mac_initialize :: "simtime \<Rightarrow> mac_table \<Rightarrow> mac_table" where
  "mac_initialize now t = mac_add now bridge_group_address 0 STATIC STP_SPEC (mac_initDefaults t)"

section \<open>Well-formedness\<close>

text \<open>The entries are in key order, each under its own address, and a learned entry has a port.\<close>

definition mac_entry_ok :: "mac_addr \<times> mac_record \<Rightarrow> bool" where
  "mac_entry_ok ke \<longleftrightarrow> r_addr (snd ke) = fst ke \<and> (r_type (snd ke) = DYNAMIC \<longrightarrow> r_portList (snd ke) \<noteq> [])"

definition mac_wf :: "mac_table \<Rightarrow> bool" where
  "mac_wf t \<longleftrightarrow> map_wf (mt_table t) \<and> (\<forall>ke\<in>set (mt_table t). mac_entry_ok ke)"

lemma mac_wf_empty [simp]: "mac_wf mac_empty"
  by (simp add: mac_wf_def mac_empty_def mac_initDefaults_def)

lemma mac_wf_filter: "mac_wf t \<Longrightarrow> mac_wf (t\<lparr>mt_table := filter p (mt_table t)\<rparr>)"
  by (auto simp: mac_wf_def map_wf_filter)

lemma mac_wf_erase: "mac_wf t \<Longrightarrow> mac_wf (t\<lparr>mt_table := map_erase k (mt_table t)\<rparr>)"
  by (auto simp: mac_wf_def map_wf_erase map_erase_def map_wf_filter)

lemma mac_wf_put:
  "mac_wf t \<Longrightarrow> mac_entry_ok (k, e) \<Longrightarrow> mac_wf (t\<lparr>mt_table := map_put k e (mt_table t)\<rparr>)"
  by (auto simp: mac_wf_def map_wf_put in_map_put split: if_splits)

lemma mac_wf_find: "mac_wf t \<Longrightarrow> map_find k (mt_table t) = Some e \<Longrightarrow> mac_entry_ok (k, e)"
  by (auto simp: mac_wf_def dest: map_find_in)

lemma mac_wf_aging [wf_intros]:
  "mac_wf t \<Longrightarrow> mac_wf (mac_enableFasterAging t)"
  "mac_wf t \<Longrightarrow> mac_wf (mac_resetAging t)"
  by (simp_all add: mac_wf_def mac_enableFasterAging_def mac_resetAging_def)

lemma mac_wf_flushAged [wf_intros]: "mac_wf t \<Longrightarrow> mac_wf (mac_flushAged now t)"
  by (simp add: mac_flushAged_def mac_wf_filter)

lemma mac_wf_flush [wf_intros]: "mac_wf t \<Longrightarrow> mac_wf (mac_flush t)"
  by (simp add: mac_flush_def mac_wf_filter)

lemma mac_wf_make_room [wf_intros]: "mac_wf t \<Longrightarrow> mac_wf (mac_make_room now t)"
  by (auto simp: mac_make_room_def mac_removeOldest_def mac_wf_erase split: option.splits)

lemma mac_wf_lookup [wf_intros]:
  "mac_wf t \<Longrightarrow> mac_wf (snd (mac_getPorts now a t))"
  "mac_wf t \<Longrightarrow> mac_wf (snd (mac_getSpec now a t))"
  by (auto simp: mac_getPorts_def mac_getSpec_def mac_wf_erase split: option.splits)

lemma mac_wf_add [wf_intros]: "mac_wf t \<Longrightarrow> mac_wf (mac_add now a p ty sp t)"
  using mac_wf_find [of t a]
  by (auto simp: mac_add_def Let_def mac_entry_ok_def intro!: mac_wf_put mac_wf_make_room split: option.splits)

lemma mac_wf_remove [wf_intros]: "mac_wf t \<Longrightarrow> mac_wf (mac_remove a t)"
  by (auto simp: mac_remove_def mac_wf_erase split: option.splits)

lemma add_missing_ports_prefix: "\<exists>zs. add_missing_ports xs ps = xs @ zs"
  by (induction ps arbitrary: xs) (auto, metis append.assoc)

lemma set_add_missing_ports: "set (add_missing_ports xs ps) = set xs \<union> set ps"
  by (induction ps arbitrary: xs) auto

lemma mac_wf_addStatic [wf_intros]: "mac_wf t \<Longrightarrow> mac_wf (mac_addStatic now a ps t)"
proof (cases "map_find a (mt_table t)")
  case (Some e)
  moreover assume "mac_wf t"
  ultimately show ?thesis
    using mac_wf_find [of t a e] add_missing_ports_prefix [of "r_portList e" ps]
    by (auto simp: mac_addStatic_def mac_entry_ok_def intro!: mac_wf_put)
qed (auto simp: mac_addStatic_def Let_def mac_entry_ok_def intro!: mac_wf_put mac_wf_make_room)

lemma mac_wf_initialize [wf_intros]: "mac_wf t \<Longrightarrow> mac_wf (mac_initialize now t)"
  unfolding mac_initialize_def by (intro mac_wf_add) (simp add: mac_wf_def mac_initDefaults_def)

text \<open>On a well-formed table learning never throws.\<close>

lemma mac_update_total:
  assumes "mac_wf t"
  shows "\<exists>t'. mac_update now a p t = Some t' \<and> mac_wf t'"
proof -
  have wf: "mac_wf (mac_flushAged now t)" using assms by (rule mac_wf_flushAged)
  show ?thesis
  proof (cases "map_find a (mt_table (mac_flushAged now t))")
    case None
    then show ?thesis using wf
      by (auto simp: mac_update_def Let_def mac_entry_ok_def intro!: mac_wf_put mac_wf_make_room)
  next
    case (Some e)
    with wf have "mac_entry_ok (a, e)" by (rule mac_wf_find)
    then show ?thesis using wf Some
      by (auto simp: mac_update_def Let_def mac_entry_ok_def vec_at_def intro!: mac_wf_put)
  qed
qed

section \<open>What learning and looking up do\<close>

lemma mac_oldest_not_dynamic:
  "mac_oldest None lim m = Some k \<Longrightarrow> \<exists>e. (k, e) \<in> set m \<and> r_type e \<noteq> DYNAMIC"
proof -
  have "mac_oldest c lim m = Some k \<Longrightarrow> c = Some k \<or> (\<exists>e. (k, e) \<in> set m \<and> r_type e \<noteq> DYNAMIC)" for c
    by (induction c lim m rule: mac_oldest.induct) (auto split: if_splits)
  from this [of None] show "mac_oldest None lim m = Some k \<Longrightarrow> ?thesis" by simp
qed

lemma mac_oldest_all_dynamic: "\<forall>(k, e)\<in>set m. r_type e = DYNAMIC \<Longrightarrow> mac_oldest c lim m = c"
  by (induction c lim m rule: mac_oldest.induct) auto

lemma mac_make_room_keeps_dynamic:
  assumes "mac_wf t" and "map_find k (mt_table t) = Some e" and "r_type e = DYNAMIC"
  shows "map_find k (mt_table (mac_make_room now t)) = Some e"
proof (cases "mac_oldest None (now + sec 1) (mt_table t)")
  case (Some old)
  then obtain e' where "(old, e') \<in> set (mt_table t)" "r_type e' \<noteq> DYNAMIC"
    using mac_oldest_not_dynamic by blast
  then have "old \<noteq> k" using assms by (auto simp: mac_wf_def map_find_of_in)
  with Some assms show ?thesis
    by (simp add: mac_make_room_def mac_removeOldest_def std_map.find_erase)
qed (use assms in \<open>simp add: mac_make_room_def mac_removeOldest_def\<close>)

lemma mac_make_room_aging [frame_simps]:
  "mt_agingTime (mac_make_room now t) = mt_agingTime t"
  "mt_size (mac_make_room now t) = mt_size t"
  by (simp_all add: mac_make_room_def mac_removeOldest_def split: option.splits)

lemma mac_flushAged_find:
  "mac_wf t \<Longrightarrow> map_find a (mt_table (mac_flushAged now t)) =
     (case map_find a (mt_table t) of
        None \<Rightarrow> None
      | Some e \<Rightarrow> if r_type e = DYNAMIC \<and> r_insert_time e + mt_agingTime t \<le> now then None else Some e)"
  by (auto simp: mac_flushAged_def map_find_filter mac_wf_def split: option.splits)

lemma mac_flushAged_aging [frame_simps]:
  "mt_agingTime (mac_flushAged now t) = mt_agingTime t"
  "mt_size (mac_flushAged now t) = mt_size t"
  by (simp_all add: mac_flushAged_def)

lemma mac_update_frame [frame_simps]:
  "mac_update now a p t = Some t' \<Longrightarrow> mt_agingTime t' = mt_agingTime t \<and> mt_size t' = mt_size t"
  by (auto simp: mac_update_def Let_def frame_simps split: option.splits if_splits)

text \<open>The entry under the learned address afterwards.\<close>

lemma mac_update_find_same:
  assumes wf: "mac_wf t" and up: "mac_update now a p t = Some t'"
    and dyn: "\<And>e. map_find a (mt_table t) = Some e \<Longrightarrow> r_type e = DYNAMIC"
  shows "\<exists>e ps. map_find a (mt_table t') = Some e \<and> r_type e = DYNAMIC \<and>
           r_insert_time e = now \<and> r_portList e = p # ps"
proof (cases "map_find a (mt_table (mac_flushAged now t))")
  case None
  with up show ?thesis by (auto simp: mac_update_def Let_def std_map.find_put)
next
  case (Some e)
  then have "r_type e = DYNAMIC"
    using dyn by (auto simp: mac_flushAged_find wf split: option.splits if_splits)
  moreover have "r_portList e \<noteq> []"
    using mac_wf_find [OF mac_wf_flushAged [OF wf] Some] calculation by (simp add: mac_entry_ok_def)
  ultimately show ?thesis
    using up Some by (cases "r_portList e") (auto simp: mac_update_def Let_def std_map.find_put split: if_splits)
qed

lemma mac_update_find_other:
  assumes wf: "mac_wf t" and up: "mac_update now a p t = Some t'" and "b \<noteq> a"
    and find: "map_find b (mt_table t) = Some e" and dyn: "r_type e = DYNAMIC"
  shows "map_find b (mt_table t') = (if r_insert_time e + mt_agingTime t \<le> now then None else Some e)"
proof -
  let ?f = "mac_flushAged now t"
  have f: "map_find b (mt_table ?f) = (if r_insert_time e + mt_agingTime t \<le> now then None else Some e)"
    using find dyn by (simp add: mac_flushAged_find wf)
  have room: "map_find b (mt_table (mac_make_room now ?f)) = map_find b (mt_table ?f)"
  proof (cases "map_find b (mt_table ?f)")
    case None
    then show ?thesis
      by (simp add: mac_make_room_def mac_removeOldest_def std_map.find_erase split: option.splits)
  next
    case (Some e')
    with f dyn have "r_type e' = DYNAMIC" by (simp split: if_splits)
    with Some show ?thesis by (simp add: mac_make_room_keeps_dynamic mac_wf_flushAged wf)
  qed
  show ?thesis
    using up \<open>b \<noteq> a\<close> f room
    by (auto simp: mac_update_def Let_def std_map.find_put split: option.splits if_splits)
qed

section \<open>The table over time\<close>

text \<open>What the switch core and the spanning tree do with the table, with the simulation clock.\<close>

inductive mac_step :: "simtime \<times> mac_table \<Rightarrow> simtime \<times> mac_table \<Rightarrow> bool" where
  clock: "now \<le> now' \<Longrightarrow> mac_step (now, t) (now', t)"
| learn: "mac_update now a p t = Some t' \<Longrightarrow> mac_step (now, t) (now, t')"
| lookup: "mac_step (now, t) (now, snd (mac_getPorts now a t))"
| spec: "mac_step (now, t) (now, snd (mac_getSpec now a t))"
| flush: "mac_step (now, t) (now, mac_flush t)"
| faster: "mac_step (now, t) (now, mac_enableFasterAging t)"
| slower: "mac_step (now, t) (now, mac_resetAging t)"

inductive mac_reachable :: "simtime \<times> mac_table \<Rightarrow> bool" where
  init: "mac_reachable (now, mac_initialize now mac_empty)"
| step: "mac_reachable x \<Longrightarrow> mac_step x y \<Longrightarrow> mac_reachable y"

definition mac_entry_inv :: "simtime \<Rightarrow> mac_addr \<times> mac_record \<Rightarrow> bool" where
  "mac_entry_inv now ke \<longleftrightarrow> r_addr (snd ke) = fst ke \<and> (\<exists>p. r_portList (snd ke) = [p]) \<and>
     r_insert_time (snd ke) \<le> now \<and> (r_type (snd ke) = DYNAMIC \<or> fst ke = bridge_group_address)"

definition mac_inv :: "simtime \<times> mac_table \<Rightarrow> bool" where
  "mac_inv x \<longleftrightarrow> map_wf (mt_table (snd x)) \<and> (\<forall>ke\<in>set (mt_table (snd x)). mac_entry_inv (fst x) ke) \<and>
     mt_size (snd x) = 1024 \<and> mt_uAgingTime (snd x) = 300 \<and> mt_fasterAging (snd x) = sec 5 \<and>
     mt_agingTime (snd x) \<in> {sec 300, sec 5}"

lemma mac_inv_filter: "mac_inv (now, t) \<Longrightarrow> mac_inv (now, t\<lparr>mt_table := filter p (mt_table t)\<rparr>)"
  by (auto simp: mac_inv_def map_wf_filter)

lemma mac_inv_erase: "mac_inv (now, t) \<Longrightarrow> mac_inv (now, t\<lparr>mt_table := map_erase k (mt_table t)\<rparr>)"
  unfolding map_erase_def by (rule mac_inv_filter)

lemma mac_inv_put:
  "mac_inv (now, t) \<Longrightarrow> mac_entry_inv now (k, e) \<Longrightarrow> mac_inv (now, t\<lparr>mt_table := map_put k e (mt_table t)\<rparr>)"
  by (auto simp: mac_inv_def map_wf_put in_map_put split: if_splits)

lemma mac_inv_make_room: "mac_inv (now, t) \<Longrightarrow> mac_inv (now, mac_make_room now' t)"
  by (auto simp: mac_make_room_def mac_removeOldest_def mac_inv_erase split: option.splits)

lemma mac_inv_wf: "mac_inv (now, t) \<Longrightarrow> mac_wf t"
  by (fastforce simp: mac_inv_def mac_wf_def mac_entry_inv_def mac_entry_ok_def)

lemma mac_inv_update:
  assumes inv: "mac_inv (now, t)" and up: "mac_update now a p t = Some t'"
  shows "mac_inv (now, t')"
proof -
  have f: "mac_inv (now, mac_flushAged now t)"
    unfolding mac_flushAged_def using inv by (rule mac_inv_filter)
  show ?thesis
  proof (cases "map_find a (mt_table (mac_flushAged now t))")
    case None
    then show ?thesis using up f
      by (auto simp: mac_update_def Let_def mac_entry_inv_def intro!: mac_inv_put mac_inv_make_room)
  next
    case (Some e)
    then have "mac_entry_inv now (a, e)" using f by (auto simp: mac_inv_def dest: map_find_in)
    then show ?thesis using up f Some
      by (auto simp: mac_update_def Let_def mac_entry_inv_def intro!: mac_inv_put split: if_splits)
  qed
qed

lemma mac_step_inv: "mac_step x y \<Longrightarrow> mac_inv x \<Longrightarrow> mac_inv y"
proof (induction rule: mac_step.induct)
  case (clock now now' t)
  then show ?case by (fastforce simp: mac_inv_def mac_entry_inv_def)
qed (auto simp: mac_inv_update mac_getPorts_def mac_getSpec_def mac_inv_erase mac_flush_def mac_inv_filter
      split: option.splits, simp_all add: mac_inv_def mac_enableFasterAging_def mac_resetAging_def)

lemma mac_inv_init: "mac_inv (now, mac_initialize now mac_empty)"
  by (simp add: mac_inv_def mac_initialize_def mac_empty_def mac_initDefaults_def mac_add_def Let_def
      mac_make_room_def mac_full_def mac_entry_inv_def map_wf_def)

lemma mac_reachable_inv: "mac_reachable x \<Longrightarrow> mac_inv x"
  by (induction rule: mac_reachable.induct) (auto simp: mac_inv_init intro: mac_step_inv)

lemma mac_oldest_Some: "\<exists>k'. mac_oldest (Some k) lim m = Some k'"
proof -
  have "\<exists>k'. mac_oldest c lim m = Some k'" if "c \<noteq> None" for c
    using that by (induction c lim m rule: mac_oldest.induct) auto
  then show ?thesis by simp
qed

lemma mac_oldest_found:
  "(k, e) \<in> set m \<Longrightarrow> r_type e \<noteq> DYNAMIC \<Longrightarrow> r_insert_time e < lim \<Longrightarrow> mac_oldest c lim m \<noteq> None"
  by (induction c lim m rule: mac_oldest.induct) (auto simp: mac_oldest_Some)

lemma mac_learned_lookup:
  assumes inv: "mac_inv (now, t)" and up: "mac_update now a p t = Some t'" and "now \<le> later"
    and dyn: "\<And>e. map_find a (mt_table t) = Some e \<Longrightarrow> r_type e = DYNAMIC"
  shows "fst (mac_getPorts later a t') = (if later < now + mt_agingTime t then [p] else [])"
proof -
  obtain e ps where e: "map_find a (mt_table t') = Some e" "r_type e = DYNAMIC" "r_insert_time e = now"
      "r_portList e = p # ps"
    using mac_update_find_same [OF mac_inv_wf [OF inv] up dyn] by blast
  moreover have "mac_entry_inv now (a, e)"
    using mac_inv_update [OF inv up] e(1) by (auto simp: mac_inv_def dest: map_find_in)
  moreover have "mt_agingTime t' = mt_agingTime t" using mac_update_frame [OF up] by simp
  ultimately show ?thesis by (auto simp: mac_getPorts_def mac_aged_def mac_entry_inv_def)
qed

lemma mac_inv_lookup: "mac_inv (now, t) \<Longrightarrow> mac_inv (now, snd (mac_getPorts now a t))"
  by (auto simp: mac_getPorts_def mac_inv_erase split: option.split)

lemma mac_inv_dynamic:
  "mac_inv (now, t) \<Longrightarrow> a \<noteq> bridge_group_address \<Longrightarrow> map_find a (mt_table t) = Some e \<Longrightarrow> r_type e = DYNAMIC"
  by (auto simp: mac_inv_def mac_entry_inv_def dest!: map_find_in)

section \<open>Properties\<close>

text \<open>in every state the table reaches, its entries are in key order, each under its own address
  with exactly one port and a time that is not in the future; the only entry that is not learned is
  the reserved bridge group address; and learning never throws.\<close>

theorem mac_reachable_invariant:
  assumes "mac_reachable (now, t)"
  shows "sorted_wrt (<) (map fst (mt_table t)) \<and>
    (\<forall>(k, e)\<in>set (mt_table t). r_addr e = k \<and> length (r_portList e) = 1 \<and> r_insert_time e \<le> now \<and>
       (r_type e = DYNAMIC \<or> k = bridge_group_address)) \<and>
    (\<forall>a p. \<exists>t'. mac_update now a p t = Some t')"
proof -
  have inv: "mac_inv (now, t)" using assms by (rule mac_reachable_inv)
  moreover have "mac_wf t" using inv by (rule mac_inv_wf)
  ultimately show ?thesis
    using mac_update_total by (auto simp: mac_inv_def map_wf_def mac_entry_inv_def; fastforce)
qed

theorem mac_reachable_invariant_witness:
  "\<forall>a p. \<exists>t'. mac_update 7 a p (mac_initialize 7 mac_empty) = Some t'"
  using mac_reachable_invariant [OF mac_reachable.init] by blast

text \<open>C26: after an address is learned on a port, looking it up gives that port until the aging time
  has passed, and nothing from then on; an address with a static entry is not learned.\<close>

theorem mac_learn_lookup:
  assumes "mac_reachable (now, t)" and "mac_update now a p t = Some t'" and "now \<le> later"
  shows "(case map_find a (mt_table t) of
      Some e \<Rightarrow> if r_type e = DYNAMIC
                then fst (mac_getPorts later a t') = (if later < now + mt_agingTime t then [p] else [])
                else map_find a (mt_table t') = Some e
    | None \<Rightarrow> fst (mac_getPorts later a t') = (if later < now + mt_agingTime t then [p] else []))"
proof -
  have inv: "mac_inv (now, t)" using assms(1) by (rule mac_reachable_inv)
  have wf: "mac_wf t" using inv by (rule mac_inv_wf)
  have learned: "fst (mac_getPorts later a t') = (if later < now + mt_agingTime t then [p] else [])"
    if "\<And>e. map_find a (mt_table t) = Some e \<Longrightarrow> r_type e = DYNAMIC"
    using mac_learned_lookup [OF inv assms(2,3)] that by blast
  show ?thesis
  proof (cases "map_find a (mt_table t)")
    case None
    then show ?thesis using learned by simp
  next
    case (Some e)
    have "map_find a (mt_table t') = Some e" if "r_type e \<noteq> DYNAMIC"
    proof -
      have "map_find a (mt_table (mac_flushAged now t)) = Some e"
        using Some that by (simp add: mac_flushAged_find wf)
      then show ?thesis using assms(2) that by (simp add: mac_update_def Let_def) 
    qed
    then show ?thesis using Some learned by (simp split: if_splits)
  qed
qed

theorem mac_learn_lookup_witness:
  "fst (mac_getPorts (sec 4) 9 (the (mac_update 0 9 3 (mac_initialize 0 mac_empty)))) = [3]"
proof -
  let ?t = "mac_initialize 0 mac_empty"
  obtain t' where up: "mac_update 0 9 3 ?t = Some t'"
    using mac_update_total [OF mac_wf_initialize [OF mac_wf_empty]] by blast
  have "map_find 9 (mt_table ?t) = None" "mt_agingTime ?t = sec 300"
    by (simp_all add: mac_initialize_def mac_add_def mac_empty_def mac_initDefaults_def Let_def
        mac_make_room_def mac_full_def bridge_group_address_def)
  then show ?thesis
    using mac_learn_lookup [OF mac_reachable.init up, of "sec 4"] up by (simp add: sec_def)
qed

text \<open>a lookup never gives the port of a learned entry whose time is up, and it throws such an
  entry out; any other lookup leaves the table alone.\<close>

theorem mac_lookup_never_stale:
  "(case map_find a (mt_table t) of
      None \<Rightarrow> mac_getPorts now a t = ([], t)
    | Some e \<Rightarrow>
        if r_type e \<noteq> STATIC \<and> r_insert_time e + mt_agingTime t \<le> now
        then fst (mac_getPorts now a t) = [] \<and>
             (\<forall>b. map_find b (mt_table (snd (mac_getPorts now a t))) = (if b = a then None else map_find b (mt_table t)))
        else mac_getPorts now a t = (r_portList e, t))"
  by (auto simp: mac_getPorts_def mac_aged_def std_map.find_erase split: option.split)

text \<open>learning a new address in a full table never evicts a learned entry: it throws out a static
  or group entry while there is one (so the reserved bridge group address goes first), and with only
  learned entries left the table grows past its size.\<close>

theorem mac_full_table_eviction:
  assumes wf: "mac_wf t" and full: "mac_full t" and fresh: "mac_flushAged now t = t"
    and new: "map_find a (mt_table t) = None" and up: "mac_update now a p t = Some t'"
    and past: "\<forall>(k, e)\<in>set (mt_table t). r_insert_time e \<le> now"
  shows "(\<forall>k e. map_find k (mt_table t) = Some e \<and> r_type e = DYNAMIC \<longrightarrow> map_find k (mt_table t') = Some e) \<and>
    (if \<forall>(k, e)\<in>set (mt_table t). r_type e = DYNAMIC then length (mt_table t') = length (mt_table t) + 1
     else length (mt_table t') = length (mt_table t) \<and>
       (\<exists>k e. map_find k (mt_table t) = Some e \<and> r_type e \<noteq> DYNAMIC \<and> map_find k (mt_table t') = None))"
proof -
  define entry where "entry = \<lparr>r_addr = a, r_insert_time = now, r_portList = [p], r_type = DYNAMIC, r_spec = NO_SPEC\<rparr>"
  have t': "mt_table t' = map_put a entry (mt_table (mac_make_room now t))"
    using up new by (auto simp: mac_update_def fresh Let_def entry_def)
  have wfm: "map_wf (mt_table t)" using wf by (simp add: mac_wf_def)
  have keep: "\<forall>k e. map_find k (mt_table t) = Some e \<and> r_type e = DYNAMIC \<longrightarrow> map_find k (mt_table t') = Some e"
    using new by (auto simp: t' std_map.find_put mac_make_room_keeps_dynamic [OF wf])
  show ?thesis
  proof (cases "mac_oldest None (now + sec 1) (mt_table t)")
    case None
    then have dyn: "\<forall>(k, e)\<in>set (mt_table t). r_type e = DYNAMIC"
      using mac_oldest_found [of _ _ "mt_table t" "now + sec 1" None] past None
      by (auto simp: sec_def) fastforce
    have "mac_make_room now t = t" using None by (simp add: mac_make_room_def mac_removeOldest_def)
    then show ?thesis using keep dyn new by (simp add: t' std_map.size_put wfm)
  next
    case (Some old)
    then obtain e where old: "(old, e) \<in> set (mt_table t)" "r_type e \<noteq> DYNAMIC"
      using mac_oldest_not_dynamic by blast
    have room: "mt_table (mac_make_room now t) = map_erase old (mt_table t)"
      using Some full by (simp add: mac_make_room_def mac_removeOldest_def)
    have find: "map_find old (mt_table t) = Some e" using old(1) wfm by (simp add: map_find_of_in)
    have "length (mt_table t') = length (mt_table t)"
      unfolding t' room using std_map.replace_size [OF wfm, of old a entry] find new old(1)
        length_pos_if_in_set [OF old(1)] by simp
    moreover have "map_find old (mt_table t') = None"
      using find new by (auto simp: t' room std_map.find_put std_map.find_erase)
    ultimately show ?thesis using keep old find by fastforce
  qed
qed

theorem mac_full_table_eviction_witness:
  "let t = mac_empty\<lparr>mt_size := 1, mt_table := [(5, \<lparr>r_addr = 5, r_insert_time = 0, r_portList = [2],
         r_type = DYNAMIC, r_spec = NO_SPEC\<rparr>)]\<rparr>
   in mac_full t \<and> length (mt_table (the (mac_update 1 9 3 t))) = 2"
proof -
  let ?t = "mac_empty\<lparr>mt_size := 1, mt_table := [(5, \<lparr>r_addr = 5, r_insert_time = 0, r_portList = [2],
         r_type = DYNAMIC, r_spec = NO_SPEC\<rparr>)]\<rparr>"
  have wf: "mac_wf ?t" by (simp add: mac_wf_def map_wf_def mac_entry_ok_def)
  obtain t' where up: "mac_update 1 9 3 ?t = Some t'" using mac_update_total [OF wf] by blast
  have full: "mac_full ?t" by (simp add: mac_full_def)
  have "mac_flushAged 1 ?t = ?t"
    by (simp add: mac_flushAged_def mac_empty_def mac_initDefaults_def sec_def)
  from mac_full_table_eviction [OF wf full this _ up] show ?thesis using full up by simp
qed

text \<open>taking an address's only port away leaves an entry with no port, on which the next frame
  from that address throws.\<close>

theorem mac_removePort_then_learn_throws:
  assumes "map_find a (mt_table t) = Some e" and "r_portList e = [p]" and "r_type e = DYNAMIC"
    and "map_wf (mt_table t)" and "now < r_insert_time e + mt_agingTime t"
  shows "mac_update now a q (mac_removePort a p t) = None \<and> fst (mac_getPorts now a (mac_removePort a p t)) = []"
proof -
  have "map_find a (mt_table (mac_flushAged now (mac_removePort a p t))) = Some (e\<lparr>r_portList := []\<rparr>)"
    using assms by (simp add: mac_flushAged_def mac_removePort_def map_find_filter map_wf_put std_map.find_put)
  then show ?thesis
    using assms by (auto simp: mac_update_def Let_def mac_getPorts_def mac_removePort_def std_map.find_put)
qed

theorem mac_removePort_then_learn_throws_witness:
  "mac_update 1 5 3 (mac_removePort 5 2 (mac_empty\<lparr>mt_table := [(5, \<lparr>r_addr = 5, r_insert_time = 0,
     r_portList = [2], r_type = DYNAMIC, r_spec = NO_SPEC\<rparr>)]\<rparr>)) = None"
  using mac_removePort_then_learn_throws [of 5 "mac_empty\<lparr>mt_table := [(5, \<lparr>r_addr = 5, r_insert_time = 0,
     r_portList = [2], r_type = DYNAMIC, r_spec = NO_SPEC\<rparr>)]\<rparr>" _ 2 1 3]
  by (simp add: mac_empty_def mac_initDefaults_def map_wf_def sec_def)

end
