(* ===== verification/Stp_Instance.thy ===== *)
theory Stp_Instance
  imports Mac_Table
begin

text \<open>
  One spanning tree instance (one per VLAN), \<open>src/src/ansa/linklayer/switch/stp/stpi.h\<close> and
  \<open>stpi.cc\<close>. The record \<open>stpi\<close> holds the members of the class; the messages it has queued
  (\<open>msgList\<close>) are a field, and the shared \<open>MACTable\<close> it tells to age faster or normally is
  passed in and out of the operations that call it. Ports are indices of \<open>portTable\<close>. An
  operation that takes a port from outside returns \<open>None\<close> where \<open>portTable.at\<close> throws; the
  loops run over \<open>i < portCount\<close>, and \<open>stpi_wf\<close> keeps \<open>portTable\<close> that long.
\<close>

section \<open>Data\<close>

datatype port_role = RUNKNOWN | RALTERNATE | RDESIGNATED | RROOT

datatype port_state = SDISABLED | SDISCARDING | SLEARNING | SFORWARDING

record port_flags =
  fl_Learning :: bool
  fl_Forwarding :: bool

record stp_port =
  tp_enabled :: bool
  tp_state :: port_state
  tp_role :: port_role
  tp_priority :: u32
  tp_flags :: port_flags
  tp_rootPathCost :: u32
  tp_rootPriority :: u32
  tp_rootID :: mac_addr
  tp_bridgePriority :: u32
  tp_bridgeID :: mac_addr
  tp_portPriority :: u32
  tp_portID :: u32
  tp_linkCost :: u32
  tp_age :: u32
  tp_fdWhile :: u32
  tp_maxAge :: u32
  tp_fwdDelay :: u32
  tp_helloTime :: u32

text \<open>\<open>STPBPDU.msg\<close> and \<open>STPTCN.msg\<close>; a BPDU's path cost is an \<open>unsigned long\<close>.\<close>

record stp_bpdu =
  b_portRole :: port_role
  b_tc :: bool
  b_tca :: bool
  b_vlan :: u32
  b_bridgeID :: mac_addr
  b_bridgePriority :: u32
  b_rootPathCost :: u64
  b_rootID :: mac_addr
  b_rootPriority :: u32
  b_portID :: u32
  b_portPriority :: u32
  b_msgAge :: u32
  b_maxAge :: u32
  b_helloTime :: u32
  b_fwdDelay :: u32

datatype stp_msg = BPDU stp_bpdu | TCN u32

record stpi =
  s_msgList :: "(nat \<times> stp_msg) list"
  s_vlan :: u32
  s_isRoot :: bool
  s_rootPort :: nat
  s_desPorts :: "nat list"
  s_portCount :: nat
  s_bridgeAddress :: mac_addr
  s_bridgePriority :: u32
  s_rootPathCost :: u32
  s_rootPriority :: u32
  s_rootID :: mac_addr
  s_maxAge :: u32
  s_fwdDelay :: u32
  s_helloTime :: u32
  s_ubridgePriority :: u32
  s_cMaxAge :: u32
  s_cFwdDelay :: u32
  s_cHelloTime :: u32
  s_helloTimer :: u32
  s_topologyChange :: int
  s_topologyChangeNotification :: bool
  s_topologyChangeRecvd :: bool
  s_portTable :: "stp_port list"
  s_defaultPort :: stp_port

abbreviation port :: "stpi \<Rightarrow> nat \<Rightarrow> stp_port" where
  "port s i \<equiv> s_portTable s ! i"

definition s_modify_port :: "nat \<Rightarrow> (stp_port \<Rightarrow> stp_port) \<Rightarrow> stpi \<Rightarrow> stpi" where
  "s_modify_port i f s = s\<lparr>s_portTable := vec_modify i f (s_portTable s)\<rparr>"

definition s_send :: "stp_msg \<Rightarrow> nat \<Rightarrow> stpi \<Rightarrow> stpi" where
  "s_send m p s = s\<lparr>s_msgList := s_msgList s @ [(p, m)]\<rparr>"

section \<open>Comparing priority vectors\<close>

definition superiorID :: "u32 \<Rightarrow> mac_addr \<Rightarrow> u32 \<Rightarrow> mac_addr \<Rightarrow> int" where
  "superiorID APR AID BPR BID =
     (if APR < BPR then 1 else if APR > BPR then -1
      else if AID < BID then 1 else if AID > BID then -1 else 0)"

definition superiorPort :: "u32 \<Rightarrow> u32 \<Rightarrow> u32 \<Rightarrow> u32 \<Rightarrow> int" where
  "superiorPort APR AID BPR BID =
     (if APR < BPR then 1 else if APR > BPR then -1
      else if AID < BID then 1 else if AID > BID then -1 else 0)"

definition superiorTPort :: "stp_port \<Rightarrow> stp_port \<Rightarrow> int" where
  "superiorTPort A B =
     (let r1 = superiorID (tp_rootPriority A) (tp_rootID A) (tp_rootPriority B) (tp_rootID B) in
      if r1 \<noteq> 0 then r1
      else if tp_rootPathCost A < tp_rootPathCost B then 1
      else if tp_rootPathCost A > tp_rootPathCost B then -1
      else
        let r2 = superiorID (tp_bridgePriority A) (tp_bridgeID A) (tp_bridgePriority B) (tp_bridgeID B) in
        if r2 \<noteq> 0 then r2
        else
          let r3 = superiorPort (tp_portPriority A) (tp_portID A) (tp_portPriority B) (tp_portID B) in
          if r3 \<noteq> 0 then r3 else 0)"

section \<open>Port states\<close>

definition setPortState :: "nat \<Rightarrow> port_state \<Rightarrow> stpi \<Rightarrow> stpi" where
  "setPortState i st s =
     s_modify_port i
       (\<lambda>p. let q = p\<lparr>tp_state := st\<rparr> in
          case st of
            SDISABLED \<Rightarrow> q\<lparr>tp_flags := \<lparr>fl_Learning = False, fl_Forwarding = False\<rparr>\<rparr>
          | SDISCARDING \<Rightarrow> q\<lparr>tp_flags := \<lparr>fl_Learning = False, fl_Forwarding = False\<rparr>\<rparr>
          | SLEARNING \<Rightarrow> q\<lparr>tp_flags := \<lparr>fl_Learning = True, fl_Forwarding = False\<rparr>\<rparr>
          | SFORWARDING \<Rightarrow> q\<lparr>tp_flags := \<lparr>fl_Learning = True, fl_Forwarding = True\<rparr>\<rparr>) s"

definition resetAge :: "nat \<Rightarrow> stpi \<Rightarrow> stpi" where
  "resetAge i = s_modify_port i (\<lambda>p. p\<lparr>tp_age := 0\<rparr>)"

definition resetFDWhile :: "nat \<Rightarrow> stpi \<Rightarrow> stpi" where
  "resetFDWhile i = s_modify_port i (\<lambda>p. p\<lparr>tp_fdWhile := 0\<rparr>)"

definition stpi_learning :: "nat \<Rightarrow> stpi \<Rightarrow> bool option" where
  "stpi_learning i s = map_option (\<lambda>p. fl_Learning (tp_flags p)) (vec_at (s_portTable s) i)"

definition stpi_forwarding :: "nat \<Rightarrow> stpi \<Rightarrow> bool option" where
  "stpi_forwarding i s = map_option (\<lambda>p. fl_Forwarding (tp_flags p)) (vec_at (s_portTable s) i)"

section \<open>Sending\<close>

definition generateHelloBPDU :: "nat \<Rightarrow> stpi \<Rightarrow> stpi" where
  "generateHelloBPDU i s =
     s_send (BPDU \<lparr>b_portRole = RDESIGNATED,
                   b_tc = (s_topologyChange s > 0),
                   b_tca = s_topologyChangeRecvd s,
                   b_vlan = s_vlan s,
                   b_bridgeID = s_bridgeAddress s,
                   b_bridgePriority = s_bridgePriority s,
                   b_rootPathCost = ucast (s_rootPathCost s),
                   b_rootID = s_rootID s,
                   b_rootPriority = s_rootPriority s,
                   b_portID = of_nat i,
                   b_portPriority = tp_priority (port s i),
                   b_msgAge = 0,
                   b_maxAge = s_cMaxAge s,
                   b_helloTime = s_cHelloTime s,
                   b_fwdDelay = s_cFwdDelay s\<rparr>) i s"

definition generateTCN :: "stpi \<Rightarrow> stpi option" where
  "generateTCN s =
     (if s_topologyChangeNotification s then
        do {
          p \<leftarrow> vec_at (s_portTable s) (s_rootPort s);
          if tp_role p = RROOT then Some (s_send (TCN (s_vlan s)) (s_rootPort s) s) else Some s
        }
      else Some s)"

definition generator :: "stpi \<Rightarrow> mac_table \<Rightarrow> stpi \<times> mac_table" where
  "generator s t =
     (if \<not> s_isRoot s then (s, t)
      else
        (let s1 = fold generateHelloBPDU [0..<s_portCount s] s;
             s2 = (if s_topologyChangeRecvd s1 then s1\<lparr>s_topologyChangeRecvd := False\<rparr> else s1)
         in if s_topologyChange s2 > 0
            then (s2\<lparr>s_topologyChange := s_topologyChange s2 - 1\<rparr>, mac_enableFasterAging t)
            else (s2, mac_resetAging t)))"

section \<open>Roles\<close>

definition checkRootEligibility :: "stpi \<Rightarrow> bool" where
  "checkRootEligibility s =
     list_all (\<lambda>i. \<not> superiorID (tp_rootPriority (port s i)) (tp_rootID (port s i))
                      (s_bridgePriority s) (s_bridgeAddress s) > 0) [0..<s_portCount s]"

text \<open>One round of the loop of \<open>selectRootPort\<close> over the state, \<open>xRootPort\<close> and \<open>best\<close>.\<close>

definition rootPort_step :: "nat \<Rightarrow> stpi \<times> nat \<times> stp_port \<Rightarrow> stpi \<times> nat \<times> stp_port" where
  "rootPort_step i x =
     (case x of (s, xRootPort, best) \<Rightarrow>
        let tmp = port s i;
            s' = s_modify_port i (\<lambda>p. p\<lparr>tp_role := RUNKNOWN\<rparr>) s;
            result = superiorTPort tmp best
        in if result > 0 then (s', i, tmp)
           else if result < 0 then (s', xRootPort, best)
           else if tp_priority tmp < tp_priority best then (s', i, tmp)
           else (s', xRootPort, best))"

definition selectRootPort :: "stpi \<Rightarrow> stpi" where
  "selectRootPort s0 =
     (case fold rootPort_step [0..<s_portCount s0] (s0, 0, s_defaultPort s0) of (s, xRootPort, best) \<Rightarrow>
        let s1 = (if s_rootPort s \<noteq> xRootPort then s\<lparr>s_topologyChangeNotification := True\<rparr> else s);
            s2 = s_modify_port xRootPort (\<lambda>p. p\<lparr>tp_role := RROOT\<rparr>) (s1\<lparr>s_rootPort := xRootPort\<rparr>)
        in s2\<lparr>s_rootPathCost := tp_rootPathCost best,
              s_rootID := tp_rootID best,
              s_rootPriority := tp_rootPriority best,
              s_cMaxAge := tp_maxAge best,
              s_cFwdDelay := tp_fwdDelay best,
              s_cHelloTime := tp_helloTime best\<rparr>)"

text \<open>What this bridge would send on a port, with the cost of that port's link added.\<close>

definition bridge_vector :: "nat \<Rightarrow> stpi \<Rightarrow> stp_port" where
  "bridge_vector i s =
     (port s i)\<lparr>tp_bridgePriority := s_bridgePriority s,
                tp_bridgeID := s_bridgeAddress s,
                tp_rootID := s_rootID s,
                tp_rootPriority := s_rootPriority s,
                tp_portPriority := tp_priority (port s i),
                tp_portID := of_nat i,
                tp_rootPathCost := s_rootPathCost s + tp_linkCost (port s i)\<rparr>"

definition desPorts_step :: "nat \<Rightarrow> stpi \<times> nat list \<Rightarrow> stpi \<times> nat list" where
  "desPorts_step i x =
     (case x of (s, xDesPorts) \<Rightarrow>
        let tmp = port s i in
        if tp_role tmp = RROOT then (s, xDesPorts)
        else if \<not> tp_enabled tmp then (s, xDesPorts)
        else
          let result = superiorTPort (bridge_vector i s) tmp in
          if result > 0 then (s_modify_port i (\<lambda>p. p\<lparr>tp_role := RDESIGNATED\<rparr>) s, xDesPorts @ [i])
          else if result < 0 then (s_modify_port i (\<lambda>p. p\<lparr>tp_role := RALTERNATE\<rparr>) s, xDesPorts)
          else (s, xDesPorts))"

definition selectDesignatedPorts :: "stpi \<Rightarrow> stpi" where
  "selectDesignatedPorts s0 =
     (case fold desPorts_step [0..<s_portCount s0] (s0, []) of (s, xDesPorts) \<Rightarrow>
        s\<lparr>s_desPorts := xDesPorts\<rparr>)"

definition allDes_step :: "nat \<Rightarrow> stpi \<times> nat list \<Rightarrow> stpi \<times> nat list" where
  "allDes_step i x =
     (case x of (s, xDesPorts) \<Rightarrow>
        if \<not> tp_enabled (port s i) then (s, xDesPorts)
        else (s_modify_port i (\<lambda>p. p\<lparr>tp_role := RDESIGNATED\<rparr>) s, xDesPorts @ [i]))"

definition allDesignated :: "stpi \<Rightarrow> stpi" where
  "allDesignated s0 =
     (case fold allDes_step [0..<s_portCount s0] (s0, []) of (s, xDesPorts) \<Rightarrow>
        s\<lparr>s_desPorts := xDesPorts\<rparr>)"

definition tryRoot :: "stpi \<Rightarrow> stpi" where
  "tryRoot s =
     (if \<not> checkRootEligibility s
      then selectDesignatedPorts (selectRootPort (s\<lparr>s_isRoot := False\<rparr>))
      else
        (let s1 = allDesignated (s\<lparr>s_isRoot := True\<rparr>) in
         s1\<lparr>s_rootPriority := s_bridgePriority s1,
            s_rootID := s_bridgeAddress s1,
            s_rootPathCost := 0,
            s_cHelloTime := s_helloTime s1,
            s_cMaxAge := s_maxAge s1,
            s_cFwdDelay := s_fwdDelay s1\<rparr>))"

definition lostRoot :: "stpi \<Rightarrow> stpi" where
  "lostRoot s = tryRoot (s\<lparr>s_topologyChangeNotification := True\<rparr>)"

definition lostAlternate :: "nat \<Rightarrow> stpi \<Rightarrow> stpi" where
  "lostAlternate i s = (selectDesignatedPorts s)\<lparr>s_topologyChangeNotification := True\<rparr>"

definition stp_reset :: "stpi \<Rightarrow> stpi" where
  "stp_reset s =
     (let s1 = allDesignated
                 (s\<lparr>s_isRoot := True,
                    s_rootPriority := s_bridgePriority s,
                    s_rootID := s_bridgeAddress s,
                    s_rootPathCost := 0,
                    s_cHelloTime := s_helloTime s,
                    s_cMaxAge := s_maxAge s,
                    s_cFwdDelay := s_fwdDelay s\<rparr>)
      in fold (\<lambda>i. s_modify_port i (\<lambda>_. s_defaultPort s1)) [0..<s_portCount s1] s1)"

section \<open>Receiving\<close>

definition setSuperiorBPDU :: "nat \<Rightarrow> stp_bpdu \<Rightarrow> stpi \<Rightarrow> stpi" where
  "setSuperiorBPDU i b s =
     (if b_msgAge b \<ge> b_maxAge b then s
      else
        resetAge i
          (s_modify_port i
             (\<lambda>p. p\<lparr>tp_rootPriority := b_rootPriority b,
                    tp_rootID := b_rootID b,
                    tp_rootPathCost := ucast (b_rootPathCost b + ucast (tp_linkCost p)),
                    tp_bridgePriority := b_bridgePriority b,
                    tp_bridgeID := b_bridgeID b,
                    tp_portPriority := b_portPriority b,
                    tp_portID := b_portID b,
                    tp_maxAge := b_maxAge b,
                    tp_fwdDelay := b_fwdDelay b,
                    tp_helloTime := b_helloTime b\<rparr>) s))"

definition bpdu_vector :: "stp_port \<Rightarrow> stp_bpdu \<Rightarrow> stp_port" where
  "bpdu_vector p b =
     p\<lparr>tp_rootPriority := b_rootPriority b,
       tp_rootID := b_rootID b,
       tp_rootPathCost := ucast (b_rootPathCost b + ucast (tp_linkCost p)),
       tp_bridgePriority := b_bridgePriority b,
       tp_bridgeID := b_bridgeID b,
       tp_portPriority := b_portPriority b,
       tp_portID := b_portID b\<rparr>"

definition superiorBPDU :: "nat \<Rightarrow> stp_bpdu \<Rightarrow> stpi \<Rightarrow> bool \<times> stpi" where
  "superiorBPDU i b s =
     (let result = superiorTPort (port s i) (bpdu_vector (port s i) b) in
      if result > 0 then (False, s)
      else if result < 0
      then (True, setSuperiorBPDU i b (setPortState i SDISCARDING (resetFDWhile i s)))
      else (True, setSuperiorBPDU i b s))"

text \<open>Relaying the root's BPDU: the aging of the MAC table follows the topology change bit.\<close>

definition relayBPDU :: "stp_bpdu \<Rightarrow> stpi \<Rightarrow> mac_table \<Rightarrow> stpi \<times> mac_table" where
  "relayBPDU b s t =
     (let s1 = (if b_tca b then s\<lparr>s_topologyChangeNotification := False\<rparr> else s);
          (s2, t2) = (if b_tc b
                      then (s1\<lparr>s_topologyChange := s_topologyChange s1 + 1\<rparr>, mac_enableFasterAging t)
                      else (s1, mac_resetAging t));
          s3 = fold generateHelloBPDU (s_desPorts s2) s2;
          s4 = (if s_topologyChangeRecvd s3 then s3\<lparr>s_topologyChangeRecvd := False\<rparr> else s3);
          s5 = (if s_topologyChange s4 > 0 then s4\<lparr>s_topologyChange := s_topologyChange s4 - 1\<rparr> else s4)
      in (s5, t2))"

definition stpi_handleBPDU :: "nat \<Rightarrow> stp_bpdu \<Rightarrow> stpi \<Rightarrow> mac_table \<Rightarrow> (stpi \<times> mac_table) option" where
  "stpi_handleBPDU i b s t =
     (if i \<ge> length (s_portTable s) then None
      else
        (let (superior, s1) = superiorBPDU i b s;
             (s2, t2) =
               (if \<not> superior
                then (if tp_role (port s1 i) = RDESIGNATED then generateHelloBPDU i s1 else s1, t)
                else if tp_role (port s1 i) = RROOT then relayBPDU b s1 t
                else (s1, t))
         in Some (tryRoot s2, t2)))"

definition stpi_handleTCN :: "stpi \<Rightarrow> stpi" where
  "stpi_handleTCN s = s\<lparr>s_topologyChangeNotification := True, s_topologyChangeRecvd := True\<rparr>"

section \<open>The tick\<close>

text \<open>The first loop of \<open>handleTick\<close>: the timers of one port.\<close>

definition tick_port :: "nat \<Rightarrow> stpi \<Rightarrow> stpi" where
  "tick_port i s =
     (if \<not> tp_enabled (port s i) then s
      else
        (let s1 = (if tp_role (port s i) \<noteq> RDESIGNATED
                   then s_modify_port i (\<lambda>p. p\<lparr>tp_age := tp_age p + 1\<rparr>) s else s)
         in if tp_role (port s1 i) = RROOT \<or> tp_role (port s1 i) = RDESIGNATED
            then s_modify_port i (\<lambda>p. p\<lparr>tp_fdWhile := tp_fdWhile p + 1\<rparr>) s1 else s1))"

text \<open>The information age check of one port.\<close>

definition age_port :: "nat \<Rightarrow> stpi \<Rightarrow> stpi" where
  "age_port i s =
     (if tp_age (port s i) \<ge> s_cMaxAge s then
        (if tp_role (port s i) = RROOT
         then lostRoot (s_modify_port i (\<lambda>_. s_defaultPort s) s)
         else lostAlternate i (s_modify_port i (\<lambda>_. s_defaultPort s) s))
      else s)"

text \<open>The forward delay check of one port.\<close>

definition fwd_port :: "nat \<Rightarrow> stpi \<Rightarrow> stpi" where
  "fwd_port i s =
     (if tp_role (port s i) = RROOT \<or> tp_role (port s i) = RDESIGNATED then
        (if tp_fdWhile (port s i) \<ge> s_cFwdDelay s then
           (case tp_state (port s i) of
              SDISABLED \<Rightarrow> resetFDWhile i (setPortState i SDISCARDING s)
            | SDISCARDING \<Rightarrow> resetFDWhile i (setPortState i SLEARNING s)
            | SLEARNING \<Rightarrow> resetFDWhile i (setPortState i SFORWARDING s)
            | SFORWARDING \<Rightarrow> resetFDWhile i s)
         else s)
      else setPortState i SDISCARDING (resetFDWhile i s))"

definition checkTimers :: "stpi \<Rightarrow> mac_table \<Rightarrow> stpi \<times> mac_table" where
  "checkTimers s t =
     (let (s1, t1) = (if s_helloTimer s \<ge> s_cHelloTime s
                      then (let (s', t') = generator s t in (s'\<lparr>s_helloTimer := 0\<rparr>, t'))
                      else (s, t));
          s2 = fold age_port [0..<s_portCount s1] s1;
          s3 = fold fwd_port [0..<s_portCount s2] s2;
          s4 = (if s_topologyChangeNotification s3 \<and> s_isRoot s3
                then s3\<lparr>s_topologyChange := 5, s_topologyChangeNotification := False\<rparr> else s3)
      in (s4, t1))"

definition checkParametersChange :: "stpi \<Rightarrow> stpi" where
  "checkParametersChange s =
     (let s1 = (if s_isRoot s
                then s\<lparr>s_cHelloTime := s_helloTime s, s_cMaxAge := s_maxAge s, s_cFwdDelay := s_fwdDelay s\<rparr>
                else s)
      in if s_ubridgePriority s1 \<noteq> s_bridgePriority s1
         then stp_reset (s1\<lparr>s_ubridgePriority := s_bridgePriority s1\<rparr>) else s1)"

definition stpi_handleTick :: "stpi \<Rightarrow> mac_table \<Rightarrow> (stpi \<times> mac_table) option" where
  "stpi_handleTick s t =
     (let s1 = s\<lparr>s_helloTimer := (if s_isRoot s then s_helloTimer s + 1 else 0)\<rparr>;
          s2 = fold tick_port [0..<s_portCount s1] s1;
          (s3, t3) = checkTimers s2 t;
          s4 = checkParametersChange s3
      in map_option (\<lambda>s5. (s5, t3)) (generateTCN s4))"

section \<open>A new instance\<close>

definition default_port :: stp_port where
  "default_port =
     \<lparr>tp_enabled = True, tp_state = SDISCARDING, tp_role = RUNKNOWN, tp_priority = 128,
      tp_flags = \<lparr>fl_Learning = False, fl_Forwarding = False\<rparr>,
      tp_rootPathCost = 32767, tp_rootPriority = 65536, tp_rootID = 0xFFFFFFFFFFFF,
      tp_bridgePriority = 65536, tp_bridgeID = 0xFFFFFFFFFFFF, tp_portPriority = 256, tp_portID = 256,
      tp_linkCost = 19, tp_age = 0, tp_fdWhile = 0, tp_maxAge = 20, tp_fwdDelay = 15, tp_helloTime = 2\<rparr>"

definition new_stpi :: "u32 \<Rightarrow> nat \<Rightarrow> mac_addr \<Rightarrow> stpi" where
  "new_stpi vlan n addr =
     allDesignated
       \<lparr>s_msgList = [], s_vlan = vlan, s_isRoot = True, s_rootPort = 0, s_desPorts = [], s_portCount = n,
        s_bridgeAddress = addr, s_bridgePriority = 32768,
        s_rootPathCost = 0, s_rootPriority = 32768, s_rootID = addr,
        s_maxAge = 20, s_fwdDelay = 15, s_helloTime = 2, s_ubridgePriority = 32768,
        s_cMaxAge = 20, s_cFwdDelay = 15, s_cHelloTime = 2, s_helloTimer = 0,
        s_topologyChange = 0, s_topologyChangeNotification = False, s_topologyChangeRecvd = False,
        s_portTable = replicate n default_port, s_defaultPort = default_port\<rparr>"

end
