(* ===== verification/Stp_Election.thy ===== *)
theory Stp_Election
  imports Stp_Instance
begin

text \<open>
  The election of the spanning tree: the priority comparison is a lexicographic order on seven
  numbers, and the loops that assign roles have closed forms over it.
\<close>

section \<open>The priority vector\<close>

type_synonym priority_vector = "u32 \<times> mac_addr \<times> u32 \<times> u32 \<times> mac_addr \<times> u32 \<times> u32"

definition pvec :: "stp_port \<Rightarrow> priority_vector" where
  "pvec p = (tp_rootPriority p, tp_rootID p, tp_rootPathCost p,
             tp_bridgePriority p, tp_bridgeID p, tp_portPriority p, tp_portID p)"

text \<open>The tie between equal vectors is broken by this bridge's own port priority.\<close>

definition rkey :: "stp_port \<Rightarrow> priority_vector \<times> u32" where
  "rkey p = (pvec p, tp_priority p)"

definition cmp3 :: "'a::linorder \<Rightarrow> 'a \<Rightarrow> int" where
  "cmp3 x y = (if x < y then 1 else if y < x then -1 else 0)"

lemma cmp3_pair:
  fixes a b :: "'a::linorder" and c d :: "'b::linorder"
  shows "cmp3 (a, c) (b, d) = (if a < b then 1 else if b < a then -1 else cmp3 c d)"
  by (auto simp: cmp3_def)

lemma superiorTPort_cmp3: "superiorTPort A B = cmp3 (pvec A) (pvec B)"
  unfolding superiorTPort_def superiorID_def superiorPort_def pvec_def cmp3_pair
  by (simp add: cmp3_def Let_def)

lemma superiorTPort_pvec:
  "superiorTPort A B = (if pvec A < pvec B then 1 else if pvec B < pvec A then -1 else 0)"
  by (simp add: superiorTPort_cmp3 cmp3_def)

lemma superiorTPort_sign [simp]:
  "superiorTPort A B > 0 \<longleftrightarrow> pvec A < pvec B"
  "superiorTPort A B < 0 \<longleftrightarrow> pvec B < pvec A"
  by (auto simp: superiorTPort_pvec)

lemma superiorID_sign: "superiorID p a q b > 0 \<longleftrightarrow> (p, a) < (q, b)"
  by (auto simp: superiorID_def)

lemma rkey_less: "rkey A < rkey B \<longleftrightarrow> pvec A < pvec B \<or> \<not> pvec B < pvec A \<and> tp_priority A < tp_priority B"
  by (auto simp: rkey_def)

lemma pvec_role [simp]: "pvec (p\<lparr>tp_role := r\<rparr>) = pvec p"
  by (simp add: pvec_def)

section \<open>Changing roles only\<close>

definition with_roles :: "(nat \<Rightarrow> port_role) \<Rightarrow> stpi \<Rightarrow> stpi" where
  "with_roles r s =
     s\<lparr>s_portTable := map (\<lambda>i. (port s i)\<lparr>tp_role := r i\<rparr>) [0..<length (s_portTable s)]\<rparr>"

lemma with_roles_id: "with_roles (\<lambda>i. tp_role (port s i)) s = s"
proof -
  have "map (\<lambda>i. (port s i)\<lparr>tp_role := tp_role (port s i)\<rparr>) [0..<length (s_portTable s)] = s_portTable s"
    by (rule nth_equalityI) simp_all
  then show ?thesis by (simp add: with_roles_def)
qed

lemma with_roles_cong:
  "(\<And>i. i < length (s_portTable s) \<Longrightarrow> r i = r' i) \<Longrightarrow> with_roles r s = with_roles r' s"
  by (simp add: with_roles_def)

lemma length_with_roles [simp]: "length (s_portTable (with_roles r s)) = length (s_portTable s)"
  by (simp add: with_roles_def)

lemma port_with_roles [simp]:
  "i < length (s_portTable s) \<Longrightarrow> port (with_roles r s) i = (port s i)\<lparr>tp_role := r i\<rparr>"
  by (simp add: with_roles_def)

lemma with_roles_modify:
  "s_modify_port n (\<lambda>p. p\<lparr>tp_role := x\<rparr>) (with_roles r s) = with_roles (r(n := x)) s"
proof -
  have "vec_modify n (\<lambda>p. p\<lparr>tp_role := x\<rparr>) (map (\<lambda>i. (port s i)\<lparr>tp_role := r i\<rparr>) [0..<length (s_portTable s)])
      = map (\<lambda>i. (port s i)\<lparr>tp_role := (r(n := x)) i\<rparr>) [0..<length (s_portTable s)]"
    by (rule nth_equalityI) (auto simp: nth_vec_modify)
  then show ?thesis by (simp add: s_modify_port_def with_roles_def)
qed

lemma with_roles_frame [simp]:
  "s_portCount (with_roles r s) = s_portCount s"
  "s_rootPort (with_roles r s) = s_rootPort s"
  "s_rootPriority (with_roles r s) = s_rootPriority s"
  "s_rootID (with_roles r s) = s_rootID s"
  "s_rootPathCost (with_roles r s) = s_rootPathCost s"
  "s_bridgePriority (with_roles r s) = s_bridgePriority s"
  "s_bridgeAddress (with_roles r s) = s_bridgeAddress s"
  "s_desPorts (with_roles r s) = s_desPorts s"
  "s_defaultPort (with_roles r s) = s_defaultPort s"
  "s_isRoot (with_roles r s) = s_isRoot s"
  by (simp_all add: with_roles_def)

section \<open>Closed forms of the role loops\<close>

text \<open>\<open>selectRootPort\<close>: the loop's result after \<open>n\<close> ports.\<close>

definition root_choice :: "stpi \<Rightarrow> nat \<Rightarrow> nat \<Rightarrow> stp_port \<Rightarrow> bool" where
  "root_choice s n x b \<longleftrightarrow>
     (b = s_defaultPort s \<and> x = 0 \<and> (\<forall>i<n. \<not> rkey (port s i) < rkey b)) \<or>
     (x < n \<and> b = port s x \<and> rkey b < rkey (s_defaultPort s) \<and>
      (\<forall>i<n. rkey b \<le> rkey (port s i)) \<and> (\<forall>i<x. rkey b < rkey (port s i)))"

lemma rootPort_fold:
  assumes "n \<le> length (s_portTable s)"
  shows "\<exists>x b. fold rootPort_step [0..<n] (s, 0, s_defaultPort s) =
           (with_roles (\<lambda>i. if i < n then RUNKNOWN else tp_role (port s i)) s, x, b) \<and>
         root_choice s n x b"
  using assms
proof (induction n)
  case 0
  then show ?case by (simp add: with_roles_id root_choice_def)
next
  case (Suc n)
  let ?r = "\<lambda>n i. if i < n then RUNKNOWN else tp_role (port s i)"
  obtain x b where fold: "fold rootPort_step [0..<n] (s, 0, s_defaultPort s) = (with_roles (?r n) s, x, b)"
    and choice: "root_choice s n x b"
    using Suc by auto
  have tmp: "port (with_roles (?r n) s) n = port s n"
    using Suc.prems by (simp add: with_roles_def)
  have roles: "s_modify_port n (\<lambda>p. p\<lparr>tp_role := RUNKNOWN\<rparr>) (with_roles (?r n) s) = with_roles (?r (Suc n)) s"
    unfolding with_roles_modify by (rule with_roles_cong) auto
  have step: "fold rootPort_step [0..<Suc n] (s, 0, s_defaultPort s) =
      (with_roles (?r (Suc n)) s, if rkey (port s n) < rkey b then (n, port s n) else (x, b))"
    by (simp add: fold rootPort_step_def tmp roles Let_def rkey_less superiorTPort_pvec)
  show ?case
  proof (cases "rkey (port s n) < rkey b")
    case True
    then have "root_choice s (Suc n) n (port s n)"
      using choice unfolding root_choice_def less_Suc_eq by fastforce
    with True step show ?thesis by simp
  next
    case False
    then have "root_choice s (Suc n) x b"
      using choice unfolding root_choice_def less_Suc_eq by auto
    with False step show ?thesis by simp
  qed
qed

lemma selectRootPort_closed:
  assumes "length (s_portTable s) = s_portCount s"
  shows "\<exists>x b. root_choice s (s_portCount s) x b \<and>
    selectRootPort s =
      (with_roles (\<lambda>i. if i = x then RROOT else RUNKNOWN) s)
        \<lparr>s_topologyChangeNotification := s_topologyChangeNotification s \<or> s_rootPort s \<noteq> x,
         s_rootPort := x, s_rootPathCost := tp_rootPathCost b, s_rootID := tp_rootID b,
         s_rootPriority := tp_rootPriority b, s_cMaxAge := tp_maxAge b,
         s_cFwdDelay := tp_fwdDelay b, s_cHelloTime := tp_helloTime b\<rparr>"
proof -
  obtain x b where fold: "fold rootPort_step [0..<s_portCount s] (s, 0, s_defaultPort s) =
      (with_roles (\<lambda>i. if i < s_portCount s then RUNKNOWN else tp_role (port s i)) s, x, b)"
    and choice: "root_choice s (s_portCount s) x b"
    using rootPort_fold [of "s_portCount s" s] assms by auto
  have roles: "with_roles (\<lambda>i. if i < s_portCount s then RUNKNOWN else tp_role (port s i)) s
      = with_roles (\<lambda>i. RUNKNOWN) s"
    by (rule with_roles_cong) (simp add: assms)
  have upd: "s_modify_port x (\<lambda>p. p\<lparr>tp_role := RROOT\<rparr>) (with_roles (\<lambda>i. RUNKNOWN) s)
      = with_roles (\<lambda>i. if i = x then RROOT else RUNKNOWN) s"
    unfolding with_roles_modify by (rule with_roles_cong) simp
  define w where "w = with_roles (\<lambda>i. RUNKNOWN) s"
  have "s_rootPort w = s_rootPort s" "s_topologyChangeNotification w = s_topologyChangeNotification s"
    by (simp_all add: w_def with_roles_def)
  then have "selectRootPort s =
      (s_modify_port x (\<lambda>p. p\<lparr>tp_role := RROOT\<rparr>) w)
        \<lparr>s_topologyChangeNotification := s_topologyChangeNotification s \<or> s_rootPort s \<noteq> x,
         s_rootPort := x, s_rootPathCost := tp_rootPathCost b, s_rootID := tp_rootID b,
         s_rootPriority := tp_rootPriority b, s_cMaxAge := tp_maxAge b,
         s_cFwdDelay := tp_fwdDelay b, s_cHelloTime := tp_helloTime b\<rparr>"
    unfolding selectRootPort_def fold roles w_def [symmetric] by (auto simp: Let_def s_modify_port_def)
  then show ?thesis using choice upd unfolding w_def by auto
qed

text \<open>\<open>selectDesignatedPorts\<close>\<close>

definition des_role :: "stpi \<Rightarrow> nat \<Rightarrow> port_role" where
  "des_role s i =
     (let p = port s i in
      if tp_role p = RROOT \<or> \<not> tp_enabled p then tp_role p
      else if pvec (bridge_vector i s) < pvec p then RDESIGNATED
      else if pvec p < pvec (bridge_vector i s) then RALTERNATE
      else tp_role p)"

definition is_des :: "stpi \<Rightarrow> nat \<Rightarrow> bool" where
  "is_des s i \<longleftrightarrow> tp_role (port s i) \<noteq> RROOT \<and> tp_enabled (port s i) \<and>
     pvec (bridge_vector i s) < pvec (port s i)"

lemma bridge_vector_with_roles [simp]:
  "i < length (s_portTable s) \<Longrightarrow> pvec (bridge_vector i (with_roles r s)) = pvec (bridge_vector i s)"
  by (simp add: bridge_vector_def pvec_def)

lemma desPorts_fold:
  assumes "n \<le> length (s_portTable s)"
  shows "fold desPorts_step [0..<n] (s, []) =
    (with_roles (\<lambda>i. if i < n then des_role s i else tp_role (port s i)) s, filter (is_des s) [0..<n])"
  using assms
proof (induction n)
  case 0
  then show ?case by (simp add: with_roles_id)
next
  case (Suc n)
  let ?r = "\<lambda>n i. if i < n then des_role s i else tp_role (port s i)"
  have tmp: "port (with_roles (?r n) s) n = port s n"
    using Suc.prems by (simp add: with_roles_def)
  have upd: "with_roles ((?r n)(n := des_role s n)) s = with_roles (?r (Suc n)) s"
    by (rule with_roles_cong) auto
  have same: "des_role s n = tp_role (port s n) \<Longrightarrow> with_roles (?r (Suc n)) s = with_roles (?r n) s"
    by (rule with_roles_cong) (auto simp: less_Suc_eq)
  have bv: "pvec (bridge_vector n (with_roles (?r n) s)) = pvec (bridge_vector n s)"
    using Suc.prems by simp
  have "desPorts_step n (with_roles (?r n) s, filter (is_des s) [0..<n]) =
      (with_roles (?r (Suc n)) s, filter (is_des s) [0..<Suc n])"
  proof (cases "tp_role (port s n) = RROOT \<or> \<not> tp_enabled (port s n)")
    case True
    then have "des_role s n = tp_role (port s n)" by (simp add: des_role_def)
    with True same show ?thesis by (auto simp: desPorts_step_def tmp is_des_def Let_def)
  next
    case False
    have mod: "s_modify_port n (\<lambda>p. p\<lparr>tp_role := des_role s n\<rparr>) (with_roles (?r n) s) = with_roles (?r (Suc n)) s"
      unfolding with_roles_modify by (rule upd)
    show ?thesis
    proof (cases "pvec (bridge_vector n s)" "pvec (port s n)" rule: linorder_cases)
      case less
      with False have "des_role s n = RDESIGNATED" by (simp add: des_role_def)
      with less False mod show ?thesis by (simp add: desPorts_step_def tmp Let_def bv superiorTPort_pvec is_des_def)
    next
      case equal
      with False have "des_role s n = tp_role (port s n)" by (simp add: des_role_def)
      with equal False same show ?thesis by (simp add: desPorts_step_def tmp Let_def bv superiorTPort_pvec is_des_def)
    next
      case greater
      with False have "des_role s n = RALTERNATE" by (auto simp: des_role_def Let_def)
      with greater False mod show ?thesis by (auto simp: desPorts_step_def tmp Let_def bv superiorTPort_pvec is_des_def)
    qed
  qed
  with Suc show ?case by simp
qed

lemma selectDesignatedPorts_closed:
  assumes "length (s_portTable s) = s_portCount s"
  shows "selectDesignatedPorts s =
    (with_roles (des_role s) s)\<lparr>s_desPorts := filter (is_des s) [0..<s_portCount s]\<rparr>"
proof -
  have "with_roles (\<lambda>i. if i < s_portCount s then des_role s i else tp_role (port s i)) s = with_roles (des_role s) s"
    by (rule with_roles_cong) (simp add: assms)
  then show ?thesis
    using desPorts_fold [of "s_portCount s" s] assms by (simp add: selectDesignatedPorts_def)
qed

text \<open>\<open>allDesignated\<close>\<close>

lemma allDes_fold:
  assumes "n \<le> length (s_portTable s)"
  shows "fold allDes_step [0..<n] (s, []) =
    (with_roles (\<lambda>i. if i < n \<and> tp_enabled (port s i) then RDESIGNATED else tp_role (port s i)) s,
     filter (\<lambda>i. tp_enabled (port s i)) [0..<n])"
  using assms
proof (induction n)
  case 0
  then show ?case by (simp add: with_roles_id)
next
  case (Suc n)
  let ?r = "\<lambda>n i. if i < n \<and> tp_enabled (port s i) then RDESIGNATED else tp_role (port s i)"
  have tmp: "port (with_roles (?r n) s) n = port s n"
    using Suc.prems by (simp add: with_roles_def)
  have upd: "tp_enabled (port s n) \<Longrightarrow> with_roles ((?r n)(n := RDESIGNATED)) s = with_roles (?r (Suc n)) s"
    by (rule with_roles_cong) auto
  have same: "\<not> tp_enabled (port s n) \<Longrightarrow> with_roles (?r (Suc n)) s = with_roles (?r n) s"
    by (rule with_roles_cong) (auto simp: less_Suc_eq)
  have "allDes_step n (with_roles (?r n) s, filter (\<lambda>i. tp_enabled (port s i)) [0..<n]) =
      (with_roles (?r (Suc n)) s, filter (\<lambda>i. tp_enabled (port s i)) [0..<Suc n])"
    using upd same by (auto simp: allDes_step_def tmp with_roles_modify)
  with Suc show ?case by simp
qed

lemma allDesignated_closed:
  assumes "length (s_portTable s) = s_portCount s"
  shows "allDesignated s =
    (with_roles (\<lambda>i. if tp_enabled (port s i) then RDESIGNATED else tp_role (port s i)) s)
      \<lparr>s_desPorts := filter (\<lambda>i. tp_enabled (port s i)) [0..<s_portCount s]\<rparr>"
proof -
  have "with_roles (\<lambda>i. if i < s_portCount s \<and> tp_enabled (port s i) then RDESIGNATED else tp_role (port s i)) s
      = with_roles (\<lambda>i. if tp_enabled (port s i) then RDESIGNATED else tp_role (port s i)) s"
    by (rule with_roles_cong) (simp add: assms)
  then show ?thesis
    using allDes_fold [of "s_portCount s" s] assms by (simp add: allDesignated_def)
qed

end
