(* ===== verification/Stp_Safety.thy ===== *)
theory Stp_Safety
  imports Stp_Election
begin

text \<open>
  The invariant of a spanning tree instance (\<open>stpi_wf\<close>) and its preservation by every event: a
  received BPDU or topology change notification, the tick, and the configuration setters. The
  events are the step relation \<open>stp_step\<close>; the invariant holds in every reachable state.
\<close>

section \<open>The invariant\<close>

definition port_ok :: "stp_port \<Rightarrow> bool" where
  "port_ok p \<longleftrightarrow> tp_enabled p \<and>
     (fl_Learning (tp_flags p) \<longleftrightarrow> tp_state p = SLEARNING \<or> tp_state p = SFORWARDING) \<and>
     (fl_Forwarding (tp_flags p) \<longleftrightarrow> tp_state p = SFORWARDING)"

definition ports_wf :: "stpi \<Rightarrow> bool" where
  "ports_wf s \<longleftrightarrow> length (s_portTable s) = s_portCount s \<and> (\<forall>p\<in>set (s_portTable s). port_ok p) \<and>
     s_defaultPort s = default_port \<and> (0 < s_portCount s \<longrightarrow> s_rootPort s < s_portCount s)"

definition stpi_wf :: "stpi \<Rightarrow> bool" where
  "stpi_wf s \<longleftrightarrow> ports_wf s \<and> sorted_wrt (<) (s_desPorts s) \<and> (\<forall>i\<in>set (s_desPorts s). i < s_portCount s)"

lemma port_ok_default [simp]: "port_ok default_port"
  by (simp add: port_ok_def default_port_def)

lemma ports_wfD:
  assumes "ports_wf s"
  shows "length (s_portTable s) = s_portCount s" and "i < s_portCount s \<Longrightarrow> port_ok (port s i)"
    and "s_defaultPort s = default_port" and "0 < s_portCount s \<Longrightarrow> s_rootPort s < s_portCount s"
  using assms by (auto simp: ports_wf_def)

lemma ports_wf_modify:
  assumes "ports_wf s" and "\<And>p. port_ok p \<Longrightarrow> port_ok (f p)"
  shows "ports_wf (s_modify_port i f s)"
proof (cases "i < length (s_portTable s)")
  case True
  have "set (vec_modify i f (s_portTable s)) \<subseteq> insert (f (port s i)) (set (s_portTable s))"
    unfolding vec_modify_def by (rule set_update_subset_insert)
  with True assms show ?thesis
    by (auto simp: ports_wf_def s_modify_port_def)
qed (use assms in \<open>simp add: ports_wf_def s_modify_port_def vec_modify_def list_update_beyond\<close>)

lemma ports_wf_with_roles: "ports_wf (with_roles r s) = ports_wf s"
proof -
  have "(\<forall>p\<in>set (s_portTable (with_roles r s)). port_ok p) = (\<forall>p\<in>set (s_portTable s). port_ok p)"
    by (auto simp: all_set_conv_all_nth with_roles_def port_ok_def)
  then show ?thesis by (simp add: ports_wf_def)
qed

lemma s_modify_port_frame [simp]:
  "s_portCount (s_modify_port i f s) = s_portCount s"
  "s_desPorts (s_modify_port i f s) = s_desPorts s"
  "length (s_portTable (s_modify_port i f s)) = length (s_portTable s)"
  "s_defaultPort (s_modify_port i f s) = s_defaultPort s"
  "s_cFwdDelay (s_modify_port i f s) = s_cFwdDelay s"
  "s_cMaxAge (s_modify_port i f s) = s_cMaxAge s"
  "s_rootPort (s_modify_port i f s) = s_rootPort s"
  "s_isRoot (s_modify_port i f s) = s_isRoot s"
  by (simp_all add: s_modify_port_def)

lemma stpi_wf_modify:
  "stpi_wf s \<Longrightarrow> (\<And>p. port_ok p \<Longrightarrow> port_ok (f p)) \<Longrightarrow> stpi_wf (s_modify_port i f s)"
  by (simp add: stpi_wf_def ports_wf_modify)

section \<open>Every operation keeps it\<close>

lemma sorted_wrt_less_filter_upt: "sorted_wrt (<) (filter p [0..<n])"
  by (simp add: sorted_wrt_filter)

lemma wf_setPortState [wf_intros]: "stpi_wf s \<Longrightarrow> stpi_wf (setPortState i st s)"
  unfolding setPortState_def
  by (rule stpi_wf_modify) (auto simp: port_ok_def Let_def split: port_state.splits)

lemma wf_resetAge [wf_intros]: "stpi_wf s \<Longrightarrow> stpi_wf (resetAge i s)"
  unfolding resetAge_def by (rule stpi_wf_modify) (auto simp: port_ok_def)

lemma wf_resetFDWhile [wf_intros]: "stpi_wf s \<Longrightarrow> stpi_wf (resetFDWhile i s)"
  unfolding resetFDWhile_def by (rule stpi_wf_modify) (auto simp: port_ok_def)

lemma wf_hello [wf_intros]: "stpi_wf s \<Longrightarrow> stpi_wf (generateHelloBPDU i s)"
  by (simp add: generateHelloBPDU_def s_send_def stpi_wf_def ports_wf_def)

lemma wf_hellos [wf_intros]: "stpi_wf s \<Longrightarrow> stpi_wf (fold generateHelloBPDU is s)"
  by (induction "is" arbitrary: s) (auto intro: wf_hello)

lemma wf_generateTCN: "generateTCN s = Some s' \<Longrightarrow> stpi_wf s \<Longrightarrow> stpi_wf s'"
  by (auto simp: generateTCN_def s_send_def stpi_wf_def ports_wf_def
      split: if_splits Option.bind_splits)

lemma wf_generator [wf_intros]: "stpi_wf s \<Longrightarrow> stpi_wf (fst (generator s t))"
proof -
  assume "stpi_wf s"
  then have "stpi_wf (fold generateHelloBPDU [0..<s_portCount s] s)" by (rule wf_hellos)
  with \<open>stpi_wf s\<close> show ?thesis
    by (auto simp: generator_def Let_def stpi_wf_def ports_wf_def)
qed

lemma wf_selectRootPort: "ports_wf s \<Longrightarrow> ports_wf (selectRootPort s)"
proof -
  assume wf: "ports_wf s"
  define r where "r = (\<lambda>(x::nat) i. if i = x then RROOT else RUNKNOWN)"
  from selectRootPort_closed [OF ports_wfD(1) [OF wf]] obtain x and b :: stp_port where
    c: "root_choice s (s_portCount s) x b" and "selectRootPort s = (with_roles (r x) s)
       \<lparr>s_topologyChangeNotification := s_topologyChangeNotification s \<or> s_rootPort s \<noteq> x,
        s_rootPort := x, s_rootPathCost := tp_rootPathCost b, s_rootID := tp_rootID b,
        s_rootPriority := tp_rootPriority b, s_cMaxAge := tp_maxAge b,
        s_cFwdDelay := tp_fwdDelay b, s_cHelloTime := tp_helloTime b\<rparr>"
    unfolding r_def by blast
  moreover have "0 < s_portCount s \<Longrightarrow> x < s_portCount s" using c by (auto simp: root_choice_def)
  ultimately show ?thesis using wf ports_wf_with_roles [of "r x" s] by (simp add: ports_wf_def)
qed

lemma wf_selectDesignatedPorts: "ports_wf s \<Longrightarrow> stpi_wf (selectDesignatedPorts s)"
  using ports_wf_with_roles [of "des_role s" s]
  by (auto simp: selectDesignatedPorts_closed ports_wfD(1) stpi_wf_def ports_wf_def
      sorted_wrt_less_filter_upt)

lemma wf_allDesignated: "ports_wf s \<Longrightarrow> stpi_wf (allDesignated s)"
  using ports_wf_with_roles [of _ s]
  by (auto simp: allDesignated_closed ports_wfD(1) stpi_wf_def ports_wf_def
      sorted_wrt_less_filter_upt)

lemma ports_wf_fields [simp]:
  "ports_wf (s\<lparr>s_isRoot := b\<rparr>) = ports_wf s"
  "ports_wf (s\<lparr>s_topologyChangeNotification := c\<rparr>) = ports_wf s"
  by (simp_all add: ports_wf_def)

lemma wf_tryRoot: "ports_wf s \<Longrightarrow> stpi_wf (tryRoot s)"
proof -
  assume wf: "ports_wf s"
  have "stpi_wf (selectDesignatedPorts (selectRootPort (s\<lparr>s_isRoot := False\<rparr>)))"
    by (intro wf_selectDesignatedPorts wf_selectRootPort) (simp add: wf)
  moreover have "stpi_wf (allDesignated (s\<lparr>s_isRoot := True\<rparr>))"
    by (intro wf_allDesignated) (simp add: wf)
  ultimately show ?thesis
    by (simp add: tryRoot_def Let_def stpi_wf_def ports_wf_def)
qed

lemma stpi_wf_ports [simp]: "stpi_wf s \<Longrightarrow> ports_wf s"
  by (simp add: stpi_wf_def)

lemma wf_lostRoot: "ports_wf s \<Longrightarrow> stpi_wf (lostRoot s)"
  by (simp add: lostRoot_def wf_tryRoot)

lemma wf_lostAlternate: "ports_wf s \<Longrightarrow> stpi_wf (lostAlternate i s)"
  using wf_selectDesignatedPorts [of s] by (simp add: lostAlternate_def stpi_wf_def)

text \<open>A loop that changes each port on its own.\<close>

lemma fold_modify_ports:
  "n \<le> length (s_portTable s) \<Longrightarrow>
   fold (\<lambda>i. s_modify_port i f) [0..<n] s =
     s\<lparr>s_portTable := map f (take n (s_portTable s)) @ drop n (s_portTable s)\<rparr>"
proof (induction n)
  case (Suc n)
  let ?T = "s_portTable s"
  have "vec_modify n f (map f (take n ?T) @ drop n ?T) = map f (take (Suc n) ?T) @ drop (Suc n) ?T"
  proof (rule nth_equalityI)
    fix i assume "i < length (vec_modify n f (map f (take n ?T) @ drop n ?T))"
    then show "vec_modify n f (map f (take n ?T) @ drop n ?T) ! i = (map f (take (Suc n) ?T) @ drop (Suc n) ?T) ! i"
      using Suc.prems by (cases "i = n"; cases "i < n") (auto simp: nth_vec_modify nth_append min_def)
  qed (use Suc.prems in simp)
  with Suc show ?case by (simp add: s_modify_port_def)
qed simp

lemma fold_modify_all_ports:
  "length (s_portTable s) = s_portCount s \<Longrightarrow>
   fold (\<lambda>i. s_modify_port i f) [0..<s_portCount s] s = s\<lparr>s_portTable := map f (s_portTable s)\<rparr>"
  using fold_modify_ports [of "s_portCount s" s f] by simp

lemma wf_reset: "ports_wf s \<Longrightarrow> stpi_wf (stp_reset s)"
proof -
  assume wf: "ports_wf s"
  let ?s0 = "s\<lparr>s_isRoot := True, s_rootPriority := s_bridgePriority s, s_rootID := s_bridgeAddress s,
    s_rootPathCost := 0, s_cHelloTime := s_helloTime s, s_cMaxAge := s_maxAge s, s_cFwdDelay := s_fwdDelay s\<rparr>"
  have "ports_wf ?s0" using wf by (simp add: ports_wf_def)
  then have w: "stpi_wf (allDesignated ?s0)" by (rule wf_allDesignated)
  then show ?thesis
    by (auto simp: stp_reset_def Let_def fold_modify_all_ports ports_wfD(1) stpi_wf_def ports_wf_def)
qed

lemma wf_setSuperiorBPDU [wf_intros]: "stpi_wf s \<Longrightarrow> stpi_wf (setSuperiorBPDU i b s)"
  unfolding setSuperiorBPDU_def
  by (auto intro!: wf_resetAge stpi_wf_modify simp: port_ok_def)

lemma wf_superiorBPDU [wf_intros]: "stpi_wf s \<Longrightarrow> stpi_wf (snd (superiorBPDU i b s))"
  by (auto simp: superiorBPDU_def Let_def intro!: wf_intros)

lemma wf_relayBPDU [wf_intros]: "stpi_wf s \<Longrightarrow> stpi_wf (fst (relayBPDU b s t))"
proof -
  assume s: "stpi_wf s"
  let ?s1 = "if b_tca b then s\<lparr>s_topologyChangeNotification := False\<rparr> else s"
  let ?s2 = "if b_tc b then ?s1\<lparr>s_topologyChange := s_topologyChange ?s1 + 1\<rparr> else ?s1"
  have "stpi_wf ?s2" using s by (simp add: stpi_wf_def ports_wf_def)
  then have "stpi_wf (fold generateHelloBPDU (s_desPorts ?s2) ?s2)" by (rule wf_hellos)
  then show ?thesis
    by (auto simp: relayBPDU_def Let_def stpi_wf_def ports_wf_def split: prod.splits if_splits)
qed

lemma wf_handleBPDU:
  assumes "stpi_handleBPDU i b s t = Some (s', t')" and "stpi_wf s"
  shows "stpi_wf s'"
proof -
  obtain sup s1 where sup: "superiorBPDU i b s = (sup, s1)" by fastforce
  then have s1: "stpi_wf s1" using wf_superiorBPDU [OF assms(2), of i b] by simp
  from assms(1) sup obtain s2 where s': "s' = tryRoot s2"
    and s2: "s2 = s1 \<or> s2 = generateHelloBPDU i s1 \<or> s2 = fst (relayBPDU b s1 t)"
    by (auto simp: stpi_handleBPDU_def Let_def split: if_splits prod.splits)
  have "stpi_wf s2" using s2 s1 by (auto intro: wf_intros)
  then show ?thesis unfolding s' by (intro wf_tryRoot) simp
qed

lemma wf_handleTCN [wf_intros]: "stpi_wf s \<Longrightarrow> stpi_wf (stpi_handleTCN s)"
  by (simp add: stpi_handleTCN_def stpi_wf_def ports_wf_def)

lemma wf_tick_port [wf_intros]: "stpi_wf s \<Longrightarrow> stpi_wf (tick_port i s)"
  by (auto simp: tick_port_def Let_def port_ok_def intro!: stpi_wf_modify)

lemma wf_age_port [wf_intros]: "stpi_wf s \<Longrightarrow> stpi_wf (age_port i s)"
proof -
  assume "stpi_wf s"
  then have "ports_wf (s_modify_port i (\<lambda>_. s_defaultPort s) s)"
    by (intro ports_wf_modify) (simp_all add: stpi_wf_def ports_wfD(3))
  with \<open>stpi_wf s\<close> show ?thesis by (simp add: age_port_def wf_lostRoot wf_lostAlternate)
qed

lemma wf_fwd_port [wf_intros]: "stpi_wf s \<Longrightarrow> stpi_wf (fwd_port i s)"
  by (auto simp: fwd_port_def intro: wf_intros split: port_state.splits)

lemma wf_folds:
  "stpi_wf s \<Longrightarrow> stpi_wf (fold tick_port is s)"
  "stpi_wf s \<Longrightarrow> stpi_wf (fold age_port is s)"
  "stpi_wf s \<Longrightarrow> stpi_wf (fold fwd_port is s)"
  by (rule fold_invariant; blast intro: wf_tick_port wf_age_port wf_fwd_port)+

lemma stpi_wf_fields [simp]:
  "stpi_wf (s\<lparr>s_helloTimer := h\<rparr>) = stpi_wf s"
  "stpi_wf (s\<lparr>s_topologyChange := c, s_topologyChangeNotification := n\<rparr>) = stpi_wf s"
  "stpi_wf (s\<lparr>s_cHelloTime := a, s_cMaxAge := b, s_cFwdDelay := d\<rparr>) = stpi_wf s"
  "ports_wf (s\<lparr>s_ubridgePriority := u\<rparr>) = ports_wf s"
  by (simp_all add: stpi_wf_def ports_wf_def)

lemma wf_checkTimers [wf_intros]: "stpi_wf s \<Longrightarrow> stpi_wf (fst (checkTimers s t))"
proof -
  assume s: "stpi_wf s"
  obtain s1 t1 where g: "(if s_helloTimer s \<ge> s_cHelloTime s
      then (let (s', t') = generator s t in (s'\<lparr>s_helloTimer := 0\<rparr>, t')) else (s, t)) = (s1, t1)"
    by fastforce
  have "stpi_wf s1"
    using g s wf_generator [OF s, of t] by (auto split: if_splits prod.splits)
  define s3 where "s3 = fold fwd_port [0..<s_portCount (fold age_port [0..<s_portCount s1] s1)]
      (fold age_port [0..<s_portCount s1] s1)"
  have "stpi_wf s3" unfolding s3_def by (intro wf_folds \<open>stpi_wf s1\<close>)
  moreover have "fst (checkTimers s t) = (if s_topologyChangeNotification s3 \<and> s_isRoot s3
      then s3\<lparr>s_topologyChange := 5, s_topologyChangeNotification := False\<rparr> else s3)"
    by (simp add: checkTimers_def g s3_def Let_def)
  ultimately show ?thesis by simp
qed

lemma wf_checkParametersChange [wf_intros]: "stpi_wf s \<Longrightarrow> stpi_wf (checkParametersChange s)"
  by (auto simp: checkParametersChange_def Let_def intro!: wf_reset)

lemma wf_handleTick:
  assumes "stpi_handleTick s t = Some (s', t')" and "stpi_wf s"
  shows "stpi_wf s'"
proof -
  define s1 where "s1 = s\<lparr>s_helloTimer := (if s_isRoot s then s_helloTimer s + 1 else 0)\<rparr>"
  define s2 where "s2 = fold tick_port [0..<s_portCount s1] s1"
  have "stpi_wf s2" unfolding s2_def using assms(2) by (intro wf_folds) (simp add: s1_def)
  then have "stpi_wf (checkParametersChange (fst (checkTimers s2 t)))"
    by (intro wf_checkParametersChange wf_checkTimers)
  moreover have "generateTCN (checkParametersChange (fst (checkTimers s2 t))) = Some s'"
    using assms(1) unfolding stpi_handleTick_def s1_def [symmetric] Let_def s2_def [symmetric]
    by (auto split: prod.splits)
  ultimately show ?thesis by (blast intro: wf_generateTCN)
qed

lemma wf_new: "stpi_wf (new_stpi vlan n addr)"
  unfolding new_stpi_def by (rule wf_allDesignated) (simp add: ports_wf_def)

section \<open>The step relation\<close>

inductive stp_step :: "stpi \<times> mac_table \<Rightarrow> stpi \<times> mac_table \<Rightarrow> bool" where
  recv_bpdu: "stpi_handleBPDU i b s t = Some st' \<Longrightarrow> stp_step (s, t) st'"
| recv_tcn: "stp_step (s, t) (stpi_handleTCN s, t)"
| tick: "stpi_handleTick s t = Some st' \<Longrightarrow> stp_step (s, t) st'"
| set_bridgePriority: "stp_step (s, t) (s\<lparr>s_bridgePriority := p\<rparr>, t)"
| set_portPriority: "i < length (s_portTable s) \<Longrightarrow>
    stp_step (s, t) (s_modify_port i (\<lambda>q. q\<lparr>tp_priority := p\<rparr>) s, t)"
| set_linkCost: "i < length (s_portTable s) \<Longrightarrow>
    stp_step (s, t) (s_modify_port i (\<lambda>q. q\<lparr>tp_linkCost := c\<rparr>) s, t)"
| set_timers: "stp_step (s, t) (s\<lparr>s_fwdDelay := f, s_maxAge := m, s_helloTime := h\<rparr>, t)"
| dispatch: "stp_step (s, t) (s\<lparr>s_msgList := []\<rparr>, t)"
| filter_change: "stp_step (s, t) (s, t')"

inductive stp_reachable :: "stpi \<times> mac_table \<Rightarrow> bool" where
  start: "stp_reachable (new_stpi vlan n addr, t)"
| step: "stp_reachable st \<Longrightarrow> stp_step st st' \<Longrightarrow> stp_reachable st'"

inductive_cases stp_stepE: "stp_step (s, t) st'"

lemma stp_step_wf: "stp_step st st' \<Longrightarrow> stpi_wf (fst st) \<Longrightarrow> stpi_wf (fst st')"
proof (induction rule: stp_step.induct)
  case (recv_bpdu i b s t st')
  then show ?case using wf_handleBPDU by (cases st') auto
next
  case (tick s t st')
  then show ?case using wf_handleTick by (cases st') auto
next
  case (set_portPriority i s t p)
  then show ?case by (auto intro!: stpi_wf_modify simp: port_ok_def)
next
  case (set_linkCost i s t c)
  then show ?case by (auto intro!: stpi_wf_modify simp: port_ok_def)
qed (auto simp: stpi_wf_def ports_wf_def stpi_handleTCN_def)

lemma stp_reachable_wf: "stp_reachable st \<Longrightarrow> stpi_wf (fst st)"
  by (induction rule: stp_reachable.induct) (auto simp: wf_new intro: stp_step_wf)

end
