(* ===== verification/Stp_Properties.thy ===== *)
theory Stp_Properties
  imports Stp_Safety
begin

text \<open>
  What a spanning tree instance guarantees: the election picks the best root heard and one root
  port, port states advance one stage per tick and only through the forward delay, and a quiet
  root bridge forwards on every port after two forward delays.
\<close>

section \<open>The tick's port loops\<close>

definition tick_fun :: "stp_port \<Rightarrow> stp_port" where
  "tick_fun p =
     (if \<not> tp_enabled p then p
      else if tp_role p = RDESIGNATED then p\<lparr>tp_fdWhile := tp_fdWhile p + 1\<rparr>
      else if tp_role p = RROOT then p\<lparr>tp_age := tp_age p + 1, tp_fdWhile := tp_fdWhile p + 1\<rparr>
      else p\<lparr>tp_age := tp_age p + 1\<rparr>)"

definition state_flags :: "port_state \<Rightarrow> port_flags" where
  "state_flags st = \<lparr>fl_Learning = (st = SLEARNING \<or> st = SFORWARDING), fl_Forwarding = (st = SFORWARDING)\<rparr>"

fun next_state :: "port_state \<Rightarrow> port_state" where
  "next_state SDISABLED = SDISCARDING"
| "next_state SDISCARDING = SLEARNING"
| "next_state SLEARNING = SFORWARDING"
| "next_state SFORWARDING = SFORWARDING"

definition fwd_fun :: "u32 \<Rightarrow> stp_port \<Rightarrow> stp_port" where
  "fwd_fun d p =
     (if tp_role p = RROOT \<or> tp_role p = RDESIGNATED then
        (if tp_fdWhile p \<ge> d then
           (if tp_state p = SFORWARDING then p\<lparr>tp_fdWhile := 0\<rparr>
            else p\<lparr>tp_state := next_state (tp_state p), tp_flags := state_flags (next_state (tp_state p)),
                   tp_fdWhile := 0\<rparr>)
         else p)
      else p\<lparr>tp_fdWhile := 0, tp_state := SDISCARDING, tp_flags := state_flags SDISCARDING\<rparr>)"

lemma s_modify_port_twice: "s_modify_port i f (s_modify_port i g s) = s_modify_port i (f \<circ> g) s"
  by (cases "i < length (s_portTable s)")
    (simp_all add: s_modify_port_def vec_modify_def list_update_beyond)

lemma port_s_modify_port [simp]:
  "i < length (s_portTable s) \<Longrightarrow> port (s_modify_port i f s) i = f (port s i)"
  by (simp add: s_modify_port_def)

lemma tick_port_fun: "i < length (s_portTable s) \<Longrightarrow> tick_port i s = s_modify_port i tick_fun s"
  by (simp add: tick_port_def Let_def s_modify_port_def vec_modify_def tick_fun_def)

lemma fwd_port_fun:
  "i < length (s_portTable s) \<Longrightarrow> fwd_port i s = s_modify_port i (fwd_fun (s_cFwdDelay s)) s"
  by (cases "tp_state (port s i)")
    (simp_all add: fwd_port_def setPortState_def resetFDWhile_def Let_def s_modify_port_def vec_modify_def
      fwd_fun_def state_flags_def)

lemma fwd_fun_role [simp]: "tp_role (fwd_fun d p) = tp_role p"
  by (simp add: fwd_fun_def)

lemma fwd_fun_blocked:
  "tp_role p \<notin> {RROOT, RDESIGNATED} \<Longrightarrow>
   \<not> fl_Learning (tp_flags (fwd_fun d p)) \<and> \<not> fl_Forwarding (tp_flags (fwd_fun d p))"
  by (simp add: fwd_fun_def state_flags_def)

lemma tick_fun_fields [simp]:
  "tp_role (tick_fun p) = tp_role p" "tp_enabled (tick_fun p) = tp_enabled p" "tp_state (tick_fun p) = tp_state p"
  "tp_role p = RDESIGNATED \<Longrightarrow> tp_age (tick_fun p) = tp_age p"
  by (simp_all add: tick_fun_def)

lemma fwd_fun_fields [simp]: "tp_enabled (fwd_fun d p) = tp_enabled p" "tp_age (fwd_fun d p) = tp_age p"
  by (simp_all add: fwd_fun_def)

lemma fold_tick_ports:
  assumes "length (s_portTable s) = s_portCount s"
  shows "fold tick_port [0..<s_portCount s] s = s\<lparr>s_portTable := map tick_fun (s_portTable s)\<rparr>"
proof -
  have "n \<le> s_portCount s \<Longrightarrow> fold tick_port [0..<n] s = fold (\<lambda>i. s_modify_port i tick_fun) [0..<n] s" for n
    by (induction n) (simp_all add: tick_port_fun assms fold_modify_ports)
  from this [of "s_portCount s"] show ?thesis using fold_modify_all_ports [OF assms] by simp
qed

lemma fold_fwd_ports:
  assumes "length (s_portTable s) = s_portCount s"
  shows "fold fwd_port [0..<s_portCount s] s = s\<lparr>s_portTable := map (fwd_fun (s_cFwdDelay s)) (s_portTable s)\<rparr>"
proof -
  have "n \<le> s_portCount s \<Longrightarrow>
      fold fwd_port [0..<n] s = fold (\<lambda>i. s_modify_port i (fwd_fun (s_cFwdDelay s))) [0..<n] s" for n
    by (induction n) (simp_all add: fwd_port_fun assms fold_modify_ports)
  from this [of "s_portCount s"] show ?thesis using fold_modify_all_ports [OF assms] by simp
qed

section \<open>Port states\<close>

fun state_rank :: "port_state \<Rightarrow> nat" where
  "state_rank SDISABLED = 0"
| "state_rank SDISCARDING = 0"
| "state_rank SLEARNING = 1"
| "state_rank SFORWARDING = 2"

lemma fwd_fun_rank: "state_rank (tp_state (fwd_fun d p)) \<le> state_rank (tp_state p) + 1"
  by (cases "tp_state p") (simp_all add: fwd_fun_def)

text \<open>No port of \<open>s'\<close> is further than the same port of \<open>s\<close>.\<close>

definition not_raised :: "stpi \<Rightarrow> stpi \<Rightarrow> bool" where
  "not_raised s s' \<longleftrightarrow> length (s_portTable s') = length (s_portTable s) \<and>
     (\<forall>i<length (s_portTable s). state_rank (tp_state (port s' i)) \<le> state_rank (tp_state (port s i)))"

lemma not_raised_refl [intro]: "not_raised s s"
  by (simp add: not_raised_def)

lemma not_raised_trans [trans]: "not_raised a b \<Longrightarrow> not_raised b c \<Longrightarrow> not_raised a c"
  by (force simp: not_raised_def intro: order_trans)

lemma not_raised_same_table: "s_portTable s' = s_portTable s \<Longrightarrow> not_raised s s'"
  by (simp add: not_raised_def)

lemma not_raised_with_roles [intro]: "not_raised s (with_roles r s)"
  by (simp add: not_raised_def)

lemma not_raised_modify:
  "(\<And>p. state_rank (tp_state (f p)) \<le> state_rank (tp_state p)) \<Longrightarrow> not_raised s (s_modify_port i f s)"
  by (simp add: not_raised_def s_modify_port_def nth_vec_modify)

lemma not_raised_fold: "(\<And>x s. not_raised s (f x s)) \<Longrightarrow> not_raised s (fold f xs s)"
  by (rule fold_invariant [where P = "not_raised s"]) (blast intro: not_raised_trans)+

lemma not_raised_selectRootPort: "ports_wf s \<Longrightarrow> not_raised s (selectRootPort s)"
proof -
  assume wf: "ports_wf s"
  define r where "r = (\<lambda>(x::nat) i. if i = x then RROOT else RUNKNOWN)"
  obtain x and b :: stp_port where
    "s_portTable (selectRootPort s) = s_portTable (with_roles (r x) s)"
    using selectRootPort_closed [OF ports_wfD(1) [OF wf]] unfolding r_def by fastforce
  then show ?thesis using not_raised_with_roles [of s "r x"] by (simp add: not_raised_def)
qed

lemma not_raised_selectDesignatedPorts: "ports_wf s \<Longrightarrow> not_raised s (selectDesignatedPorts s)"
  using not_raised_with_roles [of s "des_role s"]
  by (simp add: selectDesignatedPorts_closed ports_wfD(1) not_raised_def)

lemma not_raised_allDesignated: "ports_wf s \<Longrightarrow> not_raised s (allDesignated s)"
  using not_raised_with_roles [of s "\<lambda>i. if tp_enabled (port s i) then RDESIGNATED else tp_role (port s i)"]
  by (simp add: allDesignated_closed ports_wfD(1) not_raised_def)

lemma not_raised_tryRoot: "ports_wf s \<Longrightarrow> not_raised s (tryRoot s)"
proof -
  assume wf: "ports_wf s"
  show ?thesis
  proof (cases "checkRootEligibility s")
    case True
    have "not_raised (s\<lparr>s_isRoot := True\<rparr>) (allDesignated (s\<lparr>s_isRoot := True\<rparr>))"
      by (rule not_raised_allDesignated) (simp add: wf)
    with True show ?thesis by (simp add: tryRoot_def Let_def not_raised_def)
  next
    case False
    have w: "ports_wf (s\<lparr>s_isRoot := False\<rparr>)" by (simp add: wf)
    have "not_raised (s\<lparr>s_isRoot := False\<rparr>) (selectDesignatedPorts (selectRootPort (s\<lparr>s_isRoot := False\<rparr>)))"
      using not_raised_trans [OF not_raised_selectRootPort [OF w]
          not_raised_selectDesignatedPorts [OF wf_selectRootPort [OF w]]] .
    with False show ?thesis by (simp add: tryRoot_def not_raised_def)
  qed
qed

section \<open>The configuration is left alone\<close>

definition cfg :: "stpi \<Rightarrow> u32 \<times> u32 \<times> nat \<times> mac_addr \<times> stp_port \<times> nat" where
  "cfg s = (s_bridgePriority s, s_ubridgePriority s, s_portCount s, s_bridgeAddress s, s_defaultPort s,
            length (s_portTable s))"

lemma cfg_with_roles [frame_simps]: "cfg (with_roles r s) = cfg s"
  by (simp add: cfg_def with_roles_def)

lemma cfg_modify [frame_simps]: "cfg (s_modify_port i f s) = cfg s"
  by (simp add: cfg_def s_modify_port_def)

lemma cfg_fold: "(\<And>x s. cfg (f x s) = cfg s) \<Longrightarrow> cfg (fold f xs s) = cfg s"
  by (rule fold_invariant [where P = "\<lambda>s'. cfg s' = cfg s"]) auto

lemma cfg_hello [frame_simps]: "cfg (generateHelloBPDU i s) = cfg s"
  by (simp add: cfg_def generateHelloBPDU_def s_send_def)

lemma cfg_selectRootPort [frame_simps]: "cfg (selectRootPort s) = cfg s"
proof -
  have "cfg (fst (fold rootPort_step xs x)) = cfg (fst x)" for xs x
  proof (induction xs arbitrary: x)
    case (Cons i xs)
    have "cfg (fst (rootPort_step i x)) = cfg (fst x)"
      by (simp add: rootPort_step_def Let_def frame_simps split: prod.splits)
    with Cons show ?case by simp
  qed simp
  from this [of "[0..<s_portCount s]" "(s, 0, s_defaultPort s)"] show ?thesis
    by (auto simp: selectRootPort_def Let_def cfg_def s_modify_port_def split: prod.splits)
qed

lemma cfg_selectDesignatedPorts [frame_simps]: "cfg (selectDesignatedPorts s) = cfg s"
proof -
  have "cfg (fst (fold desPorts_step xs x)) = cfg (fst x)" for xs x
  proof (induction xs arbitrary: x)
    case (Cons i xs)
    have "cfg (fst (desPorts_step i x)) = cfg (fst x)"
      by (simp add: desPorts_step_def Let_def frame_simps split: prod.splits)
    with Cons show ?case by simp
  qed simp
  from this [of "[0..<s_portCount s]" "(s, [])"] show ?thesis
    by (auto simp: selectDesignatedPorts_def cfg_def split: prod.splits)
qed

lemma cfg_allDesignated [frame_simps]: "cfg (allDesignated s) = cfg s"
proof -
  have "cfg (fst (fold allDes_step xs x)) = cfg (fst x)" for xs x
  proof (induction xs arbitrary: x)
    case (Cons i xs)
    have "cfg (fst (allDes_step i x)) = cfg (fst x)"
      by (simp add: allDes_step_def frame_simps split: prod.splits)
    with Cons show ?case by simp
  qed simp
  from this [of "[0..<s_portCount s]" "(s, [])"] show ?thesis
    by (auto simp: allDesignated_def cfg_def split: prod.splits)
qed

lemma cfg_fields [frame_simps]:
  "cfg (s\<lparr>s_isRoot := b\<rparr>) = cfg s"
  "cfg (s\<lparr>s_topologyChangeNotification := b\<rparr>) = cfg s"
  "cfg (s\<lparr>s_topologyChange := k\<rparr>) = cfg s"
  "cfg (s\<lparr>s_topologyChangeRecvd := b\<rparr>) = cfg s"
  "cfg (s\<lparr>s_helloTimer := h\<rparr>) = cfg s"
  "cfg (s\<lparr>s_topologyChange := k, s_topologyChangeNotification := b\<rparr>) = cfg s"
  "cfg (s\<lparr>s_rootPriority := p, s_rootID := d, s_rootPathCost := c, s_cHelloTime := h, s_cMaxAge := m,
          s_cFwdDelay := w\<rparr>) = cfg s"
  by (simp_all add: cfg_def)

lemma cfg_tryRoot [frame_simps]: "cfg (tryRoot s) = cfg s"
  by (simp add: tryRoot_def Let_def frame_simps)

lemma cfg_age_port [frame_simps]: "cfg (age_port i s) = cfg s"
  by (simp add: age_port_def lostRoot_def lostAlternate_def frame_simps)

lemma cfg_tick_port [frame_simps]: "cfg (tick_port i s) = cfg s"
  by (simp add: tick_port_def Let_def frame_simps)

lemma cfg_fwd_port [frame_simps]: "cfg (fwd_port i s) = cfg s"
  by (simp add: fwd_port_def setPortState_def resetFDWhile_def frame_simps split: port_state.splits)

lemma cfg_generator [frame_simps]: "cfg (fst (generator s t)) = cfg s"
  by (simp add: generator_def Let_def frame_simps cfg_fold)

section \<open>One tick\<close>

lemma not_raised_generator: "not_raised s (fst (generator s t))"
proof -
  have "s_portTable (fold generateHelloBPDU xs s) = s_portTable s" for xs
    by (rule fold_invariant [where P = "\<lambda>s'. s_portTable s' = s_portTable s"])
      (simp_all add: generateHelloBPDU_def s_send_def)
  then show ?thesis by (simp add: generator_def Let_def not_raised_def)
qed

lemma not_raised_age_port: "stpi_wf s \<Longrightarrow> not_raised s (age_port i s)"
proof -
  assume wf: "stpi_wf s"
  define s1 where "s1 = s_modify_port i (\<lambda>_. s_defaultPort s) s"
  have w1: "ports_wf s1" unfolding s1_def
    using wf by (intro ports_wf_modify) (simp_all add: stpi_wf_def ports_wfD(3))
  have "not_raised s s1" unfolding s1_def
    using wf by (intro not_raised_modify) (simp add: stpi_wf_def ports_wfD(3) default_port_def)
  moreover have "not_raised s1 (lostAlternate i s1)"
    using not_raised_selectDesignatedPorts [OF w1] by (simp add: lostAlternate_def not_raised_def)
  moreover have "not_raised s1 (lostRoot s1)"
    using not_raised_tryRoot [of "s1\<lparr>s_topologyChangeNotification := True\<rparr>"] w1
    by (simp add: lostRoot_def not_raised_def)
  ultimately show ?thesis
    by (auto simp: age_port_def s1_def [symmetric] intro: not_raised_trans)
qed

lemma not_raised_age_ports: "stpi_wf s \<Longrightarrow> not_raised s (fold age_port xs s)"
proof (induction xs arbitrary: s)
  case (Cons i xs)
  from Cons.IH [OF wf_age_port [OF Cons.prems]] not_raised_age_port [OF Cons.prems]
  show ?case by (auto intro: not_raised_trans)
qed auto

lemma checkTimers_ports:
  assumes wf: "stpi_wf s"
  obtains s2 where "stpi_wf s2" "not_raised s s2" "cfg s2 = cfg s"
    "s_portTable (fst (checkTimers s t)) = map (fwd_fun (s_cFwdDelay s2)) (s_portTable s2)"
    "cfg (fst (checkTimers s t)) = cfg s"
proof -
  obtain s1 t1 where g: "(if s_helloTimer s \<ge> s_cHelloTime s
      then (let (s', t') = generator s t in (s'\<lparr>s_helloTimer := 0\<rparr>, t')) else (s, t)) = (s1, t1)"
    by fastforce
  have s1: "stpi_wf s1 \<and> not_raised s s1 \<and> cfg s1 = cfg s"
    using g wf wf_generator [OF wf, of t] not_raised_generator [of s t] cfg_generator [of s t]
    by (auto simp: not_raised_def cfg_def split: if_splits prod.splits)
  define s2 where "s2 = fold age_port [0..<s_portCount s1] s1"
  have w2: "stpi_wf s2" unfolding s2_def by (intro wf_folds) (simp add: s1)
  have n2: "not_raised s s2"
    unfolding s2_def using s1 not_raised_age_ports [of s1] by (blast intro: not_raised_trans)
  have c2: "cfg s2 = cfg s" unfolding s2_def using s1 cfg_fold [of age_port] by (simp add: frame_simps)
  have ports: "s_portTable (fst (checkTimers s t)) = map (fwd_fun (s_cFwdDelay s2)) (s_portTable s2)"
    using fold_fwd_ports [of s2] w2
    by (simp add: checkTimers_def g s2_def [symmetric] Let_def stpi_wf_def ports_wfD(1))
  have "cfg (fst (checkTimers s t)) = cfg s"
    using fold_fwd_ports [of s2] w2 c2
    by (simp add: checkTimers_def g s2_def [symmetric] Let_def stpi_wf_def ports_wfD(1)) (simp add: cfg_def)
  from that [OF w2 n2 c2 ports this] show ?thesis .
qed

lemma reset_ports:
  "ports_wf s \<Longrightarrow> s_portTable (stp_reset s) = replicate (s_portCount s) default_port"
  "ports_wf s \<Longrightarrow> cfg (stp_reset s) = cfg s"
proof -
  assume wf: "ports_wf s"
  define s0 where "s0 = s\<lparr>s_isRoot := True, s_rootPriority := s_bridgePriority s, s_rootID := s_bridgeAddress s,
    s_rootPathCost := 0, s_cHelloTime := s_helloTime s, s_cMaxAge := s_maxAge s, s_cFwdDelay := s_fwdDelay s\<rparr>"
  have w0: "ports_wf s0" using wf by (simp add: ports_wf_def s0_def)
  then have w: "ports_wf (allDesignated s0)" using wf_allDesignated stpi_wf_ports by blast
  have c: "cfg (allDesignated s0) = cfg s" unfolding cfg_allDesignated by (simp add: cfg_def s0_def)
  have r: "stp_reset s = (allDesignated s0)\<lparr>s_portTable :=
      map (\<lambda>_. s_defaultPort (allDesignated s0)) (s_portTable (allDesignated s0))\<rparr>"
    unfolding stp_reset_def Let_def s0_def [symmetric] by (rule fold_modify_all_ports) (rule ports_wfD(1) [OF w])
  show "s_portTable (stp_reset s) = replicate (s_portCount s) default_port"
    using c ports_wfD(3) [OF w] ports_wfD(1) [OF wf] by (simp add: r map_replicate_const cfg_def)
  show "cfg (stp_reset s) = cfg s" using c by (simp add: r cfg_def)
qed

lemma generateTCN_ports: "generateTCN s = Some s' \<Longrightarrow> s_portTable s' = s_portTable s"
  by (auto simp: generateTCN_def s_send_def split: if_splits Option.bind_splits)

lemma handleTick_ports:
  assumes wf: "stpi_wf s" and tick: "stpi_handleTick s t = Some (s', t')"
  obtains s2 d where "stpi_wf s2" "not_raised s s2"
    "s_portTable s' = (if s_ubridgePriority s = s_bridgePriority s then map (fwd_fun d) (s_portTable s2)
                       else replicate (s_portCount s) default_port)"
proof -
  define s1 where "s1 = s\<lparr>s_helloTimer := (if s_isRoot s then s_helloTimer s + 1 else 0)\<rparr>"
  define s2 where "s2 = fold tick_port [0..<s_portCount s1] s1"
  have w1: "stpi_wf s1" using wf by (simp add: s1_def)
  have w2: "stpi_wf s2" unfolding s2_def by (intro wf_folds w1)
  have "s_portTable s2 = map tick_fun (s_portTable s)"
    using fold_tick_ports [of s1] w1 by (simp add: s2_def stpi_wf_def ports_wfD(1)) (simp add: s1_def)
  then have n2: "not_raised s s2" by (simp add: not_raised_def tick_fun_def)
  have c2: "cfg s2 = cfg s" unfolding s2_def by (simp add: cfg_fold frame_simps s1_def)
  obtain s3 where s3: "stpi_wf s3" "not_raised s2 s3"
    "s_portTable (fst (checkTimers s2 t)) = map (fwd_fun (s_cFwdDelay s3)) (s_portTable s3)"
    "cfg (fst (checkTimers s2 t)) = cfg s2"
    using checkTimers_ports [OF w2, of t] by metis
  define s4 where "s4 = fst (checkTimers s2 t)"
  have w4: "stpi_wf s4" unfolding s4_def by (rule wf_checkTimers [OF w2])
  have TCN: "generateTCN (checkParametersChange s4) = Some s'"
    using tick unfolding stpi_handleTick_def s1_def [symmetric] Let_def s2_def [symmetric] s4_def
    by (auto split: prod.splits)
  have c4: "s_bridgePriority s4 = s_bridgePriority s" "s_ubridgePriority s4 = s_ubridgePriority s"
      "s_portCount s4 = s_portCount s"
    using s3(4) c2 by (simp_all add: s4_def [symmetric] cfg_def)
  define s5 where "s5 = (if s_isRoot s4 then s4\<lparr>s_cHelloTime := s_helloTime s4, s_cMaxAge := s_maxAge s4,
      s_cFwdDelay := s_fwdDelay s4\<rparr> else s4)"
  have w5: "ports_wf (s5\<lparr>s_ubridgePriority := s_bridgePriority s5\<rparr>)" "s_portTable s5 = s_portTable s4"
    "s_portCount s5 = s_portCount s4" "s_bridgePriority s5 = s_bridgePriority s4"
    "s_ubridgePriority s5 = s_ubridgePriority s4"
    using w4 by (auto simp: s5_def)
  have "checkParametersChange s4 = (if s_ubridgePriority s5 \<noteq> s_bridgePriority s5
      then stp_reset (s5\<lparr>s_ubridgePriority := s_bridgePriority s5\<rparr>) else s5)"
    by (simp add: checkParametersChange_def s5_def Let_def)
  then have "s_portTable s' = (if s_ubridgePriority s = s_bridgePriority s
      then map (fwd_fun (s_cFwdDelay s3)) (s_portTable s3) else replicate (s_portCount s) default_port)"
    using generateTCN_ports [OF TCN] s3(3) w5 c4 reset_ports(1) [OF w5(1)] by (simp add: s4_def)
  from that [OF s3(1) not_raised_trans [OF n2 s3(2)] this] show ?thesis .
qed

section \<open>The election\<close>

text \<open>The bridge identifiers heard on the ports, and this bridge's own.\<close>

definition root_ids :: "stpi \<Rightarrow> (u32 \<times> mac_addr) set" where
  "root_ids s = insert (s_bridgePriority s, s_bridgeAddress s)
     ((\<lambda>p. (tp_rootPriority p, tp_rootID p)) ` set (s_portTable s))"

lemma checkRootEligibility_iff:
  assumes "length (s_portTable s) = s_portCount s"
  shows "checkRootEligibility s \<longleftrightarrow>
    (\<forall>i < s_portCount s. \<not> (tp_rootPriority (port s i), tp_rootID (port s i)) < (s_bridgePriority s, s_bridgeAddress s))"
  by (auto simp: checkRootEligibility_def superiorID_sign list_all_iff simp del: less_prod_simp)

lemma rkey_le_root: "rkey a \<le> rkey b \<Longrightarrow> (tp_rootPriority a, tp_rootID a) \<le> (tp_rootPriority b, tp_rootID b)"
  by (auto simp: rkey_def pvec_def less_eq_prod_simp)

lemma root_less_rkey: "(tp_rootPriority a, tp_rootID a) < (tp_rootPriority b, tp_rootID b) \<Longrightarrow> rkey a < rkey b"
  by (auto simp: rkey_def pvec_def less_prod_simp)

lemma tryRoot_root_case:
  assumes wf: "stpi_wf s" and root: "checkRootEligibility s"
  shows "s_isRoot (tryRoot s)" "s_rootPriority (tryRoot s) = s_bridgePriority s"
    "s_rootID (tryRoot s) = s_bridgeAddress s" "s_desPorts (tryRoot s) = [0..<s_portCount s]"
    "\<And>i. i < s_portCount s \<Longrightarrow> port (tryRoot s) i = (port s i)\<lparr>tp_role := RDESIGNATED\<rparr>"
proof -
  have len: "length (s_portTable (s\<lparr>s_isRoot := True\<rparr>)) = s_portCount (s\<lparr>s_isRoot := True\<rparr>)"
    using wf by (simp add: stpi_wf_def ports_wfD(1))
  have en: "i < s_portCount s \<Longrightarrow> tp_enabled (port s i)" for i
    using wf by (auto simp: stpi_wf_def ports_wf_def port_ok_def)
  note c = allDesignated_closed [OF len]
  have "filter (\<lambda>i. tp_enabled (port s i)) [0..<s_portCount s] = [0..<s_portCount s]"
    using en by (simp add: filter_id_conv)
  then show "s_isRoot (tryRoot s)" "s_rootPriority (tryRoot s) = s_bridgePriority s"
    "s_rootID (tryRoot s) = s_bridgeAddress s" "s_desPorts (tryRoot s) = [0..<s_portCount s]"
    using root by (simp_all add: tryRoot_def c Let_def)
  fix i assume "i < s_portCount s"
  then show "port (tryRoot s) i = (port s i)\<lparr>tp_role := RDESIGNATED\<rparr>"
    using root en len by (simp add: tryRoot_def c Let_def with_roles_def)
qed

lemma selectRootPort_wf_closed:
  assumes wf: "ports_wf s" and pos: "0 < s_portCount s"
  obtains x where "x < s_portCount s" "root_choice s (s_portCount s) x (if rkey (port s x) < rkey default_port then port s x else default_port)"
    "s_rootPort (selectRootPort s) = x"
    "\<And>i. i < s_portCount s \<Longrightarrow> port (selectRootPort s) i = (port s i)\<lparr>tp_role := if i = x then RROOT else RUNKNOWN\<rparr>"
    "(s_rootPriority (selectRootPort s), s_rootID (selectRootPort s), s_rootPathCost (selectRootPort s)) =
      (let b = (if rkey (port s x) < rkey default_port then port s x else default_port)
       in (tp_rootPriority b, tp_rootID b, tp_rootPathCost b))"
    "s_isRoot (selectRootPort s) = s_isRoot s"
proof -
  obtain x and b :: stp_port where c: "root_choice s (s_portCount s) x b" and
    eq: "selectRootPort s =
      (with_roles (\<lambda>i. if i = x then RROOT else RUNKNOWN) s)
        \<lparr>s_topologyChangeNotification := s_topologyChangeNotification s \<or> s_rootPort s \<noteq> x,
         s_rootPort := x, s_rootPathCost := tp_rootPathCost b, s_rootID := tp_rootID b,
         s_rootPriority := tp_rootPriority b, s_cMaxAge := tp_maxAge b,
         s_cFwdDelay := tp_fwdDelay b, s_cHelloTime := tp_helloTime b\<rparr>"
    using selectRootPort_closed [OF ports_wfD(1) [OF wf]] by blast
  have "x < s_portCount s" using c pos by (auto simp: root_choice_def)
  have b: "b = (if rkey (port s x) < rkey default_port then port s x else default_port)"
    using c \<open>x < s_portCount s\<close> ports_wfD(3) [OF wf] unfolding root_choice_def by auto
  show ?thesis
  proof (rule that [OF \<open>x < s_portCount s\<close>])
    show "root_choice s (s_portCount s) x (if rkey (port s x) < rkey default_port then port s x else default_port)"
      using c unfolding b .
    show "s_rootPort (selectRootPort s) = x" by (simp add: eq)
    show "s_isRoot (selectRootPort s) = s_isRoot s" by (simp add: eq)
    show "port (selectRootPort s) i = (port s i)\<lparr>tp_role := if i = x then RROOT else RUNKNOWN\<rparr>"
      if "i < s_portCount s" for i
      using that ports_wfD(1) [OF wf] by (simp add: eq with_roles_def)
    show "(s_rootPriority (selectRootPort s), s_rootID (selectRootPort s), s_rootPathCost (selectRootPort s)) =
      (let b = (if rkey (port s x) < rkey default_port then port s x else default_port)
       in (tp_rootPriority b, tp_rootID b, tp_rootPathCost b))"
      unfolding eq b Let_def by simp
  qed
qed

lemma tryRoot_other_case:
  assumes wf: "stpi_wf s" and other: "\<not> checkRootEligibility s" and low: "s_bridgePriority s < 65536"
  obtains x where "x < s_portCount s" "s_rootPort (tryRoot s) = x" "\<not> s_isRoot (tryRoot s)"
    "\<forall>i < s_portCount s. rkey (port s x) \<le> rkey (port s i)"
    "\<forall>i < x. rkey (port s x) < rkey (port s i)"
    "(s_rootPriority (tryRoot s), s_rootID (tryRoot s)) = (tp_rootPriority (port s x), tp_rootID (port s x))"
    "s_rootPathCost (tryRoot s) = tp_rootPathCost (port s x)"
    "\<forall>i < s_portCount s. tp_role (port (tryRoot s) i) = RROOT \<longleftrightarrow> i = x"
    "\<forall>i < s_portCount s. tp_role (port (tryRoot s) i) = RDESIGNATED \<longleftrightarrow> i \<in> set (s_desPorts (tryRoot s))"
    "(tp_rootPriority (port s x), tp_rootID (port s x)) < (s_bridgePriority s, s_bridgeAddress s)"
proof -
  define s0 where "s0 = s\<lparr>s_isRoot := False\<rparr>"
  have w0: "ports_wf s0" using wf by (simp add: s0_def)
  have n0: "s_portCount s0 = s_portCount s" "s_portTable s0 = s_portTable s" by (simp_all add: s0_def)
  obtain i where i: "i < s_portCount s"
      "(tp_rootPriority (port s i), tp_rootID (port s i)) < (s_bridgePriority s, s_bridgeAddress s)"
    using other checkRootEligibility_iff [of s] wf by (auto simp: stpi_wf_def ports_wfD(1) simp del: less_prod_simp)
  moreover have "(s_bridgePriority s, s_bridgeAddress s) < (tp_rootPriority default_port, tp_rootID default_port)"
    using low by (simp add: default_port_def)
  ultimately have best: "rkey (port s i) < rkey default_port"
    by (intro root_less_rkey) (rule less_trans)
  define s1 where "s1 = selectRootPort s0"
  from i n0 have pos: "0 < s_portCount s0" by simp
  obtain x where x: "x < s_portCount s"
    and c: "root_choice s0 (s_portCount s) x (if rkey (port s x) < rkey default_port then port s x else default_port)"
    and rp: "s_rootPort s1 = x"
    and ports: "\<And>i. i < s_portCount s \<Longrightarrow> port s1 i = (port s i)\<lparr>tp_role := if i = x then RROOT else RUNKNOWN\<rparr>"
    and root: "(s_rootPriority s1, s_rootID s1, s_rootPathCost s1) =
      (let b = (if rkey (port s x) < rkey default_port then port s x else default_port)
       in (tp_rootPriority b, tp_rootID b, tp_rootPathCost b))" and nr: "s_isRoot s1 = s_isRoot s0"
    using selectRootPort_wf_closed [OF w0 pos] unfolding s1_def n0 by metis
  have better: "rkey (port s x) < rkey default_port"
    using c i(1) best ports_wfD(3) [OF w0] by (auto simp: root_choice_def n0 split: if_splits)
  with c have least: "\<forall>i < s_portCount s. rkey (port s x) \<le> rkey (port s i)" "\<forall>i < x. rkey (port s x) < rkey (port s i)"
    by (auto simp: root_choice_def n0 ports_wfD(3) [OF w0])
  have w1: "ports_wf s1" unfolding s1_def by (rule wf_selectRootPort [OF w0])
  have len1: "length (s_portTable s1) = s_portCount s1" "s_portCount s1 = s_portCount s"
    using w1 cfg_selectRootPort [of s0] by (simp_all add: ports_wfD(1) s1_def cfg_def n0)
  have t: "tryRoot s = (with_roles (des_role s1) s1)\<lparr>s_desPorts := filter (is_des s1) [0..<s_portCount s1]\<rparr>"
    using other selectDesignatedPorts_closed [OF len1(1)] by (simp add: tryRoot_def s1_def s0_def)
  have role: "tp_role (port (tryRoot s) i) = des_role s1 i" if "i < s_portCount s" for i
    using that len1 by (simp add: t with_roles_def)
  show ?thesis
  proof (rule that [OF x])
    show "s_rootPort (tryRoot s) = x" "\<not> s_isRoot (tryRoot s)" using rp nr by (simp_all add: t s0_def)
    show "(s_rootPriority (tryRoot s), s_rootID (tryRoot s)) = (tp_rootPriority (port s x), tp_rootID (port s x))"
      "s_rootPathCost (tryRoot s) = tp_rootPathCost (port s x)"
      using root better by (simp_all add: t Let_def)
    show "\<forall>i < s_portCount s. tp_role (port (tryRoot s) i) = RROOT \<longleftrightarrow> i = x"
      using ports role by (auto simp: des_role_def Let_def)
    show "\<forall>i < s_portCount s. tp_role (port (tryRoot s) i) = RDESIGNATED \<longleftrightarrow> i \<in> set (s_desPorts (tryRoot s))"
      using ports role len1 w1 wf
      by (auto simp: t des_role_def is_des_def Let_def ports_wf_def port_ok_def split: if_splits)
    show "(tp_rootPriority (port s x), tp_rootID (port s x)) < (s_bridgePriority s, s_bridgeAddress s)"
      using rkey_le_root [of "port s x" "port s i"] least i le_less_trans by blast
  qed (use least in auto)
qed

text \<open>An election changes the ports' roles only.\<close>

lemma tryRoot_roles_only:
  assumes wf: "stpi_wf s" and i: "i < length (s_portTable s)"
  shows "\<exists>r. port (tryRoot s) i = (port s i)\<lparr>tp_role := r\<rparr>"
proof -
  have len: "length (s_portTable s) = s_portCount s" using wf by (simp add: stpi_wf_def ports_wfD(1))
  show ?thesis
  proof (cases "checkRootEligibility s")
    case True
    then show ?thesis using tryRoot_root_case(5) [OF wf True] i len by auto
  next
    case False
    define s1 where "s1 = selectRootPort (s\<lparr>s_isRoot := False\<rparr>)"
    have w1: "ports_wf s1" unfolding s1_def using wf by (intro wf_selectRootPort) simp
    have c: "s_portCount s1 = s_portCount s"
      using cfg_selectRootPort [of "s\<lparr>s_isRoot := False\<rparr>"] by (simp add: s1_def cfg_def)
    have w0: "ports_wf (s\<lparr>s_isRoot := False\<rparr>)" "0 < s_portCount (s\<lparr>s_isRoot := False\<rparr>)"
      using wf i len by simp_all
    obtain x where ports: "\<And>k. k < s_portCount s \<Longrightarrow> port s1 k = (port s k)\<lparr>tp_role := if k = x then RROOT else RUNKNOWN\<rparr>"
      by (rule selectRootPort_wf_closed [OF w0]) (simp add: s1_def)
    have "port s1 i = (port s i)\<lparr>tp_role := if i = x then RROOT else RUNKNOWN\<rparr>"
      using ports i len by simp
    moreover have "port (tryRoot s) i = (port s1 i)\<lparr>tp_role := des_role s1 i\<rparr>"
      using False selectDesignatedPorts_closed [OF ports_wfD(1) [OF w1]] i len c ports_wfD(1) [OF w1]
      by (simp add: tryRoot_def s1_def [symmetric])
    ultimately show ?thesis by (intro exI [of _ "des_role s1 i"]) simp
  qed
qed

section \<open>Receiving a BPDU\<close>

lemma port_vec_modify_state: "tp_state (vec_modify i f xs ! j) = (if i = j \<and> j < length xs then tp_state (f (xs ! j)) else tp_state (xs ! j))"
  by (simp add: nth_vec_modify)

lemma not_raised_setSuperiorBPDU: "not_raised s (setSuperiorBPDU i b s)"
  by (auto simp: setSuperiorBPDU_def resetAge_def s_modify_port_twice intro!: not_raised_modify)

lemma not_raised_superiorBPDU: "not_raised s (snd (superiorBPDU i b s))"
proof -
  have "not_raised s (setPortState i SDISCARDING (resetFDWhile i s))"
    by (auto simp: setPortState_def resetFDWhile_def s_modify_port_twice Let_def intro!: not_raised_modify)
  from not_raised_trans [OF this not_raised_setSuperiorBPDU] show ?thesis
    by (auto simp: superiorBPDU_def Let_def not_raised_setSuperiorBPDU)
qed

lemma hellos_ports: "s_portTable (fold generateHelloBPDU xs s) = s_portTable s"
  by (rule fold_invariant [where P = "\<lambda>s'. s_portTable s' = s_portTable s"])
    (simp_all add: generateHelloBPDU_def s_send_def)

lemma relayBPDU_ports: "s_portTable (fst (relayBPDU b s t)) = s_portTable s"
  by (auto simp: relayBPDU_def Let_def hellos_ports split: prod.splits if_splits)

lemma handleBPDU_cases:
  assumes "stpi_handleBPDU i b s t = Some (s', t')"
  obtains s2 where "s' = tryRoot s2" "s_portTable s2 = s_portTable (snd (superiorBPDU i b s))"
    "i < length (s_portTable s)" "stpi_wf s \<Longrightarrow> stpi_wf s2"
proof -
  obtain sup s1 where sup: "superiorBPDU i b s = (sup, s1)" by fastforce
  from assms sup obtain s2 where s': "s' = tryRoot s2"
    and s2: "s2 = s1 \<or> s2 = generateHelloBPDU i s1 \<or> s2 = fst (relayBPDU b s1 t)"
    and i: "i < length (s_portTable s)"
    by (auto simp: stpi_handleBPDU_def Let_def split: if_splits prod.splits)
  have "s_portTable s2 = s_portTable s1"
    using s2 by (auto simp: relayBPDU_ports generateHelloBPDU_def s_send_def)
  moreover have "stpi_wf s2" if "stpi_wf s"
    using wf_superiorBPDU [OF that, of i b] s2 sup by (auto intro: wf_intros)
  ultimately show ?thesis using that [OF s'] i sup by simp
qed

text \<open>The tick never throws on a switch with ports: the root port it may look up exists.\<close>

lemma handleTick_total:
  assumes wf: "stpi_wf s" and "0 < s_portCount s"
  shows "\<exists>s' t'. stpi_handleTick s t = Some (s', t')"
proof -
  define s1 where "s1 = s\<lparr>s_helloTimer := (if s_isRoot s then s_helloTimer s + 1 else 0)\<rparr>"
  define s2 where "s2 = fold tick_port [0..<s_portCount s1] s1"
  obtain s3 t3 where c: "checkTimers s2 t = (s3, t3)" by fastforce
  have w2: "stpi_wf s2" unfolding s2_def using wf by (intro wf_folds) (simp add: s1_def)
  have "cfg s3 = cfg s"
    using checkTimers_ports [OF w2, of t] c cfg_fold [of tick_port "[0..<s_portCount s1]" s1]
    by (metis cfg_fields(5) cfg_tick_port fst_conv s1_def s2_def)
  moreover have w3: "stpi_wf s3" using wf_checkTimers [OF w2, of t] by (simp add: c)
  define s4 where "s4 = checkParametersChange s3"
  have w4: "stpi_wf s4" unfolding s4_def by (rule wf_checkParametersChange [OF w3])
  have "s_portCount s4 = s_portCount s3"
  proof -
    have "cfg (stp_reset x) = cfg x" if "ports_wf x" for x using reset_ports(2) [OF that] .
    then show ?thesis using w3
      unfolding s4_def checkParametersChange_def Let_def by (simp add: cfg_def split: if_splits)
  qed
  ultimately have "s_rootPort s4 < length (s_portTable s4)"
    using w4 assms(2) by (simp add: stpi_wf_def ports_wf_def cfg_def)
  then have "\<exists>s5. generateTCN s4 = Some s5" by (simp add: generateTCN_def)
  then show ?thesis
    using c by (simp add: stpi_handleTick_def Let_def s1_def [symmetric] s2_def [symmetric] s4_def)
qed

lemma handleBPDU_total: "i < length (s_portTable s) \<Longrightarrow> \<exists>s' t'. stpi_handleBPDU i b s t = Some (s', t')"
  by (simp add: stpi_handleBPDU_def Let_def split: prod.split)

section \<open>A quiet root bridge\<close>

text \<open>The root, alone on its segments: all its ports are designated and hold no fresher information,
  and no topology change is pending.\<close>

definition quiet_root :: "stpi \<Rightarrow> bool" where
  "quiet_root s \<longleftrightarrow> s_isRoot s \<and> length (s_portTable s) = s_portCount s \<and>
     s_ubridgePriority s = s_bridgePriority s \<and> \<not> s_topologyChangeNotification s \<and>
     s_cHelloTime s = s_helloTime s \<and> s_cMaxAge s = s_maxAge s \<and> s_cFwdDelay s = s_fwdDelay s \<and>
     0 < s_maxAge s \<and> 0 < s_fwdDelay s \<and>
     (\<forall>p\<in>set (s_portTable s). tp_enabled p \<and> tp_role p = RDESIGNATED \<and> tp_age p = 0)"

fun stp_ticks :: "nat \<Rightarrow> stpi \<times> mac_table \<Rightarrow> (stpi \<times> mac_table) option" where
  "stp_ticks 0 st = Some st"
| "stp_ticks (Suc k) st = Option.bind (stp_ticks k st) (\<lambda>(s, t). stpi_handleTick s t)"

text \<open>An instance without its message queue, topology change counter and hello timer.\<close>

definition core :: "stpi \<Rightarrow> stpi" where
  "core s = s\<lparr>s_msgList := [], s_topologyChange := 0, s_topologyChangeRecvd := False, s_helloTimer := 0\<rparr>"

lemma core_fields:
  assumes "core s' = core s"
  shows "s_isRoot s' = s_isRoot s" "s_portTable s' = s_portTable s" "s_portCount s' = s_portCount s"
    "s_ubridgePriority s' = s_ubridgePriority s" "s_bridgePriority s' = s_bridgePriority s"
    "s_topologyChangeNotification s' = s_topologyChangeNotification s"
    "s_cHelloTime s' = s_cHelloTime s" "s_cMaxAge s' = s_cMaxAge s" "s_cFwdDelay s' = s_cFwdDelay s"
    "s_helloTime s' = s_helloTime s" "s_maxAge s' = s_maxAge s" "s_fwdDelay s' = s_fwdDelay s"
  using assms by (cases s, cases s', simp add: core_def)+

lemma core_generator: "core (fst (generator s t)) = core s"
proof -
  have "core (fold generateHelloBPDU xs s) = core s" for xs
    by (rule fold_invariant [where P = "\<lambda>s'. core s' = core s"])
      (simp_all add: generateHelloBPDU_def s_send_def core_def)
  from this [of "[0..<s_portCount s]"] show ?thesis by (simp add: generator_def Let_def core_def)
qed

lemma quiet_age_ports:
  assumes "\<forall>p\<in>set (s_portTable s). tp_age p < s_cMaxAge s"
  shows "set xs \<subseteq> {..<length (s_portTable s)} \<Longrightarrow> fold age_port xs s = s"
proof (induction xs)
  case (Cons i xs)
  then have "tp_age (port s i) < s_cMaxAge s" using assms by simp
  then have "age_port i s = s" by (simp add: age_port_def)
  with Cons show ?case by simp
qed simp

lemma quiet_tick:
  assumes q: "quiet_root s"
  obtains s' t' where "stpi_handleTick s t = Some (s', t')" "quiet_root s'" "s_fwdDelay s' = s_fwdDelay s"
    "s_portTable s' = map (fwd_fun (s_fwdDelay s) \<circ> tick_fun) (s_portTable s)" "s_portCount s' = s_portCount s"
proof -
  define s1 where "s1 = s\<lparr>s_helloTimer := s_helloTimer s + 1\<rparr>"
  define s2 where "s2 = s1\<lparr>s_portTable := map tick_fun (s_portTable s1)\<rparr>"
  have len: "length (s_portTable s1) = s_portCount s1" using q by (simp add: s1_def quiet_root_def)
  obtain s3 t3 where g: "(if s_helloTimer s2 \<ge> s_cHelloTime s2
      then (let (s', t') = generator s2 t in (s'\<lparr>s_helloTimer := 0\<rparr>, t')) else (s2, t)) = (s3, t3)"
    by fastforce
  have "core s3 = core s2"
    using g core_generator [of s2 t] by (auto simp: core_def split: if_splits prod.splits)
  note c3 = core_fields [OF this]
  have f3: "s_portTable s3 = map tick_fun (s_portTable s)" "s_portCount s3 = s_portCount s"
    "s_isRoot s3" "s_ubridgePriority s3 = s_bridgePriority s3" "\<not> s_topologyChangeNotification s3"
    "s_cHelloTime s3 = s_helloTime s3" "s_cMaxAge s3 = s_maxAge s3" "s_cFwdDelay s3 = s_fwdDelay s3"
    "s_maxAge s3 = s_maxAge s" "s_fwdDelay s3 = s_fwdDelay s"
    using q unfolding c3 by (simp_all add: s2_def s1_def quiet_root_def)
  have all: "\<forall>p\<in>set (s_portTable s). tp_enabled p \<and> tp_role p = RDESIGNATED \<and> tp_age p = 0"
    and pos: "0 < s_maxAge s" "0 < s_fwdDelay s" and n: "length (s_portTable s) = s_portCount s"
    using q by (simp_all add: quiet_root_def)
  have "tp_age p < s_cMaxAge s3" if "p \<in> set (s_portTable s3)" for p
    using that all pos f3(1,7,9) by auto
  then have age: "fold age_port [0..<s_portCount s3] s3 = s3"
    using n f3(1,2) by (intro quiet_age_ports) auto
  have fwd: "fold fwd_port [0..<s_portCount s3] s3 = s3\<lparr>s_portTable := map (fwd_fun (s_fwdDelay s)) (s_portTable s3)\<rparr>"
    using fold_fwd_ports [of s3] f3 n by simp
  define s4 where "s4 = s3\<lparr>s_portTable := map (fwd_fun (s_fwdDelay s)) (s_portTable s3)\<rparr>"
  have "checkTimers s2 t = (s4, t3)"
    unfolding checkTimers_def unfolding g unfolding Let_def prod.case age fwd by (simp add: s4_def f3)
  moreover have "checkParametersChange s4 = s4"
    unfolding checkParametersChange_def s4_def Let_def using f3 by simp
  moreover have "generateTCN s4 = Some s4"
    unfolding generateTCN_def s4_def using f3 by simp
  ultimately have tick: "stpi_handleTick s t = Some (s4, t3)"
    using fold_tick_ports [OF len] q
    by (simp add: stpi_handleTick_def Let_def s1_def [symmetric] s2_def [symmetric] quiet_root_def)
  have "quiet_root s4"
    using f3 all pos n by (auto simp: quiet_root_def s4_def)
  moreover have "s_fwdDelay s4 = s_fwdDelay s" "s_portCount s4 = s_portCount s"
    "s_portTable s4 = map (fwd_fun (s_fwdDelay s) \<circ> tick_fun) (s_portTable s)"
    using f3 by (simp_all add: s4_def)
  ultimately show ?thesis using that [OF tick] by blast
qed

lemma new_stpi_quiet: "quiet_root (new_stpi vlan n addr)"
proof -
  have *: "allDesignated s = (with_roles (\<lambda>i. if tp_enabled (port s i) then RDESIGNATED else tp_role (port s i)) s)
      \<lparr>s_desPorts := filter (\<lambda>i. tp_enabled (port s i)) [0..<s_portCount s]\<rparr>"
    if "length (s_portTable s) = s_portCount s" for s
    using allDesignated_closed [OF that] .
  show ?thesis
    unfolding new_stpi_def by (subst *) (auto simp: quiet_root_def with_roles_def default_port_def)
qed

lemma new_stpi_table: "s_portTable (new_stpi vlan n addr) = replicate n (default_port\<lparr>tp_role := RDESIGNATED\<rparr>)"
  by (rule nth_equalityI) (auto simp: new_stpi_def allDesignated_closed with_roles_def default_port_def)

lemma new_stpi_ports:
  "p \<in> set (s_portTable (new_stpi vlan n addr)) \<Longrightarrow> p = default_port\<lparr>tp_role := RDESIGNATED\<rparr>"
  "s_portCount (new_stpi vlan n addr) = n" "s_fwdDelay (new_stpi vlan n addr) = 15"
  by (auto simp: new_stpi_def allDesignated_closed with_roles_def default_port_def)

lemma new_stpi_cfg: "cfg (new_stpi vlan n addr) = (32768, 32768, n, addr, default_port, n)"
  unfolding new_stpi_def cfg_allDesignated by (simp add: cfg_def)

lemmas new_stpi_simps [simp] = new_stpi_cfg [unfolded cfg_def prod.inject, THEN conjunct1]
  new_stpi_cfg [unfolded cfg_def prod.inject, THEN conjunct2, THEN conjunct1]
  new_stpi_cfg [unfolded cfg_def prod.inject, THEN conjunct2, THEN conjunct2, THEN conjunct2, THEN conjunct1]

lemma new_stpi_length [simp]: "length (s_portTable (new_stpi vlan n addr)) = n"
  using new_stpi_cfg [of vlan n addr] by (simp add: cfg_def)

fun stage_after :: "nat \<Rightarrow> nat \<Rightarrow> port_state" where
  "stage_after d k = (if k < d then SDISCARDING else if k < 2 * d then SLEARNING else SFORWARDING)"

lemma fwd_tick_stage:
  assumes "tp_enabled p" "tp_role p = RDESIGNATED" "0 < d"
    "tp_state p = stage_after (unat d) k" "tp_fdWhile p = of_nat (k mod unat d)"
  shows "tp_state (fwd_fun d (tick_fun p)) = stage_after (unat d) (Suc k) \<and>
    tp_fdWhile (fwd_fun d (tick_fun p)) = of_nat (Suc k mod unat d)"
proof -
  let ?d = "unat d"
  have d: "0 < ?d" using assms(3) by (simp add: word_less_nat_alt)
  have le: "Suc (k mod ?d) \<le> ?d" using d by (simp add: Suc_leI)
  moreover have "?d < 2 ^ 32" using unsigned_less [of d] by simp
  ultimately have un: "unat (of_nat (Suc (k mod ?d)) :: u32) = Suc (k mod ?d)"
    by (intro unat_of_nat_u32) (rule le_less_trans)
  define w :: u32 where "w = of_nat (k mod ?d) + 1"
  have w: "w = of_nat (Suc (k mod ?d))" by (simp add: w_def)
  have ge: "d \<le> w \<longleftrightarrow> Suc (k mod ?d) = ?d"
    unfolding word_le_nat_alt w un using le by linarith
  have mod: "Suc k mod ?d = (if Suc (k mod ?d) = ?d then 0 else Suc (k mod ?d))"
    by (rule mod_Suc)
  have k: "k = ?d * (k div ?d) + k mod ?d" by simp
  have tick: "tp_fdWhile (tick_fun p) = w" using assms by (simp add: tick_fun_def w_def)
  show ?thesis
  proof (cases "Suc (k mod ?d) = ?d")
    case True
    have "Suc k = ?d * (k div ?d) + Suc (k mod ?d)" using k by linarith
    then have "Suc k = ?d * Suc (k div ?d)" unfolding True by simp
    have "tp_fdWhile (fwd_fun d (tick_fun p)) = 0"
      using True ge tick assms(2) by (simp add: fwd_fun_def)
    moreover have "tp_state (fwd_fun d (tick_fun p)) = next_state (tp_state p)"
      using True ge tick assms(2) by (cases "tp_state p") (simp_all add: fwd_fun_def)
    moreover have "next_state (tp_state p) = stage_after ?d (Suc k)"
    proof -
      have "k < ?d \<longleftrightarrow> k div ?d < 1" "k < 2 * ?d \<longleftrightarrow> k div ?d < 2"
        using div_less_iff_less_mult [OF d, of k 1] div_less_iff_less_mult [OF d, of k 2] by simp_all
      moreover have "Suc k < ?d \<longleftrightarrow> False" "Suc k < 2 * ?d \<longleftrightarrow> k div ?d = 0"
        unfolding \<open>Suc k = ?d * Suc (k div ?d)\<close> using d by auto
      ultimately show ?thesis using assms(4) by auto
    qed
    ultimately show ?thesis using True mod by simp
  next
    case False
    have same: "fwd_fun d (tick_fun p) = tick_fun p"
      using False ge tick assms(2) by (simp add: fwd_fun_def)
    have "Suc k < m * ?d \<longleftrightarrow> k < m * ?d" for m
    proof -
      have "Suc k mod ?d \<noteq> 0" using False by (simp add: mod)
      then have "Suc k \<noteq> m * ?d" by (metis mod_mult_self2_is_0)
      then show ?thesis by linarith
    qed
    from this [of 1] this [of 2] show ?thesis
      using False mod same tick w assms(4) by simp
  qed
qed

lemma stp_ticks_quiet:
  assumes "quiet_root s" and "\<forall>p\<in>set (s_portTable s). tp_state p = SDISCARDING \<and> tp_fdWhile p = 0"
  shows "\<exists>s' t'. stp_ticks k (s, t) = Some (s', t') \<and> quiet_root s' \<and> s_portCount s' = s_portCount s \<and>
    s_fwdDelay s' = s_fwdDelay s \<and> (\<forall>p\<in>set (s_portTable s').
      tp_state p = stage_after (unat (s_fwdDelay s)) k \<and> tp_fdWhile p = of_nat (k mod unat (s_fwdDelay s)))"
proof (induction k)
  case 0
  have "0 < unat (s_fwdDelay s)" using assms(1) by (simp add: quiet_root_def word_less_nat_alt)
  then show ?case using assms by simp
next
  case (Suc k)
  then obtain s1 t1 where s1: "stp_ticks k (s, t) = Some (s1, t1)" "quiet_root s1"
    "s_portCount s1 = s_portCount s" "s_fwdDelay s1 = s_fwdDelay s"
    "\<forall>p\<in>set (s_portTable s1). tp_state p = stage_after (unat (s_fwdDelay s)) k \<and>
       tp_fdWhile p = of_nat (k mod unat (s_fwdDelay s))" by blast
  obtain s2 t2 where s2: "stpi_handleTick s1 t1 = Some (s2, t2)" "quiet_root s2"
    "s_fwdDelay s2 = s_fwdDelay s1" "s_portCount s2 = s_portCount s1"
    "s_portTable s2 = map (fwd_fun (s_fwdDelay s1) \<circ> tick_fun) (s_portTable s1)"
    using quiet_tick [OF s1(2)] by metis
  have "tp_state (fwd_fun (s_fwdDelay s) (tick_fun p)) = stage_after (unat (s_fwdDelay s)) (Suc k) \<and>
    tp_fdWhile (fwd_fun (s_fwdDelay s) (tick_fun p)) = of_nat (Suc k mod unat (s_fwdDelay s))"
    if "p \<in> set (s_portTable s1)" for p
    using s1(2,5) that assms(1) by (intro fwd_tick_stage) (auto simp: quiet_root_def)
  then show ?case using s1 s2 by (auto simp del: stage_after.simps)
qed

section \<open>Properties\<close>

text \<open>C28: comparing two priority vectors is the lexicographic comparison of root identifier, path
  cost, bridge identifier and port identifier; it is antisymmetric and zero only on equal vectors.\<close>

theorem stp_comparison_lexicographic:
  "(superiorTPort A B > 0 \<longleftrightarrow> pvec A < pvec B) \<and> (superiorTPort A B = 0 \<longleftrightarrow> pvec A = pvec B) \<and>
   superiorTPort B A = - superiorTPort A B"
  by (auto simp: superiorTPort_pvec)

text \<open>C14: after an election the bridge takes itself for the root exactly when no port has heard a
  smaller root identifier, and the root it announces is the least of its own identifier and all the
  identifiers its ports hold.\<close>

theorem stp_root_election:
  assumes "stpi_wf s" and "s_bridgePriority s < 65536"
  shows "s_isRoot (tryRoot s) = (\<forall>r\<in>root_ids s. (s_bridgePriority s, s_bridgeAddress s) \<le> r) \<and>
    (s_rootPriority (tryRoot s), s_rootID (tryRoot s)) = Min (root_ids s)"
proof -
  let ?own = "(s_bridgePriority s, s_bridgeAddress s)"
  have fin: "finite (root_ids s)" by (simp add: root_ids_def)
  have len: "length (s_portTable s) = s_portCount s"
    using assms(1) by (simp add: stpi_wf_def ports_wfD(1))
  have mem: "r \<in> root_ids s \<longleftrightarrow> r = ?own \<or>
      (\<exists>i < s_portCount s. r = (tp_rootPriority (port s i), tp_rootID (port s i)))" for r
    unfolding root_ids_def len [symmetric] insert_iff in_image_nth by simp
  have eligible: "checkRootEligibility s = (\<forall>r\<in>root_ids s. ?own \<le> r)"
    unfolding checkRootEligibility_iff [OF len] Ball_def mem not_less by blast
  show ?thesis
  proof (cases "checkRootEligibility s")
    case True
    then have "Min (root_ids s) = ?own"
      using eligible fin by (intro Min_eqI) (auto simp: mem)
    then show ?thesis using True eligible tryRoot_root_case(1-3) [OF assms(1) True] by simp
  next
    case False
    obtain x where x: "x < s_portCount s" "\<not> s_isRoot (tryRoot s)"
      "\<forall>i < s_portCount s. rkey (port s x) \<le> rkey (port s i)"
      "(s_rootPriority (tryRoot s), s_rootID (tryRoot s)) = (tp_rootPriority (port s x), tp_rootID (port s x))"
      "(tp_rootPriority (port s x), tp_rootID (port s x)) < ?own"
      using tryRoot_other_case [OF assms(1) False assms(2)] by metis
    have "Min (root_ids s) = (tp_rootPriority (port s x), tp_rootID (port s x))"
      using fin x(1,3,5) rkey_le_root by (intro Min_eqI) (auto simp: mem simp del: less_prod_simp less_eq_prod_simp)
    then show ?thesis using False eligible x(2,4) by simp
  qed
qed

theorem stp_root_election_witness:
  "s_isRoot (tryRoot (new_stpi 1 2 5)) \<and> s_rootID (tryRoot (new_stpi 1 2 5)) = 5"
proof -
  have "root_ids (new_stpi 1 2 5) = {(32768, 5), (65536, 0xFFFFFFFFFFFF)}"
    unfolding root_ids_def new_stpi_table by (simp add: default_port_def)
  moreover have "(32768 :: u32, 5 :: mac_addr) \<le> (65536, 0xFFFFFFFFFFFF)" by simp
  ultimately show ?thesis
    using stp_root_election [OF wf_new, of 1 2 5] by (simp add: min_def)
qed

text \<open>C20: a bridge that is not the root has exactly one root port, the first of the ports with the
  best vector (ties between equal vectors go to the smaller local port priority); its designated
  ports are the ones \<open>desPorts\<close> lists; its path cost is the root port's.\<close>

theorem stp_one_root_port:
  assumes "stpi_wf s" and "s_bridgePriority s < 65536" and "\<not> s_isRoot (tryRoot s)"
  shows "let s' = tryRoot s; x = s_rootPort s' in x < s_portCount s \<and>
    (\<forall>i < s_portCount s. tp_role (port s' i) = RROOT \<longleftrightarrow> i = x) \<and>
    (\<forall>i < s_portCount s. rkey (port s x) \<le> rkey (port s i)) \<and>
    (\<forall>i < x. rkey (port s x) < rkey (port s i)) \<and>
    (\<forall>i < s_portCount s. tp_role (port s' i) = RDESIGNATED \<longleftrightarrow> i \<in> set (s_desPorts s')) \<and>
    s_rootPathCost s' = tp_rootPathCost (port s x)"
proof -
  have other: "\<not> checkRootEligibility s"
    using assms(3) tryRoot_root_case(1) [OF assms(1)] by blast
  obtain x where "x < s_portCount s" "s_rootPort (tryRoot s) = x"
    "\<forall>i < s_portCount s. rkey (port s x) \<le> rkey (port s i)" "\<forall>i < x. rkey (port s x) < rkey (port s i)"
    "s_rootPathCost (tryRoot s) = tp_rootPathCost (port s x)"
    "\<forall>i < s_portCount s. tp_role (port (tryRoot s) i) = RROOT \<longleftrightarrow> i = x"
    "\<forall>i < s_portCount s. tp_role (port (tryRoot s) i) = RDESIGNATED \<longleftrightarrow> i \<in> set (s_desPorts (tryRoot s))"
    using tryRoot_other_case [OF assms(1) other assms(2)] by metis
  then show ?thesis by (simp add: Let_def)
qed

theorem stp_one_root_port_witness:
  "let s = s_modify_port 1 (\<lambda>p. p\<lparr>tp_rootPriority := 4096\<rparr>) (new_stpi 1 2 5); s' = tryRoot s
   in \<not> s_isRoot s' \<and> (tp_role (port s' 0) = RROOT) = (s_rootPort s' = 0)"
proof -
  define s where "s = s_modify_port 1 (\<lambda>p. p\<lparr>tp_rootPriority := 4096\<rparr>) (new_stpi 1 2 5)"
  have wf: "stpi_wf s" unfolding s_def by (rule stpi_wf_modify [OF wf_new]) (simp add: port_ok_def)
  have p: "s_bridgePriority s = 32768" "s_portCount s = 2" "tp_rootPriority (port s 1) = 4096"
    by (simp_all add: s_def new_stpi_ports) (simp add: s_modify_port_def)
  have "\<not> checkRootEligibility s"
    using p ports_wfD(1) [OF stpi_wf_ports [OF wf]] by (subst checkRootEligibility_iff) (auto intro!: exI [of _ 1])
  then have "\<not> s_isRoot (tryRoot s)"
    by (rule tryRoot_other_case [OF wf]) (simp_all add: p(1))
  then show ?thesis
    using stp_one_root_port [OF wf] p(1) unfolding s_def [symmetric] by (auto simp: Let_def)
qed

text \<open>in every state an instance reaches, whatever BPDUs, notifications, ticks and settings it
  was given, the port table has \<open>portCount\<close> entries, the learning and forwarding flags of each port
  agree with its state, and \<open>desPorts\<close> lists existing ports in increasing order.\<close>

theorem stp_reachable_invariant:
  assumes "stp_reachable (s, t)"
  shows "length (s_portTable s) = s_portCount s \<and>
    (\<forall>i < s_portCount s. stpi_forwarding i s = Some (tp_state (port s i) = SFORWARDING) \<and>
       stpi_learning i s = Some (tp_state (port s i) \<in> {SLEARNING, SFORWARDING})) \<and>
    sorted_wrt (<) (s_desPorts s) \<and> (\<forall>i\<in>set (s_desPorts s). i < s_portCount s)"
proof -
  have "stpi_wf s" using stp_reachable_wf [OF assms] by simp
  then show ?thesis
    by (auto simp: stpi_wf_def ports_wf_def port_ok_def stpi_forwarding_def stpi_learning_def)
qed

theorem stp_reachable_invariant_witness:
  "stpi_forwarding 2 (new_stpi 1 3 7) = Some (tp_state (port (new_stpi 1 3 7) 2) = SFORWARDING)"
  using stp_reachable_invariant [OF stp_reachable.start, of 1 3 7] by (auto simp: new_stpi_ports)

text \<open>C23: a quiet root bridge (alone, or with nobody better on its segments) blocks all ports for
  one forward delay, learns on all of them for the second, and forwards on all of them from the end
  of the second on: the loop of the ticks makes progress.\<close>

theorem stp_quiet_root_forwards:
  assumes "quiet_root s" and "\<forall>p\<in>set (s_portTable s). tp_state p = SDISCARDING \<and> tp_fdWhile p = 0"
  shows "\<exists>s' t'. stp_ticks k (s, t) = Some (s', t') \<and> s_portCount s' = s_portCount s \<and>
    (\<forall>i < s_portCount s. tp_state (port s' i) = stage_after (unat (s_fwdDelay s)) k)"
proof -
  obtain s' t' where s': "stp_ticks k (s, t) = Some (s', t')" "quiet_root s'" "s_portCount s' = s_portCount s"
    "\<forall>p\<in>set (s_portTable s'). tp_state p = stage_after (unat (s_fwdDelay s)) k"
    using stp_ticks_quiet [OF assms, of k t] by blast
  moreover have "length (s_portTable s') = s_portCount s'" using s'(2) by (simp add: quiet_root_def)
  ultimately show ?thesis by (metis nth_mem)
qed

theorem stp_quiet_root_forwards_witness:
  "\<exists>s' t'. stp_ticks 30 (new_stpi 1 2 5, mac_empty) = Some (s', t') \<and>
     tp_state (port s' 0) = SFORWARDING \<and> tp_state (port s' 1) = SFORWARDING"
proof -
  have "\<forall>p\<in>set (s_portTable (new_stpi 1 2 5)). tp_state p = SDISCARDING \<and> tp_fdWhile p = 0"
    by (auto dest!: new_stpi_ports(1) simp: default_port_def)
  from stp_quiet_root_forwards [OF new_stpi_quiet this, of 30 mac_empty] show ?thesis
    by (fastforce simp: new_stpi_ports simp del: stp_ticks.simps)
qed

text \<open>C24: after a tick a port that is neither root port nor designated neither learns nor forwards,
  and no port has advanced by more than one stage (blocked, learning, forwarding).\<close>

theorem stp_tick_port_states:
  assumes "stpi_handleTick s t = Some (s', t')" and "stpi_wf s" and "i < s_portCount s"
  shows "(tp_role (port s' i) \<notin> {RROOT, RDESIGNATED} \<longrightarrow>
           \<not> fl_Learning (tp_flags (port s' i)) \<and> \<not> fl_Forwarding (tp_flags (port s' i))) \<and>
    state_rank (tp_state (port s' i)) \<le> state_rank (tp_state (port s i)) + 1"
proof -
  obtain s2 d where s2: "not_raised s s2" and t: "s_portTable s' =
      (if s_ubridgePriority s = s_bridgePriority s then map (fwd_fun d) (s_portTable s2)
       else replicate (s_portCount s) default_port)"
    using handleTick_ports [OF assms(2,1)] by metis
  have "length (s_portTable s) = s_portCount s" using assms(2) by (simp add: stpi_wf_def ports_wfD(1))
  then have i: "i < length (s_portTable s2)" and
    r: "state_rank (tp_state (port s2 i)) \<le> state_rank (tp_state (port s i))"
    using s2 assms(3) by (auto simp: not_raised_def)
  have "port s' i = fwd_fun d (port s2 i) \<or> port s' i = default_port"
    using t i assms(3) by (auto split: if_splits)
  then show ?thesis
    using r fwd_fun_rank [of d "port s2 i"] fwd_fun_blocked [of "port s2 i" d]
    by (auto simp: default_port_def)
qed

theorem stp_tick_port_states_witness:
  "\<exists>s' t'. stpi_handleTick (new_stpi 1 2 5) mac_empty = Some (s', t') \<and>
     state_rank (tp_state (port s' 1)) \<le> state_rank (tp_state (port (new_stpi 1 2 5) 1)) + 1"
proof -
  obtain s' t' where "stpi_handleTick (new_stpi 1 2 5) mac_empty = Some (s', t')"
    using quiet_tick [OF new_stpi_quiet] by metis
  then show ?thesis
    using stp_tick_port_states [OF _ wf_new, of 1 2 5 mac_empty s' t' 1] by (auto simp: new_stpi_ports)
qed

text \<open>a BPDU never advances a port, and one that is better than what its port had stored blocks
  that port and restarts its forward delay.\<close>

theorem stp_bpdu_port_states:
  assumes "stpi_handleBPDU j b s t = Some (s', t')" and "stpi_wf s" and "i < s_portCount s"
  shows "state_rank (tp_state (port s' i)) \<le> state_rank (tp_state (port s i)) \<and>
    (pvec (bpdu_vector (port s j) b) < pvec (port s j) \<longrightarrow>
       tp_state (port s' j) = SDISCARDING \<and> tp_fdWhile (port s' j) = 0)"
proof -
  obtain s2 where s2: "s' = tryRoot s2" "s_portTable s2 = s_portTable (snd (superiorBPDU j b s))"
    "j < length (s_portTable s)" "stpi_wf s2"
    using handleBPDU_cases [OF assms(1)] assms(2) by metis
  have len: "length (s_portTable s) = s_portCount s" using assms(2) by (simp add: stpi_wf_def ports_wfD(1))
  have nr: "not_raised s s2" using not_raised_superiorBPDU [of s j b] s2(2) by (simp add: not_raised_def)
  have "not_raised s2 s'" unfolding s2(1) by (rule not_raised_tryRoot) (simp add: s2(4))
  from not_raised_trans [OF nr this] have "state_rank (tp_state (port s' i)) \<le> state_rank (tp_state (port s i))"
    using assms(3) len by (simp add: not_raised_def)
  moreover have "tp_state (port s' j) = SDISCARDING \<and> tp_fdWhile (port s' j) = 0"
    if better: "pvec (bpdu_vector (port s j) b) < pvec (port s j)"
  proof -
    have "port s2 j = port (setSuperiorBPDU j b (setPortState j SDISCARDING (resetFDWhile j s))) j"
      using better s2(2) by (simp add: superiorBPDU_def Let_def superiorTPort_pvec)
    then have "tp_state (port s2 j) = SDISCARDING \<and> tp_fdWhile (port s2 j) = 0"
      using s2(3) by (simp add: setSuperiorBPDU_def resetAge_def setPortState_def resetFDWhile_def
          s_modify_port_twice Let_def)
    moreover have "tp_state (port s' j) = tp_state (port s2 j) \<and> tp_fdWhile (port s' j) = tp_fdWhile (port s2 j)"
      unfolding s2(1) using tryRoot_roles_only [OF s2(4), of j] s2(2,3) not_raised_superiorBPDU [of s j b]
      by (auto simp: not_raised_def)
    ultimately show ?thesis by simp
  qed
  ultimately show ?thesis by blast
qed

theorem stp_bpdu_port_states_witness:
  "\<exists>s' t'. stpi_handleBPDU 0 \<lparr>b_portRole = RDESIGNATED, b_tc = False, b_tca = False, b_vlan = 1,
       b_bridgeID = 3, b_bridgePriority = 4096, b_rootPathCost = 0, b_rootID = 3, b_rootPriority = 4096,
       b_portID = 1, b_portPriority = 128, b_msgAge = 0, b_maxAge = 20, b_helloTime = 2, b_fwdDelay = 15\<rparr>
     (new_stpi 1 2 5) mac_empty = Some (s', t') \<and> tp_state (port s' 0) = SDISCARDING"
  (is "\<exists>s' t'. stpi_handleBPDU 0 ?b ?s mac_empty = Some (s', t') \<and> _")
proof -
  obtain s' t' where h: "stpi_handleBPDU 0 ?b ?s mac_empty = Some (s', t')"
    using handleBPDU_total [of 0 ?s ?b mac_empty] by auto
  have "port ?s 0 = default_port\<lparr>tp_role := RDESIGNATED\<rparr>"
    by (rule new_stpi_ports(1) [of _ 1 2 5]) simp
  then have "pvec (bpdu_vector (port ?s 0) ?b) < pvec (port ?s 0)"
    by (simp add: pvec_def bpdu_vector_def default_port_def)
  with stp_bpdu_port_states [OF h wf_new, of 0] h show ?thesis by (auto simp: new_stpi_ports)
qed

text \<open>once the bridge priority differs from the one in use, the next tick replaces every port by
  the default one, so no port is designated or root port any more and none forwards (and the
  configured port priorities and link costs are gone).\<close>

theorem stp_priority_change_resets_ports:
  assumes "stpi_handleTick s t = Some (s', t')" and "stpi_wf s" and "s_ubridgePriority s \<noteq> s_bridgePriority s"
  shows "\<forall>i < s_portCount s. tp_role (port s' i) = RUNKNOWN \<and> tp_state (port s' i) = SDISCARDING \<and>
    tp_priority (port s' i) = 128 \<and> tp_linkCost (port s' i) = 19"
proof -
  have "s_portTable s' = replicate (s_portCount s) default_port"
    using handleTick_ports [OF assms(2,1)] assms(3) by metis
  then show ?thesis by (simp add: default_port_def)
qed

theorem stp_priority_change_resets_ports_witness:
  "\<exists>s' t'. stpi_handleTick ((new_stpi 1 2 5)\<lparr>s_bridgePriority := 4096\<rparr>) mac_empty = Some (s', t') \<and>
     tp_role (port s' 0) = RUNKNOWN"
proof -
  let ?s = "(new_stpi 1 2 5)\<lparr>s_bridgePriority := 4096\<rparr>"
  have wf: "stpi_wf ?s" using wf_new [of 1 2 5] by (simp add: stpi_wf_def ports_wf_def new_stpi_ports(2))
  obtain s' t' where h: "stpi_handleTick ?s mac_empty = Some (s', t')"
    using handleTick_total [OF wf, of mac_empty] by (auto simp: new_stpi_ports)
  have "s_ubridgePriority ?s \<noteq> s_bridgePriority ?s" by simp
  with stp_priority_change_resets_ports [OF h wf] h show ?thesis by (auto simp: new_stpi_ports)
qed

end
