(* ===== verification/Stp_Module.thy ===== *)
theory Stp_Module
  imports Stp_Properties
begin

text \<open>
  The spanning tree module, \<open>src/src/ansa/linklayer/switch/stp/stp.cc\<close>: one instance for each
  registered VLAN (\<open>instReg\<close> and \<open>inst\<close>, searched in parallel), the queries of the switch core
  (\<open>learning\<close>, \<open>forwarding\<close>), the messages and the tick, and the setters of the configuration.
  The MAC table the instances age is passed through; the messages an operation sends are returned
  with the index of the gate. \<open>None\<close> is an out-of-range access, which ends the run.
\<close>

section \<open>State\<close>

record stp_module =
  sm_portCount :: nat
  sm_bridgeAddress :: mac_addr
  sm_instReg :: "u32 list"
  sm_inst :: "stpi list"

type_synonym stp_out = "(nat \<times> stp_msg) list"

text \<open>\<open>getInstanceIndex\<close>; \<open>None\<close> is the -1 of the code.\<close>

definition sm_getInstanceIndex :: "u32 \<Rightarrow> stp_module \<Rightarrow> nat option" where
  "sm_getInstanceIndex v m =
     (let i = index_first (\<lambda>w. w = v) (sm_instReg m) in
      if i < length (sm_instReg m) then Some i else None)"

section \<open>Queries\<close>

definition sm_learning :: "nat \<Rightarrow> u32 \<Rightarrow> stp_module \<Rightarrow> bool option" where
  "sm_learning pno vlan m =
     (case sm_getInstanceIndex vlan m of
        None \<Rightarrow> Some False
      | Some i \<Rightarrow> do { s \<leftarrow> vec_at (sm_inst m) i; stpi_learning pno s })"

definition sm_forwarding :: "nat \<Rightarrow> u32 \<Rightarrow> stp_module \<Rightarrow> bool option" where
  "sm_forwarding pno vlan m =
     (case sm_getInstanceIndex vlan m of
        None \<Rightarrow> Some False
      | Some i \<Rightarrow> do { s \<leftarrow> vec_at (sm_inst m) i; stpi_forwarding pno s })"

section \<open>Sending what the instances have queued\<close>

definition sm_dispatch :: "nat \<Rightarrow> stp_module \<Rightarrow> (stp_out \<times> stp_module) option" where
  "sm_dispatch i m =
     do {
       s \<leftarrow> vec_at (sm_inst m) i;
       Some (s_msgList s, m\<lparr>sm_inst := (sm_inst m)[i := s\<lparr>s_msgList := []\<rparr>]\<rparr>)
     }"

fun sm_dispatches :: "nat list \<Rightarrow> stp_module \<Rightarrow> (stp_out \<times> stp_module) option" where
  "sm_dispatches [] m = Some ([], m)"
| "sm_dispatches (i # is) m =
     do {
       (out, m1) \<leftarrow> sm_dispatch i m;
       (out', m2) \<leftarrow> sm_dispatches is m1;
       Some (out @ out', m2)
     }"

definition sm_dispatchALL :: "stp_module \<Rightarrow> (stp_out \<times> stp_module) option" where
  "sm_dispatchALL m = sm_dispatches [0..<length (sm_inst m)] m"

section \<open>Messages\<close>

definition sm_handleBPDU :: "nat \<Rightarrow> stp_bpdu \<Rightarrow> stp_module \<Rightarrow> mac_table \<Rightarrow> (stp_out \<times> stp_module \<times> mac_table) option" where
  "sm_handleBPDU pno b m t =
     (case sm_getInstanceIndex (b_vlan b) m of
        None \<Rightarrow> Some ([], m, t)
      | Some i \<Rightarrow>
          do {
            s \<leftarrow> vec_at (sm_inst m) i;
            (s', t') \<leftarrow> stpi_handleBPDU pno b s t;
            (out, m') \<leftarrow> sm_dispatch i (m\<lparr>sm_inst := (sm_inst m)[i := s']\<rparr>);
            Some (out, m', t')
          })"

definition sm_handleTCN :: "u32 \<Rightarrow> stp_module \<Rightarrow> (stp_out \<times> stp_module) option" where
  "sm_handleTCN vlan m =
     (case sm_getInstanceIndex vlan m of
        None \<Rightarrow> Some ([], m)
      | Some i \<Rightarrow>
          do {
            s \<leftarrow> vec_at (sm_inst m) i;
            sm_dispatch i (m\<lparr>sm_inst := (sm_inst m)[i := stpi_handleTCN s]\<rparr>)
          })"

text \<open>The loop of the tick over the instances; all of them share the MAC table.\<close>

fun sm_ticks :: "stpi list \<Rightarrow> mac_table \<Rightarrow> (stpi list \<times> mac_table) option" where
  "sm_ticks [] t = Some ([], t)"
| "sm_ticks (s # ss) t =
     do {
       (s', t1) \<leftarrow> stpi_handleTick s t;
       (ss', t2) \<leftarrow> sm_ticks ss t1;
       Some (s' # ss', t2)
     }"

definition sm_handleSelfMessage :: "bool \<Rightarrow> stp_module \<Rightarrow> mac_table \<Rightarrow> (stp_out \<times> stp_module \<times> mac_table) option" where
  "sm_handleSelfMessage is_tick m t =
     do {
       (insts, t') \<leftarrow> (if is_tick then sm_ticks (sm_inst m) t else Some (sm_inst m, t));
       (out, m') \<leftarrow> sm_dispatchALL (m\<lparr>sm_inst := insts\<rparr>);
       Some (out, m', t')
     }"

datatype stp_event = Stp_In nat stp_msg | Stp_Rubbish | Stp_Self bool

fun sm_handleMessage :: "stp_event \<Rightarrow> stp_module \<Rightarrow> mac_table \<Rightarrow> (stp_out \<times> stp_module \<times> mac_table) option" where
  "sm_handleMessage (Stp_In pno (BPDU b)) m t = sm_handleBPDU pno b m t"
| "sm_handleMessage (Stp_In pno (TCN v)) m t = map_option (\<lambda>(out, m'). (out, m', t)) (sm_handleTCN v m)"
| "sm_handleMessage Stp_Rubbish m t = Some ([], m, t)"
| "sm_handleMessage (Stp_Self is_tick) m t = sm_handleSelfMessage is_tick m t"

section \<open>Configuration\<close>

definition sm_modify :: "nat \<Rightarrow> (stpi \<Rightarrow> stpi) \<Rightarrow> stp_module \<Rightarrow> stp_module option" where
  "sm_modify i f m =
     (if i < length (sm_inst m) then Some (m\<lparr>sm_inst := vec_modify i f (sm_inst m)\<rparr>) else None)"

definition sm_setBridgePriority :: "u32 \<Rightarrow> u32 \<Rightarrow> stp_module \<Rightarrow> stp_module option" where
  "sm_setBridgePriority v p m =
     (case sm_getInstanceIndex v m of
        None \<Rightarrow> Some m
      | Some i \<Rightarrow> sm_modify i (\<lambda>s. s\<lparr>s_bridgePriority := p\<rparr>) m)"

definition sm_setPortPriority1 :: "nat \<Rightarrow> nat \<Rightarrow> u32 \<Rightarrow> stp_module \<Rightarrow> stp_module option" where
  "sm_setPortPriority1 i pno p m =
     do {
       s \<leftarrow> vec_at (sm_inst m) i;
       _ \<leftarrow> vec_at (s_portTable s) pno;
       sm_modify i (s_modify_port pno (\<lambda>q. q\<lparr>tp_priority := p\<rparr>)) m
     }"

definition sm_setLinkCost1 :: "nat \<Rightarrow> nat \<Rightarrow> u32 \<Rightarrow> stp_module \<Rightarrow> stp_module option" where
  "sm_setLinkCost1 i pno c m =
     do {
       s \<leftarrow> vec_at (sm_inst m) i;
       _ \<leftarrow> vec_at (s_portTable s) pno;
       sm_modify i (s_modify_port pno (\<lambda>q. q\<lparr>tp_linkCost := c\<rparr>)) m
     }"

fun sm_set_list :: "(nat \<Rightarrow> u32 \<Rightarrow> stp_module \<Rightarrow> stp_module option) \<Rightarrow> (nat \<times> u32) list \<Rightarrow> stp_module \<Rightarrow> stp_module option" where
  "sm_set_list set1 [] m = Some m"
| "sm_set_list set1 ((pno, x) # l) m = Option.bind (set1 pno x m) (sm_set_list set1 l)"

definition sm_setPortPriority :: "u32 \<Rightarrow> nat list \<Rightarrow> u32 list \<Rightarrow> stp_module \<Rightarrow> stp_module option" where
  "sm_setPortPriority v ports pris m =
     (case sm_getInstanceIndex v m of
        None \<Rightarrow> Some m
      | Some i \<Rightarrow>
          if length ports \<noteq> length pris then Some m
          else sm_set_list (sm_setPortPriority1 i) (zip ports pris) m)"

definition sm_setLinkCost :: "u32 \<Rightarrow> nat list \<Rightarrow> u32 list \<Rightarrow> stp_module \<Rightarrow> stp_module option" where
  "sm_setLinkCost v ports costs m =
     (case sm_getInstanceIndex v m of
        None \<Rightarrow> Some m
      | Some i \<Rightarrow>
          if length ports \<noteq> length costs then Some m
          else sm_set_list (sm_setLinkCost1 i) (zip ports costs) m)"

definition sm_setForwardDelay :: "u32 \<Rightarrow> u32 \<Rightarrow> stp_module \<Rightarrow> stp_module option" where
  "sm_setForwardDelay v d m =
     (case sm_getInstanceIndex v m of
        None \<Rightarrow> Some m
      | Some i \<Rightarrow> sm_modify i (\<lambda>s. s\<lparr>s_fwdDelay := d\<rparr>) m)"

definition sm_setMaxAge :: "u32 \<Rightarrow> u32 \<Rightarrow> stp_module \<Rightarrow> stp_module option" where
  "sm_setMaxAge v a m =
     (case sm_getInstanceIndex v m of
        None \<Rightarrow> Some m
      | Some i \<Rightarrow> sm_modify i (\<lambda>s. s\<lparr>s_maxAge := a\<rparr>) m)"

definition sm_setHelloTime :: "u32 \<Rightarrow> u32 \<Rightarrow> stp_module \<Rightarrow> stp_module option" where
  "sm_setHelloTime v h m =
     (case sm_getInstanceIndex v m of
        None \<Rightarrow> Some m
      | Some i \<Rightarrow> sm_modify i (\<lambda>s. s\<lparr>s_helloTime := h\<rparr>) m)"

text \<open>The second stage of \<open>initialize\<close> before the configuration file.\<close>

definition sm_initialize :: "nat \<Rightarrow> mac_addr \<Rightarrow> u32 list \<Rightarrow> stp_module" where
  "sm_initialize n addr vlans =
     \<lparr>sm_portCount = n, sm_bridgeAddress = addr, sm_instReg = vlans,
      sm_inst = map (\<lambda>v. new_stpi v n addr) vlans\<rparr>"

section \<open>The module's invariant\<close>

text \<open>One instance per registered VLAN, all of them well-formed with \<open>portCount\<close> ports.\<close>

definition sm_wf :: "stp_module \<Rightarrow> bool" where
  "sm_wf m \<longleftrightarrow> length (sm_inst m) = length (sm_instReg m) \<and>
     (\<forall>s\<in>set (sm_inst m). stpi_wf s \<and> s_portCount s = sm_portCount m)"

lemma sm_index_less: "sm_getInstanceIndex v m = Some i \<Longrightarrow> i < length (sm_instReg m)"
  by (auto simp: sm_getInstanceIndex_def Let_def simp del: index_first_less_iff split: if_splits)

lemma sm_wf_update:
  "sm_wf m \<Longrightarrow> stpi_wf s \<Longrightarrow> s_portCount s = sm_portCount m \<Longrightarrow> sm_wf (m\<lparr>sm_inst := (sm_inst m)[i := s]\<rparr>)"
  using set_update_subset_insert [of "sm_inst m" i s] by (auto simp: sm_wf_def)

lemma sm_wf_dispatch:
  assumes "sm_dispatch i m = Some (out, m')" and "sm_wf m"
  shows "sm_wf m' \<and> sm_portCount m' = sm_portCount m \<and> sm_instReg m' = sm_instReg m"
proof -
  have i: "i < length (sm_inst m)" and m': "m' = m\<lparr>sm_inst := (sm_inst m)[i := (sm_inst m ! i)\<lparr>s_msgList := []\<rparr>]\<rparr>"
    using assms(1) by (auto simp: sm_dispatch_def vec_at_def split: if_splits)
  from i have "sm_inst m ! i \<in> set (sm_inst m)" by simp
  then have "stpi_wf ((sm_inst m ! i)\<lparr>s_msgList := []\<rparr>)" "s_portCount (sm_inst m ! i) = sm_portCount m"
    using assms(2) by (auto simp: sm_wf_def stpi_wf_def ports_wf_def)
  then show ?thesis unfolding m' using assms(2) by (simp add: sm_wf_update)
qed

lemma sm_wf_dispatches:
  "sm_dispatches is m = Some (out, m') \<Longrightarrow> sm_wf m \<Longrightarrow>
   sm_wf m' \<and> sm_portCount m' = sm_portCount m \<and> sm_instReg m' = sm_instReg m"
proof (induction "is" arbitrary: m out)
  case (Cons i "is")
  from Cons.prems(1) obtain o1 m1 o2 where d: "sm_dispatch i m = Some (o1, m1)" "sm_dispatches is m1 = Some (o2, m')"
    by (auto split: Option.bind_splits)
  from sm_wf_dispatch [OF d(1) Cons.prems(2)] Cons.IH [OF d(2)] show ?case by simp
qed simp

lemma handleBPDU_portCount: "stpi_handleBPDU i b s t = Some (s', t') \<Longrightarrow> s_portCount s' = s_portCount s"
proof -
  assume h: "stpi_handleBPDU i b s t = Some (s', t')"
  have "cfg (setSuperiorBPDU i b x) = cfg x" for x
    by (simp add: setSuperiorBPDU_def resetAge_def frame_simps)
  then have "cfg (snd (superiorBPDU i b s)) = cfg s"
    by (simp add: superiorBPDU_def Let_def setPortState_def resetFDWhile_def frame_simps)
  moreover have "cfg (fst (relayBPDU b x y)) = cfg x" for x y
    by (auto simp: relayBPDU_def Let_def frame_simps cfg_fold split: prod.splits)
  ultimately have "cfg s' = cfg s"
    using h by (auto simp: stpi_handleBPDU_def Let_def frame_simps split: if_splits prod.splits)
      (metis frame_simps fst_conv snd_conv)+
  then show ?thesis by (simp add: cfg_def)
qed

lemma handleTick_portCount:
  assumes "stpi_wf s" and "stpi_handleTick s t = Some (s', t')"
  shows "s_portCount s' = s_portCount s"
proof -
  obtain s2 d where "not_raised s s2" "s_portTable s' =
      (if s_ubridgePriority s = s_bridgePriority s then map (fwd_fun d) (s_portTable s2)
       else replicate (s_portCount s) default_port)"
    using handleTick_ports [OF assms] by metis
  moreover have "length (s_portTable s) = s_portCount s" "length (s_portTable s') = s_portCount s'"
    using assms(1) wf_handleTick [OF assms(2,1)] by (simp_all add: stpi_wf_def ports_wfD(1))
  ultimately show ?thesis by (auto simp: not_raised_def split: if_splits)
qed

lemma sm_wf_handleBPDU:
  assumes "sm_handleBPDU p b m t = Some (out, m', t')" and wf: "sm_wf m"
  shows "sm_wf m' \<and> sm_portCount m' = sm_portCount m"
proof (cases "sm_getInstanceIndex (b_vlan b) m")
  case None
  then show ?thesis using assms by (simp add: sm_handleBPDU_def)
next
  case (Some i)
  then have i: "i < length (sm_inst m)" using wf by (simp add: sm_index_less sm_wf_def)
  with Some assms(1) obtain s' where h: "stpi_handleBPDU p b (sm_inst m ! i) t = Some (s', t')"
    and d: "sm_dispatch i (m\<lparr>sm_inst := (sm_inst m)[i := s']\<rparr>) = Some (out, m')"
    by (auto simp: sm_handleBPDU_def split: Option.bind_splits)
  have s: "stpi_wf (sm_inst m ! i)" "s_portCount (sm_inst m ! i) = sm_portCount m"
    using wf i by (auto simp: sm_wf_def)
  then have "sm_wf (m\<lparr>sm_inst := (sm_inst m)[i := s']\<rparr>)"
    using wf_handleBPDU [OF h] handleBPDU_portCount [OF h] by (intro sm_wf_update wf) auto
  then show ?thesis using sm_wf_dispatch [OF d] by simp
qed

lemma sm_wf_handleTCN:
  assumes "sm_handleTCN v m = Some (out, m')" and wf: "sm_wf m"
  shows "sm_wf m' \<and> sm_portCount m' = sm_portCount m"
proof (cases "sm_getInstanceIndex v m")
  case (Some i)
  then have i: "i < length (sm_inst m)" using wf by (simp add: sm_index_less sm_wf_def)
  have s: "stpi_wf (sm_inst m ! i)" "s_portCount (sm_inst m ! i) = sm_portCount m"
    using wf i by (auto simp: sm_wf_def)
  then have "sm_wf (m\<lparr>sm_inst := (sm_inst m)[i := stpi_handleTCN (sm_inst m ! i)]\<rparr>)"
    by (intro sm_wf_update wf wf_handleTCN) (simp_all add: stpi_handleTCN_def)
  then show ?thesis
    using sm_wf_dispatch [of i "m\<lparr>sm_inst := (sm_inst m)[i := stpi_handleTCN (sm_inst m ! i)]\<rparr>" out m']
      assms(1) Some i by (simp add: sm_handleTCN_def)
qed (use assms in \<open>simp add: sm_handleTCN_def\<close>)

lemma sm_ticks_wf:
  "sm_ticks ss t = Some (ss', t') \<Longrightarrow> \<forall>s\<in>set ss. stpi_wf s \<and> s_portCount s = n \<Longrightarrow>
   length ss' = length ss \<and> (\<forall>s\<in>set ss'. stpi_wf s \<and> s_portCount s = n)"
proof (induction ss arbitrary: t ss')
  case (Cons s ss)
  from Cons.prems(1) obtain s' t1 ss1 where h: "stpi_handleTick s t = Some (s', t1)" "sm_ticks ss t1 = Some (ss1, t')"
      "ss' = s' # ss1"
    by (auto split: Option.bind_splits)
  show ?case
    using Cons.IH [OF h(2)] Cons.prems(2) wf_handleTick [OF h(1)] handleTick_portCount [OF _ h(1)] h(3) by simp
qed simp

lemma sm_ticks_total:
  "\<forall>s\<in>set ss. stpi_wf s \<and> 0 < s_portCount s \<Longrightarrow> \<exists>ss' t'. sm_ticks ss t = Some (ss', t')"
proof (induction ss arbitrary: t)
  case (Cons s ss)
  then obtain s' t1 where "stpi_handleTick s t = Some (s', t1)" using handleTick_total by fastforce
  moreover obtain ss' t' where "sm_ticks ss t1 = Some (ss', t')" using Cons by fastforce
  ultimately show ?case by simp
qed simp

lemma sm_wf_handleMessage:
  assumes "sm_handleMessage e m t = Some (out, m', t')" and wf: "sm_wf m"
  shows "sm_wf m' \<and> sm_portCount m' = sm_portCount m"
proof (cases "(e, m, t)" rule: sm_handleMessage.cases)
  case (1 p b m t)
  then show ?thesis using assms sm_wf_handleBPDU by simp
next
  case (2 p v m t)
  then show ?thesis using assms sm_wf_handleTCN by auto
next
  case (4 is_tick ma ta)
  then obtain insts t1 where i: "(if is_tick then sm_ticks (sm_inst m) t else Some (sm_inst m, t)) = Some (insts, t1)"
    using assms(1) by (auto simp: sm_handleSelfMessage_def split: Option.bind_splits)
  have "sm_wf (m\<lparr>sm_inst := insts\<rparr>)"
    using i wf sm_ticks_wf [of "sm_inst m" t insts t1 "sm_portCount m"] by (auto simp: sm_wf_def split: if_splits)
  moreover obtain out1 where "sm_dispatchALL (m\<lparr>sm_inst := insts\<rparr>) = Some (out1, m')"
    using assms(1) i 4 by (auto simp: sm_handleSelfMessage_def split: Option.bind_splits)
  ultimately show ?thesis unfolding sm_dispatchALL_def using sm_wf_dispatches by fastforce
qed (use assms in simp)

lemma sm_wf_initialize: "sm_wf (sm_initialize n addr vlans)"
  by (auto simp: sm_wf_def sm_initialize_def wf_new new_stpi_ports)

text \<open>On a well-formed module the queries of the switch core answer for every existing port.\<close>

lemma sm_queries:
  assumes "sm_wf m" and "p < sm_portCount m"
  shows "\<exists>l. sm_learning p v m = Some l" and "\<exists>f. sm_forwarding p v m = Some f"
    and "sm_forwarding p v m = Some True \<Longrightarrow> sm_learning p v m = Some True"
proof -
  have "(\<exists>l. sm_learning p v m = Some l) \<and> (\<exists>f. sm_forwarding p v m = Some f) \<and>
    (sm_forwarding p v m = Some True \<longrightarrow> sm_learning p v m = Some True)"
  proof (cases "sm_getInstanceIndex v m")
    case (Some i)
    then have i: "i < length (sm_inst m)" using assms by (simp add: sm_index_less sm_wf_def)
    then have "stpi_wf (sm_inst m ! i)" "s_portCount (sm_inst m ! i) = sm_portCount m"
      using assms(1) by (auto simp: sm_wf_def)
    then have "p < length (s_portTable (sm_inst m ! i))" "port_ok (port (sm_inst m ! i) p)"
      using assms(2) by (auto simp: stpi_wf_def ports_wf_def)
    then show ?thesis
      using Some i by (auto simp: sm_learning_def sm_forwarding_def stpi_learning_def stpi_forwarding_def port_ok_def)
  qed (auto simp: sm_learning_def sm_forwarding_def)
  then show "\<exists>l. sm_learning p v m = Some l" "\<exists>f. sm_forwarding p v m = Some f"
    "sm_forwarding p v m = Some True \<Longrightarrow> sm_learning p v m = Some True" by blast+
qed

section \<open>The gate the spanning tree puts before the ports\<close>

text \<open>What the switch core asks of the spanning tree: for an existing port of a well-formed module
  both questions have an answer, and a port that forwards also learns.\<close>

locale port_gate =
  fixes wf_op :: "'m \<Rightarrow> bool"
    and ports_op :: "'m \<Rightarrow> nat"
    and learning_op forwarding_op :: "nat \<Rightarrow> 'v \<Rightarrow> 'm \<Rightarrow> bool option"
  assumes learning_answers: "wf_op m \<Longrightarrow> p < ports_op m \<Longrightarrow> \<exists>l. learning_op p v m = Some l"
    and forwarding_answers: "wf_op m \<Longrightarrow> p < ports_op m \<Longrightarrow> \<exists>f. forwarding_op p v m = Some f"
    and forwards_learns: "wf_op m \<Longrightarrow> p < ports_op m \<Longrightarrow> forwarding_op p v m = Some True \<Longrightarrow>
      learning_op p v m = Some True"
begin

lemma not_learning_not_forwarding:
  "wf_op m \<Longrightarrow> p < ports_op m \<Longrightarrow> learning_op p v m = Some False \<Longrightarrow> forwarding_op p v m = Some False"
  using forwarding_answers [of m p v] forwards_learns [of m p v] by (metis (full_types) option.inject)

lemma answers_both: "wf_op m \<Longrightarrow> p < ports_op m \<Longrightarrow>
    \<exists>l f. learning_op p v m = Some l \<and> forwarding_op p v m = Some f \<and> (f \<longrightarrow> l)"
  using learning_answers [of m p v] forwarding_answers [of m p v] forwards_learns [of m p v] by fastforce

end

interpretation stp_gate: port_gate sm_wf sm_portCount sm_learning sm_forwarding
  by unfold_locales (simp_all add: sm_queries)

end
