(* ===== verification/Vlan_Table.thy ===== *)
theory Vlan_Table
  imports Ansa_Prelude
begin

text \<open>
  The VLAN table, \<open>src/src/ansa/linklayer/switch/vlanTable.cc\<close>: for each VLAN ID the ports that
  carry it, each with a tag action, for each port the VLAN its untagged frames belong to, and the
  list of registered VLANs. A row whose \<open>VID\<close> differs from its index is an inactive VLAN.
\<close>

section \<open>Data\<close>

datatype tag_action = REMOVE_TAG | INCLUDE_TAG | NO_ACTION

record vid_port =
  vp_port :: int
  vp_action :: tag_action

record vid_record =
  vr_VID :: int
  vr_name :: string
  vr_portList :: "vid_port list"

record port_vid =
  pv_port :: int
  pv_VID :: int

record vlan_table =
  vt_vidTable :: "vid_record list"
  vt_portVIDTable :: "port_vid list"
  vt_vlanList :: "u32 list"
  vt_portCount :: int

definition emptyVID :: vid_record where
  "emptyVID = \<lparr>vr_VID = 0, vr_name = '''', vr_portList = []\<rparr>"

text \<open>A signed VLAN or port number used as an index: a negative one becomes a \<open>size_t\<close> beyond
  any vector, so \<open>at\<close> throws.\<close>

definition int_at :: "'a list \<Rightarrow> int \<Rightarrow> 'a option" where
  "int_at xs i = (if i < 0 then None else vec_at xs (nat i))"

section \<open>Lookups\<close>

text \<open>The guard \<open>vidTable.size() < VID+1\<close>: the right side is converted to \<open>size_t\<close>.\<close>

definition vt_beyond :: "int \<Rightarrow> vlan_table \<Rightarrow> bool" where
  "vt_beyond VID t \<longleftrightarrow> length (vt_vidTable t) < unat (word_of_int (VID + 1) :: u64)"

definition vt_getPorts :: "int \<Rightarrow> vlan_table \<Rightarrow> vid_port list option" where
  "vt_getPorts VID t =
     (if vt_beyond VID t then Some []
      else do {
        r \<leftarrow> int_at (vt_vidTable t) VID;
        if vr_VID r \<noteq> VID then Some [] else Some (vr_portList r)
      })"

definition vt_getVID :: "int \<Rightarrow> vlan_table \<Rightarrow> int result" where
  "vt_getVID port t =
     (if port < 0 then Inl (Runtime_Error ''negative port number'')
      else if port > vt_portCount t then Inl (Runtime_Error ''Portnumber is exceeds port count in getVID'')
      else (case int_at (vt_portVIDTable t) port of
              None \<Rightarrow> Inl Out_Of_Range
            | Some r \<Rightarrow> Inr (pv_VID r)))"

definition vt_isAllowed :: "int \<Rightarrow> int \<Rightarrow> vlan_table \<Rightarrow> bool option" where
  "vt_isAllowed VID port t =
     (if vt_beyond VID t then Some False
      else do {
        tmp \<leftarrow> int_at (vt_vidTable t) VID;
        if vr_VID tmp \<noteq> VID then Some False
        else Some (\<exists>vp\<in>set (vr_portList tmp). vp_port vp = port)
      })"

definition vt_getTag :: "int \<Rightarrow> int \<Rightarrow> vlan_table \<Rightarrow> tag_action result" where
  "vt_getTag VID port t =
     (case int_at (vt_vidTable t) VID of
        None \<Rightarrow> Inl Out_Of_Range
      | Some tmp \<Rightarrow>
          if vr_VID tmp \<noteq> VID then Inl (Runtime_Error ''query for includeTag on non active vlan'')
          else (case find (\<lambda>vp. vp_port vp = port) (vr_portList tmp) of
                  Some vp \<Rightarrow> Inr (vp_action vp)
                | None \<Rightarrow> Inl (Runtime_Error ''query for includeTag on non existing (VID, PORT)'')))"

section \<open>Management\<close>

definition vt_row_modify :: "int \<Rightarrow> (vid_record \<Rightarrow> vid_record) \<Rightarrow> vlan_table \<Rightarrow> vlan_table option" where
  "vt_row_modify VID f t =
     (if 0 \<le> VID \<and> nat VID < length (vt_vidTable t)
      then Some (t\<lparr>vt_vidTable := vec_modify (nat VID) f (vt_vidTable t)\<rparr>) else None)"

definition vt_add :: "int \<Rightarrow> vid_port list \<Rightarrow> vlan_table \<Rightarrow> vlan_table option" where
  "vt_add VID ports t = vt_row_modify VID (\<lambda>r. r\<lparr>vr_VID := VID, vr_portList := ports\<rparr>) t"

text \<open>The nested loops of \<open>addTagged\<close> and \<open>addUntagged\<close>: a port already in the list gets the new
  action, a new one is appended.\<close>

fun vt_set_actions :: "tag_action \<Rightarrow> int list \<Rightarrow> vid_port list \<Rightarrow> vid_port list" where
  "vt_set_actions act [] cur = cur"
| "vt_set_actions act (p # ps) cur =
     (let c = index_first (\<lambda>vp. vp_port vp = p) cur;
          cur1 = update_first (\<lambda>vp. vp_port vp = p) (\<lambda>vp. vp\<lparr>vp_action := act\<rparr>) cur;
          cur2 = (if c = length cur then cur1 @ [\<lparr>vp_port = p, vp_action = act\<rparr>] else cur1)
      in vt_set_actions act ps cur2)"

definition vt_addTagged :: "int \<Rightarrow> int list \<Rightarrow> vlan_table \<Rightarrow> vlan_table option" where
  "vt_addTagged VID ports t =
     vt_row_modify VID
       (\<lambda>r. r\<lparr>vr_VID := VID, vr_portList := vt_set_actions INCLUDE_TAG ports (vr_portList r)\<rparr>) t"

definition vt_addUntagged :: "int \<Rightarrow> int list \<Rightarrow> vlan_table \<Rightarrow> vlan_table option" where
  "vt_addUntagged VID ports t =
     vt_row_modify VID
       (\<lambda>r. r\<lparr>vr_VID := VID, vr_portList := vt_set_actions REMOVE_TAG ports (vr_portList r)\<rparr>) t"

definition vt_setVLANName :: "int \<Rightarrow> string \<Rightarrow> vlan_table \<Rightarrow> vlan_table option" where
  "vt_setVLANName VID name t = vt_row_modify VID (\<lambda>r. r\<lparr>vr_name := name\<rparr>) t"

text \<open>The loop of \<open>extendTable\<close>: rows are appended while \<open>vidTable.size() < (unsigned int) VLAN+2\<close>.\<close>

function vt_extend_rows :: "nat \<Rightarrow> vid_record list \<Rightarrow> vid_record list" where
  "vt_extend_rows n rows = (if length rows < n then vt_extend_rows n (rows @ [emptyVID]) else rows)"
  by pat_completeness auto
termination
  by (relation "measure (\<lambda>(n, rows). n - length rows)") auto

declare vt_extend_rows.simps [simp del]

definition vt_extendTable :: "int \<Rightarrow> vlan_table \<Rightarrow> vlan_table" where
  "vt_extendTable VLAN t =
     t\<lparr>vt_vidTable := vt_extend_rows (unat (word_of_int VLAN + 2 :: u32)) (vt_vidTable t)\<rparr>"

definition vt_setPortVID :: "int \<Rightarrow> int \<Rightarrow> vlan_table \<Rightarrow> vlan_table option" where
  "vt_setPortVID port VID t =
     (if 0 \<le> port \<and> nat port < length (vt_portVIDTable t)
      then Some (t\<lparr>vt_portVIDTable :=
                   vec_modify (nat port) (\<lambda>r. r\<lparr>pv_port := port, pv_VID := VID\<rparr>) (vt_portVIDTable t)\<rparr>)
      else None)"

definition vt_addPortVID :: "int \<Rightarrow> int \<Rightarrow> vlan_table \<Rightarrow> vlan_table option" where
  "vt_addPortVID port VID t =
     do {
       t1 \<leftarrow> vt_setPortVID port VID t;
       vt_addUntagged VID [port] (vt_extendTable VID t1)
     }"

definition vt_delPort :: "int \<Rightarrow> int \<Rightarrow> vlan_table \<Rightarrow> vlan_table option" where
  "vt_delPort port VID t =
     vt_row_modify VID (\<lambda>r. r\<lparr>vr_portList := erase_first (\<lambda>vp. vp_port vp = port) (vr_portList r)\<rparr>) t"

definition vt_regVLAN :: "u32 \<Rightarrow> vlan_table \<Rightarrow> vlan_table" where
  "vt_regVLAN vlan t =
     (if vlan \<in> set (vt_vlanList t) then t else t\<lparr>vt_vlanList := vt_vlanList t @ [vlan]\<rparr>)"

fun vt_addPortVIDs :: "int list \<Rightarrow> int \<Rightarrow> vlan_table \<Rightarrow> vlan_table option" where
  "vt_addPortVIDs [] VID t = Some t"
| "vt_addPortVIDs (p # ps) VID t = Option.bind (vt_addPortVID p VID t) (vt_addPortVIDs ps VID)"

definition vt_initDefault :: "vlan_table \<Rightarrow> vlan_table option" where
  "vt_initDefault t =
     vt_addPortVIDs (map int [0..<unat (word_of_int (vt_portCount t) :: u32)]) 1
       (vt_extendTable 1 (vt_regVLAN 1 t))"

text \<open>The part of \<open>initialize\<close> before the configuration: \<open>portCount\<close> ports in VLAN 0, no VLAN rows.\<close>

definition vt_initialize :: "int \<Rightarrow> vlan_table option" where
  "vt_initialize n =
     vt_initDefault \<lparr>vt_vidTable = [], vt_portVIDTable = replicate (nat n) \<lparr>pv_port = 0, pv_VID = 0\<rparr>,
                     vt_vlanList = [], vt_portCount = n\<rparr>"

section \<open>The action of a port in a VLAN\<close>

definition action_of :: "vid_port list \<Rightarrow> int \<Rightarrow> tag_action option" where
  "action_of ports p = map_option vp_action (find (\<lambda>vp. vp_port vp = p) ports)"

lemma action_of_Nil [simp]: "action_of [] p = None"
  by (simp add: action_of_def)

lemma action_of_Cons [simp]:
  "action_of (vp # ports) p = (if vp_port vp = p then Some (vp_action vp) else action_of ports p)"
  by (simp add: action_of_def)

lemma action_of_append:
  "action_of (xs @ ys) p = (case action_of xs p of None \<Rightarrow> action_of ys p | Some a \<Rightarrow> Some a)"
  by (induction xs) auto

lemma action_of_None_iff: "action_of ports p = None \<longleftrightarrow> p \<notin> vp_port ` set ports"
  by (induction ports) auto

lemma action_of_update_first:
  "action_of (update_first (\<lambda>vp. vp_port vp = q) (\<lambda>vp. vp\<lparr>vp_action := act\<rparr>) ports) p =
     (if p = q \<and> action_of ports p \<noteq> None then Some act else action_of ports p)"
  by (induction ports) auto

lemma action_of_set_actions:
  "action_of (vt_set_actions act ps cur) p = (if p \<in> set ps then Some act else action_of cur p)"
proof (induction ps arbitrary: cur)
  case (Cons q ps)
  show ?case
  proof (cases "\<exists>vp\<in>set cur. vp_port vp = q")
    case True
    then have "action_of cur q \<noteq> None" by (auto simp: action_of_None_iff)
    with True Cons.IH show ?thesis by (auto simp: Let_def action_of_update_first)
  next
    case False
    then have "action_of cur q = None" by (auto simp: action_of_None_iff)
    with False Cons.IH show ?thesis
      by (auto simp: Let_def action_of_append action_of_update_first split: option.splits)
  qed
qed simp

lemma ports_update_first_action:
  "map vp_port (update_first (\<lambda>vp. vp_port vp = q) (\<lambda>vp. vp\<lparr>vp_action := act\<rparr>) ports) = map vp_port ports"
  by (rule map_update_first) simp

lemma distinct_set_actions:
  "distinct (map vp_port cur) \<Longrightarrow> distinct (map vp_port (vt_set_actions act ps cur))"
proof (induction ps arbitrary: cur)
  case (Cons q ps)
  let ?cur1 = "update_first (\<lambda>vp. vp_port vp = q) (\<lambda>vp. vp\<lparr>vp_action := act\<rparr>) cur"
  have "distinct (map vp_port ?cur1)"
    using Cons.prems by (simp add: ports_update_first_action)
  moreover have "\<forall>x\<in>set cur. vp_port x \<noteq> q \<Longrightarrow> q \<notin> vp_port ` set ?cur1"
    using ports_update_first_action [of q act cur] by (metis (no_types, lifting) imageE list.set_map)
  ultimately show ?case
    using Cons.IH by (auto simp: Let_def)
qed simp

lemma vt_extend_rows_replicate: "vt_extend_rows n rows = rows @ replicate (n - length rows) emptyVID"
proof (induction n rows rule: vt_extend_rows.induct)
  case (1 n rows)
  show ?case
  proof (cases "length rows < n")
    case True
    then have "replicate (n - length rows) emptyVID = emptyVID # replicate (n - Suc (length rows)) emptyVID"
      by (metis Suc_diff_Suc replicate_Suc)
    with True 1 show ?thesis by (simp add: vt_extend_rows.simps [of n rows])
  qed (simp add: vt_extend_rows.simps [of n rows])
qed

section \<open>Well-formed tables\<close>

definition vt_wf :: "vlan_table \<Rightarrow> bool" where
  "vt_wf t \<longleftrightarrow> (\<forall>r\<in>set (vt_vidTable t). distinct (map vp_port (vr_portList r)))"

lemma vt_row_modify_wf:
  assumes "vt_row_modify VID f t = Some t'" and "vt_wf t"
    and "\<And>r. distinct (map vp_port (vr_portList r)) \<Longrightarrow> distinct (map vp_port (vr_portList (f r)))"
  shows "vt_wf t'"
proof -
  have "set (vec_modify (nat VID) f (vt_vidTable t))
      \<subseteq> insert (f (vt_vidTable t ! nat VID)) (set (vt_vidTable t))"
    unfolding vec_modify_def by (rule set_update_subset_insert)
  with assms show ?thesis
    by (fastforce simp: vt_row_modify_def vt_wf_def split: if_splits)
qed

lemma vt_wf_extendTable [wf_intros]: "vt_wf t \<Longrightarrow> vt_wf (vt_extendTable VLAN t)"
  by (auto simp: vt_wf_def vt_extendTable_def vt_extend_rows_replicate emptyVID_def)

lemma vt_wf_addTagged [wf_intros]: "vt_addTagged VID ps t = Some t' \<Longrightarrow> vt_wf t \<Longrightarrow> vt_wf t'"
  unfolding vt_addTagged_def by (erule vt_row_modify_wf) (simp_all add: distinct_set_actions)

lemma vt_wf_addUntagged [wf_intros]: "vt_addUntagged VID ps t = Some t' \<Longrightarrow> vt_wf t \<Longrightarrow> vt_wf t'"
  unfolding vt_addUntagged_def by (erule vt_row_modify_wf) (simp_all add: distinct_set_actions)

lemma vt_wf_delPort [wf_intros]: "vt_delPort p VID t = Some t' \<Longrightarrow> vt_wf t \<Longrightarrow> vt_wf t'"
  unfolding vt_delPort_def by (erule vt_row_modify_wf) (simp_all add: distinct_map_erase_first)

lemma vt_wf_setVLANName [wf_intros]: "vt_setVLANName VID n t = Some t' \<Longrightarrow> vt_wf t \<Longrightarrow> vt_wf t'"
  unfolding vt_setVLANName_def by (erule vt_row_modify_wf) simp_all

lemma vt_wf_setPortVID [wf_intros]: "vt_setPortVID p VID t = Some t' \<Longrightarrow> vt_wf t \<Longrightarrow> vt_wf t'"
  by (auto simp: vt_setPortVID_def vt_wf_def split: if_splits)

lemma vt_wf_addPortVID [wf_intros]: "vt_addPortVID p VID t = Some t' \<Longrightarrow> vt_wf t \<Longrightarrow> vt_wf t'"
  by (auto simp: vt_addPortVID_def split: Option.bind_splits intro: wf_intros)

lemma vt_wf_regVLAN [wf_intros]: "vt_wf t \<Longrightarrow> vt_wf (vt_regVLAN v t)"
  by (auto simp: vt_regVLAN_def vt_wf_def)

section \<open>Rows after a change\<close>

lemma unat_vlan: "0 \<le> v \<Longrightarrow> v < 2 ^ 31 \<Longrightarrow> unat (word_of_int v + 2 :: u32) = nat v + 2"
  using unat_of_int_u32 [of "v + 2"] by (simp add: nat_add_distrib)

lemma unat_vid64: "0 \<le> v \<Longrightarrow> v < 2 ^ 31 \<Longrightarrow> unat (word_of_int v + 1 :: u64) = nat v + 1"
  using unat_of_int_u64 [of "v + 1"] by (simp add: nat_add_distrib)

definition vt_row :: "int \<Rightarrow> vlan_table \<Rightarrow> vid_record option" where
  "vt_row VID t = (if 0 \<le> VID then vec_at (vt_vidTable t) (nat VID) else None)"

lemma vt_row_modify_row:
  assumes "vt_row_modify VID f t = Some t'"
  shows "vt_row V t' = (if V = VID then map_option f (vt_row V t) else vt_row V t)"
  using assms by (auto simp: vt_row_modify_def vt_row_def vec_at_def nth_vec_modify split: if_splits)

lemma vt_row_extend:
  assumes "0 \<le> VID" and "VID < 2 ^ 31"
  shows "\<exists>r. vt_row VID (vt_extendTable VID t) = Some r"
  using assms
  by (simp add: vt_row_def vt_extendTable_def vt_extend_rows_replicate vec_at_def unat_vlan)

lemma vt_row_modify_Some: "vt_row VID t = Some r \<Longrightarrow> \<exists>t'. vt_row_modify VID f t = Some t'"
  by (auto simp: vt_row_modify_def vt_row_def vec_at_def split: if_splits)

lemma vt_row_lookups:
  assumes "vt_row VID t = Some r" and "vr_VID r = VID" and "VID < 2 ^ 31"
  shows "vt_getPorts VID t = Some (vr_portList r)"
    and "vt_isAllowed VID p t = Some (p \<in> vp_port ` set (vr_portList r))"
    and "action_of (vr_portList r) p = Some a \<Longrightarrow> vt_getTag VID p t = Inr a"
proof -
  have "0 \<le> VID" and len: "nat VID < length (vt_vidTable t)" and r: "vt_vidTable t ! nat VID = r"
    using assms(1) by (auto simp: vt_row_def vec_at_def split: if_splits)
  then have nb: "\<not> vt_beyond VID t" and at: "int_at (vt_vidTable t) VID = Some r"
    using assms by (simp_all add: vt_beyond_def unat_vid64 int_at_def)
  show "vt_getPorts VID t = Some (vr_portList r)"
    using nb at assms by (simp add: vt_getPorts_def)
  show "vt_isAllowed VID p t = Some (p \<in> vp_port ` set (vr_portList r))"
    using nb at assms by (auto simp: vt_isAllowed_def)
  show "action_of (vr_portList r) p = Some a \<Longrightarrow> vt_getTag VID p t = Inr a"
    using at assms by (auto simp: vt_getTag_def action_of_def)
qed

lemma vt_allowed_iff_in_ports:
  "vt_isAllowed VID p t = map_option (\<lambda>ps. p \<in> vp_port ` set ps) (vt_getPorts VID t)"
  by (cases "int_at (vt_vidTable t) VID") (auto simp: vt_isAllowed_def vt_getPorts_def)

section \<open>Adding and removing ports\<close>

lemma vt_row_setPortVID: "vt_setPortVID p VID t = Some t' \<Longrightarrow> vt_row V t' = vt_row V t"
  by (auto simp: vt_setPortVID_def vt_row_def split: if_splits)

lemma vt_row_extend_other:
  "vt_row V (vt_extendTable VID t) =
     (case vt_row V t of
        Some r \<Rightarrow> Some r
      | None \<Rightarrow> if 0 \<le> V \<and> nat V < unat (word_of_int VID + 2 :: u32) then Some emptyVID else None)"
  by (auto simp: vt_row_def vt_extendTable_def vt_extend_rows_replicate vec_at_def nth_append)

lemma vt_allowed_row:
  assumes "0 \<le> V" and "V < 2 ^ 31"
  shows "vt_isAllowed V p t = Some (case vt_row V t of
      None \<Rightarrow> False | Some r \<Rightarrow> vr_VID r = V \<and> p \<in> vp_port ` set (vr_portList r))"
proof -
  have "vt_beyond V t \<longleftrightarrow> \<not> nat V < length (vt_vidTable t)"
    using assms by (simp add: vt_beyond_def unat_vid64 not_less less_Suc_eq_le)
  then show ?thesis
    using assms by (auto simp: vt_isAllowed_def vt_row_def int_at_def vec_at_def)
qed

lemma vt_addPortVID_steps:
  assumes "0 \<le> p" and "nat p < length (vt_portVIDTable t)" and "0 \<le> VID" and "VID < 2 ^ 31"
  obtains t1 t' r where "vt_setPortVID p VID t = Some t1" "vt_addPortVID p VID t = Some t'"
    "vt_row VID (vt_extendTable VID t1) = Some r"
    "vt_portVIDTable t' = vt_portVIDTable t1" "vt_portCount t' = vt_portCount t" "vt_vlanList t' = vt_vlanList t"
    "\<And>V. vt_row V t' = (if V = VID then Some (r\<lparr>vr_VID := VID, vr_portList := vt_set_actions REMOVE_TAG [p] (vr_portList r)\<rparr>)
                       else vt_row V (vt_extendTable VID t1))"
proof -
  obtain t1 where t1: "vt_setPortVID p VID t = Some t1" using assms by (simp add: vt_setPortVID_def)
  obtain r where r: "vt_row VID (vt_extendTable VID t1) = Some r" using vt_row_extend assms by blast
  obtain t' where t': "vt_addUntagged VID [p] (vt_extendTable VID t1) = Some t'"
    using vt_row_modify_Some [OF r] unfolding vt_addUntagged_def by blast
  have same: "vt_portVIDTable t' = vt_portVIDTable t1" "vt_portCount t' = vt_portCount t" "vt_vlanList t' = vt_vlanList t"
    using t1 t' by (auto simp: vt_addUntagged_def vt_row_modify_def vt_extendTable_def vt_setPortVID_def split: if_splits)
  have row: "vt_row V t' = (if V = VID then Some (r\<lparr>vr_VID := VID, vr_portList := vt_set_actions REMOVE_TAG [p] (vr_portList r)\<rparr>)
                       else vt_row V (vt_extendTable VID t1))" for V
    using vt_row_modify_row [OF t' [unfolded vt_addUntagged_def], of V] r by auto
  have "vt_addPortVID p VID t = Some t'" by (simp add: vt_addPortVID_def t1 t')
  from that [OF t1 this r same row] show ?thesis .
qed

lemma vt_addPortVID_total:
  "0 \<le> p \<Longrightarrow> nat p < length (vt_portVIDTable t) \<Longrightarrow> 0 \<le> VID \<Longrightarrow> VID < 2 ^ 31 \<Longrightarrow>
   \<exists>t'. vt_addPortVID p VID t = Some t'"
  by (rule vt_addPortVID_steps) auto

section \<open>Properties\<close>

text \<open>making a port an access port of a VLAN succeeds for every port and VLAN number; the port's
  untagged frames then belong to that VLAN, the VLAN carries the port untagged, the ports it carried
  stay in it, and no other VLAN or port changes.\<close>

theorem vlan_access_port:
  assumes "0 \<le> p" and "p < vt_portCount t" and "length (vt_portVIDTable t) = nat (vt_portCount t)"
    and "0 \<le> VID" and "VID < 2 ^ 31"
  shows "\<exists>t'. vt_addPortVID p VID t = Some t' \<and> vt_getVID p t' = Inr VID \<and>
    vt_isAllowed VID p t' = Some True \<and> vt_getTag VID p t' = Inr REMOVE_TAG \<and>
    (\<forall>q. vt_isAllowed VID q t = Some True \<longrightarrow> vt_isAllowed VID q t' = Some True) \<and>
    (\<forall>q. 0 \<le> q \<and> q \<noteq> p \<longrightarrow> vt_getVID q t' = vt_getVID q t) \<and>
    (\<forall>V q. 0 \<le> V \<and> V < 2 ^ 31 \<and> V \<noteq> VID \<longrightarrow> vt_isAllowed V q t' = vt_isAllowed V q t)"
proof -
  have p: "nat p < length (vt_portVIDTable t)" using assms(1-3) by linarith
  obtain t1 t' r where t1: "vt_setPortVID p VID t = Some t1" and t': "vt_addPortVID p VID t = Some t'"
    and r: "vt_row VID (vt_extendTable VID t1) = Some r"
    and same: "vt_portVIDTable t' = vt_portVIDTable t1" "vt_portCount t' = vt_portCount t"
      "vt_vlanList t' = vt_vlanList t"
    and row: "\<And>V. vt_row V t' = (if V = VID then Some (r\<lparr>vr_VID := VID, vr_portList := vt_set_actions REMOVE_TAG [p] (vr_portList r)\<rparr>)
                       else vt_row V (vt_extendTable VID t1))"
    using vt_addPortVID_steps [OF assms(1) p assms(4,5)] by blast
  define r' where "r' = r\<lparr>vr_VID := VID, vr_portList := vt_set_actions REMOVE_TAG [p] (vr_portList r)\<rparr>"
  have row': "vt_row VID t' = Some r'" "vr_VID r' = VID" by (simp_all add: row r'_def)
  have act: "action_of (vr_portList r') q = (if q = p then Some REMOVE_TAG else action_of (vr_portList r) q)" for q
    unfolding r'_def using action_of_set_actions [of REMOVE_TAG "[p]" "vr_portList r" q] by simp
  have table: "vt_portVIDTable t1 = vec_modify (nat p) (\<lambda>r. r\<lparr>pv_port := p, pv_VID := VID\<rparr>) (vt_portVIDTable t)"
    using t1 by (auto simp: vt_setPortVID_def split: if_splits)
  have "vt_getVID p t' = Inr VID"
    using assms(1,2) p by (simp add: vt_getVID_def same table int_at_def)
  moreover have "vt_getVID q t' = vt_getVID q t" if "0 \<le> q" "q \<noteq> p" for q
  proof -
    have "nat p \<noteq> nat q" using that assms(1) by (simp add: nat_eq_iff2 eq_nat_nat_iff)
    with that show ?thesis by (simp add: vt_getVID_def same table int_at_def vec_at_def)
  qed
  moreover have "vt_isAllowed VID p t' = Some True"
    using vt_row_lookups(2) [OF row' assms(5), of p] act [of p]
      action_of_None_iff [of "vr_portList r'" p] by simp
  moreover have "vt_getTag VID p t' = Inr REMOVE_TAG"
    using vt_row_lookups(3) [OF row' assms(5)] act by simp
  moreover have "vt_isAllowed VID q t' = Some True" if "vt_isAllowed VID q t = Some True" for q
  proof -
    have "vt_row VID t = Some r \<and> q \<in> vp_port ` set (vr_portList r)"
      using that r unfolding vt_allowed_row [OF assms(4,5)] vt_row_extend_other vt_row_setPortVID [OF t1]
      by (auto split: option.splits if_splits)
    then have "action_of (vr_portList r') q \<noteq> None" using act [of q]
      action_of_None_iff [of "vr_portList r" q] by simp
    then show ?thesis
      using vt_row_lookups(2) [OF row' assms(5), of q] by (simp add: action_of_None_iff)
  qed
  moreover have "vt_isAllowed V q t' = vt_isAllowed V q t" if "0 \<le> V" "V < 2 ^ 31" "V \<noteq> VID" for V q
    using that(3) unfolding vt_allowed_row [OF that(1,2)]
    by (auto simp: row vt_row_extend_other vt_row_setPortVID [OF t1] emptyVID_def split: option.splits)
  ultimately show ?thesis using t' by blast
qed

theorem vlan_access_port_witness:
  "\<exists>t'. vt_addPortVID 1 20 \<lparr>vt_vidTable = [], vt_portVIDTable = replicate 2 \<lparr>pv_port = 0, pv_VID = 0\<rparr>,
       vt_vlanList = [], vt_portCount = 2\<rparr> = Some t' \<and> vt_getVID 1 t' = Inr 20 \<and> vt_getTag 20 1 t' = Inr REMOVE_TAG"
  using vlan_access_port [of 1 "\<lparr>vt_vidTable = [], vt_portVIDTable = replicate 2 \<lparr>pv_port = 0, pv_VID = 0\<rparr>,
       vt_vlanList = [], vt_portCount = 2\<rparr>" 20] by auto

text \<open>after a port is deleted from a VLAN the VLAN no longer carries it, and carries every other
  port with the same tag action.\<close>

theorem vlan_delete_port:
  assumes "vt_wf t" and "vt_delPort p V t = Some t'" and "0 \<le> V" and "V < 2 ^ 31"
  shows "vt_isAllowed V p t' = Some False \<and>
    (\<forall>q. q \<noteq> p \<longrightarrow> vt_isAllowed V q t' = vt_isAllowed V q t \<and> vt_getTag V q t' = vt_getTag V q t)"
proof -
  obtain r where r: "vt_row V t = Some r"
    using assms(2) by (auto simp: vt_delPort_def vt_row_modify_def vt_row_def split: if_splits)
  have row: "vt_row V t' = Some (r\<lparr>vr_portList := erase_first (\<lambda>vp. vp_port vp = p) (vr_portList r)\<rparr>)"
    using vt_row_modify_row [OF assms(2) [unfolded vt_delPort_def], of V] r by simp
  have "r \<in> set (vt_vidTable t)" using r by (auto simp: vt_row_def vec_at_def split: if_splits)
  then have "distinct (map vp_port (vr_portList r))" using assms(1) by (simp add: vt_wf_def)
  then have er: "erase_first (\<lambda>vp. vp_port vp = p) (vr_portList r) = filter (\<lambda>vp. vp_port vp \<noteq> p) (vr_portList r)"
    by (rule erase_first_distinct)
  have at: "int_at (vt_vidTable u) V = vt_row V u" for u
    using assms(3) by (simp add: int_at_def vt_row_def)
  have find: "find (\<lambda>vp. vp_port vp = q) (filter (\<lambda>vp. vp_port vp \<noteq> p) xs) = find (\<lambda>vp. vp_port vp = q) xs"
    if "q \<noteq> p" for q xs using that by (induction xs) auto
  have "vt_getTag V q t' = vt_getTag V q t" if "q \<noteq> p" for q
    by (simp add: vt_getTag_def at row r er find [OF that])
  moreover have "vt_isAllowed V q t' = vt_isAllowed V q t" if "q \<noteq> p" for q
    using that unfolding vt_allowed_row [OF assms(3,4)] by (auto simp: row r er)
  moreover have "vt_isAllowed V p t' = Some False"
    unfolding vt_allowed_row [OF assms(3,4)] by (auto simp: row er)
  ultimately show ?thesis by blast
qed

theorem vlan_delete_port_witness:
  "vt_isAllowed 1 0 (the (vt_delPort 0 1 \<lparr>vt_vidTable = [emptyVID, \<lparr>vr_VID = 1, vr_name = [],
       vr_portList = [\<lparr>vp_port = 0, vp_action = INCLUDE_TAG\<rparr>]\<rparr>], vt_portVIDTable = [], vt_vlanList = [],
       vt_portCount = 1\<rparr>)) = Some False"
proof -
  let ?t = "\<lparr>vt_vidTable = [emptyVID, \<lparr>vr_VID = 1, vr_name = [],
       vr_portList = [\<lparr>vp_port = 0, vp_action = INCLUDE_TAG\<rparr>]\<rparr>], vt_portVIDTable = [], vt_vlanList = [],
       vt_portCount = 1\<rparr>"
  obtain t' where d: "vt_delPort 0 1 ?t = Some t'" by (simp add: vt_delPort_def vt_row_modify_def)
  have "vt_wf ?t" by (simp add: vt_wf_def emptyVID_def)
  then show ?thesis using vlan_delete_port [OF _ d] d by simp
qed

end
