(* ===== verification/Switch_Core.thy ===== *)
theory Switch_Core
  imports Stp_Module Vlan_Table
begin

text \<open>
  The switch core, \<open>src/src/ansa/linklayer/switch/ansaSwitchCore.cc\<close>: reception and
  classification of a frame, relaying by the MAC and VLAN tables, learning, the active topology of
  the spanning tree, egress, and sending; and the exchange of BPDUs with the spanning tree module.
  A simulated packet is its name, kind, length and content; a null pointer is \<open>None\<close>. An operation
  returns \<open>None\<close> where the code throws or uses a null packet, which ends the run.
\<close>

section \<open>Frames\<close>

datatype payload = Stp_Payload stp_msg | Data_Payload nat

record packet =
  pk_name :: string
  pk_kind :: int
  pk_bytes :: int
  pk_body :: payload

record frame =
  fr_name :: string
  fr_kind :: int
  fr_src :: mac_addr
  fr_dest :: mac_addr
  fr_etherType :: int
  fr_bytes :: int
  fr_packet :: "packet option"

text \<open>An \<open>AnsaEtherFrame\<close> is an \<open>EthernetIIFrame\<close> with a VLAN number. A message
  that is neither is not modelled: \<open>reception\<close> would accept it with a descriptor it has not filled in.\<close>

datatype wire = Untagged frame | Tagged int frame

text \<open>\<open>tFrameDescriptor\<close>\<close>

record descriptor =
  d_payload :: "packet option"
  d_VID :: int
  d_rPort :: int
  d_portList :: "vid_port list"
  d_src :: mac_addr
  d_dest :: mac_addr
  d_etherType :: int
  d_name :: string

definition ether_mac_frame_bytes :: int where
  "ether_mac_frame_bytes = 6 + 6 + 2 + 4"

definition min_ethernet_frame_bytes :: int where
  "min_ethernet_frame_bytes = 64"

text \<open>Encapsulation adds the packet's length; a short frame is padded.\<close>

definition padded :: "packet \<Rightarrow> int" where
  "padded pk = max min_ethernet_frame_bytes (ether_mac_frame_bytes + pk_bytes pk)"

definition isBroadcast :: "mac_addr \<Rightarrow> bool" where
  "isBroadcast a \<longleftrightarrow> a = 0xFFFFFFFFFFFF"

section \<open>State and effects\<close>

record switch_core =
  sc_portCount :: int
  sc_bridgeAddress :: mac_addr
  sc_mac :: mac_table
  sc_vlan :: vlan_table
  sc_stp :: stp_module

datatype core_out = If_Out int wire | Stp_Out int packet

text \<open>The spanning tree takes port and VLAN as \<open>unsigned int\<close>.\<close>

definition sc_forwarding :: "int \<Rightarrow> int \<Rightarrow> switch_core \<Rightarrow> bool option" where
  "sc_forwarding p v s = sm_forwarding (unat (word_of_int p :: u32)) (word_of_int v) (sc_stp s)"

definition sc_learning :: "int \<Rightarrow> int \<Rightarrow> switch_core \<Rightarrow> bool option" where
  "sc_learning p v s = sm_learning (unat (word_of_int p :: u32)) (word_of_int v) (sc_stp s)"

definition res_ok :: "'a result \<Rightarrow> 'a option" where
  "res_ok r = (case r of Inl _ \<Rightarrow> None | Inr x \<Rightarrow> Some x)"

section \<open>Reception\<close>

definition sc_describe :: "frame \<Rightarrow> int \<Rightarrow> int \<Rightarrow> descriptor" where
  "sc_describe f rPort vid =
     \<lparr>d_payload = fr_packet f, d_VID = vid, d_rPort = rPort, d_portList = [],
      d_src = fr_src f, d_dest = fr_dest f, d_etherType = fr_etherType f, d_name = fr_name f\<rparr>"

definition sc_ingress_untagged :: "frame \<Rightarrow> int \<Rightarrow> switch_core \<Rightarrow> (bool \<times> descriptor) option" where
  "sc_ingress_untagged f rPort s =
     do {
       vid \<leftarrow> res_ok (vt_getVID rPort (sc_vlan s));
       Some (if vid = 0 then False else True, sc_describe f rPort vid)
     }"

definition sc_ingress_tagged :: "int \<Rightarrow> frame \<Rightarrow> int \<Rightarrow> switch_core \<Rightarrow> (bool \<times> descriptor) option" where
  "sc_ingress_tagged vlan f rPort s =
     do {
       allowed \<leftarrow> vt_isAllowed vlan rPort (sc_vlan s);
       Some (allowed, sc_describe f rPort vlan)
     }"

text \<open>The result of the ingress of an untagged frame is not looked at.\<close>

definition sc_reception :: "wire \<Rightarrow> int \<Rightarrow> switch_core \<Rightarrow> (bool \<times> descriptor) option" where
  "sc_reception w rPort s =
     (case w of
        Tagged vlan f \<Rightarrow> sc_ingress_tagged vlan f rPort s
      | Untagged f \<Rightarrow> do { (_, d) \<leftarrow> sc_ingress_untagged f rPort s; Some (True, d) })"

section \<open>Relaying\<close>

definition sc_deliverBPDU :: "descriptor \<Rightarrow> core_out list option" where
  "sc_deliverBPDU d = do { pk \<leftarrow> d_payload d; Some [Stp_Out (d_rPort d) pk] }"

definition sc_learn :: "simtime \<Rightarrow> descriptor \<Rightarrow> switch_core \<Rightarrow> switch_core option" where
  "sc_learn now d s =
     do {
       l \<leftarrow> sc_learning (d_rPort d) (d_VID d) s;
       if l then do { t \<leftarrow> mac_update now (d_src d) (d_rPort d) (sc_mac s); Some (s\<lparr>sc_mac := t\<rparr>) }
       else Some s
     }"

text \<open>The loop of \<open>egress\<close>.\<close>

fun sc_egress_ports :: "vid_port list \<Rightarrow> descriptor \<Rightarrow> switch_core \<Rightarrow> vid_port list option" where
  "sc_egress_ports [] d s = Some []"
| "sc_egress_ports (vp # vps) d s =
     do {
       allowed \<leftarrow> vt_isAllowed (d_VID d) (vp_port vp) (sc_vlan s);
       rest \<leftarrow> sc_egress_ports vps d s;
       Some (if allowed \<and> vp_port vp \<noteq> d_rPort d then vp # rest else rest)
     }"

definition sc_egress :: "descriptor \<Rightarrow> switch_core \<Rightarrow> descriptor option" where
  "sc_egress d s =
     do { ps \<leftarrow> sc_egress_ports (d_portList d) d s; Some (d\<lparr>d_portList := ps\<rparr>) }"

text \<open>The frame \<open>dispatch\<close> builds, tagged and untagged.\<close>

definition sc_frame :: "descriptor \<Rightarrow> packet \<Rightarrow> frame" where
  "sc_frame d pk =
     \<lparr>fr_name = d_name d, fr_kind = pk_kind pk, fr_src = d_src d, fr_dest = d_dest d,
      fr_etherType = d_etherType d, fr_bytes = padded pk, fr_packet = Some pk\<rparr>"

fun sc_send_all :: "vid_port list \<Rightarrow> descriptor \<Rightarrow> frame \<Rightarrow> switch_core \<Rightarrow> core_out list option" where
  "sc_send_all [] d f s = Some []"
| "sc_send_all (vp # vps) d f s =
     (if vp_port vp \<ge> sc_portCount s then sc_send_all vps d f s
      else
        do {
          fwd \<leftarrow> sc_forwarding (vp_port vp) (d_VID d) s;
          rest \<leftarrow> sc_send_all vps d f s;
          Some (if \<not> fwd then rest
                else If_Out (vp_port vp) (if vp_action vp = INCLUDE_TAG then Tagged (d_VID d) f else Untagged f) # rest)
        })"

definition sc_dispatch :: "descriptor \<Rightarrow> switch_core \<Rightarrow> core_out list option" where
  "sc_dispatch d s = do { pk \<leftarrow> d_payload d; sc_send_all (d_portList d) d (sc_frame d pk) s }"

text \<open>The end of \<open>relay\<close>, once the ports are chosen.\<close>

definition sc_forward :: "simtime \<Rightarrow> descriptor \<Rightarrow> switch_core \<Rightarrow> (core_out list \<times> switch_core) option" where
  "sc_forward now d s =
     do {
       s1 \<leftarrow> sc_learn now d s;
       fwd \<leftarrow> sc_forwarding (d_rPort d) (d_VID d) s1;
       if fwd then do { d1 \<leftarrow> sc_egress d s1; out \<leftarrow> sc_dispatch d1 s1; Some (out, s1) }
       else Some ([], s1)
     }"

definition sc_relay :: "simtime \<Rightarrow> descriptor \<Rightarrow> switch_core \<Rightarrow> (core_out list \<times> switch_core) option" where
  "sc_relay now d s =
     (if d_dest d = bridge_group_address then do { out \<leftarrow> sc_deliverBPDU d; Some (out, s) }
      else if d_VID d = 0 then Some ([], s)
      else if isBroadcast (d_dest d) then
        do {
          ports \<leftarrow> vt_getPorts (d_VID d) (sc_vlan s);
          if ports = [] then Some ([], s) else sc_forward now (d\<lparr>d_portList := ports\<rparr>) s
        }
      else
        (case mac_getPorts now (d_dest d) (sc_mac s) of (tmpPortList, t) \<Rightarrow>
           let s1 = s\<lparr>sc_mac := t\<rparr> in
           if tmpPortList = []
           then do { ports \<leftarrow> vt_getPorts (d_VID d) (sc_vlan s1); sc_forward now (d\<lparr>d_portList := ports\<rparr>) s1 }
           else sc_forward now
                  (d\<lparr>d_portList := map (\<lambda>p. \<lparr>vp_port = p, vp_action = REMOVE_TAG\<rparr>) tmpPortList\<rparr>) s1))"

section \<open>Messages\<close>

definition sc_dispatchBPDU :: "packet \<Rightarrow> int \<Rightarrow> switch_core \<Rightarrow> core_out list" where
  "sc_dispatchBPDU pk p s =
     (if p \<ge> sc_portCount s \<or> p < 0 then []
      else [If_Out p (Untagged \<lparr>fr_name = pk_name pk, fr_kind = pk_kind pk, fr_src = sc_bridgeAddress s,
                               fr_dest = bridge_group_address, fr_etherType = -1, fr_bytes = padded pk,
                               fr_packet = Some pk\<rparr>)])"

datatype core_msg = From_Stp int packet | From_If int wire

fun sc_handleMessage :: "simtime \<Rightarrow> core_msg \<Rightarrow> switch_core \<Rightarrow> (core_out list \<times> switch_core) option" where
  "sc_handleMessage now (From_Stp p pk) s = Some (sc_dispatchBPDU pk p s, s)"
| "sc_handleMessage now (From_If rPort w) s =
     do {
       (ok, d) \<leftarrow> sc_reception w rPort s;
       if ok then sc_relay now d s else Some ([], s)
     }"

text \<open>The path without VLANs, through \<open>processFrame\<close>.\<close>

definition sc_broadcastFrame :: "frame \<Rightarrow> int \<Rightarrow> switch_core \<Rightarrow> core_out list" where
  "sc_broadcastFrame f inputport s =
     map (\<lambda>i. If_Out (int i) (Untagged f)) (filter (\<lambda>i. int i \<noteq> inputport) [0..<nat (sc_portCount s)])"

definition sc_handleAndDispatchFrame :: "simtime \<Rightarrow> frame \<Rightarrow> int \<Rightarrow> switch_core \<Rightarrow> (core_out list \<times> switch_core) option" where
  "sc_handleAndDispatchFrame now f inputport s =
     do {
       t \<leftarrow> mac_update now (fr_src f) inputport (sc_mac s);
       let s1 = s\<lparr>sc_mac := t\<rparr> in
       if isBroadcast (fr_dest f) then Some (sc_broadcastFrame f inputport s1, s1)
       else
         (case mac_getPorts now (fr_dest f) (sc_mac s1) of (portList, t2) \<Rightarrow>
            let s2 = s1\<lparr>sc_mac := t2\<rparr> in
            if portList = [] then Some (sc_broadcastFrame f inputport s2, s2)
            else Some (map (\<lambda>p. If_Out p (Untagged f)) (filter (\<lambda>p. inputport \<noteq> p) portList), s2))
     }"

text \<open>\<open>tagMsg\<close> and \<open>untagMsg\<close> build a new frame around the same packet.\<close>

definition sc_tagMsg :: "frame \<Rightarrow> int \<Rightarrow> wire option" where
  "sc_tagMsg f vlan =
     do {
       pk \<leftarrow> fr_packet f;
       Some (Tagged vlan \<lparr>fr_name = pk_name pk, fr_kind = 0, fr_src = fr_src f, fr_dest = fr_dest f,
               fr_etherType = fr_etherType f, fr_bytes = padded pk, fr_packet = Some pk\<rparr>)
     }"

definition sc_untagMsg :: "wire \<Rightarrow> frame option" where
  "sc_untagMsg w =
     (case w of
        Tagged _ f \<Rightarrow>
          do {
            pk \<leftarrow> fr_packet f;
            Some \<lparr>fr_name = pk_name pk, fr_kind = 0, fr_src = fr_src f, fr_dest = fr_dest f,
                  fr_etherType = fr_etherType f, fr_bytes = padded pk, fr_packet = Some pk\<rparr>
          }
      | Untagged _ \<Rightarrow> None)"

section \<open>The VLAN table as the core sees it\<close>

text \<open>The two questions the core asks of the VLAN table agree: a VLAN allows exactly the ports it lists.\<close>

locale vlan_view =
  fixes ports_op :: "'v \<Rightarrow> 't \<Rightarrow> vid_port list option"
    and allowed_op :: "'v \<Rightarrow> int \<Rightarrow> 't \<Rightarrow> bool option"
  assumes allowed_iff: "allowed_op v p t = map_option (\<lambda>ps. p \<in> vp_port ` set ps) (ports_op v t)"
begin

lemma listed_allowed: "ports_op v t = Some ps \<Longrightarrow> vp \<in> set ps \<Longrightarrow> allowed_op v (vp_port vp) t = Some True"
  by (simp add: allowed_iff)

lemma keep_allowed: "ports_op v t = Some ps \<Longrightarrow>
    filter (\<lambda>vp. allowed_op v (vp_port vp) t = Some True \<and> P vp) ps = filter P ps"
  by (rule filter_cong) (simp_all add: listed_allowed)

lemma allowed_answers: "ports_op v t = Some ps \<Longrightarrow> \<exists>b. allowed_op v p t = Some b"
  by (simp add: allowed_iff)

end

interpretation vlans: vlan_view vt_getPorts vt_isAllowed
  by unfold_locales (rule vt_allowed_iff_in_ports)

section \<open>Closed forms\<close>

definition egress_ok :: "descriptor \<Rightarrow> switch_core \<Rightarrow> vid_port \<Rightarrow> bool" where
  "egress_ok d s vp \<longleftrightarrow> vt_isAllowed (d_VID d) (vp_port vp) (sc_vlan s) = Some True \<and> vp_port vp \<noteq> d_rPort d"

definition send_ok :: "descriptor \<Rightarrow> switch_core \<Rightarrow> vid_port \<Rightarrow> bool" where
  "send_ok d s vp \<longleftrightarrow> vp_port vp < sc_portCount s \<and> sc_forwarding (vp_port vp) (d_VID d) s = Some True"

definition sent :: "descriptor \<Rightarrow> frame \<Rightarrow> vid_port \<Rightarrow> core_out" where
  "sent d f vp = If_Out (vp_port vp) (if vp_action vp = INCLUDE_TAG then Tagged (d_VID d) f else Untagged f)"

lemma sc_egress_ports_closed: "sc_egress_ports vps d s = Some r \<Longrightarrow> r = filter (egress_ok d s) vps"
  by (induction vps arbitrary: r) (auto simp: egress_ok_def split: Option.bind_splits)

lemma sc_egress_ports_total:
  "(\<And>vp. vp \<in> set vps \<Longrightarrow> \<exists>b. vt_isAllowed (d_VID d) (vp_port vp) (sc_vlan s) = Some b) \<Longrightarrow>
   \<exists>r. sc_egress_ports vps d s = Some r"
proof (induction vps)
  case (Cons vp vps)
  obtain b where "vt_isAllowed (d_VID d) (vp_port vp) (sc_vlan s) = Some b" using Cons.prems by auto
  moreover obtain r where "sc_egress_ports vps d s = Some r" using Cons by auto
  ultimately show ?case by simp
qed simp

lemma sc_send_all_closed: "sc_send_all vps d f s = Some out \<Longrightarrow> out = map (sent d f) (filter (send_ok d s) vps)"
  by (induction vps arbitrary: out) (auto simp: send_ok_def sent_def split: Option.bind_splits if_splits)

lemma sc_send_all_total:
  "(\<And>vp. vp \<in> set vps \<Longrightarrow> vp_port vp < sc_portCount s \<Longrightarrow> \<exists>b. sc_forwarding (vp_port vp) (d_VID d) s = Some b) \<Longrightarrow>
   \<exists>r. sc_send_all vps d f s = Some r"
proof (induction vps)
  case (Cons vp vps)
  then obtain r where "sc_send_all vps d f s = Some r" by auto
  moreover obtain b where "vp_port vp < sc_portCount s \<Longrightarrow> sc_forwarding (vp_port vp) (d_VID d) s = Some b"
    using Cons.prems [of vp] by auto
  ultimately show ?case by auto
qed simp

lemma sc_learn_frame:
  "sc_learn now d s = Some s' \<Longrightarrow> sc_vlan s' = sc_vlan s \<and> sc_stp s' = sc_stp s \<and> sc_portCount s' = sc_portCount s"
  by (auto simp: sc_learn_def split: Option.bind_splits if_splits)

lemma sc_queries_same_stp [simp]:
  "sc_forwarding p v (s\<lparr>sc_mac := t\<rparr>) = sc_forwarding p v s"
  "sc_learning p v (s\<lparr>sc_mac := t\<rparr>) = sc_learning p v s"
  by (simp_all add: sc_forwarding_def sc_learning_def)

lemma sc_learn_same_stp:
  "sc_learn now d s = Some s' \<Longrightarrow> sc_forwarding p v s' = sc_forwarding p v s \<and> sc_learning p v s' = sc_learning p v s"
  using sc_learn_frame [of now d s s'] by (simp add: sc_forwarding_def sc_learning_def)

lemma sc_forward_closed:
  assumes "sc_forward now d s = Some (out, s')"
  shows "sc_learn now d s = Some s'" and
    "out = (if sc_forwarding (d_rPort d) (d_VID d) s = Some True
            then map (sent d (sc_frame d (the (d_payload d))))
                   (filter (send_ok d s) (filter (egress_ok d s) (d_portList d)))
            else [])" and
    "sc_forwarding (d_rPort d) (d_VID d) s = Some True \<Longrightarrow> d_payload d \<noteq> None"
proof -
  obtain fwd where l: "sc_learn now d s = Some s'" and f: "sc_forwarding (d_rPort d) (d_VID d) s' = Some fwd"
    and r: "if fwd then (\<exists>d1. sc_egress d s' = Some d1 \<and> sc_dispatch d1 s' = Some out) else out = []"
    using assms by (auto simp: sc_forward_def split: Option.bind_splits if_splits)
  note same = sc_learn_frame [OF l] sc_learn_same_stp [OF l]
  have e: "egress_ok d s' = egress_ok d s" and g: "send_ok (d\<lparr>d_portList := x\<rparr>) s' = send_ok d s"
    "sent (d\<lparr>d_portList := x\<rparr>) = sent d" "sc_frame (d\<lparr>d_portList := x\<rparr>) = sc_frame d" for x
    using same by (auto simp: egress_ok_def send_ok_def sent_def sc_frame_def fun_eq_iff)
  show "sc_learn now d s = Some s'" by (rule l)
  have out: "out = map (sent d (sc_frame d (the (d_payload d)))) (filter (send_ok d s) (filter (egress_ok d s) (d_portList d))) \<and>
      d_payload d \<noteq> None" if yes: "fwd"
  proof -
    obtain ps pk where ps: "sc_egress_ports (d_portList d) d s' = Some ps" and pk: "d_payload d = Some pk"
      and o': "sc_send_all ps (d\<lparr>d_portList := ps\<rparr>) (sc_frame (d\<lparr>d_portList := ps\<rparr>) pk) s' = Some out"
      using r yes by (auto simp: sc_egress_def sc_dispatch_def split: Option.bind_splits)
    have "ps = filter (egress_ok d s) (d_portList d)" using sc_egress_ports_closed [OF ps] e by simp
    then show ?thesis using sc_send_all_closed [OF o'] pk by (simp add: g)
  qed
  show "out = (if sc_forwarding (d_rPort d) (d_VID d) s = Some True
            then map (sent d (sc_frame d (the (d_payload d))))
                   (filter (send_ok d s) (filter (egress_ok d s) (d_portList d)))
            else [])"
    using out r f same by (cases fwd) auto
  show "sc_forwarding (d_rPort d) (d_VID d) s = Some True \<Longrightarrow> d_payload d \<noteq> None"
    using out f same by auto
qed

text \<open>The VLAN a received frame is classified to, and the frame it carries.\<close>

definition classified :: "wire \<Rightarrow> int \<Rightarrow> switch_core \<Rightarrow> int option" where
  "classified w rPort s =
     (case w of
        Untagged _ \<Rightarrow> res_ok (vt_getVID rPort (sc_vlan s))
      | Tagged v _ \<Rightarrow> if vt_isAllowed v rPort (sc_vlan s) = Some True then Some v else None)"

fun frame_of :: "wire \<Rightarrow> frame" where
  "frame_of (Untagged f) = f"
| "frame_of (Tagged _ f) = f"

lemma sc_reception_classified:
  "sc_reception w rPort s = Some (True, d) \<longleftrightarrow>
   (\<exists>v. classified w rPort s = Some v \<and> d = sc_describe (frame_of w) rPort v)"
  by (cases w) (auto simp: sc_reception_def sc_ingress_tagged_def sc_ingress_untagged_def classified_def
      split: Option.bind_splits)

text \<open>What a received frame does: dropped at the ingress, given to the spanning tree, dropped, or
  forwarded to a list of ports the tables give.\<close>

lemma sc_from_if_cases:
  assumes "sc_handleMessage now (From_If rPort w) s = Some (out, s')"
  obtains (ingress) "out = []" "s' = s"
  | (bpdu) v pk where "classified w rPort s = Some v" "fr_dest (frame_of w) = bridge_group_address"
      "fr_packet (frame_of w) = Some pk" "out = [Stp_Out rPort pk]" "s' = s"
  | (no_vlan) "fr_dest (frame_of w) \<noteq> bridge_group_address" "out = []" "s' = s"
  | (forward) v t ps where "classified w rPort s = Some v" "v \<noteq> 0"
      "fr_dest (frame_of w) \<noteq> bridge_group_address"
      "sc_forward now ((sc_describe (frame_of w) rPort v)\<lparr>d_portList := ps\<rparr>) (s\<lparr>sc_mac := t\<rparr>) = Some (out, s')"
      "t = (if isBroadcast (fr_dest (frame_of w)) then sc_mac s else snd (mac_getPorts now (fr_dest (frame_of w)) (sc_mac s)))"
      "if isBroadcast (fr_dest (frame_of w)) \<or> fst (mac_getPorts now (fr_dest (frame_of w)) (sc_mac s)) = []
       then vt_getPorts v (sc_vlan s) = Some ps
       else ps = map (\<lambda>p. \<lparr>vp_port = p, vp_action = REMOVE_TAG\<rparr>) (fst (mac_getPorts now (fr_dest (frame_of w)) (sc_mac s)))"
proof -
  obtain ok d where rec: "sc_reception w rPort s = Some (ok, d)"
    and rel: "if ok then sc_relay now d s = Some (out, s') else out = [] \<and> s' = s"
    using assms by (auto split: Option.bind_splits if_splits)
  show ?thesis
  proof (cases ok)
    case False
    then show ?thesis using ingress rel by simp
  next
    case True
    then have "sc_reception w rPort s = Some (True, d)" using rec by simp
    then obtain v where v: "classified w rPort s = Some v" and d: "d = sc_describe (frame_of w) rPort v"
      by (auto simp: sc_reception_classified)
    have dd: "d_dest d = fr_dest (frame_of w)" "d_VID d = v" "d_payload d = fr_packet (frame_of w)" "d_rPort d = rPort"
      by (simp_all add: d sc_describe_def)
    have r: "sc_relay now d s = Some (out, s')" using rel True by simp
    consider "d_dest d = bridge_group_address" | "d_dest d \<noteq> bridge_group_address" "v = 0"
      | "d_dest d \<noteq> bridge_group_address" "v \<noteq> 0" "isBroadcast (d_dest d)"
      | "d_dest d \<noteq> bridge_group_address" "v \<noteq> 0" "\<not> isBroadcast (d_dest d)" by blast
    then show ?thesis
    proof cases
      case 1
      then show ?thesis using bpdu [OF v] r dd
        by (auto simp: sc_relay_def sc_deliverBPDU_def split: Option.bind_splits)
    next
      case 2
      then show ?thesis using no_vlan r dd by (simp add: sc_relay_def)
    next
      case 3
      then obtain ps where p: "vt_getPorts v (sc_vlan s) = Some ps"
          "if ps = [] then out = [] \<and> s' = s else sc_forward now (d\<lparr>d_portList := ps\<rparr>) s = Some (out, s')"
      proof -
        have "sc_relay now d s = (case vt_getPorts v (sc_vlan s) of None \<Rightarrow> None
            | Some ps \<Rightarrow> if ps = [] then Some ([], s) else sc_forward now (d\<lparr>d_portList := ps\<rparr>) s)"
          using 3 dd(2) by (simp add: sc_relay_def split: option.split)
        then show ?thesis using r that by (auto split: option.splits if_splits)
      qed
      show ?thesis
      proof (cases "ps = []")
        case True
        then show ?thesis using p 3(1) dd no_vlan by simp
      next
        case False
        then have f: "sc_forward now (d\<lparr>d_portList := ps\<rparr>) (s\<lparr>sc_mac := sc_mac s\<rparr>) = Some (out, s')"
          using p by simp
        show ?thesis
          by (rule forward [OF v 3(2) 3(1) [unfolded dd] f [unfolded d]]) (use 3 p dd in simp_all)
      qed
    next
      case 4
      obtain tl t where g: "mac_getPorts now (d_dest d) (sc_mac s) = (tl, t)" by fastforce
      obtain ps where ps: "if tl = [] then vt_getPorts v (sc_vlan s) = Some ps
            else ps = map (\<lambda>p. \<lparr>vp_port = p, vp_action = REMOVE_TAG\<rparr>) tl"
          and f: "sc_forward now (d\<lparr>d_portList := ps\<rparr>) (s\<lparr>sc_mac := t\<rparr>) = Some (out, s')"
        using r dd 4 g by (cases "tl = []") (auto simp: sc_relay_def Let_def split: Option.bind_splits)
      show ?thesis
        by (rule forward [OF v 4(2) 4(1) [unfolded dd] f [unfolded d]]) (use 4 g ps dd in simp_all)
    qed
  qed
qed

section \<open>The invariant of the switch\<close>

definition mac_ports_in :: "int \<Rightarrow> mac_table \<Rightarrow> bool" where
  "mac_ports_in n t \<longleftrightarrow> (\<forall>ke\<in>set (mt_table t). \<forall>p\<in>set (r_portList (snd ke)). 0 \<le> p \<and> p < n)"

definition vlan_ports_ok :: "vlan_table \<Rightarrow> bool" where
  "vlan_ports_ok t \<longleftrightarrow> (\<forall>r\<in>set (vt_vidTable t). \<forall>vp\<in>set (vr_portList r). 0 \<le> vp_port vp) \<and>
     (\<forall>r\<in>set (vt_portVIDTable t). 0 \<le> pv_VID r \<and> pv_VID r < 2 ^ 31) \<and>
     length (vt_portVIDTable t) = nat (vt_portCount t)"

definition sc_wf :: "switch_core \<Rightarrow> bool" where
  "sc_wf s \<longleftrightarrow> sm_wf (sc_stp s) \<and> 0 \<le> sc_portCount s \<and> sc_portCount s < 2 ^ 31 \<and>
     sm_portCount (sc_stp s) = nat (sc_portCount s) \<and> mac_wf (sc_mac s) \<and>
     mac_ports_in (sc_portCount s) (sc_mac s) \<and> vt_portCount (sc_vlan s) = sc_portCount s \<and>
     vlan_ports_ok (sc_vlan s)"

lemma mac_ports_in_filter: "mac_ports_in n t \<Longrightarrow> mac_ports_in n (t\<lparr>mt_table := filter p (mt_table t)\<rparr>)"
  by (auto simp: mac_ports_in_def)

lemma mac_ports_in_put:
  assumes "mac_wf t" and "mac_ports_in n t" and "\<forall>p\<in>set (r_portList e). 0 \<le> p \<and> p < n"
  shows "mac_ports_in n (t\<lparr>mt_table := map_put k e (mt_table t)\<rparr>)"
  using assms by (fastforce simp: mac_ports_in_def mac_wf_def in_map_put split: if_splits)

lemma mac_ports_in_getPorts: "mac_ports_in n t \<Longrightarrow> mac_ports_in n (snd (mac_getPorts now a t))"
  by (auto simp: mac_getPorts_def map_erase_def mac_ports_in_filter split: option.splits)

lemma mac_ports_in_lookup: "mac_ports_in n t \<Longrightarrow> p \<in> set (fst (mac_getPorts now a t)) \<Longrightarrow> 0 \<le> p \<and> p < n"
  by (auto simp: mac_getPorts_def mac_ports_in_def dest!: map_find_in split: option.splits if_splits)

lemma mac_ports_in_update:
  assumes wf: "mac_wf t" and inn: "mac_ports_in n t" and up: "mac_update now a p t = Some t'"
    and p: "0 \<le> p" "p < n"
  shows "mac_ports_in n t'"
proof -
  let ?f = "mac_flushAged now t"
  have f: "mac_ports_in n ?f" "mac_wf ?f"
    using inn wf by (simp_all add: mac_flushAged_def mac_ports_in_filter mac_wf_filter)
  have room: "mac_ports_in n (mac_make_room now ?f)" "mac_wf (mac_make_room now ?f)"
    using f mac_wf_make_room [OF f(2)]
    by (auto simp: mac_make_room_def mac_removeOldest_def map_erase_def mac_ports_in_filter split: option.splits)
  show ?thesis
  proof (cases "map_find a (mt_table ?f)")
    case None
    then show ?thesis using up p room by (auto simp: mac_update_def Let_def intro!: mac_ports_in_put)
  next
    case (Some e)
    then have "\<forall>p\<in>set (r_portList e). 0 \<le> p \<and> p < n"
      using f(1) by (auto simp: mac_ports_in_def dest!: map_find_in)
    then show ?thesis using up p f Some
      by (auto simp: mac_update_def Let_def intro!: mac_ports_in_put split: option.splits if_splits)
  qed
qed

lemma sc_wf_mac: "sc_wf s \<Longrightarrow> mac_wf t \<Longrightarrow> mac_ports_in (sc_portCount s) t \<Longrightarrow> sc_wf (s\<lparr>sc_mac := t\<rparr>)"
  by (simp add: sc_wf_def)

lemma port_unat: "0 \<le> p \<Longrightarrow> p < 2 ^ 31 \<Longrightarrow> unat (word_of_int p :: u32) = nat p"
  by (rule unat_of_int_u32) simp_all

lemma sc_answers:
  assumes "sc_wf s" and "0 \<le> p" and "p < sc_portCount s"
  obtains l f where "sc_learning p v s = Some l" "sc_forwarding p v s = Some f" "f \<longrightarrow> l"
proof -
  have n: "unat (word_of_int p :: u32) < sm_portCount (sc_stp s)" "sm_wf (sc_stp s)"
    using assms by (simp_all add: sc_wf_def port_unat)
  show ?thesis
    using stp_gate.answers_both [OF n(2,1), of "word_of_int v"] that
    by (auto simp: sc_learning_def sc_forwarding_def)
qed

lemma sc_learn_total:
  assumes "sc_wf s" and "0 \<le> d_rPort d" and "d_rPort d < sc_portCount s"
  obtains s' where "sc_learn now d s = Some s'" "sc_wf s'"
proof -
  obtain l where l: "sc_learning (d_rPort d) (d_VID d) s = Some l" using sc_answers [OF assms] by metis
  obtain t where t: "mac_update now (d_src d) (d_rPort d) (sc_mac s) = Some t" "mac_wf t"
    using mac_update_total assms(1) unfolding sc_wf_def by blast
  have "mac_ports_in (sc_portCount s) t"
    using mac_ports_in_update [OF _ _ t(1)] assms by (simp add: sc_wf_def)
  then have "sc_wf (s\<lparr>sc_mac := t\<rparr>)" using sc_wf_mac [OF assms(1) t(2)] by simp
  then show ?thesis using that assms(1) by (cases l) (auto simp: sc_learn_def l t)
qed

lemma sc_forward_total:
  assumes wf: "sc_wf s" and r: "0 \<le> d_rPort d" "d_rPort d < sc_portCount s" and pk: "d_payload d \<noteq> None"
    and ports: "\<forall>vp\<in>set (d_portList d). 0 \<le> vp_port vp" and v: "0 \<le> d_VID d" "d_VID d < 2 ^ 31"
  obtains out s' where "sc_forward now d s = Some (out, s')" "sc_wf s'"
proof -
  obtain s1 where l: "sc_learn now d s = Some s1" and w1: "sc_wf s1"
    by (rule sc_learn_total [OF wf r]) 
  obtain fwd where f: "sc_forwarding (d_rPort d) (d_VID d) s1 = Some fwd"
    using sc_answers [OF w1 r(1), of "d_VID d"] sc_learn_frame [OF l] r(2) by metis
  have "\<exists>b. vt_isAllowed (d_VID d) p (sc_vlan s1) = Some b" for p
    using vt_allowed_row [OF v] by blast
  then obtain ps where e: "sc_egress_ports (d_portList d) d s1 = Some ps"
    using sc_egress_ports_total [of "d_portList d" d s1] by blast
  have "\<exists>b. sc_forwarding (vp_port vp) (d_VID d) s1 = Some b" if "vp \<in> set ps" "vp_port vp < sc_portCount s1" for vp
  proof -
    have "0 \<le> vp_port vp" using that(1) sc_egress_ports_closed [OF e] ports by auto
    then show ?thesis using sc_answers [OF w1 _ that(2)] by metis
  qed
  then obtain out where "sc_send_all ps (d\<lparr>d_portList := ps\<rparr>) (sc_frame (d\<lparr>d_portList := ps\<rparr>) (the (d_payload d))) s1 = Some out"
    using sc_send_all_total [of ps s1 "d\<lparr>d_portList := ps\<rparr>"] by auto
  then show ?thesis
    using that [of "if fwd then out else []" s1] l f e pk w1
    by (auto simp: sc_forward_def sc_egress_def sc_dispatch_def)
qed

lemma vt_getPorts_total: "0 \<le> v \<Longrightarrow> v < 2 ^ 31 \<Longrightarrow> \<exists>ps. vt_getPorts v t = Some ps"
  using vt_allowed_row [of v 0 t] vlans.allowed_iff [of v 0 t] by (cases "vt_getPorts v t") auto

lemma vt_getPorts_row:
  "vt_getPorts v t = Some ps \<Longrightarrow> ps = [] \<or> (\<exists>r\<in>set (vt_vidTable t). ps = vr_portList r)"
  by (auto simp: vt_getPorts_def int_at_def vec_at_def split: if_splits Option.bind_splits)

lemma sc_reception_total:
  assumes wf: "sc_wf s" and r: "0 \<le> rPort" "rPort < sc_portCount s"
    and v: "\<And>v f. w = Tagged v f \<Longrightarrow> 0 \<le> v \<and> v < 2 ^ 31"
  obtains ok v where "sc_reception w rPort s = Some (ok, sc_describe (frame_of w) rPort v)" "0 \<le> v" "v < 2 ^ 31"
proof (cases w)
  case (Tagged u f)
  then have u: "0 \<le> u" "u < 2 ^ 31" using v by auto
  then obtain b where "vt_isAllowed u rPort (sc_vlan s) = Some b" using vt_allowed_row by blast
  then show ?thesis using that u Tagged by (simp add: sc_reception_def sc_ingress_tagged_def)
next
  case (Untagged f)
  let ?T = "vt_portVIDTable (sc_vlan s)"
  have i: "nat rPort < length ?T" using wf r by (simp add: sc_wf_def vlan_ports_ok_def)
  then have "?T ! nat rPort \<in> set ?T" by simp
  then have "0 \<le> pv_VID (?T ! nat rPort)" "pv_VID (?T ! nat rPort) < 2 ^ 31"
    using wf by (auto simp: sc_wf_def vlan_ports_ok_def)
  moreover have "vt_getVID rPort (sc_vlan s) = Inr (pv_VID (?T ! nat rPort))"
    using wf r i by (simp add: vt_getVID_def int_at_def sc_wf_def)
  ultimately show ?thesis
    using that Untagged by (simp add: sc_reception_def sc_ingress_untagged_def res_ok_def)
qed

text \<open>A small switch with two ports in VLAN 1, for the witnesses below: both ports forward.\<close>

definition demo_switch :: switch_core where
  "demo_switch =
     \<lparr>sc_portCount = 2, sc_bridgeAddress = 7, sc_mac = mac_initialize 0 mac_empty,
      sc_vlan = \<lparr>vt_vidTable = [emptyVID, \<lparr>vr_VID = 1, vr_name = [], vr_portList =
                    [\<lparr>vp_port = 0, vp_action = REMOVE_TAG\<rparr>, \<lparr>vp_port = 1, vp_action = INCLUDE_TAG\<rparr>]\<rparr>],
                 vt_portVIDTable = replicate 2 \<lparr>pv_port = 0, pv_VID = 1\<rparr>, vt_vlanList = [1], vt_portCount = 2\<rparr>,
      sc_stp = (sm_initialize 2 7 [1])\<lparr>sm_inst := [(new_stpi 1 2 7)\<lparr>s_portTable := replicate 2
                  (default_port\<lparr>tp_role := RDESIGNATED, tp_state := SFORWARDING,
                               tp_flags := \<lparr>fl_Learning = True, fl_Forwarding = True\<rparr>\<rparr>)\<rparr>]\<rparr>\<rparr>"

definition demo_frame :: "mac_addr \<Rightarrow> mac_addr \<Rightarrow> frame" where
  "demo_frame a b = \<lparr>fr_name = [], fr_kind = 0, fr_src = a, fr_dest = b, fr_etherType = 2048, fr_bytes = 64,
     fr_packet = Some \<lparr>pk_name = [], pk_kind = 0, pk_bytes = 40, pk_body = Data_Payload 1\<rparr>\<rparr>"

lemma demo_switch_wf: "sc_wf demo_switch"
proof -
  have "stpi_wf (new_stpi 1 2 7)" by (rule wf_new)
  then have "sm_wf (sc_stp demo_switch)"
    by (auto simp: demo_switch_def sm_wf_def sm_initialize_def stpi_wf_def ports_wf_def new_stpi_ports(2)
        port_ok_def default_port_def)
  moreover have "mac_ports_in 2 (mac_initialize 0 mac_empty)"
    by (simp add: mac_initialize_def mac_add_def mac_empty_def mac_initDefaults_def Let_def mac_make_room_def
        mac_full_def mac_ports_in_def)
  ultimately show ?thesis
    by (simp add: sc_wf_def demo_switch_def mac_wf_initialize vlan_ports_ok_def emptyVID_def sm_initialize_def)
qed

lemma demo_switch_forwards: "p \<in> {0, 1} \<Longrightarrow> sc_forwarding p 1 demo_switch = Some True \<and> sc_learning p 1 demo_switch = Some True"
  by (auto simp: sc_forwarding_def sc_learning_def sm_forwarding_def sm_learning_def demo_switch_def
      sm_initialize_def sm_getInstanceIndex_def stpi_forwarding_def stpi_learning_def)

lemma demo_flood: "map_option fst (sc_handleMessage 0 (From_If 0 (Untagged (demo_frame 5 0xFFFFFFFFFFFF))) demo_switch) =
  Some [If_Out 1 (Tagged 1 (demo_frame 5 0xFFFFFFFFFFFF))]"
  by code_simp

lemma demo_known: "map_option fst (sc_handleMessage 0 (From_If 0 (Untagged (demo_frame 5 6)))
     (demo_switch\<lparr>sc_mac := the (mac_update 0 6 1 (mac_initialize 0 mac_empty))\<rparr>)) =
  Some [If_Out 1 (Untagged (demo_frame 5 6))]"
  by code_simp

text \<open>A classified data frame of an active VLAN reaches the end of \<open>relay\<close>.\<close>

lemma sc_relayed:
  assumes "sc_handleMessage now (From_If rPort w) s = Some (out, s')" and "classified w rPort s = Some v"
    and "v \<noteq> 0" and "fr_dest (frame_of w) \<noteq> bridge_group_address"
    and "vt_getPorts v (sc_vlan s) \<noteq> Some [] \<or> \<not> isBroadcast (fr_dest (frame_of w))"
  obtains t ps where
    "sc_forward now ((sc_describe (frame_of w) rPort v)\<lparr>d_portList := ps\<rparr>) (s\<lparr>sc_mac := t\<rparr>) = Some (out, s')"
    "t = sc_mac s \<or> t = snd (mac_getPorts now (fr_dest (frame_of w)) (sc_mac s))"
    "isBroadcast (fr_dest (frame_of w)) \<or> fst (mac_getPorts now (fr_dest (frame_of w)) (sc_mac s)) = [] \<Longrightarrow>
       vt_getPorts v (sc_vlan s) = Some ps"
proof -
  let ?d = "sc_describe (frame_of w) rPort v"
  have r: "sc_relay now ?d s = Some (out, s')"
    using assms(1,2) sc_reception_classified [of w rPort s ?d] by simp
  have d: "d_dest ?d = fr_dest (frame_of w)" "d_VID ?d = v" by (simp_all add: sc_describe_def)
  obtain tl t where g: "mac_getPorts now (fr_dest (frame_of w)) (sc_mac s) = (tl, t)" by fastforce
  show ?thesis
  proof (cases "isBroadcast (fr_dest (frame_of w))")
    case True
    then have "sc_relay now ?d s = (case vt_getPorts v (sc_vlan s) of None \<Rightarrow> None
        | Some ps \<Rightarrow> if ps = [] then Some ([], s) else sc_forward now (?d\<lparr>d_portList := ps\<rparr>) s)"
      using assms(3,4) d by (simp add: sc_relay_def split: option.split)
    then obtain ps where "vt_getPorts v (sc_vlan s) = Some ps" "sc_forward now (?d\<lparr>d_portList := ps\<rparr>) s = Some (out, s')"
      using r assms(5) True by (auto split: option.splits if_splits)
    then show ?thesis using that [of ps "sc_mac s"] by simp
  next
    case False
    then have "sc_relay now ?d s = (if tl = []
        then (case vt_getPorts v (sc_vlan s) of None \<Rightarrow> None
              | Some ps \<Rightarrow> sc_forward now (?d\<lparr>d_portList := ps\<rparr>) (s\<lparr>sc_mac := t\<rparr>))
        else sc_forward now (?d\<lparr>d_portList := map (\<lambda>p. \<lparr>vp_port = p, vp_action = REMOVE_TAG\<rparr>) tl\<rparr>) (s\<lparr>sc_mac := t\<rparr>))"
      using assms(3,4) d g by (simp add: sc_relay_def Let_def split: option.split)
    then show ?thesis using r that [of _ t] g False by (auto split: option.splits if_splits)
  qed
qed

lemma sc_flood_closed:
  assumes "sc_handleMessage now (From_If rPort w) s = Some (out, s')" and "classified w rPort s = Some v"
    and "v \<noteq> 0" and "fr_dest (frame_of w) \<noteq> bridge_group_address" and "vt_getPorts v (sc_vlan s) = Some ps"
    and "isBroadcast (fr_dest (frame_of w)) \<or> fst (mac_getPorts now (fr_dest (frame_of w)) (sc_mac s)) = []"
    and "fr_packet (frame_of w) = Some pk"
  shows "out = (if sc_forwarding rPort v s = Some True
     then map (\<lambda>vp. If_Out (vp_port vp)
                 (if vp_action vp = INCLUDE_TAG then Tagged v (sc_frame (sc_describe (frame_of w) rPort v) pk)
                  else Untagged (sc_frame (sc_describe (frame_of w) rPort v) pk)))
            (filter (\<lambda>vp. vp_port vp < sc_portCount s \<and> sc_forwarding (vp_port vp) v s = Some True)
               (filter (\<lambda>vp. vp_port vp \<noteq> rPort) ps))
     else [])"
proof (cases "vt_getPorts v (sc_vlan s) \<noteq> Some [] \<or> \<not> isBroadcast (fr_dest (frame_of w))")
  case True
  let ?d = "(sc_describe (frame_of w) rPort v)\<lparr>d_portList := ps\<rparr>"
  obtain t qs where f: "sc_forward now ((sc_describe (frame_of w) rPort v)\<lparr>d_portList := qs\<rparr>) (s\<lparr>sc_mac := t\<rparr>) = Some (out, s')"
    and "vt_getPorts v (sc_vlan s) = Some qs"
    using sc_relayed [OF assms(1-4) True] assms(6) by metis
  then have f: "sc_forward now ?d (s\<lparr>sc_mac := t\<rparr>) = Some (out, s')" using assms(5) by simp
  have e: "filter (egress_ok ?d (s\<lparr>sc_mac := t\<rparr>)) ps = filter (\<lambda>vp. vp_port vp \<noteq> rPort) ps"
    using vlans.keep_allowed [OF assms(5)] by (simp add: egress_ok_def [abs_def] sc_describe_def)
  have g: "send_ok ?d (s\<lparr>sc_mac := t\<rparr>) = (\<lambda>vp. vp_port vp < sc_portCount s \<and> sc_forwarding (vp_port vp) v s = Some True)"
    by (simp add: send_ok_def [abs_def] sc_describe_def)
  have p: "d_portList ?d = ps" "d_rPort ?d = rPort" "d_VID ?d = v" "d_payload ?d = Some pk"
    using assms(7) by (simp_all add: sc_describe_def)
  have fr: "sc_frame ?d pk = sc_frame (sc_describe (frame_of w) rPort v) pk" by (simp add: sc_frame_def)
  have snt: "sent ?d x = (\<lambda>vp. If_Out (vp_port vp) (if vp_action vp = INCLUDE_TAG then Tagged v x else Untagged x))" for x
    by (simp only: sent_def [abs_def] p)
  show ?thesis
    using sc_forward_closed(2) [OF f] unfolding p option.sel e g fr snt sc_queries_same_stp .
next
  case False
  then show ?thesis
    using assms(1,2,3,4,5) sc_reception_classified [of w rPort s "sc_describe (frame_of w) rPort v"]
    by (simp add: sc_relay_def sc_describe_def)
qed

lemma sc_total:
  assumes "sc_wf s" and "0 \<le> rPort" and "rPort < sc_portCount s" and "fr_packet (frame_of w) \<noteq> None"
    and "\<And>v f. w = Tagged v f \<Longrightarrow> 0 \<le> v \<and> v < 2 ^ 31"
  shows "\<exists>out s'. sc_handleMessage now (From_If rPort w) s = Some (out, s') \<and> sc_wf s'"
proof -
  obtain ok v where rec: "sc_reception w rPort s = Some (ok, sc_describe (frame_of w) rPort v)"
    and v: "0 \<le> v" "v < 2 ^ 31" by (rule sc_reception_total [OF assms(1-3,5)])
  let ?d = "sc_describe (frame_of w) rPort v"
  have d: "d_rPort ?d = rPort" "d_VID ?d = v" "d_payload ?d \<noteq> None" using assms(4) by (simp_all add: sc_describe_def)
  have go: "\<exists>out s'. sc_forward now (?d\<lparr>d_portList := ps\<rparr>) s1 = Some (out, s') \<and> sc_wf s'"
    if "sc_wf s1" "sc_portCount s1 = sc_portCount s" "\<forall>vp\<in>set ps. 0 \<le> vp_port vp" for ps s1
    by (rule sc_forward_total [of s1 "?d\<lparr>d_portList := ps\<rparr>"]) (use that d v assms in auto)
  have ports: "\<exists>ps. vt_getPorts v (sc_vlan s) = Some ps \<and> (\<forall>vp\<in>set ps. 0 \<le> vp_port vp)"
    using vt_getPorts_total [OF v, of "sc_vlan s"] vt_getPorts_row [of v "sc_vlan s"] assms(1)
    by (fastforce simp: sc_wf_def vlan_ports_ok_def)
  then obtain ps where ps: "vt_getPorts v (sc_vlan s) = Some ps" "\<forall>vp\<in>set ps. 0 \<le> vp_port vp" by blast
  obtain tl t where g: "mac_getPorts now (d_dest ?d) (sc_mac s) = (tl, t)" by fastforce
  have t: "sc_wf (s\<lparr>sc_mac := t\<rparr>)"
    using sc_wf_mac [OF assms(1)] mac_wf_lookup(1) [of "sc_mac s" now "d_dest ?d"]
      mac_ports_in_getPorts [of "sc_portCount s" "sc_mac s" now "d_dest ?d"] assms(1) g by (simp add: sc_wf_def)
  have tl: "\<forall>p\<in>set tl. 0 \<le> p"
    using mac_ports_in_lookup [of "sc_portCount s" "sc_mac s" _ now "d_dest ?d"] assms(1) g by (simp add: sc_wf_def)
  have "\<exists>out s'. sc_relay now ?d s = Some (out, s') \<and> sc_wf s'"
    using go [OF assms(1)] go [OF t] ps tl d assms(1)
    by (auto simp: sc_relay_def sc_deliverBPDU_def g Let_def)
  then show ?thesis using rec assms(1) by (cases ok) auto
qed

section \<open>Properties\<close>

text \<open>C21: on a well-formed switch a received data frame or BPDU never ends the run, whatever its
  addresses, port and VLAN, and the switch stays well-formed.\<close>

theorem switch_never_stuck:
  assumes "sc_wf s" and "0 \<le> rPort" and "rPort < sc_portCount s" and "fr_packet (frame_of w) \<noteq> None"
    and "\<And>v f. w = Tagged v f \<Longrightarrow> 0 \<le> v \<and> v < 2 ^ 31"
  shows "\<exists>out s'. sc_handleMessage now (From_If rPort w) s = Some (out, s') \<and> sc_wf s'"
  by (rule sc_total [OF assms])

theorem switch_never_stuck_witness:
  "\<exists>out s'. sc_handleMessage 0 (From_If 0 (Untagged (demo_frame 5 6))) demo_switch = Some (out, s') \<and> sc_wf s'"
  by (rule switch_never_stuck [OF demo_switch_wf]) (simp_all add: demo_switch_def demo_frame_def)

text \<open>C1: every frame a received frame makes the switch send leaves through an existing port other
  than the one it came in by, that the frame's VLAN allows and the spanning tree lets forward, and it
  came in by a forwarding port; it carries the same packet between the same addresses; and a frame
  to the bridge group address is never relayed.\<close>

theorem switch_relay_safety:
  assumes "sc_handleMessage now (From_If rPort w) s = Some (out, s')" and "If_Out p w' \<in> set out"
  shows "\<exists>v. classified w rPort s = Some v \<and> p \<noteq> rPort \<and> p < sc_portCount s \<and>
    vt_isAllowed v p (sc_vlan s) = Some True \<and> sc_forwarding p v s = Some True \<and>
    sc_forwarding rPort v s = Some True \<and> fr_dest (frame_of w) \<noteq> bridge_group_address \<and>
    fr_src (frame_of w') = fr_src (frame_of w) \<and> fr_dest (frame_of w') = fr_dest (frame_of w) \<and>
    fr_packet (frame_of w') = fr_packet (frame_of w)"
  using assms(1)
proof (cases rule: sc_from_if_cases)
  case (forward v t ps)
  let ?d = "(sc_describe (frame_of w) rPort v)\<lparr>d_portList := ps\<rparr>"
  note c = sc_forward_closed [OF forward(4)]
  have fwd: "sc_forwarding rPort v s = Some True" and "d_payload ?d \<noteq> None"
    using c(2,3) assms(2) by (auto simp: sc_describe_def split: if_splits)
  then obtain pk where pk: "fr_packet (frame_of w) = Some pk" by (auto simp: sc_describe_def)
  obtain vp where vp: "egress_ok ?d (s\<lparr>sc_mac := t\<rparr>) vp" "send_ok ?d (s\<lparr>sc_mac := t\<rparr>) vp"
      "If_Out p w' = sent ?d (sc_frame ?d (the (d_payload ?d))) vp"
    using c(2) assms(2) by (auto split: if_splits)
  then have p: "p = vp_port vp" "frame_of w' = sc_frame ?d (the (d_payload ?d))"
    by (simp_all add: sent_def split: if_splits)
  show ?thesis
    using forward(1,3) fwd vp(1,2) pk by (auto simp: p egress_ok_def send_ok_def sc_frame_def sc_describe_def)
qed (use assms(2) in auto)

theorem switch_relay_safety_witness:
  "sc_forwarding 1 1 demo_switch = Some True \<and> vt_isAllowed 1 1 (sc_vlan demo_switch) = Some True"
proof -
  let ?w = "Untagged (demo_frame 5 0xFFFFFFFFFFFF)"
  obtain out s' where h: "sc_handleMessage 0 (From_If 0 ?w) demo_switch = Some (out, s')"
    and out: "out = [If_Out 1 (Tagged 1 (demo_frame 5 0xFFFFFFFFFFFF))]"
    using demo_flood by (auto simp del: sc_handleMessage.simps)
  have "classified ?w 0 demo_switch = Some 1"
    by (simp add: classified_def demo_switch_def vt_getVID_def int_at_def res_ok_def)
  then show ?thesis using switch_relay_safety [OF h, of 1] out by auto
qed

text \<open>a frame to the bridge group address that passes the ingress goes to the spanning tree with
  the number of its port, and nowhere else; no table changes.\<close>

theorem switch_bpdu_to_spanning_tree:
  assumes "classified w rPort s = Some v" and "fr_dest (frame_of w) = bridge_group_address"
    and "fr_packet (frame_of w) = Some pk"
  shows "sc_handleMessage now (From_If rPort w) s = Some ([Stp_Out rPort pk], s)"
proof -
  have "sc_reception w rPort s = Some (True, sc_describe (frame_of w) rPort v)"
    using assms(1) by (simp add: sc_reception_classified)
  then show ?thesis
    using assms by (simp add: sc_relay_def sc_deliverBPDU_def sc_describe_def)
qed

theorem switch_bpdu_to_spanning_tree_witness:
  "sc_handleMessage 0 (From_If 0 (Untagged (demo_frame 5 bridge_group_address))) demo_switch =
     Some ([Stp_Out 0 \<lparr>pk_name = [], pk_kind = 0, pk_bytes = 40, pk_body = Data_Payload 1\<rparr>], demo_switch)"
  by (rule switch_bpdu_to_spanning_tree [of _ _ _ 1])
    (simp_all add: classified_def demo_switch_def demo_frame_def vt_getVID_def int_at_def res_ok_def)

text \<open>C25: a broadcast frame, or one to an unknown address, leaves by exactly the ports its VLAN lists,
  but the one it came in by and those the spanning tree blocks, in the VLAN's order, each copy tagged
  or untagged as the VLAN says; it leaves by no port when its own port is blocked.\<close>

theorem switch_flood:
  assumes "sc_handleMessage now (From_If rPort w) s = Some (out, s')" and "classified w rPort s = Some v"
    and "v \<noteq> 0" and "fr_dest (frame_of w) \<noteq> bridge_group_address" and "vt_getPorts v (sc_vlan s) = Some ps"
    and "isBroadcast (fr_dest (frame_of w)) \<or> fst (mac_getPorts now (fr_dest (frame_of w)) (sc_mac s)) = []"
    and "fr_packet (frame_of w) = Some pk"
  shows "out = (if sc_forwarding rPort v s = Some True
     then map (\<lambda>vp. If_Out (vp_port vp)
                 (if vp_action vp = INCLUDE_TAG then Tagged v (sc_frame (sc_describe (frame_of w) rPort v) pk)
                  else Untagged (sc_frame (sc_describe (frame_of w) rPort v) pk)))
            (filter (\<lambda>vp. vp_port vp < sc_portCount s \<and> sc_forwarding (vp_port vp) v s = Some True)
               (filter (\<lambda>vp. vp_port vp \<noteq> rPort) ps))
     else [])"
  using sc_flood_closed [OF assms] .

theorem switch_flood_witness:
  "map_option fst (sc_handleMessage 0 (From_If 0 (Untagged (demo_frame 5 0xFFFFFFFFFFFF))) demo_switch) =
     Some [If_Out 1 (Tagged 1 (demo_frame 5 0xFFFFFFFFFFFF))]"
proof -
  let ?w = "Untagged (demo_frame 5 0xFFFFFFFFFFFF)"
  obtain out s' where h: "sc_handleMessage 0 (From_If 0 ?w) demo_switch = Some (out, s')"
    using demo_flood by (auto simp del: sc_handleMessage.simps)
  have c: "classified ?w 0 demo_switch = Some 1"
    by (simp add: classified_def demo_switch_def vt_getVID_def int_at_def res_ok_def)
  have p: "vt_getPorts 1 (sc_vlan demo_switch) = Some [\<lparr>vp_port = 0, vp_action = REMOVE_TAG\<rparr>, \<lparr>vp_port = 1, vp_action = INCLUDE_TAG\<rparr>]"
    by (simp add: vt_getPorts_def vt_beyond_def demo_switch_def int_at_def)
  have "out = [If_Out 1 (Tagged 1 (demo_frame 5 0xFFFFFFFFFFFF))]"
    using switch_flood [OF h c _ _ p, of "\<lparr>pk_name = [], pk_kind = 0, pk_bytes = 40, pk_body = Data_Payload 1\<rparr>"]
      demo_switch_forwards [of 0] demo_switch_forwards [of 1]
    by (simp add: demo_frame_def bridge_group_address_def isBroadcast_def demo_switch_def sc_frame_def
        sc_describe_def padded_def min_ethernet_frame_bytes_def ether_mac_frame_bytes_def)
  then show ?thesis using h by (simp del: sc_handleMessage.simps)
qed

text \<open>a data frame that came in by a learning port teaches the switch its source: a lookup then
  gives that port alone until the aging time has passed; a frame that came in by a port that does not
  learn teaches nothing and is not forwarded.\<close>

theorem switch_learning:
  assumes "sc_handleMessage now (From_If rPort w) s = Some (out, s')" and "classified w rPort s = Some v"
    and "v \<noteq> 0" and "fr_dest (frame_of w) \<noteq> bridge_group_address"
    and "vt_getPorts v (sc_vlan s) \<noteq> Some [] \<or> \<not> isBroadcast (fr_dest (frame_of w))"
    and "mac_reachable (now, sc_mac s)" and "fr_src (frame_of w) \<noteq> bridge_group_address" and "now \<le> later"
    and "sc_wf s" and "0 \<le> rPort" and "rPort < sc_portCount s"
  shows "if sc_learning rPort v s = Some True
    then fst (mac_getPorts later (fr_src (frame_of w)) (sc_mac s')) =
           (if later < now + mt_agingTime (sc_mac s) then [rPort] else [])
    else out = [] \<and> (sc_mac s' = sc_mac s \<or> sc_mac s' = snd (mac_getPorts now (fr_dest (frame_of w)) (sc_mac s)))"
proof -
  obtain t ps where f: "sc_forward now ((sc_describe (frame_of w) rPort v)\<lparr>d_portList := ps\<rparr>) (s\<lparr>sc_mac := t\<rparr>) = Some (out, s')"
    and t: "t = sc_mac s \<or> t = snd (mac_getPorts now (fr_dest (frame_of w)) (sc_mac s))"
    using sc_relayed [OF assms(1-5)] by metis
  note l = sc_forward_closed(1) [OF f]
  have inv: "mac_inv (now, t)"
    using t mac_reachable_inv [OF assms(6)] mac_inv_lookup by blast
  have age: "mt_agingTime t = mt_agingTime (sc_mac s)"
    using t by (auto simp: mac_getPorts_def split: option.splits)
  show ?thesis
  proof (cases "sc_learning rPort v s = Some True")
    case True
    then have "mac_update now (fr_src (frame_of w)) rPort t = Some (sc_mac s')"
      using l by (auto simp: sc_learn_def sc_describe_def split: Option.bind_splits)
    from mac_learned_lookup [OF inv this assms(8) mac_inv_dynamic [OF inv assms(7)]]
    show ?thesis using True by (simp add: age)
  next
    case False
    have n: "unat (word_of_int rPort :: u32) < sm_portCount (sc_stp s)" "sm_wf (sc_stp s)"
      using assms(9-11) by (simp_all add: sc_wf_def port_unat)
    obtain b where "sc_learning rPort v s = Some b"
      using stp_gate.learning_answers [OF n(2,1)] unfolding sc_learning_def by blast
    with False have no: "sc_learning rPort v s = Some False" by (cases b) auto
    then have "sc_forwarding rPort v s = Some False"
      using stp_gate.not_learning_not_forwarding [OF n(2,1)] by (simp add: sc_learning_def sc_forwarding_def)
    then have "out = []" using sc_forward_closed(2) [OF f] by (simp add: sc_describe_def)
    moreover have "sc_mac s' = t"
      using l no by (simp add: sc_learn_def sc_describe_def) (auto simp: sc_describe_def)
    ultimately show ?thesis using False t by auto
  qed
qed

theorem switch_learning_witness:
  "\<exists>out s'. sc_handleMessage 0 (From_If 0 (Untagged (demo_frame 5 6))) demo_switch = Some (out, s') \<and>
     fst (mac_getPorts (sec 9) 5 (sc_mac s')) = [0]"
proof -
  let ?w = "Untagged (demo_frame 5 6)"
  have "\<exists>out s'. sc_handleMessage 0 (From_If 0 ?w) demo_switch = Some (out, s') \<and> sc_wf s'"
    by (rule sc_total [OF demo_switch_wf]) (simp_all add: demo_switch_def demo_frame_def)
  then obtain out s' where h: "sc_handleMessage 0 (From_If 0 ?w) demo_switch = Some (out, s')" by blast
  have c: "classified ?w 0 demo_switch = Some 1"
    by (simp add: classified_def demo_switch_def vt_getVID_def int_at_def res_ok_def)
  have m: "sc_mac demo_switch = mac_initialize 0 mac_empty" "mt_agingTime (sc_mac demo_switch) = sec 300"
    by (simp_all add: demo_switch_def mac_initialize_def mac_add_def mac_empty_def mac_initDefaults_def Let_def
        mac_make_room_def mac_full_def)
  have "fst (mac_getPorts (sec 9) 5 (sc_mac s')) = [0]"
    using switch_learning [OF h c, of "sec 9"] demo_switch_wf demo_switch_forwards [of 0] mac_reachable.init [of 0] m
    by (simp add: demo_frame_def bridge_group_address_def isBroadcast_def demo_switch_def sec_def)
  then show ?thesis using h by blast
qed

text \<open>a frame to an address the switch has learned always leaves untagged, also by a port on which
  its VLAN is to be tagged.\<close>

theorem switch_known_unicast_untagged:
  assumes "sc_handleMessage now (From_If rPort w) s = Some (out, s')" and "If_Out p w' \<in> set out"
    and "\<not> isBroadcast (fr_dest (frame_of w))"
    and "fst (mac_getPorts now (fr_dest (frame_of w)) (sc_mac s)) \<noteq> []"
  shows "\<exists>f. w' = Untagged f"
  using assms(1)
proof (cases rule: sc_from_if_cases)
  case (forward v t ps)
  then have untag: "\<forall>vp\<in>set ps. vp_action vp = REMOVE_TAG" using assms(3,4) by auto
  show ?thesis
    using sc_forward_closed(2) [OF forward(4)] assms(2) untag by (auto simp: sent_def split: if_splits)
qed (use assms(2) in auto)

theorem switch_known_unicast_untagged_witness:
  "\<exists>out s' f. sc_handleMessage 0 (From_If 0 (Untagged (demo_frame 5 6)))
       (demo_switch\<lparr>sc_mac := the (mac_update 0 6 1 (mac_initialize 0 mac_empty))\<rparr>) = Some (out, s') \<and>
     out = [If_Out 1 (Untagged f)] \<and> vt_getTag 1 1 (sc_vlan demo_switch) = Inr INCLUDE_TAG"
proof -
  obtain out s' w' where h: "sc_handleMessage 0 (From_If 0 (Untagged (demo_frame 5 6)))
       (demo_switch\<lparr>sc_mac := the (mac_update 0 6 1 (mac_initialize 0 mac_empty))\<rparr>) = Some (out, s')"
    and out: "out = [If_Out 1 w']" using demo_known by (auto simp del: sc_handleMessage.simps)
  have "fst (mac_getPorts 0 6 (the (mac_update 0 6 1 (mac_initialize 0 mac_empty)))) \<noteq> []" by code_simp
  then obtain f where "w' = Untagged f"
    using switch_known_unicast_untagged [OF h, of 1 w'] out by (auto simp: isBroadcast_def demo_frame_def)
  moreover have "vt_getTag 1 1 (sc_vlan demo_switch) = Inr INCLUDE_TAG" by code_simp
  ultimately show ?thesis using h out by blast
qed

end
