(* ===== verification/Text.thy ===== *)
theory Text
  imports Ansa_Prelude
begin

text \<open>
  Text as the configuration code reads it: decimal numbers (\<open>atoi\<close>, the extraction of an \<open>int\<close> from a
  \<open>std::stringstream\<close>), dotted IPv4 addresses (\<open>src/src/networklayer/contract/IPv4Address.cc\<close>), and
  the elements of a configuration file, each with its tag, attributes, text and children.
\<close>

unbundle bit_operations_syntax

section \<open>Decimal numbers\<close>

definition isdigit :: "char \<Rightarrow> bool" where
  "isdigit c \<longleftrightarrow> 48 \<le> (of_char c :: nat) \<and> (of_char c :: nat) \<le> 57"

definition isspace :: "char \<Rightarrow> bool" where
  "isspace c \<longleftrightarrow> (of_char c :: nat) = 32 \<or> 9 \<le> (of_char c :: nat) \<and> (of_char c :: nat) \<le> 13"

fun read_digits :: "nat \<Rightarrow> string \<Rightarrow> nat \<times> string" where
  "read_digits acc [] = (acc, [])"
| "read_digits acc (c # cs) =
     (if isdigit c then read_digits (10 * acc + (of_char c - 48)) cs else (acc, c # cs))"

fun dec :: "nat \<Rightarrow> string" where
  "dec n = (if n < 10 then [char_of (48 + n)] else dec (n div 10) @ [char_of (48 + n mod 10)])"

declare dec.simps [simp del]

lemma of_char_digit: "d < 10 \<Longrightarrow> of_char (char_of (48 + d :: nat)) = (48 + d :: nat)"
  by simp

lemma isdigit_digit [simp]: "d < 10 \<Longrightarrow> isdigit (char_of (48 + d :: nat))"
  by (simp add: isdigit_def)

lemma read_digits_dec: "read_digits acc (dec n @ rest) = read_digits (acc * 10 ^ length (dec n) + n) rest"
proof (induction n arbitrary: acc rest rule: dec.induct)
  case (1 n)
  show ?case
  proof (cases "n < 10")
    case True
    then show ?thesis by (simp add: dec.simps [of n] isdigit_def mult.commute)
  next
    case False
    have lt: "n mod 10 < 10" by simp
    have "read_digits acc (dec n @ rest)
        = read_digits (10 * (acc * 10 ^ length (dec (n div 10)) + n div 10) + n mod 10) rest"
      using False 1 isdigit_digit [OF lt] of_char_digit [OF lt]
      by (simp add: dec.simps [of n] del: of_char_of)
    moreover have "10 * (acc * 10 ^ length (dec (n div 10)) + n div 10) + n mod 10
        = acc * 10 ^ length (dec n) + n" (is "?l = ?r")
    proof -
      have "length (dec n) = Suc (length (dec (n div 10)))" using False by (simp add: dec.simps [of n])
      moreover have "10 * (n div 10) + n mod 10 = n" by simp
      ultimately show ?thesis by (simp add: algebra_simps)
    qed
    ultimately show ?thesis by (simp only:)
  qed
qed

lemma dec_first_digit: "\<exists>c cs. dec n = c # cs \<and> isdigit c"
proof (induction n rule: dec.induct)
  case (1 n)
  show ?case
  proof (cases "n < 10")
    case False
    then obtain c cs where "dec (n div 10) = c # cs" "isdigit c" using 1 by blast
    then show ?thesis using False by (simp add: dec.simps [of n])
  qed (simp add: dec.simps [of n])
qed

lemma dec_all_digits: "\<forall>c\<in>set (dec n). isdigit c"
proof (induction n rule: dec.induct)
  case (1 n)
  then show ?case by (cases "n < 10") (auto simp: dec.simps [of n])
qed

lemma read_digits_stop: "\<not> isdigit c \<Longrightarrow> read_digits acc (c # cs) = (acc, c # cs)"
  by simp

text \<open>\<open>atoi\<close>: white space, a sign, digits; text without digits is 0. (A value outside \<open>int\<close> is undefined
  in C; here it is the number itself.)\<close>

definition atoi :: "string \<Rightarrow> int" where
  "atoi s =
     (case dropWhile isspace s of
        [] \<Rightarrow> 0
      | c # cs \<Rightarrow>
          if c = CHR ''-'' then - int (fst (read_digits 0 cs))
          else if c = CHR ''+'' then int (fst (read_digits 0 cs))
          else int (fst (read_digits 0 (c # cs))))"

lemma digit_not_special:
  "isdigit c \<Longrightarrow> \<not> isspace c \<and> c \<noteq> CHR ''-'' \<and> c \<noteq> CHR ''+'' \<and> c \<noteq> CHR '','' \<and> c \<noteq> CHR ''.''"
  by (auto simp: isdigit_def isspace_def)

lemma atoi_dec [simp]: "atoi (dec n) = int n"
proof -
  obtain c cs where c: "dec n = c # cs" "isdigit c" using dec_first_digit by blast
  have "read_digits 0 (dec n @ []) = (n, [])" by (simp only: read_digits_dec) simp
  then show ?thesis using c digit_not_special [OF c(2)] by (simp add: atoi_def)
qed

section \<open>Extraction from a string stream\<close>

text \<open>A stream is what is left to read and whether it is still good; once it is not, an insertion and
  an extraction do nothing. A failed conversion stores 0 where the library follows C++11
  (\<open>fail_zero\<close>) and leaves the variable alone where it follows C++98; the end of the text before
  any character leaves it alone in both. A variable not yet set is \<open>None\<close>.\<close>

type_synonym sstream = "string \<times> bool"

definition ss_insert :: "string \<Rightarrow> sstream \<Rightarrow> sstream" where
  "ss_insert t ss = (case ss of (s, good) \<Rightarrow> if good then (s @ t, True) else (s, False))"

definition int_max :: int where
  "int_max = 2 ^ 31 - 1"

definition ss_store :: "bool \<Rightarrow> int \<Rightarrow> string \<Rightarrow> int option \<Rightarrow> int option \<times> sstream" where
  "ss_store fail_zero n rest v =
     (if n > int_max then ((if fail_zero then Some int_max else v), (rest, False))
      else if n < - int_max - 1 then ((if fail_zero then Some (- int_max - 1) else v), (rest, False))
      else (Some n, (rest, rest \<noteq> [])))"

definition ss_extract :: "bool \<Rightarrow> sstream \<Rightarrow> int option \<Rightarrow> int option \<times> sstream" where
  "ss_extract fail_zero ss v =
     (case ss of (s, good) \<Rightarrow>
        if \<not> good then (v, (s, False))
        else
          (case dropWhile isspace s of
             [] \<Rightarrow> (v, ([], False))
           | c # cs \<Rightarrow>
               let neg = (c = CHR ''-'');
                   body = (if c = CHR ''-'' \<or> c = CHR ''+'' then cs else c # cs)
               in (case body of
                     [] \<Rightarrow> ((if fail_zero then Some 0 else v), ([], False))
                   | d # ds \<Rightarrow>
                       if isdigit d
                       then (case read_digits 0 body of (n, rest) \<Rightarrow>
                               ss_store fail_zero (if neg then - int n else int n) rest v)
                       else ((if fail_zero then Some 0 else v), (body, False)))))"

lemma ss_extract_dec:
  "int n \<le> int_max \<Longrightarrow> ss_extract z (dec n, True) v = (Some (int n), ([], False))"
proof -
  assume le: "int n \<le> int_max"
  obtain c cs where c: "dec n = c # cs" "isdigit c" using dec_first_digit by blast
  have "read_digits 0 (dec n @ []) = (n, [])" by (simp only: read_digits_dec) simp
  then show ?thesis
    using c digit_not_special [OF c(2)] le by (simp add: ss_extract_def ss_store_def int_max_def)
qed

lemma ss_extract_not_good [simp]: "ss_extract z (s, False) v = (v, (s, False))"
  by (simp add: ss_extract_def)

lemma ss_insert_not_good [simp]: "ss_insert t (s, False) = (s, False)"
  by (simp add: ss_insert_def)

section \<open>Dotted IPv4 addresses\<close>

text \<open>\<open>IPv4Address::parseIPAddress\<close>: the loop reads number \<open>i\<close> of four.\<close>

fun parse_ip_loop :: "nat \<Rightarrow> nat list \<Rightarrow> string \<Rightarrow> nat list option" where
  "parse_ip_loop 0 bytes s = None"
| "parse_ip_loop (Suc left) bytes s =
     (case s of
        [] \<Rightarrow> None
      | c # cs \<Rightarrow>
          if \<not> isdigit c then None
          else
            (case read_digits 0 (c # cs) of (num, rest) \<Rightarrow>
               if num > 255 then None
               else
                 (case rest of
                    [] \<Rightarrow> if left = 0 then Some (bytes @ [num]) else None
                  | d # ds \<Rightarrow> if d \<noteq> CHR ''.'' then None else parse_ip_loop left (bytes @ [num]) ds)))"

definition parseIPAddress :: "string \<Rightarrow> nat list option" where
  "parseIPAddress s = (if s = ''<unspec>'' then Some [0, 0, 0, 0] else parse_ip_loop 4 [] s)"

definition ip_of_bytes :: "nat list \<Rightarrow> ipv4_addr" where
  "ip_of_bytes bs = foldl (\<lambda>a b. push_bit 8 a OR of_nat b) 0 bs"

text \<open>\<open>IPv4Address::set(const char*)\<close>; \<open>None\<close> is the exception for an invalid text.\<close>

definition ip_set :: "string \<Rightarrow> ipv4_addr option" where
  "ip_set s = map_option ip_of_bytes (parseIPAddress s)"

definition dotted :: "nat \<Rightarrow> nat \<Rightarrow> nat \<Rightarrow> nat \<Rightarrow> string" where
  "dotted a b c d = dec a @ CHR ''.'' # dec b @ CHR ''.'' # dec c @ CHR ''.'' # dec d"

definition ip_byte :: "ipv4_addr \<Rightarrow> nat \<Rightarrow> nat" where
  "ip_byte a k = unat (drop_bit (24 - 8 * k) a AND 255)"

definition ip_str :: "ipv4_addr \<Rightarrow> string" where
  "ip_str a = (if a = 0 then ''<unspec>'' else dotted (ip_byte a 0) (ip_byte a 1) (ip_byte a 2) (ip_byte a 3))"

section \<open>Configuration elements\<close>

datatype xml = Elem (x_tag: string) (x_attrs: "(string \<times> string) list") (x_value: "string option") (x_children: "xml list")

definition x_attribute :: "string \<Rightarrow> xml \<Rightarrow> string option" where
  "x_attribute n e = map_of (x_attrs e) n"

definition x_first_child :: "string \<Rightarrow> xml \<Rightarrow> xml option" where
  "x_first_child t e = find (\<lambda>c. x_tag c = t) (x_children e)"

definition x_children_with :: "string \<Rightarrow> xml \<Rightarrow> xml list" where
  "x_children_with t e = filter (\<lambda>c. x_tag c = t) (x_children e)"

section \<open>Printing and parsing\<close>

lemma parse_ip_number:
  assumes "n \<le> 255"
  shows "parse_ip_loop (Suc left) bytes (dec n @ CHR ''.'' # rest) = parse_ip_loop left (bytes @ [n]) rest"
    and "parse_ip_loop (Suc 0) bytes (dec n) = Some (bytes @ [n])"
proof -
  obtain c cs where c: "dec n = c # cs" "isdigit c" using dec_first_digit by blast
  have dot: "\<not> isdigit (CHR ''.'')" by (simp add: isdigit_def)
  have r: "read_digits 0 (dec n @ CHR ''.'' # rest) = (n, CHR ''.'' # rest)"
    unfolding read_digits_dec using dot by simp
  have e: "read_digits 0 (dec n @ []) = (n, [])" unfolding read_digits_dec by simp
  show "parse_ip_loop (Suc left) bytes (dec n @ CHR ''.'' # rest) = parse_ip_loop left (bytes @ [n]) rest"
    using r c assms by simp
  show "parse_ip_loop (Suc 0) bytes (dec n) = Some (bytes @ [n])"
    using e c assms by simp
qed

lemma parse_dotted:
  assumes "a \<le> 255" "b \<le> 255" "c \<le> 255" "d \<le> 255"
  shows "parseIPAddress (dotted a b c d) = Some [a, b, c, d]"
proof -
  obtain x xs where x: "dec a = x # xs" "isdigit x" using dec_first_digit by blast
  then have "x \<noteq> CHR ''<''" by (auto simp: isdigit_def)
  then have "dotted a b c d \<noteq> ''<unspec>''" using x by (simp add: dotted_def)
  moreover have "parse_ip_loop 4 [] (dotted a b c d) = Some [a, b, c, d]"
    using assms by (simp add: dotted_def numeral_eq_Suc parse_ip_number del: parse_ip_loop.simps)
  ultimately show ?thesis by (simp add: parseIPAddress_def)
qed

lemma ip_byte_le: "ip_byte a k \<le> 255"
proof -
  have "drop_bit (24 - 8 * k) a AND 255 \<le> 255" by (simp add: word_and_le1)
  then show ?thesis by (simp add: ip_byte_def word_le_nat_alt)
qed

lemma ip_of_bytes_inverse: "ip_of_bytes [ip_byte a 0, ip_byte a 1, ip_byte a 2, ip_byte a 3] = a"
proof -
  have m: "(255 :: ipv4_addr) = mask 8" by (simp add: mask_eq_exp_minus_1)
  show ?thesis
  proof (rule bit_eqI)
    fix n assume "possible_bit TYPE(ipv4_addr) n"
    then consider "n < 8" | "8 \<le> n" "n < 16" | "16 \<le> n" "n < 24" | "24 \<le> n" "n < 32" by fastforce
    then show "bit (ip_of_bytes [ip_byte a 0, ip_byte a 1, ip_byte a 2, ip_byte a 3]) n = bit a n"
      unfolding ip_of_bytes_def ip_byte_def m by cases (auto simp: bit_simps)
  qed
qed

lemma ip_set_ip_str [simp]: "ip_set (ip_str a) = Some a"
proof (cases "a = 0")
  case True
  then show ?thesis by (simp add: ip_set_def ip_str_def parseIPAddress_def ip_of_bytes_def)
next
  case False
  then show ?thesis
    using ip_of_bytes_inverse [of a] by (simp add: ip_set_def ip_str_def parse_dotted ip_byte_le)
qed

text \<open>the text an address is printed as is parsed back to the address, so two addresses are printed
  alike only when they are the same.\<close>

theorem ipv4_text_roundtrip: "ip_set (ip_str a) = Some a \<and> (ip_str a = ip_str b \<longleftrightarrow> a = b)"
proof -
  have "ip_str a = ip_str b \<longleftrightarrow> a = b" by (metis ip_set_ip_str option.inject)
  then show ?thesis by simp
qed

end
