(* ===== verification/Acl.thy ===== *)
theory Acl
  imports Text
begin

text \<open>
  IPv4 access control lists, \<open>src/src/ansa/acl/acl.cc\<close> (the filter between the interfaces and the
  network layer) and \<open>AclContainer.cc\<close> (named lists other modules query): reading the lists from the
  configuration, matching a packet against a list, and the handling of a message. A field the code
  leaves uninitialised is \<open>None\<close>; an operation returns \<open>None\<close> where it throws, uses a null pointer
  or acts on a field without a value.
\<close>

section \<open>Data\<close>

datatype acl_protocol = PROT_ICMP | PROT_IGMP | PROT_IP | PROT_TCP | PROT_UDP | PROT_EIGRP | PROT_OSPF | PROT_SCTP

fun protocol_number :: "acl_protocol \<Rightarrow> int" where
  "protocol_number PROT_ICMP = 1"
| "protocol_number PROT_IGMP = 2"
| "protocol_number PROT_IP = 4"
| "protocol_number PROT_TCP = 6"
| "protocol_number PROT_UDP = 17"
| "protocol_number PROT_EIGRP = 88"
| "protocol_number PROT_OSPF = 89"
| "protocol_number PROT_SCTP = 132"

datatype port_op = PORT_NDEF | PORT_EQ | PORT_NEQ | PORT_GT | PORT_LT | PORT_RNG

record acl_ip =
  ai_addr :: ipv4_addr
  ai_mask :: ipv4_addr
  ai_portBeg :: "int option"
  ai_portEnd :: "int option"
  ai_op :: "port_op option"

text \<open>\<open>used\<close> points to the counter of the rule's entry in the list of statistics: its index there.\<close>

record acl_rule =
  ar_action :: "bool option"
  ar_protocol :: "acl_protocol option"
  ar_source :: acl_ip
  ar_dest :: acl_ip
  ar_used :: nat

text \<open>Counters are \<open>int\<close>s in the code and unbounded here: the model is that of a run with fewer than 2 to the power of 31
  packets.\<close>

record acl_stat =
  st_text :: string
  st_used :: int

datatype transport = Udp int int | Tcp int int | Other_Transport

record datagram =
  dg_src :: ipv4_addr
  dg_dest :: ipv4_addr
  dg_protocol :: int
  dg_transport :: transport

text \<open>A TIP and a TRule as the declarations leave them: \<open>IPv4Address()\<close> is 0.0.0.0.\<close>

definition fresh_ip :: acl_ip where
  "fresh_ip = \<lparr>ai_addr = 0, ai_mask = 0, ai_portBeg = None, ai_portEnd = None, ai_op = None\<rparr>"

definition fresh_rule :: acl_rule where
  "fresh_rule = \<lparr>ar_action = None, ar_protocol = None, ar_source = fresh_ip, ar_dest = fresh_ip, ar_used = 0\<rparr>"

section \<open>Matching\<close>

definition ipIsEqual :: "acl_ip \<Rightarrow> acl_ip \<Rightarrow> bool" where
  "ipIsEqual ip packet \<longleftrightarrow> \<not> (ai_addr ip \<noteq> (ai_addr packet AND ai_mask ip))"

definition portIsEqual :: "acl_ip \<Rightarrow> acl_ip \<Rightarrow> bool option" where
  "portIsEqual ip packet =
     do {
       opr \<leftarrow> ai_op ip;
       b \<leftarrow> ai_portBeg ip;
       p \<leftarrow> ai_portBeg packet;
       (case opr of
          PORT_EQ \<Rightarrow> Some (b = p)
        | PORT_NEQ \<Rightarrow> Some (b \<noteq> p)
        | PORT_GT \<Rightarrow> Some (b < p)
        | PORT_LT \<Rightarrow> Some (b > p)
        | PORT_RNG \<Rightarrow> if b \<le> p then do { e \<leftarrow> ai_portEnd ip; Some (e \<ge> p) } else Some False
        | PORT_NDEF \<Rightarrow> if b \<le> p then do { e \<leftarrow> ai_portEnd ip; Some (e \<ge> p) } else Some False)
     }"

text \<open>The port test of one side of a rule, done for UDP and TCP rules only.\<close>

definition portTest :: "acl_protocol \<Rightarrow> acl_ip \<Rightarrow> acl_ip \<Rightarrow> bool option" where
  "portTest prot ip packet =
     (if prot = PROT_UDP \<or> prot = PROT_TCP then portIsEqual ip packet else Some True)"

fun filterPacket :: "acl_rule list \<Rightarrow> acl_ip \<Rightarrow> acl_ip \<Rightarrow> int \<Rightarrow> acl_stat list \<Rightarrow> (bool \<times> acl_stat list) option" where
  "filterPacket [] source dest protocol stats = Some (False, stats)"
| "filterPacket (r # rs) source dest protocol stats =
     do {
       prot \<leftarrow> ar_protocol r;
       if \<not> (protocol_number prot = protocol \<or> prot = PROT_IP) then filterPacket rs source dest protocol stats
       else if \<not> ipIsEqual (ar_source r) source then filterPacket rs source dest protocol stats
       else do {
         sp \<leftarrow> portTest prot (ar_source r) source;
         if \<not> sp then filterPacket rs source dest protocol stats
         else if \<not> ipIsEqual (ar_dest r) dest then filterPacket rs source dest protocol stats
         else do {
           dp \<leftarrow> portTest prot (ar_dest r) dest;
           if \<not> dp then filterPacket rs source dest protocol stats
           else do {
             a \<leftarrow> ar_action r;
             Some (a, vec_modify (ar_used r) (\<lambda>s. s\<lparr>st_used := st_used s + 1\<rparr>) stats)
           }
         }
       }
     }"

text \<open>The addresses and ports of a packet, as \<open>processPacket\<close> reads them; the cast of the
  transport packet gives a null pointer when it is of the other kind.\<close>

definition packetEnds :: "datagram \<Rightarrow> (acl_ip \<times> acl_ip) option" where
  "packetEnds d =
     (let source = fresh_ip\<lparr>ai_addr := dg_src d\<rparr>; dest = fresh_ip\<lparr>ai_addr := dg_dest d\<rparr> in
      if dg_protocol d = 17 then
        (case dg_transport d of
           Udp sp dp \<Rightarrow> Some (source\<lparr>ai_portBeg := Some sp\<rparr>, dest\<lparr>ai_portBeg := Some dp\<rparr>)
         | _ \<Rightarrow> None)
      else if dg_protocol d = 6 then
        (case dg_transport d of
           Tcp sp dp \<Rightarrow> Some (source\<lparr>ai_portBeg := Some sp\<rparr>, dest\<lparr>ai_portBeg := Some dp\<rparr>)
         | _ \<Rightarrow> None)
      else Some (source, dest))"

section \<open>Reading a rule\<close>

definition andIpWithMask :: "acl_rule \<Rightarrow> acl_rule" where
  "andIpWithMask r =
     r\<lparr>ar_source := (ar_source r)\<lparr>ai_addr := ai_addr (ar_source r) AND ai_mask (ar_source r)\<rparr>,
       ar_dest := (ar_dest r)\<lparr>ai_addr := ai_addr (ar_dest r) AND ai_mask (ar_dest r)\<rparr>\<rparr>"

definition negateWildcard :: "ipv4_addr \<Rightarrow> ipv4_addr" where
  "negateWildcard wc = NOT wc"

definition getAction :: "string \<Rightarrow> acl_rule \<Rightarrow> acl_rule" where
  "getAction action r =
     (if action = ''deny'' then r\<lparr>ar_action := Some False\<rparr>
      else if action = ''permit'' then r\<lparr>ar_action := Some True\<rparr>
      else r)"

definition getProtocol :: "string \<Rightarrow> acl_rule \<Rightarrow> acl_rule" where
  "getProtocol pom r =
     (if pom = ''ip'' \<or> pom = ''4'' then r\<lparr>ar_protocol := Some PROT_IP\<rparr>
      else if pom = ''tcp'' \<or> pom = ''6'' then r\<lparr>ar_protocol := Some PROT_TCP\<rparr>
      else if pom = ''udp'' \<or> pom = ''17'' then r\<lparr>ar_protocol := Some PROT_UDP\<rparr>
      else if pom = ''icmp'' \<or> pom = ''1'' then r\<lparr>ar_protocol := Some PROT_ICMP\<rparr>
      else if pom = ''igmp'' \<or> pom = ''2'' then r\<lparr>ar_protocol := Some PROT_IGMP\<rparr>
      else if pom = ''eigrp'' \<or> pom = ''igrp'' \<or> pom = ''88'' then r\<lparr>ar_protocol := Some PROT_EIGRP\<rparr>
      else if pom = ''ospf'' \<or> pom = ''89'' then r\<lparr>ar_protocol := Some PROT_OSPF\<rparr>
      else r)"

definition named_port :: "string \<Rightarrow> int option" where
  "named_port s =
     map_of [(''ftp-data'', 20), (''ftp'', 21), (''telnet'', 23), (''smtp'', 25), (''tftp'', 69),
             (''www'', 80), (''http'', 80), (''www-http'', 80), (''pop3'', 110), (''pop'', 110),
             (''snmp'', 161), (''irc'', 194), (''ipx'', 213), (''ldap'', 389), (''https'', 443)] s"

text \<open>The two numbers \<open>getPort\<close> reads from the stream, \<open>p1\<close> and \<open>p2\<close>.\<close>

definition port_numbers :: "bool \<Rightarrow> string \<Rightarrow> string \<Rightarrow> int option \<times> int option" where
  "port_numbers fail_zero p_beg p_end =
     (case ss_extract fail_zero (ss_insert p_beg ([], True)) (named_port p_beg) of (p1, ss1) \<Rightarrow>
        (case ss_extract fail_zero (ss_insert p_end ss1) None of (p2, _) \<Rightarrow> (p1, p2)))"

definition port_operator :: "string \<Rightarrow> port_op" where
  "port_operator pom =
     (if pom = ''eq'' then PORT_EQ
      else if pom = ''neq'' then PORT_NEQ
      else if pom = ''gt'' then PORT_GT
      else if pom = ''lt'' then PORT_LT
      else if pom = ''range'' then PORT_RNG
      else PORT_NDEF)"

definition getPort :: "bool \<Rightarrow> string \<Rightarrow> string \<Rightarrow> string \<Rightarrow> acl_ip \<Rightarrow> acl_ip" where
  "getPort fail_zero pom p_beg p_end ip =
     (case port_numbers fail_zero p_beg p_end of (p1, p2) \<Rightarrow>
        let ip1 = ip\<lparr>ai_op := Some (port_operator pom)\<rparr> in
        (case port_operator pom of
           PORT_RNG \<Rightarrow> ip1\<lparr>ai_portBeg := p1, ai_portEnd := p2\<rparr>
         | PORT_NDEF \<Rightarrow> ip1\<lparr>ai_portBeg := Some 0, ai_portEnd := Some 65535\<rparr>
         | _ \<Rightarrow> ip1\<lparr>ai_portBeg := p1\<rparr>))"

text \<open>The leaves of an \<open>entry\<close>: the rule so far, the text of its statistics and the port texts.\<close>

record leaf_state =
  lf_rule :: acl_rule
  lf_text :: string
  lf_src_op :: string
  lf_src_beg :: string
  lf_src_end :: string
  lf_dst_op :: string
  lf_dst_beg :: string
  lf_dst_end :: string

definition acl_leaf :: "string \<Rightarrow> string \<Rightarrow> leaf_state \<Rightarrow> leaf_state option" where
  "acl_leaf tag val l =
     (let r = lf_rule l; src = ar_source r; dst = ar_dest r in
      if tag = ''action'' then Some (l\<lparr>lf_rule := getAction val r\<rparr>)
      else if tag = ''IP_src'' then
        map_option (\<lambda>a. l\<lparr>lf_rule := r\<lparr>ar_source := src\<lparr>ai_addr := a\<rparr>\<rparr>\<rparr>) (ip_set val)
      else if tag = ''WC_src'' then
        map_option (\<lambda>a. l\<lparr>lf_rule := r\<lparr>ar_source := src\<lparr>ai_mask := negateWildcard a\<rparr>\<rparr>\<rparr>) (ip_set val)
      else if tag = ''protocol'' then Some (l\<lparr>lf_rule := getProtocol val r\<rparr>)
      else if tag = ''IP_dst'' then
        map_option (\<lambda>a. l\<lparr>lf_rule := r\<lparr>ar_dest := dst\<lparr>ai_addr := a\<rparr>\<rparr>\<rparr>) (ip_set val)
      else if tag = ''WC_dst'' then
        map_option (\<lambda>a. l\<lparr>lf_rule := r\<lparr>ar_dest := dst\<lparr>ai_mask := negateWildcard a\<rparr>\<rparr>\<rparr>) (ip_set val)
      else if tag = ''port_op_src'' then Some (l\<lparr>lf_src_op := val\<rparr>)
      else if tag = ''port_beg_src'' then Some (l\<lparr>lf_src_beg := val\<rparr>)
      else if tag = ''port_end_src'' then Some (l\<lparr>lf_src_end := val\<rparr>)
      else if tag = ''port_op_dst'' then Some (l\<lparr>lf_dst_op := val\<rparr>)
      else if tag = ''port_beg_dst'' then Some (l\<lparr>lf_dst_beg := val\<rparr>)
      else if tag = ''port_end_dst'' then Some (l\<lparr>lf_dst_end := val\<rparr>)
      else if tag = ''orig'' then Some (l\<lparr>lf_text := val\<rparr>)
      else Some l)"

text \<open>The tags whose value is used; a leaf with one of them and no text is a null pointer.\<close>

definition acl_tags :: "string list" where
  "acl_tags = [''action'', ''IP_src'', ''WC_src'', ''protocol'', ''IP_dst'', ''WC_dst'', ''port_op_src'',
     ''port_beg_src'', ''port_end_src'', ''port_op_dst'', ''port_beg_dst'', ''port_end_dst'', ''orig'']"

fun acl_leaves :: "xml list \<Rightarrow> leaf_state \<Rightarrow> leaf_state option" where
  "acl_leaves [] l = Some l"
| "acl_leaves (e # es) l =
     (if x_tag e \<in> set acl_tags
      then do { v \<leftarrow> x_value e; l' \<leftarrow> acl_leaf (x_tag e) v l; acl_leaves es l' }
      else acl_leaves es l)"

definition acl_entry :: "bool \<Rightarrow> xml \<Rightarrow> (acl_rule \<times> string) option" where
  "acl_entry fail_zero e =
     do {
       l \<leftarrow> acl_leaves (x_children e)
              \<lparr>lf_rule = fresh_rule, lf_text = [], lf_src_op = [], lf_src_beg = [], lf_src_end = [],
               lf_dst_op = [], lf_dst_beg = [], lf_dst_end = []\<rparr>;
       let r = andIpWithMask (lf_rule l) in
       Some (r\<lparr>ar_source := getPort fail_zero (lf_src_op l) (lf_src_beg l) (lf_src_end l) (ar_source r),
               ar_dest := getPort fail_zero (lf_dst_op l) (lf_dst_beg l) (lf_dst_end l) (ar_dest r)\<rparr>, lf_text l)
     }"

text \<open>The entries of a list in order; each gets a new entry of the statistics.\<close>

fun acl_entries :: "bool \<Rightarrow> xml list \<Rightarrow> acl_rule list \<Rightarrow> acl_stat list \<Rightarrow> (acl_rule list \<times> acl_stat list) option" where
  "acl_entries z [] rules stats = Some (rules, stats)"
| "acl_entries z (e # es) rules stats =
     do {
       (r, t) \<leftarrow> acl_entry z e;
       acl_entries z es (rules @ [r\<lparr>ar_used := length stats\<rparr>]) (stats @ [\<lparr>st_text = t, st_used = 0\<rparr>])
     }"

definition default_rule :: "bool \<Rightarrow> nat \<Rightarrow> acl_rule" where
  "default_rule fail_zero i =
     \<lparr>ar_action = Some False, ar_protocol = Some PROT_IP,
      ar_source = getPort fail_zero [] [] [] fresh_ip, ar_dest = getPort fail_zero [] [] [] fresh_ip,
      ar_used = i\<rparr>"

text \<open>One list: its entries and the implicit rule that denies the rest.\<close>

definition acl_list :: "bool \<Rightarrow> string \<Rightarrow> xml \<Rightarrow> acl_stat list \<Rightarrow> (acl_rule list \<times> acl_stat list) option" where
  "acl_list fail_zero text e stats =
     do {
       (rules, stats1) \<leftarrow> acl_entries fail_zero (x_children_with ''entry'' e) [] stats;
       Some (rules @ [default_rule fail_zero (length stats1)], stats1 @ [\<lparr>st_text = text, st_used = 0\<rparr>])
     }"

section \<open>The filter module\<close>

record acl_interface =
  if_gateIndex :: int
  if_dir :: bool
  if_rules :: nat

record acl_state =
  as_acls :: "acl_rule list list"
  as_interfaces :: "acl_interface list"
  as_stats :: "acl_stat list"
  as_aclEnabled :: bool
  as_numPackets :: int
  as_packetsDropped :: int
  as_packetsPermitted :: int
  as_packetsAllowed :: int

text \<open>The elements of \<open>interfaces\<close> from the first \<open>interface\<close> on, whatever their tags. The gate of an
  interface name is the interface table's answer (\<open>if_gate\<close>).\<close>

fun acl_bindings :: "(string \<Rightarrow> int option) \<Rightarrow> nat \<Rightarrow> xml list \<Rightarrow> acl_interface list option" where
  "acl_bindings if_gate i [] = Some []"
| "acl_bindings if_gate i (e # es) =
     do {
       name \<leftarrow> x_value e;
       g \<leftarrow> if_gate name;
       d \<leftarrow> x_attribute ''dir'' e;
       rest \<leftarrow> acl_bindings if_gate i es;
       Some (\<lparr>if_gateIndex = g, if_dir = (d = ''in''), if_rules = i\<rparr> # rest)
     }"

fun acl_lists :: "bool \<Rightarrow> (string \<Rightarrow> int option) \<Rightarrow> xml list \<Rightarrow> acl_state \<Rightarrow> acl_state option" where
  "acl_lists z if_gate [] st = Some st"
| "acl_lists z if_gate (e # es) st =
     do {
       (rules, stats) \<leftarrow> acl_list z ''access-list deny ip any any'' e (as_stats st);
       interfaces \<leftarrow> x_first_child ''interfaces'' e;
       bs \<leftarrow> acl_bindings if_gate (length (as_acls st))
               (dropWhile (\<lambda>c. x_tag c \<noteq> ''interface'') (x_children interfaces));
       acl_lists z if_gate es
         (st\<lparr>as_acls := as_acls st @ [rules], as_interfaces := as_interfaces st @ bs, as_stats := stats\<rparr>)
     }"

text \<open>The document's element for this router is an argument; a missing one is the error.\<close>

definition acl_loadConfigFromXML :: "bool \<Rightarrow> (string \<Rightarrow> int option) \<Rightarrow> xml option \<Rightarrow> acl_state \<Rightarrow> acl_state option" where
  "acl_loadConfigFromXML z if_gate router st =
     do {
       r \<leftarrow> router;
       (case x_first_child ''ACLs'' r of
          None \<Rightarrow> Some (st\<lparr>as_aclEnabled := False\<rparr>)
        | Some acls \<Rightarrow>
            (case x_children_with ''ACL'' acls of
               [] \<Rightarrow> Some (st\<lparr>as_aclEnabled := False\<rparr>)
             | es \<Rightarrow> acl_lists z if_gate es (st\<lparr>as_aclEnabled := True\<rparr>)))
     }"

definition acl_initialize :: "bool \<Rightarrow> (string \<Rightarrow> int option) \<Rightarrow> xml option \<Rightarrow> acl_state option" where
  "acl_initialize z if_gate router =
     acl_loadConfigFromXML z if_gate router
       \<lparr>as_acls = [], as_interfaces = [], as_stats = [], as_aclEnabled = False, as_numPackets = 0,
        as_packetsDropped = 0, as_packetsPermitted = 0, as_packetsAllowed = 0\<rparr>"

definition acl_getRules :: "int \<Rightarrow> bool \<Rightarrow> acl_state \<Rightarrow> nat option" where
  "acl_getRules gateIndex dir st =
     map_option if_rules (find (\<lambda>i. if_gateIndex i = gateIndex \<and> if_dir i = dir) (as_interfaces st))"

definition acl_processPacket :: "datagram \<Rightarrow> acl_rule list \<Rightarrow> acl_state \<Rightarrow> (bool \<times> acl_state) option" where
  "acl_processPacket d rules st =
     do {
       (source, dest) \<leftarrow> packetEnds d;
       (permit, stats) \<leftarrow> filterPacket rules source dest (dg_protocol d) (as_stats st);
       Some (if permit
             then (True, st\<lparr>as_stats := stats, as_packetsPermitted := as_packetsPermitted st + 1\<rparr>)
             else (False, st\<lparr>as_stats := stats, as_packetsDropped := as_packetsDropped st + 1\<rparr>))
     }"

text \<open>A message: its class name, and the datagram when it is one. It is sent on to the network layer,
  to an interface, or nowhere.\<close>

record acl_msg =
  am_class :: string
  am_datagram :: "datagram option"

datatype acl_out = To_Network int | To_If int

definition acl_send :: "bool \<Rightarrow> int \<Rightarrow> acl_out" where
  "acl_send dir index = (if dir then To_Network index else To_If index)"

definition acl_handleMessage :: "string \<Rightarrow> int \<Rightarrow> acl_msg \<Rightarrow> acl_state \<Rightarrow> (acl_out list \<times> acl_state) option" where
  "acl_handleMessage name index msg st =
     (let dir = (name \<noteq> ''toNetworkLayerIn'') in
      if \<not> as_aclEnabled st then Some ([acl_send dir index], st)
      else if am_class msg \<noteq> ''IPDatagram'' then Some ([acl_send dir index], st)
      else
        (let st1 = st\<lparr>as_numPackets := as_numPackets st + 1\<rparr> in
         case acl_getRules index dir st1 of
           None \<Rightarrow> Some ([acl_send dir index], st1\<lparr>as_packetsAllowed := as_packetsAllowed st1 + 1\<rparr>)
         | Some i \<Rightarrow>
             do {
               rules \<leftarrow> vec_at (as_acls st1) i;
               d \<leftarrow> am_datagram msg;
               (permit, st2) \<leftarrow> acl_processPacket d rules st1;
               Some (if permit then ([acl_send dir index], st2) else ([], st2))
             }))"

section \<open>The container of named lists\<close>

record named_acl =
  na_name :: string
  na_rules :: "acl_rule list"

record acl_container =
  ac_acls :: "named_acl list"
  ac_stats :: "acl_stat list"

fun ac_lists :: "bool \<Rightarrow> xml list \<Rightarrow> acl_container \<Rightarrow> acl_container option" where
  "ac_lists z [] c = Some c"
| "ac_lists z (e # es) c =
     do {
       name \<leftarrow> x_attribute ''no'' e;
       (rules, stats) \<leftarrow> acl_list z (''access-list '' @ name @ '' deny ip any any'') e (ac_stats c);
       ac_lists z es \<lparr>ac_acls = ac_acls c @ [\<lparr>na_name = name, na_rules = rules\<rparr>], ac_stats = stats\<rparr>
     }"

definition ac_loadConfigFromXML :: "bool \<Rightarrow> xml option \<Rightarrow> acl_container \<Rightarrow> acl_container option" where
  "ac_loadConfigFromXML z router c =
     do {
       r \<leftarrow> router;
       (case x_first_child ''ACLs'' r of
          None \<Rightarrow> Some c
        | Some acls \<Rightarrow> ac_lists z (x_children_with ''ACL'' acls) c)
     }"

definition ac_getRulesByAclName :: "string \<Rightarrow> acl_container \<Rightarrow> acl_rule list option" where
  "ac_getRulesByAclName name c = map_option na_rules (find (\<lambda>a. na_name a = name) (ac_acls c))"

definition ac_existAcl :: "string \<Rightarrow> acl_container \<Rightarrow> bool" where
  "ac_existAcl name c = (case ac_getRulesByAclName name c of None \<Rightarrow> False | Some _ \<Rightarrow> True)"

definition ac_processPacket :: "datagram \<Rightarrow> acl_rule list \<Rightarrow> acl_container \<Rightarrow> (bool \<times> acl_container) option" where
  "ac_processPacket d rules c =
     do {
       (source, dest) \<leftarrow> packetEnds d;
       (permit, stats) \<leftarrow> filterPacket rules source dest (dg_protocol d) (ac_stats c);
       Some (permit, c\<lparr>ac_stats := stats\<rparr>)
     }"

definition ac_matchPacketToAcl :: "string \<Rightarrow> acl_msg \<Rightarrow> acl_container \<Rightarrow> (bool \<times> acl_container) option" where
  "ac_matchPacketToAcl name msg c =
     (case ac_getRulesByAclName name c of
        None \<Rightarrow> Some (False, c)
      | Some rules \<Rightarrow>
          if am_class msg = ''IPDatagram''
          then do { d \<leftarrow> am_datagram msg; ac_processPacket d rules c }
          else Some (False, c))"

section \<open>What a rule says\<close>

text \<open>A rule that has every field it uses, and the declarative meaning of such a rule.\<close>

definition end_ok :: "acl_ip \<Rightarrow> bool" where
  "end_ok ip \<longleftrightarrow> ai_portBeg ip \<noteq> None \<and> ai_op ip \<noteq> None \<and>
     (ai_op ip \<in> {Some PORT_RNG, Some PORT_NDEF} \<longrightarrow> ai_portEnd ip \<noteq> None)"

definition rule_ok :: "acl_rule \<Rightarrow> bool" where
  "rule_ok r \<longleftrightarrow> ar_action r \<noteq> None \<and> ar_protocol r \<noteq> None \<and> end_ok (ar_source r) \<and> end_ok (ar_dest r)"

definition in_ports :: "acl_ip \<Rightarrow> int \<Rightarrow> bool" where
  "in_ports ip p =
     (let b = the (ai_portBeg ip); e = the (ai_portEnd ip) in
      case the (ai_op ip) of
        PORT_EQ \<Rightarrow> p = b
      | PORT_NEQ \<Rightarrow> p \<noteq> b
      | PORT_GT \<Rightarrow> b < p
      | PORT_LT \<Rightarrow> p < b
      | PORT_RNG \<Rightarrow> b \<le> p \<and> p \<le> e
      | PORT_NDEF \<Rightarrow> b \<le> p \<and> p \<le> e)"

definition packet_port :: "acl_ip \<Rightarrow> int" where
  "packet_port p = the (ai_portBeg p)"

definition rule_matches :: "acl_rule \<Rightarrow> acl_ip \<Rightarrow> acl_ip \<Rightarrow> int \<Rightarrow> bool" where
  "rule_matches r source dest protocol \<longleftrightarrow>
     (the (ar_protocol r) = PROT_IP \<or> protocol_number (the (ar_protocol r)) = protocol) \<and>
     ai_addr source AND ai_mask (ar_source r) = ai_addr (ar_source r) \<and>
     ai_addr dest AND ai_mask (ar_dest r) = ai_addr (ar_dest r) \<and>
     (the (ar_protocol r) \<in> {PROT_UDP, PROT_TCP} \<longrightarrow>
        in_ports (ar_source r) (packet_port source) \<and> in_ports (ar_dest r) (packet_port dest))"

lemma portIsEqual_spec:
  "end_ok ip \<Longrightarrow> ai_portBeg p \<noteq> None \<Longrightarrow> portIsEqual ip p = Some (in_ports ip (packet_port p))"
  by (cases "the (ai_op ip)") (auto simp: portIsEqual_def end_ok_def in_ports_def packet_port_def Let_def)

lemma portTest_spec:
  assumes "end_ok ip" and "prot \<in> {PROT_UDP, PROT_TCP} \<Longrightarrow> ai_portBeg p \<noteq> None"
  shows "portTest prot ip p = Some (prot \<in> {PROT_UDP, PROT_TCP} \<longrightarrow> in_ports ip (packet_port p))"
  using assms by (auto simp: portTest_def portIsEqual_spec)

lemma filterPacket_spec:
  assumes "\<forall>r\<in>set rs. rule_ok r"
    and ports: "protocol = 17 \<or> protocol = 6 \<Longrightarrow> ai_portBeg source \<noteq> None \<and> ai_portBeg dest \<noteq> None"
  shows "filterPacket rs source dest protocol stats =
    Some (case find (\<lambda>r. rule_matches r source dest protocol) rs of
            None \<Rightarrow> (False, stats)
          | Some r \<Rightarrow> (the (ar_action r), vec_modify (ar_used r) (\<lambda>s. s\<lparr>st_used := st_used s + 1\<rparr>) stats))"
  using assms(1)
proof (induction rs)
  case (Cons r rs)
  then obtain prot a where r: "ar_protocol r = Some prot" "ar_action r = Some a" "end_ok (ar_source r)" "end_ok (ar_dest r)"
    by (auto simp: rule_ok_def)
  show ?case
  proof (cases "protocol_number prot = protocol \<or> prot = PROT_IP")
    case False
    then show ?thesis using Cons r by (simp add: rule_matches_def)
  next
    case True
    then have p: "prot \<in> {PROT_UDP, PROT_TCP} \<Longrightarrow> ai_portBeg source \<noteq> None \<and> ai_portBeg dest \<noteq> None"
      using ports by auto
    have "portTest prot (ar_source r) source = Some (prot \<in> {PROT_UDP, PROT_TCP} \<longrightarrow> in_ports (ar_source r) (packet_port source))"
      "portTest prot (ar_dest r) dest = Some (prot \<in> {PROT_UDP, PROT_TCP} \<longrightarrow> in_ports (ar_dest r) (packet_port dest))"
      using portTest_spec [OF r(3)] portTest_spec [OF r(4)] p by blast+
    then show ?thesis using True Cons r by (auto simp: rule_matches_def ipIsEqual_def)
  qed
qed simp

section \<open>Lists read from the configuration\<close>

lemma getPort_default: "getPort z [] b e ip = ip\<lparr>ai_op := Some PORT_NDEF, ai_portBeg := Some 0, ai_portEnd := Some 65535\<rparr>"
  by (simp add: getPort_def port_operator_def Let_def split: prod.split)

lemma default_rule_ok [simp]: "rule_ok (default_rule z i)"
  by (simp add: rule_ok_def default_rule_def getPort_default end_ok_def)

lemma default_rule_matches [simp]: "rule_matches (default_rule z i) s d p"
  by (simp add: rule_matches_def default_rule_def getPort_default fresh_ip_def)

lemma default_rule_used [simp]: "ar_used (default_rule z i) = i" "ar_action (default_rule z i) = Some False"
  by (simp_all add: default_rule_def)

text \<open>The list a rule set is bound to: a last rule that denies the rest.\<close>

definition closed_list :: "bool \<Rightarrow> acl_rule list \<Rightarrow> bool" where
  "closed_list z rs \<longleftrightarrow> rs \<noteq> [] \<and> last rs = default_rule z (ar_used (last rs))"

text \<open>Every rule has a counter of its own, in the order of the statistics.\<close>

definition counters_ok :: "acl_state \<Rightarrow> bool" where
  "counters_ok st \<longleftrightarrow> map ar_used (concat (as_acls st)) = [0..<length (as_stats st)]"

definition acl_wf :: "bool \<Rightarrow> acl_state \<Rightarrow> bool" where
  "acl_wf z st \<longleftrightarrow> counters_ok st \<and> (\<forall>rs\<in>set (as_acls st). closed_list z rs) \<and>
     (\<forall>i\<in>set (as_interfaces st). if_rules i < length (as_acls st))"

lemma acl_entries_counters:
  assumes "acl_entries z es rules stats = Some (rules', stats')"
  shows "\<exists>new. rules' = rules @ new \<and> length stats' = length stats + length new \<and>
    map ar_used new = [length stats..<length stats'] \<and>
    (\<exists>t. stats' = stats @ t \<and> (\<forall>s\<in>set t. st_used s = 0))"
  using assms
proof (induction es arbitrary: rules stats)
  case (Cons e es)
  then obtain r t where e: "acl_entry z e = Some (r, t)"
    and es: "acl_entries z es (rules @ [r\<lparr>ar_used := length stats\<rparr>]) (stats @ [\<lparr>st_text = t, st_used = 0\<rparr>]) = Some (rules', stats')"
    by (auto split: Option.bind_splits)
  from Cons.IH [OF es] obtain new u where n: "rules' = (rules @ [r\<lparr>ar_used := length stats\<rparr>]) @ new"
    "length stats' = Suc (length stats) + length new" "map ar_used new = [Suc (length stats)..<length stats']"
    "stats' = (stats @ [\<lparr>st_text = t, st_used = 0\<rparr>]) @ u" "\<forall>s\<in>set u. st_used s = 0" by auto
  have "length stats < length stats'" using n(2) by simp
  then have "[length stats..<length stats'] = length stats # [Suc (length stats)..<length stats']"
    by (rule upt_conv_Cons)
  then have "map ar_used (r\<lparr>ar_used := length stats\<rparr> # new) = [length stats..<length stats']" using n(3) by simp
  moreover have "rules' = rules @ (r\<lparr>ar_used := length stats\<rparr> # new)"
    "length stats' = length stats + length (r\<lparr>ar_used := length stats\<rparr> # new)" using n(1,2) by simp_all
  moreover have "stats' = stats @ (\<lparr>st_text = t, st_used = 0\<rparr> # u) \<and> (\<forall>s\<in>set (\<lparr>st_text = t, st_used = 0\<rparr> # u). st_used s = 0)"
    using n(4,5) by simp
  ultimately show ?case by blast
qed simp

lemma acl_list_counters:
  assumes "acl_list z text e stats = Some (rules, stats')"
  shows "closed_list z rules \<and> map ar_used rules = [length stats..<length stats'] \<and> length stats \<le> length stats' \<and>
    (\<exists>t. stats' = stats @ t \<and> (\<forall>s\<in>set t. st_used s = 0))"
proof -
  obtain new st1 where e: "acl_entries z (x_children_with ''entry'' e) [] stats = Some (new, st1)"
    and r: "rules = new @ [default_rule z (length st1)]" "stats' = st1 @ [\<lparr>st_text = text, st_used = 0\<rparr>]"
    using assms by (auto simp: acl_list_def split: Option.bind_splits)
  have "map ar_used new = [length stats..<length st1]" "length stats \<le> length st1"
    "\<exists>t. st1 = stats @ t \<and> (\<forall>s\<in>set t. st_used s = 0)"
    using acl_entries_counters [OF e] by auto
  then show ?thesis using r by (auto simp: closed_list_def)
qed

lemma acl_bindings_rules: "acl_bindings g i es = Some bs \<Longrightarrow> \<forall>b\<in>set bs. if_rules b = i"
  by (induction es arbitrary: bs) (auto split: Option.bind_splits)

lemma acl_lists_preserve:
  assumes "acl_lists z g es st = Some st'" and "acl_wf z st" and "\<forall>s\<in>set (as_stats st). st_used s = 0"
  shows "acl_wf z st' \<and> (\<forall>s\<in>set (as_stats st'). st_used s = 0) \<and> as_numPackets st' = as_numPackets st \<and>
    as_packetsDropped st' = as_packetsDropped st \<and> as_packetsPermitted st' = as_packetsPermitted st \<and>
    as_packetsAllowed st' = as_packetsAllowed st"
  using assms
proof (induction es arbitrary: st)
  case (Cons e es)
  then obtain rules stats bs where l: "acl_list z ''access-list deny ip any any'' e (as_stats st) = Some (rules, stats)"
    and bs: "\<exists>xs. acl_bindings g (length (as_acls st)) xs = Some bs"
    and rec: "acl_lists z g es (st\<lparr>as_acls := as_acls st @ [rules], as_interfaces := as_interfaces st @ bs, as_stats := stats\<rparr>) = Some st'"
    by (fastforce split: Option.bind_splits)
  have b: "\<forall>i\<in>set bs. if_rules i = length (as_acls st)" using bs acl_bindings_rules by blast
  note c = acl_list_counters [OF l]
  have upt: "[0..<length stats] = [0..<length (as_stats st)] @ [length (as_stats st)..<length stats]"
    using c upt_add_eq_append [of 0 "length (as_stats st)" "length stats - length (as_stats st)"] by simp
  have "acl_wf z (st\<lparr>as_acls := as_acls st @ [rules], as_interfaces := as_interfaces st @ bs, as_stats := stats\<rparr>)"
    using Cons.prems(2) c b unfolding acl_wf_def counters_ok_def by (auto simp: upt less_Suc_eq)
  moreover have "\<forall>s\<in>set stats. st_used s = 0" using c Cons.prems(3) by auto
  ultimately show ?case using Cons.IH [OF rec] by simp
qed simp

section \<open>The filter at work\<close>

definition used_total :: "acl_stat list \<Rightarrow> int" where
  "used_total stats = sum_list (map st_used stats)"

lemma used_total_modify:
  "i < length stats \<Longrightarrow>
    used_total (vec_modify i (\<lambda>s. s\<lparr>st_used := st_used s + 1\<rparr>) stats) = used_total stats + 1"
proof (induction stats arbitrary: i)
  case (Cons s stats)
  then show ?case by (cases i) (auto simp: used_total_def vec_modify_def)
qed simp

lemma used_total_zero: "\<forall>s\<in>set stats. st_used s = 0 \<Longrightarrow> used_total stats = 0"
  by (induction stats) (auto simp: used_total_def)

lemma filterPacket_default:
  "filterPacket [default_rule z i] s d p stats =
    Some (False, vec_modify i (\<lambda>x. x\<lparr>st_used := st_used x + 1\<rparr>) stats)"
  by (simp add: default_rule_def getPort_default portTest_def ipIsEqual_def fresh_ip_def)

lemma filterPacket_counts:
  assumes "filterPacket rs s d p stats = Some (a, stats')" and "closed_list z rs"
    and "\<forall>r\<in>set rs. ar_used r < length stats"
  shows "length stats' = length stats \<and> used_total stats' = used_total stats + 1"
  using assms
proof (induction rs)
  case (Cons r rs)
  show ?case
  proof (cases "rs = []")
    case True
    then obtain i where r: "r = default_rule z i" using Cons.prems(2) unfolding closed_list_def by auto
    have "Some (a, stats') = Some (False, vec_modify i (\<lambda>x. x\<lparr>st_used := st_used x + 1\<rparr>) stats)"
      using Cons.prems(1) unfolding r True filterPacket_default by (rule sym)
    then have "stats' = vec_modify (ar_used r) (\<lambda>x. x\<lparr>st_used := st_used x + 1\<rparr>) stats" by (simp add: r)
    then show ?thesis using Cons.prems(3) by (simp add: used_total_modify)
  next
    case False
    then have closed: "closed_list z rs" using Cons.prems(2) by (simp add: closed_list_def)
    consider "filterPacket rs s d p stats = Some (a, stats')"
      | "stats' = vec_modify (ar_used r) (\<lambda>x. x\<lparr>st_used := st_used x + 1\<rparr>) stats"
      using Cons.prems(1) by (auto split: Option.bind_splits if_splits)
    then show ?thesis using Cons.IH [OF _ closed] Cons.prems(3) used_total_modify by cases simp_all
  qed
qed (simp add: closed_list_def)

text \<open>The states the module can be in: after the configuration is read, and after each message.\<close>

inductive acl_reachable :: "bool \<Rightarrow> acl_state \<Rightarrow> bool" for z where
  init: "acl_initialize z if_gate router = Some st \<Longrightarrow> acl_reachable z st"
| message: "acl_reachable z st \<Longrightarrow> acl_handleMessage name index msg st = Some (out, st') \<Longrightarrow> acl_reachable z st'"

definition acl_accounts :: "acl_state \<Rightarrow> bool" where
  "acl_accounts st \<longleftrightarrow>
     as_numPackets st = as_packetsAllowed st + as_packetsPermitted st + as_packetsDropped st \<and>
     used_total (as_stats st) = as_packetsPermitted st + as_packetsDropped st"

lemma acl_initialize_inv:
  assumes "acl_initialize z g router = Some st"
  shows "acl_wf z st \<and> acl_accounts st"
proof -
  let ?s = "\<lambda>b. \<lparr>as_acls = [], as_interfaces = [], as_stats = [], as_aclEnabled = b, as_numPackets = 0,
        as_packetsDropped = 0, as_packetsPermitted = 0, as_packetsAllowed = 0\<rparr>"
  have wf: "acl_wf z (?s b)" for b by (simp add: acl_wf_def counters_ok_def)
  consider "st = ?s False" | es where "acl_lists z g es (?s True) = Some st"
    using assms by (auto simp: acl_initialize_def acl_loadConfigFromXML_def simp del: acl_lists.simps split: Option.bind_splits option.splits list.splits)
  then show ?thesis
  proof cases
    case 1
    then show ?thesis using wf by (simp add: acl_accounts_def used_total_def)
  next
    case 2
    from acl_lists_preserve [OF 2 wf] show ?thesis by (simp add: acl_accounts_def used_total_zero)
  qed
qed

lemma acl_wf_rules:
  assumes "acl_wf z st" and "i < length (as_acls st)"
  shows "closed_list z (as_acls st ! i) \<and> (\<forall>r\<in>set (as_acls st ! i). ar_used r < length (as_stats st))"
proof -
  have mem: "as_acls st ! i \<in> set (as_acls st)" using assms(2) by simp
  have "set (map ar_used (concat (as_acls st))) = {0..<length (as_stats st)}"
    using assms(1) by (simp add: acl_wf_def counters_ok_def)
  then have "\<forall>r\<in>set (concat (as_acls st)). ar_used r < length (as_stats st)" by fastforce
  then show ?thesis using mem assms(1) by (auto simp: acl_wf_def)
qed

lemma acl_handleMessage_inv:
  assumes "acl_handleMessage name index msg st = Some (out, st')" and wf: "acl_wf z st" and acc: "acl_accounts st"
  shows "acl_wf z st' \<and> acl_accounts st'"
proof -
  consider "st' = st" | "st' = st\<lparr>as_numPackets := as_numPackets st + 1, as_packetsAllowed := as_packetsAllowed st + 1\<rparr>"
    | i s d p stats permit where "i < length (as_acls st)"
      "filterPacket (as_acls st ! i) s d p (as_stats st) = Some (permit, stats)"
      "st' = (if permit then st\<lparr>as_numPackets := as_numPackets st + 1, as_stats := stats, as_packetsPermitted := as_packetsPermitted st + 1\<rparr>
              else st\<lparr>as_numPackets := as_numPackets st + 1, as_stats := stats, as_packetsDropped := as_packetsDropped st + 1\<rparr>)"
    using assms(1)
    by (fastforce simp: acl_handleMessage_def acl_processPacket_def Let_def vec_at_def
        split: if_splits option.splits Option.bind_splits)
  then show ?thesis
  proof cases
    case 3
    then have "length stats = length (as_stats st) \<and> used_total stats = used_total (as_stats st) + 1"
      using acl_wf_rules [OF wf] filterPacket_counts by blast
    then show ?thesis using wf acc 3(3) by (auto simp: acl_wf_def counters_ok_def acl_accounts_def)
  qed (use wf acc in \<open>auto simp: acl_wf_def counters_ok_def acl_accounts_def\<close>)
qed

lemma acl_reachable_inv: "acl_reachable z st \<Longrightarrow> acl_wf z st \<and> acl_accounts st"
  by (induction rule: acl_reachable.induct) (blast dest: acl_initialize_inv acl_handleMessage_inv)+

lemma packetEnds_ports:
  "packetEnds d = Some (s, t) \<Longrightarrow> dg_protocol d = 17 \<or> dg_protocol d = 6 \<Longrightarrow> ai_portBeg s \<noteq> None \<and> ai_portBeg t \<noteq> None"
  by (auto simp: packetEnds_def Let_def split: if_splits transport.splits)

text \<open>A router with one list on its interface eth0: telnet from 10.0.0.0/8 to 192.168.1.1 is denied,
  the rest of 10.0.0.0/8 permitted.\<close>

definition demo_leaf :: "string \<Rightarrow> string \<Rightarrow> xml" where
  "demo_leaf t v = Elem t [] (Some v) []"

definition demo_config :: xml where
  "demo_config = Elem ''Router'' [] None
    [Elem ''ACLs'' [] None
      [Elem ''ACL'' [(''no'', ''101'')] None
        [Elem ''entry'' [] None
           [demo_leaf ''action'' ''deny'', demo_leaf ''protocol'' ''tcp'', demo_leaf ''IP_src'' ''10.0.0.0'',
            demo_leaf ''WC_src'' ''0.255.255.255'', demo_leaf ''IP_dst'' ''192.168.1.1'',
            demo_leaf ''WC_dst'' ''0.0.0.0'', demo_leaf ''port_op_dst'' ''eq'', demo_leaf ''port_beg_dst'' ''23''],
         Elem ''entry'' [] None
           [demo_leaf ''action'' ''permit'', demo_leaf ''protocol'' ''ip'', demo_leaf ''IP_src'' ''10.0.0.0'',
            demo_leaf ''WC_src'' ''0.255.255.255'', demo_leaf ''IP_dst'' ''0.0.0.0'',
            demo_leaf ''WC_dst'' ''255.255.255.255''],
         Elem ''interfaces'' [] None [Elem ''interface'' [(''dir'', ''in'')] (Some ''eth0'') []]]]]"

definition demo_gates :: "string \<Rightarrow> int option" where
  "demo_gates n = (if n = ''eth0'' then Some 0 else None)"

definition demo_acl :: acl_state where
  "demo_acl = the (acl_initialize True demo_gates (Some demo_config))"

definition demo_telnet :: datagram where
  "demo_telnet = \<lparr>dg_src = 0x0A010203, dg_dest = 0xC0A80101, dg_protocol = 6, dg_transport = Tcp 1024 23\<rparr>"

definition demo_web :: datagram where
  "demo_web = demo_telnet\<lparr>dg_transport := Tcp 1024 80\<rparr>"

lemma demo_acl_init: "acl_initialize True demo_gates (Some demo_config) = Some demo_acl"
  by code_simp

lemma demo_acl_reachable: "acl_reachable True demo_acl"
  by (rule acl_reachable.init [OF demo_acl_init])

text \<open>The verdict of a bound list on a datagram: the action of the first rule that matches its addresses,
  protocol and ports. There always is such a rule, and its counter goes up by one.\<close>

definition acl_judged :: "acl_rule \<Rightarrow> acl_state \<Rightarrow> acl_state" where
  "acl_judged r st =
     (let st' = st\<lparr>as_stats := vec_modify (ar_used r) (\<lambda>s. s\<lparr>st_used := st_used s + 1\<rparr>) (as_stats st)\<rparr> in
      if the (ar_action r) then st'\<lparr>as_packetsPermitted := as_packetsPermitted st + 1\<rparr>
      else st'\<lparr>as_packetsDropped := as_packetsDropped st + 1\<rparr>)"

lemma acl_verdict:
  assumes reach: "acl_reachable z st" and bound: "acl_getRules index dir st = Some i"
    and ok: "\<forall>r\<in>set (as_acls st ! i). rule_ok r" and ends: "packetEnds d = Some (source, dest)"
  shows "i < length (as_acls st) \<and> (\<exists>r. find (\<lambda>r. rule_matches r source dest (dg_protocol d)) (as_acls st ! i) = Some r \<and>
    (\<forall>n. acl_processPacket d (as_acls st ! i) (st\<lparr>as_numPackets := n\<rparr>) = Some (the (ar_action r), (acl_judged r st)\<lparr>as_numPackets := n\<rparr>)))"
proof -
  note wf = acl_reachable_inv [OF reach, THEN conjunct1]
  obtain k where "k < length (as_interfaces st)" "if_rules (as_interfaces st ! k) = i"
    using bound by (auto simp: acl_getRules_def find_Some_iff)
  then have i: "i < length (as_acls st)" using wf by (auto simp: acl_wf_def)
  have c: "closed_list z (as_acls st ! i)" using acl_wf_rules [OF wf i] by blast
  have "last (as_acls st ! i) \<in> set (as_acls st ! i)" using c unfolding closed_list_def by (intro last_in_set) blast
  moreover have "rule_matches (last (as_acls st ! i)) source dest (dg_protocol d)"
    using c default_rule_matches unfolding closed_list_def by metis
  ultimately obtain r where r: "find (\<lambda>r. rule_matches r source dest (dg_protocol d)) (as_acls st ! i) = Some r"
    by (cases "find (\<lambda>r. rule_matches r source dest (dg_protocol d)) (as_acls st ! i)") (auto simp: find_None_iff)
  note f = filterPacket_spec [OF ok, of "dg_protocol d" source dest "as_stats st", OF packetEnds_ports [OF ends]]
  show ?thesis
    using r f i ends by (simp add: acl_processPacket_def acl_judged_def Let_def)
qed

text \<open>The filtering branch of the module, which only a message of class IPDatagram enters: it leaves by the
  opposite gate exactly when the verdict permits, and the packets are counted. No message of this tree is of
  that class.\<close>

lemma acl_filtering_branch:
  assumes reach: "acl_reachable z st" and on: "as_aclEnabled st"
    and bound: "acl_getRules index (name \<noteq> ''toNetworkLayerIn'') st = Some i"
    and ok: "\<forall>r\<in>set (as_acls st ! i). rule_ok r" and ends: "packetEnds d = Some (source, dest)"
  shows "\<exists>r. find (\<lambda>r. rule_matches r source dest (dg_protocol d)) (as_acls st ! i) = Some r \<and>
    acl_handleMessage name index \<lparr>am_class = ''IPDatagram'', am_datagram = Some d\<rparr> st =
      Some (if the (ar_action r) then [acl_send (name \<noteq> ''toNetworkLayerIn'') index] else [],
        (acl_judged r st)\<lparr>as_numPackets := as_numPackets st + 1\<rparr>)"
proof -
  have b: "acl_getRules index (name \<noteq> ''toNetworkLayerIn'') (st\<lparr>as_numPackets := n\<rparr>) = Some i" for n
    using bound by (simp add: acl_getRules_def)
  show ?thesis using acl_verdict [OF reach bound ok ends] on b by (auto simp: acl_handleMessage_def Let_def)
qed

text \<open>C30: the filter's accounts balance in every state it can reach: each packet it saw was let
  through without a list, permitted or dropped, and the counters of the rules add up to the packets a rule
  decided. Every rule has its own counter, every list ends with the rule that denies the rest, and every
  bound list exists.\<close>

theorem acl_accounts_balance:
  assumes "acl_reachable z st"
  shows "as_numPackets st = as_packetsAllowed st + as_packetsPermitted st + as_packetsDropped st \<and>
    used_total (as_stats st) = as_packetsPermitted st + as_packetsDropped st \<and> acl_wf z st"
  using acl_reachable_inv [OF assms] by (simp add: acl_accounts_def)

lemma acl_accounts_balance_witness:
  "\<exists>st. map_option snd (acl_handleMessage ''ifIn'' 0 \<lparr>am_class = ''IPDatagram'', am_datagram = Some demo_telnet\<rparr> demo_acl) = Some st \<and>
     as_packetsDropped st = 1 \<and> used_total (as_stats st) = 1 \<and> acl_wf True st"
proof -
  obtain out st where h: "acl_handleMessage ''ifIn'' 0 \<lparr>am_class = ''IPDatagram'', am_datagram = Some demo_telnet\<rparr> demo_acl = Some (out, st)"
    and p: "as_packetsPermitted st = 0" "as_packetsDropped st = 1"
  proof -
    have "(case acl_handleMessage ''ifIn'' 0 \<lparr>am_class = ''IPDatagram'', am_datagram = Some demo_telnet\<rparr> demo_acl of
       None \<Rightarrow> False | Some (out, st) \<Rightarrow> as_packetsPermitted st = 0 \<and> as_packetsDropped st = 1)" by code_simp
    then show thesis using that by (auto split: option.splits)
  qed
  show ?thesis using acl_accounts_balance [OF acl_reachable.message [OF demo_acl_reachable h]] h p by simp
qed

text \<open>An entry for IP with addresses and wildcards on both sides.\<close>

definition acl_ip_entry :: "string \<Rightarrow> ipv4_addr \<Rightarrow> ipv4_addr \<Rightarrow> ipv4_addr \<Rightarrow> ipv4_addr \<Rightarrow> xml" where
  "acl_ip_entry action a w b v = Elem ''entry'' [] None
     [demo_leaf ''action'' action, demo_leaf ''IP_src'' (ip_str a), demo_leaf ''WC_src'' (ip_str w),
      demo_leaf ''protocol'' ''ip'', demo_leaf ''IP_dst'' (ip_str b), demo_leaf ''WC_dst'' (ip_str v)]"

lemma wildcard_bits:
  "(p AND NOT w = a AND NOT w) \<longleftrightarrow> (\<forall>n. bit w n \<or> bit p n = bit a n)" for p w a :: ipv4_addr
proof -
  have "bit p n = bit a n" if "\<not> n < 32" for n
    using that bit_imp_le_length [of p n] bit_imp_le_length [of a n] by auto
  then show ?thesis by (auto simp: bit_eq_iff bit_simps)
qed

text \<open>an address with a wildcard selects the addresses that agree with it outside the wildcard. A
  configured rule with plain addresses and wildcards, whatever their values, is read without an error, has
  every field it uses, and applies to exactly the datagrams whose source and destination have, in each bit
  the wildcard does not cover, the value of the rule's.\<close>

theorem acl_wildcard_rule:
  assumes "action = ''permit'' \<or> action = ''deny''"
  shows "\<exists>r text. acl_entry z (acl_ip_entry action a w b v) = Some (r, text) \<and> rule_ok r \<and>
    ar_action r = Some (action = ''permit'') \<and>
    (\<forall>source dest protocol. rule_matches r source dest protocol \<longleftrightarrow>
       (\<forall>n. (bit w n \<or> bit (ai_addr source) n = bit a n) \<and> (bit v n \<or> bit (ai_addr dest) n = bit b n)))"
proof -
  define r where "r = \<lparr>ar_action = Some (action = ''permit''), ar_protocol = Some PROT_IP,
    ar_source = \<lparr>ai_addr = a AND NOT w, ai_mask = NOT w, ai_portBeg = Some 0, ai_portEnd = Some 65535, ai_op = Some PORT_NDEF\<rparr>,
    ar_dest = \<lparr>ai_addr = b AND NOT v, ai_mask = NOT v, ai_portBeg = Some 0, ai_portEnd = Some 65535, ai_op = Some PORT_NDEF\<rparr>,
    ar_used = 0\<rparr>"
  have "acl_entry z (acl_ip_entry action a w b v) = Some (r, [])"
    using assms
    by (auto simp: acl_entry_def acl_ip_entry_def demo_leaf_def acl_tags_def acl_leaf_def Let_def getAction_def
        getProtocol_def fresh_rule_def fresh_ip_def andIpWithMask_def negateWildcard_def getPort_default r_def)
  moreover have "rule_ok r" by (simp add: rule_ok_def end_ok_def r_def)
  moreover have "rule_matches r source dest protocol \<longleftrightarrow>
      (\<forall>n. (bit w n \<or> bit (ai_addr source) n = bit a n) \<and> (bit v n \<or> bit (ai_addr dest) n = bit b n))"
    for source dest protocol
    by (simp add: rule_matches_def r_def wildcard_bits all_conj_distrib)
  ultimately show ?thesis by (intro exI [of _ r]) (simp add: r_def)
qed

lemma acl_wildcard_rule_witness:
  "\<exists>r text. acl_entry True (acl_ip_entry ''permit'' 0x0A000000 0x00FFFFFF 0 0xFFFFFFFF) = Some (r, text) \<and>
     rule_matches r (fresh_ip\<lparr>ai_addr := 0x0A010203\<rparr>) fresh_ip 6 \<and>
     \<not> rule_matches r (fresh_ip\<lparr>ai_addr := 0x0B010203\<rparr>) fresh_ip 6"
proof -
  obtain r t where r: "acl_entry True (acl_ip_entry ''permit'' 0x0A000000 0x00FFFFFF 0 0xFFFFFFFF) = Some (r, t)"
    using acl_wildcard_rule [of "''permit''"] by blast
  have "(case acl_entry True (acl_ip_entry ''permit'' 0x0A000000 0x00FFFFFF 0 0xFFFFFFFF) of
      None \<Rightarrow> False
    | Some (r, t) \<Rightarrow> rule_matches r (fresh_ip\<lparr>ai_addr := 0x0A010203\<rparr>) fresh_ip 6 \<and>
        \<not> rule_matches r (fresh_ip\<lparr>ai_addr := 0x0B010203\<rparr>) fresh_ip 6)"
    unfolding rule_matches_def by code_simp
  then show ?thesis using r by simp
qed

text \<open>a port range keeps its beginning only. The numbers of a range are read from one stream: reading
  the first to its end leaves the stream at the end of the text, so the second is neither inserted nor
  read, and the end of the range stays unset. A rule with such a range makes the filter use an unset field
  on every packet that reaches its port test at or above the beginning.\<close>

theorem acl_range_loses_its_end:
  assumes "int m \<le> int_max"
  shows "ai_portBeg (getPort z ''range'' (dec m) p_end ip) = Some (int m) \<and>
    ai_portEnd (getPort z ''range'' (dec m) p_end ip) = None \<and>
    portIsEqual (getPort z ''range'' (dec m) p_end ip) packet =
      (case ai_portBeg packet of None \<Rightarrow> None | Some p \<Rightarrow> if int m \<le> p then None else Some False)"
proof -
  have "ss_extract z (dec m, True) v = (Some (int m), ([], False))" for v using assms by (rule ss_extract_dec)
  then have "port_numbers z (dec m) p_end = (Some (int m), None)"
    by (simp add: port_numbers_def ss_insert_def)
  then show ?thesis
    by (simp add: getPort_def port_operator_def Let_def portIsEqual_def split: option.split)
qed

lemma acl_range_loses_its_end_witness:
  "portIsEqual (getPort True ''range'' ''20'' ''30'' fresh_ip) (fresh_ip\<lparr>ai_portBeg := Some 25\<rparr>) = None"
proof -
  have "dec 20 = ''20''" by code_simp
  then show ?thesis using acl_range_loses_its_end [of 20 True "''30''" fresh_ip "fresh_ip\<lparr>ai_portBeg := Some 25\<rparr>"]
    by (simp add: int_max_def)
qed

text \<open>a port given by name is port 0 where the library stores 0 on a failed conversion: the name's
  number is set first and then overwritten by the reading of the name as a number. Only where the variable
  is left alone does the name mean its port.\<close>

theorem acl_named_port_overwritten:
  "map (\<lambda>n. ai_portBeg (getPort True ''eq'' n [] ip)) [''www'', ''telnet'', ''ftp'', ''snmp'', ''https''] =
     [Some 0, Some 0, Some 0, Some 0, Some 0] \<and>
   map (\<lambda>n. ai_portBeg (getPort False ''eq'' n [] ip)) [''www'', ''telnet'', ''ftp'', ''snmp'', ''https''] =
     [Some 80, Some 23, Some 21, Some 161, Some 443]"
  by (simp add: getPort_def port_operator_def port_numbers_def named_port_def ss_insert_def ss_extract_def
      isdigit_def isspace_def Let_def)

text \<open>An IPv4 datagram is never filtered. The module and the container recognise a datagram by the
  class name IPDatagram, and the datagrams of the network layer are of class IPv4Datagram: every message
  is passed on as it is, whatever the lists say, no counter moves, and the container never matches one.\<close>

lemma acl_ipv4_never_filtered:
  "acl_handleMessage name index (msg\<lparr>am_class := ''IPv4Datagram''\<rparr>) st =
     Some ([if name = ''toNetworkLayerIn'' then To_If index else To_Network index], st) \<and>
   ac_matchPacketToAcl list_name (msg\<lparr>am_class := ''IPv4Datagram''\<rparr>) c = Some (False, c)"
  by (auto simp: acl_handleMessage_def acl_send_def ac_matchPacketToAcl_def Let_def split: option.split)

text \<open>C29: the verdict of an access list on an IPv4 datagram, and what becomes of the datagram. For a list bound
  to the gate in any state the module reaches, whose rules have the fields they use, the filter's own decision
  procedure is right: the first rule that matches the addresses, protocol and ports of the datagram decides, there
  always is one, and that rule's counter and the count of permitted or dropped packets go up by one. But the module
  does not ask it: it takes only messages of a class named IPDatagram to the filter, the datagrams are of class
  IPv4Datagram, and so the datagram is passed on to the opposite gate unchanged and uncounted, also when the
  verdict is to drop it.\<close>

theorem acl_verdict_not_applied:
  assumes "acl_reachable z st" and "acl_getRules index (name \<noteq> ''toNetworkLayerIn'') st = Some i"
    and "\<forall>r\<in>set (as_acls st ! i). rule_ok r" and "packetEnds d = Some (source, dest)"
  shows "(\<exists>r. find (\<lambda>r. rule_matches r source dest (dg_protocol d)) (as_acls st ! i) = Some r \<and>
      acl_processPacket d (as_acls st ! i) st = Some (the (ar_action r),
        (let st' = st\<lparr>as_stats := vec_modify (ar_used r) (\<lambda>s. s\<lparr>st_used := st_used s + 1\<rparr>) (as_stats st)\<rparr> in
         if the (ar_action r) then st'\<lparr>as_packetsPermitted := as_packetsPermitted st + 1\<rparr>
         else st'\<lparr>as_packetsDropped := as_packetsDropped st + 1\<rparr>))) \<and>
    acl_handleMessage name index \<lparr>am_class = ''IPv4Datagram'', am_datagram = Some d\<rparr> st =
      Some ([if name = ''toNetworkLayerIn'' then To_If index else To_Network index], st)"
proof -
  obtain r where "find (\<lambda>r. rule_matches r source dest (dg_protocol d)) (as_acls st ! i) = Some r"
    "acl_processPacket d (as_acls st ! i) (st\<lparr>as_numPackets := as_numPackets st\<rparr>) =
       Some (the (ar_action r), (acl_judged r st)\<lparr>as_numPackets := as_numPackets st\<rparr>)"
    using acl_verdict [OF assms] by blast
  moreover have "(acl_judged r st)\<lparr>as_numPackets := as_numPackets st\<rparr> = acl_judged r st" by (simp add: acl_judged_def Let_def)
  ultimately show ?thesis
    using acl_ipv4_never_filtered [of name index "\<lparr>am_class = [], am_datagram = Some d\<rparr>" st] by (simp add: acl_judged_def)
qed

text \<open>The telnet packet that the demonstration list denies is handed to the network layer.\<close>

lemma acl_verdict_not_applied_witness:
  "map_option fst (acl_processPacket demo_telnet (as_acls demo_acl ! 0) demo_acl) = Some False \<and>
   map_option fst (acl_processPacket demo_web (as_acls demo_acl ! 0) demo_acl) = Some True \<and>
   acl_handleMessage ''ifIn'' 0 \<lparr>am_class = ''IPv4Datagram'', am_datagram = Some demo_telnet\<rparr> demo_acl = Some ([To_Network 0], demo_acl)"
proof -
  have h: "acl_getRules 0 (''ifIn'' \<noteq> ''toNetworkLayerIn'') demo_acl = Some 0" "\<forall>r\<in>set (as_acls demo_acl ! 0). rule_ok r" by code_simp+
  obtain s t where e: "packetEnds demo_telnet = Some (s, t)" by (simp add: packetEnds_def demo_telnet_def)
  have "acl_handleMessage ''ifIn'' 0 \<lparr>am_class = ''IPv4Datagram'', am_datagram = Some demo_telnet\<rparr> demo_acl = Some ([To_Network 0], demo_acl)"
    using acl_verdict_not_applied [OF demo_acl_reachable h e] by simp
  moreover have "map_option fst (acl_processPacket demo_telnet (as_acls demo_acl ! 0) demo_acl) = Some False"
    "map_option fst (acl_processPacket demo_web (as_acls demo_acl ! 0) demo_acl) = Some True" by code_simp+
  ultimately show ?thesis by blast
qed

end
