(* ===== verification/Ipv6_Address.thy ===== *)
theory Ipv6_Address
  imports Ansa_Prelude
begin

text \<open>
  IPv6 addresses, \<open>src/src/networklayer/contract/IPv6Address.cc\<close>: four 32-bit words, the mask of a
  prefix length, matching against a prefix, and the scope. An operation whose \<open>ASSERT\<close> fails is \<open>None\<close>.
\<close>

unbundle bit_operations_syntax

record ip6 =
  d0 :: "32 word"
  d1 :: "32 word"
  d2 :: "32 word"
  d3 :: "32 word"

definition IP6 :: "32 word \<Rightarrow> 32 word \<Rightarrow> 32 word \<Rightarrow> 32 word \<Rightarrow> ip6" where
  "IP6 a b c d = \<lparr>d0 = a, d1 = b, d2 = c, d3 = d\<rparr>"

definition UNSPECIFIED_ADDRESS :: ip6 where
  "UNSPECIFIED_ADDRESS = IP6 0 0 0 0"

definition constructMask :: "int \<Rightarrow> ip6 option" where
  "constructMask prefixLength =
     (if \<not> (0 \<le> prefixLength \<and> prefixLength \<le> 128) then None
      else if prefixLength = 0 then Some (IP6 0 0 0 0)
      else if prefixLength \<le> 32 then Some (IP6 (push_bit (nat (32 - prefixLength)) 0xFFFFFFFF) 0 0 0)
      else if prefixLength \<le> 64 then Some (IP6 0xFFFFFFFF (push_bit (nat (64 - prefixLength)) 0xFFFFFFFF) 0 0)
      else if prefixLength \<le> 96 then
        Some (IP6 0xFFFFFFFF 0xFFFFFFFF (push_bit (nat (96 - prefixLength)) 0xFFFFFFFF) 0)
      else Some (IP6 0xFFFFFFFF 0xFFFFFFFF 0xFFFFFFFF (push_bit (nat (128 - prefixLength)) 0xFFFFFFFF)))"

definition ip6_getPrefix :: "int \<Rightarrow> ip6 \<Rightarrow> ip6 option" where
  "ip6_getPrefix prefixLength a =
     map_option (\<lambda>m. IP6 (d0 a AND d0 m) (d1 a AND d1 m) (d2 a AND d2 m) (d3 a AND d3 m)) (constructMask prefixLength)"

definition ip6_matches :: "ip6 \<Rightarrow> ip6 \<Rightarrow> int \<Rightarrow> bool option" where
  "ip6_matches a prefix prefixLength =
     map_option (\<lambda>m. (((d0 a XOR d0 prefix) AND d0 m) OR ((d1 a XOR d1 prefix) AND d1 m) OR
                      ((d2 a XOR d2 prefix) AND d2 m) OR ((d3 a XOR d3 prefix) AND d3 m)) = 0)
       (constructMask prefixLength)"

datatype ip6_scope = UNSPECIFIED | LOOPBACK | MULTICAST | LINK | SITE | GLOBAL

definition getScope :: "ip6 \<Rightarrow> ip6_scope" where
  "getScope a =
     (if d0 a AND 0xFFC00000 = 0xFE800000 then LINK
      else if d0 a AND 0xFFC00000 = 0xFEC00000 then SITE
      else if d0 a AND 0xFF000000 = 0xFF000000 then MULTICAST
      else if d0 a = 0 \<and> d1 a = 0 \<and> d2 a = 0 then
        (if d3 a = 0 then UNSPECIFIED else if d3 a = 1 then LOOPBACK else GLOBAL)
      else GLOBAL)"

definition isGlobal :: "ip6 \<Rightarrow> bool" where
  "isGlobal a \<longleftrightarrow> getScope a = GLOBAL"

definition isLinkLocal :: "ip6 \<Rightarrow> bool" where
  "isLinkLocal a \<longleftrightarrow> getScope a = LINK"

definition isMulticast :: "ip6 \<Rightarrow> bool" where
  "isMulticast a \<longleftrightarrow> getScope a = MULTICAST"

section \<open>An address as a sequence of bits\<close>

text \<open>Bit \<open>i\<close> of an address, the most significant bit first.\<close>

definition ip6_word :: "ip6 \<Rightarrow> nat \<Rightarrow> 32 word" where
  "ip6_word a k = (if k = 0 then d0 a else if k = 1 then d1 a else if k = 2 then d2 a else d3 a)"

definition ip6_bit :: "ip6 \<Rightarrow> nat \<Rightarrow> bool" where
  "ip6_bit a i = bit (ip6_word a (i div 32)) (31 - i mod 32)"

definition same_prefix :: "nat \<Rightarrow> ip6 \<Rightarrow> ip6 \<Rightarrow> bool" where
  "same_prefix n a b \<longleftrightarrow> (\<forall>i<n. ip6_bit a i = ip6_bit b i)"

lemma ones_32: "(0xFFFFFFFF :: 32 word) = mask 32"
  by (simp add: mask_eq_exp_minus_1)

lemma high_bits_zero:
  fixes x y :: "32 word"
  assumes "l \<le> 32"
  shows "(x XOR y) AND push_bit (32 - l) 0xFFFFFFFF = 0 \<longleftrightarrow> (\<forall>i<l. bit x (31 - i) = bit y (31 - i))" (is "?l \<longleftrightarrow> ?r")
proof -
  have "?l \<longleftrightarrow> (\<forall>n<32. 32 - l \<le> n \<longrightarrow> bit x n = bit y n)"
    unfolding ones_32 by (auto simp: bit_eq_iff bit_simps)
  also have "\<dots> \<longleftrightarrow> ?r"
  proof
    assume h: "\<forall>n<32. 32 - l \<le> n \<longrightarrow> bit x n = bit y n"
    show ?r
    proof (intro allI impI)
      fix i assume "i < l"
      then show "bit x (31 - i) = bit y (31 - i)" using h assms by (auto dest: spec [of _ "31 - i"])
    qed
  next
    assume h: ?r
    show "\<forall>n<32. 32 - l \<le> n \<longrightarrow> bit x n = bit y n"
    proof (intro allI impI)
      fix n :: nat assume "n < 32" "32 - l \<le> n"
      then have "31 - n < l" "31 - (31 - n) = n" by auto
      then show "bit x n = bit y n" using h by metis
    qed
  qed
  finally show ?thesis .
qed

lemma all_ones_zero: "(x XOR y) AND 0xFFFFFFFF = 0 \<longleftrightarrow> (\<forall>i<32. bit x (31 - i) = bit y (31 - i))" for x y :: "32 word"
  using high_bits_zero [of 32 x y] by simp

lemma or_zero_iff: "x OR y = 0 \<longleftrightarrow> x = 0 \<and> y = 0" for x y :: "'a::len word"
  by (auto simp: bit_eq_iff bit_simps)

lemma all_less_add: "(\<forall>i<m + n. P i) \<longleftrightarrow> (\<forall>i<m. P i) \<and> (\<forall>i<n. P (m + i))" for m n :: nat
proof -
  have "P i" if "\<forall>i<m. P i" "\<forall>i<n. P (m + i)" "i < m + n" for i
    using that(1,2) that(3) by (cases "i < m") (auto dest: spec [of _ "i - m"])
  then show ?thesis by auto
qed

lemma same_prefix_word:
  assumes "l \<le> 32" and "k < 4"
  shows "same_prefix (32 * k + l) a b \<longleftrightarrow>
    same_prefix (32 * k) a b \<and> (\<forall>i<l. bit (ip6_word a k) (31 - i) = bit (ip6_word b k) (31 - i))"
proof -
  have "ip6_bit x (32 * k + i) = bit (ip6_word x k) (31 - i)" if "i < l" for x i
    using that assms(1) by (simp add: ip6_bit_def)
  then show ?thesis by (simp add: same_prefix_def all_less_add)
qed

lemma same_prefix_0 [simp]: "same_prefix 0 a b"
  by (simp add: same_prefix_def)

lemma same_prefix_words:
  "l \<le> 32 \<Longrightarrow> same_prefix l a b \<longleftrightarrow> (\<forall>i<l. bit (d0 a) (31 - i) = bit (d0 b) (31 - i))"
  "l \<le> 32 \<Longrightarrow> same_prefix (32 + l) a b \<longleftrightarrow> same_prefix 32 a b \<and> (\<forall>i<l. bit (d1 a) (31 - i) = bit (d1 b) (31 - i))"
  "l \<le> 32 \<Longrightarrow> same_prefix (64 + l) a b \<longleftrightarrow> same_prefix 64 a b \<and> (\<forall>i<l. bit (d2 a) (31 - i) = bit (d2 b) (31 - i))"
  "l \<le> 32 \<Longrightarrow> same_prefix (96 + l) a b \<longleftrightarrow> same_prefix 96 a b \<and> (\<forall>i<l. bit (d3 a) (31 - i) = bit (d3 b) (31 - i))"
  using same_prefix_word [of l 0 a b] same_prefix_word [of l 1 a b] same_prefix_word [of l 2 a b] same_prefix_word [of l 3 a b]
  by (simp_all add: ip6_word_def)

lemma same_prefix_full:
  "same_prefix 32 a b \<longleftrightarrow> (d0 a XOR d0 b) AND 0xFFFFFFFF = 0"
  "same_prefix 64 a b \<longleftrightarrow> same_prefix 32 a b \<and> (d1 a XOR d1 b) AND 0xFFFFFFFF = 0"
  "same_prefix 96 a b \<longleftrightarrow> same_prefix 64 a b \<and> (d2 a XOR d2 b) AND 0xFFFFFFFF = 0"
  using same_prefix_words(1) [of 32 a b] same_prefix_words(2) [of 32 a b] same_prefix_words(3) [of 32 a b]
  by (simp_all add: all_ones_zero)

lemma ip6_matches_prefix:
  assumes "n \<le> 128"
  shows "ip6_matches a p (int n) = Some (same_prefix n a p)"
proof -
  consider "n = 0" | "0 < n" "n \<le> 32" | l where "n = 32 + l" "0 < l" "l \<le> 32" | l where "n = 64 + l" "0 < l" "l \<le> 32"
    | l where "n = 96 + l" "0 < l" "l \<le> 32"
    using assms that(3) [of "n - 32"] that(4) [of "n - 64"] that(5) [of "n - 96"] by linarith
  then show ?thesis
  proof cases
    case 2
    then show ?thesis
      using high_bits_zero [of n "d0 a" "d0 p"]
      by (simp add: ip6_matches_def constructMask_def IP6_def same_prefix_words(1) nat_diff_distrib)
  next
    case (3 l)
    then show ?thesis
      using high_bits_zero [of l "d1 a" "d1 p"]
      by (simp add: ip6_matches_def constructMask_def IP6_def same_prefix_words(2) same_prefix_full or_zero_iff nat_diff_distrib)
  next
    case (4 l)
    then show ?thesis
      using high_bits_zero [of l "d2 a" "d2 p"]
      by (simp add: ip6_matches_def constructMask_def IP6_def same_prefix_words(3) same_prefix_full or_zero_iff nat_diff_distrib)
  next
    case (5 l)
    then show ?thesis
      using high_bits_zero [of l "d3 a" "d3 p"]
      by (simp add: ip6_matches_def constructMask_def IP6_def same_prefix_words(4) same_prefix_full or_zero_iff nat_diff_distrib)
  qed (simp add: ip6_matches_def constructMask_def IP6_def)
qed

text \<open>matching by masked words is agreement of the leading bits. An address matches a prefix of
  length \<open>n\<close> exactly when their first \<open>n\<close> bits are the same, so a longer match implies every shorter one;
  a length outside 0 to 128 fails the assertion.\<close>

theorem ipv6_match_is_prefix:
  "ip6_matches a p n =
     (if 0 \<le> n \<and> n \<le> 128 then Some (map (ip6_bit a) [0..<nat n] = map (ip6_bit p) [0..<nat n]) else None)"
proof (cases "0 \<le> n \<and> n \<le> 128")
  case True
  then have "ip6_matches a p (int (nat n)) = Some (same_prefix (nat n) a p)" by (intro ip6_matches_prefix) auto
  then show ?thesis using True by (simp add: same_prefix_def list_eq_iff_nth_eq)
qed (auto simp: ip6_matches_def constructMask_def)

end
