(* ===== verification/Routing_Table6.thy ===== *)
theory Routing_Table6
  imports Ipv6_Address "HOL-Library.Multiset"
begin

text \<open>
  The IPv6 routing table: \<open>src/src/networklayer/ipv6/RoutingTable6.cc\<close> with the administrative distances
  of \<open>src/src/ansa/networklayer/ipv6/ANSARoutingTable6.cc\<close>. A route is an object: it has an identity
  (\<open>rt_id\<close>) and, when it was made by RIPng, a pointer to the RIPng entry it copies (\<open>rt_rip\<close>). Sorting
  is \<open>std::sort\<close>, which orders equal routes as it likes: it is an argument, and the locale
  \<open>route_sorter\<close> is all that is used of it.
\<close>

section \<open>Routes\<close>

datatype route_src = FROM_RA | OWN_ADV_PREFIX | STATIC | ROUTING_PROT

datatype admin_dist = DirectlyConnected | Static | EIGRPSummary | BGPExternal | EIGRPInternal | IGRP | OSPF | ISIS
  | RIP | EGP | ODR | EIGRPExternal | BGPInternal | DHCPlearned | Unknown

fun ad_number :: "admin_dist \<Rightarrow> int" where
  "ad_number DirectlyConnected = 0"
| "ad_number Static = 1"
| "ad_number EIGRPSummary = 5"
| "ad_number BGPExternal = 20"
| "ad_number EIGRPInternal = 90"
| "ad_number IGRP = 100"
| "ad_number OSPF = 110"
| "ad_number ISIS = 115"
| "ad_number RIP = 120"
| "ad_number EGP = 140"
| "ad_number ODR = 160"
| "ad_number EIGRPExternal = 170"
| "ad_number BGPInternal = 200"
| "ad_number DHCPlearned = 254"
| "ad_number Unknown = 255"

record route6 =
  rt_id :: nat
  rt_prefix :: ip6
  rt_length :: int
  rt_src :: route_src
  rt_ifId :: int
  rt_nextHop :: ip6
  rt_expiry :: int
  rt_metric :: int
  rt_adminDist :: admin_dist
  rt_rip :: "nat option"

text \<open>The member \<open>_length\<close> is a \<open>short\<close>.\<close>

definition to_short :: "int \<Rightarrow> int" where
  "to_short n = sint (word_of_int n :: 16 word)"

definition new_route :: "nat \<Rightarrow> ip6 \<Rightarrow> int \<Rightarrow> route_src \<Rightarrow> route6" where
  "new_route i prefix len src =
     \<lparr>rt_id = i, rt_prefix = prefix, rt_length = to_short len, rt_src = src, rt_ifId = -1,
      rt_nextHop = UNSPECIFIED_ADDRESS, rt_expiry = 0, rt_metric = 0, rt_adminDist = Unknown, rt_rip = None\<rparr>"

definition routeLessThan :: "route6 \<Rightarrow> route6 \<Rightarrow> bool" where
  "routeLessThan a b =
     (if rt_length a \<noteq> rt_length b then rt_length a > rt_length b else rt_metric a < rt_metric b)"

record dest_entry =
  de_ifId :: int
  de_nextHop :: ip6
  de_expiry :: int

record rt6 =
  routeList :: "route6 list"
  destCache :: "ip6 \<Rightarrow> dest_entry option"
  rt_next :: nat

section \<open>Adding and removing routes\<close>

definition rt6_addRoute :: "(route6 list \<Rightarrow> route6 list) \<Rightarrow> route6 \<Rightarrow> rt6 \<Rightarrow> rt6" where
  "rt6_addRoute srt r t = t\<lparr>routeList := srt (routeList t @ [r])\<rparr>"

text \<open>A new route object, set up by \<open>f\<close> and added.\<close>

definition rt6_new :: "(route6 list \<Rightarrow> route6 list) \<Rightarrow> ip6 \<Rightarrow> int \<Rightarrow> route_src \<Rightarrow> (route6 \<Rightarrow> route6) \<Rightarrow> rt6 \<Rightarrow> rt6" where
  "rt6_new srt prefix len src f t =
     rt6_addRoute srt (f (new_route (rt_next t) prefix len src)) (t\<lparr>rt_next := rt_next t + 1\<rparr>)"

definition rt6_modify :: "nat \<Rightarrow> (route6 \<Rightarrow> route6) \<Rightarrow> rt6 \<Rightarrow> rt6" where
  "rt6_modify i f t = t\<lparr>routeList := map (\<lambda>r. if rt_id r = i then f r else r) (routeList t)\<rparr>"

definition rt6_addOrUpdate ::
  "(route6 list \<Rightarrow> route6 list) \<Rightarrow> route_src \<Rightarrow> ip6 \<Rightarrow> int \<Rightarrow> int \<Rightarrow> int \<Rightarrow> rt6 \<Rightarrow> rt6" where
  "rt6_addOrUpdate srt src destPrefix prefixLength interfaceId expiryTime t =
     (case find (\<lambda>r. rt_src r = src \<and> rt_prefix r = destPrefix \<and> rt_length r = prefixLength) (routeList t) of
        None \<Rightarrow> rt6_new srt destPrefix prefixLength src
                  (\<lambda>r. r\<lparr>rt_ifId := interfaceId, rt_expiry := expiryTime, rt_metric := 0, rt_adminDist := DirectlyConnected\<rparr>) t
      | Some r \<Rightarrow> rt6_modify (rt_id r) (\<lambda>r. r\<lparr>rt_ifId := interfaceId, rt_expiry := expiryTime\<rparr>) t)"

definition rt6_addOrUpdateOnLinkPrefix where
  "rt6_addOrUpdateOnLinkPrefix srt = rt6_addOrUpdate srt FROM_RA"

definition rt6_addOrUpdateOwnAdvPrefix where
  "rt6_addOrUpdateOwnAdvPrefix srt = rt6_addOrUpdate srt OWN_ADV_PREFIX"

definition rt6_addStaticRoute ::
  "(route6 list \<Rightarrow> route6 list) \<Rightarrow> ip6 \<Rightarrow> int \<Rightarrow> int \<Rightarrow> ip6 \<Rightarrow> int \<Rightarrow> rt6 \<Rightarrow> rt6" where
  "rt6_addStaticRoute srt destPrefix prefixLength interfaceId nextHop metric =
     rt6_new srt destPrefix prefixLength STATIC
       (\<lambda>r. r\<lparr>rt_ifId := interfaceId, rt_nextHop := nextHop, rt_metric := (if metric = 0 then 10 else metric),
             rt_adminDist := Static\<rparr>)"

text \<open>The lifetime is stored only in builds for mobile IPv6 (\<open>xmipv6\<close>).\<close>

definition rt6_addDefaultRoute ::
  "(route6 list \<Rightarrow> route6 list) \<Rightarrow> bool \<Rightarrow> ip6 \<Rightarrow> int \<Rightarrow> int \<Rightarrow> rt6 \<Rightarrow> rt6" where
  "rt6_addDefaultRoute srt xmipv6 nextHop ifID routerLifetime =
     rt6_new srt UNSPECIFIED_ADDRESS 0 FROM_RA
       (\<lambda>r. r\<lparr>rt_ifId := ifID, rt_nextHop := nextHop, rt_metric := 10, rt_adminDist := Static,
             rt_expiry := (if xmipv6 then routerLifetime else rt_expiry r)\<rparr>)"

text \<open>\<open>ASSERT\<close> of the source of the route, then \<open>addRoute\<close>.\<close>

definition rt6_addRoutingProtocolRoute :: "(route6 list \<Rightarrow> route6 list) \<Rightarrow> route6 \<Rightarrow> rt6 \<Rightarrow> rt6 option" where
  "rt6_addRoutingProtocolRoute srt r t = (if rt_src r = ROUTING_PROT then Some (rt6_addRoute srt r t) else None)"

definition rt6_find :: "nat \<Rightarrow> rt6 \<Rightarrow> route6 option" where
  "rt6_find i t = find (\<lambda>r. rt_id r = i) (routeList t)"

definition rt6_erase :: "nat \<Rightarrow> rt6 \<Rightarrow> rt6" where
  "rt6_erase i t = t\<lparr>routeList := filter (\<lambda>r. rt_id r \<noteq> i) (routeList t)\<rparr>"

text \<open>Only the first route of that prefix goes; no notification is sent.\<close>

fun remove_first :: "('a \<Rightarrow> bool) \<Rightarrow> 'a list \<Rightarrow> 'a list" where
  "remove_first P [] = []"
| "remove_first P (x # xs) = (if P x then xs else x # remove_first P xs)"

definition rt6_removeOnLinkPrefix :: "ip6 \<Rightarrow> int \<Rightarrow> rt6 \<Rightarrow> rt6" where
  "rt6_removeOnLinkPrefix destPrefix prefixLength t =
     t\<lparr>routeList := remove_first (\<lambda>r. rt_src r = FROM_RA \<and> rt_prefix r = destPrefix \<and> rt_length r = prefixLength) (routeList t)\<rparr>"

definition rt6_findRoute :: "ip6 \<Rightarrow> int \<Rightarrow> rt6 \<Rightarrow> route6 option" where
  "rt6_findRoute prefix prefixLength t =
     find (\<lambda>r. rt_prefix r = prefix \<and> rt_length r = prefixLength) (routeList t)"

text \<open>What \<open>prepareForAddRoute\<close> decides: refuse the new route, or accept it, first removing a route.\<close>

datatype prepare = Refuse | Accept | Accept_Removing route6

definition rt6_prepareForAddRoute :: "route6 \<Rightarrow> rt6 \<Rightarrow> prepare" where
  "rt6_prepareForAddRoute r t =
     (case rt6_findRoute (rt_prefix r) (rt_length r) t of
        None \<Rightarrow> Accept
      | Some q \<Rightarrow>
          if ad_number (rt_adminDist q) > ad_number (rt_adminDist r) then Accept_Removing q
          else if ad_number (rt_adminDist q) = ad_number (rt_adminDist r)
          then (if rt_metric q > rt_metric r then Accept_Removing q else Accept)
          else Refuse)"

section \<open>Lookup\<close>

text \<open>The loop of \<open>doLongestPrefixMatch\<close>: \<open>done\<close> is passed, \<open>its\<close> is left. The iterator does not move
  past a matching expired route that is not from a router advertisement; the loop then never ends, which
  is \<open>None\<close> here, as is a failed assertion.\<close>

partial_function (option) lpm_loop ::
  "int \<Rightarrow> ip6 \<Rightarrow> route6 list \<Rightarrow> route6 list \<Rightarrow> (route6 option \<times> route6 list) option" where
  "lpm_loop now dest done its =
     (case its of
        [] \<Rightarrow> Some (None, done)
      | r # rest \<Rightarrow>
          (case ip6_matches dest (rt_prefix r) (rt_length r) of
             None \<Rightarrow> None
           | Some m \<Rightarrow>
               if m then
                 if now > rt_expiry r \<and> rt_expiry r \<noteq> 0 then
                   if rt_src r = FROM_RA then lpm_loop now dest done rest
                   else lpm_loop now dest done its
                 else Some (Some r, done @ its)
               else lpm_loop now dest (done @ [r]) rest))"

declare lpm_loop.simps [code]

definition rt6_doLongestPrefixMatch :: "int \<Rightarrow> ip6 \<Rightarrow> rt6 \<Rightarrow> (route6 option \<times> rt6) option" where
  "rt6_doLongestPrefixMatch now dest t =
     map_option (\<lambda>(r, rl). (r, t\<lparr>routeList := rl\<rparr>)) (lpm_loop now dest [] (routeList t))"

text \<open>A loop over the routes whose call \<open>matches\<close> may fail its assertion.\<close>

fun prefix_present :: "ip6 \<Rightarrow> route6 list \<Rightarrow> bool option" where
  "prefix_present prefix [] = Some False"
| "prefix_present prefix (r # rs) =
     do { m \<leftarrow> ip6_matches prefix (rt_prefix r) 128; if m then Some True else prefix_present prefix rs }"

definition rt6_isPrefixPresent :: "ip6 \<Rightarrow> rt6 \<Rightarrow> bool option" where
  "rt6_isPrefixPresent prefix t = prefix_present prefix (routeList t)"

section \<open>The destination cache\<close>

definition rt6_lookupDestCache :: "int \<Rightarrow> ip6 \<Rightarrow> rt6 \<Rightarrow> (ip6 \<times> int) \<times> rt6" where
  "rt6_lookupDestCache now dest t =
     (case destCache t dest of
        None \<Rightarrow> ((UNSPECIFIED_ADDRESS, -1), t)
      | Some e \<Rightarrow>
          if de_expiry e > 0 \<and> now > de_expiry e
          then ((UNSPECIFIED_ADDRESS, -1), t\<lparr>destCache := (destCache t)(dest := None)\<rparr>)
          else ((de_nextHop e, de_ifId e), t))"

definition rt6_updateDestCache :: "ip6 \<Rightarrow> ip6 \<Rightarrow> int \<Rightarrow> int \<Rightarrow> rt6 \<Rightarrow> rt6" where
  "rt6_updateDestCache dest nextHopAddr interfaceId expiryTime t =
     t\<lparr>destCache := (destCache t)(dest \<mapsto> \<lparr>de_ifId = interfaceId, de_nextHop = nextHopAddr, de_expiry = expiryTime\<rparr>)\<rparr>"

definition rt6_purgeDestCache :: "rt6 \<Rightarrow> rt6" where
  "rt6_purgeDestCache t = t\<lparr>destCache := Map.empty\<rparr>"

definition rt6_purgeDestCacheEntriesToNeighbour :: "ip6 \<Rightarrow> int \<Rightarrow> rt6 \<Rightarrow> rt6" where
  "rt6_purgeDestCacheEntriesToNeighbour nextHopAddr interfaceId t =
     t\<lparr>destCache := (\<lambda>a. case destCache t a of
         None \<Rightarrow> None
       | Some e \<Rightarrow> if de_ifId e = interfaceId \<and> de_nextHop e = nextHopAddr then None else Some e)\<rparr>"

definition rt6_purgeDestCacheForInterfaceID :: "int \<Rightarrow> rt6 \<Rightarrow> rt6" where
  "rt6_purgeDestCacheForInterfaceID interfaceId t =
     t\<lparr>destCache := (\<lambda>a. case destCache t a of
         None \<Rightarrow> None
       | Some e \<Rightarrow> if de_ifId e = interfaceId then None else Some e)\<rparr>"

section \<open>Bulk removal\<close>

text \<open>Used by mobile nodes; no notification is sent for the routes that go. \<open>getRoute\<close> asserts its index.\<close>

definition rt6_removeDefaultRoutes :: "int \<Rightarrow> rt6 \<Rightarrow> rt6" where
  "rt6_removeDefaultRoutes interfaceID t =
     t\<lparr>routeList := filter (\<lambda>r. \<not> (rt_ifId r = interfaceID \<and> rt_length r = 0)) (routeList t)\<rparr>"

definition rt6_removePrefixes :: "int \<Rightarrow> rt6 \<Rightarrow> rt6" where
  "rt6_removePrefixes interfaceID t =
     t\<lparr>routeList := filter (\<lambda>r. \<not> (rt_ifId r = interfaceID \<and> rt_length r > 0)) (routeList t)\<rparr>"

definition rt6_removeAllRoutes :: "rt6 \<Rightarrow> rt6" where
  "rt6_removeAllRoutes t = t\<lparr>routeList := []\<rparr>"

definition rt6_getNumRoutes :: "rt6 \<Rightarrow> int" where
  "rt6_getNumRoutes t = int (length (routeList t))"

definition rt6_getRoute :: "int \<Rightarrow> rt6 \<Rightarrow> route6 option" where
  "rt6_getRoute i t = (if 0 \<le> i \<and> i < int (length (routeList t)) then Some (routeList t ! nat i) else None)"

section \<open>Sorting\<close>

definition sorted_routes :: "route6 list \<Rightarrow> bool" where
  "sorted_routes rl \<longleftrightarrow> sorted_wrt (\<lambda>a b. \<not> routeLessThan b a) rl"

definition length_sorted :: "route6 list \<Rightarrow> bool" where
  "length_sorted rl \<longleftrightarrow> sorted_wrt (\<lambda>a b. rt_length a \<ge> rt_length b) rl"

lemma length_sorted_Nil [simp]: "length_sorted []"
  by (simp add: length_sorted_def)

lemma sorted_length: "sorted_routes rl \<Longrightarrow> length_sorted rl"
  unfolding sorted_routes_def length_sorted_def
  by (erule sorted_wrt_mono_rel [rotated]) (auto simp: routeLessThan_def split: if_splits)

lemma length_sorted_filter: "length_sorted rl \<Longrightarrow> length_sorted (filter P rl)"
  by (simp add: length_sorted_def sorted_wrt_filter)

lemma length_sorted_remove_first: "length_sorted rl \<Longrightarrow> length_sorted (remove_first P rl)"
proof (induction rl)
  case (Cons r rl)
  have "set (remove_first P rl) \<subseteq> set rl" by (induction rl) auto
  then show ?case using Cons by (auto simp: length_sorted_def)
qed simp

lemma length_sorted_modify:
  assumes "length_sorted rl" and "\<And>r. rt_length (f r) = rt_length r"
  shows "length_sorted (map f rl)"
  using assms by (simp add: length_sorted_def sorted_wrt_map)

text \<open>What \<open>addRoute\<close> uses of \<open>std::sort\<close> with \<open>routeLessThan\<close>: the same routes, none before a lesser one.\<close>

locale route_sorter =
  fixes srt :: "route6 list \<Rightarrow> route6 list"
  assumes perm: "mset (srt rl) = mset rl"
    and in_order: "sorted_routes (srt rl)"
begin

lemma set_srt [simp]: "set (srt rl) = set rl"
  using perm [of rl] by (metis set_mset_mset)

lemma length_sorted_srt [simp]: "length_sorted (srt rl)"
  by (rule sorted_length [OF in_order])

lemma distinct_ids: "distinct (map rt_id (srt rl)) \<longleftrightarrow> distinct (map rt_id rl)"
proof -
  have "mset (map rt_id (srt rl)) = mset (map rt_id rl)" by (simp add: perm)
  then show ?thesis by (metis mset_eq_imp_distinct_iff)
qed

lemma addRoute_sorted: "sorted_routes (routeList (rt6_addRoute srt r t))"
  by (simp add: rt6_addRoute_def in_order)

lemma addRoute_set [simp]: "set (routeList (rt6_addRoute srt r t)) = insert r (set (routeList t))"
  by (auto simp: rt6_addRoute_def)

lemma addRoute_distinct:
  "distinct (map rt_id (routeList (rt6_addRoute srt r t))) \<longleftrightarrow>
     rt_id r \<notin> rt_id ` set (routeList t) \<and> distinct (map rt_id (routeList t))"
  by (auto simp: rt6_addRoute_def distinct_ids)

lemma addOrUpdate_length_sorted:
  "length_sorted (routeList t) \<Longrightarrow> length_sorted (routeList (rt6_addOrUpdate srt src p l i e t))"
  by (auto simp: rt6_addOrUpdate_def rt6_new_def rt6_addRoute_def rt6_modify_def intro!: length_sorted_modify split: option.split)

end

fun insert_route :: "route6 \<Rightarrow> route6 list \<Rightarrow> route6 list" where
  "insert_route r [] = [r]"
| "insert_route r (x # xs) = (if routeLessThan x r then x # insert_route r xs else r # x # xs)"

definition stable_route_sort :: "route6 list \<Rightarrow> route6 list" where
  "stable_route_sort rl = foldr insert_route rl []"

lemma mset_insert_route: "mset (insert_route r xs) = add_mset r (mset xs)"
  by (induction xs) auto

lemma set_insert_route: "set (insert_route r xs) = insert r (set xs)"
  by (induction xs) auto

lemma sorted_insert_route: "sorted_routes xs \<Longrightarrow> sorted_routes (insert_route r xs)"
  unfolding sorted_routes_def
  by (induction xs) (auto simp: set_insert_route routeLessThan_def split: if_splits)

interpretation stable_sort: route_sorter stable_route_sort
proof
  show "mset (stable_route_sort rl) = mset rl" for rl
    by (induction rl) (simp_all add: stable_route_sort_def mset_insert_route)
  show "sorted_routes (stable_route_sort rl)" for rl
    by (induction rl) (simp_all add: stable_route_sort_def sorted_insert_route, simp add: sorted_routes_def)
qed

section \<open>Longest prefix match\<close>

definition lengths_ok :: "route6 list \<Rightarrow> bool" where
  "lengths_ok rl \<longleftrightarrow> (\<forall>r\<in>set rl. 0 \<le> rt_length r \<and> rt_length r \<le> 128)"

definition route_matches :: "ip6 \<Rightarrow> route6 \<Rightarrow> bool" where
  "route_matches dest r \<longleftrightarrow> same_prefix (nat (rt_length r)) dest (rt_prefix r)"

definition route_expired :: "int \<Rightarrow> route6 \<Rightarrow> bool" where
  "route_expired now r \<longleftrightarrow> now > rt_expiry r \<and> rt_expiry r \<noteq> 0"

text \<open>The routes a lookup drops, and those it stops at.\<close>

definition lpm_dropped :: "int \<Rightarrow> ip6 \<Rightarrow> route6 \<Rightarrow> bool" where
  "lpm_dropped now dest r \<longleftrightarrow> route_matches dest r \<and> route_expired now r \<and> rt_src r = FROM_RA"

definition lpm_stops :: "int \<Rightarrow> ip6 \<Rightarrow> route6 \<Rightarrow> bool" where
  "lpm_stops now dest r \<longleftrightarrow> route_matches dest r \<and> \<not> lpm_dropped now dest r"

lemma matches_route:
  "0 \<le> rt_length r \<Longrightarrow> rt_length r \<le> 128 \<Longrightarrow> ip6_matches dest (rt_prefix r) (rt_length r) = Some (route_matches dest r)"
  using ip6_matches_prefix [of "nat (rt_length r)" dest "rt_prefix r"] by (simp add: route_matches_def)

lemma lpm_loop_stuck:
  assumes "lpm_loop now dest dn its = Some y"
  shows "\<not> (\<exists>r rest. its = r # rest \<and> ip6_matches dest (rt_prefix r) (rt_length r) = Some True \<and>
    route_expired now r \<and> rt_src r \<noteq> FROM_RA)"
proof (rule lpm_loop.raw_induct [where P = "\<lambda>now dest dn its y. \<not> (\<exists>r rest. its = r # rest \<and>
    ip6_matches dest (rt_prefix r) (rt_length r) = Some True \<and> route_expired now r \<and> rt_src r \<noteq> FROM_RA)", OF _ assms])
  fix f now dest dn its y
  assume ih: "\<And>now dest dn its y. f now dest dn its = Some y \<Longrightarrow> \<not> (\<exists>r rest. its = r # rest \<and>
      ip6_matches dest (rt_prefix r) (rt_length r) = Some True \<and> route_expired now r \<and> rt_src r \<noteq> FROM_RA)"
    and eq: "(case its of [] \<Rightarrow> Some (None, dn) | r # rest \<Rightarrow>
          (case ip6_matches dest (rt_prefix r) (rt_length r) of
             None \<Rightarrow> None
           | Some m \<Rightarrow>
               if m then
                 if now > rt_expiry r \<and> rt_expiry r \<noteq> 0 then
                   if rt_src r = FROM_RA then f now dest dn rest else f now dest dn its
                 else Some (Some r, dn @ its)
               else f now dest (dn @ [r]) rest)) = Some y"
  show "\<not> (\<exists>r rest. its = r # rest \<and> ip6_matches dest (rt_prefix r) (rt_length r) = Some True \<and>
      route_expired now r \<and> rt_src r \<noteq> FROM_RA)"
  proof
    assume "\<exists>r rest. its = r # rest \<and> ip6_matches dest (rt_prefix r) (rt_length r) = Some True \<and>
      route_expired now r \<and> rt_src r \<noteq> FROM_RA"
    then have "f now dest dn its = Some y" using eq by (auto simp: route_expired_def)
    then show False using ih \<open>\<exists>r rest. _\<close> by blast
  qed
qed

lemma lpm_loop_spec:
  "lengths_ok its \<Longrightarrow>
   lpm_loop now dest dn its =
     (case find (lpm_stops now dest) its of
        None \<Rightarrow> Some (None, dn @ filter (\<lambda>r. \<not> lpm_dropped now dest r) its)
      | Some r \<Rightarrow>
          if route_expired now r then None
          else Some (Some r, dn @ filter (\<lambda>r. \<not> lpm_dropped now dest r) (takeWhile (\<lambda>r. \<not> lpm_stops now dest r) its) @
                             dropWhile (\<lambda>r. \<not> lpm_stops now dest r) its))"
proof (induction its arbitrary: dn)
  case Nil
  then show ?case by (simp add: lpm_loop.simps)
next
  case (Cons r its)
  then have m: "ip6_matches dest (rt_prefix r) (rt_length r) = Some (route_matches dest r)"
    by (intro matches_route) (auto simp: lengths_ok_def)
  have ok: "lengths_ok its" using Cons.prems by (simp add: lengths_ok_def)
  consider "\<not> route_matches dest r" | "lpm_dropped now dest r" | "lpm_stops now dest r" "route_expired now r"
    | "lpm_stops now dest r" "\<not> route_expired now r"
    by (auto simp: lpm_stops_def)
  then show ?case
  proof cases
    case 1
    then have "lpm_loop now dest dn (r # its) = lpm_loop now dest (dn @ [r]) its"
      by (subst lpm_loop.simps) (simp add: m)
    then show ?thesis using Cons.IH [OF ok, of "dn @ [r]"] 1
      by (simp add: lpm_stops_def lpm_dropped_def split: option.split)
  next
    case 2
    then have "lpm_loop now dest dn (r # its) = lpm_loop now dest dn its"
      by (subst lpm_loop.simps) (simp add: m lpm_dropped_def route_expired_def)
    then show ?thesis using Cons.IH [OF ok, of dn] 2 by (simp add: lpm_stops_def split: option.split)
  next
    case 3
    then have "lpm_loop now dest dn (r # its) \<noteq> Some y" for y
      using lpm_loop_stuck [of now dest dn "r # its" y] m by (auto simp: lpm_stops_def lpm_dropped_def)
    then have "lpm_loop now dest dn (r # its) = None" by (cases "lpm_loop now dest dn (r # its)") auto
    then show ?thesis using 3 by simp
  next
    case 4
    then have "lpm_loop now dest dn (r # its) = Some (Some r, dn @ r # its)"
      by (subst lpm_loop.simps) (auto simp: m lpm_stops_def route_expired_def)
    then show ?thesis using 4 by simp
  qed
qed

definition demo_route :: "nat \<Rightarrow> 32 word \<Rightarrow> int \<Rightarrow> route_src \<Rightarrow> int \<Rightarrow> route6" where
  "demo_route i p len src expiry = (new_route i (IP6 p 0 0 0) len src)\<lparr>rt_ifId := int i, rt_expiry := expiry\<rparr>"

text \<open>C12: a lookup returns the longest matching live route. In a table sorted by prefix length where only
  advertised prefixes expire, the lookup always returns; it returns a live route that matches, no live
  matching route has a longer prefix, it returns none exactly when there is none, and the table loses
  nothing but expired matching prefixes.\<close>

theorem rt6_longest_prefix_match:
  assumes lens: "lengths_ok (routeList t)" and srt: "length_sorted (routeList t)"
    and ra: "\<forall>r\<in>set (routeList t). route_expired now r \<longrightarrow> rt_src r = FROM_RA"
  shows "\<exists>res t'. rt6_doLongestPrefixMatch now dest t = Some (res, t') \<and>
    (case res of
       None \<Rightarrow> \<forall>r\<in>set (routeList t). route_matches dest r \<longrightarrow> route_expired now r
     | Some q \<Rightarrow> q \<in> set (routeList t) \<and> route_matches dest q \<and> \<not> route_expired now q \<and>
         (\<forall>r\<in>set (routeList t). route_matches dest r \<and> \<not> route_expired now r \<longrightarrow> rt_length r \<le> rt_length q)) \<and>
    (\<forall>r\<in>set (routeList t). r \<in> set (routeList t') \<or> lpm_dropped now dest r) \<and>
    set (routeList t') \<subseteq> set (routeList t) \<and> destCache t' = destCache t"
proof (cases "find (lpm_stops now dest) (routeList t)")
  case None
  then have res: "rt6_doLongestPrefixMatch now dest t =
      Some (None, t\<lparr>routeList := filter (\<lambda>r. \<not> lpm_dropped now dest r) (routeList t)\<rparr>)"
    using lpm_loop_spec [OF lens, of now dest "[]"] by (simp add: rt6_doLongestPrefixMatch_def)
  have "\<forall>r\<in>set (routeList t). route_matches dest r \<longrightarrow> route_expired now r"
    using None by (auto simp: find_None_iff lpm_stops_def lpm_dropped_def)
  then show ?thesis unfolding res by (intro ex_Some_pairI) auto
next
  case (Some q)
  then obtain as bs where rl: "routeList t = as @ q # bs" and q: "lpm_stops now dest q" and as: "\<forall>r\<in>set as. \<not> lpm_stops now dest r"
    using find_split [OF Some] by blast
  have live: "\<not> route_expired now q" using q ra rl by (auto simp: lpm_stops_def lpm_dropped_def)
  have "lpm_loop now dest [] (routeList t) = Some (Some q, filter (\<lambda>r. \<not> lpm_dropped now dest r) as @ q # bs)"
    using lpm_loop_spec [OF lens, of now dest "[]"] Some live as q by (simp add: rl takeWhile_append dropWhile_append)
  then have res: "rt6_doLongestPrefixMatch now dest t =
      Some (Some q, t\<lparr>routeList := filter (\<lambda>r. \<not> lpm_dropped now dest r) as @ q # bs\<rparr>)"
    by (simp add: rt6_doLongestPrefixMatch_def)
  have "rt_length r \<le> rt_length q" if "r \<in> set (routeList t)" "route_matches dest r" "\<not> route_expired now r" for r
    using that srt as unfolding rl length_sorted_def by (auto simp: sorted_wrt_append lpm_stops_def lpm_dropped_def)
  moreover have "\<forall>r\<in>set (routeList t). r \<in> set (filter (\<lambda>r. \<not> lpm_dropped now dest r) as @ q # bs) \<or> lpm_dropped now dest r"
    by (auto simp: rl)
  moreover have "set (filter (\<lambda>r. \<not> lpm_dropped now dest r) as @ q # bs) \<subseteq> set (routeList t)" "q \<in> set (routeList t)"
    by (auto simp: rl)
  moreover have "route_matches dest q" using q by (simp add: lpm_stops_def)
  ultimately show ?thesis unfolding res using live by (intro ex_Some_pairI) simp_all
qed

definition demo_table6 :: rt6 where
  "demo_table6 = \<lparr>routeList = [demo_route 1 0x20010000 32 ROUTING_PROT 0, demo_route 2 0x20010000 16 FROM_RA 5,
     demo_route 3 0 0 STATIC 0], destCache = Map.empty, rt_next = 4\<rparr>"

lemma rt6_longest_prefix_match_witness:
  "(\<exists>res t'. rt6_doLongestPrefixMatch 9 (IP6 0x20010001 0 0 1) demo_table6 = Some (res, t')) \<and>
   map_option (map_option rt_id \<circ> fst) (rt6_doLongestPrefixMatch 9 (IP6 0x20010000 0 0 1) demo_table6) = Some (Some 1) \<and>
   map_option (map_option rt_id \<circ> fst) (rt6_doLongestPrefixMatch 9 (IP6 0x20010001 0 0 1) demo_table6) = Some (Some 3)"
proof -
  have h: "lengths_ok (routeList demo_table6)" "length_sorted (routeList demo_table6)"
    "\<forall>r\<in>set (routeList demo_table6). route_expired 9 r \<longrightarrow> rt_src r = FROM_RA"
    by (simp_all add: demo_table6_def demo_route_def new_route_def to_short_def lengths_ok_def length_sorted_def route_expired_def)
  have "\<exists>res t'. rt6_doLongestPrefixMatch 9 (IP6 0x20010001 0 0 1) demo_table6 = Some (res, t')"
    using rt6_longest_prefix_match [OF h] by blast
  moreover have "map_option (map_option rt_id \<circ> fst) (rt6_doLongestPrefixMatch 9 (IP6 0x20010000 0 0 1) demo_table6) = Some (Some 1)"
    "map_option (map_option rt_id \<circ> fst) (rt6_doLongestPrefixMatch 9 (IP6 0x20010001 0 0 1) demo_table6) = Some (Some 3)"
    by (simp_all add: rt6_doLongestPrefixMatch_def demo_table6_def demo_route_def new_route_def to_short_def lpm_loop.simps
        ip6_matches_def constructMask_def IP6_def)
  ultimately show ?thesis by blast
qed

text \<open>C33: an expired route that is not an advertised prefix makes the lookup run for ever. When the first
  route the loop does not pass or drop is expired, the iterator is neither moved nor erased and the lookup
  of that destination does not return; it returns in every other table with valid lengths.\<close>

theorem rt6_expired_route_hangs:
  assumes "lengths_ok (routeList t)"
  shows "rt6_doLongestPrefixMatch now dest t = None \<longleftrightarrow>
    (\<exists>r. find (\<lambda>r. route_matches dest r \<and> \<not> (route_expired now r \<and> rt_src r = FROM_RA)) (routeList t) = Some r \<and>
         route_expired now r)"
proof -
  have "lpm_stops now dest = (\<lambda>r. route_matches dest r \<and> \<not> (route_expired now r \<and> rt_src r = FROM_RA))"
    by (auto simp: lpm_stops_def lpm_dropped_def)
  then show ?thesis
    using lpm_loop_spec [OF assms, of now dest "[]"]
    by (auto simp: rt6_doLongestPrefixMatch_def split: option.splits if_splits)
qed

lemma rt6_expired_route_hangs_witness:
  "rt6_doLongestPrefixMatch 9 (IP6 0x20010000 0 0 1)
     (demo_table6\<lparr>routeList := [demo_route 1 0x20010000 32 OWN_ADV_PREFIX 5, demo_route 3 0 0 STATIC 0]\<rparr>) = None"
proof (subst rt6_expired_route_hangs)
  show "lengths_ok (routeList (demo_table6\<lparr>routeList := [demo_route 1 0x20010000 32 OWN_ADV_PREFIX 5, demo_route 3 0 0 STATIC 0]\<rparr>))"
    by (simp add: lengths_ok_def demo_route_def new_route_def to_short_def)
  have "same_prefix 32 (IP6 0x20010000 0 0 1) (IP6 0x20010000 0 0 0)" by (simp add: same_prefix_full IP6_def)
  then show "\<exists>r. find (\<lambda>r. route_matches (IP6 0x20010000 0 0 1) r \<and> \<not> (route_expired 9 r \<and> rt_src r = FROM_RA))
      (routeList (demo_table6\<lparr>routeList := [demo_route 1 0x20010000 32 OWN_ADV_PREFIX 5, demo_route 3 0 0 STATIC 0]\<rparr>)) = Some r \<and> route_expired 9 r"
    by (simp add: demo_route_def new_route_def to_short_def route_matches_def route_expired_def)
qed

section \<open>Tables other modules build\<close>

text \<open>The operations on the table, in any order; a lookup may drop routes.\<close>

inductive rt6_reachable :: "(route6 list \<Rightarrow> route6 list) \<Rightarrow> rt6 \<Rightarrow> bool" for srt where
  init: "rt6_reachable srt \<lparr>routeList = [], destCache = Map.empty, rt_next = 0\<rparr>"
| on_link: "rt6_reachable srt t \<Longrightarrow> rt6_reachable srt (rt6_addOrUpdateOnLinkPrefix srt p l i e t)"
| own_adv: "rt6_reachable srt t \<Longrightarrow> rt6_reachable srt (rt6_addOrUpdateOwnAdvPrefix srt p l i e t)"
| static: "rt6_reachable srt t \<Longrightarrow> rt6_reachable srt (rt6_addStaticRoute srt p l i h m t)"
| default: "rt6_reachable srt t \<Longrightarrow> rt6_reachable srt (rt6_addDefaultRoute srt x h i e t)"
| remove_link: "rt6_reachable srt t \<Longrightarrow> rt6_reachable srt (rt6_removeOnLinkPrefix p l t)"
| remove: "rt6_reachable srt t \<Longrightarrow> rt6_reachable srt (rt6_erase i t)"
| remove_default: "rt6_reachable srt t \<Longrightarrow> rt6_reachable srt (rt6_removeDefaultRoutes i t)"
| remove_prefixes: "rt6_reachable srt t \<Longrightarrow> rt6_reachable srt (rt6_removePrefixes i t)"
| remove_all: "rt6_reachable srt t \<Longrightarrow> rt6_reachable srt (rt6_removeAllRoutes t)"
| lookup: "rt6_reachable srt t \<Longrightarrow> rt6_doLongestPrefixMatch now d t = Some (r, t') \<Longrightarrow> rt6_reachable srt t'"
| cache: "rt6_reachable srt t \<Longrightarrow> rt6_reachable srt (t\<lparr>destCache := c\<rparr>)"

lemma lpm_loop_result:
  "lpm_loop now dest dn its = Some (r, rl) \<Longrightarrow> sorted_wrt Q (dn @ its) \<Longrightarrow> sorted_wrt Q rl \<and> set rl \<subseteq> set (dn @ its)"
proof (induction its arbitrary: dn)
  case Nil
  then show ?case by (simp add: lpm_loop.simps)
next
  case (Cons x its)
  from Cons.prems(1) have eq: "(case ip6_matches dest (rt_prefix x) (rt_length x) of None \<Rightarrow> None
    | Some m \<Rightarrow> if m then if now > rt_expiry x \<and> rt_expiry x \<noteq> 0 then
        if rt_src x = FROM_RA then lpm_loop now dest dn its else lpm_loop now dest dn (x # its)
        else Some (Some x, dn @ x # its) else lpm_loop now dest (dn @ [x]) its) = Some (r, rl)"
    by (subst (asm) lpm_loop.simps) simp
  have not_stuck: "\<not> (ip6_matches dest (rt_prefix x) (rt_length x) = Some True \<and> route_expired now x \<and> rt_src x \<noteq> FROM_RA)"
    using lpm_loop_stuck [OF Cons.prems(1)] by blast
  consider (drop) "lpm_loop now dest dn its = Some (r, rl)" | (pass) "lpm_loop now dest (dn @ [x]) its = Some (r, rl)"
    | (here) "rl = dn @ x # its"
    using eq not_stuck by (auto simp: route_expired_def split: option.splits if_splits)
  then show ?case
  proof cases
    case drop
    then show ?thesis using Cons.IH [OF drop] Cons.prems(2) by (auto simp: sorted_wrt_append)
  next
    case pass
    then show ?thesis using Cons.IH [OF pass] Cons.prems(2) by simp
  qed (use Cons.prems(2) in simp)
qed

lemma distinct_map_sorted_wrt: "distinct (map f xs) \<longleftrightarrow> sorted_wrt (\<lambda>a b. f a \<noteq> f b) xs"
  by (induction xs) auto

definition rt6_wf :: "rt6 \<Rightarrow> bool" where
  "rt6_wf t \<longleftrightarrow> length_sorted (routeList t) \<and> distinct (map rt_id (routeList t)) \<and> (\<forall>r\<in>set (routeList t). rt_id r < rt_next t)"

lemma rt6_wf_lookup:
  assumes wf: "rt6_wf t" and l: "rt6_doLongestPrefixMatch now d t = Some (r, t')"
  shows "rt6_wf t'"
proof -
  obtain rl where rl: "lpm_loop now d [] (routeList t) = Some (r, rl)" and t': "t' = t\<lparr>routeList := rl\<rparr>"
    using l by (auto simp: rt6_doLongestPrefixMatch_def)
  note keep = lpm_loop_result [OF rl, unfolded append_Nil]
  have "sorted_wrt (\<lambda>a b. rt_length a \<ge> rt_length b) rl" using keep wf by (simp add: rt6_wf_def length_sorted_def)
  moreover have "sorted_wrt (\<lambda>a b. rt_id a \<noteq> rt_id b) rl" using keep wf by (simp add: rt6_wf_def distinct_map_sorted_wrt)
  moreover have "set rl \<subseteq> set (routeList t)" using keep [of "\<lambda>_ _. True"] by simp
  ultimately show ?thesis using wf by (auto simp: t' rt6_wf_def length_sorted_def distinct_map_sorted_wrt)
qed

lemma rt6_wf_modify: "rt6_wf t \<Longrightarrow> (\<And>r. rt_length (f r) = rt_length r \<and> rt_id (f r) = rt_id r) \<Longrightarrow> rt6_wf (rt6_modify i f t)"
proof -
  assume wf: "rt6_wf t" and f: "\<And>r. rt_length (f r) = rt_length r \<and> rt_id (f r) = rt_id r"
  have "map rt_id (routeList (rt6_modify i f t)) = map rt_id (routeList t)" by (auto simp: rt6_modify_def f)
  moreover have "length_sorted (routeList (rt6_modify i f t))"
    using wf by (auto simp: rt6_modify_def rt6_wf_def f intro: length_sorted_modify)
  moreover have "\<forall>r\<in>set (routeList (rt6_modify i f t)). rt_id r < rt_next (rt6_modify i f t)"
    using wf f by (auto simp: rt6_modify_def rt6_wf_def)
  ultimately show ?thesis using wf by (simp add: rt6_wf_def)
qed

lemma rt6_wf_filter: "rt6_wf t \<Longrightarrow> rt6_wf (t\<lparr>routeList := filter P (routeList t)\<rparr>)"
  by (auto simp: rt6_wf_def length_sorted_filter distinct_map_sorted_wrt sorted_wrt_filter)

lemma remove_first_sorted_wrt: "sorted_wrt Q xs \<Longrightarrow> sorted_wrt Q (remove_first P xs) \<and> set (remove_first P xs) \<subseteq> set xs"
  by (induction xs) auto

lemma rt6_wf_unlink: "rt6_wf t \<Longrightarrow> rt6_wf (rt6_removeOnLinkPrefix p l t)"
  using remove_first_sorted_wrt [of _ "routeList t"]
  unfolding rt6_wf_def length_sorted_def distinct_map_sorted_wrt rt6_removeOnLinkPrefix_def by fastforce

context route_sorter
begin

lemma wf_addRoute:
  "rt6_wf t \<Longrightarrow> rt_id r \<notin> rt_id ` set (routeList t) \<Longrightarrow> rt_id r < rt_next t \<Longrightarrow> rt6_wf (rt6_addRoute srt r t)"
  by (auto simp: rt6_wf_def addRoute_distinct) (simp_all add: rt6_addRoute_def)

lemma new_route_wf:
  assumes "rt6_wf t" and "\<And>r. rt_id (f r) = rt_id r"
  shows "rt6_wf (rt6_new srt p l src f t)"
proof -
  have "rt6_wf (t\<lparr>rt_next := rt_next t + 1\<rparr>)" using assms(1) by (auto simp: rt6_wf_def)
  moreover have "rt_next t \<notin> rt_id ` set (routeList t)" using assms(1) by (auto simp: rt6_wf_def)
  ultimately show ?thesis by (auto simp: rt6_new_def new_route_def assms(2) intro!: wf_addRoute)
qed

lemma wf_addOrUpdate: "rt6_wf t \<Longrightarrow> rt6_wf (rt6_addOrUpdate srt src p l i e t)"
  by (auto simp: rt6_addOrUpdate_def intro!: new_route_wf rt6_wf_modify split: option.split)

lemma wf_reachable: "rt6_reachable srt t \<Longrightarrow> rt6_wf t"
proof (induction rule: rt6_reachable.induct)
  case init
  then show ?case by (simp add: rt6_wf_def)
next
  case (remove_link t p l)
  then show ?case by (intro rt6_wf_unlink)
next
  case (cache t c)
  then show ?case by (simp add: rt6_wf_def)
next
  case (remove_all t)
  then show ?case by (simp add: rt6_wf_def rt6_removeAllRoutes_def)
qed (auto simp: rt6_addOrUpdateOnLinkPrefix_def rt6_addOrUpdateOwnAdvPrefix_def rt6_addStaticRoute_def
    rt6_addDefaultRoute_def rt6_erase_def rt6_removeDefaultRoutes_def rt6_removePrefixes_def intro: wf_addOrUpdate new_route_wf rt6_wf_lookup rt6_wf_filter)

end

text \<open>whatever the order of the operations on it, and however the sort orders equal routes, the table
  stays sorted by prefix length, with every route in it once; so a lookup in a table that other modules
  have built finds the longest match.\<close>

theorem rt6_reachable_sorted:
  assumes "route_sorter srt" and "rt6_reachable srt t"
  shows "sorted_wrt (\<lambda>a b. rt_length b \<le> rt_length a) (routeList t) \<and> distinct (map rt_id (routeList t)) \<and>
    (\<forall>r\<in>set (routeList t). rt_id r < rt_next t)"
  using route_sorter.wf_reachable [OF assms] by (simp add: rt6_wf_def length_sorted_def)

lemma rt6_reachable_sorted_witness:
  "map rt_length (routeList (rt6_addStaticRoute stable_route_sort (IP6 0x20010000 0 0 0) 32 1 UNSPECIFIED_ADDRESS 0
     (rt6_addDefaultRoute stable_route_sort False UNSPECIFIED_ADDRESS 2 0
       \<lparr>routeList = [], destCache = Map.empty, rt_next = 0\<rparr>))) = [32, 0] \<and>
   distinct (map rt_id (routeList (rt6_addDefaultRoute stable_route_sort False UNSPECIFIED_ADDRESS 2 0
       \<lparr>routeList = [], destCache = Map.empty, rt_next = 0\<rparr>)))"
proof
  show "map rt_length (routeList (rt6_addStaticRoute stable_route_sort (IP6 0x20010000 0 0 0) 32 1 UNSPECIFIED_ADDRESS 0
     (rt6_addDefaultRoute stable_route_sort False UNSPECIFIED_ADDRESS 2 0
       \<lparr>routeList = [], destCache = Map.empty, rt_next = 0\<rparr>))) = [32, 0]"
    by (simp add: rt6_addStaticRoute_def rt6_addDefaultRoute_def rt6_new_def rt6_addRoute_def new_route_def to_short_def
        stable_route_sort_def routeLessThan_def)
  show "distinct (map rt_id (routeList (rt6_addDefaultRoute stable_route_sort False UNSPECIFIED_ADDRESS 2 0
       \<lparr>routeList = [], destCache = Map.empty, rt_next = 0\<rparr>)))"
    using rt6_reachable_sorted [OF stable_sort.route_sorter_axioms rt6_reachable.default [OF rt6_reachable.init]] by blast
qed

end
