(* ===== verification/Ripng.thy ===== *)
theory Ripng
  imports Routing_Table6
begin

text \<open>
  RIPng, \<open>src/src/ansa/applications/ripng/RIPngRouting.cc\<close>, with the IPv6 routing table it installs its
  routes in and the notifications that table sends back. An entry of the RIPng table is an object with an
  identity (\<open>re_id\<close>); \<open>re_copy\<close> points to its route in the IPv6 table and \<open>rt_rip\<close> of that route back.
  A timer is its kind's data and, when it is scheduled, its time. Metrics and prefix lengths of messages
  and timers are \<open>char\<close>s, which are signed on the platforms the simulator is built for.

  An operation gives \<open>None\<close> where an assertion fails, a dangling pointer or an invalidated iterator is
  used, or the recursion through the notifications does not end.
\<close>

section \<open>Data\<close>

definition schar :: "int \<Rightarrow> int" where
  "schar n = sint (word_of_int n :: 8 word)"

record rip_timer =
  tm_prefix :: ip6
  tm_len :: int
  tm_at :: "int option"

record rip_entry =
  re_id :: nat
  re_prefix :: ip6
  re_len :: int
  re_nextHop :: ip6
  re_ifId :: int
  re_metric :: int
  re_change :: bool
  re_tag :: "16 word"
  re_timer :: "rip_timer option"
  re_gc :: "rip_timer option"
  re_copy :: "nat option"

record rip_int =
  ri_id :: int
  ri_passive :: bool
  ri_splitHorizon :: bool
  ri_poisonReverse :: bool

record rip_rte =
  rte_prefix :: ip6
  rte_tag :: "16 word"
  rte_len :: "8 word"
  rte_metric :: "8 word"

datatype rip_command = RIPngRequest | RIPngResponse | Other_Command

text \<open>A message that leaves: the interface, the destination, and whether the global socket sends it.\<close>

record rip_out =
  out_command :: rip_command
  out_rtes :: "rip_rte list"
  out_addr :: ip6
  out_port :: int
  out_if :: int
  out_global :: bool

text \<open>A message that arrives, with its control information.\<close>

record rip_packet =
  pk_command :: rip_command
  pk_rtes :: "rip_rte list"
  pk_srcAddr :: ip6
  pk_destAddr :: ip6
  pk_srcPort :: int
  pk_ttl :: int
  pk_ifId :: int

text \<open>What does not change: the parameters of the module, the sort, the addresses of the device and
  the draws of \<open>uniform(1, 5)\<close>.\<close>

record rip_config =
  rc_infinity :: int
  rc_conn :: int
  rc_timeout :: int
  rc_gc :: int
  rc_regular :: int
  rc_port :: int
  rc_address :: ip6
  rc_uniform :: "nat \<Rightarrow> int"
  rc_sort :: "route6 list \<Rightarrow> route6 list"
  rc_local :: "ip6 \<Rightarrow> bool"

record ripng =
  rp_now :: int
  rp_rt :: rt6
  rp_next :: nat
  rp_table :: "rip_entry list"
  rp_numRoutes :: int
  rp_ints :: "rip_int list"
  rp_send :: bool
  rp_block :: bool
  rp_regular :: int
  rp_triggered :: "int option"
  rp_draws :: nat
  rp_started :: bool
  rp_out :: "rip_out list"

definition new_rip_int :: "int \<Rightarrow> rip_int" where
  "new_rip_int i = \<lparr>ri_id = i, ri_passive = False, ri_splitHorizon = True, ri_poisonReverse = False\<rparr>"

definition new_entry :: "nat \<Rightarrow> ip6 \<Rightarrow> int \<Rightarrow> rip_entry" where
  "new_entry i prefix len =
     \<lparr>re_id = i, re_prefix = prefix, re_len = to_short len, re_nextHop = UNSPECIFIED_ADDRESS, re_ifId = -1,
      re_metric = 0, re_change = False, re_tag = 0, re_timer = None, re_gc = None, re_copy = None\<rparr>"

text \<open>The copying constructor, with the distance RIPng sets on the copy.\<close>

definition copy_route :: "rip_entry \<Rightarrow> nat \<Rightarrow> route6" where
  "copy_route e i =
     \<lparr>rt_id = i, rt_prefix = re_prefix e, rt_length = to_short (re_len e), rt_src = ROUTING_PROT,
      rt_ifId = re_ifId e, rt_nextHop = re_nextHop e, rt_expiry = 0, rt_metric = re_metric e,
      rt_adminDist = RIP, rt_rip = Some (re_id e)\<rparr>"

section \<open>The RIPng table and its copies in the IPv6 table\<close>

definition rip_entry_at :: "nat \<Rightarrow> ripng \<Rightarrow> rip_entry option" where
  "rip_entry_at i s = find (\<lambda>e. re_id e = i) (rp_table s)"

definition rip_modify :: "nat \<Rightarrow> (rip_entry \<Rightarrow> rip_entry) \<Rightarrow> ripng \<Rightarrow> ripng" where
  "rip_modify i f s = s\<lparr>rp_table := map (\<lambda>e. if re_id e = i then f e else e) (rp_table s)\<rparr>"

definition rip_modify_route :: "nat option \<Rightarrow> (route6 \<Rightarrow> route6) \<Rightarrow> ripng \<Rightarrow> ripng" where
  "rip_modify_route r f s = (case r of None \<Rightarrow> s | Some i \<Rightarrow> s\<lparr>rp_rt := rt6_modify i f (rp_rt s)\<rparr>)"

definition getRoutingTableEntry :: "ip6 \<Rightarrow> int \<Rightarrow> ripng \<Rightarrow> rip_entry option" where
  "getRoutingTableEntry prefix prefixLength s =
     find (\<lambda>e. re_prefix e = prefix \<and> re_len e = prefixLength) (rp_table s)"

definition rip_clear_copy :: "nat \<Rightarrow> ripng \<Rightarrow> ripng option" where
  "rip_clear_copy k s = map_option (\<lambda>_. rip_modify k (\<lambda>e. e\<lparr>re_copy := None\<rparr>) s) (rip_entry_at k s)"

definition rip_install :: "rip_config \<Rightarrow> rip_entry \<Rightarrow> ripng \<Rightarrow> ripng option" where
  "rip_install c e s =
     (let i = rt_next (rp_rt s) in
      map_option (\<lambda>t. rip_modify (re_id e) (\<lambda>e. e\<lparr>re_copy := Some i\<rparr>) (s\<lparr>rp_rt := t\<rparr>))
        (rt6_addRoutingProtocolRoute (rc_sort c) (copy_route e i) ((rp_rt s)\<lparr>rt_next := i + 1\<rparr>)))"

text \<open>The end of \<open>removeRoute\<close>: the iterator found before the notification is valid only if the
  listeners have not changed the list.\<close>

definition rip_erase_route :: "route6 \<Rightarrow> ripng \<Rightarrow> ripng \<Rightarrow> ripng option" where
  "rip_erase_route q s s1 =
     (if routeList (rp_rt s1) = routeList (rp_rt s) then Some (s1\<lparr>rp_rt := rt6_erase (rt_id q) (rp_rt s1)\<rparr>) else None)"

text \<open>\<open>addRoutingTableEntryToGlobalRT\<close>: \<open>prepareForAddRoute\<close> may remove a route; its removal notifies
  RIPng, which, for a route of another protocol, calls this function again. Notifications are ignored
  while the simulation is being initialised.\<close>

partial_function (option) addRoutingTableEntryToGlobalRT :: "rip_config \<Rightarrow> nat \<Rightarrow> ripng \<Rightarrow> ripng option" where
  "addRoutingTableEntryToGlobalRT c i s =
     do {
       e \<leftarrow> rip_entry_at i s;
       (case rt6_prepareForAddRoute (copy_route e 0) (rp_rt s) of
          Refuse \<Rightarrow> Some s
        | Accept \<Rightarrow> rip_install c e s
        | Accept_Removing q \<Rightarrow>
            do {
              s1 \<leftarrow> (if \<not> rp_started s then Some s
                    else (case rt_rip q of
                            Some k \<Rightarrow> rip_clear_copy k s
                          | None \<Rightarrow>
                              (case getRoutingTableEntry (rt_prefix q) (rt_length q) s of
                                 None \<Rightarrow> Some s
                               | Some e' \<Rightarrow> addRoutingTableEntryToGlobalRT c (re_id e') s)));
              s2 \<leftarrow> rip_erase_route q s s1;
              rip_install c e s2
            })
     }"

declare addRoutingTableEntryToGlobalRT.simps [code]

text \<open>\<open>receiveChangeNotification\<close> for a route that is going to be deleted.\<close>

definition rip_routeDeleted :: "rip_config \<Rightarrow> route6 \<Rightarrow> ripng \<Rightarrow> ripng option" where
  "rip_routeDeleted c q s =
     (if \<not> rp_started s then Some s
      else (case rt_rip q of
              Some k \<Rightarrow> rip_clear_copy k s
            | None \<Rightarrow>
                (case getRoutingTableEntry (rt_prefix q) (rt_length q) s of
                   None \<Rightarrow> Some s
                 | Some e' \<Rightarrow> addRoutingTableEntryToGlobalRT c (re_id e') s)))"

definition rip_removeRoute :: "rip_config \<Rightarrow> nat \<Rightarrow> ripng \<Rightarrow> ripng option" where
  "rip_removeRoute c i s =
     do { q \<leftarrow> rt6_find i (rp_rt s); s1 \<leftarrow> rip_routeDeleted c q s; rip_erase_route q s s1 }"

definition removeRoutingTableEntryFromGlobalRT :: "rip_config \<Rightarrow> nat \<Rightarrow> ripng \<Rightarrow> ripng option" where
  "removeRoutingTableEntryFromGlobalRT c i s =
     do { e \<leftarrow> rip_entry_at i s; (case re_copy e of None \<Rightarrow> Some s | Some r \<Rightarrow> rip_removeRoute c r s) }"

definition addRoutingTableEntry :: "rip_config \<Rightarrow> bool \<Rightarrow> rip_entry \<Rightarrow> ripng \<Rightarrow> ripng option" where
  "addRoutingTableEntry c createTimers e s =
     (let tm = \<lparr>tm_prefix = re_prefix e, tm_len = schar (re_len e), tm_at = None\<rparr>;
          e1 = (if createTimers
                then e\<lparr>re_timer := Some (tm\<lparr>tm_at := Some (rp_now s + rc_timeout c)\<rparr>), re_gc := Some tm\<rparr> else e)
      in map_option (\<lambda>s1. s1\<lparr>rp_numRoutes := rp_numRoutes s1 + 1\<rparr>)
           (addRoutingTableEntryToGlobalRT c (re_id e1) (s\<lparr>rp_table := rp_table s @ [e1]\<rparr>)))"

text \<open>The entry and its timers are deleted; one without an entry is left alone.\<close>

definition removeRoutingTableEntry :: "rip_config \<Rightarrow> ip6 \<Rightarrow> int \<Rightarrow> ripng \<Rightarrow> ripng option" where
  "removeRoutingTableEntry c prefix prefixLength s =
     (case getRoutingTableEntry prefix prefixLength s of
        None \<Rightarrow> Some s
      | Some e \<Rightarrow>
          map_option (\<lambda>s1. s1\<lparr>rp_table := filter (\<lambda>x. re_id x \<noteq> re_id e) (rp_table s1), rp_numRoutes := rp_numRoutes s1 - 1\<rparr>)
            (removeRoutingTableEntryFromGlobalRT c (re_id e) s))"

text \<open>Nothing calls it; it leaves the number of routes alone.\<close>

fun remove_all_copies :: "rip_config \<Rightarrow> nat list \<Rightarrow> ripng \<Rightarrow> ripng option" where
  "remove_all_copies c [] s = Some s"
| "remove_all_copies c (k # ks) s = do { s1 \<leftarrow> removeRoutingTableEntryFromGlobalRT c k s; remove_all_copies c ks s1 }"

definition removeAllRoutingTableEntries :: "rip_config \<Rightarrow> ripng \<Rightarrow> ripng option" where
  "removeAllRoutingTableEntries c s =
     map_option (\<lambda>s1. s1\<lparr>rp_table := []\<rparr>) (remove_all_copies c (map re_id (rp_table s)) s)"

section \<open>Sending\<close>

definition makeRTE :: "rip_entry \<Rightarrow> rip_rte" where
  "makeRTE e =
     \<lparr>rte_prefix = re_prefix e, rte_tag = re_tag e, rte_len = word_of_int (re_len e), rte_metric = word_of_int (re_metric e)\<rparr>"

fun getRTEs :: "rip_config \<Rightarrow> rip_int \<Rightarrow> bool \<Rightarrow> rip_entry list \<Rightarrow> rip_rte list" where
  "getRTEs c i onlyChanged [] = []"
| "getRTEs c i onlyChanged (e # es) =
     (let own = (ri_splitHorizon i \<and> re_ifId e = ri_id i);
          rest = getRTEs c i onlyChanged es in
      if own \<and> \<not> ri_poisonReverse i then rest
      else if \<not> onlyChanged \<or> (onlyChanged \<and> re_change e)
      then (if own then (makeRTE e)\<lparr>rte_metric := word_of_int (rc_infinity c)\<rparr> else makeRTE e) # rest
      else rest)"

definition makeUpdateMessageForInterface :: "rip_config \<Rightarrow> rip_int \<Rightarrow> bool \<Rightarrow> ripng \<Rightarrow> rip_out option" where
  "makeUpdateMessageForInterface c i changed s =
     (case getRTEs c i changed (rp_table s) of
        [] \<Rightarrow> None
      | rtes \<Rightarrow> Some \<lparr>out_command = RIPngResponse, out_rtes = rtes, out_addr = rc_address c, out_port = rc_port c,
                     out_if = ri_id i, out_global = False\<rparr>)"

text \<open>The loop over the enabled interfaces that both kinds of update share.\<close>

definition update_messages :: "rip_config \<Rightarrow> bool \<Rightarrow> ripng \<Rightarrow> rip_out list" where
  "update_messages c changed s =
     List.map_filter (\<lambda>i. if ri_passive i then None else makeUpdateMessageForInterface c i changed s) (rp_ints s)"

definition clearRouteChangeFlags :: "ripng \<Rightarrow> ripng" where
  "clearRouteChangeFlags s = s\<lparr>rp_table := map (\<lambda>e. e\<lparr>re_change := False\<rparr>) (rp_table s)\<rparr>"

definition sendRegularUpdateMessage :: "rip_config \<Rightarrow> ripng \<Rightarrow> ripng" where
  "sendRegularUpdateMessage c s =
     (clearRouteChangeFlags (s\<lparr>rp_out := rp_out s @ update_messages c False s\<rparr>))\<lparr>rp_send := False\<rparr>"

definition sendTriggeredUpdateMessage :: "rip_config \<Rightarrow> ripng \<Rightarrow> ripng" where
  "sendTriggeredUpdateMessage c s =
     (if rp_triggered s \<noteq> None then s
      else let s1 = s\<lparr>rp_draws := rp_draws s + 1\<rparr> in
        if rp_regular s - rp_now s < rc_uniform c (rp_draws s) then s1
        else (clearRouteChangeFlags (s1\<lparr>rp_out := rp_out s @ update_messages c True s\<rparr>))
               \<lparr>rp_send := False, rp_triggered := Some (rp_now s + rc_uniform c (rp_draws s + 1)), rp_draws := rp_draws s + 2\<rparr>)"

definition sendDelayedTriggeredUpdateMessage :: "rip_config \<Rightarrow> ripng \<Rightarrow> ripng" where
  "sendDelayedTriggeredUpdateMessage c s =
     (if rp_triggered s = None
      then s\<lparr>rp_send := True, rp_triggered := Some (rp_now s + rc_uniform c (rp_draws s)), rp_draws := rp_draws s + 1\<rparr>
      else s\<lparr>rp_send := True\<rparr>)"

definition all_routes_rte :: rip_rte where
  "all_routes_rte = \<lparr>rte_prefix = UNSPECIFIED_ADDRESS, rte_tag = 0, rte_len = 0, rte_metric = 16\<rparr>"

definition sendAllRoutesRequest :: "rip_config \<Rightarrow> ripng \<Rightarrow> ripng" where
  "sendAllRoutesRequest c s =
     s\<lparr>rp_out := rp_out s @ map (\<lambda>i. \<lparr>out_command = RIPngRequest, out_rtes = [all_routes_rte], out_addr = rc_address c,
         out_port = rc_port c, out_if = ri_id i, out_global = False\<rparr>) (filter (\<lambda>i. \<not> ri_passive i) (rp_ints s))\<rparr>"

section \<open>Timeouts of routes\<close>

definition startRouteDeletionProcess :: "rip_config \<Rightarrow> nat \<Rightarrow> ripng \<Rightarrow> ripng option" where
  "startRouteDeletionProcess c i s =
     do {
       e \<leftarrow> rip_entry_at i s;
       gc \<leftarrow> re_gc e;
       s1 \<leftarrow> removeRoutingTableEntryFromGlobalRT c i
               (rip_modify i (\<lambda>e. e\<lparr>re_metric := rc_infinity c, re_change := True,
                                    re_gc := Some (gc\<lparr>tm_at := Some (rp_now s + rc_gc c)\<rparr>)\<rparr>) s);
       Some (if rp_block s1 then s1\<lparr>rp_send := True\<rparr> else sendDelayedTriggeredUpdateMessage c s1)
     }"

definition cancel_timeout :: "nat \<Rightarrow> ripng \<Rightarrow> ripng" where
  "cancel_timeout i = rip_modify i (\<lambda>e. e\<lparr>re_timer := map_option (\<lambda>tm. tm\<lparr>tm_at := None\<rparr>) (re_timer e)\<rparr>)"

text \<open>The expiry of the timeout of a route finds its entry by the timer's prefix and length.\<close>

definition startRouteDeletion_timer :: "rip_config \<Rightarrow> rip_timer \<Rightarrow> ripng \<Rightarrow> ripng option" where
  "startRouteDeletion_timer c tm s =
     do { e \<leftarrow> getRoutingTableEntry (tm_prefix tm) (tm_len tm) s; startRouteDeletionProcess c (re_id e) s }"

definition deleteRoute :: "rip_config \<Rightarrow> rip_timer \<Rightarrow> ripng \<Rightarrow> ripng option" where
  "deleteRoute c tm s = removeRoutingTableEntry c (tm_prefix tm) (tm_len tm) s"

section \<open>Responses\<close>

definition received_metric :: "rip_config \<Rightarrow> rip_rte \<Rightarrow> int" where
  "received_metric c rte = (let m = sint (rte_metric rte) in if m < rc_infinity c then m + 1 else m)"

definition updateRoutingTableEntry :: "rip_config \<Rightarrow> nat \<Rightarrow> rip_rte \<Rightarrow> int \<Rightarrow> ip6 \<Rightarrow> ripng \<Rightarrow> ripng option" where
  "updateRoutingTableEntry c i rte sourceIntId sourceAddr s =
     (let newMetric = received_metric c rte; timeout = rp_now s + rc_timeout c in
      do {
        e \<leftarrow> rip_entry_at i s;
        if re_nextHop e = sourceAddr then
          do {
            tm \<leftarrow> re_timer e;
            let s1 = rip_modify i (\<lambda>e. e\<lparr>re_timer := Some (tm\<lparr>tm_at := Some timeout\<rparr>)\<rparr>) s in
            if newMetric \<noteq> re_metric e then
              if newMetric = rc_infinity c then startRouteDeletionProcess c i (cancel_timeout i s1)
              else
                Some ((rip_modify_route (re_copy e) (\<lambda>r. r\<lparr>rt_metric := newMetric\<rparr>)
                         (rip_modify i (\<lambda>e. e\<lparr>re_metric := newMetric, re_change := True\<rparr>) s1))\<lparr>rp_send := True\<rparr>)
            else Some s1
          }
        else if newMetric < re_metric e then
          do {
            tm \<leftarrow> re_timer e;
            gc \<leftarrow> re_gc e;
            let s1 = rip_modify i (\<lambda>e. e\<lparr>re_metric := newMetric, re_nextHop := sourceAddr, re_ifId := sourceIntId,
                                        re_timer := Some (tm\<lparr>tm_at := Some timeout\<rparr>)\<rparr>) s;
            s2 \<leftarrow> (if tm_at gc \<noteq> None
                  then addRoutingTableEntryToGlobalRT c i (rip_modify i (\<lambda>e. e\<lparr>re_gc := Some (gc\<lparr>tm_at := None\<rparr>)\<rparr>) s1)
                  else Some (rip_modify_route (re_copy e)
                         (\<lambda>r. r\<lparr>rt_metric := newMetric, rt_nextHop := sourceAddr, rt_ifId := sourceIntId\<rparr>) s1));
            Some ((rip_modify i (\<lambda>e. e\<lparr>re_change := True\<rparr>) s2)\<lparr>rp_send := True\<rparr>)
          }
        else Some s
      })"

definition checkAndLogRTE :: "rip_rte \<Rightarrow> bool" where
  "checkAndLogRTE rte \<longleftrightarrow> \<not> (\<not> isGlobal (rte_prefix rte) \<or> sint (rte_len rte) > 128 \<or> sint (rte_metric rte) > 16)"

text \<open>The result of \<open>checkAndLogRTE\<close> is not used.\<close>

definition processRTE :: "rip_config \<Rightarrow> rip_rte \<Rightarrow> int \<Rightarrow> ip6 \<Rightarrow> ripng \<Rightarrow> ripng option" where
  "processRTE c rte sourceIntId sourceAddr s =
     (case getRoutingTableEntry (rte_prefix rte) (sint (rte_len rte)) s of
        Some e \<Rightarrow> updateRoutingTableEntry c (re_id e) rte sourceIntId sourceAddr s
      | None \<Rightarrow>
          map_option (\<lambda>s1. s1\<lparr>rp_send := True\<rparr>)
            (addRoutingTableEntry c True
               ((new_entry (rp_next s) (rte_prefix rte) (sint (rte_len rte)))
                  \<lparr>re_ifId := sourceIntId, re_nextHop := sourceAddr, re_metric := received_metric c rte, re_change := True\<rparr>)
               (s\<lparr>rp_next := rp_next s + 1\<rparr>)))"

fun process_rtes :: "rip_config \<Rightarrow> rip_rte list \<Rightarrow> int \<Rightarrow> ip6 \<Rightarrow> ripng \<Rightarrow> ripng option" where
  "process_rtes c [] sourceIntId sourceAddr s = Some s"
| "process_rtes c (rte # rtes) sourceIntId sourceAddr s =
     do { s1 \<leftarrow> processRTE c rte sourceIntId sourceAddr s; process_rtes c rtes sourceIntId sourceAddr s1 }"

text \<open>The end of a batch of changes: one triggered update for all of them.\<close>

definition end_batch :: "rip_config \<Rightarrow> ripng \<Rightarrow> ripng" where
  "end_batch c s = (if rp_send s then sendTriggeredUpdateMessage c s else s)\<lparr>rp_block := False\<rparr>"

definition processRTEs :: "rip_config \<Rightarrow> rip_rte list \<Rightarrow> int \<Rightarrow> ip6 \<Rightarrow> ripng \<Rightarrow> ripng option" where
  "processRTEs c rtes sourceIntId sourceAddr s =
     map_option (end_batch c) (process_rtes c rtes sourceIntId sourceAddr (s\<lparr>rp_block := True\<rparr>))"

definition checkMessageValidity :: "rip_config \<Rightarrow> rip_packet \<Rightarrow> bool" where
  "checkMessageValidity c p \<longleftrightarrow>
     pk_srcPort p = rc_port c \<and> isLinkLocal (pk_srcAddr p) \<and> \<not> rc_local c (pk_srcAddr p) \<and> pk_ttl p = 255"

definition handleResponse :: "rip_config \<Rightarrow> rip_packet \<Rightarrow> ripng \<Rightarrow> ripng option" where
  "handleResponse c p s =
     (if \<not> checkMessageValidity c p then Some s
      else processRTEs c (pk_rtes p) (pk_ifId p) (pk_srcAddr p) s)"

section \<open>Requests\<close>

definition answer_rte :: "rip_config \<Rightarrow> ripng \<Rightarrow> rip_rte \<Rightarrow> rip_rte" where
  "answer_rte c s rte =
     (case getRoutingTableEntry (rte_prefix rte) (sint (rte_len rte)) s of
        Some e \<Rightarrow> makeRTE e
      | None \<Rightarrow> rte\<lparr>rte_metric := word_of_int (rc_infinity c)\<rparr>)"

definition answer_rtes :: "rip_config \<Rightarrow> rip_int \<Rightarrow> rip_rte list \<Rightarrow> ripng \<Rightarrow> rip_rte list" where
  "answer_rtes c i rtes s =
     (case rtes of
        [rte] \<Rightarrow>
          if rte_prefix rte = UNSPECIFIED_ADDRESS \<and> sint (rte_len rte) = 0 \<and>
             sint (rte_metric rte) = rc_infinity c \<and> rte_tag rte = 0
          then getRTEs c i False (rp_table s) else []
      | _ \<Rightarrow> map (answer_rte c s) rtes)"

definition handleRequest :: "rip_config \<Rightarrow> rip_packet \<Rightarrow> rip_int \<Rightarrow> ripng \<Rightarrow> ripng" where
  "handleRequest c p i s =
     s\<lparr>rp_out := rp_out s @
        [\<lparr>out_command = RIPngResponse, out_rtes = answer_rtes c i (pk_rtes p) s, out_addr = pk_srcAddr p,
          out_port = pk_srcPort p, out_if = ri_id i,
          out_global = \<not> (pk_destAddr p = rc_address c \<and> pk_srcPort p = rc_port c)\<rparr>]\<rparr>"

definition getEnabledInterface :: "int \<Rightarrow> ripng \<Rightarrow> rip_int option" where
  "getEnabledInterface i s = find (\<lambda>x. ri_id x = i) (rp_ints s)"

definition handleRIPngMessage :: "rip_config \<Rightarrow> rip_packet \<Rightarrow> ripng \<Rightarrow> ripng option" where
  "handleRIPngMessage c p s =
     (case getEnabledInterface (pk_ifId p) s of
        None \<Rightarrow> Some s
      | Some i \<Rightarrow>
          (case pk_command p of
             RIPngRequest \<Rightarrow> Some (handleRequest c p i s)
           | RIPngResponse \<Rightarrow> handleResponse c p s
           | Other_Command \<Rightarrow> Some s))"

section \<open>Timers\<close>

text \<open>A timer that arrives is no longer scheduled when it is handled.\<close>

datatype rip_event = General_Update | Triggered_Update | Route_Timeout nat | Route_Garbage nat

definition handleTimer :: "rip_config \<Rightarrow> rip_event \<Rightarrow> ripng \<Rightarrow> ripng option" where
  "handleTimer c ev s =
     (case ev of
        General_Update \<Rightarrow> Some ((sendRegularUpdateMessage c s)\<lparr>rp_regular := rp_now s + rc_regular c\<rparr>)
      | Triggered_Update \<Rightarrow>
          let s1 = s\<lparr>rp_triggered := None\<rparr> in Some (if rp_send s1 then sendTriggeredUpdateMessage c s1 else s1)
      | Route_Timeout i \<Rightarrow>
          do { e \<leftarrow> rip_entry_at i s; tm \<leftarrow> re_timer e; startRouteDeletion_timer c tm (cancel_timeout i s) }
      | Route_Garbage i \<Rightarrow>
          do { e \<leftarrow> rip_entry_at i s; tm \<leftarrow> re_gc e;
               deleteRoute c tm (rip_modify i (\<lambda>e. e\<lparr>re_gc := Some (tm\<lparr>tm_at := None\<rparr>)\<rparr>) s) })"

section \<open>Interfaces\<close>

text \<open>The loop over the table when an interface went down.\<close>

fun down_loop :: "rip_config \<Rightarrow> int \<Rightarrow> nat list \<Rightarrow> ripng \<Rightarrow> ripng option" where
  "down_loop c ifId [] s = Some s"
| "down_loop c ifId (k # ks) s =
     do {
       e \<leftarrow> rip_entry_at k s;
       s1 \<leftarrow> (if re_ifId e = ifId then
               if re_nextHop e = UNSPECIFIED_ADDRESS
               then Some (rip_modify k (\<lambda>e. e\<lparr>re_metric := rc_infinity c, re_change := True\<rparr>) s)
               else startRouteDeletionProcess c k (cancel_timeout k s)
             else Some s);
       down_loop c ifId ks s1
     }"

definition rip_interfaceDown :: "rip_config \<Rightarrow> int \<Rightarrow> ripng \<Rightarrow> ripng option" where
  "rip_interfaceDown c ifId s =
     (if getEnabledInterface ifId s = None then Some s
      else map_option (end_batch c)
        (down_loop c ifId (map re_id (rp_table s))
           (s\<lparr>rp_ints := remove_first (\<lambda>i. ri_id i = ifId) (rp_ints s), rp_block := True\<rparr>)))"

definition enableRIPngOnInterface :: "int \<Rightarrow> ripng \<Rightarrow> ripng" where
  "enableRIPngOnInterface ifId s = s\<lparr>rp_ints := rp_ints s @ [new_rip_int ifId]\<rparr>"

definition rip_interfaceUp :: "rip_config \<Rightarrow> int \<Rightarrow> ripng \<Rightarrow> ripng" where
  "rip_interfaceUp c ifId s =
     (if getEnabledInterface ifId s \<noteq> None then s
      else let s1 = (enableRIPngOnInterface ifId s)\<lparr>rp_block := True\<rparr> in
        end_batch c (s1\<lparr>rp_table := map (\<lambda>e. if re_ifId e = ifId \<and> re_nextHop e = UNSPECIFIED_ADDRESS
           then e\<lparr>re_metric := rc_conn c, re_change := True\<rparr> else e) (rp_table s1)\<rparr>))"

section \<open>Initialisation\<close>

text \<open>The configuration of an interface: its addresses with prefix lengths, and its RIPng settings.\<close>

record rip_ifcfg =
  ic_id :: int
  ic_addrs :: "(ip6 \<times> int) list"
  ic_passive :: bool
  ic_splitHorizon :: bool
  ic_poisonReverse :: bool

fun load_prefixes :: "rip_config \<Rightarrow> int \<Rightarrow> (ip6 \<times> int) list \<Rightarrow> ripng \<Rightarrow> ripng option" where
  "load_prefixes c ifId [] s = Some s"
| "load_prefixes c ifId ((a, len) # as) s =
     (if \<not> isLinkLocal a \<and> \<not> isMulticast a
      then do {
        p \<leftarrow> ip6_getPrefix len a;
        s1 \<leftarrow> addRoutingTableEntry c False
               ((new_entry (rp_next s) p len)\<lparr>re_ifId := ifId, re_nextHop := UNSPECIFIED_ADDRESS, re_metric := rc_conn c\<rparr>)
               (s\<lparr>rp_next := rp_next s + 1\<rparr>);
        load_prefixes c ifId as s1
      }
      else load_prefixes c ifId as s)"

text \<open>The settings are set on the interface object just made, the last one.\<close>

fun load_interfaces :: "rip_config \<Rightarrow> rip_ifcfg list \<Rightarrow> ripng \<Rightarrow> ripng option" where
  "load_interfaces c [] s = Some s"
| "load_interfaces c (ic # ics) s =
     do {
       s1 \<leftarrow> load_prefixes c (ic_id ic) (ic_addrs ic) (enableRIPngOnInterface (ic_id ic) s);
       load_interfaces c ics
         (s1\<lparr>rp_ints := butlast (rp_ints s1) @
              [(last (rp_ints s1))\<lparr>ri_passive := ic_passive ic, ri_splitHorizon := ic_splitHorizon ic,
                                  ri_poisonReverse := ic_poisonReverse ic\<rparr>]\<rparr>)
     }"

definition rip_initialize :: "rip_config \<Rightarrow> rip_ifcfg list \<Rightarrow> rt6 \<Rightarrow> ripng option" where
  "rip_initialize c ics t =
     map_option (\<lambda>s. (sendAllRoutesRequest c (s\<lparr>rp_regular := rp_now s + rc_regular c\<rparr>))\<lparr>rp_started := True\<rparr>)
       (load_interfaces c ics
          \<lparr>rp_now = 0, rp_rt = t, rp_next = 0, rp_table = [], rp_numRoutes = 0, rp_ints = [], rp_send = False,
           rp_block = False, rp_regular = 0, rp_triggered = None, rp_draws = 0, rp_started = False, rp_out = []\<rparr>)"

end
