(* ===== verification/Ripng_Invariant.thy ===== *)
theory Ripng_Invariant
  imports Ripng
begin

text \<open>
  What holds of RIPng and its routes in every state it reaches: each entry's copy in the IPv6 table exists,
  is unique and says what the entry says, each RIPng route in the IPv6 table is the copy of an entry, the
  timers of a learned route are its own, and a route that is being deleted has no copy.
\<close>

section \<open>The invariant\<close>

definition timers_ok :: "rip_entry \<Rightarrow> bool" where
  "timers_ok e \<longleftrightarrow>
     (if re_nextHop e = UNSPECIFIED_ADDRESS then re_timer e = None \<and> re_gc e = None
      else (\<exists>tm gc. re_timer e = Some tm \<and> re_gc e = Some gc \<and>
              tm_prefix tm = re_prefix e \<and> tm_len tm = re_len e \<and> tm_prefix gc = re_prefix e \<and> tm_len gc = re_len e \<and>
              (tm_at gc = None \<or> re_copy e = None)))"

definition is_copy :: "rip_entry \<Rightarrow> route6 \<Rightarrow> bool" where
  "is_copy e r \<longleftrightarrow> rt_rip r = Some (re_id e) \<and> rt_prefix r = re_prefix e \<and> rt_length r = re_len e \<and>
     rt_nextHop r = re_nextHop e \<and> rt_ifId r = re_ifId e \<and> rt_adminDist r = RIP \<and> rt_src r = ROUTING_PROT \<and>
     (re_nextHop e = UNSPECIFIED_ADDRESS \<or> rt_metric r = re_metric e)"

definition copy_ok :: "route6 list \<Rightarrow> rip_entry \<Rightarrow> bool" where
  "copy_ok rl e \<longleftrightarrow> (\<forall>i. re_copy e = Some i \<longrightarrow> (\<exists>r\<in>set rl. rt_id r = i \<and> is_copy e r))"

definition route_ok :: "rip_entry list \<Rightarrow> route6 \<Rightarrow> bool" where
  "route_ok tbl r \<longleftrightarrow>
     (case rt_rip r of
        None \<Rightarrow> ad_number (rt_adminDist r) < ad_number RIP
      | Some k \<Rightarrow> \<exists>e\<in>set tbl. re_id e = k \<and> re_copy e = Some (rt_id r))"

definition entry_ok :: "rip_entry \<Rightarrow> bool" where
  "entry_ok e \<longleftrightarrow> timers_ok e \<and> to_short (re_len e) = re_len e"

definition rip_wf :: "ripng \<Rightarrow> bool" where
  "rip_wf s \<longleftrightarrow> distinct (map re_id (rp_table s)) \<and> (\<forall>e\<in>set (rp_table s). re_id e < rp_next s) \<and>
     (\<forall>e\<in>set (rp_table s). entry_ok e \<and> copy_ok (routeList (rp_rt s)) e) \<and>
     rt6_wf (rp_rt s) \<and> (\<forall>r\<in>set (routeList (rp_rt s)). route_ok (rp_table s) r)"

text \<open>The counter of the module's routes.\<close>

definition num_ok :: "ripng \<Rightarrow> bool" where
  "num_ok s \<longleftrightarrow> rp_numRoutes s = int (length (rp_table s))"

lemma find_by_key:
  "distinct (map key xs) \<Longrightarrow> find (\<lambda>x. key x = k) xs = Some x \<longleftrightarrow> x \<in> set xs \<and> key x = k"
  by (induction xs) (auto simp: image_iff)

lemma set_map_key:
  "distinct (map key xs) \<Longrightarrow> x \<in> set xs \<Longrightarrow>
    set (map (\<lambda>y. if key y = key x then f y else y) xs) = insert (f x) {y \<in> set xs. key y \<noteq> key x}"
  by (induction xs) (auto simp: image_iff)

lemma key_inj: "distinct (map key xs) \<Longrightarrow> x \<in> set xs \<Longrightarrow> y \<in> set xs \<Longrightarrow> key x = key y \<Longrightarrow> x = y"
  by (induction xs) (auto simp: image_iff)

lemma rip_entry_at_iff:
  "rip_wf s \<Longrightarrow> rip_entry_at i s = Some e \<longleftrightarrow> e \<in> set (rp_table s) \<and> re_id e = i"
  by (simp add: rip_entry_at_def rip_wf_def find_by_key)

lemma rip_modify_set:
  "rip_wf s \<Longrightarrow> e \<in> set (rp_table s) \<Longrightarrow>
    set (rp_table (rip_modify (re_id e) f s)) = insert (f e) {x \<in> set (rp_table s). re_id x \<noteq> re_id e}"
  unfolding rip_modify_def rip_wf_def using set_map_key [of re_id "rp_table s" e f] by simp

lemma rt6_modify_set:
  "rt6_wf t \<Longrightarrow> r \<in> set (routeList t) \<Longrightarrow>
    set (routeList (rt6_modify (rt_id r) g t)) = insert (g r) {x \<in> set (routeList t). rt_id x \<noteq> rt_id r}"
  unfolding rt6_modify_def rt6_wf_def using set_map_key [of rt_id "routeList t" r g] by simp

lemma rip_modify_frame [simp]:
  "rp_rt (rip_modify i f s) = rp_rt s" "rp_next (rip_modify i f s) = rp_next s" "rp_now (rip_modify i f s) = rp_now s"
  "rp_numRoutes (rip_modify i f s) = rp_numRoutes s" "rp_started (rip_modify i f s) = rp_started s"
  "rp_block (rip_modify i f s) = rp_block s" "rp_ints (rip_modify i f s) = rp_ints s"
  "rp_send (rip_modify i f s) = rp_send s" "rp_triggered (rip_modify i f s) = rp_triggered s"
  "length (rp_table (rip_modify i f s)) = length (rp_table s)"
  by (simp_all add: rip_modify_def)

lemma rip_modify_ids: "(\<And>e. re_id (f e) = re_id e) \<Longrightarrow> map re_id (rp_table (rip_modify i f s)) = map re_id (rp_table s)"
  by (auto simp: rip_modify_def)

lemma rip_wf_cong:
  "rip_wf s \<Longrightarrow> rp_table s' = rp_table s \<Longrightarrow> rp_rt s' = rp_rt s \<Longrightarrow> rp_next s' = rp_next s \<Longrightarrow> rip_wf s'"
  by (simp add: rip_wf_def)

lemma rip_wf_sends [simp]:
  "rip_wf (s\<lparr>rp_send := a\<rparr>) = rip_wf s" "rip_wf (s\<lparr>rp_block := a\<rparr>) = rip_wf s" "rip_wf (s\<lparr>rp_triggered := b\<rparr>) = rip_wf s"
  "rip_wf (s\<lparr>rp_draws := n\<rparr>) = rip_wf s" "rip_wf (s\<lparr>rp_out := os\<rparr>) = rip_wf s" "rip_wf (s\<lparr>rp_regular := t\<rparr>) = rip_wf s"
  "rip_wf (s\<lparr>rp_now := t\<rparr>) = rip_wf s" "rip_wf (s\<lparr>rp_ints := is\<rparr>) = rip_wf s" "rip_wf (s\<lparr>rp_started := a\<rparr>) = rip_wf s"
  "rip_wf (s\<lparr>rp_numRoutes := m\<rparr>) = rip_wf s"
  by (simp_all add: rip_wf_def)

lemma rip_wfD:
  assumes "rip_wf s"
  shows "distinct (map re_id (rp_table s))" "rt6_wf (rp_rt s)" "distinct (map rt_id (routeList (rp_rt s)))"
    "e \<in> set (rp_table s) \<Longrightarrow> copy_ok (routeList (rp_rt s)) e" "e \<in> set (rp_table s) \<Longrightarrow> entry_ok e"
    "e \<in> set (rp_table s) \<Longrightarrow> re_id e < rp_next s" "r \<in> set (routeList (rp_rt s)) \<Longrightarrow> route_ok (rp_table s) r"
  using assms by (simp_all add: rip_wf_def rt6_wf_def)

text \<open>The copy of an entry.\<close>

lemma the_copy:
  assumes "rip_wf s" and "e \<in> set (rp_table s)" and "re_copy e = Some i"
  obtains r where "r \<in> set (routeList (rp_rt s))" "rt_id r = i" "is_copy e r" "rt6_find i (rp_rt s) = Some r"
proof -
  obtain r where r: "r \<in> set (routeList (rp_rt s))" "rt_id r = i" "is_copy e r"
    using rip_wfD(4) [OF assms(1,2)] assms(3) unfolding copy_ok_def by blast
  then have "rt6_find i (rp_rt s) = Some r" using assms(1) by (simp add: rt6_find_def rip_wf_def rt6_wf_def find_by_key)
  then show thesis using r that by blast
qed

lemma copy_owner:
  assumes "rip_wf s" and "r \<in> set (routeList (rp_rt s))" and "rt_rip r = Some k"
  obtains e where "e \<in> set (rp_table s)" "re_id e = k" "re_copy e = Some (rt_id r)" "is_copy e r"
proof -
  obtain e where e: "e \<in> set (rp_table s)" "re_id e = k" "re_copy e = Some (rt_id r)"
    using rip_wfD(7) [OF assms(1,2)] assms(3) by (auto simp: route_ok_def)
  obtain r' where "r' \<in> set (routeList (rp_rt s))" "rt_id r' = rt_id r" "is_copy e r'"
    using the_copy [OF assms(1) e(1,3)] by blast
  moreover have "r' = r" using key_inj [OF rip_wfD(3) [OF assms(1)]] assms(2) calculation by blast
  ultimately show thesis using e that by blast
qed

section \<open>Changing an entry and its copy together\<close>

lemma rip_wf_modify:
  assumes wf: "rip_wf s" and e: "e \<in> set (rp_table s)"
    and f: "\<And>x. re_id (f x) = re_id x" "re_copy (f e) = re_copy e" and ok: "entry_ok (f e)"
    and g: "\<And>r. rt_id (g r) = rt_id r \<and> rt_length (g r) = rt_length r \<and> rt_rip (g r) = rt_rip r"
    and copy: "\<And>r. is_copy e r \<Longrightarrow> is_copy (f e) (g r)"
  shows "rip_wf (rip_modify_route (re_copy e) g (rip_modify (re_id e) f s))"
proof (cases "re_copy e")
  case None
  then have "copy_ok (routeList (rp_rt s)) (f e)" using f(2) by (simp add: copy_ok_def)
  moreover have "route_ok (rp_table (rip_modify (re_id e) f s)) r" if r: "r \<in> set (routeList (rp_rt s))" for r
  proof (cases "rt_rip r")
    case (Some k)
    then obtain x where "x \<in> set (rp_table s)" "re_id x = k" "re_copy x = Some (rt_id r)"
      using rip_wfD(7) [OF wf r] by (auto simp: route_ok_def)
    moreover have "re_id x \<noteq> re_id e" using key_inj [OF rip_wfD(1) [OF wf] _ e] calculation None by (metis option.distinct(1))
    ultimately show ?thesis using Some by (auto simp: route_ok_def rip_modify_set [OF wf e])
  qed (use rip_wfD(7) [OF wf r] in \<open>simp add: route_ok_def\<close>)
  ultimately show ?thesis
    using wf e ok None f(1) unfolding rip_modify_route_def rip_wf_def
    by (auto simp: rip_modify_ids rip_modify_set [OF wf e])
next
  case (Some i)
  obtain r where r: "r \<in> set (routeList (rp_rt s))" "rt_id r = i" "is_copy e r" using the_copy [OF wf e Some] by blast
  let ?s = "rip_modify (re_id e) f s"
  let ?t = "rt6_modify i g (rp_rt s)"
  have rt: "rt6_wf (rp_rt s)" using wf by (simp add: rip_wf_def)
  have set_t: "set (routeList ?t) = insert (g r) {x \<in> set (routeList (rp_rt s)). rt_id x \<noteq> i}"
    using rt6_modify_set [OF rt r(1), of g] r(2) by simp
  have "rt6_wf ?t" using rt g by (intro rt6_wf_modify) auto
  moreover have "copy_ok (routeList ?t) x" if x: "x \<in> set (rp_table ?s)" for x
  proof (cases "re_id x = re_id e")
    case True
    then have "x = f e" using x wf e f(1) by (auto simp: rip_modify_set [OF wf e])
    then show ?thesis using copy [OF r(3)] g r(2) f(2) Some by (auto simp: copy_ok_def set_t)
  next
    case False
    then have x': "x \<in> set (rp_table s)" using x f(1) by (auto simp: rip_modify_set [OF wf e])
    have "rt_id q \<noteq> i" if "q \<in> set (routeList (rp_rt s))" "is_copy x q" for q
      using that r key_inj [of rt_id "routeList (rp_rt s)" q r] rt False by (auto simp: is_copy_def rt6_wf_def)
    moreover have "copy_ok (routeList (rp_rt s)) x" using x' wf by (simp add: rip_wf_def)
    ultimately show ?thesis unfolding copy_ok_def set_t by blast
  qed
  moreover have "route_ok (rp_table ?s) q" if q: "q \<in> set (routeList ?t)" for q
  proof -
    have "\<exists>q'\<in>set (routeList (rp_rt s)). rt_id q = rt_id q' \<and> rt_rip q = rt_rip q' \<and> rt_adminDist q = rt_adminDist q' \<or> q = g r"
      using q set_t r(1) by auto
    moreover have "route_ok (rp_table ?s) (g r)"
      using r copy [OF r(3)] g Some f by (auto simp: route_ok_def is_copy_def rip_modify_set [OF wf e])
    moreover have "route_ok (rp_table ?s) q" if q': "q' \<in> set (routeList (rp_rt s))" "rt_id q = rt_id q'" "rt_rip q = rt_rip q'"
      "rt_adminDist q = rt_adminDist q'" for q'
    proof -
      have "route_ok (rp_table s) q'" using q'(1) wf by (simp add: rip_wf_def)
      then show ?thesis using q' wf e f key_inj [of re_id "rp_table s" _ e]
        by (fastforce simp: route_ok_def rip_modify_set [OF wf e] rip_wf_def split: option.splits)
    qed
    ultimately show ?thesis by blast
  qed
  moreover have "x \<in> set (rp_table ?s) \<Longrightarrow> entry_ok x \<and> re_id x < rp_next s" for x
    using wf e ok f(1) by (auto simp: rip_modify_set [OF wf e] rip_wf_def)
  ultimately show ?thesis
    using wf f(1) Some by (simp add: rip_modify_route_def rip_wf_def rip_modify_ids)
qed

lemma rip_wf_modify_entry:
  assumes "rip_wf s" and "e \<in> set (rp_table s)" and "\<And>x. re_id (f x) = re_id x" and "re_copy (f e) = re_copy e"
    and "entry_ok (f e)" and "\<And>r. is_copy e r \<Longrightarrow> is_copy (f e) r"
  shows "rip_wf (rip_modify (re_id e) f s)"
proof -
  have "rt6_modify i (\<lambda>r. r) t = t" for i t by (simp add: rt6_modify_def)
  then have "rip_modify_route (re_copy e) (\<lambda>r. r) (rip_modify (re_id e) f s) = rip_modify (re_id e) f s"
    by (simp add: rip_modify_route_def split: option.split)
  then show ?thesis using rip_wf_modify [OF assms(1-5), of "\<lambda>r. r"] assms(6) by simp
qed

section \<open>Removing a copy\<close>

lemma remove_global_eq:
  assumes e: "rip_entry_at i s = Some e" and on: "rp_started s"
    and q: "\<And>r. re_copy e = Some r \<Longrightarrow> \<exists>q. rt6_find r (rp_rt s) = Some q \<and> rt_rip q = Some i"
  shows "removeRoutingTableEntryFromGlobalRT c i s =
    Some (case re_copy e of None \<Rightarrow> s
          | Some r \<Rightarrow> (rip_modify i (\<lambda>e. e\<lparr>re_copy := None\<rparr>) s)\<lparr>rp_rt := rt6_erase r (rp_rt s)\<rparr>)"
proof (cases "re_copy e")
  case (Some r)
  then obtain q where q: "rt6_find r (rp_rt s) = Some q" "rt_rip q = Some i" using assms(3) by blast
  then have "rt_id q = r" by (auto simp: rt6_find_def dest: find_Some_in)
  then show ?thesis
    using Some e on q
    by (simp add: removeRoutingTableEntryFromGlobalRT_def rip_removeRoute_def rip_routeDeleted_def rip_clear_copy_def rip_erase_route_def)
qed (use e in \<open>simp add: removeRoutingTableEntryFromGlobalRT_def\<close>)

definition drop_copy :: "rip_entry \<Rightarrow> (rip_entry \<Rightarrow> rip_entry) \<Rightarrow> ripng \<Rightarrow> ripng" where
  "drop_copy e f s =
     (rip_modify (re_id e) f s)\<lparr>rp_rt := (case re_copy e of None \<Rightarrow> rp_rt s | Some r \<Rightarrow> rt6_erase r (rp_rt s))\<rparr>"

lemma drop_copy_routes:
  "set (routeList (rp_rt (drop_copy e f s))) = {r \<in> set (routeList (rp_rt s)). re_copy e \<noteq> Some (rt_id r)}"
  by (auto simp: drop_copy_def rt6_erase_def split: option.split)

lemma rip_wf_drop_copy:
  assumes wf: "rip_wf s" and e: "e \<in> set (rp_table s)" and f: "\<And>x. re_id (f x) = re_id x" "re_copy (f e) = None"
    and ok: "entry_ok (f e)"
  shows "rip_wf (drop_copy e f s)"
proof -
  let ?s = "drop_copy e f s"
  have tbl: "set (rp_table ?s) = insert (f e) {x \<in> set (rp_table s). re_id x \<noteq> re_id e}"
    by (simp add: drop_copy_def rip_modify_set [OF wf e])
  have "rt6_wf (rp_rt ?s)"
    using rip_wfD(2) [OF wf] by (auto simp: drop_copy_def rt6_erase_def rt6_wf_filter split: option.split)
  moreover have "copy_ok (routeList (rp_rt ?s)) x" if "x \<in> set (rp_table ?s)" for x
  proof (cases "x = f e")
    case False
    then have x: "x \<in> set (rp_table s)" "re_id x \<noteq> re_id e" using that by (auto simp: tbl)
    have "re_copy e \<noteq> Some (rt_id r)" if "r \<in> set (routeList (rp_rt s))" "is_copy x r" for r
    proof
      assume c: "re_copy e = Some (rt_id r)"
      obtain r' where "r' \<in> set (routeList (rp_rt s))" "rt_id r' = rt_id r" "is_copy e r'"
        using the_copy [OF wf e c] by blast
      then show False using key_inj [OF rip_wfD(3) [OF wf], of r' r] that x(2) by (auto simp: is_copy_def)
    qed
    then show ?thesis using rip_wfD(4) [OF wf x(1)] unfolding copy_ok_def drop_copy_routes by blast
  qed (use f(2) in \<open>simp add: copy_ok_def\<close>)
  moreover have "route_ok (rp_table ?s) r" if r: "r \<in> set (routeList (rp_rt ?s))" for r
  proof -
    have r': "r \<in> set (routeList (rp_rt s))" "re_copy e \<noteq> Some (rt_id r)" using r by (auto simp: drop_copy_routes)
    show ?thesis
    proof (cases "rt_rip r")
      case (Some k)
      then obtain x where x: "x \<in> set (rp_table s)" "re_id x = k" "re_copy x = Some (rt_id r)"
        using copy_owner [OF wf r'(1)] by blast
      then have "re_id x \<noteq> re_id e" using key_inj [OF rip_wfD(1) [OF wf] x(1) e] r'(2) by auto
      then show ?thesis using x Some by (auto simp: route_ok_def tbl)
    qed (use rip_wfD(7) [OF wf r'(1)] in \<open>simp add: route_ok_def\<close>)
  qed
  moreover have "re_id x < rp_next ?s \<and> entry_ok x" if "x \<in> set (rp_table ?s)" for x
    using that e ok f(1) rip_wfD(5,6) [OF wf] by (auto simp: tbl) (simp_all add: drop_copy_def)
  ultimately show ?thesis
    using wf f(1) by (simp add: rip_wf_def drop_copy_def rip_modify_ids)
qed

section \<open>Installing a copy\<close>

text \<open>Two states that differ in copies only.\<close>

definition same_but_copies :: "ripng \<Rightarrow> ripng \<Rightarrow> bool" where
  "same_but_copies s s' \<longleftrightarrow>
     map (\<lambda>e. e\<lparr>re_copy := None\<rparr>) (rp_table s') = map (\<lambda>e. e\<lparr>re_copy := None\<rparr>) (rp_table s) \<and>
     rp_now s' = rp_now s \<and> rp_next s' = rp_next s \<and> rp_numRoutes s' = rp_numRoutes s \<and> rp_ints s' = rp_ints s \<and>
     rp_send s' = rp_send s \<and> rp_block s' = rp_block s \<and> rp_regular s' = rp_regular s \<and>
     rp_triggered s' = rp_triggered s \<and> rp_draws s' = rp_draws s \<and> rp_started s' = rp_started s \<and> rp_out s' = rp_out s"

lemma same_but_copies_refl [simp]: "same_but_copies s s"
  by (simp add: same_but_copies_def)

lemma same_but_copies_trans: "same_but_copies s s' \<Longrightarrow> same_but_copies s' s'' \<Longrightarrow> same_but_copies s s''"
  by (simp add: same_but_copies_def)

text \<open>What of an entry does not change when copies come and go.\<close>

definition entry_key :: "rip_entry \<Rightarrow> nat \<times> ip6 \<times> int \<times> int \<times> ip6 \<times> int" where
  "entry_key e = (re_id e, re_prefix e, re_len e, re_metric e, re_nextHop e, re_ifId e)"

lemma same_but_copies_keys:
  assumes "same_but_copies s s'"
  shows "map entry_key (rp_table s') = map entry_key (rp_table s)"
proof -
  have key: "map entry_key xs = map entry_key (map (\<lambda>e. e\<lparr>re_copy := None\<rparr>) xs)" for xs by (simp add: entry_key_def)
  have "map (\<lambda>e. e\<lparr>re_copy := None\<rparr>) (rp_table s') = map (\<lambda>e. e\<lparr>re_copy := None\<rparr>) (rp_table s)"
    using assms by (simp add: same_but_copies_def)
  then show ?thesis unfolding key [of "rp_table s'"] key [of "rp_table s"] by (rule arg_cong)
qed

lemma same_but_copies_modify: "same_but_copies s ((rip_modify i (\<lambda>e. e\<lparr>re_copy := k\<rparr>) s)\<lparr>rp_rt := t\<rparr>)"
  by (simp add: same_but_copies_def rip_modify_def)

text \<open>Every route is an old one or a copy of the entry.\<close>

definition routes_from :: "rip_entry \<Rightarrow> ripng \<Rightarrow> ripng \<Rightarrow> bool" where
  "routes_from e s s' \<longleftrightarrow> set (routeList (rp_rt s')) \<subseteq> set (routeList (rp_rt s)) \<union> {r. rt_metric r = re_metric e}"

lemma rip_install_wf:
  assumes srt: "route_sorter (rc_sort c)" and wf: "rip_wf s" and e: "e \<in> set (rp_table s)" and none: "re_copy e = None"
    and gc: "\<And>gc. re_gc e = Some gc \<Longrightarrow> tm_at gc = None"
  shows "\<exists>s'. rip_install c e s = Some s' \<and> rip_wf s' \<and> same_but_copies s s' \<and> routes_from e s s'"
proof -
  let ?i = "rt_next (rp_rt s)"
  let ?q = "copy_route e ?i"
  let ?t = "rt6_addRoute (rc_sort c) ?q ((rp_rt s)\<lparr>rt_next := ?i + 1\<rparr>)"
  let ?s = "(rip_modify (re_id e) (\<lambda>e. e\<lparr>re_copy := Some ?i\<rparr>) s)\<lparr>rp_rt := ?t\<rparr>"
  have inst: "rip_install c e s = Some ?s"
    by (simp add: rip_install_def rt6_addRoutingProtocolRoute_def copy_route_def rip_modify_def Let_def)
  have tbl: "set (rp_table ?s) = insert (e\<lparr>re_copy := Some ?i\<rparr>) {x \<in> set (rp_table s). re_id x \<noteq> re_id e}"
    by (simp add: rip_modify_set [OF wf e])
  have rl: "set (routeList ?t) = insert ?q (set (routeList (rp_rt s)))" by (simp add: route_sorter.addRoute_set [OF srt])
  have rt: "rt6_wf (rp_rt s)" by (rule rip_wfD(2) [OF wf])
  then have "rt6_wf ?t" by (intro route_sorter.wf_addRoute [OF srt]) (auto simp: rt6_wf_def copy_route_def)
  moreover have len: "to_short (re_len e) = re_len e" using rip_wfD(5) [OF wf e] by (simp add: entry_ok_def)
  have "copy_ok (routeList ?t) x" if x: "x \<in> set (rp_table ?s)" for x
  proof (cases "x = e\<lparr>re_copy := Some ?i\<rparr>")
    case True
    then show ?thesis using len unfolding copy_ok_def rl by (auto simp: copy_route_def is_copy_def)
  next
    case False
    then have "copy_ok (routeList (rp_rt s)) x" using x tbl rip_wfD(4) [OF wf] by auto
    then show ?thesis unfolding copy_ok_def rl by blast
  qed
  moreover have "route_ok (rp_table ?s) r" if r: "r \<in> set (routeList ?t)" for r
  proof (cases "r = ?q")
    case True
    then show ?thesis unfolding route_ok_def tbl by (simp add: copy_route_def)
  next
    case False
    then have r': "r \<in> set (routeList (rp_rt s))" using r rl by auto
    show ?thesis
    proof (cases "rt_rip r")
      case (Some k)
      then obtain x where x: "x \<in> set (rp_table s)" "re_id x = k" "re_copy x = Some (rt_id r)"
        using copy_owner [OF wf r'] by blast
      then have "re_id x \<noteq> re_id e" using key_inj [OF rip_wfD(1) [OF wf] x(1) e] none by auto
      then show ?thesis using x Some unfolding route_ok_def tbl by auto
    qed (use rip_wfD(7) [OF wf r'] in \<open>simp add: route_ok_def\<close>)
  qed
  moreover have "entry_ok (e\<lparr>re_copy := Some ?i\<rparr>)"
    using rip_wfD(5) [OF wf e] gc by (auto simp: entry_ok_def timers_ok_def split: if_splits)
  then have "re_id x < rp_next ?s \<and> entry_ok x" if "x \<in> set (rp_table ?s)" for x
    using that e rip_wfD(5,6) [OF wf] unfolding tbl by auto
  ultimately have "rip_wf ?s" using wf by (simp add: rip_wf_def rip_modify_ids)
  moreover have "routes_from e s ?s" using rl by (auto simp: routes_from_def copy_route_def)
  ultimately show ?thesis using inst same_but_copies_modify by blast
qed

lemma drop_copy_same: "same_but_copies s (drop_copy x (\<lambda>e. e\<lparr>re_copy := None\<rparr>) s)"
  using same_but_copies_modify by (simp add: drop_copy_def)

lemma prepare_removing:
  assumes "rip_wf s" and "rt6_prepareForAddRoute (copy_route e 0) (rp_rt s) = Accept_Removing q"
  shows "\<exists>x. x \<in> set (rp_table s) \<and> rt_rip q = Some (re_id x) \<and> re_copy x = Some (rt_id q) \<and> re_metric e < rt_metric q \<and>
    q \<in> set (routeList (rp_rt s))"
proof -
  have q: "q \<in> set (routeList (rp_rt s))" "ad_number (rt_adminDist q) > 120 \<or> ad_number (rt_adminDist q) = 120 \<and> rt_metric q > re_metric e"
    using assms(2) by (auto simp: rt6_prepareForAddRoute_def rt6_findRoute_def copy_route_def dest: find_Some_in split: option.splits if_splits)
  then obtain k where k: "rt_rip q = Some k"
    using rip_wfD(7) [OF assms(1)] by (fastforce simp: route_ok_def split: option.splits)
  then obtain x where "x \<in> set (rp_table s)" "re_id x = k" "re_copy x = Some (rt_id q)" "is_copy x q"
    using copy_owner [OF assms(1) q(1)] by blast
  then show ?thesis using q k by (auto simp: is_copy_def)
qed

lemma add_global:
  assumes srt: "route_sorter (rc_sort c)" and wf: "rip_wf s" and e: "e \<in> set (rp_table s)" and none: "re_copy e = None"
    and gc: "\<And>gc. re_gc e = Some gc \<Longrightarrow> tm_at gc = None"
    and on: "rp_started s \<or> (\<forall>r\<in>set (routeList (rp_rt s)). rt_rip r \<noteq> None \<longrightarrow> rt_metric r \<le> re_metric e)"
  shows "\<exists>s'. addRoutingTableEntryToGlobalRT c (re_id e) s = Some s' \<and> rip_wf s' \<and> same_but_copies s s' \<and> routes_from e s s'"
proof -
  have at: "rip_entry_at (re_id e) s = Some e" using e by (simp add: rip_entry_at_iff [OF wf])
  show ?thesis
  proof (cases "rt6_prepareForAddRoute (copy_route e 0) (rp_rt s)")
    case Refuse
    then show ?thesis using at wf by (subst addRoutingTableEntryToGlobalRT.simps) (simp add: routes_from_def)
  next
    case Accept
    then show ?thesis using at rip_install_wf [OF srt wf e none gc] by (subst addRoutingTableEntryToGlobalRT.simps) simp
  next
    case (Accept_Removing q)
    from prepare_removing [OF wf this] obtain x where x: "x \<in> set (rp_table s)" "rt_rip q = Some (re_id x)"
      "re_copy x = Some (rt_id q)" "re_metric e < rt_metric q" "q \<in> set (routeList (rp_rt s))" by blast
    have started: "rp_started s" using on x by force
    let ?s = "drop_copy x (\<lambda>e. e\<lparr>re_copy := None\<rparr>) s"
    have "entry_ok (x\<lparr>re_copy := None\<rparr>)" using rip_wfD(5) [OF wf x(1)] by (auto simp: entry_ok_def timers_ok_def)
    then have wf': "rip_wf ?s" using rip_wf_drop_copy [OF wf x(1), of "\<lambda>e. e\<lparr>re_copy := None\<rparr>"] by simp
    have "re_id e \<noteq> re_id x" using key_inj [OF rip_wfD(1) [OF wf] e x(1)] none x(3) by auto
    then have e': "e \<in> set (rp_table ?s)" using e by (simp add: drop_copy_def rip_modify_set [OF wf x(1)])
    have "rip_entry_at (re_id x) s = Some x" using x(1) by (simp add: rip_entry_at_iff [OF wf])
    then have "rip_clear_copy (re_id x) s = Some (rip_modify (re_id x) (\<lambda>e. e\<lparr>re_copy := None\<rparr>) s)"
      by (simp add: rip_clear_copy_def)
    then have "addRoutingTableEntryToGlobalRT c (re_id e) s = rip_install c e ?s"
      using at Accept_Removing x(2,3) started
      by (subst addRoutingTableEntryToGlobalRT.simps) (simp add: rip_erase_route_def drop_copy_def)
    moreover obtain s' where "rip_install c e ?s = Some s'" "rip_wf s'" "same_but_copies ?s s'" "routes_from e ?s s'"
      using rip_install_wf [OF srt wf' e' none gc] by blast
    moreover have "routes_from e s s'" using calculation(5) by (auto simp: routes_from_def drop_copy_routes)
    ultimately show ?thesis using same_but_copies_trans [OF drop_copy_same] by metis
  qed
qed

text \<open>An entry that is not yet in the table.\<close>

lemma add_entry:
  assumes srt: "route_sorter (rc_sort c)" and wf: "rip_wf s" and id: "re_id e = rp_next s"
    and none: "re_copy e = None" "re_timer e = None" "re_gc e = None" and len: "to_short (re_len e) = re_len e"
    and kind: "create \<longleftrightarrow> re_nextHop e \<noteq> UNSPECIFIED_ADDRESS" "create \<Longrightarrow> schar (re_len e) = re_len e"
    and on: "rp_started s \<or> (\<forall>r\<in>set (routeList (rp_rt s)). rt_rip r \<noteq> None \<longrightarrow> rt_metric r \<le> re_metric e)"
  shows "\<exists>s'. addRoutingTableEntry c create e (s\<lparr>rp_next := rp_next s + 1\<rparr>) = Some s' \<and> rip_wf s' \<and>
    rp_ints s' = rp_ints s \<and> rp_started s' = rp_started s \<and> rp_now s' = rp_now s \<and> rp_out s' = rp_out s \<and> rp_block s' = rp_block s \<and>
    rp_numRoutes s' = rp_numRoutes s + 1 \<and> routes_from e s s' \<and> map entry_key (rp_table s') = map entry_key (rp_table s @ [e])"
proof -
  define tm where "tm = \<lparr>tm_prefix = re_prefix e, tm_len = schar (re_len e), tm_at = None\<rparr>"
  define e1 where "e1 = (if create then e\<lparr>re_timer := Some (tm\<lparr>tm_at := Some (rp_now s + rc_timeout c)\<rparr>), re_gc := Some tm\<rparr> else e)"
  let ?s = "s\<lparr>rp_next := rp_next s + 1, rp_table := rp_table s @ [e1]\<rparr>"
  have e1: "re_id e1 = rp_next s" "re_copy e1 = None" "entry_key e1 = entry_key e"
    using id none by (auto simp: e1_def entry_key_def)
  have gc: "tm_at gc = None" if "re_gc e1 = Some gc" for gc using that none by (auto simp: e1_def tm_def split: if_splits)
  have "entry_ok e1" using none len kind by (auto simp: entry_ok_def timers_ok_def e1_def tm_def)
  moreover have "route_ok (rp_table s) r \<Longrightarrow> route_ok (rp_table s @ [e1]) r" for r
    by (auto simp: route_ok_def split: option.splits)
  moreover have "re_id x < rp_next s" if "x \<in> set (rp_table s)" for x using rip_wfD(6) [OF wf that] .
  ultimately have wf1: "rip_wf ?s" using wf e1 unfolding rip_wf_def
    by (auto simp: less_Suc_eq copy_ok_def)
  have "rp_started ?s \<or> (\<forall>r\<in>set (routeList (rp_rt ?s)). rt_rip r \<noteq> None \<longrightarrow> rt_metric r \<le> re_metric e1)"
    using on e1(3) by (simp add: entry_key_def)
  from add_global [OF srt wf1 _ e1(2) gc this] obtain s2
    where s2: "addRoutingTableEntryToGlobalRT c (re_id e1) ?s = Some s2" "rip_wf s2" "same_but_copies ?s s2" "routes_from e1 ?s s2" by auto
  have "addRoutingTableEntry c create e (s\<lparr>rp_next := rp_next s + 1\<rparr>) = Some (s2\<lparr>rp_numRoutes := rp_numRoutes s + 1\<rparr>)"
  proof -
    have "addRoutingTableEntry c create e (s\<lparr>rp_next := rp_next s + 1\<rparr>) =
        map_option (\<lambda>s1. s1\<lparr>rp_numRoutes := rp_numRoutes s1 + 1\<rparr>) (addRoutingTableEntryToGlobalRT c (re_id e1) ?s)"
      unfolding addRoutingTableEntry_def Let_def e1_def tm_def by simp
    then show ?thesis using s2(1,3) by (simp add: same_but_copies_def)
  qed
  moreover have "map entry_key (rp_table s2) = map entry_key (rp_table s @ [e])"
    using same_but_copies_keys [OF s2(3)] e1(3) by simp
  moreover have "routes_from e s s2" using s2(4) e1(3) by (simp add: routes_from_def entry_key_def)
  ultimately show ?thesis using s2(2,3) by (simp add: same_but_copies_def routes_from_def)
qed

section \<open>The distance-vector rule\<close>

text \<open>A route as the protocol sees it, and what it does with an announcement of metric, already
  increased: an announcement by the next hop is always taken over, one by another router only when it is
  better; an unknown destination is added. A connected route has no timer: to better it fails.\<close>

record dv_route =
  dv_prefix :: ip6
  dv_len :: int
  dv_metric :: int
  dv_nextHop :: ip6
  dv_ifId :: int

fun dv_receive :: "int \<Rightarrow> ip6 \<Rightarrow> ip6 \<Rightarrow> int \<Rightarrow> int \<Rightarrow> dv_route list \<Rightarrow> dv_route list option" where
  "dv_receive ifId src prefix len m [] =
     Some [\<lparr>dv_prefix = prefix, dv_len = len, dv_metric = m, dv_nextHop = src, dv_ifId = ifId\<rparr>]"
| "dv_receive ifId src prefix len m (r # rs) =
     (if dv_prefix r = prefix \<and> dv_len r = len then
        if dv_nextHop r = src then Some (r\<lparr>dv_metric := m\<rparr> # rs)
        else if m < dv_metric r then
          if dv_nextHop r = UNSPECIFIED_ADDRESS then None
          else Some (r\<lparr>dv_metric := m, dv_nextHop := src, dv_ifId := ifId\<rparr> # rs)
        else Some (r # rs)
      else map_option ((#) r) (dv_receive ifId src prefix len m rs))"

definition dv_of :: "rip_entry \<Rightarrow> dv_route" where
  "dv_of e = \<lparr>dv_prefix = re_prefix e, dv_len = re_len e, dv_metric = re_metric e, dv_nextHop = re_nextHop e, dv_ifId = re_ifId e\<rparr>"

definition rip_abs :: "ripng \<Rightarrow> dv_route list" where
  "rip_abs s = map dv_of (rp_table s)"

lemma dv_of_key: "dv_of e = (case entry_key e of (i, p, l, m, h, f) \<Rightarrow> \<lparr>dv_prefix = p, dv_len = l, dv_metric = m, dv_nextHop = h, dv_ifId = f\<rparr>)"
  by (simp add: dv_of_def entry_key_def)

lemma rip_abs_keys: "map entry_key (rp_table s) = map entry_key tbl \<Longrightarrow> rip_abs s = map dv_of tbl"
proof -
  assume "map entry_key (rp_table s) = map entry_key tbl"
  moreover have "map dv_of xs = map (\<lambda>(i, p, l, m, h, f). \<lparr>dv_prefix = p, dv_len = l, dv_metric = m, dv_nextHop = h, dv_ifId = f\<rparr>) (map entry_key xs)" for xs
    by (simp add: dv_of_key)
  ultimately show ?thesis by (simp only: rip_abs_def)
qed

lemma map_key_split:
  "distinct (map key (as @ e # bs)) \<Longrightarrow> map (\<lambda>x. if key x = key e then f x else x) (as @ e # bs) = as @ f e # bs"
  by (auto simp: image_iff intro!: map_idI)

lemma rip_abs_modify:
  assumes "rip_wf s" and "rp_table s = as @ e # bs"
  shows "rip_abs (rip_modify (re_id e) f s) = map dv_of as @ dv_of (f e) # map dv_of bs"
  using map_key_split [of re_id as e bs f] rip_wfD(1) [OF assms(1)] assms(2) by (simp add: rip_abs_def rip_modify_def)

lemma rip_abs_rest [simp]:
  "rip_abs (s\<lparr>rp_rt := t\<rparr>) = rip_abs s" "rip_abs (s\<lparr>rp_send := a\<rparr>) = rip_abs s" "rip_abs (s\<lparr>rp_block := a\<rparr>) = rip_abs s"
  "rip_abs (s\<lparr>rp_triggered := b\<rparr>) = rip_abs s" "rip_abs (s\<lparr>rp_draws := n\<rparr>) = rip_abs s" "rip_abs (s\<lparr>rp_out := os\<rparr>) = rip_abs s"
  "rip_abs (rip_modify_route r g s) = rip_abs s" "rip_abs (s\<lparr>rp_regular := t1\<rparr>) = rip_abs s" "rip_abs (s\<lparr>rp_now := t1\<rparr>) = rip_abs s"
  "rip_abs (s\<lparr>rp_started := a\<rparr>) = rip_abs s" "rip_abs (s\<lparr>rp_numRoutes := t1\<rparr>) = rip_abs s" "rip_abs (s\<lparr>rp_next := n\<rparr>) = rip_abs s"
  by (simp_all add: rip_abs_def rip_modify_route_def split: option.split)

lemma rip_abs_drop_copy: "rip_abs (drop_copy e f s) = rip_abs (rip_modify (re_id e) f s)"
  by (simp add: drop_copy_def)

lemma rip_abs_same: "same_but_copies s s' \<Longrightarrow> rip_abs s' = rip_abs s"
  unfolding rip_abs_def [of s] by (intro rip_abs_keys same_but_copies_keys)

lemma dv_receive_skip:
  "\<forall>r\<in>set as. \<not> (dv_prefix r = p \<and> dv_len r = l) \<Longrightarrow> dv_receive i src p l m (as @ rs) = map_option ((@) as) (dv_receive i src p l m rs)"
proof (induction as)
  case Nil
  then show ?case by (simp add: option.map_ident)
next
  case (Cons a as)
  then have "dv_receive i src p l m ((a # as) @ rs) = map_option ((#) a) (map_option ((@) as) (dv_receive i src p l m rs))" by auto
  then show ?case by (simp only: option.map_comp comp_def append_Cons)
qed

section \<open>Operations on routes\<close>

text \<open>What every operation leaves alone, whatever it does to the routes.\<close>

definition same_frame :: "ripng \<Rightarrow> ripng \<Rightarrow> bool" where
  "same_frame s s' \<longleftrightarrow> rp_numRoutes s' - int (length (rp_table s')) = rp_numRoutes s - int (length (rp_table s)) \<and>
     rp_started s' = rp_started s \<and> rp_now s' = rp_now s \<and> rp_block s' = rp_block s \<and> rp_ints s' = rp_ints s \<and>
     rp_out s' = rp_out s"

lemma same_frame_refl [simp]: "same_frame s s"
  by (simp add: same_frame_def)

lemma same_frame_trans: "same_frame s s' \<Longrightarrow> same_frame s' s'' \<Longrightarrow> same_frame s s''"
  by (simp add: same_frame_def)

lemma same_frame_modify [simp]: "same_frame s (rip_modify i f s)" "same_frame s (drop_copy e f s)" "same_frame s (rip_modify_route r g s)"
  by (simp_all add: same_frame_def rip_modify_def drop_copy_def rip_modify_route_def split: option.split)

lemma same_frame_copies: "same_but_copies s s' \<Longrightarrow> same_frame s s'"
  unfolding same_but_copies_def same_frame_def by (metis length_map)

lemma rip_modify_modify: "(\<And>e. re_id (f e) = re_id e) \<Longrightarrow> rip_modify i g (rip_modify i f s) = rip_modify i (\<lambda>e. g (f e)) s"
  by (simp add: rip_modify_def comp_def cong: if_cong)

lemma rip_entry_at_modify:
  assumes "rip_entry_at i s = Some e" and "\<And>e. re_id (f e) = re_id e"
  shows "rip_entry_at i (rip_modify i f s) = Some (f e)"
proof -
  have "find (\<lambda>e. re_id e = i) tbl = Some e \<Longrightarrow> find (\<lambda>e. re_id e = i) (map (\<lambda>e. if re_id e = i then f e else e) tbl) = Some (f e)" for tbl
    by (induction tbl) (auto simp: assms(2))
  then show ?thesis using assms(1) by (simp add: rip_entry_at_def rip_modify_def)
qed

definition deleted_entry :: "rip_config \<Rightarrow> int \<Rightarrow> rip_entry \<Rightarrow> rip_entry" where
  "deleted_entry c now e =
     e\<lparr>re_metric := rc_infinity c, re_change := True, re_gc := map_option (\<lambda>gc. gc\<lparr>tm_at := Some (now + rc_gc c)\<rparr>) (re_gc e),
       re_copy := None\<rparr>"

lemma start_deletion:
  assumes wf: "rip_wf s" and e: "e \<in> set (rp_table s)" and hop: "re_nextHop e \<noteq> UNSPECIFIED_ADDRESS" and on: "rp_started s"
  shows "\<exists>s'. startRouteDeletionProcess c (re_id e) s = Some s' \<and> rip_wf s' \<and> same_frame s s' \<and>
    rp_table s' = rp_table (rip_modify (re_id e) (deleted_entry c (rp_now s)) s) \<and>
    rp_rt s' = rp_rt (drop_copy e (deleted_entry c (rp_now s)) s) \<and> rp_send s' \<and>
    (rp_block s \<or> rp_triggered s' \<noteq> None)"
proof -
  have ok: "entry_ok e" by (rule rip_wfD(5) [OF wf e])
  then obtain gc where gc: "re_gc e = Some gc" using hop by (auto simp: entry_ok_def timers_ok_def)
  have at: "rip_entry_at (re_id e) s = Some e" using e by (simp add: rip_entry_at_iff [OF wf])
  let ?f = "\<lambda>e. e\<lparr>re_metric := rc_infinity c, re_change := True, re_gc := Some (gc\<lparr>tm_at := Some (rp_now s + rc_gc c)\<rparr>)\<rparr>"
  let ?s = "rip_modify (re_id e) ?f s"
  let ?d = "drop_copy e (deleted_entry c (rp_now s)) s"
  have q: "\<exists>q. rt6_find r (rp_rt ?s) = Some q \<and> rt_rip q = Some (re_id e)" if "re_copy (?f e) = Some r" for r
  proof -
    have "re_copy e = Some r" using that by simp
    then show ?thesis using the_copy [OF wf e] by (metis is_copy_def rip_modify_frame(1))
  qed
  have same: "rip_modify (re_id e) (\<lambda>e. e\<lparr>re_copy := None\<rparr>) ?s = rip_modify (re_id e) (deleted_entry c (rp_now s)) s"
  proof -
    have "x\<lparr>re_metric := rc_infinity c, re_change := True, re_gc := Some (gc\<lparr>tm_at := Some (rp_now s + rc_gc c)\<rparr>), re_copy := None\<rparr> =
        deleted_entry c (rp_now s) x" if "x \<in> set (rp_table s)" "re_id x = re_id e" for x
      using key_inj [OF rip_wfD(1) [OF wf] that(1) e that(2)] gc by (simp add: deleted_entry_def)
    then show ?thesis by (simp add: rip_modify_def)
  qed
  have "removeRoutingTableEntryFromGlobalRT c (re_id e) ?s = Some ?d"
  proof -
    have "removeRoutingTableEntryFromGlobalRT c (re_id e) ?s =
      Some (case re_copy e of None \<Rightarrow> ?s | Some r \<Rightarrow> (rip_modify (re_id e) (\<lambda>e. e\<lparr>re_copy := None\<rparr>) ?s)\<lparr>rp_rt := rt6_erase r (rp_rt s)\<rparr>)"
      using remove_global_eq [OF rip_entry_at_modify [OF at] _ q] on by (simp split: option.split)
    also have "\<dots> = Some ?d"
    proof (cases "re_copy e")
      case None
      have "x\<lparr>re_metric := a, re_change := b, re_gc := g, re_copy := None\<rparr> = x\<lparr>re_metric := a, re_change := b, re_gc := g\<rparr>"
        if "x \<in> set (rp_table s)" "re_id x = re_id e" for x a b g
        using key_inj [OF rip_wfD(1) [OF wf] that(1) e that(2)] None by (cases x) simp
      then have "?s = rip_modify (re_id e) (\<lambda>e. e\<lparr>re_copy := None\<rparr>) ?s" by (simp add: rip_modify_def)
      then have "?s = rip_modify (re_id e) (deleted_entry c (rp_now s)) s" by (simp only: same)
      moreover have "(rip_modify i f s)\<lparr>rp_rt := rp_rt s\<rparr> = rip_modify i f s" for i f by (simp add: rip_modify_def)
      ultimately show ?thesis by (simp only: None drop_copy_def option.case)
    qed (simp add: drop_copy_def same)
    finally show ?thesis .
  qed
  moreover have "entry_ok (deleted_entry c (rp_now s) e)"
    using ok hop by (auto simp: entry_ok_def timers_ok_def deleted_entry_def)
  then have "rip_wf ?d" using wf e by (intro rip_wf_drop_copy) (auto simp: deleted_entry_def)
  moreover have "rp_now (drop_copy e g s) = rp_now s" "rp_block (drop_copy e g s) = rp_block s" "rp_table (drop_copy e g s) = rp_table (rip_modify (re_id e) g s)"
    for g by (simp_all add: drop_copy_def)
  ultimately show ?thesis
    using at gc same_frame_modify(2) [of s e "deleted_entry c (rp_now s)"]
    by (auto simp: startRouteDeletionProcess_def sendDelayedTriggeredUpdateMessage_def same_frame_def)
qed

lemma rip_wf_change [simp]: "rip_wf s \<Longrightarrow> rip_wf (rip_modify i (\<lambda>e. e\<lparr>re_change := True\<rparr>) s)"
proof (cases "\<exists>e\<in>set (rp_table s). re_id e = i")
  case True
  assume wf: "rip_wf s"
  obtain e where e: "e \<in> set (rp_table s)" "re_id e = i" using True by blast
  have "entry_ok (e\<lparr>re_change := True\<rparr>)" using rip_wfD(5) [OF wf e(1)] by (auto simp: entry_ok_def timers_ok_def)
  then show ?thesis using rip_wf_modify_entry [OF wf e(1), of "\<lambda>e. e\<lparr>re_change := True\<rparr>"] e(2) by (simp add: is_copy_def)
next
  case False
  then have "map (\<lambda>e. if re_id e = i then e\<lparr>re_change := True\<rparr> else e) (rp_table s) = rp_table s" by (intro map_idI) auto
  moreover assume "rip_wf s"
  ultimately show ?thesis by (simp add: rip_modify_def)
qed

lemma rip_abs_change [simp]: "rip_abs (rip_modify i (\<lambda>e. e\<lparr>re_change := True\<rparr>) s) = rip_abs s"
  by (auto simp: rip_abs_def rip_modify_def dv_of_def)

lemma rip_modify_member:
  "rip_wf s \<Longrightarrow> e \<in> set (rp_table s) \<Longrightarrow> f e \<in> set (rp_table (rip_modify (re_id e) f s))"
  by (simp add: rip_modify_set)

text \<open>An announcement by the next hop of the route.\<close>

lemma update_same_hop:
  assumes wf: "rip_wf s" and tbl: "rp_table s = as @ e # bs" and on: "rp_started s"
    and src: "src \<noteq> UNSPECIFIED_ADDRESS" and hop: "re_nextHop e = src"
  shows "\<exists>s'. updateRoutingTableEntry c (re_id e) rte ifId src s = Some s' \<and> rip_wf s' \<and> same_frame s s' \<and>
    rip_abs s' = map dv_of as @ (dv_of e)\<lparr>dv_metric := received_metric c rte\<rparr> # map dv_of bs"
proof -
  let ?m = "received_metric c rte"
  have e: "e \<in> set (rp_table s)" using tbl by simp
  have at: "rip_entry_at (re_id e) s = Some e" using e by (simp add: rip_entry_at_iff [OF wf])
  have ok: "entry_ok e" by (rule rip_wfD(5) [OF wf e])
  then obtain tm where tm: "re_timer e = Some tm" using hop src by (auto simp: entry_ok_def timers_ok_def)
  let ?t = "\<lambda>e. e\<lparr>re_timer := Some (tm\<lparr>tm_at := Some (rp_now s + rc_timeout c)\<rparr>)\<rparr>"
  let ?s1 = "rip_modify (re_id e) ?t s"
  have ok1: "entry_ok (?t e)" using ok tm by (auto simp: entry_ok_def timers_ok_def split: if_splits)
  have wf1: "rip_wf ?s1" by (rule rip_wf_modify_entry [OF wf e]) (use ok1 in \<open>simp_all add: is_copy_def\<close>)
  have e1: "?t e \<in> set (rp_table ?s1)" by (rule rip_modify_member [OF wf e])
  have hop1: "re_nextHop (?t e) \<noteq> UNSPECIFIED_ADDRESS" using hop src by simp
  consider (same) "?m = re_metric e" | (del) "?m \<noteq> re_metric e" "?m = rc_infinity c" | (new) "?m \<noteq> re_metric e" "?m \<noteq> rc_infinity c"
    by blast
  then show ?thesis
  proof cases
    case same
    then have "updateRoutingTableEntry c (re_id e) rte ifId src s = Some ?s1"
      using at hop tm by (simp add: updateRoutingTableEntry_def)
    then show ?thesis using wf1 rip_abs_modify [OF wf tbl] same by (simp add: dv_of_def)
  next
    case del
    let ?c = "\<lambda>e. e\<lparr>re_timer := map_option (\<lambda>tm. tm\<lparr>tm_at := None\<rparr>) (re_timer e)\<rparr>"
    let ?s2 = "rip_modify (re_id e) ?c ?s1"
    have ok2: "entry_ok (?c (?t e))" using ok1 by (auto simp: entry_ok_def timers_ok_def split: if_splits)
    have wf2: "rip_wf ?s2" using rip_wf_modify_entry [OF wf1 e1, of ?c] ok2 by (simp add: is_copy_def)
    have e2: "?c (?t e) \<in> set (rp_table ?s2)" using rip_modify_member [OF wf1 e1, of ?c] by simp
    obtain s' where s': "startRouteDeletionProcess c (re_id e) ?s2 = Some s'" "rip_wf s'" "same_frame ?s2 s'"
      "rp_table s' = rp_table (rip_modify (re_id e) (deleted_entry c (rp_now s)) ?s2)"
      using start_deletion [OF wf2 e2, of c] hop1 on by auto
    have "updateRoutingTableEntry c (re_id e) rte ifId src s = Some s'"
      using at hop tm del s'(1) by (simp add: updateRoutingTableEntry_def cancel_timeout_def)
    moreover have "rip_abs s' = rip_abs (rip_modify (re_id e) (\<lambda>e. deleted_entry c (rp_now s) (?c (?t e))) s)"
      using s'(4) by (simp add: rip_abs_def rip_modify_modify)
    then have "rip_abs s' = map dv_of as @ (dv_of e)\<lparr>dv_metric := ?m\<rparr> # map dv_of bs"
      unfolding rip_abs_modify [OF wf tbl] using del by (simp add: dv_of_def deleted_entry_def)
    moreover have "same_frame s s'" using s'(3) same_frame_trans same_frame_modify(1) by blast
    ultimately show ?thesis using s'(2) by blast
  next
    case new
    let ?f = "\<lambda>e. e\<lparr>re_metric := ?m, re_change := True\<rparr>"
    let ?g = "\<lambda>r. r\<lparr>rt_metric := ?m\<rparr>"
    let ?s2 = "rip_modify_route (re_copy e) ?g (rip_modify (re_id e) ?f ?s1)"
    have "entry_ok (?f (?t e))" using ok1 by (auto simp: entry_ok_def timers_ok_def)
    then have "rip_wf ?s2" using rip_wf_modify [OF wf1 e1, of ?f ?g] by (simp add: is_copy_def)
    moreover have "updateRoutingTableEntry c (re_id e) rte ifId src s = Some (?s2\<lparr>rp_send := True\<rparr>)"
      using at hop tm new by (simp add: updateRoutingTableEntry_def Let_def)
    moreover have "rip_abs ?s2 = map dv_of as @ (dv_of e)\<lparr>dv_metric := ?m\<rparr> # map dv_of bs"
      by (simp add: rip_modify_modify rip_abs_modify [OF wf tbl] dv_of_def)
    moreover have "same_frame s ?s2" using same_frame_trans same_frame_modify(1,3) by blast
    ultimately show ?thesis by (simp add: same_frame_def)
  qed
qed

text \<open>An announcement by another router.\<close>

lemma update_other_hop:
  assumes srt: "route_sorter (rc_sort c)" and wf: "rip_wf s" and tbl: "rp_table s = as @ e # bs" and on: "rp_started s"
    and src: "src \<noteq> UNSPECIFIED_ADDRESS" and hop: "re_nextHop e \<noteq> src" "re_nextHop e \<noteq> UNSPECIFIED_ADDRESS"
    and better: "received_metric c rte < re_metric e"
  shows "\<exists>s'. updateRoutingTableEntry c (re_id e) rte ifId src s = Some s' \<and> rip_wf s' \<and> same_frame s s' \<and>
    rip_abs s' = map dv_of as @ (dv_of e)\<lparr>dv_metric := received_metric c rte, dv_nextHop := src, dv_ifId := ifId\<rparr> # map dv_of bs"
proof -
  let ?m = "received_metric c rte"
  have e: "e \<in> set (rp_table s)" using tbl by simp
  have at: "rip_entry_at (re_id e) s = Some e" using e by (simp add: rip_entry_at_iff [OF wf])
  have ok: "entry_ok e" by (rule rip_wfD(5) [OF wf e])
  then obtain tm gc where tm: "re_timer e = Some tm" and gc: "re_gc e = Some gc" "tm_at gc = None \<or> re_copy e = None"
    using hop(2) by (auto simp: entry_ok_def timers_ok_def)
  let ?f = "\<lambda>e. e\<lparr>re_metric := ?m, re_nextHop := src, re_ifId := ifId, re_timer := Some (tm\<lparr>tm_at := Some (rp_now s + rc_timeout c)\<rparr>)\<rparr>"
  let ?g = "\<lambda>r. r\<lparr>rt_metric := ?m, rt_nextHop := src, rt_ifId := ifId\<rparr>"
  let ?h = "\<lambda>e. e\<lparr>re_gc := Some (gc\<lparr>tm_at := None\<rparr>)\<rparr>"
  have abs: "dv_of (?f e) = (dv_of e)\<lparr>dv_metric := ?m, dv_nextHop := src, dv_ifId := ifId\<rparr>" "dv_of (?h x) = dv_of x" for x
    by (simp_all add: dv_of_def)
  have "\<exists>s2. (if tm_at gc \<noteq> None then addRoutingTableEntryToGlobalRT c (re_id e) (rip_modify (re_id e) ?h (rip_modify (re_id e) ?f s))
           else Some (rip_modify_route (re_copy e) ?g (rip_modify (re_id e) ?f s))) = Some s2 \<and> rip_wf s2 \<and> same_frame s s2 \<and>
         rip_abs s2 = map dv_of as @ dv_of (?f e) # map dv_of bs"
  proof (cases "tm_at gc = None")
    case True
    let ?s2 = "rip_modify_route (re_copy e) ?g (rip_modify (re_id e) ?f s)"
    have "entry_ok (?f e)" using ok tm gc hop(2) src by (auto simp: entry_ok_def timers_ok_def)
    then have "rip_wf ?s2" using rip_wf_modify [OF wf e, of ?f ?g] by (simp add: is_copy_def)
    moreover have "rip_abs ?s2 = map dv_of as @ dv_of (?f e) # map dv_of bs" by (simp add: rip_abs_modify [OF wf tbl])
    moreover have "same_frame s ?s2" using same_frame_trans same_frame_modify(1,3) by blast
    ultimately show ?thesis using True by simp
  next
    case False
    then have none: "re_copy e = None" using gc(2) by auto
    let ?s1 = "rip_modify (re_id e) (\<lambda>e. ?h (?f e)) s"
    have "entry_ok (?h (?f e))" using ok tm gc none hop(2) src by (auto simp: entry_ok_def timers_ok_def)
    then have wf1: "rip_wf ?s1" using rip_wf_modify [OF wf e, of "\<lambda>e. ?h (?f e)" ?g] none by (simp add: is_copy_def rip_modify_route_def)
    have e1: "?h (?f e) \<in> set (rp_table ?s1)" using rip_modify_member [OF wf e, of "\<lambda>e. ?h (?f e)"] by simp
    obtain s2 where s2: "addRoutingTableEntryToGlobalRT c (re_id e) ?s1 = Some s2" "rip_wf s2" "same_but_copies ?s1 s2"
      using add_global [OF srt wf1 e1] none on by auto
    have "rip_abs s2 = map dv_of as @ dv_of (?f e) # map dv_of bs"
      using rip_abs_same [OF s2(3)] by (simp add: rip_abs_modify [OF wf tbl] dv_of_def)
    moreover have "same_frame s s2" using same_frame_trans [OF same_frame_modify(1) same_frame_copies [OF s2(3)]] by blast
    ultimately show ?thesis using s2(1,2) False by (simp add: rip_modify_modify)
  qed
  then obtain s2 where s2: "(if tm_at gc \<noteq> None then addRoutingTableEntryToGlobalRT c (re_id e) (rip_modify (re_id e) ?h (rip_modify (re_id e) ?f s))
           else Some (rip_modify_route (re_copy e) ?g (rip_modify (re_id e) ?f s))) = Some s2" "rip_wf s2" "same_frame s s2"
    "rip_abs s2 = map dv_of as @ dv_of (?f e) # map dv_of bs" by blast
  have "updateRoutingTableEntry c (re_id e) rte ifId src s = Some ((rip_modify (re_id e) (\<lambda>e. e\<lparr>re_change := True\<rparr>) s2)\<lparr>rp_send := True\<rparr>)"
    using at tm gc hop better s2(1) by (simp add: updateRoutingTableEntry_def Let_def)
  moreover have "same_frame s ((rip_modify i f s2)\<lparr>rp_send := True\<rparr>)" for i f
    using same_frame_trans [OF s2(3) same_frame_modify(1)] by (simp add: same_frame_def)
  ultimately show ?thesis using s2(2,4) by (simp add: abs)
qed

section \<open>Responses refine the distance-vector rule\<close>

fun dv_receive_all :: "rip_config \<Rightarrow> int \<Rightarrow> ip6 \<Rightarrow> rip_rte list \<Rightarrow> dv_route list \<Rightarrow> dv_route list option" where
  "dv_receive_all c ifId src [] rs = Some rs"
| "dv_receive_all c ifId src (rte # rtes) rs =
     do { rs1 \<leftarrow> dv_receive ifId src (rte_prefix rte) (sint (rte_len rte)) (received_metric c rte) rs;
          dv_receive_all c ifId src rtes rs1 }"

lemma small_int:
  "-32768 \<le> x \<Longrightarrow> x < 32768 \<Longrightarrow> to_short x = x" "-128 \<le> x \<Longrightarrow> x < 128 \<Longrightarrow> schar x = x"
  by (simp_all add: to_short_def schar_def signed_of_int signed_take_bit_int_eq_self)

lemma sint8: "to_short (sint w) = sint w" "schar (sint w) = sint w" for w :: "8 word"
proof -
  have "-128 \<le> sint w" "sint w < 128" using sint_ge [of w] sint_lt [of w] by simp_all
  then show "to_short (sint w) = sint w" "schar (sint w) = sint w" by (simp_all only: small_int)
qed

text \<open>An operation refines an abstract one when it fails where that fails and otherwise keeps the
  invariant and does the same to the routes.\<close>

definition refines_step :: "dv_route list option \<Rightarrow> ripng option \<Rightarrow> ripng \<Rightarrow> bool" where
  "refines_step d r s \<longleftrightarrow>
     (case d of None \<Rightarrow> r = None | Some rs \<Rightarrow> \<exists>s'. r = Some s' \<and> rip_wf s' \<and> same_frame s s' \<and> rip_abs s' = rs)"

lemma processRTE_refines:
  assumes srt: "route_sorter (rc_sort c)" and wf: "rip_wf s" and on: "rp_started s" and src: "src \<noteq> UNSPECIFIED_ADDRESS"
  shows "refines_step (dv_receive ifId src (rte_prefix rte) (sint (rte_len rte)) (received_metric c rte) (rip_abs s))
    (processRTE c rte ifId src s) s"
proof (cases "getRoutingTableEntry (rte_prefix rte) (sint (rte_len rte)) s")
  case None
  let ?e = "(new_entry (rp_next s) (rte_prefix rte) (sint (rte_len rte)))
    \<lparr>re_ifId := ifId, re_nextHop := src, re_metric := received_metric c rte, re_change := True\<rparr>"
  have miss: "\<forall>r\<in>set (rip_abs s). \<not> (dv_prefix r = rte_prefix rte \<and> dv_len r = sint (rte_len rte))"
    using None by (auto simp: getRoutingTableEntry_def find_None_all rip_abs_def dv_of_def)
  obtain s' where s': "addRoutingTableEntry c True ?e (s\<lparr>rp_next := rp_next s + 1\<rparr>) = Some s'" "rip_wf s'" "rp_ints s' = rp_ints s"
    "rp_started s' = rp_started s" "rp_now s' = rp_now s" "rp_out s' = rp_out s" "rp_numRoutes s' = rp_numRoutes s + 1"
    "map entry_key (rp_table s') = map entry_key (rp_table s @ [?e])" "rp_block s' = rp_block s"
    using add_entry [OF srt wf, of ?e True] src on by (auto simp: new_entry_def sint8)
  have "length (rp_table s') = length (rp_table s) + 1" using s'(8) by (metis length_append_singleton length_map Suc_eq_plus1)
  then have frame: "same_frame s (s'\<lparr>rp_send := True\<rparr>)" using s'(3-9) by (simp add: same_frame_def)
  have "rip_abs s' = rip_abs s @ [dv_of ?e]" using rip_abs_keys [OF s'(8)] by (simp add: rip_abs_def)
  moreover have "dv_receive ifId src (rte_prefix rte) (sint (rte_len rte)) (received_metric c rte) (rip_abs s @ []) = Some (rip_abs s @ [dv_of ?e])"
    unfolding dv_receive_skip [OF miss] by (simp add: dv_of_def new_entry_def sint8)
  ultimately show ?thesis using None s'(1,2) frame by (simp add: refines_step_def processRTE_def)
next
  case (Some e)
  then obtain as bs where tbl: "rp_table s = as @ e # bs" and hit: "re_prefix e = rte_prefix rte" "re_len e = sint (rte_len rte)"
    and miss: "\<forall>x\<in>set as. \<not> (re_prefix x = rte_prefix rte \<and> re_len x = sint (rte_len rte))"
    unfolding getRoutingTableEntry_def using find_split [OF Some [unfolded getRoutingTableEntry_def]] by blast
  let ?m = "received_metric c rte"
  have skip: "dv_receive ifId src (rte_prefix rte) (sint (rte_len rte)) ?m (rip_abs s) =
      map_option ((@) (map dv_of as)) (dv_receive ifId src (rte_prefix rte) (sint (rte_len rte)) ?m (dv_of e # map dv_of bs))"
    unfolding rip_abs_def tbl map_append list.map(2) by (rule dv_receive_skip) (use miss in \<open>auto simp: dv_of_def\<close>)
  have e: "e \<in> set (rp_table s)" using tbl by simp
  have at: "rip_entry_at (re_id e) s = Some e" using e by (simp add: rip_entry_at_iff [OF wf])
  have p: "processRTE c rte ifId src s = updateRoutingTableEntry c (re_id e) rte ifId src s" using Some by (simp add: processRTE_def)
  have dv: "dv_prefix (dv_of e) = rte_prefix rte" "dv_len (dv_of e) = sint (rte_len rte)" "dv_nextHop (dv_of e) = re_nextHop e"
    "dv_metric (dv_of e) = re_metric e" using hit by (simp_all add: dv_of_def)
  consider (same) "re_nextHop e = src" | (keep) "re_nextHop e \<noteq> src" "\<not> ?m < re_metric e"
    | (conn) "re_nextHop e \<noteq> src" "?m < re_metric e" "re_nextHop e = UNSPECIFIED_ADDRESS"
    | (new) "re_nextHop e \<noteq> src" "?m < re_metric e" "re_nextHop e \<noteq> UNSPECIFIED_ADDRESS" by blast
  then show ?thesis
  proof cases
    case same
    then show ?thesis using update_same_hop [OF wf tbl on src same, of c rte ifId]
      unfolding refines_step_def p skip by (auto simp: dv)
  next
    case keep
    then have "updateRoutingTableEntry c (re_id e) rte ifId src s = Some s" using at by (simp add: updateRoutingTableEntry_def)
    moreover have "rip_abs s = map dv_of as @ dv_of e # map dv_of bs" by (simp add: rip_abs_def tbl)
    ultimately show ?thesis using wf keep unfolding refines_step_def p skip by (simp add: dv)
  next
    case conn
    then have "re_timer e = None" using rip_wfD(5) [OF wf e] by (simp add: entry_ok_def timers_ok_def)
    then have "updateRoutingTableEntry c (re_id e) rte ifId src s = None" using at conn by (simp add: updateRoutingTableEntry_def)
    then show ?thesis using conn unfolding refines_step_def p skip by (simp add: dv)
  next
    case new
    then show ?thesis using update_other_hop [OF srt wf tbl on src new(1,3,2), of ifId]
      unfolding refines_step_def p skip by (simp add: dv)
  qed
qed

lemma process_rtes_refines:
  assumes "route_sorter (rc_sort c)" and "rip_wf s" and "rp_started s" and "src \<noteq> UNSPECIFIED_ADDRESS"
  shows "refines_step (dv_receive_all c ifId src rtes (rip_abs s)) (process_rtes c rtes ifId src s) s"
  using assms(2,3)
proof (induction rtes arbitrary: s)
  case (Cons rte rtes)
  let ?d = "dv_receive ifId src (rte_prefix rte) (sint (rte_len rte)) (received_metric c rte) (rip_abs s)"
  have r: "refines_step ?d (processRTE c rte ifId src s) s"
    using processRTE_refines [OF assms(1) Cons.prems assms(4)] .
  show ?case
  proof (cases ?d)
    case None
    then show ?thesis using r by (simp add: refines_step_def)
  next
    case (Some rs)
    then obtain s1 where s1: "processRTE c rte ifId src s = Some s1" "rip_wf s1" "same_frame s s1" "rip_abs s1 = rs"
      using r by (auto simp: refines_step_def)
    have "refines_step (dv_receive_all c ifId src rtes rs) (process_rtes c rtes ifId src s1) s1"
      using Cons.IH [OF s1(2)] s1(3,4) Cons.prems(2) by (simp add: same_frame_def)
    then show ?thesis using Some s1 same_frame_trans [OF s1(3)] by (auto simp: refines_step_def split: option.splits)
  qed
qed (simp add: refines_step_def)

end
