(* ===== verification/Ripng_Reachable.thy ===== *)
theory Ripng_Reachable
  imports Ripng_Invariant
begin

text \<open>
  The states RIPng reaches: initialisation, then messages, timers that are due, interfaces that go down and
  come up, routes other modules add, in any order. Every handler keeps the invariant; the only one that can
  fail is the handling of a response.
\<close>

section \<open>Handlers that change many entries\<close>

lemma rip_wf_map:
  assumes wf: "rip_wf s"
    and f: "\<And>e. e \<in> set (rp_table s) \<Longrightarrow> re_id (f e) = re_id e \<and> re_copy (f e) = re_copy e \<and> entry_ok (f e) \<and> (\<forall>r. is_copy e r \<longrightarrow> is_copy (f e) r)"
  shows "rip_wf (s\<lparr>rp_table := map f (rp_table s)\<rparr>)"
proof -
  have "map re_id (map f (rp_table s)) = map re_id (rp_table s)" using f by simp
  moreover have "copy_ok (routeList (rp_rt s)) (f e)" if "e \<in> set (rp_table s)" for e
    using rip_wfD(4) [OF wf that] f [OF that] unfolding copy_ok_def by metis
  moreover have "route_ok (map f (rp_table s)) r" if "r \<in> set (routeList (rp_rt s))" for r
    using rip_wfD(7) [OF wf that] f unfolding route_ok_def by (fastforce split: option.splits)
  ultimately show ?thesis using wf f by (auto simp: rip_wf_def simp del: map_map)
qed

lemma entry_ok_change [simp]: "entry_ok (e\<lparr>re_change := b\<rparr>) = entry_ok e" "is_copy (e\<lparr>re_change := b\<rparr>) r = is_copy e r"
  by (simp_all add: entry_ok_def timers_ok_def is_copy_def)

lemma clear_flags_keep:
  "rip_wf s \<Longrightarrow> rip_wf (clearRouteChangeFlags s)" "rip_abs (clearRouteChangeFlags s) = rip_abs s"
proof -
  show "rip_wf s \<Longrightarrow> rip_wf (clearRouteChangeFlags s)"
    unfolding clearRouteChangeFlags_def by (intro rip_wf_map) (simp_all add: rip_wfD(5))
  show "rip_abs (clearRouteChangeFlags s) = rip_abs s"
    by (simp add: clearRouteChangeFlags_def rip_abs_def dv_of_def comp_def)
qed

text \<open>What sending leaves alone.\<close>

definition same_routes :: "ripng \<Rightarrow> ripng \<Rightarrow> bool" where
  "same_routes s s' \<longleftrightarrow> rip_abs s' = rip_abs s \<and> length (rp_table s') = length (rp_table s) \<and>
     rp_numRoutes s' = rp_numRoutes s \<and> rp_started s' = rp_started s \<and> rp_rt s' = rp_rt s \<and> rp_ints s' = rp_ints s \<and> rp_now s' = rp_now s"

lemma sending_keeps:
  assumes "rip_wf s"
  shows "rip_wf (sendTriggeredUpdateMessage c s) \<and> same_routes s (sendTriggeredUpdateMessage c s) \<and>
      rp_block (sendTriggeredUpdateMessage c s) = rp_block s"
    and "rip_wf (sendRegularUpdateMessage c s) \<and> same_routes s (sendRegularUpdateMessage c s) \<and>
      rp_block (sendRegularUpdateMessage c s) = rp_block s"
    and "rip_wf (end_batch c s) \<and> same_routes s (end_batch c s) \<and> \<not> rp_block (end_batch c s)"
proof -
  have clear: "rip_wf (clearRouteChangeFlags (s\<lparr>rp_out := os\<rparr>)) \<and> same_routes s (clearRouteChangeFlags (s\<lparr>rp_out := os\<rparr>)) \<and>
      rp_block (clearRouteChangeFlags (s\<lparr>rp_out := os\<rparr>)) = rp_block s" for os
    using assms clear_flags_keep(1) [of "s\<lparr>rp_out := os\<rparr>"] clear_flags_keep(2) [of "s\<lparr>rp_out := os\<rparr>"]
    by (simp add: same_routes_def) (simp add: clearRouteChangeFlags_def)
  have clear2: "clearRouteChangeFlags (s\<lparr>rp_draws := n, rp_out := os\<rparr>) = (clearRouteChangeFlags (s\<lparr>rp_out := os\<rparr>))\<lparr>rp_draws := n\<rparr>" for n os
    by (simp add: clearRouteChangeFlags_def)
  show t: "rip_wf (sendTriggeredUpdateMessage c s) \<and> same_routes s (sendTriggeredUpdateMessage c s) \<and>
      rp_block (sendTriggeredUpdateMessage c s) = rp_block s"
    using assms clear by (simp add: sendTriggeredUpdateMessage_def Let_def clear2 same_routes_def)
  show "rip_wf (sendRegularUpdateMessage c s) \<and> same_routes s (sendRegularUpdateMessage c s) \<and>
      rp_block (sendRegularUpdateMessage c s) = rp_block s"
    using clear by (simp add: sendRegularUpdateMessage_def same_routes_def)
  show "rip_wf (end_batch c s) \<and> same_routes s (end_batch c s) \<and> \<not> rp_block (end_batch c s)"
    using t assms by (auto simp: end_batch_def same_routes_def)
qed

section \<open>The invariant of the module\<close>

text \<open>Two entries for one destination are both connected routes.\<close>

definition dv_unique :: "dv_route list \<Rightarrow> bool" where
  "dv_unique rs \<longleftrightarrow> sorted_wrt (\<lambda>a b. dv_prefix a = dv_prefix b \<and> dv_len a = dv_len b \<longrightarrow>
     dv_nextHop a = UNSPECIFIED_ADDRESS \<and> dv_nextHop b = UNSPECIFIED_ADDRESS) rs"

definition rip_inv :: "ripng \<Rightarrow> bool" where
  "rip_inv s \<longleftrightarrow> rip_wf s \<and> num_ok s \<and> rp_started s \<and> \<not> rp_block s \<and> dv_unique (rip_abs s)"

text \<open>Each route after an announcement stands for one before it, or is the new one.\<close>

definition stems_from :: "dv_route \<Rightarrow> dv_route \<Rightarrow> bool" where
  "stems_from r r' \<longleftrightarrow> dv_prefix r' = dv_prefix r \<and> dv_len r' = dv_len r \<and>
     (dv_nextHop r = UNSPECIFIED_ADDRESS \<longrightarrow> dv_nextHop r' = UNSPECIFIED_ADDRESS)"

lemma dv_receive_head:
  assumes "dv_receive i src p l m (r # rs) = Some rs'" and "src \<noteq> UNSPECIFIED_ADDRESS"
  obtains r' where "rs' = r' # rs" "stems_from r r'" "dv_prefix r = p" "dv_len r = l"
  | rs1 where "rs' = r # rs1" "dv_receive i src p l m rs = Some rs1" "\<not> (dv_prefix r = p \<and> dv_len r = l)"
  using assms by (auto simp: stems_from_def split: if_splits)

lemma dv_receive_keys:
  assumes "src \<noteq> UNSPECIFIED_ADDRESS"
  shows "dv_receive i src p l m rs = Some rs' \<Longrightarrow> r' \<in> set rs' \<Longrightarrow> (\<exists>r\<in>set rs. stems_from r r') \<or> dv_prefix r' = p \<and> dv_len r' = l"
proof (induction rs arbitrary: rs')
  case (Cons r rs)
  have self: "stems_from x x" for x by (simp add: stems_from_def)
  from Cons.prems(1) show ?case
  proof (rule dv_receive_head [OF _ assms])
    fix r1 assume "rs' = r1 # rs" "stems_from r r1"
    then show ?case using Cons.prems(2) self by auto
  next
    fix rs1 assume "rs' = r # rs1" "dv_receive i src p l m rs = Some rs1"
    then show ?case using Cons.IH [of rs1] Cons.prems(2) self by auto
  qed
qed simp

lemma dv_receive_unique:
  assumes "src \<noteq> UNSPECIFIED_ADDRESS"
  shows "dv_receive i src p l m rs = Some rs' \<Longrightarrow> dv_unique rs \<Longrightarrow> dv_unique rs'"
proof (induction rs arbitrary: rs')
  case (Cons r rs)
  have u: "dv_prefix r = dv_prefix x \<and> dv_len r = dv_len x \<longrightarrow> dv_nextHop r = UNSPECIFIED_ADDRESS \<and> dv_nextHop x = UNSPECIFIED_ADDRESS"
    if "x \<in> set rs" for x using Cons.prems(2) that by (simp add: dv_unique_def)
  from Cons.prems(1) show ?case
  proof (rule dv_receive_head [OF _ assms])
    fix r' assume r': "rs' = r' # rs" "stems_from r r'"
    then show ?case using Cons.prems(2) u by (simp add: dv_unique_def stems_from_def)
  next
    fix rs1 assume rs1: "rs' = r # rs1" "dv_receive i src p l m rs = Some rs1" "\<not> (dv_prefix r = p \<and> dv_len r = l)"
    have "dv_prefix r = dv_prefix x \<and> dv_len r = dv_len x \<longrightarrow> dv_nextHop r = UNSPECIFIED_ADDRESS \<and> dv_nextHop x = UNSPECIFIED_ADDRESS"
      if x: "x \<in> set rs1" for x
    proof -
      consider y where "y \<in> set rs" "stems_from y x" | "dv_prefix x = p" "dv_len x = l"
        using dv_receive_keys [OF assms rs1(2) x] by blast
      then show ?thesis
      proof cases
        case (1 y)
        then show ?thesis using u [of y] by (simp add: stems_from_def)
      next
        case 2
        then show ?thesis using rs1(3) by auto
      qed
    qed
    then show ?case using Cons.IH [OF rs1(2)] Cons.prems(2) rs1(1) by (simp add: dv_unique_def)
  qed
qed (auto simp: dv_unique_def)

lemma dv_receive_all_unique:
  "dv_receive_all c i src rtes rs = Some rs' \<Longrightarrow> dv_unique rs \<Longrightarrow> src \<noteq> UNSPECIFIED_ADDRESS \<Longrightarrow> dv_unique rs'"
proof (induction rtes arbitrary: rs)
  case (Cons rte rtes)
  then obtain rs1 where "dv_receive i src (rte_prefix rte) (sint (rte_len rte)) (received_metric c rte) rs = Some rs1"
    "dv_receive_all c i src rtes rs1 = Some rs'" by (auto split: Option.bind_splits)
  then show ?case using Cons.IH [of rs1] Cons.prems(2,3) dv_receive_unique by blast
qed simp

lemma dv_unique_keys:
  assumes "dv_unique rs" and "map (\<lambda>r. (dv_prefix r, dv_len r, dv_nextHop r)) rs' = map (\<lambda>r. (dv_prefix r, dv_len r, dv_nextHop r)) rs"
  shows "dv_unique rs'"
proof -
  have key: "dv_unique xs \<longleftrightarrow> sorted_wrt (\<lambda>(p, l, h) (p', l', h'). p = p' \<and> l = l' \<longrightarrow> h = UNSPECIFIED_ADDRESS \<and> h' = UNSPECIFIED_ADDRESS)
      (map (\<lambda>r. (dv_prefix r, dv_len r, dv_nextHop r)) xs)" for xs
    by (simp add: dv_unique_def sorted_wrt_map)
  show ?thesis using assms(1) unfolding key [of rs] key [of rs'] assms(2) .
qed

section \<open>Each handler keeps the invariant\<close>

lemma linklocal_specified: "isLinkLocal a \<Longrightarrow> a \<noteq> UNSPECIFIED_ADDRESS"
  by (auto simp: isLinkLocal_def getScope_def UNSPECIFIED_ADDRESS_def IP6_def)

lemma response_refines:
  assumes srt: "route_sorter (rc_sort c)" and inv: "rip_inv s" and valid: "checkMessageValidity c p"
  shows "case dv_receive_all c (pk_ifId p) (pk_srcAddr p) (pk_rtes p) (rip_abs s) of
      None \<Rightarrow> handleResponse c p s = None
    | Some rs \<Rightarrow> \<exists>s'. handleResponse c p s = Some s' \<and> rip_inv s' \<and> rip_abs s' = rs \<and> rp_ints s' = rp_ints s"
proof -
  let ?d = "dv_receive_all c (pk_ifId p) (pk_srcAddr p) (pk_rtes p) (rip_abs s)"
  have src: "pk_srcAddr p \<noteq> UNSPECIFIED_ADDRESS" using valid linklocal_specified by (simp add: checkMessageValidity_def)
  have "refines_step ?d (process_rtes c (pk_rtes p) (pk_ifId p) (pk_srcAddr p) (s\<lparr>rp_block := True\<rparr>)) (s\<lparr>rp_block := True\<rparr>)"
    using process_rtes_refines [OF srt _ _ src, of "s\<lparr>rp_block := True\<rparr>"] inv by (simp add: rip_inv_def)
  then show ?thesis
  proof (cases ?d)
    case None
    then show ?thesis using \<open>refines_step _ _ _\<close> valid by (simp add: refines_step_def handleResponse_def processRTEs_def)
  next
    case (Some rs)
    then obtain s1 where s1: "process_rtes c (pk_rtes p) (pk_ifId p) (pk_srcAddr p) (s\<lparr>rp_block := True\<rparr>) = Some s1"
      "rip_wf s1" "same_frame (s\<lparr>rp_block := True\<rparr>) s1" "rip_abs s1 = rs"
      using \<open>refines_step _ _ _\<close> by (auto simp: refines_step_def)
    have "dv_unique rs" using dv_receive_all_unique [OF Some _ src] inv by (simp add: rip_inv_def)
    then show ?thesis
      using sending_keeps(3) [OF s1(2), of c] s1 Some valid inv
      by (auto simp: handleResponse_def processRTEs_def rip_inv_def same_routes_def same_frame_def num_ok_def)
  qed
qed

lemma receive_inv:
  assumes srt: "route_sorter (rc_sort c)" and inv: "rip_inv s" and h: "handleRIPngMessage c p s = Some s'"
  shows "rip_inv s'"
proof (cases "getEnabledInterface (pk_ifId p) s \<noteq> None \<and> pk_command p = RIPngResponse \<and> checkMessageValidity c p")
  case True
  then have "handleResponse c p s = Some s'" using h by (auto simp: handleRIPngMessage_def)
  then show ?thesis using response_refines [OF srt inv] True by (fastforce split: option.splits)
next
  case False
  then have "s' = s \<or> (\<exists>i. s' = handleRequest c p i s)"
    using h by (auto simp: handleRIPngMessage_def handleResponse_def split: option.splits rip_command.splits)
  then show ?thesis using inv by (auto simp: handleRequest_def rip_inv_def num_ok_def rip_abs_def)
qed

text \<open>The timer of a learned route finds that route.\<close>

lemma learned_timers:
  assumes "rip_wf s" and "e \<in> set (rp_table s)" and "re_timer e = Some tm \<or> re_gc e = Some tm"
  shows "re_nextHop e \<noteq> UNSPECIFIED_ADDRESS" and "tm_prefix tm = re_prefix e" and "tm_len tm = re_len e"
  using rip_wfD(5) [OF assms(1,2)] assms(3) by (auto simp: entry_ok_def timers_ok_def split: if_splits)

lemma lookup_learned:
  assumes u: "dv_unique (rip_abs s)" and e: "e \<in> set (rp_table s)" and hop: "re_nextHop e \<noteq> UNSPECIFIED_ADDRESS"
  shows "getRoutingTableEntry (re_prefix e) (re_len e) s = Some e"
proof -
  have "find (\<lambda>x. re_prefix x = re_prefix e \<and> re_len x = re_len e) tbl = Some e" if "dv_unique (map dv_of tbl)" "e \<in> set tbl" for tbl
    using that
  proof (induction tbl)
    case (Cons x tbl)
    show ?case
    proof (cases "e \<in> set tbl")
      case True
      then have "\<not> (re_prefix x = re_prefix e \<and> re_len x = re_len e)"
        using Cons.prems(1) hop by (auto simp: dv_unique_def dv_of_def)
      then show ?thesis using Cons True by (auto simp: dv_unique_def)
    qed (use Cons.prems(2) in simp)
  qed simp
  then show ?thesis using u e by (simp add: getRoutingTableEntry_def rip_abs_def)
qed

lemma timeout_entry_ok [simp]:
  "entry_ok e \<Longrightarrow> entry_ok (e\<lparr>re_timer := map_option (\<lambda>tm. tm\<lparr>tm_at := t\<rparr>) (re_timer e)\<rparr>)"
  by (auto simp: entry_ok_def timers_ok_def)

lemma cancel_timeout_keep:
  assumes "rip_wf s" and "e \<in> set (rp_table s)"
  shows "rip_wf (cancel_timeout (re_id e) s) \<and> rip_abs (cancel_timeout i s) = rip_abs s"
proof
  show "rip_wf (cancel_timeout (re_id e) s)" unfolding cancel_timeout_def
    by (rule rip_wf_modify_entry [OF assms]) (use rip_wfD(5) [OF assms] in \<open>simp_all add: is_copy_def\<close>)
  show "rip_abs (cancel_timeout i s) = rip_abs s"
    by (simp add: cancel_timeout_def rip_abs_def rip_modify_def dv_of_def comp_def)
qed

lemma rip_abs_deleted:
  "map (\<lambda>r. (dv_prefix r, dv_len r, dv_nextHop r)) (rip_abs (rip_modify i (deleted_entry c t) s)) =
   map (\<lambda>r. (dv_prefix r, dv_len r, dv_nextHop r)) (rip_abs s)"
  by (simp add: rip_abs_def rip_modify_def dv_of_def deleted_entry_def)

text \<open>A learned route starts to be deleted, by its timeout or because its interface went down.\<close>

lemma delete_learned:
  assumes wf: "rip_wf s" and u: "dv_unique (rip_abs s)" and on: "rp_started s" and e: "e \<in> set (rp_table s)"
    and hop: "re_nextHop e \<noteq> UNSPECIFIED_ADDRESS"
  shows "\<exists>s'. startRouteDeletionProcess c (re_id e) (cancel_timeout (re_id e) s) = Some s' \<and> rip_wf s' \<and>
    dv_unique (rip_abs s') \<and> same_frame s s' \<and> map re_id (rp_table s') = map re_id (rp_table s) \<and>
    (\<exists>e'\<in>set (rp_table s'). re_id e' = re_id e \<and> re_metric e' = rc_infinity c \<and> re_change e' \<and> re_copy e' = None \<and>
       map_option tm_at (re_gc e') = Some (Some (rp_now s + rc_gc c)))"
proof -
  let ?c = "\<lambda>e. e\<lparr>re_timer := map_option (\<lambda>tm. tm\<lparr>tm_at := None\<rparr>) (re_timer e)\<rparr>"
  let ?s = "cancel_timeout (re_id e) s"
  have wf1: "rip_wf ?s" and abs1: "rip_abs ?s = rip_abs s" using cancel_timeout_keep [OF wf e] by blast+
  have e1: "?c e \<in> set (rp_table ?s)" using rip_modify_member [OF wf e, of ?c] by (simp add: cancel_timeout_def)
  obtain s' where s': "startRouteDeletionProcess c (re_id e) ?s = Some s'" "rip_wf s'" "same_frame ?s s'"
    "rp_table s' = rp_table (rip_modify (re_id e) (deleted_entry c (rp_now s)) ?s)"
    using start_deletion [OF wf1 e1, of c] hop on by (auto simp: cancel_timeout_def)
  have abs': "rip_abs s' = rip_abs (rip_modify (re_id e) (deleted_entry c (rp_now s)) ?s)" using s'(4) by (simp add: rip_abs_def)
  have "dv_unique (rip_abs s')"
    by (rule dv_unique_keys [OF u]) (simp only: abs' rip_abs_deleted abs1)
  moreover have "same_frame s s'" using same_frame_trans [OF _ s'(3)] by (simp add: cancel_timeout_def)
  moreover have "map re_id (rp_table s') = map re_id (rp_table s)"
    by (simp add: s'(4) rip_modify_ids deleted_entry_def cancel_timeout_def)
  moreover obtain gc where "re_gc e = Some gc" using rip_wfD(5) [OF wf e] hop by (auto simp: entry_ok_def timers_ok_def)
  then have "deleted_entry c (rp_now s) (?c e) \<in> set (rp_table s') \<and>
      map_option tm_at (re_gc (deleted_entry c (rp_now s) (?c e))) = Some (Some (rp_now s + rc_gc c))"
    using rip_modify_member [OF wf1 e1, of "deleted_entry c (rp_now s)"] s'(4) by (simp add: deleted_entry_def)
  then have "\<exists>e'\<in>set (rp_table s'). re_id e' = re_id e \<and> re_metric e' = rc_infinity c \<and> re_change e' \<and> re_copy e' = None \<and>
       map_option tm_at (re_gc e') = Some (Some (rp_now s + rc_gc c))"
    by (intro bexI [of _ "deleted_entry c (rp_now s) (?c e)"]) (simp_all add: deleted_entry_def)
  ultimately show ?thesis using s'(1,2) by blast
qed

text \<open>An entry without a copy leaves the table.\<close>

lemma rip_wf_remove_entry:
  assumes wf: "rip_wf s" and e: "e \<in> set (rp_table s)" and none: "re_copy e = None"
  shows "rip_wf (s\<lparr>rp_table := filter (\<lambda>x. re_id x \<noteq> re_id e) (rp_table s), rp_numRoutes := n\<rparr>)"
proof -
  have "route_ok (filter (\<lambda>x. re_id x \<noteq> re_id e) (rp_table s)) r" if r: "r \<in> set (routeList (rp_rt s))" for r
  proof (cases "rt_rip r")
    case (Some k)
    then obtain x where x: "x \<in> set (rp_table s)" "re_id x = k" "re_copy x = Some (rt_id r)" using copy_owner [OF wf r] by blast
    then have "re_id x \<noteq> re_id e" using key_inj [OF rip_wfD(1) [OF wf] x(1) e] none by auto
    then show ?thesis using x Some by (auto simp: route_ok_def)
  qed (use rip_wfD(7) [OF wf r] in \<open>simp add: route_ok_def\<close>)
  then show ?thesis using wf by (auto simp: rip_wf_def distinct_map_filter)
qed

lemma length_remove_key:
  "distinct (map key xs) \<Longrightarrow> x \<in> set xs \<Longrightarrow> length xs = Suc (length (filter (\<lambda>y. key y \<noteq> key x) xs))"
proof (induction xs)
  case (Cons y ys)
  show ?case
  proof (cases "x = y")
    case True
    then have "filter (\<lambda>y. key y \<noteq> key x) ys = ys" using Cons.prems(1) by (intro filter_True) (auto simp: image_iff)
    then show ?thesis using True by simp
  next
    case False
    then have "key y \<noteq> key x" "x \<in> set ys" using Cons.prems by auto
    then show ?thesis using Cons by simp
  qed
qed simp

lemma garbage_removes:
  assumes inv: "rip_inv s" and e: "e \<in> set (rp_table s)" and gc: "re_gc e = Some tm" "tm_at tm = Some t"
  shows "\<exists>s'. handleTimer c (Route_Garbage (re_id e)) s = Some s' \<and> rip_inv s' \<and>
    map re_id (rp_table s') = filter (\<lambda>i. i \<noteq> re_id e) (map re_id (rp_table s)) \<and> rp_rt s' = rp_rt s"
proof -
  have wf: "rip_wf s" and u: "dv_unique (rip_abs s)" using inv by (simp_all add: rip_inv_def)
  let ?f = "\<lambda>e. e\<lparr>re_gc := Some (tm\<lparr>tm_at := None\<rparr>)\<rparr>"
  let ?s = "rip_modify (re_id e) ?f s"
  have ok: "entry_ok e" by (rule rip_wfD(5) [OF wf e])
  note t = learned_timers [OF wf e, of tm]
  have none: "re_copy e = None" using ok gc t(1) by (auto simp: entry_ok_def timers_ok_def)
  have at: "rip_entry_at (re_id e) s = Some e" using e by (simp add: rip_entry_at_iff [OF wf])
  have "entry_ok (?f e)" using ok gc t(1) by (auto simp: entry_ok_def timers_ok_def)
  then have wf1: "rip_wf ?s" using rip_wf_modify_entry [OF wf e, of ?f] by (simp add: is_copy_def)
  have e1: "?f e \<in> set (rp_table ?s)" by (rule rip_modify_member [OF wf e])
  have abs1: "rip_abs ?s = rip_abs s" by (auto simp: rip_abs_def rip_modify_def dv_of_def)
  have "getRoutingTableEntry (re_prefix (?f e)) (re_len (?f e)) ?s = Some (?f e)"
    using lookup_learned [OF _ e1] u t(1) gc(1) by (simp add: abs1)
  moreover have "removeRoutingTableEntryFromGlobalRT c (re_id e) ?s = Some ?s"
    using rip_entry_at_modify [OF at, of ?f] none by (simp add: removeRoutingTableEntryFromGlobalRT_def)
  ultimately have res: "handleTimer c (Route_Garbage (re_id e)) s =
      Some (?s\<lparr>rp_table := filter (\<lambda>x. re_id x \<noteq> re_id e) (rp_table ?s), rp_numRoutes := rp_numRoutes s - 1\<rparr>)" (is "_ = Some ?r")
    using at gc(1) t by (simp add: handleTimer_def deleteRoute_def removeRoutingTableEntry_def)
  have wf': "rip_wf ?r" using rip_wf_remove_entry [OF wf1 e1] none by simp
  have "map re_id (rp_table ?s) = map re_id (rp_table s)" by (simp add: rip_modify_ids)
  then have ids: "map re_id (rp_table ?r) = filter (\<lambda>i. i \<noteq> re_id e) (map re_id (rp_table s))"
  proof -
    have "map re_id (rp_table ?r) = filter (\<lambda>i. i \<noteq> re_id e) (map re_id (rp_table ?s))" by (simp add: filter_map comp_def)
    then show ?thesis by (simp only: \<open>map re_id (rp_table ?s) = _\<close>)
  qed
  have "length (rp_table ?s) = Suc (length (rp_table ?r))" using length_remove_key [OF rip_wfD(1) [OF wf1] e1] by simp
  then have num: "num_ok ?r" using inv by (simp add: rip_inv_def num_ok_def)
  have "dv_unique (rip_abs ?r)"
  proof -
    have "dv_unique (rip_abs ?s)" using u abs1 by simp
    then show ?thesis by (simp add: rip_abs_def dv_unique_def sorted_wrt_map sorted_wrt_filter)
  qed
  then have "rip_inv ?r" using wf' num inv by (simp add: rip_inv_def)
  then show ?thesis using res ids by simp
qed

lemma timeout_deletes:
  assumes inv: "rip_inv s" and e: "e \<in> set (rp_table s)" and tm: "re_timer e = Some tm"
  shows "\<exists>s'. handleTimer c (Route_Timeout (re_id e)) s = Some s' \<and> rip_inv s' \<and>
    (\<exists>e'\<in>set (rp_table s'). re_id e' = re_id e \<and> re_metric e' = rc_infinity c \<and> re_change e' \<and> re_copy e' = None \<and>
       map_option tm_at (re_gc e') = Some (Some (rp_now s + rc_gc c)))"
proof -
  have wf: "rip_wf s" and u: "dv_unique (rip_abs s)" and on: "rp_started s" using inv by (simp_all add: rip_inv_def)
  note t = learned_timers [OF wf e, of tm]
  let ?s = "cancel_timeout (re_id e) s"
  let ?c = "\<lambda>e. e\<lparr>re_timer := map_option (\<lambda>tm. tm\<lparr>tm_at := None\<rparr>) (re_timer e)\<rparr>"
  have at: "rip_entry_at (re_id e) s = Some e" using e by (simp add: rip_entry_at_iff [OF wf])
  have e1: "?c e \<in> set (rp_table ?s)" using rip_modify_member [OF wf e, of ?c] by (simp add: cancel_timeout_def)
  have "getRoutingTableEntry (re_prefix (?c e)) (re_len (?c e)) ?s = Some (?c e)"
    using lookup_learned [OF _ e1] u t(1) tm cancel_timeout_keep [OF wf e, of "re_id e"] by simp
  then have "handleTimer c (Route_Timeout (re_id e)) s = startRouteDeletionProcess c (re_id e) ?s"
    using at tm t by (simp add: handleTimer_def startRouteDeletion_timer_def)
  then obtain s' where "handleTimer c (Route_Timeout (re_id e)) s = Some s'" "rip_wf s'" "dv_unique (rip_abs s')" "same_frame s s'"
    "\<exists>e'\<in>set (rp_table s'). re_id e' = re_id e \<and> re_metric e' = rc_infinity c \<and> re_change e' \<and> re_copy e' = None \<and>
       map_option tm_at (re_gc e') = Some (Some (rp_now s + rc_gc c))"
    using delete_learned [OF wf u on e t(1), of c] tm by auto
  then show ?thesis using inv by (auto simp: rip_inv_def same_frame_def num_ok_def)
qed

text \<open>A timer that is due.\<close>

fun timer_due :: "rip_event \<Rightarrow> ripng \<Rightarrow> bool" where
  "timer_due General_Update s = (rp_regular s = rp_now s)"
| "timer_due Triggered_Update s = (rp_triggered s = Some (rp_now s))"
| "timer_due (Route_Timeout i) s = (case rip_entry_at i s of None \<Rightarrow> False | Some e \<Rightarrow>
     (case re_timer e of None \<Rightarrow> False | Some tm \<Rightarrow> tm_at tm = Some (rp_now s)))"
| "timer_due (Route_Garbage i) s = (case rip_entry_at i s of None \<Rightarrow> False | Some e \<Rightarrow>
     (case re_gc e of None \<Rightarrow> False | Some tm \<Rightarrow> tm_at tm = Some (rp_now s)))"

lemma timer_never_fails:
  assumes inv: "rip_inv s" and due: "timer_due ev s"
  shows "\<exists>s'. handleTimer c ev s = Some s' \<and> rip_inv s'"
proof (cases ev)
  case General_Update
  then show ?thesis using sending_keeps(2) [of s c] inv by (simp add: handleTimer_def rip_inv_def same_routes_def num_ok_def)
next
  case Triggered_Update
  then show ?thesis using sending_keeps(1) [of "s\<lparr>rp_triggered := None\<rparr>" c] inv
    by (simp add: handleTimer_def rip_inv_def same_routes_def num_ok_def Let_def)
next
  case (Route_Timeout i)
  then obtain e tm where "rip_entry_at i s = Some e" "re_timer e = Some tm" using due by (auto split: option.splits)
  moreover have "rip_wf s" using inv by (simp add: rip_inv_def)
  ultimately show ?thesis using timeout_deletes [OF inv, of e tm c] Route_Timeout by (auto simp: rip_entry_at_iff)
next
  case (Route_Garbage i)
  then obtain e tm where "rip_entry_at i s = Some e" "re_gc e = Some tm" "tm_at tm = Some (rp_now s)"
    using due by (auto split: option.splits)
  moreover have "rip_wf s" using inv by (simp add: rip_inv_def)
  ultimately show ?thesis using garbage_removes [OF inv, of e tm "rp_now s" c] Route_Garbage by (auto simp: rip_entry_at_iff)
qed

lemma down_loop_keep:
  "rip_wf s \<Longrightarrow> dv_unique (rip_abs s) \<Longrightarrow> rp_started s \<Longrightarrow> set ks \<subseteq> re_id ` set (rp_table s) \<Longrightarrow>
    \<exists>s'. down_loop c ifId ks s = Some s' \<and> rip_wf s' \<and> dv_unique (rip_abs s') \<and> same_frame s s'"
proof (induction ks arbitrary: s)
  case (Cons k ks)
  then obtain e where e: "e \<in> set (rp_table s)" "re_id e = k" by auto
  have at: "rip_entry_at k s = Some e" using e by (simp add: rip_entry_at_iff [OF Cons.prems(1)])
  let ?f = "\<lambda>e. e\<lparr>re_metric := rc_infinity c, re_change := True\<rparr>"
  have "\<exists>s1. (if re_ifId e = ifId then
       if re_nextHop e = UNSPECIFIED_ADDRESS then Some (rip_modify k ?f s) else startRouteDeletionProcess c k (cancel_timeout k s)
     else Some s) = Some s1 \<and> rip_wf s1 \<and> dv_unique (rip_abs s1) \<and> same_frame s s1 \<and> map re_id (rp_table s1) = map re_id (rp_table s)"
  proof (cases "re_ifId e = ifId \<and> re_nextHop e = UNSPECIFIED_ADDRESS")
    case True
    have "entry_ok (?f e)" using rip_wfD(5) [OF Cons.prems(1) e(1)] by (auto simp: entry_ok_def timers_ok_def)
    then have "rip_wf (rip_modify k ?f s)" using rip_wf_modify_entry [OF Cons.prems(1) e(1), of ?f] True e(2) by (simp add: is_copy_def)
    moreover have "dv_unique (rip_abs (rip_modify k ?f s))"
      by (rule dv_unique_keys [OF Cons.prems(2)]) (simp add: rip_abs_def rip_modify_def dv_of_def)
    ultimately show ?thesis using True by (simp add: rip_modify_ids)
  next
    case False
    then show ?thesis using delete_learned [OF Cons.prems(1-3) e(1), of c] e(2) Cons.prems(1,2) by (cases "re_ifId e = ifId") auto
  qed
  then obtain s1 where s1: "(if re_ifId e = ifId then
       if re_nextHop e = UNSPECIFIED_ADDRESS then Some (rip_modify k ?f s) else startRouteDeletionProcess c k (cancel_timeout k s)
     else Some s) = Some s1" "rip_wf s1" "dv_unique (rip_abs s1)" "same_frame s s1" "map re_id (rp_table s1) = map re_id (rp_table s)"
    by blast
  have "set ks \<subseteq> re_id ` set (rp_table s1)" using Cons.prems(4) s1(5) by (metis set_map set_subset_Cons subset_trans)
  then obtain s' where "down_loop c ifId ks s1 = Some s'" "rip_wf s'" "dv_unique (rip_abs s')" "same_frame s1 s'"
    using Cons.IH [OF s1(2,3)] s1(4) Cons.prems(3) by (auto simp: same_frame_def)
  then show ?case using at s1(1,4) same_frame_trans by auto
qed simp

lemma down_inv:
  assumes "rip_inv s"
  shows "\<exists>s'. rip_interfaceDown c ifId s = Some s' \<and> rip_inv s'"
proof (cases "getEnabledInterface ifId s = None")
  case False
  let ?s = "s\<lparr>rp_ints := remove_first (\<lambda>i. ri_id i = ifId) (rp_ints s), rp_block := True\<rparr>"
  have abs: "rip_abs ?s = rip_abs s" by (simp add: rip_abs_def)
  obtain s1 where s1: "down_loop c ifId (map re_id (rp_table s)) ?s = Some s1" "rip_wf s1" "dv_unique (rip_abs s1)" "same_frame ?s s1"
    using down_loop_keep [of ?s "map re_id (rp_table s)" c ifId] assms abs by (auto simp: rip_inv_def)
  have "rip_inv (end_batch c s1)"
    using sending_keeps(3) [OF s1(2), of c] s1(3,4) assms by (simp add: rip_inv_def same_routes_def same_frame_def num_ok_def)
  then show ?thesis using False s1(1) by (auto simp: rip_interfaceDown_def)
qed (use assms in \<open>simp add: rip_interfaceDown_def\<close>)

lemma up_inv:
  assumes "rip_inv s"
  shows "rip_inv (rip_interfaceUp c ifId s)"
proof (cases "getEnabledInterface ifId s = None")
  case True
  let ?f = "\<lambda>e. if re_ifId e = ifId \<and> re_nextHop e = UNSPECIFIED_ADDRESS then e\<lparr>re_metric := rc_conn c, re_change := True\<rparr> else e"
  let ?u = "(enableRIPngOnInterface ifId s)\<lparr>rp_block := True\<rparr>"
  let ?s = "?u\<lparr>rp_table := map ?f (rp_table ?u)\<rparr>"
  have wf0: "rip_wf ?u" using assms by (simp add: rip_inv_def enableRIPngOnInterface_def)
  have "entry_ok e \<Longrightarrow> entry_ok (?f e)" for e by (auto simp: entry_ok_def timers_ok_def)
  then have wf: "rip_wf ?s" using rip_wfD(5) [OF wf0] by (intro rip_wf_map [OF wf0]) (auto simp: is_copy_def)
  have "dv_unique (rip_abs s)" using assms by (simp add: rip_inv_def)
  then have "dv_unique (rip_abs ?s)"
    by (rule dv_unique_keys) (simp add: rip_abs_def dv_of_def comp_def enableRIPngOnInterface_def if_distrib cong: if_cong)
  moreover have "rip_interfaceUp c ifId s = end_batch c ?s" using True by (simp add: rip_interfaceUp_def Let_def)
  moreover have "rp_started ?s" "num_ok ?s" using assms by (simp_all add: rip_inv_def num_ok_def enableRIPngOnInterface_def)
  ultimately show ?thesis
    using sending_keeps(3) [OF wf, of c] unfolding rip_inv_def num_ok_def same_routes_def by simp
qed (use assms in \<open>auto simp: rip_interfaceUp_def\<close>)

section \<open>Other modules use the IPv6 table\<close>

text \<open>What other modules do to the table without a notification RIPng listens to: adding routes,
  dropping an advertised prefix, looking up a destination.\<close>

inductive rt6_other :: "(route6 list \<Rightarrow> route6 list) \<Rightarrow> rt6 \<Rightarrow> rt6 \<Rightarrow> bool" for srt t where
  static: "rt6_other srt t (rt6_addStaticRoute srt p l i h m t)"
| default: "rt6_other srt t (rt6_addDefaultRoute srt x h i e t)"
| prefix: "find (\<lambda>r. rt_src r = src \<and> rt_prefix r = p \<and> rt_length r = l) (routeList t) = None \<Longrightarrow>
    rt6_other srt t (rt6_addOrUpdate srt src p l i e t)"
| unlink: "rt6_other srt t (rt6_removeOnLinkPrefix p l t)"
| lookup: "rt6_doLongestPrefixMatch now d t = Some (r, t') \<Longrightarrow> rt6_other srt t t'"

lemma lpm_loop_drops:
  "lpm_loop now dest dn its = Some (r, rl) \<Longrightarrow> x \<in> set (dn @ its) \<Longrightarrow> rt_src x \<noteq> FROM_RA \<Longrightarrow> x \<in> set rl"
proof (induction its arbitrary: dn)
  case Nil
  then show ?case by (simp add: lpm_loop.simps)
next
  case (Cons y its)
  from Cons.prems(1) have eq: "(case ip6_matches dest (rt_prefix y) (rt_length y) of None \<Rightarrow> None
    | Some m \<Rightarrow> if m then if now > rt_expiry y \<and> rt_expiry y \<noteq> 0 then
        if rt_src y = FROM_RA then lpm_loop now dest dn its else lpm_loop now dest dn (y # its)
        else Some (Some y, dn @ y # its) else lpm_loop now dest (dn @ [y]) its) = Some (r, rl)"
    by (subst (asm) lpm_loop.simps) simp
  have not_stuck: "\<not> (ip6_matches dest (rt_prefix y) (rt_length y) = Some True \<and> route_expired now y \<and> rt_src y \<noteq> FROM_RA)"
    using lpm_loop_stuck [OF Cons.prems(1)] by blast
  consider (drop) "rt_src y = FROM_RA" "lpm_loop now dest dn its = Some (r, rl)"
    | (pass) "lpm_loop now dest (dn @ [y]) its = Some (r, rl)" | (here) "rl = dn @ y # its"
    using eq not_stuck by (auto simp: route_expired_def split: option.splits if_splits)
  then show ?case
  proof cases
    case drop
    then show ?thesis using Cons.IH [OF drop(2)] Cons.prems(2,3) by auto
  next
    case pass
    then show ?thesis using Cons.IH [OF pass] Cons.prems(2,3) by simp
  qed (use Cons.prems(2) in simp)
qed

lemma remove_first_keeps: "x \<in> set xs \<Longrightarrow> \<not> P x \<Longrightarrow> x \<in> set (remove_first P xs)"
  by (induction xs) auto

lemma rt6_other_routes:
  assumes srt: "route_sorter srt" and wf: "rt6_wf t" and o: "rt6_other srt t t'"
  shows "rt6_wf t' \<and> (\<forall>r\<in>set (routeList t'). r \<in> set (routeList t) \<or> rt_rip r = None \<and> ad_number (rt_adminDist r) < ad_number RIP) \<and>
    (\<forall>r\<in>set (routeList t). rt_src r \<noteq> FROM_RA \<longrightarrow> r \<in> set (routeList t'))"
  using o
proof cases
  case (static p l i h m)
  then show ?thesis using route_sorter.new_route_wf [OF srt wf] route_sorter.addRoute_set [OF srt]
    by (simp add: rt6_addStaticRoute_def) (simp add: rt6_new_def new_route_def)
next
  case (default x h i e)
  then show ?thesis using route_sorter.new_route_wf [OF srt wf] route_sorter.addRoute_set [OF srt]
    by (simp add: rt6_addDefaultRoute_def) (simp add: rt6_new_def new_route_def)
next
  case (prefix src p l i e)
  then show ?thesis using route_sorter.new_route_wf [OF srt wf] route_sorter.addRoute_set [OF srt]
    by (simp add: rt6_addOrUpdate_def) (simp add: rt6_new_def new_route_def)
next
  case (unlink p l)
  have "rt6_wf t'" using rt6_wf_unlink [OF wf] unlink by simp
  then show ?thesis using unlink remove_first_sorted_wrt [of "\<lambda>_ _. True" "routeList t"]
    by (auto simp: rt6_removeOnLinkPrefix_def intro!: remove_first_keeps)
next
  case (lookup now d r)
  then obtain rl where rl: "lpm_loop now d [] (routeList t) = Some (r, rl)" "t' = t\<lparr>routeList := rl\<rparr>"
    by (auto simp: rt6_doLongestPrefixMatch_def)
  then show ?thesis using rt6_wf_lookup [OF wf lookup] lpm_loop_result [OF rl(1), of "\<lambda>_ _. True"] lpm_loop_drops [OF rl(1)] by auto
qed

lemma other_inv:
  assumes srt: "route_sorter (rc_sort c)" and inv: "rip_inv s" and o: "rt6_other (rc_sort c) (rp_rt s) t'"
  shows "rip_inv (s\<lparr>rp_rt := t'\<rparr>)"
proof -
  have wf: "rip_wf s" using inv by (simp add: rip_inv_def)
  note k = rt6_other_routes [OF srt rip_wfD(2) [OF wf] o]
  have "copy_ok (routeList t') e" if e: "e \<in> set (rp_table s)" for e
  proof -
    have "r \<in> set (routeList t')" if "r \<in> set (routeList (rp_rt s))" "is_copy e r" for r
      using k that by (auto simp: is_copy_def)
    then show ?thesis using rip_wfD(4) [OF wf e] unfolding copy_ok_def by blast
  qed
  moreover have "route_ok (rp_table s) r" if "r \<in> set (routeList t')" for r
    using k that rip_wfD(7) [OF wf, of r] by (auto simp: route_ok_def)
  ultimately show ?thesis using inv k by (simp add: rip_inv_def rip_wf_def num_ok_def)
qed

section \<open>Initialisation\<close>

lemma no_entry_keeps:
  assumes "getRoutingTableEntry (rt_prefix q) (rt_length q) s = None" and "rt_rip q = None" and "rt6_find i (rp_rt s) = Some q" and "rp_started s"
  shows "rip_removeRoute c i s = Some (s\<lparr>rp_rt := rt6_erase i (rp_rt s)\<rparr>)"
proof -
  have "rt_id q = i" using assms(3) by (auto simp: rt6_find_def dest: find_Some_in)
  then show ?thesis using assms by (simp add: rip_removeRoute_def rip_routeDeleted_def rip_erase_route_def)
qed

text \<open>While prefixes are loaded every entry is a connected route.\<close>

definition rip_loading :: "rip_config \<Rightarrow> ripng \<Rightarrow> bool" where
  "rip_loading c s \<longleftrightarrow> rip_wf s \<and> num_ok s \<and> \<not> rp_block s \<and> (\<forall>e\<in>set (rp_table s). re_nextHop e = UNSPECIFIED_ADDRESS) \<and>
     (\<forall>r\<in>set (routeList (rp_rt s)). rt_rip r \<noteq> None \<longrightarrow> rt_metric r \<le> rc_conn c)"

lemma load_prefixes_inv:
  assumes srt: "route_sorter (rc_sort c)"
  shows "load_prefixes c ifId as s = Some s' \<Longrightarrow> rip_loading c s \<Longrightarrow> rip_loading c s'"
proof (induction as arbitrary: s)
  case (Cons a as)
  obtain x len where a: "a = (x, len)" by (cases a)
  show ?case
  proof (cases "\<not> isLinkLocal x \<and> \<not> isMulticast x")
    case True
    obtain p where p: "ip6_getPrefix len x = Some p" using Cons.prems(1) a True by (auto split: Option.bind_splits)
    have len: "0 \<le> len" "len \<le> 128" using p by (auto simp: ip6_getPrefix_def constructMask_def split: if_splits)
    let ?e = "(new_entry (rp_next s) p len)\<lparr>re_ifId := ifId, re_nextHop := UNSPECIFIED_ADDRESS, re_metric := rc_conn c\<rparr>"
    have short: "to_short len = len" using len by (intro small_int) auto
    obtain s1 where s1: "addRoutingTableEntry c False ?e (s\<lparr>rp_next := rp_next s + 1\<rparr>) = Some s1" "rip_wf s1"
      "rp_block s1 = rp_block s" "rp_numRoutes s1 = rp_numRoutes s + 1" "routes_from ?e s s1"
      "map entry_key (rp_table s1) = map entry_key (rp_table s @ [?e])"
      using add_entry [OF srt, of s ?e False] Cons.prems(2) short by (auto simp: rip_loading_def new_entry_def)
    have "length (rp_table s1) = length (rp_table s) + 1" using s1(6) by (metis length_append_singleton length_map Suc_eq_plus1)
    moreover have "re_nextHop y = UNSPECIFIED_ADDRESS" if y: "y \<in> set (rp_table s1)" for y
    proof -
      have "entry_key y \<in> set (map entry_key (rp_table s @ [?e]))" using y s1(6) by (metis image_eqI set_map)
      then show ?thesis using Cons.prems(2) by (auto simp: rip_loading_def entry_key_def)
    qed
    moreover have "rt_metric r \<le> rc_conn c" if "r \<in> set (routeList (rp_rt s1))" "rt_rip r \<noteq> None" for r
      using that s1(5) Cons.prems(2) by (auto simp: routes_from_def rip_loading_def)
    ultimately have "rip_loading c s1" using s1(2-4) Cons.prems(2) by (simp add: rip_loading_def num_ok_def)
    then show ?thesis using Cons.IH [of s1] Cons.prems(1) a True p s1(1) by simp
  next
    case False
    then have "load_prefixes c ifId (a # as) s = load_prefixes c ifId as s" using a by auto
    then show ?thesis using Cons by simp
  qed
qed simp

lemma load_interfaces_inv:
  assumes srt: "route_sorter (rc_sort c)"
  shows "load_interfaces c ics s = Some s' \<Longrightarrow> rip_loading c s \<Longrightarrow> rip_loading c s'"
proof (induction ics arbitrary: s)
  case (Cons ic ics)
  obtain s1 where s1: "load_prefixes c (ic_id ic) (ic_addrs ic) (enableRIPngOnInterface (ic_id ic) s) = Some s1"
    using Cons.prems(1) by (auto split: Option.bind_splits)
  have "rip_loading c (enableRIPngOnInterface (ic_id ic) s)"
    using Cons.prems(2) by (simp add: rip_loading_def enableRIPngOnInterface_def num_ok_def)
  then have "rip_loading c s1" by (rule load_prefixes_inv [OF srt s1])
  then have "rip_loading c (s1\<lparr>rp_ints := is\<rparr>)" for "is" by (simp add: rip_loading_def num_ok_def)
  then show ?case using Cons.IH Cons.prems(1) s1 by simp
qed simp

text \<open>The table before RIPng starts: no RIPng routes, only routes of smaller distance.\<close>

definition table_before :: "rt6 \<Rightarrow> bool" where
  "table_before t \<longleftrightarrow> rt6_wf t \<and> (\<forall>r\<in>set (routeList t). rt_rip r = None \<and> ad_number (rt_adminDist r) < ad_number RIP)"

lemma initialize_inv:
  assumes srt: "route_sorter (rc_sort c)" and t: "table_before t" and i: "rip_initialize c ics t = Some s"
  shows "rip_inv s"
proof -
  obtain s1 where s1: "load_interfaces c ics
          \<lparr>rp_now = 0, rp_rt = t, rp_next = 0, rp_table = [], rp_numRoutes = 0, rp_ints = [], rp_send = False,
           rp_block = False, rp_regular = 0, rp_triggered = None, rp_draws = 0, rp_started = False, rp_out = []\<rparr> = Some s1"
    and s: "s = (sendAllRoutesRequest c (s1\<lparr>rp_regular := rp_now s1 + rc_regular c\<rparr>))\<lparr>rp_started := True\<rparr>"
    using i by (auto simp: rip_initialize_def)
  have "rip_loading c \<lparr>rp_now = 0, rp_rt = t, rp_next = 0, rp_table = [], rp_numRoutes = 0, rp_ints = [], rp_send = False,
           rp_block = False, rp_regular = 0, rp_triggered = None, rp_draws = 0, rp_started = False, rp_out = []\<rparr>"
    using t by (auto simp: rip_loading_def rip_wf_def num_ok_def table_before_def route_ok_def)
  then have l: "rip_loading c s1" by (rule load_interfaces_inv [OF srt s1])
  have conn: "sorted_wrt (\<lambda>a b. re_nextHop a = UNSPECIFIED_ADDRESS \<and> re_nextHop b = UNSPECIFIED_ADDRESS) tbl"
    if "\<forall>e\<in>set tbl. re_nextHop e = UNSPECIFIED_ADDRESS" for tbl
    using that by (induction tbl) auto
  have "sorted_wrt (\<lambda>a b. re_nextHop a = UNSPECIFIED_ADDRESS \<and> re_nextHop b = UNSPECIFIED_ADDRESS) (rp_table s1)"
    by (rule conn) (use l in \<open>simp add: rip_loading_def\<close>)
  then have "dv_unique (rip_abs s1)"
    unfolding dv_unique_def rip_abs_def sorted_wrt_map by (rule sorted_wrt_mono_rel [rotated]) (auto simp: dv_of_def)
  then show ?thesis using l by (simp add: s rip_loading_def rip_inv_def sendAllRoutesRequest_def num_ok_def)
qed

section \<open>Reachable states\<close>

inductive rip_step :: "rip_config \<Rightarrow> ripng \<Rightarrow> ripng \<Rightarrow> bool" for c s where
  receive: "handleRIPngMessage c p s = Some s' \<Longrightarrow> rip_step c s s'"
| timer: "timer_due ev s \<Longrightarrow> handleTimer c ev s = Some s' \<Longrightarrow> rip_step c s s'"
| down: "rip_interfaceDown c i s = Some s' \<Longrightarrow> rip_step c s s'"
| up: "rip_step c s (rip_interfaceUp c i s)"
| other: "rt6_other (rc_sort c) (rp_rt s) t' \<Longrightarrow> rip_step c s (s\<lparr>rp_rt := t'\<rparr>)"
| time: "rp_now s \<le> t \<Longrightarrow> rip_step c s (s\<lparr>rp_now := t\<rparr>)"

inductive rip_reachable :: "rip_config \<Rightarrow> ripng \<Rightarrow> bool" for c where
  init: "table_before t \<Longrightarrow> rip_initialize c ics t = Some s \<Longrightarrow> rip_reachable c s"
| step: "rip_reachable c s \<Longrightarrow> rip_step c s s' \<Longrightarrow> rip_reachable c s'"

lemma rip_step_inv:
  assumes srt: "route_sorter (rc_sort c)" and inv: "rip_inv s" and step: "rip_step c s s'"
  shows "rip_inv s'"
  using step
proof cases
  case (receive p)
  then show ?thesis using receive_inv [OF srt inv] by blast
next
  case (timer ev)
  then show ?thesis using timer_never_fails [OF inv, of ev c] by auto
next
  case (down i)
  then show ?thesis using down_inv [OF inv, of c i] by auto
next
  case (up i)
  then show ?thesis using up_inv [OF inv] by simp
next
  case (other t')
  then show ?thesis using other_inv [OF srt inv] by simp
next
  case (time t)
  then show ?thesis using inv by (simp add: rip_inv_def num_ok_def)
qed

lemma rip_reachable_inv:
  assumes "route_sorter (rc_sort c)" and "rip_reachable c s"
  shows "rip_inv s"
  using assms(2) by (induction rule: rip_reachable.induct) (auto intro: initialize_inv rip_step_inv assms(1))

end
