(* ===== verification/Ripng_Properties.thy ===== *)
theory Ripng_Properties
  imports Ripng_Reachable
begin

text \<open>
  What RIPng promises, for every state it reaches, and where it does not: the copies of its routes, the
  distance-vector rule, the update messages, the life of a route, and the cases in which an interface that
  goes down, a router that takes a route back, or the removal of a better route is handled wrongly.
\<close>

section \<open>A small router\<close>

definition demo_rip_config :: rip_config where
  "demo_rip_config =
     \<lparr>rc_infinity = 16, rc_conn = 1, rc_timeout = 180, rc_gc = 120, rc_regular = 30, rc_port = 521,
      rc_address = IP6 0xFF020000 0 0 9, rc_uniform = (\<lambda>_. 3), rc_sort = stable_route_sort, rc_local = (\<lambda>_. False)\<rparr>"

definition demo_hop :: "32 word \<Rightarrow> ip6" where
  "demo_hop n = IP6 0xFE800000 0 0 n"

definition demo_ifcfg :: "int \<Rightarrow> 32 word \<Rightarrow> rip_ifcfg" where
  "demo_ifcfg i p = \<lparr>ic_id = i, ic_addrs = [(IP6 p 0 0 1, 32)], ic_passive = False, ic_splitHorizon = True, ic_poisonReverse = False\<rparr>"

definition demo_rip :: ripng where
  "demo_rip = the (rip_initialize demo_rip_config [demo_ifcfg 1 0x20010001, demo_ifcfg 2 0x20010002]
     \<lparr>routeList = [], destCache = Map.empty, rt_next = 0\<rparr>)"

definition demo_rte :: "32 word \<Rightarrow> 8 word \<Rightarrow> rip_rte" where
  "demo_rte p m = \<lparr>rte_prefix = IP6 p 0 0 0, rte_tag = 0, rte_len = 32, rte_metric = m\<rparr>"

definition demo_response :: "int \<Rightarrow> 32 word \<Rightarrow> rip_rte list \<Rightarrow> rip_packet" where
  "demo_response i n rtes =
     \<lparr>pk_command = RIPngResponse, pk_rtes = rtes, pk_srcAddr = demo_hop n, pk_destAddr = IP6 0xFF020000 0 0 9,
      pk_srcPort = 521, pk_ttl = 255, pk_ifId = i\<rparr>"

text \<open>A neighbour on interface 2 has announced a network.\<close>

definition demo_learned :: ripng where
  "demo_learned = the (handleRIPngMessage demo_rip_config (demo_response 2 7 [demo_rte 0x20010003 2]) demo_rip)"

lemma demo_sorter: "route_sorter (rc_sort demo_rip_config)"
  using stable_sort.route_sorter_axioms by (simp add: demo_rip_config_def)

lemma demo_rip_init: "rip_initialize demo_rip_config [demo_ifcfg 1 0x20010001, demo_ifcfg 2 0x20010002]
     \<lparr>routeList = [], destCache = Map.empty, rt_next = 0\<rparr> = Some demo_rip"
proof -
  have "rip_initialize demo_rip_config [demo_ifcfg 1 0x20010001, demo_ifcfg 2 0x20010002]
     \<lparr>routeList = [], destCache = Map.empty, rt_next = 0\<rparr> \<noteq> None"
    by code_simp
  then show ?thesis by (auto simp: demo_rip_def)
qed

lemma demo_reachable: "rip_reachable demo_rip_config demo_rip"
  by (rule rip_reachable.init [OF _ demo_rip_init]) (simp add: table_before_def rt6_wf_def)

lemma demo_learned_step: "handleRIPngMessage demo_rip_config (demo_response 2 7 [demo_rte 0x20010003 2]) demo_rip = Some demo_learned"
proof -
  have "handleRIPngMessage demo_rip_config (demo_response 2 7 [demo_rte 0x20010003 2]) demo_rip \<noteq> None" by code_simp
  then show ?thesis by (auto simp: demo_learned_def)
qed

lemma demo_learned_reachable: "rip_reachable demo_rip_config demo_learned"
  by (rule rip_reachable.step [OF demo_reachable rip_step.receive [OF demo_learned_step]])

section \<open>Copies\<close>

text \<open>C3: in every state RIPng reaches, whatever messages, timers, interface changes and uses of the table by
  other modules came in whatever order, the IPv6 table is a faithful copy: an entry's copy is a route of the
  table with its destination, next hop and interface, and with its metric unless the entry is connected;
  a RIPng route of the table is the copy of one entry; a learned destination has one entry; an entry that is
  being deleted has no copy; and the number of routes is the size of the table.\<close>

theorem rip_copies_follow_table:
  assumes "route_sorter (rc_sort c)" and "rip_reachable c s"
  shows "(\<forall>e\<in>set (rp_table s). \<forall>i. re_copy e = Some i \<longrightarrow>
      (\<exists>r\<in>set (routeList (rp_rt s)). rt_id r = i \<and> rt_rip r = Some (re_id e) \<and> rt_prefix r = re_prefix e \<and>
         rt_length r = re_len e \<and> rt_nextHop r = re_nextHop e \<and> rt_ifId r = re_ifId e \<and>
         (re_nextHop e = UNSPECIFIED_ADDRESS \<or> rt_metric r = re_metric e))) \<and>
    (\<forall>r\<in>set (routeList (rp_rt s)). \<forall>k. rt_rip r = Some k \<longrightarrow> (\<exists>!e. e \<in> set (rp_table s) \<and> re_id e = k \<and> re_copy e = Some (rt_id r))) \<and>
    (\<forall>e\<in>set (rp_table s). re_nextHop e \<noteq> UNSPECIFIED_ADDRESS \<longrightarrow> getRoutingTableEntry (re_prefix e) (re_len e) s = Some e) \<and>
    (\<forall>e\<in>set (rp_table s). \<forall>gc t. re_gc e = Some gc \<and> tm_at gc = Some t \<longrightarrow> re_copy e = None) \<and>
    rp_numRoutes s = int (length (rp_table s))"
proof (intro conjI ballI allI impI)
  have inv: "rip_inv s" by (rule rip_reachable_inv [OF assms])
  then have wf: "rip_wf s" by (simp add: rip_inv_def)
  show "\<exists>r\<in>set (routeList (rp_rt s)). rt_id r = i \<and> rt_rip r = Some (re_id e) \<and> rt_prefix r = re_prefix e \<and>
         rt_length r = re_len e \<and> rt_nextHop r = re_nextHop e \<and> rt_ifId r = re_ifId e \<and>
         (re_nextHop e = UNSPECIFIED_ADDRESS \<or> rt_metric r = re_metric e)"
    if "e \<in> set (rp_table s)" "re_copy e = Some i" for e i
    using rip_wfD(4) [OF wf that(1)] that(2) unfolding copy_ok_def is_copy_def by blast
  show "\<exists>!e. e \<in> set (rp_table s) \<and> re_id e = k \<and> re_copy e = Some (rt_id r)"
    if r: "r \<in> set (routeList (rp_rt s))" and k: "rt_rip r = Some k" for r k
  proof -
    obtain e where e: "e \<in> set (rp_table s)" "re_id e = k" "re_copy e = Some (rt_id r)" by (rule copy_owner [OF wf r k])
    moreover have "x = e" if "x \<in> set (rp_table s)" "re_id x = k" for x
      using key_inj [OF rip_wfD(1) [OF wf] that(1) e(1)] that(2) e(2) by simp
    ultimately show ?thesis by blast
  qed
  show "getRoutingTableEntry (re_prefix e) (re_len e) s = Some e"
    if "e \<in> set (rp_table s)" "re_nextHop e \<noteq> UNSPECIFIED_ADDRESS" for e
    using lookup_learned [OF _ that] inv by (simp add: rip_inv_def)
  show "re_copy e = None" if "e \<in> set (rp_table s)" "re_gc e = Some gc \<and> tm_at gc = Some t" for e gc t
    using rip_wfD(5) [OF wf that(1)] that(2) by (auto simp: entry_ok_def timers_ok_def split: if_splits)
  show "rp_numRoutes s = int (length (rp_table s))" using inv by (simp add: rip_inv_def num_ok_def)
qed

lemma rip_copies_follow_table_witness:
  "rp_numRoutes demo_learned = 3 \<and> rp_numRoutes demo_learned = int (length (rp_table demo_learned)) \<and>
   map (\<lambda>r. (rt_rip r, rt_metric r)) (routeList (rp_rt demo_learned)) = [(Some 0, 1), (Some 1, 1), (Some 2, 3)]"
proof -
  have "rp_numRoutes demo_learned = int (length (rp_table demo_learned))"
    using rip_copies_follow_table [OF demo_sorter demo_learned_reachable] by blast
  moreover have "rp_numRoutes demo_learned = 3"
    "map (\<lambda>r. (rt_rip r, rt_metric r)) (routeList (rp_rt demo_learned)) = [(Some 0, 1), (Some 1, 1), (Some 2, 3)]" by code_simp+
  ultimately show ?thesis by simp
qed

section \<open>The distance-vector rule\<close>

text \<open>C2: RIPng implements the distance-vector rule. A valid response on an enabled interface does to the
  table of destinations, metrics, next hops and interfaces what the abstract rule says, announcement by
  announcement: the next hop's metric is always taken over, another router's only when it is better, an
  unknown destination is added. The handling fails exactly when an announcement betters a connected route.
  The timers, copies, flags and messages the handler deals with do not show.\<close>

theorem rip_refines_distance_vector:
  assumes srt: "route_sorter (rc_sort c)" and reach: "rip_reachable c s"
    and enabled: "getEnabledInterface (pk_ifId p) s \<noteq> None" and response: "pk_command p = RIPngResponse"
    and valid: "checkMessageValidity c p"
  shows "map_option rip_abs (handleRIPngMessage c p s) =
    dv_receive_all c (pk_ifId p) (pk_srcAddr p) (pk_rtes p) (rip_abs s)"
proof -
  have h: "handleRIPngMessage c p s = handleResponse c p s"
    using enabled response by (auto simp: handleRIPngMessage_def)
  show ?thesis unfolding h using response_refines [OF srt rip_reachable_inv [OF srt reach] valid] by (auto split: option.splits)
qed

lemma rip_refines_distance_vector_witness:
  "map_option rip_abs (handleRIPngMessage demo_rip_config (demo_response 2 7 [demo_rte 0x20010003 2]) demo_rip) =
     dv_receive_all demo_rip_config 2 (demo_hop 7) [demo_rte 0x20010003 2] (rip_abs demo_rip) \<and>
   map (\<lambda>r. (dv_metric r, dv_ifId r)) (rip_abs demo_learned) = [(1, 1), (1, 2), (3, 2)]"
proof -
  have "getEnabledInterface (pk_ifId (demo_response 2 7 [demo_rte 0x20010003 2])) demo_rip \<noteq> None"
    "checkMessageValidity demo_rip_config (demo_response 2 7 [demo_rte 0x20010003 2])" by code_simp+
  then have "map_option rip_abs (handleRIPngMessage demo_rip_config (demo_response 2 7 [demo_rte 0x20010003 2]) demo_rip) =
     dv_receive_all demo_rip_config 2 (demo_hop 7) [demo_rte 0x20010003 2] (rip_abs demo_rip)"
    using rip_refines_distance_vector [OF demo_sorter demo_reachable, of "demo_response 2 7 [demo_rte 0x20010003 2]"]
    by (simp add: demo_response_def)
  moreover have "map (\<lambda>r. (dv_metric r, dv_ifId r)) (rip_abs demo_learned) = [(1, 1), (1, 2), (3, 2)]" by code_simp
  ultimately show ?thesis by blast
qed

section \<open>Updates\<close>

lemma getRTEs_filter:
  "getRTEs c i changed es =
     map (\<lambda>e. if ri_splitHorizon i \<and> re_ifId e = ri_id i then (makeRTE e)\<lparr>rte_metric := word_of_int (rc_infinity c)\<rparr> else makeRTE e)
       (filter (\<lambda>e. (\<not> changed \<or> re_change e) \<and> (\<not> (ri_splitHorizon i \<and> re_ifId e = ri_id i) \<or> ri_poisonReverse i)) es)"
  by (induction es) (auto simp: Let_def)

text \<open>C31: updates obey split horizon. A regular update sends one message out of every enabled interface that
  is not passive and has something to tell, none elsewhere, with the entries in table order; on an interface
  with split horizon the routes that lead through it are left out or, with poisoned reverse, announced as
  unreachable. Afterwards no entry counts as changed.\<close>

theorem rip_update_split_horizon:
  "sendRegularUpdateMessage c s =
     s\<lparr>rp_out := rp_out s @
         map (\<lambda>i. \<lparr>out_command = RIPngResponse,
             out_rtes = map (\<lambda>e. if ri_splitHorizon i \<and> re_ifId e = ri_id i
                                 then (makeRTE e)\<lparr>rte_metric := word_of_int (rc_infinity c)\<rparr> else makeRTE e)
               (filter (\<lambda>e. if ri_splitHorizon i \<and> re_ifId e = ri_id i then ri_poisonReverse i else True) (rp_table s)),
             out_addr = rc_address c, out_port = rc_port c, out_if = ri_id i, out_global = False\<rparr>)
           (filter (\<lambda>i. \<not> ri_passive i \<and>
              filter (\<lambda>e. if ri_splitHorizon i \<and> re_ifId e = ri_id i then ri_poisonReverse i else True) (rp_table s) \<noteq> [])
             (rp_ints s)),
       rp_table := map (\<lambda>e. e\<lparr>re_change := False\<rparr>) (rp_table s), rp_send := False\<rparr>"
proof -
  have rtes: "getRTEs c i False es =
     map (\<lambda>e. if ri_splitHorizon i \<and> re_ifId e = ri_id i then (makeRTE e)\<lparr>rte_metric := word_of_int (rc_infinity c)\<rparr> else makeRTE e)
       (filter (\<lambda>e. if ri_splitHorizon i \<and> re_ifId e = ri_id i then ri_poisonReverse i else True) es)" for i es
    by (simp add: getRTEs_filter if_bool_eq_conj) (auto intro: arg_cong [of _ _ "map _"] filter_cong)
  have "List.map_filter (\<lambda>i. if ri_passive i then None else makeUpdateMessageForInterface c i False s) is =
        map (\<lambda>i. \<lparr>out_command = RIPngResponse, out_rtes = getRTEs c i False (rp_table s), out_addr = rc_address c,
             out_port = rc_port c, out_if = ri_id i, out_global = False\<rparr>)
          (filter (\<lambda>i. \<not> ri_passive i \<and> getRTEs c i False (rp_table s) \<noteq> []) is)" for "is"
    by (induction "is") (auto simp: makeUpdateMessageForInterface_def split: list.split)
  then show ?thesis
    by (simp add: sendRegularUpdateMessage_def clearRouteChangeFlags_def update_messages_def rtes del: filter_empty_conv)
qed

section \<open>The life of a route\<close>

text \<open>C13: a route that is no longer announced disappears in two steps. When its timeout comes, its metric
  becomes infinity, it leaves the IPv6 table at once and its removal from the RIPng table is scheduled; when
  that time comes and nothing else has happened, the entry, and nothing else, is gone.\<close>

theorem rip_route_lifetime:
  assumes srt: "route_sorter (rc_sort c)" and reach: "rip_reachable c s"
    and e: "e \<in> set (rp_table s)" and tm: "re_timer e = Some tm"
  shows "\<exists>s1 e1 s2. handleTimer c (Route_Timeout (re_id e)) s = Some s1 \<and>
    e1 \<in> set (rp_table s1) \<and> re_id e1 = re_id e \<and> re_metric e1 = rc_infinity c \<and> re_change e1 \<and>
    map_option tm_at (re_gc e1) = Some (Some (rp_now s + rc_gc c)) \<and>
    Some (re_id e) \<notin> rt_rip ` set (routeList (rp_rt s1)) \<and>
    handleTimer c (Route_Garbage (re_id e)) (s1\<lparr>rp_now := rp_now s + rc_gc c\<rparr>) = Some s2 \<and>
    map re_id (rp_table s2) = filter (\<lambda>i. i \<noteq> re_id e) (map re_id (rp_table s1)) \<and> rp_rt s2 = rp_rt s1"
proof -
  have inv: "rip_inv s" by (rule rip_reachable_inv [OF srt reach])
  obtain s1 e1 where s1: "handleTimer c (Route_Timeout (re_id e)) s = Some s1" "rip_inv s1"
    "e1 \<in> set (rp_table s1)" "re_id e1 = re_id e" "re_metric e1 = rc_infinity c" "re_change e1" "re_copy e1 = None"
    "map_option tm_at (re_gc e1) = Some (Some (rp_now s + rc_gc c))"
    using timeout_deletes [OF inv e tm, of c] by blast
  have wf1: "rip_wf s1" using s1(2) by (simp add: rip_inv_def)
  have "rt_rip r \<noteq> Some (re_id e)" if r: "r \<in> set (routeList (rp_rt s1))" for r
  proof
    assume "rt_rip r = Some (re_id e)"
    then obtain x where x: "x \<in> set (rp_table s1)" "re_id x = re_id e1" "re_copy x = Some (rt_id r)"
      using copy_owner [OF wf1 r] s1(4) by metis
    then show False using key_inj [OF rip_wfD(1) [OF wf1] x(1) s1(3) x(2)] s1(7) by simp
  qed
  then have gone: "Some (re_id e) \<notin> rt_rip ` set (routeList (rp_rt s1))" by force
  have "rip_inv (s1\<lparr>rp_now := rp_now s + rc_gc c\<rparr>)" using s1(2) by (simp add: rip_inv_def num_ok_def)
  moreover obtain gc where "re_gc e1 = Some gc" "tm_at gc = Some (rp_now s + rc_gc c)" using s1(8) by auto
  ultimately obtain s2 where "handleTimer c (Route_Garbage (re_id e)) (s1\<lparr>rp_now := rp_now s + rc_gc c\<rparr>) = Some s2"
    "map re_id (rp_table s2) = filter (\<lambda>i. i \<noteq> re_id e) (map re_id (rp_table s1))" "rp_rt s2 = rp_rt s1"
    using garbage_removes [of "s1\<lparr>rp_now := rp_now s + rc_gc c\<rparr>" e1 gc _ c] s1(3,4) by auto
  then show ?thesis using s1 gone by blast
qed

text \<open>The entry the neighbour's announcement made.\<close>

definition demo_entry :: rip_entry where
  "demo_entry = last (rp_table demo_learned)"

lemma demo_entry_in: "demo_entry \<in> set (rp_table demo_learned)"
proof -
  have "rp_table demo_learned \<noteq> []" by code_simp
  then show ?thesis by (simp add: demo_entry_def)
qed

lemma demo_entry_timer: "re_timer demo_entry = Some \<lparr>tm_prefix = IP6 0x20010003 0 0 0, tm_len = 32, tm_at = Some 180\<rparr>"
  by code_simp

lemma rip_route_lifetime_witness:
  "\<exists>s1. handleTimer demo_rip_config (Route_Timeout 2) (demo_learned\<lparr>rp_now := 180\<rparr>) = Some s1 \<and>
     Some 2 \<notin> rt_rip ` set (routeList (rp_rt s1))"
proof -
  have "rip_reachable demo_rip_config (demo_learned\<lparr>rp_now := 180\<rparr>)"
  proof (rule rip_reachable.step [OF demo_learned_reachable rip_step.time])
    show "rp_now demo_learned \<le> 180" by code_simp
  qed
  moreover have "demo_entry \<in> set (rp_table (demo_learned\<lparr>rp_now := 180\<rparr>))" using demo_entry_in by simp
  moreover have "re_id demo_entry = 2" by code_simp
  ultimately show ?thesis using rip_route_lifetime [OF demo_sorter _ _ demo_entry_timer, of "demo_learned\<lparr>rp_now := 180\<rparr>"] by metis
qed

section \<open>Where the handlers go wrong\<close>

lemma one_response:
  assumes enabled: "getEnabledInterface (pk_ifId p) s \<noteq> None" and response: "pk_command p = RIPngResponse"
    and valid: "checkMessageValidity c p" and rtes: "pk_rtes p = rte # rtes"
    and e: "getRoutingTableEntry (rte_prefix rte) (sint (rte_len rte)) s = Some e"
  shows "handleRIPngMessage c p s =
    map_option (end_batch c) (do { s1 \<leftarrow> updateRoutingTableEntry c (re_id e) rte (pk_ifId p) (pk_srcAddr p) (s\<lparr>rp_block := True\<rparr>);
      process_rtes c rtes (pk_ifId p) (pk_srcAddr p) s1 })"
proof -
  have "getRoutingTableEntry (rte_prefix rte) (sint (rte_len rte)) (s\<lparr>rp_block := True\<rparr>) = Some e"
    using e by (simp add: getRoutingTableEntry_def)
  then show ?thesis
    using enabled response valid rtes
    by (auto simp: handleRIPngMessage_def handleResponse_def processRTEs_def processRTE_def)
qed

text \<open>a neighbour's announcement ends the simulation when it betters a connected network, as it does
  after the interface of that network went down: the network's entry stays in the table with metric
  infinity and no timers, and the update restarts its timer, whose assertion fails.\<close>

theorem rip_connected_down_aborts:
  assumes srt: "route_sorter (rc_sort c)" and reach: "rip_reachable c s"
    and enabled: "getEnabledInterface (pk_ifId p) s \<noteq> None" and response: "pk_command p = RIPngResponse"
    and valid: "checkMessageValidity c p" and rtes: "pk_rtes p = rte # rtes"
    and e: "getRoutingTableEntry (rte_prefix rte) (sint (rte_len rte)) s = Some e"
    and connected: "re_nextHop e = UNSPECIFIED_ADDRESS" and better: "received_metric c rte < re_metric e"
  shows "handleRIPngMessage c p s = None"
proof -
  have wf: "rip_wf s" using rip_reachable_inv [OF srt reach] by (simp add: rip_inv_def)
  have in_table: "e \<in> set (rp_table s)" using e by (auto simp: getRoutingTableEntry_def dest: find_Some_in)
  have "rip_entry_at (re_id e) (s\<lparr>rp_block := True\<rparr>) = Some e"
    using in_table rip_entry_at_iff [OF wf] by (simp add: rip_entry_at_def)
  moreover have "re_timer e = None" using rip_wfD(5) [OF wf in_table] connected by (simp add: entry_ok_def timers_ok_def)
  moreover have "pk_srcAddr p \<noteq> UNSPECIFIED_ADDRESS"
    using linklocal_specified [of "pk_srcAddr p"] valid by (simp add: checkMessageValidity_def)
  ultimately have "updateRoutingTableEntry c (re_id e) rte i (pk_srcAddr p) (s\<lparr>rp_block := True\<rparr>) = None" for i
    using connected better by (auto simp: updateRoutingTableEntry_def Let_def)
  then show ?thesis using one_response [OF enabled response valid rtes e] by simp
qed

definition demo_down :: ripng where
  "demo_down = the (rip_interfaceDown demo_rip_config 1 demo_rip)"

lemma rip_connected_down_aborts_witness:
  "handleRIPngMessage demo_rip_config (demo_response 2 7 [demo_rte 0x20010001 1]) demo_down = None"
proof -
  have "rip_interfaceDown demo_rip_config 1 demo_rip \<noteq> None" by code_simp
  then have "rip_reachable demo_rip_config demo_down"
    by (intro rip_reachable.step [OF demo_reachable rip_step.down [of _ 1]]) (auto simp: demo_down_def)
  note aborts = rip_connected_down_aborts [OF demo_sorter this, of "demo_response 2 7 [demo_rte 0x20010001 1]" "demo_rte 0x20010001 1" "[]" "hd (rp_table demo_down)"]
  show ?thesis by (rule aborts) (code_simp+)
qed

text \<open>C32: a route that its own next hop withdraws and announces again is lost. The announcement restores the
  metric of the entry, but neither stops the removal that is under way nor puts the route back into the
  IPv6 table; when the removal's time comes the entry is deleted, although it has been announced.\<close>

theorem rip_revived_route_lost:
  assumes srt: "route_sorter (rc_sort c)" and reach: "rip_reachable c s"
    and enabled: "getEnabledInterface (pk_ifId p) s \<noteq> None" and response: "pk_command p = RIPngResponse"
    and valid: "checkMessageValidity c p" and rtes: "pk_rtes p = [rte]"
    and e: "getRoutingTableEntry (rte_prefix rte) (sint (rte_len rte)) s = Some e"
    and hop: "re_nextHop e = pk_srcAddr p" and gc: "re_gc e = Some gc" "tm_at gc = Some t"
    and metric: "received_metric c rte \<noteq> re_metric e" "received_metric c rte \<noteq> rc_infinity c"
  shows "\<exists>s1 e1 s2. handleRIPngMessage c p s = Some s1 \<and>
    e1 \<in> set (rp_table s1) \<and> re_id e1 = re_id e \<and> re_metric e1 = received_metric c rte \<and>
    re_copy e1 = None \<and> re_gc e1 = Some gc \<and> rp_rt s1 = rp_rt s \<and>
    handleTimer c (Route_Garbage (re_id e)) (s1\<lparr>rp_now := t\<rparr>) = Some s2 \<and> re_id e \<notin> re_id ` set (rp_table s2)"
proof -
  have inv: "rip_inv s" by (rule rip_reachable_inv [OF srt reach])
  then have wf: "rip_wf s" by (simp add: rip_inv_def)
  have in_table: "e \<in> set (rp_table s)" using e by (auto simp: getRoutingTableEntry_def dest: find_Some_in)
  have at: "rip_entry_at (re_id e) (s\<lparr>rp_block := True\<rparr>) = Some e"
    using in_table rip_entry_at_iff [OF wf] by (simp add: rip_entry_at_def)
  have none: "re_copy e = None" using rip_wfD(5) [OF wf in_table] gc by (auto simp: entry_ok_def timers_ok_def split: if_splits)
  obtain tm where tm: "re_timer e = Some tm" using rip_wfD(5) [OF wf in_table] gc(1) by (auto simp: entry_ok_def timers_ok_def split: if_splits)
  let ?f = "\<lambda>e. e\<lparr>re_timer := Some (tm\<lparr>tm_at := Some (rp_now s + rc_timeout c)\<rparr>), re_metric := received_metric c rte, re_change := True\<rparr>"
  let ?s = "(rip_modify (re_id e) ?f (s\<lparr>rp_block := True\<rparr>))\<lparr>rp_send := True\<rparr>"
  have "updateRoutingTableEntry c (re_id e) rte (pk_ifId p) (pk_srcAddr p) (s\<lparr>rp_block := True\<rparr>) = Some ?s"
    using at hop tm none metric
    by (simp add: updateRoutingTableEntry_def rip_modify_modify rip_modify_route_def Let_def)
  then have res: "handleRIPngMessage c p s = Some (end_batch c ?s)"
    using one_response [OF enabled response valid rtes e] by simp
  have in_mod: "?f e \<in> set (rp_table ?s)" using in_table by (force simp: rip_modify_def)
  have sent: "\<exists>b. x\<lparr>re_change := b\<rparr> \<in> set (rp_table (end_batch c u))" if "x \<in> set (rp_table u)" for x u
  proof -
    have "rp_table (end_batch c u) = rp_table u \<or> rp_table (end_batch c u) = map (\<lambda>e. e\<lparr>re_change := False\<rparr>) (rp_table u)"
      by (simp add: end_batch_def sendTriggeredUpdateMessage_def clearRouteChangeFlags_def Let_def)
    moreover have "x\<lparr>re_change := re_change x\<rparr> = x" by simp
    ultimately show ?thesis using that by (auto intro: exI [of _ False] exI [of _ "re_change x"])
  qed
  obtain b where b: "(?f e)\<lparr>re_change := b\<rparr> \<in> set (rp_table (end_batch c ?s))" using sent [OF in_mod] by blast
  obtain e1 where e1: "e1 \<in> set (rp_table (end_batch c ?s))" "re_id e1 = re_id e" "re_metric e1 = received_metric c rte"
    "re_copy e1 = None" "re_gc e1 = Some gc"
    by (rule that [OF b]) (simp_all add: none gc(1))
  have "rp_rt (end_batch c ?s) = rp_rt s"
    by (simp add: end_batch_def sendTriggeredUpdateMessage_def clearRouteChangeFlags_def Let_def rip_modify_def)
  moreover have "rip_inv (end_batch c ?s)" using receive_inv [OF srt inv res] by simp
  then have inv2: "rip_inv ((end_batch c ?s)\<lparr>rp_now := t\<rparr>)" by (simp add: rip_inv_def num_ok_def)
  have "e1 \<in> set (rp_table ((end_batch c ?s)\<lparr>rp_now := t\<rparr>))" using e1(1) by simp
  from garbage_removes [OF inv2 this e1(5) gc(2), of c] obtain s2 where
    s2: "handleTimer c (Route_Garbage (re_id e)) ((end_batch c ?s)\<lparr>rp_now := t\<rparr>) = Some s2"
      "map re_id (rp_table s2) = filter (\<lambda>i. i \<noteq> re_id e) (map re_id (rp_table (end_batch c ?s)))"
    using e1(2) by auto
  have "re_id e \<notin> set (map re_id (rp_table s2))" unfolding s2(2) by simp
  then have "re_id e \<notin> re_id ` set (rp_table s2)" by simp
  ultimately show ?thesis using res e1 s2(1) by blast
qed

definition demo_withdrawn :: ripng where
  "demo_withdrawn = the (handleRIPngMessage demo_rip_config (demo_response 2 7 [demo_rte 0x20010003 16]) demo_learned)"

lemma rip_revived_route_lost_witness:
  "\<exists>s1 s2. handleRIPngMessage demo_rip_config (demo_response 2 7 [demo_rte 0x20010003 5]) demo_withdrawn = Some s1 \<and>
     handleTimer demo_rip_config (Route_Garbage 2) (s1\<lparr>rp_now := 120\<rparr>) = Some s2 \<and> 2 \<notin> re_id ` set (rp_table s2)"
proof -
  have "handleRIPngMessage demo_rip_config (demo_response 2 7 [demo_rte 0x20010003 16]) demo_learned \<noteq> None" by code_simp
  then have "rip_reachable demo_rip_config demo_withdrawn"
    by (intro rip_reachable.step [OF demo_learned_reachable rip_step.receive [of _ "demo_response 2 7 [demo_rte 0x20010003 16]"]])
      (auto simp: demo_withdrawn_def)
  note lost = rip_revived_route_lost [OF demo_sorter this, of "demo_response 2 7 [demo_rte 0x20010003 5]" "demo_rte 0x20010003 5"
      "last (rp_table demo_withdrawn)" "the (re_gc (last (rp_table demo_withdrawn)))" 120]
  have "re_id (last (rp_table demo_withdrawn)) = 2" by code_simp
  moreover have "\<exists>s1 e1 s2. handleRIPngMessage demo_rip_config (demo_response 2 7 [demo_rte 0x20010003 5]) demo_withdrawn = Some s1 \<and>
    e1 \<in> set (rp_table s1) \<and> re_id e1 = re_id (last (rp_table demo_withdrawn)) \<and> re_metric e1 = received_metric demo_rip_config (demo_rte 0x20010003 5) \<and>
    re_copy e1 = None \<and> re_gc e1 = Some (the (re_gc (last (rp_table demo_withdrawn)))) \<and> rp_rt s1 = rp_rt demo_withdrawn \<and>
    handleTimer demo_rip_config (Route_Garbage (re_id (last (rp_table demo_withdrawn)))) (s1\<lparr>rp_now := 120\<rparr>) = Some s2 \<and>
    re_id (last (rp_table demo_withdrawn)) \<notin> re_id ` set (rp_table s2)"
    by (rule lost) (code_simp+)
  ultimately show ?thesis by metis
qed

text \<open>a static route that is removed is not replaced by the route RIPng knows to the same network. RIPng is
  asked while the static route is still in the table, whose better distance makes the table refuse the RIPng
  route; so the removal takes the static route away and installs nothing.\<close>

theorem rip_removed_route_not_replaced:
  assumes reach: "route_sorter (rc_sort c)" "rip_reachable c s"
    and q: "rt6_findRoute (rt_prefix q) (rt_length q) (rp_rt s) = Some q" "rt_rip q = None" "ad_number (rt_adminDist q) < ad_number RIP"
    and e: "getRoutingTableEntry (rt_prefix q) (rt_length q) s = Some e"
  shows "rip_removeRoute c (rt_id q) s = Some (s\<lparr>rp_rt := rt6_erase (rt_id q) (rp_rt s)\<rparr>)"
proof -
  have wf: "rip_wf s" using rip_reachable_inv [OF reach] by (simp add: rip_inv_def)
  have in_table: "e \<in> set (rp_table s)" and key: "re_prefix e = rt_prefix q" "re_len e = rt_length q"
    using e by (auto simp: getRoutingTableEntry_def dest: find_Some_in)
  have at: "rip_entry_at (re_id e) s = Some e" using in_table by (simp add: rip_entry_at_iff [OF wf])
  have len: "to_short (re_len e) = re_len e" using rip_wfD(5) [OF wf in_table] by (simp add: entry_ok_def)
  have "q \<in> set (routeList (rp_rt s))" using q(1) by (auto simp: rt6_findRoute_def dest: find_Some_in)
  moreover have "distinct (map rt_id (routeList (rp_rt s)))" using rip_wfD(2) [OF wf] by (simp add: rt6_wf_def)
  ultimately have find: "rt6_find (rt_id q) (rp_rt s) = Some q" by (simp add: rt6_find_def find_by_key)
  have "rt6_prepareForAddRoute (copy_route e 0) (rp_rt s) = Refuse"
    using q len key by (auto simp: rt6_prepareForAddRoute_def copy_route_def)
  then have "addRoutingTableEntryToGlobalRT c (re_id e) s = Some s"
    using at by (subst addRoutingTableEntryToGlobalRT.simps) simp
  then have "rip_routeDeleted c q s = Some s" using q(2) e by (simp add: rip_routeDeleted_def)
  then show ?thesis using find by (simp add: rip_removeRoute_def rip_erase_route_def)
qed

text \<open>A static route to the network the neighbour announces, older than the announcement.\<close>

definition demo_static :: ripng where
  "demo_static = the (handleRIPngMessage demo_rip_config (demo_response 2 7 [demo_rte 0x20010003 2])
     (demo_rip\<lparr>rp_rt := rt6_addStaticRoute stable_route_sort (IP6 0x20010003 0 0 0) 32 1 (demo_hop 9) 0 (rp_rt demo_rip)\<rparr>))"

lemma rip_removed_route_not_replaced_witness:
  "\<exists>s'. rip_removeRoute demo_rip_config 2 demo_static = Some s' \<and> rp_table s' = rp_table demo_static \<and>
     rt6_findRoute (IP6 0x20010003 0 0 0) 32 (rp_rt demo_static) \<noteq> None \<and>
     rt6_findRoute (IP6 0x20010003 0 0 0) 32 (rp_rt s') = None"
proof -
  let ?s = "demo_rip\<lparr>rp_rt := rt6_addStaticRoute stable_route_sort (IP6 0x20010003 0 0 0) 32 1 (demo_hop 9) 0 (rp_rt demo_rip)\<rparr>"
  have before: "rip_reachable demo_rip_config ?s"
    using rip_reachable.step [OF demo_reachable rip_step.other [OF rt6_other.static]] by (simp add: demo_rip_config_def)
  have "handleRIPngMessage demo_rip_config (demo_response 2 7 [demo_rte 0x20010003 2]) ?s \<noteq> None" by code_simp
  then have received: "handleRIPngMessage demo_rip_config (demo_response 2 7 [demo_rte 0x20010003 2]) ?s = Some demo_static"
    by (simp only: demo_static_def option.collapse not_False_eq_True)
  have "rip_reachable demo_rip_config demo_static" by (rule rip_reachable.step [OF before rip_step.receive [OF received]])
  note r = rip_removed_route_not_replaced [OF demo_sorter this, of "the (rt6_findRoute (IP6 0x20010003 0 0 0) 32 (rp_rt demo_static))"
      "the (getRoutingTableEntry (IP6 0x20010003 0 0 0) 32 demo_static)"]
  have i: "rt_id (the (rt6_findRoute (IP6 0x20010003 0 0 0) 32 (rp_rt demo_static))) = 2" by code_simp
  have "rip_removeRoute demo_rip_config (rt_id (the (rt6_findRoute (IP6 0x20010003 0 0 0) 32 (rp_rt demo_static)))) demo_static =
      Some (demo_static\<lparr>rp_rt := rt6_erase (rt_id (the (rt6_findRoute (IP6 0x20010003 0 0 0) 32 (rp_rt demo_static)))) (rp_rt demo_static)\<rparr>)"
    by (rule r) (code_simp+)
  moreover have "rt6_findRoute (IP6 0x20010003 0 0 0) 32 (rp_rt demo_static) \<noteq> None"
    "rt6_findRoute (IP6 0x20010003 0 0 0) 32 (rt6_erase 2 (rp_rt demo_static)) = None" by code_simp+
  ultimately show ?thesis by (simp add: i)
qed

section \<open>Announced metrics\<close>

text \<open>The metric of an announcement is a signed byte: with infinity 16, up to 15 it counts one more, from 16 to
  127 as it is, and from 128 on it is what lacks to 255, negative or, for 255 itself, zero.\<close>

lemma sint_byte: "sint w = (if uint w \<le> 127 then uint w else uint w - 256)" for w :: "8 word"
proof -
  have u: "uint w < 256" "0 \<le> uint w" using uint_lt2p [of w] by simp_all
  have "sint w = signed_take_bit 7 (uint w)" by (simp add: sint_uint)
  also have "\<dots> = (uint w + 128) mod 256 - 128" by (simp add: signed_take_bit_eq_take_bit_shift take_bit_eq_mod)
  also have "\<dots> = (if uint w \<le> 127 then uint w else uint w - 256)"
  proof (cases "uint w \<le> 127")
    case False
    then have "(uint w + 128) mod 256 = uint w + 128 - 256" using u by (simp add: mod_pos_geq mod_pos_pos_trivial)
    then show ?thesis using False by simp
  qed (use u in \<open>simp add: mod_pos_pos_trivial\<close>)
  finally show ?thesis .
qed

lemma received_metric_byte:
  assumes "rc_infinity c = 16"
  shows "received_metric c rte =
      (if uint (rte_metric rte) \<le> 15 then uint (rte_metric rte) + 1
       else if uint (rte_metric rte) \<le> 127 then uint (rte_metric rte) else uint (rte_metric rte) - 255)"
proof -
  define u where "u = uint (rte_metric rte)"
  have "u < 256" "0 \<le> u" using uint_lt2p [of "rte_metric rte"] by (simp_all add: u_def)
  moreover have "sint (rte_metric rte) = (if u \<le> 127 then u else u - 256)" by (simp add: sint_byte u_def)
  ultimately show ?thesis using assms by (auto simp: received_metric_def Let_def u_def [symmetric])
qed

lemma check_large_metric:
  assumes "128 \<le> uint (rte_metric rte)"
  shows "checkAndLogRTE rte = isGlobal (rte_prefix rte)"
  using assms uint_lt2p [of "rte_metric rte"] uint_lt2p [of "rte_len rte"] by (auto simp: checkAndLogRTE_def sint_byte)

text \<open>An announcement wins a destination that is unknown, that the announcer had already, or whose route it
  betters; it leaves the announcer as next hop.\<close>

abbreviation dv_at :: "ip6 \<Rightarrow> int \<Rightarrow> dv_route \<Rightarrow> bool" where
  "dv_at p l r \<equiv> dv_prefix r = p \<and> dv_len r = l"

lemma dv_receive_wins:
  assumes "\<And>r. find (dv_at p l) rs = Some r \<Longrightarrow> dv_nextHop r = src \<or> dv_nextHop r \<noteq> UNSPECIFIED_ADDRESS \<and> m < dv_metric r"
  shows "\<exists>rs' r'. dv_receive i src p l m rs = Some rs' \<and> find (dv_at p l) rs' = Some r' \<and> dv_nextHop r' = src \<and> dv_metric r' = m \<and>
    ((\<forall>r. find (dv_at p l) rs = Some r \<longrightarrow> dv_nextHop r \<noteq> src) \<longrightarrow> dv_ifId r' = i)"
  using assms
proof (induction rs)
  case (Cons r rs)
  show ?case
  proof (cases "dv_at p l r")
    case True
    then show ?thesis using Cons.prems [of r] by auto
  next
    case False
    then have f: "find (dv_at p l) (r # xs) = find (dv_at p l) xs" "dv_receive i src p l m (r # xs) = map_option ((#) r) (dv_receive i src p l m xs)" for xs
      by auto
    obtain rs1 r1 where "dv_receive i src p l m rs = Some rs1" "find (dv_at p l) rs1 = Some r1" "dv_nextHop r1 = src" "dv_metric r1 = m"
      "(\<forall>r. find (dv_at p l) rs = Some r \<longrightarrow> dv_nextHop r \<noteq> src) \<longrightarrow> dv_ifId r1 = i"
      using Cons.IH Cons.prems unfolding f by blast
    then show ?thesis unfolding f by (intro exI [of _ "r # rs1"] exI [of _ r1]) (use False f in auto)
  qed
qed simp

lemma find_dv_of: "find (dv_at p l) (map dv_of tbl) = map_option dv_of (find (\<lambda>e. re_prefix e = p \<and> re_len e = l) tbl)"
  by (induction tbl) (auto simp: dv_of_def)

lemma lookup_abs: "map_option dv_of (getRoutingTableEntry p l s) = find (dv_at p l) (rip_abs s)"
  by (simp add: getRoutingTableEntry_def rip_abs_def find_dv_of)

text \<open>C34: an announcement with a metric byte of 128 or more takes over the destination. The module takes a valid
  response, whatever its check of the entry says (and the check objects to a prefix only, not to such a metric):
  afterwards the route to the destination leads to the announcer, with the byte less 255 as its metric, at most
  zero, whether the destination was unknown, was known from the announcer or was known from another router with a
  metric of one or more; unless it was the announcer's already it leads through the interface the response came in
  by. What the router announces itself of the route has the next byte as its metric, so up to 254 the mistake
  travels on. The theorem is about a configured infinity of 16 and destinations that are not connected.\<close>

theorem rip_unchecked_metric_wins:
  assumes srt: "route_sorter (rc_sort c)" and reach: "rip_reachable c s" and inf: "rc_infinity c = 16"
    and enabled: "getEnabledInterface (pk_ifId p) s \<noteq> None" and response: "pk_command p = RIPngResponse"
    and valid: "checkMessageValidity c p" and rtes: "pk_rtes p = [rte]" and large: "128 \<le> uint (rte_metric rte)"
    and old: "\<forall>e. getRoutingTableEntry (rte_prefix rte) (sint (rte_len rte)) s = Some e \<longrightarrow>
      re_nextHop e = pk_srcAddr p \<or> re_nextHop e \<noteq> UNSPECIFIED_ADDRESS \<and> 1 \<le> re_metric e"
  shows "\<exists>s' e'. handleRIPngMessage c p s = Some s' \<and> getRoutingTableEntry (rte_prefix rte) (sint (rte_len rte)) s' = Some e' \<and>
    re_nextHop e' = pk_srcAddr p \<and> re_metric e' = uint (rte_metric rte) - 255 \<and> re_metric e' \<le> 0 \<and>
    ((\<forall>e. getRoutingTableEntry (rte_prefix rte) (sint (rte_len rte)) s = Some e \<longrightarrow> re_nextHop e \<noteq> pk_srcAddr p) \<longrightarrow> re_ifId e' = pk_ifId p) \<and>
    rte_metric (makeRTE e') = rte_metric rte + 1 \<and> checkAndLogRTE rte = isGlobal (rte_prefix rte)"
proof -
  let ?p = "rte_prefix rte" and ?l = "sint (rte_len rte)" and ?src = "pk_srcAddr p"
  have m: "received_metric c rte = uint (rte_metric rte) - 255" "uint (rte_metric rte) - 255 \<le> 0"
    using received_metric_byte [OF inf, of rte] large uint_lt2p [of "rte_metric rte"] by simp_all
  have "dv_nextHop r = ?src \<or> dv_nextHop r \<noteq> UNSPECIFIED_ADDRESS \<and> received_metric c rte < dv_metric r"
    if "find (dv_at ?p ?l) (rip_abs s) = Some r" for r
    using that old m unfolding lookup_abs [symmetric] by (force simp: dv_of_def)
  from dv_receive_wins [of ?p ?l "rip_abs s", OF this, of "pk_ifId p"] obtain rs' r' where
    r': "dv_receive (pk_ifId p) ?src ?p ?l (received_metric c rte) (rip_abs s) = Some rs'" "find (dv_at ?p ?l) rs' = Some r'"
      "dv_nextHop r' = ?src" "dv_metric r' = received_metric c rte"
      "(\<forall>r. find (dv_at ?p ?l) (rip_abs s) = Some r \<longrightarrow> dv_nextHop r \<noteq> ?src) \<longrightarrow> dv_ifId r' = pk_ifId p" by blast
  have h: "handleRIPngMessage c p s = handleResponse c p s" using enabled response by (auto simp: handleRIPngMessage_def)
  obtain s' where s': "handleRIPngMessage c p s = Some s'" "rip_abs s' = rs'"
    using response_refines [OF srt rip_reachable_inv [OF srt reach] valid] r'(1) rtes h by auto
  obtain e' where e': "getRoutingTableEntry ?p ?l s' = Some e'" "dv_of e' = r'"
    using lookup_abs [of ?p ?l s'] s'(2) r'(2) by auto
  then have f: "re_nextHop e' = ?src" "re_metric e' = uint (rte_metric rte) - 255" "re_ifId e' = dv_ifId r'"
    using r'(3,4) m(1) by (auto simp: dv_of_def)
  have "re_ifId e' = pk_ifId p" if "\<forall>e. getRoutingTableEntry ?p ?l s = Some e \<longrightarrow> re_nextHop e \<noteq> ?src"
    using r'(5) f(3) that unfolding lookup_abs [symmetric] by (auto simp: dv_of_def)
  moreover have "rte_metric (makeRTE e') = rte_metric rte + 1"
  proof -
    have "word_of_int (uint (rte_metric rte) - 255) = rte_metric rte - word_of_int 255" by (simp only: of_int_diff word_of_int_uint)
    then show ?thesis by (simp add: makeRTE_def f(2))
  qed
  ultimately show ?thesis using s'(1) e'(1) f m(2) check_large_metric [OF large] by (intro exI [of _ s'] exI [of _ e']) simp
qed

text \<open>Router 9 on interface 1 takes over the network that router 7 on interface 2 announced.\<close>

lemma rip_unchecked_metric_wins_witness:
  "\<exists>s' e'. handleRIPngMessage demo_rip_config (demo_response 1 9 [demo_rte 0x20010003 200]) demo_learned = Some s' \<and>
     getRoutingTableEntry (IP6 0x20010003 0 0 0) 32 s' = Some e' \<and> re_nextHop e' = demo_hop 9 \<and> re_ifId e' = 1 \<and> re_metric e' = - 55 \<and>
     map_option re_nextHop (getRoutingTableEntry (IP6 0x20010003 0 0 0) 32 demo_learned) = Some (demo_hop 7)"
proof -
  let ?p = "demo_response 1 9 [demo_rte 0x20010003 200]"
  have a: "rc_infinity demo_rip_config = 16" "getEnabledInterface (pk_ifId ?p) demo_learned \<noteq> None" "pk_command ?p = RIPngResponse"
    "checkMessageValidity demo_rip_config ?p" "pk_rtes ?p = [demo_rte 0x20010003 200]" "128 \<le> uint (rte_metric (demo_rte 0x20010003 200))"
    "sint (rte_len (demo_rte 0x20010003 200)) = 32" "uint (rte_metric (demo_rte 0x20010003 200)) = 200" "pk_ifId ?p = 1"
    "rte_prefix (demo_rte 0x20010003 200) = IP6 0x20010003 0 0 0" "pk_srcAddr ?p = demo_hop 9" by code_simp+
  have b: "map_option (\<lambda>e. (re_nextHop e, re_metric e)) (getRoutingTableEntry (IP6 0x20010003 0 0 0) 32 demo_learned) = Some (demo_hop 7, 3)"
    and n: "demo_hop 7 \<noteq> demo_hop 9" "demo_hop 7 \<noteq> UNSPECIFIED_ADDRESS" by code_simp+
  show ?thesis
    using rip_unchecked_metric_wins [OF demo_sorter demo_learned_reachable a(1-6)] b n a(7-11) by auto
qed

end
