(* ===== verification/Pim_Tables.thy ===== *)
theory Pim_Tables
  imports Ansa_Prelude
begin

text \<open>
  The tables of a PIM router: the multicast routes of
  \<open>src/src/ansa/networklayer/ipv4/AnsaIPv4Route.cc\<close> in the table of \<open>AnsaRoutingTable.cc\<close>, the neighbours of
  \<open>src/src/ansa/networklayer/pim/tables/PimNeighborTable.cc\<close> and the interfaces of \<open>PimInterfaceTable.cc\<close>.
  A route is an object with an identity, because the modules pass pointers to routes around. A timer is a
  message object that the modules create, schedule, cancel and delete through pointers: \<open>pi_timers\<close> holds
  the live ones. An interface is named by its identifier, which stands for the pointer as well.

  An operation is \<open>None\<close> where the code dereferences a null pointer, uses a deleted object, indexes a vector
  out of range, or the simulation kernel throws.
\<close>

section \<open>Routes\<close>

datatype mflag = FLAG_D | FLAG_S | FLAG_C | FLAG_P | FLAG_A | FLAG_F | FLAG_T

datatype int_state = Densemode | Sparsemode | Forward | Pruned

datatype reg_state = Reg_NoInfo | Reg_Join | Reg_Prune | Reg_JoinPending

record in_int =
  ii_id :: int
  ii_nextHop :: ipv4_addr

text \<open>The register state is only set for an interface to the rendezvous point; elsewhere it is
  indeterminate, which is \<open>None\<close>.\<close>

record out_int =
  oi_id :: int
  oi_forwarding :: int_state
  oi_mode :: int_state
  oi_pruneTimer :: "nat option"
  oi_regState :: "reg_state option"

record mroute =
  mr_id :: nat
  mr_group :: ipv4_addr
  mr_origin :: ipv4_addr
  mr_RP :: ipv4_addr
  mr_flags :: "mflag list"
  mr_grt :: "nat option"
  mr_sat :: "nat option"
  mr_srt :: "nat option"
  mr_kat :: "nat option"
  mr_rst :: "nat option"
  mr_et :: "nat option"
  mr_jt :: "nat option"
  mr_inInt :: "in_int option"
  mr_outInt :: "out_int list"
  mr_showOutInt :: bool

definition new_mroute :: "nat \<Rightarrow> mroute" where
  "new_mroute i =
     \<lparr>mr_id = i, mr_group = 0, mr_origin = 0, mr_RP = 0, mr_flags = [], mr_grt = None, mr_sat = None, mr_srt = None,
      mr_kat = None, mr_rst = None, mr_et = None, mr_jt = None, mr_inInt = None, mr_outInt = [], mr_showOutInt = True\<rparr>"

text \<open>The interface a module puts on the outgoing list of a route.\<close>

definition new_out_int :: "int \<Rightarrow> int_state \<Rightarrow> out_int" where
  "new_out_int intId mode =
     \<lparr>oi_id = intId, oi_forwarding = Forward, oi_mode = mode, oi_pruneTimer = None, oi_regState = None\<rparr>"

definition isFlagSet :: "mflag \<Rightarrow> mroute \<Rightarrow> bool" where
  "isFlagSet fl r = list_ex (\<lambda>f. f = fl) (mr_flags r)"

definition addFlag :: "mflag \<Rightarrow> mroute \<Rightarrow> mroute" where
  "addFlag fl r = (if isFlagSet fl r then r else r\<lparr>mr_flags := mr_flags r @ [fl]\<rparr>)"

definition removeFlag :: "mflag \<Rightarrow> mroute \<Rightarrow> mroute" where
  "removeFlag fl r = r\<lparr>mr_flags := erase_first (\<lambda>f. f = fl) (mr_flags r)\<rparr>"

definition setRegStatus :: "int \<Rightarrow> reg_state \<Rightarrow> mroute \<Rightarrow> mroute" where
  "setRegStatus intId st r =
     r\<lparr>mr_outInt := update_first (\<lambda>oi. oi_id oi = intId) (\<lambda>oi. oi\<lparr>oi_regState := Some st\<rparr>) (mr_outInt r)\<rparr>"

definition getOutIdByIntId :: "int \<Rightarrow> mroute \<Rightarrow> nat" where
  "getOutIdByIntId intId r = index_first (\<lambda>oi. oi_id oi = intId) (mr_outInt r)"

definition getOutIntByIntId :: "int \<Rightarrow> mroute \<Rightarrow> out_int option" where
  "getOutIntByIntId intId r = vec_at (mr_outInt r) (getOutIdByIntId intId r)"

definition getRegStatus :: "int \<Rightarrow> mroute \<Rightarrow> reg_state option" where
  "getRegStatus intId r = do { oi \<leftarrow> getOutIntByIntId intId r; oi_regState oi }"

definition isOilistNull :: "mroute \<Rightarrow> bool" where
  "isOilistNull r = list_all (\<lambda>oi. oi_forwarding oi \<noteq> Forward) (mr_outInt r)"

definition addOutInt :: "out_int \<Rightarrow> mroute \<Rightarrow> mroute" where
  "addOutInt oi r = r\<lparr>mr_outInt := mr_outInt r @ [oi]\<rparr>"

definition isRpf :: "int \<Rightarrow> mroute \<Rightarrow> bool option" where
  "isRpf intId r = map_option (\<lambda>ii. intId = ii_id ii) (mr_inInt r)"

section \<open>Neighbours and interfaces\<close>

record pim_nbr =
  nb_id :: int
  nb_intId :: int
  nb_addr :: ipv4_addr
  nb_ver :: int
  nb_nlt :: "nat option"

datatype pim_mode = Dense | Sparse

record pim_int =
  pn_id :: int
  pn_mode :: pim_mode
  pn_mcast :: "ipv4_addr list"
  pn_SR :: bool

definition removeIntMulticastAddress :: "ipv4_addr \<Rightarrow> pim_int \<Rightarrow> pim_int" where
  "removeIntMulticastAddress a p = p\<lparr>pn_mcast := erase_first (\<lambda>x. x = a) (pn_mcast p)\<rparr>"

definition addIntMulticastAddress :: "ipv4_addr \<Rightarrow> pim_int \<Rightarrow> pim_int" where
  "addIntMulticastAddress a p = p\<lparr>pn_mcast := pn_mcast p @ [a]\<rparr>"

definition isLocalIntMulticastAddress :: "ipv4_addr \<Rightarrow> pim_int \<Rightarrow> bool" where
  "isLocalIntMulticastAddress a p = list_ex (\<lambda>x. x = a) (pn_mcast p)"

text \<open>The address tests of \<open>IPv4Address\<close> the routers use.\<close>

unbundle bit_operations_syntax

definition ip_isMulticast :: "ipv4_addr \<Rightarrow> bool" where
  "ip_isMulticast a \<longleftrightarrow> a AND 0xF0000000 = 0xE0000000"

definition ip_isLinkLocalMulticast :: "ipv4_addr \<Rightarrow> bool" where
  "ip_isLinkLocalMulticast a \<longleftrightarrow> a AND 0xFFFFFF00 = 0xE0000000"

definition deleteLocalIPs :: "ipv4_addr list \<Rightarrow> ipv4_addr list" where
  "deleteLocalIPs as = filter (\<lambda>a. \<not> ip_isLinkLocalMulticast a) as"

section \<open>Packets\<close>

record mcast_group =
  mg_group :: ipv4_addr
  mg_joined :: "ipv4_addr list"
  mg_pruned :: "ipv4_addr list"

record join_prune =
  jp_upstream :: ipv4_addr
  jp_holdTime :: int
  jp_groups :: "mcast_group list"

record state_refresh =
  sr_group :: ipv4_addr
  sr_source :: ipv4_addr
  sr_originator :: ipv4_addr
  sr_P :: bool
  sr_interval :: int

text \<open>A register packet carries the null bit and the addresses of the datagram in it.\<close>

datatype pim_pkt = Hello | JoinPrune join_prune | Assert | Graft join_prune | GraftAck join_prune
  | StateRefresh state_refresh | Register bool ipv4_addr ipv4_addr | RegisterStop ipv4_addr ipv4_addr | Other_Pim

text \<open>A packet with its control information; an unset source address is 0.0.0.0.\<close>

record pim_msg =
  pm_pkt :: pim_pkt
  pm_src :: ipv4_addr
  pm_dest :: ipv4_addr
  pm_intId :: int

text \<open>What leaves the router: PIM packets, and copies of a datagram with its source and group; a copy may also
  be delivered to the router itself.\<close>

datatype pim_out = Out_Pim pim_msg | Out_Data ipv4_addr ipv4_addr int | Out_Deliver ipv4_addr ipv4_addr

section \<open>Timers and the state of a router\<close>

datatype timer_kind = Hello_Timer | Neighbor_Liveness int | Prune_Timer ipv4_addr ipv4_addr int
  | Graft_Retry ipv4_addr ipv4_addr | Source_Active ipv4_addr ipv4_addr | State_Refresh ipv4_addr ipv4_addr
  | Keep_Alive ipv4_addr ipv4_addr | Register_Stop ipv4_addr ipv4_addr | Expiry ipv4_addr
  | Join_Timer ipv4_addr ipv4_addr ipv4_addr

record pim_timer =
  tmr_id :: nat
  tmr_kind :: timer_kind
  tmr_at :: "simtime option"

record pim =
  pi_now :: simtime
  pi_next :: nat
  pi_timers :: "pim_timer list"
  pi_routes :: "mroute list"
  pi_nbrs :: "pim_nbr list"
  pi_nbrId :: int
  pi_ints :: "pim_int list"
  pi_out :: "pim_out list"

text \<open>What the router asks of the rest of the device: the unicast routing table (the interface, the gateway
  and whether the best route to an address is that of a connected network), the interfaces with their
  addresses and whether they are down, and the rendezvous point. The unicast answers may differ from
  one event to the next.\<close>

record pim_env =
  pe_interface :: "ipv4_addr \<Rightarrow> int option"
  pe_gateway :: "ipv4_addr \<Rightarrow> ipv4_addr"
  pe_connected :: "ipv4_addr \<Rightarrow> bool"
  pe_interfaces :: "int list"
  pe_addr :: "int \<Rightarrow> ipv4_addr"
  pe_down :: "int \<Rightarrow> bool"
  pe_RP :: ipv4_addr
  pe_localMulticast :: "ipv4_addr \<Rightarrow> bool"
  pe_forwarding :: bool
  pe_mcastForwarding :: bool

definition timer_at :: "nat \<Rightarrow> pim \<Rightarrow> pim_timer option" where
  "timer_at i s = find (\<lambda>t. tmr_id t = i) (pi_timers s)"

definition modify_timer :: "nat \<Rightarrow> (pim_timer \<Rightarrow> pim_timer) \<Rightarrow> pim \<Rightarrow> pim" where
  "modify_timer i f s = s\<lparr>pi_timers := map (\<lambda>t. if tmr_id t = i then f t else t) (pi_timers s)\<rparr>"

text \<open>\<open>cancelEvent\<close> throws on a null pointer; \<open>scheduleAt\<close> throws when the message is scheduled already or
  the time is past.\<close>

definition cancelEvent :: "nat option \<Rightarrow> pim \<Rightarrow> pim option" where
  "cancelEvent p s =
     (case p of None \<Rightarrow> None
      | Some i \<Rightarrow> map_option (\<lambda>_. modify_timer i (\<lambda>t. t\<lparr>tmr_at := None\<rparr>) s) (timer_at i s))"

definition scheduleAt :: "simtime \<Rightarrow> nat option \<Rightarrow> pim \<Rightarrow> pim option" where
  "scheduleAt at p s =
     do { i \<leftarrow> p; t \<leftarrow> timer_at i s;
          if tmr_at t \<noteq> None \<or> at < pi_now s then None
          else Some (modify_timer i (\<lambda>t. t\<lparr>tmr_at := Some at\<rparr>) s) }"

definition delete_timer :: "nat option \<Rightarrow> pim \<Rightarrow> pim option" where
  "delete_timer p s =
     (case p of None \<Rightarrow> Some s
      | Some i \<Rightarrow> map_option (\<lambda>_. s\<lparr>pi_timers := filter (\<lambda>t. tmr_id t \<noteq> i) (pi_timers s)\<rparr>) (timer_at i s))"

text \<open>A new timer, scheduled after \<open>d\<close>; the pointer to it is the next free identity.\<close>

definition new_timer :: "timer_kind \<Rightarrow> simtime \<Rightarrow> pim \<Rightarrow> (nat option \<times> pim) option" where
  "new_timer k d s =
     (if d < 0 then None
      else Some (Some (pi_next s), s\<lparr>pi_next := pi_next s + 1,
                  pi_timers := pi_timers s @ [\<lparr>tmr_id = pi_next s, tmr_kind = k, tmr_at = Some (pi_now s + d)\<rparr>]\<rparr>))"

definition restart_timer :: "nat option \<Rightarrow> simtime \<Rightarrow> pim \<Rightarrow> pim option" where
  "restart_timer p d s = do { s1 \<leftarrow> cancelEvent p s; scheduleAt (pi_now s + d) p s1 }"

definition stop_timer :: "nat option \<Rightarrow> pim \<Rightarrow> pim option" where
  "stop_timer p s = do { s1 \<leftarrow> cancelEvent p s; delete_timer p s1 }"

definition send_pim :: "pim_pkt \<Rightarrow> ipv4_addr \<Rightarrow> ipv4_addr \<Rightarrow> int \<Rightarrow> pim \<Rightarrow> pim" where
  "send_pim pkt src dest intId s =
     s\<lparr>pi_out := pi_out s @ [Out_Pim \<lparr>pm_pkt = pkt, pm_src = src, pm_dest = dest, pm_intId = intId\<rparr>]\<rparr>"

text \<open>\<open>224.0.0.13\<close>\<close>

definition all_pim_routers :: ipv4_addr where
  "all_pim_routers = 0xE000000D"

section \<open>The multicast routing table\<close>

definition getRouteFor :: "ipv4_addr \<Rightarrow> ipv4_addr \<Rightarrow> pim \<Rightarrow> mroute option" where
  "getRouteFor grp src s = find (\<lambda>r. mr_group r = grp \<and> mr_origin r = src) (pi_routes s)"

definition getRoutesForGroup :: "ipv4_addr \<Rightarrow> pim \<Rightarrow> mroute list" where
  "getRoutesForGroup grp s = filter (\<lambda>r. mr_group r = grp) (pi_routes s)"

text \<open>The classful network of an address.\<close>

definition ip_getNetwork :: "ipv4_addr \<Rightarrow> ipv4_addr" where
  "ip_getNetwork a =
     (if a AND 0x80000000 = 0 then a AND 0xFF000000
      else if a AND 0xC0000000 = 0x80000000 then a AND 0xFFFF0000
      else if a AND 0xE0000000 = 0xC0000000 then a AND 0xFFFFFF00
      else 0)"

definition getRoutesForSource :: "ipv4_addr \<Rightarrow> pim \<Rightarrow> mroute list" where
  "getRoutesForSource source s = filter (\<lambda>r. ip_getNetwork (mr_origin r) = source) (pi_routes s)"

definition route_at :: "nat \<Rightarrow> pim \<Rightarrow> mroute option" where
  "route_at i s = find (\<lambda>r. mr_id r = i) (pi_routes s)"

definition modify_mroute :: "nat \<Rightarrow> (mroute \<Rightarrow> mroute) \<Rightarrow> pim \<Rightarrow> pim" where
  "modify_mroute i f s = s\<lparr>pi_routes := map (\<lambda>r. if mr_id r = i then f r else r) (pi_routes s)\<rparr>"

text \<open>\<open>new AnsaIPv4MulticastRoute()\<close>: the route and the state after its identity is taken.\<close>

definition alloc_mroute :: "pim \<Rightarrow> mroute \<times> pim" where
  "alloc_mroute s = (new_mroute (pi_next s), s\<lparr>pi_next := pi_next s + 1\<rparr>)"

text \<open>What was read through a pointer, changed, and written back.\<close>

definition put_mroute :: "mroute \<Rightarrow> pim \<Rightarrow> pim" where
  "put_mroute r s = modify_mroute (mr_id r) (\<lambda>_. r) s"

definition addMulticastRoute :: "mroute \<Rightarrow> pim \<Rightarrow> pim option" where
  "addMulticastRoute r s =
     (if mr_group r = 0 \<or> \<not> ip_isMulticast (mr_group r) \<or> (mr_origin r = 0 \<and> mr_RP r = 0) then None
      else Some (s\<lparr>pi_routes := pi_routes s @ [r]\<rparr>))"

definition stop_if_set :: "nat option \<Rightarrow> pim \<Rightarrow> pim option" where
  "stop_if_set p s = (if p = None then Some s else stop_timer p s)"

fun stop_all :: "nat option list \<Rightarrow> pim \<Rightarrow> pim option" where
  "stop_all [] s = Some s"
| "stop_all (p # ps) s = do { s1 \<leftarrow> stop_if_set p s; stop_all ps s1 }"

text \<open>The join and register-stop timers are left alone.\<close>

definition deleteMulticastRoute :: "nat \<Rightarrow> pim \<Rightarrow> (bool \<times> pim) option" where
  "deleteMulticastRoute i s =
     (case route_at i s of
        None \<Rightarrow> Some (False, s)
      | Some r \<Rightarrow>
          do {
            s1 \<leftarrow> stop_all ([mr_srt r, mr_grt r, mr_sat r, mr_kat r, mr_et r] @ map oi_pruneTimer (mr_outInt r)) s;
            Some (True, s1\<lparr>pi_routes := filter (\<lambda>r. mr_id r \<noteq> i) (pi_routes s1)\<rparr>)
          })"

section \<open>The neighbour and interface tables\<close>

definition getNeighborsByIntID :: "int \<Rightarrow> pim \<Rightarrow> pim_nbr list" where
  "getNeighborsByIntID intId s = filter (\<lambda>n. intId = nb_intId n) (pi_nbrs s)"

definition getNumNeighborsOnInt :: "int \<Rightarrow> pim \<Rightarrow> nat" where
  "getNumNeighborsOnInt intId s = length (getNeighborsByIntID intId s)"

definition getNeighborByIntID :: "int \<Rightarrow> pim \<Rightarrow> pim_nbr option" where
  "getNeighborByIntID intId s = find (\<lambda>n. intId = nb_intId n) (pi_nbrs s)"

definition getNeighborsByID :: "int \<Rightarrow> pim \<Rightarrow> pim_nbr option" where
  "getNeighborsByID i s = find (\<lambda>n. i = nb_id n) (pi_nbrs s)"

definition findNeighbor :: "int \<Rightarrow> ipv4_addr \<Rightarrow> pim \<Rightarrow> pim_nbr option" where
  "findNeighbor intId addr s = find (\<lambda>n. addr = nb_addr n \<and> intId = nb_intId n) (pi_nbrs s)"

definition isInTable :: "int \<Rightarrow> ipv4_addr \<Rightarrow> pim \<Rightarrow> bool" where
  "isInTable intId addr s = list_ex (\<lambda>n. addr = nb_addr n \<and> intId = nb_intId n) (pi_nbrs s)"

definition addNeighbor :: "pim_nbr \<Rightarrow> pim \<Rightarrow> pim" where
  "addNeighbor n s = s\<lparr>pi_nbrs := pi_nbrs s @ [n\<lparr>nb_id := pi_nbrId s\<rparr>], pi_nbrId := pi_nbrId s + 1\<rparr>"

definition deleteNeighbor :: "int \<Rightarrow> pim \<Rightarrow> bool \<times> pim" where
  "deleteNeighbor i s =
     (list_ex (\<lambda>n. i = nb_id n) (pi_nbrs s), s\<lparr>pi_nbrs := erase_first (\<lambda>n. i = nb_id n) (pi_nbrs s)\<rparr>)"

definition getInterfaceByIntID :: "int \<Rightarrow> pim \<Rightarrow> pim_int option" where
  "getInterfaceByIntID intId s = find (\<lambda>p. intId = pn_id p) (pi_ints s)"

text \<open>A change through the pointer \<open>getInterfaceByIntID\<close> returns.\<close>

definition modify_pim_int :: "int \<Rightarrow> (pim_int \<Rightarrow> pim_int) \<Rightarrow> pim \<Rightarrow> pim" where
  "modify_pim_int intId f s = s\<lparr>pi_ints := update_first (\<lambda>p. intId = pn_id p) f (pi_ints s)\<rparr>"

end
