(* ===== verification/Pim_Dense.thy ===== *)
theory Pim_Dense
  imports Pim_Tables
begin

text \<open>
  PIM dense mode, \<open>src/src/ansa/networklayer/pim/modes/pimDM.cc\<close>: the packets and timers it sends, the
  packets, timers and notifications it handles. A handler takes the environment and the state; the
  pointer to a route is the route as it is in the table, which the handler changes and puts back.
\<close>

abbreviation "PT \<equiv> sec 180"
abbreviation "GRT \<equiv> sec 3"
abbreviation "SAT \<equiv> sec 210"
abbreviation "SRT \<equiv> sec 60"

section \<open>Sending\<close>

definition sendPimJoinPrune :: "ipv4_addr \<Rightarrow> ipv4_addr \<Rightarrow> ipv4_addr \<Rightarrow> int \<Rightarrow> pim \<Rightarrow> pim" where
  "sendPimJoinPrune nextHop src grp intId =
     send_pim (JoinPrune \<lparr>jp_upstream = nextHop, jp_holdTime = 180,
         jp_groups = [\<lparr>mg_group = grp, mg_joined = [], mg_pruned = [src]\<rparr>]\<rparr>) 0 all_pim_routers intId"

definition sendPimGraft :: "ipv4_addr \<Rightarrow> ipv4_addr \<Rightarrow> ipv4_addr \<Rightarrow> int \<Rightarrow> pim \<Rightarrow> pim" where
  "sendPimGraft nextHop src grp intId =
     send_pim (Graft \<lparr>jp_upstream = nextHop, jp_holdTime = 0,
         jp_groups = [\<lparr>mg_group = grp, mg_joined = [src], mg_pruned = []\<rparr>]\<rparr>) 0 nextHop intId"

text \<open>The acknowledgement is the graft packet itself, with its addresses exchanged.\<close>

definition sendPimGraftAck :: "join_prune \<Rightarrow> pim_msg \<Rightarrow> pim \<Rightarrow> pim" where
  "sendPimGraftAck jp m = send_pim (GraftAck jp) (pm_dest m) (pm_src m) (pm_intId m)"

definition sendPimStateRefresh :: "ipv4_addr \<Rightarrow> ipv4_addr \<Rightarrow> ipv4_addr \<Rightarrow> int \<Rightarrow> bool \<Rightarrow> pim \<Rightarrow> pim" where
  "sendPimStateRefresh originator src grp intId P =
     send_pim (StateRefresh \<lparr>sr_group = grp, sr_source = src, sr_originator = originator, sr_P = P, sr_interval = 60\<rparr>)
       0 grp intId"

text \<open>The prune and the graft towards the source, out of the incoming interface of a route.\<close>

definition prune_upstream :: "mroute \<Rightarrow> pim \<Rightarrow> pim option" where
  "prune_upstream r s =
     map_option (\<lambda>ii. sendPimJoinPrune (ii_nextHop ii) (mr_origin r) (mr_group r) (ii_id ii) s) (mr_inInt r)"

definition graft_upstream :: "mroute \<Rightarrow> pim \<Rightarrow> pim option" where
  "graft_upstream r s =
     map_option (\<lambda>ii. sendPimGraft (ii_nextHop ii) (mr_origin r) (mr_group r) (ii_id ii) s) (mr_inInt r)"

text \<open>Joining the tree again: a graft, and the timer that repeats it.\<close>

definition start_graft :: "mroute \<Rightarrow> pim \<Rightarrow> (mroute \<times> pim) option" where
  "start_graft r s =
     do {
       s1 \<leftarrow> graft_upstream r s;
       (grt, s2) \<leftarrow> new_timer (Graft_Retry (mr_origin r) (mr_group r)) GRT s1;
       Some (r\<lparr>mr_grt := grt\<rparr>, s2)
     }"

definition stop_graft :: "mroute \<Rightarrow> pim \<Rightarrow> (mroute \<times> pim) option" where
  "stop_graft r s = do { s1 \<leftarrow> stop_timer (mr_grt r) s; Some (r\<lparr>mr_grt := None\<rparr>, s1) }"

section \<open>Packets\<close>

fun graft_loop :: "int \<Rightarrow> out_int list \<Rightarrow> pim \<Rightarrow> (bool \<times> out_int list \<times> pim) option" where
  "graft_loop intId [] s = Some (False, [], s)"
| "graft_loop intId (oi # ois) s =
     (if oi_id oi = intId then
        do {
          (oi1, s1) \<leftarrow> (if oi_forwarding oi = Pruned
             then do { s1 \<leftarrow> stop_timer (oi_pruneTimer oi) s; Some (oi\<lparr>oi_forwarding := Forward, oi_pruneTimer := None\<rparr>, s1) }
             else Some (oi, s));
          (fwd, ois1, s2) \<leftarrow> graft_loop intId ois s1;
          Some (True, oi1 # ois1, s2)
        }
      else do { (fwd, ois1, s1) \<leftarrow> graft_loop intId ois s; Some (fwd, oi # ois1, s1) })"

definition processGraftPacket :: "ipv4_addr \<Rightarrow> ipv4_addr \<Rightarrow> int \<Rightarrow> pim \<Rightarrow> pim option" where
  "processGraftPacket source grp intId s =
     do {
       r \<leftarrow> getRouteFor grp source s;
       rpf \<leftarrow> isRpf intId r;
       if rpf then Some s
       else
         do {
           (fwd, ois, s1) \<leftarrow> graft_loop intId (mr_outInt r) s;
           let r1 = r\<lparr>mr_outInt := ois\<rparr>;
           (r2, s2) \<leftarrow> (if isFlagSet FLAG_P r1 \<and> fwd \<and> mr_grt r1 = None
                        then (if \<not> isFlagSet FLAG_A r1 then start_graft r1 s1 else Some (removeFlag FLAG_P r1, s1))
                        else Some (r1, s1));
           Some (put_mroute r2 s2)
         }
     }"

definition processGraftAckPacket :: "mroute option \<Rightarrow> pim \<Rightarrow> pim option" where
  "processGraftAckPacket p s =
     do {
       r \<leftarrow> p;
       if mr_grt r \<noteq> None
       then do { (r1, s1) \<leftarrow> stop_graft r s; Some (put_mroute (removeFlag FLAG_P r1) s1) }
       else Some s
     }"

definition processPrunePacket :: "mroute \<Rightarrow> int \<Rightarrow> int \<Rightarrow> pim \<Rightarrow> pim option" where
  "processPrunePacket r intId holdTime s =
     (let i = getOutIdByIntId intId r in
      do {
        (change, r1, s1) \<leftarrow>
          (case getOutIntByIntId intId r of
             None \<Rightarrow> Some (False, r, s)
           | Some oi \<Rightarrow>
               if oi_forwarding oi = Pruned
               then do { s1 \<leftarrow> restart_timer (oi_pruneTimer oi) (sec holdTime) s; Some (False, r, s1) }
               else
                 do {
                   (t, s1) \<leftarrow> new_timer (Prune_Timer (mr_origin r) (mr_group r) intId) (sec holdTime) s;
                   Some (True, r\<lparr>mr_outInt := vec_modify i (\<lambda>oi. oi\<lparr>oi_forwarding := Pruned, oi_pruneTimer := t\<rparr>) (mr_outInt r)\<rparr>, s1)
                 });
        if isOilistNull r1 \<and> change
        then
          (let r2 = addFlag FLAG_P r1 in
           if isFlagSet FLAG_P r2 \<and> mr_grt r2 \<noteq> None
           then do { (r3, s2) \<leftarrow> stop_graft r2 s1; Some (put_mroute r3 s2) }
           else if \<not> isFlagSet FLAG_A r2 then do { s2 \<leftarrow> prune_upstream r2 s1; Some (put_mroute r2 s2) }
           else Some (put_mroute r2 s1))
        else Some (put_mroute r1 s1)
      })"

fun joined_loop :: "pim_pkt \<Rightarrow> ipv4_addr \<Rightarrow> int \<Rightarrow> ipv4_addr list \<Rightarrow> pim \<Rightarrow> pim option" where
  "joined_loop pkt grp intId [] s = Some s"
| "joined_loop pkt grp intId (source # sources) s =
     do {
       s1 \<leftarrow> (case pkt of
                Graft _ \<Rightarrow> processGraftPacket source grp intId s
              | GraftAck _ \<Rightarrow> processGraftAckPacket (getRouteFor grp source s) s
              | _ \<Rightarrow> Some s);
       joined_loop pkt grp intId sources s1
     }"

text \<open>With several neighbours on the interface a prune is not acted on.\<close>

fun pruned_loop :: "nat \<Rightarrow> int \<Rightarrow> ipv4_addr \<Rightarrow> int \<Rightarrow> ipv4_addr list \<Rightarrow> pim \<Rightarrow> pim option" where
  "pruned_loop nbrs holdTime grp intId [] s = Some s"
| "pruned_loop nbrs holdTime grp intId (source # sources) s =
     do {
       r \<leftarrow> getRouteFor grp source s;
       s1 \<leftarrow> (if source \<noteq> mr_origin r then Some s
             else if nbrs > 1 then Some s
             else processPrunePacket r intId holdTime s);
       pruned_loop nbrs holdTime grp intId sources s1
     }"

fun groups_loop :: "nat \<Rightarrow> pim_pkt \<Rightarrow> int \<Rightarrow> int \<Rightarrow> mcast_group list \<Rightarrow> pim \<Rightarrow> pim option" where
  "groups_loop nbrs pkt holdTime intId [] s = Some s"
| "groups_loop nbrs pkt holdTime intId (g # gs) s =
     do {
       s1 \<leftarrow> joined_loop pkt (mg_group g) intId (mg_joined g) s;
       s2 \<leftarrow> (case pkt of JoinPrune _ \<Rightarrow> pruned_loop nbrs holdTime (mg_group g) intId (mg_pruned g) s1 | _ \<Rightarrow> Some s1);
       groups_loop nbrs pkt holdTime intId gs s2
     }"

definition processJoinPruneGraftPacket :: "pim_env \<Rightarrow> join_prune \<Rightarrow> pim_msg \<Rightarrow> pim \<Rightarrow> pim option" where
  "processJoinPruneGraftPacket env jp m s =
     do {
       nt \<leftarrow> pe_interface env (pm_src m);
       let nbrs = length (getNeighborsByIntID nt s);
       if jp_upstream jp \<noteq> pe_addr env nt \<and> \<not> (case pm_pkt m of GraftAck _ \<Rightarrow> True | _ \<Rightarrow> False) then Some s
       else
         do {
           s1 \<leftarrow> groups_loop nbrs (pm_pkt m) (jp_holdTime jp) nt (jp_groups jp) s;
           Some (case pm_pkt m of Graft _ \<Rightarrow> sendPimGraftAck jp m s1 | _ \<Rightarrow> s1)
         }
     }"

text \<open>The loop over the outgoing interfaces of both state refreshes: a pruned interface stays pruned for
  another prune time, and every interface gets the message with its state.\<close>

fun refresh_loop :: "(int \<Rightarrow> ipv4_addr) \<Rightarrow> ipv4_addr \<Rightarrow> ipv4_addr \<Rightarrow> out_int list \<Rightarrow> pim \<Rightarrow> pim option" where
  "refresh_loop originator src grp [] s = Some s"
| "refresh_loop originator src grp (oi # ois) s =
     do {
       s1 \<leftarrow> (if oi_forwarding oi = Pruned then restart_timer (oi_pruneTimer oi) PT s else Some s);
       refresh_loop originator src grp ois
         (sendPimStateRefresh (originator (oi_id oi)) src grp (oi_id oi) (oi_forwarding oi = Pruned) s1)
     }"

definition processStateRefreshPacket :: "state_refresh \<Rightarrow> pim_msg \<Rightarrow> pim \<Rightarrow> pim option" where
  "processStateRefreshPacket sr m s =
     (case getRouteFor (sr_group sr) (sr_source sr) s of
        None \<Rightarrow> Some s
      | Some r \<Rightarrow>
          do {
            rpf \<leftarrow> isRpf (pm_intId m) r;
            if \<not> rpf then Some s
            else
              do {
                (r1, s1) \<leftarrow>
                  (if isFlagSet FLAG_P r \<and> \<not> sr_P sr
                   then (if mr_grt r = None then do { s1 \<leftarrow> prune_upstream r s; Some (r, s1) } else stop_graft r s)
                   else Some (r, s));
                refresh_loop (\<lambda>_. sr_originator sr) (sr_source sr) (sr_group sr) (mr_outInt r) (put_mroute r1 s1)
              }
          })"

section \<open>Timers\<close>

text \<open>A timer that is handled is not scheduled any more; \<open>t\<close> is its identity.\<close>

definition processPruneTimer :: "nat \<Rightarrow> ipv4_addr \<Rightarrow> ipv4_addr \<Rightarrow> int \<Rightarrow> pim \<Rightarrow> pim option" where
  "processPruneTimer t source grp intId s =
     (case getRouteFor grp source s of
        None \<Rightarrow> delete_timer (Some t) s
      | Some r \<Rightarrow>
          let i = getOutIdByIntId intId r in
          if i < length (mr_outInt r)
          then
            do {
              s1 \<leftarrow> delete_timer (Some t) s;
              Some (put_mroute (removeFlag FLAG_P
                (r\<lparr>mr_outInt := vec_modify i (\<lambda>oi. oi\<lparr>oi_pruneTimer := None, oi_forwarding := Forward\<rparr>) (mr_outInt r)\<rparr>)) s1)
            }
          else Some s)"

text \<open>The new timer is not stored in the route, which keeps its pointer to the old one.\<close>

definition processGraftRetryTimer :: "ipv4_addr \<Rightarrow> ipv4_addr \<Rightarrow> pim \<Rightarrow> pim option" where
  "processGraftRetryTimer source grp s =
     do {
       r \<leftarrow> getRouteFor grp source s;
       ii \<leftarrow> mr_inInt r;
       (_, s1) \<leftarrow> new_timer (Graft_Retry source grp) GRT (sendPimGraft (ii_nextHop ii) source grp (ii_id ii) s);
       Some s1
     }"

definition processSourceActiveTimer :: "nat \<Rightarrow> ipv4_addr \<Rightarrow> ipv4_addr \<Rightarrow> pim \<Rightarrow> pim option" where
  "processSourceActiveTimer t source grp s =
     do {
       r \<leftarrow> getRouteFor grp source s;
       s1 \<leftarrow> delete_timer (Some t) s;
       (_, s2) \<leftarrow> deleteMulticastRoute (mr_id r) (put_mroute (r\<lparr>mr_sat := None\<rparr>) s1);
       Some s2
     }"

definition processStateRefreshTimer :: "pim_env \<Rightarrow> nat \<Rightarrow> ipv4_addr \<Rightarrow> ipv4_addr \<Rightarrow> pim \<Rightarrow> pim option" where
  "processStateRefreshTimer env t source grp s =
     do {
       r \<leftarrow> getRouteFor grp source s;
       s1 \<leftarrow> refresh_loop (pe_addr env) source grp (mr_outInt r) s;
       s2 \<leftarrow> delete_timer (Some t) s1;
       (srt, s3) \<leftarrow> new_timer (State_Refresh (mr_origin r) (mr_group r)) SRT s2;
       Some (put_mroute (r\<lparr>mr_srt := srt\<rparr>) s3)
     }"

text \<open>Timers of other kinds are deleted.\<close>

definition dm_processPIMTimer :: "pim_env \<Rightarrow> nat \<Rightarrow> timer_kind \<Rightarrow> pim \<Rightarrow> pim option" where
  "dm_processPIMTimer env t k s =
     (case k of
        Prune_Timer src grp intId \<Rightarrow> processPruneTimer t src grp intId s
      | Graft_Retry src grp \<Rightarrow> processGraftRetryTimer src grp s
      | Source_Active src grp \<Rightarrow> processSourceActiveTimer t src grp s
      | State_Refresh src grp \<Rightarrow> processStateRefreshTimer env t src grp s
      | _ \<Rightarrow> delete_timer (Some t) s)"

definition dm_processPIMPkt :: "pim_env \<Rightarrow> pim_msg \<Rightarrow> pim \<Rightarrow> pim option" where
  "dm_processPIMPkt env m s =
     (case pm_pkt m of
        JoinPrune jp \<Rightarrow> processJoinPruneGraftPacket env jp m s
      | Graft jp \<Rightarrow> processJoinPruneGraftPacket env jp m s
      | GraftAck jp \<Rightarrow> processJoinPruneGraftPacket env jp m s
      | StateRefresh sr \<Rightarrow> processStateRefreshPacket sr m s
      | _ \<Rightarrow> Some s)"

section \<open>Notifications\<close>

definition dataOnRpf :: "mroute \<Rightarrow> pim \<Rightarrow> pim option" where
  "dataOnRpf r s = restart_timer (mr_sat r) SAT s"

text \<open>With one neighbour on the interface, \<open>outInt[i]\<close> is accessed whether or not \<open>i\<close> is in range.\<close>

definition dataOnNonRpf :: "ipv4_addr \<Rightarrow> ipv4_addr \<Rightarrow> int \<Rightarrow> pim \<Rightarrow> pim option" where
  "dataOnNonRpf grp source intId s =
     (case getRouteFor grp source s of
        None \<Rightarrow> Some s
      | Some r \<Rightarrow>
          (case getNeighborsByIntID intId s of
             [n] \<Rightarrow>
               let s1 = sendPimJoinPrune (nb_addr n) source grp intId s; i = getOutIdByIntId intId r in
               do {
                 oi \<leftarrow> vec_at (mr_outInt r) i;
                 if oi_forwarding oi = Forward
                 then
                   do {
                     (t, s2) \<leftarrow> new_timer (Prune_Timer (mr_origin r) (mr_group r) intId) PT s1;
                     let r1 = r\<lparr>mr_outInt := vec_modify i (\<lambda>oi. oi\<lparr>oi_forwarding := Pruned, oi_pruneTimer := t\<rparr>) (mr_outInt r)\<rparr>;
                     if isOilistNull r1
                     then
                       (let r2 = addFlag FLAG_P r1 in
                        if \<not> isFlagSet FLAG_A r2 then map_option (put_mroute r2) (prune_upstream r2 s2)
                        else Some (put_mroute r2 s2))
                     else Some (put_mroute r1 s2)
                   }
                 else Some s1
               }
           | _ \<Rightarrow> Some s))"

definition dataOnPruned :: "ipv4_addr \<Rightarrow> ipv4_addr \<Rightarrow> pim \<Rightarrow> pim option" where
  "dataOnPruned grp source s =
     do {
       r \<leftarrow> getRouteFor grp source s;
       if isFlagSet FLAG_P r \<and> mr_grt r \<noteq> None
       then do { (r1, s1) \<leftarrow> stop_graft r s; Some (put_mroute r1 s1) }
       else if \<not> isFlagSet FLAG_A r
       then map_option (\<lambda>ii. sendPimJoinPrune (ii_nextHop ii) source grp (ii_id ii) s) (mr_inInt r)
       else Some s
     }"

text \<open>Erasing an element moves the next one to its place, and the loop steps over it. The flag
  \<open>connected\<close> is kept from one route to the next.\<close>

fun erase_loop :: "int \<Rightarrow> (int \<Rightarrow> bool) \<Rightarrow> out_int list \<Rightarrow> bool \<Rightarrow> out_int list \<times> bool" where
  "erase_loop intId noNbr [] connected = ([], connected)"
| "erase_loop intId noNbr [oi] connected =
     (if oi_id oi = intId then ([], connected)
      else ([oi], connected \<or> (oi_forwarding oi = Forward \<and> noNbr (oi_id oi))))"
| "erase_loop intId noNbr (oi # oi' # ois) connected =
     (if oi_id oi = intId
      then (case erase_loop intId noNbr ois connected of (os, c) \<Rightarrow> (oi' # os, c))
      else (case erase_loop intId noNbr (oi' # ois) (connected \<or> (oi_forwarding oi = Forward \<and> noNbr (oi_id oi)))
            of (os, c) \<Rightarrow> (oi # os, c)))"

definition old_addr_route :: "int \<Rightarrow> nat \<Rightarrow> bool \<Rightarrow> pim \<Rightarrow> (bool \<times> pim) option" where
  "old_addr_route intId i connected s =
     do {
       r \<leftarrow> route_at i s;
       (case erase_loop intId (\<lambda>k. getNeighborsByIntID k s = []) (mr_outInt r) connected of
          (ois, connected1) \<Rightarrow>
            let r1 = r\<lparr>mr_outInt := ois\<rparr>; r2 = (if connected1 then r1 else removeFlag FLAG_C r1) in
            if isOilistNull r2
            then
              do {
                (r3, s1) \<leftarrow>
                  (if isFlagSet FLAG_P r2 \<and> mr_grt r2 \<noteq> None
                   then do { (r3, s1) \<leftarrow> stop_graft r2 s; s2 \<leftarrow> prune_upstream r3 s1; Some (r3, s2) }
                   else Some (r2, s));
                s3 \<leftarrow> (if \<not> isFlagSet FLAG_A r3 \<and> \<not> isFlagSet FLAG_P r3 then prune_upstream r3 s1 else Some s1);
                Some (connected1, put_mroute (addFlag FLAG_P r3) s3)
              }
            else Some (connected1, put_mroute r2 s))
     }"

fun old_addr_routes :: "int \<Rightarrow> nat list \<Rightarrow> bool \<Rightarrow> pim \<Rightarrow> (bool \<times> pim) option" where
  "old_addr_routes intId [] connected s = Some (connected, s)"
| "old_addr_routes intId (i # is) connected s =
     do { (connected1, s1) \<leftarrow> old_addr_route intId i connected s; old_addr_routes intId is connected1 s1 }"

fun old_addrs :: "int \<Rightarrow> ipv4_addr list \<Rightarrow> bool \<Rightarrow> pim \<Rightarrow> pim option" where
  "old_addrs intId [] connected s = Some s"
| "old_addrs intId (a # as) connected s =
     do {
       (connected1, s1) \<leftarrow> old_addr_routes intId (map mr_id (getRoutesForGroup a s)) connected s;
       old_addrs intId as connected1 s1
     }"

definition oldMulticastAddr :: "int \<Rightarrow> ipv4_addr list \<Rightarrow> pim \<Rightarrow> pim option" where
  "oldMulticastAddr intId addrs s = old_addrs intId addrs False s"

text \<open>An interface that is on the list already is only set to forward; its prune timer goes on.\<close>

definition new_addr_route :: "int \<Rightarrow> nat \<Rightarrow> bool \<Rightarrow> pim \<Rightarrow> (bool \<times> pim) option" where
  "new_addr_route intId i fwd s =
     do {
       r \<leftarrow> route_at i s;
       rpf \<leftarrow> isRpf intId r;
       if rpf then Some (fwd, s)
       else
         (let ois = (if getOutIdByIntId intId r < length (mr_outInt r)
                     then update_first (\<lambda>oi. oi_id oi = intId)
                            (\<lambda>oi. if oi_forwarding oi = Pruned then oi\<lparr>oi_forwarding := Forward\<rparr> else oi) (mr_outInt r)
                     else mr_outInt r @ [new_out_int intId Densemode]);
              r1 = addFlag FLAG_C (r\<lparr>mr_outInt := ois\<rparr>) in
          if isFlagSet FLAG_P r1
          then (if \<not> isFlagSet FLAG_A r1
                then do { (r2, s1) \<leftarrow> start_graft r1 s; Some (True, put_mroute r2 s1) }
                else Some (True, put_mroute (removeFlag FLAG_P r1) s))
          else Some (True, put_mroute r1 s))
     }"

fun new_addr_routes :: "int \<Rightarrow> nat list \<Rightarrow> bool \<Rightarrow> pim \<Rightarrow> (bool \<times> pim) option" where
  "new_addr_routes intId [] fwd s = Some (fwd, s)"
| "new_addr_routes intId (i # is) fwd s =
     do { (fwd1, s1) \<leftarrow> new_addr_route intId i fwd s; new_addr_routes intId is fwd1 s1 }"

fun new_addrs :: "int \<Rightarrow> ipv4_addr list \<Rightarrow> bool \<Rightarrow> pim \<Rightarrow> pim option" where
  "new_addrs intId [] fwd s = Some s"
| "new_addrs intId (a # as) fwd s =
     do {
       (fwd1, s1) \<leftarrow> new_addr_routes intId (map mr_id (getRoutesForGroup a s)) fwd s;
       new_addrs intId as fwd1 s1
     }"

definition newMulticastAddr :: "int \<Rightarrow> ipv4_addr list \<Rightarrow> pim \<Rightarrow> pim option" where
  "newMulticastAddr intId addrs s = new_addrs intId addrs False s"

text \<open>All PIM interfaces but the incoming one, which is recognised by its place in the table, that have a
  neighbour or a member of the group.\<close>

fun new_out_ints :: "ipv4_addr \<Rightarrow> (int \<Rightarrow> bool) \<Rightarrow> int \<Rightarrow> bool \<Rightarrow> pim_int list \<Rightarrow> mroute \<Rightarrow> mroute" where
  "new_out_ints grp hasNbr rpfId skipped [] r = r"
| "new_out_ints grp hasNbr rpfId skipped (p # ps) r =
     (if \<not> skipped \<and> pn_id p = rpfId then new_out_ints grp hasNbr rpfId True ps r
      else
        let oi = new_out_int (pn_id p) (if pn_mode p = Dense then Densemode else Sparsemode) in
        new_out_ints grp hasNbr rpfId skipped ps
          (if hasNbr (pn_id p) then addOutInt oi r
           else if isLocalIntMulticastAddress grp p then addOutInt oi (addFlag FLAG_C r)
           else r))"

definition dm_newMulticast :: "mroute \<Rightarrow> pim \<Rightarrow> pim option" where
  "dm_newMulticast r s =
     do {
       ii \<leftarrow> mr_inInt r;
       let r1 = new_out_ints (mr_group r) (\<lambda>k. getNeighborsByIntID k s \<noteq> []) (ii_id ii) False (pi_ints s) r;
       sr \<leftarrow> (if isFlagSet FLAG_A r1 then map_option pn_SR (getInterfaceByIntID (ii_id ii) s) else Some False);
       (r2, s1) \<leftarrow> (if sr
          then do { (t, s1) \<leftarrow> new_timer (State_Refresh (mr_origin r) (mr_group r)) SRT s; Some (r1\<lparr>mr_srt := t\<rparr>, s1) }
          else Some (r1, s));
       (t, s2) \<leftarrow> new_timer (Source_Active (mr_origin r) (mr_group r)) SAT s1;
       let r3 = r2\<lparr>mr_sat := t\<rparr>;
       if length (mr_outInt r3) = length (mr_outInt r)
       then
         (let r4 = addFlag FLAG_P r3 in
          if \<not> isFlagSet FLAG_A r4 then do { s3 \<leftarrow> prune_upstream r4 s2; addMulticastRoute r4 s3 }
          else addMulticastRoute r4 s2)
       else addMulticastRoute r3 s2
     }"

definition rpf_erase :: "int \<Rightarrow> out_int list \<Rightarrow> pim \<Rightarrow> (out_int list \<times> pim) option" where
  "rpf_erase rpfId ois s =
     (case find (\<lambda>oi. oi_id oi = rpfId) ois of
        None \<Rightarrow> Some (ois, s)
      | Some oi \<Rightarrow> do { s1 \<leftarrow> stop_if_set (oi_pruneTimer oi) s; Some (erase_first (\<lambda>oi. oi_id oi = rpfId) ois, s1) })"

definition rpfIntChange :: "pim_env \<Rightarrow> nat \<Rightarrow> pim \<Rightarrow> pim option" where
  "rpfIntChange env i s =
     do {
       r \<leftarrow> route_at i s;
       rpfId \<leftarrow> pe_interface env (mr_origin r);
       old \<leftarrow> mr_inInt r;
       if rpfId = ii_id old then Some s
       else
         do {
           n \<leftarrow> vec_at (getNeighborsByIntID rpfId s) 0;
           let r1 = r\<lparr>mr_inInt := Some \<lparr>ii_id = rpfId, ii_nextHop = nb_addr n\<rparr>\<rparr>;
           (r2, s1) \<leftarrow> (if \<not> isFlagSet FLAG_P r1 then start_graft r1 s else Some (r1, s));
           (ois, s2) \<leftarrow> rpf_erase rpfId (mr_outInt r2) s1;
           let ois1 = (if \<not> pe_down env (ii_id old) then ois @ [new_out_int (ii_id old) Densemode] else ois);
           Some (put_mroute (r2\<lparr>mr_outInt := ois1\<rparr>) s2)
         }
     }"

fun rpf_changes :: "pim_env \<Rightarrow> nat list \<Rightarrow> pim \<Rightarrow> pim option" where
  "rpf_changes env [] s = Some s"
| "rpf_changes env (i # is) s = do { s1 \<leftarrow> rpfIntChange env i s; rpf_changes env is s1 }"

text \<open>A unicast route was added.\<close>

definition dm_routeAdded :: "pim_env \<Rightarrow> ipv4_addr \<Rightarrow> pim \<Rightarrow> pim option" where
  "dm_routeAdded env dest s = rpf_changes env (map mr_id (getRoutesForSource dest s)) s"

text \<open>What is called when the state of an interface changes; the counter is shared by all routers.\<close>

definition setUpInterface :: "int \<Rightarrow> pim \<Rightarrow> int \<times> pim" where
  "setUpInterface counter s =
     (counter + 1,
      if counter mod 3 = 0
      then s\<lparr>pi_ints := map (\<lambda>p. if pn_id p = 101 \<or> pn_id p = 103 then
               (if isLocalIntMulticastAddress 0xE2010101 p then removeIntMulticastAddress 0xE2010101 p
                else addIntMulticastAddress 0xE2010101 p) else p) (pi_ints s)\<rparr>
      else s)"

end
