(* ===== verification/Pim_Sparse.thy ===== *)
theory Pim_Sparse
  imports Pim_Tables
begin

text \<open>
  PIM sparse mode, \<open>src/src/ansa/networklayer/pim/modes/pimSM.cc\<close>: the shared tree of a group hangs off the
  rendezvous point, whose address is \<open>pe_RP\<close>. The route of the shared tree has the origin 0.0.0.0; a route
  with a source is the tree of that source. A handler takes the environment and the state, and works on the
  routes in the table through their identities.
\<close>

abbreviation "KAT \<equiv> sec 180"
abbreviation "RST \<equiv> sec 60"
abbreviation "REGISTER_PROBE_TIME \<equiv> sec 5"
abbreviation "JT \<equiv> sec 60"
abbreviation "HOLDTIME \<equiv> (210 :: int)"

section \<open>Timers\<close>

text \<open>The test is on the group, which is never 0.0.0.0.\<close>

definition createKeepAliveTimer :: "ipv4_addr \<Rightarrow> ipv4_addr \<Rightarrow> pim \<Rightarrow> (nat option \<times> pim) option" where
  "createKeepAliveTimer source grp =
     new_timer (Keep_Alive source grp) (if grp = 0 then 2 * KAT else KAT)"

definition createRegisterStopTimer :: "ipv4_addr \<Rightarrow> ipv4_addr \<Rightarrow> pim \<Rightarrow> (nat option \<times> pim) option" where
  "createRegisterStopTimer source grp = new_timer (Register_Stop source grp) (RST - REGISTER_PROBE_TIME)"

definition createExpiryTimer :: "int \<Rightarrow> ipv4_addr \<Rightarrow> pim \<Rightarrow> (nat option \<times> pim) option" where
  "createExpiryTimer holdtime grp = new_timer (Expiry grp) (sec holdtime)"

definition createJoinTimer :: "ipv4_addr \<Rightarrow> ipv4_addr \<Rightarrow> ipv4_addr \<Rightarrow> pim \<Rightarrow> (nat option \<times> pim) option" where
  "createJoinTimer grp jpAddr upstreamNbr = new_timer (Join_Timer grp jpAddr upstreamNbr) JT"

section \<open>The role of the router\<close>

definition IamRP :: "pim_env \<Rightarrow> bool" where
  "IamRP env = list_ex (\<lambda>i. pe_addr env i = pe_RP env) (pe_interfaces env)"

text \<open>The classful mask of an address, and the comparison of two addresses under a mask.\<close>

definition getNetworkMask :: "ipv4_addr \<Rightarrow> ipv4_addr" where
  "getNetworkMask a =
     (if a AND 0x80000000 = 0 then 0xFF000000
      else if a AND 0xC0000000 = 0x80000000 then 0xFFFF0000
      else if a AND 0xE0000000 = 0xC0000000 then 0xFFFFFF00
      else 0)"

definition maskedAddrAreEqual :: "ipv4_addr \<Rightarrow> ipv4_addr \<Rightarrow> ipv4_addr \<Rightarrow> bool" where
  "maskedAddrAreEqual a b netmask \<longleftrightarrow> (a XOR b) AND netmask = 0"

definition IamDR :: "pim_env \<Rightarrow> ipv4_addr \<Rightarrow> bool" where
  "IamDR env sourceAddr =
     list_ex (\<lambda>i. maskedAddrAreEqual (pe_addr env i) sourceAddr (getNetworkMask sourceAddr)) (pe_interfaces env)"

section \<open>Sending\<close>

definition sendPIMJoin :: "pim_env \<Rightarrow> ipv4_addr \<Rightarrow> ipv4_addr \<Rightarrow> ipv4_addr \<Rightarrow> pim \<Rightarrow> pim option" where
  "sendPIMJoin env multGroup joinIPaddr upstreamNbr s =
     map_option
       (\<lambda>i. send_pim (JoinPrune \<lparr>jp_upstream = upstreamNbr, jp_holdTime = HOLDTIME,
               jp_groups = [\<lparr>mg_group = multGroup, mg_joined = [joinIPaddr], mg_pruned = []\<rparr>]\<rparr>)
             (pe_addr env i) all_pim_routers i s)
       (pe_interface env joinIPaddr)"

definition sendPIMRegisterNull :: "pim_env \<Rightarrow> ipv4_addr \<Rightarrow> ipv4_addr \<Rightarrow> pim \<Rightarrow> pim option" where
  "sendPIMRegisterNull env multSource multDest s =
     (if getRouteFor multDest multSource s = None then Some s
      else map_option (\<lambda>i. send_pim (Register True multSource multDest) (pe_addr env i) (pe_RP env) i s)
             (pe_interface env (pe_RP env)))"

definition restart_if_set :: "nat option \<Rightarrow> simtime \<Rightarrow> pim \<Rightarrow> pim option" where
  "restart_if_set p d s = (if p = None then Some s else restart_timer p d s)"

definition sendPIMRegister :: "pim_env \<Rightarrow> ipv4_addr \<Rightarrow> ipv4_addr \<Rightarrow> pim \<Rightarrow> pim option" where
  "sendPIMRegister env multDataDest multDataSource s =
     do {
       routeSG \<leftarrow> getRouteFor multDataDest multDataSource s;
       s1 \<leftarrow> restart_if_set (mr_kat routeSG) KAT s;
       routeG \<leftarrow> getRouteFor multDataDest 0 s;
       s2 \<leftarrow> restart_if_set (mr_kat routeG) (2 * KAT) s1;
       i \<leftarrow> pe_interface env (pe_RP env);
       st \<leftarrow> getRegStatus i routeSG;
       Some (if st = Reg_Join then send_pim (Register False multDataSource multDataDest) (pe_addr env i) (pe_RP env) i s2
             else s2)
     }"

definition sendPIMRegisterStop ::
  "pim_env \<Rightarrow> ipv4_addr \<Rightarrow> ipv4_addr \<Rightarrow> ipv4_addr \<Rightarrow> ipv4_addr \<Rightarrow> pim \<Rightarrow> pim option" where
  "sendPIMRegisterStop env source dest multGroup multSource s =
     map_option (\<lambda>i. send_pim (RegisterStop multSource multGroup) source dest i s) (pe_interface env dest)"

section \<open>Timers that expire\<close>

definition processKeepAliveTimer :: "nat \<Rightarrow> ipv4_addr \<Rightarrow> ipv4_addr \<Rightarrow> pim \<Rightarrow> pim option" where
  "processKeepAliveTimer t source grp s =
     do {
       r \<leftarrow> getRouteFor grp source s;
       s1 \<leftarrow> delete_timer (Some t) s;
       (_, s2) \<leftarrow> deleteMulticastRoute (mr_id r) (put_mroute (r\<lparr>mr_kat := None\<rparr>) s1);
       Some s2
     }"

definition processRegisterStopTimer :: "pim_env \<Rightarrow> ipv4_addr \<Rightarrow> ipv4_addr \<Rightarrow> pim \<Rightarrow> pim option" where
  "processRegisterStopTimer env source grp s = sendPIMRegisterNull env source grp s"

definition processExpiryTimer :: "nat \<Rightarrow> ipv4_addr \<Rightarrow> pim \<Rightarrow> pim option" where
  "processExpiryTimer t grp s =
     do {
       r \<leftarrow> getRouteFor grp 0 s;
       s1 \<leftarrow> delete_timer (Some t) s;
       (_, s2) \<leftarrow> deleteMulticastRoute (mr_id r) (put_mroute (r\<lparr>mr_et := None\<rparr>) s1);
       Some s2
     }"

definition processJoinTimer ::
  "pim_env \<Rightarrow> nat \<Rightarrow> ipv4_addr \<Rightarrow> ipv4_addr \<Rightarrow> ipv4_addr \<Rightarrow> pim \<Rightarrow> pim option" where
  "processJoinTimer env t grp jpAddr upstreamNbr s =
     (case getRouteFor grp 0 s of
        None \<Rightarrow> delete_timer (Some t) s
      | Some r \<Rightarrow>
          do {
            s1 \<leftarrow> (if IamRP env then Some s else sendPIMJoin env grp jpAddr upstreamNbr s);
            restart_timer (mr_jt r) JT s1
          })"

definition sm_processPIMTimer :: "pim_env \<Rightarrow> nat \<Rightarrow> timer_kind \<Rightarrow> pim \<Rightarrow> pim option" where
  "sm_processPIMTimer env t k s =
     (case k of
        Join_Timer grp jpAddr upstreamNbr \<Rightarrow> processJoinTimer env t grp jpAddr upstreamNbr s
      | Expiry grp \<Rightarrow> processExpiryTimer t grp s
      | Keep_Alive src grp \<Rightarrow> processKeepAliveTimer t src grp s
      | Register_Stop src grp \<Rightarrow> processRegisterStopTimer env src grp s
      | _ \<Rightarrow> delete_timer (Some t) s)"

section \<open>Packets\<close>

text \<open>A new shared tree: the interface of the joining router is forwarded to. The next hop towards the
  rendezvous point is the neighbour on the interface to it, which is dereferenced whether or not the router
  is the rendezvous point itself.\<close>

definition join_new_tree :: "pim_env \<Rightarrow> ipv4_addr \<Rightarrow> int \<Rightarrow> ipv4_addr \<Rightarrow> int \<Rightarrow> pim \<Rightarrow> pim option" where
  "join_new_tree env src holdTime multGroup rpInt s =
     (case alloc_mroute s of (r, s0) \<Rightarrow>
        do {
          nbr \<leftarrow> getNeighborByIntID rpInt s0;
          outId \<leftarrow> pe_interface env src;
          let r1 = addOutInt (new_out_int outId Sparsemode) (addFlag FLAG_C (addFlag FLAG_S
                     (r\<lparr>mr_origin := 0, mr_group := multGroup, mr_RP := pe_RP env,
                        mr_inInt := (if IamRP env then None else Some \<lparr>ii_id = rpInt, ii_nextHop = nb_addr nbr\<rparr>)\<rparr>)));
          (et, s1) \<leftarrow> createExpiryTimer holdTime multGroup s0;
          (jt, s2) \<leftarrow> createJoinTimer multGroup (pe_RP env) (nb_addr nbr) s1;
          s3 \<leftarrow> addMulticastRoute (r1\<lparr>mr_et := et, mr_jt := jt\<rparr>) s2;
          if IamRP env then Some s3 else sendPIMJoin env multGroup (pe_RP env) (nb_addr nbr) s3
        })"

text \<open>A join meets a source tree: at the rendezvous point or next to the source the interface becomes an
  outgoing one; at a source router whose only outgoing interface is the hidden one to the rendezvous point,
  all of them are opened.\<close>

definition join_source_tree :: "pim_env \<Rightarrow> ipv4_addr \<Rightarrow> ipv4_addr \<Rightarrow> nat \<Rightarrow> nat \<Rightarrow> pim \<Rightarrow> pim option" where
  "join_source_tree env src multGroup g i s =
     do {
       r \<leftarrow> route_at i s;
       if mr_origin r \<noteq> 0 \<and> (IamRP env \<or> IamDR env (mr_origin r))
       then
         (let s1 = (if IamRP env
                    then modify_mroute g (removeFlag FLAG_P) (modify_mroute i (\<lambda>r. addFlag FLAG_T (removeFlag FLAG_P r)) s)
                    else s) in
          if mr_outInt r = []
          then
            do {
              outId \<leftarrow> pe_interface env src;
              let oi = new_out_int outId Sparsemode;
              let s2 = modify_mroute g (addOutInt oi) (modify_mroute i (addOutInt oi) s1);
              sendPIMJoin env multGroup (mr_origin r) (case mr_inInt r of None \<Rightarrow> 0 | Some ii \<Rightarrow> ii_nextHop ii) s2
            }
          else
            Some (modify_mroute i (\<lambda>r. r\<lparr>mr_outInt := map (\<lambda>oi. oi\<lparr>oi_forwarding := Forward\<rparr>) (mr_outInt r), mr_showOutInt := True\<rparr>)
              (modify_mroute g (removeFlag FLAG_F) (modify_mroute i (removeFlag FLAG_P) s1))))
       else Some s
     }"

fun join_source_trees :: "pim_env \<Rightarrow> ipv4_addr \<Rightarrow> ipv4_addr \<Rightarrow> nat \<Rightarrow> nat list \<Rightarrow> pim \<Rightarrow> pim option" where
  "join_source_trees env src multGroup g [] s = Some s"
| "join_source_trees env src multGroup g (i # is) s =
     do { s1 \<leftarrow> join_source_tree env src multGroup g i s; join_source_trees env src multGroup g is s1 }"

text \<open>The lists of joined and pruned sources are not looked at.\<close>

fun join_groups :: "pim_env \<Rightarrow> ipv4_addr \<Rightarrow> int \<Rightarrow> mcast_group list \<Rightarrow> pim \<Rightarrow> pim option" where
  "join_groups env src holdTime [] s = Some s"
| "join_groups env src holdTime (mg # mgs) s =
     do {
       rpInt \<leftarrow> pe_interface env (pe_RP env);
       s1 \<leftarrow> (case getRouteFor (mg_group mg) 0 s of
                None \<Rightarrow> join_new_tree env src holdTime (mg_group mg) rpInt s
              | Some g \<Rightarrow>
                  do {
                    s1 \<leftarrow> join_source_trees env src (mg_group mg) (mr_id g)
                             (map mr_id (getRoutesForGroup (mg_group mg) s)) s;
                    restart_if_set (mr_et g) (sec holdTime) s1
                  });
       join_groups env src holdTime mgs s1
     }"

definition processJoinPrunePacket :: "pim_env \<Rightarrow> join_prune \<Rightarrow> pim_msg \<Rightarrow> pim \<Rightarrow> pim option" where
  "processJoinPrunePacket env jp m s = join_groups env (pm_src m) (jp_holdTime jp) (jp_groups jp) s"

text \<open>A register packet with data: both trees are created when they are missing and their keep-alive timers
  restarted. It is always answered with a register-stop packet.\<close>

definition register_shared :: "pim_env \<Rightarrow> ipv4_addr \<Rightarrow> pim \<Rightarrow> pim option" where
  "register_shared env multGroup s =
     (if getRouteFor multGroup 0 s \<noteq> None then Some s
      else
        case alloc_mroute s of (r, s0) \<Rightarrow>
          do {
            (kat, s1) \<leftarrow> createKeepAliveTimer 0 multGroup s0;
            addMulticastRoute
              (addFlag FLAG_P (addFlag FLAG_S (r\<lparr>mr_group := multGroup, mr_origin := 0, mr_RP := pe_RP env\<rparr>))\<lparr>mr_kat := kat\<rparr>) s1
          })"

definition register_source :: "pim_env \<Rightarrow> ipv4_addr \<Rightarrow> ipv4_addr \<Rightarrow> pim \<Rightarrow> pim option" where
  "register_source env multOrigin multGroup s =
     (if getRouteFor multGroup multOrigin s \<noteq> None then Some s
      else
        case alloc_mroute s of (r, s0) \<Rightarrow>
          do {
            i \<leftarrow> pe_interface env multOrigin;
            nbr \<leftarrow> getNeighborByIntID i s0;
            (kat, s1) \<leftarrow> createKeepAliveTimer multOrigin multGroup s0;
            addMulticastRoute
              (addFlag FLAG_P (r\<lparr>mr_inInt := Some \<lparr>ii_id = i, ii_nextHop = nb_addr nbr\<rparr>, mr_group := multGroup,
                 mr_origin := multOrigin, mr_RP := pe_RP env\<rparr>)\<lparr>mr_kat := kat\<rparr>) s1
          })"

definition processRegisterPacket :: "pim_env \<Rightarrow> bool \<Rightarrow> ipv4_addr \<Rightarrow> ipv4_addr \<Rightarrow> pim_msg \<Rightarrow> pim \<Rightarrow> pim option" where
  "processRegisterPacket env N multOrigin multGroup m s =
     do {
       s1 \<leftarrow> (if N then Some s
             else
               do {
                 s1 \<leftarrow> register_shared env multGroup s;
                 s2 \<leftarrow> register_source env multOrigin multGroup s1;
                 r \<leftarrow> getRouteFor multGroup multOrigin s2;
                 s3 \<leftarrow> restart_if_set (mr_kat r) KAT s2;
                 g \<leftarrow> getRouteFor multGroup 0 s3;
                 restart_if_set (mr_kat g) (2 * KAT) s3
               });
       sendPIMRegisterStop env (pm_dest m) (pm_src m) multGroup multOrigin s1
     }"

text \<open>The route is dereferenced before it is compared with a null pointer.\<close>

definition processRegisterStopPacket :: "pim_env \<Rightarrow> ipv4_addr \<Rightarrow> ipv4_addr \<Rightarrow> pim \<Rightarrow> pim option" where
  "processRegisterStopPacket env source grp s =
     do {
       (rst, s1) \<leftarrow> createRegisterStopTimer source grp s;
       r \<leftarrow> getRouteFor grp source s1;
       let r1 = r\<lparr>mr_rst := rst\<rparr>;
       intToRPId \<leftarrow> pe_interface env (pe_RP env);
       st \<leftarrow> getRegStatus intToRPId r1;
       Some (put_mroute (if st = Reg_Join then setRegStatus intToRPId Reg_Prune r1 else r1) s1)
     }"

definition sm_processPIMPkt :: "pim_env \<Rightarrow> pim_msg \<Rightarrow> pim \<Rightarrow> pim option" where
  "sm_processPIMPkt env m s =
     (case pm_pkt m of
        JoinPrune jp \<Rightarrow> processJoinPrunePacket env jp m s
      | Register N source grp \<Rightarrow> processRegisterPacket env N source grp m s
      | RegisterStop source grp \<Rightarrow> processRegisterStopPacket env source grp s
      | _ \<Rightarrow> Some s)"

section \<open>Notifications\<close>

text \<open>The first datagram of a source next to this router, whose route \<open>r\<close> the splitter made: the shared and
  the source tree, both pruned, and the register tunnel to the rendezvous point as a hidden interface.\<close>

definition newMulticastRegisterDR :: "pim_env \<Rightarrow> mroute \<Rightarrow> pim \<Rightarrow> pim option" where
  "newMulticastRegisterDR env r s =
     (case alloc_mroute s of (g, s0) \<Rightarrow>
        do {
          (kat, s1) \<leftarrow> createKeepAliveTimer (mr_origin r) (mr_group r) s0;
          (katG, s2) \<leftarrow> createKeepAliveTimer 0 (mr_group r) s1;
          rpInt \<leftarrow> pe_interface env (pe_RP env);
          let g1 = addFlag FLAG_F (addFlag FLAG_P (addFlag FLAG_S
                (g\<lparr>mr_kat := katG, mr_inInt := Some \<lparr>ii_id = rpInt, ii_nextHop = pe_RP env\<rparr>, mr_group := mr_group r,
                   mr_origin := 0, mr_RP := pe_RP env\<rparr>)));
          let r1 = addOutInt \<lparr>oi_id = rpInt, oi_forwarding = Pruned, oi_mode = Sparsemode, oi_pruneTimer = None,
                              oi_regState = Some Reg_Join\<rparr>
                     (addFlag FLAG_T (addFlag FLAG_F (addFlag FLAG_P (r\<lparr>mr_kat := kat\<rparr>)))\<lparr>mr_showOutInt := False\<rparr>);
          s3 \<leftarrow> addMulticastRoute g1 s2;
          addMulticastRoute r1 s3
        })"

text \<open>A receiver on an interface.\<close>

definition newMulticastReciever :: "pim_env \<Rightarrow> ipv4_addr \<Rightarrow> int \<Rightarrow> pim \<Rightarrow> pim option" where
  "newMulticastReciever env multGroup intId s =
     do {
       rpInt \<leftarrow> pe_interface env (pe_RP env);
       s1 \<leftarrow>
         (if getRouteFor multGroup 0 s \<noteq> None then Some s
          else
            case alloc_mroute s of (r, s0) \<Rightarrow>
              do {
                nbr \<leftarrow> getNeighborByIntID rpInt s0;
                outId \<leftarrow> (if intId \<in> set (pe_interfaces env) then Some intId else None);
                let r1 = addOutInt (new_out_int outId Sparsemode) (addFlag FLAG_C (addFlag FLAG_S
                       (r\<lparr>mr_origin := 0, mr_group := multGroup, mr_RP := pe_RP env,
                          mr_inInt := Some \<lparr>ii_id = rpInt, ii_nextHop = nb_addr nbr\<rparr>\<rparr>)));
                (et, s1) \<leftarrow> createExpiryTimer HOLDTIME multGroup s0;
                (jt, s2) \<leftarrow> createJoinTimer multGroup (pe_RP env) (nb_addr nbr) s1;
                s3 \<leftarrow> addMulticastRoute (r1\<lparr>mr_et := et, mr_jt := jt\<rparr>) s2;
                sendPIMJoin env multGroup (pe_RP env) (nb_addr nbr) s3
              });
       g \<leftarrow> getRouteFor multGroup 0 s1;
       restart_if_set (mr_et g) (sec HOLDTIME) s1
     }"

end
