(* ===== verification/Pim_Router.thy ===== *)
theory Pim_Router
  imports Pim_Dense Pim_Sparse
begin

text \<open>
  A multicast router: the splitter of \<open>src/src/ansa/networklayer/pim/PimSplitter.cc\<close>, which owns the hello
  protocol and hands packets and notifications to the mode of the interface, and the multicast forwarding of
  \<open>src/src/ansa/networklayer/ipv4/AnsaIPv4.cc\<close>. Notifications are calls to the subscribers.
\<close>

abbreviation "HT \<equiv> sec 30"

text \<open>Three and a half hello intervals.\<close>

abbreviation "NLT \<equiv> sec 105"

section \<open>The hello protocol\<close>

definition createHelloPkt :: "int \<Rightarrow> pim_msg" where
  "createHelloPkt iftID = \<lparr>pm_pkt = Hello, pm_src = 0, pm_dest = all_pim_routers, pm_intId = iftID\<rparr>"

definition sendHelloPkt :: "pim \<Rightarrow> pim option" where
  "sendHelloPkt s =
     map_option snd (new_timer Hello_Timer HT
       (s\<lparr>pi_out := pi_out s @ map (\<lambda>p. Out_Pim (createHelloPkt (pn_id p))) (pi_ints s)\<rparr>))"

text \<open>The neighbour of a new timer is the next identity of the table.\<close>

definition processHelloPkt :: "int \<Rightarrow> pim_msg \<Rightarrow> pim \<Rightarrow> pim option" where
  "processHelloPkt ver m s =
     (if \<not> isInTable (pm_intId m) (pm_src m) s
      then
        do {
          (nlt, s1) \<leftarrow> new_timer (Neighbor_Liveness (pi_nbrId s)) NLT s;
          Some (addNeighbor \<lparr>nb_id = 0, nb_intId = pm_intId m, nb_addr = pm_src m, nb_ver = ver, nb_nlt = nlt\<rparr> s1)
        }
      else do { n \<leftarrow> findNeighbor (pm_intId m) (pm_src m) s; restart_timer (nb_nlt n) NLT s })"

definition processNLTimer :: "nat \<Rightarrow> int \<Rightarrow> pim \<Rightarrow> pim option" where
  "processNLTimer t i s = delete_timer (Some t) (snd (deleteNeighbor i s))"

definition splitter_timer :: "nat \<Rightarrow> timer_kind \<Rightarrow> pim \<Rightarrow> pim option" where
  "splitter_timer t k s =
     (case k of
        Hello_Timer \<Rightarrow> do { s1 \<leftarrow> sendHelloPkt s; delete_timer (Some t) s1 }
      | Neighbor_Liveness i \<Rightarrow> processNLTimer t i s
      | _ \<Rightarrow> Some s)"

text \<open>A packet goes to the mode of the interface it came in by, and is dropped when PIM is not enabled there.\<close>

definition processPIMPkt :: "pim_env \<Rightarrow> pim_msg \<Rightarrow> pim \<Rightarrow> pim option" where
  "processPIMPkt env m s =
     (case map_option pn_mode (getInterfaceByIntID (pm_intId m) s) of
        Some Dense \<Rightarrow> dm_processPIMPkt env m s
      | Some Sparse \<Rightarrow> sm_processPIMPkt env m s
      | None \<Rightarrow> Some s)"

definition splitter_packet :: "pim_env \<Rightarrow> int \<Rightarrow> pim_msg \<Rightarrow> pim \<Rightarrow> pim option" where
  "splitter_packet env ver m s = (if pm_pkt m = Hello then processHelloPkt ver m s else processPIMPkt env m s)"

text \<open>Stage 4: the first hello is sent after \<open>u\<close>, which is drawn between 0 and 5 seconds.\<close>

definition splitter_initialize :: "simtime \<Rightarrow> pim \<Rightarrow> pim option" where
  "splitter_initialize u s = (if pi_ints s = [] then Some s else map_option snd (new_timer Hello_Timer u s))"

section \<open>Membership\<close>

text \<open>The groups reported on an interface have changed. The interface is dereferenced whether or not it is
  a PIM interface. Both notifications go to the dense mode.\<close>

definition igmpChange :: "int \<Rightarrow> ipv4_addr list \<Rightarrow> pim \<Rightarrow> pim option" where
  "igmpChange intId reported s =
     do {
       p \<leftarrow> getInterfaceByIntID intId s;
       let old = pn_mcast p;
       let new = deleteLocalIPs reported;
       let remove = filter (\<lambda>a. \<not> list_ex (\<lambda>b. a = b) new) old;
       let add = filter (\<lambda>a. \<not> list_ex (\<lambda>b. a = b) old) new;
       s1 \<leftarrow> (if remove = [] then Some s
             else oldMulticastAddr intId remove (modify_pim_int intId (fold removeIntMulticastAddress remove) s));
       if add = [] then Some s1
       else newMulticastAddr intId add (modify_pim_int intId (fold addIntMulticastAddress add) s1)
     }"

section \<open>A new stream\<close>

text \<open>The route of a new stream. Its incoming interface is the one towards the source; \<open>pe_connected\<close> says
  that the best route to the source is that of a connected network. Dense mode takes the next hop of the
  unicast route, sparse mode none.\<close>

definition newMulticast :: "pim_env \<Rightarrow> ipv4_addr \<Rightarrow> ipv4_addr \<Rightarrow> pim \<Rightarrow> pim option" where
  "newMulticast env destAddr srcAddr s =
     (case pe_interface env srcAddr of
        None \<Rightarrow> Some s
      | Some rpfId \<Rightarrow>
          (case getInterfaceByIntID rpfId s of
             None \<Rightarrow> Some s
           | Some p \<Rightarrow>
               (case alloc_mroute s of (r, s1) \<Rightarrow>
                  let r1 = r\<lparr>mr_group := destAddr, mr_origin := srcAddr\<rparr> in
                  case pn_mode p of
                    Dense \<Rightarrow>
                      dm_newMulticast
                        (if pe_connected env srcAddr
                         then addFlag FLAG_A (r1\<lparr>mr_inInt := Some \<lparr>ii_id = rpfId, ii_nextHop = srcAddr\<rparr>\<rparr>)
                         else r1\<lparr>mr_inInt := Some \<lparr>ii_id = rpfId, ii_nextHop = pe_gateway env srcAddr\<rparr>\<rparr>) s1
                  | Sparse \<Rightarrow>
                      newMulticastRegisterDR env (r1\<lparr>mr_inInt := Some \<lparr>ii_id = rpfId, ii_nextHop = 0\<rparr>\<rparr>) s1)))"

section \<open>Forwarding\<close>

text \<open>A copy for every interface that is not pruned; a source address that is not set becomes that of the
  interface.\<close>

definition send_data :: "pim_env \<Rightarrow> ipv4_addr \<Rightarrow> ipv4_addr \<Rightarrow> out_int list \<Rightarrow> pim \<Rightarrow> pim" where
  "send_data env src dest ois s =
     s\<lparr>pi_out := pi_out s @ map (\<lambda>oi. Out_Data (if src = 0 then pe_addr env (oi_id oi) else src) dest (oi_id oi))
         (filter (\<lambda>oi. oi_forwarding oi \<noteq> Pruned) ois)\<rparr>"

text \<open>Dense mode. The control information is removed when the route has just been made; then a pruned route
  does not prune the upstream router.\<close>

definition forward_dense :: "pim_env \<Rightarrow> ipv4_addr \<Rightarrow> ipv4_addr \<Rightarrow> bool \<Rightarrow> mroute \<Rightarrow> pim \<Rightarrow> pim option" where
  "forward_dense env src dest ctrl r s =
     do {
       s1 \<leftarrow> dataOnRpf r s;
       if mr_outInt r = [] \<or> isFlagSet FLAG_P r
       then if ctrl \<and> \<not> isFlagSet FLAG_A r then dataOnPruned dest src s1 else Some s1
       else Some (send_data env src dest (mr_outInt r) s1)
     }"

definition forward_sparse :: "pim_env \<Rightarrow> ipv4_addr \<Rightarrow> ipv4_addr \<Rightarrow> mroute option \<Rightarrow> mroute option \<Rightarrow> pim \<Rightarrow> pim option" where
  "forward_sparse env src dest p g s =
     (case p of
        None \<Rightarrow> do { r \<leftarrow> g; Some (send_data env src dest (mr_outInt r) s) }
      | Some r \<Rightarrow>
          let s1 = send_data env src dest (mr_outInt r) s in
          if isFlagSet FLAG_F r then sendPIMRegister env dest src s1 else Some s1)"

text \<open>A datagram from the network. A route found through a null pointer and an incoming interface without
  PIM are dereferenced.\<close>

definition routeMulticastPacket :: "pim_env \<Rightarrow> ipv4_addr \<Rightarrow> ipv4_addr \<Rightarrow> int \<Rightarrow> pim \<Rightarrow> pim option" where
  "routeMulticastPacket env src dest fromIE s =
     (let route = getRouteFor dest src s; routeG = getRouteFor dest 0 s in
      if pe_interface env src \<noteq> None \<and> pe_interface env src \<noteq> Some fromIE
      then (if \<not> pe_localMulticast env dest \<and> \<not> ip_isLinkLocalMulticast dest then dataOnNonRpf dest src fromIE s else Some s)
      else
        let s1 = (if pe_localMulticast env dest then s\<lparr>pi_out := pi_out s @ [Out_Deliver src dest]\<rparr> else s) in
        if \<not> pe_forwarding env \<or> ip_isLinkLocalMulticast dest then Some s1
        else
          do {
            p \<leftarrow> getInterfaceByIntID fromIE s1;
            let fresh = (route = None \<and> routeG = None);
            s2 \<leftarrow> (if fresh then newMulticast env dest src s1 else Some s1);
            let route1 = (if fresh then getRouteFor dest src s2 else route);
            if route1 = None \<and> routeG = None then Some s2
            else
              (case pn_mode p of
                 Dense \<Rightarrow> do { r \<leftarrow> route1; forward_dense env src dest (\<not> fresh) r s2 }
               | Sparse \<Rightarrow> forward_sparse env src dest route1 routeG s2)
          })"

datatype ip_proto = Proto_Pim int pim_pkt | Proto_Igmp | Proto_Data

text \<open>A multicast datagram from the network: IGMP reports are notified to the sparse mode, which listens when
  there are PIM interfaces, PIM packets go to
  the splitter, data is routed. \<open>member\<close> says that the interface has joined the group; then a copy is
  delivered locally, which for a PIM packet is to the splitter as well.\<close>

definition handleMulticastFromNetwork ::
  "pim_env \<Rightarrow> bool \<Rightarrow> ip_proto \<Rightarrow> nat \<Rightarrow> ipv4_addr \<Rightarrow> ipv4_addr \<Rightarrow> int \<Rightarrow> pim \<Rightarrow> pim option" where
  "handleMulticastFromNetwork env member proto ttl src dest fromIE s =
     (let deliver = (\<lambda>s. s\<lparr>pi_out := pi_out s @ [Out_Deliver src dest]\<rparr>) in
      case proto of
        Proto_Igmp \<Rightarrow>
          let s1 = (if member \<or> pe_mcastForwarding env then deliver s else s) in
          if pi_ints s = [] then Some s1 else newMulticastReciever env dest fromIE s1
      | Proto_Pim ver pkt \<Rightarrow>
          let m = \<lparr>pm_pkt = pkt, pm_src = src, pm_dest = dest, pm_intId = fromIE\<rparr> in
          do { s1 \<leftarrow> (if member then splitter_packet env ver m s else Some s); splitter_packet env ver m s1 }
      | Proto_Data \<Rightarrow>
          let s1 = (if member then deliver s else s) in
          if \<not> pe_forwarding env \<or> ip_isLinkLocalMulticast dest then Some s1
          else if ttl = 0 then Some s1
          else routeMulticastPacket env src dest fromIE s1)"

section \<open>Events\<close>

text \<open>Every timer belongs to the module that made it.\<close>

definition router_timer :: "pim_env \<Rightarrow> nat \<Rightarrow> timer_kind \<Rightarrow> pim \<Rightarrow> pim option" where
  "router_timer env t k s =
     (case k of
        Hello_Timer \<Rightarrow> splitter_timer t k s
      | Neighbor_Liveness _ \<Rightarrow> splitter_timer t k s
      | Prune_Timer _ _ _ \<Rightarrow> dm_processPIMTimer env t k s
      | Graft_Retry _ _ \<Rightarrow> dm_processPIMTimer env t k s
      | Source_Active _ _ \<Rightarrow> dm_processPIMTimer env t k s
      | State_Refresh _ _ \<Rightarrow> dm_processPIMTimer env t k s
      | _ \<Rightarrow> sm_processPIMTimer env t k s)"

text \<open>What can happen to a router: time passes, no further than to the next timer; a timer that is due goes
  off; a multicast datagram or a PIM packet addressed to the router arrives; the groups reported on an
  interface change; a unicast route is added; the state of an interface changes.\<close>

datatype pim_event = Ev_Time simtime | Ev_Timer nat
  | Ev_Datagram bool ip_proto nat ipv4_addr ipv4_addr int | Ev_Unicast int pim_msg
  | Ev_Groups int "ipv4_addr list" | Ev_Route ipv4_addr | Ev_Interface int

definition pim_handle :: "pim_env \<Rightarrow> pim_event \<Rightarrow> pim \<Rightarrow> pim option" where
  "pim_handle env ev s =
     (case ev of
        Ev_Time d \<Rightarrow>
          Some (if pi_now s \<le> d \<and> list_all (\<lambda>tm. case tmr_at tm of None \<Rightarrow> True | Some a \<Rightarrow> d \<le> a) (pi_timers s)
                then s\<lparr>pi_now := d\<rparr> else s)
      | Ev_Timer t \<Rightarrow>
          (case timer_at t s of
             None \<Rightarrow> Some s
           | Some tm \<Rightarrow>
               if tmr_at tm = Some (pi_now s)
               then router_timer env t (tmr_kind tm) (modify_timer t (\<lambda>tm. tm\<lparr>tmr_at := None\<rparr>) s)
               else Some s)
      | Ev_Datagram member proto ttl src dest fromIE \<Rightarrow> handleMulticastFromNetwork env member proto ttl src dest fromIE s
      | Ev_Unicast ver m \<Rightarrow> splitter_packet env ver m s
      | Ev_Groups intId groups \<Rightarrow> igmpChange intId groups s
      | Ev_Route dest \<Rightarrow> dm_routeAdded env dest s
      | Ev_Interface counter \<Rightarrow> Some (snd (setUpInterface counter s)))"

end
