(* ===== verification/Pim_Invariant.thy ===== *)
theory Pim_Invariant
  imports Pim_Router
begin

text \<open>
  The invariant of a dense mode router and the lemmas that carry it through the handlers. A handler is a
  computation that may fail; \<open>run_ok m Q\<close> says that it does not, and that its result satisfies \<open>Q\<close>. Timers are
  seen through \<open>timer_map\<close>, and what a handler leaves alone is a frame condition over the kinds of timer it
  works on.
\<close>

section \<open>Timers\<close>

definition timer_map :: "pim \<Rightarrow> nat \<Rightarrow> (timer_kind \<times> simtime option) option" where
  "timer_map s t = map_option (\<lambda>tm. (tmr_kind tm, tmr_at tm)) (timer_at t s)"

lemma find_map_id: "find (\<lambda>t. tmr_id t = j) (map (\<lambda>t. if tmr_id t = i then f t else t) ts)
    = (if j = i then map_option f (find (\<lambda>t. tmr_id t = j) ts) else find (\<lambda>t. tmr_id t = j) ts)"
  if "\<And>t. tmr_id (f t) = tmr_id t"
  by (induction ts) (auto simp: that)

lemma find_filter_id: "find (\<lambda>t. tmr_id t = j) (filter (\<lambda>t. tmr_id t \<noteq> i) ts) = (if j = i then None else find (\<lambda>t. tmr_id t = j) ts)"
  by (induction ts) auto

lemma find_append: "find P (xs @ ys) = (case find P xs of None \<Rightarrow> find P ys | Some x \<Rightarrow> Some x)"
  by (induction xs) auto

lemma timer_map_set_at:
  "timer_map (modify_timer i (\<lambda>t. t\<lparr>tmr_at := a\<rparr>) s) = (timer_map s)(i := map_option (\<lambda>v. (fst v, a)) (timer_map s i))"
  by (rule ext) (auto simp: timer_map_def timer_at_def modify_timer_def find_map_id option.map_comp comp_def)

definition same_rest :: "pim \<Rightarrow> pim \<Rightarrow> bool" where
  "same_rest s s' \<longleftrightarrow> pi_now s' = pi_now s \<and> pi_next s' = pi_next s \<and> pi_routes s' = pi_routes s \<and> pi_nbrs s' = pi_nbrs s
     \<and> pi_nbrId s' = pi_nbrId s \<and> pi_ints s' = pi_ints s \<and> pi_out s' = pi_out s"

lemma modify_timer_rest: "same_rest s (modify_timer i f s)"
  by (simp add: same_rest_def modify_timer_def)

lemma timer_map_None: "timer_map s t = None \<longleftrightarrow> timer_at t s = None"
  by (simp add: timer_map_def)

lemma run_restart:
  assumes "timer_map s t = Some v" and "0 \<le> d"
  shows "run_ok (restart_timer (Some t) d s)
    (\<lambda>s'. same_rest s s' \<and> timer_map s' = (timer_map s)(t \<mapsto> (fst v, Some (pi_now s + d))))"
proof -
  let ?s1 = "modify_timer t (\<lambda>tm. tm\<lparr>tmr_at := None\<rparr>) s"
  let ?s2 = "modify_timer t (\<lambda>tm. tm\<lparr>tmr_at := Some (pi_now s + d)\<rparr>) ?s1"
  have c: "cancelEvent (Some t) s = Some ?s1"
    using assms(1) by (auto simp: cancelEvent_def timer_map_def)
  have m1: "timer_map ?s1 = (timer_map s)(t \<mapsto> (fst v, None))" using assms(1) by (simp add: timer_map_set_at)
  then have "timer_map ?s1 t = Some (fst v, None)" by simp
  then obtain tm where tm: "timer_at t ?s1 = Some tm" "tmr_at tm = None" by (auto simp: timer_map_def)
  have "scheduleAt (pi_now s + d) (Some t) ?s1 = Some ?s2"
    using tm assms(2) by (simp add: scheduleAt_def modify_timer_def [of t _ s])
  moreover have "timer_map ?s2 = (timer_map s)(t \<mapsto> (fst v, Some (pi_now s + d)))"
    using m1 by (simp add: timer_map_set_at)
  ultimately show ?thesis
    using c by (simp add: restart_timer_def same_rest_def modify_timer_def)
qed

lemma run_delete:
  assumes "timer_map s t = Some v"
  shows "run_ok (delete_timer (Some t) s) (\<lambda>s'. same_rest s s' \<and> timer_map s' = (timer_map s)(t := None))"
proof -
  obtain tm where "timer_at t s = Some tm" using assms by (auto simp: timer_map_def)
  moreover have "timer_map (s\<lparr>pi_timers := filter (\<lambda>x. tmr_id x \<noteq> t) (pi_timers s)\<rparr>) = (timer_map s)(t := None)"
    by (rule ext) (simp add: timer_map_def timer_at_def find_filter_id)
  ultimately show ?thesis by (simp add: delete_timer_def same_rest_def)
qed

lemma run_stop:
  assumes "timer_map s t = Some v"
  shows "run_ok (stop_timer (Some t) s) (\<lambda>s'. same_rest s s' \<and> timer_map s' = (timer_map s)(t := None))"
proof -
  let ?s1 = "modify_timer t (\<lambda>tm. tm\<lparr>tmr_at := None\<rparr>) s"
  have c: "cancelEvent (Some t) s = Some ?s1" using assms by (auto simp: cancelEvent_def timer_map_def)
  have m1: "timer_map ?s1 = (timer_map s)(t \<mapsto> (fst v, None))" using assms by (simp add: timer_map_set_at)
  show ?thesis unfolding stop_timer_def c
    apply simp
    apply (rule run_ok_mono [OF run_delete [of _ t "(fst v, None)"]])
    using m1 by (auto simp: same_rest_def modify_timer_def)
qed

lemma run_new_timer:
  assumes "timer_map s (pi_next s) = None" and "0 \<le> d"
  shows "run_ok (new_timer k d s) (\<lambda>(p, s'). p = Some (pi_next s) \<and>
     same_rest (s\<lparr>pi_next := pi_next s + 1\<rparr>) s' \<and> timer_map s' = (timer_map s)(pi_next s \<mapsto> (k, Some (pi_now s + d))))"
proof -
  have n: "find (\<lambda>t. tmr_id t = pi_next s) (pi_timers s) = None" using assms(1) by (simp add: timer_map_def timer_at_def)
  have "timer_map (s\<lparr>pi_next := pi_next s + 1,
      pi_timers := pi_timers s @ [\<lparr>tmr_id = pi_next s, tmr_kind = k, tmr_at = Some (pi_now s + d)\<rparr>]\<rparr>)
    = (timer_map s)(pi_next s \<mapsto> (k, Some (pi_now s + d)))" (is "?l = ?r")
    by (rule ext) (use n in \<open>auto simp: timer_map_def timer_at_def find_append split: option.splits\<close>)
  then show ?thesis using assms(2) by (simp add: new_timer_def same_rest_def)
qed

section \<open>The invariant\<close>

type_synonym tmap = "nat \<Rightarrow> (timer_kind \<times> simtime option) option"

definition runs :: "tmap \<Rightarrow> nat \<Rightarrow> timer_kind \<Rightarrow> bool" where
  "runs T t k \<longleftrightarrow> (\<exists>a. T t = Some (k, Some a))"

definition lives :: "tmap \<Rightarrow> nat \<Rightarrow> timer_kind \<Rightarrow> bool" where
  "lives T t k \<longleftrightarrow> (\<exists>a. T t = Some (k, a))"

text \<open>An outgoing interface forwards or is pruned; a prune timer runs for it, and it has one when it is
  pruned.\<close>

definition out_ok :: "tmap \<Rightarrow> ipv4_addr \<Rightarrow> ipv4_addr \<Rightarrow> out_int \<Rightarrow> bool" where
  "out_ok T src grp oi \<longleftrightarrow>
     (case oi_pruneTimer oi of
        None \<Rightarrow> oi_forwarding oi = Forward
      | Some t \<Rightarrow> (oi_forwarding oi = Forward \<or> oi_forwarding oi = Pruned) \<and> runs T t (Prune_Timer src grp (oi_id oi)))"

text \<open>The incoming interface is not on the outgoing list, which names no interface twice; the timers of a
  route are live timers of that route, and its source-active timer runs.\<close>

definition olist_ok :: "int \<Rightarrow> out_int list \<Rightarrow> bool" where
  "olist_ok rpf ois \<longleftrightarrow> rpf \<notin> oi_id ` set ois \<and> distinct (map oi_id ois)"

definition route_ok :: "tmap \<Rightarrow> mroute \<Rightarrow> bool" where
  "route_ok T r \<longleftrightarrow>
     mr_origin r \<noteq> 0 \<and>
     (\<exists>ii. mr_inInt r = Some ii \<and> olist_ok (ii_id ii) (mr_outInt r)) \<and>
     (\<forall>oi\<in>set (mr_outInt r). out_ok T (mr_origin r) (mr_group r) oi) \<and>
     (\<exists>t. mr_sat r = Some t \<and> runs T t (Source_Active (mr_origin r) (mr_group r))) \<and>
     (\<forall>t. mr_srt r = Some t \<longrightarrow> lives T t (State_Refresh (mr_origin r) (mr_group r))) \<and>
     (\<forall>t. mr_grt r = Some t \<longrightarrow> lives T t (Graft_Retry (mr_origin r) (mr_group r))) \<and>
     mr_kat r = None \<and> mr_et r = None \<and> distinct (mr_flags r)"

definition fresh :: "pim \<Rightarrow> bool" where
  "fresh s \<longleftrightarrow> (\<forall>t. timer_map s t \<noteq> None \<longrightarrow> t < pi_next s)"

definition dm_kind :: "timer_kind \<Rightarrow> bool" where
  "dm_kind k \<longleftrightarrow> (case k of Keep_Alive _ _ \<Rightarrow> False | Register_Stop _ _ \<Rightarrow> False | Expiry _ \<Rightarrow> False | Join_Timer _ _ _ \<Rightarrow> False | _ \<Rightarrow> True)"

text \<open>The timers that are only ever reached through the route or the neighbour they belong to.\<close>

definition owned :: "tmap \<Rightarrow> mroute list \<Rightarrow> bool" where
  "owned T rs \<longleftrightarrow>
     (\<forall>t src grp a. T t = Some (Source_Active src grp, a) \<longrightarrow> (\<exists>r\<in>set rs. mr_origin r = src \<and> mr_group r = grp \<and> mr_sat r = Some t)) \<and>
     (\<forall>t src grp a. T t = Some (State_Refresh src grp, a) \<longrightarrow> (\<exists>r\<in>set rs. mr_origin r = src \<and> mr_group r = grp \<and> mr_srt r = Some t))"

definition nbr_ok :: "tmap \<Rightarrow> pim_nbr list \<Rightarrow> int \<Rightarrow> bool" where
  "nbr_ok T ns c \<longleftrightarrow>
     distinct (map nb_id ns) \<and> distinct (map (\<lambda>n. (nb_intId n, nb_addr n)) ns) \<and>
     (\<forall>n\<in>set ns. nb_id n < c \<and> (\<exists>t. nb_nlt n = Some t \<and> runs T t (Neighbor_Liveness (nb_id n)))) \<and>
     (\<forall>t i a. T t = Some (Neighbor_Liveness i, a) \<longrightarrow> (\<exists>n\<in>set ns. nb_id n = i \<and> nb_nlt n = Some t))"

definition routes_ok :: "tmap \<Rightarrow> nat \<Rightarrow> mroute list \<Rightarrow> bool" where
  "routes_ok T c rs \<longleftrightarrow>
     (\<forall>r\<in>set rs. mr_id r < c \<and> route_ok T r) \<and> distinct (map mr_id rs) \<and>
     distinct (map (\<lambda>r. (mr_group r, mr_origin r)) rs)"

definition dm_inv :: "pim \<Rightarrow> bool" where
  "dm_inv s \<longleftrightarrow>
     fresh s \<and> routes_ok (timer_map s) (pi_next s) (pi_routes s) \<and> owned (timer_map s) (pi_routes s) \<and>
     nbr_ok (timer_map s) (pi_nbrs s) (pi_nbrId s) \<and>
     distinct (map pn_id (pi_ints s)) \<and> (\<forall>p\<in>set (pi_ints s). pn_mode p = Dense) \<and>
     (\<forall>t k a. timer_map s t = Some (k, a) \<longrightarrow> dm_kind k)"

section \<open>What a handler leaves alone\<close>

text \<open>\<open>K\<close> holds of the kinds of timer it works on.\<close>

definition frame :: "(timer_kind \<Rightarrow> bool) \<Rightarrow> pim \<Rightarrow> pim \<Rightarrow> bool" where
  "frame K s s' \<longleftrightarrow>
     pi_now s' = pi_now s \<and> pi_next s \<le> pi_next s' \<and> pi_nbrs s' = pi_nbrs s \<and> pi_nbrId s' = pi_nbrId s \<and>
     pi_ints s' = pi_ints s \<and> pi_routes s' = pi_routes s \<and>
     (\<forall>t k a. \<not> K k \<longrightarrow> (timer_map s' t = Some (k, a) \<longleftrightarrow> timer_map s t = Some (k, a)))"

lemma frame_refl: "frame K s s"
  by (simp add: frame_def)

lemma frame_trans: "frame K s s1 \<Longrightarrow> frame K s1 s2 \<Longrightarrow> frame K s s2"
  by (simp add: frame_def)

lemma frame_out: "frame K s (s'\<lparr>pi_out := x\<rparr>) = frame K s s'"
  by (simp add: frame_def timer_map_def timer_at_def)

lemma timer_map_fields [simp]:
  "timer_map (s\<lparr>pi_out := x\<rparr>) = timer_map s" "timer_map (s\<lparr>pi_routes := rs\<rparr>) = timer_map s"
  "timer_map (s\<lparr>pi_next := n\<rparr>) = timer_map s" "timer_map (s\<lparr>pi_now := d\<rparr>) = timer_map s"
  "timer_map (s\<lparr>pi_ints := ps\<rparr>) = timer_map s" "timer_map (s\<lparr>pi_nbrs := ns\<rparr>) = timer_map s"
  "timer_map (s\<lparr>pi_nbrId := i\<rparr>) = timer_map s"
  by (simp_all add: timer_map_def timer_at_def fun_eq_iff)

definition prune_or_graft :: "ipv4_addr \<Rightarrow> ipv4_addr \<Rightarrow> timer_kind \<Rightarrow> bool" where
  "prune_or_graft src grp k \<longleftrightarrow> k = Graft_Retry src grp \<or> (\<exists>i. k = Prune_Timer src grp i)"

text \<open>A route and a state that a handler has got to from \<open>r0\<close> and \<open>s0\<close>.\<close>

definition good :: "mroute \<Rightarrow> pim \<Rightarrow> mroute \<Rightarrow> pim \<Rightarrow> bool" where
  "good r0 s0 r s \<longleftrightarrow>
     frame (prune_or_graft (mr_origin r0) (mr_group r0)) s0 s \<and> fresh s \<and> route_ok (timer_map s) r \<and>
     mr_id r = mr_id r0 \<and> mr_origin r = mr_origin r0 \<and> mr_group r = mr_group r0 \<and> mr_sat r = mr_sat r0 \<and> mr_srt r = mr_srt r0"

lemma frame_same_rest: "same_rest s s' \<Longrightarrow> (\<And>t k a. \<not> K k \<Longrightarrow> timer_map s' t = Some (k, a) \<longleftrightarrow> timer_map s t = Some (k, a)) \<Longrightarrow> frame K s s'"
  by (simp add: frame_def same_rest_def)

lemma good_refl: "fresh s \<Longrightarrow> route_ok (timer_map s) r \<Longrightarrow> good r s r s"
  by (simp add: good_def frame_refl)

lemma good_send [simp]: "good r0 s0 r (send_pim pkt src dest i s) = good r0 s0 r s"
  by (simp add: good_def send_pim_def frame_out fresh_def)

lemma good_inInt: "good r0 s0 r s \<Longrightarrow> \<exists>ii. mr_inInt r = Some ii"
  by (auto simp: good_def route_ok_def)

lemma good_prune_upstream: "good r0 s0 r s \<Longrightarrow> run_ok (prune_upstream r s) (\<lambda>s'. good r0 s0 r s')"
  using good_inInt [of r0 s0 r s] by (auto simp: prune_upstream_def sendPimJoinPrune_def)

lemma distinct_flags [simp]:
  "distinct (mr_flags r) \<Longrightarrow> distinct (mr_flags (addFlag f r))" "distinct (mr_flags r) \<Longrightarrow> distinct (mr_flags (removeFlag f r))"
proof -
  show "distinct (mr_flags r) \<Longrightarrow> distinct (mr_flags (addFlag f r))"
    by (auto simp: addFlag_def isFlagSet_def list_ex_iff)
  show "distinct (mr_flags r) \<Longrightarrow> distinct (mr_flags (removeFlag f r))"
    using distinct_map_erase_first [of id "mr_flags r"] by (simp add: removeFlag_def)
qed

lemma good_flags [simp]:
  "good r0 s0 r s \<Longrightarrow> good r0 s0 (addFlag f r) s" "good r0 s0 r s \<Longrightarrow> good r0 s0 (removeFlag f r) s"
proof -
  have same: "good r0 s0 (r\<lparr>mr_flags := fs\<rparr>) s" if "good r0 s0 r s" "distinct fs" for fs
    using that by (auto simp: good_def route_ok_def)
  have a: "addFlag f r = r\<lparr>mr_flags := mr_flags (addFlag f r)\<rparr>" and d: "removeFlag f r = r\<lparr>mr_flags := mr_flags (removeFlag f r)\<rparr>"
    by (simp_all add: addFlag_def removeFlag_def)
  assume g: "good r0 s0 r s"
  then have "distinct (mr_flags r)" by (simp add: good_def route_ok_def)
  then show "good r0 s0 (addFlag f r) s" "good r0 s0 (removeFlag f r) s"
    using same [OF g] by (subst a, simp, subst d, simp)
qed

text \<open>A change of one timer is not seen by what is said about a timer of another kind.\<close>

lemma runs_upd: "runs T u k \<Longrightarrow> map_option fst (T t) \<noteq> Some k \<Longrightarrow> runs (T(t := v)) u k"
  and lives_upd: "lives T u k \<Longrightarrow> map_option fst (T t) \<noteq> Some k \<Longrightarrow> lives (T(t := v)) u k"
  by (auto simp: runs_def lives_def)

lemma out_ok_upd:
  "out_ok T src grp oi \<Longrightarrow> map_option fst (T t) \<noteq> Some (Prune_Timer src grp (oi_id oi)) \<Longrightarrow> out_ok (T(t := v)) src grp oi"
  by (auto simp: out_ok_def intro: runs_upd split: option.splits)

lemma route_ok_upd:
  assumes "route_ok T r"
    and "map_option fst (T t) \<notin> Some ` {Source_Active (mr_origin r) (mr_group r), State_Refresh (mr_origin r) (mr_group r)}"
    and "map_option fst (T t) = Some (Graft_Retry (mr_origin r) (mr_group r)) \<Longrightarrow> mr_grt r' = None"
    and "\<And>oi. oi \<in> set (mr_outInt r') \<Longrightarrow> out_ok (T(t := v)) (mr_origin r) (mr_group r) oi"
    and "\<And>ii. mr_inInt r = Some ii \<Longrightarrow> olist_ok (ii_id ii) (mr_outInt r) \<Longrightarrow> \<exists>ii. mr_inInt r' = Some ii \<and> olist_ok (ii_id ii) (mr_outInt r')"
    and "mr_origin r' = mr_origin r" "mr_group r' = mr_group r" "mr_sat r' = mr_sat r" "mr_srt r' = mr_srt r"
      "mr_kat r' = mr_kat r" "mr_et r' = mr_et r" "mr_flags r' = mr_flags r" "mr_grt r' = mr_grt r \<or> mr_grt r' = None \<or> (\<exists>u. mr_grt r' = Some u \<and> lives (T(t := v)) u (Graft_Retry (mr_origin r) (mr_group r)))"
  shows "route_ok (T(t := v)) r'"
proof -
  note r = assms(1) [unfolded route_ok_def]
  have "\<exists>u. mr_sat r' = Some u \<and> runs (T(t := v)) u (Source_Active (mr_origin r) (mr_group r))"
    using r assms(2,8) by (fastforce intro: runs_upd)
  moreover have "lives (T(t := v)) u (State_Refresh (mr_origin r) (mr_group r))" if "mr_srt r' = Some u" for u
    using r assms(2,9) that by (auto intro: lives_upd)
  moreover have "lives (T(t := v)) u (Graft_Retry (mr_origin r) (mr_group r))" if "mr_grt r' = Some u" for u
    using r assms(3,13) that by (auto intro: lives_upd)
  ultimately show ?thesis using r assms(4-7,10-12) by (auto simp: route_ok_def)
qed

lemma good_upd:
  assumes g: "good r0 s0 r s"
    and s': "same_rest (s\<lparr>pi_next := n\<rparr>) s'" "timer_map s' = (timer_map s)(t := v)" "pi_next s \<le> n" "v \<noteq> None \<Longrightarrow> t < n"
    and k: "\<And>k. Some k = map_option fst (timer_map s t) \<or> Some k = map_option fst v \<Longrightarrow> prune_or_graft (mr_origin r) (mr_group r) k"
    and r': "route_ok (timer_map s') r'" "mr_id r' = mr_id r" "mr_origin r' = mr_origin r" "mr_group r' = mr_group r"
      "mr_sat r' = mr_sat r" "mr_srt r' = mr_srt r"
  shows "good r0 s0 r' s'"
proof -
  let ?K = "prune_or_graft (mr_origin r) (mr_group r)"
  have "timer_map s' u = Some (k, a) \<longleftrightarrow> timer_map s u = Some (k, a)" if "\<not> ?K k" for u k a
    using k [of k] that by (cases "u = t") (auto simp: s'(2))
  then have "frame ?K s s'" using s'(1,3) by (simp add: frame_def same_rest_def)
  moreover have "fresh s'" using g s' by (auto simp: good_def fresh_def same_rest_def split: if_splits) (meson less_le_trans option.exhaust)+
  ultimately show ?thesis using g r' by (auto simp: good_def intro: frame_trans)
qed

lemma fresh_None: "fresh s \<Longrightarrow> timer_map s (pi_next s) = None"
  by (meson fresh_def less_irrefl)

lemma good_stop_graft:
  assumes g: "good r0 s0 r s" and t: "mr_grt r \<noteq> None"
  shows "run_ok (stop_graft r s) (\<lambda>(r', s'). good r0 s0 r' s' \<and> r' = r\<lparr>mr_grt := None\<rparr>)"
proof -
  obtain t where t: "mr_grt r = Some t" using t by blast
  have r: "route_ok (timer_map s) r" using g by (simp add: good_def)
  with t obtain a where T: "timer_map s t = Some (Graft_Retry (mr_origin r) (mr_group r), a)"
    by (auto simp: route_ok_def lives_def)
  have "good r0 s0 (r\<lparr>mr_grt := None\<rparr>) s'" if "same_rest s s'" "timer_map s' = (timer_map s)(t := None)" for s'
  proof (rule good_upd [OF g])
    show "route_ok (timer_map s') (r\<lparr>mr_grt := None\<rparr>)"
      unfolding that(2) by (rule route_ok_upd [OF r]) (use r T in \<open>auto simp: route_ok_def intro: out_ok_upd\<close>)
  qed (use that T in \<open>auto simp: prune_or_graft_def same_rest_def\<close>)
  then show ?thesis using run_ok_mono [OF run_stop [OF T]] by (simp add: stop_graft_def t run_ok_mono)
qed

lemma good_start_graft:
  assumes g: "good r0 s0 r s"
  shows "run_ok (start_graft r s) (\<lambda>(r', s'). good r0 s0 r' s' \<and> (\<exists>t. r' = r\<lparr>mr_grt := t\<rparr>))"
proof -
  obtain ii where ii: "mr_inInt r = Some ii" using good_inInt [OF g] by blast
  define s1 where "s1 = sendPimGraft (ii_nextHop ii) (mr_origin r) (mr_group r) (ii_id ii) s"
  have g1: "good r0 s0 r s1" using g by (simp add: s1_def sendPimGraft_def)
  have r: "route_ok (timer_map s1) r" using g1 by (simp add: good_def)
  have n: "timer_map s1 (pi_next s1) = None" using g1 by (simp add: good_def fresh_None)
  let ?k = "Graft_Retry (mr_origin r) (mr_group r)"
  have "good r0 s0 (r\<lparr>mr_grt := Some (pi_next s1)\<rparr>) s'"
    if "same_rest (s1\<lparr>pi_next := pi_next s1 + 1\<rparr>) s'" "timer_map s' = (timer_map s1)(pi_next s1 \<mapsto> (?k, Some (pi_now s1 + GRT)))" for s'
  proof (rule good_upd [OF g1 that])
    show "route_ok (timer_map s') (r\<lparr>mr_grt := Some (pi_next s1)\<rparr>)"
      unfolding that(2) by (rule route_ok_upd [OF r]) (use r n in \<open>auto simp: route_ok_def lives_def intro: out_ok_upd\<close>)
  qed (use n in \<open>auto simp: prune_or_graft_def\<close>)
  then have "run_ok (new_timer ?k GRT s1) (\<lambda>p. good r0 s0 (r\<lparr>mr_grt := fst p\<rparr>) (snd p))"
    by (intro run_ok_mono [OF run_new_timer [OF n]]) (auto simp: sec_def)
  then have "run_ok (new_timer ?k GRT s1) (\<lambda>p. good r0 s0 (r\<lparr>mr_grt := fst p\<rparr>) (snd p) \<and> (\<exists>t. r\<lparr>mr_grt := fst p\<rparr> = r\<lparr>mr_grt := t\<rparr>))"
    by (rule run_ok_mono) auto
  then show ?thesis
    by (simp add: start_graft_def graft_upstream_def ii s1_def case_prod_unfold)
qed

text \<open>The list of outgoing interfaces: a change without a timer, and the change of one element with its prune
  timer.\<close>

lemma good_outInt:
  "good r0 s0 r s \<Longrightarrow> (\<And>ii. mr_inInt r = Some ii \<Longrightarrow> olist_ok (ii_id ii) ois)
   \<Longrightarrow> (\<And>oi. oi \<in> set ois \<Longrightarrow> out_ok (timer_map s) (mr_origin r) (mr_group r) oi)
   \<Longrightarrow> good r0 s0 (r\<lparr>mr_outInt := ois\<rparr>) s"
  by (auto simp: good_def route_ok_def)

lemma olist_ok_ids: "map oi_id ois' = map oi_id ois \<Longrightarrow> olist_ok rpf ois' = olist_ok rpf ois"
  by (simp add: olist_ok_def) (metis list.set_map)

lemma good_route: "good r0 s0 r s \<Longrightarrow> route_ok (timer_map s) r"
  by (simp add: good_def)

lemma good_out_upd:
  assumes g: "good r0 s0 r s" and r: "mr_outInt r = pre @ oi # post"
    and s': "same_rest (s\<lparr>pi_next := n\<rparr>) s'" "timer_map s' = (timer_map s)(t := v)" "pi_next s \<le> n" "v \<noteq> None \<Longrightarrow> t < n"
    and k: "map_option fst (timer_map s t) \<in> {None, Some (Prune_Timer (mr_origin r) (mr_group r) (oi_id oi))}"
      "map_option fst v \<in> {None, Some (Prune_Timer (mr_origin r) (mr_group r) (oi_id oi))}"
    and oi': "oi_id oi' = oi_id oi" "out_ok (timer_map s') (mr_origin r) (mr_group r) oi'"
  shows "good r0 s0 (r\<lparr>mr_outInt := pre @ oi' # post\<rparr>) s'"
proof (rule good_upd [OF g s'])
  note ok = good_route [OF g]
  have d: "distinct (map oi_id (pre @ oi # post))" using ok r by (auto simp: route_ok_def olist_ok_def)
  have o: "out_ok ((timer_map s)(t := v)) (mr_origin r) (mr_group r) x" if x: "x \<in> set pre \<union> set post" for x
  proof (rule out_ok_upd)
    show "out_ok (timer_map s) (mr_origin r) (mr_group r) x" using ok r x by (auto simp: route_ok_def)
    have "oi_id x \<in> oi_id ` (set pre \<union> set post)" using x by (rule imageI)
    then have "oi_id x \<noteq> oi_id oi" using d by auto
    then show "map_option fst (timer_map s t) \<noteq> Some (Prune_Timer (mr_origin r) (mr_group r) (oi_id x))" using k(1) by auto
  qed
  show "route_ok (timer_map s') (r\<lparr>mr_outInt := pre @ oi' # post\<rparr>)"
    unfolding s'(2)
  proof (rule route_ok_upd [OF ok])
    show "\<And>ii. mr_inInt r = Some ii \<Longrightarrow> olist_ok (ii_id ii) (mr_outInt r) \<Longrightarrow>
       \<exists>ii. mr_inInt (r\<lparr>mr_outInt := pre @ oi' # post\<rparr>) = Some ii \<and> olist_ok (ii_id ii) (mr_outInt (r\<lparr>mr_outInt := pre @ oi' # post\<rparr>))"
      using olist_ok_ids [of "pre @ oi' # post" "mr_outInt r"] by (simp add: r oi'(1))
  qed (use o oi'(2) s'(2) k(1) in \<open>auto simp del: fun_upd_apply\<close>)
  show "\<And>k. Some k = map_option fst (timer_map s t) \<or> Some k = map_option fst v \<Longrightarrow> prune_or_graft (mr_origin r) (mr_group r) k"
    using k by (auto simp: prune_or_graft_def)
qed simp_all

lemma good_prune_out:
  assumes g: "good r0 s0 r s" and r: "mr_outInt r = pre @ oi # post" and d: "0 \<le> d"
  shows "run_ok (new_timer (Prune_Timer (mr_origin r) (mr_group r) (oi_id oi)) d s)
    (\<lambda>(t, s'). good r0 s0 (r\<lparr>mr_outInt := pre @ oi\<lparr>oi_forwarding := Pruned, oi_pruneTimer := t\<rparr> # post\<rparr>) s' \<and> t \<noteq> None)"
proof -
  have n: "timer_map s (pi_next s) = None" using g by (simp add: good_def fresh_None)
  show ?thesis
    by (rule run_ok_mono [OF run_new_timer [OF n d]])
      (auto simp: n out_ok_def runs_def intro!: good_out_upd [OF g r])
qed

lemma good_out_timer:
  assumes "good r0 s0 r s" "oi \<in> set (mr_outInt r)" "oi_pruneTimer oi = Some t"
  shows "\<exists>a. timer_map s t = Some (Prune_Timer (mr_origin r) (mr_group r) (oi_id oi), Some a)"
  using assms by (auto simp: good_def route_ok_def out_ok_def runs_def)

lemma good_pruned_timer:
  assumes "good r0 s0 r s" "oi \<in> set (mr_outInt r)" "oi_forwarding oi = Pruned"
  shows "\<exists>t. oi_pruneTimer oi = Some t"
  using assms by (auto simp: good_def route_ok_def out_ok_def split: option.splits)

lemma good_restart_out:
  assumes g: "good r0 s0 r s" and oi: "oi \<in> set (mr_outInt r)" "oi_forwarding oi = Pruned" and d: "0 \<le> d"
  shows "run_ok (restart_timer (oi_pruneTimer oi) d s) (good r0 s0 r)"
proof -
  obtain t where t: "oi_pruneTimer oi = Some t" using good_pruned_timer [OF g oi] by blast
  obtain a where T: "timer_map s t = Some (Prune_Timer (mr_origin r) (mr_group r) (oi_id oi), Some a)"
    using good_out_timer [OF g oi(1) t] by blast
  obtain pre post where r: "mr_outInt r = pre @ oi # post" using oi(1) split_list by metis
  have l: "t < pi_next s" using T g by (auto simp: good_def fresh_def)
  have "good r0 s0 r s'" if "same_rest s s'" "timer_map s' = (timer_map s)(t \<mapsto> (Prune_Timer (mr_origin r) (mr_group r) (oi_id oi), Some a'))" for s' a'
  proof -
    have "good r0 s0 (r\<lparr>mr_outInt := pre @ oi # post\<rparr>) s'"
      using that l T t oi(2) by (intro good_out_upd [OF g r, where n = "pi_next s"]) (auto simp: out_ok_def runs_def)
    then show ?thesis by (simp flip: r)
  qed
  then show ?thesis using run_ok_mono [OF run_restart [OF T d]] by (simp add: t run_ok_ex)
qed

lemma good_forward_out:
  assumes g: "good r0 s0 r s" and r: "mr_outInt r = pre @ oi # post" and p: "oi_forwarding oi = Pruned"
  shows "run_ok (stop_timer (oi_pruneTimer oi) s)
    (\<lambda>s'. good r0 s0 (r\<lparr>mr_outInt := pre @ oi\<lparr>oi_forwarding := Forward, oi_pruneTimer := None\<rparr> # post\<rparr>) s')"
proof -
  obtain t where t: "oi_pruneTimer oi = Some t" using good_pruned_timer [OF g _ p] r by auto
  obtain a where T: "timer_map s t = Some (Prune_Timer (mr_origin r) (mr_group r) (oi_id oi), Some a)"
    using good_out_timer [OF g _ t] r by auto
  show ?thesis unfolding t
    by (rule run_ok_mono [OF run_stop [OF T]])
      (auto simp: T out_ok_def intro!: good_out_upd [OF g r, where n = "pi_next s"])
qed

end
