(* ===== verification/Pim_Handlers.thy ===== *)
theory Pim_Handlers
  imports Pim_Invariant
begin

text \<open>
  The handlers of dense mode, one lemma each: from a state that satisfies the invariant the handler does not
  fail, under the conditions that its lemma names, and the invariant holds again.
\<close>

section \<open>Writing a route back\<close>

definition route_keys :: "pim \<Rightarrow> (ipv4_addr \<times> ipv4_addr) list" where
  "route_keys s = map (\<lambda>r. (mr_group r, mr_origin r)) (pi_routes s)"

lemma getRouteFor_None: "getRouteFor grp src s = None \<longleftrightarrow> (grp, src) \<notin> set (route_keys s)"
  by (auto simp: getRouteFor_def find_None_all route_keys_def)

lemma getRouteFor_Some: "getRouteFor grp src s = Some r \<Longrightarrow> r \<in> set (pi_routes s) \<and> mr_group r = grp \<and> mr_origin r = src"
  by (auto simp: getRouteFor_def dest: find_Some_in)

text \<open>What a handler that works on one route promises.\<close>

definition kept :: "pim \<Rightarrow> pim \<Rightarrow> bool" where
  "kept s s' \<longleftrightarrow> dm_inv s' \<and> route_keys s' = route_keys s \<and> map mr_id (pi_routes s') = map mr_id (pi_routes s) \<and>
     pi_nbrs s' = pi_nbrs s \<and> map pn_id (pi_ints s') = map pn_id (pi_ints s) \<and> pi_now s' = pi_now s"

lemma kept_refl: "dm_inv s \<Longrightarrow> kept s s"
  by (simp add: kept_def)

lemma kept_trans: "kept s s1 \<Longrightarrow> kept s1 s2 \<Longrightarrow> kept s s2"
  by (simp add: kept_def)

lemma dm_inv_good: "dm_inv s \<Longrightarrow> r \<in> set (pi_routes s) \<Longrightarrow> good r s r s"
  by (simp add: dm_inv_def routes_ok_def good_refl)

lemma dm_inv_send [simp]: "dm_inv (send_pim pkt src dest i s) = dm_inv s"
  by (simp add: dm_inv_def send_pim_def fresh_def)

lemma kept_send [simp]: "kept s0 (send_pim pkt src dest i s) = kept s0 s"
  by (simp add: kept_def) (simp add: send_pim_def route_keys_def)

lemma route_ok_frame:
  assumes r: "route_ok T r"
    and k: "\<And>t k a. k \<in> {Source_Active (mr_origin r) (mr_group r), State_Refresh (mr_origin r) (mr_group r),
        Graft_Retry (mr_origin r) (mr_group r)} \<union> range (Prune_Timer (mr_origin r) (mr_group r))
      \<Longrightarrow> T t = Some (k, a) \<Longrightarrow> T' t = Some (k, a)"
  shows "route_ok T' r"
proof -
  have "out_ok T' (mr_origin r) (mr_group r) oi" if "out_ok T (mr_origin r) (mr_group r) oi" for oi
    using that k [of "Prune_Timer (mr_origin r) (mr_group r) (oi_id oi)"] by (auto simp: out_ok_def runs_def split: option.splits)
  then show ?thesis using r k unfolding route_ok_def runs_def lives_def by blast
qed

lemma prune_or_graft_kind: "prune_or_graft src grp k \<Longrightarrow> dm_kind k"
  by (auto simp: prune_or_graft_def dm_kind_def)

lemma dm_inv_kind: "dm_inv s \<Longrightarrow> timer_map s t = Some (k, a) \<Longrightarrow> dm_kind k"
  unfolding dm_inv_def by blast

lemma owned_sat: "owned T rs \<Longrightarrow> T t = Some (Source_Active src grp, a) \<Longrightarrow> \<exists>r\<in>set rs. mr_origin r = src \<and> mr_group r = grp \<and> mr_sat r = Some t"
  and owned_srt: "owned T rs \<Longrightarrow> T t = Some (State_Refresh src grp, a) \<Longrightarrow> \<exists>r\<in>set rs. mr_origin r = src \<and> mr_group r = grp \<and> mr_srt r = Some t"
  unfolding owned_def by blast+

lemma dm_inv_owned: "dm_inv s \<Longrightarrow> owned (timer_map s) (pi_routes s)"
  by (simp add: dm_inv_def)

lemma kept_put:
  assumes inv: "dm_inv s" and r: "r \<in> set (pi_routes s)" and g: "good r s r' s'"
  shows "kept s (put_mroute r' s')"
proof -
  let ?src = "mr_origin r" and ?grp = "mr_group r" and ?T' = "timer_map s'"
  let ?rs = "map (\<lambda>x. if mr_id x = mr_id r' then r' else x) (pi_routes s)"
  have rs: "pi_routes s' = pi_routes s" and g': "mr_id r' = mr_id r" "mr_origin r' = ?src" "mr_group r' = ?grp"
      "mr_sat r' = mr_sat r" "mr_srt r' = mr_srt r" "fresh s'" "route_ok ?T' r'" "pi_next s \<le> pi_next s'"
    using g by (auto simp: good_def frame_def)
  have T': "?T' t = Some (k, a) \<longleftrightarrow> timer_map s t = Some (k, a)" if "\<not> prune_or_graft ?src ?grp k" for t k a
    using g that by (simp add: good_def frame_def)
  from inv have ok: "\<And>x. x \<in> set (pi_routes s) \<Longrightarrow> mr_id x < pi_next s \<and> route_ok (timer_map s) x"
    and ids: "distinct (map mr_id (pi_routes s))" and keys: "distinct (map (\<lambda>r. (mr_group r, mr_origin r)) (pi_routes s))"
    by (auto simp: dm_inv_def routes_ok_def)
  have same: "x = r" if "x \<in> set (pi_routes s)" "mr_id x = mr_id r" for x
    using ids r that by (auto dest: inj_onD simp: distinct_map)
  have mid: "map mr_id ?rs = map mr_id (pi_routes s)" and mkey: "map (\<lambda>r. (mr_group r, mr_origin r)) ?rs = map (\<lambda>r. (mr_group r, mr_origin r)) (pi_routes s)"
    using same g' by auto
  have "route_ok ?T' x" if x: "x \<in> set (pi_routes s)" "x \<noteq> r" for x
  proof (rule route_ok_frame)
    have "(mr_group x, mr_origin x) \<noteq> (?grp, ?src)" using keys r x by (auto dest: inj_onD simp: distinct_map)
    then show "\<And>t k a. k \<in> {Source_Active (mr_origin x) (mr_group x), State_Refresh (mr_origin x) (mr_group x),
        Graft_Retry (mr_origin x) (mr_group x)} \<union> range (Prune_Timer (mr_origin x) (mr_group x))
      \<Longrightarrow> timer_map s t = Some (k, a) \<Longrightarrow> ?T' t = Some (k, a)"
      by (subst T') (auto simp: prune_or_graft_def)
  qed (use ok x in auto)
  moreover have "mr_id x < pi_next s'" if "x \<in> set (pi_routes s)" for x
    using ok [OF that] g'(8) by (meson less_le_trans)
  ultimately have "routes_ok ?T' (pi_next s') ?rs"
    using g' mid mkey keys ids same r by (auto simp: routes_ok_def simp del: map_map)
  moreover have "owned ?T' ?rs"
    unfolding owned_def
  proof (intro conjI allI impI)
    fix t src grp a assume "?T' t = Some (Source_Active src grp, a)"
    then have "timer_map s t = Some (Source_Active src grp, a)" using T' by (simp add: prune_or_graft_def)
    then obtain x where "x \<in> set (pi_routes s)" "mr_origin x = src \<and> mr_group x = grp \<and> mr_sat x = Some t"
      using owned_sat [OF dm_inv_owned [OF inv]] by blast
    then show "\<exists>x\<in>set ?rs. mr_origin x = src \<and> mr_group x = grp \<and> mr_sat x = Some t"
      using same g' by (intro bexI [of _ "if mr_id x = mr_id r' then r' else x"]) auto
  next
    fix t src grp a assume "?T' t = Some (State_Refresh src grp, a)"
    then have "timer_map s t = Some (State_Refresh src grp, a)" using T' by (simp add: prune_or_graft_def)
    then obtain x where "x \<in> set (pi_routes s)" "mr_origin x = src \<and> mr_group x = grp \<and> mr_srt x = Some t"
      using owned_srt [OF dm_inv_owned [OF inv]] by blast
    then show "\<exists>x\<in>set ?rs. mr_origin x = src \<and> mr_group x = grp \<and> mr_srt x = Some t"
      using same g' by (intro bexI [of _ "if mr_id x = mr_id r' then r' else x"]) auto
  qed
  moreover have "nbr_ok ?T' (pi_nbrs s) (pi_nbrId s)"
  proof -
    have n: "?T' t = Some (Neighbor_Liveness i, a) \<longleftrightarrow> timer_map s t = Some (Neighbor_Liveness i, a)" for t i a
      by (rule T') (simp add: prune_or_graft_def)
    then show ?thesis using inv by (simp add: dm_inv_def nbr_ok_def runs_def)
  qed
  moreover have "dm_kind k" if "?T' t = Some (k, a)" for t k a
  proof (cases "prune_or_graft ?src ?grp k")
    case False
    then show ?thesis using dm_inv_kind [OF inv] that T' by metis
  qed (rule prune_or_graft_kind)
  ultimately have "dm_inv (put_mroute r' s')"
    using inv g rs g'(6) by (auto simp: dm_inv_def put_mroute_def modify_mroute_def fresh_def good_def frame_def)
  moreover have "pi_routes (put_mroute r' s') = ?rs" by (simp add: put_mroute_def modify_mroute_def rs)
  ultimately show ?thesis
    using g mid mkey unfolding kept_def route_keys_def by (simp add: put_mroute_def modify_mroute_def good_def frame_def)
qed

section \<open>Grafts and prunes\<close>

lemma route_outInt_id [simp]: "r\<lparr>mr_outInt := mr_outInt r\<rparr> = r"
  by simp

lemma graft_loop_good:
  "good r0 s0 (r\<lparr>mr_outInt := pre @ ois\<rparr>) s \<Longrightarrow>
   run_ok (graft_loop i ois s) (\<lambda>(fwd, ois', s'). good r0 s0 (r\<lparr>mr_outInt := pre @ ois'\<rparr>) s' \<and> (fwd \<longleftrightarrow> i \<in> oi_id ` set ois))"
proof (induction ois arbitrary: pre s)
  case (Cons oi ois)
  have step: "run_ok (graft_loop i ois s') (\<lambda>(fwd, ois', s''). good r0 s0 (r\<lparr>mr_outInt := pre @ oi' # ois'\<rparr>) s'' \<and> (fwd \<longleftrightarrow> i \<in> oi_id ` set ois))"
    if "good r0 s0 (r\<lparr>mr_outInt := pre @ oi' # ois\<rparr>) s'" for oi' s'
    using Cons.IH [of "pre @ [oi']" s'] that by simp
  have run: "run_ok (do { (fwd, ois1, s1) \<leftarrow> graft_loop i ois s'; Some (b fwd, oi' # ois1, s1) })
      (\<lambda>(fwd, ois', s'). good r0 s0 (r\<lparr>mr_outInt := pre @ ois'\<rparr>) s' \<and> (fwd \<longleftrightarrow> i \<in> oi_id ` set (oi # ois)))"
    if "good r0 s0 (r\<lparr>mr_outInt := pre @ oi' # ois\<rparr>) s'" "\<And>f. (f \<longleftrightarrow> i \<in> oi_id ` set ois) \<Longrightarrow> b f \<longleftrightarrow> i \<in> oi_id ` set (oi # ois)" for oi' s' b
    using that(2) by (auto intro!: run_ok_mono [OF step [OF that(1)]])
  consider (pruned) "oi_id oi = i" "oi_forwarding oi = Pruned" | (forward) "oi_id oi = i" "oi_forwarding oi \<noteq> Pruned" | (other) "oi_id oi \<noteq> i"
    by blast
  then show ?case
  proof cases
    case pruned
    have "run_ok (stop_timer (oi_pruneTimer oi) s)
        (\<lambda>s'. good r0 s0 (r\<lparr>mr_outInt := pre @ oi\<lparr>oi_forwarding := Forward, oi_pruneTimer := None\<rparr> # ois\<rparr>) s')"
      using good_forward_out [OF Cons.prems _ pruned(2), where pre = pre and post = ois] by simp
    then show ?thesis using pruned run [where b = "\<lambda>_. True"] by (auto intro: run_ok_mono)
  next
    case forward
    then show ?thesis using run [OF Cons.prems, where b = "\<lambda>_. True"] by simp
  next
    case other
    then show ?thesis using run [OF Cons.prems, where b = "\<lambda>f. f"] by auto
  qed
qed simp

lemma processGraftPacket_ok:
  assumes inv: "dm_inv s" and k: "(grp, src) \<in> set (route_keys s)"
  shows "run_ok (processGraftPacket src grp i s) (kept s)"
proof -
  obtain r where r: "getRouteFor grp src s = Some r" using k getRouteFor_None by fastforce
  note rs = getRouteFor_Some [OF r]
  have g: "good r s r s" using inv rs by (blast intro: dm_inv_good)
  obtain ii where ii: "mr_inInt r = Some ii" using good_inInt [OF g] by blast
  note put = kept_put [OF inv conjunct1 [OF rs]]
  define tail where "tail = (\<lambda>fwd r1 s1. if isFlagSet FLAG_P r1 \<and> fwd \<and> mr_grt r1 = None
        then if \<not> isFlagSet FLAG_A r1 then start_graft r1 s1 else Some (removeFlag FLAG_P r1, s1)
        else Some (r1, s1))"
  have tail: "run_ok (tail fwd r1 s1) (\<lambda>(r2, s2). kept s (put_mroute r2 s2))" if "good r s r1 s1" for r1 s1 fwd
    using that put by (auto simp: tail_def intro!: run_ok_mono [OF good_start_graft])
  have loop: "run_ok (graft_loop i (mr_outInt r) s) (\<lambda>(fwd, ois', s'). good r s (r\<lparr>mr_outInt := ois'\<rparr>) s' \<and> (fwd \<longleftrightarrow> i \<in> oi_id ` set (mr_outInt r)))"
    using graft_loop_good [where pre = "[]"] g by simp
  have "processGraftPacket src grp i s = (if i = ii_id ii then Some s
      else do { (fwd, ois, s1) \<leftarrow> graft_loop i (mr_outInt r) s; (r2, s2) \<leftarrow> tail fwd (r\<lparr>mr_outInt := ois\<rparr>) s1; Some (put_mroute r2 s2) })"
    by (simp add: processGraftPacket_def r ii isRpf_def Let_def tail_def)
  then show ?thesis
    using kept_refl [OF inv] tail by (auto intro!: run_ok_mono [OF loop]) (simp add: case_prod_unfold)
qed

lemma processGraftAckPacket_ok:
  assumes inv: "dm_inv s" and r: "r \<in> set (pi_routes s)"
  shows "run_ok (processGraftAckPacket (Some r) s) (kept s)"
  using kept_refl [OF inv] dm_inv_good [OF inv r] kept_put [OF inv r]
  by (auto simp: processGraftAckPacket_def intro!: run_ok_mono [OF good_stop_graft [OF dm_inv_good [OF inv r]]])

lemma split_at_index:
  fixes xs :: "'a list"
  assumes "i = index_first P xs" "i < length xs"
  shows "xs = take i xs @ xs ! i # drop (Suc i) xs" and "vec_modify i f xs = take i xs @ f (xs ! i) # drop (Suc i) xs"
    and "P (xs ! i)"
  using assms by (simp_all add: id_take_nth_drop vec_modify_def upd_conv_take_nth_drop index_first_nth)

lemma processPrunePacket_ok:
  assumes inv: "dm_inv s" and r: "r \<in> set (pi_routes s)" and hold: "0 \<le> hold"
  shows "run_ok (processPrunePacket r i hold s) (kept s)"
proof -
  have g: "good r s r s" by (rule dm_inv_good [OF inv r])
  have hold': "0 \<le> sec hold" using hold sec_le_iff [of 0 hold] by (simp add: sec_def)
  note put = kept_put [OF inv r]
  let ?j = "getOutIdByIntId i r"
  define tail where "tail = (\<lambda>change r1 s1. if isOilistNull r1 \<and> change
        then
          (let r2 = addFlag FLAG_P r1 in
           if isFlagSet FLAG_P r2 \<and> mr_grt r2 \<noteq> None
           then do { (r3, s2) \<leftarrow> stop_graft r2 s1; Some (put_mroute r3 s2) }
           else if \<not> isFlagSet FLAG_A r2 then do { s2 \<leftarrow> prune_upstream r2 s1; Some (put_mroute r2 s2) }
           else Some (put_mroute r2 s1))
        else Some (put_mroute r1 s1))"
  have tail: "run_ok (tail change r1 s1) (kept s)" if "good r s r1 s1" for change r1 s1
    using that put
    by (auto simp: tail_def Let_def intro!: run_ok_mono [OF good_stop_graft [of r s "addFlag FLAG_P r1"]] run_ok_mono [OF good_prune_upstream [of r s "addFlag FLAG_P r1"]])
  have eq: "processPrunePacket r i hold s =
      do { (change, r1, s1) \<leftarrow>
          (case getOutIntByIntId i r of
             None \<Rightarrow> Some (False, r, s)
           | Some oi \<Rightarrow>
               if oi_forwarding oi = Pruned
               then do { s1 \<leftarrow> restart_timer (oi_pruneTimer oi) (sec hold) s; Some (False, r, s1) }
               else
                 do {
                   (t, s1) \<leftarrow> new_timer (Prune_Timer (mr_origin r) (mr_group r) i) (sec hold) s;
                   Some (True, r\<lparr>mr_outInt := vec_modify ?j (\<lambda>oi. oi\<lparr>oi_forwarding := Pruned, oi_pruneTimer := t\<rparr>) (mr_outInt r)\<rparr>, s1)
                 }); tail change r1 s1 }"
    by (simp add: processPrunePacket_def tail_def Let_def)
  show ?thesis
  proof (cases "?j < length (mr_outInt r)")
    case False
    then show ?thesis using tail [OF g] by (simp add: eq getOutIntByIntId_def)
  next
    case True
    let ?oi = "mr_outInt r ! ?j"
    note sp = split_at_index [OF getOutIdByIntId_def True]
    have at: "getOutIntByIntId i r = Some ?oi" using True by (simp add: getOutIntByIntId_def)
    show ?thesis
    proof (cases "oi_forwarding ?oi = Pruned")
      case p: True
      show ?thesis using True p tail by (auto simp: eq at intro!: run_ok_mono [OF good_restart_out [OF g _ p hold']])
    next
      case p: False
      then show ?thesis
        using tail sp(3) run_ok_mono [OF good_prune_out [OF g sp(1) hold'],
            where Q = "\<lambda>(t, s1). run_ok (tail True (r\<lparr>mr_outInt := vec_modify ?j (\<lambda>oi. oi\<lparr>oi_forwarding := Pruned, oi_pruneTimer := t\<rparr>) (mr_outInt r)\<rparr>) s1) (kept s)"]
        by (simp add: eq at sp(2) case_prod_unfold)
    qed
  qed
qed

section \<open>Packets\<close>

text \<open>The routes a join, prune or graft packet names have to exist: their pointers are dereferenced.\<close>

definition names_routes :: "pim_pkt \<Rightarrow> mcast_group list \<Rightarrow> pim \<Rightarrow> bool" where
  "names_routes pkt gs s =
     list_all (\<lambda>g. (case pkt of
         JoinPrune _ \<Rightarrow> list_all (\<lambda>src. getRouteFor (mg_group g) src s \<noteq> None) (mg_pruned g)
       | Graft _ \<Rightarrow> list_all (\<lambda>src. getRouteFor (mg_group g) src s \<noteq> None) (mg_joined g)
       | GraftAck _ \<Rightarrow> list_all (\<lambda>src. getRouteFor (mg_group g) src s \<noteq> None) (mg_joined g)
       | _ \<Rightarrow> True)) gs"

lemma kept_getRouteFor: "kept s s' \<Longrightarrow> getRouteFor grp src s' = None \<longleftrightarrow> getRouteFor grp src s = None"
  by (simp add: getRouteFor_None kept_def)

lemma kept_names_routes: "kept s s' \<Longrightarrow> names_routes pkt gs s' = names_routes pkt gs s"
  unfolding names_routes_def by (simp add: kept_getRouteFor split: pim_pkt.splits cong: list.pred_cong)

lemma run_kept_trans:
  assumes "run_ok m (kept s)" "\<And>s'. kept s s' \<Longrightarrow> run_ok (f s') (kept s')"
  shows "run_ok m (\<lambda>s'. run_ok (f s') (kept s))"
  by (rule run_ok_mono [OF assms(1)], rule run_ok_mono [OF assms(2)]) (auto intro: kept_trans)

lemma joined_loop_ok:
  assumes "dm_inv s" and "(case pkt of Graft _ \<Rightarrow> True | GraftAck _ \<Rightarrow> True | _ \<Rightarrow> False) \<longrightarrow> list_all (\<lambda>src. getRouteFor grp src s \<noteq> None) srcs"
  shows "run_ok (joined_loop pkt grp i srcs s) (kept s)"
  using assms
proof (induction srcs arbitrary: s)
  case (Cons src srcs)
  let ?m = "case pkt of Graft _ \<Rightarrow> processGraftPacket src grp i s | GraftAck _ \<Rightarrow> processGraftAckPacket (getRouteFor grp src s) s | _ \<Rightarrow> Some s"
  have "run_ok ?m (kept s)"
    using Cons.prems getRouteFor_None [of grp src s]
    by (auto simp: kept_refl intro!: processGraftPacket_ok processGraftAckPacket_ok dest: getRouteFor_Some split: pim_pkt.splits)
  moreover have "run_ok (joined_loop pkt grp i srcs s') (kept s')" if k: "kept s s'" for s'
    using Cons.prems k by (intro Cons.IH) (auto simp: kept_getRouteFor [OF k] kept_def)
  ultimately show ?case by (simp add: run_kept_trans)
qed (simp add: kept_refl)

lemma pruned_loop_ok:
  assumes "dm_inv s" and "list_all (\<lambda>src. getRouteFor grp src s \<noteq> None) srcs" and "0 \<le> hold"
  shows "run_ok (pruned_loop n hold grp i srcs s) (kept s)"
  using assms
proof (induction srcs arbitrary: s)
  case (Cons src srcs)
  from Cons.prems(2) obtain r where r: "getRouteFor grp src s = Some r" by auto
  have "run_ok (if src \<noteq> mr_origin r then Some s else if n > 1 then Some s else processPrunePacket r i hold s) (kept s)"
    using Cons.prems(1,3) getRouteFor_Some [OF r] by (simp add: kept_refl processPrunePacket_ok)
  moreover have "run_ok (pruned_loop n hold grp i srcs s') (kept s')" if k: "kept s s'" for s'
    using Cons.prems k by (intro Cons.IH) (auto simp: kept_getRouteFor [OF k] kept_def)
  ultimately have "run_ok (if src \<noteq> mr_origin r then Some s else if n > 1 then Some s else processPrunePacket r i hold s)
      (\<lambda>s1. run_ok (pruned_loop n hold grp i srcs s1) (kept s))"
    by (rule run_kept_trans)
  then show ?case by (simp add: r)
qed (simp add: kept_refl)

lemma groups_loop_ok:
  assumes "dm_inv s" and "names_routes pkt gs s" and "0 \<le> hold"
  shows "run_ok (groups_loop n pkt hold i gs s) (kept s)"
  using assms
proof (induction gs arbitrary: s)
  case (Cons g gs)
  have names: "names_routes pkt [g] s" "names_routes pkt gs s" using Cons.prems(2) by (simp_all add: names_routes_def)
  let ?p = "\<lambda>s1. case pkt of JoinPrune _ \<Rightarrow> pruned_loop n hold (mg_group g) i (mg_pruned g) s1 | _ \<Rightarrow> Some s1"
  have "run_ok (joined_loop pkt (mg_group g) i (mg_joined g) s) (kept s)"
    using Cons.prems(1) names(1) by (intro joined_loop_ok) (auto simp: names_routes_def split: pim_pkt.splits)
  moreover have p: "run_ok (?p s1) (kept s1)" if k: "kept s s1" for s1
  proof (cases "\<exists>jp. pkt = JoinPrune jp")
    case True
    then show ?thesis
      using k names(1) Cons.prems(3) by (auto simp: names_routes_def kept_getRouteFor [OF k] kept_def intro!: pruned_loop_ok)
  next
    case False
    then show ?thesis using k by (auto simp: kept_refl kept_def split: pim_pkt.splits)
  qed
  moreover have "run_ok (groups_loop n pkt hold i gs s') (kept s')" if k: "kept s s'" for s'
    using Cons.prems(3) k kept_names_routes [OF k, of pkt gs] names(2) by (intro Cons.IH) (auto simp: kept_def)
  ultimately have "run_ok (joined_loop pkt (mg_group g) i (mg_joined g) s) (\<lambda>s1. run_ok (?p s1) (\<lambda>s2. run_ok (groups_loop n pkt hold i gs s2) (kept s)))"
    by (blast intro: run_ok_mono kept_trans)
  then show ?case by simp
qed (simp add: kept_refl)

lemma processJoinPruneGraftPacket_ok:
  assumes "dm_inv s" and "pe_interface env (pm_src m) \<noteq> None" and "0 \<le> jp_holdTime jp" and "names_routes (pm_pkt m) (jp_groups jp) s"
  shows "run_ok (processJoinPruneGraftPacket env jp m s) (kept s)"
proof -
  obtain nt where nt: "pe_interface env (pm_src m) = Some nt" using assms(2) by blast
  let ?f = "\<lambda>s1. case pm_pkt m of Graft _ \<Rightarrow> sendPimGraftAck jp m s1 | _ \<Rightarrow> s1"
  have f: "kept s (?f s1) = kept s s1" for s1
    by (simp add: sendPimGraftAck_def split: pim_pkt.splits)
  have "run_ok (groups_loop n (pm_pkt m) (jp_holdTime jp) nt (jp_groups jp) s) (\<lambda>s1. kept s (?f s1))" for n
    unfolding f by (rule groups_loop_ok [OF assms(1,4,3)])
  then show ?thesis
    using kept_refl [OF assms(1)] by (simp add: processJoinPruneGraftPacket_def nt Let_def)
qed

section \<open>State refresh\<close>

lemma good_refresh_loop:
  assumes "good r0 s0 r s" and "set ois \<subseteq> set (mr_outInt r)"
  shows "run_ok (refresh_loop orig src grp ois s) (good r0 s0 r)"
  using assms
proof (induction ois arbitrary: s)
  case (Cons oi ois)
  have pt: "0 \<le> PT" by (simp add: sec_def)
  have "run_ok (if oi_forwarding oi = Pruned then restart_timer (oi_pruneTimer oi) PT s else Some s) (good r0 s0 r)"
    using Cons.prems good_restart_out [OF Cons.prems(1) _ _ pt, of oi] by auto
  moreover have "run_ok (refresh_loop orig src grp ois (sendPimStateRefresh a b c d e s1)) (good r0 s0 r)"
    if "good r0 s0 r s1" for s1 a b c d e
    using Cons.prems(2) that by (intro Cons.IH) (simp_all add: sendPimStateRefresh_def)
  ultimately have "run_ok (if oi_forwarding oi = Pruned then restart_timer (oi_pruneTimer oi) PT s else Some s)
      (\<lambda>s1. run_ok (refresh_loop orig src grp ois
         (sendPimStateRefresh (orig (oi_id oi)) src grp (oi_id oi) (oi_forwarding oi = Pruned) s1)) (good r0 s0 r))"
    by (rule run_ok_mono)
  then show ?case by simp
qed simp

lemma put_mroute_same:
  assumes "distinct (map mr_id (pi_routes s))" and "r \<in> set (pi_routes s)"
  shows "put_mroute r s = s"
proof -
  have "map (\<lambda>x. if mr_id x = mr_id r then r else x) (pi_routes s) = pi_routes s"
    using assms by (intro map_idI) (auto dest: inj_onD simp: distinct_map)
  then show ?thesis by (simp add: put_mroute_def modify_mroute_def)
qed

lemma kept_good:
  assumes "dm_inv s" and "r \<in> set (pi_routes s)" and g: "good r s r s'"
  shows "kept s s'"
proof -
  have "pi_routes s' = pi_routes s" using g by (simp add: good_def frame_def)
  then have "put_mroute r s' = s'" using assms by (intro put_mroute_same) (auto simp: dm_inv_def routes_ok_def)
  then show ?thesis using kept_put [OF assms] by simp
qed

lemma put_mroute_in: "x \<in> set (pi_routes s) \<Longrightarrow> mr_id x = mr_id r \<Longrightarrow> r \<in> set (pi_routes (put_mroute r s))"
  by (auto simp: put_mroute_def modify_mroute_def)

lemma refresh_loop_ok:
  assumes "dm_inv s" and "r \<in> set (pi_routes s)"
  shows "run_ok (refresh_loop orig src grp (mr_outInt r) s) (kept s)"
  using kept_good [OF assms] by (intro run_ok_mono [OF good_refresh_loop [OF dm_inv_good [OF assms] subset_refl]])

lemma processStateRefreshPacket_ok:
  assumes inv: "dm_inv s"
  shows "run_ok (processStateRefreshPacket sr m s) (kept s)"
proof (cases "getRouteFor (sr_group sr) (sr_source sr) s")
  case None
  then show ?thesis by (simp add: processStateRefreshPacket_def kept_refl [OF inv])
next
  case (Some r)
  then have r: "r \<in> set (pi_routes s)" by (auto dest: getRouteFor_Some)
  have g: "good r s r s" by (rule dm_inv_good [OF inv r])
  obtain ii where ii: "mr_inInt r = Some ii" using good_inInt [OF g] by blast
  define up where "up = (if isFlagSet FLAG_P r \<and> \<not> sr_P sr
       then (if mr_grt r = None then do { s1 \<leftarrow> prune_upstream r s; Some (r, s1) } else stop_graft r s)
       else Some (r, s))"
  have up: "run_ok up (\<lambda>(r1, s1). good r s r1 s1 \<and> mr_outInt r1 = mr_outInt r)"
    using g good_prune_upstream [OF g] run_ok_mono [OF good_stop_graft [OF g]]
    by (auto simp: up_def run_ok_mono)
  have "run_ok (refresh_loop orig (sr_source sr) (sr_group sr) (mr_outInt r) (put_mroute r1 s1)) (kept s)"
    if g1: "good r s r1 s1" and o: "mr_outInt r1 = mr_outInt r" for r1 s1 orig
  proof -
    have k: "kept s (put_mroute r1 s1)" by (rule kept_put [OF inv r g1])
    have "r1 \<in> set (pi_routes (put_mroute r1 s1))" using g1 r by (intro put_mroute_in [of r]) (auto simp: good_def frame_def)
    then have "run_ok (refresh_loop orig (sr_source sr) (sr_group sr) (mr_outInt r1) (put_mroute r1 s1)) (kept (put_mroute r1 s1))"
      using k by (intro refresh_loop_ok) (auto simp: kept_def)
    then show ?thesis unfolding o by (rule run_ok_mono) (rule kept_trans [OF k])
  qed
  then have "run_ok up (\<lambda>(r1, s1). run_ok (refresh_loop (\<lambda>_. sr_originator sr) (sr_source sr) (sr_group sr) (mr_outInt r) (put_mroute r1 s1)) (kept s))"
    by (intro run_ok_mono [OF up]) auto
  then show ?thesis
    using kept_refl [OF inv] by (auto simp: processStateRefreshPacket_def Some isRpf_def ii case_prod_unfold simp flip: up_def)
qed

section \<open>Timers\<close>

text \<open>The timers a route points to.\<close>

definition refs :: "mroute \<Rightarrow> nat set" where
  "refs r = set_option (mr_sat r) \<union> set_option (mr_srt r) \<union> set_option (mr_grt r) \<union> (\<Union>oi\<in>set (mr_outInt r). set_option (oi_pruneTimer oi))"

lemma route_ok_refs:
  assumes r: "route_ok T r" and T: "\<And>u. u \<in> refs r \<Longrightarrow> T' u = T u"
  shows "route_ok T' r"
proof -
  have "out_ok T' (mr_origin r) (mr_group r) oi" if "oi \<in> set (mr_outInt r)" for oi
  proof -
    have o: "out_ok T (mr_origin r) (mr_group r) oi" using r that by (simp add: route_ok_def)
    have "T' u = T u" if "oi_pruneTimer oi = Some u" for u
      using T [of u] \<open>oi \<in> set (mr_outInt r)\<close> that by (auto simp: refs_def)
    with o show ?thesis by (auto simp: out_ok_def runs_def split: option.splits)
  qed
  then show ?thesis using r T unfolding route_ok_def runs_def lives_def refs_def by fastforce
qed

lemma route_ok_ref_kind:
  assumes "route_ok T r" and "u \<in> refs r" and "T u = Some (k, a)"
  shows "k \<in> {Source_Active (mr_origin r) (mr_group r), State_Refresh (mr_origin r) (mr_group r), Graft_Retry (mr_origin r) (mr_group r)}
    \<union> Prune_Timer (mr_origin r) (mr_group r) ` oi_id ` set (mr_outInt r)"
  using assms by (auto simp: route_ok_def out_ok_def runs_def lives_def refs_def split: option.splits)

text \<open>A change of timers that no route and no neighbour depends on.\<close>

lemma dm_inv_timers:
  assumes inv: "dm_inv s"
    and s': "pi_next s \<le> pi_next s'" "pi_routes s' = pi_routes s" "pi_nbrs s' = pi_nbrs s" "pi_nbrId s' = pi_nbrId s" "pi_ints s' = pi_ints s" "fresh s'"
    and r: "\<And>r. r \<in> set (pi_routes s) \<Longrightarrow> route_ok (timer_map s') r"
    and T: "\<And>t k a. timer_map s' t = Some (k, a) \<Longrightarrow> (\<exists>a'. timer_map s t = Some (k, a')) \<or> k = Hello_Timer \<or> (\<exists>src grp. prune_or_graft src grp k)"
    and n: "\<And>t i a. timer_map s t = Some (Neighbor_Liveness i, Some a) \<Longrightarrow> \<exists>a'. timer_map s' t = Some (Neighbor_Liveness i, Some a')"
  shows "dm_inv s'"
proof -
  have T': "\<exists>a'. timer_map s t = Some (k, a')" if "timer_map s' t = Some (k, a)" "\<And>src grp. \<not> prune_or_graft src grp k" "k \<noteq> Hello_Timer" for t k a
    using T [OF that(1)] that(2,3) by blast
  have "owned (timer_map s') (pi_routes s)"
    unfolding owned_def
    using T' [of _ "Source_Active _ _"] T' [of _ "State_Refresh _ _"] dm_inv_owned [OF inv]
    by (auto simp: prune_or_graft_def dest: owned_sat owned_srt) (metis owned_sat, metis owned_srt)
  moreover have "nbr_ok (timer_map s') (pi_nbrs s) (pi_nbrId s)"
  proof -
    have "\<exists>x\<in>set (pi_nbrs s). nb_id x = i \<and> nb_nlt x = Some t" if "timer_map s' t = Some (Neighbor_Liveness i, a)" for t i a
      using T' [OF that] inv unfolding dm_inv_def nbr_ok_def by (auto simp: prune_or_graft_def)
    moreover have "runs (timer_map s') t (Neighbor_Liveness i)" if "runs (timer_map s) t (Neighbor_Liveness i)" for t i
      using that n by (auto simp: runs_def)
    ultimately show ?thesis using inv unfolding dm_inv_def nbr_ok_def by blast
  qed
  moreover have "routes_ok (timer_map s') (pi_next s') (pi_routes s)"
    using inv s'(1) r by (auto simp: dm_inv_def routes_ok_def intro: less_le_trans)
  moreover have "dm_kind k" if "timer_map s' t = Some (k, a)" for t k a
    using T [OF that] dm_inv_kind [OF inv] prune_or_graft_kind by (auto simp: dm_kind_def)
  ultimately show ?thesis using inv s' by (auto simp: dm_inv_def)
qed

text \<open>The state in which the handler of a timer runs: the timer has gone off.\<close>

abbreviation fired :: "nat \<Rightarrow> pim \<Rightarrow> pim" where
  "fired t s \<equiv> modify_timer t (\<lambda>tm. tm\<lparr>tmr_at := None\<rparr>) s"

lemma timer_map_fired: "timer_map s t = Some (k, a) \<Longrightarrow> timer_map (fired t s) = (timer_map s)(t \<mapsto> (k, None))"
  by (simp add: timer_map_set_at)

lemma fired_same [simp]:
  "pi_routes (fired t s) = pi_routes s" "pi_next (fired t s) = pi_next s" "pi_now (fired t s) = pi_now s"
  "pi_nbrs (fired t s) = pi_nbrs s" "pi_nbrId (fired t s) = pi_nbrId s" "pi_ints (fired t s) = pi_ints s"
  "pi_out (fired t s) = pi_out s"
  "getRouteFor grp src (fired t s) = getRouteFor grp src s"
  by (simp_all add: modify_timer_def getRouteFor_def)

lemma dm_inv_fresh: "dm_inv s \<Longrightarrow> fresh s"
  and dm_inv_route: "dm_inv s \<Longrightarrow> r \<in> set (pi_routes s) \<Longrightarrow> route_ok (timer_map s) r"
  and dm_inv_key: "dm_inv s \<Longrightarrow> r \<in> set (pi_routes s) \<Longrightarrow> r' \<in> set (pi_routes s) \<Longrightarrow>
    mr_group r = mr_group r' \<Longrightarrow> mr_origin r = mr_origin r' \<Longrightarrow> r = r'"
  by (auto simp: dm_inv_def routes_ok_def distinct_map dest: inj_onD)

lemma dm_inv_getRouteFor:
  assumes "dm_inv s" and "r \<in> set (pi_routes s)"
  shows "getRouteFor (mr_group r) (mr_origin r) s = Some r"
proof (cases "getRouteFor (mr_group r) (mr_origin r) s")
  case None
  then show ?thesis using assms(2) by (force simp: getRouteFor_None route_keys_def)
next
  case (Some r')
  then show ?thesis using assms dm_inv_key [OF assms(1) _ assms(2), of r'] by (auto dest: getRouteFor_Some)
qed

text \<open>A change of one timer of a kind no table depends on.\<close>

lemma dm_inv_timer_upd:
  assumes inv: "dm_inv s" and T: "timer_map s t = Some (k, a)"
    and s': "same_rest s s'" "timer_map s' = (timer_map s)(t := v)" "v = None \<or> (\<exists>a'. v = Some (k, a'))"
    and k: "k = Hello_Timer \<or> (\<exists>src grp. prune_or_graft src grp k)"
    and r: "\<And>r. r \<in> set (pi_routes s) \<Longrightarrow> t \<in> refs r \<Longrightarrow> route_ok (timer_map s') r"
  shows "dm_inv s'"
proof (rule dm_inv_timers [OF inv])
  show "fresh s'" using dm_inv_fresh [OF inv] T s' by (auto simp: fresh_def same_rest_def split: if_splits)
  show "route_ok (timer_map s') r" if r1: "r \<in> set (pi_routes s)" for r
  proof (cases "t \<in> refs r")
    case False
    then show ?thesis by (intro route_ok_refs [OF dm_inv_route [OF inv r1]]) (auto simp: s'(2))
  qed (rule r [OF r1])
  show "\<exists>a'. timer_map s' u = Some (Neighbor_Liveness i, Some a')" if "timer_map s u = Some (Neighbor_Liveness i, Some x)" for u i x
    using that T k by (auto simp: s'(2) prune_or_graft_def)
  show "(\<exists>a'. timer_map s u = Some (j, a')) \<or> j = Hello_Timer \<or> (\<exists>src grp. prune_or_graft src grp j)" if "timer_map s' u = Some (j, x)" for u j x
    using that T s'(3) by (auto simp: s'(2) split: if_splits)
qed (use s'(1) in \<open>simp_all add: same_rest_def\<close>)

lemma kept_same_rest: "same_rest s s' \<Longrightarrow> dm_inv s' \<Longrightarrow> kept s s'"
  by (simp add: kept_def same_rest_def route_keys_def)

lemma prune_timer_route:
  assumes inv: "dm_inv s" and T: "timer_map s t = Some (Prune_Timer src grp i, a)"
    and r: "r \<in> set (pi_routes s)" "t \<in> refs r"
  shows "getRouteFor grp src s = Some r" and "i \<in> oi_id ` set (mr_outInt r)"
proof -
  have "mr_origin r = src" "mr_group r = grp" and i: "i \<in> oi_id ` set (mr_outInt r)"
    using route_ok_ref_kind [OF dm_inv_route [OF inv r(1)] r(2) T] by auto
  then show "getRouteFor grp src s = Some r" using dm_inv_getRouteFor [OF inv r(1)] by simp
  show "i \<in> oi_id ` set (mr_outInt r)" by (rule i)
qed

lemma processPruneTimer_ok:
  assumes inv: "dm_inv s" and T: "timer_map s t = Some (Prune_Timer src grp i, a)"
  shows "run_ok (processPruneTimer t src grp i (fired t s)) (kept s)"
proof -
  have Tf: "timer_map (fired t s) = (timer_map s)(t \<mapsto> (Prune_Timer src grp i, None))" by (rule timer_map_fired [OF T])
  then have Tft: "timer_map (fired t s) t = Some (Prune_Timer src grp i, None)" by simp
  have del: "run_ok (delete_timer (Some t) (fired t s)) (\<lambda>s'. same_rest s s' \<and> timer_map s' = (timer_map s)(t := None))"
    by (rule run_ok_mono [OF run_delete [OF Tft]]) (auto simp: Tf same_rest_def)
  have p: "prune_or_graft src grp (Prune_Timer src grp i)" by (simp add: prune_or_graft_def)
  show ?thesis
  proof (cases "getRouteFor grp src s")
    case None
    have "kept s s'" if "same_rest s s'" "timer_map s' = (timer_map s)(t := None)" for s'
      using None prune_timer_route(1) [OF inv T] by (intro kept_same_rest that dm_inv_timer_upd [OF inv T that]) (auto intro: p)
    then show ?thesis using run_ok_mono [OF del] by (simp add: processPruneTimer_def None)
  next
    case (Some r)
    then have r: "r \<in> set (pi_routes s)" "mr_group r = grp" "mr_origin r = src" by (auto dest: getRouteFor_Some)
    let ?j = "getOutIdByIntId i r"
    show ?thesis
    proof (cases "?j < length (mr_outInt r)")
      case False
      then have "i \<notin> oi_id ` set (mr_outInt r)" by (auto simp: getOutIdByIntId_def)
      then have "kept s (fired t s)"
        using Some prune_timer_route [OF inv T]
        by (intro kept_same_rest modify_timer_rest dm_inv_timer_upd [OF inv T modify_timer_rest Tf]) (auto intro: p)
      then show ?thesis using False by (simp add: processPruneTimer_def Some)
    next
      case True
      note sp = split_at_index [OF getOutIdByIntId_def True]
      let ?r = "r\<lparr>mr_outInt := vec_modify ?j (\<lambda>oi. oi\<lparr>oi_pruneTimer := None, oi_forwarding := Forward\<rparr>) (mr_outInt r)\<rparr>"
      have "good r s ?r s'" if "same_rest s s'" "timer_map s' = (timer_map s)(t := None)" for s'
        unfolding sp(2) using that T sp(3) r
        by (intro good_out_upd [OF dm_inv_good [OF inv r(1)] sp(1), where n = "pi_next s"]) (auto simp: same_rest_def out_ok_def)
      then have "kept s (put_mroute (removeFlag FLAG_P ?r) s')" if "same_rest s s'" "timer_map s' = (timer_map s)(t := None)" for s'
        using that by (intro kept_put [OF inv r(1)]) simp
      then show ?thesis using True run_ok_mono [OF del] by (simp add: processPruneTimer_def Some Let_def)
    qed
  qed
qed

lemma fired_graft_good:
  assumes inv: "dm_inv s" and T: "timer_map s t = Some (Graft_Retry src grp, a)" and r: "getRouteFor grp src s = Some r"
  shows "good r s r (fired t s)"
proof -
  have rs: "r \<in> set (pi_routes s)" "mr_group r = grp" "mr_origin r = src" using r by (auto dest: getRouteFor_Some)
  note Tf = timer_map_fired [OF T]
  show ?thesis
  proof (rule good_upd [OF dm_inv_good [OF inv rs(1)], where n = "pi_next s"])
    show "timer_map (fired t s) = (timer_map s)(t \<mapsto> (Graft_Retry src grp, None))" by (rule Tf)
    show "same_rest (s\<lparr>pi_next := pi_next s\<rparr>) (fired t s)" using modify_timer_rest by simp
    show "t < pi_next s" using dm_inv_fresh [OF inv] T by (auto simp: fresh_def)
    show "route_ok (timer_map (fired t s)) r"
    proof -
      have ok: "route_ok (timer_map s) r" by (rule dm_inv_route [OF inv rs(1)])
      have o: "out_ok ((timer_map s)(t \<mapsto> (Graft_Retry src grp, None))) (mr_origin r) (mr_group r) oi" if "oi \<in> set (mr_outInt r)" for oi
        using ok that T by (intro out_ok_upd) (auto simp: route_ok_def)
      obtain u where u: "mr_sat r = Some u" "runs (timer_map s) u (Source_Active (mr_origin r) (mr_group r))"
        using ok by (auto simp: route_ok_def)
      then have "runs ((timer_map s)(t \<mapsto> (Graft_Retry src grp, None))) u (Source_Active (mr_origin r) (mr_group r))"
        using T by (intro runs_upd) auto
      with u(1) show ?thesis
        unfolding Tf using ok o T rs by (auto simp: route_ok_def lives_def)
    qed
  qed (use T rs in \<open>auto simp: prune_or_graft_def\<close>)
qed

lemma processGraftRetryTimer_ok:
  assumes inv: "dm_inv s" and T: "timer_map s t = Some (Graft_Retry src grp, a)" and r: "getRouteFor grp src s \<noteq> None"
  shows "run_ok (processGraftRetryTimer src grp (fired t s)) (kept s)"
proof -
  from r obtain r where r: "getRouteFor grp src s = Some r" by blast
  have rs: "r \<in> set (pi_routes s)" "mr_group r = grp" "mr_origin r = src" using r by (auto dest: getRouteFor_Some)
  note g = fired_graft_good [OF inv T r]
  obtain ii where ii: "mr_inInt r = Some ii" using good_inInt [OF g] by blast
  let ?s = "sendPimGraft (ii_nextHop ii) src grp (ii_id ii) (fired t s)"
  have g1: "good r s r ?s" using g by (simp add: sendPimGraft_def)
  have n: "timer_map ?s (pi_next ?s) = None" using g1 by (simp add: good_def fresh_None)
  have "kept s s'" if s': "same_rest (?s\<lparr>pi_next := pi_next ?s + 1\<rparr>) s'"
      "timer_map s' = (timer_map ?s)(pi_next ?s \<mapsto> (Graft_Retry src grp, Some x))" for s' x
  proof (rule kept_good [OF inv rs(1)], rule good_upd [OF g1 s'])
    have "u \<noteq> pi_next ?s" if "u \<in> refs r" for u
      using good_route [OF g1] that n by (auto simp: route_ok_def refs_def runs_def lives_def out_ok_def split: option.splits)
    then show "route_ok (timer_map s') r" by (intro route_ok_refs [OF good_route [OF g1]]) (auto simp: s'(2))
  qed (use n rs in \<open>auto simp: prune_or_graft_def\<close>)
  then have "run_ok (new_timer (Graft_Retry src grp) GRT ?s) (\<lambda>(_, s'). kept s s')"
    by (intro run_ok_mono [OF run_new_timer [OF n]]) (auto simp: sec_def)
  then show ?thesis by (simp add: processGraftRetryTimer_def r ii case_prod_unfold)
qed

text \<open>A route that goes with all its timers.\<close>

lemma run_stop_all:
  assumes "distinct (filter (\<lambda>p. p \<noteq> None) ps)" and "\<And>t. Some t \<in> set ps \<Longrightarrow> timer_map s t \<noteq> None"
  shows "run_ok (stop_all ps s) (\<lambda>s'. same_rest s s' \<and> timer_map s' = (\<lambda>u. if Some u \<in> set ps then None else timer_map s u))"
  using assms
proof (induction ps arbitrary: s)
  case (Cons p ps)
  show ?case
  proof (cases p)
    case None
    then show ?thesis using Cons by (simp add: stop_if_set_def)
  next
    case (Some t)
    then obtain v where v: "timer_map s t = Some v" using Cons.prems(2) [of t] by auto
    have "run_ok (stop_all ps s1) (\<lambda>s'. same_rest s s' \<and> timer_map s' = (\<lambda>u. if Some u \<in> set (p # ps) then None else timer_map s u))"
      if s1: "same_rest s s1" "timer_map s1 = (timer_map s)(t := None)" for s1
    proof (rule run_ok_mono [OF Cons.IH])
      show "distinct (filter (\<lambda>p. p \<noteq> None) ps)" using Cons.prems(1) by (auto split: if_splits)
      show "timer_map s1 u \<noteq> None" if "Some u \<in> set ps" for u
        using that Cons.prems Some by (auto simp: s1(2))
      show "same_rest s s' \<and> timer_map s' = (\<lambda>u. if Some u \<in> set (p # ps) then None else timer_map s u)"
        if "same_rest s1 s' \<and> timer_map s' = (\<lambda>u. if Some u \<in> set ps then None else timer_map s1 u)" for s'
        using that s1 Some by (auto simp: same_rest_def fun_eq_iff)
    qed
    then have "run_ok (stop_timer p s) (\<lambda>s1. run_ok (stop_all ps s1) (\<lambda>s'. same_rest s s' \<and> timer_map s' = (\<lambda>u. if Some u \<in> set (p # ps) then None else timer_map s u)))"
      unfolding Some by (intro run_ok_mono [OF run_stop [OF v]]) blast
    then show ?thesis by (simp add: stop_if_set_def Some)
  qed
qed (simp add: same_rest_def)

lemma out_ok_timer: "out_ok T src grp oi \<Longrightarrow> oi_pruneTimer oi = Some t \<Longrightarrow> runs T t (Prune_Timer src grp (oi_id oi))"
  by (simp add: out_ok_def)

lemma route_refs_live: "route_ok T r \<Longrightarrow> u \<in> refs r \<Longrightarrow> \<exists>k a. T u = Some (k, a)"
  unfolding route_ok_def refs_def by (auto simp: runs_def lives_def dest: out_ok_timer) (metis out_ok_timer runs_def)

lemma refs_disjoint:
  assumes inv: "dm_inv s" and r: "r \<in> set (pi_routes s)" "x \<in> set (pi_routes s)" "x \<noteq> r" and u: "u \<in> refs x"
  shows "u \<notin> refs r"
proof
  assume ur: "u \<in> refs r"
  obtain k a where k: "timer_map s u = Some (k, a)" using route_refs_live [OF dm_inv_route [OF inv r(2)] u] by blast
  have "mr_group x = mr_group r" "mr_origin x = mr_origin r"
    using route_ok_ref_kind [OF dm_inv_route [OF inv r(1)] ur k] route_ok_ref_kind [OF dm_inv_route [OF inv r(2)] u k] by auto
  then show False using dm_inv_key [OF inv r(1,2)] r(3) by simp
qed

lemma dm_inv_delete:
  assumes inv: "dm_inv s" and r: "r \<in> set (pi_routes s)"
    and s': "pi_next s' = pi_next s" "pi_nbrs s' = pi_nbrs s" "pi_nbrId s' = pi_nbrId s" "pi_ints s' = pi_ints s"
      "pi_routes s' = filter (\<lambda>x. mr_id x \<noteq> mr_id r) (pi_routes s)" "timer_map s' = (\<lambda>u. if u \<in> refs r then None else timer_map s u)"
  shows "dm_inv s'"
proof -
  have ids: "distinct (map mr_id (pi_routes s))" using inv by (simp add: dm_inv_def routes_ok_def)
  have ne: "x \<in> set (pi_routes s') \<longleftrightarrow> x \<in> set (pi_routes s) \<and> x \<noteq> r" for x
    using ids r by (auto simp: s'(5) distinct_map dest: inj_onD)
  have T': "timer_map s u = Some v" if "timer_map s' u = Some v" for u v
    using that by (simp add: s'(6) split: if_splits)
  have "route_ok (timer_map s') x" if "x \<in> set (pi_routes s')" for x
    using that ne refs_disjoint [OF inv r] by (intro route_ok_refs [OF dm_inv_route [OF inv]]) (auto simp: s'(6))
  then have "routes_ok (timer_map s') (pi_next s') (pi_routes s')"
    using inv ne by (auto simp: dm_inv_def routes_ok_def s'(1,5) distinct_map_filter)
  moreover have "owned (timer_map s') (pi_routes s')"
    unfolding owned_def
  proof (intro conjI allI impI)
    fix u src grp a assume "timer_map s' u = Some (Source_Active src grp, a)"
    moreover then have "u \<notin> refs r" by (auto simp: s'(6) split: if_splits)
    ultimately show "\<exists>x\<in>set (pi_routes s'). mr_origin x = src \<and> mr_group x = grp \<and> mr_sat x = Some u"
      using owned_sat [OF dm_inv_owned [OF inv] T'] ne by (auto simp: refs_def) metis
  next
    fix u src grp a assume "timer_map s' u = Some (State_Refresh src grp, a)"
    moreover then have "u \<notin> refs r" by (auto simp: s'(6) split: if_splits)
    ultimately show "\<exists>x\<in>set (pi_routes s'). mr_origin x = src \<and> mr_group x = grp \<and> mr_srt x = Some u"
      using owned_srt [OF dm_inv_owned [OF inv] T'] ne by (auto simp: refs_def) metis
  qed
  moreover have "nbr_ok (timer_map s') (pi_nbrs s) (pi_nbrId s)"
  proof -
    have "timer_map s' t = Some (Neighbor_Liveness i, a) \<longleftrightarrow> timer_map s t = Some (Neighbor_Liveness i, a)" for t i a
      using route_ok_ref_kind [OF dm_inv_route [OF inv r]] T' by (auto simp: s'(6))
    then show ?thesis using inv by (simp add: dm_inv_def nbr_ok_def runs_def)
  qed
  moreover have "fresh s'" using dm_inv_fresh [OF inv] by (auto simp: fresh_def s'(1,6))
  moreover have "dm_kind k" if "timer_map s' t = Some (k, a)" for t k a
    by (rule dm_inv_kind [OF inv T' [OF that]])
  ultimately show ?thesis using inv by (simp add: dm_inv_def s'(2-4))
qed

lemma route_timers:
  assumes "route_ok T r"
  shows "mr_sat r = Some u \<Longrightarrow> \<exists>a. T u = Some (Source_Active (mr_origin r) (mr_group r), a)"
    and "mr_srt r = Some u \<Longrightarrow> \<exists>a. T u = Some (State_Refresh (mr_origin r) (mr_group r), a)"
    and "mr_grt r = Some u \<Longrightarrow> \<exists>a. T u = Some (Graft_Retry (mr_origin r) (mr_group r), a)"
    and "oi \<in> set (mr_outInt r) \<Longrightarrow> oi_pruneTimer oi = Some u \<Longrightarrow> \<exists>a. T u = Some (Prune_Timer (mr_origin r) (mr_group r) (oi_id oi), a)"
proof -
  show "mr_sat r = Some u \<Longrightarrow> \<exists>a. T u = Some (Source_Active (mr_origin r) (mr_group r), a)"
    "mr_srt r = Some u \<Longrightarrow> \<exists>a. T u = Some (State_Refresh (mr_origin r) (mr_group r), a)"
    "mr_grt r = Some u \<Longrightarrow> \<exists>a. T u = Some (Graft_Retry (mr_origin r) (mr_group r), a)"
    using assms by (auto simp: route_ok_def runs_def lives_def)
  show "oi \<in> set (mr_outInt r) \<Longrightarrow> oi_pruneTimer oi = Some u \<Longrightarrow> \<exists>a. T u = Some (Prune_Timer (mr_origin r) (mr_group r) (oi_id oi), a)"
    using assms out_ok_timer by (fastforce simp: route_ok_def runs_def)
qed

lemma route_timer_list:
  assumes ok: "route_ok T r" and t: "mr_sat r = Some t"
  defines "ps \<equiv> [mr_srt r, mr_grt r, None, mr_kat r, mr_et r] @ map oi_pruneTimer (mr_outInt r)"
  shows "distinct (filter (\<lambda>p. p \<noteq> None) ps)" and "Some u \<in> set ps \<longleftrightarrow> u \<in> refs r - {t}"
proof -
  note tm = route_timers [OF ok]
  have ke: "mr_kat r = None" "mr_et r = None" using ok by (simp_all add: route_ok_def)
  have d: "distinct (map oi_id (mr_outInt r))" using ok by (auto simp: route_ok_def olist_ok_def)
  have inj: "x = y" if "x \<in> set (mr_outInt r)" "y \<in> set (mr_outInt r)" "oi_pruneTimer x = oi_pruneTimer y" "oi_pruneTimer x \<noteq> None" for x y
  proof -
    obtain u where "oi_pruneTimer x = Some u" "oi_pruneTimer y = Some u" 
      using \<open>oi_pruneTimer x = oi_pruneTimer y\<close> \<open>oi_pruneTimer x \<noteq> None\<close> by (cases "oi_pruneTimer x") auto
    then have "oi_id x = oi_id y" using tm(4) [OF that(1)] tm(4) [OF that(2)] by fastforce
    then show ?thesis using d that by (auto simp: distinct_map dest: inj_onD)
  qed
  have "distinct (map oi_pruneTimer (filter (\<lambda>x. oi_pruneTimer x \<noteq> None) (mr_outInt r)))"
    using d inj by (auto simp: distinct_map intro!: inj_onI)
  moreover have "Some u \<noteq> mr_srt r \<and> Some u \<noteq> mr_grt r" if "x \<in> set (mr_outInt r)" "oi_pruneTimer x = Some u" for x u
    using tm(2,3) [of u] tm(4) [OF that] by auto
  moreover have "mr_srt r \<noteq> mr_grt r \<or> mr_srt r = None" using tm(2,3) by fastforce
  ultimately show "distinct (filter (\<lambda>p. p \<noteq> None) ps)"
    by (auto simp: ps_def ke filter_map comp_def)
  have "t \<notin> set_option (mr_srt r) \<union> set_option (mr_grt r) \<union> (\<Union>oi\<in>set (mr_outInt r). set_option (oi_pruneTimer oi))"
    using tm(1) [OF t] tm(2,3) [of t] tm(4) [of _ t] by fastforce
  then show "Some u \<in> set ps \<longleftrightarrow> u \<in> refs r - {t}"
    using t ke unfolding ps_def refs_def by (auto simp: elem_set) (metis image_eqI)+
qed

lemma processSourceActiveTimer_ok:
  assumes inv: "dm_inv s" and T: "timer_map s t = Some (Source_Active src grp, a)"
  shows "run_ok (processSourceActiveTimer t src grp (fired t s)) (\<lambda>s'. dm_inv s' \<and>
    (\<exists>r. getRouteFor grp src s = Some r \<and> pi_routes s' = filter (\<lambda>x. mr_id x \<noteq> mr_id r) (pi_routes s)))"
proof -
  obtain r where r: "r \<in> set (pi_routes s)" "mr_origin r = src" "mr_group r = grp" "mr_sat r = Some t"
    using owned_sat [OF dm_inv_owned [OF inv] T] by blast
  have get: "getRouteFor grp src s = Some r" using dm_inv_getRouteFor [OF inv r(1)] r by simp
  have ids: "distinct (map mr_id (pi_routes s))" using inv by (simp add: dm_inv_def routes_ok_def)
  note ok = dm_inv_route [OF inv r(1)]
  note ps = route_timer_list [OF ok r(4)]
  let ?r = "r\<lparr>mr_sat := None\<rparr>"
  have Tf: "timer_map (fired t s) = (timer_map s)(t \<mapsto> (Source_Active src grp, None))" by (rule timer_map_fired [OF T])
  have del: "run_ok (delete_timer (Some t) (fired t s)) (\<lambda>s1. same_rest s s1 \<and> timer_map s1 = (timer_map s)(t := None))"
    by (rule run_ok_mono [OF run_delete [of _ t "(Source_Active src grp, None)"]]) (auto simp: Tf same_rest_def)
  have "run_ok (deleteMulticastRoute (mr_id r) (put_mroute ?r s1)) (\<lambda>(_, s2). dm_inv s2 \<and> pi_routes s2 = filter (\<lambda>x. mr_id x \<noteq> mr_id r) (pi_routes s))"
    if s1: "same_rest s s1" "timer_map s1 = (timer_map s)(t := None)" for s1
  proof -
    let ?s = "put_mroute ?r s1"
    have rs: "pi_routes ?s = map (\<lambda>x. if mr_id x = mr_id r then ?r else x) (pi_routes s)"
      using s1(1) by (simp add: put_mroute_def modify_mroute_def same_rest_def)
    have Ts: "timer_map ?s = (timer_map s)(t := None)" by (simp add: put_mroute_def modify_mroute_def s1(2))
    have at: "route_at (mr_id r) ?s = Some ?r"
    proof -
      have "?r \<in> set (pi_routes ?s)" using r(1) by (force simp: rs)
      moreover have "mr_id ?r = mr_id r" by simp
      ultimately have "route_at (mr_id r) ?s \<noteq> None" unfolding route_at_def find_None_all by blast
      then show ?thesis using find_Some_in by (fastforce simp: route_at_def rs split: if_splits)
    qed
    have "run_ok (stop_all ([mr_srt r, mr_grt r, None, mr_kat r, mr_et r] @ map oi_pruneTimer (mr_outInt r)) ?s)
        (\<lambda>s2. dm_inv (s2\<lparr>pi_routes := filter (\<lambda>x. mr_id x \<noteq> mr_id r) (pi_routes s2)\<rparr>) \<and>
              filter (\<lambda>x. mr_id x \<noteq> mr_id r) (pi_routes s2) = filter (\<lambda>x. mr_id x \<noteq> mr_id r) (pi_routes s))"
    proof (rule run_ok_mono [OF run_stop_all])
      show "timer_map ?s u \<noteq> None" if "Some u \<in> set ([mr_srt r, mr_grt r, None, mr_kat r, mr_et r] @ map oi_pruneTimer (mr_outInt r))" for u
        using that route_refs_live [OF ok, of u] unfolding ps(2) by (auto simp: Ts)
    next
      fix s2
      assume s2: "same_rest ?s s2 \<and> timer_map s2 = (\<lambda>u. if Some u \<in> set ([mr_srt r, mr_grt r, None, mr_kat r, mr_et r] @ map oi_pruneTimer (mr_outInt r)) then None else timer_map ?s u)"
      have f: "filter (\<lambda>x. mr_id x \<noteq> mr_id r) (pi_routes s2) = filter (\<lambda>x. mr_id x \<noteq> mr_id r) (pi_routes s)"
        using s2 by (simp add: same_rest_def rs filter_map comp_def if_distrib [of mr_id] cong: if_cong)
          (auto intro!: map_idI)
      have "timer_map s2 = (\<lambda>u. if u \<in> refs r then None else timer_map s u)"
        using s2 r(4) unfolding ps(2) by (auto simp: Ts fun_eq_iff refs_def)
      then have "dm_inv (s2\<lparr>pi_routes := filter (\<lambda>x. mr_id x \<noteq> mr_id r) (pi_routes s2)\<rparr>)"
        using s1(1) s2 f by (intro dm_inv_delete [OF inv r(1)]) (auto simp: same_rest_def put_mroute_def modify_mroute_def)
      then show "dm_inv (s2\<lparr>pi_routes := filter (\<lambda>x. mr_id x \<noteq> mr_id r) (pi_routes s2)\<rparr>) \<and>
          filter (\<lambda>x. mr_id x \<noteq> mr_id r) (pi_routes s2) = filter (\<lambda>x. mr_id x \<noteq> mr_id r) (pi_routes s)" using f by simp
    qed (rule ps(1))
    then show ?thesis by (simp add: deleteMulticastRoute_def at)
  qed
  then have "run_ok (delete_timer (Some t) (fired t s)) (\<lambda>s1. run_ok (deleteMulticastRoute (mr_id r) (put_mroute ?r s1))
      (\<lambda>(_, s2). dm_inv s2 \<and> pi_routes s2 = filter (\<lambda>x. mr_id x \<noteq> mr_id r) (pi_routes s)))"
    by (intro run_ok_mono [OF del]) blast
  then show ?thesis by (simp add: processSourceActiveTimer_def get case_prod_unfold)
qed

text \<open>The state-refresh timer of a route goes off and is replaced by a new one.\<close>

lemma dm_inv_fired_srt:
  assumes inv: "dm_inv s" and T: "timer_map s t = Some (State_Refresh src grp, a)"
  shows "dm_inv (fired t s)"
proof (rule dm_inv_timers [OF inv])
  note Tf = timer_map_fired [OF T]
  show "fresh (fired t s)" using dm_inv_fresh [OF inv] T by (auto simp: fresh_def Tf)
  show "route_ok (timer_map (fired t s)) r" if r: "r \<in> set (pi_routes s)" for r
  proof -
    note ok = dm_inv_route [OF inv r]
    have o: "out_ok (timer_map (fired t s)) (mr_origin r) (mr_group r) oi" if "oi \<in> set (mr_outInt r)" for oi
      unfolding Tf using ok that T by (intro out_ok_upd) (auto simp: route_ok_def)
    obtain u where u: "mr_sat r = Some u" "runs (timer_map s) u (Source_Active (mr_origin r) (mr_group r))"
      using ok by (auto simp: route_ok_def)
    then have "runs (timer_map (fired t s)) u (Source_Active (mr_origin r) (mr_group r))"
      unfolding Tf using T by (intro runs_upd) auto
    moreover have "lives (timer_map (fired t s)) v k" if "lives (timer_map s) v k" for v k
      using that T by (auto simp: lives_def Tf)
    ultimately show ?thesis using ok u(1) o by (simp add: route_ok_def)
  qed
qed (use timer_map_fired [OF T] T in \<open>auto split: if_splits\<close>)

lemma dm_inv_new_srt:
  assumes inv: "dm_inv s" and r: "r \<in> set (pi_routes s)" "mr_srt r = Some t"
    and s': "pi_next s' = pi_next s + 1" "pi_nbrs s' = pi_nbrs s" "pi_nbrId s' = pi_nbrId s" "pi_ints s' = pi_ints s"
      "pi_routes s' = pi_routes s"
      "timer_map s' = (timer_map s)(t := None, pi_next s \<mapsto> (State_Refresh (mr_origin r) (mr_group r), Some x))"
  shows "dm_inv (put_mroute (r\<lparr>mr_srt := Some (pi_next s)\<rparr>) s')"
proof -
  let ?r = "r\<lparr>mr_srt := Some (pi_next s)\<rparr>" and ?s = "put_mroute (r\<lparr>mr_srt := Some (pi_next s)\<rparr>) s'"
  have n: "timer_map s (pi_next s) = None" by (rule fresh_None [OF dm_inv_fresh [OF inv]])
  have rs: "pi_routes ?s = map (\<lambda>y. if mr_id y = mr_id r then ?r else y) (pi_routes s)"
    by (simp add: put_mroute_def modify_mroute_def s'(5))
  have T: "timer_map ?s = timer_map s'" by (simp add: put_mroute_def modify_mroute_def)
  have ids: "distinct (map mr_id (pi_routes s))" "distinct (map (\<lambda>r. (mr_group r, mr_origin r)) (pi_routes s))"
    using inv by (simp_all add: dm_inv_def routes_ok_def)
  have same: "y = r" if "y \<in> set (pi_routes s)" "mr_id y = mr_id r" for y
    using ids(1) r(1) that by (auto dest: inj_onD simp: distinct_map)
  have m: "map mr_id (pi_routes ?s) = map mr_id (pi_routes s)"
    "map (\<lambda>r. (mr_group r, mr_origin r)) (pi_routes ?s) = map (\<lambda>r. (mr_group r, mr_origin r)) (pi_routes s)"
    using same by (auto simp: rs)
  have T': "timer_map s' u = timer_map s u" if "u \<noteq> t" "u \<noteq> pi_next s" for u using that by (simp add: s'(6))
  have tm: "\<exists>a. timer_map s t = Some (State_Refresh (mr_origin r) (mr_group r), a)"
    by (rule route_timers(2) [OF dm_inv_route [OF inv r(1)] r(2)])
  have ok: "route_ok (timer_map s') y" if y: "y \<in> set (pi_routes s)" "y \<noteq> r" for y
  proof (rule route_ok_refs [OF dm_inv_route [OF inv y(1)]])
    fix u assume u: "u \<in> refs y"
    have "u \<noteq> t" using refs_disjoint [OF inv r(1) y u] r(2) by (auto simp: refs_def)
    moreover have "u \<noteq> pi_next s" using route_refs_live [OF dm_inv_route [OF inv y(1)] u] n by auto
    ultimately show "timer_map s' u = timer_map s u" by (rule T')
  qed
  have okr: "route_ok (timer_map s') ?r"
  proof -
    note okr = dm_inv_route [OF inv r(1)]
    have u: "timer_map s' u = timer_map s u" if "u \<in> refs r" "\<And>a. timer_map s u \<noteq> Some (State_Refresh (mr_origin r) (mr_group r), a)" for u
      using route_refs_live [OF okr that(1)] that(2) tm n by (intro T') auto
    have "out_ok (timer_map s') (mr_origin r) (mr_group r) oi" if "oi \<in> set (mr_outInt r)" for oi
    proof -
      have "timer_map s' v = timer_map s v" if "oi_pruneTimer oi = Some v" for v
        using \<open>oi \<in> set (mr_outInt r)\<close> that route_timers(4) [OF okr _ that] by (intro u) (auto simp: refs_def)
      then show ?thesis using okr that by (auto simp: route_ok_def out_ok_def runs_def split: option.splits)
    qed
    moreover have e: "timer_map s' v = timer_map s v" if "mr_sat r = Some v \<or> mr_grt r = Some v" for v
      using that route_timers(1,3) [OF okr, of v] by (intro u) (auto simp: refs_def)
    moreover have "\<exists>v. mr_sat r = Some v \<and> runs (timer_map s') v (Source_Active (mr_origin r) (mr_group r))"
      using okr e by (auto simp: route_ok_def runs_def)
    moreover have "\<forall>v. mr_grt r = Some v \<longrightarrow> lives (timer_map s') v (Graft_Retry (mr_origin r) (mr_group r))"
      using okr e by (auto simp: route_ok_def lives_def)
    moreover have "lives (timer_map s') (pi_next s) (State_Refresh (mr_origin r) (mr_group r))" by (simp add: lives_def s'(6))
    ultimately show ?thesis using okr by (simp add: route_ok_def)
  qed
  have "routes_ok (timer_map s') (pi_next s') (pi_routes ?s)"
    using inv ok okr r(1) same ids m unfolding routes_ok_def dm_inv_def by (auto simp: rs s'(1) less_SucI simp del: map_map)
  moreover have "owned (timer_map s') (pi_routes ?s)"
    unfolding owned_def
  proof (intro conjI allI impI)
    fix u src grp a assume "timer_map s' u = Some (Source_Active src grp, a)"
    then have "timer_map s u = Some (Source_Active src grp, a)" by (auto simp: s'(6) split: if_splits)
    then obtain y where "y \<in> set (pi_routes s)" "mr_origin y = src" "mr_group y = grp" "mr_sat y = Some u"
      using owned_sat [OF dm_inv_owned [OF inv]] by blast
    then show "\<exists>y\<in>set (pi_routes ?s). mr_origin y = src \<and> mr_group y = grp \<and> mr_sat y = Some u"
      using same by (intro bexI [of _ "if mr_id y = mr_id r then ?r else y"]) (auto simp: rs)
  next
    fix u src grp a assume u: "timer_map s' u = Some (State_Refresh src grp, a)"
    show "\<exists>y\<in>set (pi_routes ?s). mr_origin y = src \<and> mr_group y = grp \<and> mr_srt y = Some u"
    proof (cases "u = pi_next s")
      case True
      then show ?thesis using u r(1) by (intro bexI [of _ ?r]) (auto simp: rs s'(6))
    next
      case False
      then have "u \<noteq> t" "timer_map s u = Some (State_Refresh src grp, a)" using u by (auto simp: s'(6) split: if_splits)
      then obtain y where "y \<in> set (pi_routes s)" "mr_origin y = src" "mr_group y = grp" "mr_srt y = Some u"
        using owned_srt [OF dm_inv_owned [OF inv]] by blast
      moreover have "mr_id y \<noteq> mr_id r" using same [OF calculation(1)] r(2) \<open>u \<noteq> t\<close> calculation(4) by auto
      ultimately show ?thesis by (intro bexI [of _ y]) (auto simp: rs)
    qed
  qed
  moreover have "nbr_ok (timer_map s') (pi_nbrs s) (pi_nbrId s)"
  proof -
    have "timer_map s' u = Some (Neighbor_Liveness i, a) \<longleftrightarrow> timer_map s u = Some (Neighbor_Liveness i, a)" for u i a
      using tm n by (auto simp: s'(6))
    then show ?thesis using inv by (simp add: dm_inv_def nbr_ok_def runs_def)
  qed
  moreover have "fresh s'" using dm_inv_fresh [OF inv] by (auto simp: fresh_def s'(1,6) less_SucI)
  moreover have "dm_kind k" if "timer_map s' u = Some (k, a)" for u k a
    using that dm_inv_kind [OF inv, of u k a] by (auto simp: s'(6) dm_kind_def split: if_splits)
  ultimately show ?thesis
    using inv by (auto simp: dm_inv_def T s'(2-4)) (auto simp: put_mroute_def modify_mroute_def fresh_def s'(1-4) less_SucI)
qed

lemma processStateRefreshTimer_ok:
  assumes inv: "dm_inv s" and T: "timer_map s t = Some (State_Refresh src grp, a)"
  shows "run_ok (processStateRefreshTimer env t src grp (fired t s)) dm_inv"
proof -
  obtain r where r: "r \<in> set (pi_routes s)" "mr_origin r = src" "mr_group r = grp" "mr_srt r = Some t"
    using owned_srt [OF dm_inv_owned [OF inv] T] by blast
  have get: "getRouteFor grp src s = Some r" using dm_inv_getRouteFor [OF inv r(1)] r by simp
  let ?s = "fired t s"
  have inv0: "dm_inv ?s" by (rule dm_inv_fired_srt [OF inv T])
  have r0: "r \<in> set (pi_routes ?s)" using r(1) by simp
  have step: "run_ok (delete_timer (Some t) s1) (\<lambda>s2. run_ok (new_timer (State_Refresh src grp) SRT s2)
      (\<lambda>(srt, s3). dm_inv (put_mroute (r\<lparr>mr_srt := srt\<rparr>) s3)))" if g: "good r ?s r s1" for s1
  proof -
    have inv1: "dm_inv s1" using kept_good [OF inv0 r0 g] by (simp add: kept_def)
    have r1: "r \<in> set (pi_routes s1)" using g r0 by (simp add: good_def frame_def)
    have "timer_map s1 t = Some (State_Refresh src grp, None)"
      using g T by (simp add: good_def frame_def prune_or_graft_def timer_map_fired)
    then have del: "run_ok (delete_timer (Some t) s1) (\<lambda>s2. same_rest s1 s2 \<and> timer_map s2 = (timer_map s1)(t := None))"
      by (rule run_delete)
    have "run_ok (new_timer (State_Refresh src grp) SRT s2) (\<lambda>(srt, s3). dm_inv (put_mroute (r\<lparr>mr_srt := srt\<rparr>) s3))"
      if s2: "same_rest s1 s2" "timer_map s2 = (timer_map s1)(t := None)" for s2
    proof (rule run_ok_mono [OF run_new_timer])
      show "timer_map s2 (pi_next s2) = None"
        using fresh_None [OF dm_inv_fresh [OF inv1]] s2 by (simp add: same_rest_def)
      show "case p of (srt, s3) \<Rightarrow> dm_inv (put_mroute (r\<lparr>mr_srt := srt\<rparr>) s3)"
        if "case p of (q, s') \<Rightarrow> q = Some (pi_next s2) \<and> same_rest (s2\<lparr>pi_next := pi_next s2 + 1\<rparr>) s' \<and>
              timer_map s' = (timer_map s2)(pi_next s2 \<mapsto> (State_Refresh src grp, Some (pi_now s2 + SRT)))" for p
        using that s2 r by (auto simp: same_rest_def intro!: dm_inv_new_srt [OF inv1 r1])
    qed (simp add: sec_def)
    then show ?thesis by (intro run_ok_mono [OF del]) blast
  qed
  have "run_ok (refresh_loop (pe_addr env) src grp (mr_outInt r) ?s) (\<lambda>s1. run_ok (delete_timer (Some t) s1)
      (\<lambda>s2. run_ok (new_timer (State_Refresh src grp) SRT s2) (\<lambda>(srt, s3). dm_inv (put_mroute (r\<lparr>mr_srt := srt\<rparr>) s3))))"
    by (rule run_ok_mono [OF good_refresh_loop [OF dm_inv_good [OF inv0 r0] subset_refl] step])
  then show ?thesis by (simp add: processStateRefreshTimer_def get r(2,3) case_prod_unfold)
qed

section \<open>Neighbours\<close>

lemma nbr_okI:
  "distinct (map nb_id ns) \<Longrightarrow> distinct (map (\<lambda>n. (nb_intId n, nb_addr n)) ns) \<Longrightarrow> (\<And>n. n \<in> set ns \<Longrightarrow> nb_id n < c) \<Longrightarrow>
   (\<And>n. n \<in> set ns \<Longrightarrow> \<exists>t. nb_nlt n = Some t \<and> runs T t (Neighbor_Liveness (nb_id n))) \<Longrightarrow>
   (\<And>t i a. T t = Some (Neighbor_Liveness i, a) \<Longrightarrow> \<exists>n\<in>set ns. nb_id n = i \<and> nb_nlt n = Some t) \<Longrightarrow> nbr_ok T ns c"
  unfolding nbr_ok_def by blast

lemma dm_inv_nbr: "dm_inv s \<Longrightarrow> nbr_ok (timer_map s) (pi_nbrs s) (pi_nbrId s)"
  by (simp add: dm_inv_def)

text \<open>A change that touches no timer a route refers to.\<close>

lemma dm_inv_frame:
  assumes inv: "dm_inv s"
    and s': "pi_next s \<le> pi_next s'" "pi_routes s' = pi_routes s" "map pn_id (pi_ints s') = map pn_id (pi_ints s)"
      "map pn_mode (pi_ints s') = map pn_mode (pi_ints s)" "fresh s'"
    and T: "\<And>t k a. k \<noteq> Hello_Timer \<Longrightarrow> (\<And>i. k \<noteq> Neighbor_Liveness i) \<Longrightarrow> timer_map s' t = Some (k, a) \<longleftrightarrow> timer_map s t = Some (k, a)"
    and n: "nbr_ok (timer_map s') (pi_nbrs s') (pi_nbrId s')"
  shows "dm_inv s'"
proof -
  have "route_ok (timer_map s') r" if "r \<in> set (pi_routes s)" for r
    by (rule route_ok_frame [OF dm_inv_route [OF inv that]]) (subst T, auto)
  then have "routes_ok (timer_map s') (pi_next s') (pi_routes s)"
    using inv s'(1) by (auto simp: dm_inv_def routes_ok_def intro: less_le_trans)
  moreover have "owned (timer_map s') (pi_routes s)"
    using dm_inv_owned [OF inv] T [of "Source_Active _ _"] T [of "State_Refresh _ _"] by (simp add: owned_def)
  moreover have "dm_kind k" if "timer_map s' t = Some (k, a)" for t k a
    using T [of k t a] that dm_inv_kind [OF inv, of t k a] by (cases k) (auto simp: dm_kind_def)
  moreover have "\<forall>p\<in>set (pi_ints s'). pn_mode p = Dense"
  proof -
    have "set (map pn_mode (pi_ints s')) \<subseteq> {Dense}" using inv unfolding s'(4) by (auto simp: dm_inv_def)
    then show ?thesis by auto
  qed
  ultimately show ?thesis using inv s' n by (auto simp: dm_inv_def)
qed

lemma hello_timer_ok:
  assumes inv: "dm_inv s" and T: "timer_map s t = Some (Hello_Timer, a)"
  shows "run_ok (splitter_timer t Hello_Timer (fired t s)) dm_inv"
proof -
  let ?s = "fired t s\<lparr>pi_out := pi_out s @ map (\<lambda>p. Out_Pim (createHelloPkt (pn_id p))) (pi_ints s)\<rparr>"
  have l: "t < pi_next s" using dm_inv_fresh [OF inv] T by (auto simp: fresh_def)
  have Ts: "timer_map ?s = (timer_map s)(t \<mapsto> (Hello_Timer, None))" by (simp add: timer_map_fired [OF T])
  have n: "timer_map ?s (pi_next ?s) = None" using fresh_None [OF dm_inv_fresh [OF inv]] l unfolding Ts by simp
  have "run_ok (delete_timer (Some t) s1) dm_inv"
    if s1: "same_rest (?s\<lparr>pi_next := pi_next ?s + 1\<rparr>) s1" "timer_map s1 = (timer_map ?s)(pi_next ?s \<mapsto> (Hello_Timer, Some x))" for s1 x
  proof (rule run_ok_mono [OF run_delete])
    show "timer_map s1 t = Some (Hello_Timer, None)" using l unfolding s1(2) Ts by simp
    fix s2 assume s2: "same_rest s1 s2 \<and> timer_map s2 = (timer_map s1)(t := None)"
    have T2: "timer_map s2 = (timer_map s)(t := None, pi_next s \<mapsto> (Hello_Timer, Some x))"
      using s2 l unfolding s1(2) Ts by auto
    have K: "timer_map s2 u = Some (k, b) \<longleftrightarrow> timer_map s u = Some (k, b)" if "k \<noteq> Hello_Timer" for u k b
      using that T fresh_None [OF dm_inv_fresh [OF inv]] by (auto simp: T2)
    have "nbr_ok (timer_map s2) (pi_nbrs s) (pi_nbrId s)"
      using dm_inv_nbr [OF inv] K [of "Neighbor_Liveness _"] by (simp add: nbr_ok_def runs_def)
    moreover have "fresh s2"
    proof -
      have "pi_next s2 = Suc (pi_next s)" using s1(1) s2 by (simp add: same_rest_def)
      then show ?thesis using dm_inv_fresh [OF inv] by (auto simp: fresh_def T2 less_SucI)
    qed
    ultimately show "dm_inv s2" using s1(1) s2 K by (intro dm_inv_frame [OF inv]) (auto simp: same_rest_def)
  qed
  then have "run_ok (new_timer Hello_Timer HT ?s) (\<lambda>p. run_ok (delete_timer (Some t) (snd p)) dm_inv)"
    by (intro run_ok_mono [OF run_new_timer [OF n]]) (auto simp: sec_def)
  then show ?thesis by (simp add: splitter_timer_def sendHelloPkt_def)
qed

text \<open>A neighbour whose liveness timer goes off is the one that is removed.\<close>

lemma nlt_timer_ok:
  assumes inv: "dm_inv s" and T: "timer_map s t = Some (Neighbor_Liveness i, a)"
  shows "run_ok (splitter_timer t (Neighbor_Liveness i) (fired t s))
    (\<lambda>s'. dm_inv s' \<and> (\<exists>n\<in>set (pi_nbrs s). nb_id n = i) \<and> pi_nbrs s' = filter (\<lambda>n. nb_id n \<noteq> i) (pi_nbrs s))"
proof -
  note nb = dm_inv_nbr [OF inv, unfolded nbr_ok_def]
  obtain n where n: "n \<in> set (pi_nbrs s)" "nb_id n = i" "nb_nlt n = Some t" using nb T by blast
  have f: "erase_first (\<lambda>n. i = nb_id n) (pi_nbrs s) = filter (\<lambda>n. nb_id n \<noteq> i) (pi_nbrs s)"
    using erase_first_distinct [of nb_id "pi_nbrs s" i] nb by (simp add: eq_commute [of i])
  let ?s = "fired t s\<lparr>pi_nbrs := filter (\<lambda>n. nb_id n \<noteq> i) (pi_nbrs s)\<rparr>"
  have "dm_inv s'" if s': "same_rest ?s s'" "timer_map s' = (timer_map ?s)(t := None)" for s'
  proof -
    have T': "timer_map s' = (timer_map s)(t := None)" by (simp add: s'(2) timer_map_fired [OF T])
    have "nbr_ok (timer_map s') (filter (\<lambda>n. nb_id n \<noteq> i) (pi_nbrs s)) (pi_nbrId s)"
    proof -
      have "\<exists>u. nb_nlt m = Some u \<and> runs (timer_map s') u (Neighbor_Liveness (nb_id m))" if "m \<in> set (pi_nbrs s)" "nb_id m \<noteq> i" for m
        using nb that T by (fastforce simp: T' runs_def)
      moreover have "\<exists>m\<in>set (pi_nbrs s). nb_id m \<noteq> i \<and> nb_id m = j \<and> nb_nlt m = Some u" if "timer_map s' u = Some (Neighbor_Liveness j, b)" for u j b
      proof -
        have u: "u \<noteq> t" "timer_map s u = Some (Neighbor_Liveness j, b)" using that by (auto simp: T' split: if_splits)
        then obtain m where m: "m \<in> set (pi_nbrs s)" "nb_id m = j" "nb_nlt m = Some u" using nb by blast
        moreover have "m \<noteq> n" using m(3) n(3) u(1) by auto
        ultimately show ?thesis using n(1,2) nb by (intro bexI [of _ m]) (auto simp: distinct_map dest: inj_onD)
      qed
      ultimately show ?thesis
        using nb by (intro nbr_okI) (simp_all add: distinct_map_filter, blast+)
    qed
    moreover have "fresh s'" using dm_inv_fresh [OF inv] s'(1) by (auto simp: fresh_def T' same_rest_def)
    ultimately show ?thesis using s'(1) T by (intro dm_inv_frame [OF inv]) (auto simp: same_rest_def T')
  qed
  moreover have "timer_map ?s t = Some (Neighbor_Liveness i, None)" by (simp add: timer_map_fired [OF T])
  ultimately have "run_ok (delete_timer (Some t) ?s) (\<lambda>s'. dm_inv s' \<and> pi_nbrs s' = filter (\<lambda>n. nb_id n \<noteq> i) (pi_nbrs s))"
    by (intro run_ok_mono [OF run_delete]) (auto simp: same_rest_def)
  then show ?thesis
    using n by (auto simp: splitter_timer_def processNLTimer_def deleteNeighbor_def f elim: run_ok_mono)
qed

lemma processHelloPkt_ok:
  assumes inv: "dm_inv s"
  shows "run_ok (processHelloPkt ver m s) dm_inv"
proof (cases "isInTable (pm_intId m) (pm_src m) s")
  case False
  note nb = dm_inv_nbr [OF inv, unfolded nbr_ok_def]
  have n: "timer_map s (pi_next s) = None" by (rule fresh_None [OF dm_inv_fresh [OF inv]])
  let ?n = "\<lparr>nb_id = 0, nb_intId = pm_intId m, nb_addr = pm_src m, nb_ver = ver, nb_nlt = Some (pi_next s)\<rparr>"
  have "dm_inv (addNeighbor ?n s1)"
    if s1: "same_rest (s\<lparr>pi_next := pi_next s + 1\<rparr>) s1" "timer_map s1 = (timer_map s)(pi_next s \<mapsto> (Neighbor_Liveness (pi_nbrId s), Some x))" for s1 x
  proof -
    have T: "timer_map (addNeighbor ?n s1) = (timer_map s)(pi_next s \<mapsto> (Neighbor_Liveness (pi_nbrId s), Some x))"
      by (simp add: addNeighbor_def s1(2))
    have "nbr_ok (timer_map (addNeighbor ?n s1)) (pi_nbrs s @ [?n\<lparr>nb_id := pi_nbrId s\<rparr>]) (pi_nbrId s + 1)"
    proof -
      have "\<exists>u. nb_nlt k = Some u \<and> runs (timer_map (addNeighbor ?n s1)) u (Neighbor_Liveness (nb_id k))" if "k \<in> set (pi_nbrs s)" for k
        using nb that n by (fastforce simp: T runs_def)
      moreover have "(pm_intId m, pm_src m) \<notin> (\<lambda>n. (nb_intId n, nb_addr n)) ` set (pi_nbrs s)"
        using False by (auto simp: isInTable_def list_ex_iff)
      moreover have "nb_id k < pi_nbrId s" if "k \<in> set (pi_nbrs s)" for k using nb that by blast
      moreover have "timer_map s u = Some (Neighbor_Liveness i, b) \<Longrightarrow> \<exists>k\<in>set (pi_nbrs s). nb_id k = i \<and> nb_nlt k = Some u" for u i b
        using nb by blast
      moreover have "runs (timer_map (addNeighbor ?n s1)) (pi_next s) (Neighbor_Liveness (pi_nbrId s))" by (simp add: T runs_def)
      moreover have "\<exists>k\<in>set (pi_nbrs s @ [?n\<lparr>nb_id := pi_nbrId s\<rparr>]). nb_id k = i \<and> nb_nlt k = Some u"
        if "timer_map (addNeighbor ?n s1) u = Some (Neighbor_Liveness i, b)" for u i b
        using that calculation(4) [of u i b] by (cases "u = pi_next s") (auto simp: T)
      moreover have "nb_id k \<noteq> pi_nbrId s" if "k \<in> set (pi_nbrs s)" for k using calculation(3) [OF that] by simp
      ultimately show ?thesis
        using nb by (intro nbr_okI) (auto intro: less_trans)
    qed
    moreover have "fresh (addNeighbor ?n s1)"
      using dm_inv_fresh [OF inv] s1(1) unfolding fresh_def T by (auto simp: addNeighbor_def same_rest_def less_SucI)
    ultimately show ?thesis
      using s1(1) n by (intro dm_inv_frame [OF inv]) (auto simp: T, auto simp: addNeighbor_def same_rest_def)
  qed
  then show ?thesis
    using False run_ok_mono [OF run_new_timer [OF n, of NLT "Neighbor_Liveness (pi_nbrId s)"],
        where Q = "\<lambda>p. dm_inv (addNeighbor \<lparr>nb_id = 0, nb_intId = pm_intId m, nb_addr = pm_src m, nb_ver = ver, nb_nlt = fst p\<rparr> (snd p))"]
    by (auto simp: processHelloPkt_def case_prod_unfold sec_def)
next
  case True
  note nb = dm_inv_nbr [OF inv, unfolded nbr_ok_def]
  have "findNeighbor (pm_intId m) (pm_src m) s \<noteq> None" using True by (auto simp: isInTable_def list_ex_iff findNeighbor_def find_None_all)
  then obtain n where n: "findNeighbor (pm_intId m) (pm_src m) s = Some n" by blast
  then have "n \<in> set (pi_nbrs s)" unfolding findNeighbor_def by (blast dest: find_Some_in)
  then obtain t a where t: "nb_nlt n = Some t" "timer_map s t = Some (Neighbor_Liveness (nb_id n), a)" using nb by (auto simp: runs_def)
  have "dm_inv s'" if s': "same_rest s s'" "timer_map s' = (timer_map s)(t \<mapsto> (Neighbor_Liveness (nb_id n), Some x))" for s' x
  proof -
    have "nbr_ok (timer_map s') (pi_nbrs s) (pi_nbrId s)"
    proof -
      have "runs (timer_map s') u (Neighbor_Liveness i)" if "runs (timer_map s) u (Neighbor_Liveness i)" for u i
        using that t(2) by (auto simp: s'(2) runs_def)
      moreover have "\<exists>b. timer_map s u = Some (Neighbor_Liveness i, b)" if "timer_map s' u = Some (Neighbor_Liveness i, b)" for u i b
        using that t(2) by (auto simp: s'(2) split: if_splits)
      ultimately show ?thesis using nb by (intro nbr_okI) (blast | simp)+
    qed
    moreover have "fresh s'" using dm_inv_fresh [OF inv] t(2) s'(1) by (auto simp: fresh_def s'(2) same_rest_def)
    ultimately show ?thesis using s'(1) t(2) by (intro dm_inv_frame [OF inv]) (auto simp: same_rest_def s'(2))
  qed
  then have "run_ok (restart_timer (Some t) NLT s) dm_inv"
    by (intro run_ok_mono [OF run_restart [OF t(2)]]) (auto simp: sec_def)
  then show ?thesis using True by (simp add: processHelloPkt_def n t(1))
qed

end
