(* ===== verification/Pim_Notify.thy ===== *)
theory Pim_Notify
  imports Pim_Handlers
begin

text \<open>
  The notifications of a dense mode router, as \<open>Pim_Handlers\<close> has its packets and timers: data, group
  membership, a new stream, a change of the incoming interface, and the forwarding of datagrams.
\<close>

section \<open>Data on a known route\<close>

lemma dm_inv_restart:
  assumes inv: "dm_inv s" and T: "timer_map s t = Some (k, a)"
    and s': "same_rest s s'" "timer_map s' = (timer_map s)(t \<mapsto> (k, Some x))"
  shows "kept s s'"
proof (rule kept_same_rest [OF s'(1)])
  have up: "\<exists>b. timer_map s' u = Some (j, Some b)" if "timer_map s u = Some (j, Some b)" for u j b
    using that T by (auto simp: s'(2))
  have up': "\<exists>b. timer_map s' u = Some (j, b)" if "timer_map s u = Some (j, b)" for u j b
    using that T by (auto simp: s'(2))
  have down: "\<exists>b. timer_map s u = Some (j, b)" if "timer_map s' u = Some (j, b)" for u j b
    using that T by (auto simp: s'(2) split: if_splits)
  have o: "out_ok (timer_map s') src grp oi" if "out_ok (timer_map s) src grp oi" for src grp oi
    using that up by (fastforce simp: out_ok_def runs_def split: option.splits)
  have run: "runs (timer_map s') u j" if "runs (timer_map s) u j" for u j using that up by (auto simp: runs_def)
  have live: "lives (timer_map s') u j" if "lives (timer_map s) u j" for u j using that up' by (auto simp: lives_def)
  have "route_ok (timer_map s') r" if "route_ok (timer_map s) r" for r
    using that run live o unfolding route_ok_def by fast
  then have "routes_ok (timer_map s') (pi_next s) (pi_routes s)" using inv by (auto simp: dm_inv_def routes_ok_def)
  moreover have "owned (timer_map s') (pi_routes s)"
    unfolding owned_def using down owned_sat [OF dm_inv_owned [OF inv]] owned_srt [OF dm_inv_owned [OF inv]] by blast
  moreover have "nbr_ok (timer_map s') (pi_nbrs s) (pi_nbrId s)"
  proof -
    note nb = dm_inv_nbr [OF inv, unfolded nbr_ok_def]
    have "\<exists>n\<in>set (pi_nbrs s). nb_id n = i \<and> nb_nlt n = Some u" if "timer_map s' u = Some (Neighbor_Liveness i, b)" for u i b
      using down [OF that] nb by blast
    then show ?thesis using nb run by (intro nbr_okI) (blast | simp)+
  qed
  moreover have "dm_kind j" if "timer_map s' u = Some (j, b)" for u j b
    using down [OF that] dm_inv_kind [OF inv] by blast
  moreover have "fresh s'"
    using dm_inv_fresh [OF inv] T s'(1) by (auto simp: fresh_def s'(2) same_rest_def)
  ultimately show "dm_inv s'" using inv s'(1) by (simp add: dm_inv_def same_rest_def)
qed

lemma dataOnRpf_ok:
  assumes inv: "dm_inv s" and r: "r \<in> set (pi_routes s)"
  shows "run_ok (dataOnRpf r s) (\<lambda>s'. kept s s' \<and> pi_routes s' = pi_routes s \<and> pi_out s' = pi_out s)"
proof -
  obtain t a where t: "mr_sat r = Some t" "timer_map s t = Some (Source_Active (mr_origin r) (mr_group r), a)"
    using dm_inv_route [OF inv r] by (auto simp: route_ok_def runs_def)
  show ?thesis
    unfolding dataOnRpf_def t(1)
    by (rule run_ok_mono [OF run_restart [OF t(2)]])
      (use dm_inv_restart [OF inv t(2)] in \<open>auto simp: sec_def same_rest_def\<close>)
qed

lemma dataOnPruned_ok:
  assumes inv: "dm_inv s" and k: "getRouteFor grp src s \<noteq> None"
  shows "run_ok (dataOnPruned grp src s) (kept s)"
proof -
  obtain r where r: "getRouteFor grp src s = Some r" using k by blast
  then have rs: "r \<in> set (pi_routes s)" by (auto dest: getRouteFor_Some)
  note g = dm_inv_good [OF inv rs]
  obtain ii where ii: "mr_inInt r = Some ii" using good_inInt [OF g] by blast
  have "run_ok (stop_graft r s) (\<lambda>(r1, s1). kept s (put_mroute r1 s1))" if "mr_grt r \<noteq> None"
    using kept_put [OF inv rs] by (intro run_ok_mono [OF good_stop_graft [OF g that]]) auto
  then show ?thesis
    using kept_refl [OF inv] by (auto simp: dataOnPruned_def r ii sendPimJoinPrune_def case_prod_unfold)
qed

text \<open>Data on another interface: with a single neighbour there, the interface has to be on the outgoing list.\<close>

definition nonrpf_ok :: "ipv4_addr \<Rightarrow> ipv4_addr \<Rightarrow> int \<Rightarrow> pim \<Rightarrow> bool" where
  "nonrpf_ok grp src i s =
     (case getRouteFor grp src s of
        None \<Rightarrow> True
      | Some r \<Rightarrow> getNumNeighborsOnInt i s \<noteq> 1 \<or> list_ex (\<lambda>oi. oi_id oi = i) (mr_outInt r))"

lemma dataOnNonRpf_ok:
  assumes inv: "dm_inv s" and ok: "nonrpf_ok grp src i s"
  shows "run_ok (dataOnNonRpf grp src i s) (kept s)"
proof (cases "getRouteFor grp src s")
  case None
  then show ?thesis by (simp add: dataOnNonRpf_def kept_refl [OF inv])
next
  case (Some r)
  then have rs: "r \<in> set (pi_routes s)" by (auto dest: getRouteFor_Some)
  note g = dm_inv_good [OF inv rs] and put = kept_put [OF inv rs]
  show ?thesis
  proof (cases "getNumNeighborsOnInt i s = 1")
    case False
    then show ?thesis
      using kept_refl [OF inv] by (auto simp: dataOnNonRpf_def Some getNumNeighborsOnInt_def split: list.splits)
  next
    case True
    then obtain n where n: "getNeighborsByIntID i s = [n]" by (auto simp: getNumNeighborsOnInt_def length_Suc_conv)
    let ?j = "getOutIdByIntId i r" and ?s = "sendPimJoinPrune (nb_addr n) src grp i s"
    have j: "?j < length (mr_outInt r)" using ok True Some by (simp add: nonrpf_ok_def getOutIdByIntId_def list_ex_iff)
    note sp = split_at_index [OF getOutIdByIntId_def j]
    have g1: "good r s r ?s" using g by (simp add: sendPimJoinPrune_def)
    have pt: "0 \<le> PT" by (simp add: sec_def)
    define tail where "tail = (\<lambda>r1 s2. if isOilistNull r1
        then (let r2 = addFlag FLAG_P r1 in
              if \<not> isFlagSet FLAG_A r2 then map_option (put_mroute r2) (prune_upstream r2 s2) else Some (put_mroute r2 s2))
        else Some (put_mroute r1 s2))"
    have tail: "run_ok (tail r1 s1) (kept s)" if "good r s r1 s1" for r1 s1
      using that put by (auto simp: tail_def Let_def intro!: run_ok_mono [OF good_prune_upstream [of r s "addFlag FLAG_P r1"]])
    have eq: "dataOnNonRpf grp src i s =
        (if oi_forwarding (mr_outInt r ! ?j) = Forward
         then do { (t, s2) \<leftarrow> new_timer (Prune_Timer (mr_origin r) (mr_group r) i) PT ?s;
                   tail (r\<lparr>mr_outInt := vec_modify ?j (\<lambda>oi. oi\<lparr>oi_forwarding := Pruned, oi_pruneTimer := t\<rparr>) (mr_outInt r)\<rparr>) s2 }
         else Some ?s)"
      using j by (simp add: dataOnNonRpf_def Some n tail_def Let_def)
    have "run_ok (new_timer (Prune_Timer (mr_origin r) (mr_group r) i) PT ?s)
        (\<lambda>(t, s2). run_ok (tail (r\<lparr>mr_outInt := vec_modify ?j (\<lambda>oi. oi\<lparr>oi_forwarding := Pruned, oi_pruneTimer := t\<rparr>) (mr_outInt r)\<rparr>) s2) (kept s))"
      using run_ok_mono [OF good_prune_out [OF g1 sp(1) pt],
          where Q = "\<lambda>(t, s2). run_ok (tail (r\<lparr>mr_outInt := vec_modify ?j (\<lambda>oi. oi\<lparr>oi_forwarding := Pruned, oi_pruneTimer := t\<rparr>) (mr_outInt r)\<rparr>) s2) (kept s)"]
        sp(2,3) tail by (auto simp: case_prod_unfold)
    then show ?thesis
      using kept_refl [OF inv] by (auto simp: eq case_prod_unfold sendPimJoinPrune_def)
  qed
qed

section \<open>Group membership\<close>

lemma kept_route_at: "kept s s' \<Longrightarrow> i \<in> mr_id ` set (pi_routes s) \<Longrightarrow> i \<in> mr_id ` set (pi_routes s')"
  by (metis kept_def list.set_map)

lemma route_at_in: "i \<in> mr_id ` set (pi_routes s) \<Longrightarrow> \<exists>r. route_at i s = Some r \<and> r \<in> set (pi_routes s) \<and> mr_id r = i"
proof -
  assume "i \<in> mr_id ` set (pi_routes s)"
  then have "route_at i s \<noteq> None" unfolding route_at_def find_None_all by blast
  then show ?thesis unfolding route_at_def by (blast dest: find_Some_in)
qed

text \<open>No interface is on the list twice, so stepping over an element after erasing one loses nothing.\<close>

lemma erase_loop_distinct:
  "distinct (map oi_id ois) \<Longrightarrow> fst (erase_loop i f ois c) = filter (\<lambda>oi. oi_id oi \<noteq> i) ois"
proof (induction i f ois c rule: erase_loop.induct)
  case (3 i f oi oi' ois c)
  show ?case
  proof (cases "oi_id oi = i")
    case True
    then have "oi_id oi' \<noteq> i" using 3(3) by auto
    then show ?thesis using True 3(1) 3(3) by (simp add: case_prod_unfold)
  next
    case False
    then show ?thesis using 3(2) 3(3) by (simp add: case_prod_unfold)
  qed
qed auto

lemma olist_ok_filter: "olist_ok rpf ois \<Longrightarrow> olist_ok rpf (filter P ois)"
  by (auto simp: olist_ok_def distinct_map_filter)

lemma old_addr_route_ok:
  assumes inv: "dm_inv s" and i: "i \<in> mr_id ` set (pi_routes s)"
  shows "run_ok (old_addr_route intId i c s) (\<lambda>(_, s'). kept s s')"
proof -
  obtain r where r: "route_at i s = Some r" "r \<in> set (pi_routes s)" using route_at_in [OF i] by blast
  note ok = dm_inv_route [OF inv r(2)] and put = kept_put [OF inv r(2)]
  obtain ois c1 where e: "erase_loop intId (\<lambda>k. getNeighborsByIntID k s = []) (mr_outInt r) c = (ois, c1)" by (meson surj_pair)
  have d: "distinct (map oi_id (mr_outInt r))" using ok by (auto simp: route_ok_def olist_ok_def)
  have ois: "ois = filter (\<lambda>oi. oi_id oi \<noteq> intId) (mr_outInt r)" using erase_loop_distinct [OF d] e by (metis fst_conv)
  define r2 where "r2 = (if c1 then r\<lparr>mr_outInt := ois\<rparr> else removeFlag FLAG_C (r\<lparr>mr_outInt := ois\<rparr>))"
  have "good r s (r\<lparr>mr_outInt := ois\<rparr>) s"
    using ok unfolding ois by (intro good_outInt [OF dm_inv_good [OF inv r(2)]]) (auto simp: route_ok_def olist_ok_filter)
  then have g2: "good r s r2 s" by (simp add: r2_def)
  have stop: "run_ok (stop_graft r2 s) (\<lambda>(r3, s1). run_ok (prune_upstream r3 s1) (\<lambda>s2. good r s r3 s2))" if "mr_grt r2 \<noteq> None"
    by (rule run_ok_mono [OF good_stop_graft [OF g2 that]]) (auto intro: good_prune_upstream)
  define up where "up = (if isFlagSet FLAG_P r2 \<and> mr_grt r2 \<noteq> None
       then do { (r3, s1) \<leftarrow> stop_graft r2 s; s2 \<leftarrow> prune_upstream r3 s1; Some (r3, s2) } else Some (r2, s))"
  have up: "run_ok up (\<lambda>(r3, s1). good r s r3 s1)"
    using g2 stop by (auto simp: up_def case_prod_unfold)
  have tail: "run_ok (if \<not> isFlagSet FLAG_A r3 \<and> \<not> isFlagSet FLAG_P r3 then prune_upstream r3 s1 else Some s1)
      (\<lambda>s3. kept s (put_mroute (addFlag FLAG_P r3) s3))" if "good r s r3 s1" for r3 s1
    using that put by (auto intro!: run_ok_mono [OF good_prune_upstream])
  have eq: "old_addr_route intId i c s =
      (if isOilistNull r2
       then do { (r3, s1) \<leftarrow> up;
                 s3 \<leftarrow> (if \<not> isFlagSet FLAG_A r3 \<and> \<not> isFlagSet FLAG_P r3 then prune_upstream r3 s1 else Some s1);
                 Some (c1, put_mroute (addFlag FLAG_P r3) s3) }
       else Some (c1, put_mroute r2 s))"
    by (simp only: old_addr_route_def r(1) bind.bind_lunit e prod.case Let_def r2_def up_def)
  have "run_ok up (\<lambda>(r3, s1). run_ok (if \<not> isFlagSet FLAG_A r3 \<and> \<not> isFlagSet FLAG_P r3 then prune_upstream r3 s1 else Some s1)
      (\<lambda>s3. kept s (put_mroute (addFlag FLAG_P r3) s3)))"
  proof (rule run_ok_mono [OF up])
    fix x assume "case x of (r3, s1) \<Rightarrow> good r s r3 s1"
    then show "case x of (r3, s1) \<Rightarrow> run_ok (if \<not> isFlagSet FLAG_A r3 \<and> \<not> isFlagSet FLAG_P r3 then prune_upstream r3 s1 else Some s1)
      (\<lambda>s3. kept s (put_mroute (addFlag FLAG_P r3) s3))"
      using tail [of "fst x" "snd x"] by (simp only: case_prod_unfold)
  qed
  then show ?thesis using put [OF g2] by (simp add: eq case_prod_unfold)
qed

text \<open>A loop over routes or addresses that carries a flag.\<close>

lemma run_kept_pair:
  fixes m :: "('c \<times> pim) option"
  assumes "run_ok m (\<lambda>(_, s1). kept s s1)" and "\<And>c s1. kept s s1 \<Longrightarrow> run_ok (f c s1) (\<lambda>p. kept s1 (h p))"
  shows "run_ok m (\<lambda>(c, s1). run_ok (f c s1) (\<lambda>p. kept s (h p)))"
proof (rule run_ok_mono [OF assms(1)])
  fix p :: "'c \<times> pim" assume "case p of (_, s1) \<Rightarrow> kept s s1"
  then have k: "kept s (snd p)" by auto
  show "case p of (c, s1) \<Rightarrow> run_ok (f c s1) (\<lambda>p. kept s (h p))"
    using run_ok_mono [OF assms(2) [OF k]] kept_trans [OF k] by (auto simp: case_prod_unfold)
qed

lemma getRoutesForGroup_ids: "set (map mr_id (getRoutesForGroup a s)) \<subseteq> mr_id ` set (pi_routes s)"
  by (auto simp: getRoutesForGroup_def)

lemma old_addr_routes_ok:
  "dm_inv s \<Longrightarrow> set is \<subseteq> mr_id ` set (pi_routes s) \<Longrightarrow> run_ok (old_addr_routes intId is c s) (\<lambda>p. kept s (snd p))"
proof (induction "is" arbitrary: c s)
  case (Cons i "is")
  have "run_ok (old_addr_route intId i c s) (\<lambda>(c1, s1). run_ok (old_addr_routes intId is c1 s1) (\<lambda>p. kept s (snd p)))"
  proof (rule run_kept_pair)
    show "run_ok (old_addr_route intId i c s) (\<lambda>(_, s1). kept s s1)" using Cons.prems by (intro old_addr_route_ok) auto
    show "run_ok (old_addr_routes intId is c1 s1) (\<lambda>p. kept s1 (snd p))" if k: "kept s s1" for c1 s1
      using Cons.prems kept_route_at [OF k] k by (intro Cons.IH) (auto simp: kept_def)
  qed
  then show ?case by (simp add: case_prod_unfold)
qed (simp add: kept_refl)

lemma old_addrs_ok: "dm_inv s \<Longrightarrow> run_ok (old_addrs intId as c s) (kept s)"
proof (induction as arbitrary: c s)
  case (Cons a as)
  have "run_ok (old_addr_routes intId (map mr_id (getRoutesForGroup a s)) c s) (\<lambda>(c1, s1). run_ok (old_addrs intId as c1 s1) (\<lambda>p. kept s p))"
  proof (rule run_kept_pair)
    show "run_ok (old_addr_routes intId (map mr_id (getRoutesForGroup a s)) c s) (\<lambda>(_, s1). kept s s1)"
      using old_addr_routes_ok [OF Cons.prems getRoutesForGroup_ids] by (simp add: case_prod_unfold)
    show "run_ok (old_addrs intId as c1 s1) (\<lambda>p. kept s1 p)" if "kept s s1" for c1 s1
      using Cons.IH [of s1] that by (simp add: kept_def)
  qed
  then show ?case by (simp add: case_prod_unfold)
qed (simp add: kept_refl)

lemma out_ok_forward: "out_ok T src grp oi \<Longrightarrow> out_ok T src grp (oi\<lparr>oi_forwarding := Forward\<rparr>)"
  by (auto simp: out_ok_def split: option.splits)

lemma out_ok_new [simp]: "out_ok T src grp (new_out_int i m)"
  by (simp add: out_ok_def new_out_int_def)

lemma new_out_int_id [simp]: "oi_id (new_out_int i m) = i" "oi_forwarding (new_out_int i m) = Forward"
  by (simp_all add: new_out_int_def)

lemma new_addr_route_ok:
  assumes inv: "dm_inv s" and i: "i \<in> mr_id ` set (pi_routes s)"
  shows "run_ok (new_addr_route intId i c s) (\<lambda>(_, s'). kept s s')"
proof -
  obtain r where r: "route_at i s = Some r" "r \<in> set (pi_routes s)" using route_at_in [OF i] by blast
  note ok = dm_inv_route [OF inv r(2)] and put = kept_put [OF inv r(2)]
  obtain ii where ii: "mr_inInt r = Some ii" using good_inInt [OF dm_inv_good [OF inv r(2)]] by blast
  show ?thesis
  proof (cases "intId = ii_id ii")
    case True
    then show ?thesis by (simp add: new_addr_route_def r isRpf_def ii kept_refl [OF inv])
  next
    case False
    let ?f = "\<lambda>oi. if oi_forwarding oi = Pruned then oi\<lparr>oi_forwarding := Forward\<rparr> else oi"
    define ois where "ois = (if getOutIdByIntId intId r < length (mr_outInt r) then update_first (\<lambda>oi. oi_id oi = intId) ?f (mr_outInt r)
        else mr_outInt r @ [new_out_int intId Densemode])"
    have ids: "map oi_id (update_first (\<lambda>oi. oi_id oi = intId) ?f (mr_outInt r)) = map oi_id (mr_outInt r)"
      by (rule map_update_first) simp
    have "olist_ok (ii_id ii) ois"
      using ok ii False olist_ok_ids [OF ids] by (auto simp: ois_def route_ok_def olist_ok_def getOutIdByIntId_def simp del: map_map)
    moreover have "out_ok (timer_map s) (mr_origin r) (mr_group r) oi" if "oi \<in> set ois" for oi
      using that ok set_update_first_subset [of "\<lambda>oi. oi_id oi = intId" ?f "mr_outInt r"]
      by (fastforce simp: ois_def route_ok_def split: if_splits intro: out_ok_forward)
    ultimately have "good r s (r\<lparr>mr_outInt := ois\<rparr>) s"
      using ii by (intro good_outInt [OF dm_inv_good [OF inv r(2)]]) auto
    then have g: "good r s (addFlag FLAG_C (r\<lparr>mr_outInt := ois\<rparr>)) s" by simp
    have eq: "new_addr_route intId i c s =
        (let r1 = addFlag FLAG_C (r\<lparr>mr_outInt := ois\<rparr>) in
          if isFlagSet FLAG_P r1
          then (if \<not> isFlagSet FLAG_A r1
                then do { (r2, s1) \<leftarrow> start_graft r1 s; Some (True, put_mroute r2 s1) }
                else Some (True, put_mroute (removeFlag FLAG_P r1) s))
          else Some (True, put_mroute r1 s))"
      using False by (simp add: new_addr_route_def r isRpf_def ii ois_def Let_def)
    have "run_ok (start_graft (addFlag FLAG_C (r\<lparr>mr_outInt := ois\<rparr>)) s) (\<lambda>(r2, s1). kept s (put_mroute r2 s1))"
      by (rule run_ok_mono [OF good_start_graft [OF g]]) (use put in auto)
    then show ?thesis using put g by (simp add: eq Let_def case_prod_unfold)
  qed
qed

lemma new_addr_routes_ok:
  "dm_inv s \<Longrightarrow> set is \<subseteq> mr_id ` set (pi_routes s) \<Longrightarrow> run_ok (new_addr_routes intId is c s) (\<lambda>p. kept s (snd p))"
proof (induction "is" arbitrary: c s)
  case (Cons i "is")
  have "run_ok (new_addr_route intId i c s) (\<lambda>(c1, s1). run_ok (new_addr_routes intId is c1 s1) (\<lambda>p. kept s (snd p)))"
  proof (rule run_kept_pair)
    show "run_ok (new_addr_route intId i c s) (\<lambda>(_, s1). kept s s1)" using Cons.prems by (intro new_addr_route_ok) auto
    show "run_ok (new_addr_routes intId is c1 s1) (\<lambda>p. kept s1 (snd p))" if k: "kept s s1" for c1 s1
      using Cons.prems kept_route_at [OF k] k by (intro Cons.IH) (auto simp: kept_def)
  qed
  then show ?case by (simp add: case_prod_unfold)
qed (simp add: kept_refl)

lemma new_addrs_ok: "dm_inv s \<Longrightarrow> run_ok (new_addrs intId as c s) (kept s)"
proof (induction as arbitrary: c s)
  case (Cons a as)
  have "run_ok (new_addr_routes intId (map mr_id (getRoutesForGroup a s)) c s) (\<lambda>(c1, s1). run_ok (new_addrs intId as c1 s1) (\<lambda>p. kept s p))"
  proof (rule run_kept_pair)
    show "run_ok (new_addr_routes intId (map mr_id (getRoutesForGroup a s)) c s) (\<lambda>(_, s1). kept s s1)"
      using new_addr_routes_ok [OF Cons.prems getRoutesForGroup_ids] by (simp add: case_prod_unfold)
    show "run_ok (new_addrs intId as c1 s1) (\<lambda>p. kept s1 p)" if "kept s s1" for c1 s1
      using Cons.IH [of s1] that by (simp add: kept_def)
  qed
  then show ?case by (simp add: case_prod_unfold)
qed (simp add: kept_refl)

lemma dm_inv_pim_ints:
  assumes "dm_inv s" "map pn_id ps = map pn_id (pi_ints s)" "map pn_mode ps = map pn_mode (pi_ints s)"
  shows "kept s (s\<lparr>pi_ints := ps\<rparr>)"
proof -
  have "dm_inv (s\<lparr>pi_ints := ps\<rparr>)"
    using assms dm_inv_nbr [OF assms(1)] dm_inv_fresh [OF assms(1)] by (intro dm_inv_frame [OF assms(1)]) (auto simp: fresh_def)
  then show ?thesis by (simp add: kept_def route_keys_def assms(2))
qed

lemma modify_pim_int_kept:
  assumes "dm_inv s" and "\<And>p. pn_id (f p) = pn_id p" and "\<And>p. pn_mode (f p) = pn_mode p"
  shows "kept s (modify_pim_int i f s)"
  unfolding modify_pim_int_def using assms by (intro dm_inv_pim_ints map_update_first) auto

lemma fold_mcast_same:
  "pn_id (fold removeIntMulticastAddress as p) = pn_id p" "pn_mode (fold removeIntMulticastAddress as p) = pn_mode p"
  "pn_id (fold addIntMulticastAddress as p) = pn_id p" "pn_mode (fold addIntMulticastAddress as p) = pn_mode p"
  by (induction as arbitrary: p) (simp_all add: removeIntMulticastAddress_def addIntMulticastAddress_def)

lemma igmpChange_ok:
  assumes inv: "dm_inv s" and p: "getInterfaceByIntID intId s \<noteq> None"
  shows "run_ok (igmpChange intId reported s) (kept s)"
proof -
  obtain p where p: "getInterfaceByIntID intId s = Some p" using p by blast
  define rem where "rem = filter (\<lambda>a. \<not> list_ex (\<lambda>b. a = b) (deleteLocalIPs reported)) (pn_mcast p)"
  define new where "new = filter (\<lambda>a. \<not> list_ex (\<lambda>b. a = b) (pn_mcast p)) (deleteLocalIPs reported)"
  have m: "kept s1 (modify_pim_int intId (fold removeIntMulticastAddress as) s1)" "kept s1 (modify_pim_int intId (fold addIntMulticastAddress as) s1)"
    if "dm_inv s1" for as s1 using that by (intro modify_pim_int_kept; simp add: fold_mcast_same)+
  have a: "run_ok (oldMulticastAddr intId rem (modify_pim_int intId (fold removeIntMulticastAddress rem) s)) (kept s)"
    unfolding oldMulticastAddr_def using m(1) [OF inv] old_addrs_ok by (blast intro: run_ok_mono kept_trans dest: kept_def [THEN iffD1])
  have b: "run_ok (newMulticastAddr intId new (modify_pim_int intId (fold addIntMulticastAddress new) s1)) (kept s)" if k: "kept s s1" for s1
  proof -
    have inv1: "dm_inv s1" using k by (simp add: kept_def)
    have k2: "kept s (modify_pim_int intId (fold addIntMulticastAddress new) s1)" by (rule kept_trans [OF k m(2) [OF inv1]])
    then show ?thesis
      unfolding newMulticastAddr_def by (intro run_ok_mono [OF new_addrs_ok kept_trans [OF k2]]) (simp_all add: kept_def)
  qed
  have "run_ok (if rem = [] then Some s else oldMulticastAddr intId rem (modify_pim_int intId (fold removeIntMulticastAddress rem) s))
      (\<lambda>s1. run_ok (if new = [] then Some s1 else newMulticastAddr intId new (modify_pim_int intId (fold addIntMulticastAddress new) s1)) (kept s))"
    by (rule run_ok_mono [where P = "kept s"]) (use a b kept_refl [OF inv] in auto)
  then show ?thesis by (simp only: igmpChange_def p Let_def bind.bind_lunit run_ok_simps rem_def new_def)
qed

section \<open>A new stream\<close>

text \<open>The interfaces a new stream is forwarded to: all PIM interfaces but the incoming one that have a
  neighbour or a member of the group.\<close>

definition stream_ints :: "ipv4_addr \<Rightarrow> (int \<Rightarrow> bool) \<Rightarrow> int \<Rightarrow> pim_int list \<Rightarrow> pim_int list" where
  "stream_ints grp hasNbr rpf ps =
     filter (\<lambda>p. pn_id p \<noteq> rpf \<and> (hasNbr (pn_id p) \<or> isLocalIntMulticastAddress grp p)) ps"

lemma addFlag_fields [simp]:
  "mr_outInt (addFlag f r) = mr_outInt r" "mr_inInt (addFlag f r) = mr_inInt r" "mr_id (addFlag f r) = mr_id r"
  "mr_origin (addFlag f r) = mr_origin r" "mr_group (addFlag f r) = mr_group r" "mr_grt (addFlag f r) = mr_grt r"
  "mr_sat (addFlag f r) = mr_sat r" "mr_srt (addFlag f r) = mr_srt r" "mr_kat (addFlag f r) = mr_kat r"
  "mr_et (addFlag f r) = mr_et r" "mr_RP (addFlag f r) = mr_RP r"
  by (simp_all add: addFlag_def)

lemma removeFlag_fields [simp]:
  "mr_outInt (removeFlag f r) = mr_outInt r" "mr_inInt (removeFlag f r) = mr_inInt r" "mr_id (removeFlag f r) = mr_id r"
  "mr_origin (removeFlag f r) = mr_origin r" "mr_group (removeFlag f r) = mr_group r" "mr_grt (removeFlag f r) = mr_grt r"
  "mr_sat (removeFlag f r) = mr_sat r" "mr_srt (removeFlag f r) = mr_srt r"
  by (simp_all add: removeFlag_def)

lemma isFlagSet_addFlag [simp]: "isFlagSet f (addFlag g r) \<longleftrightarrow> f = g \<or> isFlagSet f r"
  by (auto simp: isFlagSet_def addFlag_def list_ex_iff)

lemma isFlagSet_outInt [simp]:
  "isFlagSet f (r\<lparr>mr_outInt := x\<rparr>) = isFlagSet f r" "isFlagSet f (r\<lparr>mr_sat := y\<rparr>) = isFlagSet f r"
  "isFlagSet f (r\<lparr>mr_srt := y\<rparr>) = isFlagSet f r" "isFlagSet f (r\<lparr>mr_grt := y\<rparr>) = isFlagSet f r"
  by (simp_all add: isFlagSet_def)

text \<open>Adding an interface changes the list only, and the loop does nothing else but set the flag C.\<close>

definition same_but_list :: "mroute \<Rightarrow> mroute \<Rightarrow> bool" where
  "same_but_list r r' \<longleftrightarrow>
     mr_inInt r' = mr_inInt r \<and> mr_id r' = mr_id r \<and> mr_origin r' = mr_origin r \<and> mr_group r' = mr_group r \<and> mr_grt r' = mr_grt r \<and>
     mr_sat r' = mr_sat r \<and> mr_srt r' = mr_srt r \<and> mr_kat r' = mr_kat r \<and> mr_et r' = mr_et r \<and> mr_RP r' = mr_RP r \<and>
     (distinct (mr_flags r) \<longrightarrow> distinct (mr_flags r')) \<and> (\<forall>f. f \<noteq> FLAG_C \<longrightarrow> isFlagSet f r' = isFlagSet f r)"

lemma new_out_ints_skipped:
  "rpf \<notin> pn_id ` set ps \<Longrightarrow>
   map oi_id (mr_outInt (new_out_ints grp h rpf b ps r)) = map oi_id (mr_outInt r) @ map pn_id (stream_ints grp h rpf ps) \<and>
   (\<forall>oi\<in>set (mr_outInt (new_out_ints grp h rpf b ps r)). oi \<in> set (mr_outInt r) \<or> (oi_forwarding oi = Forward \<and> oi_pruneTimer oi = None)) \<and>
   same_but_list r (new_out_ints grp h rpf b ps r)"
proof (induction ps arbitrary: r)
  case (Cons p ps)
  let ?oi = "new_out_int (pn_id p) (if pn_mode p = Dense then Densemode else Sparsemode)"
  define r1 where "r1 = (if h (pn_id p) then addOutInt ?oi r else if isLocalIntMulticastAddress grp p then addOutInt ?oi (addFlag FLAG_C r) else r)"
  have eq: "new_out_ints grp h rpf b (p # ps) r = new_out_ints grp h rpf b ps r1"
    using Cons.prems by (auto simp: r1_def Let_def)
  have r1: "mr_outInt r1 = mr_outInt r @ (if h (pn_id p) \<or> isLocalIntMulticastAddress grp p then [?oi] else [])" "same_but_list r r1"
    by (simp_all add: r1_def addOutInt_def same_but_list_def)
  have oi: "oi_pruneTimer ?oi = None" by (simp add: new_out_int_def)
  have IH: "map oi_id (mr_outInt (new_out_ints grp h rpf b ps r1)) = map oi_id (mr_outInt r1) @ map pn_id (stream_ints grp h rpf ps)"
    "\<forall>oi\<in>set (mr_outInt (new_out_ints grp h rpf b ps r1)). oi \<in> set (mr_outInt r1) \<or> (oi_forwarding oi = Forward \<and> oi_pruneTimer oi = None)"
    "same_but_list r1 (new_out_ints grp h rpf b ps r1)"
    using Cons.IH [of r1] Cons.prems by auto
  show ?case
    unfolding eq using IH r1 oi Cons.prems
    by (auto simp: stream_ints_def same_but_list_def split: if_splits)
qed (simp add: stream_ints_def same_but_list_def)

lemma new_out_ints_list:
  "distinct (map pn_id ps) \<Longrightarrow>
   map oi_id (mr_outInt (new_out_ints grp h rpf False ps r)) = map oi_id (mr_outInt r) @ map pn_id (stream_ints grp h rpf ps) \<and>
   (\<forall>oi\<in>set (mr_outInt (new_out_ints grp h rpf False ps r)). oi \<in> set (mr_outInt r) \<or> (oi_forwarding oi = Forward \<and> oi_pruneTimer oi = None)) \<and>
   same_but_list r (new_out_ints grp h rpf False ps r)"
proof (induction ps arbitrary: r)
  case (Cons p ps)
  show ?case
  proof (cases "pn_id p = rpf")
    case True
    then have "rpf \<notin> pn_id ` set ps" using Cons.prems by auto
    then show ?thesis using new_out_ints_skipped [of rpf ps grp h True r] True by (simp add: stream_ints_def)
  next
    case False
    let ?oi = "new_out_int (pn_id p) (if pn_mode p = Dense then Densemode else Sparsemode)"
    define r1 where "r1 = (if h (pn_id p) then addOutInt ?oi r else if isLocalIntMulticastAddress grp p then addOutInt ?oi (addFlag FLAG_C r) else r)"
    have eq: "new_out_ints grp h rpf False (p # ps) r = new_out_ints grp h rpf False ps r1"
      using False by (auto simp: r1_def Let_def)
    have r1: "mr_outInt r1 = mr_outInt r @ (if h (pn_id p) \<or> isLocalIntMulticastAddress grp p then [?oi] else [])" "same_but_list r r1"
      by (simp_all add: r1_def addOutInt_def same_but_list_def)
    have oi: "oi_pruneTimer ?oi = None" by (simp add: new_out_int_def)
    have "distinct (map pn_id ps)" using Cons.prems by simp
    note IH = Cons.IH [OF this, of r1]
    show ?thesis
      unfolding eq using IH r1 oi False
      by (auto simp: stream_ints_def same_but_list_def split: if_splits)
  qed
qed (simp add: stream_ints_def same_but_list_def)

text \<open>A route joins the table with its own timers.\<close>

lemma dm_inv_add:
  assumes inv: "dm_inv s"
    and s': "pi_next s \<le> pi_next s'" "pi_nbrs s' = pi_nbrs s" "pi_nbrId s' = pi_nbrId s" "pi_ints s' = pi_ints s" "pi_routes s' = pi_routes s @ [r]"
    and old: "\<And>t. t < pi_next s \<Longrightarrow> timer_map s' t = timer_map s t"
    and new: "\<And>t k a. pi_next s \<le> t \<Longrightarrow> timer_map s' t = Some (k, a) \<Longrightarrow> t < pi_next s' \<and>
        (k = Source_Active (mr_origin r) (mr_group r) \<and> mr_sat r = Some t \<or> k = State_Refresh (mr_origin r) (mr_group r) \<and> mr_srt r = Some t)"
    and r: "route_ok (timer_map s') r" "pi_next s \<le> mr_id r" "mr_id r < pi_next s'" "getRouteFor (mr_group r) (mr_origin r) s = None"
  shows "dm_inv s'"
proof -
  have lt: "t < pi_next s" if "timer_map s t = Some v" for t v using dm_inv_fresh [OF inv] that by (auto simp: fresh_def)
  have T: "timer_map s' t = Some v" if "timer_map s t = Some v" for t v using old [OF lt [OF that]] that by simp
  have T': "timer_map s t = Some (k, a)" if "timer_map s' t = Some (k, a)" "\<And>src grp. k \<noteq> Source_Active src grp" "\<And>src grp. k \<noteq> State_Refresh src grp" for t k a
    using new [OF _ that(1)] old [of t] that by (cases "t < pi_next s") auto
  have "route_ok (timer_map s') x" if x: "x \<in> set (pi_routes s)" for x
    using route_refs_live [OF dm_inv_route [OF inv x]] T by (intro route_ok_refs [OF dm_inv_route [OF inv x]]) fastforce
  moreover have "mr_id x < pi_next s" if "x \<in> set (pi_routes s)" for x using inv that by (auto simp: dm_inv_def routes_ok_def)
  ultimately have "routes_ok (timer_map s') (pi_next s') (pi_routes s')"
    using inv r s'(1,5) unfolding dm_inv_def routes_ok_def getRouteFor_None route_keys_def
    by (auto intro: less_le_trans dest: leD)
  moreover have "owned (timer_map s') (pi_routes s')"
    unfolding owned_def
  proof (intro conjI allI impI)
    fix t src grp a assume t: "timer_map s' t = Some (Source_Active src grp, a)"
    show "\<exists>r\<in>set (pi_routes s'). mr_origin r = src \<and> mr_group r = grp \<and> mr_sat r = Some t"
    proof (cases "t < pi_next s")
      case True
      then show ?thesis using owned_sat [OF dm_inv_owned [OF inv], of t src grp a] t old s'(5) by auto
    next
      case False
      then show ?thesis using new [OF _ t] s'(5) by auto
    qed
  next
    fix t src grp a assume t: "timer_map s' t = Some (State_Refresh src grp, a)"
    show "\<exists>r\<in>set (pi_routes s'). mr_origin r = src \<and> mr_group r = grp \<and> mr_srt r = Some t"
    proof (cases "t < pi_next s")
      case True
      then show ?thesis using owned_srt [OF dm_inv_owned [OF inv], of t src grp a] t old s'(5) by auto
    next
      case False
      then show ?thesis using new [OF _ t] s'(5) by auto
    qed
  qed
  moreover have "nbr_ok (timer_map s') (pi_nbrs s) (pi_nbrId s)"
  proof -
    have "timer_map s' t = Some (Neighbor_Liveness i, a) \<longleftrightarrow> timer_map s t = Some (Neighbor_Liveness i, a)" for t i a
      using T T' by blast
    then show ?thesis using dm_inv_nbr [OF inv] by (simp add: nbr_ok_def runs_def)
  qed
  moreover have "dm_kind k" if "timer_map s' t = Some (k, a)" for t k a
    using dm_inv_kind [OF inv, of t k a] T' [OF that] by (cases k) (auto simp: dm_kind_def)
  moreover have "fresh s'" unfolding fresh_def using new old lt s'(1) by (metis less_le_trans not_Some_eq not_le surj_pair)
  ultimately show ?thesis using inv s' unfolding dm_inv_def by simp
qed

definition new_stream_route :: "mroute \<Rightarrow> pim \<Rightarrow> bool" where
  "new_stream_route r s \<longleftrightarrow>
     mr_id r = pi_next s \<and> mr_origin r \<noteq> 0 \<and> ip_isMulticast (mr_group r) \<and> mr_group r \<noteq> 0 \<and> mr_grt r = None \<and> mr_sat r = None \<and>
     mr_srt r = None \<and> mr_kat r = None \<and> mr_et r = None \<and> mr_outInt r = [] \<and> \<not> isFlagSet FLAG_P r \<and> distinct (mr_flags r) \<and>
     (\<exists>ii. mr_inInt r = Some ii \<and> getInterfaceByIntID (ii_id ii) s \<noteq> None) \<and> getRouteFor (mr_group r) (mr_origin r) s = None"

text \<open>What the handler of a new stream does with the route: \<open>r'\<close> is in the table.\<close>

definition stream_route :: "pim \<Rightarrow> mroute \<Rightarrow> mroute \<Rightarrow> bool" where
  "stream_route s r r' \<longleftrightarrow>
     (\<exists>ii. mr_inInt r = Some ii \<and> mr_inInt r' = Some ii \<and>
       map oi_id (mr_outInt r') = map pn_id (stream_ints (mr_group r) (\<lambda>k. getNeighborsByIntID k s \<noteq> []) (ii_id ii) (pi_ints s))) \<and>
     (\<forall>oi\<in>set (mr_outInt r'). oi_forwarding oi = Forward) \<and>
     (isFlagSet FLAG_P r' \<longleftrightarrow> mr_outInt r' = []) \<and> isFlagSet FLAG_A r' = isFlagSet FLAG_A r \<and>
     mr_id r' = mr_id r \<and> mr_origin r' = mr_origin r \<and> mr_group r' = mr_group r"

lemma same_but_list_flags: "same_but_list r r' \<Longrightarrow> f \<noteq> FLAG_C \<Longrightarrow> isFlagSet f r' = isFlagSet f r"
  by (simp add: same_but_list_def)

lemma stream_int_None: "getInterfaceByIntID i (s\<lparr>pi_next := n\<rparr>) = getInterfaceByIntID i s" "getNeighborsByIntID i (s\<lparr>pi_next := n\<rparr>) = getNeighborsByIntID i s"
  by (simp_all add: getInterfaceByIntID_def getNeighborsByIntID_def)

text \<open>The state \<open>s1\<close> after the timers of a new route are made: \<open>x\<close> and \<open>y\<close> are its state-refresh and source-active
  timers, and nothing but the counter, the timers and what was sent has changed since \<open>s\<close>.\<close>

definition stream_timers :: "pim \<Rightarrow> ipv4_addr \<Rightarrow> ipv4_addr \<Rightarrow> nat option \<Rightarrow> nat option \<Rightarrow> pim \<Rightarrow> bool" where
  "stream_timers s src grp x y s1 \<longleftrightarrow>
     same_rest (s\<lparr>pi_next := pi_next s1, pi_out := pi_out s1\<rparr>) s1 \<and> pi_next s < pi_next s1 \<and>
     (\<forall>t<pi_next s. timer_map s1 t = timer_map s t) \<and>
     (\<forall>t k a. pi_next s \<le> t \<longrightarrow> timer_map s1 t = Some (k, a) \<longrightarrow> t < pi_next s1 \<and>
        (k = State_Refresh src grp \<and> x = Some t \<or> k = Source_Active src grp \<and> y = Some t)) \<and>
     (\<forall>t. x = Some t \<longrightarrow> t < pi_next s1 \<and> lives (timer_map s1) t (State_Refresh src grp)) \<and>
     (\<forall>t. y = Some t \<longrightarrow> t < pi_next s1 \<and> runs (timer_map s1) t (Source_Active src grp))"

lemma stream_timers_init:
  assumes "fresh s"
  shows "stream_timers s src grp None None (s\<lparr>pi_next := pi_next s + 1\<rparr>)"
proof -
  have "t < pi_next s" if "timer_map s t = Some v" for t v using assms that by (auto simp: fresh_def)
  then show ?thesis by (auto simp: stream_timers_def same_rest_def dest: leD)
qed

lemma stream_timers_send [simp]: "stream_timers s src grp x y (send_pim pkt a b c s1) = stream_timers s src grp x y s1"
  by (simp add: stream_timers_def send_pim_def same_rest_def)

lemma stream_timers_new:
  assumes t: "stream_timers s src grp x y s1" and d: "0 \<le> d"
    and k: "k = State_Refresh src grp \<and> x = None \<or> k = Source_Active src grp \<and> y = None"
  shows "run_ok (new_timer k d s1) (\<lambda>(q, s2). \<exists>n. q = Some n \<and>
    (if k = State_Refresh src grp then stream_timers s src grp q y s2 else stream_timers s src grp x q s2))"
proof -
  note t1 = t [unfolded stream_timers_def]
  have new: "\<And>u j a. pi_next s \<le> u \<Longrightarrow> timer_map s1 u = Some (j, a) \<Longrightarrow> u < pi_next s1 \<and>
      (j = State_Refresh src grp \<and> x = Some u \<or> j = Source_Active src grp \<and> y = Some u)" using t1 by blast
  have n: "timer_map s1 (pi_next s1) = None"
    using new [of "pi_next s1"] t1 by (cases "timer_map s1 (pi_next s1)") auto
  show ?thesis
  proof (rule run_ok_mono [OF run_new_timer [OF n d]])
    fix p assume p: "case p of (q, s') \<Rightarrow> q = Some (pi_next s1) \<and> same_rest (s1\<lparr>pi_next := pi_next s1 + 1\<rparr>) s' \<and>
       timer_map s' = (timer_map s1)(pi_next s1 \<mapsto> (k, Some (pi_now s1 + d)))"
    obtain q s2 where q: "p = (q, s2)" by (cases p)
    have T: "timer_map s2 = (timer_map s1)(pi_next s1 \<mapsto> (k, Some (pi_now s1 + d)))" and q': "q = Some (pi_next s1)" and nx: "pi_next s2 = Suc (pi_next s1)"
      and sr: "same_rest (s\<lparr>pi_next := pi_next s2, pi_out := pi_out s2\<rparr>) s2"
      using p q t1 by (auto simp: same_rest_def)
    have up: "lives (timer_map s2) u j" if "lives (timer_map s1) u j" for u j using that n by (auto simp: lives_def T)
    have up': "runs (timer_map s2) u j" if "runs (timer_map s1) u j" for u j using that n by (auto simp: runs_def T)
    have top: "lives (timer_map s2) (pi_next s1) k" "runs (timer_map s2) (pi_next s1) k" by (simp_all add: lives_def runs_def T)
    have old: "\<forall>u<pi_next s. timer_map s2 u = timer_map s u" using t1 by (auto simp: T)
    have new': "u < pi_next s2 \<and> (u = pi_next s1 \<and> j = k \<or> j = State_Refresh src grp \<and> x = Some u \<or> j = Source_Active src grp \<and> y = Some u)"
      if "pi_next s \<le> u" "timer_map s2 u = Some (j, a)" for u j a
      using that new [of u j a] by (auto simp: T nx split: if_splits)
    have "if k = State_Refresh src grp then stream_timers s src grp q y s2 else stream_timers s src grp x q s2"
      using k t1 old new' up up' top sr unfolding stream_timers_def
      by (auto simp: q' nx)
    then show "case p of (q, s2) \<Rightarrow> \<exists>n. q = Some n \<and>
        (if k = State_Refresh src grp then stream_timers s src grp q y s2 else stream_timers s src grp x q s2)" unfolding q q' by simp
  qed
qed

text \<open>The route of the stream goes into the table.\<close>

definition stream_list :: "pim \<Rightarrow> mroute \<Rightarrow> mroute \<Rightarrow> bool" where
  "stream_list s r r' \<longleftrightarrow>
     (\<exists>ii. mr_inInt r = Some ii \<and> mr_inInt r' = Some ii \<and>
       map oi_id (mr_outInt r') = map pn_id (stream_ints (mr_group r) (\<lambda>k. getNeighborsByIntID k s \<noteq> []) (ii_id ii) (pi_ints s))) \<and>
     (\<forall>oi\<in>set (mr_outInt r'). oi_forwarding oi = Forward \<and> oi_pruneTimer oi = None) \<and> distinct (mr_flags r')"

lemma stream_add:
  assumes inv: "dm_inv s" and r: "new_stream_route r s" and l: "stream_list s r r'"
    and f: "mr_id r' = mr_id r" "mr_origin r' = mr_origin r" "mr_group r' = mr_group r" "mr_sat r' = Some m" "mr_srt r' = x" "mr_grt r' = None"
      "mr_kat r' = None" "mr_et r' = None"
    and t: "stream_timers s (mr_origin r) (mr_group r) x (Some m) s3"
  shows "run_ok (addMulticastRoute r' s3)
    (\<lambda>s'. dm_inv s' \<and> pi_routes s' = pi_routes s @ [r'] \<and> pi_nbrs s' = pi_nbrs s \<and> pi_ints s' = pi_ints s \<and> pi_out s' = pi_out s3)"
proof -
  note rf = r [unfolded new_stream_route_def] and t3 = t [unfolded stream_timers_def]
  obtain ii where ii: "mr_inInt r' = Some ii"
    "map oi_id (mr_outInt r') = map pn_id (stream_ints (mr_group r) (\<lambda>k. getNeighborsByIntID k s \<noteq> []) (ii_id ii) (pi_ints s))"
    using l by (auto simp: stream_list_def)
  have ints: "distinct (map pn_id (pi_ints s))" using inv by (simp add: dm_inv_def)
  have "distinct (map oi_id (mr_outInt r'))" unfolding ii(2) stream_ints_def using ints by (rule distinct_map_filter)
  moreover have "ii_id ii \<notin> set (map oi_id (mr_outInt r'))" unfolding ii(2) by (auto simp: stream_ints_def)
  ultimately have o: "olist_ok (ii_id ii) (mr_outInt r')" by (simp add: olist_ok_def)
  have "runs (timer_map s3) m (Source_Active (mr_origin r) (mr_group r))"
    and "\<forall>t. x = Some t \<longrightarrow> lives (timer_map s3) t (State_Refresh (mr_origin r) (mr_group r))" using t3 by blast+
  moreover have "\<forall>oi\<in>set (mr_outInt r'). out_ok (timer_map s3) (mr_origin r) (mr_group r) oi"
    using l by (simp add: stream_list_def out_ok_def)
  ultimately have ok: "route_ok (timer_map s3) r'" using rf o ii(1) l by (simp add: route_ok_def f stream_list_def)
  have sr: "same_rest (s\<lparr>pi_next := pi_next s3, pi_out := pi_out s3\<rparr>) s3" and nx: "pi_next s < pi_next s3"
    and old: "\<And>t. t < pi_next s \<Longrightarrow> timer_map s3 t = timer_map s t"
    and new: "\<And>t k a. pi_next s \<le> t \<Longrightarrow> timer_map s3 t = Some (k, a) \<Longrightarrow> t < pi_next s3 \<and>
        (k = State_Refresh (mr_origin r) (mr_group r) \<and> x = Some t \<or> k = Source_Active (mr_origin r) (mr_group r) \<and> Some m = Some t)"
    using t3 by blast+
  have "dm_inv (s3\<lparr>pi_routes := pi_routes s3 @ [r']\<rparr>)"
  proof (rule dm_inv_add [OF inv, where r = r'])
    show "getRouteFor (mr_group r') (mr_origin r') s = None" using rf by (simp add: f)
    show "t < pi_next (s3\<lparr>pi_routes := pi_routes s3 @ [r']\<rparr>) \<and> (k = Source_Active (mr_origin r') (mr_group r') \<and> mr_sat r' = Some t \<or>
         k = State_Refresh (mr_origin r') (mr_group r') \<and> mr_srt r' = Some t)"
      if "pi_next s \<le> t" "timer_map (s3\<lparr>pi_routes := pi_routes s3 @ [r']\<rparr>) t = Some (k, a)" for t k a
      using new [of t k a] that by (auto simp: f)
  qed (use sr nx old rf ok in \<open>simp_all add: same_rest_def f\<close>)
  moreover have "addMulticastRoute r' s3 = Some (s3\<lparr>pi_routes := pi_routes s3 @ [r']\<rparr>)"
    using rf by (simp add: addMulticastRoute_def f)
  ultimately show ?thesis using sr by (simp add: same_rest_def)
qed

text \<open>The end of the handler: a stream nobody wants is pruned upstream.\<close>

lemma stream_late:
  assumes inv: "dm_inv s" and r: "new_stream_route r s" and l: "stream_list s r r3"
    and f: "mr_id r3 = mr_id r" "mr_origin r3 = mr_origin r" "mr_group r3 = mr_group r" "mr_sat r3 = Some m" "mr_srt r3 = x" "mr_grt r3 = None"
      "mr_kat r3 = None" "mr_et r3 = None" "isFlagSet FLAG_P r3 = isFlagSet FLAG_P r" "isFlagSet FLAG_A r3 = isFlagSet FLAG_A r"
    and t: "stream_timers s (mr_origin r) (mr_group r) x (Some m) s2"
  shows "run_ok (if length (mr_outInt r3) = length (mr_outInt r)
       then
         (let r4 = addFlag FLAG_P r3 in
          if \<not> isFlagSet FLAG_A r4 then do { s3 \<leftarrow> prune_upstream r4 s2; addMulticastRoute r4 s3 }
          else addMulticastRoute r4 s2)
       else addMulticastRoute r3 s2)
    (\<lambda>s'. dm_inv s' \<and> (\<exists>r'. pi_routes s' = pi_routes s @ [r'] \<and> stream_route s r r') \<and> pi_nbrs s' = pi_nbrs s \<and> pi_ints s' = pi_ints s)"
proof -
  note rf = r [unfolded new_stream_route_def]
  obtain ii where ii: "mr_inInt r3 = Some ii" using l by (auto simp: stream_list_def)
  have l4: "stream_list s r (addFlag FLAG_P r3)" using l by (simp add: stream_list_def)
  have sr: "stream_route s r r3" if "mr_outInt r3 \<noteq> []" using l rf that f by (auto simp: stream_route_def stream_list_def)
  have sr4: "stream_route s r (addFlag FLAG_P r3)" if "mr_outInt r3 = []" using l rf that f by (auto simp: stream_route_def stream_list_def)
  have add3: "run_ok (addMulticastRoute r3 s3) (\<lambda>s'. dm_inv s' \<and> pi_routes s' = pi_routes s @ [r3] \<and> pi_nbrs s' = pi_nbrs s \<and> pi_ints s' = pi_ints s)"
    and add4: "run_ok (addMulticastRoute (addFlag FLAG_P r3) s3)
      (\<lambda>s'. dm_inv s' \<and> pi_routes s' = pi_routes s @ [addFlag FLAG_P r3] \<and> pi_nbrs s' = pi_nbrs s \<and> pi_ints s' = pi_ints s)"
    if "stream_timers s (mr_origin r) (mr_group r) x (Some m) s3" for s3
    using run_ok_mono [OF stream_add [OF inv r l f(1-8) that]] run_ok_mono [OF stream_add [OF inv r l4 _ _ _ _ _ _ _ _ that]] f by auto
  show ?thesis
  proof (cases "mr_outInt r3 = []")
    case True
    have "stream_timers s (mr_origin r) (mr_group r) x (Some m) (sendPimJoinPrune (ii_nextHop ii) (mr_origin r) (mr_group r) (ii_id ii) s2)"
      using t by (simp add: sendPimJoinPrune_def)
    from run_ok_mono [OF add4 [OF this]] run_ok_mono [OF add4 [OF t]] sr4 [OF True] True rf ii f show ?thesis
      by (auto simp: Let_def prune_upstream_def)
  next
    case False
    then show ?thesis using rf run_ok_mono [OF add3 [OF t]] sr [OF False] by auto
  qed
qed

lemma dm_newMulticast_ok:
  assumes inv: "dm_inv s" and r: "new_stream_route r s"
  shows "run_ok (dm_newMulticast r (s\<lparr>pi_next := pi_next s + 1\<rparr>))
    (\<lambda>s'. dm_inv s' \<and> (\<exists>r'. pi_routes s' = pi_routes s @ [r'] \<and> stream_route s r r') \<and> pi_nbrs s' = pi_nbrs s \<and> pi_ints s' = pi_ints s)"
    (is "run_ok _ ?Q")
proof -
  let ?s = "s\<lparr>pi_next := pi_next s + 1\<rparr>" and ?src = "mr_origin r" and ?grp = "mr_group r"
  note rf = r [unfolded new_stream_route_def]
  obtain ii p where ii: "mr_inInt r = Some ii" and p: "getInterfaceByIntID (ii_id ii) s = Some p" using rf by blast
  define r1 where "r1 = new_out_ints ?grp (\<lambda>k. getNeighborsByIntID k s \<noteq> []) (ii_id ii) False (pi_ints s) r"
  have ints: "distinct (map pn_id (pi_ints s))" using inv by (simp add: dm_inv_def)
  have l1: "stream_list s r r1" and sb: "same_but_list r r1"
    using new_out_ints_list [OF ints, of ?grp "\<lambda>k. getNeighborsByIntID k s \<noteq> []" "ii_id ii" r] rf ii
    unfolding r1_def stream_list_def same_but_list_def by simp_all
  define late where "late = (\<lambda>r3 s2. if length (mr_outInt r3) = length (mr_outInt r)
       then
         (let r4 = addFlag FLAG_P r3 in
          if \<not> isFlagSet FLAG_A r4 then do { s3 \<leftarrow> prune_upstream r4 s2; addMulticastRoute r4 s3 }
          else addMulticastRoute r4 s2)
       else addMulticastRoute r3 s2)"
  have late: "run_ok (late (r1\<lparr>mr_srt := x, mr_sat := Some m\<rparr>) s2) ?Q" if "stream_timers s ?src ?grp x (Some m) s2" for x m s2
    unfolding late_def using l1 sb rf
    by (intro stream_late [OF inv r _ _ _ _ _ _ _ _ _ _ _ that]) (auto simp: same_but_list_def stream_list_def)
  have sat: "run_ok (new_timer (Source_Active ?src ?grp) SAT s1) (\<lambda>q. run_ok (late (r1\<lparr>mr_srt := x, mr_sat := fst q\<rparr>) (snd q)) ?Q)"
    if "stream_timers s ?src ?grp x None s1" for x s1
    by (rule run_ok_mono [OF stream_timers_new [OF that, of SAT "Source_Active ?src ?grp"]]) (auto simp: sec_def late)
  have "run_ok (new_timer (State_Refresh ?src ?grp) SRT ?s)
      (\<lambda>w. run_ok (new_timer (Source_Active ?src ?grp) SAT (snd w)) (\<lambda>q. run_ok (late (r1\<lparr>mr_srt := fst w, mr_sat := fst q\<rparr>) (snd q)) ?Q))"
  proof (rule run_ok_mono [OF stream_timers_new [OF stream_timers_init [OF dm_inv_fresh [OF inv]]]])
    show "0 \<le> SRT" by (simp add: sec_def)
  qed (auto intro: sat)
  moreover have "run_ok (new_timer (Source_Active ?src ?grp) SAT ?s) (\<lambda>q. run_ok (late (r1\<lparr>mr_sat := fst q\<rparr>) (snd q)) ?Q)"
  proof -
    have "r1\<lparr>mr_srt := None\<rparr> = r1" using sb rf by (simp add: same_but_list_def)
    then show ?thesis using sat [OF stream_timers_init [OF dm_inv_fresh [OF inv]]] by simp
  qed
  moreover have "dm_newMulticast r ?s =
      (if isFlagSet FLAG_A r1 \<and> pn_SR p
       then do { w \<leftarrow> new_timer (State_Refresh ?src ?grp) SRT ?s; q \<leftarrow> new_timer (Source_Active ?src ?grp) SAT (snd w);
                 late (r1\<lparr>mr_srt := fst w, mr_sat := fst q\<rparr>) (snd q) }
       else do { q \<leftarrow> new_timer (Source_Active ?src ?grp) SAT ?s; late (r1\<lparr>mr_sat := fst q\<rparr>) (snd q) })"
  proof -
    have og: "mr_origin r1 = ?src" "mr_group r1 = ?grp" using sb by (simp_all add: same_but_list_def)
    have r1': "new_out_ints ?grp (\<lambda>k. getNeighborsByIntID k ?s \<noteq> []) (ii_id ii) False (pi_ints ?s) r = r1"
      by (simp add: r1_def stream_int_None)
    have "dm_newMulticast r ?s =
     do {
       sr \<leftarrow> (if isFlagSet FLAG_A r1 then map_option pn_SR (getInterfaceByIntID (ii_id ii) ?s) else Some False);
       (r2, s1) \<leftarrow> (if sr
          then do { (t, s1) \<leftarrow> new_timer (State_Refresh (mr_origin r1) (mr_group r1)) SRT ?s; Some (r1\<lparr>mr_srt := t\<rparr>, s1) }
          else Some (r1, ?s));
       (t, s2) \<leftarrow> new_timer (Source_Active (mr_origin r1) (mr_group r1)) SAT s1;
       late (r2\<lparr>mr_sat := t\<rparr>) s2
     }"
      by (simp only: dm_newMulticast_def ii bind.bind_lunit Let_def r1' late_def og)
    then show ?thesis by (auto simp: stream_int_None p og case_prod_unfold)
  qed
  ultimately show ?thesis by simp
qed

lemma ip_isMulticast_nonzero: "ip_isMulticast a \<Longrightarrow> a \<noteq> 0"
  by (auto simp: ip_isMulticast_def)

lemma dense_interface: "dm_inv s \<Longrightarrow> getInterfaceByIntID i s = Some p \<Longrightarrow> pn_mode p = Dense"
  by (auto simp: dm_inv_def getInterfaceByIntID_def dest: find_Some_in)

text \<open>The route the splitter makes, before the mode adds to it.\<close>

definition splitter_route :: "pim_env \<Rightarrow> ipv4_addr \<Rightarrow> ipv4_addr \<Rightarrow> int \<Rightarrow> pim \<Rightarrow> mroute" where
  "splitter_route env dest src rpf s =
     (let r = (new_mroute (pi_next s))\<lparr>mr_group := dest, mr_origin := src\<rparr> in
      if pe_connected env src then addFlag FLAG_A (r\<lparr>mr_inInt := Some \<lparr>ii_id = rpf, ii_nextHop = src\<rparr>\<rparr>)
      else r\<lparr>mr_inInt := Some \<lparr>ii_id = rpf, ii_nextHop = pe_gateway env src\<rparr>\<rparr>)"

lemma newMulticast_dense:
  assumes "dm_inv s" and "pe_interface env src = Some rpf" and "getInterfaceByIntID rpf s = Some p"
  shows "newMulticast env dest src s = dm_newMulticast (splitter_route env dest src rpf s) (s\<lparr>pi_next := pi_next s + 1\<rparr>)"
  using assms dense_interface [OF assms(1,3)] by (simp add: newMulticast_def alloc_mroute_def splitter_route_def Let_def)

lemma newMulticast_ok:
  assumes inv: "dm_inv s" and d: "ip_isMulticast dest" "src \<noteq> 0" and n: "getRouteFor dest src s = None"
  shows "run_ok (newMulticast env dest src s) (\<lambda>s'. dm_inv s' \<and> pi_ints s' = pi_ints s \<and> pi_nbrs s' = pi_nbrs s \<and>
    (s' = s \<or> (\<exists>rpf r'. pe_interface env src = Some rpf \<and> pi_routes s' = pi_routes s @ [r'] \<and> stream_route s (splitter_route env dest src rpf s) r')))"
proof -
  consider (off) "pe_interface env src = None \<or> (\<exists>i. pe_interface env src = Some i \<and> getInterfaceByIntID i s = None)"
    | (on) rpf p where "pe_interface env src = Some rpf" "getInterfaceByIntID rpf s = Some p" by (metis not_Some_eq)
  then show ?thesis
  proof cases
    case off
    then have "newMulticast env dest src s = Some s" by (auto simp: newMulticast_def split: option.splits)
    then show ?thesis using inv by simp
  next
    case on
    have "new_stream_route (splitter_route env dest src rpf s) s"
      using on d n ip_isMulticast_nonzero [OF d(1)]
      by (simp add: new_stream_route_def splitter_route_def Let_def new_mroute_def) (simp add: isFlagSet_def)
    note run_ok_mono [OF dm_newMulticast_ok [OF inv this]]
    then show ?thesis using on by (auto simp: newMulticast_dense [OF inv on])
  qed
qed

section \<open>A change of the incoming interface\<close>

lemma start_graft_outInt:
  "start_graft (r\<lparr>mr_outInt := x\<rparr>) s = map_option (\<lambda>(r', s'). (r'\<lparr>mr_outInt := x\<rparr>, s')) (start_graft r s)"
  by (cases "mr_inInt r") (simp_all add: start_graft_def graft_upstream_def new_timer_def sec_def)

text \<open>A graft leaves the other timers alone.\<close>

lemma start_graft_timers:
  assumes "fresh s" and "mr_inInt r = Some ii"
  shows "run_ok (start_graft r s) (\<lambda>(r', s'). \<forall>t v. timer_map s t = Some v \<longrightarrow> timer_map s' t = Some v)"
proof -
  let ?s = "sendPimGraft (ii_nextHop ii) (mr_origin r) (mr_group r) (ii_id ii) s"
  have T: "timer_map ?s = timer_map s" "pi_next ?s = pi_next s" by (simp_all add: sendPimGraft_def send_pim_def)
  have n: "timer_map ?s (pi_next ?s) = None" unfolding T by (rule fresh_None [OF assms(1)])
  have "run_ok (new_timer (Graft_Retry (mr_origin r) (mr_group r)) GRT ?s) (\<lambda>p. \<forall>t v. timer_map s t = Some v \<longrightarrow> timer_map (snd p) t = Some v)"
  proof (rule run_ok_mono [OF run_new_timer [OF n]])
    show "0 \<le> GRT" by (simp add: sec_def)
  qed (use n in \<open>auto simp: T\<close>)
  then show ?thesis by (simp add: start_graft_def graft_upstream_def assms(2) case_prod_unfold)
qed

text \<open>The route to the source has to exist and its interface to have a PIM neighbour.\<close>

definition rpf_ok :: "pim_env \<Rightarrow> pim \<Rightarrow> mroute \<Rightarrow> bool" where
  "rpf_ok env s r =
     (case pe_interface env (mr_origin r) of
        None \<Rightarrow> False
      | Some i \<Rightarrow> mr_inInt r \<noteq> None \<and> ii_id (the (mr_inInt r)) = i \<or> getNeighborsByIntID i s \<noteq> [])"

lemma good_erase_rpf:
  assumes g: "good r0 s0 rX s1" and ois: "distinct (map oi_id ois)" "\<And>oi. oi \<in> set ois \<Longrightarrow> oi_id oi = i \<Longrightarrow> out_ok (timer_map s1) (mr_origin rX) (mr_group rX) oi"
    and X: "i \<notin> oi_id ` set (mr_outInt rX)"
  shows "run_ok (rpf_erase i ois s1) (\<lambda>(ois', s2). ois' = filter (\<lambda>oi. oi_id oi \<noteq> i) ois \<and> good r0 s0 rX s2)"
proof (cases "find (\<lambda>oi. oi_id oi = i) ois")
  case None
  then have "filter (\<lambda>oi. oi_id oi \<noteq> i) ois = ois" by (auto simp: find_None_all filter_id_conv)
  then show ?thesis using g None by (simp add: rpf_erase_def)
next
  case (Some oi)
  then have oi: "oi \<in> set ois" "oi_id oi = i" by (auto dest: find_Some_in)
  have e: "erase_first (\<lambda>oi. oi_id oi = i) ois = filter (\<lambda>oi. oi_id oi \<noteq> i) ois" by (rule erase_first_distinct [OF ois(1)])
  show ?thesis
  proof (cases "oi_pruneTimer oi")
    case None
    then show ?thesis using g Some e by (simp add: rpf_erase_def stop_if_set_def)
  next
    case t: (Some t)
    have "runs (timer_map s1) t (Prune_Timer (mr_origin rX) (mr_group rX) i)" using out_ok_timer [OF ois(2) [OF oi] t] oi(2) by simp
    then obtain a where T: "timer_map s1 t = Some (Prune_Timer (mr_origin rX) (mr_group rX) i, Some a)" by (auto simp: runs_def)
    have "good r0 s0 rX s2" if s2: "same_rest s1 s2" "timer_map s2 = (timer_map s1)(t := None)" for s2
    proof (rule good_upd [OF g, where n = "pi_next s1"])
      have "t \<notin> refs rX" using route_ok_ref_kind [OF good_route [OF g] _ T] X by auto
      then show "route_ok (timer_map s2) rX" by (intro route_ok_refs [OF good_route [OF g]]) (auto simp: s2(2))
    qed (use s2 T in \<open>auto simp: same_rest_def prune_or_graft_def\<close>)
    then have "run_ok (stop_if_set (Some t) s1) (good r0 s0 rX)"
      using run_ok_mono [OF run_stop [OF T]] by (simp add: stop_if_set_def)
    then show ?thesis using Some e t by (simp add: rpf_erase_def)
  qed
qed

lemma rpfIntChange_ok:
  assumes inv: "dm_inv s" and r: "route_at i s = Some r" "r \<in> set (pi_routes s)" and ok: "rpf_ok env s r"
  shows "run_ok (rpfIntChange env i s) (kept s)"
proof -
  note okr = dm_inv_route [OF inv r(2)] and put = kept_put [OF inv r(2)] and g0 = dm_inv_good [OF inv r(2)]
  obtain rpf where rpf: "pe_interface env (mr_origin r) = Some rpf" using ok by (auto simp: rpf_ok_def split: option.splits)
  obtain old where old: "mr_inInt r = Some old" using good_inInt [OF g0] by blast
  show ?thesis
  proof (cases "rpf = ii_id old")
    case True
    then show ?thesis using kept_refl [OF inv] by (simp add: rpfIntChange_def r rpf old)
  next
    case False
    then have "getNeighborsByIntID rpf s \<noteq> []" using ok rpf old by (auto simp: rpf_ok_def)
    then obtain n where n: "vec_at (getNeighborsByIntID rpf s) 0 = Some n" by (cases "getNeighborsByIntID rpf s") auto
    let ?new = "\<lparr>ii_id = rpf, ii_nextHop = nb_addr n\<rparr>" and ?ois = "filter (\<lambda>oi. oi_id oi \<noteq> rpf) (mr_outInt r)"
    let ?r1 = "r\<lparr>mr_inInt := Some ?new\<rparr>"
    define rX where "rX = ?r1\<lparr>mr_outInt := ?ois\<rparr>"
    have o: "olist_ok (ii_id old) (mr_outInt r)" using okr old by (auto simp: route_ok_def)
    have "route_ok (timer_map s) rX"
      using okr o unfolding route_ok_def rX_def by (auto simp: olist_ok_def distinct_map_filter)
    then have gX: "good r s rX s" using g0 by (simp add: good_def rX_def)
    define graft where "graft = (\<lambda>x. if \<not> isFlagSet FLAG_P x then start_graft x s else Some (x, s))"
    have flag: "isFlagSet FLAG_P rX = isFlagSet FLAG_P r" "isFlagSet FLAG_P ?r1 = isFlagSet FLAG_P r" by (simp_all add: rX_def isFlagSet_def)
    have fr: "fresh s" by (rule dm_inv_fresh [OF inv])
    have graftX: "run_ok (graft rX) (\<lambda>(r2, s1). good r s r2 s1 \<and> mr_inInt r2 = Some ?new \<and> mr_outInt r2 = ?ois \<and> (\<forall>t v. timer_map s t = Some v \<longrightarrow> timer_map s1 t = Some v))"
    proof (cases "isFlagSet FLAG_P r")
      case True
      then show ?thesis using gX by (simp add: graft_def flag rX_def)
    next
      case False
      have "mr_inInt rX = Some ?new" by (simp add: rX_def)
      from run_ok_conj [OF good_start_graft [OF gX] start_graft_timers [OF fr this]] show ?thesis
        using False by (simp add: graft_def flag) (erule run_ok_mono, auto simp: rX_def)
    qed
    have graft: "graft ?r1 = map_option (\<lambda>(r', s'). (r'\<lparr>mr_outInt := mr_outInt r\<rparr>, s')) (graft rX)"
    proof -
      have "?r1 = rX\<lparr>mr_outInt := mr_outInt r\<rparr>" by (simp add: rX_def)
      then show ?thesis using start_graft_outInt [where r = rX and x = "mr_outInt r" and s = s] by (simp add: graft_def flag)
    qed
    define fin where "fin = (\<lambda>r2 s1. do { (ois, s2) \<leftarrow> rpf_erase rpf (mr_outInt r) s1;
        let ois1 = (if \<not> pe_down env (ii_id old) then ois @ [new_out_int (ii_id old) Densemode] else ois);
        Some (put_mroute (r2\<lparr>mr_outInt := ois1\<rparr>) s2) })"
    have fin: "run_ok (fin r2 s1) (kept s)"
      if g: "good r s r2 s1" and f: "mr_inInt r2 = Some ?new" "mr_outInt r2 = ?ois" and T: "\<forall>t v. timer_map s t = Some v \<longrightarrow> timer_map s1 t = Some v" for r2 s1
    proof -
      have out: "out_ok (timer_map s1) (mr_origin r2) (mr_group r2) oi" if "oi \<in> set (mr_outInt r)" for oi
        using okr that T g by (fastforce simp: route_ok_def out_ok_def runs_def good_def split: option.splits)
      have e: "run_ok (rpf_erase rpf (mr_outInt r) s1) (\<lambda>(ois', s2). ois' = ?ois \<and> good r s r2 s2)"
        using o out f by (intro good_erase_rpf [OF g]) (auto simp: olist_ok_def)
      have "good r s (r2\<lparr>mr_outInt := if \<not> pe_down env (ii_id old) then ?ois @ [new_out_int (ii_id old) Densemode] else ?ois\<rparr>) s2" if g2: "good r s r2 s2" for s2
        using good_route [OF g2] o f False
        by (intro good_outInt [OF g2]) (auto simp: olist_ok_def route_ok_def distinct_map_filter split: if_splits)
      then show ?thesis
        unfolding fin_def using put
        by (simp add: case_prod_unfold Let_def) (rule run_ok_mono [OF e], auto)
    qed
    have "rpfIntChange env i s = do { (r2, s1) \<leftarrow> graft ?r1; (ois, s2) \<leftarrow> rpf_erase rpf (mr_outInt r2) s1;
        let ois1 = (if \<not> pe_down env (ii_id old) then ois @ [new_out_int (ii_id old) Densemode] else ois);
        Some (put_mroute (r2\<lparr>mr_outInt := ois1\<rparr>) s2) }"
      using False by (simp add: rpfIntChange_def r rpf old n graft_def Let_def)
    also have "\<dots> = do { (r2, s1) \<leftarrow> graft rX; fin r2 s1 }"
      unfolding graft by (cases "graft rX") (auto simp: fin_def Let_def)
    finally show ?thesis
      using graftX fin by (simp add: case_prod_unfold) (erule run_ok_mono, auto)
  qed
qed

end
