(* ===== verification/Event_Machine.thy ===== *)
theory Event_Machine
  imports Ansa_Prelude
begin

text \<open>
  A module as a machine that handles events: \<open>handle\<close> is the handler, which may fail, and \<open>ok\<close> says which
  events the surroundings may deliver in a state. The locale asks for an invariant that every such event
  keeps; the reachable states then satisfy it and no event gets stuck.
\<close>

inductive reaches :: "('s \<Rightarrow> bool) \<Rightarrow> ('e \<Rightarrow> 's \<Rightarrow> bool) \<Rightarrow> ('e \<Rightarrow> 's \<Rightarrow> 's option) \<Rightarrow> 's \<Rightarrow> bool" for start ok handle where
  reaches_start: "start s \<Longrightarrow> reaches start ok handle s"
| reaches_step: "reaches start ok handle s \<Longrightarrow> ok e s \<Longrightarrow> handle e s = Some s' \<Longrightarrow> reaches start ok handle s'"

text \<open>A sequence of events, and that each is one the surroundings may deliver when it comes.\<close>

fun handle_all :: "('e \<Rightarrow> 's \<Rightarrow> 's option) \<Rightarrow> 'e list \<Rightarrow> 's \<Rightarrow> 's option" where
  "handle_all handle [] s = Some s"
| "handle_all handle (e # es) s = do { s1 \<leftarrow> handle e s; handle_all handle es s1 }"

fun ok_all :: "('e \<Rightarrow> 's \<Rightarrow> bool) \<Rightarrow> ('e \<Rightarrow> 's \<Rightarrow> 's option) \<Rightarrow> 'e list \<Rightarrow> 's \<Rightarrow> bool" where
  "ok_all ok handle [] s = True"
| "ok_all ok handle (e # es) s = (ok e s \<and> (case handle e s of None \<Rightarrow> True | Some s1 \<Rightarrow> ok_all ok handle es s1))"

lemma reaches_all:
  "reaches start ok handle s \<Longrightarrow> ok_all ok handle es s \<Longrightarrow> handle_all handle es s = Some s' \<Longrightarrow> reaches start ok handle s'"
proof (induction es arbitrary: s)
  case (Cons e es)
  then obtain s1 where s1: "handle e s = Some s1" "handle_all handle es s1 = Some s'" by (auto split: bind_splits)
  then have "reaches start ok handle s1" using Cons.prems by (auto intro: reaches_step)
  then show ?case using Cons s1 by simp
qed simp

locale event_machine =
  fixes start :: "'s \<Rightarrow> bool" and ok :: "'e \<Rightarrow> 's \<Rightarrow> bool" and handle :: "'e \<Rightarrow> 's \<Rightarrow> 's option" and inv :: "'s \<Rightarrow> bool"
  assumes start_inv: "start s \<Longrightarrow> inv s"
    and handle_inv: "inv s \<Longrightarrow> ok e s \<Longrightarrow> \<exists>s'. handle e s = Some s' \<and> inv s'"
begin

lemma reaches_inv: "reaches start ok handle s \<Longrightarrow> inv s"
proof (induction rule: reaches.induct)
  case (reaches_step s e s')
  then show ?case using handle_inv [of s e] by auto
qed (rule start_inv)

lemma not_stuck: "reaches start ok handle s \<Longrightarrow> ok e s \<Longrightarrow> \<exists>s'. handle e s = Some s' \<and> reaches start ok handle s'"
  using handle_inv reaches_inv by (blast intro: reaches_step)

lemma run_not_stuck: "reaches start ok handle s \<Longrightarrow> ok_all ok handle es s \<Longrightarrow> \<exists>s'. handle_all handle es s = Some s' \<and> reaches start ok handle s'"
proof (induction es arbitrary: s)
  case (Cons e es)
  then obtain s1 where s1: "handle e s = Some s1" "reaches start ok handle s1" using not_stuck [of s e] by auto
  then show ?case using Cons by simp
qed simp

end

end
