(* ===== verification/Pim_Reachable.thy ===== *)
theory Pim_Reachable
  imports Pim_Notify Event_Machine
begin

text \<open>
  A dense mode router through any sequence of events: unicast route changes, the forwarding of data, and
  the whole of \<open>pim_handle\<close>. \<open>event_ok\<close> says when an event is one the code survives; each of its conditions
  is needed, and the properties show what happens without it.
\<close>

section \<open>A unicast route is added\<close>

lemma start_graft_routes: "start_graft r s = Some (r', s') \<Longrightarrow> pi_routes s' = pi_routes s \<and> pi_nbrs s' = pi_nbrs s \<and> mr_id r' = mr_id r"
  by (auto simp: start_graft_def graft_upstream_def new_timer_def sendPimGraft_def send_pim_def split: bind_splits if_splits)

lemma stop_if_set_routes: "stop_if_set p s = Some s' \<Longrightarrow> pi_routes s' = pi_routes s \<and> pi_nbrs s' = pi_nbrs s"
  by (auto simp: stop_if_set_def stop_timer_def cancelEvent_def delete_timer_def modify_timer_def split: bind_splits if_splits option.splits)

lemma rpf_erase_routes: "rpf_erase i ois s = Some (ois', s') \<Longrightarrow> pi_routes s' = pi_routes s \<and> pi_nbrs s' = pi_nbrs s"
  by (auto simp: rpf_erase_def split: bind_splits option.splits dest: stop_if_set_routes)

lemma find_map_other:
  "(\<And>x. f x = j \<longleftrightarrow> f (g x) = j) \<Longrightarrow> (\<And>x. f x = j \<Longrightarrow> g x = x) \<Longrightarrow> find (\<lambda>x. f x = j) (map g xs) = find (\<lambda>x. f x = j) xs"
  by (induction xs) auto

lemma route_at_put: "j \<noteq> mr_id r \<Longrightarrow> route_at j (put_mroute r s) = route_at j s"
  unfolding route_at_def put_mroute_def modify_mroute_def by (auto intro!: find_map_other)

lemma rpfIntChange_others:
  assumes "rpfIntChange env i s = Some s'" and "j \<noteq> i"
  shows "route_at j s' = route_at j s" and "pi_nbrs s' = pi_nbrs s"
proof -
  have id: "mr_id r = i" if "route_at i s = Some r" for r using that by (auto simp: route_at_def dest: find_Some_in)
  have P: "route_at j (put_mroute (r\<lparr>mr_outInt := x\<rparr>) s1) = route_at j s" if "mr_id r = i" "pi_routes s1 = pi_routes s" for r x s1
    using that assms(2) by (simp add: route_at_put) (simp add: route_at_def)
  have N: "pi_nbrs (put_mroute r s1) = pi_nbrs s1" for r s1 by (simp add: put_mroute_def modify_mroute_def)
  have "route_at j s' = route_at j s \<and> pi_nbrs s' = pi_nbrs s"
    using assms(1)
    by (auto simp: rpfIntChange_def Let_def N split: bind_splits if_splits dest!: id start_graft_routes rpf_erase_routes intro!: P)
  then show "route_at j s' = route_at j s" "pi_nbrs s' = pi_nbrs s" by simp_all
qed

lemma rpf_changes_ok:
  "dm_inv s \<Longrightarrow> distinct is \<Longrightarrow> (\<And>i. i \<in> set is \<Longrightarrow> \<exists>r. route_at i s = Some r \<and> rpf_ok env s r) \<Longrightarrow> run_ok (rpf_changes env is s) (kept s)"
proof (induction "is" arbitrary: s)
  case (Cons i "is")
  obtain r where r: "route_at i s = Some r" "rpf_ok env s r" using Cons.prems(3) [of i] by auto
  then have "r \<in> set (pi_routes s)" by (auto simp: route_at_def dest: find_Some_in)
  then have "run_ok (rpfIntChange env i s) (kept s)" using Cons.prems(1) r by (intro rpfIntChange_ok)
  then obtain s1 where s1: "rpfIntChange env i s = Some s1" "kept s s1" by (auto simp: run_ok_ex)
  have "\<exists>r. route_at j s1 = Some r \<and> rpf_ok env s1 r" if j: "j \<in> set is" for j
  proof -
    have "j \<noteq> i" using j Cons.prems(2) by auto
    note o = rpfIntChange_others [OF s1(1) this]
    have "getNeighborsByIntID k s1 = getNeighborsByIntID k s" for k using o(2) by (simp add: getNeighborsByIntID_def)
    then have "rpf_ok env s1 r = rpf_ok env s r" for r by (simp add: rpf_ok_def split: option.split)
    then show ?thesis using o(1) Cons.prems(3) [of j] j by simp
  qed
  then have "run_ok (rpf_changes env is s1) (kept s1)"
    using Cons.prems(2) s1(2) by (intro Cons.IH) (auto simp: kept_def)
  then show ?case using s1 by (simp) (erule run_ok_mono, auto intro: kept_trans)
qed (simp add: kept_refl)

lemma route_at_inv:
  assumes "dm_inv s" and "r \<in> set (pi_routes s)"
  shows "route_at (mr_id r) s = Some r"
proof -
  obtain r' where r': "route_at (mr_id r) s = Some r'" "r' \<in> set (pi_routes s)" "mr_id r' = mr_id r" using route_at_in assms(2) by blast
  then show ?thesis using assms by (auto simp: dm_inv_def routes_ok_def distinct_map dest: inj_onD)
qed

lemma dm_routeAdded_ok:
  assumes inv: "dm_inv s" and ok: "list_all (rpf_ok env s) (getRoutesForSource dest s)"
  shows "run_ok (dm_routeAdded env dest s) (kept s)"
  unfolding dm_routeAdded_def
proof (rule rpf_changes_ok [OF inv])
  show "distinct (map mr_id (getRoutesForSource dest s))"
    using inv by (simp add: dm_inv_def routes_ok_def getRoutesForSource_def distinct_map_filter)
  show "\<exists>r. route_at i s = Some r \<and> rpf_ok env s r" if "i \<in> set (map mr_id (getRoutesForSource dest s))" for i
    using that ok route_at_inv [OF inv] by (auto simp: getRoutesForSource_def list_all_iff)
qed

section \<open>Data\<close>

lemma dm_inv_out [simp]: "dm_inv (s\<lparr>pi_out := x\<rparr>) = dm_inv s"
  by (simp add: dm_inv_def fresh_def)

lemma kept_out [simp]: "kept s0 (s\<lparr>pi_out := x\<rparr>) = kept s0 s"
  by (simp add: kept_def) (simp add: route_keys_def)

lemma kept_send_data [simp]: "kept s0 (send_data env src dest ois s) = kept s0 s"
  by (simp add: send_data_def)

lemma forward_dense_ok:
  assumes inv: "dm_inv s" and r: "getRouteFor dest src s = Some r"
  shows "run_ok (forward_dense env src dest ctrl r s) (kept s)"
proof -
  let ?f = "\<lambda>s1. if mr_outInt r = [] \<or> isFlagSet FLAG_P r
       then if ctrl \<and> \<not> isFlagSet FLAG_A r then dataOnPruned dest src s1 else Some s1
       else Some (send_data env src dest (mr_outInt r) s1)"
  have r_in: "r \<in> set (pi_routes s)" using getRouteFor_Some [OF r] by simp
  have "run_ok (?f s1) (kept s)" if k: "kept s s1" for s1
  proof -
    have i1: "dm_inv s1" and g1: "getRouteFor dest src s1 \<noteq> None" using k r by (simp_all add: kept_def kept_getRouteFor [OF k])
    show ?thesis using k by (auto intro: kept_trans intro!: run_ok_mono [OF dataOnPruned_ok [OF i1 g1]])
  qed
  then show ?thesis
    unfolding forward_dense_def by simp (rule run_ok_mono [OF dataOnRpf_ok [OF inv r_in]], auto)
qed

text \<open>What the forwarding of a datagram needs: one that comes in by the wrong interface meets an outgoing
  interface of its route when that interface has one neighbour; one that is routed comes in by a PIM interface,
  and a new stream has a group and a source address.\<close>

definition data_ok :: "pim_env \<Rightarrow> ipv4_addr \<Rightarrow> ipv4_addr \<Rightarrow> int \<Rightarrow> pim \<Rightarrow> bool" where
  "data_ok env src dest fromIE s =
     (if pe_interface env src \<noteq> None \<and> pe_interface env src \<noteq> Some fromIE
      then pe_localMulticast env dest \<or> ip_isLinkLocalMulticast dest \<or> nonrpf_ok dest src fromIE s
      else \<not> pe_forwarding env \<or> ip_isLinkLocalMulticast dest \<or>
        getInterfaceByIntID fromIE s \<noteq> None \<and> (getRouteFor dest src s \<noteq> None \<or> ip_isMulticast dest \<and> src \<noteq> 0))"

lemma dm_inv_no_shared: "dm_inv s \<Longrightarrow> getRouteFor grp 0 s = None"
  by (auto simp: getRouteFor_None route_keys_def dm_inv_def routes_ok_def route_ok_def)

lemma out_same [simp]:
  "getRouteFor g src (s\<lparr>pi_out := x\<rparr>) = getRouteFor g src s" "getInterfaceByIntID i (s\<lparr>pi_out := x\<rparr>) = getInterfaceByIntID i s"
  "getNeighborsByIntID i (s\<lparr>pi_out := x\<rparr>) = getNeighborsByIntID i s"
  "getNumNeighborsOnInt i (s\<lparr>pi_out := x\<rparr>) = getNumNeighborsOnInt i s"
  by (simp_all add: getRouteFor_def getInterfaceByIntID_def getNeighborsByIntID_def getNumNeighborsOnInt_def)

text \<open>The copy that is delivered to the router itself, and the forwarding on the interface towards the source.\<close>

definition delivered :: "pim_env \<Rightarrow> ipv4_addr \<Rightarrow> ipv4_addr \<Rightarrow> pim \<Rightarrow> pim" where
  "delivered env src dest s = (if pe_localMulticast env dest then s\<lparr>pi_out := pi_out s @ [Out_Deliver src dest]\<rparr> else s)"

lemma delivered_same [simp]:
  "dm_inv (delivered env src dest s) = dm_inv s" "getRouteFor g a (delivered env src dest s) = getRouteFor g a s"
  "getInterfaceByIntID i (delivered env src dest s) = getInterfaceByIntID i s" "pi_routes (delivered env src dest s) = pi_routes s"
  "pi_ints (delivered env src dest s) = pi_ints s" "getNeighborsByIntID i (delivered env src dest s) = getNeighborsByIntID i s"
  by (simp_all add: delivered_def)

lemma routeMulticastPacket_dense:
  assumes inv: "dm_inv s" and rpf: "pe_interface env src = None \<or> pe_interface env src = Some fromIE"
    and on: "pe_forwarding env" "\<not> ip_isLinkLocalMulticast dest" and p: "getInterfaceByIntID fromIE s = Some p"
  shows "routeMulticastPacket env src dest fromIE s =
    (case getRouteFor dest src s of
       Some r \<Rightarrow> forward_dense env src dest True r (delivered env src dest s)
     | None \<Rightarrow> do { s2 \<leftarrow> newMulticast env dest src (delivered env src dest s);
                 case getRouteFor dest src s2 of None \<Rightarrow> Some s2 | Some r \<Rightarrow> forward_dense env src dest False r s2 })"
  using rpf on p dense_interface [OF inv p]
  by (auto simp: routeMulticastPacket_def Let_def delivered_def [symmetric] dm_inv_no_shared [OF inv] split: option.splits intro!: Option.bind_cong)

lemma routeMulticastPacket_ok:
  assumes inv: "dm_inv s" and ok: "data_ok env src dest fromIE s"
  shows "run_ok (routeMulticastPacket env src dest fromIE s) dm_inv"
proof (cases "pe_interface env src \<noteq> None \<and> pe_interface env src \<noteq> Some fromIE")
  case True
  then show ?thesis
    using inv ok run_ok_mono [OF dataOnNonRpf_ok [OF inv], where Q = dm_inv]
    by (auto simp: routeMulticastPacket_def data_ok_def kept_def)
next
  case rpf: False
  let ?s1 = "delivered env src dest s"
  show ?thesis
  proof (cases "\<not> pe_forwarding env \<or> ip_isLinkLocalMulticast dest")
    case True
    then have "routeMulticastPacket env src dest fromIE s = Some ?s1" using rpf by (auto simp: routeMulticastPacket_def delivered_def Let_def)
    then show ?thesis using inv by simp
  next
    case False
    then obtain p where p: "getInterfaceByIntID fromIE s = Some p" using ok rpf by (auto simp: data_ok_def)
    have fwd: "run_ok (forward_dense env src dest c r s2) dm_inv" if "dm_inv s2" "getRouteFor dest src s2 = Some r" for c r s2
      using run_ok_mono [OF forward_dense_ok [OF that]] by (simp add: kept_def)
    have "run_ok (newMulticast env dest src ?s1) dm_inv" if "getRouteFor dest src s = None"
      using newMulticast_ok [of ?s1 dest src env] inv ok rpf False that by (auto simp: data_ok_def intro: run_ok_mono)
    then have "run_ok (newMulticast env dest src ?s1)
        (\<lambda>s2. run_ok (case getRouteFor dest src s2 of None \<Rightarrow> Some s2 | Some r \<Rightarrow> forward_dense env src dest False r s2) dm_inv)"
      if "getRouteFor dest src s = None"
      using that by (auto intro!: run_ok_mono [of "newMulticast env dest src ?s1" dm_inv] simp: fwd split: option.split)
    then show ?thesis
      using inv rpf False by (subst routeMulticastPacket_dense [OF inv _ _ _ p]) (auto simp: fwd split: option.split)
  qed
qed

section \<open>Packets and timers\<close>

text \<open>A join, prune or graft is acted on when its sender can be reached by unicast; then it names routes of the
  table, unless it is for another router.\<close>

definition packet_ok :: "pim_env \<Rightarrow> pim_msg \<Rightarrow> pim \<Rightarrow> bool" where
  "packet_ok env m s =
     (let ok = (\<lambda>jp. getInterfaceByIntID (pm_intId m) s = None \<or>
           pe_interface env (pm_src m) \<noteq> None \<and> 0 \<le> jp_holdTime jp \<and> names_routes (pm_pkt m) (jp_groups jp) s) in
      case pm_pkt m of JoinPrune jp \<Rightarrow> ok jp | Graft jp \<Rightarrow> ok jp | GraftAck jp \<Rightarrow> ok jp | _ \<Rightarrow> True)"

lemma kept_interface: "kept s s' \<Longrightarrow> getInterfaceByIntID i s' = None \<longleftrightarrow> getInterfaceByIntID i s = None"
proof -
  have n: "getInterfaceByIntID i s = None \<longleftrightarrow> i \<notin> set (map pn_id (pi_ints s))" for s
    by (auto simp: getInterfaceByIntID_def find_None_all)
  show "kept s s' \<Longrightarrow> ?thesis" unfolding n by (simp add: kept_def del: set_map)
qed

lemma processPIMPkt_ok:
  assumes inv: "dm_inv s" and ok: "packet_ok env m s"
  shows "run_ok (processPIMPkt env m s) (kept s)"
proof (cases "getInterfaceByIntID (pm_intId m) s")
  case None
  then show ?thesis by (simp add: processPIMPkt_def kept_refl [OF inv])
next
  case (Some p)
  have "run_ok (dm_processPIMPkt env m s) (kept s)"
    using ok Some kept_refl [OF inv] processStateRefreshPacket_ok [OF inv] processJoinPruneGraftPacket_ok [OF inv, of env m]
    by (auto simp: dm_processPIMPkt_def packet_ok_def Let_def split: pim_pkt.splits)
  then show ?thesis using Some dense_interface [OF inv Some] by (simp add: processPIMPkt_def)
qed

lemma splitter_packet_ok:
  "dm_inv s \<Longrightarrow> packet_ok env m s \<Longrightarrow> run_ok (splitter_packet env ver m s) (\<lambda>s'. dm_inv s' \<and> (pm_pkt m \<noteq> Hello \<longrightarrow> kept s s'))"
  by (auto simp: splitter_packet_def intro: processHelloPkt_ok run_ok_mono [OF processPIMPkt_ok] simp: kept_def)

lemma splitter_packet_twice:
  assumes inv: "dm_inv s" and ok: "packet_ok env m s"
  shows "run_ok (do { s1 \<leftarrow> splitter_packet env ver m s; splitter_packet env ver m s1 }) dm_inv"
proof -
  have "packet_ok env m s'" if "pm_pkt m \<noteq> Hello \<longrightarrow> kept s s'" for s'
    using that ok by (auto simp: packet_ok_def Let_def kept_interface kept_names_routes split: pim_pkt.splits)
  then have "run_ok (splitter_packet env ver m s') dm_inv" if "dm_inv s' \<and> (pm_pkt m \<noteq> Hello \<longrightarrow> kept s s')" for s'
    using that by (intro run_ok_mono [OF splitter_packet_ok]) auto
  then show ?thesis by (simp) (rule run_ok_mono [OF splitter_packet_ok [OF inv ok]])
qed

text \<open>A graft retry dereferences the route it retries.\<close>

definition timer_ok :: "timer_kind \<Rightarrow> pim \<Rightarrow> bool" where
  "timer_ok k s = (case k of Graft_Retry src grp \<Rightarrow> getRouteFor grp src s \<noteq> None | _ \<Rightarrow> True)"

lemma router_timer_ok:
  assumes inv: "dm_inv s" and T: "timer_map s t = Some (k, a)" and ok: "timer_ok k s"
  shows "run_ok (router_timer env t k (fired t s)) dm_inv"
proof -
  have kind: "dm_kind k" by (rule dm_inv_kind [OF inv T])
  have P: "run_ok (processPruneTimer t src grp i (fired t s)) dm_inv" if "k = Prune_Timer src grp i" for src grp i
    using T that by (intro run_ok_mono [OF processPruneTimer_ok [OF inv]]) (auto simp: kept_def)
  have G: "run_ok (processGraftRetryTimer src grp (fired t s)) dm_inv" if "k = Graft_Retry src grp" for src grp
    using T ok that by (intro run_ok_mono [OF processGraftRetryTimer_ok [OF inv]]) (auto simp: kept_def timer_ok_def)
  have S: "run_ok (processSourceActiveTimer t src grp (fired t s)) dm_inv" if "k = Source_Active src grp" for src grp
    using T that by (intro run_ok_mono [OF processSourceActiveTimer_ok [OF inv]]) auto
  have R: "run_ok (processStateRefreshTimer env t src grp (fired t s)) dm_inv" if "k = State_Refresh src grp" for src grp
    using T that by (intro processStateRefreshTimer_ok [OF inv]) auto
  have N: "run_ok (splitter_timer t (Neighbor_Liveness i) (fired t s)) dm_inv" if "k = Neighbor_Liveness i" for i
    using T that by (auto intro: run_ok_mono [OF nlt_timer_ok [OF inv]])
  have H: "run_ok (splitter_timer t k (fired t s)) dm_inv" if "k = Hello_Timer"
    using T that by (auto intro: hello_timer_ok [OF inv])
  show ?thesis
    using kind H by (cases k) (auto simp: router_timer_def dm_processPIMTimer_def dm_kind_def P G S R N)
qed

section \<open>Events\<close>

definition event_ok :: "pim_env \<Rightarrow> pim_event \<Rightarrow> pim \<Rightarrow> bool" where
  "event_ok env ev s =
     (case ev of
        Ev_Time d \<Rightarrow> True
      | Ev_Timer t \<Rightarrow> (case timer_at t s of None \<Rightarrow> True | Some tm \<Rightarrow> timer_ok (tmr_kind tm) s)
      | Ev_Datagram member proto ttl src dest fromIE \<Rightarrow>
          (case proto of
             Proto_Igmp \<Rightarrow> False
           | Proto_Pim ver pkt \<Rightarrow> packet_ok env \<lparr>pm_pkt = pkt, pm_src = src, pm_dest = dest, pm_intId = fromIE\<rparr> s
           | Proto_Data \<Rightarrow> data_ok env src dest fromIE s)
      | Ev_Unicast ver m \<Rightarrow> packet_ok env m s
      | Ev_Groups intId groups \<Rightarrow> getInterfaceByIntID intId s \<noteq> None
      | Ev_Route dest \<Rightarrow> list_all (rpf_ok env s) (getRoutesForSource dest s)
      | Ev_Interface counter \<Rightarrow> True)"

lemma data_ok_out [simp]: "data_ok env src dest i (s\<lparr>pi_out := x\<rparr>) = data_ok env src dest i s"
proof -
  have "nonrpf_ok dest src i (s\<lparr>pi_out := x\<rparr>) = nonrpf_ok dest src i s" by (simp add: nonrpf_ok_def split: option.split)
  then show ?thesis by (simp add: data_ok_def)
qed

lemma dm_inv_time: "dm_inv s \<Longrightarrow> dm_inv (s\<lparr>pi_now := d\<rparr>)"
  by (simp add: dm_inv_def fresh_def)

lemma setUpInterface_inv: "dm_inv s \<Longrightarrow> dm_inv (snd (setUpInterface n s))"
  using dm_inv_pim_ints [of s "pi_ints (snd (setUpInterface n s))"]
  by (auto simp: setUpInterface_def kept_def addIntMulticastAddress_def removeIntMulticastAddress_def comp_def)

theorem pim_handle_ok:
  assumes inv: "dm_inv s" and ok: "event_ok env ev s"
  shows "run_ok (pim_handle env ev s) dm_inv"
proof (cases ev)
  case (Ev_Timer t)
  show ?thesis
  proof (cases "timer_at t s")
    case None
    then show ?thesis using inv by (simp add: pim_handle_def Ev_Timer)
  next
    case (Some tm)
    then have "timer_map s t = Some (tmr_kind tm, tmr_at tm)" by (simp add: timer_map_def)
    then show ?thesis using inv ok Some router_timer_ok [OF inv, of t "tmr_kind tm" "tmr_at tm" env] by (simp add: pim_handle_def Ev_Timer event_ok_def)
  qed
next
  case (Ev_Datagram member proto ttl src dest fromIE)
  show ?thesis
  proof (cases proto)
    case (Proto_Pim ver pkt)
    then show ?thesis
      using ok Ev_Datagram splitter_packet_twice [OF inv] run_ok_mono [OF splitter_packet_ok [OF inv], where Q = dm_inv]
      by (simp add: pim_handle_def event_ok_def handleMulticastFromNetwork_def Let_def)
  next
    case Proto_Data
    have "run_ok (routeMulticastPacket env src dest fromIE (s\<lparr>pi_out := x\<rparr>)) dm_inv" "run_ok (routeMulticastPacket env src dest fromIE s) dm_inv" for x
      using ok Ev_Datagram Proto_Data inv by (auto simp: event_ok_def intro!: routeMulticastPacket_ok)
    then show ?thesis using inv by (simp add: pim_handle_def Ev_Datagram Proto_Data handleMulticastFromNetwork_def Let_def)
  qed (use ok Ev_Datagram in \<open>simp add: event_ok_def\<close>)
next
  case (Ev_Unicast ver m)
  then show ?thesis using ok run_ok_mono [OF splitter_packet_ok [OF inv], where Q = dm_inv] by (simp add: pim_handle_def event_ok_def)
next
  case (Ev_Groups intId groups)
  then show ?thesis using ok run_ok_mono [OF igmpChange_ok [OF inv], where Q = dm_inv] by (simp add: pim_handle_def event_ok_def kept_def)
next
  case (Ev_Route dest)
  then show ?thesis using ok run_ok_mono [OF dm_routeAdded_ok [OF inv], where Q = dm_inv] by (simp add: pim_handle_def event_ok_def kept_def)
qed (use inv in \<open>simp_all add: pim_handle_def dm_inv_time setUpInterface_inv\<close>)

section \<open>Reachable states\<close>

text \<open>A router of dense mode interfaces when the splitter is initialised; the first hello is sent after \<open>u\<close>.\<close>

definition pim_boot :: "pim_int list \<Rightarrow> simtime \<Rightarrow> pim option" where
  "pim_boot ints u = splitter_initialize u
     \<lparr>pi_now = 0, pi_next = 0, pi_timers = [], pi_routes = [], pi_nbrs = [], pi_nbrId = 0, pi_ints = ints, pi_out = []\<rparr>"

definition dense_ints :: "pim_int list \<Rightarrow> bool" where
  "dense_ints ints \<longleftrightarrow> distinct (map pn_id ints) \<and> list_all (\<lambda>p. pn_mode p = Dense) ints"

definition dm_start :: "pim \<Rightarrow> bool" where
  "dm_start s \<longleftrightarrow> (\<exists>ints u. dense_ints ints \<and> 0 \<le> u \<and> pim_boot ints u = Some s)"

text \<open>The surroundings, which answer the unicast questions, may be other ones for each event.\<close>

type_synonym pim_step = "pim_env \<times> pim_event"

definition step_ok :: "pim_step \<Rightarrow> pim \<Rightarrow> bool" where
  "step_ok = (\<lambda>(env, ev). event_ok env ev)"

definition pim_step :: "pim_step \<Rightarrow> pim \<Rightarrow> pim option" where
  "pim_step = (\<lambda>(env, ev). pim_handle env ev)"

definition dm_reachable :: "pim \<Rightarrow> bool" where
  "dm_reachable = reaches dm_start step_ok pim_step"

lemma dm_start_inv:
  assumes "dm_start s"
  shows "dm_inv s"
proof -
  obtain ints u where i: "dense_ints ints" "0 \<le> u" "pim_boot ints u = Some s" using assms by (auto simp: dm_start_def)
  let ?s0 = "\<lparr>pi_now = 0, pi_next = 0, pi_timers = [], pi_routes = [], pi_nbrs = [], pi_nbrId = 0, pi_ints = ints, pi_out = []\<rparr> :: pim"
  have T: "timer_map \<lparr>pi_now = 0, pi_next = 0, pi_timers = [], pi_routes = [], pi_nbrs = [], pi_nbrId = 0, pi_ints = is, pi_out = []\<rparr> t = None" for t "is" by (simp add: timer_map_def timer_at_def)
  have inv0: "dm_inv ?s0"
    using i(1) by (simp add: dm_inv_def T fresh_def routes_ok_def owned_def nbr_ok_def dense_ints_def list_all_iff)
  have "run_ok (splitter_initialize u ?s0) dm_inv"
  proof -
    have "dm_inv s1" if s1: "same_rest (?s0\<lparr>pi_next := pi_next ?s0 + 1\<rparr>) s1" "timer_map s1 = (timer_map ?s0)(pi_next ?s0 \<mapsto> (Hello_Timer, Some x))" for s1 x
      using s1 inv0 by (intro dm_inv_timers [OF inv0]) (auto simp: same_rest_def T fresh_def split: if_splits)
    then show ?thesis
      using inv0 by (auto simp: splitter_initialize_def intro!: run_ok_mono [OF run_new_timer [OF T i(2)]])
  qed
  then show ?thesis using i(3) by (simp add: pim_boot_def)
qed

interpretation dm: event_machine dm_start step_ok pim_step dm_inv
proof
  show "\<exists>s'. pim_step e s = Some s' \<and> dm_inv s'" if "dm_inv s" "step_ok e s" for s e
    using pim_handle_ok [OF that(1), of "fst e" "snd e"] that(2) by (simp add: step_ok_def pim_step_def run_ok_ex case_prod_unfold)
qed (rule dm_start_inv)

end
