(* ===== verification/Pim_Properties.thy ===== *)
theory Pim_Properties
  imports Pim_Reachable
begin

text \<open>
  The properties of the multicast routers, dense mode first, with a router and a run of events that show
  their hypotheses hold.
\<close>

section \<open>A router\<close>

text \<open>Three interfaces: 1 towards the source 10.0.0.1, 2 and 3 away from it. The routers behind them have the
  addresses 10.0.1.2, 10.0.2.2 and 10.0.3.2; the group is 226.1.1.1.\<close>

abbreviation "demo_src \<equiv> (0x0A000001 :: ipv4_addr)"
abbreviation "demo_grp \<equiv> (0xE2010101 :: ipv4_addr)"
abbreviation "demo_up \<equiv> (0x0A000102 :: ipv4_addr)"
abbreviation "demo_down \<equiv> (0x0A000202 :: ipv4_addr)"

definition demo_ints :: "pim_int list" where
  "demo_ints = map (\<lambda>i. \<lparr>pn_id = i, pn_mode = Dense, pn_mcast = [], pn_SR = False\<rparr>) [1, 2, 3]"

definition demo_env :: pim_env where
  "demo_env =
     \<lparr>pe_interface = (\<lambda>a. if a = demo_src \<or> a = demo_up then Some 1 else if a = demo_down then Some 2 else None),
      pe_gateway = (\<lambda>_. demo_up), pe_connected = (\<lambda>_. False), pe_interfaces = [1, 2, 3],
      pe_addr = (\<lambda>i. 0x0A000001 + word_of_int (256 * i)), pe_down = (\<lambda>_. False), pe_RP = 0,
      pe_localMulticast = (\<lambda>_. False), pe_forwarding = True, pe_mcastForwarding = False\<rparr>"

definition demo_hello :: "ipv4_addr \<Rightarrow> int \<Rightarrow> pim_step" where
  "demo_hello a i = (demo_env, Ev_Unicast 2 \<lparr>pm_pkt = Hello, pm_src = a, pm_dest = all_pim_routers, pm_intId = i\<rparr>)"

definition demo_data :: pim_step where
  "demo_data = (demo_env, Ev_Datagram False Proto_Data 8 demo_src demo_grp 1)"

definition demo_jp :: "ipv4_addr list \<Rightarrow> ipv4_addr list \<Rightarrow> join_prune" where
  "demo_jp joined pruned = \<lparr>jp_upstream = 0x0A000201, jp_holdTime = 180, jp_groups = [\<lparr>mg_group = demo_grp, mg_joined = joined, mg_pruned = pruned\<rparr>]\<rparr>"

definition demo_pkt :: "pim_pkt \<Rightarrow> pim_step" where
  "demo_pkt pkt = (demo_env, Ev_Unicast 2 \<lparr>pm_pkt = pkt, pm_src = demo_down, pm_dest = all_pim_routers, pm_intId = 2\<rparr>)"

text \<open>The neighbours are heard, a stream begins and its only receiver prunes it.\<close>

definition demo_run :: "pim_step list" where
  "demo_run = [demo_hello demo_up 1, demo_hello demo_down 2, demo_data, demo_pkt (JoinPrune (demo_jp [] [demo_src]))]"

definition demo_start :: pim where
  "demo_start = the (pim_boot demo_ints 0)"

definition demo_router :: "pim_step list \<Rightarrow> pim" where
  "demo_router es = the (handle_all pim_step es demo_start)"

lemmas demo_defs = demo_ints_def demo_env_def demo_hello_def demo_data_def demo_jp_def demo_pkt_def demo_run_def demo_start_def demo_router_def

lemma demo_start: "dm_start demo_start"
proof -
  have "pim_boot demo_ints 0 = Some demo_start" by (simp add: demo_start_def pim_boot_def splitter_initialize_def new_timer_def)
  moreover have "dense_ints demo_ints" by (simp add: dense_ints_def demo_ints_def)
  ultimately show ?thesis by (auto simp: dm_start_def)
qed

lemma pim_demo_reachable:
  assumes "ok_all step_ok pim_step es demo_start"
  shows "dm_reachable (demo_router es)" and "handle_all pim_step es demo_start = Some (demo_router es)"
proof -
  obtain s where "handle_all pim_step es demo_start = Some s" "reaches dm_start step_ok pim_step s"
    using dm.run_not_stuck [OF reaches_start [where start = dm_start, OF demo_start] assms] by blast
  then show "dm_reachable (demo_router es)" "handle_all pim_step es demo_start = Some (demo_router es)"
    by (simp_all add: dm_reachable_def demo_router_def)
qed

lemma demo_run_ok: "ok_all step_ok pim_step demo_run demo_start"
  by code_simp

text \<open>The router after a run that the code evaluates.\<close>

abbreviation "demo \<equiv> demo_router demo_run"

lemma demo_reached: "dm_reachable demo"
  using pim_demo_reachable(1) [OF demo_run_ok] .

lemma demo_route:
  "map (\<lambda>r. (mr_group r, mr_origin r, map (\<lambda>oi. (oi_id oi, oi_forwarding oi)) (mr_outInt r), isFlagSet FLAG_P r, mr_grt r)) (pi_routes demo)
    = [(demo_grp, demo_src, [(2, Pruned)], True, None)]"
  unfolding demo_router_def by code_simp

lemma demo_get: "\<exists>r. getRouteFor demo_grp demo_src demo = Some r \<and> r \<in> set (pi_routes demo)"
proof -
  have "(demo_grp, demo_src) \<in> set (route_keys demo)"
    using demo_route by (auto simp: route_keys_def map_eq_Cons_conv)
  then show ?thesis using getRouteFor_None getRouteFor_Some by fastforce
qed

section \<open>The tables of a dense mode router\<close>

lemma dm_reachable_inv: "dm_reachable s \<Longrightarrow> dm_inv s"
  unfolding dm_reachable_def by (rule dm.reaches_inv)

lemma runs_timer: "runs (timer_map s) t k \<longleftrightarrow> (\<exists>tm a. timer_at t s = Some tm \<and> tmr_kind tm = k \<and> tmr_at tm = Some a)"
  and lives_timer: "lives (timer_map s) t k \<longleftrightarrow> (\<exists>tm. timer_at t s = Some tm \<and> tmr_kind tm = k)"
  by (auto simp: runs_def lives_def timer_map_def)

text \<open>C8: No timer pointer dangles: in every state a dense mode router reaches, the pointers a route keeps lead to
  live timers, each of the kind of its field and made for the group and source of the route; the
  source-active timer and the timers of pruned interfaces are scheduled. Every neighbour has its own scheduled
  liveness timer.\<close>

theorem pim_timer_pointers:
  assumes "dm_reachable s"
  shows "(\<forall>r\<in>set (pi_routes s).
      (\<exists>t tm. mr_sat r = Some t \<and> timer_at t s = Some tm \<and> tmr_kind tm = Source_Active (mr_origin r) (mr_group r) \<and> tmr_at tm \<noteq> None) \<and>
      (\<forall>t. mr_grt r = Some t \<longrightarrow> (\<exists>tm. timer_at t s = Some tm \<and> tmr_kind tm = Graft_Retry (mr_origin r) (mr_group r))) \<and>
      (\<forall>t. mr_srt r = Some t \<longrightarrow> (\<exists>tm. timer_at t s = Some tm \<and> tmr_kind tm = State_Refresh (mr_origin r) (mr_group r))) \<and>
      (\<forall>oi\<in>set (mr_outInt r). \<forall>t. oi_pruneTimer oi = Some t \<longrightarrow>
        (\<exists>tm. timer_at t s = Some tm \<and> tmr_kind tm = Prune_Timer (mr_origin r) (mr_group r) (oi_id oi) \<and> tmr_at tm \<noteq> None))) \<and>
    (\<forall>n\<in>set (pi_nbrs s). \<exists>t tm. nb_nlt n = Some t \<and> timer_at t s = Some tm \<and>
        tmr_kind tm = Neighbor_Liveness (nb_id n) \<and> tmr_at tm \<noteq> None)"
proof (intro conjI ballI)
  note inv = dm_reachable_inv [OF assms]
  show "\<exists>t tm. nb_nlt n = Some t \<and> timer_at t s = Some tm \<and> tmr_kind tm = Neighbor_Liveness (nb_id n) \<and> tmr_at tm \<noteq> None"
    if "n \<in> set (pi_nbrs s)" for n
    using dm_inv_nbr [OF inv] that by (fastforce simp: nbr_ok_def runs_timer)
  fix r assume "r \<in> set (pi_routes s)"
  then have r: "route_ok (timer_map s) r" by (rule dm_inv_route [OF inv])
  show "\<exists>t tm. mr_sat r = Some t \<and> timer_at t s = Some tm \<and> tmr_kind tm = Source_Active (mr_origin r) (mr_group r) \<and> tmr_at tm \<noteq> None"
    using r by (fastforce simp: route_ok_def runs_timer)
  show "\<forall>t. mr_grt r = Some t \<longrightarrow> (\<exists>tm. timer_at t s = Some tm \<and> tmr_kind tm = Graft_Retry (mr_origin r) (mr_group r))"
    and "\<forall>t. mr_srt r = Some t \<longrightarrow> (\<exists>tm. timer_at t s = Some tm \<and> tmr_kind tm = State_Refresh (mr_origin r) (mr_group r))"
    using r by (auto simp: route_ok_def lives_timer)
  show "\<forall>t. oi_pruneTimer oi = Some t \<longrightarrow> (\<exists>tm. timer_at t s = Some tm \<and> tmr_kind tm = Prune_Timer (mr_origin r) (mr_group r) (oi_id oi) \<and> tmr_at tm \<noteq> None)"
    if "oi \<in> set (mr_outInt r)" for oi
    using r that by (fastforce simp: route_ok_def out_ok_def runs_timer)
qed

theorem pim_timer_pointers_witness:
  "\<exists>r\<in>set (pi_routes demo). \<exists>t tm. mr_sat r = Some t \<and> timer_at t demo = Some tm \<and> tmr_kind tm = Source_Active demo_src demo_grp"
proof -
  obtain r where r: "r \<in> set (pi_routes demo)" "mr_group r = demo_grp" "mr_origin r = demo_src"
    using demo_get getRouteFor_Some by blast
  then show ?thesis using bspec [OF conjunct1 [OF pim_timer_pointers [OF demo_reached]] r(1)] by auto
qed

text \<open>C9: In every state a dense mode router reaches, every route knows its incoming interface, which is never one
  of its outgoing interfaces; an outgoing interface is listed once and forwards or is pruned, and is only
  pruned while a prune timer runs for it. There is one route for a group and source, none for the group
  alone, and one neighbour for an interface and address.\<close>

theorem pim_dense_tables:
  assumes "dm_reachable s"
  shows "(\<forall>r\<in>set (pi_routes s). mr_origin r \<noteq> 0 \<and>
      (\<exists>ii. mr_inInt r = Some ii \<and> (\<forall>oi\<in>set (mr_outInt r). oi_id oi \<noteq> ii_id ii)) \<and> distinct (map oi_id (mr_outInt r)) \<and>
      (\<forall>oi\<in>set (mr_outInt r). oi_forwarding oi = Forward \<or>
        oi_forwarding oi = Pruned \<and> (\<exists>tm\<in>set (pi_timers s). tmr_kind tm = Prune_Timer (mr_origin r) (mr_group r) (oi_id oi) \<and> tmr_at tm \<noteq> None))) \<and>
    distinct (map (\<lambda>r. (mr_group r, mr_origin r)) (pi_routes s)) \<and>
    distinct (map (\<lambda>n. (nb_intId n, nb_addr n)) (pi_nbrs s))"
proof (intro conjI ballI)
  note inv = dm_reachable_inv [OF assms]
  show "distinct (map (\<lambda>r. (mr_group r, mr_origin r)) (pi_routes s))" "distinct (map (\<lambda>n. (nb_intId n, nb_addr n)) (pi_nbrs s))"
    using inv by (simp_all add: dm_inv_def routes_ok_def nbr_ok_def)
  fix r assume "r \<in> set (pi_routes s)"
  then have r: "route_ok (timer_map s) r" by (rule dm_inv_route [OF inv])
  show "mr_origin r \<noteq> 0" "distinct (map oi_id (mr_outInt r))" "\<exists>ii. mr_inInt r = Some ii \<and> (\<forall>oi\<in>set (mr_outInt r). oi_id oi \<noteq> ii_id ii)"
    using r by (force simp: route_ok_def olist_ok_def)+
  show "oi_forwarding oi = Forward \<or> oi_forwarding oi = Pruned \<and> (\<exists>tm\<in>set (pi_timers s). tmr_kind tm = Prune_Timer (mr_origin r) (mr_group r) (oi_id oi) \<and> tmr_at tm \<noteq> None)"
    if "oi \<in> set (mr_outInt r)" for oi
  proof -
    have "out_ok (timer_map s) (mr_origin r) (mr_group r) oi" using r that by (simp add: route_ok_def)
    then show ?thesis by (cases "oi_pruneTimer oi") (auto simp: out_ok_def runs_timer timer_at_def dest: find_Some_in)
  qed
qed

theorem pim_dense_tables_witness:
  "\<exists>r\<in>set (pi_routes demo). \<exists>oi\<in>set (mr_outInt r). oi_forwarding oi = Pruned \<and>
     (\<exists>tm\<in>set (pi_timers demo). tmr_kind tm = Prune_Timer demo_src demo_grp (oi_id oi) \<and> tmr_at tm \<noteq> None)"
proof -
  obtain r where r: "r \<in> set (pi_routes demo)" "mr_group r = demo_grp" "mr_origin r = demo_src" "map (\<lambda>oi. (oi_id oi, oi_forwarding oi)) (mr_outInt r) = [(2, Pruned)]"
    using demo_route by (auto simp: map_eq_Cons_conv)
  then obtain oi where oi: "oi \<in> set (mr_outInt r)" "oi_forwarding oi = Pruned" by (auto simp: map_eq_Cons_conv)
  then show ?thesis using bspec [OF conjunct1 [OF pim_dense_tables [OF demo_reached]] r(1)] r by fastforce
qed

text \<open>C6: A dense mode router never ends the simulation: from any state it reaches, any sequence of clock ticks,
  timers that are due, packets, data, membership reports, unicast route changes and interface changes is
  handled without a null pointer, an access out of range or a kernel error, as long as every event
  satisfies \<open>event_ok\<close> when it comes.\<close>

theorem pim_dense_never_stuck:
  assumes "dm_reachable s" and "ok_all step_ok pim_step es s"
  shows "\<exists>s'. handle_all pim_step es s = Some s' \<and> dm_reachable s'"
  using dm.run_not_stuck assms unfolding dm_reachable_def by blast

theorem pim_dense_never_stuck_witness:
  "\<exists>s'. handle_all pim_step demo_run demo_start = Some s' \<and> dm_reachable s' \<and> pi_nbrs s' \<noteq> []"
proof -
  have "dm_reachable demo_start" unfolding dm_reachable_def by (rule reaches_start [where start = dm_start, OF demo_start])
  then obtain s' where "handle_all pim_step demo_run demo_start = Some s'" "dm_reachable s'"
    using pim_dense_never_stuck demo_run_ok by blast
  moreover have "pi_nbrs demo \<noteq> []" unfolding demo_router_def by code_simp
  ultimately show ?thesis by (auto simp: demo_router_def)
qed

section \<open>A new stream\<close>

text \<open>The prune towards a next hop.\<close>

abbreviation prune_to :: "ipv4_addr \<Rightarrow> ipv4_addr \<Rightarrow> ipv4_addr \<Rightarrow> int \<Rightarrow> pim_out" where
  "prune_to nextHop src grp i \<equiv> Out_Pim \<lparr>pm_pkt = JoinPrune \<lparr>jp_upstream = nextHop, jp_holdTime = 180,
     jp_groups = [\<lparr>mg_group = grp, mg_joined = [], mg_pruned = [src]\<rparr>]\<rparr>, pm_src = 0, pm_dest = all_pim_routers, pm_intId = i\<rparr>"

lemma new_timer_out: "new_timer k d s = Some (t, s') \<Longrightarrow> pi_out s' = pi_out s"
  by (auto simp: new_timer_def split: if_splits)

lemma addMulticastRoute_out: "addMulticastRoute r s = Some s' \<Longrightarrow> pi_out s' = pi_out s"
  by (auto simp: addMulticastRoute_def split: if_splits)

lemma dm_newMulticast_out:
  assumes run: "dm_newMulticast r s = Some s'" and r: "mr_inInt r = Some ii" "mr_outInt r = []" and d: "distinct (map pn_id (pi_ints s))"
  shows "pi_out s' = pi_out s @
    (if stream_ints (mr_group r) (\<lambda>k. getNeighborsByIntID k s \<noteq> []) (ii_id ii) (pi_ints s) = [] \<and> \<not> isFlagSet FLAG_A r
     then [prune_to (ii_nextHop ii) (mr_origin r) (mr_group r) (ii_id ii)] else [])"
proof -
  let ?h = "\<lambda>k. getNeighborsByIntID k s \<noteq> []"
  define r1 where "r1 = new_out_ints (mr_group r) ?h (ii_id ii) False (pi_ints s) r"
  have l: "map oi_id (mr_outInt r1) = map pn_id (stream_ints (mr_group r) ?h (ii_id ii) (pi_ints s))"
    and sb: "same_but_list r r1"
    using new_out_ints_list [OF d, of "mr_group r" ?h "ii_id ii" r] by (simp_all add: r1_def r(2))
  have e: "mr_outInt r1 = [] \<longleftrightarrow> stream_ints (mr_group r) ?h (ii_id ii) (pi_ints s) = []"
    using l by (metis map_is_Nil_conv)
  have f: "isFlagSet FLAG_A r1 = isFlagSet FLAG_A r" "mr_inInt r1 = Some ii" "mr_origin r1 = mr_origin r" "mr_group r1 = mr_group r"
    using sb r(1) by (simp_all add: same_but_list_def)
  show ?thesis
    using run
    by (auto simp: dm_newMulticast_def r Let_def r1_def [symmetric] e f prune_upstream_def sendPimJoinPrune_def send_pim_def
        split: bind_splits if_splits dest!: new_timer_out addMulticastRoute_out)
qed

lemma stream_targets_send:
  assumes "stream_route s r r'" and "mr_inInt r = Some ii" and "src \<noteq> 0"
  shows "pi_out (send_data env src dest (mr_outInt r') s1) = pi_out s1 @ map (\<lambda>p. Out_Data src dest (pn_id p))
    (stream_ints (mr_group r) (\<lambda>k. getNeighborsByIntID k s \<noteq> []) (ii_id ii) (pi_ints s))"
proof -
  let ?ps = "stream_ints (mr_group r) (\<lambda>k. getNeighborsByIntID k s \<noteq> []) (ii_id ii) (pi_ints s)"
  have f: "filter (\<lambda>oi. oi_forwarding oi \<noteq> Pruned) (mr_outInt r') = mr_outInt r'" and l: "map oi_id (mr_outInt r') = map pn_id ?ps"
    using assms by (auto simp: stream_route_def filter_id_conv)
  have "map (\<lambda>oi. Out_Data src dest (oi_id oi)) (mr_outInt r') = map (Out_Data src dest) (map oi_id (mr_outInt r'))" by simp
  also have "\<dots> = map (\<lambda>p. Out_Data src dest (pn_id p)) ?ps" unfolding l by simp
  finally show ?thesis using assms(3) by (simp add: send_data_def f)
qed

text \<open>Making the route of a new stream.\<close>

lemma new_stream_made:
  assumes inv: "dm_inv s" and rpf: "pe_interface env src = Some i" "getInterfaceByIntID i s = Some p"
    and d: "ip_isMulticast dest" "src \<noteq> 0" and n: "getRouteFor dest src s = None"
  shows "\<exists>s' r'. newMulticast env dest src s = Some s' \<and> dm_inv s' \<and> pi_routes s' = pi_routes s @ [r'] \<and>
    stream_route s (splitter_route env dest src i s) r' \<and>
    pi_out s' = pi_out s @ (if stream_ints dest (\<lambda>k. getNeighborsByIntID k s \<noteq> []) i (pi_ints s) = [] \<and> \<not> pe_connected env src
      then [prune_to (pe_gateway env src) src dest i] else [])"
proof -
  let ?r = "splitter_route env dest src i s" and ?s = "s\<lparr>pi_next := pi_next s + 1\<rparr>"
  have new: "new_stream_route ?r s"
    using rpf d n ip_isMulticast_nonzero [OF d(1)]
    by (simp add: new_stream_route_def splitter_route_def Let_def new_mroute_def) (simp add: isFlagSet_def)
  define ii where "ii = \<lparr>ii_id = i, ii_nextHop = (if pe_connected env src then src else pe_gateway env src)\<rparr>"
  have r: "mr_inInt ?r = Some ii" "mr_outInt ?r = []" "ii_id ii = i" "mr_group ?r = dest" "mr_origin ?r = src"
      "isFlagSet FLAG_A ?r = pe_connected env src"
    by (simp_all add: splitter_route_def Let_def new_mroute_def ii_def) (simp add: isFlagSet_def)
  obtain s' where s': "dm_newMulticast ?r ?s = Some s'" "dm_inv s'" "\<exists>r'. pi_routes s' = pi_routes s @ [r'] \<and> stream_route s ?r r'"
    using dm_newMulticast_ok [OF inv new] by (auto simp: run_ok_ex)
  moreover have "pi_out s' = pi_out s @ (if stream_ints dest (\<lambda>k. getNeighborsByIntID k s \<noteq> []) i (pi_ints s) = [] \<and> \<not> pe_connected env src
      then [prune_to (pe_gateway env src) src dest i] else [])"
    using dm_newMulticast_out [OF s'(1) r(1,2)] inv r by (simp add: dm_inv_def stream_int_None ii_def)
  ultimately show ?thesis using newMulticast_dense [OF inv rpf] by auto
qed

text \<open>C22: The first datagram of a stream, coming in by a PIM interface towards its source: the route that is made
  has exactly those PIM interfaces other than the incoming one that have a neighbour or a member of the
  group, each gets one copy; when there is none the route is pruned, and a prune goes to the next hop towards
  the source unless the source is directly connected.\<close>

theorem pim_new_stream:
  assumes "dm_reachable s" and "pe_forwarding env" and "\<not> pe_localMulticast env dest" and "ip_isMulticast dest" and "\<not> ip_isLinkLocalMulticast dest"
    and "src \<noteq> 0" and "pe_interface env src = Some i" and "getInterfaceByIntID i s \<noteq> None" and "getRouteFor dest src s = None"
  shows "\<exists>s' r targets. routeMulticastPacket env src dest i s = Some s' \<and> getRouteFor dest src s' = Some r \<and> pi_routes s' = pi_routes s @ [r] \<and>
    targets = map pn_id (filter (\<lambda>p. pn_id p \<noteq> i \<and> (getNeighborsByIntID (pn_id p) s \<noteq> [] \<or> isLocalIntMulticastAddress dest p)) (pi_ints s)) \<and>
    map (\<lambda>oi. (oi_id oi, oi_forwarding oi)) (mr_outInt r) = map (\<lambda>j. (j, Forward)) targets \<and> (isFlagSet FLAG_P r \<longleftrightarrow> targets = []) \<and>
    pi_out s' = pi_out s @
      (if targets \<noteq> [] then map (Out_Data src dest) targets
       else if pe_connected env src then [] else [prune_to (pe_gateway env src) src dest i])"
proof -
  note inv = dm_reachable_inv [OF assms(1)]
  let ?ps = "stream_ints dest (\<lambda>k. getNeighborsByIntID k s \<noteq> []) i (pi_ints s)"
  obtain p where p: "getInterfaceByIntID i s = Some p" using assms(8) by blast
  obtain s2 r where s2: "newMulticast env dest src s = Some s2" "dm_inv s2" "pi_routes s2 = pi_routes s @ [r]"
      "stream_route s (splitter_route env dest src i s) r"
      "pi_out s2 = pi_out s @ (if ?ps = [] \<and> \<not> pe_connected env src then [prune_to (pe_gateway env src) src dest i] else [])"
    using new_stream_made [OF inv assms(7) p assms(4,6,9)] by auto
  have sp: "\<exists>ii. mr_inInt (splitter_route env dest src i s) = Some ii \<and> ii_id ii = i" "mr_group (splitter_route env dest src i s) = dest"
      "mr_origin (splitter_route env dest src i s) = src"
    by (simp_all add: splitter_route_def Let_def new_mroute_def)
  then obtain ii where ii: "mr_inInt (splitter_route env dest src i s) = Some ii" "ii_id ii = i" by blast
  have r: "map oi_id (mr_outInt r) = map pn_id ?ps" "\<forall>oi\<in>set (mr_outInt r). oi_forwarding oi = Forward" "isFlagSet FLAG_P r \<longleftrightarrow> mr_outInt r = []"
      "mr_group r = dest" "mr_origin r = src"
    using s2(4) ii sp by (auto simp: stream_route_def)
  have null: "mr_outInt r = [] \<longleftrightarrow> ?ps = []" using r(1) by (metis map_is_Nil_conv)
  have fwd: "map (\<lambda>oi. (oi_id oi, oi_forwarding oi)) (mr_outInt r) = map (\<lambda>j. (j, Forward)) (map pn_id ?ps)"
    using r(2) by (simp flip: r(1))
  have g2: "getRouteFor dest src s2 = Some r" using dm_inv_getRouteFor [OF s2(2), of r] s2(3) r(4,5) by simp
  have r_in: "r \<in> set (pi_routes s2)" using s2(3) by simp
  obtain s3 where s3: "dataOnRpf r s2 = Some s3" "pi_routes s3 = pi_routes s2" "pi_out s3 = pi_out s2"
    using dataOnRpf_ok [OF s2(2) r_in] by (auto simp: run_ok_ex)
  have "routeMulticastPacket env src dest i s = forward_dense env src dest False r s2"
    using routeMulticastPacket_dense [OF inv _ assms(2,5) p] assms(3,7,9) s2(1) g2 by (simp add: delivered_def)
  then have run: "routeMulticastPacket env src dest i s = Some (if ?ps = [] then s3 else send_data env src dest (mr_outInt r) s3)"
    by (simp add: forward_dense_def s3(1) r(3) null)
  have out: "pi_out (send_data env src dest (mr_outInt r) s3) = pi_out s3 @ map (Out_Data src dest) (map pn_id ?ps)"
    using stream_targets_send [OF s2(4) ii(1) assms(6), of env dest s3] ii(2) sp(2) by simp
  have g3: "getRouteFor dest src s3 = Some r" using g2 by (simp add: getRouteFor_def s3(2))
  have rest: "pi_routes (send_data env src dest (mr_outInt r) s3) = pi_routes s3" "getRouteFor dest src (send_data env src dest (mr_outInt r) s3) = getRouteFor dest src s3"
    by (simp_all add: send_data_def)
  show ?thesis
    unfolding run
    by (intro exI [of _ "if ?ps = [] then s3 else send_data env src dest (mr_outInt r) s3"] exI [of _ r] exI [of _ "map pn_id ?ps"])
      (auto simp: g3 rest s3 s2(3,5) fwd r(3) null out stream_ints_def)
qed

text \<open>The stream of the demonstration router begins.\<close>

abbreviation "demo0 \<equiv> demo_router [demo_hello demo_up 1, demo_hello demo_down 2]"

lemma demo0_reached: "dm_reachable demo0"
proof -
  have "ok_all step_ok pim_step [demo_hello demo_up 1, demo_hello demo_down 2] demo_start" by code_simp
  then show ?thesis by (rule pim_demo_reachable(1))
qed

theorem pim_new_stream_witness:
  "\<exists>s' r. routeMulticastPacket demo_env demo_src demo_grp 1 demo0 = Some s' \<and> getRouteFor demo_grp demo_src s' = Some r \<and> isFlagSet FLAG_P r = False"
proof -
  have h: "pe_forwarding demo_env" "\<not> pe_localMulticast demo_env demo_grp" "ip_isMulticast demo_grp" "\<not> ip_isLinkLocalMulticast demo_grp"
      "pe_interface demo_env demo_src = Some 1" "getInterfaceByIntID 1 demo0 \<noteq> None" "getRouteFor demo_grp demo_src demo0 = None"
    unfolding demo_router_def by code_simp+
  have t: "map pn_id (filter (\<lambda>p. pn_id p \<noteq> 1 \<and> (getNeighborsByIntID (pn_id p) demo0 \<noteq> [] \<or> isLocalIntMulticastAddress demo_grp p)) (pi_ints demo0)) = [2]"
    unfolding demo_router_def by code_simp
  show ?thesis using pim_new_stream [OF demo0_reached h(1-4) _ h(5-7)] unfolding t by auto
qed

section \<open>Where data goes\<close>

text \<open>The copies of datagrams among what leaves the router.\<close>

definition is_data :: "pim_out \<Rightarrow> bool" where
  "is_data x = (case x of Out_Data _ _ _ \<Rightarrow> True | _ \<Rightarrow> False)"

definition data_copies :: "pim \<Rightarrow> pim_out list" where
  "data_copies s = filter is_data (pi_out s)"

lemma data_copies_simps [simp]:
  "data_copies (send_pim pkt a b i s) = data_copies s" "data_copies (put_mroute r s) = data_copies s"
  "data_copies (delivered env src dest s) = data_copies s"
  "data_copies (send_data env src dest ois s) = data_copies s @
     map (\<lambda>oi. Out_Data (if src = 0 then pe_addr env (oi_id oi) else src) dest (oi_id oi)) (filter (\<lambda>oi. oi_forwarding oi \<noteq> Pruned) ois)"
  by (simp_all add: data_copies_def send_pim_def is_data_def put_mroute_def modify_mroute_def delivered_def send_data_def filter_map comp_def)

lemma timers_data_copies:
  "new_timer k d s = Some (t, s') \<Longrightarrow> data_copies s' = data_copies s"
  "stop_timer p s = Some s' \<Longrightarrow> data_copies s' = data_copies s"
  "restart_timer p d s = Some s' \<Longrightarrow> data_copies s' = data_copies s"
  "prune_upstream r s = Some s' \<Longrightarrow> data_copies s' = data_copies s"
  "stop_graft r s = Some (r', s') \<Longrightarrow> data_copies s' = data_copies s"
  by (auto simp: data_copies_def is_data_def new_timer_def stop_timer_def restart_timer_def cancelEvent_def scheduleAt_def delete_timer_def
      modify_timer_def prune_upstream_def sendPimJoinPrune_def send_pim_def stop_graft_def split: if_splits option.splits bind_splits)

lemma dataOnPruned_copies: "dataOnPruned grp src s = Some s' \<Longrightarrow> data_copies s' = data_copies s"
  by (auto simp: dataOnPruned_def sendPimJoinPrune_def split: bind_splits if_splits dest!: timers_data_copies)

lemma dataOnNonRpf_copies: "dataOnNonRpf grp src i s = Some s' \<Longrightarrow> data_copies s' = data_copies s"
  by (auto simp: dataOnNonRpf_def sendPimJoinPrune_def Let_def split: bind_splits if_splits option.splits list.splits dest!: timers_data_copies)

text \<open>What \<open>forward_dense\<close> sends.\<close>

lemma forward_dense_copies:
  assumes inv: "dm_inv s" and r: "getRouteFor dest src s = Some r" and run: "forward_dense env src dest c r s = Some s'"
  shows "data_copies s' = data_copies s @ (if isFlagSet FLAG_P r then []
    else map (\<lambda>oi. Out_Data src dest (oi_id oi)) (filter (\<lambda>oi. oi_forwarding oi = Forward) (mr_outInt r)))"
proof -
  have ok: "route_ok (timer_map s) r" using dm_inv_route [OF inv] getRouteFor_Some [OF r] by blast
  have "oi_forwarding oi \<noteq> Pruned \<longleftrightarrow> oi_forwarding oi = Forward" if "oi \<in> set (mr_outInt r)" for oi
    using ok that by (auto simp: route_ok_def out_ok_def split: option.splits)
  then have f: "filter (\<lambda>oi. oi_forwarding oi \<noteq> Pruned) (mr_outInt r) = filter (\<lambda>oi. oi_forwarding oi = Forward) (mr_outInt r)"
    by (simp cong: filter_cong)
  have "src \<noteq> 0" using ok getRouteFor_Some [OF r] by (auto simp: route_ok_def)
  then show ?thesis
    using run by (auto simp: forward_dense_def dataOnRpf_def f split: bind_splits if_splits dest!: timers_data_copies dataOnPruned_copies)
qed

text \<open>A datagram that comes in by the incoming interface of its route is forwarded as it is, once, on each of
  the outgoing interfaces that forward, and on none when the route is pruned.\<close>

theorem pim_data_forwarding:
  assumes "dm_reachable s" and "getRouteFor dest src s = Some r" and "pe_interface env src = Some i" and "getInterfaceByIntID i s \<noteq> None"
    and "pe_forwarding env" and "\<not> ip_isLinkLocalMulticast dest"
  shows "\<exists>s'. routeMulticastPacket env src dest i s = Some s' \<and> data_copies s' = data_copies s @
     (if isFlagSet FLAG_P r then [] else map (\<lambda>oi. Out_Data src dest (oi_id oi)) (filter (\<lambda>oi. oi_forwarding oi = Forward) (mr_outInt r)))"
proof -
  note inv = dm_reachable_inv [OF assms(1)]
  have inv1: "dm_inv (delivered env src dest s)" and r1: "getRouteFor dest src (delivered env src dest s) = Some r" using inv assms(2) by simp_all
  obtain p where p: "getInterfaceByIntID i s = Some p" using assms(4) by blast
  have run: "routeMulticastPacket env src dest i s = forward_dense env src dest True r (delivered env src dest s)"
    using routeMulticastPacket_dense [OF inv _ assms(5,6) p] assms(2,3) by simp
  obtain s' where "forward_dense env src dest True r (delivered env src dest s) = Some s'"
    using forward_dense_ok [OF inv1 r1] by (auto simp: run_ok_ex)
  then show ?thesis using run forward_dense_copies [OF inv1 r1] by auto
qed

abbreviation "demo1 \<equiv> demo_router [demo_hello demo_up 1, demo_hello demo_down 2, demo_data]"

lemma demo1_reached: "dm_reachable demo1"
proof -
  have "ok_all step_ok pim_step [demo_hello demo_up 1, demo_hello demo_down 2, demo_data] demo_start" by code_simp
  then show ?thesis by (rule pim_demo_reachable(1))
qed

lemma demo1_facts:
  "map_option (\<lambda>r. (map (\<lambda>oi. (oi_id oi, oi_forwarding oi)) (mr_outInt r), isFlagSet FLAG_P r, map_option ii_id (mr_inInt r))) (getRouteFor demo_grp demo_src demo1)
    = Some ([(2, Forward)], False, Some 1)"
  "getInterfaceByIntID 1 demo1 \<noteq> None" "pe_interface demo_env demo_src = Some 1" "pe_forwarding demo_env" "\<not> ip_isLinkLocalMulticast demo_grp"
  unfolding demo_router_def by code_simp+

theorem pim_data_forwarding_witness:
  "\<exists>s'. routeMulticastPacket demo_env demo_src demo_grp 1 demo1 = Some s' \<and> data_copies s' = data_copies demo1 @ [Out_Data demo_src demo_grp 2]"
proof -
  obtain r where r: "getRouteFor demo_grp demo_src demo1 = Some r" "map (\<lambda>oi. (oi_id oi, oi_forwarding oi)) (mr_outInt r) = [(2, Forward)]" "\<not> isFlagSet FLAG_P r"
    using demo1_facts(1) by auto
  show ?thesis
    using pim_data_forwarding [OF demo1_reached r(1) demo1_facts(3,2,4,5)] r(2,3) by (auto simp: map_eq_Cons_conv)
qed

text \<open>What may be sent for a datagram: one copy per interface, on forwarding outgoing interfaces of its route.\<close>

definition safe_out :: "ipv4_addr \<Rightarrow> ipv4_addr \<Rightarrow> int list \<Rightarrow> pim \<Rightarrow> bool" where
  "safe_out src dest js s' \<longleftrightarrow> distinct js \<and>
     (js \<noteq> [] \<longrightarrow> (\<exists>r. getRouteFor dest src s' = Some r \<and> (\<forall>j\<in>set js. \<exists>oi\<in>set (mr_outInt r). oi_id oi = j \<and> oi_forwarding oi = Forward)))"

text \<open>A route sends out of an interface when it is not pruned and lists that interface as forwarding; it never
  does so on its incoming interface.\<close>

definition sends_by :: "int \<Rightarrow> mroute \<Rightarrow> bool" where
  "sends_by i r \<longleftrightarrow> \<not> isFlagSet FLAG_P r \<and> (\<exists>oi\<in>set (mr_outInt r). oi_id oi = i \<and> oi_forwarding oi = Forward)"

lemma incoming_not_sent:
  assumes "dm_inv s" and "getRouteFor dest src s = Some r" and "mr_inInt r = Some ii" and "ii_id ii = i"
  shows "\<not> sends_by i r"
proof -
  have "route_ok (timer_map s) r" using dm_inv_route [OF assms(1)] getRouteFor_Some [OF assms(2)] by blast
  then have "i \<notin> oi_id ` set (mr_outInt r)" using assms(3,4) by (auto simp: route_ok_def olist_ok_def)
  then show ?thesis by (auto simp: sends_by_def)
qed

lemma forward_dense_safe:
  assumes f: "forward_dense env src dest c r s = Some s'" and s: "dm_inv s" "getRouteFor dest src s = Some r"
  shows "\<exists>js. data_copies s' = data_copies s @ map (Out_Data src dest) js \<and> safe_out src dest js s' \<and> (\<forall>i. i \<in> set js \<longleftrightarrow> sends_by i r)"
proof -
  have ok: "route_ok (timer_map s) r" "r \<in> set (pi_routes s)" using dm_inv_route [OF s(1)] getRouteFor_Some [OF s(2)] by auto
  let ?ois = "if isFlagSet FLAG_P r then [] else filter (\<lambda>oi. oi_forwarding oi = Forward) (mr_outInt r)"
  have c: "data_copies s' = data_copies s @ map (Out_Data src dest) (map oi_id ?ois)"
    using forward_dense_copies [OF s f] by (simp add: comp_def)
  have d: "distinct (map oi_id ?ois)" "\<forall>i. i \<in> set (map oi_id ?ois) \<longleftrightarrow> sends_by i r"
    using ok by (auto simp: route_ok_def olist_ok_def distinct_map_filter sends_by_def)
  have "getRouteFor dest src s' = Some r" if "?ois \<noteq> []"
  proof -
    have "\<not> isFlagSet FLAG_P r" "mr_outInt r \<noteq> []" using that by (auto split: if_splits)
    then obtain s3 where "dataOnRpf r s = Some s3" "s' = send_data env src dest (mr_outInt r) s3"
      using f by (auto simp: forward_dense_def split: bind_splits)
    moreover then have "pi_routes s3 = pi_routes s" using dataOnRpf_ok [OF s(1) ok(2)] by simp
    ultimately show ?thesis using s(2) by (simp add: getRouteFor_def send_data_def)
  qed
  then have "safe_out src dest (map oi_id ?ois) s'" using d(1) by (auto simp: safe_out_def)
  then show ?thesis using c d(2) by blast
qed

lemma newMulticast_safe:
  assumes s: "dm_inv s" "getRouteFor dest src s = None" and d: "ip_isMulticast dest" "src \<noteq> 0" and p: "getInterfaceByIntID i s = Some p"
    and u: "pe_interface env src = None \<or> pe_interface env src = Some i" and run: "newMulticast env dest src s = Some s2"
  shows "dm_inv s2 \<and> data_copies s2 = data_copies s \<and>
    (s2 = s \<or> (\<exists>r. getRouteFor dest src s2 = Some r \<and> (\<exists>ii. mr_inInt r = Some ii \<and> ii_id ii = i)))"
proof (cases "pe_interface env src")
  case None
  then show ?thesis using run s(1) by (auto simp: newMulticast_def)
next
  case (Some j)
  then have "pe_interface env src = Some i" using u by simp
  from new_stream_made [OF s(1) this p d s(2)] run obtain r where r: "dm_inv s2" "pi_routes s2 = pi_routes s @ [r]"
      "stream_route s (splitter_route env dest src i s) r"
    and out: "pi_out s2 = pi_out s @ (if stream_ints dest (\<lambda>k. getNeighborsByIntID k s \<noteq> []) i (pi_ints s) = [] \<and> \<not> pe_connected env src
      then [prune_to (pe_gateway env src) src dest i] else [])"
    by auto
  have k: "mr_group r = dest" "mr_origin r = src" "\<exists>ii. mr_inInt r = Some ii \<and> ii_id ii = i"
    using r(3) by (auto simp: stream_route_def splitter_route_def Let_def new_mroute_def split: if_splits)
  have "getRouteFor dest src s2 = Some r" using dm_inv_getRouteFor [OF r(1), of r] r(2) k by simp
  moreover have "data_copies s2 = data_copies s" using out by (simp add: data_copies_def is_data_def)
  ultimately show ?thesis using r(1) k(3) by blast
qed

text \<open>C7: What a dense mode router sends for a datagram to a multicast group from a source other than 0.0.0.0,
  whatever interface it came in by and whatever unicast routing says: at most one copy per interface, with the source and the group of the datagram, and only on
  forwarding outgoing interfaces of its route; nothing at all when unicast routing reaches the source by another
  interface. A copy goes back out of the interface the datagram came in by in exactly one case: the router already
  has a route for the stream, not pruned, that lists this interface as a forwarding outgoing one, the router
  forwards, the group is not link-local, and unicast routing reaches the source by this very interface or, as happens when the route to the
  source is lost, not at all. It never does for a new stream, nor when the route there was comes in by that
  interface.\<close>

theorem pim_data_safety:
  assumes "dm_reachable s" and "routeMulticastPacket env src dest i s = Some s'" and "ip_isMulticast dest" and "src \<noteq> 0"
  shows "\<exists>js. data_copies s' = data_copies s @ map (Out_Data src dest) js \<and> distinct js \<and>
    (js \<noteq> [] \<longrightarrow> (\<exists>r. getRouteFor dest src s' = Some r \<and> (\<forall>j\<in>set js. \<exists>oi\<in>set (mr_outInt r). oi_id oi = j \<and> oi_forwarding oi = Forward))) \<and>
    (pe_interface env src \<noteq> None \<and> pe_interface env src \<noteq> Some i \<longrightarrow> js = []) \<and>
    (i \<in> set js \<longleftrightarrow> (pe_interface env src = None \<or> pe_interface env src = Some i) \<and> pe_forwarding env \<and> \<not> ip_isLinkLocalMulticast dest \<and>
       (\<exists>r. getRouteFor dest src s = Some r \<and> \<not> isFlagSet FLAG_P r \<and> (\<exists>oi\<in>set (mr_outInt r). oi_id oi = i \<and> oi_forwarding oi = Forward))) \<and>
    (getRouteFor dest src s = None \<longrightarrow> i \<notin> set js) \<and>
    (\<forall>r ii. getRouteFor dest src s = Some r \<and> mr_inInt r = Some ii \<and> ii_id ii = i \<longrightarrow> i \<notin> set js)" (is "\<exists>js. ?P js")
proof -
  note inv = dm_reachable_inv [OF assms(1)] and run = assms(2)
  let ?d = "delivered env src dest s"
  have inc: "\<not> sends_by i r" if "getRouteFor dest src s = Some r" "mr_inInt r = Some ii" "ii_id ii = i" for r ii
    using incoming_not_sent [OF inv that] .
  have none: "?P []" if "data_copies s' = data_copies s"
    and "\<not> ((pe_interface env src = None \<or> pe_interface env src = Some i) \<and> pe_forwarding env \<and> \<not> ip_isLinkLocalMulticast dest) \<or>
      getRouteFor dest src s = None" using that by auto
  consider (other) "pe_interface env src \<noteq> None" "pe_interface env src \<noteq> Some i"
    | (off) "pe_interface env src = None \<or> pe_interface env src = Some i" "\<not> pe_forwarding env \<or> ip_isLinkLocalMulticast dest"
    | (on) "pe_interface env src = None \<or> pe_interface env src = Some i" "pe_forwarding env" "\<not> ip_isLinkLocalMulticast dest" by argo
  then show ?thesis
  proof cases
    case other
    then have "data_copies s' = data_copies s" using run by (auto simp: routeMulticastPacket_def split: if_splits dest: dataOnNonRpf_copies)
    then have "?P []" by (rule none) (use other in blast)
    then show ?thesis by (rule exI [of ?P "[]"])
  next
    case off
    then have "s' = ?d" using run by (auto simp: routeMulticastPacket_def delivered_def Let_def)
    then have "data_copies s' = data_copies s" by simp
    then have "?P []" by (rule none) (use off in blast)
    then show ?thesis by (rule exI [of ?P "[]"])
  next
    case on
    then obtain p where p: "getInterfaceByIntID i s = Some p"
      using run by (cases "getInterfaceByIntID i s") (auto simp: routeMulticastPacket_def Let_def split: if_splits)
    note eq = routeMulticastPacket_dense [OF inv on p]
    show ?thesis
    proof (cases "getRouteFor dest src s")
      case (Some r)
      then obtain js where js: "data_copies s' = data_copies s @ map (Out_Data src dest) js" "safe_out src dest js s'" "i \<in> set js \<longleftrightarrow> sends_by i r"
        using run eq inv forward_dense_safe [of env src dest True r ?d s'] by auto
      have "?P js" using js on inc [OF Some] Some unfolding safe_out_def sends_by_def by auto
      then show ?thesis by (rule exI [of ?P js])
    next
      case None
      obtain s2 where s2: "newMulticast env dest src ?d = Some s2"
          "(case getRouteFor dest src s2 of None \<Rightarrow> Some s2 | Some r \<Rightarrow> forward_dense env src dest False r s2) = Some s'"
        using run eq None by (auto split: bind_splits)
      have new: "dm_inv s2" "data_copies s2 = data_copies s" "s2 = ?d \<or> (\<exists>r. getRouteFor dest src s2 = Some r \<and> (\<exists>ii. mr_inInt r = Some ii \<and> ii_id ii = i))"
        using newMulticast_safe [OF _ _ assms(3,4) _ on(1) s2(1)] inv None p by auto
      show ?thesis
      proof (cases "getRouteFor dest src s2")
        case None
        then have "s' = s2" using s2(2) by simp
        then have "?P []" using none new(2) \<open>getRouteFor dest src s = None\<close> by blast
        then show ?thesis by (rule exI [of ?P "[]"])
      next
        case (Some r)
        moreover have "s2 \<noteq> ?d" using Some None by auto
        ultimately obtain js where js: "data_copies s' = data_copies s @ map (Out_Data src dest) js" "safe_out src dest js s'" "i \<in> set js \<longleftrightarrow> sends_by i r"
          and r: "\<exists>ii. mr_inInt r = Some ii \<and> ii_id ii = i"
          using s2(2) new forward_dense_safe [of env src dest False r s2 s'] by auto
        have "i \<notin> set js" using js(3) incoming_not_sent [OF new(1) Some] r by blast
        then have "?P js" using js(1,2) on None unfolding safe_out_def by auto
        then show ?thesis by (rule exI [of ?P js])
      qed
    qed
  qed
qed

text \<open>A datagram of the demonstration stream that comes in by its incoming interface is not sent back; one that
  comes in by the outgoing interface while the source has no unicast route is.\<close>

definition demo_lost :: pim_env where
  "demo_lost = demo_env\<lparr>pe_interface := (\<lambda>_. None)\<rparr>"

theorem pim_data_safety_witness:
  "(\<exists>s'. routeMulticastPacket demo_env demo_src demo_grp 1 demo1 = Some s' \<and>
     (\<exists>js. data_copies s' = data_copies demo1 @ map (Out_Data demo_src demo_grp) js \<and> 1 \<notin> set js)) \<and>
   (\<exists>s'. routeMulticastPacket demo_lost demo_src demo_grp 2 demo1 = Some s' \<and>
     (\<exists>js. data_copies s' = data_copies demo1 @ map (Out_Data demo_src demo_grp) js \<and> 2 \<in> set js))"
proof -
  obtain r where r: "getRouteFor demo_grp demo_src demo1 = Some r" "map (\<lambda>oi. (oi_id oi, oi_forwarding oi)) (mr_outInt r) = [(2, Forward)]"
      "\<not> isFlagSet FLAG_P r" "map_option ii_id (mr_inInt r) = Some 1"
    using demo1_facts(1) by auto
  obtain oi where oi: "oi \<in> set (mr_outInt r)" "oi_id oi = 2" "oi_forwarding oi = Forward" using r(2) by (auto simp: map_eq_Cons_conv)
  have "routeMulticastPacket demo_env demo_src demo_grp 1 demo1 \<noteq> None" "routeMulticastPacket demo_lost demo_src demo_grp 2 demo1 \<noteq> None"
    unfolding demo_router_def by code_simp+
  then obtain s1 s2 where s: "routeMulticastPacket demo_env demo_src demo_grp 1 demo1 = Some s1"
      "routeMulticastPacket demo_lost demo_src demo_grp 2 demo1 = Some s2" by blast
  have d: "ip_isMulticast demo_grp" "demo_src \<noteq> 0" "pe_interface demo_lost demo_src = None" "pe_forwarding demo_lost" by code_simp+
  obtain ii where ii: "mr_inInt r = Some ii" "ii_id ii = 1" using r(4) by auto
  obtain js1 where js1: "data_copies s1 = data_copies demo1 @ map (Out_Data demo_src demo_grp) js1" "1 \<notin> set js1"
    using pim_data_safety [OF demo1_reached s(1) d(1,2)] r(1) ii by blast
  obtain js2 where js2: "data_copies s2 = data_copies demo1 @ map (Out_Data demo_src demo_grp) js2" "2 \<in> set js2"
    using pim_data_safety [OF demo1_reached s(2) d(1,2)] r(1,3) oi d(3,4) demo1_facts(5) by blast
  show ?thesis using s js1 js2 by blast
qed

section \<open>Pruning an interface and taking it back\<close>

lemma isFlagSet_removeFlag: "distinct (mr_flags r) \<Longrightarrow> isFlagSet f (removeFlag g r) \<longleftrightarrow> isFlagSet f r \<and> f \<noteq> g"
  using erase_first_distinct [of id "mr_flags r" g] by (auto simp: isFlagSet_def removeFlag_def list_ex_iff)

lemma vec_modify_id:
  assumes "distinct (map oi_id ois)" and "i \<in> oi_id ` set ois"
  shows "vec_modify (index_first (\<lambda>oi. oi_id oi = i) ois) f ois = map (\<lambda>oi. if oi_id oi = i then f oi else oi) ois"
  using assms
proof (induction ois)
  case (Cons x xs)
  have "map (\<lambda>oi. if oi_id oi = i then f oi else oi) xs = xs" if "oi_id x = i"
    using Cons.prems(1) that by (intro map_idI) (auto simp: image_iff)
  then show ?case using Cons by (auto simp: vec_modify_def)
qed simp

lemma vec_at_id:
  assumes "distinct (map oi_id ois)" and "oi \<in> set ois"
  shows "vec_at ois (index_first (\<lambda>x. oi_id x = oi_id oi) ois) = Some oi"
  using assms by (induction ois) (auto simp: vec_at_def image_iff split: if_splits)

lemma put_get:
  assumes inv: "dm_inv s" and r: "r \<in> set (pi_routes s)" and g: "good r s r' s'"
  shows "getRouteFor (mr_group r) (mr_origin r) (put_mroute r' s') = Some r'"
proof -
  have k: "dm_inv (put_mroute r' s')" using kept_put [OF inv r g] by (simp add: kept_def)
  have g': "mr_group r' = mr_group r" "mr_origin r' = mr_origin r" "mr_id r' = mr_id r" "pi_routes s' = pi_routes s"
    using g by (simp_all add: good_def frame_def)
  have "r' \<in> set (pi_routes (put_mroute r' s'))" using put_mroute_in [of r s' r'] r g' by simp
  from dm_inv_getRouteFor [OF k this] show ?thesis using g' by simp
qed

text \<open>The prune of one interface.\<close>

definition pruned_out :: "int \<Rightarrow> nat \<Rightarrow> out_int list \<Rightarrow> out_int list" where
  "pruned_out i t = map (\<lambda>oi. if oi_id oi = i then oi\<lparr>oi_forwarding := Pruned, oi_pruneTimer := Some t\<rparr> else oi)"

lemma timer_at_map: "timer_at t s = Some tm \<Longrightarrow> timer_map s t = Some (tmr_kind tm, tmr_at tm)"
  by (simp add: timer_map_def)

lemma timer_map_put [simp]: "timer_map (put_mroute r s) = timer_map s"
  by (simp add: put_mroute_def modify_mroute_def)

text \<open>A prune for a forwarding interface prunes that interface and no other, for the hold time of the prune;
  when it was the last interface that forwarded, the route is pruned as well and a prune goes upstream, unless
  the source is directly connected.\<close>

theorem pim_prune_interface:
  assumes "dm_reachable s" and "r \<in> set (pi_routes s)" and "oi \<in> set (mr_outInt r)" and "oi_forwarding oi = Forward" and "0 \<le> holdTime"
    and "mr_grt r = None" and "mr_inInt r = Some ii"
  shows "\<exists>s' r' t. processPrunePacket r (oi_id oi) holdTime s = Some s' \<and> getRouteFor (mr_group r) (mr_origin r) s' = Some r' \<and>
    mr_outInt r' = pruned_out (oi_id oi) t (mr_outInt r) \<and>
    timer_map s' t = Some (Prune_Timer (mr_origin r) (mr_group r) (oi_id oi), Some (pi_now s + sec holdTime)) \<and>
    (let last = (\<forall>oi'\<in>set (mr_outInt r). oi_id oi' \<noteq> oi_id oi \<longrightarrow> oi_forwarding oi' \<noteq> Forward) in
      (isFlagSet FLAG_P r' \<longleftrightarrow> last \<or> isFlagSet FLAG_P r) \<and>
      pi_out s' = pi_out s @ (if last \<and> \<not> isFlagSet FLAG_A r
        then [prune_to (ii_nextHop ii) (mr_origin r) (mr_group r) (ii_id ii)] else []))"
proof -
  note inv = dm_reachable_inv [OF assms(1)] and d = sec_def
  let ?k = "Prune_Timer (mr_origin r) (mr_group r) (oi_id oi)" and ?t = "pi_next s"
  have dist: "distinct (map oi_id (mr_outInt r))" using dm_inv_route [OF inv assms(2)] by (auto simp: route_ok_def olist_ok_def)
  have hold: "0 \<le> sec holdTime" using assms(5) by (simp add: sec_def)
  obtain pre post where split: "mr_outInt r = pre @ oi # post" using assms(3) by (meson split_list)
  have po: "pruned_out (oi_id oi) ?t (mr_outInt r) = pre @ oi\<lparr>oi_forwarding := Pruned, oi_pruneTimer := Some ?t\<rparr> # post"
    using dist unfolding split pruned_out_def by (auto simp: image_iff intro!: map_idI)
  obtain s1 where s1: "new_timer ?k (sec holdTime) s = Some (Some ?t, s1)" "pi_out s1 = pi_out s" "timer_map s1 ?t = Some (?k, Some (pi_now s + sec holdTime))"
    using run_new_timer [OF fresh_None [OF dm_inv_fresh [OF inv]] hold, of ?k] by (auto simp: run_ok_ex same_rest_def)
  let ?r1 = "r\<lparr>mr_outInt := pruned_out (oi_id oi) ?t (mr_outInt r)\<rparr>"
  have g: "good r s ?r1 s1" using good_prune_out [OF dm_inv_good [OF inv assms(2)] split hold] s1(1) by (simp add: po)
  have upd: "vec_modify (getOutIdByIntId (oi_id oi) r) (\<lambda>oi. oi\<lparr>oi_forwarding := Pruned, oi_pruneTimer := Some ?t\<rparr>) (mr_outInt r) = pruned_out (oi_id oi) ?t (mr_outInt r)"
    using vec_modify_id [OF dist] assms(3) by (simp add: getOutIdByIntId_def pruned_out_def)
  have null: "isOilistNull ?r1 \<longleftrightarrow> (\<forall>oi'\<in>set (mr_outInt r). oi_id oi' \<noteq> oi_id oi \<longrightarrow> oi_forwarding oi' \<noteq> Forward)"
    by (auto simp: isOilistNull_def list_all_iff pruned_out_def)
  have get: "getOutIntByIntId (oi_id oi) r = Some oi" using vec_at_id [OF dist assms(3)] by (simp add: getOutIntByIntId_def getOutIdByIntId_def)
  show ?thesis
  proof (cases "isOilistNull ?r1")
    case True
    let ?r2 = "addFlag FLAG_P ?r1" and ?up = "sendPimJoinPrune (ii_nextHop ii) (mr_origin r) (mr_group r) (ii_id ii) s1"
    let ?s2 = "if isFlagSet FLAG_A r then s1 else ?up"
    have "good r s ?r2 ?s2" using g by (simp add: sendPimJoinPrune_def)
    note put = put_get [OF inv assms(2) this]
    have "processPrunePacket r (oi_id oi) holdTime s = Some (put_mroute ?r2 ?s2)"
      using get assms(4,6,7) s1(1) True upd by (simp add: processPrunePacket_def Let_def prune_upstream_def)
    then show ?thesis
      using put s1 True unfolding null by (intro exI [of _ "put_mroute ?r2 ?s2"] exI [of _ ?r2] exI [of _ ?t])
        (simp add: Let_def put_mroute_def modify_mroute_def sendPimJoinPrune_def send_pim_def)
  next
    case False
    note put = put_get [OF inv assms(2) g]
    have "processPrunePacket r (oi_id oi) holdTime s = Some (put_mroute ?r1 s1)"
      using get assms(4,6,7) s1(1) False upd by (simp add: processPrunePacket_def Let_def)
    then show ?thesis
      using put s1 False unfolding null by (intro exI [of _ "put_mroute ?r1 s1"] exI [of _ ?r1] exI [of _ ?t])
        (auto simp: Let_def put_mroute_def modify_mroute_def)
  qed
qed

theorem pim_prune_interface_witness:
  "\<exists>r s' r'. r \<in> set (pi_routes demo1) \<and> processPrunePacket r 2 180 demo1 = Some s' \<and> getRouteFor (mr_group r) (mr_origin r) s' = Some r' \<and>
     \<not> (\<exists>oi\<in>set (mr_outInt r'). oi_forwarding oi = Forward)"
proof -
  have f: "map_option (\<lambda>r. (map (\<lambda>oi. (oi_id oi, oi_forwarding oi)) (mr_outInt r), mr_grt r, mr_inInt r)) (getRouteFor demo_grp demo_src demo1)
    = Some ([(2, Forward)], None, Some \<lparr>ii_id = 1, ii_nextHop = demo_up\<rparr>)"
    unfolding demo_router_def by code_simp
  then obtain r where "getRouteFor demo_grp demo_src demo1 = Some r" and
      q: "map (\<lambda>oi. (oi_id oi, oi_forwarding oi)) (mr_outInt r) = [(2, Forward)]" "mr_grt r = None" "mr_inInt r = Some \<lparr>ii_id = 1, ii_nextHop = demo_up\<rparr>"
    by auto
  then have "r \<in> set (pi_routes demo1)" using getRouteFor_Some by blast
  with q obtain oi where r: "r \<in> set (pi_routes demo1)" "mr_outInt r = [oi]" "oi_id oi = 2" "oi_forwarding oi = Forward" "mr_grt r = None" "mr_inInt r = Some \<lparr>ii_id = 1, ii_nextHop = demo_up\<rparr>"
    by (auto simp: map_eq_Cons_conv)
  from pim_prune_interface [OF demo1_reached r(1) _ r(4) _ r(5,6), of 180] obtain s' r' t where
    "processPrunePacket r 2 180 demo1 = Some s'" "getRouteFor (mr_group r) (mr_origin r) s' = Some r'" "mr_outInt r' = pruned_out 2 t [oi]"
    using r(2,3) by auto
  then show ?thesis using r(1,3) by (intro exI [of _ r] exI [of _ s'] exI [of _ r']) (simp add: pruned_out_def)
qed

text \<open>An interface is taken back.\<close>

definition restored_out :: "int \<Rightarrow> out_int list \<Rightarrow> out_int list" where
  "restored_out i = map (\<lambda>oi. if oi_id oi = i then oi\<lparr>oi_pruneTimer := None, oi_forwarding := Forward\<rparr> else oi)"

text \<open>When the prune time of an interface is over, the interface forwards again, alone; the route is not pruned
  any more, so the next datagram of the stream leaves by that interface. Nothing is sent: the upstream router
  is not asked for the stream.\<close>

theorem pim_prune_expires:
  assumes "dm_reachable s" and "r \<in> set (pi_routes s)" and "oi \<in> set (mr_outInt r)" and "oi_pruneTimer oi = Some t"
    and "timer_at t s = Some tm" and "tmr_at tm = Some (pi_now s)"
  shows "\<exists>s' r'. pim_handle env (Ev_Timer t) s = Some s' \<and> getRouteFor (mr_group r) (mr_origin r) s' = Some r' \<and>
    mr_outInt r' = restored_out (oi_id oi) (mr_outInt r) \<and> \<not> isFlagSet FLAG_P r' \<and> pi_out s' = pi_out s \<and>
    timer_at t s' = None"
proof -
  note inv = dm_reachable_inv [OF assms(1)]
  let ?src = "mr_origin r" and ?grp = "mr_group r" and ?i = "oi_id oi"
  have ok: "route_ok (timer_map s) r" by (rule dm_inv_route [OF inv assms(2)])
  then have dist: "distinct (map oi_id (mr_outInt r))" and fl: "distinct (mr_flags r)" by (auto simp: route_ok_def olist_ok_def)
  have T: "timer_map s t = Some (Prune_Timer ?src ?grp ?i, Some (pi_now s))"
    using good_out_timer [OF dm_inv_good [OF inv assms(2)] assms(3,4)] timer_at_map [OF assms(5)] assms(6) by simp
  then have kind: "tmr_kind tm = Prune_Timer ?src ?grp ?i" using timer_at_map [OF assms(5)] by simp
  have get: "getRouteFor ?grp ?src (fired t s) = Some r" using dm_inv_getRouteFor [OF inv assms(2)] by simp
  let ?r' = "removeFlag FLAG_P (r\<lparr>mr_outInt := restored_out ?i (mr_outInt r)\<rparr>)"
  have upd: "vec_modify (getOutIdByIntId ?i r) (\<lambda>oi. oi\<lparr>oi_pruneTimer := None, oi_forwarding := Forward\<rparr>) (mr_outInt r) = restored_out ?i (mr_outInt r)"
    and len: "getOutIdByIntId ?i r < length (mr_outInt r)"
    using vec_modify_id [OF dist] assms(3) by (auto simp: getOutIdByIntId_def restored_out_def)
  obtain s1 where s1: "delete_timer (Some t) (fired t s) = Some s1" "same_rest s s1" "timer_map s1 = (timer_map s)(t := None)"
    using run_delete [of "fired t s" t] timer_map_fired [OF T] by (auto simp: run_ok_ex same_rest_def)
  have run: "pim_handle env (Ev_Timer t) s = Some (put_mroute ?r' s1)"
    using assms(5,6) kind get upd len s1(1)
    by (simp add: pim_handle_def router_timer_def dm_processPIMTimer_def processPruneTimer_def Let_def)
  moreover have "getRouteFor ?grp ?src (put_mroute ?r' s1) = Some ?r'"
  proof -
    have "dm_inv (put_mroute ?r' s1)" using pim_handle_ok [OF inv, of env "Ev_Timer t"] run assms(5) kind by (simp add: event_ok_def timer_ok_def)
    moreover have "?r' \<in> set (pi_routes (put_mroute ?r' s1))" using put_mroute_in [of r s1 ?r'] assms(2) s1(2) by (simp add: same_rest_def)
    ultimately show ?thesis using dm_inv_getRouteFor by fastforce
  qed
  moreover have "timer_at t (put_mroute ?r' s1) = None" using s1(3) by (simp flip: timer_map_None)
  ultimately show ?thesis
    using isFlagSet_removeFlag [of "r\<lparr>mr_outInt := restored_out ?i (mr_outInt r)\<rparr>"] fl s1(2)
    by (intro exI [of _ "put_mroute ?r' s1"] exI [of _ ?r']) (simp add: put_mroute_def modify_mroute_def same_rest_def)
qed

text \<open>The prune time of the demonstration router passes: 180 seconds with the hellos.\<close>

definition demo_wait :: "pim_step list" where
  "demo_wait = (demo_env, Ev_Timer 0) #
     concat (map (\<lambda>(n, t). [(demo_env, Ev_Time (sec (30 * n))), (demo_env, Ev_Timer t), demo_hello demo_up 1, demo_hello demo_down 2])
       [(1, 6), (2, 7), (3, 8), (4, 9), (5, 10)]) @ [(demo_env, Ev_Time (sec 180))]"

abbreviation "demo2 \<equiv> demo_router (demo_run @ demo_wait)"

lemma demo2_reached: "dm_reachable demo2"
proof -
  have "ok_all step_ok pim_step (demo_run @ demo_wait) demo_start" by code_simp
  then show ?thesis by (rule pim_demo_reachable(1))
qed

theorem pim_prune_expires_witness:
  "\<exists>s' r'. pim_handle demo_env (Ev_Timer 5) demo2 = Some s' \<and> getRouteFor demo_grp demo_src s' = Some r' \<and> \<not> isFlagSet FLAG_P r'"
proof -
  have f: "map_option (\<lambda>r. map (\<lambda>oi. (oi_id oi, oi_pruneTimer oi)) (mr_outInt r)) (getRouteFor demo_grp demo_src demo2) = Some [(2, Some 5)]"
    "map_option tmr_at (timer_at 5 demo2) = Some (Some (pi_now demo2))"
    unfolding demo_router_def by code_simp+
  then obtain r tm where r: "getRouteFor demo_grp demo_src demo2 = Some r" "map (\<lambda>oi. (oi_id oi, oi_pruneTimer oi)) (mr_outInt r) = [(2, Some 5)]"
    and tm: "timer_at 5 demo2 = Some tm" "tmr_at tm = Some (pi_now demo2)"
    by auto
  note g = getRouteFor_Some [OF r(1)]
  obtain oi where oi: "oi \<in> set (mr_outInt r)" "oi_pruneTimer oi = Some 5" using r(2) by (auto simp: map_eq_Cons_conv)
  then show ?thesis using pim_prune_expires [OF demo2_reached conjunct1 [OF g] oi tm, of demo_env] g by auto
qed

lemma graft_loop_none: "i \<notin> oi_id ` set ois \<Longrightarrow> graft_loop i ois s = Some (False, ois, s)"
  by (induction ois) auto

lemma stop_timer_out: "stop_timer p s = Some s' \<Longrightarrow> pi_out s' = pi_out s \<and> pi_now s' = pi_now s"
  by (auto simp: stop_timer_def cancelEvent_def delete_timer_def modify_timer_def split: option.splits bind_splits)

lemma graft_loop_list:
  "distinct (map oi_id ois) \<Longrightarrow> oi \<in> set ois \<Longrightarrow> oi_forwarding oi = Pruned \<Longrightarrow> graft_loop (oi_id oi) ois s = Some (b, ois', s') \<Longrightarrow>
   ois' = restored_out (oi_id oi) ois \<and> b \<and> pi_out s' = pi_out s \<and> pi_now s' = pi_now s"
proof (induction ois arbitrary: b ois' s s')
  case (Cons x xs)
  show ?case
  proof (cases "oi_id x = oi_id oi")
    case True
    then have x: "x = oi" "oi_id oi \<notin> oi_id ` set xs" using Cons.prems(1,2) by (auto simp: image_iff)
    then have "restored_out (oi_id oi) xs = xs" by (auto simp: restored_out_def image_iff intro!: map_idI)
    then show ?thesis
      using Cons.prems(3,4) x graft_loop_none [OF x(2)] by (auto simp: restored_out_def split: bind_splits dest: stop_timer_out)
  next
    case False
    then obtain b' ys where "graft_loop (oi_id oi) xs s = Some (b', ys, s')" "b = b'" "ois' = x # ys"
      using Cons.prems(4) by (auto split: bind_splits)
    then show ?thesis using Cons.IH [of s b' ys s'] Cons.prems(1-3) False by (auto simp: restored_out_def)
  qed
qed simp

text \<open>What is sent to join the tree again, and the timer that repeats it.\<close>

abbreviation graft_to :: "ipv4_addr \<Rightarrow> ipv4_addr \<Rightarrow> ipv4_addr \<Rightarrow> int \<Rightarrow> pim_out" where
  "graft_to nextHop src grp i \<equiv> Out_Pim \<lparr>pm_pkt = Graft \<lparr>jp_upstream = nextHop, jp_holdTime = 0,
     jp_groups = [\<lparr>mg_group = grp, mg_joined = [src], mg_pruned = []\<rparr>]\<rparr>, pm_src = 0, pm_dest = nextHop, pm_intId = i\<rparr>"

lemma start_graft_fields:
  assumes "start_graft r s = Some (r', s')" and "mr_inInt r = Some ii"
  shows "pi_out s' = pi_out s @ [graft_to (ii_nextHop ii) (mr_origin r) (mr_group r) (ii_id ii)]" and "pi_now s' = pi_now s"
    and "mr_outInt r' = mr_outInt r" and "mr_flags r' = mr_flags r"
    and "mr_grt r' = Some (pi_next s) \<and> timer_at (pi_next s) s' \<noteq> None"
  using assms by (auto simp: start_graft_def graft_upstream_def sendPimGraft_def send_pim_def new_timer_def timer_at_def find_append
      split: bind_splits if_splits option.splits)

text \<open>A graft for a pruned interface makes it forward again and stops its prune timer. When the route was pruned
  itself and no graft is under way, the graft goes on to the next router, again every three seconds until it is
  acknowledged, and the route stays pruned meanwhile; next to the source the route is not pruned any more.\<close>

theorem pim_graft_interface:
  assumes "dm_reachable s" and "getRouteFor grp src s = Some r" and "oi \<in> set (mr_outInt r)" and "oi_forwarding oi = Pruned" and "mr_inInt r = Some ii"
  shows "\<exists>s' r'. processGraftPacket src grp (oi_id oi) s = Some s' \<and> getRouteFor grp src s' = Some r' \<and>
    mr_outInt r' = restored_out (oi_id oi) (mr_outInt r) \<and>
    (if isFlagSet FLAG_P r \<and> mr_grt r = None
     then if isFlagSet FLAG_A r then \<not> isFlagSet FLAG_P r' \<and> pi_out s' = pi_out s
       else isFlagSet FLAG_P r' \<and> pi_out s' = pi_out s @ [graft_to (ii_nextHop ii) src grp (ii_id ii)] \<and>
         (\<exists>t. mr_grt r' = Some t \<and> timer_at t s' \<noteq> None)
     else isFlagSet FLAG_P r' = isFlagSet FLAG_P r \<and> pi_out s' = pi_out s)"
proof -
  note inv = dm_reachable_inv [OF assms(1)] and rs = getRouteFor_Some [OF assms(2)]
  have ok: "route_ok (timer_map s) r" using dm_inv_route [OF inv] rs by blast
  then have dist: "distinct (map oi_id (mr_outInt r))" and fl: "distinct (mr_flags r)" and rpf: "oi_id oi \<noteq> ii_id ii"
    using assms(3,5) by (force simp: route_ok_def olist_ok_def)+
  let ?r1 = "r\<lparr>mr_outInt := restored_out (oi_id oi) (mr_outInt r)\<rparr>"
  obtain b ois s1 where "graft_loop (oi_id oi) (mr_outInt r) s = Some (b, ois, s1)" "good r s (r\<lparr>mr_outInt := ois\<rparr>) s1"
    using graft_loop_good [where ?r0.0 = r and ?s0.0 = s and r = r and pre = "[]" and ois = "mr_outInt r" and s = s and i = "oi_id oi"] dm_inv_good [OF inv] rs by (auto simp: run_ok_ex)
  then have loop: "graft_loop (oi_id oi) (mr_outInt r) s = Some (True, restored_out (oi_id oi) (mr_outInt r), s1)"
      and g: "good r s ?r1 s1" and o1: "pi_out s1 = pi_out s"
    using graft_loop_list [OF dist assms(3,4)] by auto
  note put = put_get [OF inv conjunct1 [OF rs], unfolded rs [THEN conjunct2, THEN conjunct1] rs [THEN conjunct2, THEN conjunct2]]
  have out: "pi_out (put_mroute x y) = pi_out y" "timer_at t (put_mroute x y) = timer_at t y" for x y t
    by (simp_all add: put_mroute_def modify_mroute_def timer_at_def)
  have run: "processGraftPacket src grp (oi_id oi) s =
     do { (r2, s2) \<leftarrow> (if isFlagSet FLAG_P r \<and> mr_grt r = None
            then if \<not> isFlagSet FLAG_A r then start_graft ?r1 s1 else Some (removeFlag FLAG_P ?r1, s1) else Some (?r1, s1));
          Some (put_mroute r2 s2) }"
    using rpf by (simp add: processGraftPacket_def assms(2,5) isRpf_def loop Let_def)
  consider (graft) "isFlagSet FLAG_P r" "mr_grt r = None" "\<not> isFlagSet FLAG_A r" | (near) "isFlagSet FLAG_P r" "mr_grt r = None" "isFlagSet FLAG_A r"
    | (rest) "\<not> (isFlagSet FLAG_P r \<and> mr_grt r = None)" by argo
  then show ?thesis
  proof cases
    case graft
    obtain r2 s2 where s2: "start_graft ?r1 s1 = Some (r2, s2)" "good r s r2 s2" using good_start_graft [OF g] by (auto simp: run_ok_ex)
    note f = start_graft_fields [OF s2(1)]
    show ?thesis using run graft s2(1) put [OF s2(2)] f rs assms(5) o1 by (auto simp: out isFlagSet_def)
  next
    case near
    have "good r s (removeFlag FLAG_P ?r1) s1" using g by simp
    then show ?thesis using run near put isFlagSet_removeFlag [of ?r1] fl o1 by (simp add: out)
  next
    case rest
    then show ?thesis using run put [OF g] o1 by (auto simp: out)
  qed
qed

theorem pim_graft_interface_witness:
  "\<exists>s' r'. processGraftPacket demo_src demo_grp 2 demo = Some s' \<and> getRouteFor demo_grp demo_src s' = Some r' \<and>
     isFlagSet FLAG_P r' \<and> pi_out s' = pi_out demo @ [graft_to demo_up demo_src demo_grp 1]"
proof -
  have f: "map_option (\<lambda>r. (map (\<lambda>oi. (oi_id oi, oi_forwarding oi)) (mr_outInt r), isFlagSet FLAG_P r, isFlagSet FLAG_A r, mr_grt r, mr_inInt r)) (getRouteFor demo_grp demo_src demo)
    = Some ([(2, Pruned)], True, False, None, Some \<lparr>ii_id = 1, ii_nextHop = demo_up\<rparr>)"
    unfolding demo_router_def by code_simp
  then obtain r where r: "getRouteFor demo_grp demo_src demo = Some r" "map (\<lambda>oi. (oi_id oi, oi_forwarding oi)) (mr_outInt r) = [(2, Pruned)]"
      "isFlagSet FLAG_P r" "\<not> isFlagSet FLAG_A r" "mr_grt r = None" "mr_inInt r = Some \<lparr>ii_id = 1, ii_nextHop = demo_up\<rparr>"
    by auto
  obtain oi where oi: "oi \<in> set (mr_outInt r)" "oi_id oi = 2" "oi_forwarding oi = Pruned" using r(2) by (auto simp: map_eq_Cons_conv)
  show ?thesis using pim_graft_interface [OF demo_reached r(1) oi(1,3) r(6)] r(3-5) oi(2) by auto
qed

section \<open>Neighbours\<close>

lemma pim_routes_frame:
  "delete_timer p s = Some s' \<Longrightarrow> pi_routes s' = pi_routes s"
  by (auto simp: delete_timer_def split: option.splits)

text \<open>A hello and the end of a neighbour.\<close>

lemma hello_neighbor:
  assumes inv: "dm_inv s"
  shows "\<exists>s' n t. processHelloPkt ver m s = Some s' \<and> findNeighbor (pm_intId m) (pm_src m) s' = Some n \<and> nb_nlt n = Some t \<and>
    timer_map s' t = Some (Neighbor_Liveness (nb_id n), Some (pi_now s + sec 105)) \<and>
    filter (\<lambda>x. \<not> (nb_intId x = pm_intId m \<and> nb_addr x = pm_src m)) (pi_nbrs s') = filter (\<lambda>x. \<not> (nb_intId x = pm_intId m \<and> nb_addr x = pm_src m)) (pi_nbrs s)"
proof (cases "isInTable (pm_intId m) (pm_src m) s")
  case False
  have T: "timer_map s (pi_next s) = None" by (rule fresh_None [OF dm_inv_fresh [OF inv]])
  have none: "find (\<lambda>n. pm_src m = nb_addr n \<and> pm_intId m = nb_intId n) (pi_nbrs s) = None"
    using False by (auto simp: isInTable_def list_ex_iff find_None_all)
  have "0 \<le> NLT" by (simp add: sec_def)
  from run_new_timer [OF T this, of "Neighbor_Liveness (pi_nbrId s)"] obtain s1 where
    s1: "new_timer (Neighbor_Liveness (pi_nbrId s)) NLT s = Some (Some (pi_next s), s1)" "same_rest (s\<lparr>pi_next := pi_next s + 1\<rparr>) s1"
      "timer_map s1 (pi_next s) = Some (Neighbor_Liveness (pi_nbrId s), Some (pi_now s + NLT))"
    by (auto simp: run_ok_ex)
  show ?thesis
    using False s1 none by (simp add: processHelloPkt_def addNeighbor_def findNeighbor_def same_rest_def find_append)
next
  case True
  then obtain n where find: "findNeighbor (pm_intId m) (pm_src m) s = Some n" "n \<in> set (pi_nbrs s)"
    by (cases "findNeighbor (pm_intId m) (pm_src m) s")
      (auto simp: isInTable_def findNeighbor_def list_ex_iff find_None_all dest: find_Some_in)
  then obtain t a where t: "nb_nlt n = Some t" "timer_map s t = Some (Neighbor_Liveness (nb_id n), Some a)"
    using dm_inv_nbr [OF inv] by (fastforce simp: nbr_ok_def runs_def)
  have "0 \<le> NLT" by (simp add: sec_def)
  from run_restart [OF t(2) this] obtain s' where
    "restart_timer (nb_nlt n) NLT s = Some s'" "same_rest s s'" "timer_map s' t = Some (Neighbor_Liveness (nb_id n), Some (pi_now s + NLT))"
    by (auto simp: run_ok_ex t(1))
  then show ?thesis using True find t(1) by (intro exI [of _ s'] exI [of _ n] exI [of _ t]) (simp add: processHelloPkt_def findNeighbor_def same_rest_def)
qed

lemma neighbor_expires:
  assumes inv: "dm_inv s" and n: "n \<in> set (pi_nbrs s)" and t: "timer_map s t = Some (Neighbor_Liveness (nb_id n), Some (pi_now s))"
  shows "\<exists>s'. pim_handle env (Ev_Timer t) s = Some s' \<and> pi_nbrs s' = filter (\<lambda>x. x \<noteq> n) (pi_nbrs s) \<and> pi_routes s' = pi_routes s"
proof -
  note nb = dm_inv_nbr [OF inv, unfolded nbr_ok_def]
  obtain tm where tm: "timer_at t s = Some tm" "tmr_kind tm = Neighbor_Liveness (nb_id n)" "tmr_at tm = Some (pi_now s)"
    using t by (auto simp: timer_map_def)
  obtain s' where s': "splitter_timer t (Neighbor_Liveness (nb_id n)) (fired t s) = Some s'" "pi_nbrs s' = filter (\<lambda>x. nb_id x \<noteq> nb_id n) (pi_nbrs s)"
    using nlt_timer_ok [OF inv t] by (auto simp: run_ok_ex)
  have "nb_id x \<noteq> nb_id n \<longleftrightarrow> x \<noteq> n" if "x \<in> set (pi_nbrs s)" for x
    using nb n that by (auto simp: distinct_map dest: inj_onD)
  then have "filter (\<lambda>x. nb_id x \<noteq> nb_id n) (pi_nbrs s) = filter (\<lambda>x. x \<noteq> n) (pi_nbrs s)" by (rule filter_cong [OF refl])
  moreover have "pi_routes s' = pi_routes s"
    using s'(1) by (auto simp: splitter_timer_def processNLTimer_def deleteNeighbor_def dest!: pim_routes_frame)
  ultimately show ?thesis
    using s' tm by (simp add: pim_handle_def router_timer_def)
qed

text \<open>A hello makes its sender a neighbour on the interface it came in by for 105 seconds from now, and leaves
  the other neighbours alone; when that time passes without another hello, exactly that neighbour is removed,
  and the multicast routes are left as they are.\<close>

theorem pim_neighbor_lifetime:
  assumes "dm_reachable s"
  shows "(\<exists>s' n t. processHelloPkt ver m s = Some s' \<and> findNeighbor (pm_intId m) (pm_src m) s' = Some n \<and> nb_nlt n = Some t \<and>
      timer_map s' t = Some (Neighbor_Liveness (nb_id n), Some (pi_now s + sec 105)) \<and>
      filter (\<lambda>x. \<not> (nb_intId x = pm_intId m \<and> nb_addr x = pm_src m)) (pi_nbrs s') = filter (\<lambda>x. \<not> (nb_intId x = pm_intId m \<and> nb_addr x = pm_src m)) (pi_nbrs s)) \<and>
    (\<forall>n\<in>set (pi_nbrs s). \<forall>t. nb_nlt n = Some t \<and> timer_map s t = Some (Neighbor_Liveness (nb_id n), Some (pi_now s)) \<longrightarrow>
      (\<exists>s'. pim_handle env (Ev_Timer t) s = Some s' \<and> pi_nbrs s' = filter (\<lambda>x. x \<noteq> n) (pi_nbrs s) \<and> pi_routes s' = pi_routes s))"
  using hello_neighbor [OF dm_reachable_inv [OF assms]] neighbor_expires [OF dm_reachable_inv [OF assms]] by auto

theorem pim_neighbor_lifetime_witness:
  "\<exists>s' n t. processHelloPkt 2 \<lparr>pm_pkt = Hello, pm_src = demo_up, pm_dest = all_pim_routers, pm_intId = 1\<rparr> demo = Some s' \<and>
     findNeighbor 1 demo_up s' = Some n \<and> nb_nlt n = Some t \<and> timer_map s' t = Some (Neighbor_Liveness (nb_id n), Some (pi_now demo + sec 105))"
  using conjunct1 [OF pim_neighbor_lifetime [OF demo_reached, of 2 "\<lparr>pm_pkt = Hello, pm_src = demo_up, pm_dest = all_pim_routers, pm_intId = 1\<rparr>" demo_env]] by auto

section \<open>What the code gets wrong\<close>

text \<open>The retry timer of a graft is never stopped once it has gone off: the timer that replaces it is not stored
  in the route, so the acknowledgement that comes next deletes the old timer, leaves the new one running, and
  leaves the route with no graft under way; the router goes on sending grafts.\<close>

theorem pim_graft_retry_leaks:
  assumes "dm_reachable s" and "getRouteFor grp src s = Some r" and "mr_grt r = Some t" and "timer_at t s = Some tm" and "tmr_at tm = Some (pi_now s)"
  shows "\<exists>s1 s2 r2. pim_handle env (Ev_Timer t) s = Some s1 \<and> processGraftAckPacket (getRouteFor grp src s1) s1 = Some s2 \<and>
    getRouteFor grp src s2 = Some r2 \<and> mr_grt r2 = None \<and> timer_map s2 (pi_next s) = Some (Graft_Retry src grp, Some (pi_now s + sec 3))"
proof -
  note inv = dm_reachable_inv [OF assms(1)] and rs = getRouteFor_Some [OF assms(2)]
  have ok: "route_ok (timer_map s) r" using dm_inv_route [OF inv] rs by blast
  then have T: "timer_map s t = Some (Graft_Retry src grp, Some (pi_now s))" and k: "tmr_kind tm = Graft_Retry src grp"
    using assms(3-5) rs timer_at_map [OF assms(4)] by (auto simp: route_ok_def lives_def)
  obtain ii where ii: "mr_inInt r = Some ii" using ok by (auto simp: route_ok_def)
  let ?s = "sendPimGraft (ii_nextHop ii) src grp (ii_id ii) (fired t s)"
  have f: "pi_next ?s = pi_next s" "pi_now ?s = pi_now s" "pi_routes ?s = pi_routes s" "timer_map ?s = (timer_map s)(t \<mapsto> (Graft_Retry src grp, None))"
    using timer_map_fired [OF T] by (simp_all add: sendPimGraft_def send_pim_def)
  have new: "t \<noteq> pi_next s" "timer_map s (pi_next s) = None" using fresh_None [OF dm_inv_fresh [OF inv]] T by auto
  then have n: "timer_map ?s (pi_next ?s) = None" using f by simp
  have "0 \<le> GRT" by (simp add: sec_def)
  from run_new_timer [OF n this, of "Graft_Retry src grp"] obtain s1 where
    s1: "new_timer (Graft_Retry src grp) GRT ?s = Some (Some (pi_next s), s1)" "pi_routes s1 = pi_routes s"
      "timer_map s1 = (timer_map s)(t \<mapsto> (Graft_Retry src grp, None), pi_next s \<mapsto> (Graft_Retry src grp, Some (pi_now s + GRT)))"
    using f by (auto simp: run_ok_ex same_rest_def)
  have run1: "pim_handle env (Ev_Timer t) s = Some s1"
    using assms(2,4,5) k ii s1(1) by (simp add: pim_handle_def router_timer_def dm_processPIMTimer_def processGraftRetryTimer_def)
  then have inv1: "dm_inv s1" using pim_handle_ok [OF inv, of env "Ev_Timer t"] assms(2,4) k by (simp add: event_ok_def timer_ok_def)
  have r1: "getRouteFor grp src s1 = Some r" "r \<in> set (pi_routes s1)" using assms(2) rs s1(2) by (simp_all add: getRouteFor_def)
  obtain s2 where s2: "stop_graft r s1 = Some (r\<lparr>mr_grt := None\<rparr>, s2)" "good r s1 (r\<lparr>mr_grt := None\<rparr>) s2"
    using good_stop_graft [OF dm_inv_good [OF inv1 r1(2)]] assms(3) by (auto simp: run_ok_ex)
  have "timer_map s1 t = Some (Graft_Retry src grp, None)" using s1(3) new(1) by simp
  from run_stop [OF this] have T2: "timer_map s2 = (timer_map s1)(t := None)"
    using s2(1) assms(3) by (auto simp: stop_graft_def split: bind_splits)
  let ?r2 = "removeFlag FLAG_P (r\<lparr>mr_grt := None\<rparr>)"
  have "getRouteFor grp src (put_mroute ?r2 s2) = Some ?r2" using put_get [OF inv1 r1(2), of ?r2 s2] s2(2) rs by simp
  moreover have "processGraftAckPacket (getRouteFor grp src s1) s1 = Some (put_mroute ?r2 s2)"
    using s2(1) assms(3) by (simp add: processGraftAckPacket_def r1(1))
  ultimately show ?thesis
    using run1 T2 new(1) s1(3) by (intro exI [of _ s1] exI [of _ "put_mroute ?r2 s2"] exI [of _ ?r2]) simp
qed

text \<open>The demonstration router, pruned, gets a graft at the start; three seconds later nobody has answered.\<close>

definition demo_graft :: "pim_step list" where
  "demo_graft = demo_run @ [demo_pkt (Graft (demo_jp [demo_src] [])), (demo_env, Ev_Timer 0), (demo_env, Ev_Time (sec 3))]"

lemma demo_graft_reached: "dm_reachable (demo_router demo_graft)"
proof -
  have "ok_all step_ok pim_step demo_graft demo_start" by code_simp
  then show ?thesis by (rule pim_demo_reachable(1))
qed

theorem pim_graft_retry_leaks_witness:
  "\<exists>s1 s2 t. processGraftAckPacket (getRouteFor demo_grp demo_src s1) s1 = Some s2 \<and> timer_map s2 t = Some (Graft_Retry demo_src demo_grp, Some (sec 6))"
proof -
  have f: "map_option mr_grt (getRouteFor demo_grp demo_src (demo_router demo_graft)) = Some (Some 6)"
    "map_option tmr_at (timer_at 6 (demo_router demo_graft)) = Some (Some (sec 3))" "pi_now (demo_router demo_graft) = sec 3"
    unfolding demo_router_def by code_simp+
  obtain r tm where "getRouteFor demo_grp demo_src (demo_router demo_graft) = Some r" "mr_grt r = Some 6"
      "timer_at 6 (demo_router demo_graft) = Some tm" "tmr_at tm = Some (pi_now (demo_router demo_graft))"
    using f by auto
  from pim_graft_retry_leaks [OF demo_graft_reached this, of demo_env] show ?thesis unfolding f(3) by (auto simp: sec_def)
qed

text \<open>An IGMP report ends the simulation of a dense mode router that has no rendezvous point configured: the
  report is handled by sparse mode, which builds a shared tree towards 0.0.0.0, and the multicast table rejects
  a route with neither source nor rendezvous point.\<close>

theorem pim_igmp_report_fails:
  assumes "dm_reachable s" and "pi_ints s \<noteq> []" and "pe_RP env = 0"
  shows "pim_handle env (Ev_Datagram member Proto_Igmp ttl src grp i) s = None"
proof -
  have "getRouteFor grp 0 s = None" by (rule dm_inv_no_shared [OF dm_reachable_inv [OF assms(1)]])
  then have "newMulticastReciever env grp i s = None" "newMulticastReciever env grp i (s\<lparr>pi_out := x\<rparr>) = None" for x
    by (auto simp: newMulticastReciever_def alloc_mroute_def Let_def addMulticastRoute_def addOutInt_def addFlag_def assms(3) split: Option.bind_split)
  then show ?thesis using assms(2) by (simp add: pim_handle_def handleMulticastFromNetwork_def Let_def)
qed

theorem pim_igmp_report_fails_witness:
  "pim_handle demo_env (Ev_Datagram False Proto_Igmp 1 demo_down demo_grp 2) demo = None"
proof -
  have "pi_ints demo \<noteq> []" unfolding demo_router_def by code_simp
  then show ?thesis using pim_igmp_report_fails [OF demo_reached, of demo_env] by (simp add: demo_env_def)
qed

text \<open>When unicast routing has lost the source, a dense mode router sends a datagram that comes in by one of the
  forwarding outgoing interfaces of its route back out of that interface, with the same source and group.\<close>

theorem pim_data_loops_without_unicast_route:
  assumes "dm_reachable s" and "getRouteFor dest src s = Some r" and "oi \<in> set (mr_outInt r)" and "oi_forwarding oi = Forward" and "\<not> isFlagSet FLAG_P r"
    and "pe_interface env src = None" and "getInterfaceByIntID (oi_id oi) s \<noteq> None" and "pe_forwarding env" and "\<not> ip_isLinkLocalMulticast dest"
  shows "\<exists>s' sent. routeMulticastPacket env src dest (oi_id oi) s = Some s' \<and> data_copies s' = data_copies s @ sent \<and> Out_Data src dest (oi_id oi) \<in> set sent"
proof -
  note inv = dm_reachable_inv [OF assms(1)]
  obtain p where p: "getInterfaceByIntID (oi_id oi) s = Some p" using assms(7) by blast
  let ?d = "delivered env src dest s"
  have d: "dm_inv ?d" "getRouteFor dest src ?d = Some r" using inv assms(2) by simp_all
  obtain s' where s': "forward_dense env src dest True r ?d = Some s'" using forward_dense_ok [OF d] by (auto simp: run_ok_ex)
  have "routeMulticastPacket env src dest (oi_id oi) s = Some s'"
    using routeMulticastPacket_dense [OF inv _ assms(8,9) p] assms(2,6) s' by simp
  then show ?thesis using forward_dense_copies [OF d s'] assms(3-5) by auto
qed

theorem pim_data_loops_without_unicast_route_witness:
  "\<exists>s'. routeMulticastPacket demo_lost demo_src demo_grp 2 demo1 = Some s' \<and> Out_Data demo_src demo_grp 2 \<in> set (data_copies s')"
proof -
  obtain r where r: "getRouteFor demo_grp demo_src demo1 = Some r" "map (\<lambda>oi. (oi_id oi, oi_forwarding oi)) (mr_outInt r) = [(2, Forward)]" "\<not> isFlagSet FLAG_P r"
    using demo1_facts(1) by auto
  obtain oi where oi: "oi \<in> set (mr_outInt r)" "oi_id oi = 2" "oi_forwarding oi = Forward" using r(2) by (auto simp: map_eq_Cons_conv)
  have "getInterfaceByIntID 2 demo1 \<noteq> None" unfolding demo_router_def by code_simp
  then show ?thesis
    using pim_data_loops_without_unicast_route [OF demo1_reached r(1) oi(1,3) r(3), of demo_lost] oi(2) demo1_facts(4,5) by (auto simp: demo_lost_def)
qed

text \<open>A prune, graft or graft acknowledgement that names a stream the router has no route for ends the
  simulation, when it comes in by a dense mode interface from a router that unicast routing reaches, and is
  addressed to this one.\<close>

theorem pim_unknown_route_crashes:
  assumes "getInterfaceByIntID (pm_intId m) s = Some p" and "pn_mode p = Dense" and "pe_interface env (pm_src m) = Some i"
    and "jp_upstream jp = pe_addr env i" and "getRouteFor grp src s = None"
    and "(pm_pkt m = JoinPrune jp \<and> jp_groups jp = \<lparr>mg_group = grp, mg_joined = [], mg_pruned = src # srcs\<rparr> # gs) \<or>
      ((pm_pkt m = Graft jp \<or> pm_pkt m = GraftAck jp) \<and> jp_groups jp = \<lparr>mg_group = grp, mg_joined = src # srcs, mg_pruned = []\<rparr> # gs)"
  shows "pim_handle env (Ev_Unicast ver m) s = None"
  using assms
  by (auto simp: pim_handle_def splitter_packet_def processPIMPkt_def dm_processPIMPkt_def processJoinPruneGraftPacket_def
      processGraftPacket_def processGraftAckPacket_def Let_def)

theorem pim_unknown_route_crashes_witness:
  "pim_handle demo_env (Ev_Unicast 2 \<lparr>pm_pkt = Graft (demo_jp [demo_src] []), pm_src = demo_down, pm_dest = all_pim_routers, pm_intId = 2\<rparr>) demo0 = None"
proof -
  have "map_option pn_mode (getInterfaceByIntID 2 demo0) = Some Dense" "pe_interface demo_env demo_down = Some 2" "pe_addr demo_env 2 = jp_upstream (demo_jp [demo_src] [])"
      "getRouteFor demo_grp demo_src demo0 = None"
    unfolding demo_router_def by code_simp+
  then show ?thesis
    by (auto intro!: pim_unknown_route_crashes [where i = 2 and jp = "demo_jp [demo_src] []" and grp = demo_grp and src = demo_src and srcs = "[]" and gs = "[]"]
        simp: demo_jp_def)
qed

end
