(* ===== verification/Pim_Sparse_Properties.thy ===== *)
theory Pim_Sparse_Properties
  imports Pim_Reachable
begin

text \<open>
  The registration of a source in sparse mode: the first-hop router makes the trees and tunnels the data to
  the rendezvous point, the rendezvous point makes its trees and answers, and the answer closes the tunnel.
\<close>

lemma restart_live:
  assumes "timer_map s t \<noteq> None" and "0 \<le> d"
  shows "\<exists>s' v. restart_if_set (Some t) d s = Some s' \<and> same_rest s s' \<and> timer_map s t = Some v \<and>
    timer_map s' = (timer_map s)(t \<mapsto> (fst v, Some (pi_now s + d)))"
proof -
  obtain v where v: "timer_map s t = Some v" using assms(1) by blast
  show ?thesis using run_restart [OF v assms(2)] v by (auto simp: restart_if_set_def run_ok_ex)
qed

lemma new_timer_live:
  assumes "0 \<le> d"
  shows "\<exists>s'. new_timer k d s = Some (Some (pi_next s), s') \<and> same_rest (s\<lparr>pi_next := pi_next s + 1\<rparr>) s' \<and>
    timer_map s' (pi_next s) \<noteq> None \<and> (\<forall>t. timer_map s t \<noteq> None \<longrightarrow> timer_map s' t \<noteq> None)"
  using assms by (auto simp: new_timer_def same_rest_def timer_map_def timer_at_def find_append split: option.splits)

lemma same_rest_get: "same_rest s s' \<Longrightarrow> getRouteFor g a s' = getRouteFor g a s"
  by (simp add: same_rest_def getRouteFor_def)

lemma getRegStatus_find: "getRegStatus i r = do { oi \<leftarrow> find (\<lambda>oi. oi_id oi = i) (mr_outInt r); oi_regState oi }"
  by (simp add: getRegStatus_def getOutIntByIntId_def getOutIdByIntId_def vec_at_index_first)

text \<open>What a route that is written back is found as.\<close>

lemma getRouteFor_put:
  assumes d: "distinct (map mr_id (pi_routes s))" and r: "getRouteFor g a s = Some r"
    and r1: "mr_id r1 = mr_id r" "mr_group r1 = mr_group r" "mr_origin r1 = mr_origin r"
  shows "getRouteFor g a (put_mroute r1 s) = Some r1" and "(g', a') \<noteq> (g, a) \<Longrightarrow> getRouteFor g' a' (put_mroute r1 s) = getRouteFor g' a' s"
proof -
  let ?f = "\<lambda>x. if mr_id x = mr_id r1 then r1 else x" and ?P = "\<lambda>g a x. mr_group x = g \<and> mr_origin x = a"
  have rs: "r \<in> set (pi_routes s)" "mr_group r = g" "mr_origin r = a" using getRouteFor_Some [OF r] by auto
  have P: "?P g' a' (?f x) = ?P g' a' x" if "x \<in> set (pi_routes s)" for x g' a'
    using d that rs(1) r1 by (auto simp: distinct_map dest: inj_onD)
  have find: "find (?P g' a') (map ?f xs) = map_option ?f (find (?P g' a') xs)" if "set xs \<subseteq> set (pi_routes s)" for xs g' a'
    using that P [of _ g' a'] by (induction xs) (auto split: if_splits)
  have put: "getRouteFor g' a' (put_mroute r1 s) = map_option ?f (getRouteFor g' a' s)" for g' a'
    using find [OF subset_refl, of g' a'] by (simp add: getRouteFor_def put_mroute_def modify_mroute_def)
  show "getRouteFor g a (put_mroute r1 s) = Some r1" using put [of g a] r r1 by simp
  show "(g', a') \<noteq> (g, a) \<Longrightarrow> getRouteFor g' a' (put_mroute r1 s) = getRouteFor g' a' s"
  proof -
    assume n: "(g', a') \<noteq> (g, a)"
    show ?thesis
    proof (cases "getRouteFor g' a' s")
      case (Some x)
      then have x: "x \<in> set (pi_routes s)" "mr_group x = g'" "mr_origin x = a'" using getRouteFor_Some by blast+
      then have "mr_id x \<noteq> mr_id r1" using d rs n r1(1) by (auto simp: distinct_map dest: inj_onD)
      then show ?thesis using put [of g' a'] Some by simp
    qed (use put [of g' a'] in simp)
  qed
qed

text \<open>The registers and the answer.\<close>

abbreviation register_to :: "pim_env \<Rightarrow> ipv4_addr \<Rightarrow> ipv4_addr \<Rightarrow> int \<Rightarrow> pim_out" where
  "register_to env src grp i \<equiv> Out_Pim \<lparr>pm_pkt = Register False src grp, pm_src = pe_addr env i, pm_dest = pe_RP env, pm_intId = i\<rparr>"

text \<open>\<open>sendPIMRegister\<close> when both routes are there and their keep-alive timers are live.\<close>

lemma sendPIMRegister_runs:
  assumes r: "getRouteFor grp src s = Some r" and g: "getRouteFor grp 0 s = Some g" and i: "pe_interface env (pe_RP env) = Some i"
    and st: "getRegStatus i r = Some st" and k: "\<forall>t. mr_kat r = Some t \<or> mr_kat g = Some t \<longrightarrow> timer_map s t \<noteq> None"
  shows "\<exists>s'. sendPIMRegister env grp src s = Some s' \<and> pi_routes s' = pi_routes s \<and>
    pi_out s' = pi_out s @ (if st = Reg_Join then [register_to env src grp i] else [])"
proof -
  have d: "0 \<le> KAT" "0 \<le> 2 * KAT" by (simp_all add: sec_def)
  obtain s1 where s1: "restart_if_set (mr_kat r) KAT s = Some s1" "same_rest s s1" "\<forall>t. timer_map s t \<noteq> None \<longrightarrow> timer_map s1 t \<noteq> None"
  proof (cases "mr_kat r")
    case None
    then show ?thesis using that [of s] by (simp add: restart_if_set_def same_rest_def)
  next
    case (Some t)
    then show ?thesis using restart_live [OF _ d(1), of s t] k that by (auto split: if_splits)
  qed
  obtain s2 where s2: "restart_if_set (mr_kat g) (2 * KAT) s1 = Some s2" "same_rest s1 s2"
  proof (cases "mr_kat g")
    case None
    then show ?thesis using that [of s1] by (simp add: restart_if_set_def same_rest_def)
  next
    case (Some t)
    then show ?thesis using restart_live [OF _ d(2), of s1 t] k s1(3) that by auto
  qed
  have "sendPIMRegister env grp src s = Some (if st = Reg_Join then send_pim (Register False src grp) (pe_addr env i) (pe_RP env) i s2 else s2)"
    using r g s1(1) s2(1) i st by (simp add: sendPIMRegister_def same_rest_get [OF s1(2)])
  then show ?thesis using s1(2) s2(2) by (auto simp: same_rest_def send_pim_def)
qed

section \<open>The first-hop router\<close>

text \<open>The routes a first-hop router makes.\<close>

lemma register_DR_routes:
  assumes RP: "pe_RP env \<noteq> 0" "pe_interface env (pe_RP env) = Some j" and grp: "ip_isMulticast (mr_group r)" "mr_group r \<noteq> 0" "mr_origin r \<noteq> 0"
  shows "\<exists>s' g r'. newMulticastRegisterDR env r s = Some s' \<and> pi_routes s' = pi_routes s @ [g, r'] \<and> pi_out s' = pi_out s \<and>
    mr_group g = mr_group r \<and> mr_origin g = 0 \<and> mr_group r' = mr_group r \<and> mr_origin r' = mr_origin r \<and> mr_inInt r' = mr_inInt r \<and>
    isFlagSet FLAG_F r' \<and> mr_outInt r' = mr_outInt r @ [\<lparr>oi_id = j, oi_forwarding = Pruned, oi_mode = Sparsemode, oi_pruneTimer = None, oi_regState = Some Reg_Join\<rparr>] \<and>
    (\<forall>t. mr_kat r' = Some t \<or> mr_kat g = Some t \<longrightarrow> timer_map s' t \<noteq> None)"
proof -
  let ?s0 = "s\<lparr>pi_next := pi_next s + 1\<rparr>"
  have d: "0 \<le> KAT" by (simp add: sec_def)
  obtain s1 where s1: "new_timer (Keep_Alive (mr_origin r) (mr_group r)) KAT ?s0 = Some (Some (pi_next ?s0), s1)" "same_rest (?s0\<lparr>pi_next := pi_next ?s0 + 1\<rparr>) s1"
      "timer_map s1 (pi_next ?s0) \<noteq> None"
    using new_timer_live [OF d] by blast
  obtain s2 where s2: "new_timer (Keep_Alive 0 (mr_group r)) KAT s1 = Some (Some (pi_next s1), s2)" "same_rest (s1\<lparr>pi_next := pi_next s1 + 1\<rparr>) s2"
      "timer_map s2 (pi_next s1) \<noteq> None" "\<forall>t. timer_map s1 t \<noteq> None \<longrightarrow> timer_map s2 t \<noteq> None"
    using new_timer_live [OF d] by blast
  have rest: "pi_routes s2 = pi_routes s" "pi_out s2 = pi_out s" using s1(2) s2(2) by (simp_all add: same_rest_def)
  have live: "timer_map s2 (Suc (pi_next s)) \<noteq> None" "timer_map s2 (pi_next s1) \<noteq> None" using s1(3) s2(3,4) by simp_all
  show ?thesis
    using s1(1) s2(1) RP grp rest live
    by (auto simp: newMulticastRegisterDR_def alloc_mroute_def createKeepAliveTimer_def Let_def addMulticastRoute_def new_mroute_def addFlag_def isFlagSet_def addOutInt_def)
qed

lemma getRouteFor_new:
  assumes "pi_routes s' = pi_routes s @ rs" and "getRouteFor g a s = None"
  shows "getRouteFor g a s' = find (\<lambda>r. mr_group r = g \<and> mr_origin r = a) rs"
  using assms by (simp add: getRouteFor_def find_append)

text \<open>C27: The first datagram of a source at its sparse mode first-hop router: the shared and the source tree are
  made, with the tunnel to the rendezvous point as a hidden, pruned outgoing interface in the state Join, and
  the datagram leaves in one register packet to the rendezvous point and in no other way.\<close>

theorem pim_first_hop_registers:
  assumes "getInterfaceByIntID i s = Some p" and "pn_mode p = Sparse" and "pe_interface env src = Some i" and "pe_interface env (pe_RP env) = Some j"
    and "pe_RP env \<noteq> 0" and "src \<noteq> 0" and "ip_isMulticast grp" and "\<not> ip_isLinkLocalMulticast grp" and "\<not> pe_localMulticast env grp" and "pe_forwarding env"
    and "getRouteFor grp src s = None" and "getRouteFor grp 0 s = None"
  shows "\<exists>s' r g. routeMulticastPacket env src grp i s = Some s' \<and> getRouteFor grp src s' = Some r \<and> getRouteFor grp 0 s' = Some g \<and>
    map_option ii_id (mr_inInt r) = Some i \<and> getRegStatus j r = Some Reg_Join \<and> isOilistNull r \<and> pi_out s' = pi_out s @ [register_to env src grp j]"
proof -
  define r0 where "r0 = (new_mroute (pi_next s))\<lparr>mr_group := grp, mr_origin := src, mr_inInt := Some \<lparr>ii_id = i, ii_nextHop = 0\<rparr>\<rparr>"
  have r0: "mr_group r0 = grp" "mr_origin r0 = src" "mr_outInt r0 = []" "map_option ii_id (mr_inInt r0) = Some i"
    by (simp_all add: r0_def new_mroute_def)
  have "grp \<noteq> 0" using assms(7) by (auto simp: ip_isMulticast_def)
  then obtain s1 g r where s1: "newMulticastRegisterDR env r0 (s\<lparr>pi_next := pi_next s + 1\<rparr>) = Some s1" "pi_routes s1 = pi_routes s @ [g, r]" "pi_out s1 = pi_out s"
    and gr: "mr_group g = grp" "mr_origin g = 0" "mr_group r = grp" "mr_origin r = src" "mr_inInt r = mr_inInt r0" "isFlagSet FLAG_F r"
      "mr_outInt r = [\<lparr>oi_id = j, oi_forwarding = Pruned, oi_mode = Sparsemode, oi_pruneTimer = None, oi_regState = Some Reg_Join\<rparr>]"
    and kat: "\<forall>t. mr_kat r = Some t \<or> mr_kat g = Some t \<longrightarrow> timer_map s1 t \<noteq> None"
    using register_DR_routes [OF assms(5,4), of r0 "s\<lparr>pi_next := pi_next s + 1\<rparr>"] r0 assms(6,7) by auto
  have new: "newMulticast env grp src s = Some s1"
    using s1(1) assms(1-3) by (simp add: newMulticast_def alloc_mroute_def r0_def Let_def)
  have get: "getRouteFor grp src s1 = Some r" "getRouteFor grp 0 s1 = Some g"
    using getRouteFor_new [OF s1(2)] assms(6,11,12) gr(1-4) by auto
  have st: "getRegStatus j r = Some Reg_Join" by (simp add: getRegStatus_def getOutIntByIntId_def getOutIdByIntId_def gr(7))
  have quiet: "send_data env src grp (mr_outInt r) s1 = s1" by (simp add: send_data_def gr(7))
  obtain s2 where s2: "sendPIMRegister env grp src s1 = Some s2" "pi_routes s2 = pi_routes s1" "pi_out s2 = pi_out s1 @ [register_to env src grp j]"
    using sendPIMRegister_runs [OF get assms(4) st kat] by auto
  have "routeMulticastPacket env src grp i s = Some s2"
    using assms(1-3,8-12) new get(1) s2(1) by (simp add: routeMulticastPacket_def forward_sparse_def Let_def quiet gr(6))
  then show ?thesis
    using get st s2 s1(3) r0 gr by (intro exI [of _ s2] exI [of _ r] exI [of _ g]) (simp add: getRouteFor_def isOilistNull_def)
qed

definition sparse_env :: pim_env where
  "sparse_env =
     \<lparr>pe_interface = (\<lambda>a. if a = 0x0A000001 then Some 1 else Some 2), pe_gateway = (\<lambda>_. 0), pe_connected = (\<lambda>a. a = 0x0A000001), pe_interfaces = [1, 2],
      pe_addr = (\<lambda>i. 0x0A000005 + word_of_int (256 * i)), pe_down = (\<lambda>_. False), pe_RP = 0x0A000909,
      pe_localMulticast = (\<lambda>_. False), pe_forwarding = True, pe_mcastForwarding = False\<rparr>"

definition sparse_router :: pim where
  "sparse_router =
     \<lparr>pi_now = 0, pi_next = 0, pi_timers = [], pi_routes = [], pi_nbrs = [\<lparr>nb_id = 0, nb_intId = 1, nb_addr = 0x0A000102, nb_ver = 2, nb_nlt = None\<rparr>], pi_nbrId = 1,
      pi_ints = map (\<lambda>i. \<lparr>pn_id = i, pn_mode = Sparse, pn_mcast = [], pn_SR = False\<rparr>) [1, 2], pi_out = []\<rparr>"

theorem pim_first_hop_registers_witness:
  "\<exists>s' r. routeMulticastPacket sparse_env 0x0A000001 0xE2010101 1 sparse_router = Some s' \<and> getRouteFor 0xE2010101 0x0A000001 s' = Some r \<and>
     pi_out s' = [register_to sparse_env 0x0A000001 0xE2010101 2]"
proof -
  have h: "getInterfaceByIntID 1 sparse_router = Some \<lparr>pn_id = 1, pn_mode = Sparse, pn_mcast = [], pn_SR = False\<rparr>"
    "pe_interface sparse_env 0x0A000001 = Some 1" "pe_interface sparse_env (pe_RP sparse_env) = Some 2" "pe_RP sparse_env \<noteq> 0"
    "ip_isMulticast 0xE2010101" "\<not> ip_isLinkLocalMulticast 0xE2010101" "\<not> pe_localMulticast sparse_env 0xE2010101" "pe_forwarding sparse_env"
    "getRouteFor 0xE2010101 0x0A000001 sparse_router = None" "getRouteFor 0xE2010101 0 sparse_router = None" "pi_out sparse_router = []"
    by code_simp+
  show ?thesis using pim_first_hop_registers [OF h(1) _ h(2-4) _ h(5-10)] h(11) by auto
qed

text \<open>A register-stop packet closes the tunnel of the source it names: before it every datagram that is handed to
  the tunnel leaves in a register packet, after it none does.\<close>

theorem pim_register_stop_closes_tunnel:
  assumes "getRouteFor grp src s = Some r" and "getRouteFor grp 0 s = Some g" and "src \<noteq> 0" and "pe_interface env (pe_RP env) = Some j"
    and "getRegStatus j r = Some Reg_Join" and "\<forall>t. mr_kat r = Some t \<or> mr_kat g = Some t \<longrightarrow> timer_at t s \<noteq> None"
    and "distinct (map mr_id (pi_routes s))"
  shows "(\<exists>s'. sendPIMRegister env grp src s = Some s' \<and> pi_out s' = pi_out s @ [register_to env src grp j]) \<and>
    (\<exists>s1 s2. processRegisterStopPacket env src grp s = Some s1 \<and> sendPIMRegister env grp src s1 = Some s2 \<and> pi_out s2 = pi_out s)"
proof
  have live: "\<forall>t. mr_kat r = Some t \<or> mr_kat g = Some t \<longrightarrow> timer_map s t \<noteq> None" using assms(6) by (simp add: timer_map_None)
  show "\<exists>s'. sendPIMRegister env grp src s = Some s' \<and> pi_out s' = pi_out s @ [register_to env src grp j]"
    using sendPIMRegister_runs [OF assms(1,2,4,5) live] by auto
  have "0 \<le> RST - REGISTER_PROBE_TIME" by (simp add: sec_def)
  from new_timer_live [OF this] obtain s0 where s0: "createRegisterStopTimer src grp s = Some (Some (pi_next s), s0)"
      "same_rest (s\<lparr>pi_next := pi_next s + 1\<rparr>) s0" "\<forall>t. timer_map s t \<noteq> None \<longrightarrow> timer_map s0 t \<noteq> None"
    unfolding createRegisterStopTimer_def by blast
  have get0: "getRouteFor grp a s0 = getRouteFor grp a s" for a using s0(2) by (simp add: same_rest_def getRouteFor_def)
  let ?r = "r\<lparr>mr_rst := Some (pi_next s)\<rparr>"
  let ?r1 = "setRegStatus j Reg_Prune ?r" and ?s1 = "put_mroute (setRegStatus j Reg_Prune ?r) s0"
  have st: "getRegStatus j ?r = getRegStatus j r" by (simp add: getRegStatus_def getOutIntByIntId_def getOutIdByIntId_def)
  have run: "processRegisterStopPacket env src grp s = Some ?s1"
    using s0(1) assms(1,4,5) by (simp add: processRegisterStopPacket_def get0 st Let_def)
  have st1: "getRegStatus j ?r1 = Some Reg_Prune"
    using assms(5) by (auto simp: getRegStatus_find setRegStatus_def find_update_first split: bind_splits)
  have rs: "r \<in> set (pi_routes s)" "mr_group r = grp" "mr_origin r = src" using getRouteFor_Some [OF assms(1)] by auto
  have get1: "getRouteFor grp src ?s1 = Some ?r1" "getRouteFor grp 0 ?s1 = Some g"
    using getRouteFor_put [of s0 grp src r ?r1] assms(1-3,7) s0(2) by (auto simp: get0 setRegStatus_def same_rest_def)
  have k: "\<forall>t. mr_kat ?r1 = Some t \<or> mr_kat g = Some t \<longrightarrow> timer_map ?s1 t \<noteq> None"
    using live s0(3) by (simp add: setRegStatus_def put_mroute_def modify_mroute_def)
  have "pi_out ?s1 = pi_out s" using s0(2) by (simp add: same_rest_def put_mroute_def modify_mroute_def)
  then show "\<exists>s1 s2. processRegisterStopPacket env src grp s = Some s1 \<and> sendPIMRegister env grp src s1 = Some s2 \<and> pi_out s2 = pi_out s"
    using run sendPIMRegister_runs [OF get1 assms(4) st1 k] by auto
qed

text \<open>The first-hop router after the first datagram.\<close>

definition sparse_source :: pim where
  "sparse_source = the (routeMulticastPacket sparse_env 0x0A000001 0xE2010101 1 sparse_router)"

theorem pim_register_stop_closes_tunnel_witness:
  "\<exists>s1 s2. processRegisterStopPacket sparse_env 0x0A000001 0xE2010101 sparse_source = Some s1 \<and>
     sendPIMRegister sparse_env 0xE2010101 0x0A000001 s1 = Some s2 \<and> pi_out s2 = pi_out sparse_source"
proof -
  have f: "map_option (\<lambda>r. (mr_kat r, getRegStatus 2 r)) (getRouteFor 0xE2010101 0x0A000001 sparse_source) = Some (Some 2, Some Reg_Join)"
    "map_option mr_kat (getRouteFor 0xE2010101 0 sparse_source) = Some (Some 3)" "pe_interface sparse_env (pe_RP sparse_env) = Some 2"
    "timer_at 2 sparse_source \<noteq> None" "timer_at 3 sparse_source \<noteq> None" "distinct (map mr_id (pi_routes sparse_source))"
    unfolding sparse_source_def by code_simp+
  then obtain r g where rg: "getRouteFor 0xE2010101 0x0A000001 sparse_source = Some r" "getRouteFor 0xE2010101 0 sparse_source = Some g"
      "mr_kat r = Some 2" "mr_kat g = Some 3" "getRegStatus 2 r = Some Reg_Join"
    by auto
  then have "\<forall>t. mr_kat r = Some t \<or> mr_kat g = Some t \<longrightarrow> timer_at t sparse_source \<noteq> None" using f(4,5) by auto
  from pim_register_stop_closes_tunnel [OF rg(1,2) _ f(3) rg(5) this f(6)] show ?thesis by simp
qed

section \<open>The rendezvous point\<close>

lemma keep_alive_timer:
  assumes "fresh s" and "grp \<noteq> 0"
  shows "\<exists>s'. createKeepAliveTimer src grp s = Some (Some (pi_next s), s') \<and> same_rest (s\<lparr>pi_next := pi_next s + 1\<rparr>) s' \<and> fresh s' \<and>
    timer_map s' = (timer_map s)(pi_next s \<mapsto> (Keep_Alive src grp, Some (pi_now s + KAT)))"
proof -
  have "0 \<le> KAT" by (simp add: sec_def)
  from run_new_timer [OF fresh_None [OF assms(1)] this, of "Keep_Alive src grp"] obtain s' where
    "createKeepAliveTimer src grp s = Some (Some (pi_next s), s')" "same_rest (s\<lparr>pi_next := pi_next s + 1\<rparr>) s'"
    "timer_map s' = (timer_map s)(pi_next s \<mapsto> (Keep_Alive src grp, Some (pi_now s + KAT)))"
    using assms(2) by (auto simp: run_ok_ex createKeepAliveTimer_def)
  moreover then have "fresh s'" using assms(1) by (auto simp: fresh_def same_rest_def intro: less_SucI)
  ultimately show ?thesis by blast
qed

text \<open>The two steps of a register: each makes a pruned route without outgoing interfaces and its keep-alive timer.\<close>

lemma register_shared_new:
  assumes "fresh s" and "ip_isMulticast grp" and "pe_RP env \<noteq> 0" and "getRouteFor grp 0 s = None"
  shows "\<exists>s' g t. register_shared env grp s = Some s' \<and> pi_routes s' = pi_routes s @ [g] \<and> mr_group g = grp \<and> mr_origin g = 0 \<and> mr_kat g = Some t \<and>
    isFlagSet FLAG_P g \<and> mr_outInt g = [] \<and> fresh s' \<and> pi_now s' = pi_now s \<and> pi_nbrs s' = pi_nbrs s \<and> pi_out s' = pi_out s \<and>
    timer_map s' t = Some (Keep_Alive 0 grp, Some (pi_now s + KAT))"
proof -
  have n: "grp \<noteq> 0" using assms(2) by (auto simp: ip_isMulticast_def)
  have "fresh (s\<lparr>pi_next := pi_next s + 1\<rparr>)" using assms(1) by (auto simp: fresh_def intro: less_SucI)
  from keep_alive_timer [OF this n, of 0] obtain s1 where s1: "createKeepAliveTimer 0 grp (s\<lparr>pi_next := pi_next s + 1\<rparr>) = Some (Some (Suc (pi_next s)), s1)"
      "same_rest (s\<lparr>pi_next := pi_next s + 1 + 1\<rparr>) s1" "fresh s1" "timer_map s1 (Suc (pi_next s)) = Some (Keep_Alive 0 grp, Some (pi_now s + KAT))"
    by auto
  then show ?thesis
    using assms(2-4) n by (auto simp: register_shared_def alloc_mroute_def Let_def addMulticastRoute_def new_mroute_def addFlag_def isFlagSet_def same_rest_def fresh_def)
qed

lemma register_source_new:
  assumes "fresh s" and "ip_isMulticast grp" and "src \<noteq> 0" and "getRouteFor grp src s = None" and "pe_interface env src = Some i" and "getNeighborByIntID i s = Some nbr"
  shows "\<exists>s' r t. register_source env src grp s = Some s' \<and> pi_routes s' = pi_routes s @ [r] \<and> mr_group r = grp \<and> mr_origin r = src \<and> mr_kat r = Some t \<and>
    mr_inInt r = Some \<lparr>ii_id = i, ii_nextHop = nb_addr nbr\<rparr> \<and> isFlagSet FLAG_P r \<and> mr_outInt r = [] \<and> pi_now s' = pi_now s \<and> pi_out s' = pi_out s \<and>
    timer_map s' t = Some (Keep_Alive src grp, Some (pi_now s + KAT)) \<and> (\<forall>u. timer_map s u \<noteq> None \<longrightarrow> u \<noteq> t \<and> timer_map s' u = timer_map s u)"
proof -
  have n: "grp \<noteq> 0" using assms(2) by (auto simp: ip_isMulticast_def)
  let ?s = "s\<lparr>pi_next := pi_next s + 1\<rparr>"
  have f: "fresh ?s" using assms(1) by (auto simp: fresh_def intro: less_SucI)
  from keep_alive_timer [OF this n, of src] obtain s1 where s1: "createKeepAliveTimer src grp ?s = Some (Some (Suc (pi_next s)), s1)"
      "same_rest (s\<lparr>pi_next := pi_next s + 1 + 1\<rparr>) s1" "timer_map s1 = (timer_map s)(Suc (pi_next s) \<mapsto> (Keep_Alive src grp, Some (pi_now s + KAT)))"
    by auto
  have "u \<noteq> Suc (pi_next s)" if "timer_map s u \<noteq> None" for u using f that by (auto simp: fresh_def)
  moreover have "getNeighborByIntID i ?s = Some nbr" using assms(6) by (simp add: getNeighborByIntID_def)
  ultimately show ?thesis
    using s1 assms(2-5) n by (auto simp: register_source_def alloc_mroute_def Let_def addMulticastRoute_def new_mroute_def addFlag_def isFlagSet_def same_rest_def)
qed

text \<open>A register packet with the first datagram of a source: the rendezvous point makes the shared tree and the
  source tree, both pruned and without outgoing interfaces, the latter with the neighbour towards the source as
  next hop; it keeps them for 360 and 180 seconds, and answers with a register-stop packet to the router that
  registered the source.\<close>

theorem pim_register_creates_trees:
  assumes "fresh s" and "ip_isMulticast grp" and "src \<noteq> 0" and "pe_RP env \<noteq> 0" and "getRouteFor grp 0 s = None" and "getRouteFor grp src s = None"
    and "pe_interface env src = Some i" and "getNeighborByIntID i s = Some nbr" and "pe_interface env (pm_src m) = Some j"
  shows "\<exists>s' r g tr tg. processRegisterPacket env False src grp m s = Some s' \<and> getRouteFor grp src s' = Some r \<and> getRouteFor grp 0 s' = Some g \<and>
    isFlagSet FLAG_P r \<and> isFlagSet FLAG_P g \<and> mr_outInt r = [] \<and> mr_outInt g = [] \<and> mr_inInt r = Some \<lparr>ii_id = i, ii_nextHop = nb_addr nbr\<rparr> \<and>
    mr_kat r = Some tr \<and> timer_map s' tr = Some (Keep_Alive src grp, Some (pi_now s + sec 180)) \<and>
    mr_kat g = Some tg \<and> timer_map s' tg = Some (Keep_Alive 0 grp, Some (pi_now s + sec 360)) \<and>
    pi_out s' = pi_out s @ [Out_Pim \<lparr>pm_pkt = RegisterStop src grp, pm_src = pm_dest m, pm_dest = pm_src m, pm_intId = j\<rparr>]"
proof -
  obtain s1 g tg where s1: "register_shared env grp s = Some s1" "pi_routes s1 = pi_routes s @ [g]" "mr_group g = grp" "mr_origin g = 0" "mr_kat g = Some tg"
      "isFlagSet FLAG_P g" "mr_outInt g = []" "fresh s1" "pi_now s1 = pi_now s" "pi_nbrs s1 = pi_nbrs s" "pi_out s1 = pi_out s"
      "timer_map s1 tg = Some (Keep_Alive 0 grp, Some (pi_now s + KAT))"
    using register_shared_new [OF assms(1,2,4,5)] by blast
  have n: "getRouteFor grp src s1 = None" "getNeighborByIntID i s1 = Some nbr"
    using assms(3,6,8) s1(2,4,10) by (simp_all add: getRouteFor_def find_append getNeighborByIntID_def)
  obtain s2 r tr where s2: "register_source env src grp s1 = Some s2" "pi_routes s2 = pi_routes s1 @ [r]" "mr_group r = grp" "mr_origin r = src" "mr_kat r = Some tr"
      "mr_inInt r = Some \<lparr>ii_id = i, ii_nextHop = nb_addr nbr\<rparr>" "isFlagSet FLAG_P r" "mr_outInt r = []" "pi_now s2 = pi_now s1" "pi_out s2 = pi_out s1"
      "timer_map s2 tr = Some (Keep_Alive src grp, Some (pi_now s1 + KAT))" "\<forall>u. timer_map s1 u \<noteq> None \<longrightarrow> u \<noteq> tr \<and> timer_map s2 u = timer_map s1 u"
    using register_source_new [OF s1(8) assms(2,3) n(1) assms(7) n(2)] by blast
  have get: "getRouteFor grp src s2 = Some r" "getRouteFor grp 0 s2 = Some g"
    using assms(3,5,6) s1(2-4) s2(2-4) by (simp_all add: getRouteFor_def find_append)
  have tg: "tg \<noteq> tr" "timer_map s2 tg = Some (Keep_Alive 0 grp, Some (pi_now s + KAT))" using s1(12) s2(12) by auto
  have d: "0 \<le> KAT" "0 \<le> 2 * KAT" by (simp_all add: sec_def)
  obtain s3 where s3: "restart_if_set (Some tr) KAT s2 = Some s3" "same_rest s2 s3" "timer_map s3 = (timer_map s2)(tr \<mapsto> (Keep_Alive src grp, Some (pi_now s + KAT)))"
    using restart_live [OF _ d(1), of s2 tr] s2(9,11) s1(9) by auto
  have T3: "timer_map s3 tg = Some (Keep_Alive 0 grp, Some (pi_now s + KAT))" using s3(3) tg by simp
  obtain s4 where s4: "restart_if_set (Some tg) (2 * KAT) s3 = Some s4" "same_rest s3 s4" "timer_map s4 = (timer_map s3)(tg \<mapsto> (Keep_Alive 0 grp, Some (pi_now s + 2 * KAT)))"
    using restart_live [OF _ d(2), of s3 tg] T3 s3(2) s2(9) s1(9) by (auto simp: same_rest_def)
  let ?s5 = "send_pim (RegisterStop src grp) (pm_dest m) (pm_src m) j s4"
  have g3: "getRouteFor grp 0 s3 = Some g" using get(2) same_rest_get [OF s3(2)] by simp
  have run: "processRegisterPacket env False src grp m s = Some ?s5"
    using s1(1) s2(1) get(1) s3(1) g3 s4(1) s1(5) s2(5) assms(9) by (simp add: processRegisterPacket_def sendPIMRegisterStop_def)
  have "timer_map ?s5 = timer_map s4" "pi_out ?s5 = pi_out s @ [Out_Pim \<lparr>pm_pkt = RegisterStop src grp, pm_src = pm_dest m, pm_dest = pm_src m, pm_intId = j\<rparr>]"
      "getRouteFor grp a ?s5 = getRouteFor grp a s2" for a
    using s1(11) s2(10) s3(2) s4(2) by (simp_all add: send_pim_def same_rest_def getRouteFor_def)
  then show ?thesis
    using run get s1(5-7) s2(5-8) s3(3) s4(3) tg(1)
    by (intro exI [of _ ?s5] exI [of _ r] exI [of _ g] exI [of _ tr] exI [of _ tg]) (simp add: sec_def)
qed

theorem pim_register_creates_trees_witness:
  "\<exists>s' r. processRegisterPacket sparse_env False 0x0A000001 0xE2010101 \<lparr>pm_pkt = Other_Pim, pm_src = 0x0A000105, pm_dest = 0x0A000909, pm_intId = 2\<rparr> sparse_router = Some s' \<and>
     getRouteFor 0xE2010101 0x0A000001 s' = Some r \<and> isFlagSet FLAG_P r"
proof -
  have h: "ip_isMulticast 0xE2010101" "pe_RP sparse_env \<noteq> 0" "getRouteFor 0xE2010101 0 sparse_router = None" "getRouteFor 0xE2010101 0x0A000001 sparse_router = None"
    "pe_interface sparse_env 0x0A000001 = Some 1" "getNeighborByIntID 1 sparse_router = Some \<lparr>nb_id = 0, nb_intId = 1, nb_addr = 0x0A000102, nb_ver = 2, nb_nlt = None\<rparr>"
    "pe_interface sparse_env 0x0A000105 = Some 2"
    by code_simp+
  have "fresh sparse_router" by (simp add: fresh_def timer_map_def timer_at_def sparse_router_def)
  from pim_register_creates_trees [OF this h(1) _ h(2-6), of "\<lparr>pm_pkt = Other_Pim, pm_src = 0x0A000105, pm_dest = 0x0A000909, pm_intId = 2\<rparr>" 2] h(7)
  show ?thesis by auto
qed

end
