(* ===== verification/Isis_Types.thy ===== *)
theory Isis_Types
  imports Ansa_Prelude
begin

text \<open>
  The state of the IS-IS module, \<open>src/src/ansa/networklayer/isis/ISIS.h\<close> and \<open>ISIStypes.h\<close>, the messages of
  \<open>ISISMessage.msg\<close>, and the lookups in the tables of \<open>ISIS.cc\<close> that all its parts share. Byte arrays are lists:
  a system id has 6 bytes, a LAN id 7 (the pseudonode number last), an LSP id 8 (the fragment number last).
  The fields the code keeps twice, once for each level, are functions of the level. An LSP record is an object
  the database and the flag queues point to; it is known by its number.
\<close>

section \<open>Identifiers\<close>

type_synonym isis_id = "u8 list"

text \<open>\<open>compareArrays(a, b, n)\<close> for arrays of at least \<open>n\<close> bytes.\<close>

definition compareArrays :: "u8 list \<Rightarrow> u8 list \<Rightarrow> nat \<Rightarrow> bool" where
  "compareArrays a b n = (take n a = take n b)"

text \<open>\<open>copyArrayContent\<close> into a new array of that size: \<open>n\<close> bytes from \<open>start\<close>.\<close>

definition copy_bytes :: "u8 list \<Rightarrow> nat \<Rightarrow> nat \<Rightarrow> u8 list" where
  "copy_bytes src n start = take n (drop start src)"

text \<open>\<open>memcmp\<close>: the first byte that differs decides.\<close>

fun bytes_less :: "u8 list \<Rightarrow> u8 list \<Rightarrow> bool" where
  "bytes_less (a # as) (b # bs) = (a < b \<or> a = b \<and> bytes_less as bs)"
| "bytes_less _ _ = False"

lemma compareArrays_full: "length a = n \<Longrightarrow> length b = n \<Longrightarrow> compareArrays a b n \<longleftrightarrow> a = b"
  by (simp add: compareArrays_def)

lemma compareArrays_refl [simp]: "compareArrays a a n"
  by (simp add: compareArrays_def)

lemma length_copy_bytes [simp]: "length (copy_bytes src n start) = min n (length src - start)"
  by (simp add: copy_bytes_def)

section \<open>Messages\<close>

datatype level = L1_TYPE | L2_TYPE

datatype circuit = RESERVED_TYPE | Only level | L1L2_TYPE

fun on_level :: "circuit \<Rightarrow> level \<Rightarrow> bool" where
  "on_level RESERVED_TYPE l = False"
| "on_level (Only m) l = (l = m)"
| "on_level L1L2_TYPE l = True"

record tlv =
  tlv_type :: u8
  tlv_length :: u8
  tlv_value :: "u8 list"

definition IS_NEIGHBOURS_HELLO :: u8 where "IS_NEIGHBOURS_HELLO = 6"
definition PTP_HELLO_STATE :: u8 where "PTP_HELLO_STATE = 240"
definition AREA_ADDRESS :: u8 where "AREA_ADDRESS = 1"
definition IS_NEIGHBOURS_LSP :: u8 where "IS_NEIGHBOURS_LSP = 2"
definition LSP_ENTRIES :: u8 where "LSP_ENTRIES = 9"

record lsp_packet =
  lp_remLifeTime :: u16
  lp_lspID :: isis_id
  lp_seqNumber :: u64
  lp_PATTLSPDBOLIS :: u8
  lp_TLV :: "tlv list"

text \<open>The \<open>offset\<close>-th TLV of a type, counting from 0. The loops over all of them ask for 0, 1, \<dots> until there is none.\<close>

fun getTLVByType :: "tlv list \<Rightarrow> u8 \<Rightarrow> nat \<Rightarrow> tlv option" where
  "getTLVByType [] ty offset = None"
| "getTLVByType (t # ts) ty offset =
     (if tlv_type t = ty then (case offset of 0 \<Rightarrow> Some t | Suc k \<Rightarrow> getTLVByType ts ty k) else getTLVByType ts ty offset)"

function tlvs_from :: "tlv list \<Rightarrow> u8 \<Rightarrow> nat \<Rightarrow> tlv list" where
  "tlvs_from ts ty offset = (case getTLVByType ts ty offset of None \<Rightarrow> [] | Some t \<Rightarrow> t # tlvs_from ts ty (Suc offset))"
  by pat_completeness auto

lemma getTLVByType_eq: "getTLVByType ts ty k = vec_at (filter (\<lambda>t. tlv_type t = ty) ts) k"
  by (induction ts arbitrary: k) (auto simp: vec_at_def nth_Cons' split: nat.split)

lemma getTLVByType_less: "getTLVByType ts ty k = Some t \<Longrightarrow> k < length ts"
  by (auto simp: getTLVByType_eq vec_at_def split: if_splits) (meson length_filter_le order.strict_trans2)

termination tlvs_from
  by (relation "measure (\<lambda>(ts, ty, k). length ts - k)") (auto dest: getTLVByType_less)

declare tlvs_from.simps [simp del]

lemma tlvs_from_eq: "tlvs_from ts ty k = drop k (filter (\<lambda>t. tlv_type t = ty) ts)"
proof (induction ts ty k rule: tlvs_from.induct)
  case (1 ts ty k)
  then show ?case
    by (subst tlvs_from.simps) (auto simp: getTLVByType_eq vec_at_def Cons_nth_drop_Suc split: option.split)
qed

lemma tlvs_from_0: "tlvs_from ts ty 0 = filter (\<lambda>t. tlv_type t = ty) ts"
  by (simp add: tlvs_from_eq)

text \<open>Hello messages; \<open>lh_level\<close> is the type of a LAN hello.\<close>

record lan_hello =
  lh_level :: level
  lh_sourceID :: isis_id
  lh_holdTime :: u16
  lh_priority :: u8
  lh_lanID :: isis_id
  lh_TLV :: "tlv list"

record ptp_hello =
  ph_circuitType :: circuit
  ph_sourceID :: isis_id
  ph_holdTime :: u16
  ph_TLV :: "tlv list"

section \<open>Tables\<close>

text \<open>Interfaces and adjacencies. \<open>ii_DIS\<close> stands for \<open>L1DIS\<close> and \<open>L2DIS\<close>, and so do the other fields kept for each
  level; \<open>ii_entry\<close> is the id of the \<open>InterfaceEntry\<close> and \<open>ii_mac\<close> its MAC address. \<open>nbr_timer\<close> is the timer of a
  neighbour, with the time it is due; its LSP id and area id are zero where the code does not set them.\<close>

record isis_if =
  ii_gateIndex :: nat
  ii_network :: bool
  ii_circuitType :: circuit
  ii_priority :: u8
  ii_DIS :: "level \<Rightarrow> isis_id"
  ii_metric :: u8
  ii_entry :: nat
  ii_mac :: mac_addr
  ii_DISpriority :: "level \<Rightarrow> u8"
  ii_enabled :: bool
  ii_passive :: bool
  ii_HelloInterval :: "level \<Rightarrow> int"
  ii_HelloMultiplier :: "level \<Rightarrow> int"

record nbr_timer =
  nt_level :: level
  nt_interfaceIndex :: nat
  nt_gateIndex :: nat
  nt_sysID :: isis_id
  nt_LSPid :: isis_id
  nt_areaID :: "u8 list"

record isis_adj =
  ad_sysID :: isis_id
  ad_areaID :: "u8 list"
  ad_mac :: mac_addr
  ad_state :: bool
  ad_gateIndex :: nat
  ad_timer :: nbr_timer
  ad_due :: simtime

text \<open>\<open>LSPRecord\<close> with its dead timer, whose kind says whether the LSP was purged, and when it is due.\<close>

datatype lsp_timer_kind = LSP_DEAD | LSP_DELETE

record lsp_record =
  lr_LSP :: lsp_packet
  lr_kind :: lsp_timer_kind
  lr_due :: simtime
  lr_SRMflags :: "bool list"
  lr_SSNflags :: "bool list"
  lr_simLifetime :: simtime

record flag_record =
  fr_lspRec :: nat
  fr_index :: nat

section \<open>The shortest path computation's data\<close>

text \<open>\<open>InterfaceEntry *\<close>. The constructor of \<open>ISISNeighbour\<close> without arguments sets no member: \<open>Garbage\<close>.\<close>

datatype entry_ptr = NULL | Entry nat | Garbage

record isis_nbr =
  nb_id :: isis_id
  nb_entry :: entry_ptr

record isis_path =
  sp_to :: isis_id
  sp_metric :: nat
  sp_from :: "isis_nbr list"

record isis_con =
  cn_from :: isis_id
  cn_to :: isis_id
  cn_metric :: nat
  cn_entry :: entry_ptr

record clns_route =
  cr_destPrefix :: isis_id
  cr_metric :: nat
  cr_nextHop :: "isis_nbr list"

section \<open>The module\<close>

datatype isis_out = Send_LSP lsp_packet nat | Send_CSNP level "tlv list" isis_id isis_id nat | Send_PSNP level "tlv list" nat
  | Send_LAN_Hello lan_hello nat | Send_PTP_Hello ptp_hello nat

record isis =
  is_areaId :: "u8 list"
  is_sysId :: isis_id
  is_isType :: circuit
  is_ISISIft :: "isis_if list"
  is_adjTable :: "level \<Rightarrow> isis_adj list"
  is_heap :: "nat \<Rightarrow> lsp_record"
  is_next :: nat
  is_LSPDb :: "level \<Rightarrow> nat list"
  is_SRMBQueue :: "level \<Rightarrow> flag_record list list"
  is_SRMPTPQueue :: "level \<Rightarrow> flag_record list list"
  is_SSNBQueue :: "level \<Rightarrow> flag_record list list"
  is_SSNPTPQueue :: "level \<Rightarrow> flag_record list list"
  is_ISISPathsISO :: "level \<Rightarrow> isis_path list option"
  is_att :: bool
  is_attIS :: "isis_nbr list option"
  is_lspMaxLifetime :: u16
  is_clns :: "clns_route list"
  is_out :: "isis_out list"

definition rec_lsp :: "isis \<Rightarrow> nat \<Rightarrow> lsp_packet" where
  "rec_lsp s p = lr_LSP (is_heap s p)"

definition getLSPFromDbByID :: "isis_id \<Rightarrow> level \<Rightarrow> isis \<Rightarrow> nat option" where
  "getLSPFromDbByID lspId l s = find (\<lambda>p. compareArrays (lp_lspID (rec_lsp s p)) lspId 8) (is_LSPDb s l)"

definition getLSPID :: "isis \<Rightarrow> isis_id" where
  "getLSPID s = take 6 (is_sysId s) @ [0, 0]"

definition isis_getAdjBySystemID :: "isis_id \<Rightarrow> level \<Rightarrow> isis \<Rightarrow> isis_adj option" where
  "isis_getAdjBySystemID sysId l s = find (\<lambda>a. compareArrays sysId (ad_sysID a) 6) (is_adjTable s l)"

definition getIfaceByGateIndex :: "nat \<Rightarrow> isis \<Rightarrow> isis_if option" where
  "getIfaceByGateIndex g s = find (\<lambda>i. ii_gateIndex i = g) (is_ISISIft s)"

text \<open>\<open>getIfaceIndex(getIfaceByGateIndex(g))\<close>: 0 when there is no such interface.\<close>

definition getIfaceIndex :: "nat \<Rightarrow> isis \<Rightarrow> nat" where
  "getIfaceIndex g s =
     (if \<exists>i\<in>set (is_ISISIft s). ii_gateIndex i = g then index_first (\<lambda>i. ii_gateIndex i = g) (is_ISISIft s) else 0)"

text \<open>The \<open>offset\<close>-th adjacency of an interface, counting from 0.\<close>

definition getAdjByGateIndex :: "nat \<Rightarrow> level \<Rightarrow> nat \<Rightarrow> isis \<Rightarrow> isis_adj option" where
  "getAdjByGateIndex g l offset s = vec_at (filter (\<lambda>a. ad_gateIndex a = g) (is_adjTable s l)) offset"

definition isUp :: "nat \<Rightarrow> level \<Rightarrow> isis \<Rightarrow> bool" where
  "isUp g l s = (\<exists>a\<in>set (is_adjTable s l). ad_gateIndex a = g \<and> ad_state a)"

definition isAdjUp :: "level \<Rightarrow> isis \<Rightarrow> bool" where
  "isAdjUp l s = (\<exists>a\<in>set (is_adjTable s l). ad_state a)"

text \<open>\<open>isAdjUp\<close> for a message: the source of a sequence number packet must match, that of an LSP need not.\<close>

definition isAdjUp_msg :: "bool \<Rightarrow> isis_id \<Rightarrow> mac_addr \<Rightarrow> nat \<Rightarrow> level \<Rightarrow> isis \<Rightarrow> bool" where
  "isAdjUp_msg is_lsp sysId mac g l s =
     (\<exists>a\<in>set (is_adjTable s l). (compareArrays sysId (ad_sysID a) 6 \<or> is_lsp) \<and> mac = ad_mac a \<and> g = ad_gateIndex a \<and> ad_state a)"

definition amIDIS :: "nat \<Rightarrow> level \<Rightarrow> isis \<Rightarrow> bool option" where
  "amIDIS i l s = do { f \<leftarrow> vec_at (is_ISISIft s) i; Some (ii_network f \<and> compareArrays (is_sysId s) (ii_DIS f l) 6) }"

end
