(* ===== verification/Isis_Spf.thy ===== *)
theory Isis_Spf
  imports Isis_Types
begin

text \<open>
  The shortest path computation of \<open>src/src/ansa/networklayer/isis/ISIS.cc\<close>, \<open>fullSPF\<close> and what it calls: the
  connections are read from the LSP database and checked both ways, the best path is moved from TENT to PATHS
  until TENT is empty, and the paths go to the table of \<open>src/src/ansa/networklayer/clns/CLNSTable.cc\<close>.
  \<open>std::sort\<close> is the argument \<open>srt\<close>.
\<close>

section \<open>The connections\<close>

text \<open>The offsets \<open>i\<close>, \<open>i + 11\<close>, \<dots> of the entries of a TLV of length \<open>n\<close>.\<close>

function con_offsets :: "nat \<Rightarrow> nat \<Rightarrow> nat list" where
  "con_offsets i n = (if i + 11 \<le> n then i # con_offsets (i + 11) n else [])"
  by pat_completeness auto
termination by (relation "measure (\<lambda>(i, n). n - i)") auto

declare con_offsets.simps [simp del]

definition iface_entry :: "isis \<Rightarrow> nat \<Rightarrow> entry_ptr option" where
  "iface_entry s i = map_option (\<lambda>f. Entry (ii_entry f)) (vec_at (is_ISISIft s) i)"

definition gate_entry :: "isis \<Rightarrow> nat \<Rightarrow> entry_ptr option" where
  "gate_entry s g = map_option (\<lambda>f. Entry (ii_entry f)) (getIfaceByGateIndex g s)"

text \<open>The interface of a connection of an LSP of this system. The adjacency's pointer is not checked.\<close>

definition con_entry :: "isis_id \<Rightarrow> isis_id \<Rightarrow> level \<Rightarrow> isis \<Rightarrow> entry_ptr option" where
  "con_entry lspId to l s =
     (if compareArrays lspId (is_sysId s) 6 then
        if to ! 6 \<noteq> 0 then iface_entry s (unat (to ! 6) - 1)
        else if lspId ! 6 \<noteq> 0 then iface_entry s (unat (lspId ! 6) - 1)
        else do { a \<leftarrow> isis_getAdjBySystemID to l s; gate_entry s (ad_gateIndex a) }
      else Some NULL)"

definition extract_con :: "isis_id \<Rightarrow> level \<Rightarrow> isis \<Rightarrow> u8 list \<Rightarrow> nat \<Rightarrow> isis_con option" where
  "extract_con lspId l s v i =
     do {
       let to = copy_bytes v 7 (i + 4) @ [0];
       e \<leftarrow> con_entry lspId to l s;
       Some \<lparr>cn_from = take 7 lspId @ [0], cn_to = to, cn_metric = unat (v ! i), cn_entry = e\<rparr>
     }"

definition extract_tlv :: "isis_id \<Rightarrow> level \<Rightarrow> isis \<Rightarrow> tlv \<Rightarrow> isis_con list option" where
  "extract_tlv lspId l s t = those (map (extract_con lspId l s (tlv_value t)) (con_offsets 1 (unat (tlv_length t))))"

text \<open>A fragment other than the first adds no connection, whether the first is there or not.\<close>

definition extract_lsp :: "level \<Rightarrow> isis \<Rightarrow> lsp_packet \<Rightarrow> isis_con list option" where
  "extract_lsp l s p =
     (if lp_remLifeTime p = 0 \<or> lp_seqNumber p = 0 \<or> lp_lspID p ! 7 \<noteq> 0 then Some []
      else map_option concat (those (map (extract_tlv (lp_lspID p) l s) (tlvs_from (lp_TLV p) IS_NEIGHBOURS_LSP 0))))"

definition isCon :: "isis_con list \<Rightarrow> isis_id \<Rightarrow> isis_id \<Rightarrow> bool" where
  "isCon cs from to = (\<exists>c\<in>set cs. compareArrays (cn_from c) from 8 \<and> compareArrays (cn_to c) to 8)"

text \<open>\<open>twoWayCheck\<close> erases in place: \<open>kept\<close> is what the iterator has passed.\<close>

fun two_way :: "isis_con list \<Rightarrow> isis_con list \<Rightarrow> isis_con list" where
  "two_way kept [] = kept"
| "two_way kept (c # cs) = (if isCon (kept @ c # cs) (cn_to c) (cn_from c) then two_way (kept @ [c]) cs else two_way kept cs)"

definition twoWayCheck :: "isis_con list \<Rightarrow> isis_con list" where
  "twoWayCheck cs = two_way [] cs"

definition extractISO :: "level \<Rightarrow> isis \<Rightarrow> isis_con list option" where
  "extractISO l s =
     map_option (\<lambda>css. twoWayCheck (concat css)) (those (map (extract_lsp l s \<circ> rec_lsp s) (is_LSPDb s l)))"

section \<open>TENT and PATHS\<close>

text \<open>The comparison \<open>ISISPath::operator()\<close>: the metric, then pseudonodes first.\<close>

definition path_less :: "isis_path \<Rightarrow> isis_path \<Rightarrow> bool" where
  "path_less p q = (sp_metric p < sp_metric q \<or> sp_metric p = sp_metric q \<and> sp_to p ! 6 > sp_to q ! 6)"

text \<open>Metrics are \<open>uint32_t\<close>.\<close>

definition add32 :: "nat \<Rightarrow> nat \<Rightarrow> nat" where
  "add32 a b = (a + b) mod 2 ^ 32"

definition is_path_to :: "isis_id \<Rightarrow> isis_path \<Rightarrow> bool" where
  "is_path_to v p = compareArrays (sp_to p) v 8"

definition same_nbr :: "isis_nbr \<Rightarrow> isis_nbr \<Rightarrow> bool" where
  "same_nbr m n = (compareArrays (nb_id m) (nb_id n) 8 \<and> nb_entry m = nb_entry n)"

fun add_missing :: "isis_nbr list \<Rightarrow> isis_nbr list \<Rightarrow> isis_nbr list" where
  "add_missing [] d = d"
| "add_missing (n # ns) d = add_missing ns (if \<exists>m\<in>set d. same_nbr m n then d else d @ [n])"

text \<open>The next hops of a path \<open>moveToTent\<close> makes; \<open>None\<close> is the failed \<open>ASSERT\<close>.\<close>

definition new_hops :: "isis_id \<Rightarrow> isis_con \<Rightarrow> isis_nbr list \<Rightarrow> isis_nbr list option" where
  "new_hops sysId c from =
     (if compareArrays (cn_from c) sysId 6 \<and> cn_from c ! 6 = 0 then
        if cn_entry c = NULL then None else Some [\<lparr>nb_id = cn_to c, nb_entry = cn_entry c\<rparr>]
      else Some (map (\<lambda>n. if nb_id n ! 6 \<noteq> 0 then n\<lparr>nb_id := cn_to c\<rparr> else n) from))"

text \<open>One connection. The path that is being moved is the first of TENT, read where the code reads it.\<close>

definition better_path :: "nat \<Rightarrow> isis_path \<Rightarrow> isis_path" where
  "better_path m q = q\<lparr>sp_metric := m, sp_from := (if sp_metric q > m then [] else sp_from q)\<rparr>"

definition move_con :: "isis_id \<Rightarrow> nat \<Rightarrow> isis_con \<Rightarrow> isis_path list \<Rightarrow> isis_path list option" where
  "move_con sysId metric c tent =
     (let m = add32 (cn_metric c) metric; j = index_first (is_path_to (cn_to c)) tent in
      if j = length tent then
        do { hs \<leftarrow> new_hops sysId c (sp_from (hd tent)); Some (tent @ [\<lparr>sp_to = cn_to c, sp_metric = m, sp_from = hs\<rparr>]) }
      else if sp_metric (tent ! j) \<ge> m then
        let t1 = tent[j := better_path m (tent ! j)]
        in Some (t1[j := (t1 ! j)\<lparr>sp_from := add_missing (sp_from (hd t1)) (sp_from (t1 ! j))\<rparr>])
      else Some tent)"

fun moveToTent :: "isis_id \<Rightarrow> nat \<Rightarrow> isis_con list \<Rightarrow> isis_path list \<Rightarrow> isis_path list option" where
  "moveToTent sysId metric [] tent = Some tent"
| "moveToTent sysId metric (c # cs) tent = do { t \<leftarrow> move_con sysId metric c tent; moveToTent sysId metric cs t }"

definition getCons :: "isis_con list \<Rightarrow> isis_id \<Rightarrow> isis_con list \<times> isis_con list" where
  "getCons cs from = partition (\<lambda>c. compareArrays (cn_from c) from 8) cs"

definition add_best :: "isis_path \<Rightarrow> isis_path list \<Rightarrow> isis_path list" where
  "add_best p paths =
     (let j = index_first (is_path_to (sp_to p)) paths in
      if j = length paths then paths @ [p]
      else if sp_metric (paths ! j) \<ge> sp_metric p then
        paths[j := (let q = better_path (sp_metric p) (paths ! j) in q\<lparr>sp_from := sp_from q @ sp_from p\<rparr>)]
      else paths)"

type_synonym spf_state = "isis_con list \<times> isis_path list \<times> isis_path list"

definition bestToPath :: "(isis_path list \<Rightarrow> isis_path list) \<Rightarrow> isis_id \<Rightarrow> spf_state \<Rightarrow> spf_state option" where
  "bestToPath srt sysId = (\<lambda>(init, tent, paths).
     do {
       let t = srt tent;
       let (cons, rest) = getCons init (sp_to (hd t));
       t1 \<leftarrow> moveToTent sysId (sp_metric (hd t)) cons t;
       Some (rest, tl t1, add_best (hd t1) paths)
     })"

text \<open>\<open>None\<close>: an assertion fails, or the loop does not end.\<close>

partial_function (option) spf_loop ::
  "(isis_path list \<Rightarrow> isis_path list) \<Rightarrow> isis_id \<Rightarrow> isis_con list \<Rightarrow> isis_path list \<Rightarrow> isis_path list \<Rightarrow> isis_path list option" where
  "spf_loop srt sysId init tent paths =
     (if tent = [] then Some paths
      else Option.bind (bestToPath srt sysId (init, tent, paths)) (\<lambda>(i, t, p). spf_loop srt sysId i t p))"

definition self_path :: "isis_id \<Rightarrow> isis_path" where
  "self_path lspId = \<lparr>sp_to = lspId, sp_metric = 0, sp_from = [\<lparr>nb_id = lspId, nb_entry = Garbage\<rparr>]\<rparr>"

definition spf_paths :: "(isis_path list \<Rightarrow> isis_path list) \<Rightarrow> isis_id \<Rightarrow> isis_con list \<Rightarrow> isis_path list option" where
  "spf_paths srt sysId cons = map_option srt (spf_loop srt sysId cons [self_path (take 6 sysId @ [0, 0])] [])"

section \<open>Areas and the attached systems\<close>

definition add_area :: "isis_path \<Rightarrow> u8 list \<Rightarrow> nat \<Rightarrow> isis_path list \<Rightarrow> isis_path list" where
  "add_area p v i areas =
     (let j = index_first (is_path_to (sp_to p)) areas in
      if j = length areas then
        areas @ [\<lparr>sp_to = copy_bytes v 3 (i + 1) @ replicate 5 0, sp_metric = sp_metric p, sp_from = sp_from p\<rparr>]
      else if sp_metric (areas ! j) \<ge> sp_metric p then
        areas[j := (let q = better_path (sp_metric p) (areas ! j) in q\<lparr>sp_from := sp_from q @ sp_from p\<rparr>)]
      else areas)"

text \<open>The loop's step is \<open>i = +ISIS_AREA_ID + 1\<close>.\<close>

partial_function (option) area_loop :: "isis_path \<Rightarrow> u8 list \<Rightarrow> nat \<Rightarrow> nat \<Rightarrow> isis_path list \<Rightarrow> isis_path list option" where
  "area_loop p v n i areas = (if i + 4 \<le> n then area_loop p v n 4 (add_area p v i areas) else Some areas)"

fun area_tlvs :: "isis_path \<Rightarrow> tlv list \<Rightarrow> isis_path list \<Rightarrow> isis_path list option" where
  "area_tlvs p [] areas = Some areas"
| "area_tlvs p (t # ts) areas = do { a \<leftarrow> area_loop p (tlv_value t) (unat (tlv_length t)) 0 areas; area_tlvs p ts a }"

text \<open>The record is not checked: a path without an LSP of its own, as of a fragment that is missing, is a null pointer.\<close>

fun extractAreas :: "level \<Rightarrow> isis \<Rightarrow> isis_path list \<Rightarrow> isis_path list \<Rightarrow> isis_path list option" where
  "extractAreas l s [] areas = Some areas"
| "extractAreas l s (p # ps) areas =
     do {
       r \<leftarrow> getLSPFromDbByID (sp_to p) l s;
       a \<leftarrow> area_tlvs p (tlvs_from (lp_TLV (rec_lsp s r)) AREA_ADDRESS 0) areas;
       extractAreas l s ps a
     }"

text \<open>\<open>getPATTLSPDBOLIS() && 0x10\<close> is a logical conjunction: every flag counts.\<close>

definition att_step :: "lsp_packet \<Rightarrow> isis_path \<Rightarrow> nat \<times> isis_nbr list \<Rightarrow> nat \<times> isis_nbr list" where
  "att_step p q = (\<lambda>(metric, ns).
     if compareArrays (lp_lspID p) (sp_to q) 6 \<and> sp_metric q \<le> metric
     then (sp_metric q, (if sp_metric q < metric then [] else ns) @ [\<lparr>nb_id = lp_lspID p, nb_entry = NULL\<rparr>])
     else (metric, ns))"

definition closest_att :: "lsp_packet list \<Rightarrow> isis_path list \<Rightarrow> isis_nbr list" where
  "closest_att lsps paths =
     snd (fold (\<lambda>p. fold (att_step p) paths) (filter (\<lambda>p. lp_PATTLSPDBOLIS p \<noteq> 0) lsps) (2 ^ 32 - 1, []))"

definition setClosestAtt :: "isis \<Rightarrow> isis" where
  "setClosestAtt s =
     (case is_ISISPathsISO s L1_TYPE of
        None \<Rightarrow> s
      | Some paths \<Rightarrow> if is_att s then s
          else s\<lparr>is_attIS := Some (closest_att (map (rec_lsp s) (is_LSPDb s L1_TYPE)) paths)\<rparr>)"

section \<open>The routing table\<close>

definition same_route :: "clns_route \<Rightarrow> clns_route \<Rightarrow> bool" where
  "same_route r q = compareArrays (cr_destPrefix r) (cr_destPrefix q) 7"

definition clns_addRecord :: "clns_route \<Rightarrow> clns_route list \<Rightarrow> clns_route list" where
  "clns_addRecord r rs =
     (case find (\<lambda>q. same_route q r) rs of
        None \<Rightarrow> rs @ [r]
      | Some q \<Rightarrow> if cr_metric q > cr_metric r then erase_first (\<lambda>q. same_route q r) rs @ [r] else rs)"

definition clns_dropTable :: "clns_route list \<Rightarrow> clns_route list" where
  "clns_dropTable rs = []"

text \<open>The interface of a next hop: of the last interface whose designated system it is, or of an adjacency.\<close>

definition resolve_nbr :: "level \<Rightarrow> isis \<Rightarrow> isis_nbr \<Rightarrow> isis_nbr option" where
  "resolve_nbr l s n =
     (if nb_id n ! 6 \<noteq> 0 then
        Some (fold (\<lambda>f n. if compareArrays (ii_DIS f l) (nb_id n) 7 then n\<lparr>nb_entry := Entry (ii_entry f)\<rparr> else n) (is_ISISIft s) n)
      else
        (case isis_getAdjBySystemID (nb_id n) l s of
           Some a \<Rightarrow> map_option (\<lambda>e. n\<lparr>nb_entry := e\<rparr>) (gate_entry s (ad_gateIndex a))
         | None \<Rightarrow> Some (n\<lparr>nb_entry := NULL\<rparr>)))"

definition resolve_path :: "level \<Rightarrow> isis \<Rightarrow> isis_path \<Rightarrow> isis_path option" where
  "resolve_path l s p =
     (if sp_to p ! 6 \<noteq> 0 then Some p else map_option (\<lambda>ns. p\<lparr>sp_from := ns\<rparr>) (those (map (resolve_nbr l s) (sp_from p))))"

definition path_route :: "isis_path \<Rightarrow> clns_route" where
  "path_route p = \<lparr>cr_destPrefix = take 7 (sp_to p), cr_metric = sp_metric p, cr_nextHop = sp_from p\<rparr>"

definition spf_routes :: "isis_path list \<Rightarrow> clns_route list \<Rightarrow> clns_route list" where
  "spf_routes ps = fold (clns_addRecord \<circ> path_route) (filter (\<lambda>p. sp_to p ! 6 = 0) ps)"

definition fullSPF :: "(isis_path list \<Rightarrow> isis_path list) \<Rightarrow> level \<Rightarrow> isis \<Rightarrow> isis option" where
  "fullSPF srt l s =
     do {
       cons \<leftarrow> extractISO l s;
       paths \<leftarrow> spf_paths srt (is_sysId s) cons;
       let s1 = s\<lparr>is_ISISPathsISO := (is_ISISPathsISO s)(l := Some paths)\<rparr>;
       _ \<leftarrow> (if l = L2_TYPE then extractAreas l s1 paths [] else Some []);
       let s2 = setClosestAtt s1;
       rpaths \<leftarrow> those (map (resolve_path l s2) paths);
       Some (s2\<lparr>is_ISISPathsISO := (is_ISISPathsISO s2)(l := Some rpaths), is_clns := spf_routes rpaths (is_clns s2)\<rparr>)
     }"

end
