(* ===== verification/Isis_Lsp.thy ===== *)
theory Isis_Lsp
  imports Isis_Spf
begin

text \<open>
  The LSPs of this system, \<open>genLSP\<close> of \<open>src/src/ansa/networklayer/isis/ISIS.cc\<close> in the mode for network layer
  routing: the neighbours of the system and of the pseudonodes it is responsible for are written into TLVs of at
  most 23 entries and the TLVs into LSPs. What it writes is what the shortest path computation of another system
  reads, as long as there is room in one LSP; when there is not, the loop over the fragments does not end.
\<close>

section \<open>TLVs\<close>

definition area_tlv :: "isis \<Rightarrow> tlv" where
  "area_tlv s = \<lparr>tlv_type = AREA_ADDRESS, tlv_length = 4, tlv_value = 3 # copy_bytes (is_areaId s) 3 0\<rparr>"

record lsp_nbr =
  ln_LANid :: "u8 list"
  ln_metric :: u8

text \<open>The neighbours of the system itself: of each interface only the first adjacency is looked at.\<close>

definition own_neighbour :: "level \<Rightarrow> isis \<Rightarrow> isis_if \<Rightarrow> lsp_nbr list" where
  "own_neighbour l s f =
     (case getAdjByGateIndex (ii_gateIndex f) l 0 s of
        None \<Rightarrow> []
      | Some a \<Rightarrow>
          if \<not> ad_state a then []
          else [\<lparr>ln_LANid = (if ii_network f then copy_bytes (ii_DIS f l) 7 0 else copy_bytes (ad_sysID a) 6 0 @ [0]), ln_metric = ii_metric f\<rparr>])"

definition own_neighbours :: "level \<Rightarrow> isis \<Rightarrow> lsp_nbr list" where
  "own_neighbours l s = concat (map (own_neighbour l s) (is_ISISIft s))"

text \<open>The neighbours of the pseudonode of an interface; an index out of range is \<open>None\<close>.\<close>

definition pseudo_neighbours :: "level \<Rightarrow> u8 \<Rightarrow> isis \<Rightarrow> lsp_nbr list option" where
  "pseudo_neighbours l nsel s =
     do {
       f \<leftarrow> vec_at (is_ISISIft s) (unat nsel - 1);
       let up = filter (\<lambda>a. ad_gateIndex a = ii_gateIndex f \<and> ad_state a \<and> ii_network f) (is_adjTable s l);
       Some (map (\<lambda>a. \<lparr>ln_LANid = copy_bytes (ad_sysID a) 6 0 @ [0], ln_metric = 0\<rparr>) up @
         [\<lparr>ln_LANid = copy_bytes (is_sysId s) 6 0 @ [0], ln_metric = 0\<rparr>])
     }"

definition nbr_bytes :: "lsp_nbr \<Rightarrow> u8 list" where
  "nbr_bytes n = [ln_metric n, 128, 128, 128] @ ln_LANid n"

text \<open>The inner loop: what fits into one TLV, and what is left.\<close>

fun fill_tlv :: "nat \<Rightarrow> lsp_nbr list \<Rightarrow> lsp_nbr list \<times> lsp_nbr list" where
  "fill_tlv i [] = ([], [])"
| "fill_tlv i (n # ns) =
     (if (i + 1) * 11 + 1 < 255 \<and> 2 + 1 + 11 * i + 11 < 1492 then (let (a, b) = fill_tlv (i + 1) ns in (n # a, b)) else ([], n # ns))"

definition nbrs_tlv :: "lsp_nbr list \<Rightarrow> tlv" where
  "nbrs_tlv ns = \<lparr>tlv_type = IS_NEIGHBOURS_LSP, tlv_length = of_nat (1 + 11 * length ns), tlv_value = 40 # concat (map nbr_bytes ns)\<rparr>"

lemma fill_tlv_eq: "i \<le> 23 \<Longrightarrow> fill_tlv i ns = (take (23 - i) ns, drop (23 - i) ns)"
proof (induction i ns rule: fill_tlv.induct)
  case (2 i n ns)
  show ?case
  proof (cases "i < 23")
    case True
    then have "23 - i = Suc (23 - (i + 1))" by simp
    then show ?thesis using 2 True by simp
  next
    case False
    then show ?thesis using 2 by simp
  qed
qed simp

function neighbour_tlvs :: "lsp_nbr list \<Rightarrow> tlv list" where
  "neighbour_tlvs ns = (if ns = [] then [] else let (a, b) = fill_tlv 0 ns in nbrs_tlv a # neighbour_tlvs b)"
  by pat_completeness auto
termination by (relation "measure length") (auto simp: fill_tlv_eq)

declare neighbour_tlvs.simps [simp del]

lemma neighbour_tlvs_eq:
  "neighbour_tlvs ns = (if ns = [] then [] else nbrs_tlv (take 23 ns) # neighbour_tlvs (drop 23 ns))"
  by (subst neighbour_tlvs.simps) (simp add: fill_tlv_eq)

lemma neighbour_tlvs_Nil [simp]: "neighbour_tlvs [] = []"
  by (simp add: neighbour_tlvs_eq [of "[]"])

lemma neighbour_tlvs_Cons: "ns \<noteq> [] \<Longrightarrow> neighbour_tlvs ns = nbrs_tlv (take 23 ns) # neighbour_tlvs (drop 23 ns)"
  by (subst neighbour_tlvs_eq) simp

lemma blocks_induct [case_names Nil block]:
  assumes "P []" and "\<And>ns. ns \<noteq> [] \<Longrightarrow> P (drop 23 ns) \<Longrightarrow> P ns"
  shows "P (ns :: lsp_nbr list)"
proof (induction "length ns" arbitrary: ns rule: less_induct)
  case less
  then show ?case using assms by (cases "ns = []") simp_all
qed

section \<open>LSPs\<close>

text \<open>The inner loop over the TLVs; the space left is an \<open>unsigned int\<close>.\<close>

fun put_tlvs :: "u32 \<Rightarrow> tlv list \<Rightarrow> tlv list \<times> u32 \<times> tlv list" where
  "put_tlvs space [] = ([], space, [])"
| "put_tlvs space (t # ts) =
     (if ucast (tlv_length t) > (1492 :: u32) then put_tlvs space ts
      else if ucast (tlv_length t) > space then ([], space, t # ts)
      else (let (used, sp, rest) = put_tlvs (space - (2 + ucast (tlv_length t))) ts in (t # used, sp, rest)))"

definition new_lsp :: "level \<Rightarrow> isis \<Rightarrow> isis_id \<Rightarrow> tlv list \<Rightarrow> lsp_packet" where
  "new_lsp l s lspId ts = \<lparr>lp_remLifeTime = is_lspMaxLifetime s, lp_lspID = lspId, lp_seqNumber = 1,
     lp_PATTLSPDBOLIS = (if l = L1_TYPE then (if is_att s then 0x12 else 0x02) else 0x0A), lp_TLV = ts\<rparr>"

text \<open>The loop over the fragments. The space is not reset for the next one. \<open>None\<close> is a run that does not return.\<close>

partial_function (option) put_lsps :: "level \<Rightarrow> isis \<Rightarrow> u8 list \<Rightarrow> u8 \<Rightarrow> u32 \<Rightarrow> tlv list \<Rightarrow> lsp_packet list option" where
  "put_lsps l s lanId fragment space ts =
     (if ts = [] then Some []
      else (case put_tlvs space ts of (used, sp, rest) \<Rightarrow>
        Option.bind (put_lsps l s lanId (fragment + 1) sp rest) (\<lambda>ps. Some (new_lsp l s (lanId @ [fragment]) used # ps))))"

definition pseudo_lsps :: "level \<Rightarrow> isis \<Rightarrow> isis_if \<Rightarrow> lsp_packet list option" where
  "pseudo_lsps l s f =
     do {
       let nsel = ii_DIS f l ! 6;
       ns \<leftarrow> (if nsel = 0 then Some (own_neighbours l s) else pseudo_neighbours l nsel s);
       put_lsps l s (copy_bytes (is_sysId s) 6 0 @ [nsel]) 0 1492 (neighbour_tlvs ns @ [area_tlv s])
     }"

definition is_DIS :: "level \<Rightarrow> isis \<Rightarrow> isis_if \<Rightarrow> bool" where
  "is_DIS l s f = (isUp (ii_gateIndex f) l s \<and> ii_network f \<and> compareArrays (is_sysId s) (ii_DIS f l) 6)"

definition genLSP :: "level \<Rightarrow> isis \<Rightarrow> lsp_packet list option" where
  "genLSP l s =
     (if \<not> isAdjUp l s then Some []
      else do {
        own \<leftarrow> put_lsps l s (copy_bytes (is_sysId s) 6 0 @ [0]) 0 1492 (neighbour_tlvs (own_neighbours l s) @ [area_tlv s]);
        pseudo \<leftarrow> those (map (pseudo_lsps l s) (filter (is_DIS l s) (is_ISISIft s)));
        Some (own @ concat pseudo)
      })"

section \<open>When it returns\<close>

definition tlv_size :: "tlv \<Rightarrow> nat" where
  "tlv_size t = 2 + unat (tlv_length t)"

lemma unat_tlv_length: "unat (ucast (tlv_length t) :: u32) = unat (tlv_length t)"
  by (simp add: unsigned_ucast_eq take_bit_nat_eq_self order_less_trans [OF unsigned_less])

lemma tlv_length_small: "unat (tlv_length t) < 256"
  using unsigned_less [of "tlv_length t", where ?'a = nat] by simp

lemma put_tlvs_fit: "sum_list (map tlv_size ts) \<le> unat space \<Longrightarrow> \<exists>sp. put_tlvs space ts = (ts, sp, [])"
proof (induction ts arbitrary: space)
  case (Cons t ts)
  define L where "L = (ucast (tlv_length t) :: u32)"
  have L: "unat L = unat (tlv_length t)" "unat L < 256" using unat_tlv_length [of t] tlv_length_small [of t] by (simp_all add: L_def)
  have "\<not> L > 1492" using L by (simp add: word_less_nat_alt)
  moreover have "\<not> L > space" using Cons.prems L by (simp add: word_less_nat_alt tlv_size_def)
  moreover have "unat (2 + L) = 2 + unat L" using L by (simp add: unat_add_lem [THEN iffD1])
  then have "unat (space - (2 + L)) = unat space - tlv_size t" using Cons.prems L
    by (subst unat_sub) (simp_all add: word_le_nat_alt tlv_size_def)
  then have "\<exists>sp. put_tlvs (space - (2 + L)) ts = (ts, sp, [])" using Cons by simp
  ultimately show ?case by (auto simp: L_def [symmetric])
qed simp

lemma put_lsps_fit:
  assumes "sum_list (map tlv_size ts) \<le> unat space" and "ts \<noteq> []"
  shows "put_lsps l s lanId k space ts = Some [new_lsp l s (lanId @ [k]) ts]"
proof -
  obtain sp where sp: "put_tlvs space ts = (ts, sp, [])" using put_tlvs_fit [OF assms(1)] by blast
  have "put_lsps l s lanId (k + 1) sp [] = Some []" by (subst put_lsps.simps) simp
  then show ?thesis using assms(2) sp by (subst put_lsps.simps) simp
qed

text \<open>A TLV that does not fit into the space left never does.\<close>

lemma put_lsps_stuck:
  assumes "ucast (tlv_length t) > space"
  shows "put_lsps l s lanId k space (t # ts) = None"
proof (rule ccontr)
  have big: "\<not> ucast (tlv_length t) > (1492 :: u32)"
    using tlv_length_small [of t] unat_tlv_length [of t] by (simp add: word_less_nat_alt)
  assume "put_lsps l s lanId k space (t # ts) \<noteq> None"
  then obtain ps where ps: "put_lsps l s lanId k space (t # ts) = Some ps" by blast
  have "put_lsps l s lanId k space (t # ts) = Some ps \<Longrightarrow> \<not> (\<exists>u us. t # ts = u # us \<and> ucast (tlv_length u) > space \<and> \<not> ucast (tlv_length u) > (1492 :: u32))"
    by (rule put_lsps.raw_induct [where P = "\<lambda>l s lanId k space ts ps. \<not> (\<exists>u us. ts = u # us \<and> ucast (tlv_length u) > space \<and> \<not> ucast (tlv_length u) > (1492 :: u32))"])
       (fastforce split: if_splits bind_splits)+
  then show False using ps assms big by blast
qed

lemma nbrs_tlv_length: "length ns \<le> 23 \<Longrightarrow> unat (tlv_length (nbrs_tlv ns)) = 1 + 11 * length ns"
proof -
  assume "length ns \<le> 23"
  then have "1 + 11 * length ns < 2 ^ 8" by simp
  moreover have "unat (of_nat k :: u8) = k" if "k < 2 ^ 8" for k using that by (simp add: unsigned_of_nat take_bit_nat_eq_self)
  ultimately have "unat (of_nat (1 + 11 * length ns) :: u8) = 1 + 11 * length ns" by blast
  then show ?thesis unfolding nbrs_tlv_def by (simp only: tlv.select_convs)
qed

lemma neighbour_tlvs_size: "sum_list (map tlv_size (neighbour_tlvs ns)) = 11 * length ns + 3 * ((length ns + 22) div 23)"
proof (induction ns rule: blocks_induct)
  case (block ns)
  have "tlv_size (nbrs_tlv (take 23 ns)) = 3 + 11 * min 23 (length ns)"
    using nbrs_tlv_length [of "take 23 ns"] by (simp add: tlv_size_def min.commute)
  then have eq: "sum_list (map tlv_size (neighbour_tlvs ns)) =
    3 + 11 * min 23 (length ns) + (11 * (length ns - 23) + 3 * ((length ns - 23 + 22) div 23))"
    using block by (simp add: neighbour_tlvs_Cons)
  have "1 \<le> length ns" using block by (cases ns) simp_all
  show ?case
  proof (cases "length ns \<le> 23")
    case True
    then have "(length ns + 22) div 23 = 1" using \<open>1 \<le> length ns\<close> by (intro div_nat_eqI) auto
    then show ?thesis using eq True by simp
  next
    case False
    then have "length ns + 22 = (length ns - 23 + 22) + 23" by simp
    then have "(length ns + 22) div 23 = (length ns - 23 + 22) div 23 + 1" by (metis div_add_self2 zero_neq_numeral)
    then show ?thesis using eq False by simp
  qed
qed simp

lemma area_tlv_size: "tlv_size (area_tlv s) = 6"
  by (simp add: tlv_size_def area_tlv_def)

theorem put_lsps_few:
  assumes "length ns \<le> 133"
  shows "put_lsps l s lanId k 1492 (neighbour_tlvs ns @ [area_tlv s]) = Some [new_lsp l s (lanId @ [k]) (neighbour_tlvs ns @ [area_tlv s])]"
proof (rule put_lsps_fit)
  have "(length ns + 22) div 23 \<le> (133 + 22) div 23" using assms by (intro div_le_mono) simp
  then show "sum_list (map tlv_size (neighbour_tlvs ns @ [area_tlv s])) \<le> unat (1492 :: u32)"
    using assms by (simp add: neighbour_tlvs_size area_tlv_size)
qed simp

definition overflows :: "u32 \<Rightarrow> tlv list \<Rightarrow> bool" where
  "overflows space ts \<longleftrightarrow> (\<exists>used sp t rest. put_tlvs space ts = (used, sp, t # rest))"

lemma put_tlvs_left: "put_tlvs space ts = (used, sp, t # rest) \<Longrightarrow> ucast (tlv_length t) > sp"
  by (induction space ts arbitrary: used rule: put_tlvs.induct) (auto split: if_splits prod.splits)

lemma overflows_stuck: "overflows space ts \<Longrightarrow> put_lsps l s lanId k space ts = None"
proof -
  assume "overflows space ts"
  then obtain used sp t rest where p: "put_tlvs space ts = (used, sp, t # rest)" by (auto simp: overflows_def)
  then have "ts \<noteq> []" by auto
  then show ?thesis using put_lsps_stuck [OF put_tlvs_left [OF p]] p by (subst put_lsps.simps) simp
qed

lemma overflows_full:
  assumes "23 \<le> length ns" and "254 \<le> space" and "overflows (space - 256) (neighbour_tlvs (drop 23 ns) @ ts)"
  shows "overflows space (neighbour_tlvs ns @ ts)"
proof -
  have len: "tlv_length (nbrs_tlv (take 23 ns)) = 254" using assms(1) by (simp add: nbrs_tlv_def)
  have "ns \<noteq> []" using assms(1) by auto
  then have "neighbour_tlvs ns = nbrs_tlv (take 23 ns) # neighbour_tlvs (drop 23 ns)" by (rule neighbour_tlvs_Cons)
  moreover have "\<not> (254 :: u32) > space" using assms(2) by simp
  ultimately show ?thesis using assms(3) by (auto simp: overflows_def len)
qed

lemma overflows_last:
  assumes "19 \<le> length ns"
  shows "overflows 212 (neighbour_tlvs ns @ [area_tlv s])"
proof -
  define L where "L = (ucast (tlv_length (nbrs_tlv (take 23 ns))) :: u32)"
  have L: "unat L = 1 + 11 * min 23 (length ns)"
    using nbrs_tlv_length [of "take 23 ns"] unat_tlv_length [of "nbrs_tlv (take 23 ns)"] by (simp add: L_def min.commute)
  have ns: "neighbour_tlvs ns = nbrs_tlv (take 23 ns) # neighbour_tlvs (drop 23 ns)"
    using assms by (intro neighbour_tlvs_Cons) auto
  have small: "\<not> L > 1492" using L by (simp add: word_less_nat_alt)
  show ?thesis
  proof (cases "length ns = 19")
    case True
    then have "unat L = unat (210 :: u32)" using L by simp
    then have "L = 210" by (simp add: word_unat_eq_iff)
    moreover have "neighbour_tlvs (drop 23 ns) = []" using True by simp
    ultimately show ?thesis by (simp add: overflows_def ns L_def [symmetric] area_tlv_def)
  next
    case False
    then have "L > 212" using L assms by (simp add: word_less_nat_alt)
    then show ?thesis using small by (simp add: overflows_def ns L_def [symmetric])
  qed
qed

lemma overflows_at:
  assumes "overflows sp (neighbour_tlvs (drop k ns) @ ts)" and "k = j + 23" and "k \<le> length ns" and "254 \<le> space" and "sp = space - 256"
  shows "overflows space (neighbour_tlvs (drop j ns) @ ts)"
proof (rule overflows_full)
  show "23 \<le> length (drop j ns)" using assms(2,3) by simp
  show "overflows (space - 256) (neighbour_tlvs (drop 23 (drop j ns)) @ ts)" using assms(1,2,5) by (simp add: add.commute)
qed (rule assms(4))

theorem put_lsps_many:
  assumes "134 \<le> length ns"
  shows "put_lsps l s lanId k 1492 (neighbour_tlvs ns @ [area_tlv s]) = None"
proof (rule overflows_stuck)
  have len: "115 \<le> length ns" "92 \<le> length ns" "69 \<le> length ns" "46 \<le> length ns" "23 \<le> length ns" using assms by simp_all
  have "overflows 212 (neighbour_tlvs (drop 115 ns) @ [area_tlv s])" using assms by (intro overflows_last) simp
  then have "overflows 468 (neighbour_tlvs (drop 92 ns) @ [area_tlv s])" by (rule overflows_at) (use len in simp_all)
  then have "overflows 724 (neighbour_tlvs (drop 69 ns) @ [area_tlv s])" by (rule overflows_at) (use len in simp_all)
  then have "overflows 980 (neighbour_tlvs (drop 46 ns) @ [area_tlv s])" by (rule overflows_at) (use len in simp_all)
  then have "overflows 1236 (neighbour_tlvs (drop 23 ns) @ [area_tlv s])" by (rule overflows_at) (use len in simp_all)
  then have "overflows 1492 (neighbour_tlvs (drop 0 ns) @ [area_tlv s])" by (rule overflows_at) (use len in simp_all)
  then show "overflows 1492 (neighbour_tlvs ns @ [area_tlv s])" by simp
qed

section \<open>Reading back\<close>

lemma concat_drop_blocks: "\<forall>x\<in>set xs. length (f x) = n \<Longrightarrow> j \<le> length xs \<Longrightarrow> drop (n * j) (concat (map f xs)) = concat (map f (drop j xs))"
proof (induction xs arbitrary: j)
  case (Cons x xs)
  then show ?case by (cases j) auto
qed simp

lemma con_offsets_eq: "con_offsets i (i + 11 * k) = map (\<lambda>j. i + 11 * j) [0..<k]"
proof (induction k arbitrary: i)
  case 0
  then show ?case by (simp add: con_offsets.simps)
next
  case (Suc k)
  have "con_offsets i (i + 11 * Suc k) = i # con_offsets (i + 11) (i + 11 + 11 * k)"
    by (subst con_offsets.simps) (simp add: algebra_simps)
  also have "con_offsets (i + 11) (i + 11 + 11 * k) = map (\<lambda>j. i + 11 + 11 * j) [0..<k]" by (rule Suc)
  also have "i # map (\<lambda>j. i + 11 + 11 * j) [0..<k] = map (\<lambda>j. i + 11 * j) (0 # map Suc [0..<k])" by simp
  also have "0 # map Suc [0..<k] = [0..<Suc k]" by (simp add: map_Suc_upt upt_conv_Cons)
  finally show ?case .
qed

definition nbr_con :: "isis_id \<Rightarrow> lsp_nbr \<Rightarrow> isis_con" where
  "nbr_con lspId n = \<lparr>cn_from = take 7 lspId @ [0], cn_to = ln_LANid n @ [0], cn_metric = unat (ln_metric n), cn_entry = NULL\<rparr>"

lemma nbrs_tlv_entry:
  assumes "\<forall>n\<in>set ns. length (ln_LANid n) = 7" and "j < length ns"
  shows "tlv_value (nbrs_tlv ns) ! (1 + 11 * j) = ln_metric (ns ! j)"
    and "copy_bytes (tlv_value (nbrs_tlv ns)) 7 (1 + 11 * j + 4) = ln_LANid (ns ! j)"
proof -
  have len: "\<forall>n\<in>set ns. length (nbr_bytes n) = 11" using assms(1) by (simp add: nbr_bytes_def)
  obtain rest where rest: "drop j ns = ns ! j # rest" using assms(2) by (metis Cons_nth_drop_Suc)
  have "drop (1 + 11 * j) (tlv_value (nbrs_tlv ns)) = concat (map nbr_bytes (drop j ns))"
    using concat_drop_blocks [OF len] assms(2) by (simp add: nbrs_tlv_def)
  then have d: "drop (1 + 11 * j) (tlv_value (nbrs_tlv ns)) = nbr_bytes (ns ! j) @ concat (map nbr_bytes rest)" by (simp add: rest)
  have "1 + 11 * j < length (tlv_value (nbrs_tlv ns))"
  proof (rule ccontr)
    assume "\<not> 1 + 11 * j < length (tlv_value (nbrs_tlv ns))"
    then show False using d by (simp add: nbr_bytes_def)
  qed
  then show "tlv_value (nbrs_tlv ns) ! (1 + 11 * j) = ln_metric (ns ! j)"
    using d hd_drop_conv_nth [of "1 + 11 * j" "tlv_value (nbrs_tlv ns)"] by (simp add: nbr_bytes_def)
  have "drop (1 + 11 * j + 4) (tlv_value (nbrs_tlv ns)) = drop 4 (drop (1 + 11 * j) (tlv_value (nbrs_tlv ns)))" by (simp add: add.commute)
  then show "copy_bytes (tlv_value (nbrs_tlv ns)) 7 (1 + 11 * j + 4) = ln_LANid (ns ! j)"
    unfolding copy_bytes_def d using assms by (simp add: nbr_bytes_def)
qed

lemma those_Some_map: "(\<And>x. x \<in> set xs \<Longrightarrow> f x = Some (g x)) \<Longrightarrow> those (map f xs) = Some (map g xs)"
  by (induction xs) auto

lemma extract_nbrs_tlv:
  assumes "\<forall>n\<in>set ns. length (ln_LANid n) = 7" and "length ns \<le> 23" and "\<not> compareArrays lspId (is_sysId s) 6"
  shows "extract_tlv lspId l s (nbrs_tlv ns) = Some (map (nbr_con lspId) ns)"
proof -
  have "extract_con lspId l s (tlv_value (nbrs_tlv ns)) (1 + 11 * j) = Some (nbr_con lspId (ns ! j))" if "j < length ns" for j
    using nbrs_tlv_entry [OF assms(1) that] assms(3) by (simp add: extract_con_def con_entry_def nbr_con_def Let_def)
  then have "those (map (extract_con lspId l s (tlv_value (nbrs_tlv ns))) (map (\<lambda>j. 1 + 11 * j) [0..<length ns])) =
    Some (map (\<lambda>j. nbr_con lspId (ns ! j)) [0..<length ns])"
    unfolding map_map comp_def by (intro those_Some_map) simp
  moreover have "con_offsets 1 (unat (tlv_length (nbrs_tlv ns))) = map (\<lambda>j. 1 + 11 * j) [0..<length ns]"
    unfolding nbrs_tlv_length [OF assms(2)] by (rule con_offsets_eq)
  moreover have "map (\<lambda>j. nbr_con lspId (ns ! j)) [0..<length ns] = map (nbr_con lspId) ns"
    by (rule nth_equalityI) simp_all
  ultimately show ?thesis by (simp add: extract_tlv_def)
qed

lemma extract_neighbour_tlvs:
  "\<forall>n\<in>set ns. length (ln_LANid n) = 7 \<Longrightarrow> \<not> compareArrays lspId (is_sysId s) 6 \<Longrightarrow>
   map_option concat (those (map (extract_tlv lspId l s) (neighbour_tlvs ns))) = Some (map (nbr_con lspId) ns)"
proof (induction ns rule: blocks_induct)
  case (block ns)
  have sub: "set (take 23 ns) \<subseteq> set ns" "set (drop 23 ns) \<subseteq> set ns" by (auto dest: in_set_takeD in_set_dropD)
  have head: "extract_tlv lspId l s (nbrs_tlv (take 23 ns)) = Some (map (nbr_con lspId) (take 23 ns))"
    using block.prems sub by (intro extract_nbrs_tlv) auto
  have "map_option concat (those (map (extract_tlv lspId l s) (neighbour_tlvs (drop 23 ns)))) = Some (map (nbr_con lspId) (drop 23 ns))"
    using block.prems sub by (intro block.IH) auto
  then obtain es where es: "those (map (extract_tlv lspId l s) (neighbour_tlvs (drop 23 ns))) = Some es" "concat es = map (nbr_con lspId) (drop 23 ns)"
    by auto
  have "map (nbr_con lspId) (take 23 ns) @ map (nbr_con lspId) (drop 23 ns) = map (nbr_con lspId) ns"
    by (metis append_take_drop_id map_append)
  then show ?case using head es block.hyps by (simp add: neighbour_tlvs_Cons)
qed simp

lemma neighbour_tlvs_type: "\<forall>t\<in>set (neighbour_tlvs ns). tlv_type t = IS_NEIGHBOURS_LSP"
proof (induction ns rule: blocks_induct)
  case (block ns)
  then show ?case by (simp add: neighbour_tlvs_Cons nbrs_tlv_def)
qed simp

theorem extract_new_lsp:
  assumes "\<forall>n\<in>set ns. length (ln_LANid n) = 7" and "\<not> compareArrays lspId (is_sysId s) 6" and "lspId ! 7 = 0" and "is_lspMaxLifetime a \<noteq> 0"
  shows "extract_lsp l s (new_lsp l a lspId (neighbour_tlvs ns @ [area_tlv a])) = Some (map (nbr_con lspId) ns)"
proof -
  have "filter (\<lambda>t. tlv_type t = IS_NEIGHBOURS_LSP) (neighbour_tlvs ns @ [area_tlv a]) = neighbour_tlvs ns"
    using neighbour_tlvs_type by (auto simp: area_tlv_def AREA_ADDRESS_def IS_NEIGHBOURS_LSP_def filter_id_conv)
  then show ?thesis using extract_neighbour_tlvs [OF assms(1,2)] assms(3,4)
    by (simp add: extract_lsp_def new_lsp_def tlvs_from_0)
qed


end
