(* ===== verification/Isis_Flooding.thy ===== *)
theory Isis_Flooding
  imports Isis_Lsp
begin

text \<open>
  The update process of \<open>src/src/ansa/networklayer/isis/ISIS.cc\<close>: the flags SRM (send the LSP on an interface) and
  SSN (acknowledge it there) of each record, with a queue of flagged records for each interface, level and kind of
  interface; how LSPs are installed, replaced, purged, refreshed and deleted; the handling and sending of LSPs and
  of partial and complete sequence number packets. The code has each operation on flags twice, for SRM and for SSN:
  here the flag is an argument. \<open>now\<close> is the simulation time; the gate a message came through is an option, \<open>None\<close>
  for one made here; \<open>addr\<close> gives the address of a record.
\<close>

section \<open>Flags\<close>

datatype flag_kind = SRM | SSN

definition flags_of :: "flag_kind \<Rightarrow> lsp_record \<Rightarrow> bool list" where
  "flags_of k r = (case k of SRM \<Rightarrow> lr_SRMflags r | SSN \<Rightarrow> lr_SSNflags r)"

definition set_flag :: "flag_kind \<Rightarrow> nat \<Rightarrow> bool \<Rightarrow> lsp_record \<Rightarrow> lsp_record" where
  "set_flag k i b r =
     (case k of SRM \<Rightarrow> r\<lparr>lr_SRMflags := (lr_SRMflags r)[i := b]\<rparr> | SSN \<Rightarrow> r\<lparr>lr_SSNflags := (lr_SSNflags r)[i := b]\<rparr>)"

definition mod_rec :: "nat \<Rightarrow> (lsp_record \<Rightarrow> lsp_record) \<Rightarrow> isis \<Rightarrow> isis" where
  "mod_rec p f s = s\<lparr>is_heap := (is_heap s)(p := f (is_heap s p))\<rparr>"

text \<open>\<open>getSRMQ\<close> and \<open>getSSNQ\<close>: the queues of the broadcast and of the point-to-point interfaces.\<close>

definition flag_queues :: "flag_kind \<Rightarrow> bool \<Rightarrow> level \<Rightarrow> isis \<Rightarrow> flag_record list list" where
  "flag_queues k network l s =
     (case k of SRM \<Rightarrow> if network then is_SRMBQueue s l else is_SRMPTPQueue s l
      | SSN \<Rightarrow> if network then is_SSNBQueue s l else is_SSNPTPQueue s l)"

definition set_queue :: "flag_kind \<Rightarrow> bool \<Rightarrow> level \<Rightarrow> nat \<Rightarrow> flag_record list \<Rightarrow> isis \<Rightarrow> isis" where
  "set_queue k network l i q s =
     (case k of
        SRM \<Rightarrow> if network then s\<lparr>is_SRMBQueue := (is_SRMBQueue s)(l := (is_SRMBQueue s l)[i := q])\<rparr>
               else s\<lparr>is_SRMPTPQueue := (is_SRMPTPQueue s)(l := (is_SRMPTPQueue s l)[i := q])\<rparr>
      | SSN \<Rightarrow> if network then s\<lparr>is_SSNBQueue := (is_SSNBQueue s)(l := (is_SSNBQueue s l)[i := q])\<rparr>
               else s\<lparr>is_SSNPTPQueue := (is_SSNPTPQueue s)(l := (is_SSNPTPQueue s l)[i := q])\<rparr>)"

definition addFlags :: "nat \<Rightarrow> isis \<Rightarrow> isis" where
  "addFlags p s =
     (if lr_SRMflags (is_heap s p) \<noteq> [] \<or> lr_SSNflags (is_heap s p) \<noteq> [] then s
      else let n = length (is_ISISIft s) in
        mod_rec p (\<lambda>r. r\<lparr>lr_SRMflags := replicate n False, lr_SSNflags := replicate n False\<rparr>) s)"

definition with_flags :: "flag_kind \<Rightarrow> nat \<Rightarrow> isis \<Rightarrow> isis" where
  "with_flags k p s = (if flags_of k (is_heap s p) = [] then addFlags p s else s)"

definition setFlag :: "flag_kind \<Rightarrow> nat \<Rightarrow> nat \<Rightarrow> level \<Rightarrow> isis \<Rightarrow> isis option" where
  "setFlag k p i l s =
     do {
       f \<leftarrow> vec_at (is_ISISIft s) i;
       q \<leftarrow> vec_at (flag_queues k (ii_network f) l s) i;
       let s1 = with_flags k p s;
       b \<leftarrow> vec_at (flags_of k (is_heap s1 p)) i;
       if b then Some s1
       else if isUp (ii_gateIndex f) l s1
         then Some (set_queue k (ii_network f) l i (q @ [\<lparr>fr_lspRec = p, fr_index = i\<rparr>]) (mod_rec p (set_flag k i True) s1))
         else Some s1
     }"

definition clearFlag :: "flag_kind \<Rightarrow> nat \<Rightarrow> nat \<Rightarrow> level \<Rightarrow> isis \<Rightarrow> isis option" where
  "clearFlag k p i l s =
     do {
       f \<leftarrow> vec_at (is_ISISIft s) i;
       q \<leftarrow> vec_at (flag_queues k (ii_network f) l s) i;
       _ \<leftarrow> vec_at (flags_of k (is_heap s p)) i;
       Some (set_queue k (ii_network f) l i (filter (\<lambda>r. \<not> (fr_index r = i \<and> fr_lspRec r = p)) q) (mod_rec p (set_flag k i False) s))
     }"

fun each_interface :: "(nat \<Rightarrow> isis \<Rightarrow> isis option) \<Rightarrow> nat list \<Rightarrow> isis \<Rightarrow> isis option" where
  "each_interface f [] s = Some s"
| "each_interface f (i # is) s = do { s1 \<leftarrow> f i s; each_interface f is s1 }"

definition all_flags :: "flag_kind \<Rightarrow> (nat \<Rightarrow> bool) \<Rightarrow> nat \<Rightarrow> level \<Rightarrow> isis \<Rightarrow> isis option" where
  "all_flags k which p l s =
     (let s1 = with_flags k p s in
      each_interface (\<lambda>i. if which i then setFlag k p i l else clearFlag k p i l) [0..<length (flags_of k (is_heap s1 p))] s1)"

definition setSRMflags :: "nat \<Rightarrow> level \<Rightarrow> isis \<Rightarrow> isis option" where
  "setSRMflags p l s = all_flags SRM (\<lambda>_. True) p l s"

definition setSRMflagsBut :: "nat \<Rightarrow> nat \<Rightarrow> level \<Rightarrow> isis \<Rightarrow> isis option" where
  "setSRMflagsBut p i l s = all_flags SRM (\<lambda>j. j \<noteq> i) p l s"

definition clearSRMflags :: "nat \<Rightarrow> level \<Rightarrow> isis \<Rightarrow> isis option" where
  "clearSRMflags p l s = all_flags SRM (\<lambda>_. False) p l s"

definition clearSSNflags :: "nat \<Rightarrow> level \<Rightarrow> isis \<Rightarrow> isis option" where
  "clearSSNflags p l s = all_flags SSN (\<lambda>_. False) p l s"

text \<open>\<open>clearSSNflagsBut\<close> does not leave the flag of that interface alone: it sets it.\<close>

definition clearSSNflagsBut :: "nat \<Rightarrow> nat \<Rightarrow> level \<Rightarrow> isis \<Rightarrow> isis option" where
  "clearSSNflagsBut p i l s = all_flags SSN (\<lambda>j. j = i) p l s"

section \<open>The database\<close>

text \<open>The dead timer is \<open>lr_kind\<close> and the time it is due.\<close>

definition lifetime :: "lsp_packet \<Rightarrow> simtime" where
  "lifetime p = sec (uint (lp_remLifeTime p))"

definition new_record :: "lsp_packet \<Rightarrow> lsp_record" where
  "new_record p = \<lparr>lr_LSP = p, lr_kind = LSP_DEAD, lr_due = 0, lr_SRMflags = [], lr_SSNflags = [], lr_simLifetime = 0\<rparr>"

definition start_timer :: "simtime \<Rightarrow> nat \<Rightarrow> isis \<Rightarrow> isis" where
  "start_timer now p s =
     mod_rec p (\<lambda>r. r\<lparr>lr_kind := LSP_DEAD, lr_due := now + lifetime (lr_LSP r), lr_simLifetime := now + lifetime (lr_LSP r)\<rparr>) s"

definition replaceLSP :: "simtime \<Rightarrow> lsp_packet \<Rightarrow> nat option \<Rightarrow> nat \<Rightarrow> level \<Rightarrow> isis \<Rightarrow> isis option" where
  "replaceLSP now lsp gate p l s =
     do {
       let s1 = mod_rec p (\<lambda>r. r\<lparr>lr_LSP := lsp\<lparr>lp_seqNumber := lp_seqNumber (lr_LSP r) + 1\<rparr>\<rparr>) s;
       s2 \<leftarrow> (case gate of
           None \<Rightarrow> setSRMflags p l s1
         | Some g \<Rightarrow>
             do {
               let i = getIfaceIndex g s;
               s2 \<leftarrow> setSRMflagsBut p i l s1;
               f \<leftarrow> vec_at (is_ISISIft s) i;
               s3 \<leftarrow> (if \<not> ii_network f then setFlag SSN p i l s2 else Some s2);
               clearSSNflagsBut p i l s3
             });
       Some (start_timer now p s2)
     }"

definition installLSP :: "simtime \<Rightarrow> lsp_packet \<Rightarrow> nat option \<Rightarrow> level \<Rightarrow> isis \<Rightarrow> isis option" where
  "installLSP now lsp gate l s =
     do {
       let p = is_next s;
       let s1 = s\<lparr>is_heap := (is_heap s)(p := new_record lsp), is_next := Suc p\<rparr>;
       s2 \<leftarrow> (case gate of
           None \<Rightarrow> if lp_seqNumber lsp > 0 then setSRMflags p l s1 else Some s1
         | Some g \<Rightarrow>
             do {
               let i = getIfaceIndex g s;
               s2 \<leftarrow> setSRMflagsBut p i l s1;
               s3 \<leftarrow> clearSSNflags p l s2;
               f \<leftarrow> vec_at (is_ISISIft s) i;
               if \<not> ii_network f then setFlag SSN p i l s3 else Some s3
             });
       let s4 = start_timer now p s2;
       Some (s4\<lparr>is_LSPDb := (is_LSPDb s4)(l := is_LSPDb s4 l @ [p])\<rparr>)
     }"

text \<open>\<open>purgeLSP\<close> of an LSP in the database. The header stays for twice the maximal lifetime.\<close>

definition purge_mem :: "simtime \<Rightarrow> isis_id \<Rightarrow> level \<Rightarrow> isis \<Rightarrow> isis option" where
  "purge_mem now lspId l s =
     (case getLSPFromDbByID lspId l s of
        None \<Rightarrow> Some s
      | Some p \<Rightarrow>
          do {
            s1 \<leftarrow> setSRMflags p l (mod_rec p (\<lambda>r. r\<lparr>lr_LSP := (lr_LSP r)\<lparr>lp_remLifeTime := 0, lp_TLV := []\<rparr>\<rparr>) s);
            Some (mod_rec p (\<lambda>r. r\<lparr>lr_simLifetime := now, lr_kind := LSP_DELETE,
              lr_due := now + sec (2 * uint (is_lspMaxLifetime s))\<rparr>) s1)
          })"

definition deleteLSP :: "isis_id \<Rightarrow> level \<Rightarrow> isis \<Rightarrow> isis option" where
  "deleteLSP lspId l s =
     (case getLSPFromDbByID lspId l s of
        None \<Rightarrow> Some s
      | Some p \<Rightarrow>
          do {
            s1 \<leftarrow> clearSRMflags p l s;
            s2 \<leftarrow> clearSSNflags p l s1;
            Some (s2\<lparr>is_LSPDb := (is_LSPDb s2)(l := erase_first (\<lambda>q. q = p) (is_LSPDb s2 l))\<rparr>)
          })"

section \<open>LSPs that arrive\<close>

definition mod_seq :: "u64 \<Rightarrow> nat \<Rightarrow> isis \<Rightarrow> isis" where
  "mod_seq n p s = mod_rec p (\<lambda>r. r\<lparr>lr_LSP := (lr_LSP r)\<lparr>lp_seqNumber := n\<rparr>\<rparr>) s"

text \<open>The same LSP as the one stored, and an older one.\<close>

definition same_lsp :: "nat \<Rightarrow> nat \<Rightarrow> bool \<Rightarrow> level \<Rightarrow> isis \<Rightarrow> isis option" where
  "same_lsp p i network l s = do { s1 \<leftarrow> clearFlag SRM p i l s; if \<not> network then setFlag SSN p i l s1 else Some s1 }"

definition older_lsp :: "nat \<Rightarrow> nat \<Rightarrow> level \<Rightarrow> isis \<Rightarrow> isis option" where
  "older_lsp p i l s = do { s1 \<leftarrow> setFlag SRM p i l s; clearFlag SSN p i l s1 }"

text \<open>\<open>purgeLSP\<close> of an LSP that arrives.\<close>

definition purge_received :: "simtime \<Rightarrow> lsp_packet \<Rightarrow> nat \<Rightarrow> level \<Rightarrow> isis \<Rightarrow> isis option" where
  "purge_received now lsp g l s =
     (case getLSPFromDbByID (lp_lspID lsp) l s of
        None \<Rightarrow> Some s
      | Some p \<Rightarrow>
          (let old = rec_lsp s p; i = getIfaceIndex g s in
           if \<not> compareArrays (lp_lspID lsp) (is_sysId s) 6 then
             if lp_seqNumber lsp > lp_seqNumber old \<or> lp_seqNumber lsp = lp_seqNumber old \<and> lp_remLifeTime old \<noteq> 0
             then replaceLSP now lsp (Some g) p l s
             else if lp_seqNumber lsp = lp_seqNumber old \<and> lp_remLifeTime lsp = 0 \<and> lp_remLifeTime old = 0
             then do { f \<leftarrow> getIfaceByGateIndex g s; same_lsp p i (ii_network f) l s }
             else if lp_seqNumber lsp < lp_seqNumber old then older_lsp p i l s
             else Some s
           else if lp_remLifeTime old \<noteq> 0 then
             setSRMflags p l (if lp_seqNumber lsp \<ge> lp_seqNumber old then mod_seq (lp_seqNumber lsp + 1) p s else s)
           else Some s))"

definition handleLsp :: "simtime \<Rightarrow> lsp_packet \<Rightarrow> mac_addr \<Rightarrow> nat \<Rightarrow> level \<Rightarrow> isis \<Rightarrow> isis option" where
  "handleLsp now lsp mac g l s =
     (if \<not> isAdjUp_msg True (lp_lspID lsp) mac g l s then Some s
      else if lp_remLifeTime lsp = 0 then purge_received now lsp g l s
      else if compareArrays (lp_lspID lsp) (is_sysId s) 6 then
        (case getLSPFromDbByID (lp_lspID lsp) l s of
           None \<Rightarrow> purge_received now lsp g l s
         | Some p \<Rightarrow>
             if lr_kind (is_heap s p) = LSP_DELETE then purge_received now lsp g l s
             else if lp_seqNumber lsp > lp_seqNumber (rec_lsp s p) then setSRMflags p l (mod_seq (lp_seqNumber lsp + 1) p s)
             else Some s)
      else
        (case getLSPFromDbByID (lp_lspID lsp) l s of
           None \<Rightarrow> installLSP now lsp (Some g) l s
         | Some p \<Rightarrow>
             (let old = rec_lsp s p; i = getIfaceIndex g s in
              if lp_seqNumber lsp > lp_seqNumber old then replaceLSP now lsp (Some g) p l s
              else if lp_seqNumber lsp = lp_seqNumber old \<and> lp_remLifeTime old \<noteq> 0
              then do { f \<leftarrow> vec_at (is_ISISIft s) i; same_lsp p i (ii_network f) l s }
              else if lp_seqNumber lsp < lp_seqNumber old then older_lsp p i l s
              else Some s)))"

section \<open>LSPs that are sent\<close>

definition sendLSP :: "simtime \<Rightarrow> nat \<Rightarrow> nat \<Rightarrow> isis \<Rightarrow> isis" where
  "sendLSP now p g s =
     (let r = is_heap s p;
          rem = (if lr_simLifetime r < now then 1 else word_of_int ((lr_simLifetime r - now) div sec 1));
          s1 = (if lr_kind r = LSP_DELETE then s else mod_rec p (\<lambda>r. r\<lparr>lr_LSP := (lr_LSP r)\<lparr>lp_remLifeTime := rem\<rparr>\<rparr>) s)
      in s1\<lparr>is_out := is_out s1 @ [Send_LSP (rec_lsp s1 p) g]\<rparr>)"

fun send_all :: "simtime \<Rightarrow> flag_record list \<Rightarrow> isis \<Rightarrow> isis option" where
  "send_all now [] s = Some s"
| "send_all now (r # rs) s = do { f \<leftarrow> vec_at (is_ISISIft s) (fr_index r); send_all now rs (sendLSP now (fr_lspRec r) (ii_gateIndex f) s) }"

text \<open>One LSP of a broadcast interface, drawn at random: \<open>draw i n\<close> is the number below \<open>n\<close> drawn for interface \<open>i\<close>.\<close>

definition send_one :: "simtime \<Rightarrow> level \<Rightarrow> (nat \<Rightarrow> nat \<Rightarrow> nat) \<Rightarrow> nat \<Rightarrow> isis \<Rightarrow> isis option" where
  "send_one now l draw i s =
     do {
       q \<leftarrow> vec_at (is_SRMBQueue s l) i;
       if q = [] then Some s
       else do {
         r \<leftarrow> vec_at q (draw i (length q));
         f \<leftarrow> vec_at (is_ISISIft s) (fr_index r);
         clearFlag SRM (fr_lspRec r) (fr_index r) l (sendLSP now (fr_lspRec r) (ii_gateIndex f) s)
       }
     }"

definition periodicSend :: "simtime \<Rightarrow> level \<Rightarrow> (nat \<Rightarrow> nat \<Rightarrow> nat) \<Rightarrow> isis \<Rightarrow> isis option" where
  "periodicSend now l draw s =
     do {
       s1 \<leftarrow> send_all now (concat (is_SRMPTPQueue s l)) s;
       each_interface (send_one now l draw) [0..<length (is_SRMBQueue s1 l)] s1
     }"

section \<open>Own LSPs\<close>

definition refresh_one :: "simtime \<Rightarrow> level \<Rightarrow> nat \<Rightarrow> isis \<Rightarrow> isis option" where
  "refresh_one now l p s =
     (if compareArrays (lp_lspID (rec_lsp s p)) (is_sysId s) 6 \<and> lr_kind (is_heap s p) \<noteq> LSP_DELETE \<and> lp_remLifeTime (rec_lsp s p) \<noteq> 0
      then do {
        s1 \<leftarrow> setSRMflags p l (mod_rec p (\<lambda>r. r\<lparr>lr_LSP := (lr_LSP r)\<lparr>lp_seqNumber := lp_seqNumber (lr_LSP r) + 1,
          lp_remLifeTime := is_lspMaxLifetime s\<rparr>\<rparr>) s);
        Some (mod_rec p (\<lambda>r. r\<lparr>lr_simLifetime := now + lifetime (lr_LSP r), lr_due := now + lifetime (lr_LSP r)\<rparr>) s1)
      }
      else Some s)"

definition refreshLSP :: "simtime \<Rightarrow> level \<Rightarrow> isis \<Rightarrow> isis option" where
  "refreshLSP now l s = each_interface (refresh_one now l) (is_LSPDb s l) s"

definition next_fragment :: "isis_id \<Rightarrow> isis_id" where
  "next_fragment lspId = lspId[7 := lspId ! 7 + 1]"

text \<open>\<open>None\<close>: all 256 fragments are in the database, and the loop does not end.\<close>

partial_function (option) purgeRemainLSP :: "simtime \<Rightarrow> isis_id \<Rightarrow> level \<Rightarrow> isis \<Rightarrow> isis option" where
  "purgeRemainLSP now lspId l s =
     (if getLSPFromDbByID lspId l s = None then Some s
      else Option.bind (purge_mem now lspId l s) (\<lambda>s1. purgeRemainLSP now (next_fragment lspId) l s1))"

definition purgeMyLSPs :: "simtime \<Rightarrow> level \<Rightarrow> isis \<Rightarrow> isis option" where
  "purgeMyLSPs now l s =
     each_interface (\<lambda>p s. if compareArrays (lp_lspID (rec_lsp s p)) (is_sysId s) 6 then purge_mem now (lp_lspID (rec_lsp s p)) l s else Some s)
       (is_LSPDb s l) s"

definition same_tlv :: "tlv \<Rightarrow> tlv \<Rightarrow> bool" where
  "same_tlv t u = (tlv_type t = tlv_type u \<and> tlv_length t = tlv_length u \<and> compareArrays (tlv_value t) (tlv_value u) (unat (tlv_length t)))"

definition compareLSP :: "lsp_packet \<Rightarrow> lsp_packet \<Rightarrow> bool" where
  "compareLSP p q = (lp_PATTLSPDBOLIS p = lp_PATTLSPDBOLIS q \<and> list_all2 same_tlv (lp_TLV p) (lp_TLV q))"

fun update_own :: "simtime \<Rightarrow> level \<Rightarrow> lsp_packet list \<Rightarrow> isis \<Rightarrow> isis option" where
  "update_own now l [] s = Some s"
| "update_own now l (p # ps) s =
     do {
       s1 \<leftarrow> (case getLSPFromDbByID (lp_lspID p) l s of
           Some r \<Rightarrow> if compareLSP (rec_lsp s r) p then Some s else replaceLSP now p None r l s
         | None \<Rightarrow> installLSP now p None l s);
       s2 \<leftarrow> (if ps \<noteq> [] \<and> \<not> compareArrays (lp_lspID p) (lp_lspID (hd ps)) 7
              then purgeRemainLSP now (next_fragment (lp_lspID p)) l s1 else Some s1);
       update_own now l ps s2
     }"

fun install_all :: "simtime \<Rightarrow> level \<Rightarrow> lsp_packet list \<Rightarrow> isis \<Rightarrow> isis option" where
  "install_all now l [] s = Some s"
| "install_all now l (p # ps) s = do { s1 \<leftarrow> installLSP now p None l s; install_all now l ps s1 }"

definition generateLSP :: "simtime \<Rightarrow> level \<Rightarrow> isis \<Rightarrow> isis option" where
  "generateLSP now l s =
     do {
       ps \<leftarrow> genLSP l s;
       if is_LSPDb s l = [] then install_all now l ps s
       else if ps = [] then purgeMyLSPs now l s
       else update_own now l ps s
     }"

end
