(* ===== verification/Isis_Hello.thy ===== *)
theory Isis_Hello
  imports Isis_Flooding "HOL-Library.List_Lexorder" "HOL-Library.Signed_Division"
begin

text \<open>
  Adjacencies and the election of the designated system of \<open>src/src/ansa/networklayer/isis/ISIS.cc\<close>: the hellos
  that are sent and handled on LANs and point-to-point links, the timers of neighbours that are not heard of any
  more, and the attached flag. \<open>now\<close> is the simulation time, \<open>rnd\<close> the time \<open>schedule\<close> draws and subtracts.
  A read beyond the value of a TLV is a mismatch where the code compares bytes.
\<close>

section \<open>Addresses\<close>

definition mac_bytes :: "mac_addr \<Rightarrow> u8 list" where
  "mac_bytes m = map (\<lambda>i. ucast (drop_bit (40 - 8 * i) m)) [0..<6]"

definition isAreaIDOK :: "tlv \<Rightarrow> u8 list \<Rightarrow> bool" where
  "isAreaIDOK t compare = (tlv_length t \<noteq> 0 \<and>
     list_ex (\<lambda>i. compareArrays compare (drop (i * 3 + 1) (tlv_value t)) 3) [0..<unat (tlv_length t) div 3])"

definition area_ok :: "tlv list \<Rightarrow> u8 list \<Rightarrow> bool" where
  "area_ok ts compare = list_ex (\<lambda>t. isAreaIDOK t compare) (tlvs_from ts AREA_ADDRESS 0)"

text \<open>\<open>checkDuplicateSysID\<close>, for LAN and for point-to-point hellos.\<close>

definition checkDuplicate_lan :: "lan_hello \<Rightarrow> isis \<Rightarrow> bool" where
  "checkDuplicate_lan h s =
     (list_ex (\<lambda>t. tlv_type t = AREA_ADDRESS \<and> compareArrays (is_areaId s) (drop 1 (tlv_value t)) (unat (tlv_value t ! 0))) (lh_TLV h) \<and>
      compareArrays (is_sysId s) (lh_sourceID h) 6)"

definition checkDuplicate_ptp :: "ptp_hello \<Rightarrow> isis \<Rightarrow> bool" where
  "checkDuplicate_ptp h s = compareArrays (is_sysId s) (ph_sourceID h) 6"

section \<open>The adjacency table\<close>

text \<open>\<open>getAdj\<close>: the index of the adjacency with this system id, MAC address and gate; on level 1 its area must be
  in the message. The loops over area TLVs that ask for the first one twice see the same TLVs.\<close>

definition adj_is :: "isis_id \<Rightarrow> mac_addr \<Rightarrow> nat \<Rightarrow> isis_adj \<Rightarrow> bool" where
  "adj_is sysId mac g a = (compareArrays sysId (ad_sysID a) 6 \<and> mac = ad_mac a \<and> g = ad_gateIndex a)"

definition getAdj :: "isis_id \<Rightarrow> mac_addr \<Rightarrow> nat \<Rightarrow> level \<Rightarrow> tlv list \<Rightarrow> isis \<Rightarrow> nat option" where
  "getAdj sysId mac g l ts s =
     (let i = index_first (adj_is sysId mac g) (is_adjTable s l) in
      case vec_at (is_adjTable s l) i of
        None \<Rightarrow> None
      | Some a \<Rightarrow> if l \<noteq> L2_TYPE \<and> \<not> area_ok ts (ad_areaID a) then None else Some i)"

definition getAdjBySystemID :: "isis_id \<Rightarrow> level \<Rightarrow> nat \<Rightarrow> isis \<Rightarrow> isis_adj option" where
  "getAdjBySystemID sysId l g s = find (\<lambda>a. compareArrays sysId (ad_sysID a) 6 \<and> ad_gateIndex a = g) (is_adjTable s l)"

definition mod_adj :: "level \<Rightarrow> nat \<Rightarrow> (isis_adj \<Rightarrow> isis_adj) \<Rightarrow> isis \<Rightarrow> isis" where
  "mod_adj l i f s = s\<lparr>is_adjTable := (is_adjTable s)(l := vec_modify i f (is_adjTable s l))\<rparr>"

text \<open>\<open>ISISadj::operator<\<close>: by area, system id and MAC address. Adjacencies with the same key stay in their order.\<close>

definition adj_key :: "isis_adj \<Rightarrow> u8 list \<times> u8 list \<times> mac_addr" where
  "adj_key a = (take 3 (ad_areaID a), take 6 (ad_sysID a), ad_mac a)"

definition add_adj :: "level \<Rightarrow> isis_adj \<Rightarrow> isis \<Rightarrow> isis" where
  "add_adj l a s = s\<lparr>is_adjTable := (is_adjTable s)(l := sort_key adj_key (is_adjTable s l @ [a]))\<rparr>"

definition new_adj :: "simtime \<Rightarrow> level \<Rightarrow> isis_id \<Rightarrow> isis_id \<Rightarrow> u8 list \<Rightarrow> u8 list \<Rightarrow> mac_addr \<Rightarrow> nat \<Rightarrow> isis \<Rightarrow> isis_adj" where
  "new_adj due l sysId lspId area timerArea mac g s =
     \<lparr>ad_sysID = sysId, ad_areaID = area, ad_mac = mac, ad_state = False, ad_gateIndex = g,
      ad_timer = \<lparr>nt_level = l, nt_interfaceIndex = getIfaceIndex g s, nt_gateIndex = g, nt_sysID = sysId, nt_LSPid = lspId, nt_areaID = timerArea\<rparr>,
      ad_due = due\<rparr>"

definition hold_until :: "simtime \<Rightarrow> u16 \<Rightarrow> simtime" where
  "hold_until now hold = now + sec (uint hold)"

section \<open>The designated system\<close>

definition mod_if :: "nat \<Rightarrow> (isis_if \<Rightarrow> isis_if) \<Rightarrow> isis \<Rightarrow> isis" where
  "mod_if i f s = s\<lparr>is_ISISIft := vec_modify i f (is_ISISIft s)\<rparr>"

text \<open>\<open>electDIS\<close> takes the LAN id of the hello, but keeps the priority of the interface: it is set in a local variable.
  Whether this system is the designated one is asked of level 1.\<close>

definition dis_mac :: "isis_id \<Rightarrow> level \<Rightarrow> nat \<Rightarrow> isis \<Rightarrow> mac_addr" where
  "dis_mac lanId l g s = (case getAdjBySystemID lanId l g s of Some a \<Rightarrow> ad_mac a | None \<Rightarrow> 0)"

definition electDIS :: "simtime \<Rightarrow> lan_hello \<Rightarrow> nat \<Rightarrow> isis \<Rightarrow> isis option" where
  "electDIS now h g s =
     do {
       f \<leftarrow> getIfaceByGateIndex g s;
       let i = getIfaceIndex g s;
       let l = lh_level h;
       let disID = ii_DIS f l;
       let disPriority = ii_DISpriority f l;
       if compareArrays (lh_lanID h) disID 7 then Some s
       else do {
         me \<leftarrow> amIDIS i L1_TYPE s;
         let localDIS = (if me then ii_mac f else dis_mac disID l g s);
         let receivedDIS = dis_mac (lh_lanID h) l g s;
         if lh_priority h > disPriority \<or> lh_priority h = disPriority \<and> receivedDIS > localDIS
         then do {
           s1 \<leftarrow> purgeRemainLSP now (copy_bytes disID 7 0 @ [0]) l s;
           Some (mod_if i (\<lambda>f. f\<lparr>ii_DIS := (ii_DIS f)(l := copy_bytes (lh_lanID h) 7 0)\<rparr>) s1)
         }
         else Some s
       }
     }"

definition resetDIS :: "isis_id \<Rightarrow> nat \<Rightarrow> level \<Rightarrow> isis \<Rightarrow> isis option" where
  "resetDIS systemID i l s =
     do {
       f \<leftarrow> vec_at (is_ISISIft s) i;
       if compareArrays systemID (ii_DIS f l) 7
       then Some (mod_if i (\<lambda>f. f\<lparr>ii_DISpriority := (ii_DISpriority f)(l := ii_priority f),
         ii_DIS := (ii_DIS f)(l := copy_bytes (is_sysId s) 6 0 @ [of_nat (i + 1)])\<rparr>) s)
       else Some s
     }"

section \<open>The attached flag\<close>

text \<open>A parenthesis is misplaced: the number of bytes compared is the truth value of \<open>3 \<and> isType = L1L2_TYPE\<close>.\<close>

definition updateAtt :: "bool \<Rightarrow> isis \<Rightarrow> isis" where
  "updateAtt action s =
     (if action then if \<not> is_att s then setClosestAtt (s\<lparr>is_att := True\<rparr>) else s
      else if is_att s then
        (if list_ex (\<lambda>a. \<not> compareArrays (is_areaId s) (ad_areaID a) (if is_isType s = L1L2_TYPE then 1 else 0)) (is_adjTable s L2_TYPE)
         then setClosestAtt s else s\<lparr>is_att := False\<rparr>)
      else s)"

section \<open>LAN hellos that arrive\<close>

definition sees_me :: "tlv \<Rightarrow> mac_addr \<Rightarrow> bool" where
  "sees_me t mac = list_ex (\<lambda>r. copy_bytes (tlv_value t) 6 (r * 6) = mac_bytes mac) [0..<unat (tlv_length t) div 6]"

definition handleL1HelloMsg :: "simtime \<Rightarrow> simtime \<Rightarrow> lan_hello \<Rightarrow> mac_addr \<Rightarrow> nat \<Rightarrow> isis \<Rightarrow> isis option" where
  "handleL1HelloMsg now rnd h mac g s =
     (if checkDuplicate_lan h s then Some s
      else if \<not> area_ok (lh_TLV h) (is_areaId s) then Some s
      else
        (case getAdj (lh_sourceID h) mac g L1_TYPE (lh_TLV h) s of
           Some i \<Rightarrow>
             do {
               let s1 = mod_adj L1_TYPE i (\<lambda>a. a\<lparr>ad_due := hold_until now (lh_holdTime h) - rnd\<rparr>) s;
               s2 \<leftarrow> (if ad_state (is_adjTable s L1_TYPE ! i) then electDIS now h g s1 else Some s1);
               case getTLVByType (lh_TLV h) IS_NEIGHBOURS_HELLO 0 of
                 None \<Rightarrow> Some s2
               | Some t \<Rightarrow> do {
                   f \<leftarrow> getIfaceByGateIndex g s2;
                   Some (if sees_me t (ii_mac f) then mod_adj L1_TYPE i (\<lambda>a. a\<lparr>ad_state := True\<rparr>) s2 else s2)
                 }
             }
         | None \<Rightarrow> Some (add_adj L1_TYPE (new_adj (hold_until now (lh_holdTime h) - rnd) L1_TYPE (lh_sourceID h) (lh_sourceID h @ [0, 0])
             (is_areaId s) (is_areaId s) mac g s) s)))"

text \<open>On level 2 the area is that of the message; the timer's copy of it starts one byte too early.\<close>

definition att_change :: "bool \<Rightarrow> isis_adj \<Rightarrow> isis \<Rightarrow> bool" where
  "att_change old a s = (\<not> old \<and> \<not> compareArrays (is_areaId s) (ad_areaID a) 3 \<and> is_isType s = L1L2_TYPE)"

definition handleL2HelloMsg :: "simtime \<Rightarrow> simtime \<Rightarrow> lan_hello \<Rightarrow> mac_addr \<Rightarrow> nat \<Rightarrow> isis \<Rightarrow> isis option" where
  "handleL2HelloMsg now rnd h mac g s =
     (if checkDuplicate_lan h s then Some s
      else
        (case getAdj (lh_sourceID h) mac g L2_TYPE (lh_TLV h) s of
           Some i \<Rightarrow>
             do {
               let s1 = mod_adj L2_TYPE i (\<lambda>a. a\<lparr>ad_due := hold_until now (lh_holdTime h) - rnd\<rparr>) s;
               let a = is_adjTable s L2_TYPE ! i;
               s2 \<leftarrow> (if ad_state a then electDIS now h g s1 else Some s1);
               case getTLVByType (lh_TLV h) IS_NEIGHBOURS_HELLO 0 of
                 None \<Rightarrow> Some s2
               | Some t \<Rightarrow> do {
                   f \<leftarrow> getIfaceByGateIndex g s2;
                   if sees_me t (ii_mac f)
                   then let s3 = mod_adj L2_TYPE i (\<lambda>a. a\<lparr>ad_state := True\<rparr>) s2 in
                     Some (if att_change (ad_state a) a s then updateAtt True s3 else s3)
                   else Some s2
                 }
             }
         | None \<Rightarrow>
             (case getTLVByType (lh_TLV h) AREA_ADDRESS 0 of
                None \<Rightarrow> Some s
              | Some t \<Rightarrow> Some (add_adj L2_TYPE (new_adj (hold_until now (lh_holdTime h) - rnd) L2_TYPE (lh_sourceID h) (lh_sourceID h @ [0, 0])
                  (copy_bytes (tlv_value t) 3 1) (copy_bytes (tlv_value t) 3 0) mac g s) s))))"

section \<open>Point-to-point hellos that arrive\<close>

definition PTP_UP :: u8 where "PTP_UP = 1"
definition PTP_INIT :: u8 where "PTP_INIT = 2"
definition PTP_DOWN :: u8 where "PTP_DOWN = 3"

text \<open>The new state of an adjacency: the three-way handshake of RFC 5303.\<close>

definition ptp_state :: "bool \<Rightarrow> tlv \<Rightarrow> bool" where
  "ptp_state up t =
     (if tlv_length t \<noteq> 1 then up
      else if up then tlv_value t ! 0 \<noteq> PTP_DOWN
      else tlv_value t ! 0 = PTP_UP \<or> tlv_value t ! 0 = PTP_INIT)"

text \<open>One level; the flag says that the handler goes on. The LSP id of the timer is not set, and on level 1 not its area.
  On level 2 the message must have an area. The code copies as many bytes as the length byte of the area says into fields
  of 3 bytes: with more it writes beyond them, with fewer it leaves the rest of a local record uninitialised. Both count as
  \<open>None\<close> here.\<close>

definition ptp_level :: "simtime \<Rightarrow> simtime \<Rightarrow> level \<Rightarrow> ptp_hello \<Rightarrow> mac_addr \<Rightarrow> nat \<Rightarrow> isis \<Rightarrow> (bool \<times> isis) option" where
  "ptp_level now rnd l h mac g s =
     (case getAdj (ph_sourceID h) mac g l (ph_TLV h) s of
        Some i \<Rightarrow>
          (let s1 = mod_adj l i (\<lambda>a. a\<lparr>ad_due := hold_until now (ph_holdTime h)\<rparr>) s; a = is_adjTable s l ! i in
           case getTLVByType (ph_TLV h) PTP_HELLO_STATE 0 of
             None \<Rightarrow> Some (False, s1)
           | Some t \<Rightarrow>
               (let s2 = mod_adj l i (\<lambda>a. a\<lparr>ad_state := ptp_state (ad_state a) t\<rparr>) s1 in
                Some (True, if l = L2_TYPE \<and> ptp_state (ad_state a) t \<and> att_change (ad_state a) a s then s2\<lparr>is_att := True\<rparr> else s2)))
      | None \<Rightarrow>
          (case l of
             L1_TYPE \<Rightarrow> Some (True, add_adj l (new_adj (hold_until now (ph_holdTime h) - rnd) l (ph_sourceID h) (replicate 8 0)
               (is_areaId s) (replicate 3 0) mac g s) s)
           | L2_TYPE \<Rightarrow>
               do {
                 t \<leftarrow> getTLVByType (ph_TLV h) AREA_ADDRESS 0;
                 if tlv_value t ! 0 = 3
                 then Some (True, add_adj l (new_adj (hold_until now (ph_holdTime h) - rnd) l (ph_sourceID h) (replicate 8 0)
                   (copy_bytes (tlv_value t) 3 1) (copy_bytes (tlv_value t) 3 1) mac g s) s)
                 else None
               }))"

definition handlePTPHelloMsg :: "simtime \<Rightarrow> (level \<Rightarrow> simtime) \<Rightarrow> ptp_hello \<Rightarrow> mac_addr \<Rightarrow> nat \<Rightarrow> isis \<Rightarrow> isis option" where
  "handlePTPHelloMsg now rnd h mac g s =
     (if checkDuplicate_ptp h s then Some s
      else if ph_circuitType h \<noteq> Only L2_TYPE \<and> \<not> area_ok (ph_TLV h) (is_areaId s) then Some s
      else do {
        (more, s1) \<leftarrow> (if ph_circuitType h = Only L1_TYPE \<or> ph_circuitType h = L1L2_TYPE
          then ptp_level now (rnd L1_TYPE) L1_TYPE h mac g s else Some (True, s));
        if \<not> more then Some s1
        else if ph_circuitType h = Only L2_TYPE \<or> ph_circuitType h = L1L2_TYPE
        then map_option snd (ptp_level now (rnd L2_TYPE) L2_TYPE h mac g s1)
        else Some s1
      })"

section \<open>Neighbours that are not heard of any more\<close>

definition timer_sys :: "nbr_timer \<Rightarrow> isis_adj \<Rightarrow> bool" where
  "timer_sys t a = (take 6 (nt_sysID t) = take 6 (ad_sysID a))"

text \<open>The loop over the level 1 table does not advance at an adjacency of another gate. \<open>None\<close>: it does not end.\<close>

partial_function (option) remove_dead_L1 :: "nbr_timer \<Rightarrow> nat \<Rightarrow> isis_adj list \<Rightarrow> isis_adj list option" where
  "remove_dead_L1 t i xs =
     (if i < length xs then
        if ad_gateIndex (xs ! i) = nt_gateIndex t then
          if timer_sys t (xs ! i) then remove_dead_L1 t i (take i xs @ drop (Suc i) xs) else remove_dead_L1 t (Suc i) xs
        else remove_dead_L1 t i xs
      else Some xs)"

text \<open>The loop over the level 2 table asks the level 1 table for the gate (\<open>None\<close>: it is shorter), and skips the
  adjacency after one it erases.\<close>

function remove_dead_L2 :: "nbr_timer \<Rightarrow> isis_adj list \<Rightarrow> nat \<Rightarrow> isis_adj list \<Rightarrow> isis_adj list option" where
  "remove_dead_L2 t l1s i xs =
     (if i < length xs then
        do {
          a1 \<leftarrow> vec_at l1s i;
          remove_dead_L2 t l1s (Suc i)
            (if ad_gateIndex a1 = nt_gateIndex t \<and> timer_sys t (xs ! i) \<and> take 3 (nt_areaID t) = take 3 (ad_areaID (xs ! i))
             then take i xs @ drop (Suc i) xs else xs)
        }
      else Some xs)"
  by pat_completeness auto
termination by (relation "measure (\<lambda>(t, l1s, i, xs). length xs - i)") auto

declare remove_dead_L2.simps [simp del]

definition removeDeadNeighbour :: "simtime \<Rightarrow> nbr_timer \<Rightarrow> isis \<Rightarrow> isis option" where
  "removeDeadNeighbour now t s =
     do {
       let l = nt_level t;
       xs \<leftarrow> (case l of L1_TYPE \<Rightarrow> remove_dead_L1 t 0 (is_adjTable s L1_TYPE)
         | L2_TYPE \<Rightarrow> remove_dead_L2 t (is_adjTable s L1_TYPE) 0 (is_adjTable s L2_TYPE));
       s1 \<leftarrow> purgeRemainLSP now (nt_LSPid t) l (s\<lparr>is_adjTable := (is_adjTable s)(l := sort_key adj_key xs)\<rparr>);
       f \<leftarrow> vec_at (is_ISISIft s1) (nt_interfaceIndex t);
       s2 \<leftarrow> (if ii_network f then resetDIS (nt_LSPid t) (nt_interfaceIndex t) l s1 else Some s1);
       Some (if l = L2_TYPE then updateAtt False s2 else s2)
     }"

section \<open>Hellos that are sent\<close>

text \<open>\<open>getHoldTime\<close>, an \<open>unsigned short\<close>.\<close>

definition getHoldTime_level :: "nat \<Rightarrow> level \<Rightarrow> isis \<Rightarrow> u16 option" where
  "getHoldTime_level i l s =
     do {
       f \<leftarrow> vec_at (is_ISISIft s) i;
       me \<leftarrow> amIDIS i l s;
       Some (if ii_HelloInterval f l = 0 then 1 else word_of_int ((ii_HelloMultiplier f l * ii_HelloInterval f l) sdiv (if me then 3 else 1)))
     }"

definition getHoldTime :: "nat \<Rightarrow> circuit \<Rightarrow> isis \<Rightarrow> u16 option" where
  "getHoldTime i ct s =
     (case ct of
        Only l \<Rightarrow> getHoldTime_level i l s
      | L1L2_TYPE \<Rightarrow> do { h1 \<leftarrow> getHoldTime_level i L1_TYPE s; h2 \<leftarrow> getHoldTime_level i L2_TYPE s; Some (if h1 < h2 then h1 else h2) }
      | RESERVED_TYPE \<Rightarrow> do { _ \<leftarrow> vec_at (is_ISISIft s) i; Some 1 })"

text \<open>The neighbours of a LAN: the value has room for all adjacencies of the level and is written only for those of the
  gate; \<open>mem\<close> is what is in the new array. The length is one byte: \<open>None\<close> when more is written than allocated.\<close>

definition neighbours_tlv :: "(nat \<Rightarrow> u8) \<Rightarrow> level \<Rightarrow> nat \<Rightarrow> isis \<Rightarrow> tlv option" where
  "neighbours_tlv mem l g s =
     (let adjs = is_adjTable s l;
          n = unat (of_nat (6 * length adjs) :: u8);
          v = concat (map (\<lambda>h. if ad_gateIndex (adjs ! h) = g then mac_bytes (ad_mac (adjs ! h)) else map (\<lambda>b. mem (6 * h + b)) [0..<6]) [0..<length adjs])
      in if list_ex (\<lambda>h. ad_gateIndex (adjs ! h) = g \<and> n < 6 * h + 6) [0..<length adjs] then None
         else Some \<lparr>tlv_type = IS_NEIGHBOURS_HELLO, tlv_length = of_nat n, tlv_value = take n v\<rparr>)"

definition ptp_state_tlv :: "circuit \<Rightarrow> nat \<Rightarrow> isis \<Rightarrow> tlv" where
  "ptp_state_tlv ct g s = \<lparr>tlv_type = PTP_HELLO_STATE, tlv_length = 1, tlv_value =
     [case (case ct of RESERVED_TYPE \<Rightarrow> None | Only l \<Rightarrow> getAdjByGateIndex g l 0 s | L1L2_TYPE \<Rightarrow> getAdjByGateIndex g L1_TYPE 0 s) of
        Some a \<Rightarrow> if ad_state a then PTP_UP else PTP_INIT
      | None \<Rightarrow> PTP_DOWN]\<rparr>"

text \<open>The hold time of a LAN hello is not set: it is the message's default of 40 seconds.\<close>

definition sendBroadcastHelloMsg :: "(nat \<Rightarrow> u8) \<Rightarrow> nat \<Rightarrow> nat \<Rightarrow> circuit \<Rightarrow> isis \<Rightarrow> isis option" where
  "sendBroadcastHelloMsg mem i g ct s =
     do {
       f \<leftarrow> vec_at (is_ISISIft s) i;
       case ct of
         Only l \<Rightarrow>
           do {
             t \<leftarrow> neighbours_tlv mem l g s;
             Some (if ii_passive f \<or> \<not> ii_enabled f then s
               else s\<lparr>is_out := is_out s @ [Send_LAN_Hello \<lparr>lh_level = l, lh_sourceID = copy_bytes (is_sysId s) 6 0, lh_holdTime = 40,
                 lh_priority = ii_priority f, lh_lanID = copy_bytes (ii_DIS f l) 7 0, lh_TLV = [area_tlv s, t]\<rparr> (ii_gateIndex f)]\<rparr>)
           }
       | _ \<Rightarrow> Some s
     }"

definition sendPTPHelloMsg :: "nat \<Rightarrow> nat \<Rightarrow> circuit \<Rightarrow> isis \<Rightarrow> isis option" where
  "sendPTPHelloMsg i g ct s =
     do {
       f \<leftarrow> vec_at (is_ISISIft s) i;
       if ii_passive f \<or> \<not> ii_enabled f then Some s
       else do {
         hold \<leftarrow> getHoldTime i (ii_circuitType f) s;
         Some (s\<lparr>is_out := is_out s @ [Send_PTP_Hello \<lparr>ph_circuitType = ii_circuitType f, ph_sourceID = copy_bytes (is_sysId s) 6 0,
           ph_holdTime = hold, ph_TLV = [area_tlv s, ptp_state_tlv ct g s]\<rparr> (ii_gateIndex f)]\<rparr>)
       }
     }"

definition sendHelloMsg :: "(nat \<Rightarrow> u8) \<Rightarrow> nat \<Rightarrow> nat \<Rightarrow> circuit \<Rightarrow> isis \<Rightarrow> isis option" where
  "sendHelloMsg mem i g ct s =
     do { f \<leftarrow> vec_at (is_ISISIft s) i; if ii_network f then sendBroadcastHelloMsg mem i g ct s else sendPTPHelloMsg i g ct s }"

end
