(* ===== verification/Isis_Snp.thy ===== *)
theory Isis_Snp
  imports Isis_Flooding
begin

text \<open>
  Sequence number packets, \<open>sendPsnp\<close>, \<open>handlePsnp\<close>, \<open>sendCsnp\<close> and \<open>handleCsnp\<close> of
  \<open>src/src/ansa/networklayer/isis/ISIS.cc\<close>. An entry has 16 bytes: the remaining lifetime, the LSP id, the
  sequence number, and two bytes that are never set nor read, zero here. The packet's length is an
  \<open>unsigned char\<close>, so the test against the maximal size of 1492 never fails.
\<close>

section \<open>Entries\<close>

definition entry_bytes :: "lsp_packet \<Rightarrow> u8 list" where
  "entry_bytes p =
     [ucast (drop_bit 8 (lp_remLifeTime p)), ucast (lp_remLifeTime p)] @ copy_bytes (lp_lspID p) 8 0 @
     [ucast (drop_bit 24 (lp_seqNumber p)), ucast (drop_bit 16 (lp_seqNumber p)), ucast (drop_bit 8 (lp_seqNumber p)), ucast (lp_seqNumber p)] @
     [0, 0]"

text \<open>The receiver puts the bytes together in base 255; the sum of the sequence number is an \<open>int\<close>.\<close>

record snp_entry =
  sn_remLife :: u16
  sn_lspID :: isis_id
  sn_seqNum :: u64

definition read_entry :: "u8 list \<Rightarrow> nat \<Rightarrow> snp_entry option" where
  "read_entry v i =
     (if i + 14 \<le> length v then
        Some \<lparr>sn_remLife = of_nat (unat (v ! i) * 255 + unat (v ! (i + 1))),
          sn_lspID = copy_bytes v 8 (i + 2),
          sn_seqNum = scast (of_nat (unat (v ! (i + 10)) * 255 * 255 * 255 + unat (v ! (i + 11)) * 255 * 255 +
            unat (v ! (i + 12)) * 255 + unat (v ! (i + 13))) :: 32 word)\<rparr>
      else None)"

function entry_offsets :: "nat \<Rightarrow> nat \<Rightarrow> nat list" where
  "entry_offsets i n = (if i < n then i # entry_offsets (i + 16) n else [])"
  by pat_completeness auto
termination by (relation "measure (\<lambda>(i, n). n - i)") auto

declare entry_offsets.simps [simp del]

definition tlv_entries :: "tlv \<Rightarrow> snp_entry list option" where
  "tlv_entries t = those (map (read_entry (tlv_value t)) (entry_offsets 0 (unat (tlv_length t))))"

definition snp_entries :: "tlv list \<Rightarrow> snp_entry list option" where
  "snp_entries ts = map_option concat (those (map tlv_entries (tlvs_from ts LSP_ENTRIES 0)))"

section \<open>Handling\<close>

definition empty_lsp :: "level \<Rightarrow> isis \<Rightarrow> snp_entry \<Rightarrow> lsp_packet" where
  "empty_lsp l s e = \<lparr>lp_remLifeTime = sn_remLife e, lp_lspID = sn_lspID e, lp_seqNumber = 0,
     lp_PATTLSPDBOLIS = (if l = L1_TYPE then (if is_att s then 0x12 else 0x02) else 0x0A), lp_TLV = []\<rparr>"

definition handle_entry :: "simtime \<Rightarrow> bool \<Rightarrow> nat \<Rightarrow> level \<Rightarrow> snp_entry \<Rightarrow> isis \<Rightarrow> isis option" where
  "handle_entry now network i l e s =
     (case getLSPFromDbByID (sn_lspID e) l s of
        Some p \<Rightarrow>
          (let r = rec_lsp s p in
           if sn_seqNum e = lp_seqNumber r \<and> (sn_remLife e = lp_remLifeTime r \<or> sn_remLife e \<noteq> 0 \<and> lp_remLifeTime r \<noteq> 0)
           then if \<not> network then clearFlag SRM p i l s else Some s
           else if sn_seqNum e < lp_seqNumber r then do { s1 \<leftarrow> clearFlag SSN p i l s; setFlag SRM p i l s1 }
           else if sn_seqNum e > lp_seqNumber r \<or> sn_seqNum e = lp_seqNumber r \<and> lp_remLifeTime r \<noteq> 0
           then do { s1 \<leftarrow> setFlag SSN p i l s; if \<not> network then clearFlag SRM p i l s1 else Some s1 }
           else Some s)
      | None \<Rightarrow>
          if sn_remLife e \<noteq> 0 \<and> sn_seqNum e \<noteq> 0 then
            do { s1 \<leftarrow> installLSP now (empty_lsp l s e) None l s; setFlag SSN (is_next s) i l s1 }
          else Some s)"

fun handle_entries :: "simtime \<Rightarrow> bool \<Rightarrow> nat \<Rightarrow> level \<Rightarrow> snp_entry list \<Rightarrow> isis \<Rightarrow> isis option" where
  "handle_entries now network i l [] s = Some s"
| "handle_entries now network i l (e # es) s = do { s1 \<leftarrow> handle_entry now network i l e s; handle_entries now network i l es s1 }"

definition handlePsnp :: "simtime \<Rightarrow> isis_id \<Rightarrow> tlv list \<Rightarrow> mac_addr \<Rightarrow> nat \<Rightarrow> level \<Rightarrow> isis \<Rightarrow> isis option" where
  "handlePsnp now src ts mac g l s =
     do {
       f \<leftarrow> getIfaceByGateIndex g s;
       let i = getIfaceIndex g s;
       dis \<leftarrow> amIDIS i l s;
       if ii_network f \<and> \<not> dis then Some s
       else if \<not> isAdjUp_msg False src mac g l s then Some s
       else do { es \<leftarrow> snp_entries ts; handle_entries now (ii_network f) i l es s }
     }"

text \<open>\<open>getLspRange\<close> sorts the pointers of the database by address, and compares the wrong way round with the end
  of the range. It deletes each id it returns.\<close>

definition sort_db :: "(nat \<Rightarrow> nat) \<Rightarrow> level \<Rightarrow> isis \<Rightarrow> isis" where
  "sort_db addr l s = s\<lparr>is_LSPDb := (is_LSPDb s)(l := sort_key addr (is_LSPDb s l))\<rparr>"

definition getLspRange :: "isis_id \<Rightarrow> isis_id \<Rightarrow> level \<Rightarrow> isis \<Rightarrow> isis_id list" where
  "getLspRange start endId l s =
     filter (\<lambda>v. \<not> bytes_less (take 8 v) (take 8 start) \<and> \<not> bytes_less (take 8 v) (take 8 endId)) (map (\<lambda>p. lp_lspID (rec_lsp s p)) (is_LSPDb s l))"

text \<open>Whatever is in the range is used after it was deleted: \<open>None\<close>.\<close>

definition handleCsnp :: "(nat \<Rightarrow> nat) \<Rightarrow> simtime \<Rightarrow> isis_id \<Rightarrow> isis_id \<Rightarrow> isis_id \<Rightarrow> tlv list \<Rightarrow> mac_addr \<Rightarrow> nat \<Rightarrow> level \<Rightarrow> isis \<Rightarrow> isis option" where
  "handleCsnp addr now src start endId ts mac g l s =
     do {
       f \<leftarrow> getIfaceByGateIndex g s;
       let i = getIfaceIndex g s;
       if \<not> isAdjUp_msg False src mac g l s then Some s
       else if getLspRange start endId l s \<noteq> [] then None
       else do { es \<leftarrow> snp_entries ts; handle_entries now (ii_network f) i l es (sort_db addr l s) }
     }"

section \<open>Sending\<close>

definition entries_tlv :: "u8 list \<Rightarrow> tlv" where
  "entries_tlv v = \<lparr>tlv_type = LSP_ENTRIES, tlv_length = of_nat (length v), tlv_value = v\<rparr>"

text \<open>The test of the inner loops; \<open>pl\<close> is the packet's length, \<open>n\<close> the TLV's.\<close>

definition room :: "u8 \<Rightarrow> nat \<Rightarrow> bool" where
  "room pl n = (n + 16 < 255 \<and> unat pl + (n + 16) + 2 < 1492)"

partial_function (option) psnp_fill :: "nat \<Rightarrow> bool \<Rightarrow> level \<Rightarrow> u8 \<Rightarrow> nat \<Rightarrow> isis \<Rightarrow> (u8 list \<times> isis) option" where
  "psnp_fill i network l pl n s =
     Option.bind (vec_at (flag_queues SSN network l s) i) (\<lambda>q.
       if q = [] \<or> \<not> room pl n then Some ([], s)
       else Option.bind (clearFlag SSN (fr_lspRec (hd q)) (fr_index (hd q)) l s) (\<lambda>s1.
         Option.bind (psnp_fill i network l pl (n + 16) s1) (\<lambda>(v, s2).
           Some (entry_bytes (rec_lsp s (fr_lspRec (hd q))) @ v, s2))))"

partial_function (option) psnp_tlvs :: "nat \<Rightarrow> bool \<Rightarrow> level \<Rightarrow> u8 \<Rightarrow> isis \<Rightarrow> (tlv list \<times> isis) option" where
  "psnp_tlvs i network l pl s =
     Option.bind (vec_at (flag_queues SSN network l s) i) (\<lambda>q.
       if q = [] then Some ([], s)
       else Option.bind (psnp_fill i network l pl 0 s) (\<lambda>(v, s1).
         Option.bind (psnp_tlvs i network l (pl + of_nat (length v) + 2) s1) (\<lambda>(ts, s2). Some (entries_tlv v # ts, s2))))"

definition sendPsnp :: "nat \<Rightarrow> nat \<Rightarrow> level \<Rightarrow> isis \<Rightarrow> isis option" where
  "sendPsnp i g l s =
     do {
       f \<leftarrow> vec_at (is_ISISIft s) i;
       q \<leftarrow> vec_at (flag_queues SSN (ii_network f) l s) i;
       dis \<leftarrow> amIDIS i l s;
       if dis \<or> q = [] then Some s
       else do { (ts, s1) \<leftarrow> psnp_tlvs i (ii_network f) l 0 s; Some (s1\<lparr>is_out := is_out s1 @ [Send_PSNP l ts g]\<rparr>) }
     }"

fun csnp_fill :: "u8 \<Rightarrow> nat \<Rightarrow> lsp_packet list \<Rightarrow> u8 list \<times> lsp_packet list" where
  "csnp_fill pl n [] = ([], [])"
| "csnp_fill pl n (p # ps) = (if room pl n then (let (v, rest) = csnp_fill pl (n + 16) ps in (entry_bytes p @ v, rest)) else ([], p # ps))"

text \<open>The TLVs of one packet, while its length is below 1492.\<close>

lemma csnp_fill_shorter: "csnp_fill pl 0 ps = (v, rest) \<Longrightarrow> ps \<noteq> [] \<Longrightarrow> length rest < length ps"
proof -
  have le: "length (snd (csnp_fill pl n ps)) \<le> length ps" for n ps
    by (induction pl n ps rule: csnp_fill.induct) (auto split: prod.splits)
  assume "csnp_fill pl 0 ps = (v, rest)" "ps \<noteq> []"
  moreover have "room pl 0" using unsigned_less [of pl, where ?'a = nat] by (simp add: room_def)
  ultimately show ?thesis using le [of 16 "tl ps"] by (cases ps) (auto split: prod.splits)
qed

function csnp_tlvs :: "u8 \<Rightarrow> lsp_packet list \<Rightarrow> tlv list \<times> lsp_packet list" where
  "csnp_tlvs pl ps =
     (if ps \<noteq> [] \<and> unat pl < 1492
      then (let (v, rest) = csnp_fill pl 0 ps; (ts, rest') = csnp_tlvs (pl + of_nat (length v) + 2) rest in (entries_tlv v # ts, rest'))
      else ([], ps))"
  by pat_completeness auto
termination by (relation "measure (\<lambda>(pl, ps). length ps)") (auto dest: csnp_fill_shorter [OF sym])

declare csnp_tlvs.simps [simp del]

lemma csnp_tlvs_rest: "snd (csnp_tlvs pl ps) = []"
proof (induction pl ps rule: csnp_tlvs.induct)
  case (1 pl ps)
  have small: "unat pl < 1492" using unsigned_less [of pl, where ?'a = nat] by simp
  show ?case
  proof (cases "ps = []")
    case False
    obtain v rest where v: "csnp_fill pl 0 ps = (v, rest)" by fastforce
    have "snd (csnp_tlvs (pl + of_nat (length v) + 2) rest) = []" using 1 [of "(v, rest)" v rest] False small v by simp
    then show ?thesis using v False small by (subst csnp_tlvs.simps) (simp add: split_beta)
  qed (subst csnp_tlvs.simps, simp)
qed

text \<open>The loop over the packets of a complete sequence number packet. By \<open>csnp_tlvs_rest\<close> there is one.\<close>

function csnp_packets :: "nat \<Rightarrow> level \<Rightarrow> nat \<Rightarrow> lsp_packet list \<Rightarrow> isis_out list" where
  "csnp_packets fragment l g ps =
     (if ps = [] then []
      else let (ts, rest) = csnp_tlvs 0 ps in
        Send_CSNP l ts (if fragment = 0 then replicate 8 0 else lp_lspID (hd ps))
          (if rest = [] then replicate 8 255 else lp_lspID (hd rest)) g # csnp_packets (Suc fragment) l g rest)"
  by pat_completeness auto
termination
  by (relation "measure (\<lambda>(k, l, g, ps). length ps)") (auto dest: arg_cong [where f = snd] simp: csnp_tlvs_rest)

text \<open>Whether this system is the designated one is asked of level 1, whatever the timer's level.\<close>

definition sendCsnp :: "nat \<Rightarrow> nat \<Rightarrow> level \<Rightarrow> isis \<Rightarrow> isis option" where
  "sendCsnp i g l s =
     do {
       f \<leftarrow> vec_at (is_ISISIft s) i;
       dis \<leftarrow> amIDIS i L1_TYPE s;
       if \<not> ii_network f \<or> \<not> dis then Some s
       else Some (s\<lparr>is_out := is_out s @ csnp_packets 0 l g (map (rec_lsp s) (is_LSPDb s l))\<rparr>)
     }"

end
