(* ===== verification/Isis_Invariant.thy ===== *)
theory Isis_Invariant
  imports Isis_Snp
begin

text \<open>
  The invariant of the update process: the flags of a record and the queues say the same, each LSP id has one
  record, and records are on one level. \<open>flags_match P s\<close> says the first of all records of \<open>P\<close>, which also covers
  the record that is being installed; the operations on flags are characterised by what they do to each flag.
\<close>

section \<open>Flags and queues\<close>

definition n_if :: "isis \<Rightarrow> nat" where
  "n_if s = length (is_ISISIft s)"

definition net :: "isis \<Rightarrow> nat \<Rightarrow> bool" where
  "net s i = ii_network (is_ISISIft s ! i)"

definition flag :: "flag_kind \<Rightarrow> isis \<Rightarrow> nat \<Rightarrow> nat \<Rightarrow> bool" where
  "flag k s p i = flags_of k (is_heap s p) ! i"

definition up :: "level \<Rightarrow> isis \<Rightarrow> nat \<Rightarrow> bool" where
  "up l s i = isUp (ii_gateIndex (is_ISISIft s ! i)) l s"

definition queue :: "flag_kind \<Rightarrow> level \<Rightarrow> isis \<Rightarrow> nat \<Rightarrow> flag_record list" where
  "queue k l s i = flag_queues k (net s i) l s ! i"

definition flags_match :: "(level \<Rightarrow> nat set) \<Rightarrow> isis \<Rightarrow> bool" where
  "flags_match P s \<longleftrightarrow>
     (\<forall>k b l. length (flag_queues k b l s) = n_if s) \<and>
     (\<forall>l. \<forall>p\<in>P l. \<forall>k. length (flags_of k (is_heap s p)) = n_if s) \<and>
     (\<forall>l m p. p \<in> P l \<and> p \<in> P m \<longrightarrow> l = m) \<and>
     (\<forall>k l i. i < n_if s \<longrightarrow> distinct (queue k l s i) \<and> flag_queues k (\<not> net s i) l s ! i = [] \<and>
        set (queue k l s i) = {\<lparr>fr_lspRec = p, fr_index = i\<rparr> |p. p \<in> P l \<and> flag k s p i})"

text \<open>Nothing but flags and queues.\<close>

definition flag_frame :: "isis \<Rightarrow> isis \<Rightarrow> bool" where
  "flag_frame s s' \<longleftrightarrow>
     (\<forall>p. \<exists>x y. is_heap s' p = (is_heap s p)\<lparr>lr_SRMflags := x, lr_SSNflags := y\<rparr>) \<and>
     s' = s\<lparr>is_heap := is_heap s', is_SRMBQueue := is_SRMBQueue s', is_SRMPTPQueue := is_SRMPTPQueue s',
       is_SSNBQueue := is_SSNBQueue s', is_SSNPTPQueue := is_SSNPTPQueue s'\<rparr>"

lemma flag_frame_refl [simp]: "flag_frame s s"
proof -
  have "is_heap s p = (is_heap s p)\<lparr>lr_SRMflags := lr_SRMflags (is_heap s p), lr_SSNflags := lr_SSNflags (is_heap s p)\<rparr>" for p by simp
  then show ?thesis unfolding flag_frame_def by (intro conjI allI) (blast, simp)
qed

lemma flag_frame_fields:
  assumes "flag_frame s s'"
  shows "is_ISISIft s' = is_ISISIft s" "is_adjTable s' = is_adjTable s" "is_LSPDb s' = is_LSPDb s" "is_next s' = is_next s"
    "is_sysId s' = is_sysId s" "is_out s' = is_out s" "is_lspMaxLifetime s' = is_lspMaxLifetime s" "is_att s' = is_att s"
    "is_areaId s' = is_areaId s" "is_isType s' = is_isType s"
    "rec_lsp s' p = rec_lsp s p" "lr_kind (is_heap s' p) = lr_kind (is_heap s p)" "lr_due (is_heap s' p) = lr_due (is_heap s p)"
    "lr_simLifetime (is_heap s' p) = lr_simLifetime (is_heap s p)"
proof -
  obtain x y where h: "is_heap s' p = (is_heap s p)\<lparr>lr_SRMflags := x, lr_SSNflags := y\<rparr>" using assms unfolding flag_frame_def by blast
  have e: "s' = s\<lparr>is_heap := is_heap s', is_SRMBQueue := is_SRMBQueue s', is_SRMPTPQueue := is_SRMPTPQueue s',
       is_SSNBQueue := is_SSNBQueue s', is_SSNPTPQueue := is_SSNPTPQueue s'\<rparr>" using assms by (simp add: flag_frame_def)
  show "is_ISISIft s' = is_ISISIft s" "is_adjTable s' = is_adjTable s" "is_LSPDb s' = is_LSPDb s" "is_next s' = is_next s"
    "is_sysId s' = is_sysId s" "is_out s' = is_out s" "is_lspMaxLifetime s' = is_lspMaxLifetime s" "is_att s' = is_att s"
    "is_areaId s' = is_areaId s" "is_isType s' = is_isType s"
    by (subst e, simp)+
  show "rec_lsp s' p = rec_lsp s p" "lr_kind (is_heap s' p) = lr_kind (is_heap s p)" "lr_due (is_heap s' p) = lr_due (is_heap s p)"
    "lr_simLifetime (is_heap s' p) = lr_simLifetime (is_heap s p)"
    by (simp_all add: h rec_lsp_def)
qed

lemma flag_frame_trans: "flag_frame s s1 \<Longrightarrow> flag_frame s1 s2 \<Longrightarrow> flag_frame s s2"
proof -
  assume a: "flag_frame s s1" "flag_frame s1 s2"
  have "\<exists>x y. is_heap s2 p = (is_heap s p)\<lparr>lr_SRMflags := x, lr_SSNflags := y\<rparr>" for p
  proof -
    obtain x y where 1: "is_heap s1 p = (is_heap s p)\<lparr>lr_SRMflags := x, lr_SSNflags := y\<rparr>" using a(1) unfolding flag_frame_def by blast
    obtain v w where 2: "is_heap s2 p = (is_heap s1 p)\<lparr>lr_SRMflags := v, lr_SSNflags := w\<rparr>" using a(2) unfolding flag_frame_def by blast
    have "is_heap s2 p = (is_heap s p)\<lparr>lr_SRMflags := v, lr_SSNflags := w\<rparr>" using 1 2 by simp
    then show ?thesis by blast
  qed
  moreover have "s2 = s\<lparr>is_heap := is_heap s2, is_SRMBQueue := is_SRMBQueue s2, is_SRMPTPQueue := is_SRMPTPQueue s2,
       is_SSNBQueue := is_SSNBQueue s2, is_SSNPTPQueue := is_SSNPTPQueue s2\<rparr>"
  proof -
    have "s1 = s\<lparr>is_heap := is_heap s1, is_SRMBQueue := is_SRMBQueue s1, is_SRMPTPQueue := is_SRMPTPQueue s1,
       is_SSNBQueue := is_SSNBQueue s1, is_SSNPTPQueue := is_SSNPTPQueue s1\<rparr>" using a(1) by (simp add: flag_frame_def)
    moreover have "s2 = s1\<lparr>is_heap := is_heap s2, is_SRMBQueue := is_SRMBQueue s2, is_SRMPTPQueue := is_SRMPTPQueue s2,
       is_SSNBQueue := is_SSNBQueue s2, is_SSNPTPQueue := is_SSNPTPQueue s2\<rparr>" using a(2) by (simp add: flag_frame_def)
    ultimately show ?thesis by (cases s; cases s1; cases s2) simp
  qed
  ultimately show ?thesis unfolding flag_frame_def by blast
qed

lemma flag_frame_derived:
  assumes "flag_frame s s'"
  shows "n_if s' = n_if s" "net s' i = net s i" "up l s' i = up l s i" "getLSPFromDbByID v l s' = getLSPFromDbByID v l s"
    "getIfaceIndex g s' = getIfaceIndex g s" "isUp g l s' = isUp g l s"
  using flag_frame_fields [OF assms]
  by (simp_all add: n_if_def net_def up_def isUp_def getLSPFromDbByID_def getIfaceIndex_def)

lemma flag_queues_set_queue:
  "flag_queues k' b' l' (set_queue k b l i q s) =
     (if k' = k \<and> b' = b \<and> l' = l then (flag_queues k b l s)[i := q] else flag_queues k' b' l' s)"
  by (cases k; cases k') (auto simp: flag_queues_def set_queue_def)

lemma flag_queues_mod_rec [simp]: "flag_queues k b l (mod_rec p f s) = flag_queues k b l s"
  by (cases k) (simp_all add: flag_queues_def mod_rec_def)

lemma set_queue_fields [simp]:
  "is_ISISIft (set_queue k b l i q s) = is_ISISIft s" "is_adjTable (set_queue k b l i q s) = is_adjTable s" "is_heap (set_queue k b l i q s) = is_heap s"
  by (cases k; simp add: set_queue_def)+

lemma mod_rec_fields [simp]:
  "is_ISISIft (mod_rec p f s) = is_ISISIft s" "is_adjTable (mod_rec p f s) = is_adjTable s" "is_LSPDb (mod_rec p f s) = is_LSPDb s"
  "is_next (mod_rec p f s) = is_next s" "is_sysId (mod_rec p f s) = is_sysId s" "is_out (mod_rec p f s) = is_out s"
  "is_lspMaxLifetime (mod_rec p f s) = is_lspMaxLifetime s" "is_heap (mod_rec p f s) = (is_heap s)(p := f (is_heap s p))"
  "is_att (mod_rec p f s) = is_att s" "is_areaId (mod_rec p f s) = is_areaId s" "is_isType (mod_rec p f s) = is_isType s"
  by (simp_all add: mod_rec_def)

lemma flags_of_set_flag: "flags_of k' (set_flag k i b r) = (if k' = k then (flags_of k r)[i := b] else flags_of k' r)"
  by (cases k; cases k') (simp_all add: flags_of_def set_flag_def)

lemma flag_frame_update:
  "flag_frame s (set_queue k b l i q (mod_rec p (set_flag k i v) s))"
proof -
  have "\<exists>x y. set_flag k i v r = r\<lparr>lr_SRMflags := x, lr_SSNflags := y\<rparr>" for r
  proof (cases k)
    case SRM
    then have "set_flag k i v r = r\<lparr>lr_SRMflags := (lr_SRMflags r)[i := v], lr_SSNflags := lr_SSNflags r\<rparr>" by (simp add: set_flag_def)
    then show ?thesis by blast
  next
    case SSN
    then have "set_flag k i v r = r\<lparr>lr_SRMflags := lr_SRMflags r, lr_SSNflags := (lr_SSNflags r)[i := v]\<rparr>" by (simp add: set_flag_def)
    then show ?thesis by blast
  qed
  moreover have "\<exists>x y. r = r\<lparr>lr_SRMflags := x, lr_SSNflags := y\<rparr>" for r :: lsp_record
    by (intro exI [of _ "lr_SRMflags r"] exI [of _ "lr_SSNflags r"]) simp
  ultimately have "\<exists>x y. (if q = p then set_flag k i v (is_heap s q) else is_heap s q) = (is_heap s q)\<lparr>lr_SRMflags := x, lr_SSNflags := y\<rparr>" for q
    by auto
  then have "\<forall>q'. \<exists>x y. is_heap (set_queue k b l i q (mod_rec p (set_flag k i v) s)) q' = (is_heap s q')\<lparr>lr_SRMflags := x, lr_SSNflags := y\<rparr>"
    by (simp add: fun_upd_apply if_distrib cong: if_cong)
  moreover have "set_queue k b l i q (mod_rec p (set_flag k i v) s) = s\<lparr>is_heap := is_heap (set_queue k b l i q (mod_rec p (set_flag k i v) s)),
      is_SRMBQueue := is_SRMBQueue (set_queue k b l i q (mod_rec p (set_flag k i v) s)),
      is_SRMPTPQueue := is_SRMPTPQueue (set_queue k b l i q (mod_rec p (set_flag k i v) s)),
      is_SSNBQueue := is_SSNBQueue (set_queue k b l i q (mod_rec p (set_flag k i v) s)),
      is_SSNPTPQueue := is_SSNPTPQueue (set_queue k b l i q (mod_rec p (set_flag k i v) s))\<rparr>"
    by (cases k; cases b) (simp_all add: set_queue_def mod_rec_def)
  ultimately show ?thesis unfolding flag_frame_def by blast
qed

section \<open>One flag\<close>

text \<open>The flag \<open>(k, p, i)\<close> becomes \<open>v\<close>, and with it its queue; every other flag stays.\<close>

definition one_flag :: "(level \<Rightarrow> nat set) \<Rightarrow> flag_kind \<Rightarrow> nat \<Rightarrow> nat \<Rightarrow> bool \<Rightarrow> isis \<Rightarrow> isis \<Rightarrow> bool" where
  "one_flag P k p i v s s' \<longleftrightarrow> flags_match P s' \<and> flag_frame s s' \<and>
     (\<forall>k' p' j. j < n_if s \<longrightarrow> flag k' s' p' j = (if k' = k \<and> p' = p \<and> j = i then v else flag k' s p' j))"

lemma flags_match_update:
  assumes m: "flags_match P s" and p: "p \<in> P l" and i: "i < n_if s"
    and q: "distinct q" "set q = {\<lparr>fr_lspRec = r, fr_index = i\<rparr> |r. r \<in> P l \<and> (if r = p then v else flag k s r i)}"
  shows "one_flag P k p i v s (set_queue k (net s i) l i q (mod_rec p (set_flag k i v) s))"
proof -
  define s' where "s' = set_queue k (net s i) l i q (mod_rec p (set_flag k i v) s)"
  have fr: "flag_frame s s'" unfolding s'_def by (rule flag_frame_update)
  note d = flag_frame_derived [OF fr]
  have len: "length (flags_of k' (is_heap s r)) = n_if s" if "r \<in> P l'" for k' r l' using m that unfolding flags_match_def by blast
  have ql: "length (flag_queues k' b l' s) = n_if s" for k' b l' using m by (simp add: flags_match_def)
  have heap: "flags_of k' (is_heap s' r) = (if k' = k \<and> r = p then (flags_of k (is_heap s p))[i := v] else flags_of k' (is_heap s r))" for k' r
    by (simp add: s'_def flags_of_set_flag)
  have fl: "flag k' s' r j = (if k' = k \<and> r = p \<and> j = i then v else flag k' s r j)" if "j < n_if s" for k' r j
    using len [OF p, of k] i by (auto simp: flag_def heap)
  have queues: "flag_queues k' b l' s' = (if k' = k \<and> b = net s i \<and> l' = l then (flag_queues k b l s)[i := q] else flag_queues k' b l' s)" for k' b l'
    by (simp add: s'_def flag_queues_set_queue)
  have old: "distinct (queue k' l' s j)" "flag_queues k' (\<not> net s j) l' s ! j = []"
    "set (queue k' l' s j) = {\<lparr>fr_lspRec = r, fr_index = j\<rparr> |r. r \<in> P l' \<and> flag k' s r j}" if "j < n_if s" for k' l' j
    using m that unfolding flags_match_def by blast+
  have disj: "p \<notin> P l'" if "l' \<noteq> l" for l' using m p that unfolding flags_match_def by blast
  have one: "distinct (queue k' l' s' j) \<and> flag_queues k' (\<not> net s' j) l' s' ! j = [] \<and>
        set (queue k' l' s' j) = {\<lparr>fr_lspRec = r, fr_index = j\<rparr> |r. r \<in> P l' \<and> flag k' s' r j}" if j: "j < n_if s" for k' l' j
  proof (cases "k' = k \<and> l' = l \<and> j = i")
    case True
    then have "queue k' l' s' j = q" using ql i by (simp add: queue_def queues d)
    moreover have "flag_queues k' (\<not> net s' j) l' s' ! j = []" using old(2) [OF i] True by (simp add: queues d)
    ultimately show ?thesis using q True fl [OF i] by auto
  next
    case False
    then have "queue k' l' s' j = queue k' l' s j" "flag_queues k' (\<not> net s' j) l' s' ! j = flag_queues k' (\<not> net s j) l' s ! j"
      using j by (auto simp: queue_def queues d)
    moreover have "r \<in> P l' \<Longrightarrow> flag k' s' r j = flag k' s r j" for r using False disj fl [OF j] by auto
    ultimately show ?thesis using old [OF j] by auto
  qed
  have "flags_match P s'"
    unfolding flags_match_def d
  proof (intro conjI allI ballI impI)
    show "length (flag_queues k' b l' s') = n_if s" for k' b l' using ql by (simp add: queues)
    show "length (flags_of k' (is_heap s' r)) = n_if s" if "r \<in> P l'" for k' l' r using len [OF that] len [OF p] by (simp add: heap)
    show "l' = m'" if "r \<in> P l' \<and> r \<in> P m'" for l' m' r using m that unfolding flags_match_def by blast
  qed (use one in \<open>auto simp: d\<close>)
  then show ?thesis using fr fl by (simp add: one_flag_def s'_def)
qed

lemma with_flags_id:
  assumes "flags_match P s" and "p \<in> P l"
  shows "with_flags k p s = s"
proof -
  have len: "length (flags_of k (is_heap s p)) = n_if s" for k using assms unfolding flags_match_def by blast
  show ?thesis
  proof (cases "n_if s = 0")
    case True
    then have "lr_SRMflags (is_heap s p) = []" "lr_SSNflags (is_heap s p) = []" using len [of SRM] len [of SSN] by (simp_all add: flags_of_def)
    moreover from this have "(is_heap s p)\<lparr>lr_SRMflags := [], lr_SSNflags := []\<rparr> = is_heap s p" by (cases "is_heap s p") simp
    ultimately show ?thesis using True by (auto simp: with_flags_def addFlags_def mod_rec_def n_if_def fun_upd_idem)
  next
    case False
    then show ?thesis using len [of k] by (auto simp: with_flags_def)
  qed
qed

lemma flags_match_at:
  assumes "flags_match P s" and "p \<in> P l" and "i < n_if s"
  shows "vec_at (is_ISISIft s) i = Some (is_ISISIft s ! i)" "vec_at (flag_queues k b l s) i = Some (flag_queues k b l s ! i)"
    "vec_at (flags_of k (is_heap s p)) i = Some (flag k s p i)"
  using assms unfolding flags_match_def by (auto simp: vec_at_def n_if_def flag_def)

lemma run_setFlag:
  assumes m: "flags_match P s" and p: "p \<in> P l" and i: "i < n_if s"
  shows "run_ok (setFlag k p i l s) (one_flag P k p i (flag k s p i \<or> up l s i) s)"
proof -
  note at = flags_match_at [OF m p i]
  have q: "distinct (queue k l s i)" "set (queue k l s i) = {\<lparr>fr_lspRec = r, fr_index = i\<rparr> |r. r \<in> P l \<and> flag k s r i}"
    using m i unfolding flags_match_def by blast+
  show ?thesis
  proof (cases "flag k s p i \<or> \<not> up l s i")
    case True
    then have "setFlag k p i l s = Some s" using at by (auto simp: setFlag_def with_flags_id [OF m p] up_def)
    moreover have "one_flag P k p i (flag k s p i \<or> up l s i) s s" using m True by (auto simp: one_flag_def)
    ultimately show ?thesis by simp
  next
    case False
    have "setFlag k p i l s = Some (set_queue k (net s i) l i (queue k l s i @ [\<lparr>fr_lspRec = p, fr_index = i\<rparr>]) (mod_rec p (set_flag k i True) s))"
      using at False by (simp add: setFlag_def with_flags_id [OF m p] up_def net_def queue_def)
    moreover have "one_flag P k p i True s (set_queue k (net s i) l i (queue k l s i @ [\<lparr>fr_lspRec = p, fr_index = i\<rparr>]) (mod_rec p (set_flag k i True) s))"
      using q False p by (intro flags_match_update [OF m p i]) auto
    ultimately show ?thesis using False by simp
  qed
qed

lemma run_clearFlag:
  assumes m: "flags_match P s" and p: "p \<in> P l" and i: "i < n_if s"
  shows "run_ok (clearFlag k p i l s) (one_flag P k p i False s)"
proof -
  note at = flags_match_at [OF m p i]
  have q: "distinct (queue k l s i)" "set (queue k l s i) = {\<lparr>fr_lspRec = r, fr_index = i\<rparr> |r. r \<in> P l \<and> flag k s r i}"
    using m i unfolding flags_match_def by blast+
  have "clearFlag k p i l s =
    Some (set_queue k (net s i) l i (filter (\<lambda>r. \<not> (fr_index r = i \<and> fr_lspRec r = p)) (queue k l s i)) (mod_rec p (set_flag k i False) s))"
    using at by (simp add: clearFlag_def net_def queue_def)
  moreover have "one_flag P k p i False s (set_queue k (net s i) l i (filter (\<lambda>r. \<not> (fr_index r = i \<and> fr_lspRec r = p)) (queue k l s i)) (mod_rec p (set_flag k i False) s))"
    using q by (intro flags_match_update [OF m p i]) auto
  ultimately show ?thesis by simp
qed

section \<open>All flags of a record\<close>

definition row_flags :: "(level \<Rightarrow> nat set) \<Rightarrow> flag_kind \<Rightarrow> nat \<Rightarrow> (nat \<Rightarrow> bool) \<Rightarrow> isis \<Rightarrow> isis \<Rightarrow> bool" where
  "row_flags P k p v s s' \<longleftrightarrow> flags_match P s' \<and> flag_frame s s' \<and>
     (\<forall>k' p' j. j < n_if s \<longrightarrow> flag k' s' p' j = (if k' = k \<and> p' = p then v j else flag k' s p' j))"

lemma run_each_flag:
  assumes "flags_match P s" and "p \<in> P l" and "\<forall>i\<in>set is. i < n_if s" and "distinct is"
  shows "run_ok (each_interface (\<lambda>i. if which i then setFlag k p i l else clearFlag k p i l) is s)
    (row_flags P k p (\<lambda>j. if j \<in> set is then which j \<and> (flag k s p j \<or> up l s j) else flag k s p j) s)"
  using assms
proof (induction "is" arbitrary: s)
  case Nil
  then show ?case by (simp add: row_flags_def)
next
  case (Cons i is')
  have i: "i < n_if s" using Cons.prems by simp
  define f where "f = (\<lambda>i. if which i then setFlag k p i l else clearFlag k p i l)"
  have one: "run_ok (f i s) (one_flag P k p i (which i \<and> (flag k s p i \<or> up l s i)) s)"
    using run_setFlag [OF Cons.prems(1,2) i] run_clearFlag [OF Cons.prems(1,2) i] by (simp add: f_def)
  show ?case
    unfolding f_def [symmetric] each_interface.simps run_ok_simps
  proof (rule run_ok_mono [OF one])
    fix s1 assume s1: "one_flag P k p i (which i \<and> (flag k s p i \<or> up l s i)) s s1"
    then have fr: "flag_frame s s1" and m1: "flags_match P s1" by (simp_all add: one_flag_def)
    note d = flag_frame_derived [OF fr]
    have "run_ok (each_interface f is' s1) (row_flags P k p (\<lambda>j. if j \<in> set is' then which j \<and> (flag k s1 p j \<or> up l s1 j) else flag k s1 p j) s1)"
      unfolding f_def using Cons.prems m1 d by (intro Cons.IH) auto
    then show "run_ok (each_interface f is' s1) (row_flags P k p (\<lambda>j. if j \<in> set (i # is') then which j \<and> (flag k s p j \<or> up l s j) else flag k s p j) s)"
    proof (rule run_ok_mono)
      fix s2 assume s2: "row_flags P k p (\<lambda>j. if j \<in> set is' then which j \<and> (flag k s1 p j \<or> up l s1 j) else flag k s1 p j) s1 s2"
      then have "flag_frame s s2" using fr by (auto simp: row_flags_def intro: flag_frame_trans)
      then show "row_flags P k p (\<lambda>j. if j \<in> set (i # is') then which j \<and> (flag k s p j \<or> up l s j) else flag k s p j) s s2"
        using s1 s2 Cons.prems(4) unfolding row_flags_def one_flag_def d by auto
    qed
  qed
qed

lemma run_all_flags:
  assumes "flags_match P s" and "p \<in> P l"
  shows "run_ok (all_flags k which p l s) (row_flags P k p (\<lambda>j. which j \<and> (flag k s p j \<or> up l s j)) s)"
proof -
  have len: "length (flags_of k (is_heap s p)) = n_if s" using assms unfolding flags_match_def by blast
  have "run_ok (each_interface (\<lambda>i. if which i then setFlag k p i l else clearFlag k p i l) [0..<n_if s] s)
    (row_flags P k p (\<lambda>j. if j \<in> set [0..<n_if s] then which j \<and> (flag k s p j \<or> up l s j) else flag k s p j) s)"
    by (rule run_each_flag [OF assms]) auto
  then have "run_ok (all_flags k which p l s)
    (row_flags P k p (\<lambda>j. if j \<in> set [0..<n_if s] then which j \<and> (flag k s p j \<or> up l s j) else flag k s p j) s)"
    by (simp add: all_flags_def with_flags_id [OF assms] len Let_def)
  then show ?thesis by (rule run_ok_mono) (simp add: row_flags_def)
qed

end
