(* ===== verification/Isis_Update.thy ===== *)
theory Isis_Update
  imports Isis_Invariant
begin

text \<open>
  Every operation of the update process returns and keeps the invariant \<open>isis_inv\<close>: the flags of the records in
  the database and the queues say the same, and each LSP id has one record. \<open>lsps_kept\<close> adds what an operation on
  records leaves alone, \<open>kept_conf\<close> what the operations that add or remove a record leave alone.
\<close>

section \<open>The invariant\<close>

definition lsp_id :: "isis \<Rightarrow> nat \<Rightarrow> isis_id" where
  "lsp_id s p = lp_lspID (rec_lsp s p)"

definition db :: "isis \<Rightarrow> level \<Rightarrow> nat set" where
  "db s l = set (is_LSPDb s l)"

definition ids_ok :: "isis \<Rightarrow> bool" where
  "ids_ok s \<longleftrightarrow> (\<forall>l. distinct (is_LSPDb s l) \<and> inj_on (lsp_id s) (db s l) \<and> (\<forall>p\<in>db s l. p < is_next s \<and> length (lsp_id s p) = 8))"

definition isis_inv :: "isis \<Rightarrow> bool" where
  "isis_inv s \<longleftrightarrow> flags_match (db s) s \<and> ids_ok s"

definition kept_conf :: "isis \<Rightarrow> isis \<Rightarrow> bool" where
  "kept_conf s s' \<longleftrightarrow> isis_inv s' \<and> is_ISISIft s' = is_ISISIft s \<and> is_adjTable s' = is_adjTable s \<and> is_sysId s' = is_sysId s \<and>
     is_lspMaxLifetime s' = is_lspMaxLifetime s \<and> is_areaId s' = is_areaId s \<and> is_isType s' = is_isType s"

definition lsps_kept :: "isis \<Rightarrow> isis \<Rightarrow> bool" where
  "lsps_kept s s' \<longleftrightarrow> kept_conf s s' \<and> is_LSPDb s' = is_LSPDb s \<and> is_next s' = is_next s \<and> lsp_id s' = lsp_id s"

lemma lsps_kept_refl: "isis_inv s \<Longrightarrow> lsps_kept s s"
  by (simp add: lsps_kept_def kept_conf_def)

lemma lsps_kept_trans: "lsps_kept s s1 \<Longrightarrow> lsps_kept s1 s2 \<Longrightarrow> lsps_kept s s2"
  by (simp add: lsps_kept_def kept_conf_def)

lemma kept_conf_trans: "kept_conf s s1 \<Longrightarrow> kept_conf s1 s2 \<Longrightarrow> kept_conf s s2"
  by (simp add: kept_conf_def)

lemma kept_inv [dest]: "lsps_kept s s' \<Longrightarrow> isis_inv s'" "kept_conf s s' \<Longrightarrow> isis_inv s'"
  by (simp_all add: lsps_kept_def kept_conf_def)

lemma kept_kept_conf [intro]: "lsps_kept s s' \<Longrightarrow> kept_conf s s'"
  by (simp add: lsps_kept_def)

lemma kept_derived:
  assumes "kept_conf s s'"
  shows "n_if s' = n_if s" "net s' i = net s i" "up l s' i = up l s i" "getIfaceIndex g s' = getIfaceIndex g s" "isUp g l s' = isUp g l s"
    "getIfaceByGateIndex g s' = getIfaceByGateIndex g s" "amIDIS i l s' = amIDIS i l s"
  using assms by (simp_all add: kept_conf_def n_if_def net_def up_def isUp_def getIfaceIndex_def getIfaceByGateIndex_def amIDIS_def)

lemma kept_db: "lsps_kept s s' \<Longrightarrow> db s' = db s"
  by (simp add: lsps_kept_def db_def fun_eq_iff)

lemma getLSP_lsp_id: "getLSPFromDbByID v l s = find (\<lambda>p. compareArrays (lsp_id s p) v 8) (is_LSPDb s l)"
  by (simp add: getLSPFromDbByID_def lsp_id_def)

lemma kept_getLSP: "lsps_kept s s' \<Longrightarrow> getLSPFromDbByID v l s' = getLSPFromDbByID v l s"
  by (simp add: lsps_kept_def getLSP_lsp_id)

lemma getLSP_in: "getLSPFromDbByID v l s = Some p \<Longrightarrow> p \<in> db s l \<and> take 8 (lsp_id s p) = take 8 v"
  by (auto simp: getLSP_lsp_id db_def compareArrays_def dest: find_Some_in)

lemma run_kept:
  assumes "run_ok m (lsps_kept s)" and "\<And>s1. lsps_kept s s1 \<Longrightarrow> run_ok (f s1) (lsps_kept s1)"
  shows "run_ok (Option.bind m f) (lsps_kept s)"
  using assms by (auto intro: run_ok_mono lsps_kept_trans)

lemma run_kept_conf:
  assumes "run_ok m (kept_conf s)" and "\<And>s1. kept_conf s s1 \<Longrightarrow> run_ok (f s1) (kept_conf s1)"
  shows "run_ok (Option.bind m f) (kept_conf s)"
  using assms by (auto intro: run_ok_mono kept_conf_trans)

lemma run_kept_mono: "run_ok m (lsps_kept s) \<Longrightarrow> run_ok m (kept_conf s)"
  by (auto elim: run_ok_mono)

section \<open>Flags and records\<close>

lemma frame_kept:
  assumes "isis_inv s" and "flag_frame s s'" and "flags_match (db s) s'"
  shows "lsps_kept s s'"
proof -
  note f = flag_frame_fields [OF assms(2)]
  have "db s' = db s" "lsp_id s' = lsp_id s" using f by (simp_all add: db_def lsp_id_def fun_eq_iff)
  then show ?thesis using assms f by (simp add: lsps_kept_def kept_conf_def isis_inv_def ids_ok_def)
qed

lemma one_flag_kept: "isis_inv s \<Longrightarrow> one_flag (db s) k p i v s s' \<Longrightarrow> lsps_kept s s'"
  by (simp add: frame_kept one_flag_def)

lemma row_flags_kept: "isis_inv s \<Longrightarrow> row_flags (db s) k p v s s' \<Longrightarrow> lsps_kept s s'"
  by (simp add: frame_kept row_flags_def)

lemma run_flags:
  assumes "isis_inv s" and "p \<in> db s l"
  shows "i < n_if s \<Longrightarrow> run_ok (setFlag k p i l s) (lsps_kept s)" "i < n_if s \<Longrightarrow> run_ok (clearFlag k p i l s) (lsps_kept s)"
    "run_ok (all_flags k which p l s) (lsps_kept s)"
proof -
  have m: "flags_match (db s) s" using assms(1) by (simp add: isis_inv_def)
  show "i < n_if s \<Longrightarrow> run_ok (setFlag k p i l s) (lsps_kept s)"
    by (rule run_ok_mono, erule run_setFlag [OF m assms(2)], erule one_flag_kept [OF assms(1)])
  show "i < n_if s \<Longrightarrow> run_ok (clearFlag k p i l s) (lsps_kept s)"
    by (rule run_ok_mono, erule run_clearFlag [OF m assms(2)], erule one_flag_kept [OF assms(1)])
  show "run_ok (all_flags k which p l s) (lsps_kept s)"
    by (rule run_ok_mono [OF run_all_flags [OF m assms(2)]]) (rule row_flags_kept [OF assms(1)])
qed

text \<open>A change of a record that is not one of its flags.\<close>

definition keeps_flags :: "(lsp_record \<Rightarrow> lsp_record) \<Rightarrow> bool" where
  "keeps_flags f \<longleftrightarrow> (\<forall>r. lr_SRMflags (f r) = lr_SRMflags r \<and> lr_SSNflags (f r) = lr_SSNflags r)"

lemma flags_match_mod_rec:
  assumes "flags_match P s" and "keeps_flags f"
  shows "flags_match P (mod_rec p f s)"
proof -
  have fl: "flags_of k (is_heap (mod_rec p f s) q) = flags_of k (is_heap s q)" for k q
    using assms(2) by (cases k) (auto simp: flags_of_def keeps_flags_def)
  have "n_if (mod_rec p f s) = n_if s" "net (mod_rec p f s) i = net s i" "queue k l (mod_rec p f s) i = queue k l s i"
    for i k l by (simp_all only: n_if_def net_def queue_def mod_rec_fields flag_queues_mod_rec)
  moreover have "flag k (mod_rec p f s) q i = flag k s q i" for i k q by (simp only: flag_def fl)
  ultimately show ?thesis using assms(1) unfolding flags_match_def by (simp only: fl flag_queues_mod_rec) blast
qed

lemma kept_mod_rec:
  assumes "isis_inv s" and "keeps_flags f" and "lp_lspID (lr_LSP (f (is_heap s p))) = lsp_id s p"
  shows "lsps_kept s (mod_rec p f s)"
proof -
  have id: "lsp_id (mod_rec p f s) = lsp_id s" using assms(3) by (auto simp: lsp_id_def rec_lsp_def fun_eq_iff)
  have d: "db (mod_rec p f s) = db s" by (simp add: db_def fun_eq_iff)
  have "flags_match (db s) (mod_rec p f s)" using assms by (intro flags_match_mod_rec) (simp_all add: isis_inv_def)
  then show ?thesis using assms(1) id d by (simp add: lsps_kept_def kept_conf_def isis_inv_def ids_ok_def)
qed

lemma kept_start_timer: "isis_inv s \<Longrightarrow> lsps_kept s (start_timer now p s)"
  by (simp add: start_timer_def kept_mod_rec keeps_flags_def lsp_id_def rec_lsp_def)

lemma kept_mod_seq: "isis_inv s \<Longrightarrow> lsps_kept s (mod_seq n p s)"
  by (simp add: mod_seq_def kept_mod_rec keeps_flags_def lsp_id_def rec_lsp_def)

lemma lsps_kept_out: "isis_inv s \<Longrightarrow> lsps_kept s (s\<lparr>is_out := x\<rparr>)"
proof -
  have "flag_queues k b l (s\<lparr>is_out := x\<rparr>) = flag_queues k b l s" for k b l by (cases k) (simp_all add: flag_queues_def)
  then have "flags_match P (s\<lparr>is_out := x\<rparr>) = flags_match P s" for P
    by (simp add: flags_match_def n_if_def net_def flag_def queue_def)
  moreover have "lsp_id (s\<lparr>is_out := x\<rparr>) = lsp_id s" "db (s\<lparr>is_out := x\<rparr>) = db s"
    by (simp_all add: lsp_id_def rec_lsp_def db_def fun_eq_iff)
  ultimately show "isis_inv s \<Longrightarrow> ?thesis" by (simp add: lsps_kept_def kept_conf_def isis_inv_def ids_ok_def)
qed

section \<open>Records that are added\<close>

definition add_rec :: "lsp_packet \<Rightarrow> isis \<Rightarrow> isis" where
  "add_rec lsp s = s\<lparr>is_heap := (is_heap s)(is_next s := new_record lsp), is_next := Suc (is_next s)\<rparr>"

definition no_flags :: "nat \<Rightarrow> isis \<Rightarrow> bool" where
  "no_flags p s \<longleftrightarrow> lr_SRMflags (is_heap s p) = [] \<and> lr_SSNflags (is_heap s p) = []"

lemma addFlags_no_flags: "no_flags p s \<Longrightarrow>
    addFlags p s = mod_rec p (\<lambda>r. r\<lparr>lr_SRMflags := replicate (n_if s) False, lr_SSNflags := replicate (n_if s) False\<rparr>) s"
  by (simp add: addFlags_def no_flags_def n_if_def Let_def)

lemma with_flags_addFlags:
  assumes "no_flags p s"
  shows "with_flags k p s = addFlags p s" "with_flags k p (addFlags p s) = addFlags p s"
proof -
  show "with_flags k p s = addFlags p s" using assms by (cases k) (simp_all add: with_flags_def flags_of_def no_flags_def)
  show "with_flags k p (addFlags p s) = addFlags p s"
    by (cases k) (simp_all add: addFlags_no_flags [OF assms] with_flags_def flags_of_def addFlags_def n_if_def mod_rec_def Let_def)
qed

lemma addFlags_fields [simp]:
  "is_ISISIft (addFlags p s) = is_ISISIft s" "is_adjTable (addFlags p s) = is_adjTable s" "is_LSPDb (addFlags p s) = is_LSPDb s"
  "is_next (addFlags p s) = is_next s" "is_sysId (addFlags p s) = is_sysId s" "is_lspMaxLifetime (addFlags p s) = is_lspMaxLifetime s"
  "is_areaId (addFlags p s) = is_areaId s" "is_isType (addFlags p s) = is_isType s"
  "flag_queues k b l (addFlags p s) = flag_queues k b l s" "rec_lsp (addFlags p s) q = rec_lsp s q"
  by (simp_all add: addFlags_def Let_def rec_lsp_def)

lemma flag_ops_addFlags:
  assumes "no_flags p s"
  shows "setFlag k p i l (addFlags p s) = setFlag k p i l s" "all_flags k which p l (addFlags p s) = all_flags k which p l s"
  by (simp_all only: setFlag_def all_flags_def with_flags_addFlags [OF assms] addFlags_fields)

lemma no_flags_add_rec [simp]: "no_flags (is_next s) (add_rec lsp s)"
  by (simp add: no_flags_def add_rec_def new_record_def)

text \<open>The record that is being added, with its flags.\<close>

definition added :: "lsp_packet \<Rightarrow> isis \<Rightarrow> isis" where
  "added lsp s = addFlags (is_next s) (add_rec lsp s)"

definition db_with :: "level \<Rightarrow> isis \<Rightarrow> level \<Rightarrow> nat set" where
  "db_with l s = (db s)(l := insert (is_next s) (db s l))"

lemma add_rec_fields [simp]:
  "is_ISISIft (add_rec lsp s) = is_ISISIft s" "is_adjTable (add_rec lsp s) = is_adjTable s" "is_LSPDb (add_rec lsp s) = is_LSPDb s"
  "is_next (add_rec lsp s) = Suc (is_next s)" "is_sysId (add_rec lsp s) = is_sysId s" "is_lspMaxLifetime (add_rec lsp s) = is_lspMaxLifetime s"
  "is_areaId (add_rec lsp s) = is_areaId s" "is_isType (add_rec lsp s) = is_isType s"
  "flag_queues k b l (add_rec lsp s) = flag_queues k b l s"
  by (cases k; simp add: add_rec_def flag_queues_def)+

lemma added_heap:
  "is_heap (added lsp s) = (is_heap s)(is_next s := (new_record lsp)\<lparr>lr_SRMflags := replicate (n_if s) False, lr_SSNflags := replicate (n_if s) False\<rparr>)"
proof -
  have "n_if (add_rec lsp s) = n_if s" by (simp add: n_if_def)
  then show ?thesis by (simp add: added_def addFlags_no_flags) (simp add: add_rec_def)
qed

lemma added_fields [simp]:
  "is_ISISIft (added lsp s) = is_ISISIft s" "is_adjTable (added lsp s) = is_adjTable s" "is_LSPDb (added lsp s) = is_LSPDb s"
  "is_next (added lsp s) = Suc (is_next s)" "is_sysId (added lsp s) = is_sysId s" "is_lspMaxLifetime (added lsp s) = is_lspMaxLifetime s"
  "is_areaId (added lsp s) = is_areaId s" "is_isType (added lsp s) = is_isType s"
  "flag_queues k b l (added lsp s) = flag_queues k b l s" "n_if (added lsp s) = n_if s" "net (added lsp s) i = net s i" "up l (added lsp s) i = up l s i"
  "getIfaceIndex g (added lsp s) = getIfaceIndex g s"
  by (simp_all add: added_def n_if_def net_def up_def isUp_def getIfaceIndex_def)

lemma added_flag: "i < n_if s \<Longrightarrow> flag k (added lsp s) p i = (p \<noteq> is_next s \<and> flag k s p i)"
  by (cases k) (simp_all add: flag_def added_heap flags_of_def)

lemma added_rec: "rec_lsp (added lsp s) p = (if p = is_next s then lsp else rec_lsp s p)"
  by (simp add: rec_lsp_def added_heap new_record_def)

lemma flags_match_added:
  assumes "isis_inv s"
  shows "flags_match (db_with l s) (added lsp s)"
proof -
  have m: "flags_match (db s) s" and old: "p \<in> db s m \<Longrightarrow> p \<noteq> is_next s" for p m
    using assms by (auto simp: isis_inv_def ids_ok_def)
  have "length (flags_of k (is_heap (added lsp s) p)) = n_if s" if "p \<in> db_with l s m" for p m k
  proof -
    have len: "p \<in> db s m \<Longrightarrow> length (flags_of k (is_heap s p)) = n_if s" for p m using m unfolding flags_match_def by blast
    have "flags_of k (is_heap (added lsp s) p) = (if p = is_next s then replicate (n_if s) False else flags_of k (is_heap s p))"
      by (cases k) (simp_all add: added_heap flags_of_def)
    then show ?thesis using len that by (auto simp: db_with_def split: if_splits)
  qed
  moreover have "m = m'" if "p \<in> db_with l s m \<and> p \<in> db_with l s m'" for p m m'
  proof -
    have "p \<in> db s m \<Longrightarrow> p \<in> db s m' \<Longrightarrow> m = m'" for p m m' using m unfolding flags_match_def by blast
    then show ?thesis using old that unfolding db_with_def by (metis fun_upd_apply insert_iff)
  qed
  moreover have "set (queue k m (added lsp s) i) = {\<lparr>fr_lspRec = p, fr_index = i\<rparr> |p. p \<in> db_with l s m \<and> flag k (added lsp s) p i}" if "i < n_if s" for k m i
  proof -
    have "set (queue k m s i) = {\<lparr>fr_lspRec = p, fr_index = i\<rparr> |p. p \<in> db s m \<and> flag k s p i}" using m that unfolding flags_match_def by blast
    then show ?thesis using old by (auto simp: queue_def added_flag [OF that] db_with_def)
  qed
  ultimately show ?thesis using m unfolding flags_match_def by (simp add: queue_def)
qed

text \<open>The end of the installation: the timer is started and the record enters the database.\<close>

definition enter_db :: "simtime \<Rightarrow> level \<Rightarrow> nat \<Rightarrow> isis \<Rightarrow> isis" where
  "enter_db now l p s = (start_timer now p s)\<lparr>is_LSPDb := (is_LSPDb s)(l := is_LSPDb s l @ [p])\<rparr>"

definition new_id :: "level \<Rightarrow> isis \<Rightarrow> isis_id \<Rightarrow> bool" where
  "new_id l s v \<longleftrightarrow> length v = 8 \<and> getLSPFromDbByID v l s = None"

lemma flags_match_LSPDb [simp]: "flags_match P (s\<lparr>is_LSPDb := x\<rparr>) = flags_match P s"
proof -
  have "flag_queues k b l (s\<lparr>is_LSPDb := x\<rparr>) = flag_queues k b l s" for k b l by (cases k) (simp_all add: flag_queues_def)
  then show ?thesis by (simp add: flags_match_def n_if_def net_def flag_def queue_def)
qed

lemma enter_db_kept:
  assumes inv: "isis_inv s" and new: "new_id l s (lp_lspID lsp)" and fr: "flag_frame (added lsp s) s'" and m: "flags_match (db_with l s) s'"
  shows "kept_conf s (enter_db now l (is_next s) s')"
proof -
  let ?t = "enter_db now l (is_next s) s'"
  note f = flag_frame_fields [OF fr]
  have conf: "is_ISISIft ?t = is_ISISIft s" "is_adjTable ?t = is_adjTable s" "is_sysId ?t = is_sysId s" "is_lspMaxLifetime ?t = is_lspMaxLifetime s"
    "is_areaId ?t = is_areaId s" "is_isType ?t = is_isType s"
    "is_LSPDb ?t = (is_LSPDb s)(l := is_LSPDb s l @ [is_next s])" "is_next ?t = Suc (is_next s)"
    using f by (simp_all add: enter_db_def start_timer_def)
  have d: "db ?t = db_with l s" using conf by (auto simp: db_def db_with_def fun_eq_iff)
  have id: "lsp_id ?t p = (if p = is_next s then lp_lspID lsp else lsp_id s p)" for p
  proof -
    have "rec_lsp ?t p = rec_lsp s' p" by (simp add: enter_db_def start_timer_def rec_lsp_def mod_rec_def)
    then show ?thesis using f added_rec [of lsp s p] by (simp add: lsp_id_def)
  qed
  have "flags_match (db ?t) ?t"
    unfolding d using m by (simp add: enter_db_def start_timer_def flags_match_mod_rec keeps_flags_def)
  moreover have "ids_ok ?t"
  proof -
    have ok: "distinct (is_LSPDb s m)" "inj_on (lsp_id s) (db s m)" "p \<in> db s m \<Longrightarrow> p < is_next s \<and> length (lsp_id s p) = 8" for m p
      using inv by (simp_all add: isis_inv_def ids_ok_def)
    have fresh: "is_next s \<notin> db s m" for m using ok(3) by blast
    have "\<forall>p\<in>db s l. lsp_id s p \<noteq> lp_lspID lsp"
      using new by (auto simp: new_id_def getLSP_lsp_id find_None_iff db_def)
    then have "inj_on (lsp_id ?t) (db ?t m)" for m
      using ok(2) [of m] fresh by (auto simp: d db_with_def id inj_on_def)
    moreover have "distinct (is_LSPDb ?t m)" for m using ok(1) [of m] fresh [of m] by (auto simp: conf db_def)
    moreover have "p < is_next ?t \<and> length (lsp_id ?t p) = 8" if "p \<in> db ?t m" for p m
      using that ok(3) [of p m] new by (auto simp: d db_with_def conf id new_id_def split: if_splits)
    ultimately show ?thesis by (simp add: ids_ok_def)
  qed
  ultimately show ?thesis using conf by (simp add: kept_conf_def isis_inv_def)
qed

section \<open>Installing\<close>

text \<open>What is installed, with which flags.\<close>

definition installed :: "level \<Rightarrow> lsp_packet \<Rightarrow> (flag_kind \<Rightarrow> nat \<Rightarrow> bool) \<Rightarrow> isis \<Rightarrow> isis \<Rightarrow> bool" where
  "installed l lsp v s s' \<longleftrightarrow> kept_conf s s' \<and> is_LSPDb s' = (is_LSPDb s)(l := is_LSPDb s l @ [is_next s]) \<and> is_next s' = Suc (is_next s) \<and>
     rec_lsp s' (is_next s) = lsp \<and> (\<forall>p. p \<noteq> is_next s \<longrightarrow> rec_lsp s' p = rec_lsp s p) \<and>
     (\<forall>k i. i < n_if s \<longrightarrow> flag k s' (is_next s) i = v k i) \<and>
     (\<forall>k p i. p \<noteq> is_next s \<longrightarrow> i < n_if s \<longrightarrow> flag k s' p i = flag k s p i)"

lemma installed_enter:
  assumes inv: "isis_inv s" and new: "new_id l s (lp_lspID lsp)" and fr: "flag_frame (added lsp s) s'" and m: "flags_match (db_with l s) s'"
    and v: "\<forall>k p i. i < n_if s \<longrightarrow> flag k s' p i = (if p = is_next s then v k i else flag k s p i)"
  shows "installed l lsp v s (enter_db now l (is_next s) s')"
proof -
  let ?t = "enter_db now l (is_next s) s'"
  note f = flag_frame_fields [OF fr]
  have "is_LSPDb ?t = (is_LSPDb s)(l := is_LSPDb s l @ [is_next s])" "is_next ?t = Suc (is_next s)" "rec_lsp ?t p = rec_lsp s' p" "flag k ?t p i = flag k s' p i" for p k i
    using f by (cases k; simp add: enter_db_def start_timer_def rec_lsp_def flag_def flags_of_def)+
  then show ?thesis using enter_db_kept [OF inv new fr m] f v added_rec [of lsp s] by (simp add: installed_def)
qed

definition install_flags :: "nat option \<Rightarrow> level \<Rightarrow> isis \<Rightarrow> flag_kind \<Rightarrow> nat \<Rightarrow> bool" where
  "install_flags gate l s k i =
     (case gate of None \<Rightarrow> k = SRM \<and> up l s i
      | Some g \<Rightarrow> (let a = getIfaceIndex g s in case k of SRM \<Rightarrow> i \<noteq> a \<and> up l s i | SSN \<Rightarrow> i = a \<and> \<not> net s a \<and> up l s a))"

lemma getIfaceIndex_less: "0 < n_if s \<Longrightarrow> getIfaceIndex g s < n_if s"
  by (auto simp: getIfaceIndex_def n_if_def)

theorem run_installLSP:
  assumes inv: "isis_inv s" and new: "new_id l s (lp_lspID lsp)"
    and gate: "case gate of None \<Rightarrow> lp_seqNumber lsp > 0 | Some g \<Rightarrow> 0 < n_if s"
  shows "run_ok (installLSP now lsp gate l s) (installed l lsp (install_flags gate l s) s)"
proof -
  let ?p = "is_next s" and ?a = "added lsp s" and ?P = "db_with l s"
  have m: "flags_match ?P ?a" by (rule flags_match_added [OF inv])
  have p: "?p \<in> ?P l" by (simp add: db_with_def)
  have ops: "all_flags k which ?p l (add_rec lsp s) = all_flags k which ?p l ?a" for k which
    by (simp add: added_def flag_ops_addFlags)
  have fl: "flag k ?a q i = (q \<noteq> ?p \<and> flag k s q i)" if "i < n_if s" for k q i using that by (rule added_flag)
  show ?thesis
  proof (cases gate)
    case None
    have "run_ok (all_flags SRM (\<lambda>_. True) ?p l ?a) (\<lambda>s2. installed l lsp (install_flags gate l s) s (enter_db now l ?p s2))"
    proof (rule run_ok_mono [OF run_all_flags [OF m p]])
      fix s2 assume r: "row_flags ?P SRM ?p (\<lambda>j. True \<and> (flag SRM ?a ?p j \<or> up l ?a j)) ?a s2"
      then show "installed l lsp (install_flags gate l s) s (enter_db now l ?p s2)"
        by (intro installed_enter [OF inv new]) (auto simp: row_flags_def None install_flags_def fl)
    qed
    then show ?thesis using gate None
      by (simp add: installLSP_def setSRMflags_def enter_db_def [symmetric] add_rec_def [symmetric] ops Let_def)
         (simp add: enter_db_def start_timer_def)
  next
    case (Some g)
    define a where "a = getIfaceIndex g s"
    have a: "a < n_if s" using gate Some by (simp add: a_def getIfaceIndex_less)
    have "run_ok (do { s2 \<leftarrow> all_flags SRM (\<lambda>j. j \<noteq> a) ?p l ?a; s3 \<leftarrow> all_flags SSN (\<lambda>_. False) ?p l s2; if \<not> net s a then setFlag SSN ?p a l s3 else Some s3 })
      (\<lambda>s4. installed l lsp (install_flags gate l s) s (enter_db now l ?p s4))"
      unfolding run_ok_simps
    proof (rule run_ok_mono [OF run_all_flags [OF m p]])
      fix s2 assume r2: "row_flags ?P SRM ?p (\<lambda>j. j \<noteq> a \<and> (flag SRM ?a ?p j \<or> up l ?a j)) ?a s2"
      then have m2: "flags_match ?P s2" and fr2: "flag_frame ?a s2" by (simp_all add: row_flags_def)
      note d2 = flag_frame_derived [OF fr2]
      show "run_ok (all_flags SSN (\<lambda>_. False) ?p l s2) (\<lambda>s3. run_ok (if \<not> net s a then setFlag SSN ?p a l s3 else Some s3)
        (\<lambda>s4. installed l lsp (install_flags gate l s) s (enter_db now l ?p s4)))"
      proof (rule run_ok_mono [OF run_all_flags [OF m2 p]])
        fix s3 assume r3: "row_flags ?P SSN ?p (\<lambda>j. False \<and> (flag SSN s2 ?p j \<or> up l s2 j)) s2 s3"
        then have m3: "flags_match ?P s3" and fr3: "flag_frame ?a s3" using fr2 by (auto simp: row_flags_def intro: flag_frame_trans)
        note d3 = flag_frame_derived [OF fr3]
        have f3: "flag k s3 q i = (if q = ?p then k = SRM \<and> i \<noteq> a \<and> up l s i else flag k s q i)" if "i < n_if s" for k q i
          using r2 r3 that fl [OF that] by (cases k) (auto simp: row_flags_def d2)
        show "run_ok (if \<not> net s a then setFlag SSN ?p a l s3 else Some s3) (\<lambda>s4. installed l lsp (install_flags gate l s) s (enter_db now l ?p s4))"
        proof (cases "net s a")
          case True
          have "\<forall>k q i. i < n_if s \<longrightarrow> flag k s3 q i = (if q = ?p then install_flags gate l s k i else flag k s q i)"
          proof (intro allI impI)
            fix k q i assume "i < n_if s"
            then show "flag k s3 q i = (if q = ?p then install_flags gate l s k i else flag k s q i)"
              using True by (cases k) (simp_all add: f3 install_flags_def Some a_def [symmetric])
          qed
          then show ?thesis using True installed_enter [OF inv new fr3 m3] by simp
        next
          case False
          have "run_ok (setFlag SSN ?p a l s3) (\<lambda>s4. installed l lsp (install_flags gate l s) s (enter_db now l ?p s4))"
          proof (rule run_ok_mono [OF run_setFlag [OF m3 p]])
            show "a < n_if s3" using a by (simp add: d3)
            fix s4 assume o: "one_flag ?P SSN ?p a (flag SSN s3 ?p a \<or> up l s3 a) s3 s4"
            have "\<forall>k q i. i < n_if s \<longrightarrow> flag k s4 q i = (if q = ?p then install_flags gate l s k i else flag k s q i)"
            proof (intro allI impI)
              fix k q i assume i: "i < n_if s"
              then have "flag k s4 q i = (if k = SSN \<and> q = ?p \<and> i = a then flag SSN s3 ?p a \<or> up l s3 a else flag k s3 q i)"
                using o by (simp add: one_flag_def d3)
              then show "flag k s4 q i = (if q = ?p then install_flags gate l s k i else flag k s q i)"
                using False i a by (cases k) (simp_all add: f3 d3 install_flags_def Some a_def [symmetric])
            qed
            then show "installed l lsp (install_flags gate l s) s (enter_db now l ?p s4)"
              using o fr3 by (intro installed_enter [OF inv new]) (auto simp: one_flag_def intro: flag_frame_trans)
          qed
          then show ?thesis using False by simp
        qed
      qed
    qed
    moreover have "vec_at (is_ISISIft s) a = Some (is_ISISIft s ! a)" using a by (simp add: n_if_def)
    ultimately show ?thesis
      by (cases "net s a")
         (simp_all add: installLSP_def Some setSRMflagsBut_def clearSSNflags_def a_def [symmetric] add_rec_def [symmetric] ops Let_def net_def
           enter_db_def start_timer_def)
  qed
qed

section \<open>Replacing\<close>

definition replace_flags :: "nat option \<Rightarrow> level \<Rightarrow> nat \<Rightarrow> isis \<Rightarrow> flag_kind \<Rightarrow> nat \<Rightarrow> bool" where
  "replace_flags gate l p s k i =
     (case gate of None \<Rightarrow> flag k s p i \<or> k = SRM \<and> up l s i
      | Some g \<Rightarrow> (let a = getIfaceIndex g s in (flag k s p i \<or> up l s i) \<and> (case k of SRM \<Rightarrow> i \<noteq> a | SSN \<Rightarrow> i = a)))"

definition replaced :: "lsp_packet \<Rightarrow> nat option \<Rightarrow> nat \<Rightarrow> level \<Rightarrow> isis \<Rightarrow> isis \<Rightarrow> bool" where
  "replaced lsp gate p l s s' \<longleftrightarrow> lsps_kept s s' \<and> rec_lsp s' p = lsp\<lparr>lp_seqNumber := lp_seqNumber (rec_lsp s p) + 1\<rparr> \<and>
     (\<forall>q. q \<noteq> p \<longrightarrow> rec_lsp s' q = rec_lsp s q) \<and>
     (\<forall>k q i. i < n_if s \<longrightarrow> flag k s' q i = (if q = p then replace_flags gate l p s k i else flag k s q i))"

lemma mod_rec_flag: "keeps_flags f \<Longrightarrow> flag k (mod_rec p f s) q i = flag k s q i"
  by (cases k) (auto simp: flag_def flags_of_def keeps_flags_def)

lemma mod_rec_derived [simp]:
  "n_if (mod_rec p f s) = n_if s" "net (mod_rec p f s) i = net s i" "up l (mod_rec p f s) i = up l s i" "db (mod_rec p f s) = db s"
  "getIfaceIndex g (mod_rec p f s) = getIfaceIndex g s" "is_lspMaxLifetime (mod_rec p f s) = is_lspMaxLifetime s"
  by (simp_all add: n_if_def net_def up_def isUp_def db_def getIfaceIndex_def mod_rec_def fun_eq_iff)

lemma start_timer_facts [simp]:
  "flag k (start_timer now p s) q i = flag k s q i" "rec_lsp (start_timer now p s) q = rec_lsp s q"
  by (simp_all add: start_timer_def mod_rec_flag keeps_flags_def rec_lsp_def)

text \<open>The flags of a record after the flag operations of \<open>replaceLSP\<close>.\<close>

lemma run_replace_flags:
  assumes inv: "isis_inv s" and p: "p \<in> db s l" and gate: "case gate of None \<Rightarrow> True | Some g \<Rightarrow> 0 < n_if s"
  shows "run_ok (case gate of None \<Rightarrow> setSRMflags p l s
         | Some g \<Rightarrow> do { let i = getIfaceIndex g s; s2 \<leftarrow> setSRMflagsBut p i l s; f \<leftarrow> vec_at (is_ISISIft s) i;
             s3 \<leftarrow> (if \<not> ii_network f then setFlag SSN p i l s2 else Some s2); clearSSNflagsBut p i l s3 })
    (\<lambda>s'. flag_frame s s' \<and> flags_match (db s) s' \<and> (\<forall>k q i. i < n_if s \<longrightarrow> flag k s' q i = (if q = p then replace_flags gate l p s k i else flag k s q i)))"
proof (cases gate)
  case None
  have m: "flags_match (db s) s" using inv by (simp add: isis_inv_def)
  have "run_ok (setSRMflags p l s)
    (\<lambda>s'. flag_frame s s' \<and> flags_match (db s) s' \<and> (\<forall>k q i. i < n_if s \<longrightarrow> flag k s' q i = (if q = p then replace_flags None l p s k i else flag k s q i)))"
    unfolding setSRMflags_def
    by (rule run_ok_mono [OF run_all_flags [OF m p]]) (auto simp: row_flags_def replace_flags_def)
  then show ?thesis by (simp only: None option.case)
next
  case (Some g)
  define a where "a = getIfaceIndex g s"
  have a: "a < n_if s" using gate Some by (simp add: a_def getIfaceIndex_less)
  have m: "flags_match (db s) s" using inv by (simp add: isis_inv_def)
  have "run_ok (do { s2 \<leftarrow> all_flags SRM (\<lambda>j. j \<noteq> a) p l s; s3 \<leftarrow> (if \<not> net s a then setFlag SSN p a l s2 else Some s2); all_flags SSN (\<lambda>j. j = a) p l s3 })
    (\<lambda>s'. flag_frame s s' \<and> flags_match (db s) s' \<and> (\<forall>k q i. i < n_if s \<longrightarrow> flag k s' q i = (if q = p then replace_flags gate l p s k i else flag k s q i)))"
    unfolding run_ok_simps
  proof (rule run_ok_mono [OF run_all_flags [OF m p]])
    fix s2 assume r2: "row_flags (db s) SRM p (\<lambda>j. j \<noteq> a \<and> (flag SRM s p j \<or> up l s j)) s s2"
    then have m2: "flags_match (db s) s2" and fr2: "flag_frame s s2" by (simp_all add: row_flags_def)
    note d2 = flag_frame_derived [OF fr2]
    have "run_ok (if \<not> net s a then setFlag SSN p a l s2 else Some s2)
      (\<lambda>s3. flags_match (db s) s3 \<and> flag_frame s s3 \<and> (\<forall>k q i. i < n_if s \<longrightarrow>
         flag k s3 q i = (if k = SSN \<and> q = p \<and> i = a \<and> \<not> net s a then flag SSN s2 p a \<or> up l s a else flag k s2 q i)))"
    proof (cases "net s a")
      case False
      have "run_ok (setFlag SSN p a l s2) (one_flag (db s) SSN p a (flag SSN s2 p a \<or> up l s2 a) s2)"
        using a by (intro run_setFlag [OF m2 p]) (simp add: d2)
      then show ?thesis using False fr2 by (auto simp: one_flag_def d2 elim!: run_ok_mono intro: flag_frame_trans)
    qed (use m2 fr2 in simp)
    then show "run_ok (if \<not> net s a then setFlag SSN p a l s2 else Some s2) (\<lambda>s3. run_ok (all_flags SSN (\<lambda>j. j = a) p l s3)
      (\<lambda>s'. flag_frame s s' \<and> flags_match (db s) s' \<and> (\<forall>k q i. i < n_if s \<longrightarrow> flag k s' q i = (if q = p then replace_flags gate l p s k i else flag k s q i))))"
    proof (rule run_ok_mono)
      fix s3 assume s3: "flags_match (db s) s3 \<and> flag_frame s s3 \<and> (\<forall>k q i. i < n_if s \<longrightarrow>
         flag k s3 q i = (if k = SSN \<and> q = p \<and> i = a \<and> \<not> net s a then flag SSN s2 p a \<or> up l s a else flag k s2 q i))"
      then have m3: "flags_match (db s) s3" and fr3: "flag_frame s s3" by simp_all
      note d3 = flag_frame_derived [OF fr3]
      show "run_ok (all_flags SSN (\<lambda>j. j = a) p l s3)
        (\<lambda>s'. flag_frame s s' \<and> flags_match (db s) s' \<and> (\<forall>k q i. i < n_if s \<longrightarrow> flag k s' q i = (if q = p then replace_flags gate l p s k i else flag k s q i)))"
      proof (rule run_ok_mono [OF run_all_flags [OF m3 p]])
        fix s4 assume r4: "row_flags (db s) SSN p (\<lambda>j. j = a \<and> (flag SSN s3 p j \<or> up l s3 j)) s3 s4"
        have "flag k s4 q i = (if q = p then replace_flags gate l p s k i else flag k s q i)" if i: "i < n_if s" for k q i
        proof -
          have "flag k s4 q i = (if k = SSN \<and> q = p then i = a \<and> (flag SSN s3 p i \<or> up l s i) else flag k s3 q i)"
            using r4 i by (simp add: row_flags_def d3)
          moreover have "flag k s2 q i = (if k = SRM \<and> q = p then i \<noteq> a \<and> (flag SRM s p i \<or> up l s i) else flag k s q i)" for k
            using r2 i by (simp add: row_flags_def)
          ultimately show ?thesis using s3 i by (cases k) (auto simp: replace_flags_def Some a_def [symmetric])
        qed
        then show "flag_frame s s4 \<and> flags_match (db s) s4 \<and> (\<forall>k q i. i < n_if s \<longrightarrow> flag k s4 q i = (if q = p then replace_flags gate l p s k i else flag k s q i))"
          using r4 fr3 by (auto simp: row_flags_def intro: flag_frame_trans)
      qed
    qed
  qed
  moreover have "vec_at (is_ISISIft s) a = Some (is_ISISIft s ! a)" using a by (simp add: n_if_def)
  ultimately show ?thesis
    by (cases "net s a") (simp_all add: Some setSRMflagsBut_def clearSSNflagsBut_def a_def [symmetric] Let_def net_def)
qed

theorem run_replaceLSP:
  assumes inv: "isis_inv s" and p: "p \<in> db s l" and id: "lp_lspID lsp = lsp_id s p" and gate: "case gate of None \<Rightarrow> True | Some g \<Rightarrow> 0 < n_if s"
  shows "run_ok (replaceLSP now lsp gate p l s) (replaced lsp gate p l s)"
proof -
  define f :: "lsp_record \<Rightarrow> lsp_record" where "f = (\<lambda>r. r\<lparr>lr_LSP := lsp\<lparr>lp_seqNumber := lp_seqNumber (lr_LSP r) + 1\<rparr>\<rparr>)"
  have kf: "keeps_flags f" by (simp add: keeps_flags_def f_def)
  have k1: "lsps_kept s (mod_rec p f s)" using inv kf id by (intro kept_mod_rec) (simp_all add: f_def)
  then have inv1: "isis_inv (mod_rec p f s)" by auto
  have p1: "p \<in> db (mod_rec p f s) l" using p by simp
  have gate1: "case gate of None \<Rightarrow> True | Some g \<Rightarrow> 0 < n_if (mod_rec p f s)" using gate by (simp only: mod_rec_derived)
  have fl: "replace_flags gate l p (mod_rec p f s) = replace_flags gate l p s"
    by (intro ext) (simp add: replace_flags_def mod_rec_flag [OF kf] split: option.split flag_kind.split)
  have fin: "replaced lsp gate p l s (start_timer now p s2)"
    if s2: "flag_frame (mod_rec p f s) s2" "flags_match (db (mod_rec p f s)) s2"
      "\<forall>k q i. i < n_if (mod_rec p f s) \<longrightarrow> flag k s2 q i = (if q = p then replace_flags gate l p (mod_rec p f s) k i else flag k (mod_rec p f s) q i)" for s2
  proof -
    have k2: "lsps_kept (mod_rec p f s) s2" by (rule frame_kept [OF inv1 s2(1,2)])
    then have "lsps_kept s2 (start_timer now p s2)" by (intro kept_start_timer) auto
    then have k: "lsps_kept s (start_timer now p s2)" using k1 k2 by (blast intro: lsps_kept_trans)
    have r: "rec_lsp s2 q = rec_lsp (mod_rec p f s) q" for q using flag_frame_fields [OF s2(1)] by simp
    have fl2: "flag k s2 q i = (if q = p then replace_flags gate l p s k i else flag k s q i)" if "i < n_if s" for k q i
      using s2(3) [unfolded fl mod_rec_flag [OF kf]] that by simp
    show ?thesis using k fl2 by (simp add: replaced_def r) (simp add: rec_lsp_def f_def)
  qed
  note r = run_ok_mono [OF run_replace_flags [OF inv1 p1 gate1], of "\<lambda>s2. replaced lsp gate p l s (start_timer now p s2)"]
  have "run_ok (case gate of None \<Rightarrow> setSRMflags p l (mod_rec p f s)
         | Some g \<Rightarrow> do { let i = getIfaceIndex g (mod_rec p f s); s2 \<leftarrow> setSRMflagsBut p i l (mod_rec p f s); f' \<leftarrow> vec_at (is_ISISIft (mod_rec p f s)) i;
             s3 \<leftarrow> (if \<not> ii_network f' then setFlag SSN p i l s2 else Some s2); clearSSNflagsBut p i l s3 })
    (\<lambda>s2. replaced lsp gate p l s (start_timer now p s2))"
    by (rule r) (use fin in blast)
  then show ?thesis
    unfolding replaceLSP_def Let_def f_def [symmetric] by (simp only: run_ok_simps mod_rec_derived mod_rec_fields)
qed

section \<open>Purging and deleting\<close>

lemma run_setSRMflags: "isis_inv s \<Longrightarrow> p \<in> db s l \<Longrightarrow> run_ok (setSRMflags p l s) (lsps_kept s)"
  unfolding setSRMflags_def by (rule run_flags)

lemma run_mod_then:
  assumes "lsps_kept s s1" and "\<And>s2. lsps_kept s1 s2 \<Longrightarrow> lsps_kept s2 (g s2)" and "run_ok m (lsps_kept s1)"
  shows "run_ok m (\<lambda>s2. lsps_kept s (g s2))"
  using assms(3) by (rule run_ok_mono) (use assms(1,2) in \<open>blast intro: lsps_kept_trans\<close>)

theorem run_purge_mem:
  assumes "isis_inv s"
  shows "run_ok (purge_mem now v l s) (lsps_kept s)"
proof (cases "getLSPFromDbByID v l s")
  case None
  then show ?thesis using assms by (simp add: purge_mem_def lsps_kept_refl)
next
  case (Some p)
  define f :: "lsp_record \<Rightarrow> lsp_record" where "f = (\<lambda>r. r\<lparr>lr_LSP := (lr_LSP r)\<lparr>lp_remLifeTime := 0, lp_TLV := []\<rparr>\<rparr>)"
  define h :: "lsp_record \<Rightarrow> lsp_record" where "h = (\<lambda>r. r\<lparr>lr_simLifetime := now, lr_kind := LSP_DELETE, lr_due := now + sec (2 * uint (is_lspMaxLifetime s))\<rparr>)"
  have k1: "lsps_kept s (mod_rec p f s)" using assms by (intro kept_mod_rec) (simp_all add: f_def keeps_flags_def lsp_id_def rec_lsp_def)
  have k2: "lsps_kept s2 (mod_rec p h s2)" if "isis_inv s2" for s2
    using that by (intro kept_mod_rec) (simp_all add: h_def keeps_flags_def lsp_id_def rec_lsp_def)
  have "p \<in> db s l" using Some by (simp add: getLSP_in)
  then have "run_ok (setSRMflags p l (mod_rec p f s)) (\<lambda>s2. lsps_kept s (mod_rec p h s2))"
    using k1 k2 by (intro run_mod_then [OF k1] run_setSRMflags) auto
  then show ?thesis by (simp add: purge_mem_def Some f_def h_def)
qed

lemma flags_match_remove:
  assumes m: "flags_match (db s) s" and off: "\<forall>k i. i < n_if s \<longrightarrow> \<not> flag k s p i"
  shows "flags_match ((db s)(l := db s l - {p})) s"
proof -
  let ?P = "(db s)(l := db s l - {p})"
  have sub: "q \<in> ?P m \<Longrightarrow> q \<in> db s m" for q m by (simp split: if_splits)
  have eq: "q \<in> ?P m \<and> flag k s q i \<longleftrightarrow> q \<in> db s m \<and> flag k s q i" if "i < n_if s" for q m k i
    using off that by auto
  show ?thesis
    unfolding flags_match_def
  proof (intro conjI allI ballI impI)
    show "length (flag_queues k b m s) = n_if s" for k b m using m by (simp add: flags_match_def)
    show "length (flags_of k (is_heap s q)) = n_if s" if "q \<in> ?P m" for q m k using m sub [OF that] unfolding flags_match_def by blast
    show "m' = m''" if "q \<in> ?P m' \<and> q \<in> ?P m''" for q m' m''
    proof -
      have "q \<in> db s m'" "q \<in> db s m''" using sub that by blast+
      then show ?thesis using m unfolding flags_match_def by blast
    qed
    fix k m i assume i: "i < n_if s"
    show "distinct (queue k m s i)" "flag_queues k (\<not> net s i) m s ! i = []" using m i unfolding flags_match_def by blast+
    have "set (queue k m s i) = {\<lparr>fr_lspRec = p, fr_index = i\<rparr> |p. p \<in> db s m \<and> flag k s p i}" using m i unfolding flags_match_def by blast
    then show "set (queue k m s i) = {\<lparr>fr_lspRec = q, fr_index = i\<rparr> |q. q \<in> ?P m \<and> flag k s q i}" by (simp only: eq [OF i])
  qed
qed

lemma set_erase_one: "distinct xs \<Longrightarrow> set (erase_first (\<lambda>q. q = p) xs) = set xs - {p}"
  by (induction xs) auto

lemma distinct_erase_one: "distinct xs \<Longrightarrow> distinct (erase_first (\<lambda>q. q = p) xs)"
  using distinct_map_erase_first [of "\<lambda>x. x" xs] by simp

theorem run_deleteLSP:
  assumes inv: "isis_inv s"
  shows "run_ok (deleteLSP v l s) (kept_conf s)"
proof (cases "getLSPFromDbByID v l s")
  case None
  then show ?thesis using inv by (simp add: deleteLSP_def kept_conf_def)
next
  case (Some p)
  then have p: "p \<in> db s l" by (simp add: getLSP_in)
  have m: "flags_match (db s) s" using inv by (simp add: isis_inv_def)
  have "run_ok (clearSRMflags p l s) (\<lambda>s1. run_ok (clearSSNflags p l s1)
    (\<lambda>s2. kept_conf s (s2\<lparr>is_LSPDb := (is_LSPDb s2)(l := erase_first (\<lambda>q. q = p) (is_LSPDb s2 l))\<rparr>)))"
    unfolding clearSRMflags_def clearSSNflags_def
  proof (rule run_ok_mono [OF run_all_flags [OF m p]])
    fix s1 assume r1: "row_flags (db s) SRM p (\<lambda>j. False \<and> (flag SRM s p j \<or> up l s j)) s s1"
    then have m1: "flags_match (db s) s1" and k1: "lsps_kept s s1" using inv by (auto simp: row_flags_def intro: frame_kept)
    then have d1: "n_if s1 = n_if s" using kept_derived(1) [of s s1] by auto
    show "run_ok (all_flags SSN (\<lambda>_. False) p l s1) (\<lambda>s2. kept_conf s (s2\<lparr>is_LSPDb := (is_LSPDb s2)(l := erase_first (\<lambda>q. q = p) (is_LSPDb s2 l))\<rparr>))"
    proof (rule run_ok_mono [OF run_all_flags [OF m1 p]])
      fix s2 assume r2: "row_flags (db s) SSN p (\<lambda>j. False \<and> (flag SSN s1 p j \<or> up l s1 j)) s1 s2"
      have inv1: "isis_inv s1" "db s1 = db s" using k1 by (auto simp: kept_db)
      then have k12: "lsps_kept s1 s2" using r2 by (auto simp: row_flags_def intro: frame_kept)
      then have k2: "lsps_kept s s2" using k1 by (blast intro: lsps_kept_trans)
      then have c2: "is_LSPDb s2 = is_LSPDb s" "is_next s2 = is_next s" "lsp_id s2 = lsp_id s" "db s2 = db s" "n_if s2 = n_if s"
        using kept_derived(1) [of s s2] by (auto simp: lsps_kept_def db_def fun_eq_iff)
      define t where "t = s2\<lparr>is_LSPDb := (is_LSPDb s2)(l := erase_first (\<lambda>q. q = p) (is_LSPDb s2 l))\<rparr>"
      have off: "\<forall>k i. i < n_if s2 \<longrightarrow> \<not> flag k s2 p i"
      proof (intro allI impI)
        fix k i assume "i < n_if s2"
        then show "\<not> flag k s2 p i" using r1 r2 c2 d1 by (cases k) (simp_all add: row_flags_def)
      qed
      have ids: "distinct (is_LSPDb s m)" "inj_on (lsp_id s) (db s m)" "q \<in> db s m \<Longrightarrow> q < is_next s \<and> length (lsp_id s q) = 8" for m q
        using inv by (simp_all add: isis_inv_def ids_ok_def)
      have t: "is_LSPDb t = (is_LSPDb s)(l := erase_first (\<lambda>q. q = p) (is_LSPDb s l))" "is_next t = is_next s"
        by (simp_all add: t_def c2)
      have dt: "db t = (db s)(l := db s l - {p})" using ids(1) by (simp add: db_def t fun_eq_iff set_erase_one)
      have "flags_match (db t) t" unfolding dt using flags_match_remove [OF _ off] k2 c2 by (auto simp: isis_inv_def t_def)
      moreover have "lsp_id t = lsp_id s" using c2(3) by (simp add: lsp_id_def rec_lsp_def fun_eq_iff t_def)
      then have "ids_ok t"
        using ids by (auto simp: ids_ok_def dt t distinct_erase_one inj_on_def split: if_splits)
      ultimately have "isis_inv t" by (simp add: isis_inv_def)
      then have "kept_conf s t" using k2 by (simp add: lsps_kept_def kept_conf_def t_def)
      then show "kept_conf s (s2\<lparr>is_LSPDb := (is_LSPDb s2)(l := erase_first (\<lambda>q. q = p) (is_LSPDb s2 l))\<rparr>)" by (simp only: t_def)
    qed
  qed
  then show ?thesis by (simp add: deleteLSP_def Some)
qed


end
