(* ===== verification/Isis_Update_Events.thy ===== *)
theory Isis_Update_Events
  imports Isis_Update
begin

text \<open>
  The handlers and timers of the update process: each returns and keeps the invariant. What arrives must be well
  formed for the code (ids of 8 bytes, entries as long as their TLV says, a gate that has an interface), since it
  reads without checking.
\<close>

section \<open>LSPs that arrive\<close>

definition gate_ok :: "nat \<Rightarrow> isis \<Rightarrow> bool" where
  "gate_ok g s \<longleftrightarrow> getIfaceByGateIndex g s \<noteq> None"

lemma gate_ok_at:
  assumes "gate_ok g s"
  shows "getIfaceIndex g s < n_if s" "0 < n_if s" "vec_at (is_ISISIft s) (getIfaceIndex g s) = getIfaceByGateIndex g s"
    "getIfaceByGateIndex g s = Some (is_ISISIft s ! getIfaceIndex g s)"
proof -
  have ex: "\<exists>i\<in>set (is_ISISIft s). ii_gateIndex i = g" using assms by (auto simp: gate_ok_def getIfaceByGateIndex_def find_None_iff)
  then show n: "getIfaceIndex g s < n_if s" by (simp add: getIfaceIndex_def n_if_def)
  then show "0 < n_if s" by simp
  show v: "vec_at (is_ISISIft s) (getIfaceIndex g s) = getIfaceByGateIndex g s"
    using ex by (simp add: getIfaceIndex_def getIfaceByGateIndex_def vec_at_index_first)
  then show "getIfaceByGateIndex g s = Some (is_ISISIft s ! getIfaceIndex g s)" using n by (simp add: n_if_def)
qed

lemma kept_gate_ok: "kept_conf s s' \<Longrightarrow> gate_ok g s' = gate_ok g s"
  by (simp add: gate_ok_def kept_derived)

lemma getLSP_id: "isis_inv s \<Longrightarrow> getLSPFromDbByID v l s = Some p \<Longrightarrow> length v = 8 \<Longrightarrow> v = lsp_id s p"
  using getLSP_in [of v l s p] by (auto simp: isis_inv_def ids_ok_def)

lemma run_two_flags:
  assumes inv: "isis_inv s" and p: "p \<in> db s l" and i: "i < n_if s"
  shows "run_ok (do { s1 \<leftarrow> clearFlag j p i l s; setFlag k p i l s1 }) (lsps_kept s)"
    "run_ok (do { s1 \<leftarrow> setFlag k p i l s; clearFlag j p i l s1 }) (lsps_kept s)"
proof -
  have next1: "isis_inv s1 \<and> p \<in> db s1 l \<and> i < n_if s1" if "lsps_kept s s1" for s1
    using that p i kept_derived(1) [OF kept_kept_conf [OF that]] by (auto simp: kept_db)
  show "run_ok (do { s1 \<leftarrow> clearFlag j p i l s; setFlag k p i l s1 }) (lsps_kept s)"
    by (rule run_kept) (use next1 in \<open>blast intro: run_flags [OF inv p] i run_flags\<close>)+
  show "run_ok (do { s1 \<leftarrow> setFlag k p i l s; clearFlag j p i l s1 }) (lsps_kept s)"
    by (rule run_kept) (use next1 in \<open>blast intro: run_flags [OF inv p] i run_flags\<close>)+
qed

lemma run_same_lsp: "isis_inv s \<Longrightarrow> p \<in> db s l \<Longrightarrow> i < n_if s \<Longrightarrow> run_ok (same_lsp p i network l s) (lsps_kept s)"
  using run_two_flags(1) [of s p l i SRM SSN] run_flags(2) [of s p l i SRM] by (cases network) (simp_all add: same_lsp_def)

lemma run_older_lsp: "isis_inv s \<Longrightarrow> p \<in> db s l \<Longrightarrow> i < n_if s \<Longrightarrow> run_ok (older_lsp p i l s) (lsps_kept s)"
  unfolding older_lsp_def by (rule run_two_flags)

lemma run_mod_seq_set:
  assumes "isis_inv s" and "p \<in> db s l"
  shows "run_ok (setSRMflags p l (mod_seq n p s)) (lsps_kept s)"
proof -
  have k: "lsps_kept s (mod_seq n p s)" by (rule kept_mod_seq [OF assms(1)])
  then have "isis_inv (mod_seq n p s)" "p \<in> db (mod_seq n p s) l" using assms(2) by (auto simp: kept_db)
  then show ?thesis using k run_setSRMflags [of "mod_seq n p s" p l] by (auto elim!: run_ok_mono intro: lsps_kept_trans)
qed

lemma run_replace_kept:
  "isis_inv s \<Longrightarrow> p \<in> db s l \<Longrightarrow> lp_lspID lsp = lsp_id s p \<Longrightarrow> gate_ok g s \<Longrightarrow> run_ok (replaceLSP now lsp (Some g) p l s) (lsps_kept s)"
  by (rule run_ok_mono [OF run_replaceLSP]) (simp_all add: replaced_def gate_ok_at)

theorem run_purge_received:
  assumes inv: "isis_inv s" and g: "gate_ok g s" and len: "length (lp_lspID lsp) = 8"
  shows "run_ok (purge_received now lsp g l s) (lsps_kept s)"
proof (cases "getLSPFromDbByID (lp_lspID lsp) l s")
  case None
  then show ?thesis using inv by (simp add: purge_received_def lsps_kept_refl)
next
  case (Some p)
  then have p: "p \<in> db s l" and id: "lp_lspID lsp = lsp_id s p" using getLSP_in getLSP_id [OF inv Some len] by auto
  note i = gate_ok_at [OF g]
  show ?thesis
    using run_replace_kept [OF inv p id g] run_same_lsp [OF inv p i(1)] run_older_lsp [OF inv p i(1)] run_mod_seq_set [OF inv p]
      run_setSRMflags [OF inv p] lsps_kept_refl [OF inv] i(4)
    by (simp add: purge_received_def Some Let_def)
qed

theorem run_handleLsp:
  assumes inv: "isis_inv s" and g: "gate_ok g s" and len: "length (lp_lspID lsp) = 8"
  shows "run_ok (handleLsp now lsp mac g l s) (kept_conf s)"
proof (cases "getLSPFromDbByID (lp_lspID lsp) l s")
  case None
  have "run_ok (installLSP now lsp (Some g) l s) (kept_conf s)"
    using None len gate_ok_at [OF g] by (intro run_ok_mono [OF run_installLSP [OF inv]]) (simp_all add: new_id_def installed_def)
  then show ?thesis
    using None run_kept_mono [OF run_purge_received [OF inv g len]] lsps_kept_refl [OF inv] by (auto simp: handleLsp_def)
next
  case (Some p)
  then have p: "p \<in> db s l" and id: "lp_lspID lsp = lsp_id s p" using getLSP_in getLSP_id [OF inv Some len] by auto
  note i = gate_ok_at [OF g]
  have "run_ok (handleLsp now lsp mac g l s) (lsps_kept s)"
    using run_replace_kept [OF inv p id g] run_same_lsp [OF inv p i(1)] run_older_lsp [OF inv p i(1)] run_mod_seq_set [OF inv p]
      run_purge_received [OF inv g len] lsps_kept_refl [OF inv] i(3,4)
    by (simp add: handleLsp_def Some Let_def)
  then show ?thesis by (rule run_kept_mono)
qed

section \<open>Sequence number packets that arrive\<close>

text \<open>An LSP with sequence number 0 is entered without flags; the flag that is set next makes them.\<close>

lemma addFlags_enter_db:
  "addFlags p (enter_db now l p s) = enter_db now l p (addFlags p s)"
  by (cases "is_heap s p"; cases s) (simp add: enter_db_def start_timer_def addFlags_def mod_rec_def Let_def)

lemma run_request:
  assumes inv: "isis_inv s" and new: "new_id l s (lp_lspID lsp)" and seq: "lp_seqNumber lsp = 0" and i: "i < n_if s"
  shows "run_ok (do { s1 \<leftarrow> installLSP now lsp None l s; setFlag SSN (is_next s) i l s1 })
    (installed l lsp (\<lambda>k j. k = SSN \<and> j = i \<and> up l s i) s)"
proof -
  let ?p = "is_next s"
  have "installLSP now lsp None l s = Some (enter_db now l ?p (add_rec lsp s))"
    using seq by (simp add: installLSP_def enter_db_def add_rec_def Let_def start_timer_def)
  moreover have "no_flags ?p (enter_db now l ?p (add_rec lsp s))"
    by (simp add: no_flags_def enter_db_def start_timer_def add_rec_def new_record_def)
  then have "setFlag SSN ?p i l (enter_db now l ?p (add_rec lsp s)) = setFlag SSN ?p i l (enter_db now l ?p (added lsp s))"
    using flag_ops_addFlags(1) [of ?p "enter_db now l ?p (add_rec lsp s)" SSN i l] by (simp add: addFlags_enter_db added_def)
  moreover have "run_ok (setFlag SSN ?p i l (enter_db now l ?p (added lsp s))) (installed l lsp (\<lambda>k j. k = SSN \<and> j = i \<and> up l s i) s)"
  proof -
    let ?t = "enter_db now l ?p (added lsp s)"
    have t: "installed l lsp (\<lambda>k j. False) s ?t"
      by (intro installed_enter [OF inv new]) (simp_all add: flags_match_added [OF inv] added_flag)
    then have it: "isis_inv ?t" and kt: "kept_conf s ?t" by (auto simp: installed_def)
    have pt: "?p \<in> db ?t l" using t by (simp add: installed_def db_def)
    note d = kept_derived [OF kt]
    have m: "flags_match (db ?t) ?t" using it by (simp add: isis_inv_def)
    show ?thesis
    proof (rule run_ok_mono [OF run_setFlag [OF m pt]])
      show "i < n_if ?t" using i d by simp
      fix s' assume o: "one_flag (db ?t) SSN ?p i (flag SSN ?t ?p i \<or> up l ?t i) ?t s'"
      then have k: "lsps_kept ?t s'" by (rule one_flag_kept [OF it])
      have r: "rec_lsp s' q = rec_lsp ?t q" for q using o flag_frame_fields [of ?t s'] by (simp add: one_flag_def)
      have kc: "kept_conf s s'" using kt k by (blast intro: kept_conf_trans)
      have "flag j s' q n = (if j = SSN \<and> q = ?p \<and> n = i then flag SSN ?t ?p i \<or> up l s i else flag j ?t q n)" if "n < n_if s" for j q n
        using o that d by (simp add: one_flag_def)
      then show "installed l lsp (\<lambda>k j. k = SSN \<and> j = i \<and> up l s i) s s'"
        using t kc k i by (auto simp: installed_def r lsps_kept_def)
    qed
  qed
  ultimately show ?thesis by simp
qed

lemma run_handle_entry:
  assumes inv: "isis_inv s" and i: "i < n_if s" and len: "length (sn_lspID e) = 8"
  shows "run_ok (handle_entry now network i l e s) (kept_conf s)"
proof (cases "getLSPFromDbByID (sn_lspID e) l s")
  case None
  have "run_ok (do { s1 \<leftarrow> installLSP now (empty_lsp l s e) None l s; setFlag SSN (is_next s) i l s1 }) (kept_conf s)"
    using None len by (intro run_ok_mono [OF run_request [OF inv]]) (simp_all add: new_id_def empty_lsp_def installed_def i)
  then show ?thesis using None lsps_kept_refl [OF inv] by (auto simp: handle_entry_def)
next
  case (Some p)
  then have p: "p \<in> db s l" using getLSP_in by blast
  have "run_ok (handle_entry now network i l e s) (lsps_kept s)"
    using run_two_flags [OF inv p i, of SSN SRM] run_two_flags [OF inv p i, of SRM SSN] run_flags(1) [OF inv p i, of SSN] run_flags(2) [OF inv p i, of SRM]
      lsps_kept_refl [OF inv]
    by (cases network) (simp_all add: handle_entry_def Some Let_def)
  then show ?thesis by (rule run_kept_mono)
qed

lemma run_handle_entries:
  "isis_inv s \<Longrightarrow> i < n_if s \<Longrightarrow> \<forall>e\<in>set es. length (sn_lspID e) = 8 \<Longrightarrow> run_ok (handle_entries now network i l es s) (kept_conf s)"
proof (induction es arbitrary: s)
  case Nil
  then show ?case by (auto intro: lsps_kept_refl)
next
  case (Cons e es)
  show ?case
    unfolding handle_entries.simps
  proof (rule run_kept_conf)
    show "run_ok (handle_entry now network i l e s) (kept_conf s)" using Cons.prems by (intro run_handle_entry) simp_all
    fix s1 assume k: "kept_conf s s1"
    then have "isis_inv s1" "i < n_if s1" using Cons.prems(2) kept_derived(1) [OF k] by auto
    then show "run_ok (handle_entries now network i l es s1) (kept_conf s1)" using Cons by simp
  qed
qed

lemma read_entry_id: "read_entry v i = Some e \<Longrightarrow> length (sn_lspID e) = 8"
  by (auto simp: read_entry_def split: if_splits)

lemma those_map_Some: "those (map f xs) = Some ys \<Longrightarrow> y \<in> set ys \<Longrightarrow> \<exists>x\<in>set xs. f x = Some y"
  by (induction xs arbitrary: ys) (auto split: option.splits)

lemma snp_entries_id: "snp_entries ts = Some es \<Longrightarrow> e \<in> set es \<Longrightarrow> length (sn_lspID e) = 8"
proof -
  assume a: "snp_entries ts = Some es" "e \<in> set es"
  then obtain ess es' where e: "those (map tlv_entries (tlvs_from ts LSP_ENTRIES 0)) = Some ess" "es' \<in> set ess" "e \<in> set es'"
    by (auto simp: snp_entries_def)
  obtain t where t: "tlv_entries t = Some es'" using those_map_Some [OF e(1,2)] by blast
  obtain i where "read_entry (tlv_value t) i = Some e" using those_map_Some [OF t [unfolded tlv_entries_def] e(3)] by blast
  then show ?thesis by (rule read_entry_id)
qed

theorem run_handlePsnp:
  assumes inv: "isis_inv s" and g: "gate_ok g s" and ts: "snp_entries ts \<noteq> None"
  shows "run_ok (handlePsnp now src ts mac g l s) (kept_conf s)"
proof -
  obtain es where es: "snp_entries ts = Some es" using ts by blast
  note i = gate_ok_at [OF g]
  have "run_ok (handle_entries now (ii_network (is_ISISIft s ! getIfaceIndex g s)) (getIfaceIndex g s) l es s) (kept_conf s)"
    using snp_entries_id [OF es] by (intro run_handle_entries inv i) blast
  moreover have "\<exists>d. amIDIS (getIfaceIndex g s) l s = Some d" by (simp add: amIDIS_def i)
  ultimately show ?thesis using lsps_kept_refl [OF inv] by (auto simp: handlePsnp_def i(4) es Let_def)
qed

lemma kept_conf_sort_db:
  assumes inv: "isis_inv s"
  shows "kept_conf s (sort_db addr l s)"
proof -
  let ?t = "sort_db addr l s"
  have d: "db ?t = db s" by (simp add: db_def sort_db_def fun_eq_iff)
  have id: "lsp_id ?t = lsp_id s" by (simp add: lsp_id_def rec_lsp_def sort_db_def fun_eq_iff)
  have "flags_match (db s) ?t" using inv by (simp add: isis_inv_def sort_db_def)
  moreover have "distinct (is_LSPDb ?t m)" for m using inv by (simp add: isis_inv_def ids_ok_def sort_db_def)
  moreover have "is_next ?t = is_next s" by (simp add: sort_db_def)
  ultimately have "isis_inv ?t" using inv by (simp add: isis_inv_def ids_ok_def d id)
  then show ?thesis by (simp add: kept_conf_def) (simp add: sort_db_def)
qed

theorem run_handleCsnp:
  assumes inv: "isis_inv s" and g: "gate_ok g s" and ts: "snp_entries ts \<noteq> None" and range: "getLspRange start endId l s = []"
  shows "run_ok (handleCsnp addr now src start endId ts mac g l s) (kept_conf s)"
proof -
  obtain es where es: "snp_entries ts = Some es" using ts by blast
  note i = gate_ok_at [OF g]
  have k: "kept_conf s (sort_db addr l s)" by (rule kept_conf_sort_db [OF inv])
  then have "run_ok (handle_entries now (ii_network (is_ISISIft s ! getIfaceIndex g s)) (getIfaceIndex g s) l es (sort_db addr l s)) (kept_conf (sort_db addr l s))"
    using snp_entries_id [OF es] i(1) kept_derived(1) [OF k] by (intro run_handle_entries) auto
  then have "run_ok (handle_entries now (ii_network (is_ISISIft s ! getIfaceIndex g s)) (getIfaceIndex g s) l es (sort_db addr l s)) (kept_conf s)"
    using k by (auto elim: run_ok_mono intro: kept_conf_trans)
  then show ?thesis using lsps_kept_refl [OF inv] by (auto simp: handleCsnp_def i(4) es range Let_def)
qed

end
