(* ===== verification/Isis_Update_Send.thy ===== *)
theory Isis_Update_Send
  imports Isis_Update_Events
begin

text \<open>
  What the update process sends and generates: the periodic sending of LSPs, partial and complete sequence number
  packets, the refreshing and generating of the LSPs of this system. Each returns and keeps the invariant; the
  lemmas also say what is sent, and when the loop that purges the remaining fragments ends.
\<close>

section \<open>Sending LSPs\<close>

text \<open>The LSP as it is sent: its remaining lifetime is brought up to date.\<close>

definition aged :: "simtime \<Rightarrow> lsp_record \<Rightarrow> lsp_packet" where
  "aged now r = (if lr_kind r = LSP_DELETE then lr_LSP r
     else (lr_LSP r)\<lparr>lp_remLifeTime := (if lr_simLifetime r < now then 1 else word_of_int ((lr_simLifetime r - now) div sec 1))\<rparr>)"

definition age :: "simtime \<Rightarrow> lsp_record \<Rightarrow> lsp_record" where
  "age now r = r\<lparr>lr_LSP := aged now r\<rparr>"

lemma aged_age [simp]: "aged now (age now r) = aged now r"
  by (simp add: age_def aged_def)

lemma sendLSP_eq: "sendLSP now p g s = (mod_rec p (age now) s)\<lparr>is_out := is_out s @ [Send_LSP (aged now (is_heap s p)) g]\<rparr>"
proof (cases "lr_kind (is_heap s p) = LSP_DELETE")
  case True
  then have "mod_rec p (age now) s = s" by (simp add: mod_rec_def age_def aged_def)
  then show ?thesis using True by (simp add: sendLSP_def Let_def rec_lsp_def aged_def)
next
  case False
  then show ?thesis by (simp add: sendLSP_def Let_def rec_lsp_def aged_def mod_rec_def age_def)
qed

lemma keeps_flags_age: "keeps_flags (age now)"
  by (simp add: keeps_flags_def age_def)

lemma kept_sendLSP: "isis_inv s \<Longrightarrow> lsps_kept s (sendLSP now p g s)"
proof -
  assume inv: "isis_inv s"
  have "lsps_kept s (mod_rec p (age now) s)"
    using inv keeps_flags_age by (rule kept_mod_rec) (simp add: age_def aged_def lsp_id_def rec_lsp_def)
  then show ?thesis unfolding sendLSP_eq by (blast intro: lsps_kept_trans lsps_kept_out)
qed

text \<open>What every step of the sending keeps: the LSPs as they are sent, and what was sent.\<close>

definition sends :: "simtime \<Rightarrow> isis \<Rightarrow> isis_out list \<Rightarrow> isis \<Rightarrow> bool" where
  "sends now s out s' \<longleftrightarrow> lsps_kept s s' \<and> (\<forall>p. aged now (is_heap s' p) = aged now (is_heap s p)) \<and> is_out s' = is_out s @ out"

lemma sends_refl: "isis_inv s \<Longrightarrow> sends now s [] s"
  by (simp add: sends_def lsps_kept_refl)

lemma sends_trans: "sends now s o1 s1 \<Longrightarrow> sends now s1 o2 s2 \<Longrightarrow> sends now s (o1 @ o2) s2"
  by (auto simp: sends_def intro: lsps_kept_trans)

lemma sends_sendLSP: "isis_inv s \<Longrightarrow> sends now s [Send_LSP (aged now (is_heap s p)) g] (sendLSP now p g s)"
  using kept_sendLSP [of s now p g] by (simp add: sends_def sendLSP_eq)

lemma flag_sendLSP [simp]: "flag k (sendLSP now p g s) q i = flag k s q i"
proof -
  have "flag k (s1\<lparr>is_out := x\<rparr>) q i = flag k s1 q i" for s1 :: isis and x by (simp add: flag_def)
  then show ?thesis by (simp add: sendLSP_eq mod_rec_flag [OF keeps_flags_age])
qed

lemma queue_sendLSP [simp]: "queue k l (sendLSP now p g s) i = queue k l s i"
proof -
  have "flag_queues k b l (s1\<lparr>is_out := x\<rparr>) = flag_queues k b l s1" for b and s1 :: isis and x by (cases k) (simp_all add: flag_queues_def)
  then show ?thesis by (simp add: queue_def net_def sendLSP_eq)
qed

definition lsp_sent :: "simtime \<Rightarrow> isis \<Rightarrow> flag_record \<Rightarrow> isis_out" where
  "lsp_sent now s r = Send_LSP (aged now (is_heap s (fr_lspRec r))) (ii_gateIndex (is_ISISIft s ! fr_index r))"

lemma sends_sent: "sends now s out s' \<Longrightarrow> lsp_sent now s' r = lsp_sent now s r"
  by (simp add: sends_def lsp_sent_def lsps_kept_def kept_conf_def)

lemma run_send_all:
  "isis_inv s \<Longrightarrow> \<forall>r\<in>set rs. fr_index r < n_if s \<Longrightarrow>
   run_ok (send_all now rs s) (\<lambda>s'. sends now s (map (lsp_sent now s) rs) s' \<and> (\<forall>k p i. flag k s' p i = flag k s p i) \<and> (\<forall>k i. queue k l s' i = queue k l s i))"
proof (induction rs arbitrary: s)
  case Nil
  then show ?case by (simp add: sends_refl)
next
  case (Cons r rs)
  let ?s1 = "sendLSP now (fr_lspRec r) (ii_gateIndex (is_ISISIft s ! fr_index r)) s"
  have s1: "sends now s [lsp_sent now s r] ?s1" using Cons.prems(1) unfolding lsp_sent_def by (rule sends_sendLSP)
  then have k: "lsps_kept s ?s1" by (simp add: sends_def)
  have i: "vec_at (is_ISISIft s) (fr_index r) = Some (is_ISISIft s ! fr_index r)" using Cons.prems(2) by (simp add: n_if_def)
  have "run_ok (send_all now rs ?s1) (\<lambda>s'. sends now ?s1 (map (lsp_sent now ?s1) rs) s' \<and> (\<forall>k p i. flag k s' p i = flag k ?s1 p i) \<and> (\<forall>k i. queue k l s' i = queue k l ?s1 i))"
    using Cons.prems(2) k kept_derived(1) [OF kept_kept_conf [OF k]] by (intro Cons.IH) auto
  moreover have "lsp_sent now ?s1 = lsp_sent now s" using sends_sent [OF s1] by (simp add: fun_eq_iff)
  ultimately have "run_ok (send_all now rs ?s1) (\<lambda>s'. sends now s (map (lsp_sent now s) (r # rs)) s' \<and> (\<forall>k p i. flag k s' p i = flag k s p i) \<and> (\<forall>k i. queue k l s' i = queue k l s i))"
    using sends_trans [OF s1] by (auto elim!: run_ok_mono)
  then show ?case by (simp only: send_all.simps i run_ok_simps)
qed

lemma in_queue:
  assumes "isis_inv s" and "i < n_if s"
  shows "r \<in> set (queue k l s i) \<longleftrightarrow> fr_index r = i \<and> fr_lspRec r \<in> db s l \<and> flag k s (fr_lspRec r) i"
proof -
  have "set (queue k l s i) = {\<lparr>fr_lspRec = p, fr_index = i\<rparr> |p. p \<in> db s l \<and> flag k s p i}"
    using assms unfolding isis_inv_def flags_match_def by blast
  then show ?thesis by (cases r) auto
qed

lemma inv_queues:
  assumes "isis_inv s"
  shows "length (flag_queues k b l s) = n_if s" "i < n_if s \<Longrightarrow> flag_queues k b l s ! i = (if b = net s i then queue k l s i else [])"
    "i < n_if s \<Longrightarrow> distinct (queue k l s i)"
proof -
  show "length (flag_queues k b l s) = n_if s" using assms by (simp add: isis_inv_def flags_match_def)
  assume i: "i < n_if s"
  then have "flag_queues k (\<not> net s i) l s ! i = []" and d: "distinct (queue k l s i)" using assms unfolding isis_inv_def flags_match_def by blast+
  then show "flag_queues k b l s ! i = (if b = net s i then queue k l s i else [])" by (cases b; cases "net s i") (simp_all add: queue_def)
  show "distinct (queue k l s i)" by (rule d)
qed

lemma set_concat_nth: "r \<in> set (concat xss) \<longleftrightarrow> (\<exists>i<length xss. r \<in> set (xss ! i))"
  by simp (metis in_set_conv_nth)

text \<open>The records of the point-to-point queues.\<close>

lemma ptp_queues:
  assumes "isis_inv s"
  shows "set (concat (is_SRMPTPQueue s l)) = {r. fr_index r < n_if s \<and> \<not> net s (fr_index r) \<and> fr_lspRec r \<in> db s l \<and> flag SRM s (fr_lspRec r) (fr_index r)}"
proof -
  have q: "is_SRMPTPQueue s l = flag_queues SRM False l s" by (simp add: flag_queues_def)
  have "set (concat (is_SRMPTPQueue s l)) = {r. \<exists>i<n_if s. r \<in> set (flag_queues SRM False l s ! i)}"
    using inv_queues(1) [OF assms, of SRM False l] unfolding q by (simp only: set_eq_iff set_concat_nth mem_Collect_eq) simp
  moreover have "r \<in> set (flag_queues SRM False l s ! i) \<longleftrightarrow> \<not> net s i \<and> fr_index r = i \<and> fr_lspRec r \<in> db s l \<and> flag SRM s (fr_lspRec r) i"
    if "i < n_if s" for r i using that inv_queues(2) [OF assms that, of SRM False l] in_queue [OF assms that, of r SRM l] by auto
  ultimately show ?thesis by auto
qed

text \<open>One interface of the second loop.\<close>

definition drawn :: "level \<Rightarrow> (nat \<Rightarrow> nat \<Rightarrow> nat) \<Rightarrow> isis \<Rightarrow> nat \<Rightarrow> flag_record list" where
  "drawn l draw s i = (if net s i \<and> queue SRM l s i \<noteq> [] then [queue SRM l s i ! draw i (length (queue SRM l s i))] else [])"

definition draw_ok :: "(nat \<Rightarrow> nat \<Rightarrow> nat) \<Rightarrow> bool" where
  "draw_ok draw \<longleftrightarrow> (\<forall>i n. 0 < n \<longrightarrow> draw i n < n)"

lemma drawn_in: "draw_ok draw \<Longrightarrow> r \<in> set (drawn l draw s i) \<Longrightarrow> net s i \<and> r \<in> set (queue SRM l s i)"
  by (auto simp: drawn_def draw_ok_def split: if_splits)

definition other_queues :: "level \<Rightarrow> nat \<Rightarrow> isis \<Rightarrow> isis \<Rightarrow> bool" where
  "other_queues l i s s' \<longleftrightarrow> (\<forall>j. j \<noteq> i \<longrightarrow> j < n_if s \<longrightarrow> queue SRM l s' j = queue SRM l s j) \<and>
     (\<forall>k p j. j < n_if s \<longrightarrow> (k, j) \<noteq> (SRM, i) \<longrightarrow> flag k s' p j = flag k s p j)"

lemma clearFlag_queues:
  assumes inv: "isis_inv s" and i: "i < n_if s" and run: "clearFlag k p i l s = Some s'" and j: "j \<noteq> i" "j < n_if s"
  shows "queue k' l s' j = queue k' l s j"
proof -
  have q: "vec_at (flag_queues k (net s i) l s) i = Some (queue k l s i)" using i inv_queues(1) [OF inv, of k "net s i" l] by (simp add: queue_def)
  have "s' = set_queue k (net s i) l i (filter (\<lambda>r. \<not> (fr_index r = i \<and> fr_lspRec r = p)) (queue k l s i)) (mod_rec p (set_flag k i False) s)"
  proof (cases "vec_at (flags_of k (is_heap s p)) i")
    case None
    then show ?thesis using run i q by (simp add: clearFlag_def n_if_def net_def)
  next
    case (Some b)
    then show ?thesis using run i q by (simp add: clearFlag_def n_if_def net_def)
  qed
  then show ?thesis using j(1) by (simp add: queue_def net_def flag_queues_set_queue)
qed

lemma run_send_one:
  assumes inv: "isis_inv s" and i: "i < n_if s" and draw: "draw_ok draw"
  shows "run_ok (send_one now l draw i s) (\<lambda>s'. sends now s (map (lsp_sent now s) (drawn l draw s i)) s' \<and> other_queues l i s s' \<and>
    (\<forall>p. flag SRM s' p i = (flag SRM s p i \<and> \<lparr>fr_lspRec = p, fr_index = i\<rparr> \<notin> set (drawn l draw s i))))"
proof -
  have q: "vec_at (is_SRMBQueue s l) i = Some (if net s i then queue SRM l s i else [])"
    using i inv_queues(1) [OF inv, of SRM True l] inv_queues(2) [OF inv i, of SRM True l] by (simp add: flag_queues_def vec_at_def)
  show ?thesis
  proof (cases "net s i \<and> queue SRM l s i \<noteq> []")
    case False
    then have "send_one now l draw i s = Some s" "drawn l draw s i = []" using q by (auto simp: send_one_def drawn_def)
    then show ?thesis by (simp add: sends_refl [OF inv] other_queues_def)
  next
    case True
    define n where "n = draw i (length (queue SRM l s i))"
    define r where "r = queue SRM l s i ! n"
    have n: "n < length (queue SRM l s i)" using draw True by (simp add: n_def draw_ok_def)
    then have r: "fr_index r = i" "fr_lspRec r \<in> db s l" "flag SRM s (fr_lspRec r) i"
      using in_queue [OF inv i, of r SRM l] by (simp_all add: r_def)
    have dr: "drawn l draw s i = [r]" using True by (simp add: drawn_def r_def n_def)
    let ?s1 = "sendLSP now (fr_lspRec r) (ii_gateIndex (is_ISISIft s ! i)) s"
    have s1: "sends now s [lsp_sent now s r] ?s1" using sends_sendLSP [OF inv] r(1) by (simp add: lsp_sent_def)
    then have k: "lsps_kept s ?s1" by (simp add: sends_def)
    then have inv1: "isis_inv ?s1" and p1: "fr_lspRec r \<in> db ?s1 l" and n1: "n_if ?s1 = n_if s"
      using r(2) kept_derived(1) [OF kept_kept_conf [OF k]] by (auto simp: kept_db)
    have m1: "flags_match (db ?s1) ?s1" using inv1 by (simp add: isis_inv_def)
    have i1: "i < n_if ?s1" using i n1 by simp
    obtain s' where s': "clearFlag SRM (fr_lspRec r) i l ?s1 = Some s'" "one_flag (db ?s1) SRM (fr_lspRec r) i False ?s1 s'"
      using run_clearFlag [OF m1 p1 i1, of SRM] by (auto simp: run_ok_ex)
    have fr: "flag_frame ?s1 s'" using s'(2) by (simp add: one_flag_def)
    have "lsps_kept ?s1 s'" by (rule one_flag_kept [OF inv1 s'(2)])
    moreover have "aged now (is_heap s' p) = aged now (is_heap ?s1 p)" for p
      using flag_frame_fields [OF fr] by (simp add: aged_def rec_lsp_def)
    moreover have "is_out s' = is_out ?s1" using flag_frame_fields [OF fr] by simp
    ultimately have "sends now ?s1 [] s'" by (simp add: sends_def)
    then have "sends now s [lsp_sent now s r] s'" using sends_trans [OF s1] by fastforce
    moreover have "other_queues l i s s'"
      using clearFlag_queues [OF inv1 i1 s'(1)] s'(2) n1 by (auto simp: other_queues_def one_flag_def)
    moreover have "flag SRM s' p i = (flag SRM s p i \<and> p \<noteq> fr_lspRec r)" for p
      using s'(2) i n1 by (auto simp: one_flag_def)
    moreover have "send_one now l draw i s = Some s'"
      using q True n r(1) i s'(1) by (simp add: send_one_def n_def [symmetric] r_def [symmetric] n_if_def)
    moreover have "\<lparr>fr_lspRec = p, fr_index = i\<rparr> \<notin> set [r] \<longleftrightarrow> p \<noteq> fr_lspRec r" for p
      using r(1) by (cases r) auto
    ultimately show ?thesis by (simp only: dr list.map run_ok_simps) simp
  qed
qed

text \<open>All interfaces.\<close>

definition sends_drawn :: "simtime \<Rightarrow> level \<Rightarrow> (nat \<Rightarrow> nat \<Rightarrow> nat) \<Rightarrow> nat list \<Rightarrow> isis \<Rightarrow> isis \<Rightarrow> bool" where
  "sends_drawn now l draw is s s' \<longleftrightarrow> sends now s (concat (map (\<lambda>i. map (lsp_sent now s) (drawn l draw s i)) is)) s' \<and>
     (\<forall>k p i. i < n_if s \<longrightarrow> flag k s' p i = (flag k s p i \<and> \<not> (k = SRM \<and> i \<in> set is \<and> \<lparr>fr_lspRec = p, fr_index = i\<rparr> \<in> set (drawn l draw s i))))"

lemma run_send_each:
  "isis_inv s \<Longrightarrow> \<forall>i\<in>set is. i < n_if s \<Longrightarrow> distinct is \<Longrightarrow> draw_ok draw \<Longrightarrow> run_ok (each_interface (send_one now l draw) is s) (sends_drawn now l draw is s)"
proof (induction "is" arbitrary: s)
  case Nil
  then show ?case by (simp add: sends_drawn_def sends_refl)
next
  case (Cons i js)
  have i: "i < n_if s" using Cons.prems by simp
  show ?case
    unfolding each_interface.simps run_ok_simps
  proof (rule run_ok_mono [OF run_send_one [OF Cons.prems(1) i Cons.prems(4)]])
    fix s1 assume s1: "sends now s (map (lsp_sent now s) (drawn l draw s i)) s1 \<and> other_queues l i s s1 \<and>
      (\<forall>p. flag SRM s1 p i = (flag SRM s p i \<and> \<lparr>fr_lspRec = p, fr_index = i\<rparr> \<notin> set (drawn l draw s i)))"
    then have k: "lsps_kept s s1" and snt: "lsp_sent now s1 = lsp_sent now s" using sends_sent [of now s _ s1] by (auto simp: sends_def fun_eq_iff)
    then have inv1: "isis_inv s1" and n1: "n_if s1 = n_if s" and net1: "net s1 j = net s j" for j using kept_derived [OF kept_kept_conf [OF k]] by auto
    have dr: "drawn l draw s1 j = drawn l draw s j" if "j \<in> set js" for j
    proof -
      have "j \<noteq> i" "j < n_if s" using that Cons.prems(2,3) by auto
      then have "queue SRM l s1 j = queue SRM l s j" using s1 by (auto simp: other_queues_def)
      then show ?thesis by (simp add: drawn_def net1)
    qed
    have f1: "flag k s1 p j = (flag k s p j \<and> \<not> (k = SRM \<and> j = i \<and> \<lparr>fr_lspRec = p, fr_index = i\<rparr> \<in> set (drawn l draw s i)))" if "j < n_if s" for k p j
      using s1 that by (cases "(k, j) = (SRM, i)") (auto simp: other_queues_def)
    have "run_ok (each_interface (send_one now l draw) js s1) (sends_drawn now l draw js s1)"
      using Cons.prems inv1 n1 by (intro Cons.IH) auto
    then show "run_ok (each_interface (send_one now l draw) js s1) (sends_drawn now l draw (i # js) s)"
    proof (rule run_ok_mono)
      fix s2 assume s2: "sends_drawn now l draw js s1 s2"
      have eq: "map (\<lambda>i. map (lsp_sent now s1) (drawn l draw s1 i)) js = map (\<lambda>i. map (lsp_sent now s) (drawn l draw s i)) js" by (simp add: dr snt)
      have "sends now s (concat (map (\<lambda>i. map (lsp_sent now s) (drawn l draw s i)) (i # js))) s2"
        using sends_trans [of now s _ s1 _ s2] s1 s2 by (simp add: sends_drawn_def eq)
      moreover have "flag k s2 p j = (flag k s p j \<and> \<not> (k = SRM \<and> j \<in> set (i # js) \<and> \<lparr>fr_lspRec = p, fr_index = j\<rparr> \<in> set (drawn l draw s j)))" if "j < n_if s" for k p j
      proof -
        have "flag k s2 p j = (flag k s1 p j \<and> \<not> (k = SRM \<and> j \<in> set js \<and> \<lparr>fr_lspRec = p, fr_index = j\<rparr> \<in> set (drawn l draw s1 j)))"
          using s2 that n1 by (simp add: sends_drawn_def)
        then show ?thesis using f1 [OF that] dr [of j] by auto
      qed
      ultimately show "sends_drawn now l draw (i # js) s s2" by (simp add: sends_drawn_def)
    qed
  qed
qed

definition periodic_out :: "simtime \<Rightarrow> level \<Rightarrow> (nat \<Rightarrow> nat \<Rightarrow> nat) \<Rightarrow> isis \<Rightarrow> isis_out list" where
  "periodic_out now l draw s = map (lsp_sent now s) (concat (is_SRMPTPQueue s l)) @ concat (map (\<lambda>i. map (lsp_sent now s) (drawn l draw s i)) [0..<n_if s])"

theorem run_periodicSend:
  assumes inv: "isis_inv s" and draw: "draw_ok draw"
  shows "run_ok (periodicSend now l draw s) (\<lambda>s'. sends now s (periodic_out now l draw s) s' \<and>
    (\<forall>k p i. i < n_if s \<longrightarrow> flag k s' p i = (flag k s p i \<and> \<not> (k = SRM \<and> \<lparr>fr_lspRec = p, fr_index = i\<rparr> \<in> set (drawn l draw s i)))))"
proof -
  let ?rs = "concat (is_SRMPTPQueue s l)"
  have "\<forall>r\<in>set ?rs. fr_index r < n_if s" unfolding ptp_queues [OF inv] by simp
  then have "run_ok (send_all now ?rs s) (\<lambda>s1. sends now s (map (lsp_sent now s) ?rs) s1 \<and> (\<forall>k p i. flag k s1 p i = flag k s p i) \<and> (\<forall>k i. queue k l s1 i = queue k l s i))"
    by (rule run_send_all [OF inv])
  then show ?thesis
    unfolding periodicSend_def run_ok_simps
  proof (rule run_ok_mono)
    fix s1 assume s1: "sends now s (map (lsp_sent now s) ?rs) s1 \<and> (\<forall>k p i. flag k s1 p i = flag k s p i) \<and> (\<forall>k i. queue k l s1 i = queue k l s i)"
    then have k: "lsps_kept s s1" and snt: "lsp_sent now s1 = lsp_sent now s" using sends_sent [of now s _ s1] by (auto simp: sends_def fun_eq_iff)
    then have inv1: "isis_inv s1" and n1: "n_if s1 = n_if s" and net1: "net s1 j = net s j" for j using kept_derived [OF kept_kept_conf [OF k]] by auto
    have len: "length (is_SRMBQueue s1 l) = n_if s" using inv_queues(1) [OF inv1, of SRM True l] n1 by (simp add: flag_queues_def)
    have dr: "drawn l draw s1 i = drawn l draw s i" for i using s1 by (simp add: drawn_def net1)
    have "run_ok (each_interface (send_one now l draw) [0..<n_if s] s1) (sends_drawn now l draw [0..<n_if s] s1)"
      using inv1 n1 draw by (intro run_send_each) auto
    then show "run_ok (each_interface (send_one now l draw) [0..<length (is_SRMBQueue s1 l)] s1) (\<lambda>s'. sends now s (periodic_out now l draw s) s' \<and>
      (\<forall>k p i. i < n_if s \<longrightarrow> flag k s' p i = (flag k s p i \<and> \<not> (k = SRM \<and> \<lparr>fr_lspRec = p, fr_index = i\<rparr> \<in> set (drawn l draw s i)))))"
      unfolding len
    proof (rule run_ok_mono)
      fix s2 assume "sends_drawn now l draw [0..<n_if s] s1 s2"
      then have s2: "sends now s1 (concat (map (\<lambda>i. map (lsp_sent now s) (drawn l draw s i)) [0..<n_if s])) s2"
        "\<And>k p i. i < n_if s \<Longrightarrow> flag k s2 p i = (flag k s p i \<and> \<not> (k = SRM \<and> \<lparr>fr_lspRec = p, fr_index = i\<rparr> \<in> set (drawn l draw s i)))"
        using s1 by (auto simp: sends_drawn_def snt dr n1)
      have "sends now s (periodic_out now l draw s) s2" using s1 s2(1) unfolding periodic_out_def by (blast intro: sends_trans)
      then show "sends now s (periodic_out now l draw s) s2 \<and>
        (\<forall>k p i. i < n_if s \<longrightarrow> flag k s2 p i = (flag k s p i \<and> \<not> (k = SRM \<and> \<lparr>fr_lspRec = p, fr_index = i\<rparr> \<in> set (drawn l draw s i))))"
        using s2(2) by blast
    qed
  qed
qed

section \<open>Sequence number packets\<close>

lemma run_sendCsnp: "isis_inv s \<Longrightarrow> i < n_if s \<Longrightarrow> run_ok (sendCsnp i g l s) (lsps_kept s)"
  by (simp add: sendCsnp_def amIDIS_def n_if_def lsps_kept_out lsps_kept_refl)

definition entry_of :: "isis \<Rightarrow> flag_record \<Rightarrow> u8 list" where
  "entry_of s r = entry_bytes (rec_lsp s (fr_lspRec r))"

text \<open>The flags of the first \<open>n\<close> records of the queue are cleared.\<close>

definition acked :: "nat \<Rightarrow> level \<Rightarrow> nat \<Rightarrow> isis \<Rightarrow> isis \<Rightarrow> bool" where
  "acked i l n s s' \<longleftrightarrow> lsps_kept s s' \<and> flag_frame s s' \<and> queue SSN l s' i = drop n (queue SSN l s i) \<and>
     (\<forall>k p j. j < n_if s \<longrightarrow> flag k s' p j = (flag k s p j \<and> \<not> (k = SSN \<and> \<lparr>fr_lspRec = p, fr_index = j\<rparr> \<in> set (take n (queue SSN l s i)))))"

lemma run_ack_one:
  assumes inv: "isis_inv s" and i: "i < n_if s" and q: "queue SSN l s i = r # rs"
  shows "run_ok (clearFlag SSN (fr_lspRec r) (fr_index r) l s) (acked i l 1 s)"
proof -
  have r: "fr_index r = i" "fr_lspRec r \<in> db s l" "flag SSN s (fr_lspRec r) i" using in_queue [OF inv i, of r SSN l] q by simp_all
  have rr: "r = \<lparr>fr_lspRec = fr_lspRec r, fr_index = i\<rparr>" using r(1) by (cases r) simp
  have m: "flags_match (db s) s" using inv by (simp add: isis_inv_def)
  obtain s' where s': "clearFlag SSN (fr_lspRec r) i l s = Some s'" "one_flag (db s) SSN (fr_lspRec r) i False s s'"
    using run_clearFlag [OF m r(2) i, of SSN] by (auto simp: run_ok_ex)
  have d: "distinct (r # rs)" using inv_queues(3) [OF inv i, of SSN l] q by simp
  have at: "vec_at (flag_queues SSN (net s i) l s) i = Some (r # rs)" using i inv_queues(1) [OF inv, of SSN "net s i" l] q by (simp add: queue_def)
  have "filter (\<lambda>x. \<not> (fr_index x = i \<and> fr_lspRec x = fr_lspRec r)) (r # rs) = rs"
  proof -
    have "\<forall>x\<in>set rs. \<not> (fr_index x = i \<and> fr_lspRec x = fr_lspRec r)" using d rr by (metis distinct.simps(2) flag_record.surjective old.unit.exhaust)
    then show ?thesis using r(1) by simp
  qed
  then have "s' = set_queue SSN (net s i) l i rs (mod_rec (fr_lspRec r) (set_flag SSN i False) s)"
    using s'(1) at flags_match_at(3) [OF m r(2) i, of SSN] i by (simp add: clearFlag_def n_if_def net_def)
  then have "queue SSN l s' i = rs"
    using i inv_queues(1) [OF inv, of SSN "net s i" l] by (simp add: queue_def net_def flag_queues_set_queue)
  moreover have "flag k s' p j = (flag k s p j \<and> \<not> (k = SSN \<and> \<lparr>fr_lspRec = p, fr_index = j\<rparr> = r))" if "j < n_if s" for k p j
    using s'(2) that by (subst rr) (auto simp: one_flag_def)
  ultimately show ?thesis
    using s' one_flag_kept [OF inv s'(2)] r(1) by (simp add: acked_def q one_flag_def)
qed

lemma acked_0: "isis_inv s \<Longrightarrow> acked i l 0 s s"
  by (simp add: acked_def lsps_kept_refl)

lemma acked_trans:
  assumes "acked i l m s s1" and "acked i l n s1 s2"
  shows "acked i l (m + n) s s2"
proof -
  have k: "lsps_kept s s2" "n_if s1 = n_if s" using assms kept_derived(1) [OF kept_kept_conf, of s s1] by (auto simp: acked_def intro: lsps_kept_trans)
  have "take (m + n) (queue SSN l s i) = take m (queue SSN l s i) @ take n (queue SSN l s1 i)" using assms(1) by (simp add: acked_def take_add)
  moreover have "queue SSN l s2 i = drop (m + n) (queue SSN l s i)" using assms by (simp add: acked_def add.commute)
  ultimately show ?thesis using assms k by (auto simp: acked_def intro: flag_frame_trans)
qed

lemma acked_entry: "acked i l n s s' \<Longrightarrow> entry_of s' = entry_of s"
  using flag_frame_fields(11) [of s s'] by (simp add: acked_def entry_of_def fun_eq_iff)

lemma acked_net: "acked i l n s s' \<Longrightarrow> net s' j = net s j" "acked i l n s s' \<Longrightarrow> n_if s' = n_if s" "acked i l n s s' \<Longrightarrow> isis_inv s'"
  using kept_derived [OF kept_kept_conf, of s s'] by (auto simp: acked_def)

lemma room_eq: "m \<le> 15 \<Longrightarrow> room pl (16 * m) \<longleftrightarrow> m < 15"
proof -
  assume "m \<le> 15"
  moreover have "unat pl < 256" using unsigned_less [of pl, where ?'a = nat] by simp
  ultimately show ?thesis by (auto simp: room_def)
qed

lemma run_psnp_fill:
  "isis_inv s \<Longrightarrow> i < n_if s \<Longrightarrow> m \<le> 15 \<Longrightarrow>
   run_ok (psnp_fill i (net s i) l pl (16 * m) s) (\<lambda>(v, s'). acked i l (15 - m) s s' \<and> v = concat (map (entry_of s) (take (15 - m) (queue SSN l s i))))"
proof (induction "15 - m" arbitrary: m s)
  case 0
  then have "m = 15" by simp
  have at: "vec_at (flag_queues SSN (net s i) l s) i = Some (queue SSN l s i)" using 0 inv_queues(1) [of s SSN "net s i" l] by (simp add: queue_def)
  have "\<not> room pl (16 * m)" using room_eq [of m pl] \<open>m = 15\<close> by simp
  then have "psnp_fill i (net s i) l pl (16 * m) s = Some ([], s)" by (subst psnp_fill.simps) (simp add: at)
  then show ?case using 0 \<open>m = 15\<close> acked_0 [of s i l] by simp
next
  case (Suc k)
  then have m: "m < 15" "k = 15 - Suc m" by auto
  have at: "vec_at (flag_queues SSN (net s i) l s) i = Some (queue SSN l s i)" using Suc.prems inv_queues(1) [of s SSN "net s i" l] by (simp add: queue_def)
  have room: "room pl (16 * m)" using room_eq [of m pl] m(1) by simp
  show ?case
  proof (cases "queue SSN l s i")
    case Nil
    then have "psnp_fill i (net s i) l pl (16 * m) s = Some ([], s)" by (subst psnp_fill.simps) (simp add: at)
    then show ?thesis using acked_0 [OF Suc.prems(1), of i l] Nil by (simp add: acked_def)
  next
    case (Cons r rs)
    have e: "15 - m = Suc (15 - Suc m)" using m(1) by simp
    have step: "psnp_fill i (net s i) l pl (16 * m) s = Option.bind (clearFlag SSN (fr_lspRec r) (fr_index r) l s) (\<lambda>s1.
         Option.bind (psnp_fill i (net s i) l pl (16 * Suc m) s1) (\<lambda>(v, s2). Some (entry_of s r @ v, s2)))"
      by (subst psnp_fill.simps) (simp add: at Cons room entry_of_def add.commute)
    show ?thesis
      unfolding step run_ok_simps
    proof (rule run_ok_mono [OF run_ack_one [OF Suc.prems(1,2) Cons]])
      fix s1 assume a1: "acked i l 1 s s1"
      have q1: "queue SSN l s1 i = rs" using a1 Cons by (simp add: acked_def)
      have "run_ok (psnp_fill i (net s1 i) l pl (16 * Suc m) s1)
        (\<lambda>(v, s'). acked i l (15 - Suc m) s1 s' \<and> v = concat (map (entry_of s1) (take (15 - Suc m) (queue SSN l s1 i))))"
        using Suc.prems m acked_net [OF a1] by (intro Suc.hyps) simp_all
      then show "run_ok (psnp_fill i (net s i) l pl (16 * Suc m) s1) (\<lambda>x. run_ok (case x of (v, s2) \<Rightarrow> Some (entry_of s r @ v, s2))
        (\<lambda>(v, s'). acked i l (15 - m) s s' \<and> v = concat (map (entry_of s) (take (15 - m) (queue SSN l s i)))))"
        unfolding acked_net(1) [OF a1]
      proof (rule run_ok_mono)
        fix x assume "case x of (v, s') \<Rightarrow> acked i l (15 - Suc m) s1 s' \<and> v = concat (map (entry_of s1) (take (15 - Suc m) (queue SSN l s1 i)))"
        then show "run_ok (case x of (v, s2) \<Rightarrow> Some (entry_of s r @ v, s2))
          (\<lambda>(v, s'). acked i l (15 - m) s s' \<and> v = concat (map (entry_of s) (take (15 - m) (queue SSN l s i))))"
          using acked_trans [OF a1, of "15 - Suc m"] acked_entry [OF a1] q1 by (cases x) (simp add: e Cons)
      qed
    qed
  qed
qed

text \<open>All of the queue is acknowledged, 15 entries to a TLV.\<close>

fun entry_tlvs :: "nat \<Rightarrow> 'a list \<Rightarrow> ('a \<Rightarrow> u8 list) \<Rightarrow> tlv list" where
  "entry_tlvs 0 rs b = []"
| "entry_tlvs (Suc n) rs b = (if rs = [] then [] else entries_tlv (concat (map b (take 15 rs))) # entry_tlvs n (drop 15 rs) b)"

lemma run_psnp_tlvs:
  "isis_inv s \<Longrightarrow> i < n_if s \<Longrightarrow> length (queue SSN l s i) \<le> n \<Longrightarrow>
   run_ok (psnp_tlvs i (net s i) l pl s) (\<lambda>(ts, s'). acked i l (length (queue SSN l s i)) s s' \<and> ts = entry_tlvs n (queue SSN l s i) (entry_of s))"
proof (induction n arbitrary: s pl)
  case 0
  have at: "vec_at (flag_queues SSN (net s i) l s) i = Some (queue SSN l s i)" using 0 inv_queues(1) [of s SSN "net s i" l] by (simp add: queue_def)
  have "psnp_tlvs i (net s i) l pl s = Some ([], s)" using 0 by (subst psnp_tlvs.simps) (simp add: at)
  then show ?case using 0 acked_0 [of s i l] by simp
next
  case (Suc n)
  have at: "vec_at (flag_queues SSN (net s i) l s) i = Some (queue SSN l s i)" using Suc.prems inv_queues(1) [of s SSN "net s i" l] by (simp add: queue_def)
  show ?case
  proof (cases "queue SSN l s i = []")
    case True
    then have "psnp_tlvs i (net s i) l pl s = Some ([], s)" by (subst psnp_tlvs.simps) (simp add: at)
    then show ?thesis using True acked_0 [OF Suc.prems(1), of i l] by simp
  next
    case False
    have step: "psnp_tlvs i (net s i) l pl s = Option.bind (psnp_fill i (net s i) l pl (16 * 0) s) (\<lambda>(v, s1).
         Option.bind (psnp_tlvs i (net s i) l (pl + of_nat (length v) + 2) s1) (\<lambda>(ts, s2). Some (entries_tlv v # ts, s2)))"
      using False by (subst psnp_tlvs.simps) (simp add: at)
    show ?thesis
      unfolding step run_ok_simps
    proof (rule run_ok_mono [OF run_psnp_fill [OF Suc.prems(1,2)]])
      fix x assume "case x of (v, s') \<Rightarrow> acked i l (15 - 0) s s' \<and> v = concat (map (entry_of s) (take (15 - 0) (queue SSN l s i)))"
      then obtain v s1 where x: "x = (v, s1)" and a1: "acked i l 15 s s1" and v: "v = concat (map (entry_of s) (take 15 (queue SSN l s i)))" by (cases x) simp
      have q1: "queue SSN l s1 i = drop 15 (queue SSN l s i)" using a1 by (simp add: acked_def)
      have "length (queue SSN l s1 i) \<le> n" using False Suc.prems(3) unfolding q1 by (cases "queue SSN l s i") simp_all
      then have r: "run_ok (psnp_tlvs i (net s1 i) l (pl + of_nat (length v) + 2) s1)
        (\<lambda>(ts, s'). acked i l (length (queue SSN l s1 i)) s1 s' \<and> ts = entry_tlvs n (queue SSN l s1 i) (entry_of s1))"
        using Suc.prems acked_net [OF a1] by (intro Suc.IH) simp_all
      have acc: "acked i l (length (queue SSN l s i)) s s2" if "acked i l (length (queue SSN l s1 i)) s1 s2" for s2
      proof -
        have a: "acked i l (15 + length (queue SSN l s1 i)) s s2" by (rule acked_trans [OF a1 that])
        have "take (15 + length (queue SSN l s1 i)) (queue SSN l s i) = take (length (queue SSN l s i)) (queue SSN l s i)"
          "drop (15 + length (queue SSN l s1 i)) (queue SSN l s i) = drop (length (queue SSN l s i)) (queue SSN l s i)"
          unfolding q1 by simp_all
        then show ?thesis using a unfolding acked_def by simp
      qed
      show "run_ok (case x of (v, s1) \<Rightarrow> Option.bind (psnp_tlvs i (net s i) l (pl + of_nat (length v) + 2) s1) (\<lambda>(ts, s2). Some (entries_tlv v # ts, s2)))
        (\<lambda>(ts, s'). acked i l (length (queue SSN l s i)) s s' \<and> ts = entry_tlvs (Suc n) (queue SSN l s i) (entry_of s))"
        unfolding x case_prod_conv run_ok_simps
        using r unfolding acked_net(1) [OF a1]
        by (rule run_ok_mono) (use acc acked_entry [OF a1] False v q1 in auto)
    qed simp
  qed
qed

theorem run_sendPsnp:
  assumes inv: "isis_inv s" and i: "i < n_if s"
  shows "run_ok (sendPsnp i g l s) (\<lambda>s'. lsps_kept s s' \<and>
    (\<not> (amIDIS i l s = Some True) \<and> queue SSN l s i \<noteq> [] \<longrightarrow>
       queue SSN l s' i = [] \<and> is_out s' = is_out s @ [Send_PSNP l (entry_tlvs (length (queue SSN l s i)) (queue SSN l s i) (entry_of s)) g]))"
proof -
  obtain d where d: "amIDIS i l s = Some d" using i by (simp add: amIDIS_def n_if_def)
  have at: "vec_at (flag_queues SSN (net s i) l s) i = Some (queue SSN l s i)" using i inv_queues(1) [OF inv, of SSN "net s i" l] by (simp add: queue_def)
  show ?thesis
  proof (cases "d \<or> queue SSN l s i = []")
    case True
    then have "sendPsnp i g l s = Some s" using d at i by (simp add: sendPsnp_def n_if_def net_def)
    then show ?thesis using True d lsps_kept_refl [OF inv] by auto
  next
    case False
    let ?Q = "\<lambda>s'. lsps_kept s s' \<and> (\<not> (amIDIS i l s = Some True) \<and> queue SSN l s i \<noteq> [] \<longrightarrow>
       queue SSN l s' i = [] \<and> is_out s' = is_out s @ [Send_PSNP l (entry_tlvs (length (queue SSN l s i)) (queue SSN l s i) (entry_of s)) g])"
    have step: "sendPsnp i g l s = Option.bind (psnp_tlvs i (net s i) l 0 s) (\<lambda>(ts, s1). Some (s1\<lparr>is_out := is_out s1 @ [Send_PSNP l ts g]\<rparr>))"
      using False d at i by (simp add: sendPsnp_def n_if_def net_def)
    show ?thesis
      unfolding step run_ok_simps
    proof (rule run_ok_mono [OF run_psnp_tlvs [OF inv i order_refl]])
      fix x assume "case x of (ts, s') \<Rightarrow> acked i l (length (queue SSN l s i)) s s' \<and> ts = entry_tlvs (length (queue SSN l s i)) (queue SSN l s i) (entry_of s)"
      then obtain ts s1 where x: "x = (ts, s1)" and a: "acked i l (length (queue SSN l s i)) s s1" and ts: "ts = entry_tlvs (length (queue SSN l s i)) (queue SSN l s i) (entry_of s)"
        by (cases x) simp
      have k: "lsps_kept s s1" and q: "queue SSN l s1 i = []" and f: "flag_frame s s1" using a by (simp_all add: acked_def)
      have "lsps_kept s (s1\<lparr>is_out := is_out s1 @ [Send_PSNP l ts g]\<rparr>)" using k by (blast intro: lsps_kept_trans lsps_kept_out)
      moreover have "queue SSN l (s1\<lparr>is_out := y\<rparr>) i = queue SSN l s1 i" for y by (simp add: queue_def net_def flag_queues_def)
      ultimately have "?Q (s1\<lparr>is_out := is_out s1 @ [Send_PSNP l ts g]\<rparr>)" using q flag_frame_fields(6) [OF f] ts by simp
      then show "run_ok (case x of (ts, s1) \<Rightarrow> Some (s1\<lparr>is_out := is_out s1 @ [Send_PSNP l ts g]\<rparr>)) ?Q"
        unfolding x case_prod_conv run_ok_simps by blast
    qed
  qed
qed


end
