(* ===== verification/Isis_Update_Own.thy ===== *)
theory Isis_Update_Own
  imports Isis_Update_Send
begin

text \<open>
  The LSPs of this system: refreshing them, purging those that are no longer generated, and installing or replacing
  those that are. The loop that purges the remaining fragments ends exactly when one of the 256 is missing.
\<close>

section \<open>Refreshing\<close>

lemma run_each_kept:
  "isis_inv s \<Longrightarrow> (\<And>x s1. x \<in> set xs \<Longrightarrow> lsps_kept s s1 \<Longrightarrow> run_ok (f x s1) (lsps_kept s1)) \<Longrightarrow> run_ok (each_interface f xs s) (lsps_kept s)"
proof (induction xs arbitrary: s)
  case Nil
  then show ?case by (simp add: lsps_kept_refl)
next
  case (Cons x xs)
  show ?case
    unfolding each_interface.simps
  proof (rule run_kept)
    show "run_ok (f x s) (lsps_kept s)" using Cons.prems lsps_kept_refl by simp
    fix s1 assume k: "lsps_kept s s1"
    show "run_ok (each_interface f xs s1) (lsps_kept s1)"
      using k Cons.prems(2) by (intro Cons.IH) (auto intro: lsps_kept_trans)
  qed
qed

lemma run_refresh_one:
  assumes inv: "isis_inv s" and p: "p \<in> db s l"
  shows "run_ok (refresh_one now l p s) (lsps_kept s)"
proof -
  define f :: "lsp_record \<Rightarrow> lsp_record" where "f = (\<lambda>r. r\<lparr>lr_LSP := (lr_LSP r)\<lparr>lp_seqNumber := lp_seqNumber (lr_LSP r) + 1, lp_remLifeTime := is_lspMaxLifetime s\<rparr>\<rparr>)"
  define h :: "lsp_record \<Rightarrow> lsp_record" where "h = (\<lambda>r. r\<lparr>lr_simLifetime := now + lifetime (lr_LSP r), lr_due := now + lifetime (lr_LSP r)\<rparr>)"
  have k1: "lsps_kept s (mod_rec p f s)" using inv by (intro kept_mod_rec) (simp_all add: f_def keeps_flags_def lsp_id_def rec_lsp_def)
  have k2: "lsps_kept s2 (mod_rec p h s2)" if "isis_inv s2" for s2
    using that by (intro kept_mod_rec) (simp_all add: h_def keeps_flags_def lsp_id_def rec_lsp_def)
  have "run_ok (setSRMflags p l (mod_rec p f s)) (\<lambda>s2. lsps_kept s (mod_rec p h s2))"
    using p k1 k2 by (intro run_mod_then [OF k1] run_setSRMflags) auto
  then show ?thesis using lsps_kept_refl [OF inv] by (simp add: refresh_one_def f_def h_def)
qed

theorem run_refreshLSP: "isis_inv s \<Longrightarrow> run_ok (refreshLSP now l s) (lsps_kept s)"
  unfolding refreshLSP_def
  by (rule run_each_kept) (auto simp: kept_db db_def [symmetric] intro!: run_refresh_one)

theorem run_purgeMyLSPs: "isis_inv s \<Longrightarrow> run_ok (purgeMyLSPs now l s) (lsps_kept s)"
  unfolding purgeMyLSPs_def
  by (rule run_each_kept) (auto intro: run_purge_mem lsps_kept_refl)

section \<open>Purging the remaining fragments\<close>

definition fragment :: "isis_id \<Rightarrow> u8 \<Rightarrow> isis_id" where
  "fragment v f = v[7 := f]"

lemma next_fragment_eq: "length v = 8 \<Longrightarrow> next_fragment v = fragment v (v ! 7 + 1)"
  by (simp add: next_fragment_def fragment_def)

lemma fragment_fragment [simp]: "fragment (fragment v f) g = fragment v g"
  by (simp add: fragment_def)

lemma run_purgeRemainLSP:
  "isis_inv s \<Longrightarrow> length v = 8 \<Longrightarrow> getLSPFromDbByID (fragment v (v ! 7 + of_nat n)) l s = None \<Longrightarrow> run_ok (purgeRemainLSP now v l s) (lsps_kept s)"
proof (induction n arbitrary: v s)
  case 0
  then have "getLSPFromDbByID v l s = None" by (simp add: fragment_def)
  then show ?case using 0 by (subst purgeRemainLSP.simps) (simp add: lsps_kept_refl)
next
  case (Suc n)
  show ?case
  proof (cases "getLSPFromDbByID v l s = None")
    case True
    then show ?thesis using Suc.prems by (subst purgeRemainLSP.simps) (simp add: lsps_kept_refl)
  next
    case False
    have "run_ok (Option.bind (purge_mem now v l s) (\<lambda>s1. purgeRemainLSP now (next_fragment v) l s1)) (lsps_kept s)"
    proof (rule run_kept)
      show "run_ok (purge_mem now v l s) (lsps_kept s)" by (rule run_purge_mem [OF Suc.prems(1)])
      fix s1 assume k: "lsps_kept s s1"
      have "fragment (next_fragment v) (next_fragment v ! 7 + of_nat n) = fragment v (v ! 7 + of_nat (Suc n))"
        using Suc.prems(2) by (simp add: next_fragment_eq) (simp add: fragment_def ac_simps)
      then show "run_ok (purgeRemainLSP now (next_fragment v) l s1) (lsps_kept s1)"
        using k Suc.prems kept_getLSP [OF k] by (intro Suc.IH) (auto simp: next_fragment_def)
    qed
    then show ?thesis using False lsps_kept_refl [OF Suc.prems(1)] by (subst purgeRemainLSP.simps) simp
  qed
qed

lemma fragment_reached: "\<exists>n. (f :: u8) = g + of_nat n"
  by (rule exI [of _ "unat (f - g)"]) simp

lemma purgeRemainLSP_all:
  assumes "isis_inv s" and "length v = 8" and "\<forall>f. getLSPFromDbByID (fragment v f) l s \<noteq> None"
  shows "purgeRemainLSP now v l s = None"
proof (rule ccontr)
  let ?all = "\<lambda>v l s. isis_inv s \<and> length v = 8 \<and> (\<forall>f. getLSPFromDbByID (fragment v f) l s \<noteq> None)"
  assume "purgeRemainLSP now v l s \<noteq> None"
  then obtain y where y: "purgeRemainLSP now v l s = Some y" by blast
  have "\<not> ?all v l s"
  proof (rule purgeRemainLSP.raw_induct [where P = "\<lambda>now v l s y. \<not> ?all v l s", OF _ y])
    fix rec now v l s y
    assume ih: "\<And>now v l s y. rec now v l s = Some y \<Longrightarrow> \<not> ?all v l s"
      and run: "(if getLSPFromDbByID v l s = None then Some s else Option.bind (purge_mem now v l s) (rec now (next_fragment v) l)) = Some y"
    show "\<not> ?all v l s"
    proof
      assume a: "?all v l s"
      then have "fragment v (v ! 7) = v" by (simp add: fragment_def)
      then have "getLSPFromDbByID v l s \<noteq> None" using a by metis
      then obtain s1 where s1: "purge_mem now v l s = Some s1" "rec now (next_fragment v) l s1 = Some y" using run by (auto split: bind_splits)
      then have k: "lsps_kept s s1" using run_purge_mem [of s now v l] a by simp
      have "?all (next_fragment v) l s1"
        using a k kept_getLSP [OF k] by (auto simp: next_fragment_eq) (simp add: fragment_def)
      then show False using ih [OF s1(2)] by blast
    qed
  qed
  then show False using assms by blast
qed

theorem purgeRemainLSP_returns:
  assumes "isis_inv s" and "length v = 8"
  shows "purgeRemainLSP now v l s \<noteq> None \<longleftrightarrow> (\<exists>f. getLSPFromDbByID (fragment v f) l s = None)"
proof
  assume a: "purgeRemainLSP now v l s \<noteq> None"
  show "\<exists>f. getLSPFromDbByID (fragment v f) l s = None"
  proof (rule ccontr)
    assume "\<not> (\<exists>f. getLSPFromDbByID (fragment v f) l s = None)"
    then have "purgeRemainLSP now v l s = None" using assms by (intro purgeRemainLSP_all) simp_all
    then show False using a by simp
  qed
next
  assume "\<exists>f. getLSPFromDbByID (fragment v f) l s = None"
  then obtain f where f: "getLSPFromDbByID (fragment v f) l s = None" by blast
  obtain n where "f = v ! 7 + of_nat n" using fragment_reached by blast
  then have "run_ok (purgeRemainLSP now v l s) (lsps_kept s)" using f assms by (intro run_purgeRemainLSP) simp_all
  then show "purgeRemainLSP now v l s \<noteq> None" by (auto simp: run_ok_ex)
qed

section \<open>Generating\<close>

lemma installed_getLSP:
  assumes inv: "isis_inv s" and s': "installed l lsp v s s'" and len: "length (lp_lspID lsp) = 8" "length w = 8"
  shows "getLSPFromDbByID w l s' = None \<longleftrightarrow> getLSPFromDbByID w l s = None \<and> w \<noteq> lp_lspID lsp"
proof -
  have "p \<noteq> is_next s" if "p \<in> db s l" for p using inv that by (auto simp: isis_inv_def ids_ok_def)
  then have "\<forall>p\<in>db s l. lsp_id s' p = lsp_id s p" using s' by (auto simp: installed_def lsp_id_def)
  moreover have "lsp_id s' (is_next s) = lp_lspID lsp" using s' by (simp add: installed_def lsp_id_def)
  moreover have "is_LSPDb s' l = is_LSPDb s l @ [is_next s]" using s' by (simp add: installed_def)
  ultimately show ?thesis using len by (auto simp: getLSP_lsp_id find_None_iff db_def compareArrays_def)
qed

definition own_packet :: "lsp_packet \<Rightarrow> bool" where
  "own_packet p \<longleftrightarrow> length (lp_lspID p) = 8 \<and> lp_lspID p ! 7 = 0 \<and> lp_seqNumber p > 0"

definition frag_free :: "level \<Rightarrow> isis \<Rightarrow> isis_id \<Rightarrow> bool" where
  "frag_free l s v \<longleftrightarrow> (\<exists>f. f \<noteq> 0 \<and> getLSPFromDbByID (fragment v f) l s = None)"

lemma run_install_all:
  "isis_inv s \<Longrightarrow> \<forall>p\<in>set ps. own_packet p \<and> getLSPFromDbByID (lp_lspID p) l s = None \<Longrightarrow> distinct (map lp_lspID ps) \<Longrightarrow>
   run_ok (install_all now l ps s) (kept_conf s)"
proof (induction ps arbitrary: s)
  case Nil
  then show ?case by (auto intro: lsps_kept_refl)
next
  case (Cons p ps)
  have "run_ok (installLSP now p None l s) (installed l p (install_flags None l s) s)"
    using Cons.prems by (intro run_installLSP) (simp_all add: own_packet_def new_id_def)
  then show ?case
    unfolding install_all.simps run_ok_simps
  proof (rule run_ok_mono)
    fix s1 assume s1: "installed l p (install_flags None l s) s s1"
    then have k: "kept_conf s s1" by (simp add: installed_def)
    have "getLSPFromDbByID (lp_lspID q) l s1 = None" if "q \<in> set ps" for q
    proof -
      have "lp_lspID q \<noteq> lp_lspID p" using Cons.prems(3) that by (metis distinct.simps(2) image_eqI list.set_map list.simps(9))
      then show ?thesis using installed_getLSP [OF Cons.prems(1) s1, of "lp_lspID q"] Cons.prems(2) that by (simp add: own_packet_def)
    qed
    then have "run_ok (install_all now l ps s1) (kept_conf s1)" using k Cons.prems(2,3) by (intro Cons.IH) auto
    then show "run_ok (install_all now l ps s1) (kept_conf s)" using k by (auto elim: run_ok_mono intro: kept_conf_trans)
  qed
qed

lemma run_update_own:
  "isis_inv s \<Longrightarrow> \<forall>p\<in>set ps. own_packet p \<and> frag_free l s (lp_lspID p) \<Longrightarrow> run_ok (update_own now l ps s) (kept_conf s)"
proof (induction ps arbitrary: s)
  case Nil
  then show ?case by (auto intro: lsps_kept_refl)
next
  case (Cons p ps)
  let ?first = "case getLSPFromDbByID (lp_lspID p) l s of
           Some r \<Rightarrow> if compareLSP (rec_lsp s r) p then Some s else replaceLSP now p None r l s
         | None \<Rightarrow> installLSP now p None l s"
  let ?Q = "\<lambda>s1. kept_conf s s1 \<and> (\<forall>v. length v = 8 \<longrightarrow> frag_free l s v \<longrightarrow> frag_free l s1 v)"
  have own: "own_packet p" using Cons.prems by simp
  have "run_ok ?first ?Q"
  proof (cases "getLSPFromDbByID (lp_lspID p) l s")
    case None
    have "run_ok (installLSP now p None l s) (installed l p (install_flags None l s) s)"
      using own None Cons.prems(1) by (intro run_installLSP) (simp_all add: own_packet_def new_id_def)
    then have "run_ok (installLSP now p None l s) ?Q"
    proof (rule run_ok_mono)
      fix s1 assume s1: "installed l p (install_flags None l s) s s1"
      have "frag_free l s1 v" if v: "length v = 8" "frag_free l s v" for v
      proof -
        obtain f where f: "f \<noteq> 0" "getLSPFromDbByID (fragment v f) l s = None" using v(2) by (auto simp: frag_free_def)
        have "fragment v f ! 7 = f" using v(1) by (simp add: fragment_def)
        then have "fragment v f \<noteq> lp_lspID p" using f(1) own by (auto simp: own_packet_def)
        then have "getLSPFromDbByID (fragment v f) l s1 = None"
          using installed_getLSP [OF Cons.prems(1) s1, of "fragment v f"] own v(1) f(2) by (simp add: own_packet_def fragment_def)
        then show ?thesis using f(1) by (auto simp: frag_free_def)
      qed
      then show "?Q s1" using s1 by (simp add: installed_def)
    qed
    then show ?thesis by (simp add: None)
  next
    case (Some r)
    have keep: "?Q s1" if "lsps_kept s s1" for s1
      using that kept_getLSP [OF that] by (auto simp: frag_free_def)
    have "run_ok (replaceLSP now p None r l s) (lsps_kept s)"
      using Some own getLSP_in [OF Some] getLSP_id [OF Cons.prems(1) Some] Cons.prems(1)
      by (intro run_ok_mono [OF run_replaceLSP]) (simp_all add: own_packet_def replaced_def)
    then have "run_ok (replaceLSP now p None r l s) ?Q" using keep by (rule run_ok_mono)
    then show ?thesis using Some keep [OF lsps_kept_refl [OF Cons.prems(1)]] by simp
  qed
  then show ?case
    unfolding update_own.simps run_ok_simps
  proof (rule run_ok_mono)
    fix s1 assume s1: "?Q s1"
    then have inv1: "isis_inv s1" by auto
    have len: "length (lp_lspID p) = 8" using own by (simp add: own_packet_def)
    have "frag_free l s1 (lp_lspID p)" using s1 Cons.prems(2) len by simp
    then obtain f where "getLSPFromDbByID (fragment (next_fragment (lp_lspID p)) f) l s1 = None"
      by (auto simp: frag_free_def next_fragment_eq len)
    then have purge: "run_ok (purgeRemainLSP now (next_fragment (lp_lspID p)) l s1) (lsps_kept s1)"
      using fragment_reached [of f "next_fragment (lp_lspID p) ! 7"] inv1 len
      by (auto simp: next_fragment_def intro!: run_purgeRemainLSP)
    have rest: "run_ok (update_own now l ps s2) (kept_conf s)" if k2: "lsps_kept s1 s2" for s2
    proof -
      have "frag_free l s2 v = frag_free l s1 v" for v using kept_getLSP [OF k2] by (simp add: frag_free_def)
      moreover have "isis_inv s2" using k2 by auto
      ultimately have "run_ok (update_own now l ps s2) (kept_conf s2)"
        using s1 Cons.prems(2) by (intro Cons.IH) (auto simp: own_packet_def)
      moreover have "kept_conf s s2" using s1 k2 by (blast intro: kept_conf_trans)
      ultimately show ?thesis by (auto elim!: run_ok_mono intro: kept_conf_trans)
    qed
    show "run_ok (if ps \<noteq> [] \<and> \<not> compareArrays (lp_lspID p) (lp_lspID (hd ps)) 7
      then purgeRemainLSP now (next_fragment (lp_lspID p)) l s1 else Some s1) (\<lambda>s2. run_ok (update_own now l ps s2) (kept_conf s))"
      using rest rest [OF lsps_kept_refl [OF inv1]] run_ok_mono [OF purge rest] by simp
  qed
qed

text \<open>What is asked of the state when the LSPs are generated.\<close>

definition nsels :: "level \<Rightarrow> isis \<Rightarrow> u8 list" where
  "nsels l s = 0 # map (\<lambda>f. ii_DIS f l ! 6) (filter (is_DIS l s) (is_ISISIft s))"

definition nbrs_of :: "level \<Rightarrow> u8 \<Rightarrow> isis \<Rightarrow> lsp_nbr list option" where
  "nbrs_of l nsel s = (if nsel = 0 then Some (own_neighbours l s) else pseudo_neighbours l nsel s)"

definition few_neighbours :: "level \<Rightarrow> isis \<Rightarrow> bool" where
  "few_neighbours l s \<longleftrightarrow> length (is_sysId s) = 6 \<and> (\<forall>n\<in>set (nsels l s). \<exists>ns. nbrs_of l n s = Some ns \<and> length ns \<le> 133)"

definition own_lsp_id :: "isis \<Rightarrow> u8 \<Rightarrow> isis_id" where
  "own_lsp_id s n = take 6 (is_sysId s) @ [n, 0]"

lemma genLSP_few:
  assumes "few_neighbours l s"
  shows "run_ok (genLSP l s) (\<lambda>ps. (\<forall>p\<in>set ps. own_packet p) \<and> (\<exists>ns. map lp_lspID ps = map (own_lsp_id s) ns \<and> (ns = [] \<or> ns = nsels l s)))"
proof -
  have one: "put_lsps l s (copy_bytes (is_sysId s) 6 0 @ [n]) 0 1492 (neighbour_tlvs ns @ [area_tlv s]) =
      Some [new_lsp l s (own_lsp_id s n) (neighbour_tlvs ns @ [area_tlv s])]" if "length ns \<le> 133" for n ns
    using put_lsps_few [OF that] by (simp add: copy_bytes_def own_lsp_id_def)
  have own: "own_packet (new_lsp l s (own_lsp_id s n) ts)" for n ts
    using assms by (simp add: own_packet_def new_lsp_def own_lsp_id_def few_neighbours_def nth_append)
  have id: "lp_lspID (new_lsp l s v ts) = v" for v ts by (simp add: new_lsp_def)
  show ?thesis
  proof (cases "isAdjUp l s")
    case False
    then show ?thesis by (simp add: genLSP_def)
  next
    case True
    have o: "length (own_neighbours l s) \<le> 133" using assms by (simp add: few_neighbours_def nsels_def nbrs_of_def)
    have "\<exists>ps. those (map (pseudo_lsps l s) fs) = Some ps \<and> (\<forall>p\<in>set (concat ps). own_packet p) \<and>
        map lp_lspID (concat ps) = map (own_lsp_id s) (map (\<lambda>f. ii_DIS f l ! 6) fs)" if "set fs \<subseteq> set (filter (is_DIS l s) (is_ISISIft s))" for fs
      using that
    proof (induction fs)
      case (Cons f fs)
      then obtain ps where ps: "those (map (pseudo_lsps l s) fs) = Some ps" "\<forall>p\<in>set (concat ps). own_packet p"
        "map lp_lspID (concat ps) = map (own_lsp_id s) (map (\<lambda>f. ii_DIS f l ! 6) fs)" by auto
      have "ii_DIS f l ! 6 \<in> set (nsels l s)" using Cons.prems by (auto simp: nsels_def)
      then obtain ns where ns: "nbrs_of l (ii_DIS f l ! 6) s = Some ns" "length ns \<le> 133" using assms unfolding few_neighbours_def by blast
      have "pseudo_lsps l s f = Some [new_lsp l s (own_lsp_id s (ii_DIS f l ! 6)) (neighbour_tlvs ns @ [area_tlv s])]"
        using ns(1) one [OF ns(2)] by (simp add: pseudo_lsps_def Let_def nbrs_of_def split: if_splits)
      then show ?case using ps own id by (auto intro!: exI [of _ "[new_lsp l s (own_lsp_id s (ii_DIS f l ! 6)) (neighbour_tlvs ns @ [area_tlv s])] # ps"])
    qed simp
    then obtain ps where ps: "those (map (pseudo_lsps l s) (filter (is_DIS l s) (is_ISISIft s))) = Some ps" "\<forall>p\<in>set (concat ps). own_packet p"
        "map lp_lspID (concat ps) = map (own_lsp_id s) (map (\<lambda>f. ii_DIS f l ! 6) (filter (is_DIS l s) (is_ISISIft s)))" by blast
    let ?p = "new_lsp l s (own_lsp_id s 0) (neighbour_tlvs (own_neighbours l s) @ [area_tlv s])"
    have "genLSP l s = Some (?p # concat ps)" using True one [OF o, of 0] ps(1) by (simp add: genLSP_def)
    moreover have "map lp_lspID (?p # concat ps) = map (own_lsp_id s) (nsels l s)" using ps(3) id by (simp add: nsels_def)
    ultimately show ?thesis using ps(2) own by auto
  qed
qed

definition generate_ok :: "level \<Rightarrow> isis \<Rightarrow> bool" where
  "generate_ok l s \<longleftrightarrow> few_neighbours l s \<and> distinct (nsels l s) \<and> (\<forall>n. frag_free l s (own_lsp_id s n))"

theorem run_generateLSP:
  assumes inv: "isis_inv s" and ok: "generate_ok l s"
  shows "run_ok (generateLSP now l s) (kept_conf s)"
proof -
  have "few_neighbours l s" using ok by (simp add: generate_ok_def)
  from genLSP_few [OF this] show ?thesis
    unfolding generateLSP_def run_ok_simps
  proof (rule run_ok_mono)
    fix ps assume "(\<forall>p\<in>set ps. own_packet p) \<and> (\<exists>ns. map lp_lspID ps = map (own_lsp_id s) ns \<and> (ns = [] \<or> ns = nsels l s))"
    then obtain ns where ps: "\<forall>p\<in>set ps. own_packet p" "map lp_lspID ps = map (own_lsp_id s) ns" "distinct ns" using ok by (auto simp: generate_ok_def)
    have "distinct (map lp_lspID ps)" unfolding ps(2) using ps(3) by (simp add: distinct_map inj_on_def own_lsp_id_def)
    then have a: "run_ok (install_all now l ps s) (kept_conf s)" if "is_LSPDb s l = []"
      using that ps(1) inv by (intro run_install_all) (auto simp: getLSPFromDbByID_def)
    have "frag_free l s (lp_lspID p)" if "p \<in> set ps" for p
    proof -
      have "lp_lspID p \<in> set (map (own_lsp_id s) ns)" using that unfolding ps(2) [symmetric] by simp
      then show ?thesis using ok by (auto simp: generate_ok_def)
    qed
    then have b: "run_ok (update_own now l ps s) (kept_conf s)" using ps(1) inv by (intro run_update_own) auto
    show "run_ok (if is_LSPDb s l = [] then install_all now l ps s else if ps = [] then purgeMyLSPs now l s else update_own now l ps s) (kept_conf s)"
      using a b run_kept_mono [OF run_purgeMyLSPs [OF inv]] by simp
  qed
qed


end
