(* ===== verification/Isis_Adjacency.thy ===== *)
theory Isis_Adjacency
  imports Isis_Hello Isis_Update_Own
begin

text \<open>
  The adjacency tables and the designated systems: a table has one adjacency for a system id, MAC address and gate,
  those of level 1 are in the area of this system, and the ids have their sizes (\<open>hello_inv\<close>); each handler keeps
  this and the invariant of the update process. When the loops of \<open>removeDeadNeighbour\<close> end.
\<close>

section \<open>The invariant\<close>

definition adj_id :: "isis_adj \<Rightarrow> isis_id \<times> mac_addr \<times> nat" where
  "adj_id a = (take 6 (ad_sysID a), ad_mac a, ad_gateIndex a)"

definition adjs_ok :: "isis \<Rightarrow> bool" where
  "adjs_ok s \<longleftrightarrow> (\<forall>l. distinct (map adj_id (is_adjTable s l))) \<and> (\<forall>a\<in>set (is_adjTable s L1_TYPE). take 3 (ad_areaID a) = take 3 (is_areaId s))"

definition sizes_ok :: "isis \<Rightarrow> bool" where
  "sizes_ok s \<longleftrightarrow> length (is_sysId s) = 6 \<and> (\<forall>f\<in>set (is_ISISIft s). \<forall>l. length (ii_DIS f l) = 7)"

definition hello_inv :: "isis \<Rightarrow> bool" where
  "hello_inv s \<longleftrightarrow> isis_inv s \<and> adjs_ok s \<and> sizes_ok s"

text \<open>Changes of the fields of this part keep the invariant of the update process.\<close>

lemma flags_match_adjTable [simp]: "flags_match P (s\<lparr>is_adjTable := x\<rparr>) = flags_match P s"
proof -
  have "flag_queues k b l (s\<lparr>is_adjTable := x\<rparr>) = flag_queues k b l s" for k b l by (cases k) (simp_all add: flag_queues_def)
  then show ?thesis by (simp add: flags_match_def n_if_def net_def flag_def queue_def)
qed

lemma flags_match_att [simp]: "flags_match P (s\<lparr>is_att := x\<rparr>) = flags_match P s" "flags_match P (s\<lparr>is_attIS := y\<rparr>) = flags_match P s"
proof -
  have "flag_queues k b l (s\<lparr>is_att := x\<rparr>) = flag_queues k b l s" "flag_queues k b l (s\<lparr>is_attIS := y\<rparr>) = flag_queues k b l s" for k b l
    by (cases k; simp add: flag_queues_def)+
  then show "flags_match P (s\<lparr>is_att := x\<rparr>) = flags_match P s" "flags_match P (s\<lparr>is_attIS := y\<rparr>) = flags_match P s"
    by (simp_all add: flags_match_def n_if_def net_def flag_def queue_def)
qed

lemma isis_inv_fields [simp]:
  "isis_inv (s\<lparr>is_adjTable := x\<rparr>) = isis_inv s" "isis_inv (s\<lparr>is_att := b\<rparr>) = isis_inv s" "isis_inv (s\<lparr>is_attIS := y\<rparr>) = isis_inv s"
proof -
  have "db (s\<lparr>is_adjTable := x\<rparr>) = db s" "lsp_id (s\<lparr>is_adjTable := x\<rparr>) = lsp_id s" "db (s\<lparr>is_att := b\<rparr>) = db s" "lsp_id (s\<lparr>is_att := b\<rparr>) = lsp_id s"
    "db (s\<lparr>is_attIS := y\<rparr>) = db s" "lsp_id (s\<lparr>is_attIS := y\<rparr>) = lsp_id s"
    by (simp_all add: db_def lsp_id_def rec_lsp_def fun_eq_iff)
  then show "isis_inv (s\<lparr>is_adjTable := x\<rparr>) = isis_inv s" "isis_inv (s\<lparr>is_att := b\<rparr>) = isis_inv s" "isis_inv (s\<lparr>is_attIS := y\<rparr>) = isis_inv s"
    by (simp_all add: isis_inv_def ids_ok_def)
qed

text \<open>An interface changes, but not its kind.\<close>

lemma isis_inv_mod_if:
  assumes "isis_inv s" and "\<And>f. ii_network (h f) = ii_network f"
  shows "isis_inv (mod_if i h s)"
proof -
  have f: "flag_queues k b l (mod_if i h s) = flag_queues k b l s" for k b l by (cases k) (simp_all add: flag_queues_def mod_if_def)
  have n: "n_if (mod_if i h s) = n_if s" by (simp add: n_if_def mod_if_def)
  have "net (mod_if i h s) j = net s j" if "j < n_if s" for j
    using that assms(2) by (simp add: net_def mod_if_def n_if_def nth_vec_modify)
  then have "flags_match P (mod_if i h s) = flags_match P s" for P
    unfolding flags_match_def n f queue_def by (simp add: flag_def mod_if_def cong: conj_cong)
  moreover have "db (mod_if i h s) = db s" "lsp_id (mod_if i h s) = lsp_id s" by (simp_all add: db_def lsp_id_def rec_lsp_def mod_if_def fun_eq_iff)
  moreover have "is_next (mod_if i h s) = is_next s" "is_LSPDb (mod_if i h s) = is_LSPDb s" by (simp_all add: mod_if_def)
  ultimately show ?thesis using assms(1) by (simp add: isis_inv_def ids_ok_def)
qed

lemma kept_conf_hello: "hello_inv s \<Longrightarrow> kept_conf s s' \<Longrightarrow> hello_inv s'"
  by (simp add: kept_conf_def hello_inv_def adjs_ok_def sizes_ok_def)

section \<open>Tables\<close>

lemma map_vec_modify: "(\<And>x. g (f x) = g x) \<Longrightarrow> map g (vec_modify i f xs) = map g xs"
  by (rule nth_equalityI) (simp_all add: nth_vec_modify)

lemma in_vec_modify: "y \<in> set (vec_modify i f xs) \<Longrightarrow> \<exists>x\<in>set xs. y = x \<or> y = f x"
proof -
  assume "y \<in> set (vec_modify i f xs)"
  then obtain j where j: "j < length xs" "y = vec_modify i f xs ! j" by (auto simp: in_set_conv_nth)
  then have "y = xs ! j \<or> y = f (xs ! j)" by (auto simp: nth_vec_modify)
  moreover have "xs ! j \<in> set xs" using j(1) by simp
  ultimately show ?thesis by blast
qed

lemma hello_inv_mod_adj:
  assumes "hello_inv s" and "\<And>a. adj_id (f a) = adj_id a" and "\<And>a. ad_areaID (f a) = ad_areaID a"
  shows "hello_inv (mod_adj l i f s)"
proof -
  have "\<exists>b\<in>set xs. ad_areaID a = ad_areaID b" if "a \<in> set (vec_modify i f xs)" for a xs
    using in_vec_modify [OF that] assms(3) by auto
  then show ?thesis using assms(1) map_vec_modify [of adj_id f i, OF assms(2)]
    by (fastforce simp: hello_inv_def adjs_ok_def sizes_ok_def mod_adj_def)
qed

lemma hello_inv_tables:
  assumes "hello_inv s" and "distinct (map adj_id xs)" and "l = L1_TYPE \<Longrightarrow> \<forall>a\<in>set xs. take 3 (ad_areaID a) = take 3 (is_areaId s)"
  shows "hello_inv (s\<lparr>is_adjTable := (is_adjTable s)(l := sort_key adj_key xs)\<rparr>)"
  using assms by (auto simp: hello_inv_def adjs_ok_def sizes_ok_def distinct_map)

lemma hello_inv_add_adj:
  assumes "hello_inv s" and "adj_id a \<notin> adj_id ` set (is_adjTable s l)" and "l = L1_TYPE \<Longrightarrow> take 3 (ad_areaID a) = take 3 (is_areaId s)"
  shows "hello_inv (add_adj l a s)"
  unfolding add_adj_def by (rule hello_inv_tables) (use assms in \<open>auto simp: hello_inv_def adjs_ok_def\<close>)

lemma adj_is_id: "adj_is v mac g a \<longleftrightarrow> adj_id a = (take 6 v, mac, g)"
  by (auto simp: adj_is_def adj_id_def compareArrays_def)

lemma area_ok_take: "take 3 c = take 3 c' \<Longrightarrow> area_ok ts c = area_ok ts c'"
  by (simp add: area_ok_def isAreaIDOK_def compareArrays_def)

lemma getAdj_Some:
  assumes "getAdj v mac g l ts s = Some i"
  shows "i < length (is_adjTable s l)" "adj_id (is_adjTable s l ! i) = (take 6 v, mac, g)"
  using assms index_first_nth [of "is_adjTable s l" "adj_is v mac g"]
  by (auto simp: getAdj_def vec_at_def Let_def adj_is_id split: if_splits)

lemma getAdj_None:
  assumes "hello_inv s" and "getAdj v mac g l ts s = None" and "l = L1_TYPE \<Longrightarrow> area_ok ts (is_areaId s)"
  shows "(take 6 v, mac, g) \<notin> adj_id ` set (is_adjTable s l)"
proof
  assume "(take 6 v, mac, g) \<in> adj_id ` set (is_adjTable s l)"
  then have ex: "\<exists>a\<in>set (is_adjTable s l). adj_is v mac g a" by (auto simp: adj_is_id)
  let ?i = "index_first (adj_is v mac g) (is_adjTable s l)"
  have i: "?i < length (is_adjTable s l)" using ex by simp
  then have "l \<noteq> L2_TYPE" "\<not> area_ok ts (ad_areaID (is_adjTable s l ! ?i))" using assms(2) by (auto simp: getAdj_def Let_def split: if_splits)
  moreover from this have l: "l = L1_TYPE" by (cases l) simp_all
  moreover have "take 3 (ad_areaID (is_adjTable s l ! ?i)) = take 3 (is_areaId s)"
    using assms(1) i l by (simp add: hello_inv_def adjs_ok_def)
  ultimately show False using assms(3) area_ok_take by blast
qed

lemma new_adj_facts [simp]:
  "adj_id (new_adj due l v w area ta mac g s) = (take 6 v, mac, g)" "ad_areaID (new_adj due l v w area ta mac g s) = area"
  by (simp_all add: new_adj_def adj_id_def)

section \<open>The designated system\<close>

definition dis_lsp_id :: "level \<Rightarrow> isis_if \<Rightarrow> isis_id" where
  "dis_lsp_id l f = take 7 (ii_DIS f l) @ [0]"

text \<open>A fragment of the LSPs of the designated system is missing: the loop that purges them ends.\<close>

definition purgeable :: "level \<Rightarrow> isis_id \<Rightarrow> isis \<Rightarrow> bool" where
  "purgeable l v s \<longleftrightarrow> length v = 8 \<and> (\<exists>f. getLSPFromDbByID (fragment v f) l s = None)"

lemma run_purge:
  assumes "isis_inv s" and "purgeable l v s"
  shows "run_ok (purgeRemainLSP now v l s) (lsps_kept s)"
proof -
  obtain f where f: "getLSPFromDbByID (fragment v f) l s = None" using assms(2) by (auto simp: purgeable_def)
  obtain n where "f = v ! 7 + of_nat n" using fragment_reached by blast
  then show ?thesis using f assms by (intro run_purgeRemainLSP) (simp_all add: purgeable_def)
qed

lemma hello_inv_mod_if:
  assumes "hello_inv s" and "\<And>f. ii_network (h f) = ii_network f" and "\<And>f l. length (ii_DIS f l) = 7 \<Longrightarrow> length (ii_DIS (h f) l) = 7"
  shows "hello_inv (mod_if i h s)"
proof -
  have "isis_inv (mod_if i h s)" using assms(1,2) by (intro isis_inv_mod_if) (simp_all add: hello_inv_def)
  moreover have "adjs_ok (mod_if i h s)" using assms(1) by (simp add: hello_inv_def adjs_ok_def mod_if_def)
  moreover have "sizes_ok (mod_if i h s)"
    using assms(1,3) by (auto simp: hello_inv_def sizes_ok_def mod_if_def dest!: in_vec_modify)
  ultimately show ?thesis by (simp add: hello_inv_def)
qed

definition hello_step :: "isis \<Rightarrow> isis \<Rightarrow> bool" where
  "hello_step s s' \<longleftrightarrow> hello_inv s' \<and> is_areaId s' = is_areaId s \<and> is_sysId s' = is_sysId s \<and> is_isType s' = is_isType s \<and>
     (\<forall>g. gate_ok g s' = gate_ok g s)"

lemma hello_step_refl: "hello_inv s \<Longrightarrow> hello_step s s"
  by (simp add: hello_step_def)

lemma gate_ok_mod_if: "(\<And>f. ii_gateIndex (h f) = ii_gateIndex f) \<Longrightarrow> gate_ok g (mod_if i h s) = gate_ok g s"
proof -
  assume h: "\<And>f. ii_gateIndex (h f) = ii_gateIndex f"
  have "map ii_gateIndex (vec_modify i h xs) = map ii_gateIndex xs" for xs
    by (rule map_vec_modify) (rule h)
  then have "ii_gateIndex ` set (is_ISISIft (mod_if i h s)) = ii_gateIndex ` set (is_ISISIft s)"
    by (simp add: mod_if_def flip: set_map)
  then have "g \<in> ii_gateIndex ` set (is_ISISIft (mod_if i h s)) \<longleftrightarrow> g \<in> ii_gateIndex ` set (is_ISISIft s)" by simp
  then show ?thesis by (auto simp: gate_ok_def getIfaceByGateIndex_def find_None_iff)
qed

definition lan_ok :: "lan_hello \<Rightarrow> nat \<Rightarrow> isis \<Rightarrow> bool" where
  "lan_ok h g s \<longleftrightarrow> gate_ok g s \<and> length (lh_lanID h) = 7 \<and>
     purgeable (lh_level h) (dis_lsp_id (lh_level h) (is_ISISIft s ! getIfaceIndex g s)) s"

text \<open>What \<open>electDIS\<close> does: the LSPs of the old designated system are purged and the LAN id of the interface is set.\<close>

definition dis_wins :: "lan_hello \<Rightarrow> nat \<Rightarrow> isis \<Rightarrow> bool" where
  "dis_wins h g s = (let l = lh_level h; f = is_ISISIft s ! getIfaceIndex g s in
     take 7 (lh_lanID h) \<noteq> take 7 (ii_DIS f l) \<and>
     (lh_priority h > ii_DISpriority f l \<or> lh_priority h = ii_DISpriority f l \<and>
        dis_mac (lh_lanID h) l g s > (if amIDIS (getIfaceIndex g s) L1_TYPE s = Some True then ii_mac f else dis_mac (ii_DIS f l) l g s)))"

lemma electDIS_eq:
  assumes "gate_ok g s"
  shows "electDIS now h g s =
    (if dis_wins h g s then map_option (mod_if (getIfaceIndex g s) (\<lambda>f. f\<lparr>ii_DIS := (ii_DIS f)(lh_level h := take 7 (lh_lanID h))\<rparr>))
       (purgeRemainLSP now (dis_lsp_id (lh_level h) (is_ISISIft s ! getIfaceIndex g s)) (lh_level h) s)
     else Some s)"
proof -
  note g = gate_ok_at [OF assms]
  obtain d where d: "amIDIS (getIfaceIndex g s) L1_TYPE s = Some d" using g(1) by (simp add: amIDIS_def n_if_def)
  show ?thesis
    by (cases "purgeRemainLSP now (dis_lsp_id (lh_level h) (is_ISISIft s ! getIfaceIndex g s)) (lh_level h) s")
       (auto simp: electDIS_def g(4) d Let_def dis_wins_def compareArrays_def copy_bytes_def dis_lsp_id_def)
qed

lemma run_electDIS:
  assumes inv: "hello_inv s" and ok: "lan_ok h g s"
  shows "run_ok (electDIS now h g s) (\<lambda>s'. hello_step s s' \<and> is_adjTable s' = is_adjTable s)"
proof -
  have g: "gate_ok g s" and len: "length (lh_lanID h) = 7" using ok by (simp_all add: lan_ok_def)
  have i: "isis_inv s" using inv by (simp add: hello_inv_def)
  have "run_ok (purgeRemainLSP now (dis_lsp_id (lh_level h) (is_ISISIft s ! getIfaceIndex g s)) (lh_level h) s) (lsps_kept s)"
    using ok i by (intro run_purge) (simp_all add: lan_ok_def)
  then have "run_ok (purgeRemainLSP now (dis_lsp_id (lh_level h) (is_ISISIft s ! getIfaceIndex g s)) (lh_level h) s)
    (\<lambda>s1. hello_step s (mod_if (getIfaceIndex g s) (\<lambda>f. f\<lparr>ii_DIS := (ii_DIS f)(lh_level h := take 7 (lh_lanID h))\<rparr>) s1) \<and>
      is_adjTable (mod_if (getIfaceIndex g s) (\<lambda>f. f\<lparr>ii_DIS := (ii_DIS f)(lh_level h := take 7 (lh_lanID h))\<rparr>) s1) = is_adjTable s)"
  proof (rule run_ok_mono)
    fix s1 assume k: "lsps_kept s s1"
    then have h1: "hello_inv s1" using kept_conf_hello [OF inv] by auto
    have "hello_inv (mod_if (getIfaceIndex g s) (\<lambda>f. f\<lparr>ii_DIS := (ii_DIS f)(lh_level h := take 7 (lh_lanID h))\<rparr>) s1)"
      by (rule hello_inv_mod_if [OF h1]) (simp_all add: len)
    moreover have "gate_ok g' (mod_if (getIfaceIndex g s) (\<lambda>f. f\<lparr>ii_DIS := (ii_DIS f)(lh_level h := take 7 (lh_lanID h))\<rparr>) s1) = gate_ok g' s" for g'
      using kept_gate_ok [OF kept_kept_conf [OF k]] by (simp add: gate_ok_mod_if)
    ultimately show "hello_step s (mod_if (getIfaceIndex g s) (\<lambda>f. f\<lparr>ii_DIS := (ii_DIS f)(lh_level h := take 7 (lh_lanID h))\<rparr>) s1) \<and>
      is_adjTable (mod_if (getIfaceIndex g s) (\<lambda>f. f\<lparr>ii_DIS := (ii_DIS f)(lh_level h := take 7 (lh_lanID h))\<rparr>) s1) = is_adjTable s"
      using k by (simp add: hello_step_def mod_if_def lsps_kept_def kept_conf_def)
  qed
  then show ?thesis using hello_step_refl [OF inv] by (simp add: electDIS_eq [OF g])
qed

section \<open>Hellos\<close>

lemma hello_step_trans: "hello_step s s1 \<Longrightarrow> hello_step s1 s2 \<Longrightarrow> hello_step s s2"
  by (simp add: hello_step_def)

lemma hello_step_att: "hello_inv s \<Longrightarrow> hello_step s (s\<lparr>is_att := b\<rparr>)" "hello_inv s \<Longrightarrow> hello_step s (s\<lparr>is_attIS := y\<rparr>)"
  by (simp_all add: hello_step_def hello_inv_def adjs_ok_def sizes_ok_def gate_ok_def getIfaceByGateIndex_def)

lemma hello_step_updateAtt: "hello_inv s \<Longrightarrow> hello_step s (updateAtt b s)"
proof -
  assume inv: "hello_inv s"
  have c: "hello_step s1 (setClosestAtt s1)" if "hello_inv s1" for s1
    using that by (auto simp: setClosestAtt_def intro: hello_step_refl hello_step_att split: option.split)
  show ?thesis using inv c [OF inv] hello_step_att(1) [OF inv] c [of "s\<lparr>is_att := True\<rparr>"] hello_step_refl [OF inv]
    by (auto simp: updateAtt_def intro: hello_step_trans) (auto simp: hello_step_def)
qed

lemma hello_step_mod_adj:
  assumes "hello_inv s" and "\<And>a. adj_id (f a) = adj_id a" and "\<And>a. ad_areaID (f a) = ad_areaID a"
  shows "hello_step s (mod_adj l i f s)"
  using hello_inv_mod_adj [OF assms] by (simp add: hello_step_def) (simp add: mod_adj_def gate_ok_def getIfaceByGateIndex_def)

lemma hello_step_add_adj:
  assumes "hello_inv s" and "adj_id a \<notin> adj_id ` set (is_adjTable s l)" and "l = L1_TYPE \<Longrightarrow> take 3 (ad_areaID a) = take 3 (is_areaId s)"
  shows "hello_step s (add_adj l a s)"
  using hello_inv_add_adj [OF assms] by (simp add: hello_step_def) (simp add: add_adj_def gate_ok_def getIfaceByGateIndex_def)

lemma adj_id_update [simp]: "adj_id (a\<lparr>ad_due := d\<rparr>) = adj_id a" "adj_id (a\<lparr>ad_state := b\<rparr>) = adj_id a"
  by (simp_all add: adj_id_def)

lemma lan_ok_mod_adj [simp]: "lan_ok h g (mod_adj l i f s) = lan_ok h g s"
  by (simp add: lan_ok_def mod_adj_def gate_ok_def getIfaceByGateIndex_def getIfaceIndex_def purgeable_def getLSPFromDbByID_def rec_lsp_def)

text \<open>The part the LAN handlers share: the timer starts again and the election takes place.\<close>

lemma run_lan_known:
  assumes inv: "hello_inv s" and ok: "lan_ok h g s"
  shows "run_ok (if known then electDIS now h g (mod_adj l i (\<lambda>a. a\<lparr>ad_due := d\<rparr>) s) else Some (mod_adj l i (\<lambda>a. a\<lparr>ad_due := d\<rparr>) s))
    (\<lambda>s2. hello_step s s2 \<and> is_adjTable s2 = is_adjTable (mod_adj l i (\<lambda>a. a\<lparr>ad_due := d\<rparr>) s))"
proof -
  let ?s1 = "mod_adj l i (\<lambda>a. a\<lparr>ad_due := d\<rparr>) s"
  have s1: "hello_step s ?s1" by (rule hello_step_mod_adj [OF inv]) (simp_all add: adj_id_def)
  then have "hello_inv ?s1" by (simp add: hello_step_def)
  then have "run_ok (electDIS now h g ?s1) (\<lambda>s2. hello_step ?s1 s2 \<and> is_adjTable s2 = is_adjTable ?s1)" using ok by (intro run_electDIS) simp_all
  then have "run_ok (electDIS now h g ?s1) (\<lambda>s2. hello_step s s2 \<and> is_adjTable s2 = is_adjTable ?s1)"
    by (rule run_ok_mono) (blast intro: hello_step_trans s1)
  then show ?thesis using s1 by simp
qed

lemma step_gate: "hello_step s s2 \<Longrightarrow> gate_ok g s \<Longrightarrow> \<exists>f. getIfaceByGateIndex g s2 = Some f"
  by (auto simp: hello_step_def gate_ok_def)

theorem run_handleL1HelloMsg:
  assumes inv: "hello_inv s" and ok: "lan_ok h g s"
  shows "run_ok (handleL1HelloMsg now rnd h mac g s) (hello_step s)"
proof (cases "checkDuplicate_lan h s \<or> \<not> area_ok (lh_TLV h) (is_areaId s)")
  case True
  then show ?thesis using hello_step_refl [OF inv] by (auto simp: handleL1HelloMsg_def)
next
  case area: False
  have g: "gate_ok g s" using ok by (simp add: lan_ok_def)
  show ?thesis
  proof (cases "getAdj (lh_sourceID h) mac g L1_TYPE (lh_TLV h) s")
    case None
    have "(take 6 (lh_sourceID h), mac, g) \<notin> adj_id ` set (is_adjTable s L1_TYPE)" using getAdj_None [OF inv None] area by simp
    then show ?thesis using area None by (auto simp: handleL1HelloMsg_def intro!: hello_step_add_adj [OF inv])
  next
    case (Some i)
    note r = run_lan_known [OF inv ok, of "ad_state (is_adjTable s L1_TYPE ! i)" now L1_TYPE i "hold_until now (lh_holdTime h) - rnd"]
    have "run_ok (case getTLVByType (lh_TLV h) IS_NEIGHBOURS_HELLO 0 of
                 None \<Rightarrow> Some s2
               | Some t \<Rightarrow> do {
                   f \<leftarrow> getIfaceByGateIndex g s2;
                   Some (if sees_me t (ii_mac f) then mod_adj L1_TYPE i (\<lambda>a. a\<lparr>ad_state := True\<rparr>) s2 else s2)
                 }) (hello_step s)" if s2: "hello_step s s2" for s2
    proof -
      have inv2: "hello_inv s2" using s2 by (simp add: hello_step_def)
      have "hello_step s2 (mod_adj L1_TYPE i (\<lambda>a. a\<lparr>ad_state := True\<rparr>) s2)" by (rule hello_step_mod_adj [OF inv2]) (simp_all add: adj_id_def)
      then show ?thesis using s2 step_gate [OF s2 g] by (auto split: option.split intro: hello_step_trans)
    qed
    then show ?thesis using area r by (auto simp: handleL1HelloMsg_def Some Let_def elim!: run_ok_mono)
  qed
qed

theorem run_handleL2HelloMsg:
  assumes inv: "hello_inv s" and ok: "lan_ok h g s"
  shows "run_ok (handleL2HelloMsg now rnd h mac g s) (hello_step s)"
proof (cases "checkDuplicate_lan h s")
  case True
  then show ?thesis using hello_step_refl [OF inv] by (simp add: handleL2HelloMsg_def)
next
  case dup: False
  have g: "gate_ok g s" using ok by (simp add: lan_ok_def)
  show ?thesis
  proof (cases "getAdj (lh_sourceID h) mac g L2_TYPE (lh_TLV h) s")
    case None
    have "(take 6 (lh_sourceID h), mac, g) \<notin> adj_id ` set (is_adjTable s L2_TYPE)" using getAdj_None [OF inv None] by simp
    then show ?thesis using dup None hello_step_refl [OF inv]
      by (auto simp: handleL2HelloMsg_def split: option.split intro!: hello_step_add_adj [OF inv])
  next
    case (Some i)
    let ?a = "is_adjTable s L2_TYPE ! i"
    note r = run_lan_known [OF inv ok, of "ad_state ?a" now L2_TYPE i "hold_until now (lh_holdTime h) - rnd"]
    have "run_ok (case getTLVByType (lh_TLV h) IS_NEIGHBOURS_HELLO 0 of
                 None \<Rightarrow> Some s2
               | Some t \<Rightarrow> do {
                   f \<leftarrow> getIfaceByGateIndex g s2;
                   if sees_me t (ii_mac f)
                   then let s3 = mod_adj L2_TYPE i (\<lambda>a. a\<lparr>ad_state := True\<rparr>) s2 in
                     Some (if att_change (ad_state ?a) ?a s then updateAtt True s3 else s3)
                   else Some s2
                 }) (hello_step s)" if s2: "hello_step s s2" for s2
    proof -
      let ?s3 = "mod_adj L2_TYPE i (\<lambda>a. a\<lparr>ad_state := True\<rparr>) s2"
      have inv2: "hello_inv s2" using s2 by (simp add: hello_step_def)
      have s3: "hello_step s2 ?s3" by (rule hello_step_mod_adj [OF inv2]) (simp_all add: adj_id_def)
      then have "hello_step ?s3 (updateAtt True ?s3)" by (intro hello_step_updateAtt) (simp add: hello_step_def)
      then have "hello_step s (updateAtt True ?s3)" "hello_step s ?s3" using s2 s3 by (blast intro: hello_step_trans)+
      then show ?thesis using s2 step_gate [OF s2 g] by (auto simp: Let_def split: option.split)
    qed
    then show ?thesis using dup r by (auto simp: handleL2HelloMsg_def Some Let_def elim!: run_ok_mono)
  qed
qed

lemma run_ptp_level:
  assumes inv: "hello_inv s" and area: "l = L1_TYPE \<Longrightarrow> area_ok (ph_TLV h) (is_areaId s)"
    and ok: "l = L2_TYPE \<Longrightarrow> \<exists>t. getTLVByType (ph_TLV h) AREA_ADDRESS 0 = Some t \<and> tlv_value t ! 0 = 3"
  shows "run_ok (ptp_level now rnd l h mac g s) (\<lambda>x. hello_step s (snd x))"
proof (cases "getAdj (ph_sourceID h) mac g l (ph_TLV h) s")
  case None
  have new: "(take 6 (ph_sourceID h), mac, g) \<notin> adj_id ` set (is_adjTable s l)" using getAdj_None [OF inv None] area by simp
  then show ?thesis using None ok by (cases l) (auto simp: ptp_level_def intro!: hello_step_add_adj [OF inv])
next
  case (Some i)
  have s1: "hello_step s (mod_adj l i (\<lambda>a. a\<lparr>ad_due := d\<rparr>) s)" for d by (rule hello_step_mod_adj [OF inv]) simp_all
  then have s2: "hello_step s (mod_adj l i (\<lambda>a. a\<lparr>ad_state := b a\<rparr>) (mod_adj l i (\<lambda>a. a\<lparr>ad_due := d\<rparr>) s))" for d b
    by (rule hello_step_trans) (rule hello_step_mod_adj, use s1 in \<open>simp_all add: hello_step_def\<close>)
  have s3: "hello_step s ((mod_adj l i (\<lambda>a. a\<lparr>ad_state := b a\<rparr>) (mod_adj l i (\<lambda>a. a\<lparr>ad_due := d\<rparr>) s))\<lparr>is_att := c\<rparr>)" for d b c
    by (rule hello_step_trans [OF s2]) (rule hello_step_att, use s2 in \<open>simp add: hello_step_def\<close>)
  show ?thesis using Some s1 s2 s3 by (auto simp: ptp_level_def Let_def split: option.split)
qed

definition ptp_ok :: "ptp_hello \<Rightarrow> bool" where
  "ptp_ok h \<longleftrightarrow> (ph_circuitType h = Only L2_TYPE \<or> ph_circuitType h = L1L2_TYPE \<longrightarrow>
     (\<exists>t. getTLVByType (ph_TLV h) AREA_ADDRESS 0 = Some t \<and> tlv_value t ! 0 = 3))"

theorem run_handlePTPHelloMsg:
  assumes inv: "hello_inv s" and ok: "ptp_ok h"
  shows "run_ok (handlePTPHelloMsg now rnd h mac g s) (hello_step s)"
proof (cases "checkDuplicate_ptp h s \<or> ph_circuitType h \<noteq> Only L2_TYPE \<and> \<not> area_ok (ph_TLV h) (is_areaId s)")
  case True
  then show ?thesis using hello_step_refl [OF inv] by (auto simp: handlePTPHelloMsg_def)
next
  case False
  have 2: "run_ok (map_option snd (ptp_level now (rnd L2_TYPE) L2_TYPE h mac g s1)) (hello_step s)"
    if s1: "hello_step s s1" and c: "ph_circuitType h = Only L2_TYPE \<or> ph_circuitType h = L1L2_TYPE" for s1
  proof -
    have "run_ok (ptp_level now (rnd L2_TYPE) L2_TYPE h mac g s1) (\<lambda>x. hello_step s1 (snd x))"
      using s1 ok c by (intro run_ptp_level) (auto simp: hello_step_def ptp_ok_def)
    then show ?thesis using s1 by (auto elim!: run_ok_mono intro: hello_step_trans)
  qed
  show ?thesis
  proof (cases "ph_circuitType h = Only L1_TYPE \<or> ph_circuitType h = L1L2_TYPE")
    case True
    have "run_ok (ptp_level now (rnd L1_TYPE) L1_TYPE h mac g s) (\<lambda>x. hello_step s (snd x))"
      using False True by (intro run_ptp_level [OF inv]) auto
    then show ?thesis using False True 2 by (auto simp: handlePTPHelloMsg_def elim!: run_ok_mono)
  next
    case n: False
    then show ?thesis using False 2 hello_step_refl [OF inv] by (auto simp: handlePTPHelloMsg_def)
  qed
qed

section \<open>Dead neighbours\<close>

lemma remove_dead_L1_all:
  "i \<le> length xs \<Longrightarrow> \<forall>a\<in>set (drop i xs). ad_gateIndex a = nt_gateIndex t \<Longrightarrow>
   remove_dead_L1 t i xs = Some (take i xs @ filter (\<lambda>a. \<not> timer_sys t a) (drop i xs))"
proof (induction "length xs - i" arbitrary: i xs)
  case 0
  then show ?case by (subst remove_dead_L1.simps) simp
next
  case (Suc n)
  then have i: "i < length xs" by simp
  have d: "drop i xs = xs ! i # drop (Suc i) xs" using i by (simp add: Cons_nth_drop_Suc)
  have g: "ad_gateIndex (xs ! i) = nt_gateIndex t" "\<forall>a\<in>set (drop (Suc i) xs). ad_gateIndex a = nt_gateIndex t" using Suc.prems(2) d by auto
  show ?case
  proof (cases "timer_sys t (xs ! i)")
    case True
    let ?ys = "take i xs @ drop (Suc i) xs"
    have "remove_dead_L1 t i ?ys = Some (take i ?ys @ filter (\<lambda>a. \<not> timer_sys t a) (drop i ?ys))"
      using Suc.hyps(2) i g(2) by (intro Suc.hyps(1)) simp_all
    then show ?thesis using i g True d by (subst remove_dead_L1.simps) simp
  next
    case False
    have "remove_dead_L1 t (Suc i) xs = Some (take (Suc i) xs @ filter (\<lambda>a. \<not> timer_sys t a) (drop (Suc i) xs))"
      using Suc.hyps(2) i g(2) by (intro Suc.hyps(1)) simp_all
    then show ?thesis using i g False d by (subst remove_dead_L1.simps) (simp add: take_Suc_conv_app_nth)
  qed
qed

lemma remove_dead_L1_stuck:
  assumes "i < length xs" and "ad_gateIndex (xs ! i) \<noteq> nt_gateIndex t"
  shows "remove_dead_L1 t i xs = None"
proof (rule ccontr)
  let ?P = "\<lambda>t i xs. \<not> (i < length xs \<and> ad_gateIndex (xs ! i) \<noteq> nt_gateIndex t)"
  assume "remove_dead_L1 t i xs \<noteq> None"
  then obtain ys where ys: "remove_dead_L1 t i xs = Some ys" by blast
  have "?P t i xs"
    by (rule remove_dead_L1.raw_induct [where P = "\<lambda>t i xs ys. ?P t i xs", OF _ ys]) (auto split: if_splits)
  then show False using assms by blast
qed

lemma remove_dead_L1_other:
  "i \<le> length xs \<Longrightarrow> \<exists>a\<in>set (drop i xs). ad_gateIndex a \<noteq> nt_gateIndex t \<Longrightarrow> remove_dead_L1 t i xs = None"
proof (induction "length xs - i" arbitrary: i xs)
  case 0
  then show ?case by simp
next
  case (Suc n)
  then have i: "i < length xs" by simp
  have d: "drop i xs = xs ! i # drop (Suc i) xs" using i by (simp add: Cons_nth_drop_Suc)
  show ?case
  proof (cases "ad_gateIndex (xs ! i) = nt_gateIndex t")
    case False
    then show ?thesis using i by (simp add: remove_dead_L1_stuck)
  next
    case True
    then have ex: "\<exists>a\<in>set (drop (Suc i) xs). ad_gateIndex a \<noteq> nt_gateIndex t" using Suc.prems(2) d by auto
    let ?ys = "take i xs @ drop (Suc i) xs"
    have "remove_dead_L1 t i ?ys = None" using Suc.hyps(2) i ex by (intro Suc.hyps(1)) simp_all
    moreover have "remove_dead_L1 t (Suc i) xs = None" using Suc.hyps(2) i ex by (intro Suc.hyps(1)) simp_all
    ultimately show ?thesis using i True by (subst remove_dead_L1.simps) simp
  qed
qed

theorem remove_dead_L1_returns:
  "remove_dead_L1 t 0 xs =
     (if \<forall>a\<in>set xs. ad_gateIndex a = nt_gateIndex t then Some (filter (\<lambda>a. \<not> timer_sys t a) xs) else None)"
  using remove_dead_L1_all [of 0 xs t] remove_dead_L1_other [of 0 xs t] by auto

lemma remove_dead_L2_short: "length xs \<le> length l1s \<Longrightarrow> \<exists>ys. remove_dead_L2 t l1s i xs = Some ys"
proof (induction t l1s i xs rule: remove_dead_L2.induct)
  case (1 t l1s i xs)
  show ?case
  proof (cases "i < length xs")
    case False
    then show ?thesis by (subst remove_dead_L2.simps) simp
  next
    case True
    then have a1: "vec_at l1s i = Some (l1s ! i)" using 1 by simp
    have "\<exists>ys. remove_dead_L2 t l1s (Suc i)
            (if ad_gateIndex (l1s ! i) = nt_gateIndex t \<and> timer_sys t (xs ! i) \<and> take 3 (nt_areaID t) = take 3 (ad_areaID (xs ! i))
             then take i xs @ drop (Suc i) xs else xs) = Some ys"
      using True 1(2) by (intro 1(1)) (auto simp: min_def)
    then show ?thesis using True a1 by (subst remove_dead_L2.simps) simp
  qed
qed

lemma remove_dead_L2_sub: "remove_dead_L2 t l1s i xs = Some ys \<Longrightarrow> set ys \<subseteq> set xs \<and> (distinct (map f xs) \<longrightarrow> distinct (map f ys))"
proof (induction t l1s i xs rule: remove_dead_L2.induct)
  case (1 t l1s i xs)
  show ?case
  proof (cases "i < length xs")
    case False
    then show ?thesis using 1(2) by (subst (asm) remove_dead_L2.simps) simp
  next
    case True
    obtain a1 where a1: "vec_at l1s i = Some a1" using 1(2) True by (subst (asm) remove_dead_L2.simps) (auto split: bind_splits)
    let ?zs = "if ad_gateIndex a1 = nt_gateIndex t \<and> timer_sys t (xs ! i) \<and> take 3 (nt_areaID t) = take 3 (ad_areaID (xs ! i))
             then take i xs @ drop (Suc i) xs else xs"
    have r: "remove_dead_L2 t l1s (Suc i) ?zs = Some ys" using 1(2) True a1 by (subst (asm) remove_dead_L2.simps) simp
    have "set ?zs \<subseteq> set xs" by (auto dest: in_set_takeD in_set_dropD)
    moreover have "distinct (map f xs) \<Longrightarrow> distinct (map f ?zs)"
    proof -
      assume "distinct (map f xs)"
      moreover have "map f xs = map f (take i xs) @ f (xs ! i) # map f (drop (Suc i) xs)"
        using True by (metis Cons_nth_drop_Suc append_take_drop_id list.simps(9) map_append)
      ultimately show ?thesis by auto
    qed
    ultimately show ?thesis using 1(1) [OF True a1 r] by blast
  qed
qed

definition dead_ok :: "nbr_timer \<Rightarrow> isis \<Rightarrow> bool" where
  "dead_ok t s \<longleftrightarrow> nt_interfaceIndex t < n_if s \<and> purgeable (nt_level t) (nt_LSPid t) s \<and>
     (case nt_level t of L1_TYPE \<Rightarrow> \<forall>a\<in>set (is_adjTable s L1_TYPE). ad_gateIndex a = nt_gateIndex t
      | L2_TYPE \<Rightarrow> length (is_adjTable s L2_TYPE) \<le> length (is_adjTable s L1_TYPE))"

lemma run_resetDIS:
  assumes inv: "hello_inv s" and i: "i < n_if s"
  shows "run_ok (resetDIS v i l s) (hello_step s)"
proof -
  define h where "h = (\<lambda>f :: isis_if. f\<lparr>ii_DISpriority := (ii_DISpriority f)(l := ii_priority f),
         ii_DIS := (ii_DIS f)(l := copy_bytes (is_sysId s) 6 0 @ [of_nat (i + 1)])\<rparr>)"
  have "length (is_sysId s) = 6" using inv by (simp add: hello_inv_def sizes_ok_def)
  then have "hello_inv (mod_if i h s)" by (intro hello_inv_mod_if [OF inv]) (simp_all add: h_def)
  moreover have "gate_ok g (mod_if i h s) = gate_ok g s" for g by (rule gate_ok_mod_if) (simp add: h_def)
  ultimately have "hello_step s (mod_if i h s)" by (simp add: hello_step_def) (simp add: mod_if_def)
  then show ?thesis using i hello_step_refl [OF inv] by (simp add: resetDIS_def n_if_def h_def)
qed

theorem run_removeDeadNeighbour:
  assumes inv: "hello_inv s" and ok: "dead_ok t s"
  shows "run_ok (removeDeadNeighbour now t s) (hello_step s)"
proof -
  let ?l = "nt_level t"
  have dist: "distinct (map adj_id (is_adjTable s l))" for l using inv by (simp add: hello_inv_def adjs_ok_def)
  have "run_ok (case ?l of L1_TYPE \<Rightarrow> remove_dead_L1 t 0 (is_adjTable s L1_TYPE)
         | L2_TYPE \<Rightarrow> remove_dead_L2 t (is_adjTable s L1_TYPE) 0 (is_adjTable s L2_TYPE))
    (\<lambda>xs. distinct (map adj_id xs) \<and> set xs \<subseteq> set (is_adjTable s ?l))"
  proof (cases ?l)
    case L1_TYPE
    then show ?thesis using ok dist [of L1_TYPE] by (auto simp: dead_ok_def remove_dead_L1_returns distinct_map_filter)
  next
    case L2_TYPE
    then obtain ys where "remove_dead_L2 t (is_adjTable s L1_TYPE) 0 (is_adjTable s L2_TYPE) = Some ys"
      using ok remove_dead_L2_short [of "is_adjTable s L2_TYPE" "is_adjTable s L1_TYPE" t 0] by (auto simp: dead_ok_def)
    then show ?thesis using L2_TYPE dist [of L2_TYPE] remove_dead_L2_sub [where f = adj_id] by auto
  qed
  then show ?thesis
    unfolding removeDeadNeighbour_def Let_def run_ok_simps
  proof (rule run_ok_mono)
    fix xs assume xs: "distinct (map adj_id xs) \<and> set xs \<subseteq> set (is_adjTable s ?l)"
    let ?s0 = "s\<lparr>is_adjTable := (is_adjTable s)(?l := sort_key adj_key xs)\<rparr>"
    have inv0: "hello_inv ?s0"
      using xs inv by (intro hello_inv_tables) (auto simp: hello_inv_def adjs_ok_def)
    have "purgeable ?l (nt_LSPid t) ?s0" using ok by (simp add: dead_ok_def purgeable_def getLSPFromDbByID_def rec_lsp_def)
    then have "run_ok (purgeRemainLSP now (nt_LSPid t) ?l ?s0) (lsps_kept ?s0)" using inv0 by (intro run_purge) (simp_all add: hello_inv_def)
    then show "run_ok (purgeRemainLSP now (nt_LSPid t) ?l ?s0) (\<lambda>s1. run_ok (vec_at (is_ISISIft s1) (nt_interfaceIndex t))
      (\<lambda>f. run_ok (if ii_network f then resetDIS (nt_LSPid t) (nt_interfaceIndex t) ?l s1 else Some s1)
        (\<lambda>s2. hello_step s (if ?l = L2_TYPE then updateAtt False s2 else s2))))"
    proof (rule run_ok_mono)
      fix s1 assume k: "lsps_kept ?s0 s1"
      have inv1: "hello_inv s1" using k kept_conf_hello [OF inv0] by auto
      have s1: "hello_step s s1"
        using inv1 k by (simp add: hello_step_def lsps_kept_def kept_conf_def gate_ok_def getIfaceByGateIndex_def)
      have n: "nt_interfaceIndex t < n_if s1" using ok k by (simp add: dead_ok_def lsps_kept_def kept_conf_def n_if_def)
      then have "vec_at (is_ISISIft s1) (nt_interfaceIndex t) = Some (is_ISISIft s1 ! nt_interfaceIndex t)" by (simp add: n_if_def)
      moreover have fin: "hello_step s (if ?l = L2_TYPE then updateAtt False s2 else s2)" if s2: "hello_step s1 s2" for s2
      proof -
        have "hello_step s2 (updateAtt False s2)" using s2 by (intro hello_step_updateAtt) (simp add: hello_step_def)
        then show ?thesis using s1 s2 by (auto intro: hello_step_trans)
      qed
      ultimately show "run_ok (vec_at (is_ISISIft s1) (nt_interfaceIndex t))
        (\<lambda>f. run_ok (if ii_network f then resetDIS (nt_LSPid t) (nt_interfaceIndex t) ?l s1 else Some s1)
          (\<lambda>s2. hello_step s (if ?l = L2_TYPE then updateAtt False s2 else s2)))"
        using fin [OF hello_step_refl [OF inv1]] run_ok_mono [OF run_resetDIS [OF inv1 n] fin] by simp
    qed
  qed
qed

lemma run_sendHelloMsg:
  assumes inv: "hello_inv s" and i: "i < n_if s" and few: "length (is_adjTable s L1_TYPE) \<le> 42" "length (is_adjTable s L2_TYPE) \<le> 42"
  shows "run_ok (sendHelloMsg mem i g ct s) (hello_step s)"
proof -
  have out: "hello_step s (s\<lparr>is_out := x\<rparr>)" for x
  proof -
    have "kept_conf s (s\<lparr>is_out := x\<rparr>)" using inv by (auto simp: hello_inv_def intro: lsps_kept_out)
    then show ?thesis using kept_conf_hello [OF inv] by (auto simp: hello_step_def kept_conf_def kept_gate_ok)
  qed
  have few_l: "length (is_adjTable s l) \<le> 42" for l using few by (cases l) simp_all
  have "unat (of_nat (6 * length (is_adjTable s l)) :: u8) = 6 * length (is_adjTable s l)" for l
  proof -
    have "6 * length (is_adjTable s l) < 2 ^ 8" using few_l [of l] by simp
    moreover have "unat (of_nat k :: u8) = k" if "k < 2 ^ 8" for k using that by (simp add: unsigned_of_nat take_bit_nat_eq_self)
    ultimately show ?thesis by blast
  qed
  then have t: "\<exists>t. neighbours_tlv mem l g s = Some t" for l
    by (simp add: neighbours_tlv_def Let_def list_ex_iff)
  then have t': "run_ok (neighbours_tlv mem l g s) (\<lambda>_. True)" for l by (simp add: run_ok_ex)
  have h: "\<exists>x. getHoldTime i c s = Some x" for c
    using i by (cases c) (auto simp: getHoldTime_def getHoldTime_level_def amIDIS_def n_if_def)
  show ?thesis
    using i t t' h [of "ii_circuitType (is_ISISIft s ! i)"] out hello_step_refl [OF inv]
    by (auto simp: sendHelloMsg_def sendBroadcastHelloMsg_def sendPTPHelloMsg_def n_if_def split: circuit.split)
qed

end
