(* ===== verification/Isis_Spf_Correct.thy ===== *)
theory Isis_Spf_Correct
  imports Isis_Spf "HOL-Library.Multiset"
begin

text \<open>
  What the shortest path computation computes. The two-way check is a filter; the loop ends, with the length of
  a shortest walk over the connections for every system that can be reached, and, when there are no
  pseudonodes, no parallel connections of this system and no connection of metric 0, with the first hops of all
  shortest walks.
\<close>

section \<open>The two-way check\<close>

lemma isCon_append [simp]: "isCon (as @ bs) x y \<longleftrightarrow> isCon as x y \<or> isCon bs x y"
  by (auto simp: isCon_def)

lemma isCon_Cons [simp]:
  "isCon (c # cs) x y \<longleftrightarrow> compareArrays (cn_from c) x 8 \<and> compareArrays (cn_to c) y 8 \<or> isCon cs x y"
  by (auto simp: isCon_def)

lemma isCon_reverse:
  "d \<in> set cs \<Longrightarrow> compareArrays (cn_from c) (cn_to d) 8 \<Longrightarrow> compareArrays (cn_to c) (cn_from d) 8 \<Longrightarrow> isCon cs (cn_to c) (cn_from c)"
  by (auto simp: isCon_def compareArrays_def)

lemma two_way_filter:
  "\<forall>c\<in>set lsps_kept. isCon (lsps_kept @ cs) (cn_to c) (cn_from c) \<Longrightarrow>
   two_way lsps_kept cs = lsps_kept @ filter (\<lambda>c. isCon (lsps_kept @ cs) (cn_to c) (cn_from c)) cs"
proof (induction lsps_kept cs rule: two_way.induct)
  case (2 lsps_kept c cs)
  show ?case
  proof (cases "isCon (lsps_kept @ c # cs) (cn_to c) (cn_from c)")
    case True
    then have "\<forall>d\<in>set (lsps_kept @ [c]). isCon ((lsps_kept @ [c]) @ cs) (cn_to d) (cn_from d)" using 2 by auto
    then show ?thesis using 2 True by simp
  next
    case False
    have same: "isCon (lsps_kept @ c # cs) (cn_to d) (cn_from d) \<longleftrightarrow> isCon (lsps_kept @ cs) (cn_to d) (cn_from d)"
      if "d \<in> set lsps_kept \<union> set cs" for d
    proof
      assume "isCon (lsps_kept @ c # cs) (cn_to d) (cn_from d)"
      then consider "compareArrays (cn_from c) (cn_to d) 8 \<and> compareArrays (cn_to c) (cn_from d) 8"
        | "isCon (lsps_kept @ cs) (cn_to d) (cn_from d)" by auto
      then show "isCon (lsps_kept @ cs) (cn_to d) (cn_from d)"
      proof cases
        case 1
        then have "isCon (lsps_kept @ c # cs) (cn_to c) (cn_from c)" using that by (intro isCon_reverse [of d]) auto
        then show ?thesis using False by simp
      qed
    qed auto
    have "\<forall>d\<in>set lsps_kept. isCon (lsps_kept @ cs) (cn_to d) (cn_from d)" using 2(3) same by blast
    then have "two_way lsps_kept cs = lsps_kept @ filter (\<lambda>d. isCon (lsps_kept @ cs) (cn_to d) (cn_from d)) cs" using 2(2) False by simp
    also have "filter (\<lambda>d. isCon (lsps_kept @ cs) (cn_to d) (cn_from d)) cs = filter (\<lambda>d. isCon (lsps_kept @ c # cs) (cn_to d) (cn_from d)) cs"
      using same by (intro filter_cong) auto
    finally show ?thesis using False by auto
  qed
qed simp

lemma twoWayCheck_filter: "twoWayCheck cs = filter (\<lambda>c. isCon cs (cn_to c) (cn_from c)) cs"
  unfolding twoWayCheck_def by (subst two_way_filter) auto

section \<open>Sorting\<close>

text \<open>What is used of \<open>std::sort\<close> with the comparison of paths: the same paths, none before a lesser one.\<close>

locale path_sorter =
  fixes srt :: "isis_path list \<Rightarrow> isis_path list"
  assumes perm: "mset (srt ps) = mset ps"
    and in_order: "sorted_wrt (\<lambda>p q. \<not> path_less q p) (srt ps)"
begin

lemma set_insertion_sorted [simp]: "set (srt ps) = set ps"
  using perm [of ps] by (metis set_mset_mset)

lemma length_srt [simp]: "length (srt ps) = length ps"
  using perm [of ps] by (metis size_mset)

lemma srt_Nil [simp]: "srt ps = [] \<longleftrightarrow> ps = []"
  using length_srt [of ps] by (metis length_0_conv)

lemma distinct_srt [simp]: "distinct (map f (srt ps)) \<longleftrightarrow> distinct (map f ps)"
  by (metis mset_map perm mset_eq_imp_distinct_iff)

lemma hd_srt_least: "p \<in> set ps \<Longrightarrow> sp_metric (hd (srt ps)) \<le> sp_metric p"
proof -
  assume "p \<in> set ps"
  then have p: "p \<in> set (srt ps)" by simp
  then obtain q qs where q: "srt ps = q # qs" by (cases "srt ps") auto
  then have "p = q \<or> \<not> path_less p q" using in_order [of ps] p by auto
  then show ?thesis using q by (auto simp: path_less_def)
qed

end

text \<open>An insertion sort is such a sort.\<close>

fun insert_path :: "isis_path \<Rightarrow> isis_path list \<Rightarrow> isis_path list" where
  "insert_path p [] = [p]"
| "insert_path p (q # qs) = (if path_less q p then q # insert_path p qs else p # q # qs)"

definition insertion_sort_paths :: "isis_path list \<Rightarrow> isis_path list" where
  "insertion_sort_paths ps = foldr insert_path ps []"

lemma mset_insert_path [simp]: "mset (insert_path p qs) = add_mset p (mset qs)"
  by (induction qs) auto

lemma set_insert_path [simp]: "set (insert_path p qs) = insert p (set qs)"
  by (metis mset_insert_path set_mset_add_mset_insert set_mset_mset)

lemma sorted_insert_path:
  "sorted_wrt (\<lambda>p q. \<not> path_less q p) qs \<Longrightarrow> sorted_wrt (\<lambda>p q. \<not> path_less q p) (insert_path p qs)"
  by (induction qs) (auto simp: path_less_def)

interpretation insertion_sort: path_sorter insertion_sort_paths
proof
  show "mset (insertion_sort_paths ps) = mset ps" for ps
    by (induction ps) (auto simp: insertion_sort_paths_def)
  show "sorted_wrt (\<lambda>p q. \<not> path_less q p) (insertion_sort_paths ps)" for ps
    by (induction ps) (auto simp: insertion_sort_paths_def intro: sorted_insert_path)
qed

section \<open>One connection\<close>

text \<open>The network: identifiers of 8 bytes with fragment 0, an interface for each connection of this system,
  and metrics whose sum fits into the metric of a path.\<close>

definition id_ok :: "isis_id \<Rightarrow> bool" where
  "id_ok v \<longleftrightarrow> length v = 8 \<and> v ! 7 = 0"

definition self_id :: "isis_id \<Rightarrow> isis_id" where
  "self_id sysId = take 6 sysId @ [0, 0]"

definition total :: "isis_con list \<Rightarrow> nat" where
  "total cs = sum_list (map cn_metric cs)"

definition network_ok :: "isis_id \<Rightarrow> isis_con list \<Rightarrow> bool" where
  "network_ok sysId cs \<longleftrightarrow> length sysId = 6 \<and> total cs < 2 ^ 32 \<and>
     (\<forall>c\<in>set cs. id_ok (cn_from c) \<and> id_ok (cn_to c) \<and> (cn_from c = self_id sysId \<longrightarrow> cn_entry c \<noteq> NULL))"

lemma id_ok_self [simp]: "length sysId = 6 \<Longrightarrow> id_ok (self_id sysId)"
  by (simp add: id_ok_def self_id_def nth_append)

lemma id_ok_compare [simp]: "id_ok a \<Longrightarrow> id_ok b \<Longrightarrow> compareArrays a b 8 \<longleftrightarrow> a = b"
  by (simp add: id_ok_def compareArrays_full)

lemma is_self_iff:
  assumes "length sysId = 6" and "id_ok v"
  shows "compareArrays v sysId 6 \<and> v ! 6 = 0 \<longleftrightarrow> v = self_id sysId"
proof -
  have "v = take 6 v @ [v ! 6, v ! 7]" if "length v = 8"
    using that by (auto simp: list_eq_iff_nth_eq nth_append nth_Cons' less_Suc_eq numeral_eq_Suc)
  then show ?thesis using assms by (auto simp: id_ok_def self_id_def compareArrays_def nth_append)
qed

lemma add_missing_id: "set ns \<subseteq> set d \<Longrightarrow> add_missing ns d = d"
proof (induction ns)
  case (Cons n ns)
  then have "same_nbr n n" and "n \<in> set d" by (auto simp: same_nbr_def)
  then show ?case using Cons by auto
qed simp

lemma set_add_missing:
  "\<forall>n\<in>set ns \<union> set d. length (nb_id n) = 8 \<Longrightarrow> set (add_missing ns d) = set ns \<union> set d"
proof (induction ns arbitrary: d)
  case (Cons n ns)
  show ?case
  proof (cases "\<exists>m\<in>set d. same_nbr m n")
    case True
    then obtain m where m: "m \<in> set d" "same_nbr m n" by blast
    then have "m = n" using Cons.prems by (auto simp: same_nbr_def compareArrays_full)
    then show ?thesis using Cons m True by auto
  next
    case False
    then show ?thesis using Cons by auto
  qed
qed simp

definition tent_ok :: "isis_path list \<Rightarrow> bool" where
  "tent_ok ps \<longleftrightarrow> distinct (map sp_to ps) \<and> (\<forall>p\<in>set ps. id_ok (sp_to p))"

lemma index_path:
  assumes "tent_ok ps" and "id_ok v"
  shows "index_first (is_path_to v) ps = index_first (\<lambda>p. sp_to p = v) ps"
proof -
  have "\<forall>p\<in>set ps. is_path_to v p \<longleftrightarrow> sp_to p = v" using assms by (auto simp: tent_ok_def is_path_to_def)
  then show ?thesis by (induction ps) auto
qed

lemma hd_update_nth: "t \<noteq> [] \<Longrightarrow> hd (t[j := q]) = (if j = 0 then q else hd t)"
  by (cases t; cases j) auto

definition relaxed :: "isis_path \<Rightarrow> nat \<Rightarrow> isis_path \<Rightarrow> isis_path" where
  "relaxed H m q = q\<lparr>sp_metric := m, sp_from := add_missing (sp_from H) (if sp_metric q > m then [] else sp_from q)\<rparr>"

lemma relaxed_self [simp]: "relaxed H (sp_metric H) H = H"
  by (simp add: relaxed_def add_missing_id)

text \<open>What one connection does to TENT: nothing, a new path, or a path that is now as good or better.\<close>

definition move_rel :: "isis_id \<Rightarrow> isis_con \<Rightarrow> isis_path list \<Rightarrow> isis_path list \<Rightarrow> bool" where
  "move_rel sysId c t t' \<longleftrightarrow>
     (let H = hd t; m = sp_metric H + cn_metric c in
      (\<exists>hs. (\<forall>p\<in>set t. sp_to p \<noteq> cn_to c) \<and> new_hops sysId c (sp_from H) = Some hs \<and>
         t' = t @ [\<lparr>sp_to = cn_to c, sp_metric = m, sp_from = hs\<rparr>]) \<or>
      (\<exists>p\<in>set t. sp_to p = cn_to c \<and> sp_metric p < m) \<and> t' = t \<or>
      (\<exists>j<length t. sp_to (t ! j) = cn_to c \<and> m \<le> sp_metric (t ! j) \<and> t' = t[j := relaxed H m (t ! j)]))"

definition con_ok :: "isis_id \<Rightarrow> isis_con \<Rightarrow> bool" where
  "con_ok sysId c \<longleftrightarrow> id_ok (cn_from c) \<and> id_ok (cn_to c) \<and> (cn_from c = self_id sysId \<longrightarrow> cn_entry c \<noteq> NULL)"

lemma new_hops_Some:
  assumes "length sysId = 6" and "con_ok sysId c"
  shows "new_hops sysId c ns =
    Some (if cn_from c = self_id sysId then [\<lparr>nb_id = cn_to c, nb_entry = cn_entry c\<rparr>]
      else map (\<lambda>n. if nb_id n ! 6 \<noteq> 0 then n\<lparr>nb_id := cn_to c\<rparr> else n) ns)"
  using assms is_self_iff [of sysId "cn_from c"] by (simp add: new_hops_def con_ok_def)

lemma move_con_rel:
  assumes t: "tent_ok t" "t \<noteq> []" and c: "length sysId = 6" "con_ok sysId c"
    and m: "sp_metric (hd t) + cn_metric c < 2 ^ 32"
  shows "\<exists>t'. move_con sysId (sp_metric (hd t)) c t = Some t' \<and> move_rel sysId c t t'"
proof -
  have to: "id_ok (cn_to c)" using c by (simp add: con_ok_def)
  define H where "H = hd t"
  define j where "j = index_first (\<lambda>p. sp_to p = cn_to c) t"
  have idx: "index_first (is_path_to (cn_to c)) t = j" using index_path [OF t(1) to] by (simp add: j_def)
  have add: "add32 (cn_metric c) (sp_metric (hd t)) = sp_metric H + cn_metric c" using m by (simp add: add32_def H_def add.commute)
  show ?thesis
  proof (cases "\<exists>p\<in>set t. sp_to p = cn_to c")
    case False
    then have "j = length t" by (simp add: j_def)
    moreover obtain hs where hs: "new_hops sysId c (sp_from H) = Some hs" using new_hops_Some [OF c] by simp
    ultimately have "move_con sysId (sp_metric (hd t)) c t =
      Some (t @ [\<lparr>sp_to = cn_to c, sp_metric = sp_metric H + cn_metric c, sp_from = hs\<rparr>])"
      by (simp add: move_con_def idx add [folded H_def] H_def [symmetric])
    moreover have "move_rel sysId c t (t @ [\<lparr>sp_to = cn_to c, sp_metric = sp_metric H + cn_metric c, sp_from = hs\<rparr>])"
      using False hs unfolding move_rel_def Let_def H_def by auto
    ultimately show ?thesis by blast
  next
    case True
    then have "j < length t" by (simp add: j_def)
    have "sp_to (t ! j) = cn_to c" using index_first_nth [OF True] by (simp add: j_def)
    show ?thesis
    proof (cases "sp_metric H + cn_metric c \<le> sp_metric (t ! j)")
      case False
      then have "\<exists>p\<in>set t. sp_to p = cn_to c \<and> sp_metric p < sp_metric H + cn_metric c"
        using \<open>j < length t\<close> \<open>sp_to (t ! j) = cn_to c\<close> by (meson not_le nth_mem)
      moreover have "move_con sysId (sp_metric (hd t)) c t = Some t"
        using False \<open>j < length t\<close> by (simp add: move_con_def idx add)
      ultimately have "move_con sysId (sp_metric (hd t)) c t = Some t \<and> move_rel sysId c t t"
        unfolding move_rel_def Let_def H_def by auto
      then show ?thesis by blast
    next
      case le: True
      define q where "q = better_path (sp_metric H + cn_metric c) (t ! j)"
      have "sp_from (hd (t[j := q])) = sp_from H"
      proof (cases j)
        case 0
        then have "t ! j = H" using t by (simp add: H_def hd_conv_nth)
        then show ?thesis using le 0 t by (simp add: q_def better_path_def hd_update_nth)
      qed (use t in \<open>simp add: H_def hd_update_nth\<close>)
      then have "t[j := q\<lparr>sp_from := add_missing (sp_from (hd (t[j := q]))) (sp_from q)\<rparr>] = t[j := relaxed H (sp_metric H + cn_metric c) (t ! j)]"
        by (simp add: q_def better_path_def relaxed_def)
      then have "move_con sysId (sp_metric (hd t)) c t = Some (t[j := relaxed H (sp_metric H + cn_metric c) (t ! j)])"
        using le \<open>j < length t\<close> by (simp add: move_con_def idx add Let_def q_def)
      moreover have "move_rel sysId c t (t[j := relaxed H (sp_metric H + cn_metric c) (t ! j)])"
        using le \<open>j < length t\<close> \<open>sp_to (t ! j) = cn_to c\<close> unfolding move_rel_def Let_def H_def by auto
      ultimately show ?thesis by blast
    qed
  qed
qed

lemma move_rel_cases [consumes 2, case_names new lsps_kept better]:
  assumes "move_rel sysId c t t'" and "t \<noteq> []"
  obtains hs where "\<forall>p\<in>set t. sp_to p \<noteq> cn_to c" "new_hops sysId c (sp_from (hd t)) = Some hs"
      "t' = t @ [\<lparr>sp_to = cn_to c, sp_metric = sp_metric (hd t) + cn_metric c, sp_from = hs\<rparr>]"
    | p where "p \<in> set t" "sp_to p = cn_to c" "sp_metric p < sp_metric (hd t) + cn_metric c" "t' = t"
    | j where "j < length t" "sp_to (t ! j) = cn_to c" "sp_metric (hd t) + cn_metric c \<le> sp_metric (t ! j)"
      "t' = t[j := relaxed (hd t) (sp_metric (hd t) + cn_metric c) (t ! j)]"
  using assms unfolding move_rel_def Let_def by blast

lemma sp_to_relaxed [simp]: "sp_to (relaxed H m q) = sp_to q"
  by (simp add: relaxed_def)

lemma sp_metric_relaxed [simp]: "sp_metric (relaxed H m q) = m"
  by (simp add: relaxed_def)

lemma move_rel_hd:
  assumes "move_rel sysId c t t'" and "t \<noteq> []"
  shows "hd t' = hd t \<and> t' \<noteq> []"
  using assms
proof (cases rule: move_rel_cases)
  case (better j)
  show ?thesis
  proof (cases j)
    case 0
    then show ?thesis using better assms(2) by (auto simp: hd_update_nth hd_conv_nth relaxed_def add_missing_id)
  next
    case (Suc k)
    then show ?thesis using better assms(2) by (simp add: hd_update_nth)
  qed
qed (use assms(2) in auto)

lemma tent_ok_update: "tent_ok t \<Longrightarrow> j < length t \<Longrightarrow> sp_to q = sp_to (t ! j) \<Longrightarrow> tent_ok (t[j := q])"
proof -
  assume t: "tent_ok t" "j < length t" "sp_to q = sp_to (t ! j)"
  then have "map sp_to (t[j := q]) = map sp_to t" by (simp add: map_update) (metis list_update_id nth_map)
  moreover have eqv: "tent_ok ps \<longleftrightarrow> distinct (map sp_to ps) \<and> (\<forall>v\<in>set (map sp_to ps). id_ok v)" for ps
    by (auto simp: tent_ok_def)
  ultimately show ?thesis using t(1) by metis
qed

lemma move_rel_ok:
  assumes "move_rel sysId c t t'" and "t \<noteq> []" and t: "tent_ok t" "id_ok (cn_to c)"
  shows "tent_ok t'"
  using assms(1,2)
proof (cases rule: move_rel_cases)
  case (better j)
  then show ?thesis using t by (simp add: tent_ok_update)
qed (use t in \<open>auto simp: tent_ok_def\<close>)

section \<open>All connections of a system\<close>

definition covers :: "isis_path list \<Rightarrow> isis_id \<Rightarrow> nat \<Rightarrow> bool" where
  "covers ps v d \<longleftrightarrow> (\<exists>p\<in>set ps. sp_to p = v \<and> sp_metric p \<le> d)"

lemma coversI: "p \<in> set ps \<Longrightarrow> sp_to p = v \<Longrightarrow> sp_metric p \<le> d \<Longrightarrow> covers ps v d"
  by (auto simp: covers_def)

lemma covers_trans: "covers ps v d \<Longrightarrow> \<forall>p\<in>set ps. covers qs (sp_to p) (sp_metric p) \<Longrightarrow> covers qs v d"
  unfolding covers_def by (metis order_trans)

lemma set_update_memI: "j < length t \<Longrightarrow> q \<in> set (t[j := q])"
  by (rule set_update_memI)

lemma in_update_or: "p \<in> set t \<Longrightarrow> p \<in> set (t[j := q]) \<or> p = t ! j"
  by (metis in_set_conv_nth length_list_update nth_list_update_neq)

lemma move_rel_effect:
  assumes "move_rel sysId c t t'" and "t \<noteq> []"
  shows "\<forall>p\<in>set t'. p \<in> set t \<or> sp_to p = cn_to c \<and> sp_metric p = sp_metric (hd t) + cn_metric c"
    and "\<forall>p\<in>set t. covers t' (sp_to p) (sp_metric p)"
    and "covers t' (cn_to c) (sp_metric (hd t) + cn_metric c)"
    and "length t' \<le> Suc (length t)"
proof -
  have "(\<forall>p\<in>set t'. p \<in> set t \<or> sp_to p = cn_to c \<and> sp_metric p = sp_metric (hd t) + cn_metric c) \<and>
    (\<forall>p\<in>set t. covers t' (sp_to p) (sp_metric p)) \<and> covers t' (cn_to c) (sp_metric (hd t) + cn_metric c) \<and> length t' \<le> Suc (length t)"
    using assms
  proof (cases rule: move_rel_cases)
    case (lsps_kept p)
    then have "covers t' (cn_to c) (sp_metric (hd t) + cn_metric c)" by (auto intro: coversI)
    then show ?thesis using lsps_kept by (auto intro: coversI)
  next
    case (better j)
    define q where "q = relaxed (hd t) (sp_metric (hd t) + cn_metric c) (t ! j)"
    have q: "q \<in> set t'" using better by (simp add: q_def set_update_memI)
    have "covers t' (sp_to p) (sp_metric p)" if "p \<in> set t" for p
      using in_update_or [OF that, of j q] better q by (auto simp: q_def intro: coversI)
    moreover have "\<forall>p\<in>set t'. p \<in> set t \<or> p = q" using better set_update_subset_insert [of t j q] by (auto simp: q_def)
    ultimately show ?thesis using better q by (auto simp: q_def intro: coversI)
  qed (auto simp: covers_def)
  then show "\<forall>p\<in>set t'. p \<in> set t \<or> sp_to p = cn_to c \<and> sp_metric p = sp_metric (hd t) + cn_metric c"
    and "\<forall>p\<in>set t. covers t' (sp_to p) (sp_metric p)"
    and "covers t' (cn_to c) (sp_metric (hd t) + cn_metric c)" and "length t' \<le> Suc (length t)" by blast+
qed

definition moves_effect :: "isis_con list \<Rightarrow> isis_path list \<Rightarrow> isis_path list \<Rightarrow> bool" where
  "moves_effect cs t t' \<longleftrightarrow> tent_ok t' \<and> t' \<noteq> [] \<and> hd t' = hd t \<and> length t' \<le> length t + length cs \<and>
     (\<forall>p\<in>set t'. p \<in> set t \<or> (\<exists>c\<in>set cs. sp_to p = cn_to c \<and> sp_metric p = sp_metric (hd t) + cn_metric c)) \<and>
     (\<forall>p\<in>set t. covers t' (sp_to p) (sp_metric p)) \<and>
     (\<forall>c\<in>set cs. covers t' (cn_to c) (sp_metric (hd t) + cn_metric c))"

lemma moves_effect_Cons:
  assumes r: "move_rel sysId c t t1" and t: "t \<noteq> []" and e: "moves_effect cs t1 t'"
  shows "moves_effect (c # cs) t t'"
proof -
  have hd: "hd t1 = hd t" "t1 \<noteq> []" using move_rel_hd [OF r t] by simp_all
  note a = move_rel_effect [OF r t]
  have "\<forall>p\<in>set t1. covers t' (sp_to p) (sp_metric p)" using e by (simp add: moves_effect_def)
  then have "\<forall>p\<in>set t. covers t' (sp_to p) (sp_metric p)" "covers t' (cn_to c) (sp_metric (hd t) + cn_metric c)"
    using a(2,3) covers_trans by blast+
  then show ?thesis using e hd a(1,4) unfolding moves_effect_def by auto
qed

lemma moveToTent_effect:
  assumes "tent_ok t" "t \<noteq> []" "length sysId = 6" "\<forall>c\<in>set cs. con_ok sysId c \<and> sp_metric (hd t) + cn_metric c < 2 ^ 32"
  shows "\<exists>t'. moveToTent sysId (sp_metric (hd t)) cs t = Some t' \<and> moves_effect cs t t'"
  using assms
proof (induction cs arbitrary: t)
  case Nil
  then show ?case by (auto simp: moves_effect_def intro: coversI)
next
  case (Cons c cs)
  then obtain t1 where t1: "move_con sysId (sp_metric (hd t)) c t = Some t1" and r: "move_rel sysId c t t1"
    using move_con_rel [of t sysId c] by auto
  have hd: "hd t1 = hd t" "t1 \<noteq> []" using move_rel_hd [OF r] Cons.prems by simp_all
  have "tent_ok t1" using move_rel_ok [OF r] Cons.prems by (simp add: con_ok_def)
  then obtain t' where "moveToTent sysId (sp_metric (hd t)) cs t1 = Some t'" "moves_effect cs t1 t'"
    using Cons.IH [of t1] Cons.prems hd by auto
  then show ?case using t1 moves_effect_Cons [OF r] Cons.prems by auto
qed

section \<open>The loop\<close>

inductive walk :: "isis_con list \<Rightarrow> isis_id \<Rightarrow> nat \<Rightarrow> isis_id \<Rightarrow> bool" for cs u where
  walk_here: "walk cs u 0 u"
| walk_step: "walk cs u d v \<Longrightarrow> c \<in> set cs \<Longrightarrow> cn_from c = v \<Longrightarrow> walk cs u (d + cn_metric c) (cn_to c)"

definition open_cons :: "isis_con list \<Rightarrow> isis_path list \<Rightarrow> isis_con list" where
  "open_cons cs paths = filter (\<lambda>c. cn_from c \<notin> sp_to ` set paths) cs"

definition spf_inv :: "isis_id \<Rightarrow> isis_con list \<Rightarrow> isis_con list \<Rightarrow> isis_path list \<Rightarrow> isis_path list \<Rightarrow> bool" where
  "spf_inv self cs init tent paths \<longleftrightarrow>
     init = open_cons cs paths \<and> tent_ok tent \<and> tent_ok paths \<and>
     (\<forall>p\<in>set tent \<union> set paths. walk cs self (sp_metric p) (sp_to p) \<and> sp_metric p + total init \<le> total cs) \<and>
     (\<forall>q\<in>set paths. \<forall>c\<in>set cs. cn_from c = sp_to q \<longrightarrow> covers (tent @ paths) (cn_to c) (sp_metric q + cn_metric c)) \<and>
     covers (tent @ paths) self 0 \<and>
     (\<forall>q\<in>set paths. \<forall>p\<in>set tent. sp_metric q \<le> sp_metric p)"

lemma total_partition: "total (filter P cs) + total (filter (\<lambda>c. \<not> P c) cs) = total cs"
  by (induction cs) (auto simp: total_def)

lemma member_le_total: "c \<in> set cs \<Longrightarrow> cn_metric c \<le> total cs"
  by (induction cs) (auto simp: total_def)

lemma spf_inv_start: "length sysId = 6 \<Longrightarrow> spf_inv (self_id sysId) cs cs [self_path (self_id sysId)] []"
  by (auto simp: spf_inv_def open_cons_def tent_ok_def self_path_def covers_def intro: walk_here)

lemma spf_inv_end:
  assumes inv: "spf_inv self cs init [] paths"
  shows "walk cs self d v \<Longrightarrow> covers paths v d"
proof (induction rule: walk.induct)
  case walk_here
  then show ?case using inv by (simp add: spf_inv_def)
next
  case (walk_step d v c)
  then obtain q where q: "q \<in> set paths" "sp_to q = v" "sp_metric q \<le> d" by (auto simp: covers_def)
  then have "covers paths (cn_to c) (sp_metric q + cn_metric c)" using walk_step inv by (auto simp: spf_inv_def)
  then show ?case using q by (force simp: covers_def)
qed

definition path_key :: "isis_path \<Rightarrow> isis_id \<times> nat" where
  "path_key p = (sp_to p, sp_metric p)"

lemma add_best_keys:
  assumes "tent_ok paths" and "id_ok (sp_to H)" and "\<forall>q\<in>set paths. sp_metric q \<le> sp_metric H"
  shows "map path_key (add_best H paths) =
    (if sp_to H \<in> sp_to ` set paths then map path_key paths else map path_key paths @ [path_key H])"
proof -
  define j where "j = index_first (\<lambda>p. sp_to p = sp_to H) paths"
  have idx: "index_first (is_path_to (sp_to H)) paths = j" using index_path [OF assms(1,2)] by (simp add: j_def)
  show ?thesis
  proof (cases "\<exists>p\<in>set paths. sp_to p = sp_to H")
    case True
    then have j: "j < length paths" by (simp add: j_def)
    have "sp_to (paths ! j) = sp_to H" using index_first_nth [OF True] by (simp add: j_def)
    moreover have "sp_metric (paths ! j) \<le> sp_metric H" using assms(3) j by simp
    ultimately have "map path_key (add_best H paths) = map path_key paths"
      using j by (auto simp: add_best_def idx Let_def better_path_def map_update path_key_def list_update_same_conv)
    moreover have "sp_to H \<in> sp_to ` set paths" using True by (auto simp: image_iff) metis
    ultimately show ?thesis by simp
  next
    case False
    then have "j = length paths" by (simp add: j_def)
    then show ?thesis using False by (auto simp: add_best_def idx Let_def)
  qed
qed

lemma keys_sp_to: "map path_key ps = map path_key qs \<Longrightarrow> map sp_to ps = map sp_to qs"
proof -
  assume "map path_key ps = map path_key qs"
  then have "map (fst \<circ> path_key) ps = map (fst \<circ> path_key) qs" by (metis list.map_comp)
  then show ?thesis by (simp add: comp_def path_key_def)
qed

lemma add_best_paths:
  assumes "tent_ok paths" and "id_ok (sp_to H)" and "\<forall>q\<in>set paths. sp_metric q \<le> sp_metric H"
  shows "tent_ok (add_best H paths)"
    and "sp_to ` set (add_best H paths) = insert (sp_to H) (sp_to ` set paths)"
    and "\<forall>q\<in>set (add_best H paths). (\<exists>r\<in>set paths. path_key r = path_key q) \<or> path_key q = path_key H \<and> sp_to H \<notin> sp_to ` set paths"
    and "covers paths v d \<Longrightarrow> covers (add_best H paths) v d"
    and "covers (add_best H paths) (sp_to H) (sp_metric H)"
proof -
  note k = add_best_keys [OF assms]
  have sk: "path_key ` set (add_best H paths) = (if sp_to H \<in> sp_to ` set paths then path_key ` set paths else insert (path_key H) (path_key ` set paths))"
    using arg_cong [OF k, of set] by auto
  have to: "map sp_to ps = map fst (map path_key ps)" for ps by (simp add: path_key_def)
  have okk: "tent_ok ps \<longleftrightarrow> distinct (map sp_to ps) \<and> (\<forall>v\<in>set (map sp_to ps). id_ok v)" for ps by (auto simp: tent_ok_def)
  have m: "map sp_to (add_best H paths) = (if sp_to H \<in> sp_to ` set paths then map sp_to paths else map sp_to paths @ [sp_to H])"
    unfolding to [of "add_best H paths"] k by (simp add: comp_def path_key_def)
  then show "tent_ok (add_best H paths)" using assms(1,2) unfolding okk by auto
  show "sp_to ` set (add_best H paths) = insert (sp_to H) (sp_to ` set paths)"
    using arg_cong [OF m, of set] by (auto split: if_splits)
  show "\<forall>q\<in>set (add_best H paths). (\<exists>r\<in>set paths. path_key r = path_key q) \<or> path_key q = path_key H \<and> sp_to H \<notin> sp_to ` set paths"
  proof
    fix q
    assume "q \<in> set (add_best H paths)"
    then have "path_key q \<in> path_key ` set (add_best H paths)" by simp
    then have "path_key q \<in> path_key ` set paths \<or> path_key q = path_key H \<and> sp_to H \<notin> sp_to ` set paths"
      unfolding sk by (cases "sp_to H \<in> sp_to ` set paths") auto
    then show "(\<exists>r\<in>set paths. path_key r = path_key q) \<or> path_key q = path_key H \<and> sp_to H \<notin> sp_to ` set paths"
      by (metis imageE)
  qed
  have cov: "covers ps v d \<longleftrightarrow> (\<exists>e\<le>d. (v, e) \<in> path_key ` set ps)" for ps v d
    by (auto simp: covers_def path_key_def image_iff)
  show "covers paths v d \<Longrightarrow> covers (add_best H paths) v d" unfolding cov sk by auto
  show "covers (add_best H paths) (sp_to H) (sp_metric H)"
  proof (cases "sp_to H \<in> sp_to ` set paths")
    case True
    then obtain q where "q \<in> set paths" "sp_to q = sp_to H" by auto
    then show ?thesis unfolding cov sk using True assms(3) by (force simp: path_key_def)
  next
    case False
    then show ?thesis unfolding cov sk by (auto simp: path_key_def)
  qed
qed

lemma covers_append [simp]: "covers (ps @ qs) v d \<longleftrightarrow> covers ps v d \<or> covers qs v d"
  by (auto simp: covers_def)

lemma covers_Cons [simp]: "covers (p # ps) v d \<longleftrightarrow> sp_to p = v \<and> sp_metric p \<le> d \<or> covers ps v d"
  by (auto simp: covers_def)

lemma getCons_open:
  assumes "\<forall>c\<in>set cs. id_ok (cn_from c)" and "id_ok v"
  shows "getCons (open_cons cs paths) v =
    (filter (\<lambda>c. cn_from c = v) (open_cons cs paths), filter (\<lambda>c. cn_from c \<noteq> v) (open_cons cs paths))"
proof -
  have "filter (\<lambda>c. compareArrays (cn_from c) v 8) (open_cons cs paths) = filter (\<lambda>c. cn_from c = v) (open_cons cs paths)"
    and "filter (\<lambda>c. \<not> compareArrays (cn_from c) v 8) (open_cons cs paths) = filter (\<lambda>c. cn_from c \<noteq> v) (open_cons cs paths)"
    using assms by (auto simp: open_cons_def intro!: filter_cong)
  then show ?thesis by (simp add: getCons_def comp_def)
qed

lemma open_cons_step: "filter (\<lambda>c. cn_from c \<noteq> v) (open_cons cs paths) = filter (\<lambda>c. cn_from c \<notin> insert v (sp_to ` set paths)) cs"
  by (auto simp: open_cons_def intro!: filter_cong)

lemma spf_inv_bound:
  "spf_inv self cs init tent paths \<Longrightarrow> p \<in> set tent \<or> p \<in> set paths \<Longrightarrow>
   walk cs self (sp_metric p) (sp_to p) \<and> sp_metric p + total init \<le> total cs"
  unfolding spf_inv_def by (metis UnCI)

context path_sorter
begin

lemma first_half:
  assumes net: "network_ok sysId cs" and inv: "spf_inv (self_id sysId) cs init tent paths" and "tent \<noteq> []"
  obtains H t1 where "H \<in> set tent" "\<forall>p\<in>set tent. sp_metric H \<le> sp_metric p" "hd (srt tent) = H"
    "moveToTent sysId (sp_metric H) (filter (\<lambda>c. cn_from c = sp_to H) init) (srt tent) = Some t1"
    "moves_effect (filter (\<lambda>c. cn_from c = sp_to H) init) (srt tent) t1" "hd t1 = H" "t1 \<noteq> []"
    "bestToPath srt sysId (init, tent, paths) = Some (filter (\<lambda>c. cn_from c \<noteq> sp_to H) init, tl t1, add_best H paths)"
proof -
  define H where "H = hd (srt tent)"
  define out where "out = filter (\<lambda>c. cn_from c = sp_to H) init"
  have ne: "srt tent \<noteq> []" using \<open>tent \<noteq> []\<close> by simp
  have H: "H \<in> set tent" using hd_in_set [OF ne] by (simp add: H_def)
  have init: "init = open_cons cs paths" using inv by (simp add: spf_inv_def)
  have tok: "tent_ok (srt tent)" and Hok: "id_ok (sp_to H)" using inv H by (auto simp: spf_inv_def tent_ok_def)
  have sub: "set out \<subseteq> set cs" by (auto simp: out_def init open_cons_def)
  have "sp_metric (hd (srt tent)) + cn_metric c < 2 ^ 32" if "c \<in> set out" for c
  proof -
    have "cn_metric c \<le> total init" using that by (intro member_le_total) (simp add: out_def)
    moreover have "sp_metric H + total init \<le> total cs" using inv H by (auto simp: spf_inv_def)
    ultimately show ?thesis using net by (simp add: network_ok_def H_def)
  qed
  moreover have "con_ok sysId c" if "c \<in> set out" for c using that sub net by (auto simp: con_ok_def network_ok_def)
  ultimately obtain t1 where t1: "moveToTent sysId (sp_metric H) out (srt tent) = Some t1" "moves_effect out (srt tent) t1"
    using moveToTent_effect [OF tok ne, of sysId out] net by (auto simp: network_ok_def H_def)
  have hd: "hd t1 = H" "t1 \<noteq> []" using t1(2) by (simp_all add: moves_effect_def H_def)
  have "getCons init (sp_to H) = (out, filter (\<lambda>c. cn_from c \<noteq> sp_to H) init)"
    using getCons_open [of cs "sp_to H" paths] net Hok by (simp add: network_ok_def init out_def)
  then have "bestToPath srt sysId (init, tent, paths) = Some (filter (\<lambda>c. cn_from c \<noteq> sp_to H) init, tl t1, add_best H paths)"
    using t1(1) hd by (simp add: bestToPath_def H_def [symmetric] Let_def)
  moreover have "\<forall>p\<in>set tent. sp_metric H \<le> sp_metric p" using hd_srt_least by (simp add: H_def)
  ultimately show ?thesis using H t1 hd H_def [symmetric] unfolding out_def by (intro that)
qed

lemma spf_step:
  assumes net: "network_ok sysId cs" and inv: "spf_inv (self_id sysId) cs init tent paths" and "tent \<noteq> []"
  shows "\<exists>i t p. bestToPath srt sysId (init, tent, paths) = Some (i, t, p) \<and> spf_inv (self_id sysId) cs i t p \<and>
    length i + length t < length init + length tent"
proof -
  obtain H t1 where H: "H \<in> set tent" "\<forall>p\<in>set tent. sp_metric H \<le> sp_metric p" "hd (srt tent) = H"
    and eff: "moves_effect (filter (\<lambda>c. cn_from c = sp_to H) init) (srt tent) t1" and hd: "hd t1 = H" "t1 \<noteq> []"
    and run: "bestToPath srt sysId (init, tent, paths) = Some (filter (\<lambda>c. cn_from c \<noteq> sp_to H) init, tl t1, add_best H paths)"
    by (rule first_half [OF assms]) blast
  define out where "out = filter (\<lambda>c. cn_from c = sp_to H) init"
  define rest where "rest = filter (\<lambda>c. cn_from c \<noteq> sp_to H) init"
  have t1: "t1 = H # tl t1" using hd by (metis list.collapse)
  have init: "init = open_cons cs paths" and pok: "tent_ok paths" and Hok: "id_ok (sp_to H)"
    and ord: "\<forall>q\<in>set paths. sp_metric q \<le> sp_metric H" using inv H by (auto simp: spf_inv_def tent_ok_def)
  note ab = add_best_paths [OF pok Hok ord]
  have fromt1: "\<forall>p\<in>set t1. p \<in> set tent \<or> (\<exists>c\<in>set out. sp_to p = cn_to c \<and> sp_metric p = sp_metric H + cn_metric c)"
    and cov1: "\<forall>p\<in>set tent. covers t1 (sp_to p) (sp_metric p)" "\<forall>c\<in>set out. covers t1 (cn_to c) (sp_metric H + cn_metric c)"
    and len1: "length t1 \<le> length tent + length out" and tok1: "tent_ok t1"
    using eff H(3) by (auto simp: moves_effect_def out_def)
  have tot: "total out + total rest = total init" unfolding out_def rest_def by (rule total_partition)
  have pass: "covers (tl t1 @ add_best H paths) v d" if "covers t1 v d" for v d
    using that ab(5) unfolding covers_def by (subst (asm) t1) (auto intro: order_trans)
  have keep: "covers (tl t1 @ add_best H paths) v d" if "covers (tent @ paths) v d" for v d
  proof -
    from that consider "covers tent v d" | "covers paths v d" by auto
    then show ?thesis using pass covers_trans [OF _ cov1(1)] ab(4) by cases auto
  qed
  have bound: "walk cs (self_id sysId) (sp_metric p) (sp_to p) \<and> sp_metric p + total rest \<le> total cs" if p: "p \<in> set t1" for p
  proof -
    have Hw: "walk cs (self_id sysId) (sp_metric H) (sp_to H)" "sp_metric H + total init \<le> total cs" using spf_inv_bound [OF inv] H by auto
    consider "p \<in> set tent" | c where "c \<in> set out" "sp_to p = cn_to c" "sp_metric p = sp_metric H + cn_metric c"
      using fromt1 p by auto
    then show ?thesis
    proof cases
      case 1
      then show ?thesis using spf_inv_bound [OF inv, of p] tot by simp
    next
      case 2
      have "c \<in> set cs" "cn_from c = sp_to H" using 2 by (auto simp: out_def init open_cons_def)
      then show ?thesis using walk_step [OF Hw(1)] Hw(2) tot member_le_total [OF 2(1)] 2 by auto
    qed
  qed
  have low: "sp_metric H \<le> sp_metric p" if "p \<in> set t1" for p using fromt1 that H(2) by fastforce
  have "spf_inv (self_id sysId) cs rest (tl t1) (add_best H paths)"
    unfolding spf_inv_def
  proof (intro conjI ballI impI)
    show "rest = open_cons cs (add_best H paths)" unfolding rest_def init open_cons_step by (simp add: open_cons_def ab(2))
    show "tent_ok (tl t1)" using tok1 by (subst (asm) t1) (simp add: tent_ok_def)
    show "tent_ok (add_best H paths)" by (rule ab(1))
    show "covers (tl t1 @ add_best H paths) (self_id sysId) 0" using inv keep by (simp add: spf_inv_def)
  next
    fix p
    assume "p \<in> set (tl t1) \<union> set (add_best H paths)"
    then consider "p \<in> set t1" | r where "r \<in> set paths" "path_key r = path_key p" | "path_key p = path_key H"
      using ab(3) by (metis UnE list.set_sel(2) hd(2))
    then show "walk cs (self_id sysId) (sp_metric p) (sp_to p)" and "sp_metric p + total rest \<le> total cs"
    proof (atomize (full), cases)
      case 1
      then show "walk cs (self_id sysId) (sp_metric p) (sp_to p) \<and> sp_metric p + total rest \<le> total cs" by (rule bound)
    next
      case 2
      then show "walk cs (self_id sysId) (sp_metric p) (sp_to p) \<and> sp_metric p + total rest \<le> total cs"
        using spf_inv_bound [OF inv, of r] tot by (simp add: path_key_def)
    next
      case 3
      then show "walk cs (self_id sysId) (sp_metric p) (sp_to p) \<and> sp_metric p + total rest \<le> total cs"
        using bound [of H] hd by (auto simp: path_key_def)
    qed
  next
    fix q c
    assume q: "q \<in> set (add_best H paths)" and c: "c \<in> set cs" "cn_from c = sp_to q"
    then consider r where "r \<in> set paths" "path_key r = path_key q" | "path_key q = path_key H" "sp_to H \<notin> sp_to ` set paths" using ab(3) by blast
    then show "covers (tl t1 @ add_best H paths) (cn_to c) (sp_metric q + cn_metric c)"
    proof cases
      case 1
      then show ?thesis using inv c keep [of "cn_to c" "sp_metric r + cn_metric c"] by (auto simp: spf_inv_def path_key_def)
    next
      case 2
      then have "c \<in> set out" using c by (auto simp: out_def init open_cons_def path_key_def)
      then show ?thesis using cov1(2) pass 2 by (auto simp: path_key_def)
    qed
  next
    fix q p
    assume q: "q \<in> set (add_best H paths)" and p: "p \<in> set (tl t1)"
    then have "sp_metric q \<le> sp_metric H" using ab(3) ord by (auto simp: path_key_def) (metis order_refl)+
    moreover have "sp_metric H \<le> sp_metric p" using low p hd by (metis list.set_sel(2))
    ultimately show "sp_metric q \<le> sp_metric p" by simp
  qed
  moreover have "length rest + length (tl t1) < length init + length tent"
    using len1 sum_length_filter_compl [of "\<lambda>c. cn_from c = sp_to H" init] hd(2) unfolding out_def rest_def by (cases t1) auto
  ultimately show ?thesis using run by (simp add: rest_def)
qed

theorem spf_loop_correct:
  assumes net: "network_ok sysId cs" and "spf_inv (self_id sysId) cs init tent paths"
  shows "\<exists>ps. spf_loop srt sysId init tent paths = Some ps \<and> spf_inv (self_id sysId) cs (open_cons cs ps) [] ps"
  using assms(2)
proof (induction "length init + length tent" arbitrary: init tent paths rule: less_induct)
  case less
  show ?case
  proof (cases "tent = []")
    case True
    then show ?thesis using less.prems by (subst spf_loop.simps) (auto simp: spf_inv_def)
  next
    case False
    then obtain i t p where step: "bestToPath srt sysId (init, tent, paths) = Some (i, t, p)"
      "spf_inv (self_id sysId) cs i t p" "length i + length t < length init + length tent"
      using spf_step [OF net less.prems] by blast
    then obtain ps where "spf_loop srt sysId i t p = Some ps" "spf_inv (self_id sysId) cs (open_cons cs ps) [] ps"
      using less.hyps by blast
    then show ?thesis using False step(1) by (subst spf_loop.simps) simp
  qed
qed

end

end
