(* ===== verification/Isis_Spf_Hops.thy ===== *)
theory Isis_Spf_Hops
  imports Isis_Spf_Correct
begin

text \<open>
  The next hops. In a network without pseudonodes, without parallel connections of this system and without
  connections of metric 0, the loop leaves with each path exactly the first hops of the shortest walks.
\<close>

definition nbrs_ok :: "isis_path \<Rightarrow> bool" where
  "nbrs_ok p \<longleftrightarrow> (\<forall>n\<in>set (sp_from p). length (nb_id n) = 8 \<and> nb_id n ! 6 = 0)"

definition hops :: "isis_path list \<Rightarrow> isis_id \<Rightarrow> nat \<Rightarrow> isis_nbr set" where
  "hops t v d = \<Union> {set (sp_from p) |p. p \<in> set t \<and> sp_to p = v \<and> sp_metric p = d}"

lemma hops_member: "tent_ok t \<Longrightarrow> p \<in> set t \<Longrightarrow> hops t (sp_to p) (sp_metric p) = set (sp_from p)"
  by (auto simp: hops_def tent_ok_def distinct_map inj_on_def)

lemma hops_none: "\<forall>p\<in>set t. sp_to p \<noteq> v \<or> sp_metric p \<noteq> d \<Longrightarrow> hops t v d = {}"
  by (auto simp: hops_def)

lemma tent_ok_unique: "tent_ok t \<Longrightarrow> p \<in> set t \<Longrightarrow> q \<in> set t \<Longrightarrow> sp_to p = sp_to q \<Longrightarrow> p = q"
  by (auto simp: tent_ok_def distinct_map inj_on_def)

text \<open>A connection of another system adds the hops of the path that is moved to the paths it leads to.\<close>

lemma move_rel_hops:
  assumes r: "move_rel sysId c t t'" and t: "t \<noteq> []" "tent_ok t" "\<forall>p\<in>set t. nbrs_ok p"
    and c: "length sysId = 6" "con_ok sysId c" "cn_from c \<noteq> self_id sysId" and p: "p \<in> set t'"
  shows "set (sp_from p) = hops t (sp_to p) (sp_metric p) \<union>
      (if sp_to p = cn_to c \<and> sp_metric p = sp_metric (hd t) + cn_metric c then set (sp_from (hd t)) else {})"
    and "nbrs_ok p"
proof -
  have H: "nbrs_ok (hd t)" using t by simp
  have "set (sp_from p) = hops t (sp_to p) (sp_metric p) \<union>
      (if sp_to p = cn_to c \<and> sp_metric p = sp_metric (hd t) + cn_metric c then set (sp_from (hd t)) else {}) \<and> nbrs_ok p"
    using r t(1)
  proof (cases rule: move_rel_cases)
    case (new hs)
    have "map (\<lambda>n. if nb_id n ! 6 \<noteq> 0 then n\<lparr>nb_id := cn_to c\<rparr> else n) (sp_from (hd t)) = sp_from (hd t)"
      using H by (intro map_idI) (auto simp: nbrs_ok_def)
    then have hs: "hs = sp_from (hd t)" using new(2) new_hops_Some [OF c(1,2)] c(3) by simp
    show ?thesis
    proof (cases "p \<in> set t")
      case True
      then show ?thesis using new(1) t by (auto simp: hops_member)
    next
      case False
      then have "p = \<lparr>sp_to = cn_to c, sp_metric = sp_metric (hd t) + cn_metric c, sp_from = hs\<rparr>" using new(3) p by simp
      moreover have "hops t (cn_to c) d = {}" for d using new(1) by (intro hops_none) auto
      ultimately show ?thesis using hs H by (auto simp: nbrs_ok_def)
    qed
  next
    case (lsps_kept q)
    then have "\<not> (sp_to p = cn_to c \<and> sp_metric p = sp_metric (hd t) + cn_metric c)"
      using tent_ok_unique [of t p q] p t(2) by auto
    then show ?thesis using lsps_kept p t by (auto simp: hops_member)
  next
    case (better j)
    define m where "m = sp_metric (hd t) + cn_metric c"
    have tj: "t ! j \<in> set t" "nbrs_ok (t ! j)" using better t by auto
    show ?thesis
    proof (cases "p = relaxed (hd t) m (t ! j)")
      case True
      have "set (sp_from p) = set (sp_from (hd t)) \<union> (if sp_metric (t ! j) > m then {} else set (sp_from (t ! j)))"
      proof -
        have "set (add_missing (sp_from (hd t)) d) = set (sp_from (hd t)) \<union> set d" if "set d \<subseteq> set (sp_from (t ! j))" for d
          using H tj(2) that by (intro set_add_missing) (auto simp: nbrs_ok_def)
        then show ?thesis unfolding True relaxed_def by simp
      qed
      moreover have "hops t (cn_to c) m = (if sp_metric (t ! j) > m then {} else set (sp_from (t ! j)))"
      proof (cases "sp_metric (t ! j) > m")
        case gt: True
        then have "\<forall>p\<in>set t. sp_to p \<noteq> cn_to c \<or> sp_metric p \<noteq> m" using tent_ok_unique [of t _ "t ! j"] t(2) tj(1) better(2) by fastforce
        then show ?thesis using gt by (simp add: hops_none)
      next
        case False
        then have "sp_metric (t ! j) = m" using better(3) by (simp add: m_def)
        then show ?thesis using hops_member [of t "t ! j"] t(2) tj(1) better(2) by auto
      qed
      ultimately show ?thesis using True better(2) H tj(2) by (auto simp: m_def nbrs_ok_def split: if_splits)
    next
      case False
      then have pt: "p \<in> set t" using p better(4) set_update_subset_insert [of t j] by (auto simp: m_def)
      have "sp_to p \<noteq> cn_to c"
      proof
        assume "sp_to p = cn_to c"
        then have "sp_to p = sp_to (relaxed (hd t) m (t ! j))" using better(2) by simp
        moreover have "tent_ok t'" using t(2) better by (simp add: tent_ok_update)
        moreover have "relaxed (hd t) m (t ! j) \<in> set t'" using better by (simp add: m_def set_update_memI)
        ultimately show False using p False tent_ok_unique by blast
      qed
      then show ?thesis using pt t by (auto simp: hops_member)
    qed
  qed
  then show "set (sp_from p) = hops t (sp_to p) (sp_metric p) \<union>
      (if sp_to p = cn_to c \<and> sp_metric p = sp_metric (hd t) + cn_metric c then set (sp_from (hd t)) else {})"
    and "nbrs_ok p" by blast+
qed

lemma not_covered_below:
  assumes "tent_ok t" and "p \<in> set t" and "covers t (sp_to p) d"
  shows "sp_metric p \<le> d"
  using assms tent_ok_unique by (fastforce simp: covers_def)

definition hops_from :: "isis_con list \<Rightarrow> isis_path \<Rightarrow> isis_id \<Rightarrow> nat \<Rightarrow> isis_nbr set" where
  "hops_from cs H v d = (if \<exists>c\<in>set cs. v = cn_to c \<and> d = sp_metric H + cn_metric c then set (sp_from H) else {})"

lemma moveToTent_hops:
  assumes "tent_ok t" "t \<noteq> []" "\<forall>p\<in>set t. nbrs_ok p" "length sysId = 6"
    and "\<forall>c\<in>set cs. con_ok sysId c \<and> sp_metric (hd t) + cn_metric c < 2 ^ 32 \<and> cn_from c \<noteq> self_id sysId"
    and "moveToTent sysId (sp_metric (hd t)) cs t = Some t'" and "p \<in> set t'"
  shows "nbrs_ok p \<and> set (sp_from p) = hops t (sp_to p) (sp_metric p) \<union> hops_from cs (hd t) (sp_to p) (sp_metric p)"
  using assms
proof (induction cs arbitrary: t)
  case Nil
  then show ?case by (auto simp: hops_from_def hops_member)
next
  case (Cons c cs)
  then obtain t1 where t1: "move_con sysId (sp_metric (hd t)) c t = Some t1" and r: "move_rel sysId c t t1"
    using move_con_rel [of t sysId c] by auto
  have hd: "hd t1 = hd t" "t1 \<noteq> []" using move_rel_hd [OF r] Cons.prems by simp_all
  have ok1: "tent_ok t1" using move_rel_ok [OF r] Cons.prems by (simp add: con_ok_def)
  have run: "moveToTent sysId (sp_metric (hd t1)) cs t1 = Some t'" using Cons.prems(6) t1 hd by simp
  have h1: "nbrs_ok q \<and> set (sp_from q) = hops t (sp_to q) (sp_metric q) \<union> hops_from [c] (hd t) (sp_to q) (sp_metric q)"
    if "q \<in> set t1" for q
    using move_rel_hops [OF r _ _ _ _ _ _ that] Cons.prems by (simp add: hops_from_def)
  have IH: "nbrs_ok p \<and> set (sp_from p) = hops t1 (sp_to p) (sp_metric p) \<union> hops_from cs (hd t) (sp_to p) (sp_metric p)"
    using Cons.IH [of t1] Cons.prems ok1 hd h1 run by simp
  have split: "hops_from (c # cs) (hd t) v d = hops_from [c] (hd t) v d \<union> hops_from cs (hd t) v d" for v d
    by (auto simp: hops_from_def)
  have "hops t1 (sp_to p) (sp_metric p) = hops t (sp_to p) (sp_metric p) \<union> hops_from [c] (hd t) (sp_to p) (sp_metric p)"
  proof (cases "\<exists>q\<in>set t1. sp_to q = sp_to p \<and> sp_metric q = sp_metric p")
    case True
    then obtain q where "q \<in> set t1" "sp_to q = sp_to p" "sp_metric q = sp_metric p" by blast
    then show ?thesis using hops_member [OF ok1, of q] h1 [of q] by simp
  next
    case False
    obtain t2 where t2: "moveToTent sysId (sp_metric (hd t1)) cs t1 = Some t2" "moves_effect cs t1 t2"
      using moveToTent_effect [OF ok1 hd(2), of sysId cs] Cons.prems hd by auto
    then have eff: "moves_effect cs t1 t'" using run by simp
    have low: "sp_metric p \<le> d" if "covers t1 (sp_to p) d" for d
      using covers_trans [OF that] eff Cons.prems(7) by (intro not_covered_below) (auto simp: moves_effect_def)
    have no: "\<not> covers t1 (sp_to p) (sp_metric p)"
    proof
      assume "covers t1 (sp_to p) (sp_metric p)"
      then obtain q where q: "q \<in> set t1" "sp_to q = sp_to p" "sp_metric q \<le> sp_metric p" by (auto simp: covers_def)
      then have "sp_metric p \<le> sp_metric q" by (intro low) (auto intro: coversI)
      then show False using q False by auto
    qed
    note e = move_rel_effect [OF r Cons.prems(2)]
    have "hops t (sp_to p) (sp_metric p) = {}" using no e(2) by (intro hops_none) auto
    moreover have "hops_from [c] (hd t) (sp_to p) (sp_metric p) = {}" using no e(3) by (auto simp: hops_from_def)
    moreover have "hops t1 (sp_to p) (sp_metric p) = {}" using False by (intro hops_none) auto
    ultimately show ?thesis by simp
  qed
  then show ?case using IH split by auto
qed

section \<open>The first step\<close>

definition simple_net :: "isis_id \<Rightarrow> isis_con list \<Rightarrow> bool" where
  "simple_net sysId cs \<longleftrightarrow> network_ok sysId cs \<and>
     (\<forall>c\<in>set cs. cn_to c ! 6 = 0 \<and> 0 < cn_metric c) \<and> distinct (map cn_to (filter (\<lambda>c. cn_from c = self_id sysId) cs))"

definition first_hop :: "isis_con \<Rightarrow> isis_nbr" where
  "first_hop c = \<lparr>nb_id = cn_to c, nb_entry = cn_entry c\<rparr>"

definition direct_path :: "isis_con \<Rightarrow> isis_path" where
  "direct_path c = \<lparr>sp_to = cn_to c, sp_metric = cn_metric c, sp_from = [first_hop c]\<rparr>"

lemma direct_path_simps [simp]:
  "sp_to (direct_path c) = cn_to c" "sp_metric (direct_path c) = cn_metric c" "sp_from (direct_path c) = [first_hop c]"
  by (simp_all add: direct_path_def)

lemma self_path_simps [simp]: "sp_to (self_path v) = v" "sp_metric (self_path v) = 0"
  by (simp_all add: self_path_def)

lemma moveToTent_self:
  assumes "length sysId = 6" and "distinct (map cn_to (as @ cs))" and "\<forall>c\<in>set as. cn_to c \<noteq> self_id sysId"
    and "\<forall>c\<in>set (as @ cs). con_ok sysId c \<and> cn_metric c < 2 ^ 32 \<and> 0 < cn_metric c \<and> cn_from c = self_id sysId"
  shows "moveToTent sysId 0 cs (self_path (self_id sysId) # map direct_path as) =
    Some (self_path (self_id sysId) # map direct_path (as @ filter (\<lambda>c. cn_to c \<noteq> self_id sysId) cs))"
  using assms
proof (induction cs arbitrary: as)
  case (Cons c cs)
  define t where "t = self_path (self_id sysId) # map direct_path as"
  have hd: "hd t = self_path (self_id sysId)" "t \<noteq> []" by (simp_all add: t_def)
  have ok: "tent_ok t" using Cons.prems by (auto simp: t_def tent_ok_def con_ok_def comp_def)
  obtain t1 where t1: "move_con sysId 0 c t = Some t1" and r: "move_rel sysId c t t1"
    using move_con_rel [OF ok hd(2), of sysId c] Cons.prems hd by auto
  have other: "sp_to p \<noteq> cn_to c" if "p \<in> set t" "cn_to c \<noteq> self_id sysId" for p
    using that Cons.prems(2) by (auto simp: t_def) (metis image_eqI)
  show ?case
  proof (cases "cn_to c = self_id sysId")
    case True
    have "t1 = t" using r hd(2)
    proof (cases rule: move_rel_cases)
      case (new hs)
      then show ?thesis using True by (simp add: t_def)
    next
      case (better j)
      then have "t ! j = hd t" using tent_ok_unique [OF ok, of "t ! j" "hd t"] hd_in_set [OF hd(2)] hd True by simp
      then show ?thesis using better(3) hd Cons.prems(4) by simp
    qed simp
    then show ?thesis using Cons.IH [of as] Cons.prems True t1 by (simp add: t_def)
  next
    case False
    have "t1 = t @ [direct_path c]" using r hd(2)
    proof (cases rule: move_rel_cases)
      case (new hs)
      then show ?thesis using hd new_hops_Some [of sysId c "sp_from (hd t)"] Cons.prems by (simp add: direct_path_def first_hop_def)
    next
      case (better j)
      then show ?thesis using other [of "t ! j"] False by simp
    qed (use other False in blast)
    moreover have "moveToTent sysId 0 cs (self_path (self_id sysId) # map direct_path (as @ [c])) =
      Some (self_path (self_id sysId) # map direct_path ((as @ [c]) @ filter (\<lambda>c. cn_to c \<noteq> self_id sysId) cs))"
      by (rule Cons.IH) (use Cons.prems False in auto)
    ultimately show ?thesis using False t1 by (simp add: t_def)
  qed
qed simp

section \<open>The loop\<close>

definition direct_hops :: "isis_id \<Rightarrow> isis_con list \<Rightarrow> isis_id \<Rightarrow> nat \<Rightarrow> isis_nbr set" where
  "direct_hops self cs v d = {first_hop c |c. c \<in> set cs \<and> cn_from c = self \<and> cn_to c = v \<and> cn_metric c = d}"

definition via :: "isis_con list \<Rightarrow> isis_path \<Rightarrow> isis_id \<Rightarrow> nat \<Rightarrow> bool" where
  "via cs q v d \<longleftrightarrow> (\<exists>c\<in>set cs. cn_from c = sp_to q \<and> cn_to c = v \<and> sp_metric q + cn_metric c = d)"

text \<open>The hops that the paths found so far give to a system at a distance.\<close>

definition hops_via :: "isis_id \<Rightarrow> isis_con list \<Rightarrow> isis_path list \<Rightarrow> isis_id \<Rightarrow> nat \<Rightarrow> isis_nbr set" where
  "hops_via self cs paths v d = direct_hops self cs v d \<union>
     \<Union> {set (sp_from q) |q. q \<in> set paths \<and> sp_to q \<noteq> self \<and> via cs q v d}"

definition hop_inv :: "isis_id \<Rightarrow> isis_con list \<Rightarrow> isis_path list \<Rightarrow> isis_path list \<Rightarrow> bool" where
  "hop_inv self cs tent paths \<longleftrightarrow>
     (\<forall>p\<in>set tent \<union> set paths. nbrs_ok p) \<and> (\<exists>q\<in>set paths. sp_to q = self \<and> sp_metric q = 0) \<and>
     (\<forall>p\<in>set paths. sp_to p \<noteq> self \<longrightarrow> set (sp_from p) = hops_via self cs paths (sp_to p) (sp_metric p)) \<and>
     (\<forall>p\<in>set tent. sp_to p \<notin> sp_to ` set paths \<longrightarrow> set (sp_from p) = hops_via self cs paths (sp_to p) (sp_metric p)) \<and>
     (\<forall>p\<in>set tent. \<forall>q\<in>set paths. sp_to p = sp_to q \<longrightarrow> sp_metric q < sp_metric p)"

lemma hops_via_snoc:
  "hops_via self cs (paths @ [H]) v d =
     hops_via self cs paths v d \<union> (if sp_to H \<noteq> self \<and> via cs H v d then set (sp_from H) else {})"
  by (auto simp: hops_via_def)

lemma hops_via_uncovered:
  assumes inv: "spf_inv self cs init tent paths" and root: "\<exists>q\<in>set paths. sp_to q = self \<and> sp_metric q = 0"
    and n: "n \<in> hops_via self cs paths v d"
  shows "covers (tent @ paths) v d"
proof -
  obtain q c where q: "q \<in> set paths" and "c \<in> set cs" "cn_from c = sp_to q" "cn_to c = v" "sp_metric q + cn_metric c = d"
    using n root unfolding hops_via_def direct_hops_def via_def by (auto 4 4)
  then have "covers (tent @ paths) (cn_to c) (sp_metric q + cn_metric c)" using inv unfolding spf_inv_def by blast
  then show ?thesis using \<open>cn_to c = v\<close> \<open>sp_metric q + cn_metric c = d\<close> by simp
qed

context path_sorter
begin

lemma hop_step:
  assumes net: "simple_net sysId cs" and inv: "spf_inv (self_id sysId) cs init tent paths" and ne: "tent \<noteq> []"
    and hi: "hop_inv (self_id sysId) cs tent paths"
    and run: "bestToPath srt sysId (init, tent, paths) = Some (i, t, p)"
  shows "hop_inv (self_id sysId) cs t p"
proof -
  have nok: "network_ok sysId cs" and pos: "\<And>c. c \<in> set cs \<Longrightarrow> 0 < cn_metric c" using net by (auto simp: simple_net_def)
  obtain H t1 where H: "H \<in> set tent" "\<forall>p\<in>set tent. sp_metric H \<le> sp_metric p" "hd (srt tent) = H"
    and mv: "moveToTent sysId (sp_metric H) (filter (\<lambda>c. cn_from c = sp_to H) init) (srt tent) = Some t1"
    and eff: "moves_effect (filter (\<lambda>c. cn_from c = sp_to H) init) (srt tent) t1" and hd: "hd t1 = H" "t1 \<noteq> []"
    and run': "bestToPath srt sysId (init, tent, paths) = Some (filter (\<lambda>c. cn_from c \<noteq> sp_to H) init, tl t1, add_best H paths)"
    by (rule first_half [OF nok inv ne]) blast
  have t: "t = tl t1" and p: "p = add_best H paths" using run run' by simp_all
  define out where "out = filter (\<lambda>c. cn_from c = sp_to H) init"
  have init: "init = open_cons cs paths" and pok: "tent_ok paths" and tok: "tent_ok tent" and Hok: "id_ok (sp_to H)"
    and ord: "\<forall>q\<in>set paths. sp_metric q \<le> sp_metric H" using inv H by (auto simp: spf_inv_def tent_ok_def)
  have t1: "t1 = H # tl t1" using hd by (metis list.collapse)
  have tl: "q \<in> set t1" "sp_to q \<noteq> sp_to H" if "q \<in> set (tl t1)" for q
  proof -
    have "tent_ok t1" using eff by (simp add: moves_effect_def)
    then have "sp_to q \<noteq> sp_to H" using that by (subst (asm) t1) (auto simp: tent_ok_def image_iff)
    then show "q \<in> set t1" "sp_to q \<noteq> sp_to H" using that hd by (auto dest: list.set_sel(2))
  qed
  show ?thesis
  proof (cases "sp_to H \<in> sp_to ` set paths")
    case True
    then have "out = []" by (auto simp: out_def init open_cons_def filter_empty_conv)
    then have "t1 = srt tent" using mv by (simp add: out_def)
    then have sub: "set (tl t1) \<subseteq> set tent" using tl by auto
    obtain q where q: "q \<in> set paths" "sp_to q = sp_to H" using True by auto
    then have "sp_metric q < sp_metric H" using hi H(1) unfolding hop_inv_def by metis
    moreover have "index_first (is_path_to (sp_to H)) paths = index_first (\<lambda>p. sp_to p = sp_to H) paths" by (rule index_path [OF pok Hok])
    moreover have "paths ! index_first (\<lambda>p. sp_to p = sp_to H) paths = q"
      using q index_first_nth [of paths "\<lambda>p. sp_to p = sp_to H"]
      by (intro tent_ok_unique [OF pok]) (auto intro!: nth_mem)
    moreover have "index_first (\<lambda>p. sp_to p = sp_to H) paths \<noteq> length paths" using q by auto
    ultimately have "add_best H paths = paths" unfolding add_best_def Let_def by auto
    then show ?thesis using hi sub unfolding t p hop_inv_def by auto
  next
    case new: False
    have root: "\<exists>q\<in>set paths. sp_to q = self_id sysId \<and> sp_metric q = 0" using hi by (simp add: hop_inv_def)
    then have Hs: "sp_to H \<noteq> self_id sysId" using new by (metis imageI)
    have newq: "\<forall>q\<in>set paths. sp_to q \<noteq> sp_to H" using new by (metis imageI)
    then have "index_first (is_path_to (sp_to H)) paths = length paths" using index_path [OF pok Hok] by simp
    then have p': "p = paths @ [H]" by (simp add: p add_best_def)
    have outc: "c \<in> set cs" "cn_from c = sp_to H" if "c \<in> set out" for c using that by (auto simp: out_def init open_cons_def)
    have outI: "c \<in> set out" if "c \<in> set cs" "cn_from c = sp_to H" for c using that new by (simp add: out_def init open_cons_def)
    have bnd: "con_ok sysId c \<and> sp_metric (hd (srt tent)) + cn_metric c < 2 ^ 32 \<and> cn_from c \<noteq> self_id sysId" if "c \<in> set out" for c
    proof -
      have "cn_metric c \<le> total init" using that by (intro member_le_total) (simp add: out_def)
      moreover have "sp_metric H + total init \<le> total cs" using spf_inv_bound [OF inv] H by auto
      ultimately show ?thesis using nok outc [OF that] Hs by (auto simp: network_ok_def con_ok_def H(3))
    qed
    have hops1: "nbrs_ok q \<and> set (sp_from q) = hops (srt tent) (sp_to q) (sp_metric q) \<union> hops_from out H (sp_to q) (sp_metric q)"
      if "q \<in> set t1" for q
      using moveToTent_hops [of "srt tent" sysId out t1 q] that bnd mv tok ne nok hi
      by (simp add: tent_ok_def network_ok_def hop_inv_def H(3) out_def)
    have from1: "q \<in> set tent \<or> via cs H (sp_to q) (sp_metric q)" if "q \<in> set t1" for q
      using eff that outc unfolding moves_effect_def out_def [symmetric] H(3) via_def by fastforce
    have srt_hops: "hops (srt tent) v d = hops tent v d" for v d by (simp add: hops_def)
    have from_via: "hops_from out H v d = (if via cs H v d then set (sp_from H) else {})" for v d
      using outc outI unfolding hops_from_def via_def by (auto split: if_splits)
    have notvia: "\<not> via cs H v d" if "d \<le> sp_metric H" for v d using that pos by (fastforce simp: via_def)
    have tenthops: "hops tent (sp_to q) (sp_metric q) = hops_via (self_id sysId) cs paths (sp_to q) (sp_metric q)"
      if q: "q \<in> set t1" and fresh: "sp_to q \<notin> sp_to ` set paths" for q
    proof (cases "\<exists>r\<in>set tent. sp_to r = sp_to q \<and> sp_metric r = sp_metric q")
      case True
      then obtain r where "r \<in> set tent" "sp_to r = sp_to q" "sp_metric r = sp_metric q" by blast
      then show ?thesis using hi fresh hops_member [OF tok, of r] unfolding hop_inv_def by metis
    next
      case False
      have "hops_via (self_id sysId) cs paths (sp_to q) (sp_metric q) = {}"
      proof (rule ccontr)
        assume "hops_via (self_id sysId) cs paths (sp_to q) (sp_metric q) \<noteq> {}"
        then have "covers (tent @ paths) (sp_to q) (sp_metric q)" using hops_via_uncovered [OF inv root] by blast
        then have "covers tent (sp_to q) (sp_metric q)" using fresh by (auto simp: covers_def) (metis imageI)
        then obtain r where r: "r \<in> set tent" "sp_to r = sp_to q" "sp_metric r \<le> sp_metric q" by (auto simp: covers_def)
        have "covers t1 (sp_to q) (sp_metric r)" using eff r unfolding moves_effect_def by (metis set_insertion_sorted)
        then have "sp_metric q \<le> sp_metric r" using eff q by (intro not_covered_below) (auto simp: moves_effect_def)
        then show False using r False by auto
      qed
      then show ?thesis using False by (simp add: hops_none)
    qed
    show ?thesis unfolding hop_inv_def
    proof (intro conjI ballI impI)
      fix q assume "q \<in> set t \<union> set p"
      then show "nbrs_ok q" using hops1 tl hi H(1) unfolding t p' hop_inv_def by auto
    next
      show "\<exists>q\<in>set p. sp_to q = self_id sysId \<and> sp_metric q = 0" using root by (auto simp: p')
    next
      fix q assume q: "q \<in> set p" "sp_to q \<noteq> self_id sysId"
      have "sp_metric q \<le> sp_metric H" using q ord by (auto simp: p')
      moreover have "set (sp_from q) = hops_via (self_id sysId) cs paths (sp_to q) (sp_metric q)"
        using q hi new H(1) unfolding p' hop_inv_def by auto
      ultimately show "set (sp_from q) = hops_via (self_id sysId) cs p (sp_to q) (sp_metric q)"
        using notvia by (simp add: p' hops_via_snoc)
    next
      fix q assume q: "q \<in> set t" "sp_to q \<notin> sp_to ` set p"
      then have q1: "q \<in> set t1" "sp_to q \<notin> sp_to ` set paths" using tl by (auto simp: t p')
      then show "set (sp_from q) = hops_via (self_id sysId) cs p (sp_to q) (sp_metric q)"
        using hops1 tenthops Hs unfolding p' hops_via_snoc srt_hops from_via by simp
    next
      fix q r assume q: "q \<in> set t" and r: "r \<in> set p" "sp_to q = sp_to r"
      then have q1: "q \<in> set t1" "r \<in> set paths" using tl by (auto simp: t p')
      show "sp_metric r < sp_metric q"
      proof (cases "q \<in> set tent")
        case True
        then show ?thesis using hi q1 r unfolding hop_inv_def by blast
      next
        case False
        then have "via cs H (sp_to q) (sp_metric q)" using from1 q1 by blast
        then have "sp_metric H < sp_metric q" using notvia by (meson not_le)
        then show ?thesis using ord q1 by (meson le_less_trans)
      qed
    qed
  qed
qed

end

section \<open>The result\<close>

lemma walk_trans: "walk cs v e w \<Longrightarrow> walk cs u d v \<Longrightarrow> walk cs u (d + e) w"
proof (induction rule: walk.induct)
  case (walk_step e w c)
  then have "walk cs u ((d + e) + cn_metric c) (cn_to c)" by (intro walk.walk_step) auto
  then show ?case by (simp add: add.assoc)
qed simp

lemma walk_con: "c \<in> set cs \<Longrightarrow> walk cs (cn_from c) (cn_metric c) (cn_to c)"
  using walk_step [OF walk_here, of c cs "cn_from c"] by simp

lemma direct_hops_simple:
  assumes "distinct (map cn_to (filter (\<lambda>c. cn_from c = self) cs))" and "c \<in> set cs" "cn_from c = self"
  shows "direct_hops self cs (cn_to c) (cn_metric c) = {first_hop c}"
proof -
  have "e = c" if "e \<in> set cs" "cn_from e = self" "cn_to e = cn_to c" for e
    using assms that by (auto simp: distinct_map inj_on_def)
  then show ?thesis using assms(2,3) by (auto simp: direct_hops_def)
qed

context path_sorter
begin

lemma first_step:
  assumes net: "simple_net sysId cs"
  shows "\<exists>i t. bestToPath srt sysId (cs, [self_path (self_id sysId)], []) = Some (i, t, [self_path (self_id sysId)]) \<and>
    hop_inv (self_id sysId) cs t [self_path (self_id sysId)]"
proof -
  define self where "self = self_id sysId"
  define out where "out = filter (\<lambda>c. cn_from c = self) cs"
  define t where "t = map direct_path (filter (\<lambda>c. cn_to c \<noteq> self) out)"
  have nok: "network_ok sysId cs" and dist: "distinct (map cn_to out)" using net by (auto simp: simple_net_def out_def self_def)
  have "mset (srt [self_path self]) = {#self_path self#}" by (simp add: perm)
  then have srt1: "srt [self_path self] = [self_path self]" by simp
  have "getCons (open_cons cs []) self = (filter (\<lambda>c. cn_from c = self) (open_cons cs []), filter (\<lambda>c. cn_from c \<noteq> self) (open_cons cs []))"
    using nok by (intro getCons_open) (auto simp: network_ok_def self_def)
  then have gc: "getCons cs self = (out, filter (\<lambda>c. cn_from c \<noteq> self) cs)" by (simp add: open_cons_def out_def)
  have "cn_metric c < 2 ^ 32" if "c \<in> set cs" for c
    using member_le_total [OF that] nok by (simp add: network_ok_def)
  then have "\<forall>c\<in>set ([] @ out). con_ok sysId c \<and> cn_metric c < 2 ^ 32 \<and> 0 < cn_metric c \<and> cn_from c = self_id sysId"
    using net by (auto simp: out_def self_def simple_net_def network_ok_def con_ok_def)
  then have "moveToTent sysId 0 out [self_path self] = Some (self_path self # t)"
    using moveToTent_self [of sysId "[]" out] dist nok by (simp add: network_ok_def t_def self_def)
  then have run: "bestToPath srt sysId (cs, [self_path self], []) = Some (filter (\<lambda>c. cn_from c \<noteq> self) cs, t, [self_path self])"
    by (simp add: bestToPath_def srt1 gc add_best_def Let_def)
  have outc: "c \<in> set cs \<and> cn_from c = self \<and> cn_to c ! 6 = 0 \<and> length (cn_to c) = 8" if "c \<in> set out" for c
    using that net by (auto simp: out_def simple_net_def network_ok_def id_ok_def)
  have via: "hops_via self cs [self_path self] v d = direct_hops self cs v d" for v d by (auto simp: hops_via_def)
  have "length sysId = 6" using nok by (simp add: network_ok_def)
  then have "self ! 6 = 0" "length self = 8" by (simp_all add: self_def self_id_def nth_append)
  then have nself: "nbrs_ok (self_path self)" by (simp add: nbrs_ok_def self_path_def)
  have "hop_inv self cs t [self_path self]"
    unfolding hop_inv_def
  proof (intro conjI ballI impI)
    fix p assume "p \<in> set t \<union> set [self_path self]"
    then show "nbrs_ok p" using nself outc by (auto simp: t_def nbrs_ok_def first_hop_def)
  next
    fix p assume "p \<in> set t"
    then obtain c where c: "c \<in> set out" "p = direct_path c" by (auto simp: t_def)
    have "direct_hops self cs (cn_to c) (cn_metric c) = {first_hop c}"
      using dist outc [OF c(1)] by (intro direct_hops_simple) (simp_all add: out_def)
    then show "set (sp_from p) = hops_via self cs [self_path self] (sp_to p) (sp_metric p)" using c via by simp
  next
    fix p q assume "p \<in> set t" "q \<in> set [self_path self]" "sp_to p = sp_to q"
    then show "sp_metric q < sp_metric p" by (auto simp: t_def)
  qed auto
  then show ?thesis using run unfolding self_def by blast
qed

lemma spf_loop_hops:
  assumes net: "simple_net sysId cs" and "spf_inv (self_id sysId) cs init tent paths" and "hop_inv (self_id sysId) cs tent paths"
    and "spf_loop srt sysId init tent paths = Some ps"
  shows "hop_inv (self_id sysId) cs [] ps"
  using assms(2-)
proof (induction "length init + length tent" arbitrary: init tent paths rule: less_induct)
  case less
  have nok: "network_ok sysId cs" using net by (simp add: simple_net_def)
  show ?case
  proof (cases "tent = []")
    case True
    then show ?thesis using less.prems by (simp add: spf_loop.simps)
  next
    case False
    then obtain i t p where step: "bestToPath srt sysId (init, tent, paths) = Some (i, t, p)"
      "spf_inv (self_id sysId) cs i t p" "length i + length t < length init + length tent"
      using spf_step [OF nok less.prems(1)] by blast
    have "spf_loop srt sysId i t p = Some ps" using less.prems(3) False step(1) by (subst (asm) spf_loop.simps) simp
    then show ?thesis using less.hyps [OF step(3,2)] hop_step [OF net less.prems(1) False less.prems(2) step(1)] by blast
  qed
qed

theorem spf_paths_shortest:
  assumes net: "network_ok sysId cs"
  shows "\<exists>ps. spf_paths srt sysId cs = Some ps \<and> distinct (map sp_to ps) \<and>
    (\<forall>p\<in>set ps. walk cs (self_id sysId) (sp_metric p) (sp_to p)) \<and>
    (\<forall>d v. walk cs (self_id sysId) d v \<longrightarrow> (\<exists>p\<in>set ps. sp_to p = v \<and> sp_metric p \<le> d)) \<and>
    (simple_net sysId cs \<longrightarrow> hop_inv (self_id sysId) cs [] ps) \<and> spf_inv (self_id sysId) cs (open_cons cs ps) [] ps"
proof -
  have start: "spf_inv (self_id sysId) cs cs [self_path (self_id sysId)] []"
    using net by (intro spf_inv_start) (simp add: network_ok_def)
  obtain ps where ps: "spf_loop srt sysId cs [self_path (self_id sysId)] [] = Some ps" "spf_inv (self_id sysId) cs (open_cons cs ps) [] ps"
    using spf_loop_correct [OF net start] by blast
  have set: "set (srt ps) = set ps" by simp
  have "hop_inv (self_id sysId) cs [] ps" if simple: "simple_net sysId cs"
  proof -
    obtain i t where it: "bestToPath srt sysId (cs, [self_path (self_id sysId)], []) = Some (i, t, [self_path (self_id sysId)])"
      "hop_inv (self_id sysId) cs t [self_path (self_id sysId)]" using first_step [OF simple] by blast
    then have "spf_inv (self_id sysId) cs i t [self_path (self_id sysId)]" using spf_step [OF net start] by auto
    moreover have "spf_loop srt sysId i t [self_path (self_id sysId)] = Some ps"
      using ps(1) it(1) by (subst (asm) spf_loop.simps) simp
    ultimately show ?thesis using spf_loop_hops [OF simple _ it(2)] by blast
  qed
  moreover have "spf_inv (self_id sysId) cs (open_cons cs (srt ps)) [] (srt ps)"
    using ps(2) by (auto simp: spf_inv_def tent_ok_def open_cons_def covers_def)
  moreover have "hop_inv (self_id sysId) cs [] (srt ps) \<longleftrightarrow> hop_inv (self_id sysId) cs [] ps"
    by (simp add: hop_inv_def hops_via_def)
  moreover have "\<exists>p\<in>set (srt ps). sp_to p = v \<and> sp_metric p \<le> d" if "walk cs (self_id sysId) d v" for d v
    using spf_inv_end [OF ps(2) that] by (simp add: covers_def)
  moreover have "distinct (map sp_to (srt ps))" "\<forall>p\<in>set (srt ps). walk cs (self_id sysId) (sp_metric p) (sp_to p)"
    using ps(2) by (auto simp: spf_inv_def tent_ok_def)
  ultimately show ?thesis using ps(1) by (auto simp: spf_paths_def self_id_def)
qed

end

lemma hop_inv_first_hops:
  assumes net: "simple_net sysId cs" and inv: "spf_inv self cs init [] ps" and self: "self = self_id sysId"
    and hi: "hop_inv self cs [] ps" and p: "p \<in> set ps" "sp_to p \<noteq> self"
  shows "set (sp_from p) =
    {first_hop c |c. c \<in> set cs \<and> cn_from c = self \<and> (\<exists>d. walk cs (cn_to c) d (sp_to p) \<and> cn_metric c + d = sp_metric p)}"
proof -
  have pos: "\<And>c. c \<in> set cs \<Longrightarrow> 0 < cn_metric c" using net by (auto simp: simple_net_def)
  have pok: "tent_ok ps" using inv by (simp add: spf_inv_def)
  have least: "sp_metric q \<le> d" if "walk cs self d (sp_to q)" "q \<in> set ps" for q d
    using spf_inv_end [OF inv that(1)] not_covered_below [OF pok that(2)] by blast
  have from_eq: "set (sp_from q) = hops_via self cs ps (sp_to q) (sp_metric q)" if "q \<in> set ps" "sp_to q \<noteq> self" for q
    using hi that by (auto simp: hop_inv_def)
  have fwd: "n \<in> set (sp_from q) \<Longrightarrow> q \<in> set ps \<Longrightarrow> sp_to q \<noteq> self \<Longrightarrow>
    \<exists>c\<in>set cs. n = first_hop c \<and> cn_from c = self \<and> (\<exists>d. walk cs (cn_to c) d (sp_to q) \<and> cn_metric c + d = sp_metric q)" for n q
  proof (induction "sp_metric q" arbitrary: q rule: less_induct)
    case less
    then have "n \<in> hops_via self cs ps (sp_to q) (sp_metric q)" using from_eq by blast
    then consider c where "n = first_hop c" "c \<in> set cs" "cn_from c = self" "cn_to c = sp_to q" "cn_metric c = sp_metric q"
      | r c where "r \<in> set ps" "sp_to r \<noteq> self" "n \<in> set (sp_from r)" "c \<in> set cs" "cn_from c = sp_to r" "cn_to c = sp_to q" "sp_metric r + cn_metric c = sp_metric q"
      by (auto simp: hops_via_def direct_hops_def via_def)
    then show ?case
    proof cases
      case 1
      then show ?thesis using walk_here [of cs "cn_to c"] by fastforce
    next
      case 2
      then have "sp_metric r < sp_metric q" using pos [of c] by simp
      then obtain e d where e: "e \<in> set cs" "n = first_hop e" "cn_from e = self" "walk cs (cn_to e) d (sp_to r)" "cn_metric e + d = sp_metric r"
        using less.hyps [of r] 2 by blast
      then have "walk cs (cn_to e) (d + cn_metric c) (sp_to q)" using walk_step [OF e(4) 2(4,5)] 2(6) by simp
      moreover have "cn_metric e + (d + cn_metric c) = sp_metric q" using e(5) 2(7) by simp
      ultimately show ?thesis using e by blast
    qed
  qed
  have bwd: "walk cs (cn_to c) d v \<Longrightarrow> c \<in> set cs \<Longrightarrow> cn_from c = self \<Longrightarrow>
    \<forall>q\<in>set ps. sp_to q = v \<and> v \<noteq> self \<and> cn_metric c + d = sp_metric q \<longrightarrow> first_hop c \<in> set (sp_from q)" for c d v
  proof (induction rule: walk.induct)
    case walk_here
    then show ?case by (auto simp: from_eq hops_via_def direct_hops_def)
  next
    case (walk_step d u e)
    show ?case
    proof (intro ballI impI)
      fix q assume q: "q \<in> set ps" "sp_to q = cn_to e \<and> cn_to e \<noteq> self \<and> cn_metric c + (d + cn_metric e) = sp_metric q"
      have "walk cs self (cn_metric c + d) u" using walk_trans [OF walk_step(1) walk_con [OF walk_step.prems(1)]] walk_step.prems by simp
      then have "covers ps u (cn_metric c + d)" by (rule spf_inv_end [OF inv])
      then obtain r where r: "r \<in> set ps" "sp_to r = u" "sp_metric r \<le> cn_metric c + d" by (auto simp: covers_def)
      have "walk cs self (sp_metric r + cn_metric e) (cn_to e)"
        using spf_inv_bound [OF inv] r walk_step(2,3) by (intro walk.walk_step) auto
      then have "sp_metric q \<le> sp_metric r + cn_metric e" using q least [of _ q] by simp
      then have rm: "sp_metric r = cn_metric c + d" using q r by simp
      have "u \<noteq> self"
      proof
        assume "u = self"
        then have "sp_metric r \<le> 0" using least [of 0 r] walk.walk_here [of cs self] r by simp
        then show False using rm pos [OF walk_step.prems(1)] by simp
      qed
      then have "first_hop c \<in> set (sp_from r)" using walk_step r rm by simp
      moreover have "via cs r (sp_to q) (sp_metric q)" using walk_step(2,3) r q rm by (auto simp: via_def)
      ultimately have "first_hop c \<in> hops_via self cs ps (sp_to q) (sp_metric q)"
        using r \<open>u \<noteq> self\<close> by (auto simp: hops_via_def)
      then show "first_hop c \<in> set (sp_from q)" using from_eq q by simp
    qed
  qed
  show ?thesis using fwd [of _ p] bwd p by fastforce
qed


end
