(* ===== verification/Isis_Spf_Properties.thy ===== *)
theory Isis_Spf_Properties
  imports Isis_Spf_Hops
begin

text \<open>
  The properties of the shortest path computation, from the LSP database to the routing table, and the cases in
  which its next hops, its area search and its routing table are wrong.
\<close>

section \<open>From the database to the network\<close>

text \<open>The database holds LSP ids of 8 bytes and TLVs with as many bytes as they announce.\<close>

definition lsdb_ok :: "isis \<Rightarrow> level \<Rightarrow> bool" where
  "lsdb_ok s l \<longleftrightarrow> length (is_sysId s) = 6 \<and>
     (\<forall>p\<in>set (is_LSPDb s l). length (lp_lspID (rec_lsp s p)) = 8 \<and>
        (\<forall>t\<in>set (lp_TLV (rec_lsp s p)). unat (tlv_length t) \<le> length (tlv_value t)))"

lemma those_Some: "those (map f xs) = Some ys \<Longrightarrow> y \<in> set ys \<Longrightarrow> \<exists>x\<in>set xs. f x = Some y"
  by (induction xs arbitrary: ys) (auto split: option.splits)

lemma those_total: "\<forall>x\<in>set xs. \<exists>y. f x = Some y \<Longrightarrow> \<exists>ys. those (map f xs) = Some ys"
  by (induction xs) auto

lemma con_offsets_bound: "j \<in> set (con_offsets i n) \<Longrightarrow> i \<le> j \<and> j + 11 \<le> n"
proof (induction i n rule: con_offsets.induct)
  case (1 i n)
  then show ?case by (subst (asm) con_offsets.simps) (auto split: if_splits)
qed

lemma con_entry_NULL:
  assumes "con_entry lspId to l s = Some e" and "compareArrays lspId (is_sysId s) 6"
  shows "e \<noteq> NULL"
  using assms by (auto simp: con_entry_def iface_entry_def gate_entry_def split: if_splits bind_splits)

lemma extract_con_ok:
  assumes "extract_con lspId l s v i = Some c" and "i + 11 \<le> length v" and "length lspId = 8" and "length (is_sysId s) = 6"
  shows "con_ok (is_sysId s) c \<and> cn_metric c < 256"
proof -
  obtain e where e: "con_entry lspId (copy_bytes v 7 (i + 4) @ [0]) l s = Some e"
    "c = \<lparr>cn_from = take 7 lspId @ [0], cn_to = copy_bytes v 7 (i + 4) @ [0], cn_metric = unat (v ! i), cn_entry = e\<rparr>"
    using assms(1) by (auto simp: extract_con_def Let_def split: bind_splits)
  have "e \<noteq> NULL" if "take 7 lspId @ [0] = self_id (is_sysId s)"
  proof -
    have "take 6 (take 7 lspId @ [0]) = take 6 (self_id (is_sysId s))" using that by simp
    then have "compareArrays lspId (is_sysId s) 6" using assms(3,4) by (simp add: compareArrays_def self_id_def)
    then show ?thesis using con_entry_NULL e(1) by blast
  qed
  moreover have "unat (v ! i) < 256" using unsigned_less [of "v ! i", where ?'a = nat] by simp
  ultimately show ?thesis using e(2) assms by (auto simp: con_ok_def id_ok_def nth_append)
qed

lemma extractISO_con_ok:
  assumes "extractISO l s = Some cs" and "lsdb_ok s l" and "c \<in> set cs"
  shows "con_ok (is_sysId s) c \<and> cn_metric c < 256"
proof -
  obtain css where css: "those (map (extract_lsp l s \<circ> rec_lsp s) (is_LSPDb s l)) = Some css" "cs = twoWayCheck (concat css)"
    using assms(1) by (auto simp: extractISO_def)
  then obtain ds where "ds \<in> set css" "c \<in> set ds" using assms(3) by (auto simp: twoWayCheck_filter)
  then obtain p where p: "p \<in> set (is_LSPDb s l)" "extract_lsp l s (rec_lsp s p) = Some ds"
    using those_Some [OF css(1)] by fastforce
  obtain es where es: "those (map (extract_tlv (lp_lspID (rec_lsp s p)) l s) (tlvs_from (lp_TLV (rec_lsp s p)) IS_NEIGHBOURS_LSP 0)) = Some es"
    "ds = concat es" using p(2) \<open>c \<in> set ds\<close> by (auto simp: extract_lsp_def split: if_splits)
  then obtain e where "e \<in> set es" "c \<in> set e" using \<open>c \<in> set ds\<close> by auto
  then obtain t where t: "t \<in> set (lp_TLV (rec_lsp s p))" "extract_tlv (lp_lspID (rec_lsp s p)) l s t = Some e"
    using those_Some [OF es(1)] by (auto simp: tlvs_from_0)
  then have "those (map (extract_con (lp_lspID (rec_lsp s p)) l s (tlv_value t)) (con_offsets 1 (unat (tlv_length t)))) = Some e"
    by (simp add: extract_tlv_def)
  then obtain i where "i \<in> set (con_offsets 1 (unat (tlv_length t)))" "extract_con (lp_lspID (rec_lsp s p)) l s (tlv_value t) i = Some c"
    using those_Some [OF _ \<open>c \<in> set e\<close>] by blast
  then show ?thesis using extract_con_ok con_offsets_bound assms(2) p(1) t(1) unfolding lsdb_ok_def by (meson le_trans)
qed

lemma total_bound: "\<forall>c\<in>set cs. cn_metric c < 256 \<Longrightarrow> total cs \<le> 255 * length cs"
  by (induction cs) (auto simp: total_def)

lemma extractISO_network:
  assumes "extractISO l s = Some cs" and "lsdb_ok s l" and "length cs \<le> 2 ^ 24"
  shows "network_ok (is_sysId s) cs"
proof -
  have ok: "\<forall>c\<in>set cs. con_ok (is_sysId s) c \<and> cn_metric c < 256" using extractISO_con_ok [OF assms(1,2)] by blast
  then have "total cs \<le> 255 * length cs" by (intro total_bound) simp
  then have "total cs < 2 ^ 32" using assms(3) by simp
  then show ?thesis using ok assms(2) by (auto simp: network_ok_def con_ok_def lsdb_ok_def)
qed

section \<open>The paths after a run\<close>

definition gates_ok :: "isis \<Rightarrow> bool" where
  "gates_ok s \<longleftrightarrow> (\<forall>l. \<forall>a\<in>set (is_adjTable s l). \<exists>f\<in>set (is_ISISIft s). ii_gateIndex f = ad_gateIndex a)"

lemma setClosestAtt_simps [simp]:
  "is_ISISPathsISO (setClosestAtt s) = is_ISISPathsISO s" "is_adjTable (setClosestAtt s) = is_adjTable s"
  "is_ISISIft (setClosestAtt s) = is_ISISIft s" "is_clns (setClosestAtt s) = is_clns s"
  by (auto simp: setClosestAtt_def split: option.split)

lemma resolve_path_keeps: "resolve_path l s p = Some q \<Longrightarrow> path_key q = path_key p"
  by (auto simp: resolve_path_def path_key_def split: if_splits)

lemma resolve_path_total:
  assumes "gates_ok s"
  shows "\<exists>q. resolve_path l s p = Some q"
proof -
  have "\<exists>m. resolve_nbr l s n = Some m" for n
  proof (cases "isis_getAdjBySystemID (nb_id n) l s")
    case None
    then show ?thesis by (simp add: resolve_nbr_def)
  next
    case (Some a)
    then have "a \<in> set (is_adjTable s l)" unfolding isis_getAdjBySystemID_def by (metis find_Some_in)
    then have "getIfaceByGateIndex (ad_gateIndex a) s \<noteq> None"
      using assms by (auto simp: gates_ok_def getIfaceByGateIndex_def find_None_all)
    then show ?thesis using Some by (auto simp: resolve_nbr_def gate_entry_def)
  qed
  then obtain ns where "those (map (resolve_nbr l s) (sp_from p)) = Some ns"
    using those_total [of "sp_from p" "resolve_nbr l s"] by auto
  then show ?thesis by (simp add: resolve_path_def)
qed

lemma those_map_keys: "those (map f xs) = Some ys \<Longrightarrow> (\<And>x y. f x = Some y \<Longrightarrow> g y = g x) \<Longrightarrow> map g ys = map g xs"
proof (induction xs arbitrary: ys)
  case (Cons x xs)
  then obtain y zs where "f x = Some y" "those (map f xs) = Some zs" "ys = y # zs" by (auto split: option.splits)
  then show ?case using Cons by simp
qed simp

text \<open>A level 1 run ends, and leaves for each system that can be reached the length of a shortest walk.\<close>

definition shortest_paths :: "isis_id \<Rightarrow> isis_con list \<Rightarrow> isis_path list \<Rightarrow> bool" where
  "shortest_paths self cs ps \<longleftrightarrow> distinct (map sp_to ps) \<and>
     (\<forall>p\<in>set ps. walk cs self (sp_metric p) (sp_to p) \<and> (\<forall>d. walk cs self d (sp_to p) \<longrightarrow> sp_metric p \<le> d)) \<and>
     (\<forall>d v. walk cs self d v \<longrightarrow> v \<in> sp_to ` set ps)"

lemma shortest_paths_keys: "map path_key ps = map path_key qs \<Longrightarrow> shortest_paths self cs ps \<longleftrightarrow> shortest_paths self cs qs"
proof -
  assume k: "map path_key ps = map path_key qs"
  then have "map sp_to ps = map sp_to qs" by (rule keys_sp_to)
  moreover have "path_key ` set ps = path_key ` set qs" using arg_cong [OF k, of set] by simp
  moreover have eqv: "shortest_paths self cs rs \<longleftrightarrow> distinct (map sp_to rs) \<and>
     (\<forall>(v, m)\<in>path_key ` set rs. walk cs self m v \<and> (\<forall>d. walk cs self d v \<longrightarrow> m \<le> d)) \<and>
     (\<forall>d v. walk cs self d v \<longrightarrow> v \<in> set (map sp_to rs))" for rs
    by (simp add: shortest_paths_def path_key_def)
  ultimately show ?thesis unfolding eqv [of ps] eqv [of qs] by simp
qed

lemma fullSPF_runs:
  assumes srt: "path_sorter srt" and iso: "extractISO L1_TYPE s = Some cs" and db: "lsdb_ok s L1_TYPE"
    and n: "length cs \<le> 2 ^ 24" and gates: "gates_ok s"
  shows "\<exists>s' ps. fullSPF srt L1_TYPE s = Some s' \<and> is_ISISPathsISO s' L1_TYPE = Some ps \<and>
    shortest_paths (self_id (is_sysId s)) cs ps \<and> is_clns s' = spf_routes ps (is_clns s)"
proof -
  have net: "network_ok (is_sysId s) cs" by (rule extractISO_network [OF iso db n])
  obtain ps where ps: "spf_paths srt (is_sysId s) cs = Some ps" "distinct (map sp_to ps)"
    "\<forall>p\<in>set ps. walk cs (self_id (is_sysId s)) (sp_metric p) (sp_to p)"
    "\<forall>d v. walk cs (self_id (is_sysId s)) d v \<longrightarrow> (\<exists>p\<in>set ps. sp_to p = v \<and> sp_metric p \<le> d)"
    using path_sorter.spf_paths_shortest [OF srt net] by blast
  have "sp_metric p \<le> d" if p: "p \<in> set ps" "walk cs (self_id (is_sysId s)) d (sp_to p)" for p d
  proof -
    obtain q where q: "q \<in> set ps" "sp_to q = sp_to p" "sp_metric q \<le> d" using ps(4) p(2) by blast
    then have "q = p" using ps(2) p(1) by (auto simp: distinct_map inj_on_def)
    then show ?thesis using q by simp
  qed
  then have short: "shortest_paths (self_id (is_sysId s)) cs ps"
    unfolding shortest_paths_def using ps(2,3,4) by (metis imageI)
  define s1 where "s1 = setClosestAtt (s\<lparr>is_ISISPathsISO := (is_ISISPathsISO s)(L1_TYPE := Some ps)\<rparr>)"
  have "gates_ok s1" using gates by (simp add: s1_def gates_ok_def)
  then obtain rs where rs: "those (map (resolve_path L1_TYPE s1) ps) = Some rs"
    using those_total resolve_path_total by meson
  then have "map path_key rs = map path_key ps" by (rule those_map_keys) (rule resolve_path_keeps)
  then have "shortest_paths (self_id (is_sysId s)) cs rs" using short shortest_paths_keys by blast
  then show ?thesis using rs by (simp add: fullSPF_def iso ps(1) s1_def Let_def)
qed

section \<open>The area search\<close>

text \<open>With room for a second area the offset stays at 4.\<close>

lemma area_loop_hangs:
  assumes "n \<ge> 8" and "i \<le> 4"
  shows "area_loop p v n i areas = None"
proof (rule ccontr)
  assume "area_loop p v n i areas \<noteq> None"
  then obtain r where "area_loop p v n i areas = Some r" by blast
  moreover have "area_loop p v n i areas = Some r \<Longrightarrow> \<not> (8 \<le> n \<and> i \<le> 4)"
    by (rule area_loop.raw_induct [where P = "\<lambda>p v n i areas r. \<not> (8 \<le> n \<and> i \<le> 4)"])
      (fastforce split: if_splits)
  ultimately show False using assms by blast
qed

lemma area_tlvs_hangs: "t \<in> set ts \<Longrightarrow> 8 \<le> unat (tlv_length t) \<Longrightarrow> area_tlvs p ts areas = None"
  by (induction ts arbitrary: areas) (auto simp: area_loop_hangs split: bind_splits)

lemma extractAreas_hangs:
  assumes "p \<in> set ps" and "getLSPFromDbByID (sp_to p) l s = Some r"
    and "t \<in> set (lp_TLV (rec_lsp s r))" and "tlv_type t = AREA_ADDRESS" and "8 \<le> unat (tlv_length t)"
  shows "extractAreas l s ps areas = None"
  using assms(1)
proof (induction ps arbitrary: areas)
  case (Cons q ps)
  then show ?case
    using assms area_tlvs_hangs [of t "tlvs_from (lp_TLV (rec_lsp s r)) AREA_ADDRESS 0"]
    by (auto simp: tlvs_from_0 split: bind_splits)
qed simp

lemma extractAreas_null: "p \<in> set ps \<Longrightarrow> getLSPFromDbByID (sp_to p) l s = None \<Longrightarrow> extractAreas l s ps areas = None"
  by (induction ps arbitrary: areas) (auto split: bind_splits)

section \<open>The routing table\<close>

lemma same_route_trans: "same_route a b \<Longrightarrow> same_route b c \<Longrightarrow> same_route a c"
  by (simp add: same_route_def compareArrays_def)

definition route_covers :: "clns_route list \<Rightarrow> clns_route \<Rightarrow> bool" where
  "route_covers rs r \<longleftrightarrow> (\<exists>q\<in>set rs. same_route q r \<and> cr_metric q \<le> cr_metric r)"

lemma in_erase_first: "q \<in> set xs \<Longrightarrow> \<not> P q \<Longrightarrow> q \<in> set (erase_first P xs)"
  using set_erase_first_ge [of xs P] by blast

lemma clns_addRecord_covers: "route_covers rs r \<Longrightarrow> route_covers (clns_addRecord n rs) r"
proof -
  assume "route_covers rs r"
  then obtain q where q: "q \<in> set rs" "same_route q r" "cr_metric q \<le> cr_metric r" by (auto simp: route_covers_def)
  show ?thesis
  proof (cases "find (\<lambda>q. same_route q n) rs")
    case None
    then show ?thesis using q by (auto simp: clns_addRecord_def route_covers_def)
  next
    case (Some o1)
    have erased: "erase_first P xs = as @ bs" if "xs = as @ x # bs" "P x" "\<forall>y\<in>set as. \<not> P y" for P :: "clns_route \<Rightarrow> bool" and xs as x bs
      using that by (induction as arbitrary: xs) auto
    obtain as bs where s: "rs = as @ o1 # bs" "same_route o1 n" "\<forall>y\<in>set as. \<not> same_route y n" using find_split [OF Some] by blast
    then have e: "erase_first (\<lambda>q. same_route q n) rs = as @ bs" using erased [of rs as o1 bs] by simp
    show ?thesis
    proof (cases "q = o1")
      case True
      then have "same_route n r" using s(2) q(2) by (simp add: same_route_def compareArrays_def)
      then show ?thesis using q True Some e by (auto simp: clns_addRecord_def route_covers_def)
    next
      case False
      then show ?thesis using q s(1) Some e by (auto simp: clns_addRecord_def route_covers_def)
    qed
  qed
qed

lemma spf_routes_covers: "route_covers rs r \<Longrightarrow> route_covers (spf_routes ps rs) r"
  unfolding spf_routes_def by (rule fold_invariant) (auto intro: clns_addRecord_covers)

section \<open>Next hops that are no neighbours\<close>

text \<open>Two connections of this system to the same neighbour: for the second the path of this system itself is
  the path that is moved, and its own, unset entry becomes a next hop.\<close>

lemma parallel_connections:
  assumes id: "length sysId = 6" "id_ok v" "v \<noteq> self_id sysId" and e: "e1 \<noteq> NULL" "m < 2 ^ 32"
  shows "moveToTent sysId 0 [\<lparr>cn_from = self_id sysId, cn_to = v, cn_metric = m, cn_entry = e1\<rparr>,
      \<lparr>cn_from = self_id sysId, cn_to = v, cn_metric = m, cn_entry = e2\<rparr>] [self_path (self_id sysId)] =
    Some [self_path (self_id sysId), \<lparr>sp_to = v, sp_metric = m,
      sp_from = [\<lparr>nb_id = v, nb_entry = e1\<rparr>, \<lparr>nb_id = self_id sysId, nb_entry = Garbage\<rparr>]\<rparr>]"
proof -
  have self: "id_ok (self_id sysId)" "compareArrays (self_id sysId) sysId 6" "self_id sysId ! 6 = 0"
    using id(1) by (simp_all add: compareArrays_def self_id_def id_ok_def nth_append)
  then show ?thesis using id e
    by (simp add: move_con_def Let_def add32_def is_path_to_def new_hops_def self_path_def better_path_def same_nbr_def nth_Cons')
qed

definition hop_to :: "isis_id \<Rightarrow> entry_ptr \<Rightarrow> isis_nbr" where
  "hop_to v e = \<lparr>nb_id = v, nb_entry = e\<rparr>"

lemma hop_to_simps [simp]: "nb_id (hop_to v e) = v" "nb_entry (hop_to v e) = e" "(hop_to v e)\<lparr>nb_id := w\<rparr> = hop_to w e"
  by (simp_all add: hop_to_def)

lemma two_lans:
  assumes ids: "length sysId = 6" "id_ok pn" "id_ok x" "id_ok y" "pn ! 6 \<noteq> 0" "x ! 6 = 0" "x \<noteq> y"
    and self: "x \<noteq> self_id sysId" and m: "m + k < 2 ^ 32"
  shows "moveToTent sysId m [\<lparr>cn_from = pn, cn_to = x, cn_metric = 0, cn_entry = e3\<rparr>]
      [\<lparr>sp_to = pn, sp_metric = m, sp_from = [hop_to pn e2]\<rparr>, \<lparr>sp_to = x, sp_metric = m, sp_from = [hop_to x e1]\<rparr>] =
    Some [\<lparr>sp_to = pn, sp_metric = m, sp_from = [hop_to pn e2]\<rparr>, \<lparr>sp_to = x, sp_metric = m, sp_from = [hop_to x e1, hop_to pn e2]\<rparr>]"
    and "moveToTent sysId m [\<lparr>cn_from = x, cn_to = y, cn_metric = k, cn_entry = e4\<rparr>]
      [\<lparr>sp_to = x, sp_metric = m, sp_from = [hop_to x e1, hop_to pn e2]\<rparr>] =
    Some [\<lparr>sp_to = x, sp_metric = m, sp_from = [hop_to x e1, hop_to pn e2]\<rparr>,
      \<lparr>sp_to = y, sp_metric = m + k, sp_from = [hop_to x e1, hop_to y e2]\<rparr>]"
proof -
  have ne: "pn \<noteq> x" using ids by auto
  show "moveToTent sysId m [\<lparr>cn_from = pn, cn_to = x, cn_metric = 0, cn_entry = e3\<rparr>]
      [\<lparr>sp_to = pn, sp_metric = m, sp_from = [hop_to pn e2]\<rparr>, \<lparr>sp_to = x, sp_metric = m, sp_from = [hop_to x e1]\<rparr>] =
    Some [\<lparr>sp_to = pn, sp_metric = m, sp_from = [hop_to pn e2]\<rparr>, \<lparr>sp_to = x, sp_metric = m, sp_from = [hop_to x e1, hop_to pn e2]\<rparr>]"
    using ids ne m by (simp add: move_con_def Let_def add32_def is_path_to_def better_path_def same_nbr_def)
  have "\<not> (compareArrays x sysId 6 \<and> x ! 6 = 0)" using is_self_iff [of sysId x] ids self by simp
  then show "moveToTent sysId m [\<lparr>cn_from = x, cn_to = y, cn_metric = k, cn_entry = e4\<rparr>]
      [\<lparr>sp_to = x, sp_metric = m, sp_from = [hop_to x e1, hop_to pn e2]\<rparr>] =
    Some [\<lparr>sp_to = x, sp_metric = m, sp_from = [hop_to x e1, hop_to pn e2]\<rparr>,
      \<lparr>sp_to = y, sp_metric = m + k, sp_from = [hop_to x e1, hop_to y e2]\<rparr>]"
    using ids ne m by (simp add: move_con_def Let_def add32_def is_path_to_def new_hops_def  add.commute)
qed

section \<open>A network of three routers\<close>

definition demo_sys :: "u8 \<Rightarrow> isis_id" where
  "demo_sys n = [0, 0, 0, 0, 0, n]"

definition demo_lsp_entry :: "u8 \<Rightarrow> u8 \<Rightarrow> u8 list" where
  "demo_lsp_entry n m = [m, 128, 128, 128] @ demo_sys n @ [0]"

definition demo_tlv :: "(u8 \<times> u8) list \<Rightarrow> tlv" where
  "demo_tlv ns = \<lparr>tlv_type = IS_NEIGHBOURS_LSP, tlv_length = of_nat (1 + 11 * length ns),
     tlv_value = 40 # concat (map (\<lambda>(n, m). demo_lsp_entry n m) ns)\<rparr>"

definition demo_lsp :: "u8 \<Rightarrow> (u8 \<times> u8) list \<Rightarrow> lsp_packet" where
  "demo_lsp n ns = \<lparr>lp_remLifeTime = 200, lp_lspID = demo_sys n @ [0, 0], lp_seqNumber = 1, lp_PATTLSPDBOLIS = 2,
     lp_TLV = [demo_tlv ns, \<lparr>tlv_type = AREA_ADDRESS, tlv_length = 4, tlv_value = [3, 0, 0, 1]\<rparr>]\<rparr>"

definition demo_rec :: "lsp_packet \<Rightarrow> lsp_record" where
  "demo_rec p = \<lparr>lr_LSP = p, lr_kind = LSP_DEAD, lr_due = sec 200, lr_SRMflags = [False, False], lr_SSNflags = [False, False],
     lr_simLifetime = sec 200\<rparr>"

definition demo_if :: "nat \<Rightarrow> isis_if" where
  "demo_if g = \<lparr>ii_gateIndex = g, ii_network = False, ii_circuitType = L1L2_TYPE, ii_priority = 64,
     ii_DIS = (\<lambda>_. replicate 7 0), ii_metric = 10, ii_entry = 100 + g,
     ii_mac = 0xAA01 + of_nat g, ii_DISpriority = (\<lambda>_. 64), ii_enabled = True, ii_passive = False,
     ii_HelloInterval = (\<lambda>_. 10), ii_HelloMultiplier = (\<lambda>_. 3)\<rparr>"

definition demo_adj :: "u8 \<Rightarrow> nat \<Rightarrow> isis_adj" where
  "demo_adj n g = \<lparr>ad_sysID = demo_sys n, ad_areaID = [0, 0, 1], ad_mac = ucast n, ad_state = True, ad_gateIndex = g,
     ad_timer = \<lparr>nt_level = L1_TYPE, nt_interfaceIndex = g, nt_gateIndex = g, nt_sysID = demo_sys n, nt_LSPid = demo_sys n @ [0, 0],
       nt_areaID = [0, 0, 1]\<rparr>, ad_due = sec 40\<rparr>"

text \<open>System 1 has point-to-point links to 2 and 3; 2 and 3 are linked too.\<close>

definition demo_isis :: isis where
  "demo_isis = \<lparr>is_areaId = [0, 0, 1], is_sysId = demo_sys 1, is_isType = Only L1_TYPE, is_ISISIft = [demo_if 0, demo_if 1],
     is_adjTable = (\<lambda>l. if l = L1_TYPE then [demo_adj 2 0, demo_adj 3 1] else []),
     is_heap = (\<lambda>p. demo_rec (if p = 0 then demo_lsp 1 [(2, 10), (3, 30)] else if p = 1 then demo_lsp 2 [(1, 10), (3, 20)]
       else demo_lsp 3 [(1, 30), (2, 20)])),
     is_next = 3, is_LSPDb = (\<lambda>l. if l = L1_TYPE then [0, 1, 2] else []),
     is_SRMBQueue = (\<lambda>l. [[], []]), is_SRMPTPQueue = (\<lambda>l. [[], []]), is_SSNBQueue = (\<lambda>l. [[], []]), is_SSNPTPQueue = (\<lambda>l. [[], []]),
     is_ISISPathsISO = (\<lambda>l. None), is_att = False, is_attIS = None, is_lspMaxLifetime = 200, is_clns = [], is_out = []\<rparr>"

definition demo_con :: "u8 \<Rightarrow> u8 \<Rightarrow> nat \<Rightarrow> entry_ptr \<Rightarrow> isis_con" where
  "demo_con a b m e = \<lparr>cn_from = demo_sys a @ [0, 0], cn_to = demo_sys b @ [0, 0], cn_metric = m, cn_entry = e\<rparr>"

definition demo_cons :: "isis_con list" where
  "demo_cons = [demo_con 1 2 10 (Entry 100), demo_con 1 3 30 (Entry 101), demo_con 2 1 10 NULL, demo_con 2 3 20 NULL,
     demo_con 3 1 30 NULL, demo_con 3 2 20 NULL]"

lemma demo_extract_lsps:
  "extract_lsp L1_TYPE demo_isis (demo_lsp 1 [(2, 10), (3, 30)]) = Some [demo_con 1 2 10 (Entry 100), demo_con 1 3 30 (Entry 101)]"
  "extract_lsp L1_TYPE demo_isis (demo_lsp 2 [(1, 10), (3, 20)]) = Some [demo_con 2 1 10 NULL, demo_con 2 3 20 NULL]"
  "extract_lsp L1_TYPE demo_isis (demo_lsp 3 [(1, 30), (2, 20)]) = Some [demo_con 3 1 30 NULL, demo_con 3 2 20 NULL]"
  by code_simp+

lemma demo_db:
  "map (rec_lsp demo_isis) (is_LSPDb demo_isis L1_TYPE) =
     [demo_lsp 1 [(2, 10), (3, 30)], demo_lsp 2 [(1, 10), (3, 20)], demo_lsp 3 [(1, 30), (2, 20)]]"
  by (simp add: demo_isis_def rec_lsp_def demo_rec_def)

lemma demo_two_way: "twoWayCheck demo_cons = demo_cons"
  by code_simp

lemma demo_extract: "extractISO L1_TYPE demo_isis = Some demo_cons"
proof -
  have "map (extract_lsp L1_TYPE demo_isis \<circ> rec_lsp demo_isis) (is_LSPDb demo_isis L1_TYPE) =
    map (extract_lsp L1_TYPE demo_isis) (map (rec_lsp demo_isis) (is_LSPDb demo_isis L1_TYPE))" by simp
  then show ?thesis using demo_two_way by (simp add: extractISO_def demo_db demo_extract_lsps) (simp add: demo_cons_def)
qed

lemma demo_total: "total demo_cons = 120"
  by code_simp

lemma demo_con_simps [simp]:
  "cn_from (demo_con a b m e) = demo_sys a @ [0, 0]" "cn_to (demo_con a b m e) = demo_sys b @ [0, 0]"
  "cn_metric (demo_con a b m e) = m" "cn_entry (demo_con a b m e) = e"
  by (simp_all add: demo_con_def)

lemma demo_sys_simps [simp]: "id_ok (demo_sys a @ [0, 0])" "(demo_sys a @ [0, 0]) ! 6 = 0" "self_id (demo_sys a) = demo_sys a @ [0, 0]"
  "length (demo_sys a) = 6" "demo_sys a = demo_sys b \<longleftrightarrow> a = b"
  by (simp_all add: demo_sys_def id_ok_def self_id_def)

lemma demo_simple: "simple_net (demo_sys 1) demo_cons"
  by (simp add: simple_net_def network_ok_def demo_total) (simp add: demo_cons_def)

lemma demo_lsdb: "lsdb_ok demo_isis L1_TYPE"
  by code_simp

lemma demo_gates: "gates_ok demo_isis"
  by (simp add: gates_ok_def demo_isis_def demo_adj_def demo_if_def)

section \<open>Properties\<close>

text \<open>C5: A level 1 run of the shortest path computation ends, whatever order the sort gives to equal paths, and
  leaves one path for each system that can be reached over connections reported by both ends, with the length of
  a shortest walk as its metric, as long as there are at most 2 to the power of 24 connections; those paths are
  what the routing table is given.\<close>

theorem isis_spf_shortest:
  assumes "path_sorter srt" and "extractISO L1_TYPE s = Some cs" and "lsdb_ok s L1_TYPE" and "length cs \<le> 2 ^ 24" and "gates_ok s"
  shows "\<exists>s' ps. fullSPF srt L1_TYPE s = Some s' \<and> is_ISISPathsISO s' L1_TYPE = Some ps \<and>
    shortest_paths (self_id (is_sysId s)) cs ps \<and> is_clns s' = spf_routes ps (is_clns s)"
  by (rule fullSPF_runs [OF assms])

theorem isis_spf_shortest_witness:
  "\<exists>s' ps. fullSPF insertion_sort_paths L1_TYPE demo_isis = Some s' \<and> is_ISISPathsISO s' L1_TYPE = Some ps \<and>
    shortest_paths (self_id (is_sysId demo_isis)) demo_cons ps \<and> is_clns s' = spf_routes ps (is_clns demo_isis)"
  using isis_spf_shortest [OF insertion_sort.path_sorter_axioms demo_extract demo_lsdb _ demo_gates] by (simp add: demo_cons_def)

text \<open>C15: The next hops. In a network without pseudonodes (LANs), connections of metric 0 and parallel connections of this
  system (\<open>simple_net\<close>; with them the code makes mistakes), the computation ends and gives each system exactly the first hops, each with its interface, of the shortest walks
  that lead to it: all equal-cost next hops and no other.\<close>

theorem isis_spf_next_hops:
  assumes "path_sorter srt" and "simple_net sysId cs"
  shows "\<exists>ps. spf_paths srt sysId cs = Some ps \<and> shortest_paths (self_id sysId) cs ps \<and>
    (\<forall>p. p \<in> set ps \<and> sp_to p \<noteq> self_id sysId \<longrightarrow> set (sp_from p) =
      {first_hop c |c. c \<in> set cs \<and> cn_from c = self_id sysId \<and> (\<exists>d. walk cs (cn_to c) d (sp_to p) \<and> cn_metric c + d = sp_metric p)})"
proof -
  have net: "network_ok sysId cs" using assms(2) by (simp add: simple_net_def)
  obtain ps where ps: "spf_paths srt sysId cs = Some ps" "distinct (map sp_to ps)"
    "\<forall>p\<in>set ps. walk cs (self_id sysId) (sp_metric p) (sp_to p)" "hop_inv (self_id sysId) cs [] ps"
    "spf_inv (self_id sysId) cs (open_cons cs ps) [] ps"
    using path_sorter.spf_paths_shortest [OF assms(1) net] assms(2) by blast
  have "tent_ok ps" using ps(5) by (simp add: spf_inv_def)
  then have "sp_metric p \<le> d" if "p \<in> set ps" "walk cs (self_id sysId) d (sp_to p)" for p d
    using not_covered_below [OF _ that(1)] spf_inv_end [OF ps(5) that(2)] by blast
  moreover have "v \<in> sp_to ` set ps" if "walk cs (self_id sysId) d v" for d v
    using spf_inv_end [OF ps(5) that] by (auto simp: covers_def)
  ultimately have "shortest_paths (self_id sysId) cs ps" using ps(2,3) by (auto simp: shortest_paths_def)
  then show ?thesis using ps(1) hop_inv_first_hops [OF assms(2) ps(5) refl ps(4)] by blast
qed

theorem isis_spf_next_hops_witness:
  "\<exists>ps. spf_paths insertion_sort_paths (demo_sys 1) demo_cons = Some ps \<and> shortest_paths (self_id (demo_sys 1)) demo_cons ps"
  using isis_spf_next_hops [OF insertion_sort.path_sorter_axioms demo_simple] by blast

text \<open>C19: The two-way check, which erases connections while it walks over them, keeps exactly those whose reverse was
  reported in the list it started from.\<close>

theorem isis_two_way_check: "twoWayCheck cs = filter (\<lambda>c. isCon cs (cn_to c) (cn_from c)) cs"
  by (rule twoWayCheck_filter)

text \<open>The search for areas, which a level 2 run goes through, does not return once a system on the paths announces
  two areas in one TLV: the loop's offset never passes 4.\<close>

theorem isis_area_search_hangs:
  assumes "p \<in> set ps" and "getLSPFromDbByID (sp_to p) l s = Some r" and "t \<in> set (lp_TLV (rec_lsp s r))"
    and "tlv_type t = AREA_ADDRESS" and "8 \<le> unat (tlv_length t)"
  shows "extractAreas l s ps areas = None"
  by (rule extractAreas_hangs [OF assms])

definition demo_two_areas :: isis where
  "demo_two_areas = demo_isis\<lparr>is_heap := (\<lambda>_. demo_rec ((demo_lsp 1 [])\<lparr>lp_TLV :=
     [\<lparr>tlv_type = AREA_ADDRESS, tlv_length = 8, tlv_value = [3, 0, 0, 1, 3, 0, 0, 2]\<rparr>]\<rparr>))\<rparr>"

theorem isis_area_search_hangs_witness:
  "extractAreas L1_TYPE demo_two_areas [self_path (demo_sys 1 @ [0, 0])] [] = None"
proof (rule isis_area_search_hangs [where p = "self_path (demo_sys 1 @ [0, 0])" and r = 0 and
      t = "\<lparr>tlv_type = AREA_ADDRESS, tlv_length = 8, tlv_value = [3, 0, 0, 1, 3, 0, 0, 2]\<rparr>"])
  show "getLSPFromDbByID (sp_to (self_path (demo_sys 1 @ [0, 0]))) L1_TYPE demo_two_areas = Some 0"
    by (simp add: getLSPFromDbByID_def demo_two_areas_def demo_isis_def rec_lsp_def demo_rec_def demo_lsp_def)
qed (simp_all add: demo_two_areas_def demo_isis_def rec_lsp_def demo_rec_def demo_lsp_def)

text \<open>C40: The routing table never forgets: a destination it has a route to keeps one that is as short, whatever paths a
  later run finds, so a route that got longer or was lost stays as it was.\<close>

theorem isis_routes_never_get_longer:
  assumes "r \<in> set (is_clns s)" and "fullSPF srt l s = Some s'"
  shows "\<exists>q\<in>set (is_clns s'). same_route q r \<and> cr_metric q \<le> cr_metric r"
proof -
  obtain ps where "is_clns s' = spf_routes ps (is_clns s)"
    using assms(2) by (auto simp: fullSPF_def Let_def split: bind_splits)
  moreover have "route_covers (is_clns s) r" using assms(1) by (auto simp: route_covers_def same_route_def intro!: bexI [of _ r])
  ultimately show ?thesis using spf_routes_covers [of "is_clns s" r ps] by (simp add: route_covers_def)
qed

definition demo_clns_route :: clns_route where
  "demo_clns_route = \<lparr>cr_destPrefix = demo_sys 9 @ [0], cr_metric = 5, cr_nextHop = []\<rparr>"

theorem isis_routes_never_get_longer_witness:
  "\<exists>s' q. fullSPF insertion_sort_paths L1_TYPE (demo_isis\<lparr>is_clns := [demo_clns_route]\<rparr>) = Some s' \<and>
    q \<in> set (is_clns s') \<and> same_route q demo_clns_route \<and> cr_metric q \<le> 5"
proof -
  define s where "s = demo_isis\<lparr>is_clns := [demo_clns_route]\<rparr>"
  have "con_entry i t L1_TYPE s = con_entry i t L1_TYPE demo_isis" for i t
    by (simp add: s_def con_entry_def iface_entry_def gate_entry_def isis_getAdjBySystemID_def getIfaceByGateIndex_def)
  then have "extract_con i L1_TYPE s = extract_con i L1_TYPE demo_isis" for i by (intro ext) (simp add: extract_con_def)
  then have "extract_tlv i L1_TYPE s = extract_tlv i L1_TYPE demo_isis" for i by (intro ext) (simp add: extract_tlv_def)
  then have "extract_lsp L1_TYPE s = extract_lsp L1_TYPE demo_isis" by (intro ext) (simp add: extract_lsp_def)
  then have "extractISO L1_TYPE s = Some demo_cons"
    using demo_extract by (simp add: extractISO_def s_def rec_lsp_def comp_def)
  moreover have "lsdb_ok s L1_TYPE" "gates_ok s" using demo_lsdb demo_gates by (simp_all add: s_def lsdb_ok_def gates_ok_def rec_lsp_def)
  ultimately obtain s' where s': "fullSPF insertion_sort_paths L1_TYPE s = Some s'"
    using fullSPF_runs [OF insertion_sort.path_sorter_axioms] by (fastforce simp: demo_cons_def)
  have "demo_clns_route \<in> set (is_clns s)" by (simp add: s_def)
  from isis_routes_never_get_longer [OF this s'] show ?thesis using s' by (auto simp: s_def demo_clns_route_def)
qed

text \<open>Next hops that are no neighbours. With two connections of the same metric to a neighbour, this system becomes
  its own next hop, with an interface that was never set. With two LANs to the same router at the same distance, the
  pseudonode of the second becomes a next hop of that router, and behind it every system becomes its own next hop.\<close>

theorem isis_next_hop_not_adjacent:
  assumes "length sysId = 6" and "id_ok pn" "id_ok x" "id_ok y" and "pn ! 6 \<noteq> 0" "x ! 6 = 0" "x \<noteq> y" and "x \<noteq> self_id sysId"
    and "m + k < 2 ^ 32" and "e1 \<noteq> NULL"
  shows "moveToTent sysId 0 [\<lparr>cn_from = self_id sysId, cn_to = x, cn_metric = m, cn_entry = e1\<rparr>,
      \<lparr>cn_from = self_id sysId, cn_to = x, cn_metric = m, cn_entry = e2\<rparr>] [self_path (self_id sysId)] =
    Some [self_path (self_id sysId), \<lparr>sp_to = x, sp_metric = m, sp_from = [hop_to x e1, hop_to (self_id sysId) Garbage]\<rparr>] \<and>
    moveToTent sysId m [\<lparr>cn_from = pn, cn_to = x, cn_metric = 0, cn_entry = NULL\<rparr>]
      [\<lparr>sp_to = pn, sp_metric = m, sp_from = [hop_to pn e2]\<rparr>, \<lparr>sp_to = x, sp_metric = m, sp_from = [hop_to x e1]\<rparr>] =
    Some [\<lparr>sp_to = pn, sp_metric = m, sp_from = [hop_to pn e2]\<rparr>, \<lparr>sp_to = x, sp_metric = m, sp_from = [hop_to x e1, hop_to pn e2]\<rparr>] \<and>
    moveToTent sysId m [\<lparr>cn_from = x, cn_to = y, cn_metric = k, cn_entry = NULL\<rparr>]
      [\<lparr>sp_to = x, sp_metric = m, sp_from = [hop_to x e1, hop_to pn e2]\<rparr>] =
    Some [\<lparr>sp_to = x, sp_metric = m, sp_from = [hop_to x e1, hop_to pn e2]\<rparr>,
      \<lparr>sp_to = y, sp_metric = m + k, sp_from = [hop_to x e1, hop_to y e2]\<rparr>]"
  using parallel_connections [of sysId x e1 m e2] two_lans [of sysId pn x y m k] assms by (simp add: hop_to_def)

theorem isis_next_hop_not_adjacent_witness:
  "moveToTent (demo_sys 1) 10 [\<lparr>cn_from = demo_sys 2 @ [0, 0], cn_to = demo_sys 3 @ [0, 0], cn_metric = 7, cn_entry = NULL\<rparr>]
      [\<lparr>sp_to = demo_sys 2 @ [0, 0], sp_metric = 10, sp_from = [hop_to (demo_sys 2 @ [0, 0]) (Entry 100), hop_to (demo_sys 1 @ [1, 0]) (Entry 101)]\<rparr>] =
    Some [\<lparr>sp_to = demo_sys 2 @ [0, 0], sp_metric = 10, sp_from = [hop_to (demo_sys 2 @ [0, 0]) (Entry 100), hop_to (demo_sys 1 @ [1, 0]) (Entry 101)]\<rparr>,
      \<lparr>sp_to = demo_sys 3 @ [0, 0], sp_metric = 10 + 7, sp_from = [hop_to (demo_sys 2 @ [0, 0]) (Entry 100), hop_to (demo_sys 3 @ [0, 0]) (Entry 101)]\<rparr>]"
proof -
  have "id_ok (demo_sys 1 @ [1, 0])" "(demo_sys 1 @ [1, 0]) ! 6 \<noteq> 0" by (simp_all add: demo_sys_def id_ok_def)
  then show ?thesis
    using isis_next_hop_not_adjacent [of "demo_sys 1" "demo_sys 1 @ [1, 0]" "demo_sys 2 @ [0, 0]" "demo_sys 3 @ [0, 0]" 10 7 "Entry 100" "Entry 101"]
    by simp
qed


end
