(* ===== verification/Isis_Machine.thy ===== *)
theory Isis_Machine
  imports Isis_Adjacency Isis_Spf_Properties Event_Machine
begin

text \<open>
  The IS-IS module as a machine: \<open>handleMessage\<close> of \<open>src/src/ansa/networklayer/isis/ISIS.cc\<close> with its timers and
  its messages, for network layer routing. An event carries the simulation time and what is drawn or answered from
  outside while it is handled. The states are those that can be reached from a configured module by events the code
  can take; in each of them the invariants hold, and each such event is handled to its end.
\<close>

section \<open>Events\<close>

datatype isis_msg =
    Msg_LAN_Hello lan_hello
  | Msg_PTP_Hello ptp_hello
  | Msg_LSP level lsp_packet
  | Msg_CSNP level isis_id isis_id isis_id "tlv list"
  | Msg_PSNP level isis_id "tlv list"

datatype isis_timer =
    HELLO_TIMER nat nat circuit
  | NEIGHBOUR_DEAD nbr_timer
  | GENERATE_LSP_TIMER
  | LSP_REFRESH
  | LSP_TIMER lsp_timer_kind isis_id level
  | CSNP_TIMER nat nat circuit
  | PSNP_TIMER nat nat circuit
  | PERIODIC_SEND level
  | SPF_FULL level

text \<open>What comes from outside: the time, the draws, the content of new memory, the addresses of records, and the sort.\<close>

record isis_env =
  ie_now :: simtime
  ie_rnd :: "level \<Rightarrow> simtime"
  ie_draw :: "nat \<Rightarrow> nat \<Rightarrow> nat"
  ie_mem :: "nat \<Rightarrow> u8"
  ie_addr :: "nat \<Rightarrow> nat"
  ie_sort :: "isis_path list \<Rightarrow> isis_path list"

text \<open>A message with its id length and maximal number of areas, the MAC address it is from and the gate it came through.\<close>

datatype isis_event = Timer isis_timer | Message u8 u8 isis_msg mac_addr nat

definition isMessageOK :: "u8 \<Rightarrow> u8 \<Rightarrow> bool" where
  "isMessageOK idLength maxAreas = ((idLength = 6 \<or> idLength = 0) \<and> (maxAreas = 3 \<or> maxAreas = 0))"

text \<open>\<open>generateLSP\<close> and \<open>refreshLSP\<close> of a timer: on the levels of this system, whatever the level of the timer is.\<close>

definition on_levels :: "(level \<Rightarrow> isis \<Rightarrow> isis option) \<Rightarrow> isis \<Rightarrow> isis option" where
  "on_levels f s =
     do {
       s1 \<leftarrow> (if on_level (is_isType s) L1_TYPE then f L1_TYPE s else Some s);
       if on_level (is_isType s1) L2_TYPE then f L2_TYPE s1 else Some s1
     }"

definition isis_timer_handle :: "isis_env \<Rightarrow> isis_timer \<Rightarrow> isis \<Rightarrow> isis option" where
  "isis_timer_handle env t s =
     (case t of
        HELLO_TIMER i g ct \<Rightarrow> sendHelloMsg (ie_mem env) i g ct s
      | NEIGHBOUR_DEAD nt \<Rightarrow> removeDeadNeighbour (ie_now env) nt s
      | GENERATE_LSP_TIMER \<Rightarrow> on_levels (generateLSP (ie_now env)) s
      | LSP_REFRESH \<Rightarrow> on_levels (refreshLSP (ie_now env)) s
      | LSP_TIMER LSP_DEAD v l \<Rightarrow> purge_mem (ie_now env) v l s
      | LSP_TIMER LSP_DELETE v l \<Rightarrow> deleteLSP v l s
      | CSNP_TIMER i g ct \<Rightarrow> (case ct of Only l \<Rightarrow> sendCsnp i g l s | _ \<Rightarrow> Some s)
      | PSNP_TIMER i g ct \<Rightarrow> (case ct of Only l \<Rightarrow> sendPsnp i g l s | _ \<Rightarrow> Some s)
      | PERIODIC_SEND l \<Rightarrow> periodicSend (ie_now env) l (ie_draw env) s
      | SPF_FULL l \<Rightarrow> fullSPF (ie_sort env) l s)"

definition isis_msg_handle :: "isis_env \<Rightarrow> circuit \<Rightarrow> isis_msg \<Rightarrow> mac_addr \<Rightarrow> nat \<Rightarrow> isis \<Rightarrow> isis option" where
  "isis_msg_handle env ct m mac g s =
     (case m of
        Msg_LAN_Hello h \<Rightarrow>
          if \<not> on_level ct (lh_level h) then Some s
          else (case lh_level h of
              L1_TYPE \<Rightarrow> handleL1HelloMsg (ie_now env) (ie_rnd env L1_TYPE) h mac g s
            | L2_TYPE \<Rightarrow> handleL2HelloMsg (ie_now env) (ie_rnd env L2_TYPE) h mac g s)
      | Msg_PTP_Hello h \<Rightarrow> if ct = RESERVED_TYPE then Some s else handlePTPHelloMsg (ie_now env) (ie_rnd env) h mac g s
      | Msg_LSP l lsp \<Rightarrow> if on_level ct l then handleLsp (ie_now env) lsp mac g l s else Some s
      | Msg_CSNP l src start endId ts \<Rightarrow> if on_level ct l then handleCsnp (ie_addr env) (ie_now env) src start endId ts mac g l s else Some s
      | Msg_PSNP l src ts \<Rightarrow> if on_level ct l then handlePsnp (ie_now env) src ts mac g l s else Some s)"

definition isis_handle :: "isis_env \<Rightarrow> isis_event \<Rightarrow> isis \<Rightarrow> isis option" where
  "isis_handle env ev s =
     (case ev of
        Timer t \<Rightarrow> isis_timer_handle env t s
      | Message idLength maxAreas m mac g \<Rightarrow>
          if \<not> isMessageOK idLength maxAreas then Some s
          else (case getIfaceByGateIndex g s of None \<Rightarrow> Some s | Some f \<Rightarrow> isis_msg_handle env (ii_circuitType f) m mac g s))"

section \<open>The events the code can take\<close>

text \<open>Narrower than what the code survives in places: the shortest path computation is admitted on level 1 only, and
  with a database from which \<open>extractISO\<close> reads connections without an error; a neighbour's timer only when the loop over
  the adjacencies ends.\<close>

definition isis_timer_ok :: "isis_env \<Rightarrow> isis_timer \<Rightarrow> isis \<Rightarrow> bool" where
  "isis_timer_ok env t s =
     (case t of
        HELLO_TIMER i g ct \<Rightarrow> i < n_if s \<and> length (is_adjTable s L1_TYPE) \<le> 42 \<and> length (is_adjTable s L2_TYPE) \<le> 42
      | NEIGHBOUR_DEAD nt \<Rightarrow> dead_ok nt s
      | GENERATE_LSP_TIMER \<Rightarrow>
          (on_level (is_isType s) L1_TYPE \<longrightarrow> generate_ok L1_TYPE s) \<and>
          (on_level (is_isType s) L2_TYPE \<longrightarrow>
            (case if on_level (is_isType s) L1_TYPE then generateLSP (ie_now env) L1_TYPE s else Some s of
               None \<Rightarrow> False | Some s1 \<Rightarrow> generate_ok L2_TYPE s1))
      | LSP_REFRESH \<Rightarrow> True
      | LSP_TIMER k v l \<Rightarrow> True
      | CSNP_TIMER i g ct \<Rightarrow> i < n_if s
      | PSNP_TIMER i g ct \<Rightarrow> i < n_if s
      | PERIODIC_SEND l \<Rightarrow> draw_ok (ie_draw env)
      | SPF_FULL l \<Rightarrow> l = L1_TYPE \<and> path_sorter (ie_sort env) \<and> lsdb_ok s L1_TYPE \<and> gates_ok s \<and>
          (\<exists>cs. extractISO L1_TYPE s = Some cs \<and> length cs \<le> 2 ^ 24))"

definition msg_ok :: "isis_msg \<Rightarrow> nat \<Rightarrow> isis \<Rightarrow> bool" where
  "msg_ok m g s =
     (case m of
        Msg_LAN_Hello h \<Rightarrow> lan_ok h g s
      | Msg_PTP_Hello h \<Rightarrow> ptp_ok h
      | Msg_LSP l lsp \<Rightarrow> length (lp_lspID lsp) = 8
      | Msg_CSNP l src start endId ts \<Rightarrow> snp_entries ts \<noteq> None \<and> getLspRange start endId l s = []
      | Msg_PSNP l src ts \<Rightarrow> snp_entries ts \<noteq> None)"

definition isis_event_ok :: "isis_env \<Rightarrow> isis_event \<Rightarrow> isis \<Rightarrow> bool" where
  "isis_event_ok env ev s =
     (case ev of
        Timer t \<Rightarrow> isis_timer_ok env t s
      | Message idLength maxAreas m mac g \<Rightarrow> isMessageOK idLength maxAreas \<and> getIfaceByGateIndex g s \<noteq> None \<longrightarrow> msg_ok m g s)"

section \<open>One event\<close>

lemma hello_inv_spf_fields:
  "hello_inv (s\<lparr>is_ISISPathsISO := x\<rparr>) = hello_inv s" "hello_inv (s\<lparr>is_clns := y\<rparr>) = hello_inv s"
proof -
  have f: "flag_queues k b l (s\<lparr>is_ISISPathsISO := x\<rparr>) = flag_queues k b l s" "flag_queues k b l (s\<lparr>is_clns := y\<rparr>) = flag_queues k b l s" for k b l
    by (cases k; simp add: flag_queues_def)+
  then have "flags_match P (s\<lparr>is_ISISPathsISO := x\<rparr>) = flags_match P s" "flags_match P (s\<lparr>is_clns := y\<rparr>) = flags_match P s" for P
    by (simp_all add: flags_match_def n_if_def net_def flag_def queue_def)
  moreover have "db (s\<lparr>is_ISISPathsISO := x\<rparr>) = db s" "lsp_id (s\<lparr>is_ISISPathsISO := x\<rparr>) = lsp_id s" "db (s\<lparr>is_clns := y\<rparr>) = db s" "lsp_id (s\<lparr>is_clns := y\<rparr>) = lsp_id s"
    by (simp_all add: db_def lsp_id_def rec_lsp_def fun_eq_iff)
  ultimately show "hello_inv (s\<lparr>is_ISISPathsISO := x\<rparr>) = hello_inv s" "hello_inv (s\<lparr>is_clns := y\<rparr>) = hello_inv s"
    by (simp_all add: hello_inv_def isis_inv_def ids_ok_def adjs_ok_def sizes_ok_def)
qed

lemma fullSPF_hello_inv:
  assumes "hello_inv s" and "fullSPF srt l s = Some s'"
  shows "hello_inv s'"
proof -
  have c: "hello_inv s1 \<Longrightarrow> hello_inv (setClosestAtt s1)" for s1
    using hello_step_att(2) [of s1] by (auto simp: setClosestAtt_def hello_step_def split: option.split)
  show ?thesis using assms by (auto simp: fullSPF_def Let_def hello_inv_spf_fields intro!: c split: bind_splits)
qed

lemma hello_conf: "hello_inv s \<Longrightarrow> run_ok m (kept_conf s) \<Longrightarrow> run_ok m hello_inv"
  by (erule run_ok_mono) (rule kept_conf_hello)

lemma hello_kept: "hello_inv s \<Longrightarrow> run_ok m (lsps_kept s) \<Longrightarrow> run_ok m hello_inv"
  by (rule hello_conf) (auto dest: run_kept_mono)

lemma hello_hello: "run_ok m (hello_step s) \<Longrightarrow> run_ok m hello_inv"
  by (erule run_ok_mono) (simp add: hello_step_def)

lemma run_on_levels:
  assumes "isis_inv s"
    and "on_level (is_isType s) L1_TYPE \<Longrightarrow> run_ok (f L1_TYPE s) (kept_conf s)"
    and "\<And>s1. on_level (is_isType s) L2_TYPE \<Longrightarrow> isis_inv s1 \<Longrightarrow>
      (if on_level (is_isType s) L1_TYPE then f L1_TYPE s else Some s) = Some s1 \<Longrightarrow> run_ok (f L2_TYPE s1) (kept_conf s1)"
  shows "run_ok (on_levels f s) (kept_conf s)"
proof -
  let ?m = "if on_level (is_isType s) L1_TYPE then f L1_TYPE s else Some s"
  have "run_ok ?m (kept_conf s)" using assms(1,2) by (simp add: kept_conf_def)
  then obtain s1 where s1: "?m = Some s1" "kept_conf s s1" by (auto simp: run_ok_ex)
  then have t: "is_isType s1 = is_isType s" "isis_inv s1" by (simp_all add: kept_conf_def)
  have "run_ok (if on_level (is_isType s1) L2_TYPE then f L2_TYPE s1 else Some s1) (kept_conf s)"
  proof (cases "on_level (is_isType s) L2_TYPE")
    case True
    then show ?thesis using run_ok_mono [OF assms(3) [OF True t(2) s1(1)]] kept_conf_trans [OF s1(2)] by (simp add: t(1))
  qed (simp add: s1(2) t(1))
  then show ?thesis unfolding on_levels_def s1(1) by simp
qed

lemma timer_handle_ok:
  assumes inv: "hello_inv s" and ok: "isis_timer_ok env t s"
  shows "run_ok (isis_timer_handle env t s) hello_inv"
proof -
  have i: "isis_inv s" using inv by (simp add: hello_inv_def)
  show ?thesis
  proof (cases t)
    case (HELLO_TIMER n g ct)
    then show ?thesis using ok inv by (auto simp: isis_timer_handle_def isis_timer_ok_def intro!: hello_hello run_sendHelloMsg)
  next
    case (NEIGHBOUR_DEAD nt)
    then show ?thesis using ok inv by (auto simp: isis_timer_handle_def isis_timer_ok_def intro!: hello_hello run_removeDeadNeighbour)
  next
    case GENERATE_LSP_TIMER
    then have ok1: "on_level (is_isType s) L1_TYPE \<Longrightarrow> generate_ok L1_TYPE s"
      and ok2: "on_level (is_isType s) L2_TYPE \<Longrightarrow>
        (if on_level (is_isType s) L1_TYPE then generateLSP (ie_now env) L1_TYPE s else Some s) = Some s1 \<Longrightarrow> generate_ok L2_TYPE s1" for s1
      using ok by (simp_all add: isis_timer_ok_def split: if_splits)
    have "run_ok (on_levels (generateLSP (ie_now env)) s) (kept_conf s)"
      by (rule run_on_levels [OF i]) (use ok1 ok2 i in \<open>auto intro!: run_generateLSP\<close>)
    then show ?thesis using GENERATE_LSP_TIMER hello_conf [OF inv] by (simp add: isis_timer_handle_def)
  next
    case LSP_REFRESH
    have "run_ok (on_levels (refreshLSP (ie_now env)) s) (kept_conf s)"
      by (rule run_on_levels [OF i]) (use i in \<open>auto intro!: run_kept_mono run_refreshLSP\<close>)
    then show ?thesis using LSP_REFRESH hello_conf [OF inv] by (simp add: isis_timer_handle_def)
  next
    case (LSP_TIMER k v l)
    then show ?thesis using hello_kept [OF inv run_purge_mem [OF i]] hello_conf [OF inv run_deleteLSP [OF i]]
      by (cases k) (simp_all add: isis_timer_handle_def)
  next
    case (CSNP_TIMER n g ct)
    then show ?thesis using ok inv hello_kept [OF inv run_sendCsnp [OF i]] by (cases ct) (simp_all add: isis_timer_handle_def isis_timer_ok_def)
  next
    case (PSNP_TIMER n g ct)
    have "run_ok (sendPsnp n g l s) hello_inv" if "n < n_if s" for l
      by (rule hello_kept [OF inv], rule run_ok_mono [OF run_sendPsnp [OF i that]]) simp
    then show ?thesis using PSNP_TIMER ok inv by (cases ct) (simp_all add: isis_timer_handle_def isis_timer_ok_def)
  next
    case (PERIODIC_SEND l)
    have "run_ok (periodicSend (ie_now env) l (ie_draw env) s) hello_inv" if "draw_ok (ie_draw env)"
      by (rule hello_kept [OF inv], rule run_ok_mono [OF run_periodicSend [OF i that]]) (simp add: sends_def)
    then show ?thesis using PERIODIC_SEND ok by (simp add: isis_timer_handle_def isis_timer_ok_def)
  next
    case (SPF_FULL l)
    then obtain cs where "l = L1_TYPE" "path_sorter (ie_sort env)" "extractISO L1_TYPE s = Some cs" "lsdb_ok s L1_TYPE" "length cs \<le> 2 ^ 24" "gates_ok s"
      using ok by (auto simp: isis_timer_ok_def)
    then obtain s' where "fullSPF (ie_sort env) l s = Some s'" using fullSPF_runs [of "ie_sort env" s cs] by blast
    then show ?thesis using SPF_FULL fullSPF_hello_inv [OF inv] by (simp add: isis_timer_handle_def)
  qed
qed

theorem isis_handle_ok:
  assumes inv: "hello_inv s" and ok: "isis_event_ok env ev s"
  shows "run_ok (isis_handle env ev s) hello_inv"
proof (cases ev)
  case (Timer t)
  then show ?thesis using ok timer_handle_ok [OF inv] by (simp add: isis_handle_def isis_event_ok_def)
next
  case (Message idLength maxAreas m mac g)
  have i: "isis_inv s" using inv by (simp add: hello_inv_def)
  show ?thesis
  proof (cases "isMessageOK idLength maxAreas \<and> gate_ok g s")
    case False
    then show ?thesis using inv Message by (auto simp: isis_handle_def gate_ok_def split: option.split)
  next
    case True
    then have m: "msg_ok m g s" and g: "gate_ok g s" using ok Message by (simp_all add: isis_event_ok_def gate_ok_def)
    have "run_ok (isis_msg_handle env ct m mac g s) hello_inv" for ct
    proof (cases m)
      case (Msg_LAN_Hello h)
      then show ?thesis using m inv hello_hello [OF run_handleL1HelloMsg [OF inv]] hello_hello [OF run_handleL2HelloMsg [OF inv]]
        by (simp add: isis_msg_handle_def msg_ok_def split: level.split)
    next
      case (Msg_PTP_Hello h)
      then show ?thesis using m inv hello_hello [OF run_handlePTPHelloMsg [OF inv]] by (simp add: isis_msg_handle_def msg_ok_def)
    next
      case (Msg_LSP l lsp)
      then show ?thesis using m inv hello_conf [OF inv run_handleLsp [OF i g]] by (simp add: isis_msg_handle_def msg_ok_def)
    next
      case (Msg_CSNP l src start endId ts)
      then show ?thesis using m inv hello_conf [OF inv run_handleCsnp [OF i g]] by (simp add: isis_msg_handle_def msg_ok_def)
    next
      case (Msg_PSNP l src ts)
      then show ?thesis using m inv hello_conf [OF inv run_handlePsnp [OF i g]] by (simp add: isis_msg_handle_def msg_ok_def)
    qed
    then show ?thesis using Message True by (auto simp: isis_handle_def gate_ok_def)
  qed
qed

section \<open>Reachable states\<close>

text \<open>The module after its configuration: interfaces with this system as designated one, empty tables and queues.\<close>

definition isis_start :: "isis \<Rightarrow> bool" where
  "isis_start s \<longleftrightarrow> sizes_ok s \<and> (\<forall>l. is_adjTable s l = [] \<and> is_LSPDb s l = [] \<and> is_ISISPathsISO s l = None \<and>
     (\<forall>k b. flag_queues k b l s = replicate (n_if s) [])) \<and> is_clns s = [] \<and> is_out s = []"

definition isis_step_ok :: "isis_env \<times> isis_event \<Rightarrow> isis \<Rightarrow> bool" where
  "isis_step_ok = (\<lambda>(env, ev). isis_event_ok env ev)"

definition isis_step :: "isis_env \<times> isis_event \<Rightarrow> isis \<Rightarrow> isis option" where
  "isis_step = (\<lambda>(env, ev). isis_handle env ev)"

definition isis_reachable :: "isis \<Rightarrow> bool" where
  "isis_reachable = reaches isis_start isis_step_ok isis_step"

lemma isis_start_inv: "isis_start s \<Longrightarrow> hello_inv s"
  by (simp add: isis_start_def hello_inv_def isis_inv_def flags_match_def ids_ok_def adjs_ok_def db_def queue_def)

interpretation isis: event_machine isis_start isis_step_ok isis_step hello_inv
proof
  show "\<exists>s'. isis_step e s = Some s' \<and> hello_inv s'" if "hello_inv s" "isis_step_ok e s" for s e
    using isis_handle_ok [OF that(1), of "fst e" "snd e"] that(2) by (simp add: isis_step_ok_def isis_step_def run_ok_ex case_prod_unfold)
qed (rule isis_start_inv)

end
