(* ===== verification/Isis_Properties.thy ===== *)
theory Isis_Properties
  imports Isis_Machine
begin

text \<open>
  The properties of the update process, of the LSPs a system makes, of its adjacencies and of the IS-IS module as a
  whole, with the example system of the shortest path theories, which has point-to-point links to systems 2 and 3.
\<close>

section \<open>The bytes of an entry\<close>

lemma unat_drop: "unat (drop_bit n (w :: 'a::len word)) = unat w div 2 ^ n"
proof -
  have "take_bit LENGTH('a) (unat w) = unat w" by (simp add: take_bit_nat_eq_self)
  then show ?thesis by (simp only: unsigned_drop_bit_eq) (simp add: drop_bit_eq_div)
qed

lemma unat_byte: "unat (ucast (drop_bit n w) :: u8) = unat w div 2 ^ n mod 256"
  by (simp only: unsigned_ucast_eq unat_drop take_bit_eq_mod) simp

lemma unat_byte_0: "unat (ucast w :: u8) = unat w mod 256"
  by (simp add: unsigned_ucast_eq take_bit_eq_mod)

lemma read_life:
  fixes r :: u16
  shows "of_nat (unat (ucast (drop_bit 8 r) :: u8) * 255 + unat (ucast r :: u8)) = r \<longleftrightarrow> r < 256"
proof -
  define x where "x = unat r"
  have x: "x < 65536" using unsigned_less [of r, where ?'a = nat] by (simp add: x_def)
  have d: "x div 256 mod 256 = x div 256" using x by simp
  have b: "unat (ucast (drop_bit 8 r) :: u8) * 255 + unat (ucast r :: u8) = x div 256 * 255 + x mod 256"
    by (simp add: unat_byte_0 unat_drop x_def [symmetric] d)
  have s: "x div 256 * 255 + x mod 256 < 2 ^ 16" using x by (simp add: algebra_simps)
  have "of_nat (x div 256 * 255 + x mod 256) = r \<longleftrightarrow> x div 256 * 255 + x mod 256 = x"
  proof -
    have "of_nat (x div 256 * 255 + x mod 256) = r \<longleftrightarrow> unat (of_nat (x div 256 * 255 + x mod 256) :: u16) = x"
      by (simp add: x_def word_unat_eq_iff)
    also have "unat (of_nat (x div 256 * 255 + x mod 256) :: u16) = x div 256 * 255 + x mod 256"
      using s by (simp only: unsigned_of_nat) (simp add: take_bit_nat_eq_self)
    finally show ?thesis .
  qed
  also have "\<dots> \<longleftrightarrow> x div 256 = 0" using div_mult_mod_eq [of x 256] by linarith
  also have "\<dots> \<longleftrightarrow> x < 256" by (simp add: div_eq_0_iff)
  also have "\<dots> \<longleftrightarrow> r < 256" by (simp add: x_def word_less_nat_alt)
  finally show ?thesis unfolding b .
qed

definition read_seq :: "u64 \<Rightarrow> nat" where
  "read_seq n = unat (ucast (drop_bit 24 n) :: u8) * 255 * 255 * 255 + unat (ucast (drop_bit 16 n) :: u8) * 255 * 255 +
     unat (ucast (drop_bit 8 n) :: u8) * 255 + unat (ucast n :: u8)"

lemma read_seq_bytes:
  "read_seq n = unat n div 16777216 mod 256 * 16581375 + unat n div 65536 mod 256 * 65025 + unat n div 256 mod 256 * 255 + unat n mod 256"
  unfolding read_seq_def unat_byte_0 by (simp add: unat_drop)

lemma read_seq_small: "read_seq n < 4294967296"
proof -
  have "unat n div k mod 256 \<le> 255" "unat n mod 256 \<le> 255" for k using pos_mod_bound [of 256] by (simp_all add: less_Suc_eq_le [symmetric])
  from this(1) [of 16777216] this(1) [of 65536] this(1) [of 256] this(2) show ?thesis unfolding read_seq_bytes by linarith
qed

lemma read_seq_less_256: "n < 256 \<Longrightarrow> read_seq n = unat n"
  by (simp add: read_seq_bytes word_less_nat_alt)

lemma bytes_of_nat:
  "(x::nat) = x div 16777216 * 16777216 + x div 65536 mod 256 * 65536 + x div 256 mod 256 * 256 + x mod 256"
proof -
  have "x div 65536 = x div 256 div 256" "x div 16777216 = x div 65536 div 256" by (simp_all add: div_mult2_eq [symmetric])
  then show ?thesis using div_mult_mod_eq [of x 256] div_mult_mod_eq [of "x div 256" 256] div_mult_mod_eq [of "x div 65536" 256] by linarith
qed

lemma low_bytes:
  fixes x :: nat
  shows "x mod 4294967296 div 16777216 = x div 16777216 mod 256" "x mod 4294967296 div 65536 mod 256 = x div 65536 mod 256"
    "x mod 4294967296 div 256 mod 256 = x div 256 mod 256" "x mod 4294967296 mod 256 = x mod 256"
proof -
  have m: "x mod (a * b) div a = x div a mod b" if "0 < a" for a b :: nat using that by (simp add: mod_mult2_eq)
  show "x mod 4294967296 div 16777216 = x div 16777216 mod 256" using m [of 16777216 256] by simp
  have "x mod 4294967296 div 65536 = x div 65536 mod 65536" using m [of 65536 65536] by simp
  then show "x mod 4294967296 div 65536 mod 256 = x div 65536 mod 256" by (simp add: mod_mod_cancel)
  have "x mod 4294967296 div 256 = x div 256 mod 16777216" using m [of 256 16777216] by simp
  then show "x mod 4294967296 div 256 mod 256 = x div 256 mod 256" by (simp add: mod_mod_cancel)
  show "x mod 4294967296 mod 256 = x mod 256" by (simp add: mod_mod_cancel)
qed

lemma read_seq_eq:
  assumes "read_seq n = unat n mod 4294967296"
  shows "read_seq n < 256"
proof -
  define x where "x = unat n mod 4294967296"
  have "x = unat n div 16777216 mod 256 * 16777216 + unat n div 65536 mod 256 * 65536 + unat n div 256 mod 256 * 256 + unat n mod 256"
    using bytes_of_nat [of x] low_bytes [of "unat n"] by (simp only: x_def)
  then have "unat n div 16777216 mod 256 = 0" "unat n div 65536 mod 256 = 0" "unat n div 256 mod 256 = 0"
    using assms unfolding x_def [symmetric] read_seq_bytes by linarith+
  then show ?thesis unfolding read_seq_bytes by simp
qed

lemma scast_small: "d < 2 ^ 31 \<Longrightarrow> (scast (of_nat d :: 32 word) :: u64) = of_nat d"
proof -
  assume d: "d < 2 ^ 31"
  have "sint (of_nat d :: 32 word) = signed_take_bit 31 (int d)" by (simp add: signed_of_nat)
  also have "\<dots> = int d" using d by (intro signed_take_bit_int_eq_self) simp_all
  finally show ?thesis by (metis of_int_of_nat_eq of_int_sint)
qed

lemma ucast_scast_32: "(ucast (scast (x :: 32 word) :: u64) :: 32 word) = x"
  by (rule bit_word_eqI) (simp add: bit_simps)

lemma read_number: "(scast (of_nat (read_seq n) :: 32 word) :: u64) = n \<longleftrightarrow> n < 256"
proof
  assume eq: "(scast (of_nat (read_seq n) :: 32 word) :: u64) = n"
  have "(ucast n :: 32 word) = of_nat (read_seq n)" using ucast_scast_32 [of "of_nat (read_seq n)"] by (simp only: eq)
  then have "unat (ucast n :: 32 word) = read_seq n" using read_seq_small [of n] unat_of_nat_u32 [of "read_seq n"] by simp
  moreover have "unat (ucast n :: 32 word) = unat n mod 4294967296" by (simp add: unsigned_ucast_eq take_bit_eq_mod)
  ultimately have small: "read_seq n < 256" using read_seq_eq [of n] by simp
  then have n: "n = of_nat (read_seq n)" using eq scast_small [of "read_seq n"] by simp
  have "unat (of_nat (read_seq n) :: u64) = read_seq n" using small by (simp add: unsigned_of_nat take_bit_nat_eq_self)
  then have "unat n < 256" using small n by simp
  then show "n < 256" by (simp add: word_less_nat_alt)
next
  assume n: "n < 256"
  then have "read_seq n = unat n" "unat n < 256" using read_seq_less_256 by (simp_all add: word_less_nat_alt)
  then show "(scast (of_nat (read_seq n) :: 32 word) :: u64) = n" using scast_small [of "unat n"] by simp
qed

section \<open>The example system\<close>

lemma demo_level: "is_LSPDb demo_isis l = (if l = L1_TYPE then [0, 1, 2] else [])"
  by (simp add: demo_isis_def)

lemma demo_id: "lsp_id demo_isis p = demo_sys (if p = 0 then 1 else if p = 1 then 2 else 3) @ [0, 0]"
  by (simp add: lsp_id_def rec_lsp_def demo_isis_def demo_rec_def demo_lsp_def)

lemma demo_flag: "flags_of k (is_heap demo_isis p) = [False, False]"
  by (cases k) (simp_all add: flags_of_def demo_isis_def demo_rec_def)

lemma demo_queues: "flag_queues k b l demo_isis = [[], []]"
  by (cases k) (simp_all add: flag_queues_def demo_isis_def)

lemma demo_n_if [simp]: "n_if demo_isis = 2"
  by (simp add: n_if_def demo_isis_def)

lemma demo_inv: "isis_inv demo_isis"
proof -
  have d: "db demo_isis l = (if l = L1_TYPE then {0, 1, 2} else {})" for l by (auto simp: db_def demo_level)
  have "i < 2 \<Longrightarrow> flag k demo_isis p i = False" "i < 2 \<Longrightarrow> queue k l demo_isis i = []" for k p i l
    by (auto simp: flag_def queue_def demo_flag demo_queues less_2_cases_iff)
  then have "flags_match (db demo_isis) demo_isis"
    by (auto simp: flags_match_def d demo_flag demo_queues less_2_cases_iff split: if_splits)
  moreover have "ids_ok demo_isis" by (auto simp: ids_ok_def d demo_level demo_id inj_on_def) (simp_all add: demo_isis_def demo_sys_def)
  ultimately show ?thesis by (simp add: isis_inv_def)
qed

lemma demo_hello_inv: "hello_inv demo_isis"
  using demo_inv by (simp add: hello_inv_def adjs_ok_def sizes_ok_def) (simp add: demo_isis_def demo_adj_def adj_id_def demo_if_def)

lemma demo_gate: "gate_ok 0 demo_isis" "getIfaceIndex 0 demo_isis = 0" "getIfaceIndex 1 demo_isis = 1"
  by (simp_all add: gate_ok_def getIfaceByGateIndex_def getIfaceIndex_def demo_isis_def demo_if_def)

section \<open>The whole module\<close>

text \<open>C4: The IS-IS module gets never stuck: from a configured module, every sequence of timers and messages that
  \<open>isis_step_ok\<close> admits, hellos, LSPs, sequence number packets, the level 1 shortest path computation and the rest, is
  handled to its end, none of the loops runs for ever, and the state is again a reachable one. \<open>isis_step_ok\<close> lists, event
  by event, what is left out: the level 2 shortest path computation, level 1 computations on databases whose LSPs cannot
  be read or have more than 2 to the power of 24 connections, the timers of neighbours for which the removal does not
  end (a theorem below says for which it does), systems with too many neighbours for one LSP or one hello, complete
  sequence number packets whose range selects records that are deleted, and messages with ill-formed TLVs.\<close>

theorem isis_never_stuck:
  assumes "isis_reachable s" and "ok_all isis_step_ok isis_step evs s"
  shows "\<exists>s'. handle_all isis_step evs s = Some s' \<and> isis_reachable s'"
  using isis.run_not_stuck assms by (simp add: isis_reachable_def)

definition demo_isis_env :: isis_env where
  "demo_isis_env = \<lparr>ie_now = sec 10, ie_rnd = (\<lambda>_. 0), ie_draw = (\<lambda>i n. 0), ie_mem = (\<lambda>_. 0), ie_addr = (\<lambda>p. p), ie_sort = insertion_sort_paths\<rparr>"

definition demo_isis_start :: isis where
  "demo_isis_start = demo_isis\<lparr>is_adjTable := (\<lambda>_. []), is_LSPDb := (\<lambda>_. [])\<rparr>"

definition demo_ptp_hello :: ptp_hello where
  "demo_ptp_hello = \<lparr>ph_circuitType = Only L1_TYPE, ph_sourceID = demo_sys 2, ph_holdTime = 30,
     ph_TLV = [\<lparr>tlv_type = AREA_ADDRESS, tlv_length = 4, tlv_value = [3, 0, 0, 1]\<rparr>, \<lparr>tlv_type = PTP_HELLO_STATE, tlv_length = 1, tlv_value = [PTP_INIT]\<rparr>]\<rparr>"

definition demo_events :: "(isis_env \<times> isis_event) list" where
  "demo_events = map (Pair demo_isis_env) [Message 0 0 (Msg_PTP_Hello demo_ptp_hello) 2 0, Message 0 0 (Msg_PTP_Hello demo_ptp_hello) 2 0,
     Message 0 0 (Msg_LSP L1_TYPE (demo_lsp 2 [(1, 10)])) 2 0, Timer LSP_REFRESH, Timer (PERIODIC_SEND L1_TYPE)]"

lemma demo_start_start: "isis_start demo_isis_start"
proof -
  have "flag_queues k b l demo_isis_start = replicate (n_if demo_isis_start) []" for k b l
    by (cases k) (simp_all add: flag_queues_def demo_isis_start_def demo_isis_def n_if_def numeral_2_eq_2)
  then show ?thesis by (simp add: isis_start_def sizes_ok_def) (simp add: demo_isis_start_def demo_isis_def demo_if_def)
qed

lemma demo_isis_reachable: "isis_reachable demo_isis_start"
  unfolding isis_reachable_def by (rule reaches_start) (rule demo_start_start)

lemma demo_events_ok: "ok_all isis_step_ok isis_step demo_events s"
proof -
  have "draw_ok (ie_draw demo_isis_env)" by (simp add: draw_ok_def demo_isis_env_def)
  moreover have "ptp_ok demo_ptp_hello" by (simp add: ptp_ok_def demo_ptp_hello_def)
  moreover have "length (lp_lspID (demo_lsp 2 [(1, 10)])) = 8" by (simp add: demo_lsp_def demo_sys_def)
  ultimately show ?thesis
    by (simp add: demo_events_def isis_step_ok_def isis_event_ok_def msg_ok_def isis_timer_ok_def split: option.split)
qed

theorem isis_never_stuck_witness: "\<exists>s'. handle_all isis_step demo_events demo_isis_start = Some s' \<and> isis_reachable s'"
  by (rule isis_never_stuck [OF demo_isis_reachable demo_events_ok])

text \<open>C10: In every reachable state a record's flag for an interface is set exactly when the record waits in the queue of
  that interface, where it waits once; no record is in the databases of both levels and no LSP id has two records;
  there is one adjacency for a system id, MAC address and gate, and those of level 1 are in this system's area.\<close>

theorem isis_reachable_invariant:
  assumes "isis_reachable s"
  shows "(\<forall>k l i p. i < n_if s \<and> p \<in> db s l \<longrightarrow> (flag k s p i \<longleftrightarrow> \<lparr>fr_lspRec = p, fr_index = i\<rparr> \<in> set (queue k l s i)) \<and> distinct (queue k l s i)) \<and>
    db s L1_TYPE \<inter> db s L2_TYPE = {} \<and>
    (\<forall>l. distinct (map (lsp_id s) (is_LSPDb s l)) \<and> distinct (map adj_id (is_adjTable s l))) \<and>
    (\<forall>a\<in>set (is_adjTable s L1_TYPE). take 3 (ad_areaID a) = take 3 (is_areaId s))"
proof (intro conjI)
  have h: "hello_inv s" using assms isis.reaches_inv by (simp add: isis_reachable_def)
  then have inv: "isis_inv s" by (simp add: hello_inv_def)
  show "\<forall>k l i p. i < n_if s \<and> p \<in> db s l \<longrightarrow> (flag k s p i \<longleftrightarrow> \<lparr>fr_lspRec = p, fr_index = i\<rparr> \<in> set (queue k l s i)) \<and> distinct (queue k l s i)"
    using in_queue [OF inv] inv_queues(3) [OF inv] by simp
  have "p \<in> db s L1_TYPE \<Longrightarrow> p \<in> db s L2_TYPE \<Longrightarrow> L1_TYPE = L2_TYPE" for p using inv unfolding isis_inv_def flags_match_def by blast
  then show "db s L1_TYPE \<inter> db s L2_TYPE = {}" by auto
  have "distinct (map (lsp_id s) (is_LSPDb s l))" for l using inv by (simp add: isis_inv_def ids_ok_def distinct_map db_def)
  then show "\<forall>l. distinct (map (lsp_id s) (is_LSPDb s l)) \<and> distinct (map adj_id (is_adjTable s l))"
    using h by (simp add: hello_inv_def adjs_ok_def)
  show "\<forall>a\<in>set (is_adjTable s L1_TYPE). take 3 (ad_areaID a) = take 3 (is_areaId s)"
    using h by (simp add: hello_inv_def adjs_ok_def)
qed

theorem isis_reachable_invariant_witness:
  "\<exists>s'. handle_all isis_step demo_events demo_isis_start = Some s' \<and> (\<forall>l. distinct (map (lsp_id s') (is_LSPDb s' l))) \<and> db s' L1_TYPE \<inter> db s' L2_TYPE = {}"
proof -
  obtain s' where "handle_all isis_step demo_events demo_isis_start = Some s'" "isis_reachable s'"
    using isis.run_not_stuck [of demo_isis_start demo_events] demo_isis_reachable demo_events_ok by (auto simp: isis_reachable_def)
  then show ?thesis using isis_reachable_invariant by blast
qed

section \<open>The update process\<close>

lemma up_of_msg: "isAdjUp_msg b v mac g l s \<Longrightarrow> gate_ok g s \<Longrightarrow> up l s (getIfaceIndex g s)"
proof -
  assume a: "isAdjUp_msg b v mac g l s" and g: "gate_ok g s"
  have "find (\<lambda>i. ii_gateIndex i = g) (is_ISISIft s) = Some (is_ISISIft s ! getIfaceIndex g s)"
    using gate_ok_at(4) [OF g] by (simp add: getIfaceByGateIndex_def)
  then have "ii_gateIndex (is_ISISIft s ! getIfaceIndex g s) = g" by (auto dest: find_Some_in)
  then show ?thesis using a by (auto simp: up_def isUp_def isAdjUp_msg_def)
qed

text \<open>C16: An LSP that is new to this system, from a neighbour it is adjacent to, enters the database as it is, is marked to
  be sent on exactly the other interfaces with an adjacency that is up, and on a point-to-point link to be
  acknowledged to the neighbour.\<close>

theorem isis_new_lsp_flooded:
  assumes "isis_inv s" and "gate_ok g s" and "isAdjUp_msg True (lp_lspID lsp) mac g l s" and "lp_remLifeTime lsp \<noteq> 0"
    and "\<not> compareArrays (lp_lspID lsp) (is_sysId s) 6" and "length (lp_lspID lsp) = 8" and "getLSPFromDbByID (lp_lspID lsp) l s = None"
  shows "\<exists>s'. handleLsp now lsp mac g l s = Some s' \<and> is_LSPDb s' l = is_LSPDb s l @ [is_next s] \<and> rec_lsp s' (is_next s) = lsp \<and>
    (\<forall>i<n_if s. flag SRM s' (is_next s) i = (i \<noteq> getIfaceIndex g s \<and> up l s i) \<and>
      flag SSN s' (is_next s) i = (i = getIfaceIndex g s \<and> \<not> net s i))"
proof -
  have "run_ok (installLSP now lsp (Some g) l s) (installed l lsp (install_flags (Some g) l s) s)"
    using assms gate_ok_at(2) by (intro run_installLSP) (simp_all add: new_id_def)
  then obtain s' where s': "installLSP now lsp (Some g) l s = Some s'" "installed l lsp (install_flags (Some g) l s) s s'"
    by (auto simp: run_ok_ex)
  have "handleLsp now lsp mac g l s = Some s'" using assms s'(1) by (simp add: handleLsp_def)
  then show ?thesis using s'(2) up_of_msg [OF assms(3,2)] by (auto simp: installed_def install_flags_def Let_def)
qed

definition demo_new :: lsp_packet where
  "demo_new = demo_lsp 4 [(2, 10)]"

theorem isis_new_lsp_flooded_witness:
  "\<exists>s'. handleLsp 0 demo_new 2 0 L1_TYPE demo_isis = Some s' \<and> is_LSPDb s' L1_TYPE = [0, 1, 2, 3] \<and> flag SSN s' 3 0 \<and> flag SRM s' 3 1"
proof -
  have "\<not> compareArrays (lp_lspID demo_new) (is_sysId demo_isis) 6" "length (lp_lspID demo_new) = 8" "lp_remLifeTime demo_new \<noteq> 0"
    "isAdjUp_msg True (lp_lspID demo_new) 2 0 L1_TYPE demo_isis" "getLSPFromDbByID (lp_lspID demo_new) L1_TYPE demo_isis = None"
    by (simp_all add: demo_new_def demo_lsp_def demo_isis_def demo_sys_def compareArrays_def isAdjUp_msg_def demo_adj_def getLSPFromDbByID_def rec_lsp_def demo_rec_def)
  from isis_new_lsp_flooded [OF demo_inv demo_gate(1) this(4,3,1,2,5), of 0]
  obtain s' where s': "handleLsp 0 demo_new 2 0 L1_TYPE demo_isis = Some s'" "is_LSPDb s' L1_TYPE = is_LSPDb demo_isis L1_TYPE @ [is_next demo_isis]"
    "\<forall>i<n_if demo_isis. flag SRM s' (is_next demo_isis) i = (i \<noteq> getIfaceIndex 0 demo_isis \<and> up L1_TYPE demo_isis i) \<and>
      flag SSN s' (is_next demo_isis) i = (i = getIfaceIndex 0 demo_isis \<and> \<not> net demo_isis i)" by blast
  have "is_next demo_isis = 3" "up L1_TYPE demo_isis 1" "\<not> net demo_isis 0" by (simp_all add: demo_isis_def up_def isUp_def net_def demo_if_def demo_adj_def)
  then show ?thesis using s' by (simp add: demo_gate demo_level)
qed

text \<open>C17: The periodic sending. Every LSP marked for a point-to-point link is sent on it, up to date, and stays marked
  until it is acknowledged; of the LSPs waiting for a LAN one is sent and leaves the queue; all others keep waiting.\<close>

theorem isis_lsp_sent:
  assumes "isis_inv s" and "draw_ok draw"
  shows "\<exists>s' out. periodicSend now l draw s = Some s' \<and> is_out s' = is_out s @ out \<and> isis_inv s' \<and>
    (\<forall>p\<in>db s l. \<forall>i<n_if s. \<not> net s i \<and> flag SRM s p i \<longrightarrow> lsp_sent now s \<lparr>fr_lspRec = p, fr_index = i\<rparr> \<in> set out \<and> flag SRM s' p i) \<and>
    (\<forall>i<n_if s. net s i \<and> queue SRM l s i \<noteq> [] \<longrightarrow>
      (\<exists>r. r \<in> set (queue SRM l s i) \<and> lsp_sent now s r \<in> set out \<and> set (queue SRM l s' i) = set (queue SRM l s i) - {r}))"
proof -
  obtain s' where s': "periodicSend now l draw s = Some s'" "sends now s (periodic_out now l draw s) s'"
    "\<And>k p i. i < n_if s \<Longrightarrow> flag k s' p i = (flag k s p i \<and> \<not> (k = SRM \<and> \<lparr>fr_lspRec = p, fr_index = i\<rparr> \<in> set (drawn l draw s i)))"
    using run_periodicSend [OF assms, of now l] unfolding run_ok_ex by blast
  have k: "lsps_kept s s'" and out: "is_out s' = is_out s @ periodic_out now l draw s" using s'(2) by (simp_all add: sends_def)
  have inv': "isis_inv s'" "n_if s' = n_if s" "db s' = db s" using k kept_derived(1) [OF kept_kept_conf [OF k]] by (auto simp: kept_db)
  have ptp: "lsp_sent now s \<lparr>fr_lspRec = p, fr_index = i\<rparr> \<in> set (periodic_out now l draw s) \<and> flag SRM s' p i"
    if "p \<in> db s l" "i < n_if s" "\<not> net s i" "flag SRM s p i" for p i
  proof -
    have "\<lparr>fr_lspRec = p, fr_index = i\<rparr> \<in> set (concat (is_SRMPTPQueue s l))" unfolding ptp_queues [OF assms(1)] using that by simp
    then have "lsp_sent now s \<lparr>fr_lspRec = p, fr_index = i\<rparr> \<in> set (periodic_out now l draw s)" unfolding periodic_out_def set_append set_map by blast
    then show ?thesis using s'(3) [OF that(2), of SRM p] that by (simp add: drawn_def)
  qed
  have lan: "\<exists>r. r \<in> set (queue SRM l s i) \<and> lsp_sent now s r \<in> set (periodic_out now l draw s) \<and> set (queue SRM l s' i) = set (queue SRM l s i) - {r}"
    if "i < n_if s" "net s i" "queue SRM l s i \<noteq> []" for i
  proof -
    define r where "r = queue SRM l s i ! draw i (length (queue SRM l s i))"
    have r: "drawn l draw s i = [r]" using that by (simp add: drawn_def r_def)
    have "r \<in> set (queue SRM l s i)" using drawn_in [OF assms(2), of r l s i] r by simp
    moreover have "lsp_sent now s r \<in> set (periodic_out now l draw s)" using r that(1) by (auto simp: periodic_out_def intro!: bexI [of _ i])
    moreover have "x \<in> set (queue SRM l s' i) \<longleftrightarrow> x \<in> set (queue SRM l s i) \<and> x \<noteq> r" for x
    proof -
      have "x \<in> set (queue SRM l s' i) \<longleftrightarrow> fr_index x = i \<and> fr_lspRec x \<in> db s l \<and> flag SRM s' (fr_lspRec x) i"
        using in_queue [OF inv'(1), of i x SRM l] inv' that(1) by simp
      also have "\<dots> \<longleftrightarrow> x \<in> set (queue SRM l s i) \<and> x \<noteq> r"
        using in_queue [OF assms(1) that(1), of x SRM l] s'(3) [OF that(1), of SRM "fr_lspRec x"] r by (cases x) auto
      finally show ?thesis .
    qed
    ultimately show ?thesis by blast
  qed
  show ?thesis using s'(1) out inv'(1) ptp lan by blast
qed

lemma demo_flooding:
  obtains s where "handleLsp 0 demo_new 2 0 L1_TYPE demo_isis = Some s" "isis_inv s" "3 \<in> db s L1_TYPE" "n_if s = 2" "\<not> net s 1" "flag SRM s 3 1"
proof -
  have new: "new_id L1_TYPE demo_isis (lp_lspID demo_new)"
    by (simp add: new_id_def demo_new_def demo_lsp_def demo_isis_def demo_sys_def compareArrays_def getLSPFromDbByID_def rec_lsp_def demo_rec_def)
  obtain s where s: "installLSP 0 demo_new (Some 0) L1_TYPE demo_isis = Some s" "installed L1_TYPE demo_new (install_flags (Some 0) L1_TYPE demo_isis) demo_isis s"
    using run_installLSP [OF demo_inv new, of "Some 0" 0] by (auto simp: run_ok_ex)
  have "\<not> compareArrays (lp_lspID demo_new) (is_sysId demo_isis) 6" "lp_remLifeTime demo_new \<noteq> 0"
    "isAdjUp_msg True (lp_lspID demo_new) 2 0 L1_TYPE demo_isis" "up L1_TYPE demo_isis 1" "\<not> net demo_isis 1" "is_next demo_isis = 3"
    by (simp_all add: demo_new_def demo_lsp_def demo_isis_def demo_sys_def compareArrays_def isAdjUp_msg_def demo_adj_def up_def isUp_def net_def demo_if_def)
  moreover from this have "handleLsp 0 demo_new 2 0 L1_TYPE demo_isis = Some s" using s(1) new by (simp add: handleLsp_def new_id_def)
  moreover have "kept_conf demo_isis s" using s(2) by (simp add: installed_def)
  ultimately show thesis
    using s(2) that [of s] kept_derived(1,2) [of demo_isis s]
    by (auto simp: installed_def install_flags_def demo_gate db_def)
qed

theorem isis_lsp_sent_witness:
  "\<exists>s s' out. handleLsp 0 demo_new 2 0 L1_TYPE demo_isis = Some s \<and> periodicSend (sec 5) L1_TYPE (\<lambda>i n. 0) s = Some s' \<and>
    is_out s' = is_out s @ out \<and> lsp_sent (sec 5) s \<lparr>fr_lspRec = 3, fr_index = 1\<rparr> \<in> set out"
proof -
  obtain s where s: "handleLsp 0 demo_new 2 0 L1_TYPE demo_isis = Some s" "isis_inv s" "3 \<in> db s L1_TYPE" "n_if s = 2" "\<not> net s 1" "flag SRM s 3 1"
    by (rule demo_flooding)
  have "draw_ok (\<lambda>i n. 0)" by (simp add: draw_ok_def)
  from isis_lsp_sent [OF s(2) this, of "sec 5" L1_TYPE]
  obtain s' out where "periodicSend (sec 5) L1_TYPE (\<lambda>i n. 0) s = Some s'" "is_out s' = is_out s @ out"
    "\<forall>p\<in>db s L1_TYPE. \<forall>i<n_if s. \<not> net s i \<and> flag SRM s p i \<longrightarrow> lsp_sent (sec 5) s \<lparr>fr_lspRec = p, fr_index = i\<rparr> \<in> set out \<and> flag SRM s' p i"
    by blast
  moreover from this(3) have "lsp_sent (sec 5) s \<lparr>fr_lspRec = 3, fr_index = 1\<rparr> \<in> set out" using s(3-6) by fastforce
  ultimately show ?thesis using s(1) by blast
qed

text \<open>C39: A newer LSP does not keep its number: the record gets the old number plus one, whatever number was received, so
  the same LSP counts as newer again when it comes the next time. It is marked for the other interfaces.\<close>

theorem isis_received_number_lost:
  assumes "isis_inv s" and "gate_ok g s" and "isAdjUp_msg True (lp_lspID lsp) mac g l s" and "lp_remLifeTime lsp \<noteq> 0"
    and "\<not> compareArrays (lp_lspID lsp) (is_sysId s) 6" and "length (lp_lspID lsp) = 8" and "getLSPFromDbByID (lp_lspID lsp) l s = Some p"
    and "lp_seqNumber lsp > lp_seqNumber (rec_lsp s p)"
  shows "\<exists>s'. handleLsp now lsp mac g l s = Some s' \<and> rec_lsp s' p = lsp\<lparr>lp_seqNumber := lp_seqNumber (rec_lsp s p) + 1\<rparr> \<and>
    (\<forall>i<n_if s. flag SRM s' p i = (i \<noteq> getIfaceIndex g s \<and> (flag SRM s p i \<or> up l s i)))"
proof -
  have p: "p \<in> db s l" and id: "lp_lspID lsp = lsp_id s p" using getLSP_in [OF assms(7)] getLSP_id [OF assms(1,7,6)] by auto
  have "run_ok (replaceLSP now lsp (Some g) p l s) (replaced lsp (Some g) p l s)"
    using gate_ok_at [OF assms(2)] by (intro run_replaceLSP [OF assms(1) p id]) simp
  then obtain s' where s': "replaceLSP now lsp (Some g) p l s = Some s'" "replaced lsp (Some g) p l s s'" by (auto simp: run_ok_ex)
  have "handleLsp now lsp mac g l s = Some s'" using assms s'(1) by (simp add: handleLsp_def Let_def)
  then show ?thesis using s'(2) by (auto simp: replaced_def replace_flags_def Let_def)
qed

definition demo_newer :: lsp_packet where
  "demo_newer = (demo_lsp 3 [(1, 30), (2, 20)])\<lparr>lp_seqNumber := 100\<rparr>"

theorem isis_received_number_lost_witness:
  "\<exists>s'. handleLsp 0 demo_newer 2 0 L1_TYPE demo_isis = Some s' \<and> lp_seqNumber (rec_lsp s' 2) = 2 \<and> lp_seqNumber demo_newer = 100"
proof -
  have a: "\<not> compareArrays (lp_lspID demo_newer) (is_sysId demo_isis) 6" "length (lp_lspID demo_newer) = 8" "lp_remLifeTime demo_newer \<noteq> 0"
    "isAdjUp_msg True (lp_lspID demo_newer) 2 0 L1_TYPE demo_isis" "getLSPFromDbByID (lp_lspID demo_newer) L1_TYPE demo_isis = Some 2"
    and n: "lp_seqNumber (rec_lsp demo_isis 2) = 1" "lp_seqNumber demo_newer = 100"
    by (simp_all add: demo_newer_def demo_lsp_def demo_isis_def demo_sys_def compareArrays_def isAdjUp_msg_def demo_adj_def getLSPFromDbByID_def rec_lsp_def demo_rec_def)
  have "lp_seqNumber demo_newer > lp_seqNumber (rec_lsp demo_isis 2)" by (simp add: n)
  from isis_received_number_lost [OF demo_inv demo_gate(1) a(4,3,1,2,5) this, of 0] show ?thesis using n by auto
qed

text \<open>C36: An entry of a sequence number packet is read as it was written exactly when the remaining lifetime and the
  sequence number are below 256: the bytes are written in base 256 and read in base 255. An LSP with number 256 is
  acknowledged with 255, which the neighbour takes for an older one.\<close>

theorem isis_psnp_entry_read:
  assumes "length (lp_lspID p) = 8"
  shows "read_entry (entry_bytes p) 0 = Some \<lparr>sn_remLife = lp_remLifeTime p, sn_lspID = lp_lspID p, sn_seqNum = lp_seqNumber p\<rparr> \<longleftrightarrow>
    lp_remLifeTime p < 256 \<and> lp_seqNumber p < 256"
proof -
  obtain a b c d e f g h where v: "lp_lspID p = [a, b, c, d, e, f, g, h]"
    using assms by (auto simp: length_Suc_conv numeral_eq_Suc)
  have "read_entry (entry_bytes p) 0 = Some \<lparr>sn_remLife = of_nat (unat (ucast (drop_bit 8 (lp_remLifeTime p)) :: u8) * 255 + unat (ucast (lp_remLifeTime p) :: u8)),
      sn_lspID = lp_lspID p, sn_seqNum = scast (of_nat (read_seq (lp_seqNumber p)) :: 32 word)\<rparr>"
    by (simp add: read_entry_def entry_bytes_def copy_bytes_def v read_seq_def)
  then show ?thesis using read_life [of "lp_remLifeTime p"] read_number [of "lp_seqNumber p"]
    by (simp only: option.inject snp_entry.ext_inject) simp
qed

theorem isis_psnp_entry_read_witness:
  "read_entry (entry_bytes (demo_lsp 3 [])) 0 = Some \<lparr>sn_remLife = 200, sn_lspID = demo_sys 3 @ [0, 0], sn_seqNum = 1\<rparr> \<and>
   read_entry (entry_bytes ((demo_lsp 3 [])\<lparr>lp_seqNumber := 256\<rparr>)) 0 \<noteq> Some \<lparr>sn_remLife = 200, sn_lspID = demo_sys 3 @ [0, 0], sn_seqNum = 256\<rparr>"
proof -
  have 1: "length (lp_lspID (demo_lsp 3 [])) = 8" "length (lp_lspID ((demo_lsp 3 [])\<lparr>lp_seqNumber := 256\<rparr>)) = 8" by (simp_all add: demo_lsp_def demo_sys_def)
  show ?thesis using isis_psnp_entry_read [OF 1(1)] isis_psnp_entry_read [OF 1(2)] by (simp add: demo_lsp_def)
qed

section \<open>The LSPs of a system\<close>

text \<open>C11: The round trip of a system's LSP. A system with an adjacency, at most 133 neighbours and no LAN it is the
  designated system of makes one LSP; when the lifetime LSPs are made with is not zero (an LSP without lifetime left
  is not read), the shortest path computation of any other system reads from it exactly the neighbours of the first,
  with their metrics.\<close>

theorem isis_lsp_roundtrip:
  assumes "isAdjUp l a" and "filter (is_DIS l a) (is_ISISIft a) = []" and "length (own_neighbours l a) \<le> 133" and "is_lspMaxLifetime a \<noteq> 0"
    and "sizes_ok a" and "\<forall>x\<in>set (is_adjTable a l). length (ad_sysID x) = 6" and "take 6 (is_sysId a) \<noteq> take 6 (is_sysId s)"
  shows "\<exists>p. genLSP l a = Some [p] \<and> lp_lspID p = getLSPID a \<and> extract_lsp l s p = Some (map (nbr_con (getLSPID a)) (own_neighbours l a))"
proof -
  let ?p = "new_lsp l a (getLSPID a) (neighbour_tlvs (own_neighbours l a) @ [area_tlv a])"
  have len: "length (is_sysId a) = 6" "\<forall>f\<in>set (is_ISISIft a). length (ii_DIS f l) = 7" using assms(5) by (simp_all add: sizes_ok_def)
  have "genLSP l a = Some [?p]"
    using assms(1,2) put_lsps_few [OF assms(3), of l a "copy_bytes (is_sysId a) 6 0 @ [0]" 0]
    by (simp add: genLSP_def getLSPID_def copy_bytes_def)
  moreover have "length (ln_LANid n) = 7" if n: "n \<in> set (own_neighbours l a)" for n
  proof -
    obtain f where f: "f \<in> set (is_ISISIft a)" "n \<in> set (own_neighbour l a f)" using n by (auto simp: own_neighbours_def)
    then obtain x where x: "getAdjByGateIndex (ii_gateIndex f) l 0 a = Some x"
      by (cases "getAdjByGateIndex (ii_gateIndex f) l 0 a") (simp_all add: own_neighbour_def)
    then have "ln_LANid n = (if ii_network f then copy_bytes (ii_DIS f l) 7 0 else copy_bytes (ad_sysID x) 6 0 @ [0])"
      using f(2) by (auto simp: own_neighbour_def split: if_splits)
    moreover have "x \<in> set (is_adjTable a l)" using x nth_mem by (fastforce simp: getAdjByGateIndex_def vec_at_def split: if_splits)
    ultimately show ?thesis using f(1) len(2) assms(6) by simp
  qed
  then have "extract_lsp l s ?p = Some (map (nbr_con (getLSPID a)) (own_neighbours l a))"
    using assms(4,7) len(1) by (intro extract_new_lsp) (auto simp: getLSPID_def compareArrays_def nth_append)
  moreover have "lp_lspID ?p = getLSPID a" by (simp add: new_lsp_def)
  ultimately show ?thesis by blast
qed

theorem isis_lsp_roundtrip_witness:
  "\<exists>p. genLSP L1_TYPE demo_isis = Some [p] \<and> extract_lsp L1_TYPE (demo_isis\<lparr>is_sysId := demo_sys 2\<rparr>) p =
     Some [demo_con 1 2 10 NULL, demo_con 1 3 10 NULL]"
proof -
  have d: "own_neighbours L1_TYPE demo_isis = [\<lparr>ln_LANid = demo_sys 2 @ [0], ln_metric = 10\<rparr>, \<lparr>ln_LANid = demo_sys 3 @ [0], ln_metric = 10\<rparr>]"
    by (simp add: own_neighbours_def own_neighbour_def demo_isis_def demo_if_def demo_adj_def getAdjByGateIndex_def demo_sys_def copy_bytes_def)
  have "isAdjUp L1_TYPE demo_isis" "filter (is_DIS L1_TYPE demo_isis) (is_ISISIft demo_isis) = []" "is_lspMaxLifetime demo_isis \<noteq> 0"
    "\<forall>x\<in>set (is_adjTable demo_isis L1_TYPE). length (ad_sysID x) = 6" "take 6 (is_sysId demo_isis) \<noteq> take 6 (is_sysId (demo_isis\<lparr>is_sysId := demo_sys 2\<rparr>))"
    "sizes_ok demo_isis"
    by (simp_all add: isAdjUp_def demo_isis_def demo_adj_def is_DIS_def demo_if_def demo_sys_def sizes_ok_def)
  moreover have "length (own_neighbours L1_TYPE demo_isis) \<le> 133" by (simp add: d)
  moreover have "getLSPID demo_isis = demo_sys 1 @ [0, 0]" by (simp add: getLSPID_def demo_isis_def demo_sys_def)
  ultimately show ?thesis using isis_lsp_roundtrip [of L1_TYPE demo_isis "demo_isis\<lparr>is_sysId := demo_sys 2\<rparr>"]
    by (simp add: d nbr_con_def demo_con_def demo_sys_def) blast
qed

text \<open>C35: Making the LSPs of a system that has an adjacency which is up, and is the designated system of no LAN, ends
  exactly when it has fewer than 134 neighbours: the space left is not reset for the next fragment, so what does not fit into the first never fits.\<close>

theorem isis_lsp_ends_iff:
  assumes "isAdjUp l s" and "filter (is_DIS l s) (is_ISISIft s) = []"
  shows "genLSP l s \<noteq> None \<longleftrightarrow> length (own_neighbours l s) < 134"
  using assms put_lsps_few [of "own_neighbours l s" l s "copy_bytes (is_sysId s) 6 0 @ [0]" 0]
    put_lsps_many [of "own_neighbours l s" l s "copy_bytes (is_sysId s) 6 0 @ [0]" 0]
  by (cases "length (own_neighbours l s) < 134") (simp_all add: genLSP_def)

definition demo_wide :: isis where
  "demo_wide = demo_isis\<lparr>is_ISISIft := replicate 134 (demo_if 0)\<rparr>"

theorem isis_lsp_ends_iff_witness: "genLSP L1_TYPE demo_isis \<noteq> None \<and> genLSP L1_TYPE demo_wide = None"
proof -
  have one: "own_neighbour L1_TYPE demo_wide (demo_if 0) = [\<lparr>ln_LANid = demo_sys 2 @ [0], ln_metric = 10\<rparr>]"
    by (simp add: own_neighbour_def demo_wide_def demo_isis_def demo_if_def demo_adj_def getAdjByGateIndex_def demo_sys_def copy_bytes_def)
  have "length (concat (map (own_neighbour L1_TYPE demo_wide) (replicate n (demo_if 0)))) = n" for n by (induction n) (simp_all add: one)
  then have "length (own_neighbours L1_TYPE demo_wide) = 134" by (simp add: own_neighbours_def) (simp add: demo_wide_def)
  moreover have "isAdjUp L1_TYPE demo_wide" "filter (is_DIS L1_TYPE demo_wide) (is_ISISIft demo_wide) = []"
    "isAdjUp L1_TYPE demo_isis" "filter (is_DIS L1_TYPE demo_isis) (is_ISISIft demo_isis) = []"
    by (simp_all add: isAdjUp_def demo_wide_def demo_isis_def demo_adj_def is_DIS_def demo_if_def)
  moreover have "length (own_neighbours L1_TYPE demo_isis) < 134"
    by (simp add: own_neighbours_def own_neighbour_def demo_isis_def demo_if_def demo_adj_def getAdjByGateIndex_def)
  ultimately show ?thesis using isis_lsp_ends_iff [of L1_TYPE demo_wide] isis_lsp_ends_iff [of L1_TYPE demo_isis] by simp
qed

section \<open>Adjacencies\<close>

lemma electDIS_frame:
  assumes "hello_inv s" and "gate_ok g s" and "electDIS now h g s = Some s'" and "purgeable (lh_level h) (dis_lsp_id (lh_level h) (is_ISISIft s ! getIfaceIndex g s)) s"
  shows "is_adjTable s' = is_adjTable s" "map ii_mac (is_ISISIft s') = map ii_mac (is_ISISIft s)" "map ii_gateIndex (is_ISISIft s') = map ii_gateIndex (is_ISISIft s)"
    "map ii_DISpriority (is_ISISIft s') = map ii_DISpriority (is_ISISIft s)"
proof -
  have "isis_inv s" using assms(1) by (simp add: hello_inv_def)
  then have r: "run_ok (purgeRemainLSP now (dis_lsp_id (lh_level h) (is_ISISIft s ! getIfaceIndex g s)) (lh_level h) s) (lsps_kept s)"
    using assms(4) by (rule run_purge)
  show "is_adjTable s' = is_adjTable s" "map ii_mac (is_ISISIft s') = map ii_mac (is_ISISIft s)" "map ii_gateIndex (is_ISISIft s') = map ii_gateIndex (is_ISISIft s)"
    "map ii_DISpriority (is_ISISIft s') = map ii_DISpriority (is_ISISIft s)"
    using r assms(3) unfolding electDIS_eq [OF assms(2)]
    by (auto simp: run_ok_ex mod_if_def lsps_kept_def kept_conf_def map_vec_modify split: if_splits)
qed

lemma gate_mac:
  assumes "map ii_gateIndex (is_ISISIft s') = map ii_gateIndex (is_ISISIft s)" and "map ii_mac (is_ISISIft s') = map ii_mac (is_ISISIft s)"
  shows "map_option ii_mac (getIfaceByGateIndex g s') = map_option ii_mac (getIfaceByGateIndex g s)"
proof -
  have "map_option ii_mac (find (\<lambda>i. ii_gateIndex i = g) xs) = map_option ii_mac (find (\<lambda>i. ii_gateIndex i = g) ys)"
    if "map ii_gateIndex xs = map ii_gateIndex ys" "map ii_mac xs = map ii_mac ys" for xs ys
    using that
  proof (induction xs arbitrary: ys)
    case (Cons x xs)
    then show ?case by (cases ys) auto
  qed simp
  then show ?thesis using assms by (simp add: getIfaceByGateIndex_def)
qed

text \<open>C18: The two-way handshake of level 1 on a LAN. A hello from this system's area and an unknown neighbour makes one
  adjacency, which is down; a hello of a known one starts its timer again and brings it up when it lists the MAC
  address of the receiving interface, and never brings it down.\<close>

theorem isis_lan_handshake:
  assumes "hello_inv s" and "lan_ok h g s" and "lh_level h = L1_TYPE" and "\<not> checkDuplicate_lan h s" and "area_ok (lh_TLV h) (is_areaId s)"
  shows "\<exists>s'. handleL1HelloMsg now rnd h mac g s = Some s' \<and>
    (case getAdj (lh_sourceID h) mac g L1_TYPE (lh_TLV h) s of
       None \<Rightarrow> \<exists>a. mset (is_adjTable s' L1_TYPE) = add_mset a (mset (is_adjTable s L1_TYPE)) \<and>
         adj_id a = (take 6 (lh_sourceID h), mac, g) \<and> \<not> ad_state a
     | Some i \<Rightarrow> is_adjTable s' L1_TYPE = (is_adjTable s L1_TYPE)[i := (is_adjTable s L1_TYPE ! i)\<lparr>ad_due := hold_until now (lh_holdTime h) - rnd,
         ad_state := ad_state (is_adjTable s L1_TYPE ! i) \<or>
           (\<exists>t f. getTLVByType (lh_TLV h) IS_NEIGHBOURS_HELLO 0 = Some t \<and> getIfaceByGateIndex g s = Some f \<and> sees_me t (ii_mac f))\<rparr>])"
proof (cases "getAdj (lh_sourceID h) mac g L1_TYPE (lh_TLV h) s")
  case None
  let ?a = "new_adj (hold_until now (lh_holdTime h) - rnd) L1_TYPE (lh_sourceID h) (lh_sourceID h @ [0, 0]) (is_areaId s) (is_areaId s) mac g s"
  have "handleL1HelloMsg now rnd h mac g s = Some (add_adj L1_TYPE ?a s)" using assms(4,5) None by (simp add: handleL1HelloMsg_def)
  moreover have "mset (is_adjTable (add_adj L1_TYPE ?a s) L1_TYPE) = add_mset ?a (mset (is_adjTable s L1_TYPE))" by (simp add: add_adj_def)
  moreover have "\<not> ad_state ?a" by (simp add: new_adj_def)
  ultimately show ?thesis using None by (auto intro!: exI [of _ ?a])
next
  case (Some i)
  let ?xs = "is_adjTable s L1_TYPE" and ?d = "hold_until now (lh_holdTime h) - rnd"
  let ?s1 = "mod_adj L1_TYPE i (\<lambda>a. a\<lparr>ad_due := ?d\<rparr>) s"
  have i: "i < length ?xs" using getAdj_Some(1) [OF Some] .
  have g: "gate_ok g s" using assms(2) by (simp add: lan_ok_def)
  obtain f where f: "getIfaceByGateIndex g s = Some f" using g by (auto simp: gate_ok_def)
  have inv1: "hello_inv ?s1" by (rule hello_inv_mod_adj [OF assms(1)]) simp_all
  have lan1: "lan_ok h g ?s1" using assms(2) by simp
  have t1: "is_adjTable ?s1 L1_TYPE = ?xs[i := (?xs ! i)\<lparr>ad_due := ?d\<rparr>]" "is_ISISIft ?s1 = is_ISISIft s" by (simp_all add: mod_adj_def vec_modify_def)
  have "\<exists>s2. (if ad_state (?xs ! i) then electDIS now h g ?s1 else Some ?s1) = Some s2 \<and> is_adjTable s2 L1_TYPE = ?xs[i := (?xs ! i)\<lparr>ad_due := ?d\<rparr>] \<and>
    map_option ii_mac (getIfaceByGateIndex g s2) = Some (ii_mac f)"
  proof (cases "ad_state (?xs ! i)")
    case False
    have "getIfaceByGateIndex g ?s1 = Some f" using f t1(2) by (simp add: getIfaceByGateIndex_def)
    then show ?thesis using False t1(1) by simp
  next
    case True
    obtain s2 where s2: "electDIS now h g ?s1 = Some s2" using run_electDIS [OF inv1 lan1] by (auto simp: run_ok_ex)
    have "gate_ok g ?s1" "purgeable (lh_level h) (dis_lsp_id (lh_level h) (is_ISISIft ?s1 ! getIfaceIndex g ?s1)) ?s1" using lan1 by (simp_all add: lan_ok_def)
    note fr = electDIS_frame [OF inv1 this(1) s2 this(2)]
    have "map_option ii_mac (getIfaceByGateIndex g s2) = map_option ii_mac (getIfaceByGateIndex g s)"
      by (rule gate_mac) (simp_all add: fr t1(2))
    then show ?thesis using True s2 fr(1) t1(1) f by simp
  qed
  then obtain s2 f2 where s2: "(if ad_state (?xs ! i) then electDIS now h g ?s1 else Some ?s1) = Some s2" "is_adjTable s2 L1_TYPE = ?xs[i := (?xs ! i)\<lparr>ad_due := ?d\<rparr>]"
    "getIfaceByGateIndex g s2 = Some f2" "ii_mac f2 = ii_mac f" by auto
  have up: "is_adjTable (mod_adj L1_TYPE i (\<lambda>a. a\<lparr>ad_state := True\<rparr>) s2) L1_TYPE = ?xs[i := (?xs ! i)\<lparr>ad_due := ?d, ad_state := True\<rparr>]"
    using i by (simp add: mod_adj_def vec_modify_def s2(2))
  have same: "(?xs ! i)\<lparr>ad_due := ?d\<rparr> = (?xs ! i)\<lparr>ad_due := ?d, ad_state := ad_state (?xs ! i)\<rparr>" by simp
  show ?thesis
  proof (cases "getTLVByType (lh_TLV h) IS_NEIGHBOURS_HELLO 0")
    case None
    then show ?thesis using assms(4,5) Some s2 same by (simp add: handleL1HelloMsg_def Let_def)
  next
    case (Some t)
    then show ?thesis using assms(4,5) \<open>getAdj (lh_sourceID h) mac g L1_TYPE (lh_TLV h) s = Some i\<close> s2 up same f
      by (cases "sees_me t (ii_mac f)") (simp_all add: handleL1HelloMsg_def Let_def)
  qed
qed

text \<open>A LAN interface, a hello of system 2 that lists this system, and its adjacency, which is down.\<close>

definition demo_lan :: isis where
  "demo_lan = demo_isis\<lparr>is_ISISIft := [(demo_if 0)\<lparr>ii_network := True, ii_DIS := (\<lambda>_. demo_sys 1 @ [1])\<rparr>, demo_if 1],
     is_adjTable := (\<lambda>l. if l = L1_TYPE then [(demo_adj 2 0)\<lparr>ad_state := False\<rparr>] else [])\<rparr>"

definition demo_lan_hello :: "u8 \<Rightarrow> u8 \<Rightarrow> lan_hello" where
  "demo_lan_hello n prio = \<lparr>lh_level = L1_TYPE, lh_sourceID = demo_sys n, lh_holdTime = 40, lh_priority = prio, lh_lanID = demo_sys n @ [7],
     lh_TLV = [\<lparr>tlv_type = AREA_ADDRESS, tlv_length = 4, tlv_value = [3, 0, 0, 1]\<rparr>,
       \<lparr>tlv_type = IS_NEIGHBOURS_HELLO, tlv_length = 6, tlv_value = mac_bytes (ii_mac (demo_if 0))\<rparr>]\<rparr>"

lemma demo_lan_fields: "is_LSPDb demo_lan = is_LSPDb demo_isis" "is_heap demo_lan = is_heap demo_isis" "is_next demo_lan = is_next demo_isis"
  "flag_queues k b l demo_lan = flag_queues k b l demo_isis" "n_if demo_lan = 2"
  by (cases k; simp add: demo_lan_def flag_queues_def n_if_def)+

lemma demo_lan_inv: "hello_inv demo_lan"
proof -
  have d: "db demo_lan l = (if l = L1_TYPE then {0, 1, 2} else {})" for l by (auto simp: db_def demo_lan_fields demo_level)
  have "i < 2 \<Longrightarrow> flag k demo_lan p i = False" "i < 2 \<Longrightarrow> queue k l demo_lan i = []" for k p i l
    by (auto simp: flag_def queue_def demo_lan_fields demo_flag demo_queues less_2_cases_iff)
  then have "flags_match (db demo_lan) demo_lan"
    by (auto simp: flags_match_def d demo_lan_fields demo_flag demo_queues less_2_cases_iff split: if_splits)
  moreover have "lsp_id demo_lan = lsp_id demo_isis" by (simp add: lsp_id_def rec_lsp_def demo_lan_fields fun_eq_iff)
  then have "ids_ok demo_lan" using demo_inv by (simp add: isis_inv_def ids_ok_def demo_lan_fields db_def)
  moreover have "adjs_ok demo_lan" "sizes_ok demo_lan"
    by (simp_all add: adjs_ok_def sizes_ok_def demo_lan_def demo_isis_def demo_adj_def adj_id_def demo_if_def demo_sys_def)
  ultimately show ?thesis by (simp add: hello_inv_def isis_inv_def)
qed

lemma demo_lan_ok: "lan_ok (demo_lan_hello n prio) 0 demo_lan"
proof -
  have "getLSPFromDbByID (fragment (demo_sys 1 @ [1, 0]) 0) L1_TYPE demo_lan = None"
    by (simp add: getLSPFromDbByID_def rec_lsp_def demo_lan_fields) (simp add: demo_isis_def demo_rec_def demo_lsp_def demo_sys_def fragment_def compareArrays_def)
  then have "purgeable L1_TYPE (demo_sys 1 @ [1, 0]) demo_lan" by (auto simp: purgeable_def demo_sys_def)
  moreover have "dis_lsp_id L1_TYPE (is_ISISIft demo_lan ! getIfaceIndex 0 demo_lan) = demo_sys 1 @ [1, 0]"
    by (simp add: dis_lsp_id_def demo_lan_def getIfaceIndex_def demo_if_def demo_sys_def)
  moreover have "gate_ok 0 demo_lan" by (simp add: gate_ok_def getIfaceByGateIndex_def demo_lan_def demo_if_def)
  ultimately show ?thesis by (simp add: lan_ok_def demo_lan_hello_def)
qed

lemma demo_lan_area: "\<not> checkDuplicate_lan (demo_lan_hello 2 64) demo_lan" "area_ok (lh_TLV (demo_lan_hello n prio)) (is_areaId demo_lan)"
  "getAdj (lh_sourceID (demo_lan_hello 2 64)) 2 0 L1_TYPE (lh_TLV (demo_lan_hello 2 64)) demo_lan = Some 0"
  by (simp_all add: checkDuplicate_lan_def demo_lan_hello_def demo_lan_def demo_isis_def demo_sys_def compareArrays_def area_ok_def tlvs_from_0 isAreaIDOK_def
      AREA_ADDRESS_def IS_NEIGHBOURS_HELLO_def getAdj_def adj_is_def demo_adj_def)

theorem isis_lan_handshake_witness:
  "\<exists>s' a. handleL1HelloMsg 0 0 (demo_lan_hello 2 64) 2 0 demo_lan = Some s' \<and> is_adjTable s' L1_TYPE = [a] \<and> ad_state a \<and> ad_due a = sec 40"
proof -
  have t: "getTLVByType (lh_TLV (demo_lan_hello 2 64)) IS_NEIGHBOURS_HELLO 0 = Some \<lparr>tlv_type = IS_NEIGHBOURS_HELLO, tlv_length = 6, tlv_value = mac_bytes (ii_mac (demo_if 0))\<rparr>"
    by (simp add: demo_lan_hello_def AREA_ADDRESS_def IS_NEIGHBOURS_HELLO_def)
  have f: "getIfaceByGateIndex 0 demo_lan = Some ((demo_if 0)\<lparr>ii_network := True, ii_DIS := (\<lambda>_. demo_sys 1 @ [1])\<rparr>)"
    by (simp add: getIfaceByGateIndex_def demo_lan_def demo_if_def)
  have see: "sees_me \<lparr>tlv_type = IS_NEIGHBOURS_HELLO, tlv_length = 6, tlv_value = mac_bytes m\<rparr> m" for m
    by (simp add: sees_me_def copy_bytes_def mac_bytes_def)
  have "lh_level (demo_lan_hello 2 64) = L1_TYPE" by (simp add: demo_lan_hello_def)
  from isis_lan_handshake [OF demo_lan_inv demo_lan_ok this demo_lan_area(1,2), of 0 0 2]
  show ?thesis unfolding demo_lan_area(3)
    by (auto simp: t f see) (simp add: demo_lan_def hold_until_def demo_lan_hello_def)
qed

section \<open>Dead neighbours and the designated system\<close>

lemma L1_loop_result:
  assumes "hello_inv s" and "nt_level t = L1_TYPE" and "removeDeadNeighbour now t s = Some s'"
    and "purgeable L1_TYPE (nt_LSPid t) s"
  shows "is_adjTable s' L1_TYPE = sort_key adj_key (filter (\<lambda>a. \<not> timer_sys t a) (is_adjTable s L1_TYPE))"
proof -
  let ?xs = "filter (\<lambda>a. \<not> timer_sys t a) (is_adjTable s L1_TYPE)"
  let ?s0 = "s\<lparr>is_adjTable := (is_adjTable s)(L1_TYPE := sort_key adj_key ?xs)\<rparr>"
  have ends: "remove_dead_L1 t 0 (is_adjTable s L1_TYPE) = Some ?xs"
    using assms(2,3) by (auto simp: removeDeadNeighbour_def remove_dead_L1_returns split: bind_splits if_splits)
  have "hello_inv ?s0"
    using assms(1) by (intro hello_inv_tables) (auto simp: hello_inv_def adjs_ok_def distinct_map_filter)
  then have i0: "isis_inv ?s0" by (simp add: hello_inv_def)
  have "purgeable L1_TYPE (nt_LSPid t) ?s0" using assms(4) by (simp add: purgeable_def getLSPFromDbByID_def rec_lsp_def)
  then have p: "run_ok (purgeRemainLSP now (nt_LSPid t) L1_TYPE ?s0) (lsps_kept ?s0)" by (rule run_purge [OF i0])
  obtain s1 f where s1: "purgeRemainLSP now (nt_LSPid t) L1_TYPE ?s0 = Some s1" "vec_at (is_ISISIft s1) (nt_interfaceIndex t) = Some f"
    and s': "(if ii_network f then resetDIS (nt_LSPid t) (nt_interfaceIndex t) L1_TYPE s1 else Some s1) = Some s'"
    using assms(2,3) ends by (auto simp: removeDeadNeighbour_def Let_def split: bind_splits)
  have "is_adjTable s1 = is_adjTable ?s0" using p s1(1) by (simp add: lsps_kept_def kept_conf_def)
  moreover have "is_adjTable s' = is_adjTable s1"
    using s' by (auto simp: resetDIS_def mod_if_def split: bind_splits if_splits)
  ultimately show ?thesis by simp
qed

text \<open>C37: When the timer of a level 1 neighbour expires, the handler returns exactly if every level 1 adjacency is on
  the gate of the timer: at an adjacency of another gate the loop goes round without advancing. When it returns, the
  adjacencies of the neighbour have left the table and the others are still in it.\<close>

theorem isis_dead_neighbour_loop:
  assumes "hello_inv s" and "nt_level t = L1_TYPE" and "nt_interfaceIndex t < n_if s" and "purgeable L1_TYPE (nt_LSPid t) s"
  shows "case removeDeadNeighbour now t s of
      None \<Rightarrow> \<exists>a\<in>set (is_adjTable s L1_TYPE). ad_gateIndex a \<noteq> nt_gateIndex t
    | Some s' \<Rightarrow> (\<forall>a\<in>set (is_adjTable s L1_TYPE). ad_gateIndex a = nt_gateIndex t) \<and>
        is_adjTable s' L1_TYPE = sort_key adj_key (filter (\<lambda>a. take 6 (ad_sysID a) \<noteq> take 6 (nt_sysID t)) (is_adjTable s L1_TYPE))"
proof (cases "\<forall>a\<in>set (is_adjTable s L1_TYPE). ad_gateIndex a = nt_gateIndex t")
  case True
  then have "dead_ok t s" using assms by (simp add: dead_ok_def)
  then obtain s' where s': "removeDeadNeighbour now t s = Some s'"
    using run_removeDeadNeighbour [OF assms(1)] by (auto simp: run_ok_ex)
  have e: "(\<lambda>a. take 6 (ad_sysID a) \<noteq> take 6 (nt_sysID t)) = (\<lambda>a. \<not> timer_sys t a)" by (auto simp: timer_sys_def)
  show ?thesis using True s' L1_loop_result [OF assms(1,2) s' assms(4)] by (simp add: e)
next
  case False
  then have "removeDeadNeighbour now t s = None" using assms(2) unfolding removeDeadNeighbour_def by (simp only: remove_dead_L1_returns) simp
  then show ?thesis using False by simp
qed

theorem isis_dead_neighbour_loop_witness:
  "removeDeadNeighbour 0 (ad_timer (demo_adj 2 0)) demo_isis = None"
proof -
  have "getLSPFromDbByID (fragment (demo_sys 2 @ [0, 0]) 1) L1_TYPE demo_isis = None"
    by (simp add: getLSPFromDbByID_def rec_lsp_def) (simp add: demo_isis_def demo_rec_def demo_lsp_def demo_sys_def fragment_def compareArrays_def)
  then have "purgeable L1_TYPE (nt_LSPid (ad_timer (demo_adj 2 0))) demo_isis" by (auto simp: purgeable_def demo_adj_def demo_sys_def)
  moreover have "nt_level (ad_timer (demo_adj 2 0)) = L1_TYPE" "nt_interfaceIndex (ad_timer (demo_adj 2 0)) < n_if demo_isis"
    "is_adjTable demo_isis L1_TYPE = [demo_adj 2 0, demo_adj 3 1]" "ad_gateIndex (demo_adj 3 1) = 1" "nt_gateIndex (ad_timer (demo_adj 2 0)) = 0"
    by (simp_all add: demo_adj_def) (simp add: demo_isis_def demo_adj_def)
  ultimately show ?thesis using isis_dead_neighbour_loop [OF demo_hello_inv, of "ad_timer (demo_adj 2 0)" 0]
    by (cases "removeDeadNeighbour 0 (ad_timer (demo_adj 2 0)) demo_isis") simp_all
qed

text \<open>C38: The election of the designated system stores the LAN id of a better hello but not its priority: the interface
  keeps its own priority, so a second hello with any priority above that one, however low beside that of the elected
  system, takes the LAN over again.\<close>

theorem isis_dis_last_hello_wins:
  assumes "hello_inv s" and "lan_ok h g s" and "i = getIfaceIndex g s" and "l = lh_level h"
    and "lh_priority h > ii_DISpriority (is_ISISIft s ! i) l" and "lh_lanID h \<noteq> ii_DIS (is_ISISIft s ! i) l"
  shows "\<exists>s'. electDIS now h g s = Some s' \<and> is_ISISIft s' = (is_ISISIft s)[i := (is_ISISIft s ! i)\<lparr>ii_DIS := (ii_DIS (is_ISISIft s ! i))(l := lh_lanID h)\<rparr>]"
proof -
  have g: "gate_ok g s" and len: "length (lh_lanID h) = 7" and p: "purgeable l (dis_lsp_id l (is_ISISIft s ! i)) s"
    using assms(2) by (simp_all add: lan_ok_def assms(3,4))
  note i = gate_ok_at [OF g]
  have "is_ISISIft s ! i \<in> set (is_ISISIft s)" using i(1) by (simp add: assms(3) n_if_def)
  then have "length (ii_DIS (is_ISISIft s ! i) l) = 7" using assms(1) by (simp add: hello_inv_def sizes_ok_def)
  then have w: "dis_wins h g s" using assms(5,6) len by (simp add: dis_wins_def Let_def assms(3,4))
  obtain s1 where s1: "purgeRemainLSP now (dis_lsp_id l (is_ISISIft s ! i)) l s = Some s1" "lsps_kept s s1"
    using run_purge [OF _ p] assms(1) by (auto simp: run_ok_ex hello_inv_def)
  have "is_ISISIft s1 = is_ISISIft s" using s1(2) by (simp add: lsps_kept_def kept_conf_def)
  then show ?thesis using s1(1) len w i(1)
    by (simp add: electDIS_eq [OF g] assms(3,4) mod_if_def vec_modify_def n_if_def)
qed

theorem isis_dis_last_hello_wins_witness:
  "\<exists>s' f. electDIS 0 (demo_lan_hello 3 65) 0 demo_lan = Some s' \<and> is_ISISIft s' ! 0 = f \<and>
     ii_DIS f L1_TYPE = demo_sys 3 @ [7] \<and> ii_DISpriority f L1_TYPE = 64"
proof -
  have c: "0 = getIfaceIndex 0 demo_lan" "L1_TYPE = lh_level (demo_lan_hello 3 65)"
    by (simp_all add: getIfaceIndex_def demo_lan_def demo_if_def demo_lan_hello_def)
  have "lh_priority (demo_lan_hello 3 65) > ii_DISpriority (is_ISISIft demo_lan ! 0) L1_TYPE"
    "lh_lanID (demo_lan_hello 3 65) \<noteq> ii_DIS (is_ISISIft demo_lan ! 0) L1_TYPE"
    by (simp_all add: demo_lan_hello_def demo_lan_def demo_if_def demo_sys_def)
  from isis_dis_last_hello_wins [OF demo_lan_inv demo_lan_ok c this, of 0]
  obtain s' where s': "electDIS 0 (demo_lan_hello 3 65) 0 demo_lan = Some s'"
    and f: "is_ISISIft s' = (is_ISISIft demo_lan)[0 := (is_ISISIft demo_lan ! 0)
      \<lparr>ii_DIS := (ii_DIS (is_ISISIft demo_lan ! 0))(L1_TYPE := lh_lanID (demo_lan_hello 3 65))\<rparr>]" by blast
  have "ii_DIS (is_ISISIft s' ! 0) L1_TYPE = demo_sys 3 @ [7]" "ii_DISpriority (is_ISISIft s' ! 0) L1_TYPE = 64"
    by (simp_all add: f) (simp_all add: demo_lan_def demo_if_def demo_lan_hello_def)
  then show ?thesis using s' by blast
qed

end
