(* ===== verification/Spec2Isabelle.thy ===== *)
theory Spec2Isabelle
  imports Port_Table Switch_Core Acl Ripng_Properties Pim_Properties Pim_Sparse_Properties Isis_Properties
begin

text \<open>
  ANSA extends the INET simulation framework, under OMNeT++, with models of network devices. Its own code is
  under \<open>src/src/ansa\<close>; the rest of \<open>src/src\<close> is the framework. This development models the protocol logic of
  the extension. Components do not share memory: a module receives messages, timers and notifications from the
  simulation kernel, changes its own tables, and sends messages.

  Layer by layer, with the theory that models each part:

  \<^item> Shared: \<open>Ansa_Prelude\<close> (machine words, simulation time, checked access to vectors, search loops),
    \<open>Std_Map\<close> (\<open>std::map\<close>, with its contract as a locale), \<open>Event_Machine\<close> (a module as a machine with an
    invariant, as a locale), \<open>Text\<close> (numbers and IPv4 addresses in text).

  \<^item> The switch, \<open>linklayer/switch\<close>: \<open>Mac_Table\<close> (\<open>macTable.cc\<close>), \<open>Vlan_Table\<close> (\<open>vlanTable.cc\<close>), \<open>Port_Table\<close>
    (\<open>portTable.cc\<close>), the spanning tree in \<open>Stp_Instance\<close> (\<open>stp/stpi.cc\<close>), \<open>Stp_Election\<close>, \<open>Stp_Safety\<close>,
    \<open>Stp_Properties\<close> and \<open>Stp_Module\<close> (\<open>stp/stp.cc\<close>), and \<open>Switch_Core\<close> (\<open>ansaSwitchCore.cc\<close>), which
    joins them: a frame is tagged, filtered, learned, looked up, filtered again and sent. The switch properties
    say that a frame leaves only on ports its VLAN and the spanning tree allow, that the election finds the best
    root heard, and that ports change state one stage at a time.

  \<^item> The access lists, \<open>acl/acl.cc\<close> and \<open>AclContainer.cc\<close>, in \<open>Acl\<close>: the reader of the configuration and the
    filter. The first rule that matches decides the verdict and is counted; but the module asks the filter only for
    messages of a class that the datagrams of this tree do not have, so no IPv4 datagram is filtered.

  \<^item> IPv6 routing: \<open>Ipv6_Address\<close> (masks and prefixes), \<open>Routing_Table6\<close> (\<open>RoutingTable6.cc\<close> and
    \<open>ANSARoutingTable6.cc\<close>), and \<open>Ripng\<close>, \<open>Ripng_Invariant\<close>, \<open>Ripng_Reachable\<close>, \<open>Ripng_Properties\<close>
    (\<open>applications/ripng/RIPngRouting.cc\<close>): lookup is longest prefix match, and RIPng refines a distance vector
    rule and keeps its copies in the routing table in step. Metrics are taken from signed bytes unchecked, and an
    announcement of 128 or more wins.

  \<^item> Multicast, \<open>networklayer/pim\<close> and \<open>networklayer/ipv4\<close>: \<open>Pim_Tables\<close> (neighbours, interfaces, routes),
    \<open>Pim_Router\<close> (the splitter and the forwarding of data), \<open>Pim_Dense\<close> (\<open>modes/pimDM.cc\<close>), \<open>Pim_Sparse\<close>
    (\<open>modes/pimSM.cc\<close>), \<open>Pim_Invariant\<close>, \<open>Pim_Handlers\<close>, \<open>Pim_Notify\<close>, \<open>Pim_Reachable\<close> (every handler of dense
    mode keeps the tables and timers well formed and does not fail), \<open>Pim_Properties\<close> and
    \<open>Pim_Sparse_Properties\<close>. Data is sent at most once by each forwarding interface of its route; the one case in
    which it goes back where it came from is characterised.

  \<^item> Link state routing, \<open>networklayer/isis\<close> and \<open>networklayer/clns\<close>, for network layer routing
    (\<open>L3_ISIS_MODE\<close>): \<open>Isis_Types\<close> (the state of \<open>ISIS.cc\<close>, its messages and lookups), \<open>Isis_Spf\<close> (from the LSP
    database to the routes of \<open>CLNSTable.cc\<close>: \<open>fullSPF\<close>), \<open>Isis_Spf_Correct\<close>, \<open>Isis_Spf_Hops\<close>,
    \<open>Isis_Spf_Properties\<close> (shortest paths and next hops), \<open>Isis_Lsp\<close> (the LSPs of this system: \<open>genLSP\<close>),
    \<open>Isis_Flooding\<close> (flags and queues, the database, \<open>handleLsp\<close>, \<open>periodicSend\<close>, \<open>generateLSP\<close>), \<open>Isis_Snp\<close>
    (sequence number packets), \<open>Isis_Invariant\<close>, \<open>Isis_Update\<close>, \<open>Isis_Update_Events\<close>, \<open>Isis_Update_Send\<close>,
    \<open>Isis_Update_Own\<close> (every operation of the update process keeps flags and queues in step and does not fail),
    \<open>Isis_Hello\<close> and \<open>Isis_Adjacency\<close> (hellos, the designated system, neighbours that die), \<open>Isis_Machine\<close>
    (\<open>handleMessage\<close>) and \<open>Isis_Properties\<close>. Fields that the code has once for each level are functions of the
    level. The heap of LSP records is a function, since queues point to records; the bounds are those the code
    needs: 2 to the power of 24 connections (a path's metric is 32 bits), 133 neighbours (one LSP), 42 adjacencies
    (the length of a hello's TLV is one byte) and 15 entries of a sequence number packet's TLV.

  How the code is read. A C++ class is a record; an operation is a function that returns the changed record.
  \<open>None\<close> is a run that ends with an exception, follows a null pointer or leaves a vector; where several of these
  occur a sum names them. Pointers whose identity matters (timers, routes, LSP records) are numbers. The clock is
  an argument; what an operation sends is a field or a result. Draws from the random generator and
  \<open>std::sort\<close>, which orders equal elements as it likes, are arguments: locales (\<open>route_sorter\<close>, for one) state
  what is used of them (\<open>path_sorter\<close> for IS-IS) and are interpreted on an insertion sort. In IS-IS the content
  of new memory and the addresses by which \<open>getLspRange\<close> sorts are arguments too. Loops that the code does not
  bound (\<open>lpm_loop\<close>, \<open>addRoutingTableEntryToGlobalRT\<close>, \<open>spf_loop\<close>, \<open>area_loop\<close>, \<open>put_lsps\<close>,
  \<open>purgeRemainLSP\<close>, \<open>psnp_fill\<close>, \<open>psnp_tlvs\<close>, \<open>remove_dead_L1\<close>) are partial functions whose \<open>None\<close> is a run
  that does not return; no fuel is used. That they return, or the state in which they do not, is a theorem.

  Not modelled, and why: module start-up, gates and the reading of XML where it is plain glue; of IS-IS the hellos
  of TRILL mode, the intervals at which timers are scheduled, printing, and functions the code calls deprecated
  or never calls; the Ethernet MAC,
  a variant of the framework's; the traffic generator and the scenario tools; RBridges (\<open>linklayer/rbridge\<close>),
  whose tables repeat those of the switch; the framework itself and its vendored stacks, which are not this
  repository's own code.
\<close>

end
